(* ===== verification/Prelude.thy ===== *)
theory Prelude
  imports Main "HOL-Library.AList" "HOL-Library.Word"
begin

text \<open>
  Shared material of the development: exceptions as values, the containers of the C++ code
  (the hash maps as association lists, \<open>std::map\<close> as a key-sorted association list) and
  the generic lemmas on them that the component theories use.

  The signed 64-bit amounts, sizes and prices of the program are mathematical integers here.
  Signed overflow is undefined behaviour in C++, so the definitions describe the runs in which
  no intermediate result leaves the range; \<open>fits_int64\<close> states that range where a
  property depends on it. State hashes, which wrap on purpose, are machine words.
\<close>

section \<open>Exceptions\<close>

datatype exn =
    Invalid_Argument string
  | Runtime_Error string
  | Dangling_Pointer
  | Out_Of_Bounds
  | Out_Of_Fuel

text \<open>\<open>bindE\<close> sequences two steps of which the first may throw.\<close>

definition bindE :: "exn + 'a \<Rightarrow> ('a \<Rightarrow> exn + 'b) \<Rightarrow> exn + 'b" where
  "bindE r k = (case r of Inl e \<Rightarrow> Inl e | Inr x \<Rightarrow> k x)"

lemma bindE_simps [simp]:
  "bindE (Inl e) k = Inl e"
  "bindE (Inr x) k = k x"
  by (simp_all add: bindE_def)

lemma bindE_eq_Inr: "bindE r k = Inr y \<longleftrightarrow> (\<exists>x. r = Inr x \<and> k x = Inr y)"
  by (cases r) auto

lemma bindE_eq_Inl: "bindE r k = Inl e \<longleftrightarrow> r = Inl e \<or> (\<exists>x. r = Inr x \<and> k x = Inl e)"
  by (cases r) auto

section \<open>Integer limits\<close>

definition INT64_MAX :: int where
  "INT64_MAX = 9223372036854775807"

definition INT32_MAX :: int where
  "INT32_MAX = 2147483647"

definition fits_int64 :: "int \<Rightarrow> bool" where
  "fits_int64 x \<longleftrightarrow> - INT64_MAX - 1 \<le> x \<and> x \<le> INT64_MAX"

section \<open>Hash maps\<close>

text \<open>
  \<open>ankerl::unordered_dense::map\<close> is an association list with one entry per key; its order
  stands for the iteration order. \<open>um_get0\<close> reads \<open>m[k]\<close> of a map to integers (a missing
  key is value-initialised to 0) and \<open>um_add\<close> is \<open>m[k] += x\<close>.
\<close>

type_synonym ('k, 'v) umap = "('k \<times> 'v) list"

abbreviation um_find :: "('k, 'v) umap \<Rightarrow> 'k \<Rightarrow> 'v option" where
  "um_find \<equiv> map_of"

abbreviation um_put :: "'k \<Rightarrow> 'v \<Rightarrow> ('k, 'v) umap \<Rightarrow> ('k, 'v) umap" where
  "um_put \<equiv> AList.update"

abbreviation um_erase :: "'k \<Rightarrow> ('k, 'v) umap \<Rightarrow> ('k, 'v) umap" where
  "um_erase \<equiv> AList.delete"

definition um_get0 :: "('k, int) umap \<Rightarrow> 'k \<Rightarrow> int" where
  "um_get0 m k = (case um_find m k of None \<Rightarrow> 0 | Some v \<Rightarrow> v)"

definition um_add :: "'k \<Rightarrow> int \<Rightarrow> ('k, int) umap \<Rightarrow> ('k, int) umap" where
  "um_add k x m = um_put k (um_get0 m k + x) m"

text \<open>Reading \<open>m[k]\<close> of a missing key leaves an entry with 0 behind.\<close>

definition um_touch :: "'k \<Rightarrow> ('k, int) umap \<Rightarrow> ('k, int) umap" where
  "um_touch k m = um_add k 0 m"

lemma um_find_put [simp]: "um_find (um_put k v m) = (um_find m)(k \<mapsto> v)"
  by (simp add: update_conv')

lemma um_find_erase [simp]: "um_find (um_erase k m) = (um_find m)(k := None)"
  by (simp add: delete_conv')

lemma um_get0_put [simp]: "um_get0 (um_put k v m) k' = (if k' = k then v else um_get0 m k')"
  by (simp add: um_get0_def)

lemma um_get0_add [simp]: "um_get0 (um_add k x m) k' = um_get0 m k' + (if k' = k then x else 0)"
  by (simp add: um_add_def)

lemma um_get0_touch [simp]: "um_get0 (um_touch k m) k' = um_get0 m k'"
  by (simp add: um_touch_def)

lemma um_get0_Nil [simp]: "um_get0 [] k = 0"
  by (simp add: um_get0_def)

text \<open>The sum of a measure over the values of a map, and how updates change it.\<close>

definition um_sum :: "('v \<Rightarrow> int) \<Rightarrow> ('k, 'v) umap \<Rightarrow> int" where
  "um_sum f m = sum_list (map (f \<circ> snd) m)"

lemma um_sum_Nil [simp]: "um_sum f [] = 0"
  by (simp add: um_sum_def)

lemma um_sum_Cons [simp]: "um_sum f (p # m) = f (snd p) + um_sum f m"
  by (simp add: um_sum_def)

lemma um_sum_put:
  "um_sum f (um_put k v m) =
     um_sum f m + f v - (case um_find m k of None \<Rightarrow> 0 | Some w \<Rightarrow> f w)"
  by (induction m) auto

lemma um_sum_put_Some: "um_find m k = Some w \<Longrightarrow> um_sum f (um_put k v m) = um_sum f m + f v - f w"
  by (simp add: um_sum_put)

lemma um_sum_put_None: "um_find m k = None \<Longrightarrow> um_sum f (um_put k v m) = um_sum f m + f v"
  by (simp add: um_sum_put)

lemma um_erase_None: "um_find m k = None \<Longrightarrow> um_erase k m = m"
  by (induction m) (auto split: if_splits)

lemma um_sum_erase:
  "distinct (map fst m) \<Longrightarrow>
   um_sum f (um_erase k m) = um_sum f m - (case um_find m k of None \<Rightarrow> 0 | Some w \<Rightarrow> f w)"
proof (induction m)
  case Nil
  then show ?case by simp
next
  case (Cons p m)
  show ?case
  proof (cases "fst p = k")
    case True
    with Cons.prems have "um_find m k = None" by (auto simp: map_of_eq_None_iff)
    with True show ?thesis by (simp add: um_erase_None)
  next
    case False
    with Cons show ?thesis by (cases p) auto
  qed
qed

section \<open>Ordered maps\<close>

text \<open>
  \<open>std::map\<close> is an association list sorted by its comparison \<open>lt\<close> (\<open>std::less\<close> or
  \<open>std::greater\<close>); iteration follows the list.
\<close>

fun smap_put :: "('k \<Rightarrow> 'k \<Rightarrow> bool) \<Rightarrow> 'k \<Rightarrow> 'v \<Rightarrow> ('k \<times> 'v) list \<Rightarrow> ('k \<times> 'v) list" where
  "smap_put lt k v [] = [(k, v)]"
| "smap_put lt k v ((k', w) # m) =
     (if lt k k' then (k, v) # (k', w) # m
      else if k = k' then (k, v) # m
      else (k', w) # smap_put lt k v m)"

definition smap_erase :: "'k \<Rightarrow> ('k \<times> 'v) list \<Rightarrow> ('k \<times> 'v) list" where
  "smap_erase k m = filter (\<lambda>e. fst e \<noteq> k) m"

abbreviation smap_sorted :: "('k \<Rightarrow> 'k \<Rightarrow> bool) \<Rightarrow> ('k \<times> 'v) list \<Rightarrow> bool" where
  "smap_sorted lt m \<equiv> sorted_wrt lt (map fst m)"

lemma set_smap_put: "set (smap_put lt k v m) \<subseteq> insert (k, v) (set m)"
proof (induction m)
  case Nil
  then show ?case by simp
next
  case (Cons p m)
  then show ?case by (cases p) auto
qed

lemma fst_set_smap_put: "fst ` set (smap_put lt k v m) = insert k (fst ` set m)"
proof (induction m)
  case Nil
  then show ?case by simp
next
  case (Cons p m)
  then show ?case by (cases p) auto
qed

lemma smap_sorted_put:
  assumes tr: "transp lt" and tot: "totalp lt" and s: "smap_sorted lt m"
  shows "smap_sorted lt (smap_put lt k v m)"
  using s
proof (induction m)
  case Nil
  then show ?case by simp
next
  case (Cons p m)
  obtain k' w where p: "p = (k', w)" by (cases p)
  show ?case
  proof (cases "lt k k'")
    case True
    with Cons.prems p tr show ?thesis by (auto dest: transpD)
  next
    case False
    show ?thesis
    proof (cases "k = k'")
      case True
      with Cons.prems p False show ?thesis by auto
    next
      case neq: False
      with tot False have "lt k' k" by (auto dest: totalpD)
      moreover have "set (map fst (smap_put lt k v m)) = insert k (set (map fst m))"
        using fst_set_smap_put[of lt k v m] by (simp only: set_map)
      moreover have "\<forall>x \<in> set (map fst m). lt k' x" and "smap_sorted lt m"
        using Cons.prems p by auto
      ultimately show ?thesis
        using Cons.IH False neq by (simp add: p del: set_map)
    qed
  qed
qed

lemma smap_sorted_erase: "smap_sorted lt m \<Longrightarrow> smap_sorted lt (smap_erase k m)"
  unfolding smap_erase_def by (induction m) auto

lemma smap_sorted_distinct:
  assumes "irreflp lt" and "smap_sorted lt m" shows "distinct (map fst m)"
  using assms(2)
proof (induction m)
  case Nil
  then show ?case by simp
next
  case (Cons p m)
  then have "\<forall>x \<in> set (map fst m). lt (fst p) x" by simp
  then have "fst p \<notin> set (map fst m)" using assms(1) by (blast dest: irreflpD)
  with Cons show ?case by simp
qed

lemma map_of_smap_erase: "map_of (smap_erase k m) = (map_of m)(k := None)"
  unfolding smap_erase_def by (induction m) (auto simp: fun_eq_iff)

lemma map_of_smap_put:
  assumes ir: "irreflp lt" and tr: "transp lt" and "smap_sorted lt m"
  shows "map_of (smap_put lt k v m) = (map_of m)(k \<mapsto> v)"
  using assms(3)
proof (induction m)
  case Nil
  then show ?case by simp
next
  case (Cons p m)
  obtain k' w where p: "p = (k', w)" by (cases p)
  show ?case
    using Cons p by auto
qed

section \<open>Lists\<close>

lemma map_cong_on: "(\<And>x. x \<in> set xs \<Longrightarrow> f x = g x) \<Longrightarrow> map f xs = map g xs"
  by simp

lemma sorted_wrt_dropWhile: "sorted_wrt P xs \<Longrightarrow> sorted_wrt P (dropWhile Q xs)"
  by (induction xs) auto

lemma sorted_wrt_filterI: "sorted_wrt P xs \<Longrightarrow> sorted_wrt P (filter Q xs)"
  by (induction xs) auto

lemma filter_neq_id: "a \<notin> set xs \<Longrightarrow> filter (\<lambda>x. x \<noteq> a) xs = xs"
  by (auto simp: filter_id_conv)

text \<open>A sorted association list is determined by its map.\<close>

lemma sorted_assoc_unique:
  fixes xs ys :: "('k :: linorder \<times> 'v) list"
  assumes "sorted_wrt (<) (map fst xs)" and "sorted_wrt (<) (map fst ys)" and "map_of xs = map_of ys"
  shows "xs = ys"
proof -
  have d: "distinct (map fst xs)" "distinct (map fst ys)"
    using assms(1,2) strict_sorted_iff by blast+
  have s: "set xs = set ys" using map_of_inject_set[OF d] assms(3) by simp
  then have k: "map fst xs = map fst ys"
    using strict_sorted_equal[OF assms(2,1)] by (metis list.set_map)
  have "map (\<lambda>k. (k, the (map_of zs k))) (map fst zs) = zs" if "distinct (map fst zs)" for zs :: "('k \<times> 'v) list"
    using that by (auto simp: comp_def intro!: map_idI)
  with d k assms(3) show ?thesis by metis
qed

end
