(* ===== verification/Types.thy ===== *)
theory Types
  imports Prelude
begin

text \<open>
  The data the components exchange (\<open>include/exchange/core/common\<close>): the enumerations with
  their wire codes, the symbol specification, resting orders, matcher events, level-two market
  data and the order command that travels through the ring buffer. A chain of
  \<open>MatcherTradeEvent\<close> nodes linked by \<open>nextEvent\<close> is a list, and a null chain is the empty
  list. Record fields carry a prefix (\<open>ord_\<close>, \<open>ev_\<close>, \<open>cmd_\<close>, \<open>sp_\<close>, \<open>l2_\<close>), since the
  C++ structures share field names.
\<close>

section \<open>Enumerations\<close>

datatype order_action = ASK | BID

fun order_action_from_code :: "int \<Rightarrow> exn + order_action" where
  "order_action_from_code code =
     (if code = 0 then Inr ASK
      else if code = 1 then Inr BID
      else Inl (Invalid_Argument ''unknown OrderAction''))"

fun order_action_to_code :: "order_action \<Rightarrow> int" where
  "order_action_to_code ASK = 0"
| "order_action_to_code BID = 1"

fun opposite :: "order_action \<Rightarrow> order_action" where
  "opposite ASK = BID"
| "opposite BID = ASK"

datatype order_type = GTC | IOC | IOC_BUDGET | FOK | FOK_BUDGET

fun order_type_from_code :: "int \<Rightarrow> exn + order_type" where
  "order_type_from_code code =
     (if code = 0 then Inr GTC
      else if code = 1 then Inr IOC
      else if code = 2 then Inr IOC_BUDGET
      else if code = 3 then Inr FOK
      else if code = 4 then Inr FOK_BUDGET
      else Inl (Invalid_Argument ''unknown OrderType''))"

fun order_type_to_code :: "order_type \<Rightarrow> int" where
  "order_type_to_code GTC = 0"
| "order_type_to_code IOC = 1"
| "order_type_to_code IOC_BUDGET = 2"
| "order_type_to_code FOK = 3"
| "order_type_to_code FOK_BUDGET = 4"

datatype symbol_type = CURRENCY_EXCHANGE_PAIR | FUTURES_CONTRACT | OPTION

fun symbol_type_from_code :: "int \<Rightarrow> exn + symbol_type" where
  "symbol_type_from_code code =
     (if code = 0 then Inr CURRENCY_EXCHANGE_PAIR
      else if code = 1 then Inr FUTURES_CONTRACT
      else if code = 2 then Inr OPTION
      else Inl (Invalid_Argument ''unknown SymbolType code''))"

fun symbol_type_to_code :: "symbol_type \<Rightarrow> int" where
  "symbol_type_to_code CURRENCY_EXCHANGE_PAIR = 0"
| "symbol_type_to_code FUTURES_CONTRACT = 1"
| "symbol_type_to_code OPTION = 2"

datatype position_direction = LONG | SHORT | EMPTY

fun get_multiplier :: "position_direction \<Rightarrow> int" where
  "get_multiplier LONG = 1"
| "get_multiplier SHORT = -1"
| "get_multiplier EMPTY = 0"

fun position_direction_from_order_action :: "order_action \<Rightarrow> position_direction" where
  "position_direction_from_order_action action = (if action = BID then LONG else SHORT)"

fun position_direction_from_code :: "int \<Rightarrow> exn + position_direction" where
  "position_direction_from_code code =
     (if code = 1 then Inr LONG
      else if code = -1 then Inr SHORT
      else if code = 0 then Inr EMPTY
      else Inl (Invalid_Argument ''unknown PositionDirection''))"

fun is_opposite_to_action :: "position_direction \<Rightarrow> order_action \<Rightarrow> bool" where
  "is_opposite_to_action direction action =
     ((direction = LONG \<and> action = ASK) \<or> (direction = SHORT \<and> action = BID))"

fun is_same_as_action :: "position_direction \<Rightarrow> order_action \<Rightarrow> bool" where
  "is_same_as_action direction action =
     ((direction = LONG \<and> action = BID) \<or> (direction = SHORT \<and> action = ASK))"

datatype matcher_event_type = TRADE | REDUCE | REJECT | BINARY_EVENT

fun matcher_event_type_from_code :: "int \<Rightarrow> exn + matcher_event_type" where
  "matcher_event_type_from_code code =
     (if code = 0 then Inr TRADE
      else if code = 1 then Inr REDUCE
      else if code = 2 then Inr REJECT
      else if code = 3 then Inr BINARY_EVENT
      else Inl (Invalid_Argument ''unknown MatcherEventType''))"

fun matcher_event_type_to_code :: "matcher_event_type \<Rightarrow> int" where
  "matcher_event_type_to_code TRADE = 0"
| "matcher_event_type_to_code REDUCE = 1"
| "matcher_event_type_to_code REJECT = 2"
| "matcher_event_type_to_code BINARY_EVENT = 3"

datatype balance_adjustment_type = ADJUSTMENT | SUSPEND

fun balance_adjustment_type_from_code :: "int \<Rightarrow> exn + balance_adjustment_type" where
  "balance_adjustment_type_from_code code =
     (if code = 0 then Inr ADJUSTMENT
      else if code = 1 then Inr SUSPEND
      else Inl (Invalid_Argument ''unknown BalanceAdjustmentType''))"

fun balance_adjustment_type_to_code :: "balance_adjustment_type \<Rightarrow> int" where
  "balance_adjustment_type_to_code ADJUSTMENT = 0"
| "balance_adjustment_type_to_code SUSPEND = 1"

datatype user_status = ACTIVE | SUSPENDED

fun user_status_from_code :: "int \<Rightarrow> exn + user_status" where
  "user_status_from_code code =
     (if code = 0 then Inr ACTIVE
      else if code = 1 then Inr SUSPENDED
      else Inl (Invalid_Argument ''unknown UserStatus''))"

fun user_status_to_code :: "user_status \<Rightarrow> int" where
  "user_status_to_code ACTIVE = 0"
| "user_status_to_code SUSPENDED = 1"

lemma order_action_code_roundtrip: "order_action_from_code (order_action_to_code a) = Inr a"
  by (cases a) auto

lemma order_type_code_roundtrip: "order_type_from_code (order_type_to_code t) = Inr t"
  by (cases t) auto

lemma symbol_type_code_roundtrip: "symbol_type_from_code (symbol_type_to_code t) = Inr t"
  by (cases t) auto

lemma position_direction_code_roundtrip: "position_direction_from_code (get_multiplier d) = Inr d"
  by (cases d) auto

lemma matcher_event_type_code_roundtrip:
  "matcher_event_type_from_code (matcher_event_type_to_code t) = Inr t"
  by (cases t) auto

lemma balance_adjustment_type_code_roundtrip:
  "balance_adjustment_type_from_code (balance_adjustment_type_to_code t) = Inr t"
  by (cases t) auto

lemma user_status_code_roundtrip: "user_status_from_code (user_status_to_code s) = Inr s"
  by (cases s) auto

lemma opposite_opposite [simp]: "opposite (opposite a) = a"
  by (cases a) auto

lemma opposite_neq [simp]: "opposite a \<noteq> a" "a \<noteq> opposite a"
  by (cases a; simp)+

section \<open>Result codes\<close>

datatype result_code =
    NEW | VALID_FOR_MATCHING_ENGINE | SUCCESS | ACCEPTED
  | AUTH_INVALID_USER | AUTH_TOKEN_EXPIRED
  | INVALID_SYMBOL | INVALID_PRICE_STEP | UNSUPPORTED_SYMBOL_TYPE
  | RISK_NSF | RISK_INVALID_RESERVE_BID_PRICE | RISK_ASK_PRICE_LOWER_THAN_FEE
  | RISK_MARGIN_TRADING_DISABLED
  | MATCHING_UNKNOWN_ORDER_ID | MATCHING_UNSUPPORTED_COMMAND | MATCHING_INVALID_ORDER_BOOK_ID
  | MATCHING_MOVE_FAILED_PRICE_OVER_RISK_LIMIT | MATCHING_REDUCE_FAILED_WRONG_SIZE
  | USER_MGMT_USER_ALREADY_EXISTS
  | USER_MGMT_ACCOUNT_BALANCE_ADJUSTMENT_ALREADY_APPLIED_SAME
  | USER_MGMT_ACCOUNT_BALANCE_ADJUSTMENT_ALREADY_APPLIED_MANY
  | USER_MGMT_ACCOUNT_BALANCE_ADJUSTMENT_NSF
  | USER_MGMT_NON_ZERO_ACCOUNT_BALANCE
  | USER_MGMT_USER_NOT_SUSPENDABLE_HAS_POSITIONS
  | USER_MGMT_USER_NOT_SUSPENDABLE_NON_EMPTY_ACCOUNTS
  | USER_MGMT_USER_NOT_SUSPENDED | USER_MGMT_USER_ALREADY_SUSPENDED
  | USER_MGMT_USER_NOT_FOUND
  | SYMBOL_MGMT_SYMBOL_ALREADY_EXISTS
  | BINARY_COMMAND_FAILED | REPORT_QUERY_UNKNOWN_TYPE
  | STATE_PERSIST_RISK_ENGINE_FAILED | STATE_PERSIST_MATCHING_ENGINE_FAILED
  | DROP

fun result_code_to_int :: "result_code \<Rightarrow> int" where
  "result_code_to_int NEW = 0"
| "result_code_to_int VALID_FOR_MATCHING_ENGINE = 1"
| "result_code_to_int SUCCESS = 100"
| "result_code_to_int ACCEPTED = 110"
| "result_code_to_int AUTH_INVALID_USER = -1001"
| "result_code_to_int AUTH_TOKEN_EXPIRED = -1002"
| "result_code_to_int INVALID_SYMBOL = -1201"
| "result_code_to_int INVALID_PRICE_STEP = -1202"
| "result_code_to_int UNSUPPORTED_SYMBOL_TYPE = -1203"
| "result_code_to_int RISK_NSF = -2001"
| "result_code_to_int RISK_INVALID_RESERVE_BID_PRICE = -2002"
| "result_code_to_int RISK_ASK_PRICE_LOWER_THAN_FEE = -2003"
| "result_code_to_int RISK_MARGIN_TRADING_DISABLED = -2004"
| "result_code_to_int MATCHING_UNKNOWN_ORDER_ID = -3002"
| "result_code_to_int MATCHING_UNSUPPORTED_COMMAND = -3004"
| "result_code_to_int MATCHING_INVALID_ORDER_BOOK_ID = -3005"
| "result_code_to_int MATCHING_MOVE_FAILED_PRICE_OVER_RISK_LIMIT = -3041"
| "result_code_to_int MATCHING_REDUCE_FAILED_WRONG_SIZE = -3051"
| "result_code_to_int USER_MGMT_USER_ALREADY_EXISTS = -4001"
| "result_code_to_int USER_MGMT_ACCOUNT_BALANCE_ADJUSTMENT_ALREADY_APPLIED_SAME = -4101"
| "result_code_to_int USER_MGMT_ACCOUNT_BALANCE_ADJUSTMENT_ALREADY_APPLIED_MANY = -4102"
| "result_code_to_int USER_MGMT_ACCOUNT_BALANCE_ADJUSTMENT_NSF = -4103"
| "result_code_to_int USER_MGMT_NON_ZERO_ACCOUNT_BALANCE = -4104"
| "result_code_to_int USER_MGMT_USER_NOT_SUSPENDABLE_HAS_POSITIONS = -4130"
| "result_code_to_int USER_MGMT_USER_NOT_SUSPENDABLE_NON_EMPTY_ACCOUNTS = -4131"
| "result_code_to_int USER_MGMT_USER_NOT_SUSPENDED = -4132"
| "result_code_to_int USER_MGMT_USER_ALREADY_SUSPENDED = -4133"
| "result_code_to_int USER_MGMT_USER_NOT_FOUND = -4201"
| "result_code_to_int SYMBOL_MGMT_SYMBOL_ALREADY_EXISTS = -5001"
| "result_code_to_int BINARY_COMMAND_FAILED = -8001"
| "result_code_to_int REPORT_QUERY_UNKNOWN_TYPE = -8003"
| "result_code_to_int STATE_PERSIST_RISK_ENGINE_FAILED = -8010"
| "result_code_to_int STATE_PERSIST_MATCHING_ENGINE_FAILED = -8020"
| "result_code_to_int DROP = -9999"

definition merge_to_first_failed :: "result_code list \<Rightarrow> result_code" where
  "merge_to_first_failed results =
     (case find (\<lambda>r. r \<noteq> SUCCESS \<and> r \<noteq> ACCEPTED) results of
        Some r \<Rightarrow> r
      | None \<Rightarrow> if list_ex (\<lambda>r. r = SUCCESS) results then SUCCESS else ACCEPTED)"

section \<open>Command types\<close>

datatype command_type =
    PLACE_ORDER | CANCEL_ORDER | MOVE_ORDER | REDUCE_ORDER | ORDER_BOOK_REQUEST
  | ADD_USER | BALANCE_ADJUSTMENT | SUSPEND_USER | RESUME_USER
  | BINARY_DATA_QUERY | BINARY_DATA_COMMAND
  | PERSIST_STATE_MATCHING | PERSIST_STATE_RISK
  | GROUPING_CONTROL | NOP | RESET | SHUTDOWN_SIGNAL | RESERVED_COMPRESSED

fun is_mutate :: "command_type \<Rightarrow> bool" where
  "is_mutate t = (t \<in> {PLACE_ORDER, CANCEL_ORDER, MOVE_ORDER, REDUCE_ORDER, ADD_USER,
     BALANCE_ADJUSTMENT, SUSPEND_USER, RESUME_USER, BINARY_DATA_COMMAND,
     PERSIST_STATE_MATCHING, PERSIST_STATE_RISK, RESET})"

fun command_type_to_code :: "command_type \<Rightarrow> int" where
  "command_type_to_code PLACE_ORDER = 1"
| "command_type_to_code CANCEL_ORDER = 2"
| "command_type_to_code MOVE_ORDER = 3"
| "command_type_to_code REDUCE_ORDER = 4"
| "command_type_to_code ORDER_BOOK_REQUEST = 6"
| "command_type_to_code ADD_USER = 10"
| "command_type_to_code BALANCE_ADJUSTMENT = 11"
| "command_type_to_code SUSPEND_USER = 12"
| "command_type_to_code RESUME_USER = 13"
| "command_type_to_code BINARY_DATA_QUERY = 90"
| "command_type_to_code BINARY_DATA_COMMAND = 91"
| "command_type_to_code PERSIST_STATE_MATCHING = 110"
| "command_type_to_code PERSIST_STATE_RISK = 111"
| "command_type_to_code GROUPING_CONTROL = 118"
| "command_type_to_code NOP = 120"
| "command_type_to_code RESET = 124"
| "command_type_to_code SHUTDOWN_SIGNAL = 127"
| "command_type_to_code RESERVED_COMPRESSED = -1"

fun command_type_from_code :: "int \<Rightarrow> exn + command_type" where
  "command_type_from_code code =
     (if code = 1 then Inr PLACE_ORDER
      else if code = 2 then Inr CANCEL_ORDER
      else if code = 3 then Inr MOVE_ORDER
      else if code = 4 then Inr REDUCE_ORDER
      else if code = 6 then Inr ORDER_BOOK_REQUEST
      else if code = 10 then Inr ADD_USER
      else if code = 11 then Inr BALANCE_ADJUSTMENT
      else if code = 12 then Inr SUSPEND_USER
      else if code = 13 then Inr RESUME_USER
      else if code = 90 then Inr BINARY_DATA_QUERY
      else if code = 91 then Inr BINARY_DATA_COMMAND
      else if code = 110 then Inr PERSIST_STATE_MATCHING
      else if code = 111 then Inr PERSIST_STATE_RISK
      else if code = 118 then Inr GROUPING_CONTROL
      else if code = 120 then Inr NOP
      else if code = 124 then Inr RESET
      else if code = 127 then Inr SHUTDOWN_SIGNAL
      else if code = -1 then Inr RESERVED_COMPRESSED
      else Inl (Invalid_Argument ''Unknown order command type code''))"

lemma command_type_code_roundtrip: "command_type_from_code (command_type_to_code t) = Inr t"
  by (cases t) simp_all

lemma command_type_from_code_inj:
  "command_type_from_code c = Inr t \<Longrightarrow> command_type_to_code t = c"
  by (auto split: if_splits)

section \<open>Records\<close>

record symbol_spec =
  sp_symbolId :: int
  sp_type :: symbol_type
  sp_baseCurrency :: int
  sp_quoteCurrency :: int
  sp_baseScaleK :: int
  sp_quoteScaleK :: int
  sp_takerFee :: int
  sp_makerFee :: int
  sp_marginBuy :: int
  sp_marginSell :: int

record order =
  ord_orderId :: int
  ord_price :: int
  ord_size :: int
  ord_filled :: int
  ord_reserveBidPrice :: int
  ord_action :: order_action
  ord_uid :: int
  ord_timestamp :: int

record trade_event =
  ev_eventType :: matcher_event_type
  ev_section :: int
  ev_activeOrderCompleted :: bool
  ev_matchedOrderId :: int
  ev_matchedOrderUid :: int
  ev_matchedOrderCompleted :: bool
  ev_price :: int
  ev_size :: int
  ev_bidderHoldPrice :: int

record l2_market_data =
  l2_askSize :: int
  l2_bidSize :: int
  l2_askPrices :: "int list"
  l2_askVolumes :: "int list"
  l2_askOrders :: "int list"
  l2_bidPrices :: "int list"
  l2_bidVolumes :: "int list"
  l2_bidOrders :: "int list"
  l2_timestamp :: int
  l2_referenceSeq :: int

definition new_l2_market_data :: "nat \<Rightarrow> nat \<Rightarrow> l2_market_data" where
  "new_l2_market_data askSize bidSize =
     \<lparr>l2_askSize = int askSize, l2_bidSize = int bidSize,
      l2_askPrices = replicate askSize 0, l2_askVolumes = replicate askSize 0,
      l2_askOrders = replicate askSize 0, l2_bidPrices = replicate bidSize 0,
      l2_bidVolumes = replicate bidSize 0, l2_bidOrders = replicate bidSize 0,
      l2_timestamp = 0, l2_referenceSeq = 0\<rparr>"

record order_command =
  cmd_command :: command_type
  cmd_orderId :: int
  cmd_symbol :: int
  cmd_price :: int
  cmd_size :: int
  cmd_reserveBidPrice :: int
  cmd_action :: order_action
  cmd_orderType :: order_type
  cmd_uid :: int
  cmd_timestamp :: int
  cmd_userCookie :: int
  cmd_eventsGroup :: int
  cmd_serviceFlags :: int
  cmd_resultCode :: result_code
  cmd_matcherEvent :: "trade_event list"
  cmd_marketData :: "l2_market_data option"

text \<open>A default-constructed command, event and order, field by field as in the headers.\<close>

definition default_command :: order_command where
  "default_command = \<lparr>cmd_command = NOP, cmd_orderId = 0, cmd_symbol = 0, cmd_price = 0,
     cmd_size = 0, cmd_reserveBidPrice = 0, cmd_action = ASK, cmd_orderType = GTC,
     cmd_uid = 0, cmd_timestamp = 0, cmd_userCookie = 0, cmd_eventsGroup = 0,
     cmd_serviceFlags = 0, cmd_resultCode = NEW, cmd_matcherEvent = [], cmd_marketData = None\<rparr>"

definition default_event :: trade_event where
  "default_event = \<lparr>ev_eventType = TRADE, ev_section = 0, ev_activeOrderCompleted = False,
     ev_matchedOrderId = 0, ev_matchedOrderUid = 0, ev_matchedOrderCompleted = False,
     ev_price = 0, ev_size = 0, ev_bidderHoldPrice = 0\<rparr>"

text \<open>
  The view of an order that matching uses (\<open>IOrder\<close>). A command answers 0 to \<open>GetFilled\<close>.
\<close>

record iorder =
  io_price :: int
  io_size :: int
  io_filled :: int
  io_action :: order_action
  io_reserveBidPrice :: int

definition cmd_iorder :: "order_command \<Rightarrow> iorder" where
  "cmd_iorder cmd = \<lparr>io_price = cmd_price cmd, io_size = cmd_size cmd, io_filled = 0,
     io_action = cmd_action cmd, io_reserveBidPrice = cmd_reserveBidPrice cmd\<rparr>"

definition ord_iorder :: "order \<Rightarrow> iorder" where
  "ord_iorder o' = \<lparr>io_price = ord_price o', io_size = ord_size o', io_filled = ord_filled o',
     io_action = ord_action o', io_reserveBidPrice = ord_reserveBidPrice o'\<rparr>"

section \<open>Command factories and copies\<close>

definition oc_new_order ::
  "order_type \<Rightarrow> int \<Rightarrow> int \<Rightarrow> int \<Rightarrow> int \<Rightarrow> int \<Rightarrow> order_action \<Rightarrow> order_command" where
  "oc_new_order orderType orderId uid price reserveBidPrice sz action =
     default_command\<lparr>cmd_command := PLACE_ORDER, cmd_orderId := orderId, cmd_uid := uid,
       cmd_price := price, cmd_reserveBidPrice := reserveBidPrice, cmd_size := sz,
       cmd_action := action, cmd_orderType := orderType,
       cmd_resultCode := VALID_FOR_MATCHING_ENGINE\<rparr>"

definition oc_cancel :: "int \<Rightarrow> int \<Rightarrow> order_command" where
  "oc_cancel orderId uid =
     default_command\<lparr>cmd_command := CANCEL_ORDER, cmd_orderId := orderId, cmd_uid := uid,
       cmd_resultCode := VALID_FOR_MATCHING_ENGINE\<rparr>"

definition oc_reduce :: "int \<Rightarrow> int \<Rightarrow> int \<Rightarrow> order_command" where
  "oc_reduce orderId uid reduceSize =
     default_command\<lparr>cmd_command := REDUCE_ORDER, cmd_orderId := orderId, cmd_uid := uid,
       cmd_size := reduceSize, cmd_resultCode := VALID_FOR_MATCHING_ENGINE\<rparr>"

definition oc_update :: "int \<Rightarrow> int \<Rightarrow> int \<Rightarrow> order_command" where
  "oc_update orderId uid price =
     default_command\<lparr>cmd_command := MOVE_ORDER, cmd_orderId := orderId, cmd_uid := uid,
       cmd_price := price, cmd_resultCode := VALID_FOR_MATCHING_ENGINE\<rparr>"

definition extract_events :: "order_command \<Rightarrow> trade_event list" where
  "extract_events cmd = cmd_matcherEvent cmd"

definition write_to :: "order_command \<Rightarrow> order_command \<Rightarrow> order_command" where
  "write_to cmd cmd2 = cmd2\<lparr>cmd_command := cmd_command cmd, cmd_orderId := cmd_orderId cmd,
     cmd_symbol := cmd_symbol cmd, cmd_uid := cmd_uid cmd, cmd_timestamp := cmd_timestamp cmd,
     cmd_reserveBidPrice := cmd_reserveBidPrice cmd, cmd_price := cmd_price cmd,
     cmd_size := cmd_size cmd, cmd_action := cmd_action cmd, cmd_orderType := cmd_orderType cmd\<rparr>"

end
