(* ===== verification/Events_Helper.thy ===== *)
theory Events_Helper
  imports Types
begin

text \<open>
  \<open>orderbook/OrderBookEventsHelper\<close> and the chain operations of
  \<open>common/MatcherTradeEvent\<close>. Event nodes come from a pool and keep the contents of their
  previous use, so each creation function takes the node it is handed and overwrites fields of
  it, exactly those the code assigns. \<open>eh_chain\<close> is the chain \<open>eventsChainHead_\<close>; the
  factory, which answers with a chain of the shared pool or with null, is a parameter.
\<close>

section \<open>Chains\<close>

definition find_tail :: "trade_event list \<Rightarrow> trade_event option" where
  "find_tail chain = (if chain = [] then None else Some (last chain))"

definition get_chain_size :: "trade_event list \<Rightarrow> int" where
  "get_chain_size chain = int (length chain)"

definition create_event_chain :: "int \<Rightarrow> trade_event list" where
  "create_event_chain chainLength =
     (if chainLength \<le> 0 then [] else replicate (nat chainLength) default_event)"

section \<open>The node pool\<close>

record events_helper =
  eh_chain :: "trade_event list"

text \<open>
  \<open>NewMatcherEvent\<close> with \<open>EVENTS_POOLING\<close>: take the head of the current chain; on an
  exhausted chain ask the factory, and make a single node when it answers null.
\<close>

definition new_matcher_event ::
  "trade_event list \<Rightarrow> events_helper \<Rightarrow> trade_event \<times> events_helper" where
  "new_matcher_event factory_chain eh =
     (case (if eh_chain eh = [] then factory_chain else eh_chain eh) of
        [] \<Rightarrow> (default_event, eh\<lparr>eh_chain := []\<rparr>)
      | node # rest \<Rightarrow> (node, eh\<lparr>eh_chain := rest\<rparr>))"

section \<open>Events\<close>

definition send_trade_event ::
  "trade_event \<Rightarrow> order \<Rightarrow> bool \<Rightarrow> bool \<Rightarrow> int \<Rightarrow> int \<Rightarrow> trade_event" where
  "send_trade_event node matchingOrder makerCompleted takerCompleted sz bidderHoldPrice =
     node\<lparr>ev_eventType := TRADE, ev_section := 0, ev_activeOrderCompleted := takerCompleted,
       ev_matchedOrderId := ord_orderId matchingOrder,
       ev_matchedOrderUid := ord_uid matchingOrder,
       ev_matchedOrderCompleted := makerCompleted,
       ev_price := ord_price matchingOrder, ev_size := sz,
       ev_bidderHoldPrice := bidderHoldPrice\<rparr>"

definition send_reduce_event_order ::
  "trade_event \<Rightarrow> order \<Rightarrow> int \<Rightarrow> bool \<Rightarrow> trade_event" where
  "send_reduce_event_order node ord reduceSize completed =
     node\<lparr>ev_eventType := REDUCE, ev_section := 0, ev_activeOrderCompleted := completed,
       ev_matchedOrderId := 0, ev_matchedOrderCompleted := False,
       ev_price := ord_price ord, ev_size := reduceSize,
       ev_bidderHoldPrice := ord_reserveBidPrice ord\<rparr>"

definition send_reduce_event ::
  "trade_event \<Rightarrow> int \<Rightarrow> int \<Rightarrow> int \<Rightarrow> bool \<Rightarrow> trade_event" where
  "send_reduce_event node price reserveBidPrice reduceSize completed =
     node\<lparr>ev_eventType := REDUCE, ev_section := 0, ev_activeOrderCompleted := completed,
       ev_matchedOrderId := 0, ev_matchedOrderCompleted := False,
       ev_price := price, ev_size := reduceSize, ev_bidderHoldPrice := reserveBidPrice\<rparr>"

definition reject_event :: "trade_event \<Rightarrow> order_command \<Rightarrow> int \<Rightarrow> trade_event" where
  "reject_event node cmd rejectedSize =
     node\<lparr>ev_eventType := REJECT, ev_section := 0, ev_activeOrderCompleted := True,
       ev_matchedOrderId := 0, ev_matchedOrderCompleted := False,
       ev_price := cmd_price cmd, ev_size := rejectedSize,
       ev_bidderHoldPrice := cmd_reserveBidPrice cmd\<rparr>"

text \<open>The reject event goes to the head of the command's chain.\<close>

definition attach_reject_event :: "trade_event \<Rightarrow> order_command \<Rightarrow> int \<Rightarrow> order_command" where
  "attach_reject_event node cmd rejectedSize =
     cmd\<lparr>cmd_matcherEvent := reject_event node cmd rejectedSize # cmd_matcherEvent cmd\<rparr>"

lemmas event_defs =
  send_trade_event_def send_reduce_event_order_def send_reduce_event_def reject_event_def

text \<open>A trade event does not depend on the node it is written to.\<close>

lemma send_trade_event_node_indep:
  "send_trade_event node ord mc tc sz hold = send_trade_event node' ord mc tc sz hold"
  by (cases node; cases node') (simp add: send_trade_event_def)

text \<open>
  Reduce and reject events keep the \<open>matchedOrderUid\<close> of the node's previous use.
\<close>

lemma reject_event_stale_uid:
  "ev_matchedOrderUid (reject_event node cmd sz) = ev_matchedOrderUid node"
  "ev_matchedOrderUid (send_reduce_event node p r sz c) = ev_matchedOrderUid node"
  by (simp_all add: event_defs)

lemma send_reduce_event_same:
  "send_reduce_event_order node ord sz c =
     send_reduce_event node (ord_price ord) (ord_reserveBidPrice ord) sz c"
  by (simp add: event_defs)

text \<open>The pool hands out every node of a chain once, in chain order.\<close>

fun draw_events ::
  "nat \<Rightarrow> events_helper \<Rightarrow> trade_event list \<times> events_helper" where
  "draw_events 0 eh = ([], eh)"
| "draw_events (Suc n) eh =
     (let (e, eh1) = new_matcher_event [] eh; (es, eh2) = draw_events n eh1 in (e # es, eh2))"

lemma draw_events_takes_chain:
  "n \<le> length (eh_chain eh) \<Longrightarrow>
   draw_events n eh = (take n (eh_chain eh), eh\<lparr>eh_chain := drop n (eh_chain eh)\<rparr>)"
proof (induction n arbitrary: eh)
  case 0
  then show ?case by simp
next
  case (Suc n)
  then obtain e rest where "eh_chain eh = e # rest" by (cases "eh_chain eh") auto
  with Suc show ?case by (simp add: new_matcher_event_def)
qed

section \<open>Binary events\<close>

definition binary_event :: "trade_event \<Rightarrow> int \<Rightarrow> int list \<Rightarrow> trade_event" where
  "binary_event node section_id w =
     node\<lparr>ev_eventType := BINARY_EVENT, ev_section := section_id,
       ev_matchedOrderId := w ! 0, ev_matchedOrderUid := w ! 1, ev_price := w ! 2,
       ev_size := w ! 3, ev_bidderHoldPrice := w ! 4\<rparr>"

text \<open>
  One event per five words of the padded array. \<open>nodes\<close> lists the pool nodes handed out; the
  code asks for one per event, and a missing node is a fresh one.
\<close>

fun binary_events_chain :: "trade_event list \<Rightarrow> int \<Rightarrow> int list \<Rightarrow> trade_event list" where
  "binary_events_chain nodes section_id (a # b # c # d # e # ws) =
     (case nodes of
        [] \<Rightarrow> binary_event default_event section_id [a, b, c, d, e]
                # binary_events_chain [] section_id ws
      | n # ns \<Rightarrow> binary_event n section_id [a, b, c, d, e] # binary_events_chain ns section_id ws)"
| "binary_events_chain nodes section_id _ = []"

definition event_words :: "trade_event \<Rightarrow> int list" where
  "event_words e = [ev_matchedOrderId e, ev_matchedOrderUid e, ev_price e, ev_size e,
     ev_bidderHoldPrice e]"

text \<open>
  The receiving side: the binary events of the chain are grouped by section in ascending section
  order, each section's words concatenated in chain order. The result is the words; turning them
  into bytes is \<open>LongsToWire\<close>.
\<close>

fun section_add :: "int \<Rightarrow> int list \<Rightarrow> (int \<times> int list) list \<Rightarrow> (int \<times> int list) list" where
  "section_add s ws [] = [(s, ws)]"
| "section_add s ws ((s', ws') # m) =
     (if s < s' then (s, ws) # (s', ws') # m
      else if s = s' then (s, ws' @ ws) # m
      else (s', ws') # section_add s ws m)"

fun deserialize_events :: "trade_event list \<Rightarrow> (int \<times> int list) list \<Rightarrow> (int \<times> int list) list" where
  "deserialize_events [] m = m"
| "deserialize_events (e # es) m =
     deserialize_events es
       (if ev_eventType e = BINARY_EVENT then section_add (ev_section e) (event_words e) m else m)"

lemma deserialize_binary_chain_append:
  assumes "length ws mod 5 = 0"
  shows "deserialize_events (binary_events_chain nodes s ws) [(s, acc)] = [(s, acc @ ws)]"
  using assms
proof (induction nodes s ws arbitrary: acc rule: binary_events_chain.induct)
  case (1 nodes s a b c d e ws)
  then have "length ws mod 5 = 0" by simp
  with 1 show ?case
    by (cases nodes) (simp_all add: binary_event_def event_words_def)
qed (simp_all, (simp add: mod_Suc split: if_splits)?)

text \<open>Round trip: a padded word array sent as binary events is read back, per section.\<close>

lemma deserialize_binary_chain:
  assumes "length ws mod 5 = 0" and "ws \<noteq> []"
  shows "deserialize_events (binary_events_chain nodes s ws) [] = [(s, ws)]"
proof -
  from assms(2) have "length ws \<noteq> 0" by simp
  with assms(1) have "5 \<le> length ws" by (meson dvd_imp_le mod_0_imp_dvd not_gr_zero)
  then obtain a b c d e xs where ws: "ws = a # b # c # d # e # xs"
    by (auto simp: numeral_eq_Suc Suc_le_length_iff)
  with assms(1) have "length xs mod 5 = 0" by simp
  then show ?thesis
    by (cases nodes)
       (simp_all add: ws deserialize_binary_chain_append binary_event_def event_words_def)
qed

end
