(* ===== verification/Orders_Bucket.thy ===== *)
theory Orders_Bucket
  imports Events_Helper
begin

text \<open>
  \<open>orderbook/OrdersBucket\<close>: the orders of one price level in time priority. Orders are heap
  objects shared between the bucket's list, the bucket's index and the order book's index, so
  the heap is explicit: an address maps to a live order or to nothing, and reading a dead address
  is the exception \<open>Dangling_Pointer\<close>. An iterator into \<open>orderList_\<close> is the address its
  node holds.
\<close>

section \<open>The heap of orders\<close>

type_synonym addr = nat

record order_heap =
  hp_cells :: "addr \<Rightarrow> order option"
  hp_next :: addr

definition empty_heap :: order_heap where
  "empty_heap = \<lparr>hp_cells = (\<lambda>_. None), hp_next = 0\<rparr>"

definition heap_new :: "order_heap \<Rightarrow> order \<Rightarrow> addr \<times> order_heap" where
  "heap_new h ord =
     (hp_next h, \<lparr>hp_cells = (hp_cells h)(hp_next h \<mapsto> ord), hp_next = Suc (hp_next h)\<rparr>)"

definition heap_read :: "order_heap \<Rightarrow> addr \<Rightarrow> exn + order" where
  "heap_read h a = (case hp_cells h a of None \<Rightarrow> Inl Dangling_Pointer | Some ord \<Rightarrow> Inr ord)"

definition heap_write :: "addr \<Rightarrow> order \<Rightarrow> order_heap \<Rightarrow> order_heap" where
  "heap_write a ord h = h\<lparr>hp_cells := (hp_cells h)(a \<mapsto> ord)\<rparr>"

definition heap_delete :: "addr \<Rightarrow> order_heap \<Rightarrow> order_heap" where
  "heap_delete a h = h\<lparr>hp_cells := (hp_cells h)(a := None)\<rparr>"

lemma heap_read_Some [simp]: "hp_cells h a = Some ord \<Longrightarrow> heap_read h a = Inr ord"
  by (simp add: heap_read_def)

lemma heap_simps [simp]:
  "hp_cells (heap_write a ord h) = (hp_cells h)(a \<mapsto> ord)"
  "hp_next (heap_write a ord h) = hp_next h"
  "hp_cells (heap_delete a h) = (hp_cells h)(a := None)"
  "hp_next (heap_delete a h) = hp_next h"
  by (simp_all add: heap_write_def heap_delete_def)

text \<open>The order at a live address, and the unfilled size.\<close>

definition ord_at :: "order_heap \<Rightarrow> addr \<Rightarrow> order" where
  "ord_at h a = the (hp_cells h a)"

definition remaining :: "order \<Rightarrow> int" where
  "remaining ord = ord_size ord - ord_filled ord"

lemma ord_at_Some: "hp_cells h a = Some ord \<Longrightarrow> ord_at h a = ord"
  by (simp add: ord_at_def)

section \<open>The bucket\<close>

record orders_bucket =
  bk_price :: int
  bk_totalVolume :: int
  bk_orderList :: "addr list"
  bk_orderMap :: "(int, addr) umap"

definition new_bucket :: "int \<Rightarrow> orders_bucket" where
  "new_bucket price =
     \<lparr>bk_price = price, bk_totalVolume = 0, bk_orderList = [], bk_orderMap = []\<rparr>"

definition get_num_orders :: "orders_bucket \<Rightarrow> int" where
  "get_num_orders b = int (length (bk_orderList b))"

definition bucket_put :: "order_heap \<Rightarrow> addr \<Rightarrow> orders_bucket \<Rightarrow> exn + orders_bucket" where
  "bucket_put h a b =
     bindE (heap_read h a) (\<lambda>ord.
       Inr (b\<lparr>bk_orderList := bk_orderList b @ [a],
              bk_orderMap := um_put (ord_orderId ord) a (bk_orderMap b),
              bk_totalVolume := bk_totalVolume b + (ord_size ord - ord_filled ord)\<rparr>))"

definition bucket_remove ::
  "order_heap \<Rightarrow> int \<Rightarrow> int \<Rightarrow> orders_bucket \<Rightarrow> exn + (orders_bucket \<times> addr option)" where
  "bucket_remove h orderId uid b =
     (case um_find (bk_orderMap b) orderId of
        None \<Rightarrow> Inr (b, None)
      | Some a \<Rightarrow>
          bindE (heap_read h a) (\<lambda>ord.
            if ord_uid ord \<noteq> uid then Inr (b, None)
            else Inr (b\<lparr>bk_totalVolume := bk_totalVolume b - (ord_size ord - ord_filled ord),
                        bk_orderList := filter (\<lambda>x. x \<noteq> a) (bk_orderList b),
                        bk_orderMap := um_erase orderId (bk_orderMap b)\<rparr>, Some a)))"

definition bucket_reduce_size :: "int \<Rightarrow> orders_bucket \<Rightarrow> orders_bucket" where
  "bucket_reduce_size reduceSize b = b\<lparr>bk_totalVolume := bk_totalVolume b - reduceSize\<rparr>"

definition bucket_find_order :: "int \<Rightarrow> orders_bucket \<Rightarrow> addr option" where
  "bucket_find_order orderId b = um_find (bk_orderMap b) orderId"

definition bucket_all_orders :: "orders_bucket \<Rightarrow> addr list" where
  "bucket_all_orders b = bk_orderList b"

definition bucket_validate :: "order_heap \<Rightarrow> orders_bucket \<Rightarrow> exn + unit" where
  "bucket_validate h b =
     (let calculated = sum_list (map (\<lambda>a. ord_size (ord_at h a) - ord_filled (ord_at h a)) (bk_orderList b))
      in if calculated \<noteq> bk_totalVolume b
         then Inl (Runtime_Error ''OrdersBucket validation failed'') else Inr ())"

section \<open>Matching\<close>

record matcher_result =
  mr_eventsChain :: "trade_event list"
  mr_volume :: int
  mr_ordersToRemove :: "int list"

text \<open>
  The loop of \<open>Match\<close> from position \<open>it\<close> of the list on: the addresses still ahead are the
  last argument. A fully matched order leaves the index and the list and is deleted; the first
  partial match keeps its order and ends the loop, as nothing is left to collect.
\<close>

fun match_loop ::
  "int \<Rightarrow> order_heap \<Rightarrow> orders_bucket \<Rightarrow> int \<Rightarrow> matcher_result \<Rightarrow> addr list
     \<Rightarrow> exn + (order_heap \<times> orders_bucket \<times> matcher_result)" where
  "match_loop reserve h b volumeToCollect res [] = Inr (h, b, res)"
| "match_loop reserve h b volumeToCollect res (a # as) =
     (if \<not> volumeToCollect > 0 then Inr (h, b, res)
      else bindE (heap_read h a) (\<lambda>ord.
        let v = min volumeToCollect (ord_size ord - ord_filled ord);
            ord1 = ord\<lparr>ord_filled := ord_filled ord + v\<rparr>;
            h1 = heap_write a ord1 h;
            vol1 = volumeToCollect - v;
            b1 = b\<lparr>bk_totalVolume := bk_totalVolume b - v\<rparr>;
            fullMatch = (ord_size ord1 = ord_filled ord1);
            bidderHoldPrice = (if ord_action ord1 = ASK then reserve else ord_reserveBidPrice ord1);
            takerCompleted = (vol1 = 0);
            ev = send_trade_event default_event ord1 fullMatch takerCompleted v bidderHoldPrice;
            res1 = res\<lparr>mr_volume := mr_volume res + v,
                       mr_eventsChain := mr_eventsChain res @ [ev]\<rparr>
        in if fullMatch
           then match_loop reserve (heap_delete a h1)
                  (b1\<lparr>bk_orderMap := um_erase (ord_orderId ord1) (bk_orderMap b1),
                      bk_orderList := filter (\<lambda>x. x \<noteq> a) (bk_orderList b1)\<rparr>)
                  vol1
                  (res1\<lparr>mr_ordersToRemove := mr_ordersToRemove res1 @ [ord_orderId ord1]\<rparr>)
                  as
           else match_loop reserve h1 b1 vol1 res1 as))"

definition bucket_match ::
  "order_heap \<Rightarrow> orders_bucket \<Rightarrow> int \<Rightarrow> int
     \<Rightarrow> exn + (order_heap \<times> orders_bucket \<times> matcher_result)" where
  "bucket_match h b volumeToCollect reserve =
     match_loop reserve h b volumeToCollect
       \<lparr>mr_eventsChain = [], mr_volume = 0, mr_ordersToRemove = []\<rparr> (bk_orderList b)"

end
