(* ===== verification/Book_Spec.thy ===== *)
theory Book_Spec
  imports Orders_Bucket
begin

text \<open>
  What an order book promises, over two lists of orders in price-time priority: best price
  first, and the older order first at equal prices. The operations here are the contract that
  the implementations of \<open>IOrderBook\<close> are shown to meet; they carry the invariants and the
  volume and money arguments once for all implementations.
\<close>

section \<open>Priority\<close>

text \<open>
  \<open>before s p q\<close>: on side \<open>s\<close> the price \<open>p\<close> matches ahead of \<open>q\<close>; it is the comparison of
  \<open>askBuckets_\<close> (\<open>std::less\<close>) and of \<open>bidBuckets_\<close> (\<open>std::greater\<close>). \<open>crosses a limit p\<close>:
  a taker of action \<open>a\<close> with this limit trades with a maker at \<open>p\<close>.
\<close>

fun before :: "order_action \<Rightarrow> int \<Rightarrow> int \<Rightarrow> bool" where
  "before ASK p q = (p < q)"
| "before BID p q = (q < p)"

fun crosses :: "order_action \<Rightarrow> int \<Rightarrow> int \<Rightarrow> bool" where
  "crosses ASK limit p = (p \<ge> limit)"
| "crosses BID limit p = (p \<le> limit)"

lemma before_order [simp]: "transp (before s)" "irreflp (before s)" "totalp (before s)"
  by (cases s; auto simp: transp_def irreflp_def totalp_on_def)+

lemma before_trans: "before s p q \<Longrightarrow> before s q r \<Longrightarrow> before s p r"
  by (cases s) auto

lemma before_irrefl [simp]: "\<not> before s p p"
  by (cases s) auto

lemma not_before: "\<not> before s p q \<longleftrightarrow> p = q \<or> before s q p"
  by (cases s) auto

lemma crosses_mono: "crosses (opposite s) limit q \<Longrightarrow> \<not> before s q p \<Longrightarrow> crosses (opposite s) limit p"
  by (cases s) auto

record flat_book =
  fb_asks :: "order list"
  fb_bids :: "order list"

fun fb_side :: "order_action \<Rightarrow> flat_book \<Rightarrow> order list" where
  "fb_side ASK fb = fb_asks fb"
| "fb_side BID fb = fb_bids fb"

fun fb_set_side :: "order_action \<Rightarrow> order list \<Rightarrow> flat_book \<Rightarrow> flat_book" where
  "fb_set_side ASK os fb = fb\<lparr>fb_asks := os\<rparr>"
| "fb_set_side BID os fb = fb\<lparr>fb_bids := os\<rparr>"

lemma fb_side_set [simp]:
  "fb_side s (fb_set_side s os fb) = os"
  "fb_side s (fb_set_side (opposite s) os fb) = fb_side s fb"
  "fb_side (opposite s) (fb_set_side s os fb) = fb_side (opposite s) fb"
  by (cases s; simp)+

lemma fb_side_set_if: "fb_side s (fb_set_side t os fb) = (if s = t then os else fb_side s fb)"
  by (cases s; cases t) auto

lemma fb_set_set [simp]: "fb_set_side s os (fb_set_side s os' fb) = fb_set_side s os fb"
  by (cases s) auto

lemma fb_set_side_same [simp]: "fb_set_side s (fb_side s fb) fb = fb"
  by (cases s) auto

lemma flat_book_eqI: "(\<And>s. fb_side s fb = fb_side s fb') \<Longrightarrow> fb = fb'"
  using fb_side.simps by (metis (full_types) flat_book.equality old.unit.exhaust)

section \<open>Filling\<close>

text \<open>
  \<open>fill ok r vol os\<close> trades a taker of volume \<open>vol\<close> with the orders at the front of \<open>os\<close>:
  the orders left, the trade events and the volume filled. \<open>r\<close> is the taker's reserve price,
  the hold price of a trade with an ask.
\<close>

fun fill :: "(int \<Rightarrow> bool) \<Rightarrow> int \<Rightarrow> int \<Rightarrow> order list \<Rightarrow> order list \<times> trade_event list \<times> int" where
  "fill ok r vol [] = ([], [], 0)"
| "fill ok r vol (ord # os) =
     (if \<not> vol > 0 \<or> \<not> ok (ord_price ord) then (ord # os, [], 0)
      else let v = min vol (remaining ord);
               ord1 = ord\<lparr>ord_filled := ord_filled ord + v\<rparr>;
               full = (ord_size ord1 = ord_filled ord1);
               hold = (if ord_action ord1 = ASK then r else ord_reserveBidPrice ord1);
               ev = send_trade_event default_event ord1 full (vol - v = 0) v hold
           in if full then (case fill ok r (vol - v) os of (os', evs, f) \<Rightarrow> (os', ev # evs, v + f))
              else (ord1 # os, [ev], v))"

text \<open>An order at rest: partly filled at most, its remaining size positive.\<close>

definition resting :: "order_action \<Rightarrow> order \<Rightarrow> bool" where
  "resting s ord \<longleftrightarrow> ord_action ord = s \<and> 0 \<le> ord_filled ord \<and> ord_filled ord < ord_size ord"

definition volume :: "order list \<Rightarrow> int" where
  "volume os = sum_list (map remaining os)"

lemma volume_simps [simp]:
  "volume [] = 0" "volume (ord # os) = remaining ord + volume os"
  "volume (os @ os') = volume os + volume os'"
  by (simp_all add: volume_def)

lemma resting_pos: "resting s ord \<Longrightarrow> 0 < remaining ord"
  by (simp add: resting_def remaining_def)

lemma volume_nonneg: "\<forall>ord \<in> set os. resting s ord \<Longrightarrow> 0 \<le> volume os"
  by (induction os) (auto dest: resting_pos)

lemma volume_pos: "\<forall>ord \<in> set os. resting s ord \<Longrightarrow> os \<noteq> [] \<Longrightarrow> 0 < volume os"
  by (cases os) (auto intro!: add_pos_nonneg dest: resting_pos volume_nonneg)

lemma fill_stop: "\<not> vol > 0 \<Longrightarrow> fill ok r vol os = (os, [], 0)"
  by (cases os) auto

text \<open>How one order of the front is consumed: completely, or in part as the last one.\<close>

lemma fill_Cons_full:
  assumes "vol > 0" and "ok (ord_price ord)" and "remaining ord \<le> vol"
  shows "fill ok r vol (ord # os) =
     (case fill ok r (vol - remaining ord) os of (os', evs, f) \<Rightarrow>
        (os', send_trade_event default_event (ord\<lparr>ord_filled := ord_size ord\<rparr>) True
                (vol = remaining ord) (remaining ord)
                (if ord_action ord = ASK then r else ord_reserveBidPrice ord) # evs,
         remaining ord + f))"
  using assms by (simp add: Let_def remaining_def)

lemma fill_Cons_part:
  assumes "vol > 0" and "ok (ord_price ord)" and "vol < remaining ord"
  shows "fill ok r vol (ord # os) =
     (ord\<lparr>ord_filled := ord_filled ord + vol\<rparr> # os,
      [send_trade_event default_event (ord\<lparr>ord_filled := ord_filled ord + vol\<rparr>) False True vol
         (if ord_action ord = ASK then r else ord_reserveBidPrice ord)], vol)"
  using assms by (simp add: Let_def remaining_def)

lemma fill_cases [case_names Nil Stop Full Part]:
  assumes "os = [] \<Longrightarrow> P"
    and "\<And>ord os'. os = ord # os' \<Longrightarrow> \<not> vol > 0 \<or> \<not> ok (ord_price ord) \<Longrightarrow> P"
    and "\<And>ord os'. os = ord # os' \<Longrightarrow> vol > 0 \<Longrightarrow> ok (ord_price ord) \<Longrightarrow> remaining ord \<le> vol \<Longrightarrow> P"
    and "\<And>ord os'. os = ord # os' \<Longrightarrow> vol > 0 \<Longrightarrow> ok (ord_price ord) \<Longrightarrow> vol < remaining ord \<Longrightarrow> P"
  shows P
  using assms by (cases os) (auto simp: not_le[symmetric])

lemma send_trade_event_sel [simp]:
  "ev_eventType (send_trade_event n ord mc tc sz hold) = TRADE"
  "ev_size (send_trade_event n ord mc tc sz hold) = sz"
  "ev_price (send_trade_event n ord mc tc sz hold) = ord_price ord"
  "ev_bidderHoldPrice (send_trade_event n ord mc tc sz hold) = hold"
  "ev_matchedOrderId (send_trade_event n ord mc tc sz hold) = ord_orderId ord"
  "ev_matchedOrderUid (send_trade_event n ord mc tc sz hold) = ord_uid ord"
  "ev_matchedOrderCompleted (send_trade_event n ord mc tc sz hold) = mc"
  "ev_activeOrderCompleted (send_trade_event n ord mc tc sz hold) = tc"
  by (simp_all add: send_trade_event_def)

definition events_size :: "trade_event list \<Rightarrow> int" where
  "events_size evs = sum_list (map ev_size evs)"

lemma events_size_simps [simp]:
  "events_size [] = 0" "events_size (e # evs) = ev_size e + events_size evs"
  "events_size (evs @ evs') = events_size evs + events_size evs'"
  by (simp_all add: events_size_def)

text \<open>
  Induction over a fill of resting orders: the recursive call of a completely consumed order.
\<close>

lemma fill_induct [consumes 1, case_names Nil Stop Full Part]:
  assumes "\<forall>ord \<in> set os. resting s ord"
    and "\<And>vol. P vol []"
    and "\<And>vol ord os. \<lbrakk>resting s ord; \<forall>x \<in> set os. resting s x; \<not> vol > 0 \<or> \<not> ok (ord_price ord)\<rbrakk>
           \<Longrightarrow> P vol (ord # os)"
    and "\<And>vol ord os. \<lbrakk>resting s ord; \<forall>x \<in> set os. resting s x; vol > 0; ok (ord_price ord);
           remaining ord \<le> vol; P (vol - remaining ord) os\<rbrakk> \<Longrightarrow> P vol (ord # os)"
    and "\<And>vol ord os. \<lbrakk>resting s ord; \<forall>x \<in> set os. resting s x; vol > 0; ok (ord_price ord);
           vol < remaining ord\<rbrakk> \<Longrightarrow> P vol (ord # os)"
  shows "P vol os"
  using assms(1)
proof (induction os arbitrary: vol)
  case Nil
  then show ?case by (simp add: assms(2))
next
  case (Cons ord os)
  then have r: "resting s ord" "\<forall>x \<in> set os. resting s x" by auto
  show ?case
    by (rule fill_cases[of "ord # os" _ vol ok])
       (use r assms(3-5) Cons.IH in auto)
qed

lemma fill_resting:
  assumes "\<forall>ord \<in> set os. resting s ord" and "fill ok r vol os = (os', evs, f)"
  shows "\<forall>ord \<in> set os'. resting s ord"
  using assms
proof (induction vol os arbitrary: os' evs f rule: fill_induct[where ok = ok])
  case (Full vol ord os)
  then show ?case by (auto simp: fill_Cons_full simp del: fill.simps split: prod.splits)
next
  case (Part vol ord os)
  then show ?case
    by (auto simp: fill_Cons_part resting_def remaining_def simp del: fill.simps)
qed auto

text \<open>The prices, the identifiers and the actions left are a suffix of those at the start.\<close>

lemma fill_suffix:
  assumes "\<forall>ord \<in> set os. resting s ord" and "fill ok r vol os = (os', evs, f)"
  shows "\<exists>k. map ord_price os' = drop k (map ord_price os) \<and>
             map ord_orderId os' = drop k (map ord_orderId os)"
  using assms
proof (induction vol os arbitrary: os' evs f rule: fill_induct[where ok = ok])
  case (Nil vol)
  then show ?case by simp
next
  case (Stop vol ord os)
  then have "os' = ord # os" by auto
  then show ?case by (intro exI[of _ 0]) simp
next
  case (Full vol ord os)
  obtain os1 evs1 f1 where *: "fill ok r (vol - remaining ord) os = (os1, evs1, f1)"
    by (metis prod_cases3)
  with Full obtain k where "map ord_price os1 = drop k (map ord_price os)"
    "map ord_orderId os1 = drop k (map ord_orderId os)" by blast
  moreover have "os' = os1" using Full * by (auto simp: fill_Cons_full simp del: fill.simps)
  ultimately show ?case by (intro exI[of _ "Suc k"]) simp
next
  case (Part vol ord os)
  then show ?case by (intro exI[of _ 0]) (auto simp: fill_Cons_part simp del: fill.simps)
qed

lemma fill_volume:
  assumes "\<forall>ord \<in> set os. resting s ord" and "fill ok r vol os = (os', evs, f)"
  shows "events_size evs = f \<and> 0 \<le> f \<and> (0 \<le> vol \<longrightarrow> f \<le> vol) \<and> volume os = volume os' + f"
  using assms
proof (induction vol os arbitrary: os' evs f rule: fill_induct[where ok = ok])
  case (Full vol ord os)
  obtain os1 evs1 f1 where *: "fill ok r (vol - remaining ord) os = (os1, evs1, f1)"
    by (metis prod_cases3)
  with Full have "events_size evs1 = f1 \<and> 0 \<le> f1 \<and> f1 \<le> vol - remaining ord
      \<and> volume os = volume os1 + f1" by auto
  with Full * resting_pos[OF Full(1)] show ?case
    by (auto simp: fill_Cons_full simp del: fill.simps)
next
  case (Part vol ord os)
  then show ?case
    by (auto simp: fill_Cons_part remaining_def simp del: fill.simps)
qed auto

text \<open>Unless the taker is filled, nothing it could trade with is left at the front.\<close>

lemma fill_exhausts:
  assumes "\<forall>ord \<in> set os. resting s ord" and "fill ok r vol os = (os', evs, f)" and "f < vol"
  shows "os' = [] \<or> \<not> ok (ord_price (hd os'))"
  using assms
proof (induction vol os arbitrary: os' evs f rule: fill_induct[where ok = ok])
  case (Full vol ord os)
  obtain os1 evs1 f1 where *: "fill ok r (vol - remaining ord) os = (os1, evs1, f1)"
    by (metis prod_cases3)
  with Full show ?case by (auto simp: fill_Cons_full simp del: fill.simps)
next
  case (Part vol ord os)
  then show ?case by (auto simp: fill_Cons_part simp del: fill.simps)
qed (auto split: if_splits)

lemma fill_events:
  assumes "\<forall>ord \<in> set os. resting s ord" and "fill ok r vol os = (os', evs, f)"
  shows "(\<forall>e \<in> set evs. ev_eventType e = TRADE \<and> 0 < ev_size e \<and> ok (ev_price e)) \<and>
         map ev_matchedOrderId evs = take (length evs) (map ord_orderId os) \<and>
         map ev_price evs = take (length evs) (map ord_price os)"
  using assms
proof (induction vol os arbitrary: os' evs f rule: fill_induct[where ok = ok])
  case (Full vol ord os)
  obtain os1 evs1 f1 where *: "fill ok r (vol - remaining ord) os = (os1, evs1, f1)"
    by (metis prod_cases3)
  with Full.IH[OF *] Full resting_pos[OF Full(1)] show ?case
    by (auto simp: fill_Cons_full simp del: fill.simps)
next
  case (Part vol ord os)
  then show ?case by (auto simp: fill_Cons_part simp del: fill.simps)
qed (auto split: if_splits)

text \<open>A fill takes exactly the smaller of the volume asked for and the volume on offer.\<close>

lemma fill_amount:
  assumes "\<forall>ord \<in> set os. resting s ord" and "fill ok r vol os = (os', evs, f)" and "0 \<le> vol"
  shows "f = min vol (volume (takeWhile (\<lambda>x. ok (ord_price x)) os))"
  using assms
proof (induction vol os arbitrary: os' evs f rule: fill_induct[where ok = ok])
  case (Nil vol)
  then show ?case by simp
next
  case (Stop vol ord os)
  have "0 \<le> volume (takeWhile (\<lambda>x. ok (ord_price x)) (ord # os))"
    using Stop by (intro volume_nonneg[of _ s]) (auto dest!: set_takeWhileD)
  with Stop show ?case by (auto split: if_splits)
next
  case (Full vol ord os)
  obtain os1 evs1 f1 where *: "fill ok r (vol - remaining ord) os = (os1, evs1, f1)"
    by (metis prod_cases3)
  with Full.IH[OF *] Full show ?case by (auto simp: fill_Cons_full simp del: fill.simps)
next
  case (Part vol ord os)
  have "0 \<le> volume (takeWhile (\<lambda>x. ok (ord_price x)) os)"
    using Part by (intro volume_nonneg[of _ s]) (auto dest!: set_takeWhileD)
  with Part show ?case by (auto simp: fill_Cons_part simp del: fill.simps)
qed

end
