(* ===== verification/Flat_Book.thy ===== *)
theory Flat_Book
  imports Book_Spec
begin

text \<open>
  The operations of the abstract order book and its invariants. Every operation has the
  arguments of the \<open>IOrderBook\<close> operation it specifies; \<open>node\<close> is the pool node that a reject
  or reduce event is written to.
\<close>

section \<open>Operations\<close>

fun insert_order :: "order_action \<Rightarrow> order \<Rightarrow> order list \<Rightarrow> order list" where
  "insert_order s ord [] = [ord]"
| "insert_order s ord (x # xs) =
     (if before s (ord_price ord) (ord_price x) then ord # x # xs else x # insert_order s ord xs)"

definition fb_orders :: "flat_book \<Rightarrow> order list" where
  "fb_orders fb = fb_asks fb @ fb_bids fb"

definition fb_find :: "int \<Rightarrow> flat_book \<Rightarrow> order option" where
  "fb_find orderId fb = find (\<lambda>x. ord_orderId x = orderId) (fb_orders fb)"

definition fb_remove :: "int \<Rightarrow> flat_book \<Rightarrow> flat_book" where
  "fb_remove orderId fb =
     \<lparr>fb_asks = filter (\<lambda>x. ord_orderId x \<noteq> orderId) (fb_asks fb),
      fb_bids = filter (\<lambda>x. ord_orderId x \<noteq> orderId) (fb_bids fb)\<rparr>"

definition fb_resize :: "int \<Rightarrow> int \<Rightarrow> flat_book \<Rightarrow> flat_book" where
  "fb_resize orderId by fb =
     (let g = (\<lambda>x. if ord_orderId x = orderId then x\<lparr>ord_size := ord_size x - by\<rparr> else x)
      in \<lparr>fb_asks = map g (fb_asks fb), fb_bids = map g (fb_bids fb)\<rparr>)"

definition set_events :: "trade_event list \<Rightarrow> order_command \<Rightarrow> order_command" where
  "set_events evs cmd = (if evs = [] then cmd else cmd\<lparr>cmd_matcherEvent := evs\<rparr>)"

definition flat_match ::
  "iorder \<Rightarrow> (int \<Rightarrow> bool) \<Rightarrow> flat_book \<Rightarrow> order_command \<Rightarrow> flat_book \<times> order_command \<times> int" where
  "flat_match io ok fb cmd =
     (case fill ok (io_reserveBidPrice io) (io_size io - io_filled io)
             (fb_side (opposite (io_action io)) fb) of
        (os', evs, f) \<Rightarrow>
          (fb_set_side (opposite (io_action io)) os' fb, set_events evs cmd, io_filled io + f))"

definition cmd_order :: "order_command \<Rightarrow> int \<Rightarrow> order" where
  "cmd_order cmd filled =
     \<lparr>ord_orderId = cmd_orderId cmd, ord_price = cmd_price cmd, ord_size = cmd_size cmd,
      ord_filled = filled, ord_reserveBidPrice = cmd_reserveBidPrice cmd,
      ord_action = cmd_action cmd, ord_uid = cmd_uid cmd, ord_timestamp = cmd_timestamp cmd\<rparr>"

definition fb_insert :: "order \<Rightarrow> flat_book \<Rightarrow> flat_book" where
  "fb_insert ord fb =
     fb_set_side (ord_action ord) (insert_order (ord_action ord) ord (fb_side (ord_action ord) fb)) fb"

definition flat_gtc :: "trade_event \<Rightarrow> flat_book \<Rightarrow> order_command \<Rightarrow> flat_book \<times> order_command" where
  "flat_gtc node fb cmd =
     (case flat_match (cmd_iorder cmd) (crosses (cmd_action cmd) (cmd_price cmd)) fb cmd of
        (fb1, cmd1, filled) \<Rightarrow>
          if filled = cmd_size cmd then (fb1, cmd1)
          else if fb_find (cmd_orderId cmd) fb1 \<noteq> None
          then (fb1, attach_reject_event node cmd1 (cmd_size cmd - filled))
          else (fb_insert (cmd_order cmd filled) fb1, cmd1))"

definition flat_ioc :: "trade_event \<Rightarrow> flat_book \<Rightarrow> order_command \<Rightarrow> flat_book \<times> order_command" where
  "flat_ioc node fb cmd =
     (case flat_match (cmd_iorder cmd) (crosses (cmd_action cmd) (cmd_price cmd)) fb cmd of
        (fb1, cmd1, filled) \<Rightarrow>
          if cmd_size cmd - filled \<noteq> 0
          then (fb1, attach_reject_event node cmd1 (cmd_size cmd - filled))
          else (fb1, cmd1))"

text \<open>The price of filling \<open>sz\<close> from the front, if there is enough volume.\<close>

fun budget_to_fill :: "int \<Rightarrow> order list \<Rightarrow> int option" where
  "budget_to_fill sz [] = None"
| "budget_to_fill sz (ord # os) =
     (if sz > remaining ord
      then map_option (\<lambda>b. remaining ord * ord_price ord + b) (budget_to_fill (sz - remaining ord) os)
      else Some (sz * ord_price ord))"

definition is_budget_limit_satisfied :: "order_action \<Rightarrow> int \<Rightarrow> int \<Rightarrow> bool" where
  "is_budget_limit_satisfied orderAction calculated limit \<longleftrightarrow>
     calculated = limit \<or> ((orderAction = BID) \<noteq> (calculated > limit))"

definition flat_fok_budget ::
  "trade_event \<Rightarrow> flat_book \<Rightarrow> order_command \<Rightarrow> flat_book \<times> order_command" where
  "flat_fok_budget node fb cmd =
     (case budget_to_fill (cmd_size cmd) (fb_side (opposite (cmd_action cmd)) fb) of
        None \<Rightarrow> (fb, attach_reject_event node cmd (cmd_size cmd))
      | Some budget \<Rightarrow>
          if is_budget_limit_satisfied (cmd_action cmd) budget (cmd_price cmd)
          then (case flat_match (cmd_iorder cmd) (\<lambda>_. True) fb cmd of (fb1, cmd1, _) \<Rightarrow> (fb1, cmd1))
          else (fb, attach_reject_event node cmd (cmd_size cmd)))"

definition flat_new_order ::
  "trade_event \<Rightarrow> flat_book \<Rightarrow> order_command \<Rightarrow> flat_book \<times> order_command" where
  "flat_new_order node fb cmd =
     (case cmd_orderType cmd of
        GTC \<Rightarrow> flat_gtc node fb cmd
      | IOC \<Rightarrow> flat_ioc node fb cmd
      | FOK_BUDGET \<Rightarrow> flat_fok_budget node fb cmd
      | _ \<Rightarrow> (fb, attach_reject_event node cmd (cmd_size cmd)))"

definition flat_cancel ::
  "trade_event \<Rightarrow> flat_book \<Rightarrow> order_command \<Rightarrow> result_code \<times> flat_book \<times> order_command" where
  "flat_cancel node fb cmd =
     (case fb_find (cmd_orderId cmd) fb of
        None \<Rightarrow> (MATCHING_UNKNOWN_ORDER_ID, fb, cmd)
      | Some ord \<Rightarrow>
          if ord_uid ord \<noteq> cmd_uid cmd then (MATCHING_UNKNOWN_ORDER_ID, fb, cmd)
          else (SUCCESS, fb_remove (cmd_orderId cmd) fb,
                cmd\<lparr>cmd_matcherEvent := [send_reduce_event node (ord_price ord)
                       (ord_reserveBidPrice ord) (remaining ord) True],
                    cmd_action := ord_action ord\<rparr>))"

definition flat_reduce ::
  "trade_event \<Rightarrow> flat_book \<Rightarrow> order_command \<Rightarrow> result_code \<times> flat_book \<times> order_command" where
  "flat_reduce node fb cmd =
     (if cmd_size cmd \<le> 0 then (MATCHING_REDUCE_FAILED_WRONG_SIZE, fb, cmd)
      else case fb_find (cmd_orderId cmd) fb of
        None \<Rightarrow> (MATCHING_UNKNOWN_ORDER_ID, fb, cmd)
      | Some ord \<Rightarrow>
          if ord_uid ord \<noteq> cmd_uid cmd then (MATCHING_UNKNOWN_ORDER_ID, fb, cmd)
          else let reduceBy = min (remaining ord) (cmd_size cmd);
                   canRemove = (reduceBy = remaining ord)
               in (SUCCESS,
                   if canRemove then fb_remove (cmd_orderId cmd) fb
                   else fb_resize (cmd_orderId cmd) reduceBy fb,
                   cmd\<lparr>cmd_matcherEvent := [send_reduce_event node (ord_price ord)
                          (ord_reserveBidPrice ord) reduceBy canRemove],
                       cmd_action := ord_action ord\<rparr>))"

definition flat_move ::
  "symbol_type \<Rightarrow> flat_book \<Rightarrow> order_command \<Rightarrow> result_code \<times> flat_book \<times> order_command" where
  "flat_move stype fb cmd =
     (case fb_find (cmd_orderId cmd) fb of
        None \<Rightarrow> (MATCHING_UNKNOWN_ORDER_ID, fb, cmd)
      | Some ord \<Rightarrow>
          if ord_uid ord \<noteq> cmd_uid cmd then (MATCHING_UNKNOWN_ORDER_ID, fb, cmd)
          else let cmd1 = cmd\<lparr>cmd_action := ord_action ord\<rparr> in
            if stype = CURRENCY_EXCHANGE_PAIR \<and> ord_action ord = BID
               \<and> cmd_price cmd > ord_reserveBidPrice ord
            then (MATCHING_MOVE_FAILED_PRICE_OVER_RISK_LIMIT, fb, cmd1)
            else let ord1 = ord\<lparr>ord_price := cmd_price cmd\<rparr> in
              (case flat_match (ord_iorder ord1) (crosses (ord_action ord) (cmd_price cmd))
                      (fb_remove (cmd_orderId cmd) fb) cmd1 of
                 (fb2, cmd2, filled) \<Rightarrow>
                   (SUCCESS,
                    if filled = ord_size ord then fb2
                    else fb_insert (ord1\<lparr>ord_filled := filled\<rparr>) fb2,
                    cmd2)))"

section \<open>Invariants\<close>

definition side_ok :: "order_action \<Rightarrow> order list \<Rightarrow> bool" where
  "side_ok s os \<longleftrightarrow> (\<forall>x \<in> set os. resting s x) \<and>
     sorted_wrt (\<lambda>p q. \<not> before s q p) (map ord_price os)"

definition flat_ok :: "flat_book \<Rightarrow> bool" where
  "flat_ok fb \<longleftrightarrow> (\<forall>s. side_ok s (fb_side s fb)) \<and> distinct (map ord_orderId (fb_orders fb))"

text \<open>No bid reaches an ask: a book at rest has nothing left to trade.\<close>

definition uncrossed :: "flat_book \<Rightarrow> bool" where
  "uncrossed fb \<longleftrightarrow> (\<forall>x \<in> set (fb_asks fb). \<forall>y \<in> set (fb_bids fb). ord_price y < ord_price x)"

lemma uncrossed_sides:
  "uncrossed fb \<longleftrightarrow>
     (\<forall>p \<in> ord_price ` set (fb_side s fb). \<forall>q \<in> ord_price ` set (fb_side (opposite s) fb).
        \<not> crosses s p q)"
  unfolding uncrossed_def by (cases s) (auto simp: not_le)

lemma set_fb_orders: "set (fb_orders fb) = set (fb_side s fb) \<union> set (fb_side (opposite s) fb)"
  by (cases s) (auto simp: fb_orders_def)

lemma distinct_fb_orders:
  "distinct (map ord_orderId (fb_orders fb)) \<longleftrightarrow>
     distinct (map ord_orderId (fb_side s fb)) \<and> distinct (map ord_orderId (fb_side (opposite s) fb)) \<and>
     ord_orderId ` set (fb_side s fb) \<inter> ord_orderId ` set (fb_side (opposite s) fb) = {}"
  by (cases s) (auto simp: fb_orders_def)

lemma flat_ok_sides:
  "flat_ok fb \<longleftrightarrow> side_ok s (fb_side s fb) \<and> side_ok (opposite s) (fb_side (opposite s) fb) \<and>
     distinct (map ord_orderId (fb_side s fb)) \<and> distinct (map ord_orderId (fb_side (opposite s) fb)) \<and>
     ord_orderId ` set (fb_side s fb) \<inter> ord_orderId ` set (fb_side (opposite s) fb) = {}"
proof -
  have "(\<forall>t. side_ok t (fb_side t fb)) \<longleftrightarrow>
      side_ok s (fb_side s fb) \<and> side_ok (opposite s) (fb_side (opposite s) fb)"
    by (metis opposite.simps order_action.exhaust)
  then show ?thesis by (simp add: flat_ok_def distinct_fb_orders[of fb s])
qed

lemma side_okD: "side_ok s os \<Longrightarrow> \<forall>x \<in> set os. resting s x"
  by (simp add: side_ok_def)

lemma flat_ok_side: "flat_ok fb \<Longrightarrow> side_ok s (fb_side s fb)"
  by (simp add: flat_ok_def)

lemma side_ok_filter: "side_ok s os \<Longrightarrow> side_ok s (filter P os)"
proof (induction os)
  case Nil
  then show ?case by simp
next
  case (Cons x os)
  then show ?case by (auto simp: side_ok_def)
qed

lemma set_insert_order [simp]: "set (insert_order s ord os) = insert ord (set os)"
  by (induction os) auto

lemma volume_insert_order [simp]: "volume (insert_order s ord os) = remaining ord + volume os"
  by (induction os) auto

lemma distinct_insert_order:
  "distinct (map ord_orderId (insert_order s ord os)) \<longleftrightarrow>
     ord_orderId ord \<notin> ord_orderId ` set os \<and> distinct (map ord_orderId os)"
  by (induction os) auto

lemma insert_order_sorted:
  "sorted_wrt (\<lambda>p q. \<not> before s q p) (map ord_price os) \<Longrightarrow>
   sorted_wrt (\<lambda>p q. \<not> before s q p) (map ord_price (insert_order s ord os))"
proof (induction os)
  case Nil
  then show ?case by simp
next
  case (Cons x os)
  show ?case
  proof (cases "before s (ord_price ord) (ord_price x)")
    case True
    then have "\<not> before s (ord_price y) (ord_price ord)" if "y \<in> set (x # os)" for y
      using Cons.prems that by (cases s) auto
    with True Cons.prems show ?thesis by auto
  next
    case False
    with Cons show ?thesis by auto
  qed
qed

lemma side_ok_insert: "side_ok s os \<Longrightarrow> resting s ord \<Longrightarrow> side_ok s (insert_order s ord os)"
  by (simp add: side_ok_def insert_order_sorted)

text \<open>Time priority: an inserted order goes behind every order it does not beat on price.\<close>

lemma insert_order_split:
  "insert_order s ord os =
     takeWhile (\<lambda>x. \<not> before s (ord_price ord) (ord_price x)) os @ ord #
     dropWhile (\<lambda>x. \<not> before s (ord_price ord) (ord_price x)) os"
  by (induction os) auto

section \<open>Matching keeps the invariants\<close>

lemma drop_sorted_wrt: "sorted_wrt P xs \<Longrightarrow> sorted_wrt P (drop k xs)"
  by (metis append_take_drop_id sorted_wrt_append)

lemma fill_side_ok:
  assumes "side_ok s os" and "fill ok r vol os = (os', evs, f)"
  shows "side_ok s os' \<and> (distinct (map ord_orderId os) \<longrightarrow> distinct (map ord_orderId os'))
    \<and> ord_orderId ` set os' \<subseteq> ord_orderId ` set os \<and> ord_price ` set os' \<subseteq> ord_price ` set os"
proof -
  obtain k where k: "map ord_price os' = drop k (map ord_price os)"
    "map ord_orderId os' = drop k (map ord_orderId os)"
    using fill_suffix[OF side_okD[OF assms(1)] assms(2)] by blast
  have sub: "ord_price ` set os' \<subseteq> ord_price ` set os" "ord_orderId ` set os' \<subseteq> ord_orderId ` set os"
    using k by (metis set_drop_subset set_map)+
  have srt: "sorted_wrt (\<lambda>p q. \<not> before s q p) (map ord_price os')"
    using assms(1) k by (simp add: side_ok_def drop_sorted_wrt)
  have "\<forall>x \<in> set os'. resting s x"
    using fill_resting[OF side_okD[OF assms(1)] assms(2)] .
  with srt sub k(2) show ?thesis by (simp add: side_ok_def)
qed

lemma flat_match_ok:
  assumes "flat_ok fb" and "flat_match io ok fb cmd = (fb', cmd', filled)"
  shows "flat_ok fb' \<and> fb_side (io_action io) fb' = fb_side (io_action io) fb
    \<and> ord_orderId ` set (fb_orders fb') \<subseteq> ord_orderId ` set (fb_orders fb)
    \<and> (uncrossed fb \<longrightarrow> uncrossed fb')"
proof -
  let ?s = "io_action io"
  obtain os' evs f where F: "fill ok (io_reserveBidPrice io) (io_size io - io_filled io)
      (fb_side (opposite ?s) fb) = (os', evs, f)" by (metis prod_cases3)
  with assms(2) have fb': "fb' = fb_set_side (opposite ?s) os' fb" by (simp add: flat_match_def)
  have S: "fb_side ?s fb' = fb_side ?s fb" "fb_side (opposite ?s) fb' = os'"
    by (simp_all add: fb' fb_side_set_if)
  note K = fill_side_ok[OF flat_ok_side[OF assms(1), of "opposite ?s"] F]
  have "flat_ok fb'"
    using assms(1) K unfolding flat_ok_sides[of fb' ?s] flat_ok_sides[of fb ?s] S by fast
  moreover have "ord_orderId ` set (fb_orders fb') \<subseteq> ord_orderId ` set (fb_orders fb)"
    using K unfolding set_fb_orders[of fb' ?s] set_fb_orders[of fb ?s] S by fast
  moreover have "uncrossed fb \<longrightarrow> uncrossed fb'"
    using K unfolding uncrossed_sides[of fb' ?s] uncrossed_sides[of fb ?s] S
    by blast
  ultimately show ?thesis using S by blast
qed

lemma flat_match_resting:
  assumes "flat_ok fb" and "flat_match io ok fb cmd = (fb', cmd', filled)"
    and "io_filled io \<le> io_size io"
  shows "io_filled io \<le> filled \<and> filled \<le> io_size io"
proof -
  obtain os' evs f where F: "fill ok (io_reserveBidPrice io) (io_size io - io_filled io)
      (fb_side (opposite (io_action io)) fb) = (os', evs, f)" by (metis prod_cases3)
  with fill_volume[OF side_okD[OF flat_ok_side[OF assms(1)]] F] assms(2,3) show ?thesis
    by (auto simp: flat_match_def)
qed

text \<open>A taker that is not filled finds no crossing order any more.\<close>

lemma flat_match_uncrosses:
  assumes "flat_ok fb" and "flat_match io (crosses (io_action io) p) fb cmd = (fb', cmd', filled)"
    and "filled < io_size io"
  shows "\<forall>y \<in> set (fb_side (opposite (io_action io)) fb'). \<not> crosses (io_action io) p (ord_price y)"
proof -
  let ?s = "io_action io"
  obtain os' evs f where F: "fill (crosses ?s p) (io_reserveBidPrice io) (io_size io - io_filled io)
      (fb_side (opposite ?s) fb) = (os', evs, f)" by (metis prod_cases3)
  with assms(2) have fb': "fb' = fb_set_side (opposite ?s) os' fb" and fl: "filled = io_filled io + f"
    by (simp_all add: flat_match_def)
  have R: "\<forall>x \<in> set (fb_side (opposite ?s) fb). resting (opposite ?s) x"
    using side_okD[OF flat_ok_side[OF assms(1)]] .
  have E: "os' = [] \<or> \<not> crosses ?s p (ord_price (hd os'))"
    using fill_exhausts[OF R F] fl assms(3) by linarith
  have "side_ok (opposite ?s) os'"
    using fill_side_ok[OF flat_ok_side[OF assms(1)] F] by blast
  then have "\<forall>y \<in> set os'. \<not> before (opposite ?s) (ord_price y) (ord_price (hd os'))"
    by (cases os') (auto simp: side_ok_def)
  with E have "\<forall>y \<in> set os'. \<not> crosses ?s p (ord_price y)"
    using crosses_mono[of "opposite ?s" p] by (cases os') auto
  then show ?thesis by (simp add: fb')
qed

text \<open>The budget is the same counted by prices or by orders.\<close>

lemma budget_bucket:
  "(\<And>x. x \<in> set xs \<Longrightarrow> resting s x \<and> ord_price x = p) \<Longrightarrow> xs \<noteq> [] \<Longrightarrow>
   budget_to_fill sz (xs @ ys) =
     (if sz > volume xs then map_option (\<lambda>b. volume xs * p + b) (budget_to_fill (sz - volume xs) ys)
      else Some (sz * p))"
proof (induction xs arbitrary: sz)
  case Nil
  then show ?case by simp
next
  case (Cons x xs)
  have x: "0 < remaining x" "ord_price x = p" using Cons.prems(1) by (auto dest: resting_pos)
  show ?case
  proof (cases "xs = []")
    case True
    with x show ?thesis by simp
  next
    case False
    have "0 < volume xs" using False Cons.prems(1) volume_pos[of xs s] by auto
    with False x Cons.IH[of "sz - remaining x"] Cons.prems(1) show ?thesis
      by (auto simp: algebra_simps option.map_comp comp_def intro!: option.map_cong0)
  qed
qed

end
