(* ===== verification/Flat_Inv.thy ===== *)
theory Flat_Inv
  imports Flat_Book
begin

text \<open>
  Every operation of the abstract book keeps its invariants: the orders at rest are well formed,
  sorted by priority and unique, and no bid crosses an ask.
\<close>

section \<open>Finding, removing, inserting\<close>

lemma fb_find_Some:
  "fb_find i fb = Some ord \<Longrightarrow> ord \<in> set (fb_orders fb) \<and> ord_orderId ord = i"
  by (auto simp: fb_find_def find_Some_iff)

lemma fb_find_None: "fb_find i fb = None \<longleftrightarrow> i \<notin> ord_orderId ` set (fb_orders fb)"
  by (auto simp: fb_find_def find_None_iff)

lemma fb_find_iff:
  assumes "flat_ok fb"
  shows "fb_find i fb = Some ord \<longleftrightarrow> ord \<in> set (fb_orders fb) \<and> ord_orderId ord = i"
proof
  assume *: "ord \<in> set (fb_orders fb) \<and> ord_orderId ord = i"
  then obtain ord' where "fb_find i fb = Some ord'"
    using fb_find_None[of i fb] by (cases "fb_find i fb") auto
  moreover from this have "ord' = ord"
    using * fb_find_Some assms unfolding flat_ok_def distinct_map by (metis inj_onD)
  ultimately show "fb_find i fb = Some ord" by simp
qed (rule fb_find_Some)

lemma fb_find_side:
  assumes "flat_ok fb" and "fb_find i fb = Some ord"
  shows "ord \<in> set (fb_side (ord_action ord) fb) \<and> resting (ord_action ord) ord"
proof -
  have "ord \<in> set (fb_side ASK fb) \<or> ord \<in> set (fb_side BID fb)"
    using fb_find_Some[OF assms(2)] by (auto simp: fb_orders_def)
  then obtain s where "ord \<in> set (fb_side s fb)" by blast
  moreover from this have "resting s ord" using assms(1) by (auto simp: flat_ok_def side_ok_def)
  ultimately show ?thesis by (auto simp: resting_def)
qed

lemma fb_remove_side [simp]:
  "fb_side s (fb_remove i fb) = filter (\<lambda>x. ord_orderId x \<noteq> i) (fb_side s fb)"
  by (cases s) (simp_all add: fb_remove_def)

lemma fb_remove_orders: "fb_orders (fb_remove i fb) = filter (\<lambda>x. ord_orderId x \<noteq> i) (fb_orders fb)"
  by (simp add: fb_remove_def fb_orders_def)

lemma flat_ok_remove: "flat_ok fb \<Longrightarrow> flat_ok (fb_remove i fb)"
  by (simp add: flat_ok_def side_ok_filter fb_remove_orders distinct_map_filter)

lemma uncrossed_remove: "uncrossed fb \<Longrightarrow> uncrossed (fb_remove i fb)"
  by (auto simp: uncrossed_def fb_remove_def)

lemma fb_insert_side [simp]:
  "fb_side s (fb_insert ord fb) =
     (if s = ord_action ord then insert_order s ord (fb_side s fb) else fb_side s fb)"
  by (simp add: fb_insert_def fb_side_set_if)

lemma set_fb_insert [simp]: "set (fb_orders (fb_insert ord fb)) = insert ord (set (fb_orders fb))"
  by (cases "ord_action ord") (auto simp: set_fb_orders[of _ "ord_action ord"])

lemma flat_ok_insert:
  assumes "flat_ok fb" and "resting (ord_action ord) ord"
    and "ord_orderId ord \<notin> ord_orderId ` set (fb_orders fb)"
  shows "flat_ok (fb_insert ord fb)"
proof -
  let ?s = "ord_action ord"
  have "fb_side (opposite ?s) (fb_insert ord fb) = fb_side (opposite ?s) fb"
    "fb_side ?s (fb_insert ord fb) = insert_order ?s ord (fb_side ?s fb)"
    by simp_all
  with assms show ?thesis
    unfolding flat_ok_sides[of "fb_insert ord fb" ?s] flat_ok_sides[of fb ?s]
    by (auto simp: side_ok_insert distinct_insert_order set_fb_orders[of fb ?s])
qed

lemma uncrossed_insert:
  assumes "uncrossed fb"
    and "\<forall>y \<in> set (fb_side (opposite (ord_action ord)) fb). \<not> crosses (ord_action ord) (ord_price ord) (ord_price y)"
  shows "uncrossed (fb_insert ord fb)"
  using assms unfolding uncrossed_sides[of _ "ord_action ord"] by auto

lemma resize_resting:
  "resting s x \<Longrightarrow> by < remaining x \<Longrightarrow> resting s (x\<lparr>ord_size := ord_size x - by\<rparr>)"
  by (simp add: resting_def remaining_def)

lemma fb_resize_side:
  "fb_side s (fb_resize i by fb) =
     map (\<lambda>x. if ord_orderId x = i then x\<lparr>ord_size := ord_size x - by\<rparr> else x) (fb_side s fb)"
  by (cases s) (simp_all add: fb_resize_def Let_def)

lemma fb_resize_keys:
  "map ord_orderId (fb_side s (fb_resize i by fb)) = map ord_orderId (fb_side s fb)"
  "map ord_price (fb_side s (fb_resize i by fb)) = map ord_price (fb_side s fb)"
  by (auto simp: fb_resize_side)

lemma fb_orders_resize_ids:
  "map ord_orderId (fb_orders (fb_resize i by fb)) = map ord_orderId (fb_orders fb)"
  by (simp add: fb_orders_def fb_resize_def Let_def)

lemma flat_ok_resize:
  assumes ok: "flat_ok fb" and f: "fb_find i fb = Some ord" and lt: "by < remaining ord"
  shows "flat_ok (fb_resize i by fb)"
proof -
  have "side_ok s (fb_side s (fb_resize i by fb))" for s
  proof -
    have S: "side_ok s (fb_side s fb)" by (rule flat_ok_side[OF ok])
    have "resting s x'" if x': "x' \<in> set (fb_side s (fb_resize i by fb))" for x'
    proof -
      obtain x where x: "x \<in> set (fb_side s fb)"
        "x' = (if ord_orderId x = i then x\<lparr>ord_size := ord_size x - by\<rparr> else x)"
        using x' by (auto simp: fb_resize_side)
      have "ord_orderId x = i \<Longrightarrow> x = ord"
        using x(1) f fb_find_iff[OF ok, of i x] by (auto simp: set_fb_orders[of fb s])
      with x S lt show ?thesis by (auto simp: side_ok_def resize_resting)
    qed
    with S show ?thesis by (simp add: side_ok_def fb_resize_keys)
  qed
  with ok show ?thesis by (simp add: flat_ok_def fb_orders_resize_ids)
qed

lemma uncrossed_resize: "uncrossed fb \<Longrightarrow> uncrossed (fb_resize i by fb)"
  using fb_resize_keys(2)[of _ i "by" fb]
  unfolding uncrossed_sides[of _ ASK] by (metis list.set_map)

section \<open>The operations keep the invariants\<close>

lemma iorder_sel [simp]:
  "io_action (cmd_iorder cmd) = cmd_action cmd" "io_size (cmd_iorder cmd) = cmd_size cmd"
  "io_filled (cmd_iorder cmd) = 0" "io_price (cmd_iorder cmd) = cmd_price cmd"
  "io_reserveBidPrice (cmd_iorder cmd) = cmd_reserveBidPrice cmd"
  "io_action (ord_iorder ord) = ord_action ord" "io_size (ord_iorder ord) = ord_size ord"
  "io_filled (ord_iorder ord) = ord_filled ord" "io_price (ord_iorder ord) = ord_price ord"
  "io_reserveBidPrice (ord_iorder ord) = ord_reserveBidPrice ord"
  by (simp_all add: cmd_iorder_def ord_iorder_def)

lemma cmd_order_sel [simp]:
  "ord_orderId (cmd_order cmd f) = cmd_orderId cmd" "ord_price (cmd_order cmd f) = cmd_price cmd"
  "ord_size (cmd_order cmd f) = cmd_size cmd" "ord_filled (cmd_order cmd f) = f"
  "ord_reserveBidPrice (cmd_order cmd f) = cmd_reserveBidPrice cmd"
  "ord_action (cmd_order cmd f) = cmd_action cmd" "ord_uid (cmd_order cmd f) = cmd_uid cmd"
  by (simp_all add: cmd_order_def)

lemma flat_gtc_ok:
  assumes ok: "flat_ok fb" and pos: "0 < cmd_size cmd" and r: "flat_gtc node fb cmd = (fb', cmd')"
  shows "flat_ok fb' \<and> (uncrossed fb \<longrightarrow> uncrossed fb')"
proof -
  let ?io = "cmd_iorder cmd"
  obtain fb1 cmd1 filled where M:
    "flat_match ?io (crosses (cmd_action cmd) (cmd_price cmd)) fb cmd = (fb1, cmd1, filled)"
    by (metis prod_cases3)
  note K = flat_match_ok[OF ok M]
  have F: "0 \<le> filled \<and> filled \<le> cmd_size cmd"
    using flat_match_resting[OF ok M] pos by simp
  show ?thesis
  proof (cases "filled \<noteq> cmd_size cmd \<and> fb_find (cmd_orderId cmd) fb1 = None")
    case True
    then have fb': "fb' = fb_insert (cmd_order cmd filled) fb1" using r M by (simp add: flat_gtc_def)
    have "resting (cmd_action cmd) (cmd_order cmd filled)"
      using True F by (simp add: resting_def)
    moreover have "cmd_orderId cmd \<notin> ord_orderId ` set (fb_orders fb1)"
      using True fb_find_None by blast
    ultimately have "flat_ok fb'"
      unfolding fb' using flat_ok_insert[of fb1 "cmd_order cmd filled"] K by simp
    moreover have "\<forall>y \<in> set (fb_side (opposite (cmd_action cmd)) fb1).
        \<not> crosses (cmd_action cmd) (cmd_price cmd) (ord_price y)"
      using flat_match_uncrosses[OF ok, of ?io "cmd_price cmd"] M True F by simp
    then have "uncrossed fb1 \<Longrightarrow> uncrossed fb'"
      unfolding fb' by (intro uncrossed_insert) simp_all
    ultimately show ?thesis using K by blast
  next
    case False
    then have "fb' = fb1" using r M by (auto simp: flat_gtc_def split: if_splits)
    with K show ?thesis by blast
  qed
qed

lemma flat_new_order_ok:
  assumes ok: "flat_ok fb" and pos: "0 < cmd_size cmd"
    and r: "flat_new_order node fb cmd = (fb', cmd')"
  shows "flat_ok fb' \<and> (uncrossed fb \<longrightarrow> uncrossed fb')"
proof (cases "cmd_orderType cmd")
  case GTC
  with flat_gtc_ok[OF ok pos] r show ?thesis by (simp add: flat_new_order_def)
next
  case IOC
  then have "\<exists>cmd1 filled. flat_match (cmd_iorder cmd)
      (crosses (cmd_action cmd) (cmd_price cmd)) fb cmd = (fb', cmd1, filled)"
    using r by (auto simp: flat_new_order_def flat_ioc_def split: prod.splits if_splits)
  with flat_match_ok[OF ok] show ?thesis by blast
next
  case FOK_BUDGET
  then have "fb' = fb \<or> (\<exists>cmd1 filled. flat_match (cmd_iorder cmd) (\<lambda>_. True) fb cmd = (fb', cmd1, filled))"
    using r by (auto simp: flat_new_order_def flat_fok_budget_def split: prod.splits option.splits if_splits)
  with flat_match_ok[OF ok] ok show ?thesis by blast
qed (use r ok in \<open>simp_all add: flat_new_order_def\<close>)

lemma flat_cancel_ok:
  assumes "flat_ok fb" and "flat_cancel node fb cmd = (code, fb', cmd')"
  shows "flat_ok fb' \<and> (uncrossed fb \<longrightarrow> uncrossed fb')"
  using assms flat_ok_remove uncrossed_remove
  by (fastforce simp: flat_cancel_def split: option.splits if_splits)

lemma flat_reduce_ok:
  assumes ok: "flat_ok fb" and r: "flat_reduce node fb cmd = (code, fb', cmd')"
  shows "flat_ok fb' \<and> (uncrossed fb \<longrightarrow> uncrossed fb')"
proof -
  consider "fb' = fb" | "fb' = fb_remove (cmd_orderId cmd) fb"
    | ord where "fb_find (cmd_orderId cmd) fb = Some ord"
        "min (remaining ord) (cmd_size cmd) < remaining ord"
        "fb' = fb_resize (cmd_orderId cmd) (min (remaining ord) (cmd_size cmd)) fb"
    using r by (auto simp: flat_reduce_def Let_def min_def split: option.splits if_splits)
  then show ?thesis
    by cases (use ok flat_ok_remove uncrossed_remove flat_ok_resize uncrossed_resize in blast)+
qed

lemma flat_move_ok:
  assumes ok: "flat_ok fb" and r: "flat_move stype fb cmd = (code, fb', cmd')"
  shows "flat_ok fb' \<and> (uncrossed fb \<longrightarrow> uncrossed fb')"
proof (cases "fb' = fb")
  case True
  with ok show ?thesis by simp
next
  case False
  let ?i = "cmd_orderId cmd" and ?p = "cmd_price cmd"
  obtain ord where f: "fb_find ?i fb = Some ord"
    using r False by (auto simp: flat_move_def split: option.splits)
  let ?io = "ord_iorder (ord\<lparr>ord_price := ?p\<rparr>)"
    and ?cmd1 = "cmd\<lparr>cmd_action := ord_action ord\<rparr>"
  obtain fb2 cmd2 filled where M:
    "flat_match ?io (crosses (ord_action ord) ?p) (fb_remove ?i fb) ?cmd1 = (fb2, cmd2, filled)"
    by (metis prod_cases3)
  have fb': "fb' = (if filled = ord_size ord then fb2
      else fb_insert (ord\<lparr>ord_price := ?p, ord_filled := filled\<rparr>) fb2)"
    using r False f M by (simp add: flat_move_def Let_def split: if_splits)
  note ok1 = flat_ok_remove[OF ok, of ?i]
  note K = flat_match_ok[OF ok1 M]
  have R: "resting (ord_action ord) ord" using fb_find_side[OF ok f] by blast
  have F: "0 \<le> filled \<and> filled \<le> ord_size ord"
    using flat_match_resting[OF ok1 M] R by (auto simp: resting_def)
  show ?thesis
  proof (cases "filled = ord_size ord")
    case True
    with fb' K uncrossed_remove show ?thesis by simp
  next
    case False
    let ?new = "ord\<lparr>ord_price := ?p, ord_filled := filled\<rparr>"
    have "ord_orderId ord = ?i" using fb_find_Some[OF f] by simp
    then have "ord_orderId ?new \<notin> ord_orderId ` set (fb_orders fb2)"
      using K by (auto simp: fb_remove_orders)
    moreover have "resting (ord_action ?new) ?new" using False F R by (simp add: resting_def)
    ultimately have "flat_ok (fb_insert ?new fb2)" using K by (intro flat_ok_insert) simp_all
    moreover have "\<forall>y \<in> set (fb_side (opposite (ord_action ord)) fb2).
        \<not> crosses (ord_action ord) ?p (ord_price y)"
      using flat_match_uncrosses[OF ok1, of ?io ?p] M False F by simp
    then have "uncrossed fb2 \<Longrightarrow> uncrossed (fb_insert ?new fb2)"
      by (intro uncrossed_insert) simp_all
    ultimately show ?thesis using fb' False K uncrossed_remove by simp
  qed
qed

end
