(* ===== verification/Naive_Book.thy ===== *)
theory Naive_Book
  imports Flat_Inv
begin

text \<open>
  \<open>orderbook/OrderBookNaiveImpl\<close>: two price-sorted maps of buckets and an index from order id
  to order. The symbol specification is part of the book. \<open>node\<close> is the pool node that the
  event of a reject, a cancel or a reduce is written to.
\<close>

section \<open>State\<close>

record naive_book =
  nb_symbolSpec :: symbol_spec
  nb_heap :: order_heap
  nb_askBuckets :: "(int \<times> orders_bucket) list"
  nb_bidBuckets :: "(int \<times> orders_bucket) list"
  nb_idMap :: "(int, addr) umap"

definition new_naive_book :: "symbol_spec \<Rightarrow> naive_book" where
  "new_naive_book spec = \<lparr>nb_symbolSpec = spec, nb_heap = empty_heap, nb_askBuckets = [],
     nb_bidBuckets = [], nb_idMap = []\<rparr>"

fun nb_side :: "order_action \<Rightarrow> naive_book \<Rightarrow> (int \<times> orders_bucket) list" where
  "nb_side ASK nb = nb_askBuckets nb"
| "nb_side BID nb = nb_bidBuckets nb"

fun nb_set_side :: "order_action \<Rightarrow> (int \<times> orders_bucket) list \<Rightarrow> naive_book \<Rightarrow> naive_book" where
  "nb_set_side ASK bs nb = nb\<lparr>nb_askBuckets := bs\<rparr>"
| "nb_set_side BID bs nb = nb\<lparr>nb_bidBuckets := bs\<rparr>"

text \<open>Erasing a bucket runs its destructor, which deletes the orders still in its list.\<close>

definition bucket_destroy :: "orders_bucket \<Rightarrow> order_heap \<Rightarrow> order_heap" where
  "bucket_destroy b h = fold heap_delete (bk_orderList b) h"

definition buckets_erase :: "order_action \<Rightarrow> int \<Rightarrow> naive_book \<Rightarrow> naive_book" where
  "buckets_erase s price nb =
     (case um_find (nb_side s nb) price of
        None \<Rightarrow> nb
      | Some b \<Rightarrow> (nb_set_side s (smap_erase price (nb_side s nb)) nb)
                    \<lparr>nb_heap := bucket_destroy b (nb_heap nb)\<rparr>)"

definition buckets_put :: "order_action \<Rightarrow> int \<Rightarrow> orders_bucket \<Rightarrow> naive_book \<Rightarrow> naive_book" where
  "buckets_put s price b nb = nb_set_side s (smap_put (before s) price b (nb_side s nb)) nb"

section \<open>Matching\<close>

record matching_range =
  rg_side :: order_action
  rg_shouldContinue :: "int \<Rightarrow> bool"
  rg_empty :: bool

definition new_matching_range ::
  "order_action \<Rightarrow> (int \<Rightarrow> bool) \<Rightarrow> naive_book \<Rightarrow> matching_range" where
  "new_matching_range s shouldContinue nb =
     \<lparr>rg_side = s, rg_shouldContinue = shouldContinue,
      rg_empty = (case nb_side s nb of [] \<Rightarrow> True | (firstPrice, _) # _ \<Rightarrow> \<not> shouldContinue firstPrice)\<rparr>"

definition get_matching_range :: "order_action \<Rightarrow> int \<Rightarrow> naive_book \<Rightarrow> matching_range" where
  "get_matching_range action price nb =
     (if action = ASK then new_matching_range BID (\<lambda>bucketPrice. bucketPrice \<ge> price) nb
      else new_matching_range ASK (\<lambda>bucketPrice. bucketPrice \<le> price) nb)"

text \<open>
  The callback of \<open>TryMatchInstantly\<close> run by \<open>forEach\<close>: it goes on to later buckets while
  their price is in range, also when the taker has nothing left.
\<close>

record match_state =
  ms_heap :: order_heap
  ms_idMap :: "(int, addr) umap"
  ms_filled :: int
  ms_events :: "trade_event list"
  ms_emptyBuckets :: "int list"

definition match_callback ::
  "int \<Rightarrow> int \<Rightarrow> int \<Rightarrow> orders_bucket \<Rightarrow> match_state \<Rightarrow> exn + (match_state \<times> orders_bucket)" where
  "match_callback orderSize reserve bucketPrice b ms =
     bindE (bucket_match (ms_heap ms) b (orderSize - ms_filled ms) reserve) (\<lambda>(h1, b1, res).
       Inr (\<lparr>ms_heap = h1,
             ms_idMap = fold um_erase (mr_ordersToRemove res) (ms_idMap ms),
             ms_filled = ms_filled ms + mr_volume res,
             ms_events = ms_events ms @ mr_eventsChain res,
             ms_emptyBuckets =
               (if bk_totalVolume b1 = 0 then ms_emptyBuckets ms @ [bucketPrice]
                else ms_emptyBuckets ms)\<rparr>, b1))"

fun match_buckets ::
  "(int \<Rightarrow> bool) \<Rightarrow> int \<Rightarrow> int \<Rightarrow> match_state \<Rightarrow> (int \<times> orders_bucket) list
     \<Rightarrow> exn + (match_state \<times> (int \<times> orders_bucket) list)" where
  "match_buckets shouldContinue orderSize reserve ms [] = Inr (ms, [])"
| "match_buckets shouldContinue orderSize reserve ms ((price, b) # bs) =
     (if \<not> shouldContinue price then Inr (ms, (price, b) # bs)
      else bindE (match_callback orderSize reserve price b ms) (\<lambda>(ms1, b1).
        bindE (match_buckets shouldContinue orderSize reserve ms1 bs) (\<lambda>(ms2, bs2).
          Inr (ms2, (price, b1) # bs2))))"

text \<open>
  The first non-empty chain replaces the command's chain, later ones are linked to its tail
  (\<open>set_events\<close>).
\<close>

definition try_match_instantly ::
  "iorder \<Rightarrow> matching_range \<Rightarrow> int \<Rightarrow> order_command \<Rightarrow> naive_book
     \<Rightarrow> exn + (naive_book \<times> order_command \<times> int)" where
  "try_match_instantly activeOrder matchingRange filled triggerCmd nb =
     (if rg_empty matchingRange then Inr (nb, triggerCmd, filled)
      else bindE (match_buckets (rg_shouldContinue matchingRange) (io_size activeOrder)
                    (io_reserveBidPrice activeOrder)
                    \<lparr>ms_heap = nb_heap nb, ms_idMap = nb_idMap nb, ms_filled = filled,
                     ms_events = [], ms_emptyBuckets = []\<rparr>
                    (nb_side (rg_side matchingRange) nb))
             (\<lambda>(ms, bs).
                let nb1 = (nb_set_side (rg_side matchingRange) bs nb)
                            \<lparr>nb_heap := ms_heap ms, nb_idMap := ms_idMap ms\<rparr>
                in Inr (fold (buckets_erase (rg_side matchingRange)) (ms_emptyBuckets ms) nb1,
                        set_events (ms_events ms) triggerCmd, ms_filled ms)))"

section \<open>New orders\<close>

text \<open>\<open>find\<close>, \<open>emplace\<close> when missing, then \<open>Put\<close>: the tail of a placement.\<close>

definition put_in_bucket ::
  "order_action \<Rightarrow> int \<Rightarrow> addr \<Rightarrow> naive_book \<Rightarrow> exn + naive_book" where
  "put_in_bucket s price a nb =
     (let b = (case um_find (nb_side s nb) price of None \<Rightarrow> new_bucket price | Some b \<Rightarrow> b)
      in bindE (bucket_put (nb_heap nb) a b) (\<lambda>b1. Inr (buckets_put s price b1 nb)))"

definition new_order_place_gtc ::
  "trade_event \<Rightarrow> naive_book \<Rightarrow> order_command \<Rightarrow> exn + (naive_book \<times> order_command)" where
  "new_order_place_gtc node nb cmd =
     (let action = cmd_action cmd; price = cmd_price cmd; sz = cmd_size cmd
      in bindE (try_match_instantly (cmd_iorder cmd) (get_matching_range action price nb) 0 cmd nb)
           (\<lambda>(nb1, cmd1, filledSize).
              if filledSize = sz then Inr (nb1, cmd1)
              else if um_find (nb_idMap nb1) (cmd_orderId cmd) \<noteq> None
              then Inr (nb1, attach_reject_event node cmd1 (sz - filledSize))
              else
                let (a, h) = heap_new (nb_heap nb1)
                      \<lparr>ord_orderId = cmd_orderId cmd, ord_price = price, ord_size = sz,
                       ord_filled = filledSize, ord_reserveBidPrice = cmd_reserveBidPrice cmd,
                       ord_action = action, ord_uid = cmd_uid cmd,
                       ord_timestamp = cmd_timestamp cmd\<rparr>
                in bindE (put_in_bucket action price a (nb1\<lparr>nb_heap := h\<rparr>)) (\<lambda>nb2.
                     Inr (nb2\<lparr>nb_idMap := um_put (cmd_orderId cmd) a (nb_idMap nb2)\<rparr>, cmd1))))"

definition new_order_match_ioc ::
  "trade_event \<Rightarrow> naive_book \<Rightarrow> order_command \<Rightarrow> exn + (naive_book \<times> order_command)" where
  "new_order_match_ioc node nb cmd =
     bindE (try_match_instantly (cmd_iorder cmd)
              (get_matching_range (cmd_action cmd) (cmd_price cmd) nb) 0 cmd nb)
       (\<lambda>(nb1, cmd1, filledSize).
          let rejectedSize = cmd_size cmd - filledSize
          in if rejectedSize \<noteq> 0 then Inr (nb1, attach_reject_event node cmd1 rejectedSize)
             else Inr (nb1, cmd1))"

fun check_budget_loop ::
  "(int \<Rightarrow> bool) \<Rightarrow> int \<Rightarrow> int \<Rightarrow> (int \<times> orders_bucket) list \<Rightarrow> int option" where
  "check_budget_loop shouldContinue remainingSize budget [] = None"
| "check_budget_loop shouldContinue remainingSize budget ((price, b) # bs) =
     (if \<not> shouldContinue price then None
      else let availableSize = bk_totalVolume b
           in if remainingSize > availableSize
              then check_budget_loop shouldContinue (remainingSize - availableSize)
                     (budget + availableSize * price) bs
              else Some (budget + remainingSize * price))"

definition check_budget_to_fill :: "int \<Rightarrow> matching_range \<Rightarrow> naive_book \<Rightarrow> int option" where
  "check_budget_to_fill sz matchingRange nb =
     (if rg_empty matchingRange then None
      else check_budget_loop (rg_shouldContinue matchingRange) sz 0 (nb_side (rg_side matchingRange) nb))"

definition new_order_match_fok_budget ::
  "trade_event \<Rightarrow> naive_book \<Rightarrow> order_command \<Rightarrow> exn + (naive_book \<times> order_command)" where
  "new_order_match_fok_budget node nb cmd =
     (let sz = cmd_size cmd;
          matchingRange = (if cmd_action cmd = ASK then new_matching_range BID (\<lambda>_. True) nb
                   else new_matching_range ASK (\<lambda>_. True) nb)
      in case check_budget_to_fill sz matchingRange nb of
           None \<Rightarrow> Inr (nb, attach_reject_event node cmd sz)
         | Some budget \<Rightarrow>
             if is_budget_limit_satisfied (cmd_action cmd) budget (cmd_price cmd)
             then bindE (try_match_instantly (cmd_iorder cmd) matchingRange 0 cmd nb)
                    (\<lambda>(nb1, cmd1, _). Inr (nb1, cmd1))
             else Inr (nb, attach_reject_event node cmd sz))"

definition naive_new_order ::
  "trade_event \<Rightarrow> naive_book \<Rightarrow> order_command \<Rightarrow> exn + (naive_book \<times> order_command)" where
  "naive_new_order node nb cmd =
     (case cmd_orderType cmd of
        GTC \<Rightarrow> new_order_place_gtc node nb cmd
      | IOC \<Rightarrow> new_order_match_ioc node nb cmd
      | FOK_BUDGET \<Rightarrow> new_order_match_fok_budget node nb cmd
      | _ \<Rightarrow> Inr (nb, attach_reject_event node cmd (cmd_size cmd)))"

section \<open>Cancel, reduce, move\<close>

text \<open>The lookup that cancel, reduce and move start with: the order, if the caller owns it.\<close>

definition owned_order :: "naive_book \<Rightarrow> order_command \<Rightarrow> exn + (addr \<times> order) option" where
  "owned_order nb cmd =
     (case um_find (nb_idMap nb) (cmd_orderId cmd) of
        None \<Rightarrow> Inr None
      | Some a \<Rightarrow> bindE (heap_read (nb_heap nb) a) (\<lambda>ord.
          if ord_uid ord \<noteq> cmd_uid cmd then Inr None else Inr (Some (a, ord))))"

definition find_bucket :: "order_action \<Rightarrow> int \<Rightarrow> naive_book \<Rightarrow> exn + orders_bucket" where
  "find_bucket s price nb =
     (case um_find (nb_side s nb) price of
        None \<Rightarrow> Inl (Runtime_Error ''Cannot find bucket for order price'')
      | Some b \<Rightarrow> Inr b)"

text \<open>\<open>Remove\<close> on the bucket found, and erasing the bucket when its volume is zero.\<close>

definition remove_from_bucket ::
  "order_action \<Rightarrow> int \<Rightarrow> int \<Rightarrow> int \<Rightarrow> naive_book \<Rightarrow> exn + naive_book" where
  "remove_from_bucket s price orderId uid nb =
     bindE (find_bucket s price nb) (\<lambda>b.
       bindE (bucket_remove (nb_heap nb) orderId uid b) (\<lambda>(b1, _).
         let nb1 = buckets_put s price b1 nb
         in Inr (if bk_totalVolume b1 = 0 then buckets_erase s price nb1 else nb1)))"

definition naive_cancel ::
  "trade_event \<Rightarrow> naive_book \<Rightarrow> order_command \<Rightarrow> exn + (result_code \<times> naive_book \<times> order_command)" where
  "naive_cancel node nb cmd =
     bindE (owned_order nb cmd) (\<lambda>found. case found of
        None \<Rightarrow> Inr (MATCHING_UNKNOWN_ORDER_ID, nb, cmd)
      | Some (a, ord) \<Rightarrow>
          bindE (remove_from_bucket (ord_action ord) (ord_price ord) (cmd_orderId cmd) (cmd_uid cmd)
                   (nb\<lparr>nb_idMap := um_erase (cmd_orderId cmd) (nb_idMap nb)\<rparr>)) (\<lambda>nb1.
            bindE (heap_read (nb_heap nb1) a) (\<lambda>ord1.
              Inr (SUCCESS, nb1\<lparr>nb_heap := heap_delete a (nb_heap nb1)\<rparr>,
                   cmd\<lparr>cmd_matcherEvent := [send_reduce_event node (ord_price ord1)
                          (ord_reserveBidPrice ord1) (ord_size ord1 - ord_filled ord1) True],
                       cmd_action := ord_action ord1\<rparr>))))"

definition naive_reduce ::
  "trade_event \<Rightarrow> naive_book \<Rightarrow> order_command \<Rightarrow> exn + (result_code \<times> naive_book \<times> order_command)" where
  "naive_reduce node nb cmd =
     (if cmd_size cmd \<le> 0 then Inr (MATCHING_REDUCE_FAILED_WRONG_SIZE, nb, cmd)
      else bindE (owned_order nb cmd) (\<lambda>found. case found of
        None \<Rightarrow> Inr (MATCHING_UNKNOWN_ORDER_ID, nb, cmd)
      | Some (a, ord) \<Rightarrow>
          let remainingSize = ord_size ord - ord_filled ord;
              reduceBy = min remainingSize (cmd_size cmd)
          in bindE (find_bucket (ord_action ord) (ord_price ord) nb) (\<lambda>b.
               if reduceBy = remainingSize
               then bindE (remove_from_bucket (ord_action ord) (ord_price ord)
                             (cmd_orderId cmd) (cmd_uid cmd)
                             (nb\<lparr>nb_idMap := um_erase (cmd_orderId cmd) (nb_idMap nb)\<rparr>)) (\<lambda>nb1.
                      Inr (SUCCESS, nb1\<lparr>nb_heap := heap_delete a (nb_heap nb1)\<rparr>,
                           cmd\<lparr>cmd_matcherEvent := [send_reduce_event node (ord_price ord)
                                  (ord_reserveBidPrice ord) reduceBy True],
                               cmd_action := ord_action ord\<rparr>))
               else let ord1 = ord\<lparr>ord_size := ord_size ord - reduceBy\<rparr>
                    in Inr (SUCCESS,
                         (buckets_put (ord_action ord) (ord_price ord) (bucket_reduce_size reduceBy b) nb)
                            \<lparr>nb_heap := heap_write a ord1 (nb_heap nb)\<rparr>,
                         cmd\<lparr>cmd_matcherEvent := [send_reduce_event_order node ord1 reduceBy False],
                             cmd_action := ord_action ord1\<rparr>))))"

definition naive_move ::
  "trade_event \<Rightarrow> naive_book \<Rightarrow> order_command \<Rightarrow> exn + (result_code \<times> naive_book \<times> order_command)" where
  "naive_move node nb cmd =
     bindE (owned_order nb cmd) (\<lambda>found. case found of
        None \<Rightarrow> Inr (MATCHING_UNKNOWN_ORDER_ID, nb, cmd)
      | Some (a, ord) \<Rightarrow>
          let newPrice = cmd_price cmd; cmd1 = cmd\<lparr>cmd_action := ord_action ord\<rparr>
          in if sp_type (nb_symbolSpec nb) = CURRENCY_EXCHANGE_PAIR \<and> ord_action ord = BID
                \<and> cmd_price cmd > ord_reserveBidPrice ord
             then Inr (MATCHING_MOVE_FAILED_PRICE_OVER_RISK_LIMIT, nb, cmd1)
             else bindE (remove_from_bucket (ord_action ord) (ord_price ord)
                           (cmd_orderId cmd) (cmd_uid cmd) nb) (\<lambda>nb1.
               bindE (heap_read (nb_heap nb1) a) (\<lambda>ord0.
                 let ord1 = ord0\<lparr>ord_price := newPrice\<rparr>;
                     nb2 = nb1\<lparr>nb_heap := heap_write a ord1 (nb_heap nb1)\<rparr>
                 in bindE (try_match_instantly (ord_iorder ord1)
                             (get_matching_range (ord_action ord1) newPrice nb2) (ord_filled ord1) cmd1 nb2)
                      (\<lambda>(nb3, cmd2, filled).
                         if filled = ord_size ord1
                         then Inr (SUCCESS,
                                nb3\<lparr>nb_idMap := um_erase (cmd_orderId cmd) (nb_idMap nb3),
                                    nb_heap := heap_delete a (nb_heap nb3)\<rparr>, cmd2)
                         else bindE (put_in_bucket (ord_action ord1) newPrice a
                                (nb3\<lparr>nb_heap := heap_write a (ord1\<lparr>ord_filled := filled\<rparr>) (nb_heap nb3)\<rparr>))
                                (\<lambda>nb4. Inr (SUCCESS, nb4, cmd2))))))"

section \<open>Queries\<close>

definition naive_orders_num :: "order_action \<Rightarrow> naive_book \<Rightarrow> int" where
  "naive_orders_num action nb = sum_list (map (\<lambda>(_, b). get_num_orders b) (nb_side action nb))"

definition naive_total_orders_volume :: "order_action \<Rightarrow> naive_book \<Rightarrow> int" where
  "naive_total_orders_volume action nb = sum_list (map (\<lambda>(_, b). bk_totalVolume b) (nb_side action nb))"

definition naive_get_order_by_id :: "int \<Rightarrow> naive_book \<Rightarrow> order option" where
  "naive_get_order_by_id orderId nb =
     map_option (ord_at (nb_heap nb)) (um_find (nb_idMap nb) orderId)"

fun validate_buckets :: "order_heap \<Rightarrow> (int \<times> orders_bucket) list \<Rightarrow> exn + unit" where
  "validate_buckets h [] = Inr ()"
| "validate_buckets h ((p, b) # bs) = bindE (bucket_validate h b) (\<lambda>_. validate_buckets h bs)"

definition naive_validate :: "naive_book \<Rightarrow> exn + unit" where
  "naive_validate nb = bindE (validate_buckets (nb_heap nb) (nb_askBuckets nb)) (\<lambda>_.
     validate_buckets (nb_heap nb) (nb_bidBuckets nb))"

definition naive_process_orders :: "order_action \<Rightarrow> naive_book \<Rightarrow> order list" where
  "naive_process_orders s nb =
     concat (map (\<lambda>(_, b). map (ord_at (nb_heap nb)) (bucket_all_orders b)) (nb_side s nb))"

definition naive_find_user_orders :: "int \<Rightarrow> naive_book \<Rightarrow> order list" where
  "naive_find_user_orders uid nb =
     filter (\<lambda>ord. ord_uid ord = uid) (naive_process_orders ASK nb) @
     filter (\<lambda>ord. ord_uid ord = uid) (naive_process_orders BID nb)"

text \<open>\<open>FillAsks\<close> and \<open>FillBids\<close> write level \<open>i\<close> and stop after \<open>size\<close> levels.\<close>

fun fill_levels ::
  "nat \<Rightarrow> nat \<Rightarrow> (int \<times> orders_bucket) list \<Rightarrow> int list \<times> int list \<times> int list
     \<Rightarrow> nat \<times> int list \<times> int list \<times> int list" where
  "fill_levels i sz [] (ps, vs, ns) = (i, ps, vs, ns)"
| "fill_levels i sz ((p, b) # bs) (ps, vs, ns) =
     (let ps1 = ps[i := bk_price b]; vs1 = vs[i := bk_totalVolume b]; ns1 = ns[i := get_num_orders b]
      in if Suc i = sz then (Suc i, ps1, vs1, ns1) else fill_levels (Suc i) sz bs (ps1, vs1, ns1))"

definition naive_fill_asks :: "nat \<Rightarrow> naive_book \<Rightarrow> l2_market_data \<Rightarrow> l2_market_data" where
  "naive_fill_asks sz nb data =
     (if sz = 0 then data\<lparr>l2_askSize := 0\<rparr>
      else case fill_levels 0 sz (nb_askBuckets nb)
                  (l2_askPrices data, l2_askVolumes data, l2_askOrders data) of
        (i, ps, vs, ns) \<Rightarrow> data\<lparr>l2_askPrices := ps, l2_askVolumes := vs, l2_askOrders := ns,
                                l2_askSize := int i\<rparr>)"

definition naive_fill_bids :: "nat \<Rightarrow> naive_book \<Rightarrow> l2_market_data \<Rightarrow> l2_market_data" where
  "naive_fill_bids sz nb data =
     (if sz = 0 then data\<lparr>l2_bidSize := 0\<rparr>
      else case fill_levels 0 sz (nb_bidBuckets nb)
                  (l2_bidPrices data, l2_bidVolumes data, l2_bidOrders data) of
        (i, ps, vs, ns) \<Rightarrow> data\<lparr>l2_bidPrices := ps, l2_bidVolumes := vs, l2_bidOrders := ns,
                                l2_bidSize := int i\<rparr>)"

definition total_ask_buckets :: "int \<Rightarrow> naive_book \<Rightarrow> int" where
  "total_ask_buckets limit nb = min limit (int (length (nb_askBuckets nb)))"

definition total_bid_buckets :: "int \<Rightarrow> naive_book \<Rightarrow> int" where
  "total_bid_buckets limit nb = min limit (int (length (nb_bidBuckets nb)))"

definition naive_l2_snapshot :: "int \<Rightarrow> naive_book \<Rightarrow> l2_market_data" where
  "naive_l2_snapshot sz nb =
     (let asksSize = nat (total_ask_buckets sz nb); bidsSize = nat (total_bid_buckets sz nb)
      in naive_fill_bids bidsSize nb
           (naive_fill_asks asksSize nb (new_l2_market_data asksSize bidsSize)))"

end
