(* ===== verification/Naive_Inv.thy ===== *)
theory Naive_Inv
  imports Naive_Book
begin

text \<open>
  The representation invariant of the naive order book and its abstraction to the flat book, and
  the proof that matching over buckets is filling from the front of the flat side.
\<close>

section \<open>Buckets\<close>

definition bucket_inv :: "order_action \<Rightarrow> order_heap \<Rightarrow> int \<Rightarrow> orders_bucket \<Rightarrow> bool" where
  "bucket_inv s h p b \<longleftrightarrow> bk_price b = p \<and> distinct (bk_orderList b) \<and>
     (\<forall>a \<in> set (bk_orderList b). \<exists>ord. hp_cells h a = Some ord \<and> resting s ord \<and> ord_price ord = p) \<and>
     bk_totalVolume b = volume (map (ord_at h) (bk_orderList b)) \<and>
     (\<forall>i a. um_find (bk_orderMap b) i = Some a \<longleftrightarrow>
        a \<in> set (bk_orderList b) \<and> ord_orderId (ord_at h a) = i)"

definition bucket_orders :: "order_heap \<Rightarrow> orders_bucket \<Rightarrow> order list" where
  "bucket_orders h b = map (ord_at h) (bk_orderList b)"

lemma bucket_inv_at:
  "bucket_inv s h p b \<Longrightarrow> a \<in> set (bk_orderList b) \<Longrightarrow>
     hp_cells h a = Some (ord_at h a) \<and> resting s (ord_at h a) \<and> ord_price (ord_at h a) = p"
  by (auto simp: bucket_inv_def ord_at_def)

lemma bucket_inv_resting:
  "bucket_inv s h p b \<Longrightarrow> x \<in> set (bucket_orders h b) \<Longrightarrow> resting s x \<and> ord_price x = p"
  by (auto simp: bucket_orders_def dest: bucket_inv_at)

lemma bucket_inv_volume: "bucket_inv s h p b \<Longrightarrow> bk_totalVolume b = volume (bucket_orders h b)"
  by (simp add: bucket_inv_def bucket_orders_def)

lemma bucket_inv_empty:
  assumes "bucket_inv s h p b" shows "bk_totalVolume b = 0 \<longleftrightarrow> bk_orderList b = []"
  using volume_pos[of "bucket_orders h b" s] bucket_inv_resting[OF assms] bucket_inv_volume[OF assms]
  by (cases "bk_orderList b") (auto simp: bucket_orders_def)

lemma ord_at_cong: "hp_cells h a = hp_cells h' a \<Longrightarrow> ord_at h a = ord_at h' a"
  by (simp add: ord_at_def)

lemma bucket_orders_cong:
  "(\<And>a. a \<in> set (bk_orderList b) \<Longrightarrow> hp_cells h' a = hp_cells h a) \<Longrightarrow>
   bucket_orders h' b = bucket_orders h b"
  by (auto simp: bucket_orders_def intro!: ord_at_cong)

lemma bucket_inv_cong:
  assumes "\<And>a. a \<in> set (bk_orderList b) \<Longrightarrow> hp_cells h' a = hp_cells h a"
  shows "bucket_inv s h' p b \<longleftrightarrow> bucket_inv s h p b"
proof -
  have "ord_at h' a = ord_at h a" if "a \<in> set (bk_orderList b)" for a
    using assms[OF that] by (rule ord_at_cong)
  moreover from this have "map (ord_at h') (bk_orderList b) = map (ord_at h) (bk_orderList b)" by simp
  ultimately show ?thesis using assms by (simp add: bucket_inv_def del: map_eq_conv cong: conj_cong)
qed

lemma ord_at_write [simp]:
  "ord_at (heap_write a ord h) x = (if x = a then ord else ord_at h x)"
  by (simp add: ord_at_def)

lemma ord_at_delete [simp]: "x \<noteq> a \<Longrightarrow> ord_at (heap_delete a h) x = ord_at h x"
  by (simp add: ord_at_def)

text \<open>Dropping the head of the list, and writing the head back with more filled.\<close>

lemma bucket_inv_drop_head:
  assumes inv: "bucket_inv s h p b" and l: "bk_orderList b = a # as"
    and h': "\<And>x. x \<noteq> a \<Longrightarrow> hp_cells h' x = hp_cells h x"
  shows "bucket_inv s h' p (b\<lparr>bk_totalVolume := bk_totalVolume b - remaining (ord_at h a),
     bk_orderMap := um_erase (ord_orderId (ord_at h a)) (bk_orderMap b),
     bk_orderList := as\<rparr>)" (is "bucket_inv s h' p ?b")
proof -
  have a: "a \<notin> set as" using inv l by (simp add: bucket_inv_def)
  have eq: "ord_at h' x = ord_at h x" if "x \<in> set as" for x
    using that a h' by (intro ord_at_cong) metis
  have m: "um_find (bk_orderMap b) i = Some x \<longleftrightarrow> x \<in> set (a # as) \<and> ord_orderId (ord_at h x) = i" for i x
    using inv l by (simp add: bucket_inv_def)
  have "um_find (bk_orderMap ?b) i = Some x \<longleftrightarrow> x \<in> set as \<and> ord_orderId (ord_at h' x) = i" for i x
  proof (cases "i = ord_orderId (ord_at h a)")
    case True
    have "ord_orderId (ord_at h x) \<noteq> i" if "x \<in> set as"
      using m[of i x] m[of i a] that a True by auto
    with True eq show ?thesis by auto
  next
    case False
    with m[of i x] eq show ?thesis by auto
  qed
  moreover have "volume (map (ord_at h') as) = volume (map (ord_at h) as)"
    using eq by (metis map_eq_conv)
  moreover have "\<exists>ord. hp_cells h' x = Some ord \<and> resting s ord \<and> ord_price ord = p" if "x \<in> set as" for x
    using that inv l h' a unfolding bucket_inv_def by (metis list.set_intros(2))
  ultimately show ?thesis using inv l by (simp add: bucket_inv_def)
qed

lemma bucket_inv_write:
  assumes inv: "bucket_inv s h p b" and a: "a \<in> set (bk_orderList b)"
    and ord1: "resting s ord1" "ord_price ord1 = p" "ord_orderId ord1 = ord_orderId (ord_at h a)"
    and v: "remaining ord1 = remaining (ord_at h a) - v"
  shows "bucket_inv s (heap_write a ord1 h) p (b\<lparr>bk_totalVolume := bk_totalVolume b - v\<rparr>)"
proof -
  obtain xs ys where l: "bk_orderList b = xs @ a # ys" using split_list[OF a] by blast
  then have "a \<notin> set xs" "a \<notin> set ys" using inv by (auto simp: bucket_inv_def)
  then have "map (ord_at (heap_write a ord1 h)) xs = map (ord_at h) xs"
    "map (ord_at (heap_write a ord1 h)) ys = map (ord_at h) ys" by auto
  with inv l v have "bk_totalVolume b - v = volume (map (ord_at (heap_write a ord1 h)) (bk_orderList b))"
    by (simp add: bucket_inv_def del: map_eq_conv)
  with inv ord1 show ?thesis by (auto simp: bucket_inv_def)
qed

section \<open>Matching in a bucket\<close>

lemma match_loop_refine:
  assumes "bucket_inv s h p b" and "ok p" and "bk_orderList b = as"
    and "fill ok r vol (map (ord_at h) as) = (os', evs, f)"
  shows "\<exists>h' b' gone. match_loop r h b vol res as = Inr (h', b',
        \<lparr>mr_eventsChain = mr_eventsChain res @ evs, mr_volume = mr_volume res + f,
         mr_ordersToRemove = mr_ordersToRemove res @ map (\<lambda>a. ord_orderId (ord_at h a)) gone\<rparr>)
     \<and> as = gone @ bk_orderList b' \<and> bucket_inv s h' p b' \<and> bucket_orders h' b' = os'
     \<and> (\<forall>a. a \<notin> set as \<longrightarrow> hp_cells h' a = hp_cells h a)
     \<and> (\<forall>a \<in> set gone. hp_cells h' a = None)
     \<and> (\<forall>a \<in> set (bk_orderList b'). ord_orderId (ord_at h' a) = ord_orderId (ord_at h a))
     \<and> hp_next h' = hp_next h"
  using assms
proof (induction as arbitrary: h b vol res os' evs f)
  case Nil
  then show ?case by (intro exI[of _ h] exI[of _ b] exI[of _ "[]"]) (simp add: bucket_orders_def)
next
  case (Cons a as)
  let ?ord = "ord_at h a"
  have l: "bk_orderList b = a # as" and a: "a \<notin> set as"
    using Cons.prems(1,3) by (auto simp: bucket_inv_def)
  have A: "hp_cells h a = Some ?ord" "resting s ?ord" "ord_price ?ord = p"
    using bucket_inv_at[OF Cons.prems(1), of a] l by auto
  have ok: "ok (ord_price ?ord)" using Cons.prems(2) A(3) by simp
  consider (Stop) "\<not> vol > 0" | (Full) "vol > 0" "remaining ?ord \<le> vol"
    | (Part) "vol > 0" "vol < remaining ?ord" by linarith
  then show ?case
  proof cases
    case Stop
    then have "os' = map (ord_at h) (a # as)" "evs = []" "f = 0"
      using Cons.prems(4) by auto
    with Stop Cons.prems(1) l show ?thesis
      by (intro exI[of _ h] exI[of _ b] exI[of _ "[]"]) (simp add: bucket_orders_def)
  next
    case Part
    let ?ord1 = "?ord\<lparr>ord_filled := ord_filled ?ord + vol\<rparr>"
    let ?h1 = "heap_write a ?ord1 h"
    let ?b1 = "b\<lparr>bk_totalVolume := bk_totalVolume b - vol\<rparr>"
    have nf: "ord_size ?ord \<noteq> ord_filled ?ord + vol" "min vol (ord_size ?ord - ord_filled ?ord) = vol"
      using Part by (auto simp: remaining_def)
    have F: "os' = ?ord1 # map (ord_at h) as" "f = vol"
      "evs = [send_trade_event default_event ?ord1 False True vol
         (if ord_action ?ord = ASK then r else ord_reserveBidPrice ?ord)]"
      using Cons.prems(4) fill_Cons_part[of vol ok ?ord r "map (ord_at h) as"] Part ok
      by (auto simp del: fill.simps)
    have "bucket_inv s ?h1 p ?b1"
      using Cons.prems(1) l A Part
      by (intro bucket_inv_write) (auto simp: resting_def remaining_def)
    moreover have "match_loop r ?h1 ?b1 0 res1 as = Inr (?h1, ?b1, res1)" for res1
      by (cases as) auto
    moreover have "map (ord_at ?h1) as = map (ord_at h) as" using a by auto
    ultimately show ?thesis using F l A Part nf
      by (intro exI[of _ ?h1] exI[of _ ?b1] exI[of _ "[]"])
        (simp add: bucket_orders_def Let_def)
  next
    case Full
    let ?v = "remaining ?ord"
    let ?ord1 = "?ord\<lparr>ord_filled := ord_size ?ord\<rparr>"
    let ?h1 = "heap_delete a (heap_write a ?ord1 h)"
    let ?b1 = "b\<lparr>bk_totalVolume := bk_totalVolume b - ?v,
      bk_orderMap := um_erase (ord_orderId ?ord) (bk_orderMap b), bk_orderList := as\<rparr>"
    let ?ev = "send_trade_event default_event ?ord1 True (vol = ?v) ?v
         (if ord_action ?ord = ASK then r else ord_reserveBidPrice ?ord)"
    let ?res1 = "\<lparr>mr_eventsChain = mr_eventsChain res @ [?ev], mr_volume = mr_volume res + ?v,
      mr_ordersToRemove = mr_ordersToRemove res @ [ord_orderId ?ord]\<rparr>"
    have eqs: "map (ord_at ?h1) as = map (ord_at h) as" using a by (auto simp: ord_at_def)
    obtain os1 evs1 f1 where F1: "fill ok r (vol - ?v) (map (ord_at h) as) = (os1, evs1, f1)"
      by (metis prod_cases3)
    have F: "os' = os1" "evs = ?ev # evs1" "f = ?v + f1"
      using Cons.prems(4) fill_Cons_full[of vol ok ?ord r "map (ord_at h) as"] Full ok F1
      by (auto simp del: fill.simps)
    have inv1: "bucket_inv s ?h1 p ?b1"
      by (rule bucket_inv_drop_head[OF Cons.prems(1) l]) simp
    have m: "min vol (ord_size ?ord - ord_filled ?ord) = ord_size ?ord - ord_filled ?ord"
      using Full by (simp add: remaining_def)
    have fl: "filter (\<lambda>x. x \<noteq> a) (bk_orderList b) = as" using l a by (simp add: filter_neq_id)
    have step: "match_loop r h b vol res (a # as) = match_loop r ?h1 ?b1 (vol - ?v) ?res1 as"
      using A Full m l fl by (cases res) (simp add: Let_def remaining_def)
    obtain h' b' gone where R:
      "match_loop r ?h1 ?b1 (vol - ?v) ?res1 as = Inr (h', b',
         \<lparr>mr_eventsChain = mr_eventsChain ?res1 @ evs1, mr_volume = mr_volume ?res1 + f1,
          mr_ordersToRemove = mr_ordersToRemove ?res1 @ map (\<lambda>a. ord_orderId (ord_at ?h1 a)) gone\<rparr>)"
      "as = gone @ bk_orderList b'" "bucket_inv s h' p b'" "bucket_orders h' b' = os1"
      "\<forall>x. x \<notin> set as \<longrightarrow> hp_cells h' x = hp_cells ?h1 x"
      "\<forall>x \<in> set gone. hp_cells h' x = None"
      "\<forall>x \<in> set (bk_orderList b'). ord_orderId (ord_at h' x) = ord_orderId (ord_at ?h1 x)"
      "hp_next h' = hp_next ?h1"
      using Cons.IH[OF inv1 Cons.prems(2), of "vol - ?v" os1 evs1 f1 ?res1] F1 eqs
      by auto
    have g: "a \<notin> set gone" "a \<notin> set (bk_orderList b')" using a R(2) by auto
    then have ids: "map (\<lambda>a. ord_orderId (ord_at ?h1 a)) gone = map (\<lambda>a. ord_orderId (ord_at h a)) gone"
      by (auto simp: ord_at_def)
    have "hp_cells h' a = None" using R(5) a by simp
    then show ?thesis using R g F ids step
      by (intro exI[of _ h'] exI[of _ b'] exI[of _ "a # gone"])
        (auto simp: ord_at_def split: if_splits)
  qed
qed

section \<open>Matching over a side\<close>

definition addrs :: "(int \<times> orders_bucket) list \<Rightarrow> addr list" where
  "addrs bs = concat (map (\<lambda>(p, b). bk_orderList b) bs)"

definition side_orders :: "order_heap \<Rightarrow> (int \<times> orders_bucket) list \<Rightarrow> order list" where
  "side_orders h bs = concat (map (\<lambda>(p, b). bucket_orders h b) bs)"

definition buckets_inv :: "order_action \<Rightarrow> order_heap \<Rightarrow> (int \<times> orders_bucket) list \<Rightarrow> bool" where
  "buckets_inv s h bs \<longleftrightarrow> smap_sorted (before s) bs \<and> distinct (addrs bs) \<and>
     (\<forall>(p, b) \<in> set bs. bucket_inv s h p b \<and> bk_orderList b \<noteq> [])"

lemma addrs_simps [simp]:
  "addrs [] = []" "addrs ((p, b) # bs) = bk_orderList b @ addrs bs"
  "addrs (bs @ bs') = addrs bs @ addrs bs'"
  by (simp_all add: addrs_def)

lemma side_orders_simps [simp]:
  "side_orders h [] = []" "side_orders h ((p, b) # bs) = bucket_orders h b @ side_orders h bs"
  "side_orders h (bs @ bs') = side_orders h bs @ side_orders h bs'"
  by (simp_all add: side_orders_def)

lemma side_orders_addrs: "side_orders h bs = map (ord_at h) (addrs bs)"
  by (induction bs) (auto simp: bucket_orders_def)

lemma side_orders_cong:
  "(\<And>a. a \<in> set (addrs bs) \<Longrightarrow> hp_cells h' a = hp_cells h a) \<Longrightarrow> side_orders h' bs = side_orders h bs"
  by (auto simp: side_orders_addrs intro!: ord_at_cong)

lemma set_addrs: "(p, b) \<in> set bs \<Longrightarrow> set (bk_orderList b) \<subseteq> set (addrs bs)"
  by (auto simp: addrs_def)

lemma buckets_inv_cong:
  assumes "\<And>a. a \<in> set (addrs bs) \<Longrightarrow> hp_cells h' a = hp_cells h a"
  shows "buckets_inv s h' bs \<longleftrightarrow> buckets_inv s h bs"
proof -
  have "bucket_inv s h' p b \<longleftrightarrow> bucket_inv s h p b" if "(p, b) \<in> set bs" for p b
    using assms set_addrs[OF that] by (intro bucket_inv_cong) auto
  then show ?thesis unfolding buckets_inv_def by auto
qed

lemma buckets_inv_Cons:
  "buckets_inv s h ((p, b) # bs) \<longleftrightarrow> bucket_inv s h p b \<and> bk_orderList b \<noteq> [] \<and> buckets_inv s h bs \<and>
     (\<forall>q \<in> fst ` set bs. before s p q) \<and> set (bk_orderList b) \<inter> set (addrs bs) = {}"
  by (auto simp: buckets_inv_def bucket_inv_def)

lemma fill_append:
  assumes "\<forall>x \<in> set xs. resting s x \<and> ok (ord_price x)"
    and "fill ok r vol xs = (xs', e1, f1)" and "fill ok r (vol - f1) ys = (ys', e2, f2)"
  shows "fill ok r vol (xs @ ys) = (xs' @ ys', e1 @ e2, f1 + f2)"
  using assms
proof (induction xs arbitrary: vol xs' e1 f1)
  case Nil
  then show ?case by simp
next
  case (Cons x xs)
  then have x: "resting s x" "ok (ord_price x)" by auto
  consider (Stop) "\<not> vol > 0" | (Full) "vol > 0" "remaining x \<le> vol" | (Part) "vol > 0" "vol < remaining x"
    by linarith
  then show ?case
  proof cases
    case Stop
    with Cons.prems show ?thesis by (auto simp: fill_stop)
  next
    case Part
    with Cons.prems x show ?thesis
      by (auto simp: fill_Cons_part fill_stop simp del: fill.simps)
  next
    case Full
    obtain x1 g1 h1 where R: "fill ok r (vol - remaining x) xs = (x1, g1, h1)" by (metis prod_cases3)
    with Full Cons.prems(2) x have E: "xs' = x1" "f1 = remaining x + h1"
      "e1 = send_trade_event default_event (x\<lparr>ord_filled := ord_size x\<rparr>) True
         (vol = remaining x) (remaining x) (if ord_action x = ASK then r else ord_reserveBidPrice x) # g1"
      by (auto simp: fill_Cons_full simp del: fill.simps)
    have "fill ok r (vol - remaining x) (xs @ ys) = (x1 @ ys', g1 @ e2, h1 + f2)"
      using Cons.IH[OF _ R] Cons.prems(1,3) E by (simp add: algebra_simps)
    with Full x E show ?thesis by (simp add: fill_Cons_full del: fill.simps)
  qed
qed

lemma match_buckets_refine:
  assumes "buckets_inv s h bs"
    and "fill ok r (orderSize - filled) (side_orders h bs) = (os', evs, f)"
  shows "\<exists>h' bs' gone. match_buckets ok orderSize r
        \<lparr>ms_heap = h, ms_idMap = ids, ms_filled = filled, ms_events = evs0, ms_emptyBuckets = em\<rparr> bs =
        Inr (\<lparr>ms_heap = h', ms_idMap = fold um_erase (map (\<lambda>a. ord_orderId (ord_at h a)) gone) ids,
              ms_filled = filled + f, ms_events = evs0 @ evs,
              ms_emptyBuckets = em @ map fst (filter (\<lambda>e. bk_orderList (snd e) = []) bs')\<rparr>, bs')
     \<and> map fst bs' = map fst bs \<and> (\<forall>(p, b) \<in> set bs'. bucket_inv s h' p b) \<and> side_orders h' bs' = os'
     \<and> set (addrs bs) = set gone \<union> set (addrs bs') \<and> distinct (gone @ addrs bs')
     \<and> (\<forall>a. a \<notin> set (addrs bs) \<longrightarrow> hp_cells h' a = hp_cells h a)
     \<and> (\<forall>a \<in> set gone. hp_cells h' a = None)
     \<and> (\<forall>a \<in> set (addrs bs'). ord_orderId (ord_at h' a) = ord_orderId (ord_at h a))
     \<and> hp_next h' = hp_next h"
  using assms
proof (induction bs arbitrary: h filled ids evs0 em os' evs f)
  case Nil
  then show ?case by (intro exI[of _ h] exI[of _ "[]"]) auto
next
  case (Cons e bs)
  obtain p b where e: "e = (p, b)" by (cases e)
  have I: "bucket_inv s h p b" "bk_orderList b \<noteq> []" "buckets_inv s h bs"
    "set (bk_orderList b) \<inter> set (addrs bs) = {}"
    using Cons.prems(1) unfolding e buckets_inv_Cons by auto
  have B: "x \<in> set (bucket_orders h b) \<Longrightarrow> resting s x \<and> ord_price x = p" for x
    by (rule bucket_inv_resting[OF I(1)])
  show ?case
  proof (cases "ok p")
    case False
    obtain x xs where "bucket_orders h b = x # xs"
      using I(2) by (cases "bk_orderList b") (auto simp: bucket_orders_def)
    with B[of x] False Cons.prems(2) e
    have "os' = side_orders h (e # bs)" "evs = []" "f = 0" by auto
    moreover have "filter (\<lambda>e. bk_orderList (snd e) = []) (e # bs) = []"
      using Cons.prems(1) by (auto simp: buckets_inv_def filter_empty_conv)
    moreover have "distinct (addrs (e # bs))" and "\<forall>(p, b) \<in> set (e # bs). bucket_inv s h p b"
      using Cons.prems(1) unfolding buckets_inv_def by auto
    ultimately show ?thesis using False e
      by (intro exI[of _ h] exI[of _ "e # bs"] exI[of _ "[]"]) (simp del: filter.simps)
  next
    case True
    let ?vol = "orderSize - filled"
    obtain o1 e1 f1 where F1: "fill ok r ?vol (bucket_orders h b) = (o1, e1, f1)" by (metis prod_cases3)
    obtain o2 e2 f2 where F2: "fill ok r (?vol - f1) (side_orders h bs) = (o2, e2, f2)"
      by (metis prod_cases3)
    have F: "os' = o1 @ o2" "evs = e1 @ e2" "f = f1 + f2"
      using Cons.prems(2) fill_append[OF _ F1 F2, of s] B True e by auto
    let ?res0 = "\<lparr>mr_eventsChain = [], mr_volume = 0, mr_ordersToRemove = []\<rparr>"
    obtain h1 b1 gone1 where M:
      "match_loop r h b ?vol ?res0 (bk_orderList b) = Inr (h1, b1,
         \<lparr>mr_eventsChain = e1, mr_volume = f1,
          mr_ordersToRemove = map (\<lambda>a. ord_orderId (ord_at h a)) gone1\<rparr>)"
      "bk_orderList b = gone1 @ bk_orderList b1" "bucket_inv s h1 p b1" "bucket_orders h1 b1 = o1"
      "\<forall>a. a \<notin> set (bk_orderList b) \<longrightarrow> hp_cells h1 a = hp_cells h a"
      "\<forall>a \<in> set gone1. hp_cells h1 a = None"
      "\<forall>a \<in> set (bk_orderList b1). ord_orderId (ord_at h1 a) = ord_orderId (ord_at h a)"
      "hp_next h1 = hp_next h"
      using match_loop_refine[OF I(1) True refl F1[unfolded bucket_orders_def], of ?res0] by auto
    have same: "hp_cells h1 a = hp_cells h a" if "a \<in> set (addrs bs)" for a
      using that I(4) M(5) by blast
    have I1: "buckets_inv s h1 bs" using I(3) buckets_inv_cong[OF same] by blast
    have F2': "fill ok r (orderSize - (filled + f1)) (side_orders h1 bs) = (o2, e2, f2)"
      using F2 side_orders_cong[OF same] by (simp add: algebra_simps)
    let ?ids1 = "fold um_erase (map (\<lambda>a. ord_orderId (ord_at h a)) gone1) ids"
    let ?em1 = "if bk_orderList b1 = [] then em @ [p] else em"
    obtain h2 bs2 gone2 where R:
      "match_buckets ok orderSize r \<lparr>ms_heap = h1, ms_idMap = ?ids1, ms_filled = filled + f1,
          ms_events = evs0 @ e1, ms_emptyBuckets = ?em1\<rparr> bs =
        Inr (\<lparr>ms_heap = h2, ms_idMap = fold um_erase (map (\<lambda>a. ord_orderId (ord_at h1 a)) gone2) ?ids1,
              ms_filled = filled + f1 + f2, ms_events = (evs0 @ e1) @ e2,
              ms_emptyBuckets = ?em1 @ map fst (filter (\<lambda>e. bk_orderList (snd e) = []) bs2)\<rparr>, bs2)"
      "map fst bs2 = map fst bs" "\<forall>(p, b) \<in> set bs2. bucket_inv s h2 p b" "side_orders h2 bs2 = o2"
      "set (addrs bs) = set gone2 \<union> set (addrs bs2)" "distinct (gone2 @ addrs bs2)"
      "\<forall>a. a \<notin> set (addrs bs) \<longrightarrow> hp_cells h2 a = hp_cells h1 a"
      "\<forall>a \<in> set gone2. hp_cells h2 a = None"
      "\<forall>a \<in> set (addrs bs2). ord_orderId (ord_at h2 a) = ord_orderId (ord_at h1 a)"
      "hp_next h2 = hp_next h1"
      using Cons.IH[OF I1 F2', of ?ids1 "evs0 @ e1" ?em1] by blast
    have out: "hp_cells h2 a = hp_cells h1 a" if "a \<in> set (bk_orderList b)" for a
      using that I(4) R(7) by blast
    have b1: "bucket_inv s h2 p b1" "bucket_orders h2 b1 = o1"
      using M(2,3,4) out bucket_inv_cong[of b1 h2 h1] bucket_orders_cong[of b1 h2 h1] by auto
    have ids: "map (\<lambda>a. ord_orderId (ord_at h1 a)) gone2 = map (\<lambda>a. ord_orderId (ord_at h a)) gone2"
      using R(5) same ord_at_cong[of h1 _ h] by auto
    have em: "(bk_totalVolume b1 = 0) = (bk_orderList b1 = [])" by (rule bucket_inv_empty[OF M(3)])
    have step: "match_buckets ok orderSize r
        \<lparr>ms_heap = h, ms_idMap = ids, ms_filled = filled, ms_events = evs0, ms_emptyBuckets = em\<rparr> (e # bs) =
        Inr (\<lparr>ms_heap = h2, ms_idMap = fold um_erase (map (\<lambda>a. ord_orderId (ord_at h a)) (gone1 @ gone2)) ids,
              ms_filled = filled + f, ms_events = evs0 @ evs,
              ms_emptyBuckets = em @ map fst (filter (\<lambda>e. bk_orderList (snd e) = []) ((p, b1) # bs2))\<rparr>,
             (p, b1) # bs2)"
      using True e F M(1) R(1) em ids
      by (simp add: match_callback_def bucket_match_def add.assoc cong: if_cong)
    have D: "distinct ((gone1 @ gone2) @ addrs ((p, b1) # bs2))"
      using I(1,4) M(2) R(5,6) by (auto simp: bucket_inv_def)
    have X: "set (addrs (e # bs)) = set (gone1 @ gone2) \<union> set (addrs ((p, b1) # bs2))"
      using e M(2) R(5) by auto
    have O: "\<forall>a. a \<notin> set (addrs (e # bs)) \<longrightarrow> hp_cells h2 a = hp_cells h a"
      using e M(5) R(7) by simp
    have G: "\<forall>a \<in> set (gone1 @ gone2). hp_cells h2 a = None"
      using M(2,6) R(8) out by auto
    have N: "\<forall>a \<in> set (addrs ((p, b1) # bs2)). ord_orderId (ord_at h2 a) = ord_orderId (ord_at h a)"
      using M(2,7) R(5,9) out same ord_at_cong[of h2 _ h1] ord_at_cong[of h1 _ h] by auto
    show ?thesis
      using step D X O G N b1 R(2,3,4,10) M(8) F e
      by (intro exI[of _ h2] exI[of _ "(p, b1) # bs2"] exI[of _ "gone1 @ gone2"]) simp
  qed
qed

end
