(* ===== verification/Naive_Match.thy ===== *)
theory Naive_Match
  imports Naive_Inv
begin

text \<open>
  The invariant of a whole naive book, its abstraction, and the steps that its operations are
  made of: matching a taker, placing, removing, deleting and writing one order. A set of
  addresses is kept apart in the invariant: orders that are on the heap and in no bucket, as the
  order being placed or moved.
\<close>

section \<open>Invariant and abstraction\<close>

definition nb_live :: "naive_book \<Rightarrow> addr set" where
  "nb_live nb = set (addrs (nb_askBuckets nb)) \<union> set (addrs (nb_bidBuckets nb))"

definition nb_core :: "addr set \<Rightarrow> naive_book \<Rightarrow> bool" where
  "nb_core X nb \<longleftrightarrow> (\<forall>s. buckets_inv s (nb_heap nb) (nb_side s nb)) \<and>
     set (addrs (nb_askBuckets nb)) \<inter> set (addrs (nb_bidBuckets nb)) = {} \<and>
     X \<inter> nb_live nb = {} \<and> dom (hp_cells (nb_heap nb)) = nb_live nb \<union> X \<and>
     (\<forall>a \<in> dom (hp_cells (nb_heap nb)). a < hp_next (nb_heap nb))"

definition ids_ok :: "naive_book \<Rightarrow> bool" where
  "ids_ok nb \<longleftrightarrow> (\<forall>i a. um_find (nb_idMap nb) i = Some a \<longleftrightarrow>
     a \<in> dom (hp_cells (nb_heap nb)) \<and> ord_orderId (ord_at (nb_heap nb) a) = i)"

definition nb_inv :: "naive_book \<Rightarrow> bool" where
  "nb_inv nb \<longleftrightarrow> nb_core {} nb \<and> ids_ok nb"

definition nb_abs :: "naive_book \<Rightarrow> flat_book" where
  "nb_abs nb = \<lparr>fb_asks = side_orders (nb_heap nb) (nb_askBuckets nb),
                fb_bids = side_orders (nb_heap nb) (nb_bidBuckets nb)\<rparr>"

lemma nb_side_simps [simp]:
  "nb_side s (nb_set_side s bs nb) = bs"
  "nb_side (opposite s) (nb_set_side s bs nb) = nb_side (opposite s) nb"
  "nb_side s (nb_set_side (opposite s) bs nb) = nb_side s nb"
  "nb_side s (nb\<lparr>nb_heap := h\<rparr>) = nb_side s nb"
  "nb_side s (nb\<lparr>nb_idMap := m\<rparr>) = nb_side s nb"
  "nb_set_side s bs (nb_set_side s bs' nb) = nb_set_side s bs nb"
  "nb_set_side s (nb_side s nb) nb = nb"
  "nb_heap (nb_set_side s bs nb) = nb_heap nb"
  "nb_idMap (nb_set_side s bs nb) = nb_idMap nb"
  "nb_symbolSpec (nb_set_side s bs nb) = nb_symbolSpec nb"
  by (cases s; simp)+

lemma nb_abs_side [simp]: "fb_side s (nb_abs nb) = side_orders (nb_heap nb) (nb_side s nb)"
  by (cases s) (simp_all add: nb_abs_def)

lemma nb_abs_simps [simp]:
  "nb_abs (nb\<lparr>nb_idMap := m\<rparr>) = nb_abs nb"
  by (simp_all add: nb_abs_def)

lemma nb_live_sides: "nb_live nb = set (addrs (nb_side s nb)) \<union> set (addrs (nb_side (opposite s) nb))"
  by (cases s) (auto simp: nb_live_def)

lemma nb_live_simps [simp]:
  "nb_live (nb\<lparr>nb_heap := h\<rparr>) = nb_live nb" "nb_live (nb\<lparr>nb_idMap := m\<rparr>) = nb_live nb"
  by (simp_all add: nb_live_def)

lemma nb_core_sides:
  "nb_core X nb \<longleftrightarrow> buckets_inv s (nb_heap nb) (nb_side s nb) \<and>
     buckets_inv (opposite s) (nb_heap nb) (nb_side (opposite s) nb) \<and>
     set (addrs (nb_side s nb)) \<inter> set (addrs (nb_side (opposite s) nb)) = {} \<and>
     X \<inter> (set (addrs (nb_side s nb)) \<union> set (addrs (nb_side (opposite s) nb))) = {} \<and>
     dom (hp_cells (nb_heap nb)) =
       set (addrs (nb_side s nb)) \<union> set (addrs (nb_side (opposite s) nb)) \<union> X \<and>
     (\<forall>a \<in> dom (hp_cells (nb_heap nb)). a < hp_next (nb_heap nb))"
proof -
  have "(\<forall>t. buckets_inv t (nb_heap nb) (nb_side t nb)) \<longleftrightarrow>
      buckets_inv s (nb_heap nb) (nb_side s nb) \<and>
      buckets_inv (opposite s) (nb_heap nb) (nb_side (opposite s) nb)"
    by (metis opposite.simps order_action.exhaust)
  then show ?thesis
    unfolding nb_core_def nb_live_sides[of nb s] by (cases s) auto
qed

lemma nb_core_idMap [simp]: "nb_core X (nb\<lparr>nb_idMap := m\<rparr>) = nb_core X nb"
  by (simp add: nb_core_def)

text \<open>The abstraction of a book that satisfies the invariant is a well-formed flat book.\<close>

lemma buckets_inv_orders:
  assumes "buckets_inv s h bs" and "x \<in> set (side_orders h bs)"
  shows "resting s x \<and> (\<exists>b. (ord_price x, b) \<in> set bs)"
proof -
  obtain p b where b: "(p, b) \<in> set bs" and x: "x \<in> set (bucket_orders h b)"
    using assms(2) by (auto simp: side_orders_def)
  then have "bucket_inv s h p b" using assms(1) by (auto simp: buckets_inv_def)
  from bucket_inv_resting[OF this x] b show ?thesis by auto
qed

lemma buckets_inv_side_ok: "buckets_inv s h bs \<Longrightarrow> side_ok s (side_orders h bs)"
proof (induction bs)
  case Nil
  then show ?case by (simp add: side_ok_def)
next
  case (Cons e bs)
  obtain p b where e: "e = (p, b)" by (cases e)
  have I: "bucket_inv s h p b" "buckets_inv s h bs" "\<forall>q \<in> fst ` set bs. before s p q"
    using Cons.prems unfolding e buckets_inv_Cons by auto
  have B: "x \<in> set (bucket_orders h b) \<Longrightarrow> resting s x \<and> ord_price x = p" for x
    by (rule bucket_inv_resting[OF I(1)])
  have S: "\<not> before s (ord_price y) p" if "y \<in> set (side_orders h bs)" for y
    using buckets_inv_orders[OF I(2) that] I(3) before_trans[of s p "ord_price y" p] by force
  have "sorted_wrt (\<lambda>p q. \<not> before s q p) (map ord_price (bucket_orders h b))"
    using B by (simp add: sorted_wrt_map sorted_wrt_iff_nth_less)
  with Cons.IH[OF I(2)] B S show ?case
    by (auto simp: side_ok_def sorted_wrt_append e)
qed

lemma ids_inj: "ids_ok nb \<Longrightarrow> inj_on (\<lambda>a. ord_orderId (ord_at (nb_heap nb) a)) (dom (hp_cells (nb_heap nb)))"
  unfolding ids_ok_def by (intro inj_onI) (metis option.inject)

lemma nb_live_dom: "nb_core X nb \<Longrightarrow> nb_live nb \<subseteq> dom (hp_cells (nb_heap nb))"
  by (auto simp: nb_core_def)

lemma nb_orders: "fb_orders (nb_abs nb) =
    map (ord_at (nb_heap nb)) (addrs (nb_askBuckets nb) @ addrs (nb_bidBuckets nb))"
  by (simp add: fb_orders_def nb_abs_def side_orders_addrs)

lemma nb_flat_ok:
  assumes "nb_core X nb" and "ids_ok nb"
  shows "flat_ok (nb_abs nb)"
proof -
  have "inj_on (\<lambda>a. ord_orderId (ord_at (nb_heap nb) a)) (nb_live nb)"
    using ids_inj[OF assms(2)] nb_live_dom[OF assms(1)] by (rule inj_on_subset)
  moreover have "distinct (addrs (nb_side ASK nb))" "distinct (addrs (nb_side BID nb))"
    using assms(1) unfolding nb_core_def buckets_inv_def by blast+
  ultimately have "distinct (map (\<lambda>a. ord_orderId (ord_at (nb_heap nb) a))
      (addrs (nb_askBuckets nb) @ addrs (nb_bidBuckets nb)))"
    using assms(1) unfolding distinct_map by (auto simp: nb_core_def nb_live_def)
  then have "distinct (map ord_orderId (fb_orders (nb_abs nb)))"
    by (simp add: nb_orders comp_def del: map_append)
  moreover have "side_ok s (fb_side s (nb_abs nb))" for s
    using assms(1) by (simp add: nb_core_def buckets_inv_side_ok)
  ultimately show ?thesis by (simp add: flat_ok_def)
qed

text \<open>Looking an order up by its identifier.\<close>

lemma nb_find:
  assumes "nb_inv nb"
  shows "fb_find i (nb_abs nb) = map_option (ord_at (nb_heap nb)) (um_find (nb_idMap nb) i)"
proof (cases "um_find (nb_idMap nb) i")
  case None
  then have "\<not> (\<exists>a \<in> nb_live nb. ord_orderId (ord_at (nb_heap nb) a) = i)"
    using assms unfolding nb_inv_def ids_ok_def nb_core_def
    by (metis (no_types, lifting) UnCI option.distinct(1))
  then have "i \<notin> ord_orderId ` set (fb_orders (nb_abs nb))"
    by (auto simp: nb_orders nb_live_def)
  with None fb_find_None[of i "nb_abs nb"] show ?thesis by simp
next
  case (Some a)
  then have "a \<in> nb_live nb" "ord_orderId (ord_at (nb_heap nb) a) = i"
    using assms by (auto simp: nb_inv_def ids_ok_def nb_core_def)
  then have "ord_at (nb_heap nb) a \<in> set (fb_orders (nb_abs nb))"
    by (auto simp: nb_orders nb_live_def)
  with Some \<open>ord_orderId _ = i\<close> assms fb_find_iff[OF nb_flat_ok] show ?thesis
    by (auto simp: nb_inv_def)
qed

section \<open>Matching\<close>

lemma fold_um_erase:
  "um_find (fold um_erase is m) i = (if i \<in> set is then None else um_find m i)"
  by (induction "is" arbitrary: m) auto

lemma buckets_erase_empty:
  "(\<And>b. um_find (nb_side s nb) p = Some b \<Longrightarrow> bk_orderList b = []) \<Longrightarrow>
   buckets_erase s p nb = nb_set_side s (smap_erase p (nb_side s nb)) nb"
proof (cases "um_find (nb_side s nb) p")
  case None
  then have "smap_erase p (nb_side s nb) = nb_side s nb"
    by (auto simp: smap_erase_def filter_id_conv map_of_eq_None_iff)
  with None show ?thesis by (simp add: buckets_erase_def)
next
  case (Some b)
  assume "\<And>b. um_find (nb_side s nb) p = Some b \<Longrightarrow> bk_orderList b = []"
  with Some show ?thesis by (cases s) (auto simp: buckets_erase_def bucket_destroy_def)
qed

lemma fold_buckets_erase:
  "(\<And>p b. p \<in> set ps \<Longrightarrow> um_find (nb_side s nb) p = Some b \<Longrightarrow> bk_orderList b = []) \<Longrightarrow>
   fold (buckets_erase s) ps nb = nb_set_side s (filter (\<lambda>e. fst e \<notin> set ps) (nb_side s nb)) nb"
proof (induction ps arbitrary: nb)
  case Nil
  then show ?case by simp
next
  case (Cons p ps)
  have E: "buckets_erase s p nb = nb_set_side s (smap_erase p (nb_side s nb)) nb"
    using Cons.prems by (intro buckets_erase_empty) auto
  have "bk_orderList b = []"
    if "q \<in> set ps" "um_find (nb_side s (buckets_erase s p nb)) q = Some b" for q b
    using that Cons.prems[of q b] by (simp add: E map_of_smap_erase split: if_splits)
  then have "fold (buckets_erase s) ps (buckets_erase s p nb) =
      nb_set_side s (filter (\<lambda>e. fst e \<notin> set ps) (smap_erase p (nb_side s nb))) nb"
    using Cons.IH[of "buckets_erase s p nb"] by (simp add: E)
  then show ?case by (simp add: smap_erase_def conj_commute)
qed

lemma drop_empty_buckets:
  "addrs (filter (\<lambda>e. bk_orderList (snd e) \<noteq> []) bs) = addrs bs"
  "side_orders h (filter (\<lambda>e. bk_orderList (snd e) \<noteq> []) bs) = side_orders h bs"
  by (induction bs) (auto simp: bucket_orders_def)

lemma filter_not_empty_keys:
  assumes "distinct (map fst bs)"
  shows "filter (\<lambda>e. fst e \<notin> set (map fst (filter (\<lambda>e. bk_orderList (snd e) = []) bs))) bs =
         filter (\<lambda>e. bk_orderList (snd e) \<noteq> []) bs"
proof (rule filter_cong[OF refl])
  fix e assume e: "e \<in> set bs"
  show "fst e \<notin> set (map fst (filter (\<lambda>e. bk_orderList (snd e) = []) bs)) \<longleftrightarrow> bk_orderList (snd e) \<noteq> []"
    using e assms by (auto simp: distinct_map inj_on_def)
qed

lemma buckets_keys_distinct: "buckets_inv s h bs \<Longrightarrow> distinct (map fst bs)"
  unfolding buckets_inv_def using smap_sorted_distinct[OF before_order(2)] by blast

lemma fill_range_empty:
  assumes "buckets_inv s h bs" and "case bs of [] \<Rightarrow> True | (p, _) # _ \<Rightarrow> \<not> ok p"
  shows "fill ok r vol (side_orders h bs) = (side_orders h bs, [], 0)"
proof (cases bs)
  case Nil
  then show ?thesis by simp
next
  case (Cons e bs')
  obtain p b where e: "e = (p, b)" by (cases e)
  with assms(1) Cons have I: "bucket_inv s h p b" "bk_orderList b \<noteq> []"
    by (auto simp: buckets_inv_def)
  then obtain x xs where x: "bucket_orders h b = x # xs"
    by (cases "bk_orderList b") (auto simp: bucket_orders_def)
  then have "ord_price x = p" using bucket_inv_resting[OF I(1), of x] by simp
  with x e Cons assms(2) show ?thesis by simp
qed

lemma match_ids_ok:
  assumes ids: "ids_ok nb" and "set gone \<subseteq> dom (hp_cells (nb_heap nb))"
    and h': "dom (hp_cells h') = dom (hp_cells (nb_heap nb)) - set gone"
    and same: "\<And>a. a \<in> dom (hp_cells h') \<Longrightarrow> ord_orderId (ord_at h' a) = ord_orderId (ord_at (nb_heap nb) a)"
    and m: "nb_idMap nb' = fold um_erase (map (\<lambda>a. ord_orderId (ord_at (nb_heap nb) a)) gone) (nb_idMap nb)"
    and "nb_heap nb' = h'"
  shows "ids_ok nb'"
proof -
  have "um_find (nb_idMap nb') i = Some a \<longleftrightarrow> a \<in> dom (hp_cells h') \<and> ord_orderId (ord_at h' a) = i" for i a
  proof (cases "\<exists>g \<in> set gone. ord_orderId (ord_at (nb_heap nb) g) = i")
    case True
    then obtain g where g: "g \<in> set gone" "ord_orderId (ord_at (nb_heap nb) g) = i" by blast
    have "\<not> (a \<in> dom (hp_cells h') \<and> ord_orderId (ord_at h' a) = i)"
    proof
      assume *: "a \<in> dom (hp_cells h') \<and> ord_orderId (ord_at h' a) = i"
      then have "a = g" using inj_onD[OF ids_inj[OF ids], of a g] g h' same[of a] assms(2) by auto
      with * g h' show False by blast
    qed
    with g m show ?thesis by (auto simp: fold_um_erase)
  next
    case False
    then have "um_find (nb_idMap nb') i = um_find (nb_idMap nb) i" by (auto simp: m fold_um_erase)
    moreover have "um_find (nb_idMap nb) i = Some a \<longleftrightarrow>
        a \<in> dom (hp_cells (nb_heap nb)) \<and> ord_orderId (ord_at (nb_heap nb) a) = i"
      using ids by (simp add: ids_ok_def)
    ultimately show ?thesis using False h' same[of a] by (metis DiffE DiffI)
  qed
  with assms(6) show ?thesis by (simp add: ids_ok_def)
qed

text \<open>Matching a taker against the opposite side refines the flat matching.\<close>

lemma try_match_refine:
  assumes core: "nb_core X nb" and ids: "ids_ok nb"
    and rg: "rg = new_matching_range (opposite (io_action io)) ok nb"
  shows "\<exists>nb' cmd' filled. try_match_instantly io rg (io_filled io) cmd nb = Inr (nb', cmd', filled)
     \<and> flat_match io ok (nb_abs nb) cmd = (nb_abs nb', cmd', filled)
     \<and> nb_core X nb' \<and> ids_ok nb' \<and> nb_symbolSpec nb' = nb_symbolSpec nb
     \<and> (\<forall>a \<in> X. hp_cells (nb_heap nb') a = hp_cells (nb_heap nb) a)"
proof -
  let ?t = "opposite (io_action io)" and ?s = "io_action io" and ?h = "nb_heap nb"
  let ?bs = "nb_side ?t nb"
  have I: "buckets_inv ?t ?h ?bs" "buckets_inv ?s ?h (nb_side ?s nb)"
    "set (addrs ?bs) \<inter> set (addrs (nb_side ?s nb)) = {}"
    "X \<inter> (set (addrs ?bs) \<union> set (addrs (nb_side ?s nb))) = {}"
    "dom (hp_cells ?h) = set (addrs ?bs) \<union> set (addrs (nb_side ?s nb)) \<union> X"
    "\<forall>a \<in> dom (hp_cells ?h). a < hp_next ?h"
    using core unfolding nb_core_sides[of X nb ?t] by simp_all
  show ?thesis
  proof (cases "rg_empty rg")
    case True
    then have "case ?bs of [] \<Rightarrow> True | (p, _) # _ \<Rightarrow> \<not> ok p"
      using rg by (simp add: new_matching_range_def)
    from fill_range_empty[OF I(1) this] have "flat_match io ok (nb_abs nb) cmd = (nb_abs nb, cmd, io_filled io)"
      by (simp add: flat_match_def set_events_def nb_abs_side[symmetric] del: nb_abs_side)
    with True core ids show ?thesis by (simp add: try_match_instantly_def)
  next
    case False
    obtain os' evs f where F: "fill ok (io_reserveBidPrice io) (io_size io - io_filled io)
        (side_orders ?h ?bs) = (os', evs, f)" by (metis prod_cases3)
    obtain h' bs' gone where R:
      "match_buckets ok (io_size io) (io_reserveBidPrice io)
         \<lparr>ms_heap = ?h, ms_idMap = nb_idMap nb, ms_filled = io_filled io, ms_events = [], ms_emptyBuckets = []\<rparr> ?bs =
       Inr (\<lparr>ms_heap = h', ms_idMap = fold um_erase (map (\<lambda>a. ord_orderId (ord_at ?h a)) gone) (nb_idMap nb),
             ms_filled = io_filled io + f, ms_events = [] @ evs,
             ms_emptyBuckets = [] @ map fst (filter (\<lambda>e. bk_orderList (snd e) = []) bs')\<rparr>, bs')"
      "map fst bs' = map fst ?bs" "\<forall>(p, b) \<in> set bs'. bucket_inv ?t h' p b" "side_orders h' bs' = os'"
      "set (addrs ?bs) = set gone \<union> set (addrs bs')" "distinct (gone @ addrs bs')"
      "\<forall>a. a \<notin> set (addrs ?bs) \<longrightarrow> hp_cells h' a = hp_cells ?h a"
      "\<forall>a \<in> set gone. hp_cells h' a = None"
      "\<forall>a \<in> set (addrs bs'). ord_orderId (ord_at h' a) = ord_orderId (ord_at ?h a)"
      "hp_next h' = hp_next ?h"
      using match_buckets_refine[OF I(1) F, of "nb_idMap nb" "[]" "[]"] by blast
    let ?ids = "fold um_erase (map (\<lambda>a. ord_orderId (ord_at ?h a)) gone) (nb_idMap nb)"
    let ?nb1 = "(nb_set_side ?t bs' nb)\<lparr>nb_heap := h', nb_idMap := ?ids\<rparr>"
    let ?bs2 = "filter (\<lambda>e. bk_orderList (snd e) \<noteq> []) bs'"
    let ?nb2 = "nb_set_side ?t ?bs2 ?nb1"
    have D: "distinct (map fst bs')" using R(2) buckets_keys_distinct[OF I(1)] by simp
    define ps where "ps = map fst (filter (\<lambda>e. bk_orderList (snd e) = []) bs')"
    have N: "nb_side ?t ?nb1 = bs'" by simp
    have "bk_orderList b = []" if "p \<in> set ps" "um_find bs' p = Some b" for p b
      using that D eq_key_imp_eq_value[OF D] unfolding ps_def by fastforce
    then have "fold (buckets_erase ?t) ps ?nb1 =
        nb_set_side ?t (filter (\<lambda>e. fst e \<notin> set ps) (nb_side ?t ?nb1)) ?nb1"
      by (intro fold_buckets_erase) (simp only: N)
    then have E: "fold (buckets_erase ?t) ps ?nb1 = ?nb2"
      unfolding N using filter_not_empty_keys[OF D, folded ps_def] by (simp only:)
    have T: "try_match_instantly io rg (io_filled io) cmd nb = Inr (?nb2, set_events evs cmd, io_filled io + f)"
      using False R(1)[folded ps_def] E rg by (simp add: try_match_instantly_def new_matching_range_def Let_def)
    have heap2: "nb_heap ?nb2 = h'" "nb_side ?t ?nb2 = ?bs2" "nb_side ?s ?nb2 = nb_side ?s nb"
      by simp_all
    have same: "hp_cells h' a = hp_cells ?h a" if "a \<in> set (addrs (nb_side ?s nb)) \<union> X" for a
      using that I(3,4) R(7) by blast
    have dom': "dom (hp_cells h') = set (addrs bs') \<union> set (addrs (nb_side ?s nb)) \<union> X"
    proof -
      have "a \<in> dom (hp_cells h')" if a: "a \<in> set (addrs bs')" for a
      proof -
        obtain p b where "(p, b) \<in> set bs'" "a \<in> set (bk_orderList b)" using a by (auto simp: addrs_def)
        with R(3) have "bucket_inv ?t h' p b" by blast
        with \<open>a \<in> set (bk_orderList b)\<close> show ?thesis using bucket_inv_at by blast
      qed
      note left = this
      have out: "a \<in> dom (hp_cells h') \<longleftrightarrow> a \<in> dom (hp_cells ?h)" if "a \<notin> set (addrs ?bs)" for a
        using R(7) that by (auto simp: dom_def)
      have gone: "a \<notin> dom (hp_cells h')" if "a \<in> set gone" for a
        using R(8) that by (simp add: domIff)
      show ?thesis
      proof (rule set_eqI)
        fix a show "a \<in> dom (hp_cells h') \<longleftrightarrow>
            a \<in> set (addrs bs') \<union> set (addrs (nb_side ?s nb)) \<union> X"
          using left[of a] out[of a] gone[of a] I(3,4,5) R(5) by blast
      qed
    qed
    have inv2: "buckets_inv ?t h' ?bs2"
    proof -
      have "smap_sorted (before ?t) bs'" using I(1) R(2) by (simp add: buckets_inv_def)
      then have "smap_sorted (before ?t) ?bs2"
        by (metis sorted_wrt_filterI sorted_wrt_map)
      moreover have "distinct (addrs ?bs2)" using R(6) by (simp add: drop_empty_buckets)
      ultimately show ?thesis using R(3) by (auto simp: buckets_inv_def)
    qed
    have "buckets_inv ?s h' (nb_side ?s nb)" "side_orders h' (nb_side ?s nb) = side_orders ?h (nb_side ?s nb)"
      using I(2) same buckets_inv_cong[of "nb_side ?s nb" h' ?h] side_orders_cong[of "nb_side ?s nb" h' ?h]
      by auto
    note other = this
    have core2: "nb_core X ?nb2"
      unfolding nb_core_sides[of X ?nb2 ?t]
      using inv2 other(1) I(3,4,6) R(5,10) dom' I(5) by (auto simp: drop_empty_buckets)
    have ids2: "ids_ok ?nb2"
    proof (rule match_ids_ok[OF ids, of gone h'])
      show "set gone \<subseteq> dom (hp_cells ?h)" using R(5) I(5) by blast
      show "dom (hp_cells h') = dom (hp_cells ?h) - set gone" using dom' I(3,4,5) R(5,6) by auto
      show "ord_orderId (ord_at h' a) = ord_orderId (ord_at ?h a)" if "a \<in> dom (hp_cells h')" for a
        using that dom' R(9) same ord_at_cong[of h' a ?h] by auto
    qed simp_all
    have "nb_abs ?nb2 = fb_set_side ?t os' (nb_abs nb)"
    proof (rule flat_book_eqI)
      fix u show "fb_side u (nb_abs ?nb2) = fb_side u (fb_set_side ?t os' (nb_abs nb))"
      proof (cases "u = ?t")
        case True
        with R(4) show ?thesis by (simp add: drop_empty_buckets)
      next
        case False
        then have "u = ?s" by (cases u; cases "io_action io") auto
        with other(2) show ?thesis by (simp add: fb_side_set_if)
      qed
    qed
    then have "flat_match io ok (nb_abs nb) cmd = (nb_abs ?nb2, set_events evs cmd, io_filled io + f)"
      using F by (simp add: flat_match_def)
    with T core2 ids2 same show ?thesis by (intro exI[of _ ?nb2]) (simp add: heap2)
  qed
qed

end
