(* ===== verification/Naive_Steps.thy ===== *)
theory Naive_Steps
  imports Naive_Match
begin

text \<open>
  The single-order steps of the naive book: placing an order that is on the heap, taking one out
  of its bucket, resizing one, and allocating, writing and deleting an order outside the buckets.
\<close>

section \<open>Ordered maps, split at a key\<close>

lemma map_of_split:
  "map_of m k = Some v \<Longrightarrow> \<exists>xs ys. m = xs @ (k, v) # ys \<and> k \<notin> fst ` set xs"
proof (induction m)
  case Nil
  then show ?case by simp
next
  case (Cons e m)
  obtain k' w where e: "e = (k', w)" by (cases e)
  show ?case
  proof (cases "k' = k")
    case True
    with Cons.prems e have "e # m = [] @ (k, v) # m" by simp
    then show ?thesis by fastforce
  next
    case False
    with Cons e obtain xs ys where "m = xs @ (k, v) # ys" "k \<notin> fst ` set xs" by auto
    with False e have "e # m = (e # xs) @ (k, v) # ys \<and> k \<notin> fst ` set (e # xs)" by auto
    then show ?thesis by blast
  qed
qed

lemma smap_put_split:
  assumes "irreflp lt" and "transp lt" and "smap_sorted lt (xs @ (k, v) # ys)"
  shows "smap_put lt k v' (xs @ (k, v) # ys) = xs @ (k, v') # ys"
  using assms(3)
proof (induction xs)
  case Nil
  then show ?case using assms(1) by (simp add: irreflpD)
next
  case (Cons e xs)
  obtain k' w where e: "e = (k', w)" by (cases e)
  have "lt k' k" using Cons.prems e by auto
  then have "\<not> lt k k'" "k \<noteq> k'" using assms(1,2) by (metis irreflpD transpD)+
  with Cons e show ?case by simp
qed

lemma smap_erase_split:
  assumes "irreflp lt" and "smap_sorted lt (xs @ (k, v) # ys)"
  shows "smap_erase k (xs @ (k, v) # ys) = xs @ ys"
proof -
  have "distinct (map fst (xs @ (k, v) # ys))" by (rule smap_sorted_distinct[OF assms])
  then have "filter (\<lambda>e. fst e \<noteq> k) xs = xs" "filter (\<lambda>e. fst e \<noteq> k) ys = ys"
    by (auto simp: filter_id_conv)
  then show ?thesis by (simp add: smap_erase_def)
qed

section \<open>Placing an order\<close>

lemma insert_order_append:
  "(\<And>x. x \<in> set xs \<Longrightarrow> \<not> before s (ord_price ord) (ord_price x)) \<Longrightarrow>
   insert_order s ord (xs @ ys) = xs @ insert_order s ord ys"
  by (induction xs) auto

lemma insert_order_front:
  "(\<And>x. x \<in> set xs \<Longrightarrow> before s (ord_price ord) (ord_price x)) \<Longrightarrow> insert_order s ord xs = ord # xs"
  by (cases xs) auto

text \<open>Appending a live order to a bucket of its price.\<close>

lemma bucket_inv_append:
  assumes inv: "bucket_inv s h p b" and a: "hp_cells h a = Some ord" "a \<notin> set (bk_orderList b)"
    and ord: "resting s ord" "ord_price ord = p"
    and new: "\<And>x. x \<in> set (bk_orderList b) \<Longrightarrow> ord_orderId (ord_at h x) \<noteq> ord_orderId ord"
  shows "\<exists>b'. bucket_put h a b = Inr b' \<and> bucket_inv s h p b' \<and>
    bk_orderList b' = bk_orderList b @ [a]"
proof -
  let ?b = "b\<lparr>bk_orderList := bk_orderList b @ [a],
              bk_orderMap := um_put (ord_orderId ord) a (bk_orderMap b),
              bk_totalVolume := bk_totalVolume b + (ord_size ord - ord_filled ord)\<rparr>"
  have at: "ord_at h a = ord" using a(1) by (rule ord_at_Some)
  have m: "um_find (bk_orderMap b) i = Some x \<longleftrightarrow> x \<in> set (bk_orderList b) \<and> ord_orderId (ord_at h x) = i" for i x
    using inv by (simp add: bucket_inv_def)
  have "um_find (bk_orderMap ?b) i = Some x \<longleftrightarrow>
      x \<in> set (bk_orderList ?b) \<and> ord_orderId (ord_at h x) = i" for i x
    using m[of i x] new[of x] at a(2) by auto
  then have "bucket_inv s h p ?b"
    using inv a ord at by (auto simp: bucket_inv_def remaining_def)
  with a(1) show ?thesis by (simp add: bucket_put_def)
qed

lemma put_buckets_inv:
  assumes inv: "buckets_inv s h bs" and a: "hp_cells h a = Some ord" "a \<notin> set (addrs bs)"
    and ord: "resting s ord" "ord_price ord = p"
    and new: "\<And>x. x \<in> set (addrs bs) \<Longrightarrow> ord_orderId (ord_at h x) \<noteq> ord_orderId ord"
  shows "\<exists>b'. bucket_put h a (case um_find bs p of None \<Rightarrow> new_bucket p | Some b \<Rightarrow> b) = Inr b' \<and>
    buckets_inv s h (smap_put (before s) p b' bs) \<and>
    set (addrs (smap_put (before s) p b' bs)) = insert a (set (addrs bs)) \<and>
    side_orders h (smap_put (before s) p b' bs) = insert_order s ord (side_orders h bs)"
  using inv a(2) new
proof (induction bs)
  case Nil
  have "bucket_inv s h p (new_bucket p)" by (simp add: bucket_inv_def new_bucket_def)
  from bucket_inv_append[OF this a(1) _ ord] obtain b' where
    "bucket_put h a (new_bucket p) = Inr b'" "bucket_inv s h p b'" "bk_orderList b' = [a]"
    by (auto simp: new_bucket_def)
  then show ?case using ord_at_Some[OF a(1)] by (auto simp: buckets_inv_def bucket_orders_def)
next
  case (Cons e bs)
  obtain q c where e: "e = (q, c)" by (cases e)
  have I: "bucket_inv s h q c" "bk_orderList c \<noteq> []" "buckets_inv s h bs"
    "\<forall>r \<in> fst ` set bs. before s q r" "set (bk_orderList c) \<inter> set (addrs bs) = {}"
    using Cons.prems(1) unfolding e buckets_inv_Cons by auto
  have C: "x \<in> set (bucket_orders h c) \<Longrightarrow> ord_price x = q" for x
    using bucket_inv_resting[OF I(1)] by blast
  have S: "before s q (ord_price x)" if "x \<in> set (side_orders h bs)" for x
    using buckets_inv_orders[OF I(3) that] I(4) by force
  have at: "ord_at h a = ord" using a(1) by (rule ord_at_Some)
  consider (new) "before s p q" | (here) "p = q" | (later) "\<not> before s p q" "p \<noteq> q" by blast
  then show ?case
  proof cases
    case new
    have n: "bucket_inv s h p (new_bucket p)" by (simp add: bucket_inv_def new_bucket_def)
    from bucket_inv_append[OF this a(1) _ ord] obtain b' where
      b': "bucket_put h a (new_bucket p) = Inr b'" "bucket_inv s h p b'" "bk_orderList b' = [a]"
      by (auto simp: new_bucket_def)
    have lt: "\<forall>r \<in> fst ` set (e # bs). before s p r" using new e I(4) before_trans by auto
    then have "um_find (e # bs) p = None" by (metis before_irrefl map_of_eq_None_iff)
    moreover have "insert_order s ord (side_orders h (e # bs)) = ord # side_orders h (e # bs)"
      using new e C S ord before_trans[OF new] by (intro insert_order_front) auto
    moreover have "buckets_inv s h ((p, b') # e # bs)"
      using b' lt Cons.prems(1,2) by (simp add: buckets_inv_Cons)
    ultimately show ?thesis using new b' e at by (simp add: bucket_orders_def)
  next
    case here
    obtain b' where
      b': "bucket_put h a c = Inr b'" "bucket_inv s h q b'" "bk_orderList b' = bk_orderList c @ [a]"
      using bucket_inv_append[OF I(1) a(1) _ ord(1)] ord(2) here Cons.prems(2,3) e by auto
    have "insert_order s ord (side_orders h bs) = ord # side_orders h bs"
      using S ord(2) here by (intro insert_order_front) simp
    then have "insert_order s ord (side_orders h (e # bs)) =
        bucket_orders h c @ ord # side_orders h bs"
      using C here ord(2) e by (simp add: insert_order_append)
    moreover have "buckets_inv s h ((q, b') # bs)"
      using b' I Cons.prems(2) e by (auto simp: buckets_inv_Cons)
    ultimately show ?thesis using here b' e at by (auto simp: bucket_orders_def)
  next
    case later
    then have qp: "before s q p" using not_before by metis
    obtain b' where b': "bucket_put h a (case um_find bs p of None \<Rightarrow> new_bucket p | Some b \<Rightarrow> b) = Inr b'"
      "buckets_inv s h (smap_put (before s) p b' bs)"
      "set (addrs (smap_put (before s) p b' bs)) = insert a (set (addrs bs))"
      "side_orders h (smap_put (before s) p b' bs) = insert_order s ord (side_orders h bs)"
      using Cons.IH[OF I(3)] Cons.prems(2,3) e by auto
    have "insert_order s ord (side_orders h (e # bs)) =
        bucket_orders h c @ insert_order s ord (side_orders h bs)"
      using C later(1) ord(2) e by (simp add: insert_order_append)
    moreover have "buckets_inv s h ((q, c) # smap_put (before s) p b' bs)"
      using b'(2,3) I qp Cons.prems(2) e fst_set_smap_put[of "before s" p b' bs]
      by (auto simp: buckets_inv_Cons)
    ultimately show ?thesis using later b' e by auto
  qed
qed

lemma put_in_bucket_refine:
  assumes core: "nb_core X nb" and a: "a \<in> X" and ord: "ord_at (nb_heap nb) a = ord" "resting s ord"
    and inj: "inj_on (\<lambda>x. ord_orderId (ord_at (nb_heap nb) x)) (dom (hp_cells (nb_heap nb)))"
  shows "\<exists>nb'. put_in_bucket s (ord_price ord) a nb = Inr nb' \<and> nb_core (X - {a}) nb' \<and>
    nb_abs nb' = fb_insert ord (nb_abs nb) \<and> nb_heap nb' = nb_heap nb \<and>
    nb_idMap nb' = nb_idMap nb \<and> nb_symbolSpec nb' = nb_symbolSpec nb"
proof -
  let ?h = "nb_heap nb" and ?bs = "nb_side s nb" and ?ot = "nb_side (opposite s) nb"
  have I: "buckets_inv s ?h ?bs" "buckets_inv (opposite s) ?h ?ot"
    "set (addrs ?bs) \<inter> set (addrs ?ot) = {}" "X \<inter> (set (addrs ?bs) \<union> set (addrs ?ot)) = {}"
    "dom (hp_cells ?h) = set (addrs ?bs) \<union> set (addrs ?ot) \<union> X"
    "\<forall>a \<in> dom (hp_cells ?h). a < hp_next ?h"
    using core unfolding nb_core_sides[of X nb s] by simp_all
  have A: "hp_cells ?h a = Some ord" using I(5) a ord(1) by (metis UnCI domD ord_at_Some)
  have n: "a \<notin> set (addrs ?bs)" using I(4) a by blast
  have new: "ord_orderId (ord_at ?h x) \<noteq> ord_orderId ord" if "x \<in> set (addrs ?bs)" for x
    using inj_onD[OF inj, of x a] that I(5) a n ord(1) by auto
  obtain b' where b': "bucket_put ?h a (case um_find ?bs (ord_price ord) of None \<Rightarrow> new_bucket (ord_price ord)
        | Some b \<Rightarrow> b) = Inr b'"
    "buckets_inv s ?h (smap_put (before s) (ord_price ord) b' ?bs)"
    "set (addrs (smap_put (before s) (ord_price ord) b' ?bs)) = insert a (set (addrs ?bs))"
    "side_orders ?h (smap_put (before s) (ord_price ord) b' ?bs) = insert_order s ord (side_orders ?h ?bs)"
    using put_buckets_inv[OF I(1) A n ord(2) refl new] by blast
  let ?nb = "buckets_put s (ord_price ord) b' nb"
  have "nb_core (X - {a}) ?nb"
    unfolding nb_core_sides[of _ ?nb s] using I b' a by (auto simp: buckets_put_def)
  moreover have "nb_abs ?nb = fb_insert ord (nb_abs nb)"
  proof (rule flat_book_eqI)
    fix u show "fb_side u (nb_abs ?nb) = fb_side u (fb_insert ord (nb_abs nb))"
    proof (cases "u = s")
      case True
      with b'(4) ord(2) show ?thesis by (simp add: buckets_put_def resting_def)
    next
      case False
      then have "u = opposite s" by (cases u; cases s) auto
      with ord(2) show ?thesis by (simp add: buckets_put_def resting_def)
    qed
  qed
  ultimately show ?thesis using b'(1)
    by (intro exI[of _ ?nb]) (simp add: put_in_bucket_def Let_def buckets_put_def)
qed

section \<open>One bucket of a side\<close>

lemma buckets_inv_split:
  "buckets_inv s h (xs @ (p, b) # ys) \<longleftrightarrow> buckets_inv s h (xs @ ys) \<and> bucket_inv s h p b \<and>
     bk_orderList b \<noteq> [] \<and> (\<forall>q \<in> fst ` set xs. before s q p) \<and> (\<forall>q \<in> fst ` set ys. before s p q) \<and>
     set (bk_orderList b) \<inter> set (addrs (xs @ ys)) = {}"
  by (auto simp: buckets_inv_def sorted_wrt_append bucket_inv_def)

lemma find_order_bucket:
  assumes inv: "buckets_inv s h bs" and a: "a \<in> set (addrs bs)"
  shows "\<exists>b xs ys. um_find bs (ord_price (ord_at h a)) = Some b \<and> a \<in> set (bk_orderList b) \<and>
     bs = xs @ (ord_price (ord_at h a), b) # ys"
proof -
  obtain p b where b: "(p, b) \<in> set bs" "a \<in> set (bk_orderList b)" using a by (auto simp: addrs_def)
  then have "ord_price (ord_at h a) = p" using inv bucket_inv_at by (fastforce simp: buckets_inv_def)
  moreover have "um_find bs p = Some b" using b(1) buckets_keys_distinct[OF inv] by simp
  ultimately show ?thesis using b map_of_split by metis
qed

lemma bucket_remove_refine:
  assumes inv: "bucket_inv s h p b" and a: "a \<in> set (bk_orderList b)" and ord: "ord_at h a = ord"
  shows "\<exists>b'. bucket_remove h (ord_orderId ord) (ord_uid ord) b = Inr (b', Some a) \<and>
    bucket_inv s h p b' \<and> bk_orderList b' = filter (\<lambda>x. x \<noteq> a) (bk_orderList b)"
proof -
  let ?b = "b\<lparr>bk_totalVolume := bk_totalVolume b - (ord_size ord - ord_filled ord),
              bk_orderList := filter (\<lambda>x. x \<noteq> a) (bk_orderList b),
              bk_orderMap := um_erase (ord_orderId ord) (bk_orderMap b)\<rparr>"
  have m: "um_find (bk_orderMap b) i = Some x \<longleftrightarrow> x \<in> set (bk_orderList b) \<and> ord_orderId (ord_at h x) = i" for i x
    using inv by (simp add: bucket_inv_def)
  have A: "hp_cells h a = Some ord" using bucket_inv_at[OF inv a] ord by simp
  have f: "um_find (bk_orderMap b) (ord_orderId ord) = Some a" using m a ord by simp
  obtain xs ys where l: "bk_orderList b = xs @ a # ys" using split_list[OF a] by blast
  then have "a \<notin> set xs" "a \<notin> set ys" using inv by (auto simp: bucket_inv_def)
  then have "volume (map (ord_at h) (filter (\<lambda>x. x \<noteq> a) (bk_orderList b))) =
      volume (map (ord_at h) (bk_orderList b)) - remaining ord"
    using l ord by (simp add: filter_neq_id)
  moreover have "um_find (bk_orderMap ?b) i = Some x \<longleftrightarrow>
      x \<in> set (bk_orderList ?b) \<and> ord_orderId (ord_at h x) = i" for i x
    using m[of i x] f ord by auto
  ultimately have "bucket_inv s h p ?b"
    using inv by (simp add: bucket_inv_def remaining_def)
  with f A show ?thesis by (simp add: bucket_remove_def)
qed

text \<open>Taking an order out of its bucket; the bucket goes when it was the last one.\<close>

lemma remove_buckets_inv:
  assumes inv: "buckets_inv s h (xs @ (p, b) # ys)" and a: "a \<in> set (bk_orderList b)"
    and b': "bucket_inv s h p b'" "bk_orderList b' = filter (\<lambda>x. x \<noteq> a) (bk_orderList b)"
    and inj: "inj_on (\<lambda>x. ord_orderId (ord_at h x)) (set (addrs (xs @ (p, b) # ys)))"
    and bs': "bs' = (if bk_orderList b' = [] then xs @ ys else xs @ (p, b') # ys)"
  shows "buckets_inv s h bs' \<and> set (addrs bs') = set (addrs (xs @ (p, b) # ys)) - {a} \<and>
    side_orders h bs' = filter (\<lambda>x. ord_orderId x \<noteq> ord_orderId (ord_at h a)) (side_orders h (xs @ (p, b) # ys))"
proof -
  have out: "a \<notin> set (addrs xs)" "a \<notin> set (addrs ys)"
    using inv a unfolding buckets_inv_split by auto
  have F: "filter (\<lambda>x. ord_orderId x \<noteq> ord_orderId (ord_at h a)) (map (ord_at h) as) =
      map (ord_at h) (filter (\<lambda>x. x \<noteq> a) as)" if "set as \<subseteq> set (addrs (xs @ (p, b) # ys))" for as
  proof -
    have "ord_orderId (ord_at h x) = ord_orderId (ord_at h a) \<longleftrightarrow> x = a" if "x \<in> set as" for x
      using inj_onD[OF inj, of x a] that \<open>set as \<subseteq> _\<close> a by auto
    then show ?thesis by (auto simp: filter_map comp_def intro!: arg_cong[where f = "map _"] filter_cong)
  qed
  have "side_orders h bs' = filter (\<lambda>x. ord_orderId x \<noteq> ord_orderId (ord_at h a)) (side_orders h (xs @ (p, b) # ys))"
    using F[of "addrs (xs @ (p, b) # ys)"] out b'(2) bs' by (simp add: side_orders_addrs filter_neq_id)
  moreover have "set (addrs bs') = set (addrs (xs @ (p, b) # ys)) - {a}"
  proof -
    have "set (bk_orderList b') = set (bk_orderList b) - {a}" using b'(2) by auto
    then show ?thesis using out unfolding bs' by (cases "bk_orderList b' = []") auto
  qed
  moreover have "buckets_inv s h bs'"
    using inv b' bs' unfolding buckets_inv_split by (auto simp: buckets_inv_split)
  ultimately show ?thesis by blast
qed

lemma remove_from_bucket_refine:
  assumes core: "nb_core X nb" and a: "a \<in> set (addrs (nb_side s nb))" and ord: "ord_at (nb_heap nb) a = ord"
    and inj: "inj_on (\<lambda>x. ord_orderId (ord_at (nb_heap nb) x)) (dom (hp_cells (nb_heap nb)))"
  shows "\<exists>nb'. remove_from_bucket s (ord_price ord) (ord_orderId ord) (ord_uid ord) nb = Inr nb' \<and>
    nb_core (insert a X) nb' \<and> nb_abs nb' = fb_remove (ord_orderId ord) (nb_abs nb) \<and>
    nb_heap nb' = nb_heap nb \<and> nb_idMap nb' = nb_idMap nb \<and> nb_symbolSpec nb' = nb_symbolSpec nb"
proof -
  let ?h = "nb_heap nb" and ?bs = "nb_side s nb" and ?ot = "nb_side (opposite s) nb" and ?p = "ord_price ord"
  have I: "buckets_inv s ?h ?bs" "buckets_inv (opposite s) ?h ?ot"
    "set (addrs ?bs) \<inter> set (addrs ?ot) = {}" "X \<inter> (set (addrs ?bs) \<union> set (addrs ?ot)) = {}"
    "dom (hp_cells ?h) = set (addrs ?bs) \<union> set (addrs ?ot) \<union> X"
    "\<forall>a \<in> dom (hp_cells ?h). a < hp_next ?h"
    using core unfolding nb_core_sides[of X nb s] by simp_all
  obtain b xs ys where b: "um_find ?bs ?p = Some b" "a \<in> set (bk_orderList b)" "?bs = xs @ (?p, b) # ys"
    using find_order_bucket[OF I(1) a] ord by auto
  have B: "bucket_inv s ?h ?p b" using I(1) unfolding b(3) buckets_inv_split by blast
  obtain b' where b': "bucket_remove ?h (ord_orderId ord) (ord_uid ord) b = Inr (b', Some a)"
    "bucket_inv s ?h ?p b'" "bk_orderList b' = filter (\<lambda>x. x \<noteq> a) (bk_orderList b)"
    using bucket_remove_refine[OF B b(2) ord] by blast
  define bs' where "bs' = (if bk_orderList b' = [] then xs @ ys else xs @ (?p, b') # ys)"
  have R: "buckets_inv s ?h bs'" "set (addrs bs') = set (addrs ?bs) - {a}"
    "side_orders ?h bs' = filter (\<lambda>x. ord_orderId x \<noteq> ord_orderId ord) (side_orders ?h ?bs)"
    using remove_buckets_inv[OF I(1)[unfolded b(3)] b(2) b'(2,3) _ bs'_def] inj_on_subset[OF inj] I(5) b(3) ord
    by auto
  let ?nb = "nb_set_side s bs' nb"
  have put: "buckets_put s ?p b' nb = nb_set_side s (xs @ (?p, b') # ys) nb"
    using smap_put_split[of "before s" xs ?p b ys b'] I(1) unfolding buckets_put_def b(3)
    by (simp add: buckets_inv_def)
  have "buckets_erase s ?p (buckets_put s ?p b' nb) = nb_set_side s (xs @ ys) nb" if e: "bk_orderList b' = []"
  proof -
    have srt: "smap_sorted (before s) (xs @ (?p, b') # ys)"
      using I(1) unfolding buckets_inv_def b(3) by simp
    have "um_find (xs @ (?p, b') # ys) ?p = Some b'"
      using smap_sorted_distinct[OF before_order(2) srt] by (intro map_of_is_SomeI) auto
    then show ?thesis
      using buckets_erase_empty[of s "buckets_put s ?p b' nb" ?p] e smap_erase_split[OF before_order(2) srt]
      by (simp add: put)
  qed
  then have X: "remove_from_bucket s ?p (ord_orderId ord) (ord_uid ord) nb = Inr ?nb"
    using b(1) b'(1) bucket_inv_empty[OF b'(2)]
    by (simp add: remove_from_bucket_def find_bucket_def Let_def put bs'_def)
  have "nb_core (insert a X) ?nb"
    unfolding nb_core_sides[of _ ?nb s] using I R(1,2) a by auto
  moreover have "nb_abs ?nb = fb_remove (ord_orderId ord) (nb_abs nb)"
  proof (rule flat_book_eqI)
    fix u show "fb_side u (nb_abs ?nb) = fb_side u (fb_remove (ord_orderId ord) (nb_abs nb))"
    proof (cases "u = s")
      case True
      with R(3) show ?thesis by simp
    next
      case False
      then have u: "u = opposite s" by (cases u; cases s) auto
      have "ord_orderId (ord_at ?h x) \<noteq> ord_orderId ord" if "x \<in> set (addrs ?ot)" for x
        using inj_onD[OF inj, of x a] that I(3,5) a ord by auto
      then have "filter (\<lambda>x. ord_orderId x \<noteq> ord_orderId ord) (side_orders ?h ?ot) = side_orders ?h ?ot"
        by (auto simp: side_orders_addrs filter_id_conv)
      with u show ?thesis by simp
    qed
  qed
  ultimately show ?thesis using X by (intro exI[of _ ?nb]) simp
qed

section \<open>Orders outside the buckets\<close>

lemma nb_core_cong:
  assumes "\<And>s. nb_side s nb' = nb_side s nb"
    and "\<And>a. a \<in> nb_live nb \<Longrightarrow> hp_cells (nb_heap nb') a = hp_cells (nb_heap nb) a"
    and "nb_core X nb" and "dom (hp_cells (nb_heap nb')) = nb_live nb \<union> Y" and "Y \<inter> nb_live nb = {}"
    and "\<forall>a \<in> dom (hp_cells (nb_heap nb')). a < hp_next (nb_heap nb')"
  shows "nb_core Y nb' \<and> nb_abs nb' = nb_abs nb"
proof -
  have L: "nb_live nb' = nb_live nb" using assms(1)[of ASK] assms(1)[of BID] by (simp add: nb_live_def)
  have S: "hp_cells (nb_heap nb') a = hp_cells (nb_heap nb) a" if "a \<in> set (addrs (nb_side s nb))" for a s
    using that assms(2) by (auto simp: nb_live_sides[of nb s])
  have "buckets_inv s (nb_heap nb') (nb_side s nb')" for s
    using assms(3) S by (subst buckets_inv_cong[of _ _ "nb_heap nb"]) (auto simp: assms(1) nb_core_def)
  moreover have "nb_abs nb' = nb_abs nb"
    by (rule flat_book_eqI) (simp add: assms(1) side_orders_cong[OF S])
  moreover have "set (addrs (nb_askBuckets nb')) \<inter> set (addrs (nb_bidBuckets nb')) = {}"
    using assms(1)[of ASK] assms(1)[of BID] assms(3) by (simp add: nb_core_def)
  ultimately show ?thesis using assms(4-6) L by (simp add: nb_core_def)
qed

text \<open>Allocating, overwriting and deleting an order that is in no bucket.\<close>

lemma alloc_refine:
  assumes core: "nb_core {} nb" and "heap_new (nb_heap nb) ord = (a, h)"
  shows "nb_core {a} (nb\<lparr>nb_heap := h\<rparr>) \<and> nb_abs (nb\<lparr>nb_heap := h\<rparr>) = nb_abs nb \<and>
    hp_cells h = (hp_cells (nb_heap nb))(a \<mapsto> ord) \<and> a \<notin> dom (hp_cells (nb_heap nb))"
proof -
  have h: "a = hp_next (nb_heap nb)" "hp_cells h = (hp_cells (nb_heap nb))(a \<mapsto> ord)" "hp_next h = Suc a"
    using assms(2) by (auto simp: heap_new_def)
  have lt: "\<forall>x \<in> dom (hp_cells (nb_heap nb)). x < a" and D: "dom (hp_cells (nb_heap nb)) = nb_live nb"
    using core h(1) by (auto simp: nb_core_def)
  then have a: "a \<notin> dom (hp_cells (nb_heap nb))" by blast
  have "nb_core {a} (nb\<lparr>nb_heap := h\<rparr>) \<and> nb_abs (nb\<lparr>nb_heap := h\<rparr>) = nb_abs nb"
    using h lt D a by (intro nb_core_cong[OF _ _ core]) (auto simp: less_Suc_eq)
  with h a show ?thesis by simp
qed

lemma write_refine:
  assumes core: "nb_core X nb" and a: "a \<in> X"
  shows "nb_core X (nb\<lparr>nb_heap := heap_write a ord (nb_heap nb)\<rparr>) \<and>
    nb_abs (nb\<lparr>nb_heap := heap_write a ord (nb_heap nb)\<rparr>) = nb_abs nb"
  using core a by (intro nb_core_cong[OF _ _ core]) (auto simp: nb_core_def)

lemma delete_refine:
  assumes core: "nb_core X nb" and a: "a \<in> X"
  shows "nb_core (X - {a}) (nb\<lparr>nb_heap := heap_delete a (nb_heap nb)\<rparr>) \<and>
    nb_abs (nb\<lparr>nb_heap := heap_delete a (nb_heap nb)\<rparr>) = nb_abs nb"
  using core a by (intro nb_core_cong[OF _ _ core]) (auto simp: nb_core_def)

section \<open>Resizing an order in place\<close>

lemma resize_buckets_inv:
  assumes inv: "buckets_inv s h (xs @ (p, b) # ys)" and a: "a \<in> set (bk_orderList b)"
    and lt: "v < remaining (ord_at h a)"
    and ord1: "ord1 = (ord_at h a)\<lparr>ord_size := ord_size (ord_at h a) - v\<rparr>"
  shows "buckets_inv s (heap_write a ord1 h) (xs @ (p, bucket_reduce_size v b) # ys)"
proof -
  have B: "bucket_inv s h p b" and X: "buckets_inv s h (xs @ ys)" and out: "a \<notin> set (addrs (xs @ ys))"
    using inv a unfolding buckets_inv_split by auto
  have "resting s (ord_at h a)" "ord_price (ord_at h a) = p" using bucket_inv_at[OF B a] by auto
  then have "bucket_inv s (heap_write a ord1 h) p (bucket_reduce_size v b)"
    unfolding bucket_reduce_size_def using lt ord1
    by (intro bucket_inv_write[OF B a]) (auto simp: resting_def remaining_def)
  moreover have "buckets_inv s (heap_write a ord1 h) (xs @ ys)"
    using X out by (subst buckets_inv_cong[of _ _ h]) auto
  ultimately show ?thesis
    using inv unfolding buckets_inv_split by (simp add: bucket_reduce_size_def)
qed

lemma resize_refine:
  assumes core: "nb_core X nb" and a: "a \<in> set (addrs (nb_side s nb))" and ord: "ord_at (nb_heap nb) a = ord"
    and lt: "v < remaining ord" and ord1: "ord1 = ord\<lparr>ord_size := ord_size ord - v\<rparr>"
    and inj: "inj_on (\<lambda>x. ord_orderId (ord_at (nb_heap nb) x)) (dom (hp_cells (nb_heap nb)))"
    and b: "um_find (nb_side s nb) (ord_price ord) = Some b"
    and nb': "nb' = (buckets_put s (ord_price ord) (bucket_reduce_size v b) nb)
                      \<lparr>nb_heap := heap_write a ord1 (nb_heap nb)\<rparr>"
  shows "nb_core X nb' \<and> nb_abs nb' = fb_resize (ord_orderId ord) v (nb_abs nb)"
proof -
  let ?h = "nb_heap nb" and ?bs = "nb_side s nb" and ?ot = "nb_side (opposite s) nb" and ?p = "ord_price ord"
  have I: "buckets_inv s ?h ?bs" "buckets_inv (opposite s) ?h ?ot"
    "set (addrs ?bs) \<inter> set (addrs ?ot) = {}" "X \<inter> (set (addrs ?bs) \<union> set (addrs ?ot)) = {}"
    "dom (hp_cells ?h) = set (addrs ?bs) \<union> set (addrs ?ot) \<union> X"
    "\<forall>a \<in> dom (hp_cells ?h). a < hp_next ?h"
    using core unfolding nb_core_sides[of X nb s] by simp_all
  obtain xs ys where l: "a \<in> set (bk_orderList b)" "?bs = xs @ (?p, b) # ys"
    using find_order_bucket[OF I(1) a] ord b by auto
  let ?bs' = "xs @ (?p, bucket_reduce_size v b) # ys"
  have put: "buckets_put s ?p (bucket_reduce_size v b) nb = nb_set_side s ?bs' nb"
    using smap_put_split[of "before s" xs ?p b ys "bucket_reduce_size v b"] I(1)
    unfolding buckets_put_def l(2) by (simp add: buckets_inv_def)
  have side: "nb_side s nb' = ?bs'" "nb_side (opposite s) nb' = ?ot" "nb_heap nb' = heap_write a ord1 ?h"
    by (simp_all add: nb' put)
  have ad: "addrs ?bs' = addrs ?bs" unfolding l(2) by (simp add: bucket_reduce_size_def)
  have J: "buckets_inv s (heap_write a ord1 ?h) ?bs'"
    using resize_buckets_inv[OF I(1)[unfolded l(2)] l(1)] lt ord1 ord by simp
  have same: "hp_cells (heap_write a ord1 ?h) x = hp_cells ?h x" if "x \<in> set (addrs ?ot)" for x
    using that I(3) a by auto
  have O: "buckets_inv (opposite s) (heap_write a ord1 ?h) ?ot"
    using I(2) buckets_inv_cong[OF same] by blast
  have "nb_core X nb'"
    unfolding nb_core_sides[of X nb' s] side ad using J O I(3-6) a by auto
  moreover have "nb_abs nb' = fb_resize (ord_orderId ord) v (nb_abs nb)"
  proof (rule flat_book_eqI)
    fix u
    have key: "ord_orderId (ord_at ?h x) = ord_orderId ord \<longleftrightarrow> x = a" if "x \<in> dom (hp_cells ?h)" for x
      using inj_onD[OF inj, of x a] that I(5) a ord by auto
    show "fb_side u (nb_abs nb') = fb_side u (fb_resize (ord_orderId ord) v (nb_abs nb))"
    proof (cases "u = s")
      case True
      have "ord_at (heap_write a ord1 ?h) x =
          (if ord_orderId (ord_at ?h x) = ord_orderId ord
           then (ord_at ?h x)\<lparr>ord_size := ord_size (ord_at ?h x) - v\<rparr> else ord_at ?h x)"
        if "x \<in> set (addrs ?bs)" for x
        using that key[of x] I(5) ord ord1 by auto
      with True side ad show ?thesis
        by (simp add: fb_resize_side side_orders_addrs)
    next
      case False
      then have u: "u = opposite s" by (cases u; cases s) auto
      have "ord_orderId (ord_at ?h x) \<noteq> ord_orderId ord" if "x \<in> set (addrs ?ot)" for x
        using key[of x] that I(3,5) a by auto
      then have "map (\<lambda>x. if ord_orderId x = ord_orderId ord then x\<lparr>ord_size := ord_size x - v\<rparr> else x)
          (side_orders ?h ?ot) = side_orders ?h ?ot"
        by (auto simp: side_orders_addrs intro!: map_idI)
      with u side side_orders_cong[OF same] show ?thesis by (simp add: fb_resize_side)
    qed
  qed
  ultimately show ?thesis by blast
qed

end
