(* ===== verification/Order_Book_Interface.thy ===== *)
theory Order_Book_Interface
  imports Flat_Inv
begin

text \<open>
  \<open>orderbook/IOrderBook\<close>: the operations every order book implements, the dispatcher
  \<open>ProcessCommand\<close> that is written against them, and the contract \<open>order_book_contract\<close>: on the
  commands it admits, an implementation never throws, keeps its invariant and does on its
  abstraction what the flat book does. What follows for the dispatcher is proved here once for all
  implementations; \<open>order_book_impl\<close> is the contract of one that admits every command.
\<close>

section \<open>Market data of a flat book\<close>

text \<open>Consecutive orders of one price make a level: its price, its volume and its orders.\<close>

fun price_levels :: "order list \<Rightarrow> (int \<times> int \<times> int) list" where
  "price_levels [] = []"
| "price_levels (x # xs) =
     (case price_levels xs of
        [] \<Rightarrow> [(ord_price x, remaining x, 1)]
      | (p, v, n) # ls \<Rightarrow>
          if p = ord_price x then (p, remaining x + v, 1 + n) # ls
          else (ord_price x, remaining x, 1) # (p, v, n) # ls)"

lemma price_levels_bucket:
  assumes "\<And>x. x \<in> set xs \<Longrightarrow> ord_price x = p" and "xs \<noteq> []"
    and "ys = [] \<or> ord_price (hd ys) \<noteq> p"
  shows "price_levels (xs @ ys) = (p, volume xs, int (length xs)) # price_levels ys"
  using assms(1,2)
proof (induction xs)
  case Nil
  then show ?case by simp
next
  case (Cons x xs)
  show ?case
  proof (cases "xs = []")
    case False
    with Cons show ?thesis by simp
  next
    case True
    have "case price_levels ys of [] \<Rightarrow> True | (q, _) # _ \<Rightarrow> q \<noteq> p"
      using assms(3) by (cases ys) (auto split: list.split)
    with True Cons.prems(1) show ?thesis by (auto split: list.splits)
  qed
qed

definition flat_l2 :: "int \<Rightarrow> flat_book \<Rightarrow> l2_market_data" where
  "flat_l2 sz fb =
     (let as = take (nat sz) (price_levels (fb_asks fb)); bs = take (nat sz) (price_levels (fb_bids fb))
      in \<lparr>l2_askSize = int (length as), l2_bidSize = int (length bs),
          l2_askPrices = map (\<lambda>(p, v, n). p) as, l2_askVolumes = map (\<lambda>(p, v, n). v) as,
          l2_askOrders = map (\<lambda>(p, v, n). n) as,
          l2_bidPrices = map (\<lambda>(p, v, n). p) bs, l2_bidVolumes = map (\<lambda>(p, v, n). v) bs,
          l2_bidOrders = map (\<lambda>(p, v, n). n) bs,
          l2_timestamp = 0, l2_referenceSeq = 0\<rparr>)"

section \<open>The dispatcher\<close>

record 'b order_book_ops =
  op_newOrder :: "trade_event \<Rightarrow> 'b \<Rightarrow> order_command \<Rightarrow> exn + ('b \<times> order_command)"
  op_cancelOrder :: "trade_event \<Rightarrow> 'b \<Rightarrow> order_command \<Rightarrow> exn + (result_code \<times> 'b \<times> order_command)"
  op_reduceOrder :: "trade_event \<Rightarrow> 'b \<Rightarrow> order_command \<Rightarrow> exn + (result_code \<times> 'b \<times> order_command)"
  op_moveOrder :: "trade_event \<Rightarrow> 'b \<Rightarrow> order_command \<Rightarrow> exn + (result_code \<times> 'b \<times> order_command)"
  op_l2Snapshot :: "int \<Rightarrow> 'b \<Rightarrow> l2_market_data"

definition l2_request_size :: "order_command \<Rightarrow> int" where
  "l2_request_size cmd =
     (let sz = signed_take_bit 31 (cmd_size cmd) in if sz \<ge> 0 then sz else INT32_MAX)"

lemma l2_request_size_nonneg: "0 \<le> l2_request_size cmd"
  by (auto simp: l2_request_size_def Let_def INT32_MAX_def)

definition process_command ::
  "'b order_book_ops \<Rightarrow> trade_event \<Rightarrow> 'b \<Rightarrow> order_command \<Rightarrow> exn + (result_code \<times> 'b \<times> order_command)" where
  "process_command ops node orderBook cmd =
     (if cmd_command cmd = MOVE_ORDER then op_moveOrder ops node orderBook cmd
      else if cmd_command cmd = CANCEL_ORDER then op_cancelOrder ops node orderBook cmd
      else if cmd_command cmd = REDUCE_ORDER then op_reduceOrder ops node orderBook cmd
      else if cmd_command cmd = PLACE_ORDER then
        if cmd_resultCode cmd = VALID_FOR_MATCHING_ENGINE
        then bindE (op_newOrder ops node orderBook cmd) (\<lambda>(b1, cmd1). Inr (SUCCESS, b1, cmd1))
        else Inr (cmd_resultCode cmd, orderBook, cmd)
      else if cmd_command cmd = ORDER_BOOK_REQUEST then
        Inr (SUCCESS, orderBook,
             cmd\<lparr>cmd_marketData := Some (op_l2Snapshot ops (l2_request_size cmd) orderBook)\<rparr>)
      else Inr (MATCHING_UNSUPPORTED_COMMAND, orderBook, cmd))"

text \<open>The dispatcher over the flat book, the specification of the one above.\<close>

definition flat_process_command ::
  "symbol_type \<Rightarrow> trade_event \<Rightarrow> flat_book \<Rightarrow> order_command \<Rightarrow> result_code \<times> flat_book \<times> order_command" where
  "flat_process_command stype node fb cmd =
     (case cmd_command cmd of
        MOVE_ORDER \<Rightarrow> flat_move stype fb cmd
      | CANCEL_ORDER \<Rightarrow> flat_cancel node fb cmd
      | REDUCE_ORDER \<Rightarrow> flat_reduce node fb cmd
      | PLACE_ORDER \<Rightarrow>
          if cmd_resultCode cmd = VALID_FOR_MATCHING_ENGINE
          then (case flat_new_order node fb cmd of (fb1, cmd1) \<Rightarrow> (SUCCESS, fb1, cmd1))
          else (cmd_resultCode cmd, fb, cmd)
      | ORDER_BOOK_REQUEST \<Rightarrow>
          (SUCCESS, fb, cmd\<lparr>cmd_marketData := Some (flat_l2 (l2_request_size cmd) fb)\<rparr>)
      | _ \<Rightarrow> (MATCHING_UNSUPPORTED_COMMAND, fb, cmd))"

text \<open>
  The commands that the contract is about: an order to place has a positive size. Nothing before the
  order book checks that; \<open>PlaceExchangeOrder\<close> and \<open>PlaceMarginOrder\<close> let other sizes pass.
\<close>

definition placeable :: "order_command \<Rightarrow> bool" where
  "placeable cmd \<longleftrightarrow> (cmd_command cmd = PLACE_ORDER \<longrightarrow> 0 < cmd_size cmd)"

text \<open>
  The action that a failed move leaves in the command is not part of the contract:
  implementations differ in whether they fill it in before the risk check of the price.
\<close>

definition same_outcome ::
  "result_code \<times> flat_book \<times> order_command \<Rightarrow> result_code \<times> flat_book \<times> order_command \<Rightarrow> bool" where
  "same_outcome x y \<longleftrightarrow> fst x = fst y \<and> fst (snd x) = fst (snd y) \<and>
     (if fst x = MATCHING_MOVE_FAILED_PRICE_OVER_RISK_LIMIT
      then snd (snd x) = (snd (snd y))\<lparr>cmd_action := cmd_action (snd (snd x))\<rparr>
      else snd (snd x) = snd (snd y))"

lemma same_outcome_refl [simp]: "same_outcome x x"
  by (simp add: same_outcome_def)

lemma flat_process_command_ok:
  assumes "flat_ok fb" and "placeable cmd" and "flat_process_command stype node fb cmd = (code, fb', cmd')"
  shows "flat_ok fb' \<and> (uncrossed fb \<longrightarrow> uncrossed fb')"
proof (cases "cmd_command cmd = PLACE_ORDER \<and> cmd_resultCode cmd = VALID_FOR_MATCHING_ENGINE")
  case True
  then have "flat_new_order node fb cmd = (fb', cmd')" "0 < cmd_size cmd"
    using assms(2,3) by (auto simp: flat_process_command_def placeable_def split: prod.splits)
  with flat_new_order_ok[OF assms(1)] show ?thesis by blast
next
  case False
  with assms(1,3) flat_move_ok[OF assms(1)] flat_cancel_ok[OF assms(1)] flat_reduce_ok[OF assms(1)]
  show ?thesis
    by (cases "cmd_command cmd") (auto simp: flat_process_command_def)
qed

section \<open>The contract\<close>

text \<open>The commands an implementation takes: it may set conditions on new orders and on moves.\<close>

definition admissible ::
  "('b \<Rightarrow> order_command \<Rightarrow> bool) \<Rightarrow> ('b \<Rightarrow> order_command \<Rightarrow> bool) \<Rightarrow> 'b \<Rightarrow> order_command \<Rightarrow> bool" where
  "admissible adm_new adm_move b cmd \<longleftrightarrow> placeable cmd \<and> (cmd_command cmd = PLACE_ORDER \<longrightarrow> adm_new b cmd) \<and>
     (cmd_command cmd = MOVE_ORDER \<longrightarrow> adm_move b cmd)"

locale order_book_contract =
  fixes valid :: "'b \<Rightarrow> bool"
    and abstr :: "'b \<Rightarrow> flat_book"
    and spec :: "'b \<Rightarrow> symbol_spec"
    and ops :: "'b order_book_ops"
    and adm_new :: "'b \<Rightarrow> order_command \<Rightarrow> bool"
    and adm_move :: "'b \<Rightarrow> order_command \<Rightarrow> bool"
  assumes valid_flat_ok: "valid b \<Longrightarrow> flat_ok (abstr b)"
    and new_order_law: "valid b \<Longrightarrow> adm_new b cmd \<Longrightarrow> 0 < cmd_size cmd \<Longrightarrow>
      \<exists>b' cmd'. op_newOrder ops node b cmd = Inr (b', cmd') \<and> valid b' \<and> spec b' = spec b \<and>
        flat_new_order node (abstr b) cmd = (abstr b', cmd')"
    and cancel_law: "valid b \<Longrightarrow>
      \<exists>code b' cmd'. op_cancelOrder ops node b cmd = Inr (code, b', cmd') \<and> valid b' \<and> spec b' = spec b \<and>
        flat_cancel node (abstr b) cmd = (code, abstr b', cmd')"
    and reduce_law: "valid b \<Longrightarrow>
      \<exists>code b' cmd'. op_reduceOrder ops node b cmd = Inr (code, b', cmd') \<and> valid b' \<and> spec b' = spec b \<and>
        flat_reduce node (abstr b) cmd = (code, abstr b', cmd')"
    and move_law: "valid b \<Longrightarrow> adm_move b cmd \<Longrightarrow>
      \<exists>code b' cmd'. op_moveOrder ops node b cmd = Inr (code, b', cmd') \<and> valid b' \<and> spec b' = spec b \<and>
        same_outcome (flat_move (sp_type (spec b)) (abstr b) cmd) (code, abstr b', cmd')"
    and l2_law: "valid b \<Longrightarrow> 0 \<le> sz \<Longrightarrow> op_l2Snapshot ops sz b = flat_l2 sz (abstr b)"
begin

lemma process_command_refines:
  assumes b: "valid b" and p: "admissible adm_new adm_move b cmd"
  shows "\<exists>code b' cmd'. process_command ops node b cmd = Inr (code, b', cmd') \<and> valid b' \<and>
    spec b' = spec b \<and>
    same_outcome (flat_process_command (sp_type (spec b)) node (abstr b) cmd) (code, abstr b', cmd')"
proof (cases "cmd_command cmd")
  case MOVE_ORDER
  with p have "adm_move b cmd" by (simp add: admissible_def)
  with MOVE_ORDER move_law[OF b, of cmd node] show ?thesis
    by (simp add: process_command_def flat_process_command_def)
next
  case CANCEL_ORDER
  with cancel_law[OF b, of node cmd] show ?thesis
    by (auto simp: process_command_def flat_process_command_def)
next
  case REDUCE_ORDER
  with reduce_law[OF b, of node cmd] show ?thesis
    by (auto simp: process_command_def flat_process_command_def)
next
  case PLACE_ORDER
  with p have "adm_new b cmd" "0 < cmd_size cmd" by (simp_all add: admissible_def placeable_def)
  with PLACE_ORDER new_order_law[OF b, of cmd node] b show ?thesis
    by (auto simp: process_command_def flat_process_command_def)
next
  case ORDER_BOOK_REQUEST
  with l2_law[OF b l2_request_size_nonneg, of cmd] b show ?thesis
    by (simp add: process_command_def flat_process_command_def)
qed (use b in \<open>simp_all add: process_command_def flat_process_command_def\<close>)

text \<open>A run of commands keeps the invariant, never throws and never leaves a crossed book.\<close>

lemma process_command_uncrossed:
  assumes b: "valid b" and p: "admissible adm_new adm_move b cmd" and u: "uncrossed (abstr b)"
    and r: "process_command ops node b cmd = Inr (code, b', cmd')"
  shows "valid b' \<and> uncrossed (abstr b')"
proof -
  obtain x y z where f: "flat_process_command (sp_type (spec b)) node (abstr b) cmd = (x, y, z)"
    by (metis prod_cases3)
  with process_command_refines[OF b p, of node] r have "valid b'" "y = abstr b'"
    by (auto simp: same_outcome_def)
  moreover have "placeable cmd" using p by (simp add: admissible_def)
  ultimately show ?thesis using flat_process_command_ok[OF valid_flat_ok[OF b] _ f] u by blast
qed

end

text \<open>An implementation that takes every order and every price.\<close>

locale order_book_impl =
  fixes valid :: "'b \<Rightarrow> bool"
    and abstr :: "'b \<Rightarrow> flat_book"
    and spec :: "'b \<Rightarrow> symbol_spec"
    and ops :: "'b order_book_ops"
  assumes valid_flat_ok: "valid b \<Longrightarrow> flat_ok (abstr b)"
    and new_order_law: "valid b \<Longrightarrow> 0 < cmd_size cmd \<Longrightarrow>
      \<exists>b' cmd'. op_newOrder ops node b cmd = Inr (b', cmd') \<and> valid b' \<and> spec b' = spec b \<and>
        flat_new_order node (abstr b) cmd = (abstr b', cmd')"
    and cancel_law: "valid b \<Longrightarrow>
      \<exists>code b' cmd'. op_cancelOrder ops node b cmd = Inr (code, b', cmd') \<and> valid b' \<and> spec b' = spec b \<and>
        flat_cancel node (abstr b) cmd = (code, abstr b', cmd')"
    and reduce_law: "valid b \<Longrightarrow>
      \<exists>code b' cmd'. op_reduceOrder ops node b cmd = Inr (code, b', cmd') \<and> valid b' \<and> spec b' = spec b \<and>
        flat_reduce node (abstr b) cmd = (code, abstr b', cmd')"
    and move_law: "valid b \<Longrightarrow>
      \<exists>code b' cmd'. op_moveOrder ops node b cmd = Inr (code, b', cmd') \<and> valid b' \<and> spec b' = spec b \<and>
        same_outcome (flat_move (sp_type (spec b)) (abstr b) cmd) (code, abstr b', cmd')"
    and l2_law: "valid b \<Longrightarrow> 0 \<le> sz \<Longrightarrow> op_l2Snapshot ops sz b = flat_l2 sz (abstr b)"

sublocale order_book_impl \<subseteq> contract: order_book_contract valid abstr spec ops "\<lambda>_ _. True" "\<lambda>_ _. True"
proof unfold_locales
  fix b cmd node
  assume b: "valid b"
  show "flat_ok (abstr b)" by (rule valid_flat_ok[OF b])
  show "0 < cmd_size cmd \<Longrightarrow> \<exists>b' cmd'. op_newOrder ops node b cmd = Inr (b', cmd') \<and> valid b' \<and> spec b' = spec b \<and>
      flat_new_order node (abstr b) cmd = (abstr b', cmd')" by (rule new_order_law[OF b])
  show "\<exists>code b' cmd'. op_cancelOrder ops node b cmd = Inr (code, b', cmd') \<and> valid b' \<and> spec b' = spec b \<and>
      flat_cancel node (abstr b) cmd = (code, abstr b', cmd')" by (rule cancel_law[OF b])
  show "\<exists>code b' cmd'. op_reduceOrder ops node b cmd = Inr (code, b', cmd') \<and> valid b' \<and> spec b' = spec b \<and>
      flat_reduce node (abstr b) cmd = (code, abstr b', cmd')" by (rule reduce_law[OF b])
  show "\<exists>code b' cmd'. op_moveOrder ops node b cmd = Inr (code, b', cmd') \<and> valid b' \<and> spec b' = spec b \<and>
      same_outcome (flat_move (sp_type (spec b)) (abstr b) cmd) (code, abstr b', cmd')" by (rule move_law[OF b])
  show "0 \<le> sz \<Longrightarrow> op_l2Snapshot ops sz b = flat_l2 sz (abstr b)" for sz by (rule l2_law[OF b])
qed

lemma admissible_placeable [simp]: "admissible (\<lambda>_ _. True) (\<lambda>_ _. True) b cmd \<longleftrightarrow> placeable cmd"
  by (simp add: admissible_def)

context order_book_impl
begin

lemmas process_command_refines = contract.process_command_refines[unfolded admissible_placeable]
lemmas process_command_uncrossed = contract.process_command_uncrossed[unfolded admissible_placeable]

end

end
