(* ===== verification/Order_Book_Laws.thy ===== *)
theory Order_Book_Laws
  imports Order_Book_Interface
begin

text \<open>
  What every order book promises its users, proved for the flat book and then for every
  implementation of the contract: price-time priority, all-or-nothing budget orders, exact
  cancels and reduces, and moves that respect the risk limit.
\<close>

section \<open>The flat book\<close>

definition trades :: "order_command \<Rightarrow> trade_event list" where
  "trades cmd = filter (\<lambda>e. ev_eventType e = TRADE) (cmd_matcherEvent cmd)"

text \<open>The trades of a taker with the side it trades against, up to a limit and a volume.\<close>

definition priority_trades :: "(int \<Rightarrow> bool) \<Rightarrow> int \<Rightarrow> order list \<Rightarrow> trade_event list \<Rightarrow> bool" where
  "priority_trades ok vol os evs \<longleftrightarrow>
     map ev_matchedOrderId evs = take (length evs) (map ord_orderId os) \<and>
     map ev_price evs = take (length evs) (map ord_price os) \<and>
     (\<forall>e \<in> set evs. ok (ev_price e) \<and> 0 < ev_size e) \<and>
     events_size evs = min vol (volume (takeWhile (\<lambda>x. ok (ord_price x)) os))"

lemma fill_priority:
  assumes "\<forall>x \<in> set os. resting s x" and "0 \<le> vol" and "fill ok r vol os = (os', evs, f)"
  shows "priority_trades ok vol os evs" and "\<forall>e \<in> set evs. ev_eventType e = TRADE" and "events_size evs = f"
  using fill_events[OF assms(1,3)] fill_volume[OF assms(1,3)] fill_amount[OF assms(1,3,2)]
  by (auto simp: priority_trades_def)

lemma flat_match_priority:
  assumes "flat_ok fb" and "0 \<le> cmd_size cmd" and "flat_match (cmd_iorder cmd) ok fb cmd = (fb', cmd', filled)"
  obtains evs where "cmd' = set_events evs cmd" "\<forall>e \<in> set evs. ev_eventType e = TRADE"
    "priority_trades ok (cmd_size cmd) (fb_side (opposite (cmd_action cmd)) fb) evs" "events_size evs = filled"
proof -
  let ?s = "cmd_action cmd"
  have R: "\<forall>x \<in> set (fb_side (opposite ?s) fb). resting (opposite ?s) x"
    using side_okD[OF flat_ok_side[OF assms(1)]] .
  obtain os' evs f where F: "fill ok (cmd_reserveBidPrice cmd) (cmd_size cmd) (fb_side (opposite ?s) fb) = (os', evs, f)"
    by (metis prod_cases3)
  with assms(3) have "cmd' = set_events evs cmd" "filled = f" by (auto simp: flat_match_def)
  with fill_priority[OF R assms(2) F] that show ?thesis by simp
qed

lemma trades_set_events [simp]:
  "cmd_matcherEvent cmd = [] \<Longrightarrow> \<forall>e \<in> set evs. ev_eventType e = TRADE \<Longrightarrow> trades (set_events evs cmd) = evs"
  by (auto simp: trades_def set_events_def filter_id_conv)

lemma trades_attach [simp]: "trades (attach_reject_event node cmd sz) = trades cmd"
  by (simp add: trades_def attach_reject_event_def reject_event_def)

lemma flat_new_order_priority:
  assumes ok: "flat_ok fb" and pos: "0 < cmd_size cmd" and ev: "cmd_matcherEvent cmd = []"
    and ty: "cmd_orderType cmd = GTC \<or> cmd_orderType cmd = IOC"
    and r: "flat_new_order node fb cmd = (fb', cmd')"
  shows "priority_trades (crosses (cmd_action cmd) (cmd_price cmd)) (cmd_size cmd)
    (fb_side (opposite (cmd_action cmd)) fb) (trades cmd')"
proof -
  obtain fb1 cmd1 filled where M:
    "flat_match (cmd_iorder cmd) (crosses (cmd_action cmd) (cmd_price cmd)) fb cmd = (fb1, cmd1, filled)"
    by (metis prod_cases3)
  have "0 \<le> cmd_size cmd" using pos by simp
  from flat_match_priority[OF ok this M] obtain evs where E: "cmd1 = set_events evs cmd"
    "\<forall>e \<in> set evs. ev_eventType e = TRADE"
    "priority_trades (crosses (cmd_action cmd) (cmd_price cmd)) (cmd_size cmd)
       (fb_side (opposite (cmd_action cmd)) fb) evs" .
  have "trades cmd' = trades cmd1"
    using r ty M by (auto simp: flat_new_order_def flat_gtc_def flat_ioc_def split: if_splits)
  with E ev show ?thesis by simp
qed

text \<open>What filling a size from the front costs.\<close>

lemma budget_to_fill_events:
  assumes "\<forall>x \<in> set os. resting s x" and "budget_to_fill vol os = Some b" and "0 \<le> vol"
    and "fill (\<lambda>_. True) r vol os = (os', evs, f)"
  shows "sum_list (map (\<lambda>e. ev_size e * ev_price e) evs) = b \<and> f = vol"
  using assms
proof (induction vol os arbitrary: os' evs f b rule: fill_induct[where ok = "\<lambda>_. True"])
  case (Full vol x os)
  obtain os1 evs1 f1 where *: "fill (\<lambda>_. True) r (vol - remaining x) os = (os1, evs1, f1)"
    by (metis prod_cases3)
  show ?case
  proof (cases "vol > remaining x")
    case True
    then obtain b1 where "budget_to_fill (vol - remaining x) os = Some b1" "b = remaining x * ord_price x + b1"
      using Full(7) by auto
    with Full(6)[OF _ _ *, of b1] Full(3,5,9) * show ?thesis
      by (auto simp: fill_Cons_full simp del: fill.simps)
  next
    case False
    with Full(5) have "vol = remaining x" by simp
    moreover from this have "evs1 = [] \<and> f1 = 0" using * by (simp add: fill_stop)
    ultimately show ?thesis using Full(3,5,7,9) * by (auto simp: fill_Cons_full simp del: fill.simps)
  qed
next
  case (Part vol x os)
  then show ?case by (auto simp: fill_Cons_part simp del: fill.simps)
next
  case (Stop vol x os)
  then have "vol = 0" by simp
  with Stop show ?case by (auto simp: fill_stop resting_pos dest: resting_pos split: if_splits)
qed simp

lemma flat_fok_all_or_nothing:
  assumes ok: "flat_ok fb" and pos: "0 < cmd_size cmd" and ev: "cmd_matcherEvent cmd = []"
    and r: "flat_fok_budget node fb cmd = (fb', cmd')"
  shows "(fb' = fb \<and> cmd_matcherEvent cmd' = [reject_event node cmd (cmd_size cmd)]) \<or>
    (cmd_matcherEvent cmd' = trades cmd' \<and> events_size (trades cmd') = cmd_size cmd \<and>
     is_budget_limit_satisfied (cmd_action cmd)
       (sum_list (map (\<lambda>e. ev_size e * ev_price e) (trades cmd'))) (cmd_price cmd))"
proof (cases "\<exists>b. budget_to_fill (cmd_size cmd) (fb_side (opposite (cmd_action cmd)) fb) = Some b \<and>
    is_budget_limit_satisfied (cmd_action cmd) b (cmd_price cmd)")
  case False
  then have "fb' = fb" "cmd' = attach_reject_event node cmd (cmd_size cmd)"
    using r by (auto simp: flat_fok_budget_def split: option.splits if_splits)
  with ev show ?thesis by (simp add: attach_reject_event_def)
next
  case True
  let ?os = "fb_side (opposite (cmd_action cmd)) fb"
  from True obtain b where b: "budget_to_fill (cmd_size cmd) ?os = Some b"
    "is_budget_limit_satisfied (cmd_action cmd) b (cmd_price cmd)" by blast
  have R: "\<forall>x \<in> set ?os. resting (opposite (cmd_action cmd)) x" using side_okD[OF flat_ok_side[OF ok]] .
  obtain os' evs f where F: "fill (\<lambda>_. True) (cmd_reserveBidPrice cmd) (cmd_size cmd) ?os = (os', evs, f)"
    by (metis prod_cases3)
  have "0 \<le> cmd_size cmd" using pos by simp
  note B = budget_to_fill_events[OF R b(1) this F] and P = fill_priority[OF R this F]
  have "cmd' = set_events evs cmd" using r b F by (simp add: flat_fok_budget_def flat_match_def)
  moreover have "evs \<noteq> []" using P(3) B pos by auto
  ultimately show ?thesis using P(2,3) B ev b(2) by (simp add: set_events_def trades_def filter_id_conv)
qed

section \<open>Every implementation\<close>

context order_book_contract
begin

lemma new_order_priority:
  assumes b: "valid b" and adm: "adm_new b cmd" and pos: "0 < cmd_size cmd" and ev: "cmd_matcherEvent cmd = []"
    and ty: "cmd_orderType cmd = GTC \<or> cmd_orderType cmd = IOC"
  shows "\<exists>b' cmd'. op_newOrder ops node b cmd = Inr (b', cmd') \<and>
    priority_trades (crosses (cmd_action cmd) (cmd_price cmd)) (cmd_size cmd)
      (fb_side (opposite (cmd_action cmd)) (abstr b)) (trades cmd')"
  using new_order_law[OF b adm pos, of node] flat_new_order_priority[OF valid_flat_ok[OF b] pos ev ty, of node] by blast

lemma fok_all_or_nothing:
  assumes b: "valid b" and adm: "adm_new b cmd" and pos: "0 < cmd_size cmd" and ev: "cmd_matcherEvent cmd = []"
    and ty: "cmd_orderType cmd = FOK_BUDGET"
  shows "\<exists>b' cmd'. op_newOrder ops node b cmd = Inr (b', cmd') \<and>
    ((abstr b' = abstr b \<and> cmd_matcherEvent cmd' = [reject_event node cmd (cmd_size cmd)]) \<or>
     (cmd_matcherEvent cmd' = trades cmd' \<and> events_size (trades cmd') = cmd_size cmd \<and>
      is_budget_limit_satisfied (cmd_action cmd)
        (sum_list (map (\<lambda>e. ev_size e * ev_price e) (trades cmd'))) (cmd_price cmd)))"
proof -
  obtain b' cmd' where n: "op_newOrder ops node b cmd = Inr (b', cmd')"
    "flat_new_order node (abstr b) cmd = (abstr b', cmd')" using new_order_law[OF b adm pos, of node] by blast
  then have "flat_fok_budget node (abstr b) cmd = (abstr b', cmd')" using ty by (simp add: flat_new_order_def)
  from flat_fok_all_or_nothing[OF valid_flat_ok[OF b] pos ev this] n(1) show ?thesis by blast
qed

text \<open>A cancelled order is gone, its whole rest is reported and no other order is touched.\<close>

lemma cancel_exact:
  assumes b: "valid b" and f: "fb_find (cmd_orderId cmd) (abstr b) = Some x" and u: "ord_uid x = cmd_uid cmd"
  shows "\<exists>b' cmd' e. op_cancelOrder ops node b cmd = Inr (SUCCESS, b', cmd') \<and> valid b' \<and>
    fb_orders (abstr b') = filter (\<lambda>y. ord_orderId y \<noteq> cmd_orderId cmd) (fb_orders (abstr b)) \<and>
    cmd_matcherEvent cmd' = [e] \<and> ev_eventType e = REDUCE \<and> ev_size e = remaining x \<and>
    ev_price e = ord_price x \<and> ev_bidderHoldPrice e = ord_reserveBidPrice x \<and> cmd_action cmd' = ord_action x"
proof -
  let ?cmd' = "cmd\<lparr>cmd_matcherEvent := [send_reduce_event node (ord_price x) (ord_reserveBidPrice x) (remaining x) True],
    cmd_action := ord_action x\<rparr>"
  obtain b' where "op_cancelOrder ops node b cmd = Inr (SUCCESS, b', ?cmd')" "valid b'"
    "abstr b' = fb_remove (cmd_orderId cmd) (abstr b)"
    using cancel_law[OF b, of node cmd] f u by (auto simp: flat_cancel_def)
  then show ?thesis by (simp add: fb_remove_orders send_reduce_event_def)
qed

text \<open>An order of another user, or of nobody, cannot be cancelled, reduced or moved.\<close>

lemma foreign_order_refused:
  assumes b: "valid b"
    and f: "\<forall>x. fb_find (cmd_orderId cmd) (abstr b) = Some x \<longrightarrow> ord_uid x \<noteq> cmd_uid cmd"
  shows "\<exists>b'. op_cancelOrder ops node b cmd = Inr (MATCHING_UNKNOWN_ORDER_ID, b', cmd) \<and> abstr b' = abstr b"
    and "adm_move b cmd \<Longrightarrow> \<exists>b'. op_moveOrder ops node b cmd = Inr (MATCHING_UNKNOWN_ORDER_ID, b', cmd) \<and> abstr b' = abstr b"
    and "0 < cmd_size cmd \<Longrightarrow>
      \<exists>b'. op_reduceOrder ops node b cmd = Inr (MATCHING_UNKNOWN_ORDER_ID, b', cmd) \<and> abstr b' = abstr b"
proof -
  have none: "flat_cancel node (abstr b) cmd = (MATCHING_UNKNOWN_ORDER_ID, abstr b, cmd)"
    "flat_move stype (abstr b) cmd = (MATCHING_UNKNOWN_ORDER_ID, abstr b, cmd)"
    "0 < cmd_size cmd \<Longrightarrow> flat_reduce node (abstr b) cmd = (MATCHING_UNKNOWN_ORDER_ID, abstr b, cmd)" for stype
    using f by (auto simp: flat_cancel_def flat_move_def flat_reduce_def split: option.split)
  show "\<exists>b'. op_cancelOrder ops node b cmd = Inr (MATCHING_UNKNOWN_ORDER_ID, b', cmd) \<and> abstr b' = abstr b"
    using cancel_law[OF b, of node cmd] none(1) by auto
  show "adm_move b cmd \<Longrightarrow> \<exists>b'. op_moveOrder ops node b cmd = Inr (MATCHING_UNKNOWN_ORDER_ID, b', cmd) \<and> abstr b' = abstr b"
    using move_law[OF b, of cmd node] none(2) by (auto simp: same_outcome_def)
  show "0 < cmd_size cmd \<Longrightarrow>
      \<exists>b'. op_reduceOrder ops node b cmd = Inr (MATCHING_UNKNOWN_ORDER_ID, b', cmd) \<and> abstr b' = abstr b"
    using reduce_law[OF b, of node cmd] none(3) by auto
qed

text \<open>A partial reduce leaves the order where it is, smaller by the amount.\<close>

lemma reduce_partial:
  assumes b: "valid b" and f: "fb_find (cmd_orderId cmd) (abstr b) = Some x" and u: "ord_uid x = cmd_uid cmd"
    and sz: "0 < cmd_size cmd" "cmd_size cmd < remaining x"
  shows "\<exists>b' cmd' e. op_reduceOrder ops node b cmd = Inr (SUCCESS, b', cmd') \<and> valid b' \<and>
    fb_orders (abstr b') = map (\<lambda>y. if ord_orderId y = cmd_orderId cmd
      then y\<lparr>ord_size := ord_size y - cmd_size cmd\<rparr> else y) (fb_orders (abstr b)) \<and>
    cmd_matcherEvent cmd' = [e] \<and> ev_eventType e = REDUCE \<and> ev_size e = cmd_size cmd \<and>
    \<not> ev_activeOrderCompleted e"
proof -
  let ?cmd' = "cmd\<lparr>cmd_matcherEvent := [send_reduce_event node (ord_price x) (ord_reserveBidPrice x) (cmd_size cmd) False],
    cmd_action := ord_action x\<rparr>"
  obtain b' where "op_reduceOrder ops node b cmd = Inr (SUCCESS, b', ?cmd')" "valid b'"
    "abstr b' = fb_resize (cmd_orderId cmd) (cmd_size cmd) (abstr b)"
    using reduce_law[OF b, of node cmd] f u sz by (auto simp: flat_reduce_def Let_def)
  then show ?thesis by (simp add: fb_orders_def fb_resize_def Let_def send_reduce_event_def)
qed

text \<open>A bid of an exchange pair is never moved above the price its funds are reserved for.\<close>

lemma move_risk_limit:
  assumes b: "valid b" and adm: "adm_move b cmd" and f: "fb_find (cmd_orderId cmd) (abstr b) = Some x" and u: "ord_uid x = cmd_uid cmd"
    and ty: "sp_type (spec b) = CURRENCY_EXCHANGE_PAIR" and bid: "ord_action x = BID"
    and above: "ord_reserveBidPrice x < cmd_price cmd"
  shows "\<exists>b' cmd'. op_moveOrder ops node b cmd = Inr (MATCHING_MOVE_FAILED_PRICE_OVER_RISK_LIMIT, b', cmd') \<and>
    abstr b' = abstr b \<and> cmd_matcherEvent cmd' = cmd_matcherEvent cmd"
proof -
  obtain code b' cmd' where m: "op_moveOrder ops node b cmd = Inr (code, b', cmd')"
    "same_outcome (flat_move (sp_type (spec b)) (abstr b) cmd) (code, abstr b', cmd')"
    using move_law[OF b adm, of node] by blast
  have "flat_move (sp_type (spec b)) (abstr b) cmd =
      (MATCHING_MOVE_FAILED_PRICE_OVER_RISK_LIMIT, abstr b, cmd\<lparr>cmd_action := BID\<rparr>)"
    using f u ty bid above by (simp add: flat_move_def Let_def)
  with m(2) have *: "code = MATCHING_MOVE_FAILED_PRICE_OVER_RISK_LIMIT" "abstr b' = abstr b"
    "cmd\<lparr>cmd_action := BID\<rparr> = cmd'\<lparr>cmd_action := BID\<rparr>" by (auto simp: same_outcome_def)
  from arg_cong[OF *(3), of cmd_matcherEvent] *(1,2) m(1) show ?thesis by simp
qed

end

text \<open>For an implementation that admits everything.\<close>

context order_book_impl
begin

lemmas new_order_priority = contract.new_order_priority[OF _ TrueI]
lemmas fok_all_or_nothing = contract.fok_all_or_nothing[OF _ TrueI]
lemmas cancel_exact = contract.cancel_exact
lemmas foreign_order_refused = contract.foreign_order_refused[unfolded simp_thms]
lemmas reduce_partial = contract.reduce_partial
lemmas move_risk_limit = contract.move_risk_limit[OF _ TrueI]

end

end
