(* ===== verification/Naive_Refine.thy ===== *)
theory Naive_Refine
  imports Naive_Steps Order_Book_Laws
begin

text \<open>
  The operations of the naive book refine those of the flat book: they return, keep the
  invariant, and their abstraction is what the flat operation computes.
\<close>

section \<open>The identifier index\<close>

lemma ids_ok_erase:
  assumes "ids_ok nb" and "hp_cells (nb_heap nb) a = Some ord"
    and "nb_idMap nb' = um_erase (ord_orderId ord) (nb_idMap nb)"
    and "hp_cells (nb_heap nb') = (hp_cells (nb_heap nb))(a := None)"
  shows "ids_ok nb'"
proof -
  have at: "ord_at (nb_heap nb') x = ord_at (nb_heap nb) x" if "x \<noteq> a" for x
    using assms(4) that by (simp add: ord_at_def)
  have m: "um_find (nb_idMap nb) i = Some x \<longleftrightarrow>
      x \<in> dom (hp_cells (nb_heap nb)) \<and> ord_orderId (ord_at (nb_heap nb) x) = i" for i x
    using assms(1) by (simp add: ids_ok_def)
  have A: "um_find (nb_idMap nb) (ord_orderId ord) = Some a"
    using m ord_at_Some[OF assms(2)] assms(2) by blast
  have "um_find (nb_idMap nb') i = Some x \<longleftrightarrow>
      x \<in> dom (hp_cells (nb_heap nb')) \<and> ord_orderId (ord_at (nb_heap nb') x) = i" for i x
  proof (cases "x = a")
    case True
    then show ?thesis using assms(3,4) A m[of i a] ord_at_Some[OF assms(2)] by auto
  next
    case False
    then show ?thesis using assms(3,4) A m[of i x] at[OF False] by auto
  qed
  then show ?thesis by (simp add: ids_ok_def)
qed

lemma ids_ok_write:
  assumes "ids_ok nb" and "a \<in> dom (hp_cells (nb_heap nb))"
    and "ord_orderId ord = ord_orderId (ord_at (nb_heap nb) a)"
    and "nb_idMap nb' = nb_idMap nb" and "nb_heap nb' = heap_write a ord (nb_heap nb)"
  shows "ids_ok nb'"
  using assms by (auto simp: ids_ok_def)

lemma ids_ok_new:
  assumes "ids_ok nb" and "a \<notin> dom (hp_cells (nb_heap nb))"
    and "um_find (nb_idMap nb) (ord_orderId ord) = None"
    and "nb_idMap nb' = um_put (ord_orderId ord) a (nb_idMap nb)"
    and "hp_cells (nb_heap nb') = (hp_cells (nb_heap nb))(a \<mapsto> ord)"
  shows "ids_ok nb'"
proof -
  have at: "ord_at (nb_heap nb') x = (if x = a then ord else ord_at (nb_heap nb) x)" for x
    using assms(5) by (simp add: ord_at_def)
  have m: "um_find (nb_idMap nb) i = Some x \<longleftrightarrow>
      x \<in> dom (hp_cells (nb_heap nb)) \<and> ord_orderId (ord_at (nb_heap nb) x) = i" for i x
    using assms(1) by (simp add: ids_ok_def)
  have "um_find (nb_idMap nb') i = Some x \<longleftrightarrow>
      x \<in> dom (hp_cells (nb_heap nb')) \<and> ord_orderId (ord_at (nb_heap nb') x) = i" for i x
    using m[of i x] assms(2-5) at[of x] by (cases "i = ord_orderId ord"; cases "x = a") auto
  then show ?thesis by (simp add: ids_ok_def)
qed

lemma ids_ok_same:
  "ids_ok nb \<Longrightarrow> nb_idMap nb' = nb_idMap nb \<Longrightarrow> nb_heap nb' = nb_heap nb \<Longrightarrow> ids_ok nb'"
  by (simp add: ids_ok_def)

lemma matching_range_crosses:
  "get_matching_range action price nb = new_matching_range (opposite action) (crosses action price) nb"
  by (cases action) (simp_all add: get_matching_range_def crosses.simps[abs_def])

section \<open>New orders\<close>

lemma place_refine:
  assumes core: "nb_core {} nb" and ids: "ids_ok nb" and n: "heap_new (nb_heap nb) ord = (a, h)"
    and ord: "resting s ord" and free: "um_find (nb_idMap nb) (ord_orderId ord) = None"
  shows "\<exists>nb'. put_in_bucket s (ord_price ord) a (nb\<lparr>nb_heap := h\<rparr>) = Inr nb' \<and>
    nb_inv (nb'\<lparr>nb_idMap := um_put (ord_orderId ord) a (nb_idMap nb')\<rparr>) \<and>
    nb_abs nb' = fb_insert ord (nb_abs nb) \<and> nb_symbolSpec nb' = nb_symbolSpec nb"
proof -
  let ?nb1 = "nb\<lparr>nb_heap := h\<rparr>"
  have A: "nb_core {a} ?nb1" "nb_abs ?nb1 = nb_abs nb" "hp_cells h = (hp_cells (nb_heap nb))(a \<mapsto> ord)"
    "a \<notin> dom (hp_cells (nb_heap nb))"
    using alloc_refine[OF core n] by blast+
  have at: "ord_at (nb_heap ?nb1) a = ord" using A(3) by (simp add: ord_at_def)
  have "ids_ok (nb\<lparr>nb_heap := h, nb_idMap := um_put (ord_orderId ord) a (nb_idMap nb)\<rparr>)"
    by (rule ids_ok_new[OF ids A(4) free]) (simp_all add: A(3))
  from ids_inj[OF this] have inj: "inj_on (\<lambda>x. ord_orderId (ord_at (nb_heap ?nb1) x)) (dom (hp_cells (nb_heap ?nb1)))"
    by simp
  obtain nb' where nb': "put_in_bucket s (ord_price ord) a ?nb1 = Inr nb'" "nb_core {} nb'"
    "nb_abs nb' = fb_insert ord (nb_abs nb)" "nb_heap nb' = h" "nb_idMap nb' = nb_idMap nb"
    "nb_symbolSpec nb' = nb_symbolSpec nb"
    using put_in_bucket_refine[OF A(1) _ at ord inj] A(2) by auto
  have "ids_ok (nb'\<lparr>nb_idMap := um_put (ord_orderId ord) a (nb_idMap nb')\<rparr>)"
    by (rule ids_ok_new[OF ids A(4) free]) (simp_all add: nb'(4,5) A(3))
  with nb' show ?thesis by (intro exI[of _ nb']) (simp add: nb_inv_def)
qed

lemma cmd_match_refine:
  assumes inv: "nb_inv nb"
  shows "\<exists>nb' cmd' filled. try_match_instantly (cmd_iorder cmd)
        (new_matching_range (opposite (cmd_action cmd)) ok nb) 0 cmd nb = Inr (nb', cmd', filled)
     \<and> flat_match (cmd_iorder cmd) ok (nb_abs nb) cmd = (nb_abs nb', cmd', filled)
     \<and> nb_inv nb' \<and> nb_symbolSpec nb' = nb_symbolSpec nb"
  using try_match_refine[of "{}" nb _ "cmd_iorder cmd" ok cmd] inv
  by (simp add: nb_inv_def)

lemma gtc_refine:
  assumes inv: "nb_inv nb" and pos: "0 < cmd_size cmd"
  shows "\<exists>nb' cmd'. new_order_place_gtc node nb cmd = Inr (nb', cmd') \<and> nb_inv nb' \<and>
    nb_symbolSpec nb' = nb_symbolSpec nb \<and> flat_gtc node (nb_abs nb) cmd = (nb_abs nb', cmd')"
proof -
  let ?ok = "crosses (cmd_action cmd) (cmd_price cmd)"
  obtain nb1 cmd1 filled where M:
    "try_match_instantly (cmd_iorder cmd) (new_matching_range (opposite (cmd_action cmd)) ?ok nb) 0 cmd nb
       = Inr (nb1, cmd1, filled)"
    "flat_match (cmd_iorder cmd) ?ok (nb_abs nb) cmd = (nb_abs nb1, cmd1, filled)"
    "nb_inv nb1" "nb_symbolSpec nb1 = nb_symbolSpec nb"
    using cmd_match_refine[OF inv] by blast
  have ok: "flat_ok (nb_abs nb)" using inv nb_flat_ok by (auto simp: nb_inv_def)
  have F: "0 \<le> filled \<and> filled \<le> cmd_size cmd"
    using flat_match_resting[OF ok M(2)] pos by simp
  have find: "fb_find (cmd_orderId cmd) (nb_abs nb1) = None \<longleftrightarrow> um_find (nb_idMap nb1) (cmd_orderId cmd) = None"
    by (simp add: nb_find[OF M(3)])
  show ?thesis
  proof (cases "filled \<noteq> cmd_size cmd \<and> um_find (nb_idMap nb1) (cmd_orderId cmd) = None")
    case False
    with M find show ?thesis
      by (auto simp: new_order_place_gtc_def flat_gtc_def matching_range_crosses Let_def)
  next
    case True
    let ?ord = "cmd_order cmd filled"
    obtain a h where n: "heap_new (nb_heap nb1) ?ord = (a, h)" by (cases "heap_new (nb_heap nb1) ?ord")
    have "resting (cmd_action cmd) ?ord" using True F by (simp add: resting_def)
    moreover have "nb_core {} nb1" "ids_ok nb1" using M(3) by (simp_all add: nb_inv_def)
    ultimately obtain nb2 where P: "put_in_bucket (cmd_action cmd) (cmd_price cmd) a (nb1\<lparr>nb_heap := h\<rparr>) = Inr nb2"
      "nb_inv (nb2\<lparr>nb_idMap := um_put (cmd_orderId cmd) a (nb_idMap nb2)\<rparr>)"
      "nb_abs nb2 = fb_insert ?ord (nb_abs nb1)" "nb_symbolSpec nb2 = nb_symbolSpec nb1"
      using place_refine[of nb1 ?ord a h "cmd_action cmd"] n True by auto
    have "flat_gtc node (nb_abs nb) cmd = (nb_abs nb2, cmd1)"
      using M(2) True find P(3) by (simp add: flat_gtc_def)
    with M P True n show ?thesis
      by (simp add: new_order_place_gtc_def matching_range_crosses Let_def cmd_order_def)
  qed
qed

lemma ioc_refine:
  assumes inv: "nb_inv nb"
  shows "\<exists>nb' cmd'. new_order_match_ioc node nb cmd = Inr (nb', cmd') \<and> nb_inv nb' \<and>
    nb_symbolSpec nb' = nb_symbolSpec nb \<and> flat_ioc node (nb_abs nb) cmd = (nb_abs nb', cmd')"
  using cmd_match_refine[OF inv, of cmd "crosses (cmd_action cmd) (cmd_price cmd)"]
  by (auto simp: new_order_match_ioc_def flat_ioc_def matching_range_crosses Let_def)

lemma check_budget_loop_refine:
  assumes "buckets_inv s h bs"
  shows "check_budget_loop (\<lambda>_. True) sz acc bs =
    map_option (\<lambda>b. acc + b) (budget_to_fill sz (side_orders h bs))"
  using assms
proof (induction bs arbitrary: sz acc)
  case Nil
  then show ?case by simp
next
  case (Cons e bs)
  obtain p b where e: "e = (p, b)" by (cases e)
  then have I: "bucket_inv s h p b" "bk_orderList b \<noteq> []" "buckets_inv s h bs"
    using Cons.prems by (auto simp: buckets_inv_Cons)
  have "bucket_orders h b \<noteq> []" using I(2) by (simp add: bucket_orders_def)
  note B = budget_bucket[OF bucket_inv_resting[OF I(1)] this, of sz "side_orders h bs"]
  show ?case
    using B Cons.IH[OF I(3)] bucket_inv_volume[OF I(1)]
    by (simp add: e Let_def option.map_comp comp_def add.assoc)
qed

lemma fok_budget_refine:
  assumes inv: "nb_inv nb"
  shows "\<exists>nb' cmd'. new_order_match_fok_budget node nb cmd = Inr (nb', cmd') \<and> nb_inv nb' \<and>
    nb_symbolSpec nb' = nb_symbolSpec nb \<and> flat_fok_budget node (nb_abs nb) cmd = (nb_abs nb', cmd')"
proof -
  let ?t = "opposite (cmd_action cmd)"
  let ?r = "new_matching_range ?t (\<lambda>_. True) nb"
  have r: "(if cmd_action cmd = ASK then new_matching_range BID (\<lambda>_. True) nb
      else new_matching_range ASK (\<lambda>_. True) nb) = ?r"
    by (cases "cmd_action cmd") simp_all
  have I: "buckets_inv ?t (nb_heap nb) (nb_side ?t nb)" using inv by (simp add: nb_inv_def nb_core_def)
  have "check_budget_to_fill (cmd_size cmd) ?r nb =
      budget_to_fill (cmd_size cmd) (side_orders (nb_heap nb) (nb_side ?t nb))"
    using check_budget_loop_refine[OF I, of "cmd_size cmd" 0]
    by (auto simp: check_budget_to_fill_def new_matching_range_def option.map_ident split: list.split)
  with cmd_match_refine[OF inv, of cmd "\<lambda>_. True"] inv show ?thesis
    by (auto simp: new_order_match_fok_budget_def flat_fok_budget_def r Let_def split: option.split)
qed

lemma naive_new_order_refine:
  assumes "nb_inv nb" and "0 < cmd_size cmd"
  shows "\<exists>nb' cmd'. naive_new_order node nb cmd = Inr (nb', cmd') \<and> nb_inv nb' \<and>
    nb_symbolSpec nb' = nb_symbolSpec nb \<and> flat_new_order node (nb_abs nb) cmd = (nb_abs nb', cmd')"
  using assms gtc_refine[OF assms] ioc_refine[OF assms(1)] fok_budget_refine[OF assms(1)]
  by (cases "cmd_orderType cmd") (simp_all add: naive_new_order_def flat_new_order_def)

section \<open>Cancel and reduce\<close>

lemma owned_order_cases:
  assumes inv: "nb_inv nb"
  obtains (None) "owned_order nb cmd = Inr None"
      "case fb_find (cmd_orderId cmd) (nb_abs nb) of None \<Rightarrow> True | Some ord \<Rightarrow> ord_uid ord \<noteq> cmd_uid cmd"
    | (Some) a ord where "owned_order nb cmd = Inr (Some (a, ord))"
      "fb_find (cmd_orderId cmd) (nb_abs nb) = Some ord" "ord_uid ord = cmd_uid cmd"
      "ord_orderId ord = cmd_orderId cmd" "hp_cells (nb_heap nb) a = Some ord"
      "a \<in> set (addrs (nb_side (ord_action ord) nb))" "resting (ord_action ord) ord"
proof (cases "um_find (nb_idMap nb) (cmd_orderId cmd)")
  case None
  then show thesis using that(1) nb_find[OF inv] by (simp add: owned_order_def)
next
  case (Some a)
  let ?ord = "ord_at (nb_heap nb) a"
  have a: "a \<in> dom (hp_cells (nb_heap nb))" "ord_orderId ?ord = cmd_orderId cmd"
    using Some inv by (auto simp: nb_inv_def ids_ok_def)
  then have A: "hp_cells (nb_heap nb) a = Some ?ord" by (auto simp: ord_at_def)
  have F: "fb_find (cmd_orderId cmd) (nb_abs nb) = Some ?ord" using Some nb_find[OF inv] by simp
  have "a \<in> set (addrs (nb_side ASK nb)) \<or> a \<in> set (addrs (nb_side BID nb))"
    using a(1) inv by (simp add: nb_inv_def nb_core_def nb_live_def)
  then obtain s where s: "a \<in> set (addrs (nb_side s nb))" by blast
  moreover have "resting s ?ord"
    using s inv buckets_inv_orders[of s "nb_heap nb" "nb_side s nb" ?ord]
    by (auto simp: nb_inv_def nb_core_def side_orders_addrs)
  ultimately show thesis using that Some A F a(2) by (auto simp: owned_order_def resting_def)
qed

lemma cut_order_refine:
  assumes inv: "nb_inv nb" and ord: "hp_cells (nb_heap nb) a = Some ord"
    and a: "a \<in> set (addrs (nb_side (ord_action ord) nb))"
    and i: "ord_orderId ord = i" and u: "ord_uid ord = uid"
  shows "\<exists>nb1. remove_from_bucket (ord_action ord) (ord_price ord) i uid
        (nb\<lparr>nb_idMap := um_erase i (nb_idMap nb)\<rparr>) = Inr nb1 \<and> hp_cells (nb_heap nb1) a = Some ord \<and>
     nb_inv (nb1\<lparr>nb_heap := heap_delete a (nb_heap nb1)\<rparr>) \<and>
     nb_abs (nb1\<lparr>nb_heap := heap_delete a (nb_heap nb1)\<rparr>) = fb_remove i (nb_abs nb) \<and>
     nb_symbolSpec nb1 = nb_symbolSpec nb"
proof -
  let ?nb0 = "nb\<lparr>nb_idMap := um_erase i (nb_idMap nb)\<rparr>"
  have core: "nb_core {} ?nb0" and ids: "ids_ok nb" using inv by (simp_all add: nb_inv_def)
  obtain nb1 where R: "remove_from_bucket (ord_action ord) (ord_price ord) i uid ?nb0 = Inr nb1"
    "nb_core {a} nb1" "nb_abs nb1 = fb_remove i (nb_abs nb)" "nb_heap nb1 = nb_heap nb"
    "nb_idMap nb1 = um_erase i (nb_idMap nb)" "nb_symbolSpec nb1 = nb_symbolSpec nb"
    using remove_from_bucket_refine[OF core, of a "ord_action ord" ord] a ord_at_Some[OF ord] ids_inj[OF ids] i u
    by auto
  have "ids_ok (nb1\<lparr>nb_heap := heap_delete a (nb_heap nb1)\<rparr>)"
    by (rule ids_ok_erase[OF ids ord]) (simp_all add: R i)
  with delete_refine[OF R(2), of a] R ord show ?thesis
    by (intro exI[of _ nb1]) (simp add: nb_inv_def)
qed

lemma naive_cancel_refine:
  assumes inv: "nb_inv nb"
  shows "\<exists>code nb' cmd'. naive_cancel node nb cmd = Inr (code, nb', cmd') \<and> nb_inv nb' \<and>
    nb_symbolSpec nb' = nb_symbolSpec nb \<and> flat_cancel node (nb_abs nb) cmd = (code, nb_abs nb', cmd')"
  using inv
proof (cases rule: owned_order_cases[of _ cmd])
  case None
  with inv show ?thesis
    by (auto simp: naive_cancel_def flat_cancel_def split: option.splits)
next
  case (Some a ord)
  with cut_order_refine[OF inv Some(5,6,4,3)] show ?thesis
    by (auto simp: naive_cancel_def flat_cancel_def remaining_def)
qed

lemma naive_reduce_refine:
  assumes inv: "nb_inv nb"
  shows "\<exists>code nb' cmd'. naive_reduce node nb cmd = Inr (code, nb', cmd') \<and> nb_inv nb' \<and>
    nb_symbolSpec nb' = nb_symbolSpec nb \<and> flat_reduce node (nb_abs nb) cmd = (code, nb_abs nb', cmd')"
proof (cases "cmd_size cmd \<le> 0")
  case True
  with inv show ?thesis by (simp add: naive_reduce_def flat_reduce_def)
next
  case pos: False
  from inv show ?thesis
  proof (cases rule: owned_order_cases[of _ cmd])
    case None
    with inv pos show ?thesis
      by (auto simp: naive_reduce_def flat_reduce_def split: option.splits)
  next
    case (Some a ord)
    let ?s = "ord_action ord" and ?v = "min (remaining ord) (cmd_size cmd)"
    have core: "nb_core {} nb" and ids: "ids_ok nb" using inv by (simp_all add: nb_inv_def)
    then have I: "buckets_inv ?s (nb_heap nb) (nb_side ?s nb)" by (simp add: nb_core_def)
    obtain b where b: "um_find (nb_side ?s nb) (ord_price ord) = Some b"
      using find_order_bucket[OF I Some(6)] ord_at_Some[OF Some(5)] by auto
    show ?thesis
    proof (cases "?v = remaining ord")
      case True
      with cut_order_refine[OF inv Some(5,6,4,3)] Some b pos show ?thesis
        by (auto simp: naive_reduce_def flat_reduce_def find_bucket_def remaining_def Let_def)
    next
      case False
      then have lt: "cmd_size cmd < remaining ord" by linarith
      then have v: "min (remaining ord) (cmd_size cmd) = cmd_size cmd" by simp
      let ?ord1 = "ord\<lparr>ord_size := ord_size ord - cmd_size cmd\<rparr>"
      let ?nb' = "(buckets_put ?s (ord_price ord) (bucket_reduce_size (cmd_size cmd) b) nb)
                    \<lparr>nb_heap := heap_write a ?ord1 (nb_heap nb)\<rparr>"
      have R: "nb_core {} ?nb' \<and> nb_abs ?nb' = fb_resize (cmd_orderId cmd) (cmd_size cmd) (nb_abs nb)"
        using resize_refine[OF core Some(6) ord_at_Some[OF Some(5)] lt refl ids_inj[OF ids] b refl] Some(4)
        by simp
      moreover have "ids_ok ?nb'"
        by (rule ids_ok_write[OF ids, of a ?ord1])
          (use Some(5) ord_at_Some[OF Some(5)] in \<open>auto simp: buckets_put_def\<close>)
      moreover have "naive_reduce node nb cmd = Inr (SUCCESS, ?nb',
          cmd\<lparr>cmd_matcherEvent := [send_reduce_event_order node ?ord1 (cmd_size cmd) False], cmd_action := ?s\<rparr>)"
        using pos Some(1) b lt v by (simp add: naive_reduce_def find_bucket_def remaining_def Let_def)
      moreover have "flat_reduce node (nb_abs nb) cmd = (SUCCESS, nb_abs ?nb',
          cmd\<lparr>cmd_matcherEvent := [send_reduce_event_order node ?ord1 (cmd_size cmd) False], cmd_action := ?s\<rparr>)"
        using pos Some(2,3) lt v R by (simp add: flat_reduce_def Let_def send_reduce_event_same)
      ultimately show ?thesis by (simp add: nb_inv_def buckets_put_def)
    qed
  qed
qed

section \<open>Move\<close>

lemma naive_move_refine:
  assumes inv: "nb_inv nb"
  shows "\<exists>code nb' cmd'. naive_move node nb cmd = Inr (code, nb', cmd') \<and> nb_inv nb' \<and>
    nb_symbolSpec nb' = nb_symbolSpec nb \<and>
    flat_move (sp_type (nb_symbolSpec nb)) (nb_abs nb) cmd = (code, nb_abs nb', cmd')"
  using inv
proof (cases rule: owned_order_cases[of _ cmd])
  case None
  with inv show ?thesis
    by (auto simp: naive_move_def flat_move_def split: option.splits)
next
  case (Some a ord)
  let ?s = "ord_action ord" and ?p = "cmd_price cmd" and ?i = "cmd_orderId cmd"
  let ?cmd1 = "cmd\<lparr>cmd_action := ?s\<rparr>" and ?ord1 = "ord\<lparr>ord_price := ?p\<rparr>"
  let ?limit = "sp_type (nb_symbolSpec nb) = CURRENCY_EXCHANGE_PAIR \<and> ?s = BID \<and> ?p > ord_reserveBidPrice ord"
  show ?thesis
  proof (cases ?limit)
    case True
    with Some inv show ?thesis by (simp add: naive_move_def flat_move_def Let_def)
  next
    case False
    have core: "nb_core {} nb" and ids: "ids_ok nb" using inv by (simp_all add: nb_inv_def)
    obtain nb1 where R: "remove_from_bucket ?s (ord_price ord) ?i (cmd_uid cmd) nb = Inr nb1"
      "nb_core {a} nb1" "nb_abs nb1 = fb_remove ?i (nb_abs nb)" "nb_heap nb1 = nb_heap nb"
      "nb_idMap nb1 = nb_idMap nb" "nb_symbolSpec nb1 = nb_symbolSpec nb"
      using remove_from_bucket_refine[OF core Some(6) ord_at_Some[OF Some(5)] ids_inj[OF ids]] Some(3,4)
      by auto
    let ?nb2 = "nb1\<lparr>nb_heap := heap_write a ?ord1 (nb_heap nb1)\<rparr>"
    have W: "nb_core {a} ?nb2" "nb_abs ?nb2 = fb_remove ?i (nb_abs nb)"
      using write_refine[OF R(2), of a ?ord1] R(3) by auto
    have ids2: "ids_ok ?nb2"
      by (rule ids_ok_write[OF ids, of a ?ord1])
        (use Some(5) ord_at_Some[OF Some(5)] R in auto)
    obtain nb3 cmd2 filled where M:
      "try_match_instantly (ord_iorder ?ord1) (get_matching_range ?s ?p ?nb2) (ord_filled ord) ?cmd1 ?nb2
         = Inr (nb3, cmd2, filled)"
      "flat_match (ord_iorder ?ord1) (crosses ?s ?p) (fb_remove ?i (nb_abs nb)) ?cmd1 = (nb_abs nb3, cmd2, filled)"
      "nb_core {a} nb3" "ids_ok nb3" "nb_symbolSpec nb3 = nb_symbolSpec nb"
      "hp_cells (nb_heap nb3) a = Some ?ord1"
      using try_match_refine[OF W(1) ids2, of _ "ord_iorder ?ord1" "crosses ?s ?p" ?cmd1] W(2) R(6)
      by (auto simp: matching_range_crosses)
    have step: "naive_move node nb cmd =
        (if filled = ord_size ord
         then Inr (SUCCESS, nb3\<lparr>nb_idMap := um_erase ?i (nb_idMap nb3),
                nb_heap := heap_delete a (nb_heap nb3)\<rparr>, cmd2)
         else bindE (put_in_bucket ?s ?p a
                (nb3\<lparr>nb_heap := heap_write a (?ord1\<lparr>ord_filled := filled\<rparr>) (nb_heap nb3)\<rparr>))
                (\<lambda>nb4. Inr (SUCCESS, nb4, cmd2)))"
      using Some(1,5) False R(1,4) M(1) by (auto simp: naive_move_def Let_def)
    have flat: "flat_move (sp_type (nb_symbolSpec nb)) (nb_abs nb) cmd =
        (SUCCESS, if filled = ord_size ord then nb_abs nb3
          else fb_insert (?ord1\<lparr>ord_filled := filled\<rparr>) (nb_abs nb3), cmd2)"
      using Some(2,3) False M(2) by (auto simp: flat_move_def Let_def)
    show ?thesis
    proof (cases "filled = ord_size ord")
      case True
      let ?nb4 = "nb3\<lparr>nb_idMap := um_erase ?i (nb_idMap nb3), nb_heap := heap_delete a (nb_heap nb3)\<rparr>"
      have "nb_core {} ?nb4 \<and> nb_abs ?nb4 = nb_abs nb3"
        using delete_refine[of "{a}" "nb3\<lparr>nb_idMap := um_erase ?i (nb_idMap nb3)\<rparr>" a] M(3) by simp
      moreover have "ids_ok ?nb4"
        by (rule ids_ok_erase[OF M(4,6)]) (simp_all add: Some(4))
      ultimately show ?thesis using True step flat M(5) by (simp add: nb_inv_def)
    next
      case part: False
      let ?ord2 = "?ord1\<lparr>ord_filled := filled\<rparr>"
      let ?nb4 = "nb3\<lparr>nb_heap := heap_write a ?ord2 (nb_heap nb3)\<rparr>"
      have ok: "flat_ok (fb_remove ?i (nb_abs nb))" using nb_flat_ok[OF core ids] by (rule flat_ok_remove)
      have "ord_filled ord \<le> filled \<and> filled \<le> ord_size ord"
        using flat_match_resting[OF ok M(2)] Some(7) by (simp add: resting_def)
      then have rest: "resting ?s ?ord2" using part Some(7) by (auto simp: resting_def)
      have W4: "nb_core {a} ?nb4" "nb_abs ?nb4 = nb_abs nb3"
        using write_refine[OF M(3), of a ?ord2] by auto
      have ids4: "ids_ok ?nb4"
        by (rule ids_ok_write[OF M(4), of a ?ord2]) (use M(6) ord_at_Some[OF M(6)] in auto)
      have at: "ord_at (nb_heap ?nb4) a = ?ord2" by simp
      obtain nb5 where P: "put_in_bucket ?s (ord_price ?ord2) a ?nb4 = Inr nb5" "nb_core {} nb5"
        "nb_abs nb5 = fb_insert ?ord2 (nb_abs ?nb4)" "nb_heap nb5 = nb_heap ?nb4"
        "nb_idMap nb5 = nb_idMap ?nb4" "nb_symbolSpec nb5 = nb_symbolSpec ?nb4"
        using put_in_bucket_refine[OF W4(1) _ at rest ids_inj[OF ids4]] by auto
      have "nb_inv nb5" using P(2) ids_ok_same[OF ids4 P(5,4)] by (simp add: nb_inv_def)
      with part step flat P W4(2) M(5) show ?thesis by simp
    qed
  qed
qed

section \<open>Market data and queries\<close>

lemma price_levels_buckets:
  assumes "buckets_inv s h bs"
  shows "price_levels (side_orders h bs) = map (\<lambda>(p, b). (bk_price b, bk_totalVolume b, get_num_orders b)) bs"
  using assms
proof (induction bs)
  case Nil
  then show ?case by simp
next
  case (Cons e bs)
  obtain p b where e: "e = (p, b)" by (cases e)
  have I: "bucket_inv s h p b" "bk_orderList b \<noteq> []" "buckets_inv s h bs" "\<forall>q \<in> fst ` set bs. before s p q"
    using Cons.prems unfolding e buckets_inv_Cons by auto
  have "ord_price (hd (side_orders h bs)) \<noteq> p" if "side_orders h bs \<noteq> []"
    using buckets_inv_orders[OF I(3), of "hd (side_orders h bs)"] that I(4) by force
  moreover have "bucket_orders h b \<noteq> []" using I(2) by (simp add: bucket_orders_def)
  ultimately have "price_levels (side_orders h (e # bs)) =
      (p, volume (bucket_orders h b), int (length (bucket_orders h b))) # price_levels (side_orders h bs)"
    using price_levels_bucket[of "bucket_orders h b" p "side_orders h bs"] bucket_inv_resting[OF I(1)]
    by (auto simp: e)
  with Cons.IH[OF I(3)] I(1) bucket_inv_volume[OF I(1)] show ?case
    by (simp add: e bucket_inv_def get_num_orders_def bucket_orders_def)
qed

lemma fill_levels_spec:
  assumes "i < sz" and "sz - i \<le> length bs" and "length ps = sz" "length vs = sz" "length ns = sz"
  shows "fill_levels i sz bs (ps, vs, ns) =
    (sz, take i ps @ map (\<lambda>(_, b). bk_price b) (take (sz - i) bs),
     take i vs @ map (\<lambda>(_, b). bk_totalVolume b) (take (sz - i) bs),
     take i ns @ map (\<lambda>(_, b). get_num_orders b) (take (sz - i) bs))"
  using assms
proof (induction bs arbitrary: i ps vs ns)
  case Nil
  then show ?case by simp
next
  case (Cons e bs)
  obtain p b where e: "e = (p, b)" by (cases e)
  have t: "take (Suc i) (xs[i := x]) = take i xs @ [x]" if "length xs = sz" for x and xs :: "int list"
    using that Cons.prems(1) by (simp add: take_Suc_conv_app_nth)
  have d: "sz - i = Suc (sz - Suc i)" using Cons.prems(1) by simp
  show ?case
  proof (cases "Suc i = sz")
    case True
    have "xs[i := x] = take i xs @ [x]" if "length xs = sz" for x and xs :: "int list"
      using t[OF that, of x] True that by simp
    moreover have "sz - i = 1" using True by simp
    ultimately show ?thesis using True Cons.prems e by simp
  next
    case False
    have "Suc i < sz" "sz - Suc i \<le> length bs" using False Cons.prems by auto
    from Cons.IH[OF this, of "ps[i := bk_price b]" "vs[i := bk_totalVolume b]" "ns[i := get_num_orders b]"]
      Cons.prems(3-5) False t d e show ?thesis by (simp add: Let_def)
  qed
qed

lemma naive_l2_refine:
  assumes inv: "nb_inv nb" and sz: "0 \<le> sz"
  shows "naive_l2_snapshot sz nb = flat_l2 sz (nb_abs nb)"
proof -
  let ?n = "nat (min sz (int (length (nb_askBuckets nb))))"
    and ?m = "nat (min sz (int (length (nb_bidBuckets nb))))"
  have "buckets_inv ASK (nb_heap nb) (nb_askBuckets nb)" "buckets_inv BID (nb_heap nb) (nb_bidBuckets nb)"
    using inv unfolding nb_inv_def nb_core_def by (metis nb_side.simps)+
  from this[THEN price_levels_buckets]
  have L: "price_levels (fb_asks (nb_abs nb)) =
      map (\<lambda>(p, b). (bk_price b, bk_totalVolume b, get_num_orders b)) (nb_askBuckets nb)"
    "price_levels (fb_bids (nb_abs nb)) =
      map (\<lambda>(p, b). (bk_price b, bk_totalVolume b, get_num_orders b)) (nb_bidBuckets nb)"
    by (simp_all add: nb_abs_def)
  have nm: "take (nat sz) (nb_askBuckets nb) = take ?n (nb_askBuckets nb)"
    "take (nat sz) (nb_bidBuckets nb) = take ?m (nb_bidBuckets nb)"
    "length (take ?n (nb_askBuckets nb)) = ?n" "length (take ?m (nb_bidBuckets nb)) = ?m"
    by (auto simp: min_def nat_le_iff)
  have A: "naive_fill_asks n nb (new_l2_market_data n m) = (new_l2_market_data n m)\<lparr>
      l2_askPrices := map (\<lambda>(_, b). bk_price b) (take n (nb_askBuckets nb)),
      l2_askVolumes := map (\<lambda>(_, b). bk_totalVolume b) (take n (nb_askBuckets nb)),
      l2_askOrders := map (\<lambda>(_, b). get_num_orders b) (take n (nb_askBuckets nb))\<rparr>"
    if "n \<le> length (nb_askBuckets nb)" for n m
    using fill_levels_spec[of 0 n "nb_askBuckets nb"] that
    by (cases "n = 0") (simp_all add: naive_fill_asks_def new_l2_market_data_def)
  have B: "naive_fill_bids m nb d = d\<lparr>
      l2_bidPrices := map (\<lambda>(_, b). bk_price b) (take m (nb_bidBuckets nb)),
      l2_bidVolumes := map (\<lambda>(_, b). bk_totalVolume b) (take m (nb_bidBuckets nb)),
      l2_bidOrders := map (\<lambda>(_, b). get_num_orders b) (take m (nb_bidBuckets nb)),
      l2_bidSize := int m\<rparr>"
    if "l2_bidPrices d = replicate m 0" "l2_bidVolumes d = replicate m 0" "l2_bidOrders d = replicate m 0"
      "m \<le> length (nb_bidBuckets nb)" for d m
    using fill_levels_spec[of 0 m "nb_bidBuckets nb"] that
    by (cases "m = 0") (simp_all add: naive_fill_bids_def)
  have le: "?n \<le> length (nb_askBuckets nb)" "?m \<le> length (nb_bidBuckets nb)" by auto
  show ?thesis
    unfolding naive_l2_snapshot_def Let_def total_ask_buckets_def total_bid_buckets_def A[OF le(1)]
    using nm le
    by (subst B) (simp_all add: new_l2_market_data_def flat_l2_def L take_map comp_def case_prod_unfold Let_def)
qed

text \<open>The queries answer for the orders in the book; the self check never fails.\<close>

lemma validate_buckets_ok: "buckets_inv s h bs \<Longrightarrow> validate_buckets h bs = Inr ()"
proof (induction bs)
  case Nil
  then show ?case by simp
next
  case (Cons e bs)
  obtain p b where e: "e = (p, b)" by (cases e)
  then have "bucket_inv s h p b" "buckets_inv s h bs" using Cons.prems by (auto simp: buckets_inv_Cons)
  with Cons.IH e show ?case
    by (simp add: bucket_validate_def bucket_inv_def volume_def comp_def remaining_def Let_def)
qed

lemma naive_queries_refine:
  assumes "nb_inv nb"
  shows "naive_validate nb = Inr ()"
    and "naive_process_orders s nb = fb_side s (nb_abs nb)"
    and "naive_orders_num s nb = int (length (fb_side s (nb_abs nb)))"
    and "naive_total_orders_volume s nb = volume (fb_side s (nb_abs nb))"
    and "naive_get_order_by_id i nb = fb_find i (nb_abs nb)"
    and "naive_find_user_orders uid nb = filter (\<lambda>x. ord_uid x = uid) (fb_orders (nb_abs nb))"
proof -
  have I: "buckets_inv s (nb_heap nb) (nb_side s nb)" for s using assms by (simp add: nb_inv_def nb_core_def)
  show "naive_validate nb = Inr ()"
    using validate_buckets_ok[OF I[of ASK]] validate_buckets_ok[OF I[of BID]]
    by (simp add: naive_validate_def)
  have P: "naive_process_orders s nb = fb_side s (nb_abs nb)" for s
    by (simp add: naive_process_orders_def side_orders_def bucket_orders_def bucket_all_orders_def)
  then show "naive_process_orders s nb = fb_side s (nb_abs nb)" .
  have "sum_list (map (\<lambda>(_, b). get_num_orders b) bs) = int (length (side_orders h bs))" for h bs
    by (induction bs) (auto simp: get_num_orders_def bucket_orders_def)
  then show "naive_orders_num s nb = int (length (fb_side s (nb_abs nb)))"
    by (simp add: naive_orders_num_def)
  have "sum_list (map (\<lambda>(_, b). bk_totalVolume b) bs) = volume (side_orders h bs)"
    if "buckets_inv s h bs" for h bs
    using that by (induction bs) (auto simp: buckets_inv_Cons dest: bucket_inv_volume)
  with I show "naive_total_orders_volume s nb = volume (fb_side s (nb_abs nb))"
    by (simp add: naive_total_orders_volume_def)
  show "naive_get_order_by_id i nb = fb_find i (nb_abs nb)"
    by (simp add: naive_get_order_by_id_def nb_find[OF assms])
  show "naive_find_user_orders uid nb = filter (\<lambda>x. ord_uid x = uid) (fb_orders (nb_abs nb))"
    using P[of ASK] P[of BID] by (simp add: naive_find_user_orders_def fb_orders_def nb_abs_def)
qed

section \<open>The naive book is an order book\<close>

definition naive_ops :: "naive_book order_book_ops" where
  "naive_ops = \<lparr>op_newOrder = naive_new_order, op_cancelOrder = naive_cancel,
     op_reduceOrder = naive_reduce, op_moveOrder = naive_move, op_l2Snapshot = naive_l2_snapshot\<rparr>"

interpretation naive: order_book_impl nb_inv nb_abs nb_symbolSpec naive_ops
proof unfold_locales
  fix nb :: naive_book and cmd :: order_command and node :: trade_event and sz :: int
  assume inv: "nb_inv nb"
  show "flat_ok (nb_abs nb)" using inv nb_flat_ok by (auto simp: nb_inv_def)
  show "\<exists>nb' cmd'. op_newOrder naive_ops node nb cmd = Inr (nb', cmd') \<and> nb_inv nb' \<and>
      nb_symbolSpec nb' = nb_symbolSpec nb \<and> flat_new_order node (nb_abs nb) cmd = (nb_abs nb', cmd')"
    if "0 < cmd_size cmd"
    using naive_new_order_refine[OF inv that] by (simp add: naive_ops_def)
  show "\<exists>code nb' cmd'. op_cancelOrder naive_ops node nb cmd = Inr (code, nb', cmd') \<and> nb_inv nb' \<and>
      nb_symbolSpec nb' = nb_symbolSpec nb \<and> flat_cancel node (nb_abs nb) cmd = (code, nb_abs nb', cmd')"
    using naive_cancel_refine[OF inv] by (simp add: naive_ops_def)
  show "\<exists>code nb' cmd'. op_reduceOrder naive_ops node nb cmd = Inr (code, nb', cmd') \<and> nb_inv nb' \<and>
      nb_symbolSpec nb' = nb_symbolSpec nb \<and> flat_reduce node (nb_abs nb) cmd = (code, nb_abs nb', cmd')"
    using naive_reduce_refine[OF inv] by (simp add: naive_ops_def)
  show "\<exists>code nb' cmd'. op_moveOrder naive_ops node nb cmd = Inr (code, nb', cmd') \<and> nb_inv nb' \<and>
      nb_symbolSpec nb' = nb_symbolSpec nb \<and>
      same_outcome (flat_move (sp_type (nb_symbolSpec nb)) (nb_abs nb) cmd) (code, nb_abs nb', cmd')"
    using naive_move_refine[OF inv, of node cmd] by (auto simp: naive_ops_def)
  show "op_l2Snapshot naive_ops sz nb = flat_l2 sz (nb_abs nb)" if "0 \<le> sz"
    using naive_l2_refine[OF inv that] by (simp add: naive_ops_def)
qed

lemma new_naive_book_inv: "nb_inv (new_naive_book spec) \<and> nb_abs (new_naive_book spec) = \<lparr>fb_asks = [], fb_bids = []\<rparr>"
proof -
  have "buckets_inv s h []" for s h by (simp add: buckets_inv_def)
  moreover have "nb_side s (new_naive_book spec) = []" for s
    by (cases s) (simp_all add: new_naive_book_def)
  ultimately show ?thesis
    by (simp add: nb_inv_def nb_core_def ids_ok_def nb_abs_def nb_live_def)
      (simp add: new_naive_book_def empty_heap_def)
qed

end
