(* ===== verification/Samples.thy ===== *)
theory Samples
  imports Types
begin

text \<open>Concrete symbols and commands on which the witnesses evaluate the model.\<close>

definition sample_spec :: symbol_spec where
  "sample_spec = \<lparr>sp_symbolId = 7, sp_type = CURRENCY_EXCHANGE_PAIR, sp_baseCurrency = 11,
     sp_quoteCurrency = 15, sp_baseScaleK = 100, sp_quoteScaleK = 10, sp_takerFee = 3,
     sp_makerFee = 2, sp_marginBuy = 0, sp_marginSell = 0\<rparr>"

definition sample_future :: symbol_spec where
  "sample_future = \<lparr>sp_symbolId = 8, sp_type = FUTURES_CONTRACT, sp_baseCurrency = 11,
     sp_quoteCurrency = 15, sp_baseScaleK = 1, sp_quoteScaleK = 1, sp_takerFee = 3,
     sp_makerFee = 2, sp_marginBuy = 50, sp_marginSell = 60\<rparr>"

definition sample_order ::
  "order_type \<Rightarrow> int \<Rightarrow> int \<Rightarrow> order_action \<Rightarrow> int \<Rightarrow> int \<Rightarrow> order_command" where
  "sample_order ty i uid action price sz =
     default_command\<lparr>cmd_command := PLACE_ORDER, cmd_orderId := i, cmd_symbol := 7, cmd_uid := uid,
       cmd_price := price, cmd_reserveBidPrice := price, cmd_size := sz, cmd_action := action,
       cmd_orderType := ty\<rparr>"

definition sample_user :: "int \<Rightarrow> order_command" where
  "sample_user uid = default_command\<lparr>cmd_command := ADD_USER, cmd_uid := uid\<rparr>"

definition sample_deposit :: "int \<Rightarrow> int \<Rightarrow> int \<Rightarrow> int \<Rightarrow> order_command" where
  "sample_deposit uid currency amount txid =
     default_command\<lparr>cmd_command := BALANCE_ADJUSTMENT, cmd_uid := uid, cmd_symbol := currency,
       cmd_price := amount, cmd_orderId := txid\<rparr>"

text \<open>A single frame, the first and the last of its transfer, announcing eight bytes.\<close>

definition sample_frame :: "command_type \<Rightarrow> order_command" where
  "sample_frame c = default_command\<lparr>cmd_command := c, cmd_symbol := -1, cmd_orderId := 34359738368\<rparr>"

lemmas sample_defs = sample_spec_def sample_future_def sample_order_def sample_user_def
  sample_deposit_def sample_frame_def

end
