(* ===== verification/Naive_Correct.thy ===== *)
theory Naive_Correct
  imports Naive_Refine Samples
begin

text \<open>
  What the naive order book promises, from the contract of an order book that it satisfies.
\<close>

text \<open>A book with one ask at rest, as the code builds it.\<close>

definition sample_book :: naive_book where
  "sample_book =
     (case naive_new_order default_event (new_naive_book sample_spec) (sample_order GTC 100 1 ASK 20 4) of
        Inr (nb, _) \<Rightarrow> nb | Inl _ \<Rightarrow> new_naive_book sample_spec)"

definition sample_ask :: order where
  "sample_ask = \<lparr>ord_orderId = 100, ord_price = 20, ord_size = 4, ord_filled = 0,
     ord_reserveBidPrice = 20, ord_action = ASK, ord_uid = 1, ord_timestamp = 0\<rparr>"

lemma sample_book_ok:
  "nb_inv sample_book \<and> nb_symbolSpec sample_book = sample_spec \<and>
   nb_abs sample_book = \<lparr>fb_asks = [sample_ask], fb_bids = []\<rparr>"
proof -
  let ?cmd = "sample_order GTC 100 1 ASK 20 4"
  have s: "0 < cmd_size ?cmd" by (simp add: sample_defs)
  obtain nb cmd' where n: "naive_new_order default_event (new_naive_book sample_spec) ?cmd = Inr (nb, cmd')" "nb_inv nb"
    "nb_symbolSpec nb = nb_symbolSpec (new_naive_book sample_spec)"
    "flat_new_order default_event (nb_abs (new_naive_book sample_spec)) ?cmd = (nb_abs nb, cmd')"
    using naive_new_order_refine[OF _ s, of "new_naive_book sample_spec" default_event] new_naive_book_inv by blast
  have "flat_new_order default_event \<lparr>fb_asks = [], fb_bids = []\<rparr> ?cmd =
      (\<lparr>fb_asks = [sample_ask], fb_bids = []\<rparr>, ?cmd)"
    by (simp add: flat_new_order_def flat_gtc_def flat_match_def fb_insert_def cmd_order_def sample_defs
        default_command_def cmd_iorder_def set_events_def fb_find_def fb_orders_def sample_ask_def)
  with n new_naive_book_inv show ?thesis
    by (simp add: sample_book_def) (simp add: new_naive_book_def)
qed

lemma sample_ask_simps [simp]:
  "remaining sample_ask = 4" "ord_price sample_ask = 20" "ord_orderId sample_ask = 100" "ord_uid sample_ask = 1"
  "ord_action sample_ask = ASK" "ord_reserveBidPrice sample_ask = 20"
  by (simp_all add: sample_ask_def remaining_def)

lemma sample_book_find: "fb_find 100 (nb_abs sample_book) = Some sample_ask"
  using sample_book_ok by (simp add: fb_find_def fb_orders_def)

lemma naive_op_simps [simp]:
  "op_newOrder naive_ops = naive_new_order" "op_cancelOrder naive_ops = naive_cancel"
  "op_reduceOrder naive_ops = naive_reduce" "op_moveOrder naive_ops = naive_move"
  "op_l2Snapshot naive_ops = naive_l2_snapshot"
  by (simp_all add: naive_ops_def)

section \<open>Refinement\<close>

text \<open>C2:
  Every command that \<open>IOrderBook::ProcessCommand\<close> runs on a valid naive book, provided an order it
  is to place has a positive size, returns without an
  exception, keeps the book valid and does to the list of orders by price and time, to the result
  code and to the command what the flat book does; only the action that a move refused by the
  risk limit leaves in the command is open. The naive book's buckets, index and heap are an
  implementation detail. Positive sizes are an assumption about the clients: no stage before the
  book enforces them.
\<close>

theorem naive_process_command_refines_flat:
  assumes "nb_inv nb" and "placeable cmd"
  shows "\<exists>code nb' cmd'. process_command naive_ops node nb cmd = Inr (code, nb', cmd') \<and> nb_inv nb' \<and>
    nb_symbolSpec nb' = nb_symbolSpec nb \<and>
    same_outcome (flat_process_command (sp_type (nb_symbolSpec nb)) node (nb_abs nb) cmd) (code, nb_abs nb', cmd')"
  by (rule naive.process_command_refines[OF assms])

theorem naive_process_command_refines_flat_witness:
  "\<exists>code nb' cmd'. process_command naive_ops default_event sample_book (sample_order IOC 101 2 BID 21 3) =
      Inr (code, nb', cmd') \<and> nb_inv nb' \<and> nb_symbolSpec nb' = nb_symbolSpec sample_book \<and>
    same_outcome (flat_process_command (sp_type (nb_symbolSpec sample_book)) default_event (nb_abs sample_book)
      (sample_order IOC 101 2 BID 21 3)) (code, nb_abs nb', cmd')"
  by (rule naive_process_command_refines_flat) (use sample_book_ok in \<open>simp_all add: placeable_def sample_defs\<close>)

text \<open>
  No command leaves a naive book crossed: if no bid reaches an ask before, none does after, and
  the command returns.
\<close>

lemma naive_book_never_crossed:
  assumes "nb_inv nb" and "placeable cmd" and "uncrossed (nb_abs nb)"
  shows "\<exists>code nb' cmd'. process_command naive_ops node nb cmd = Inr (code, nb', cmd') \<and> nb_inv nb' \<and>
    uncrossed (nb_abs nb')"
  using naive.process_command_refines[OF assms(1,2), of node] naive.process_command_uncrossed[OF assms] by blast

section \<open>Matching\<close>

text \<open>C12:
  Price-time priority: the trades of a \<open>GTC\<close> or \<open>IOC\<close> order are with a prefix of the opposite
  side in price-time order, at the makers' prices, none of them past the taker's limit, and they
  fill exactly what the side offers within that limit, up to the order's size. The book is valid,
  the size is positive and the command comes without events.
\<close>

theorem naive_price_time_priority:
  assumes "nb_inv nb" and "0 < cmd_size cmd" and "cmd_matcherEvent cmd = []"
    and "cmd_orderType cmd = GTC \<or> cmd_orderType cmd = IOC"
  shows "\<exists>nb' cmd'. naive_new_order node nb cmd = Inr (nb', cmd') \<and>
    priority_trades (crosses (cmd_action cmd) (cmd_price cmd)) (cmd_size cmd)
      (fb_side (opposite (cmd_action cmd)) (nb_abs nb)) (trades cmd')"
  using naive.new_order_priority[OF assms, of node] by simp

theorem naive_price_time_priority_witness:
  "\<exists>nb' cmd'. naive_new_order default_event sample_book (sample_order IOC 101 2 BID 21 3) = Inr (nb', cmd') \<and>
    priority_trades (crosses BID 21) 3 [sample_ask] (trades cmd')"
proof -
  let ?cmd = "sample_order IOC 101 2 BID 21 3"
  have "cmd_action ?cmd = BID" "cmd_price ?cmd = 21" "cmd_size ?cmd = 3" "cmd_matcherEvent ?cmd = []"
    "cmd_orderType ?cmd = IOC"
    by (simp_all add: sample_defs default_command_def)
  with naive_price_time_priority[of sample_book ?cmd default_event] sample_book_ok show ?thesis by simp
qed

text \<open>
  A \<open>FOK_BUDGET\<close> order is filled completely within its budget or not at all: either the book stays
  as it was and one event rejects the whole size, or the trades fill the whole size and their
  total price is within the limit.
\<close>

lemma naive_fok_all_or_nothing:
  assumes "nb_inv nb" and "0 < cmd_size cmd" and "cmd_matcherEvent cmd = []" and "cmd_orderType cmd = FOK_BUDGET"
  shows "\<exists>nb' cmd'. naive_new_order node nb cmd = Inr (nb', cmd') \<and>
    ((nb_abs nb' = nb_abs nb \<and> cmd_matcherEvent cmd' = [reject_event node cmd (cmd_size cmd)]) \<or>
     (cmd_matcherEvent cmd' = trades cmd' \<and> events_size (trades cmd') = cmd_size cmd \<and>
      is_budget_limit_satisfied (cmd_action cmd)
        (sum_list (map (\<lambda>e. ev_size e * ev_price e) (trades cmd'))) (cmd_price cmd)))"
  using naive.fok_all_or_nothing[OF assms, of node] by simp

section \<open>Cancel, reduce and move\<close>

text \<open>
  Cancelling an order of one's own removes exactly that order and reports its whole unfilled
  rest, its price and its reserve price in one \<open>REDUCE\<close> event.
\<close>

lemma naive_cancel_exact:
  assumes "nb_inv nb" and "fb_find (cmd_orderId cmd) (nb_abs nb) = Some x" and "ord_uid x = cmd_uid cmd"
  shows "\<exists>nb' cmd' e. naive_cancel node nb cmd = Inr (SUCCESS, nb', cmd') \<and> nb_inv nb' \<and>
    fb_orders (nb_abs nb') = filter (\<lambda>y. ord_orderId y \<noteq> cmd_orderId cmd) (fb_orders (nb_abs nb)) \<and>
    cmd_matcherEvent cmd' = [e] \<and> ev_eventType e = REDUCE \<and> ev_size e = remaining x \<and>
    ev_price e = ord_price x \<and> ev_bidderHoldPrice e = ord_reserveBidPrice x \<and> cmd_action cmd' = ord_action x"
  using naive.cancel_exact[OF assms, of node] by simp

text \<open>
  Reducing an order of one's own by less than its rest keeps its place and takes exactly the
  requested size off it; the other orders stay as they are.
\<close>

lemma naive_reduce_partial:
  assumes "nb_inv nb" and "fb_find (cmd_orderId cmd) (nb_abs nb) = Some x" and "ord_uid x = cmd_uid cmd"
    and "0 < cmd_size cmd" and "cmd_size cmd < remaining x"
  shows "\<exists>nb' cmd' e. naive_reduce node nb cmd = Inr (SUCCESS, nb', cmd') \<and> nb_inv nb' \<and>
    fb_orders (nb_abs nb') = map (\<lambda>y. if ord_orderId y = cmd_orderId cmd
      then y\<lparr>ord_size := ord_size y - cmd_size cmd\<rparr> else y) (fb_orders (nb_abs nb)) \<and>
    cmd_matcherEvent cmd' = [e] \<and> ev_eventType e = REDUCE \<and> ev_size e = cmd_size cmd \<and>
    \<not> ev_activeOrderCompleted e"
  using naive.reduce_partial[OF assms, of node] by simp

text \<open>
  A resting bid of an exchange pair cannot be moved above the price its funds are reserved for:
  the move is refused, the book stays and no event is sent.
\<close>

lemma naive_move_risk_limit:
  assumes "nb_inv nb" and "fb_find (cmd_orderId cmd) (nb_abs nb) = Some x" and "ord_uid x = cmd_uid cmd"
    and "sp_type (nb_symbolSpec nb) = CURRENCY_EXCHANGE_PAIR" and "ord_action x = BID"
    and "ord_reserveBidPrice x < cmd_price cmd"
  shows "\<exists>nb' cmd'. naive_move node nb cmd = Inr (MATCHING_MOVE_FAILED_PRICE_OVER_RISK_LIMIT, nb', cmd') \<and>
    nb_abs nb' = nb_abs nb \<and> cmd_matcherEvent cmd' = cmd_matcherEvent cmd"
  using naive.move_risk_limit[OF assms, of node] by simp

definition sample_bid :: order where
  "sample_bid = \<lparr>ord_orderId = 102, ord_price = 10, ord_size = 5, ord_filled = 0,
     ord_reserveBidPrice = 10, ord_action = BID, ord_uid = 2, ord_timestamp = 0\<rparr>"

lemma sample_bid_book:
  "\<exists>nb. nb_inv nb \<and> nb_symbolSpec nb = sample_spec \<and> fb_find 102 (nb_abs nb) = Some sample_bid"
proof -
  let ?cmd = "sample_order GTC 102 2 BID 10 5"
  have s: "0 < cmd_size ?cmd" by (simp add: sample_defs)
  have "flat_new_order default_event (nb_abs sample_book) ?cmd =
      (\<lparr>fb_asks = [sample_ask], fb_bids = [sample_bid]\<rparr>, ?cmd)"
    using sample_book_ok
    by (simp add: flat_new_order_def flat_gtc_def flat_match_def fb_insert_def cmd_order_def sample_defs
        default_command_def cmd_iorder_def set_events_def fb_find_def fb_orders_def sample_bid_def)
  with naive_new_order_refine[OF _ s, of sample_book default_event] sample_book_ok
  obtain nb where "nb_inv nb" "nb_symbolSpec nb = sample_spec"
    "\<lparr>fb_asks = [sample_ask], fb_bids = [sample_bid]\<rparr> = nb_abs nb" by auto
  then show ?thesis by (intro exI[of _ nb]) (auto simp: fb_find_def fb_orders_def sample_bid_def dest: sym)
qed

section \<open>Queries\<close>

text \<open>
  The internal consistency check of a valid book succeeds, and its counts, volumes, lookups and
  the list of a user's orders are those of the orders at rest.
\<close>

lemma naive_queries_exact:
  assumes "nb_inv nb"
  shows "naive_validate nb = Inr () \<and>
    naive_orders_num s nb = int (length (fb_side s (nb_abs nb))) \<and>
    naive_total_orders_volume s nb = volume (fb_side s (nb_abs nb)) \<and>
    naive_get_order_by_id i nb = fb_find i (nb_abs nb) \<and>
    naive_find_user_orders uid nb = filter (\<lambda>x. ord_uid x = uid) (fb_orders (nb_abs nb))"
  using naive_queries_refine[OF assms] by blast

end
