(* ===== verification/Core_Arithmetic.thy ===== *)
theory Core_Arithmetic
  imports Types
begin

text \<open>
  Amounts held and released for an order (\<open>utils/CoreArithmeticUtils\<close>). The properties at
  the end are the accounting identities the risk engine relies on.
\<close>

definition calculate_amount_ask :: "int \<Rightarrow> symbol_spec \<Rightarrow> int" where
  "calculate_amount_ask sz spec = sz * sp_baseScaleK spec"

definition calculate_amount_bid :: "int \<Rightarrow> int \<Rightarrow> symbol_spec \<Rightarrow> int" where
  "calculate_amount_bid sz price spec = sz * (price * sp_quoteScaleK spec)"

definition calculate_amount_bid_taker_fee :: "int \<Rightarrow> int \<Rightarrow> symbol_spec \<Rightarrow> int" where
  "calculate_amount_bid_taker_fee sz price spec =
     sz * (price * sp_quoteScaleK spec + sp_takerFee spec)"

definition calculate_amount_bid_release_corr_maker :: "int \<Rightarrow> int \<Rightarrow> symbol_spec \<Rightarrow> int" where
  "calculate_amount_bid_release_corr_maker sz priceDiff spec =
     sz * (priceDiff * sp_quoteScaleK spec + (sp_takerFee spec - sp_makerFee spec))"

definition calculate_amount_bid_taker_fee_for_budget :: "int \<Rightarrow> int \<Rightarrow> symbol_spec \<Rightarrow> int" where
  "calculate_amount_bid_taker_fee_for_budget sz budgetInSteps spec =
     budgetInSteps * sp_quoteScaleK spec + sz * sp_takerFee spec"

lemmas amount_defs =
  calculate_amount_ask_def calculate_amount_bid_def calculate_amount_bid_taker_fee_def
  calculate_amount_bid_release_corr_maker_def calculate_amount_bid_taker_fee_for_budget_def

lemma amount_bid_taker_fee_add:
  "calculate_amount_bid_taker_fee (a + b) p spec =
     calculate_amount_bid_taker_fee a p spec + calculate_amount_bid_taker_fee b p spec"
  by (simp add: amount_defs algebra_simps)

lemma amount_ask_add:
  "calculate_amount_ask (a + b) spec = calculate_amount_ask a spec + calculate_amount_ask b spec"
  by (simp add: amount_defs algebra_simps)

text \<open>
  Releasing a resting bid of size \<open>sz\<close> held at \<open>hold\<close> and executed at \<open>p\<close>: what it held is
  what the seller is paid, the maker fee and the refund.
\<close>

lemma amount_release_identity:
  "calculate_amount_bid_taker_fee sz hold spec =
     calculate_amount_bid sz p spec + sp_makerFee spec * sz +
     calculate_amount_bid_release_corr_maker sz (hold - p) spec"
  by (simp add: amount_defs algebra_simps)

text \<open>The budget formula and the per-lot formula agree only where the budget is the lots' price.\<close>

lemma amount_budget_vs_limit:
  "calculate_amount_bid_taker_fee sz p spec - calculate_amount_bid_taker_fee_for_budget sz p spec
     = (sz - 1) * (p * sp_quoteScaleK spec)"
  by (simp add: amount_defs algebra_simps)

end
