(* ===== verification/Position.thy ===== *)
theory Position
  imports Types
begin

text \<open>
  \<open>common/SymbolPositionRecord\<close>: the margin position of one user in one symbol, its pending
  order sizes and its required margin, and \<open>LastPriceCacheRecord\<close>.
\<close>

section \<open>State\<close>

record position =
  ps_uid :: int
  ps_symbol :: int
  ps_currency :: int
  ps_direction :: position_direction
  ps_openVolume :: int
  ps_openPriceSum :: int
  ps_profit :: int
  ps_pendingSellSize :: int
  ps_pendingBuySize :: int

record last_price =
  lp_askPrice :: int
  lp_bidPrice :: int

definition default_last_price :: last_price where
  "default_last_price = \<lparr>lp_askPrice = INT64_MAX, lp_bidPrice = 0\<rparr>"

definition position_initialize :: "int \<Rightarrow> int \<Rightarrow> int \<Rightarrow> position" where
  "position_initialize uid symbol currency =
     \<lparr>ps_uid = uid, ps_symbol = symbol, ps_currency = currency, ps_direction = EMPTY,
      ps_openVolume = 0, ps_openPriceSum = 0, ps_profit = 0,
      ps_pendingSellSize = 0, ps_pendingBuySize = 0\<rparr>"

section \<open>Operations\<close>

definition position_is_empty :: "position \<Rightarrow> bool" where
  "position_is_empty p \<longleftrightarrow>
     ps_direction p = EMPTY \<and> ps_pendingSellSize p = 0 \<and> ps_pendingBuySize p = 0"

definition pending_hold :: "order_action \<Rightarrow> int \<Rightarrow> position \<Rightarrow> position" where
  "pending_hold action sz p =
     (if action = ASK then p\<lparr>ps_pendingSellSize := ps_pendingSellSize p + sz\<rparr>
      else p\<lparr>ps_pendingBuySize := ps_pendingBuySize p + sz\<rparr>)"

definition pending_release :: "order_action \<Rightarrow> int \<Rightarrow> position \<Rightarrow> position" where
  "pending_release action sz p =
     (if action = ASK then p\<lparr>ps_pendingSellSize := ps_pendingSellSize p - sz\<rparr>
      else p\<lparr>ps_pendingBuySize := ps_pendingBuySize p - sz\<rparr>)"

text \<open>A null record of last prices is \<open>None\<close>.\<close>

definition estimate_profit :: "symbol_spec \<Rightarrow> last_price option \<Rightarrow> position \<Rightarrow> int" where
  "estimate_profit spec lp p =
     (case ps_direction p of
        EMPTY \<Rightarrow> ps_profit p
      | LONG \<Rightarrow>
          (case lp of
             Some r \<Rightarrow> if lp_bidPrice r \<noteq> 0
                       then ps_profit p + (ps_openVolume p * lp_bidPrice r - ps_openPriceSum p)
                       else ps_profit p + sp_marginBuy spec * ps_openVolume p
           | None \<Rightarrow> ps_profit p + sp_marginBuy spec * ps_openVolume p)
      | SHORT \<Rightarrow>
          (case lp of
             Some r \<Rightarrow> if lp_askPrice r \<noteq> INT64_MAX
                       then ps_profit p + (ps_openPriceSum p - ps_openVolume p * lp_askPrice r)
                       else ps_profit p + sp_marginSell spec * ps_openVolume p
           | None \<Rightarrow> ps_profit p + sp_marginSell spec * ps_openVolume p))"

definition signed_position :: "position \<Rightarrow> int" where
  "signed_position p = ps_openVolume p * get_multiplier (ps_direction p)"

definition required_margin_for_futures :: "symbol_spec \<Rightarrow> position \<Rightarrow> int" where
  "required_margin_for_futures spec p =
     (let signedPosition = signed_position p;
          currentRiskBuySize = ps_pendingBuySize p + signedPosition;
          currentRiskSellSize = ps_pendingSellSize p - signedPosition
      in max (sp_marginBuy spec * currentRiskBuySize) (sp_marginSell spec * currentRiskSellSize))"

definition required_margin_for_order :: "symbol_spec \<Rightarrow> order_action \<Rightarrow> int \<Rightarrow> position \<Rightarrow> int" where
  "required_margin_for_order spec action sz p =
     (let signedPosition = signed_position p;
          currentRiskBuySize = ps_pendingBuySize p + signedPosition;
          currentRiskSellSize = ps_pendingSellSize p - signedPosition;
          marginBuy = sp_marginBuy spec * currentRiskBuySize;
          marginSell = sp_marginSell spec * currentRiskSellSize;
          currentMargin = max marginBuy marginSell;
          marginBuy1 = (if action = BID then marginBuy + sp_marginBuy spec * sz else marginBuy);
          marginSell1 = (if action = BID then marginSell else marginSell + sp_marginSell spec * sz);
          newMargin = max marginBuy1 marginSell1
      in if newMargin \<le> currentMargin then -1 else newMargin)"

definition close_current_position_futures ::
  "order_action \<Rightarrow> int \<Rightarrow> int \<Rightarrow> position \<Rightarrow> int \<times> position" where
  "close_current_position_futures action tradeSize tradePrice p =
     (if ps_direction p = EMPTY \<or> ps_direction p = position_direction_from_order_action action
      then (tradeSize, p)
      else if ps_openVolume p > tradeSize
      then (0, p\<lparr>ps_openVolume := ps_openVolume p - tradeSize,
                 ps_openPriceSum := ps_openPriceSum p - tradeSize * tradePrice\<rparr>)
      else (tradeSize - ps_openVolume p,
            p\<lparr>ps_profit := ps_profit p + (ps_openVolume p * tradePrice - ps_openPriceSum p)
                             * get_multiplier (ps_direction p),
              ps_openPriceSum := 0, ps_direction := EMPTY, ps_openVolume := 0\<rparr>))"

definition open_position_margin :: "order_action \<Rightarrow> int \<Rightarrow> int \<Rightarrow> position \<Rightarrow> position" where
  "open_position_margin action sizeToOpen tradePrice p =
     p\<lparr>ps_openVolume := ps_openVolume p + sizeToOpen,
       ps_openPriceSum := ps_openPriceSum p + tradePrice * sizeToOpen,
       ps_direction := position_direction_from_order_action action\<rparr>"

definition update_position_for_margin_trade ::
  "order_action \<Rightarrow> int \<Rightarrow> int \<Rightarrow> position \<Rightarrow> int \<times> position" where
  "update_position_for_margin_trade action sz price p =
     (case close_current_position_futures action sz price (pending_release action sz p) of
        (sizeToOpen, p1) \<Rightarrow>
          (sizeToOpen, if sizeToOpen > 0 then open_position_margin action sizeToOpen price p1 else p1))"

definition position_reset :: "position \<Rightarrow> position" where
  "position_reset p = p\<lparr>ps_pendingBuySize := 0, ps_pendingSellSize := 0, ps_openVolume := 0,
     ps_openPriceSum := 0, ps_direction := EMPTY\<rparr>"

definition position_validate :: "position \<Rightarrow> exn + unit" where
  "position_validate p =
     (if ps_direction p = EMPTY \<and> (ps_openVolume p \<noteq> 0 \<or> ps_openPriceSum p \<noteq> 0)
      then Inl (Runtime_Error ''EMPTY direction but non-zero volume or price sum'')
      else if ps_direction p \<noteq> EMPTY \<and> (ps_openVolume p \<le> 0 \<or> ps_openPriceSum p \<le> 0)
      then Inl (Runtime_Error ''non-EMPTY direction but zero or negative volume or price sum'')
      else if ps_pendingSellSize p < 0 \<or> ps_pendingBuySize p < 0
      then Inl (Runtime_Error ''negative pending sizes'')
      else Inr ())"

section \<open>Properties\<close>

text \<open>
  Well-formed positions. A partial close takes the trade value off the price sum, which may
  leave it negative, so the bound that \<open>ValidateInternalState\<close> asks for is not an invariant.
\<close>

definition position_ok :: "position \<Rightarrow> bool" where
  "position_ok p \<longleftrightarrow> (ps_direction p = EMPTY \<longrightarrow> ps_openVolume p = 0 \<and> ps_openPriceSum p = 0) \<and>
     (ps_direction p \<noteq> EMPTY \<longrightarrow> 0 < ps_openVolume p) \<and>
     0 \<le> ps_pendingSellSize p \<and> 0 \<le> ps_pendingBuySize p"

definition pending_size :: "order_action \<Rightarrow> position \<Rightarrow> int" where
  "pending_size action p = (if action = ASK then ps_pendingSellSize p else ps_pendingBuySize p)"

definition action_sign :: "order_action \<Rightarrow> int" where
  "action_sign action = (if action = BID then 1 else -1)"

lemma action_sign_simps [simp]: "action_sign BID = 1" "action_sign ASK = -1"
  by (simp_all add: action_sign_def)

lemma action_sign_opposite [simp]: "action_sign (opposite a) = - action_sign a"
  by (cases a) simp_all

lemma direction_multiplier [simp]:
  "get_multiplier (position_direction_from_order_action a) = action_sign a"
  by (cases a) simp_all

lemmas position_defs =
  update_position_for_margin_trade_def close_current_position_futures_def open_position_margin_def
  pending_release_def pending_hold_def

lemma direction_cases [case_names empty same other]:
  obtains "d = EMPTY" | "d = position_direction_from_order_action a" "d \<noteq> EMPTY"
    | "d = position_direction_from_order_action (opposite a)" "d \<noteq> EMPTY"
      "d \<noteq> position_direction_from_order_action a"
  by (cases d; cases a) auto

lemma update_position_ok:
  assumes "position_ok p" and "0 < sz" and "sz \<le> pending_size action p"
    and "update_position_for_margin_trade action sz price p = (opened, p')"
  shows "position_ok p'"
  using assms
  by (cases action; cases "ps_direction p")
    (auto simp: position_ok_def position_defs pending_size_def split: if_splits)

lemma update_position_signed:
  assumes "position_ok p" and "0 < sz"
    and "update_position_for_margin_trade action sz price p = (opened, p')"
  shows "signed_position p' = signed_position p + action_sign action * sz"
    and "pending_size action p' = pending_size action p - sz"
    and "pending_size (opposite action) p' = pending_size (opposite action) p"
    and "0 \<le> opened \<and> opened \<le> sz"
  using assms
  by (cases action; cases "ps_direction p";
      force simp: position_ok_def position_defs pending_size_def signed_position_def split: if_splits)+

text \<open>
  The value of a position at a price: what was realised plus what is open, marked to that price.
\<close>

definition position_value :: "int \<Rightarrow> position \<Rightarrow> int" where
  "position_value q p =
     ps_profit p + (ps_openVolume p * q - ps_openPriceSum p) * get_multiplier (ps_direction p)"

lemma update_position_value:
  assumes "position_ok p" and "0 < sz"
    and "update_position_for_margin_trade action sz price p = (opened, p')"
  shows "position_value q p' = position_value q p + action_sign action * sz * (q - price)"
  using assms
  by (cases action; cases "ps_direction p")
    (auto simp: position_ok_def position_defs position_value_def algebra_simps split: if_splits)

lemma estimate_profit_value:
  assumes "position_ok p" and "q \<noteq> 0" and "q \<noteq> INT64_MAX"
  shows "estimate_profit spec (Some \<lparr>lp_askPrice = q, lp_bidPrice = q\<rparr>) p = position_value q p"
  using assms
  by (cases "ps_direction p") (simp_all add: estimate_profit_def position_value_def position_ok_def)

text \<open>The margin asked for an order is the margin required once its size is pending.\<close>

lemma required_margin_order_hold:
  "required_margin_for_order spec action sz p =
     (let m = required_margin_for_futures spec (pending_hold action sz p)
      in if m \<le> required_margin_for_futures spec p then -1 else m)"
proof -
  have "signed_position (pending_hold action sz p) = signed_position p"
    by (simp add: pending_hold_def signed_position_def)
  then show ?thesis
    by (cases action)
      (simp_all add: required_margin_for_order_def required_margin_for_futures_def Let_def
        pending_hold_def algebra_simps)
qed

lemma required_margin_nonneg:
  assumes "position_ok p" and "0 \<le> sp_marginBuy spec" and "0 \<le> sp_marginSell spec"
  shows "0 \<le> required_margin_for_futures spec p"
proof -
  have "0 \<le> ps_pendingBuySize p + signed_position p \<or> 0 \<le> ps_pendingSellSize p - signed_position p"
    using assms(1) by (auto simp: position_ok_def)
  with assms(2,3) show ?thesis
    by (auto simp: required_margin_for_futures_def Let_def le_max_iff_disj)
qed

end
