(* ===== verification/User_Service.thy ===== *)
theory User_Service
  imports Position
begin

text \<open>
  \<open>common/UserProfile\<close>, \<open>processors/UserProfileService\<close> and
  \<open>processors/SymbolSpecificationProvider\<close>: the users with their accounts and positions, and
  the symbols the risk engine knows.
\<close>

section \<open>User profiles\<close>

record user_profile =
  up_uid :: int
  up_positions :: "(int, position) umap"
  up_adjustmentsCounter :: int
  up_accounts :: "(int, int) umap"
  up_userStatus :: user_status

definition new_user_profile :: "int \<Rightarrow> user_status \<Rightarrow> user_profile" where
  "new_user_profile uid status =
     \<lparr>up_uid = uid, up_positions = [], up_adjustmentsCounter = 0, up_accounts = [],
      up_userStatus = status\<rparr>"

definition get_position_record :: "int \<Rightarrow> user_profile \<Rightarrow> exn + position" where
  "get_position_record symbol up =
     (case um_find (up_positions up) symbol of
        None \<Rightarrow> Inl (Runtime_Error ''not found position for symbol'')
      | Some p \<Rightarrow> Inr p)"

text \<open>\<open>accounts[currency] += amount\<close>.\<close>

definition profile_add :: "int \<Rightarrow> int \<Rightarrow> user_profile \<Rightarrow> user_profile" where
  "profile_add currency amount up = up\<lparr>up_accounts := um_add currency amount (up_accounts up)\<rparr>"

definition balance :: "int \<Rightarrow> user_profile \<Rightarrow> int" where
  "balance currency up = um_get0 (up_accounts up) currency"

lemma balance_add [simp]: "balance c (profile_add c' x up) = balance c up + (if c = c' then x else 0)"
  by (simp add: balance_def profile_add_def)

section \<open>The service\<close>

type_synonym user_service = "(int, user_profile) umap"

definition get_user_profile :: "int \<Rightarrow> user_service \<Rightarrow> user_profile option" where
  "get_user_profile uid us = um_find us uid"

definition get_user_profile_or_add_suspended ::
  "int \<Rightarrow> user_service \<Rightarrow> user_profile \<times> user_service" where
  "get_user_profile_or_add_suspended uid us =
     (case um_find us uid of
        Some up \<Rightarrow> (up, us)
      | None \<Rightarrow> let up = new_user_profile uid SUSPENDED in (up, um_put uid up us))"

definition balance_adjustment ::
  "int \<Rightarrow> int \<Rightarrow> int \<Rightarrow> int \<Rightarrow> user_service \<Rightarrow> result_code \<times> user_service" where
  "balance_adjustment uid currency amount fundingTransactionId us =
     (case get_user_profile uid us of
        None \<Rightarrow> (USER_MGMT_USER_NOT_FOUND, us)
      | Some up \<Rightarrow>
          if up_adjustmentsCounter up = fundingTransactionId
          then (USER_MGMT_ACCOUNT_BALANCE_ADJUSTMENT_ALREADY_APPLIED_SAME, us)
          else if up_adjustmentsCounter up > fundingTransactionId
          then (USER_MGMT_ACCOUNT_BALANCE_ADJUSTMENT_ALREADY_APPLIED_MANY, us)
          else let currentBalance = um_get0 (up_accounts up) currency in
            if amount < 0 \<and> currentBalance + amount < 0
            then (USER_MGMT_ACCOUNT_BALANCE_ADJUSTMENT_NSF, us)
            else (SUCCESS,
                  um_put uid (up\<lparr>up_adjustmentsCounter := fundingTransactionId,
                    up_accounts := um_put currency (currentBalance + amount) (up_accounts up)\<rparr>) us))"

definition add_user :: "int \<Rightarrow> user_service \<Rightarrow> result_code \<times> user_service" where
  "add_user uid us =
     (if get_user_profile uid us \<noteq> None then (USER_MGMT_USER_ALREADY_EXISTS, us)
      else (SUCCESS, um_put uid (new_user_profile uid ACTIVE) us))"

definition suspend_user :: "int \<Rightarrow> user_service \<Rightarrow> result_code \<times> user_service" where
  "suspend_user uid us =
     (case get_user_profile uid us of
        None \<Rightarrow> (USER_MGMT_USER_NOT_FOUND, us)
      | Some up \<Rightarrow>
          if up_userStatus up = SUSPENDED then (USER_MGMT_USER_ALREADY_SUSPENDED, us)
          else if \<exists>p \<in> snd ` set (up_positions up). \<not> position_is_empty p
          then (USER_MGMT_USER_NOT_SUSPENDABLE_HAS_POSITIONS, us)
          else if \<exists>x \<in> snd ` set (up_accounts up). x \<noteq> 0
          then (USER_MGMT_USER_NOT_SUSPENDABLE_NON_EMPTY_ACCOUNTS, us)
          else (SUCCESS, um_erase uid us))"

definition resume_user :: "int \<Rightarrow> user_service \<Rightarrow> result_code \<times> user_service" where
  "resume_user uid us =
     (case get_user_profile uid us of
        None \<Rightarrow> (SUCCESS, um_put uid (new_user_profile uid ACTIVE) us)
      | Some up \<Rightarrow>
          if up_userStatus up \<noteq> SUSPENDED then (USER_MGMT_USER_NOT_SUSPENDED, us)
          else (SUCCESS, um_put uid (up\<lparr>up_userStatus := ACTIVE\<rparr>) us))"

definition get_user_profiles :: "user_service \<Rightarrow> user_profile list" where
  "get_user_profiles us = map snd us"

section \<open>Symbols\<close>

type_synonym symbol_provider = "(int, symbol_spec) umap"

definition add_symbol :: "symbol_spec \<Rightarrow> symbol_provider \<Rightarrow> bool \<times> symbol_provider" where
  "add_symbol spec sp =
     (if um_find sp (sp_symbolId spec) \<noteq> None then (False, sp)
      else (True, um_put (sp_symbolId spec) spec sp))"

definition get_symbol_specification :: "int \<Rightarrow> symbol_provider \<Rightarrow> symbol_spec option" where
  "get_symbol_specification symbol sp = um_find sp symbol"

definition register_symbol :: "int \<Rightarrow> symbol_spec \<Rightarrow> symbol_provider \<Rightarrow> symbol_provider" where
  "register_symbol symbol spec sp = um_put symbol spec sp"

section \<open>Totals\<close>

text \<open>The sum of the accounts of all users in one currency.\<close>

definition total_accounts :: "int \<Rightarrow> user_service \<Rightarrow> int" where
  "total_accounts c us = um_sum (balance c) us"

lemma balance_new [simp]: "balance c (new_user_profile uid s) = 0"
  by (simp add: balance_def new_user_profile_def)

lemma total_accounts_put:
  "um_find us uid = Some up \<Longrightarrow>
   total_accounts c (um_put uid up' us) = total_accounts c us + balance c up' - balance c up"
  by (simp add: total_accounts_def um_sum_put_Some)

lemma total_accounts_or_add:
  "get_user_profile_or_add_suspended uid us = (up, us') \<Longrightarrow>
   total_accounts c us' = total_accounts c us \<and> um_find us' uid = Some up \<and>
   (\<forall>u. u \<noteq> uid \<longrightarrow> um_find us' u = um_find us u)"
  by (auto simp: get_user_profile_or_add_suspended_def total_accounts_def um_sum_put_None Let_def
      split: option.splits)

text \<open>
  An adjustment moves exactly its amount, once per transaction number, and a withdrawal never
  overdraws.
\<close>

lemma balance_adjustment_cases:
  assumes "balance_adjustment uid c x t us = (code, us')"
  shows "if code = SUCCESS
    then \<exists>up up'. um_find us uid = Some up \<and> um_find us' uid = Some up' \<and>
      us' = um_put uid up' us \<and>
      up_adjustmentsCounter up < t \<and> up_adjustmentsCounter up' = t \<and>
      (\<forall>c'. balance c' up' = balance c' up + (if c' = c then x else 0)) \<and>
      (x < 0 \<longrightarrow> 0 \<le> balance c up') \<and> up_positions up' = up_positions up \<and>
      up_userStatus up' = up_userStatus up
    else us' = us"
  using assms
  by (auto simp: balance_adjustment_def get_user_profile_def Let_def balance_def
      split: option.splits if_splits)

lemma balance_adjustment_once:
  assumes "balance_adjustment uid c x t us = (SUCCESS, us')" and "t' \<le> t"
  shows "fst (balance_adjustment uid c' x' t' us') =
      (if t' = t then USER_MGMT_ACCOUNT_BALANCE_ADJUSTMENT_ALREADY_APPLIED_SAME
       else USER_MGMT_ACCOUNT_BALANCE_ADJUSTMENT_ALREADY_APPLIED_MANY) \<and>
    snd (balance_adjustment uid c' x' t' us') = us'"
proof -
  obtain up' where "um_find us' uid = Some up'" "up_adjustmentsCounter up' = t"
    using balance_adjustment_cases[OF assms(1)] by auto
  with assms(2) show ?thesis by (simp add: balance_adjustment_def get_user_profile_def)
qed

lemma total_accounts_adjustment:
  assumes "balance_adjustment uid c x t us = (code, us')"
  shows "total_accounts c' us' = total_accounts c' us + (if code = SUCCESS \<and> c' = c then x else 0)"
  using balance_adjustment_cases[OF assms]
  by (auto simp: total_accounts_put split: if_splits)

lemma um_get0_all_zero: "\<forall>x \<in> snd ` set m. x = 0 \<Longrightarrow> um_get0 m k = 0"
  by (force simp: um_get0_def split: option.split dest: map_of_SomeD)

text \<open>A profile that is deleted on suspension takes no money and no position with it.\<close>

lemma suspend_user_removes_nothing:
  assumes "suspend_user uid us = (code, us')" and "distinct (map fst us)"
  shows "total_accounts c us' = total_accounts c us \<and>
    (code = SUCCESS \<longrightarrow> um_find us' uid = None \<and>
       (\<exists>up. um_find us uid = Some up \<and> (\<forall>p \<in> snd ` set (up_positions up). position_is_empty p)))"
  using assms
  by (auto simp: suspend_user_def get_user_profile_def total_accounts_def um_sum_erase balance_def
      um_get0_all_zero split: option.splits if_splits)

lemma total_accounts_add_user:
  "add_user uid us = (code, us') \<Longrightarrow> total_accounts c us' = total_accounts c us"
  by (auto simp: add_user_def get_user_profile_def total_accounts_def um_sum_put_None split: if_splits)

lemma total_accounts_resume_user:
  "resume_user uid us = (code, us') \<Longrightarrow> total_accounts c us' = total_accounts c us"
  by (auto simp: resume_user_def get_user_profile_def total_accounts_def um_sum_put balance_def
      split: option.splits if_splits) (simp add: new_user_profile_def)

end
