(* ===== verification/Binary_Commands.thy ===== *)
theory Binary_Commands
  imports User_Service
begin

text \<open>
  \<open>processors/BinaryCommandsProcessor\<close>: large messages travel as frames of five 64-bit words in
  the fields of a command. A transfer collects the words of its frames until the last one, which
  is marked by symbol \<open>-1\<close>. Decompression and deserialisation of the collected words (LZ4 and
  the message factories) are the parameter \<open>decode\<close>; \<open>Inr None\<close> stands for the logged cases of
  an empty or a short message.
\<close>

section \<open>Transfers\<close>

record transfer_record =
  tr_dataArray :: "int list"
  tr_wordsTransferred :: nat

definition new_transfer_record :: "nat \<Rightarrow> transfer_record" where
  "new_transfer_record expectedLength =
     \<lparr>tr_dataArray = replicate expectedLength 0, tr_wordsTransferred = 0\<rparr>"

text \<open>
  \<open>AddWord\<close> doubles a full array. Doubling an empty one leaves it empty, and the word is then
  written out of bounds.
\<close>

definition add_word :: "int \<Rightarrow> transfer_record \<Rightarrow> exn + transfer_record" where
  "add_word word tr =
     (let arr = tr_dataArray tr; n = tr_wordsTransferred tr;
          arr1 = (if n \<ge> length arr then arr @ replicate (length arr) 0 else arr)
      in if n < length arr1
         then Inr \<lparr>tr_dataArray = arr1[n := word], tr_wordsTransferred = Suc n\<rparr>
         else Inl Out_Of_Bounds)"

definition required_long_array_size :: "int \<Rightarrow> int \<Rightarrow> int" where
  "required_long_array_size bytesLength longsPerMessage =
     (let longsNeeded = (bytesLength + 7) div 8
      in ((longsNeeded + longsPerMessage - 1) div longsPerMessage) * longsPerMessage)"

type_synonym incoming = "(int, transfer_record) umap"

definition frame_words :: "order_command \<Rightarrow> int list" where
  "frame_words cmd =
     [cmd_orderId cmd, cmd_price cmd, cmd_reserveBidPrice cmd, cmd_size cmd, cmd_uid cmd]"

fun add_words :: "int list \<Rightarrow> transfer_record \<Rightarrow> exn + transfer_record" where
  "add_words [] tr = Inr tr"
| "add_words (w # ws) tr = bindE (add_word w tr) (add_words ws)"

text \<open>The length announced by the first frame: bits 32 to 62 of its order id.\<close>

definition announced_length :: "order_command \<Rightarrow> int" where
  "announced_length cmd = (cmd_orderId cmd div 2 ^ 32) mod 2 ^ 31"

definition transfer_of :: "order_command \<Rightarrow> incoming \<Rightarrow> transfer_record" where
  "transfer_of cmd inc =
     (case um_find inc (cmd_userCookie cmd) of
        Some tr \<Rightarrow> tr
      | None \<Rightarrow> new_transfer_record (nat (required_long_array_size (announced_length cmd) 5)))"

text \<open>
  A frame: the transfers afterwards, and the result with the message when it was the last frame.
  An exception drops the transfer and is thrown on.
\<close>

definition accept_binary_frame ::
  "(int list \<Rightarrow> nat \<Rightarrow> exn + 'm option) \<Rightarrow> order_command \<Rightarrow> incoming
     \<Rightarrow> incoming \<times> (exn + (result_code \<times> 'm option))" where
  "accept_binary_frame decode cmd inc =
     (let transferId = cmd_userCookie cmd in
      case add_words (frame_words cmd) (transfer_of cmd inc) of
        Inl e \<Rightarrow> (um_erase transferId inc, Inl e)
      | Inr tr \<Rightarrow>
          if cmd_symbol cmd = -1
          then (um_erase transferId inc,
                bindE (decode (tr_dataArray tr) (tr_wordsTransferred tr)) (\<lambda>m. Inr (SUCCESS, m)))
          else (um_put transferId tr inc, Inr (ACCEPTED, None)))"

section \<open>Assembly\<close>

definition transferred :: "transfer_record \<Rightarrow> int list" where
  "transferred tr = take (tr_wordsTransferred tr) (tr_dataArray tr)"

definition transfer_ok :: "transfer_record \<Rightarrow> bool" where
  "transfer_ok tr \<longleftrightarrow> tr_dataArray tr \<noteq> [] \<and> tr_wordsTransferred tr \<le> length (tr_dataArray tr)"

lemma add_word_ok:
  assumes "transfer_ok tr"
  shows "\<exists>tr'. add_word w tr = Inr tr' \<and> transfer_ok tr' \<and> transferred tr' = transferred tr @ [w]"
proof -
  let ?arr = "tr_dataArray tr" and ?n = "tr_wordsTransferred tr"
  let ?arr1 = "if ?n \<ge> length ?arr then ?arr @ replicate (length ?arr) 0 else ?arr"
  have n: "?n < length ?arr1" using assms by (auto simp: transfer_ok_def)
  have "take ?n ?arr1 = take ?n ?arr" using assms by (auto simp: transfer_ok_def)
  then have "take (Suc ?n) (?arr1[?n := w]) = take ?n ?arr @ [w]"
    using n by (simp add: take_Suc_conv_app_nth)
  with n show ?thesis
    by (auto simp: add_word_def Let_def transfer_ok_def transferred_def)
qed

lemma add_words_ok:
  "transfer_ok tr \<Longrightarrow>
   \<exists>tr'. add_words ws tr = Inr tr' \<and> transfer_ok tr' \<and> transferred tr' = transferred tr @ ws"
proof (induction ws arbitrary: tr)
  case Nil
  then show ?case by simp
next
  case (Cons w ws)
  obtain tr1 where "add_word w tr = Inr tr1" "transfer_ok tr1" "transferred tr1 = transferred tr @ [w]"
    using add_word_ok[OF Cons.prems] by blast
  with Cons.IH[of tr1] show ?case by auto
qed

lemma required_long_array_size_pos: "0 < b \<Longrightarrow> 0 < required_long_array_size b 5"
  unfolding required_long_array_size_def Let_def by linarith

lemma required_long_array_size_bounds:
  assumes "0 \<le> b"
  shows "b \<le> 8 * required_long_array_size b 5 \<and> 5 dvd required_long_array_size b 5"
proof -
  have "b \<le> 8 * ((((b + 7) div 8 + 5 - 1) div 5) * 5)" using assms by linarith
  then show ?thesis by (simp add: required_long_array_size_def Let_def)
qed

lemma transfer_of_ok:
  assumes "\<forall>tr. um_find inc (cmd_userCookie cmd) = Some tr \<longrightarrow> transfer_ok tr"
    and "um_find inc (cmd_userCookie cmd) = None \<longrightarrow> 0 < announced_length cmd"
  shows "transfer_ok (transfer_of cmd inc)"
  using assms required_long_array_size_pos[of "announced_length cmd"]
  by (auto simp: transfer_of_def transfer_ok_def new_transfer_record_def split: option.split)

text \<open>
  A sequence of frames of any number of interleaved transfers. The messages completed are, for
  each transfer, the words of its frames in the order they were sent.
\<close>

fun accept_frames ::
  "(int list \<Rightarrow> nat \<Rightarrow> exn + 'm option) \<Rightarrow> order_command list \<Rightarrow> incoming
     \<Rightarrow> incoming \<times> (exn + (result_code \<times> 'm option)) list" where
  "accept_frames decode [] inc = (inc, [])"
| "accept_frames decode (cmd # cmds) inc =
     (case accept_binary_frame decode cmd inc of (inc1, r) \<Rightarrow>
        case accept_frames decode cmds inc1 of (inc2, rs) \<Rightarrow> (inc2, r # rs))"

definition incoming_ok :: "incoming \<Rightarrow> bool" where
  "incoming_ok inc \<longleftrightarrow> (\<forall>i tr. um_find inc i = Some tr \<longrightarrow> transfer_ok tr)"

definition collected :: "int \<Rightarrow> incoming \<Rightarrow> int list" where
  "collected i inc = (case um_find inc i of None \<Rightarrow> [] | Some tr \<Rightarrow> transferred tr)"

lemma accept_frame_collects:
  assumes ok: "incoming_ok inc"
    and len: "um_find inc (cmd_userCookie cmd) = None \<longrightarrow> 0 < announced_length cmd" and more: "cmd_symbol cmd \<noteq> -1"
    and r: "accept_binary_frame decode cmd inc = (inc', res)"
  shows "incoming_ok inc' \<and> res = Inr (ACCEPTED, None) \<and>
    (\<forall>i. collected i inc' = collected i inc @ (if i = cmd_userCookie cmd then frame_words cmd else [])) \<and>
    dom (um_find inc') = insert (cmd_userCookie cmd) (dom (um_find inc))"
proof -
  have t: "transfer_ok (transfer_of cmd inc)"
    using ok len by (intro transfer_of_ok) (auto simp: incoming_ok_def)
  obtain tr where tr: "add_words (frame_words cmd) (transfer_of cmd inc) = Inr tr" "transfer_ok tr"
    "transferred tr = transferred (transfer_of cmd inc) @ frame_words cmd"
    using add_words_ok[OF t] by blast
  have "transferred (transfer_of cmd inc) = collected (cmd_userCookie cmd) inc"
    by (simp add: transfer_of_def collected_def transferred_def new_transfer_record_def split: option.split)
  with tr r more ok show ?thesis
    by (auto simp: accept_binary_frame_def Let_def incoming_ok_def collected_def split: if_splits)
qed

text \<open>No frame is a last one, and the first frame of a new transfer announces a length.\<close>

fun frames_ok :: "int set \<Rightarrow> order_command list \<Rightarrow> bool" where
  "frames_ok known [] = True"
| "frames_ok known (cmd # cmds) =
     (cmd_symbol cmd \<noteq> -1 \<and> (cmd_userCookie cmd \<in> known \<or> 0 < announced_length cmd) \<and>
      frames_ok (insert (cmd_userCookie cmd) known) cmds)"

lemma accept_frames_collect:
  assumes "incoming_ok inc" and "frames_ok (dom (um_find inc)) cmds"
    and "accept_frames decode cmds inc = (inc', rs)"
  shows "incoming_ok inc' \<and> set rs \<subseteq> {Inr (ACCEPTED, None)} \<and>
    (\<forall>i. collected i inc' =
       collected i inc @ concat (map frame_words (filter (\<lambda>cmd. cmd_userCookie cmd = i) cmds)))"
  using assms
proof (induction cmds arbitrary: inc rs)
  case Nil
  then show ?case by simp
next
  case (Cons cmd cmds)
  obtain inc1 r where s1: "accept_binary_frame decode cmd inc = (inc1, r)" by (metis surj_pair)
  obtain rs1 where s2: "accept_frames decode cmds inc1 = (inc', rs1)" "rs = r # rs1"
    using Cons.prems(3) s1 by (auto split: prod.splits)
  have A: "incoming_ok inc1 \<and> r = Inr (ACCEPTED, None) \<and>
    (\<forall>i. collected i inc1 = collected i inc @ (if i = cmd_userCookie cmd then frame_words cmd else [])) \<and>
    dom (um_find inc1) = insert (cmd_userCookie cmd) (dom (um_find inc))"
    using Cons.prems(2) by (intro accept_frame_collects[OF Cons.prems(1) _ _ s1]) auto
  with Cons.IH[OF _ _ s2(1)] Cons.prems(2) s2(2) show ?case by auto
qed

lemma last_frame_completes:
  assumes ok: "incoming_ok inc"
    and len: "um_find inc (cmd_userCookie cmd) = None \<longrightarrow> 0 < announced_length cmd" and last: "cmd_symbol cmd = -1"
  shows "\<exists>arr. accept_binary_frame decode cmd inc =
      (um_erase (cmd_userCookie cmd) inc,
       bindE (decode arr (length (collected (cmd_userCookie cmd) inc) + 5)) (\<lambda>m. Inr (SUCCESS, m))) \<and>
    take (length (collected (cmd_userCookie cmd) inc) + 5) arr =
      collected (cmd_userCookie cmd) inc @ frame_words cmd"
proof -
  have t: "transfer_ok (transfer_of cmd inc)"
    using ok len by (intro transfer_of_ok) (auto simp: incoming_ok_def)
  obtain tr where tr: "add_words (frame_words cmd) (transfer_of cmd inc) = Inr tr" "transfer_ok tr"
    "transferred tr = transferred (transfer_of cmd inc) @ frame_words cmd"
    using add_words_ok[OF t] by blast
  have c: "transferred (transfer_of cmd inc) = collected (cmd_userCookie cmd) inc"
    by (simp add: transfer_of_def collected_def transferred_def new_transfer_record_def split: option.split)
  have "length (transferred tr) = tr_wordsTransferred tr"
    using tr(2) by (simp add: transferred_def transfer_ok_def)
  then have "tr_wordsTransferred tr = length (collected (cmd_userCookie cmd) inc) + 5"
    using tr(3) c by (simp add: frame_words_def)
  with tr c last show ?thesis
    by (intro exI[of _ "tr_dataArray tr"]) (simp add: accept_binary_frame_def Let_def transferred_def)
qed

end
