(* ===== verification/Unsafe_Utils.thy ===== *)
theory Unsafe_Utils
  imports Types
begin

text \<open>
  \<open>utils/UnsafeUtils\<close>: the two fields of a command that the shards of a processing stage write
  concurrently, the result code and the chain of events. Each write is a compare-exchange loop;
  a step relation interleaves the loops of any number of writers, one atomic access per step.
\<close>

section \<open>The effect of one write that runs alone\<close>

definition set_result_volatile ::
  "order_command \<Rightarrow> bool \<Rightarrow> result_code \<Rightarrow> result_code \<Rightarrow> order_command" where
  "set_result_volatile cmd res successCode failureCode =
     (let codeToSet = (if res then successCode else failureCode)
      in if cmd_resultCode cmd \<noteq> codeToSet \<and> cmd_resultCode cmd \<noteq> failureCode
         then cmd\<lparr>cmd_resultCode := codeToSet\<rparr> else cmd)"

definition append_events_volatile :: "order_command \<Rightarrow> trade_event list \<Rightarrow> order_command" where
  "append_events_volatile cmd events = cmd\<lparr>cmd_matcherEvent := events @ cmd_matcherEvent cmd\<rparr>"

section \<open>Compare-exchange loops\<close>

text \<open>
  A writer has not loaded the field yet, holds an expected value, or is done. \<open>compute\<close> is the
  body of the loop: \<open>None\<close> when the condition ends it, \<open>Some\<close> the value it tries to store. The
  exchange is the weak one: it may fail although the value is the expected one, and then, as on
  a real mismatch, it reloads the expected value.
\<close>

datatype 'v writer = Start | Expecting 'v | Finished

record 'v cas_state =
  cs_field :: 'v
  cs_writers :: "'v writer list"

inductive cas_step :: "(nat \<Rightarrow> 'v \<Rightarrow> 'v option) \<Rightarrow> 'v cas_state \<Rightarrow> 'v cas_state \<Rightarrow> bool"
  for compute :: "nat \<Rightarrow> 'v \<Rightarrow> 'v option" where
  load: "i < length ws \<Longrightarrow> ws ! i = Start \<Longrightarrow>
    cas_step compute \<lparr>cs_field = v, cs_writers = ws\<rparr>
      \<lparr>cs_field = v, cs_writers = ws[i := Expecting v]\<rparr>"
| leave: "i < length ws \<Longrightarrow> ws ! i = Expecting e \<Longrightarrow> compute i e = None \<Longrightarrow>
    cas_step compute \<lparr>cs_field = v, cs_writers = ws\<rparr>
      \<lparr>cs_field = v, cs_writers = ws[i := Finished]\<rparr>"
| exchange: "i < length ws \<Longrightarrow> ws ! i = Expecting v \<Longrightarrow> compute i v = Some v' \<Longrightarrow>
    cas_step compute \<lparr>cs_field = v, cs_writers = ws\<rparr>
      \<lparr>cs_field = v', cs_writers = ws[i := Finished]\<rparr>"
| reload: "i < length ws \<Longrightarrow> ws ! i = Expecting e \<Longrightarrow> compute i e = Some v' \<Longrightarrow>
    cas_step compute \<lparr>cs_field = v, cs_writers = ws\<rparr>
      \<lparr>cs_field = v, cs_writers = ws[i := Expecting v]\<rparr>"

inductive_cases cas_stepE: "cas_step compute s s'"

definition cas_init :: "'v \<Rightarrow> nat \<Rightarrow> 'v cas_state" where
  "cas_init v n = \<lparr>cs_field = v, cs_writers = replicate n Start\<rparr>"

abbreviation cas_reachable :: "(nat \<Rightarrow> 'v \<Rightarrow> 'v option) \<Rightarrow> 'v \<Rightarrow> nat \<Rightarrow> 'v cas_state \<Rightarrow> bool" where
  "cas_reachable compute v n s \<equiv> (cas_step compute)\<^sup>*\<^sup>* (cas_init v n) s"

definition finished_set :: "'v cas_state \<Rightarrow> nat set" where
  "finished_set s = {i. i < length (cs_writers s) \<and> cs_writers s ! i = Finished}"

lemma finished_set_update:
  "i < length ws \<Longrightarrow> finished_set \<lparr>cs_field = v, cs_writers = ws[i := w]\<rparr> =
     (if w = Finished then insert i (finished_set \<lparr>cs_field = v', cs_writers = ws\<rparr>)
      else finished_set \<lparr>cs_field = v', cs_writers = ws\<rparr> - {i})"
  by (auto simp: finished_set_def nth_list_update)

text \<open>
  An invariant that relates the field to the writers that are done holds in every reachable
  state when a writer that leaves or stores re-establishes it. What a writer that leaves has seen
  is an earlier value, so the second condition is about values the field had before.
\<close>

lemma cas_invariant:
  assumes r: "cas_reachable compute v0 n s"
    and init: "I v0 {}"
    and store: "\<And>i v v' D. \<lbrakk>I v D; i < n; i \<notin> D; compute i v = Some v'\<rbrakk> \<Longrightarrow> I v' (insert i D) \<and> R v v'"
    and leave: "\<And>i e v D. \<lbrakk>I v D; R e v; i < n; i \<notin> D; compute i e = None\<rbrakk> \<Longrightarrow> I v (insert i D)"
    and R: "\<And>v. R v v" "\<And>u v w. R u v \<Longrightarrow> R v w \<Longrightarrow> R u w"
  shows "length (cs_writers s) = n \<and> I (cs_field s) (finished_set s) \<and>
    (\<forall>i < n. \<forall>e. cs_writers s ! i = Expecting e \<longrightarrow> R e (cs_field s))"
  using r
proof (induction rule: rtranclp_induct)
  case base
  have "finished_set (cas_init v0 n) = {}" by (auto simp: cas_init_def finished_set_def)
  then show ?case using init by (simp add: cas_init_def)
next
  case (step s s')
  then have len: "length (cs_writers s) = n" and I: "I (cs_field s) (finished_set s)"
    and E: "\<And>i e. i < n \<Longrightarrow> cs_writers s ! i = Expecting e \<Longrightarrow> R e (cs_field s)" by auto
  from step.hyps(2) show ?case
  proof (cases rule: cas_step.cases)
    case (load i ws v)
    then have "finished_set s' = finished_set s" by (auto simp: finished_set_def nth_list_update)
    with load len I E R(1) show ?thesis by (auto simp: nth_list_update)
  next
    case (leave i ws e v)
    then have "finished_set s' = insert i (finished_set s)" "i \<notin> finished_set s"
      by (auto simp: finished_set_def nth_list_update)
    moreover have "I v (insert i (finished_set s))"
      using assms(4)[of v "finished_set s" e i] leave I E[of i e] len calculation by simp
    ultimately show ?thesis using leave len E by (auto simp: nth_list_update)
  next
    case (exchange i ws v v')
    then have D: "finished_set s' = insert i (finished_set s)" "i \<notin> finished_set s"
      by (auto simp: finished_set_def nth_list_update)
    have "I v' (insert i (finished_set s)) \<and> R v v'"
      using store[of v "finished_set s" i v'] exchange I len D by simp
    moreover have "R e v'" if "j < n" "ws ! j = Expecting e" for j e
      using R(2)[of e v v'] E[of j e] calculation that exchange by simp
    ultimately show ?thesis using exchange len D by (auto simp: nth_list_update)
  next
    case (reload i ws e v' v)
    then have "finished_set s' = finished_set s" by (auto simp: finished_set_def nth_list_update)
    with reload len I E R(1) show ?thesis by (auto simp: nth_list_update)
  qed
qed

section \<open>Setting the result\<close>

text \<open>The loop of \<open>SetResultVolatile\<close> of writer \<open>i\<close>, whose own result is \<open>res i\<close>.\<close>

definition set_result_body ::
  "(nat \<Rightarrow> bool) \<Rightarrow> result_code \<Rightarrow> result_code \<Rightarrow> nat \<Rightarrow> result_code \<Rightarrow> result_code option" where
  "set_result_body res successCode failureCode i expected =
     (let codeToSet = (if res i then successCode else failureCode)
      in if expected \<noteq> codeToSet \<and> expected \<noteq> failureCode then Some codeToSet else None)"

lemma set_result_invariant:
  assumes "cas_reachable (set_result_body res successCode failureCode) v0 n s"
    and "successCode \<noteq> failureCode" and "v0 \<noteq> failureCode"
  shows "cs_field s = (if \<exists>i \<in> finished_set s. \<not> res i then failureCode
     else if finished_set s = {} then v0 else successCode)"
proof -
  define I where "I v D \<longleftrightarrow> v = (if \<exists>i \<in> D. \<not> res i then failureCode
     else if D = {} then v0 else successCode)" for v D
  define R where "R u v \<longleftrightarrow> u = v \<or> v = failureCode \<or> (u = v0 \<and> v = successCode)" for u v
  have "length (cs_writers s) = n \<and> I (cs_field s) (finished_set s) \<and>
      (\<forall>i < n. \<forall>e. cs_writers s ! i = Expecting e \<longrightarrow> R e (cs_field s))"
  proof (rule cas_invariant[OF assms(1)])
    show "I v0 {}" by (simp add: I_def)
    show "I v' (insert i D) \<and> R v v'"
      if "I v D" "i < n" "i \<notin> D" "set_result_body res successCode failureCode i v = Some v'" for i v v' D
      using that assms(2,3) by (auto simp: I_def R_def set_result_body_def Let_def split: if_splits)
    show "I v (insert i D)"
      if "I v D" "R e v" "i < n" "i \<notin> D" "set_result_body res successCode failureCode i e = None" for i e v D
      using that assms(2,3) by (auto simp: I_def R_def set_result_body_def Let_def split: if_splits)
    show "R v v" for v by (simp add: R_def)
    show "R u w" if "R u v" "R v w" for u v w using that assms(2,3) by (auto simp: R_def)
  qed
  then show ?thesis by (simp add: I_def)
qed

section \<open>Appending events\<close>

text \<open>The loop of \<open>AppendEventsVolatile\<close>: writer \<open>i\<close> puts its chain before the expected one.\<close>

definition append_events_body ::
  "(nat \<Rightarrow> 'e list) \<Rightarrow> nat \<Rightarrow> 'e list \<Rightarrow> 'e list option" where
  "append_events_body chain i expected = Some (chain i @ expected)"

lemma append_events_invariant:
  assumes "cas_reachable (append_events_body chain) v0 n s"
  shows "\<exists>order. distinct order \<and> set order = finished_set s \<and>
    cs_field s = concat (map chain order) @ v0"
proof -
  define I where "I v D \<longleftrightarrow> (\<exists>order. distinct order \<and> set order = D \<and> v = concat (map chain order) @ v0)" for v D
  have "length (cs_writers s) = n \<and> I (cs_field s) (finished_set s) \<and>
      (\<forall>i < n. \<forall>e. cs_writers s ! i = Expecting e \<longrightarrow> True)"
  proof (rule cas_invariant[OF assms, where R = "\<lambda>_ _. True"])
    show "I v0 {}" by (simp add: I_def)
    show "I v' (insert i D) \<and> True"
      if "I v D" "i < n" "i \<notin> D" "append_events_body chain i v = Some v'" for i v v' D
    proof -
      from that(1) obtain order where "distinct order" "set order = D" "v = concat (map chain order) @ v0"
        unfolding I_def by blast
      with that(3,4) show ?thesis
        unfolding I_def by (intro conjI exI[of _ "i # order"]) (auto simp: append_events_body_def)
    qed
  qed (simp_all add: append_events_body_def)
  then show ?thesis by (simp add: I_def)
qed

end
