(* ===== verification/Risk_Engine.thy ===== *)
theory Risk_Engine
  imports Core_Arithmetic Binary_Commands Unsafe_Utils
begin

text \<open>
  \<open>processors/RiskEngine\<close>: the checks and holds before matching (R1) and the transfers after it
  (R2). Profiles are addressed by user id, as the code holds them by pointer; the pointer to the
  taker's position outlives the position's removal and has a type of its own.
\<close>

unbundle bit_operations_syntax

section \<open>State\<close>

record risk_engine =
  re_shardId :: int
  re_shardMask :: int
  re_symbolSpecs :: symbol_provider
  re_userProfiles :: user_service
  re_incomingData :: incoming
  re_lastPriceCache :: "(int, last_price) umap"
  re_fees :: "(int, int) umap"
  re_adjustments :: "(int, int) umap"
  re_suspends :: "(int, int) umap"
  re_cfgIgnoreRiskProcessing :: bool
  re_cfgMarginTradingEnabled :: bool

definition new_risk_engine :: "int \<Rightarrow> int \<Rightarrow> bool \<Rightarrow> bool \<Rightarrow> exn + risk_engine" where
  "new_risk_engine shardId numShards ignoreRisk marginEnabled =
     (if numShards AND (numShards - 1) \<noteq> 0
      then Inl (Invalid_Argument ''Invalid number of shards - must be power of 2'')
      else Inr \<lparr>re_shardId = shardId, re_shardMask = numShards - 1, re_symbolSpecs = [],
             re_userProfiles = [], re_incomingData = [], re_lastPriceCache = [], re_fees = [],
             re_adjustments = [], re_suspends = [], re_cfgIgnoreRiskProcessing = ignoreRisk,
             re_cfgMarginTradingEnabled = marginEnabled\<rparr>)"

definition uid_for_this_handler :: "int \<Rightarrow> risk_engine \<Rightarrow> bool" where
  "uid_for_this_handler uid re \<longleftrightarrow>
     re_shardMask re = 0 \<or> (uid AND re_shardMask re) = re_shardId re"

definition risk_reset :: "risk_engine \<Rightarrow> risk_engine" where
  "risk_reset re = re\<lparr>re_symbolSpecs := [], re_userProfiles := [], re_incomingData := [],
     re_lastPriceCache := [], re_fees := [], re_adjustments := [], re_suspends := []\<rparr>"

text \<open>Writing through a profile pointer, and \<open>fees_[currency] += amount\<close>.\<close>

definition update_profile :: "int \<Rightarrow> (user_profile \<Rightarrow> user_profile) \<Rightarrow> risk_engine \<Rightarrow> risk_engine" where
  "update_profile uid f re =
     (case um_find (re_userProfiles re) uid of
        None \<Rightarrow> re
      | Some up \<Rightarrow> re\<lparr>re_userProfiles := um_put uid (f up) (re_userProfiles re)\<rparr>)"

definition credit :: "int \<Rightarrow> int \<Rightarrow> int \<Rightarrow> risk_engine \<Rightarrow> risk_engine" where
  "credit uid currency amount re = update_profile uid (profile_add currency amount) re"

definition add_fee :: "int \<Rightarrow> int \<Rightarrow> risk_engine \<Rightarrow> risk_engine" where
  "add_fee currency amount re = re\<lparr>re_fees := um_add currency amount (re_fees re)\<rparr>"

definition or_add_suspended :: "int \<Rightarrow> risk_engine \<Rightarrow> risk_engine" where
  "or_add_suspended uid re =
     re\<lparr>re_userProfiles := snd (get_user_profile_or_add_suspended uid (re_userProfiles re))\<rparr>"

section \<open>Balance adjustments and batch commands\<close>

definition adjust_balance ::
  "int \<Rightarrow> int \<Rightarrow> int \<Rightarrow> int \<Rightarrow> balance_adjustment_type \<Rightarrow> risk_engine \<Rightarrow> result_code \<times> risk_engine" where
  "adjust_balance uid currency amountDiff fundingTransactionId adjustmentType re =
     (case balance_adjustment uid currency amountDiff fundingTransactionId (re_userProfiles re) of
        (res, us) \<Rightarrow>
          if res = SUCCESS
          then (case adjustmentType of
                  ADJUSTMENT \<Rightarrow> (res, re\<lparr>re_userProfiles := us,
                    re_adjustments := um_add currency (- amountDiff) (re_adjustments re)\<rparr>)
                | SUSPEND \<Rightarrow> (res, re\<lparr>re_userProfiles := us,
                    re_suspends := um_add currency (- amountDiff) (re_suspends re)\<rparr>))
          else (res, re))"

datatype binary_message =
    Batch_Add_Symbols "(int \<times> symbol_spec) list"
  | Batch_Add_Accounts "(int \<times> (int \<times> int) list) list"

fun add_symbols :: "(int \<times> symbol_spec) list \<Rightarrow> risk_engine \<Rightarrow> risk_engine" where
  "add_symbols [] re = re"
| "add_symbols ((symbolId, spec) # rest) re =
     add_symbols rest
       (if sp_type spec = CURRENCY_EXCHANGE_PAIR \<or> re_cfgMarginTradingEnabled re
        then re\<lparr>re_symbolSpecs := snd (add_symbol spec (re_symbolSpecs re))\<rparr> else re)"

fun add_account_balances :: "int \<Rightarrow> (int \<times> int) list \<Rightarrow> risk_engine \<Rightarrow> risk_engine" where
  "add_account_balances uid [] re = re"
| "add_account_balances uid ((cur, bal) # rest) re =
     add_account_balances uid rest
       (snd (adjust_balance uid cur bal (1000000000 + cur) ADJUSTMENT re))"

fun add_accounts :: "(int \<times> (int \<times> int) list) list \<Rightarrow> risk_engine \<Rightarrow> risk_engine" where
  "add_accounts [] re = re"
| "add_accounts ((uid, accounts) # rest) re =
     (case add_user uid (re_userProfiles re) of (res, us) \<Rightarrow>
        add_accounts rest
          (if res = SUCCESS then add_account_balances uid accounts (re\<lparr>re_userProfiles := us\<rparr>) else re))"

fun handle_binary_message :: "binary_message \<Rightarrow> risk_engine \<Rightarrow> risk_engine" where
  "handle_binary_message (Batch_Add_Symbols symbols) re = add_symbols symbols re"
| "handle_binary_message (Batch_Add_Accounts users) re = add_accounts users re"

section \<open>R1: placing an order\<close>

text \<open>The funds an exchange order holds: the currency and the amount, or the refusal.\<close>

definition order_hold :: "order_command \<Rightarrow> symbol_spec \<Rightarrow> result_code + (int \<times> int)" where
  "order_hold cmd spec =
     (if cmd_action cmd = BID then
        if cmd_orderType cmd = FOK_BUDGET \<or> cmd_orderType cmd = IOC_BUDGET then
          if cmd_reserveBidPrice cmd \<noteq> cmd_price cmd then Inl RISK_INVALID_RESERVE_BID_PRICE
          else Inr (sp_quoteCurrency spec,
                    calculate_amount_bid_taker_fee_for_budget (cmd_size cmd) (cmd_price cmd) spec)
        else
          if cmd_reserveBidPrice cmd < cmd_price cmd then Inl RISK_INVALID_RESERVE_BID_PRICE
          else Inr (sp_quoteCurrency spec,
                    calculate_amount_bid_taker_fee (cmd_size cmd) (cmd_reserveBidPrice cmd) spec)
      else
        if cmd_price cmd * sp_quoteScaleK spec < sp_takerFee spec then Inl RISK_ASK_PRICE_LOWER_THAN_FEE
        else Inr (sp_baseCurrency spec, calculate_amount_ask (cmd_size cmd) spec))"

definition place_exchange_order ::
  "order_command \<Rightarrow> symbol_spec \<Rightarrow> user_profile \<Rightarrow> result_code \<times> user_profile" where
  "place_exchange_order cmd spec up =
     (case order_hold cmd spec of
        Inl code \<Rightarrow> (code, up)
      | Inr (currency, orderHoldAmount) \<Rightarrow>
          let up1 = up\<lparr>up_accounts := um_touch currency (up_accounts up)\<rparr>;
              currentBalance = um_get0 (up_accounts up1) currency
          in if currentBalance < orderHoldAmount then (RISK_NSF, up1)
             else (VALID_FOR_MATCHING_ENGINE,
                   up1\<lparr>up_accounts := um_put currency (currentBalance - orderHoldAmount) (up_accounts up1)\<rparr>))"

text \<open>
  The loop over the user's positions in iteration order. Other symbols of the currency add their
  profit less their margin; the order's own symbol \<^emph>\<open>sets\<close> the sum to its profit.
\<close>

fun free_margin_loop ::
  "risk_engine \<Rightarrow> int \<Rightarrow> symbol_spec \<Rightarrow> position \<Rightarrow> int \<Rightarrow> (int \<times> position) list \<Rightarrow> int" where
  "free_margin_loop re symbol spec pos freeMargin [] = freeMargin"
| "free_margin_loop re symbol spec pos freeMargin ((recSymbol, p) # ps) =
     (let last = (\<lambda>s. case um_find (re_lastPriceCache re) s of None \<Rightarrow> default_last_price | Some r \<Rightarrow> r)
      in free_margin_loop re symbol spec pos
           (if recSymbol \<noteq> symbol then
              if ps_currency p = sp_quoteCurrency spec then
                case get_symbol_specification recSymbol (re_symbolSpecs re) of
                  None \<Rightarrow> freeMargin
                | Some spec2 \<Rightarrow>
                    freeMargin + estimate_profit spec2 (Some (last recSymbol)) p
                      - required_margin_for_futures spec2 p
              else freeMargin
            else estimate_profit spec (Some (last (sp_symbolId spec))) pos) ps)"

definition can_place_margin_order ::
  "order_command \<Rightarrow> symbol_spec \<Rightarrow> position \<Rightarrow> user_profile \<Rightarrow> risk_engine \<Rightarrow> bool \<times> user_profile" where
  "can_place_margin_order cmd spec pos up re =
     (let newRequiredMargin = required_margin_for_order spec (cmd_action cmd) (cmd_size cmd) pos
      in if newRequiredMargin = -1 then (True, up)
         else let freeMargin = free_margin_loop re (cmd_symbol cmd) spec pos 0 (up_positions up);
                  up1 = up\<lparr>up_accounts := um_touch (ps_currency pos) (up_accounts up)\<rparr>
              in (newRequiredMargin \<le> um_get0 (up_accounts up1) (ps_currency pos) + freeMargin, up1))"

definition remove_position_record :: "position \<Rightarrow> user_profile \<Rightarrow> user_profile" where
  "remove_position_record p up =
     up\<lparr>up_accounts := um_add (ps_currency p) (ps_profit p) (up_accounts up),
        up_positions := um_erase (ps_symbol p) (up_positions up)\<rparr>"

definition place_margin_order ::
  "order_command \<Rightarrow> symbol_spec \<Rightarrow> user_profile \<Rightarrow> risk_engine \<Rightarrow> result_code \<times> user_profile" where
  "place_margin_order cmd spec up re =
     (let (pos, up1) =
            (case um_find (up_positions up) (sp_symbolId spec) of
               Some p \<Rightarrow> (p, up)
             | None \<Rightarrow>
                 let p = position_initialize (cmd_uid cmd) (sp_symbolId spec) (sp_quoteCurrency spec)
                 in (p, up\<lparr>up_positions := um_put (sp_symbolId spec) p (up_positions up)\<rparr>));
          (canPlaceOrder, up2) = can_place_margin_order cmd spec pos up1 re
      in if canPlaceOrder
         then (VALID_FOR_MATCHING_ENGINE,
               up2\<lparr>up_positions := um_put (sp_symbolId spec)
                      (pending_hold (cmd_action cmd) (cmd_size cmd) pos) (up_positions up2)\<rparr>)
         else (RISK_NSF, if position_is_empty pos then remove_position_record pos up2 else up2))"

definition place_order ::
  "order_command \<Rightarrow> symbol_spec \<Rightarrow> user_profile \<Rightarrow> risk_engine \<Rightarrow> result_code \<times> user_profile" where
  "place_order cmd spec up re =
     (case sp_type spec of
        CURRENCY_EXCHANGE_PAIR \<Rightarrow> place_exchange_order cmd spec up
      | FUTURES_CONTRACT \<Rightarrow>
          if \<not> re_cfgMarginTradingEnabled re then (RISK_MARGIN_TRADING_DISABLED, up)
          else place_margin_order cmd spec up re
      | OPTION \<Rightarrow> (UNSUPPORTED_SYMBOL_TYPE, up))"

definition place_order_risk_check :: "order_command \<Rightarrow> risk_engine \<Rightarrow> result_code \<times> risk_engine" where
  "place_order_risk_check cmd re =
     (case get_user_profile (cmd_uid cmd) (re_userProfiles re) of
        None \<Rightarrow> (AUTH_INVALID_USER, re)
      | Some up \<Rightarrow>
          (case get_symbol_specification (cmd_symbol cmd) (re_symbolSpecs re) of
             None \<Rightarrow> (INVALID_SYMBOL, re)
           | Some spec \<Rightarrow>
               if re_cfgIgnoreRiskProcessing re then (VALID_FOR_MATCHING_ENGINE, re)
               else (case place_order cmd spec up re of (code, up1) \<Rightarrow>
                 let re1 = re\<lparr>re_userProfiles := um_put (cmd_uid cmd) up1 (re_userProfiles re)\<rparr>
                 in if code \<noteq> VALID_FOR_MATCHING_ENGINE then (RISK_NSF, re1) else (code, re1))))"

text \<open>
  \<open>PreProcessCommand\<close>. \<open>decode\<close> deserialises a binary message, \<open>report\<close> answers a query with the
  events it is returned in, \<open>store\<close> is the result of writing a snapshot, \<open>None\<close> without a
  serialisation processor. The boolean asks for the sequence to be published at once.
\<close>

definition pre_process_command ::
  "(int list \<Rightarrow> nat \<Rightarrow> exn + binary_message option) \<Rightarrow> (int list \<Rightarrow> nat \<Rightarrow> exn + 'q option) \<Rightarrow>
   ('q \<Rightarrow> risk_engine \<Rightarrow> trade_event list) \<Rightarrow> bool option \<Rightarrow>
   order_command \<Rightarrow> risk_engine \<Rightarrow> exn + (bool \<times> order_command \<times> risk_engine)" where
  "pre_process_command decode decode_query report store cmd re =
     (let mine = uid_for_this_handler (cmd_uid cmd) re;
          result = (\<lambda>code. cmd\<lparr>cmd_resultCode := code\<rparr>);
          with_users = (\<lambda>(code, us). Inr (False, result code, re\<lparr>re_userProfiles := us\<rparr>))
      in case cmd_command cmd of
        PLACE_ORDER \<Rightarrow>
          if mine then (case place_order_risk_check cmd re of (code, re1) \<Rightarrow> Inr (False, result code, re1))
          else Inr (False, cmd, re)
      | ADD_USER \<Rightarrow>
          if mine then with_users (add_user (cmd_uid cmd) (re_userProfiles re)) else Inr (False, cmd, re)
      | BALANCE_ADJUSTMENT \<Rightarrow>
          if mine then
            bindE (balance_adjustment_type_from_code (order_type_to_code (cmd_orderType cmd))) (\<lambda>t.
              case adjust_balance (cmd_uid cmd) (cmd_symbol cmd) (cmd_price cmd) (cmd_orderId cmd) t re of
                (code, re1) \<Rightarrow> Inr (False, result code, re1))
          else Inr (False, cmd, re)
      | SUSPEND_USER \<Rightarrow>
          if mine then with_users (suspend_user (cmd_uid cmd) (re_userProfiles re)) else Inr (False, cmd, re)
      | RESUME_USER \<Rightarrow>
          if mine then with_users (resume_user (cmd_uid cmd) (re_userProfiles re)) else Inr (False, cmd, re)
      | BINARY_DATA_COMMAND \<Rightarrow>
          (case accept_binary_frame decode cmd (re_incomingData re) of (inc, r) \<Rightarrow>
             bindE r (\<lambda>(_, msg).
               let re1 = re\<lparr>re_incomingData := inc\<rparr>
               in Inr (False, if re_shardId re = 0 then result VALID_FOR_MATCHING_ENGINE else cmd,
                       case msg of None \<Rightarrow> re1 | Some m \<Rightarrow> handle_binary_message m re1)))
      | BINARY_DATA_QUERY \<Rightarrow>
          (case accept_binary_frame decode_query cmd (re_incomingData re) of (inc, r) \<Rightarrow>
             bindE r (\<lambda>(_, query).
               let re1 = re\<lparr>re_incomingData := inc\<rparr>;
                   cmd1 = cmd\<lparr>cmd_matcherEvent :=
                     (case query of None \<Rightarrow> [] | Some q \<Rightarrow> report q re1) @ cmd_matcherEvent cmd\<rparr>
               in Inr (False, if re_shardId re = 0 then cmd1\<lparr>cmd_resultCode := VALID_FOR_MATCHING_ENGINE\<rparr>
                              else cmd1, re1)))
      | RESET \<Rightarrow>
          Inr (False, if re_shardId re = 0 then result SUCCESS else cmd, risk_reset re)
      | PERSIST_STATE_MATCHING \<Rightarrow>
          Inr (True, if re_shardId re = 0 then result VALID_FOR_MATCHING_ENGINE else cmd, re)
      | PERSIST_STATE_RISK \<Rightarrow>
          (case store of
             None \<Rightarrow> Inr (False, result SUCCESS, re)
           | Some isSuccess \<Rightarrow>
               Inr (False, set_result_volatile cmd isSuccess SUCCESS STATE_PERSIST_RISK_ENGINE_FAILED, re))
      | _ \<Rightarrow> Inr (False, cmd, re))"

end
