(* ===== verification/Matching_Router.thy ===== *)
theory Matching_Router
  imports Order_Book_Interface Risk_Engine
begin

text \<open>
  \<open>processors/MatchingEngineRouter\<close>: the order books of a shard by symbol, and the routing of
  commands to them. The book operations \<open>ops\<close> and the factory are parameters, as in the code.
\<close>

unbundle bit_operations_syntax

record 'b matching_router =
  me_shardId :: int
  me_shardMask :: int
  me_symbolSpecProvider :: "symbol_provider option"
  me_incomingData :: incoming
  me_orderBooks :: "(int, 'b) umap"
  me_cfgMarginTradingEnabled :: bool
  me_cfgSendL2ForEveryCmd :: bool
  me_cfgL2RefreshDepth :: int

definition new_matching_router ::
  "int \<Rightarrow> int \<Rightarrow> symbol_provider option \<Rightarrow> bool \<Rightarrow> bool \<Rightarrow> int \<Rightarrow> exn + 'b matching_router" where
  "new_matching_router shardId numShards symbols marginEnabled sendL2 depth =
     (if numShards AND (numShards - 1) \<noteq> 0
      then Inl (Invalid_Argument ''Invalid number of shards - must be power of 2'')
      else Inr \<lparr>me_shardId = shardId, me_shardMask = numShards - 1, me_symbolSpecProvider = symbols,
             me_incomingData = [], me_orderBooks = [], me_cfgMarginTradingEnabled = marginEnabled,
             me_cfgSendL2ForEveryCmd = sendL2, me_cfgL2RefreshDepth = depth\<rparr>)"

definition symbol_for_this_handler :: "int \<Rightarrow> 'b matching_router \<Rightarrow> bool" where
  "symbol_for_this_handler symbolId me \<longleftrightarrow>
     me_shardMask me = 0 \<or> (symbolId AND me_shardMask me) = me_shardId me"

definition get_order_book :: "int \<Rightarrow> 'b matching_router \<Rightarrow> 'b option" where
  "get_order_book symbolId me = um_find (me_orderBooks me) symbolId"

definition get_order_books :: "'b matching_router \<Rightarrow> 'b list" where
  "get_order_books me = map snd (me_orderBooks me)"

definition router_add_symbol ::
  "(symbol_spec \<Rightarrow> 'b) \<Rightarrow> symbol_spec \<Rightarrow> 'b matching_router \<Rightarrow> 'b matching_router" where
  "router_add_symbol factory spec me =
     (if sp_type spec \<noteq> CURRENCY_EXCHANGE_PAIR \<and> \<not> me_cfgMarginTradingEnabled me then me
      else if um_find (me_orderBooks me) (sp_symbolId spec) \<noteq> None then me
      else me\<lparr>me_orderBooks := um_put (sp_symbolId spec) (factory spec) (me_orderBooks me),
              me_symbolSpecProvider :=
                map_option (\<lambda>sp. snd (add_symbol spec sp)) (me_symbolSpecProvider me)\<rparr>)"

fun router_add_symbols ::
  "(symbol_spec \<Rightarrow> 'b) \<Rightarrow> (int \<times> symbol_spec) list \<Rightarrow> 'b matching_router \<Rightarrow> 'b matching_router" where
  "router_add_symbols factory [] me = me"
| "router_add_symbols factory ((_, spec) # rest) me =
     router_add_symbols factory rest (router_add_symbol factory spec me)"

fun router_handle_binary_message ::
  "(symbol_spec \<Rightarrow> 'b) \<Rightarrow> binary_message \<Rightarrow> 'b matching_router \<Rightarrow> 'b matching_router" where
  "router_handle_binary_message factory (Batch_Add_Symbols symbols) me =
     router_add_symbols factory symbols me"
| "router_handle_binary_message factory (Batch_Add_Accounts users) me = me"

definition router_reset :: "'b matching_router \<Rightarrow> 'b matching_router" where
  "router_reset me = me\<lparr>me_orderBooks := [], me_incomingData := [],
     me_symbolSpecProvider := map_option (\<lambda>_. []) (me_symbolSpecProvider me)\<rparr>"

text \<open>A command for a book: its result code, and market data when a refresh is due.\<close>

definition process_matching_command ::
  "'b order_book_ops \<Rightarrow> trade_event \<Rightarrow> order_command \<Rightarrow> 'b matching_router
     \<Rightarrow> exn + (order_command \<times> 'b matching_router)" where
  "process_matching_command ops node cmd me =
     (case get_order_book (cmd_symbol cmd) me of
        None \<Rightarrow> Inr (cmd\<lparr>cmd_resultCode := MATCHING_INVALID_ORDER_BOOK_ID\<rparr>, me)
      | Some orderBook \<Rightarrow>
          bindE (process_command ops node orderBook cmd) (\<lambda>(code, orderBook1, cmd1).
            let cmd2 = cmd1\<lparr>cmd_resultCode := code\<rparr>;
                cmd3 = (if (me_cfgSendL2ForEveryCmd me \<or> cmd_serviceFlags cmd2 AND 1 \<noteq> 0) \<and>
                           cmd_command cmd2 \<noteq> ORDER_BOOK_REQUEST \<and> cmd_resultCode cmd2 = SUCCESS
                        then cmd2\<lparr>cmd_marketData := Some (op_l2Snapshot ops (me_cfgL2RefreshDepth me) orderBook1)\<rparr>
                        else cmd2)
            in Inr (cmd3, me\<lparr>me_orderBooks := um_put (cmd_symbol cmd) orderBook1 (me_orderBooks me)\<rparr>)))"

text \<open>
  \<open>ProcessOrder\<close>. \<open>decode\<close>, \<open>decode_query\<close>, \<open>report\<close> and \<open>store\<close> are as for the risk engine.
\<close>

definition process_order ::
  "(int list \<Rightarrow> nat \<Rightarrow> exn + binary_message option) \<Rightarrow> (int list \<Rightarrow> nat \<Rightarrow> exn + 'q option) \<Rightarrow>
   ('q \<Rightarrow> 'b matching_router \<Rightarrow> trade_event list) \<Rightarrow> bool option \<Rightarrow> (symbol_spec \<Rightarrow> 'b) \<Rightarrow>
   'b order_book_ops \<Rightarrow> trade_event \<Rightarrow> order_command \<Rightarrow> 'b matching_router
     \<Rightarrow> exn + (order_command \<times> 'b matching_router)" where
  "process_order decode decode_query report store factory ops node cmd me =
     (let result = (\<lambda>code c. if me_shardId me = 0 then c\<lparr>cmd_resultCode := code\<rparr> else c)
      in if cmd_command cmd \<in> {MOVE_ORDER, CANCEL_ORDER, PLACE_ORDER, REDUCE_ORDER, ORDER_BOOK_REQUEST}
         then if symbol_for_this_handler (cmd_symbol cmd) me
              then process_matching_command ops node cmd me else Inr (cmd, me)
         else if cmd_command cmd = BINARY_DATA_QUERY then
           (case accept_binary_frame decode_query cmd (me_incomingData me) of (inc, r) \<Rightarrow>
              bindE r (\<lambda>(code, query).
                let me1 = me\<lparr>me_incomingData := inc\<rparr>;
                    cmd1 = cmd\<lparr>cmd_matcherEvent :=
                      (case query of None \<Rightarrow> [] | Some q \<Rightarrow> report q me1) @ cmd_matcherEvent cmd\<rparr>
                in Inr (result code cmd1, me1)))
         else if cmd_command cmd = BINARY_DATA_COMMAND then
           (case accept_binary_frame decode cmd (me_incomingData me) of (inc, r) \<Rightarrow>
              bindE r (\<lambda>(code, msg).
                let me1 = me\<lparr>me_incomingData := inc\<rparr>
                in Inr (result code cmd, case msg of None \<Rightarrow> me1
                          | Some m \<Rightarrow> router_handle_binary_message factory m me1)))
         else if cmd_command cmd = RESET then
           Inr (result SUCCESS cmd, me\<lparr>me_orderBooks := [], me_incomingData := []\<rparr>)
         else if cmd_command cmd = NOP then Inr (result SUCCESS cmd, me)
         else if cmd_command cmd = PERSIST_STATE_MATCHING then
           (case store of
              None \<Rightarrow> Inr (cmd\<lparr>cmd_resultCode := STATE_PERSIST_MATCHING_ENGINE_FAILED\<rparr>, me)
            | Some isSuccess \<Rightarrow>
                Inr (set_result_volatile cmd isSuccess ACCEPTED STATE_PERSIST_MATCHING_ENGINE_FAILED, me))
         else Inr (cmd, me))"

text \<open>Routing: a book is only ever touched by commands for its symbol.\<close>

lemma process_matching_command_other_books:
  assumes "process_matching_command ops node cmd me = Inr (cmd', me')" and "s \<noteq> cmd_symbol cmd"
  shows "um_find (me_orderBooks me') s = um_find (me_orderBooks me) s"
  using assms
  by (auto simp: process_matching_command_def get_order_book_def Let_def bindE_def
      split: option.splits sum.splits)

lemma router_add_symbol_lookup:
  "um_find (me_orderBooks (router_add_symbol factory sp me)) s =
     (case um_find (me_orderBooks me) s of
        Some b \<Rightarrow> Some b
      | None \<Rightarrow> if s = sp_symbolId sp \<and> (sp_type sp = CURRENCY_EXCHANGE_PAIR \<or> me_cfgMarginTradingEnabled me)
                then Some (factory sp) else None)"
  by (auto simp: router_add_symbol_def split: option.split)

end
