(* ===== verification/Risk_Transfers.thy ===== *)
theory Risk_Transfers
  imports Risk_Engine
begin

text \<open>
  \<open>RiskEngine::PostProcessCommand\<close> (R2): the transfers that the events of a command cause, and
  the cache of last prices. \<open>taker\<close> is the user id of \<open>takerUp\<close>, \<open>None\<close> when the taker
  belongs to another shard.
\<close>

section \<open>Exchange symbols\<close>

definition handle_reject_reduce_exchange ::
  "order_command \<Rightarrow> trade_event \<Rightarrow> symbol_spec \<Rightarrow> bool \<Rightarrow> int \<Rightarrow> risk_engine \<Rightarrow> risk_engine" where
  "handle_reject_reduce_exchange cmd ev spec takerSell taker re =
     (if takerSell then credit taker (sp_baseCurrency spec) (calculate_amount_ask (ev_size ev) spec) re
      else if cmd_command cmd = PLACE_ORDER \<and> cmd_orderType cmd = FOK_BUDGET
      then credit taker (sp_quoteCurrency spec)
             (calculate_amount_bid_taker_fee_for_budget (ev_size ev) (ev_price ev) spec) re
      else credit taker (sp_quoteCurrency spec)
             (calculate_amount_bid_taker_fee (ev_size ev) (ev_bidderHoldPrice ev) spec) re)"

text \<open>The sums a loop over the trade events collects.\<close>

record trade_sums =
  ts_takerSize :: int
  ts_makerSize :: int
  ts_takerSizePrice :: int
  ts_takerSizePriceHeld :: int

definition zero_sums :: trade_sums where
  "zero_sums = \<lparr>ts_takerSize = 0, ts_makerSize = 0, ts_takerSizePrice = 0, ts_takerSizePriceHeld = 0\<rparr>"

definition sell_event ::
  "symbol_spec \<Rightarrow> int option \<Rightarrow> trade_event \<Rightarrow> trade_sums \<times> risk_engine \<Rightarrow> trade_sums \<times> risk_engine" where
  "sell_event spec taker ev = (\<lambda>(ts, re).
     let ts1 = (if taker \<noteq> None
                then ts\<lparr>ts_takerSizePrice := ts_takerSizePrice ts + ev_size ev * ev_price ev,
                        ts_takerSize := ts_takerSize ts + ev_size ev\<rparr> else ts);
         maker = ev_matchedOrderUid ev; sz = ev_size ev
     in if uid_for_this_handler maker re
        then let priceDiff = ev_bidderHoldPrice ev - ev_price ev;
                 re1 = or_add_suspended maker re;
                 re2 = credit maker (sp_quoteCurrency spec)
                         (calculate_amount_bid_release_corr_maker sz priceDiff spec) re1;
                 re3 = credit maker (sp_baseCurrency spec) (calculate_amount_ask sz spec) re2
             in (ts1\<lparr>ts_makerSize := ts_makerSize ts1 + sz\<rparr>, re3)
        else (ts1, re))"

definition collect_fees :: "symbol_spec \<Rightarrow> trade_sums \<Rightarrow> risk_engine \<Rightarrow> risk_engine" where
  "collect_fees spec ts re =
     (if ts_takerSize ts \<noteq> 0 \<or> ts_makerSize ts \<noteq> 0
      then add_fee (sp_quoteCurrency spec)
             (sp_takerFee spec * ts_takerSize ts + sp_makerFee spec * ts_makerSize ts) re
      else re)"

definition handle_events_exchange_sell ::
  "trade_event list \<Rightarrow> symbol_spec \<Rightarrow> int option \<Rightarrow> risk_engine \<Rightarrow> risk_engine" where
  "handle_events_exchange_sell evs spec taker re =
     (let (ts, re1) = fold (sell_event spec taker) evs (zero_sums, re);
          re2 = (case taker of
                   None \<Rightarrow> re1
                 | Some uid \<Rightarrow> credit uid (sp_quoteCurrency spec)
                     (ts_takerSizePrice ts * sp_quoteScaleK spec - sp_takerFee spec * ts_takerSize ts) re1)
      in collect_fees spec ts re2)"

definition buy_event ::
  "symbol_spec \<Rightarrow> int option \<Rightarrow> trade_event \<Rightarrow> trade_sums \<times> risk_engine \<Rightarrow> trade_sums \<times> risk_engine" where
  "buy_event spec taker ev = (\<lambda>(ts, re).
     let ts1 = (if taker \<noteq> None
                then ts\<lparr>ts_takerSizePrice := ts_takerSizePrice ts + ev_size ev * ev_price ev,
                        ts_takerSizePriceHeld := ts_takerSizePriceHeld ts + ev_size ev * ev_bidderHoldPrice ev,
                        ts_takerSize := ts_takerSize ts + ev_size ev\<rparr> else ts);
         maker = ev_matchedOrderUid ev; sz = ev_size ev
     in if uid_for_this_handler maker re
        then let re1 = or_add_suspended maker re;
                 re2 = credit maker (sp_quoteCurrency spec)
                         (calculate_amount_bid sz (ev_price ev) spec - sp_makerFee spec * sz) re1
             in (ts1\<lparr>ts_makerSize := ts_makerSize ts1 + sz\<rparr>, re2)
        else (ts1, re))"

definition handle_events_exchange_buy ::
  "trade_event list \<Rightarrow> symbol_spec \<Rightarrow> int option \<Rightarrow> order_command \<Rightarrow> risk_engine \<Rightarrow> risk_engine" where
  "handle_events_exchange_buy evs spec taker cmd re =
     (let (ts, re1) = fold (buy_event spec taker) evs (zero_sums, re);
          re2 = (case taker of
                   None \<Rightarrow> re1
                 | Some uid \<Rightarrow>
                     let held = (if cmd_command cmd = PLACE_ORDER \<and> cmd_orderType cmd = FOK_BUDGET
                                 then cmd_price cmd else ts_takerSizePriceHeld ts);
                         balanceDiff = (held - ts_takerSizePrice ts) * sp_quoteScaleK spec
                     in credit uid (sp_baseCurrency spec) (ts_takerSize ts * sp_baseScaleK spec)
                          (credit uid (sp_quoteCurrency spec) balanceDiff re1))
      in collect_fees spec ts re2)"

section \<open>Margin symbols\<close>

text \<open>
  A pointer to a position: the record at a symbol of the user's positions, or, once that record
  has been removed from there, the object it left behind.
\<close>

datatype spr_ref = Attached int | Detached position

definition read_spr :: "int \<Rightarrow> spr_ref \<Rightarrow> risk_engine \<Rightarrow> exn + position" where
  "read_spr uid ref re =
     (case ref of
        Detached p \<Rightarrow> Inr p
      | Attached symbol \<Rightarrow>
          (case um_find (re_userProfiles re) uid of
             None \<Rightarrow> Inl Dangling_Pointer
           | Some up \<Rightarrow> get_position_record symbol up))"

definition write_spr :: "int \<Rightarrow> position \<Rightarrow> spr_ref \<Rightarrow> risk_engine \<Rightarrow> spr_ref \<times> risk_engine" where
  "write_spr uid p ref re =
     (case ref of
        Detached _ \<Rightarrow> (Detached p, re)
      | Attached symbol \<Rightarrow> (Attached symbol,
          update_profile uid (\<lambda>up. up\<lparr>up_positions := um_put symbol p (up_positions up)\<rparr>) re))"

text \<open>The trade of one party: its position and its fee.\<close>

definition party_trade ::
  "int \<Rightarrow> symbol_spec \<Rightarrow> order_action \<Rightarrow> int \<Rightarrow> trade_event \<Rightarrow> position \<Rightarrow> spr_ref \<Rightarrow> risk_engine
     \<Rightarrow> position \<times> spr_ref \<times> risk_engine" where
  "party_trade uid spec action feePerLot ev p ref re =
     (let (sizeOpen, p1) = update_position_for_margin_trade action (ev_size ev) (ev_price ev) p;
          (ref1, re1) = write_spr uid p1 ref re;
          fee = feePerLot * sizeOpen
      in (p1, ref1, add_fee (sp_quoteCurrency spec) fee (credit uid (sp_quoteCurrency spec) (- fee) re1)))"

definition drop_empty_position :: "int \<Rightarrow> position \<Rightarrow> spr_ref \<Rightarrow> risk_engine \<Rightarrow> spr_ref \<times> risk_engine" where
  "drop_empty_position uid p ref re =
     (if position_is_empty p then (Detached p, update_profile uid (remove_position_record p) re)
      else (ref, re))"

definition handle_event_margin_taker ::
  "trade_event \<Rightarrow> symbol_spec \<Rightarrow> order_action \<Rightarrow> int \<Rightarrow> spr_ref \<Rightarrow> risk_engine \<Rightarrow> exn + (spr_ref \<times> risk_engine)" where
  "handle_event_margin_taker ev spec takerAction uid ref re =
     bindE (read_spr uid ref re) (\<lambda>p.
       let (p1, ref1, re1) =
             (case ev_eventType ev of
                TRADE \<Rightarrow> party_trade uid spec takerAction (sp_takerFee spec) ev p ref re
              | BINARY_EVENT \<Rightarrow> (p, ref, re)
              | _ \<Rightarrow> let p1 = pending_release takerAction (ev_size ev) p
                     in (p1, write_spr uid p1 ref re))
       in Inr (drop_empty_position uid p1 ref1 re1))"

text \<open>
  The maker's part. When the maker is the taker and the record the taker's pointer refers to is
  removed, that pointer is left with the detached object.
\<close>

definition handle_event_margin_maker ::
  "trade_event \<Rightarrow> symbol_spec \<Rightarrow> order_action \<Rightarrow> int option \<Rightarrow> spr_ref \<Rightarrow> risk_engine
     \<Rightarrow> exn + (spr_ref \<times> risk_engine)" where
  "handle_event_margin_maker ev spec takerAction taker ref re =
     (let maker = ev_matchedOrderUid ev; makerRef = Attached (sp_symbolId spec) in
      if ev_eventType ev = TRADE \<and> uid_for_this_handler maker re
      then let re0 = or_add_suspended maker re
           in bindE (read_spr maker makerRef re0) (\<lambda>p.
                let (p1, _, re1) = party_trade maker spec (opposite takerAction) (sp_makerFee spec) ev p makerRef re0;
                    (ref1, re2) = drop_empty_position maker p1 makerRef re1
                in Inr (if taker = Some maker \<and> ref = makerRef then ref1 else ref, re2))
      else Inr (ref, re))"

definition handle_event_margin ::
  "trade_event \<Rightarrow> symbol_spec \<Rightarrow> order_action \<Rightarrow> int option \<Rightarrow> spr_ref \<Rightarrow> risk_engine
     \<Rightarrow> exn + (spr_ref \<times> risk_engine)" where
  "handle_event_margin ev spec takerAction taker ref re =
     bindE (case taker of
              None \<Rightarrow> Inr (ref, re)
            | Some uid \<Rightarrow> handle_event_margin_taker ev spec takerAction uid ref re)
       (\<lambda>(ref1, re1). handle_event_margin_maker ev spec takerAction taker ref1 re1)"

fun handle_events_margin ::
  "trade_event list \<Rightarrow> symbol_spec \<Rightarrow> order_action \<Rightarrow> int option \<Rightarrow> spr_ref \<Rightarrow> risk_engine \<Rightarrow> exn + risk_engine" where
  "handle_events_margin [] spec takerAction taker ref re = Inr re"
| "handle_events_margin (ev # evs) spec takerAction taker ref re =
     bindE (handle_event_margin ev spec takerAction taker ref re)
       (\<lambda>(ref1, re1). handle_events_margin evs spec takerAction taker ref1 re1)"

section \<open>PostProcessCommand\<close>

definition post_process_exchange ::
  "order_command \<Rightarrow> trade_event \<Rightarrow> trade_event list \<Rightarrow> symbol_spec \<Rightarrow> risk_engine \<Rightarrow> risk_engine" where
  "post_process_exchange cmd ev evs spec re =
     (let takerSell = (cmd_action cmd = ASK);
          mine = uid_for_this_handler (cmd_uid cmd) re;
          re1 = (if mine then or_add_suspended (cmd_uid cmd) re else re);
          taker = (if mine then Some (cmd_uid cmd) else None);
          single = (ev_eventType ev = REDUCE \<or> ev_eventType ev = REJECT);
          re2 = (if single \<and> mine
                 then handle_reject_reduce_exchange cmd ev spec takerSell (cmd_uid cmd) re1 else re1);
          trades = (if single then evs else ev # evs)
      in if trades = [] then re2
         else if takerSell then handle_events_exchange_sell trades spec taker re2
         else handle_events_exchange_buy trades spec taker cmd re2)"

definition post_process_margin ::
  "order_command \<Rightarrow> trade_event list \<Rightarrow> symbol_spec \<Rightarrow> risk_engine \<Rightarrow> exn + risk_engine" where
  "post_process_margin cmd evs spec re =
     (if uid_for_this_handler (cmd_uid cmd) re
      then let re1 = or_add_suspended (cmd_uid cmd) re; takerSpr = Attached (cmd_symbol cmd)
           in bindE (read_spr (cmd_uid cmd) takerSpr re1) (\<lambda>_.
                handle_events_margin evs spec (cmd_action cmd) (Some (cmd_uid cmd)) takerSpr re1)
      else handle_events_margin evs spec (cmd_action cmd) None (Attached (cmd_symbol cmd)) re)"

definition record_last_price :: "int \<Rightarrow> l2_market_data \<Rightarrow> risk_engine \<Rightarrow> risk_engine" where
  "record_last_price symbol md re =
     re\<lparr>re_lastPriceCache := um_put symbol
         \<lparr>lp_askPrice = (if l2_askSize md \<noteq> 0 then l2_askPrices md ! 0 else INT64_MAX),
          lp_bidPrice = (if l2_bidSize md \<noteq> 0 then l2_bidPrices md ! 0 else 0)\<rparr> (re_lastPriceCache re)\<rparr>"

definition post_process_command :: "order_command \<Rightarrow> risk_engine \<Rightarrow> exn + risk_engine" where
  "post_process_command cmd re =
     (let no_events = (case cmd_matcherEvent cmd of [] \<Rightarrow> True | ev # _ \<Rightarrow> ev_eventType ev = BINARY_EVENT)
      in if cmd_marketData cmd = None \<and> no_events then Inr re
         else case get_symbol_specification (cmd_symbol cmd) (re_symbolSpecs re) of
           None \<Rightarrow> Inl (Runtime_Error ''Symbol not found'')
         | Some spec \<Rightarrow>
             bindE (if no_events then Inr re
                    else case sp_type spec of
                      CURRENCY_EXCHANGE_PAIR \<Rightarrow>
                        Inr (post_process_exchange cmd (hd (cmd_matcherEvent cmd))
                               (tl (cmd_matcherEvent cmd)) spec re)
                    | FUTURES_CONTRACT \<Rightarrow> post_process_margin cmd (cmd_matcherEvent cmd) spec re
                    | OPTION \<Rightarrow> Inr re)
               (\<lambda>re1. Inr (case cmd_marketData cmd of
                  Some md \<Rightarrow> if re_cfgMarginTradingEnabled re1 then record_last_price (cmd_symbol cmd) md re1 else re1
                | None \<Rightarrow> re1)))"

end
