(* ===== verification/Risk_Conservation.thy ===== *)
theory Risk_Conservation
  imports Risk_Transfers Order_Book_Interface
begin

text \<open>
  Exchange symbols: what an order at rest holds, and what the transfers of a command add to the
  accounts and the fees. The two agree, so money is only moved.
\<close>

section \<open>Frames\<close>

text \<open>Crediting, adding a profile and taking a fee touch nothing else.\<close>

lemma risk_frames [simp]:
  "re_shardMask (update_profile u f re) = re_shardMask re"
  "re_shardId (update_profile u f re) = re_shardId re"
  "re_fees (update_profile u f re) = re_fees re"
  "re_symbolSpecs (update_profile u f re) = re_symbolSpecs re"
  "re_shardMask (credit u c x re) = re_shardMask re"
  "re_shardId (credit u c x re) = re_shardId re"
  "re_fees (credit u c x re) = re_fees re"
  "re_symbolSpecs (credit u c x re) = re_symbolSpecs re"
  "re_shardMask (or_add_suspended u re) = re_shardMask re"
  "re_shardId (or_add_suspended u re) = re_shardId re"
  "re_fees (or_add_suspended u re) = re_fees re"
  "re_symbolSpecs (or_add_suspended u re) = re_symbolSpecs re"
  "re_shardMask (add_fee c x re) = re_shardMask re"
  "re_shardId (add_fee c x re) = re_shardId re"
  "re_userProfiles (add_fee c x re) = re_userProfiles re"
  "re_symbolSpecs (add_fee c x re) = re_symbolSpecs re"
  "um_get0 (re_fees (add_fee c x re)) c' = um_get0 (re_fees re) c' + (if c' = c then x else 0)"
  by (simp_all add: update_profile_def credit_def or_add_suspended_def add_fee_def split: option.split)

lemma single_shard [simp]: "re_shardMask re = 0 \<Longrightarrow> uid_for_this_handler uid re"
  by (simp add: uid_for_this_handler_def)

definition known :: "int \<Rightarrow> risk_engine \<Rightarrow> bool" where
  "known uid re \<longleftrightarrow> um_find (re_userProfiles re) uid \<noteq> None"

lemma known_simps [simp]:
  "known u (or_add_suspended u re)"
  "known u re \<Longrightarrow> known u (or_add_suspended u' re)"
  "known u (update_profile u' f re) = known u re"
  "known u (credit u' c x re) = known u re"
  "known u (add_fee c x re) = known u re"
  by (auto simp: known_def or_add_suspended_def get_user_profile_or_add_suspended_def Let_def
      update_profile_def credit_def split: option.splits)

text \<open>The accounts of all users plus the fees, in one currency.\<close>

definition re_total :: "int \<Rightarrow> risk_engine \<Rightarrow> int" where
  "re_total c re = total_accounts c (re_userProfiles re) + um_get0 (re_fees re) c"

lemma total_credit [simp]:
  "known u re \<Longrightarrow> total_accounts c (re_userProfiles (credit u c' x re)) =
     total_accounts c (re_userProfiles re) + (if c = c' then x else 0)"
  by (auto simp: known_def credit_def update_profile_def total_accounts_put)

lemma total_or_add [simp]:
  "total_accounts c (re_userProfiles (or_add_suspended u re)) = total_accounts c (re_userProfiles re)"
  using total_accounts_or_add[of u "re_userProfiles re"]
  by (cases "get_user_profile_or_add_suspended u (re_userProfiles re)")
    (simp add: or_add_suspended_def)

section \<open>What is held\<close>

text \<open>
  What an order of an action and a reserve price holds for a size, and what all orders of a
  book hold: the sum that \<open>TotalCurrencyBalanceReportQuery\<close> computes from an order book.
\<close>

definition hold_of :: "symbol_spec \<Rightarrow> int \<Rightarrow> order_action \<Rightarrow> int \<Rightarrow> int \<Rightarrow> int" where
  "hold_of spec c action reserve sz =
     (if action = ASK then if c = sp_baseCurrency spec then calculate_amount_ask sz spec else 0
      else if c = sp_quoteCurrency spec then calculate_amount_bid_taker_fee sz reserve spec else 0)"

definition orders_balance :: "symbol_spec \<Rightarrow> int \<Rightarrow> order list \<Rightarrow> int" where
  "orders_balance spec c os =
     sum_list (map (\<lambda>x. hold_of spec c (ord_action x) (ord_reserveBidPrice x) (remaining x)) os)"

definition book_balance :: "symbol_spec \<Rightarrow> int \<Rightarrow> flat_book \<Rightarrow> int" where
  "book_balance spec c fb = orders_balance spec c (fb_asks fb) + orders_balance spec c (fb_bids fb)"

text \<open>What a chain of trades releases: base for the buyer, the held quote for the seller.\<close>

definition trades_release :: "symbol_spec \<Rightarrow> int \<Rightarrow> trade_event list \<Rightarrow> int" where
  "trades_release spec c evs =
     sum_list (map (\<lambda>e. (if c = sp_baseCurrency spec then calculate_amount_ask (ev_size e) spec else 0) +
       (if c = sp_quoteCurrency spec
        then calculate_amount_bid_taker_fee (ev_size e) (ev_bidderHoldPrice e) spec else 0)) evs)"

lemma balance_simps [simp]:
  "orders_balance spec c [] = 0"
  "orders_balance spec c (x # os) =
     hold_of spec c (ord_action x) (ord_reserveBidPrice x) (remaining x) + orders_balance spec c os"
  "orders_balance spec c (os @ os') = orders_balance spec c os + orders_balance spec c os'"
  "trades_release spec c [] = 0"
  "trades_release spec c (e # evs) =
     (if c = sp_baseCurrency spec then calculate_amount_ask (ev_size e) spec else 0) +
     (if c = sp_quoteCurrency spec
      then calculate_amount_bid_taker_fee (ev_size e) (ev_bidderHoldPrice e) spec else 0) +
     trades_release spec c evs"
  by (simp_all add: orders_balance_def trades_release_def)

lemma hold_of_add: "hold_of spec c a r (x + y) = hold_of spec c a r x + hold_of spec c a r y"
  by (simp add: hold_of_def amount_defs algebra_simps)

lemma hold_of_zero [simp]: "hold_of spec c a r 0 = 0"
  by (simp add: hold_of_def amount_defs)

lemma book_balance_sides:
  "book_balance spec c fb =
     orders_balance spec c (fb_side s fb) + orders_balance spec c (fb_side (opposite s) fb)"
  by (cases s) (simp_all add: book_balance_def)

section \<open>Matching\<close>

lemma fill_balance:
  assumes "\<forall>x \<in> set os. resting (opposite a) x" and "fill ok r vol os = (os', evs, f)"
  shows "orders_balance spec c os + hold_of spec c a r f =
    orders_balance spec c os' + trades_release spec c evs"
  using assms
proof (induction vol os arbitrary: os' evs f rule: fill_induct[where ok = ok])
  case (Full vol x os)
  obtain os1 evs1 f1 where *: "fill ok r (vol - remaining x) os = (os1, evs1, f1)"
    by (metis prod_cases3)
  have "ord_action x = opposite a" using Full(1) by (simp add: resting_def)
  with Full.IH[OF *] Full * show ?case
    by (cases a) (auto simp: fill_Cons_full hold_of_def amount_defs algebra_simps simp del: fill.simps)
next
  case (Part vol x os)
  have "ord_action x = opposite a" using Part(1) by (simp add: resting_def)
  with Part show ?case
    by (cases a) (auto simp: fill_Cons_part hold_of_def amount_defs remaining_def algebra_simps
        simp del: fill.simps)
qed auto

text \<open>A buyer's trades with asks all carry the buyer's own reserve price.\<close>

lemma fill_hold_price:
  assumes "\<forall>x \<in> set os. resting ASK x" and "fill ok r vol os = (os', evs, f)"
  shows "\<forall>e \<in> set evs. ev_bidderHoldPrice e = r"
  using assms
proof (induction vol os arbitrary: os' evs f rule: fill_induct[where ok = ok])
  case (Full vol x os)
  obtain os1 evs1 f1 where *: "fill ok r (vol - remaining x) os = (os1, evs1, f1)"
    by (metis prod_cases3)
  have "ord_action x = ASK" using Full(1) by (simp add: resting_def)
  with Full.IH[OF *] Full * show ?case by (auto simp: fill_Cons_full simp del: fill.simps)
next
  case (Part vol x os)
  have "ord_action x = ASK" using Part(1) by (simp add: resting_def)
  with Part show ?case by (auto simp: fill_Cons_part simp del: fill.simps)
qed (auto split: if_splits)

lemma flat_match_balance:
  assumes "flat_ok fb" and "flat_match io ok fb cmd = (fb', cmd', filled)"
  shows "\<exists>evs. cmd' = set_events evs cmd \<and> (\<forall>e \<in> set evs. ev_eventType e = TRADE) \<and>
    events_size evs = filled - io_filled io \<and>
    (io_action io = BID \<longrightarrow> (\<forall>e \<in> set evs. ev_bidderHoldPrice e = io_reserveBidPrice io)) \<and>
    book_balance spec c fb + hold_of spec c (io_action io) (io_reserveBidPrice io) (filled - io_filled io) =
      book_balance spec c fb' + trades_release spec c evs"
proof -
  let ?s = "io_action io"
  obtain os' evs f where F: "fill ok (io_reserveBidPrice io) (io_size io - io_filled io)
      (fb_side (opposite ?s) fb) = (os', evs, f)" by (metis prod_cases3)
  with assms(2) have E: "fb' = fb_set_side (opposite ?s) os' fb" "cmd' = set_events evs cmd"
    "filled = io_filled io + f" by (auto simp: flat_match_def)
  have R: "\<forall>x \<in> set (fb_side (opposite ?s) fb). resting (opposite ?s) x"
    using side_okD[OF flat_ok_side[OF assms(1)]] .
  have S: "fb_side ?s fb' = fb_side ?s fb" "fb_side (opposite ?s) fb' = os'"
    by (simp_all add: E(1) fb_side_set_if)
  have "?s = BID \<Longrightarrow> \<forall>e \<in> set evs. ev_bidderHoldPrice e = io_reserveBidPrice io"
    using fill_hold_price[OF _ F] R by simp
  moreover have "\<forall>e \<in> set evs. ev_eventType e = TRADE" "events_size evs = f"
    using fill_events[OF R F] fill_volume[OF R F] by auto
  ultimately show ?thesis
    using fill_balance[OF R F, of spec c] E(2,3) S
    by (intro exI[of _ evs]) (simp add: book_balance_sides[of _ _ _ ?s])
qed

lemma cmd_match_balance:
  assumes "flat_ok fb" and "flat_match (cmd_iorder cmd) ok fb cmd = (fb', cmd', filled)"
  shows "\<exists>evs. cmd' = set_events evs cmd \<and> (\<forall>e \<in> set evs. ev_eventType e = TRADE) \<and>
    events_size evs = filled \<and>
    (cmd_action cmd = BID \<longrightarrow> (\<forall>e \<in> set evs. ev_bidderHoldPrice e = cmd_reserveBidPrice cmd)) \<and>
    book_balance spec c fb + hold_of spec c (cmd_action cmd) (cmd_reserveBidPrice cmd) filled =
      book_balance spec c fb' + trades_release spec c evs"
  using flat_match_balance[OF assms, of spec c] by simp

lemma orders_balance_insert [simp]:
  "orders_balance spec c (insert_order s x os) =
     hold_of spec c (ord_action x) (ord_reserveBidPrice x) (remaining x) + orders_balance spec c os"
  by (induction os) auto

lemma book_balance_insert:
  "book_balance spec c (fb_insert x fb) =
     book_balance spec c fb + hold_of spec c (ord_action x) (ord_reserveBidPrice x) (remaining x)"
  unfolding book_balance_sides[of _ _ _ "ord_action x"] by simp

lemma orders_balance_remove:
  assumes "distinct (map ord_orderId os)" and "x \<in> set os"
  shows "orders_balance spec c os = orders_balance spec c (filter (\<lambda>y. ord_orderId y \<noteq> ord_orderId x) os) +
    hold_of spec c (ord_action x) (ord_reserveBidPrice x) (remaining x)"
  using assms
proof (induction os)
  case Nil
  then show ?case by simp
next
  case (Cons y os)
  show ?case
  proof (cases "y = x")
    case True
    then have "\<forall>z \<in> set os. ord_orderId z \<noteq> ord_orderId x" using Cons.prems(1) by (auto simp: image_iff)
    then have "filter (\<lambda>z. ord_orderId z \<noteq> ord_orderId x) os = os" by (simp add: filter_id_conv)
    with True show ?thesis by simp
  next
    case False
    with Cons show ?thesis by auto
  qed
qed

lemma book_balance_remove:
  assumes ok: "flat_ok fb" and f: "fb_find i fb = Some x"
  shows "book_balance spec c fb = book_balance spec c (fb_remove i fb) +
    hold_of spec c (ord_action x) (ord_reserveBidPrice x) (remaining x)"
proof -
  have "book_balance spec c fb' = orders_balance spec c (fb_orders fb')" for fb'
    by (simp add: book_balance_def fb_orders_def)
  moreover have "x \<in> set (fb_orders fb)" "ord_orderId x = i" using fb_find_Some[OF f] by auto
  ultimately show ?thesis
    using orders_balance_remove[of "fb_orders fb" x spec c] ok
    by (simp add: fb_remove_orders flat_ok_def)
qed

lemma book_balance_resize:
  assumes ok: "flat_ok fb" and f: "fb_find i fb = Some x"
  shows "book_balance spec c fb = book_balance spec c (fb_resize i v fb) +
    hold_of spec c (ord_action x) (ord_reserveBidPrice x) v"
proof -
  have "orders_balance spec c os =
      orders_balance spec c (map (\<lambda>y. if ord_orderId y = i then y\<lparr>ord_size := ord_size y - v\<rparr> else y) os) +
      hold_of spec c (ord_action x) (ord_reserveBidPrice x) v"
    if "distinct (map ord_orderId os)" "x \<in> set os" "ord_orderId x = i" for os
    using that
  proof (induction os)
    case Nil
    then show ?case by simp
  next
    case (Cons y os)
    show ?case
    proof (cases "y = x")
      case True
      then have "\<forall>z \<in> set os. ord_orderId z \<noteq> i" using Cons.prems(1,3) by (auto simp: image_iff)
      then have "map (\<lambda>y. if ord_orderId y = i then y\<lparr>ord_size := ord_size y - v\<rparr> else y) os = os"
        by (simp add: map_idI)
      with True Cons.prems(3) show ?thesis
        by (simp add: hold_of_def amount_defs remaining_def algebra_simps)
    next
      case False
      with Cons show ?thesis by auto
    qed
  qed
  moreover have "book_balance spec c fb' = orders_balance spec c (fb_orders fb')" for fb'
    by (simp add: book_balance_def fb_orders_def)
  moreover have "fb_orders (fb_resize i v fb) =
      map (\<lambda>y. if ord_orderId y = i then y\<lparr>ord_size := ord_size y - v\<rparr> else y) (fb_orders fb)"
    by (simp add: fb_resize_def fb_orders_def Let_def)
  moreover have "x \<in> set (fb_orders fb)" "ord_orderId x = i" using fb_find_Some[OF f] by auto
  ultimately show ?thesis using ok by (simp add: flat_ok_def)
qed

section \<open>The transfers of a command\<close>

definition events_price :: "trade_event list \<Rightarrow> int" where
  "events_price evs = sum_list (map (\<lambda>e. ev_size e * ev_price e) evs)"

definition events_held :: "trade_event list \<Rightarrow> int" where
  "events_held evs = sum_list (map (\<lambda>e. ev_size e * ev_bidderHoldPrice e) evs)"

lemma events_sum_simps [simp]:
  "events_price [] = 0" "events_price (e # evs) = ev_size e * ev_price e + events_price evs"
  "events_held [] = 0" "events_held (e # evs) = ev_size e * ev_bidderHoldPrice e + events_held evs"
  by (simp_all add: events_price_def events_held_def)

lemma trades_release_sums:
  "trades_release spec c evs =
     (if c = sp_baseCurrency spec then events_size evs * sp_baseScaleK spec else 0) +
     (if c = sp_quoteCurrency spec
      then events_held evs * sp_quoteScaleK spec + events_size evs * sp_takerFee spec else 0)"
  by (induction evs) (auto simp: amount_defs algebra_simps)

lemma sell_event_eq:
  assumes "re_shardMask re = 0" and "known t re"
  shows "\<exists>re'. sell_event spec (Some t) ev (ts, re) =
      (ts\<lparr>ts_takerSizePrice := ts_takerSizePrice ts + ev_size ev * ev_price ev,
          ts_takerSize := ts_takerSize ts + ev_size ev,
          ts_makerSize := ts_makerSize ts + ev_size ev\<rparr>, re') \<and>
    re_shardMask re' = 0 \<and> known t re' \<and> re_fees re' = re_fees re \<and>
    total_accounts c (re_userProfiles re') = total_accounts c (re_userProfiles re) +
      (if c = sp_quoteCurrency spec
       then calculate_amount_bid_release_corr_maker (ev_size ev) (ev_bidderHoldPrice ev - ev_price ev) spec else 0) +
      (if c = sp_baseCurrency spec then calculate_amount_ask (ev_size ev) spec else 0)"
  using assms by (simp add: sell_event_def Let_def)

lemma sell_fold:
  assumes "re_shardMask re = 0" and "known t re"
  shows "\<exists>ts' re'. fold (sell_event spec (Some t)) evs (ts, re) = (ts', re') \<and>
    ts_takerSize ts' = ts_takerSize ts + events_size evs \<and>
    ts_makerSize ts' = ts_makerSize ts + events_size evs \<and>
    ts_takerSizePrice ts' = ts_takerSizePrice ts + events_price evs \<and>
    re_shardMask re' = 0 \<and> known t re' \<and> re_fees re' = re_fees re \<and>
    total_accounts c (re_userProfiles re') = total_accounts c (re_userProfiles re) +
      (if c = sp_quoteCurrency spec
       then (events_held evs - events_price evs) * sp_quoteScaleK spec +
            events_size evs * (sp_takerFee spec - sp_makerFee spec) else 0) +
      (if c = sp_baseCurrency spec then events_size evs * sp_baseScaleK spec else 0)"
  using assms
proof (induction evs arbitrary: ts re)
  case Nil
  then show ?case by simp
next
  case (Cons ev evs)
  let ?ts = "ts\<lparr>ts_takerSizePrice := ts_takerSizePrice ts + ev_size ev * ev_price ev,
          ts_takerSize := ts_takerSize ts + ev_size ev,
          ts_makerSize := ts_makerSize ts + ev_size ev\<rparr>"
  obtain re1 where 1: "sell_event spec (Some t) ev (ts, re) = (?ts, re1)"
    "re_shardMask re1 = 0" "known t re1" "re_fees re1 = re_fees re"
    "total_accounts c (re_userProfiles re1) = total_accounts c (re_userProfiles re) +
      (if c = sp_quoteCurrency spec
       then calculate_amount_bid_release_corr_maker (ev_size ev) (ev_bidderHoldPrice ev - ev_price ev) spec else 0) +
      (if c = sp_baseCurrency spec then calculate_amount_ask (ev_size ev) spec else 0)"
    using sell_event_eq[OF Cons.prems] by blast
  from Cons.IH[OF 1(2,3), of ?ts] 1 show ?case
    by (auto simp: amount_defs algebra_simps)
qed

lemma handle_sell_total:
  assumes "re_shardMask re = 0" and "known t re"
  shows "re_total c (handle_events_exchange_sell evs spec (Some t) re) =
    re_total c re + trades_release spec c evs"
proof -
  obtain ts re1 where F: "fold (sell_event spec (Some t)) evs (zero_sums, re) = (ts, re1)"
    "ts_takerSize ts = events_size evs" "ts_makerSize ts = events_size evs"
    "ts_takerSizePrice ts = events_price evs" "known t re1" "re_fees re1 = re_fees re"
    "total_accounts c (re_userProfiles re1) = total_accounts c (re_userProfiles re) +
      (if c = sp_quoteCurrency spec
       then (events_held evs - events_price evs) * sp_quoteScaleK spec +
            events_size evs * (sp_takerFee spec - sp_makerFee spec) else 0) +
      (if c = sp_baseCurrency spec then events_size evs * sp_baseScaleK spec else 0)"
    using sell_fold[OF assms, of spec evs zero_sums c] by (auto simp: zero_sums_def)
  then show ?thesis
    by (auto simp: handle_events_exchange_sell_def collect_fees_def re_total_def trades_release_sums
        algebra_simps Let_def)
qed

text \<open>What a buyer's chain releases depends on how the buyer's hold is counted.\<close>

definition buy_release :: "order_command \<Rightarrow> symbol_spec \<Rightarrow> int \<Rightarrow> trade_event list \<Rightarrow> int" where
  "buy_release cmd spec c evs =
     (if cmd_command cmd = PLACE_ORDER \<and> cmd_orderType cmd = FOK_BUDGET
      then (if c = sp_baseCurrency spec then calculate_amount_ask (events_size evs) spec else 0) +
           (if c = sp_quoteCurrency spec
            then calculate_amount_bid_taker_fee_for_budget (events_size evs) (cmd_price cmd) spec else 0)
      else trades_release spec c evs)"

lemma buy_event_eq:
  assumes "re_shardMask re = 0" and "known t re"
  shows "\<exists>re'. buy_event spec (Some t) ev (ts, re) =
      (ts\<lparr>ts_takerSizePrice := ts_takerSizePrice ts + ev_size ev * ev_price ev,
          ts_takerSizePriceHeld := ts_takerSizePriceHeld ts + ev_size ev * ev_bidderHoldPrice ev,
          ts_takerSize := ts_takerSize ts + ev_size ev,
          ts_makerSize := ts_makerSize ts + ev_size ev\<rparr>, re') \<and>
    re_shardMask re' = 0 \<and> known t re' \<and> re_fees re' = re_fees re \<and>
    total_accounts c (re_userProfiles re') = total_accounts c (re_userProfiles re) +
      (if c = sp_quoteCurrency spec
       then calculate_amount_bid (ev_size ev) (ev_price ev) spec - sp_makerFee spec * ev_size ev else 0)"
  using assms by (simp add: buy_event_def Let_def)

lemma buy_fold:
  assumes "re_shardMask re = 0" and "known t re"
  shows "\<exists>ts' re'. fold (buy_event spec (Some t)) evs (ts, re) = (ts', re') \<and>
    ts_takerSize ts' = ts_takerSize ts + events_size evs \<and>
    ts_makerSize ts' = ts_makerSize ts + events_size evs \<and>
    ts_takerSizePrice ts' = ts_takerSizePrice ts + events_price evs \<and>
    ts_takerSizePriceHeld ts' = ts_takerSizePriceHeld ts + events_held evs \<and>
    re_shardMask re' = 0 \<and> known t re' \<and> re_fees re' = re_fees re \<and>
    total_accounts c (re_userProfiles re') = total_accounts c (re_userProfiles re) +
      (if c = sp_quoteCurrency spec
       then events_price evs * sp_quoteScaleK spec - sp_makerFee spec * events_size evs else 0)"
  using assms
proof (induction evs arbitrary: ts re)
  case Nil
  then show ?case by simp
next
  case (Cons ev evs)
  let ?ts = "ts\<lparr>ts_takerSizePrice := ts_takerSizePrice ts + ev_size ev * ev_price ev,
          ts_takerSizePriceHeld := ts_takerSizePriceHeld ts + ev_size ev * ev_bidderHoldPrice ev,
          ts_takerSize := ts_takerSize ts + ev_size ev,
          ts_makerSize := ts_makerSize ts + ev_size ev\<rparr>"
  obtain re1 where 1: "buy_event spec (Some t) ev (ts, re) = (?ts, re1)"
    "re_shardMask re1 = 0" "known t re1" "re_fees re1 = re_fees re"
    "total_accounts c (re_userProfiles re1) = total_accounts c (re_userProfiles re) +
      (if c = sp_quoteCurrency spec
       then calculate_amount_bid (ev_size ev) (ev_price ev) spec - sp_makerFee spec * ev_size ev else 0)"
    using buy_event_eq[OF Cons.prems] by blast
  from Cons.IH[OF 1(2,3), of ?ts] 1 show ?case
    by (auto simp: amount_defs algebra_simps)
qed

lemma handle_buy_total:
  assumes "re_shardMask re = 0" and "known t re"
  shows "re_total c (handle_events_exchange_buy evs spec (Some t) cmd re) =
    re_total c re + buy_release cmd spec c evs"
proof -
  obtain ts re1 where F: "fold (buy_event spec (Some t)) evs (zero_sums, re) = (ts, re1)"
    "ts_takerSize ts = events_size evs" "ts_makerSize ts = events_size evs"
    "ts_takerSizePrice ts = events_price evs" "ts_takerSizePriceHeld ts = events_held evs"
    "known t re1" "re_fees re1 = re_fees re"
    "total_accounts c (re_userProfiles re1) = total_accounts c (re_userProfiles re) +
      (if c = sp_quoteCurrency spec
       then events_price evs * sp_quoteScaleK spec - sp_makerFee spec * events_size evs else 0)"
    using buy_fold[OF assms, of spec evs zero_sums c] by (auto simp: zero_sums_def)
  show ?thesis
  proof (cases "cmd_command cmd = PLACE_ORDER \<and> cmd_orderType cmd = FOK_BUDGET")
    case True
    with F show ?thesis
      by (auto simp: handle_events_exchange_buy_def collect_fees_def re_total_def buy_release_def
          amount_defs algebra_simps Let_def)
  next
    case False
    with F show ?thesis
      by (auto simp: handle_events_exchange_buy_def collect_fees_def re_total_def buy_release_def
          trades_release_sums algebra_simps Let_def)
  qed
qed

text \<open>What R2 adds to accounts and fees for a command with its events.\<close>

definition reject_reduce_release :: "order_command \<Rightarrow> trade_event \<Rightarrow> symbol_spec \<Rightarrow> int \<Rightarrow> int" where
  "reject_reduce_release cmd ev spec c =
     (if cmd_action cmd = BID \<and> cmd_command cmd = PLACE_ORDER \<and> cmd_orderType cmd = FOK_BUDGET
      then if c = sp_quoteCurrency spec
           then calculate_amount_bid_taker_fee_for_budget (ev_size ev) (ev_price ev) spec else 0
      else hold_of spec c (cmd_action cmd) (ev_bidderHoldPrice ev) (ev_size ev))"

definition trades_release_of :: "order_command \<Rightarrow> symbol_spec \<Rightarrow> int \<Rightarrow> trade_event list \<Rightarrow> int" where
  "trades_release_of cmd spec c evs =
     (if cmd_action cmd = ASK then trades_release spec c evs
      else if evs = [] then 0 else buy_release cmd spec c evs)"

definition command_release :: "order_command \<Rightarrow> symbol_spec \<Rightarrow> int \<Rightarrow> int" where
  "command_release cmd spec c =
     (case cmd_matcherEvent cmd of
        [] \<Rightarrow> 0
      | ev # evs \<Rightarrow>
          if ev_eventType ev = REDUCE \<or> ev_eventType ev = REJECT
          then reject_reduce_release cmd ev spec c + trades_release_of cmd spec c evs
          else trades_release_of cmd spec c (ev # evs))"

lemma handle_reject_reduce_total:
  assumes "known t re"
  shows "re_total c (handle_reject_reduce_exchange cmd ev spec (cmd_action cmd = ASK) t re) =
    re_total c re + reject_reduce_release cmd ev spec c"
  using assms
  by (cases "cmd_action cmd")
    (auto simp: handle_reject_reduce_exchange_def re_total_def reject_reduce_release_def hold_of_def)

lemma reject_reduce_frame [simp]:
  "re_shardMask (handle_reject_reduce_exchange cmd ev spec ts t re) = re_shardMask re"
  "known u (handle_reject_reduce_exchange cmd ev spec ts t re) = known u re"
  by (simp_all add: handle_reject_reduce_exchange_def)

lemma post_process_exchange_total:
  assumes "re_shardMask re = 0" and "cmd_matcherEvent cmd = ev # evs"
  shows "re_total c (post_process_exchange cmd ev evs spec re) = re_total c re + command_release cmd spec c"
proof -
  let ?re1 = "or_add_suspended (cmd_uid cmd) re"
  have T: "re_total c ?re1 = re_total c re" by (simp add: re_total_def)
  have trades: "re_total c
        (if tr = [] then re2 else if cmd_action cmd = ASK
         then handle_events_exchange_sell tr spec (Some (cmd_uid cmd)) re2
         else handle_events_exchange_buy tr spec (Some (cmd_uid cmd)) cmd re2) =
      re_total c re2 + trades_release_of cmd spec c tr"
    if "re_shardMask re2 = 0" "known (cmd_uid cmd) re2" for tr re2
    using handle_sell_total[OF that] handle_buy_total[OF that]
    by (simp add: trades_release_of_def)
  show ?thesis
  proof (cases "ev_eventType ev = REDUCE \<or> ev_eventType ev = REJECT")
    case True
    let ?re2 = "handle_reject_reduce_exchange cmd ev spec (cmd_action cmd = ASK) (cmd_uid cmd) ?re1"
    have "re_total c ?re2 = re_total c re + reject_reduce_release cmd ev spec c"
      using handle_reject_reduce_total[of "cmd_uid cmd" ?re1] T by simp
    with trades[of ?re2 evs] True assms show ?thesis
      by (cases "cmd_action cmd"; cases "evs = []")
        (simp_all add: post_process_exchange_def command_release_def Let_def)
  next
    case False
    with trades[of ?re1 "ev # evs"] T assms show ?thesis
      by (cases "cmd_action cmd") (simp_all add: post_process_exchange_def command_release_def Let_def)
  qed
qed

section \<open>The book side\<close>

text \<open>What an accepted order holds before it reaches the book.\<close>

definition command_hold :: "order_command \<Rightarrow> symbol_spec \<Rightarrow> int \<Rightarrow> int" where
  "command_hold cmd spec c =
     (case order_hold cmd spec of Inl _ \<Rightarrow> 0 | Inr (currency, x) \<Rightarrow> if c = currency then x else 0)"

text \<open>
  The combination that does not balance: the hold of a bid \<open>IOC_BUDGET\<close> order is a budget, and
  the matching engine rejects the order with the event of an ordinary bid.
\<close>

definition balanced_type :: "order_command \<Rightarrow> bool" where
  "balanced_type cmd \<longleftrightarrow> \<not> (cmd_action cmd = BID \<and> cmd_orderType cmd = IOC_BUDGET)"

lemma command_hold_plain:
  assumes "order_hold cmd spec = Inr h" and "balanced_type cmd"
    and "\<not> (cmd_action cmd = BID \<and> cmd_orderType cmd = FOK_BUDGET)"
  shows "command_hold cmd spec c = hold_of spec c (cmd_action cmd) (cmd_reserveBidPrice cmd) (cmd_size cmd)"
  using assms
  by (cases "cmd_action cmd")
    (auto simp: command_hold_def order_hold_def hold_of_def balanced_type_def split: if_splits)

lemma command_hold_budget:
  assumes "order_hold cmd spec = Inr h" and "cmd_action cmd = BID" and "cmd_orderType cmd = FOK_BUDGET"
  shows "command_hold cmd spec c = (if c = sp_quoteCurrency spec
    then calculate_amount_bid_taker_fee_for_budget (cmd_size cmd) (cmd_price cmd) spec else 0)"
  using assms by (auto simp: command_hold_def order_hold_def split: if_splits)

text \<open>The release of a command whose events are trades, with or without a reject before them.\<close>

definition budget_bid :: "order_command \<Rightarrow> bool" where
  "budget_bid cmd \<longleftrightarrow>
     cmd_action cmd = BID \<and> cmd_command cmd = PLACE_ORDER \<and> cmd_orderType cmd = FOK_BUDGET"

lemma trades_release_of_plain:
  "\<not> budget_bid cmd \<Longrightarrow> trades_release_of cmd spec c evs = trades_release spec c evs"
  by (cases "cmd_action cmd") (auto simp: budget_bid_def trades_release_of_def buy_release_def)

lemma trades_only_release:
  assumes "\<forall>e \<in> set evs. ev_eventType e = TRADE" and "cmd_matcherEvent cmd = []" and "\<not> budget_bid cmd"
  shows "command_release (set_events evs cmd) spec c = trades_release spec c evs"
proof (cases evs)
  case Nil
  with assms(2) show ?thesis by (simp add: set_events_def command_release_def)
next
  case (Cons e es)
  let ?cmd = "cmd\<lparr>cmd_matcherEvent := e # es\<rparr>"
  have "command_release ?cmd spec c = trades_release_of ?cmd spec c (e # es)"
    using assms(1) Cons by (simp add: command_release_def)
  moreover have "\<not> budget_bid ?cmd" using assms(3) by (simp add: budget_bid_def)
  ultimately show ?thesis using Cons trades_release_of_plain[of ?cmd] by (simp add: set_events_def)
qed

lemma reject_trades_release:
  assumes "\<not> budget_bid cmd" and "cmd_matcherEvent cmd = []"
  shows "command_release (attach_reject_event node (set_events evs cmd) sz) spec c =
    hold_of spec c (cmd_action cmd) (cmd_reserveBidPrice cmd) sz + trades_release spec c evs"
proof -
  have S: "set_events evs cmd = cmd\<lparr>cmd_matcherEvent := evs\<rparr>" using assms(2) by (simp add: set_events_def)
  let ?ev = "reject_event node (cmd\<lparr>cmd_matcherEvent := evs\<rparr>) sz"
  let ?cmd = "cmd\<lparr>cmd_matcherEvent := ?ev # evs\<rparr>"
  have nb: "\<not> budget_bid ?cmd" using assms(1) by (simp add: budget_bid_def)
  have "attach_reject_event node (set_events evs cmd) sz = ?cmd"
    by (simp add: attach_reject_event_def S)
  moreover have "command_release ?cmd spec c =
      reject_reduce_release ?cmd ?ev spec c + trades_release_of ?cmd spec c evs"
    by (simp add: command_release_def reject_event_def)
  moreover have "reject_reduce_release ?cmd ?ev spec c =
      hold_of spec c (cmd_action cmd) (cmd_reserveBidPrice cmd) sz"
    using nb by (auto simp: reject_reduce_release_def budget_bid_def reject_event_def)
  ultimately show ?thesis using trades_release_of_plain[OF nb] by simp
qed

lemma gtc_balance:
  assumes ok: "flat_ok fb" and ev: "cmd_matcherEvent cmd = []"
    and nb: "\<not> budget_bid cmd"
    and r: "flat_gtc node fb cmd = (fb', cmd')"
  shows "book_balance spec c fb + hold_of spec c (cmd_action cmd) (cmd_reserveBidPrice cmd) (cmd_size cmd) =
    book_balance spec c fb' + command_release cmd' spec c"
proof -
  let ?hold = "hold_of spec c (cmd_action cmd) (cmd_reserveBidPrice cmd)"
  obtain fb1 cmd1 filled where M:
    "flat_match (cmd_iorder cmd) (crosses (cmd_action cmd) (cmd_price cmd)) fb cmd = (fb1, cmd1, filled)"
    by (metis prod_cases3)
  obtain evs where E: "cmd1 = set_events evs cmd" "\<forall>e \<in> set evs. ev_eventType e = TRADE"
    "book_balance spec c fb + ?hold filled = book_balance spec c fb1 + trades_release spec c evs"
    using cmd_match_balance[OF ok M, of spec c] by blast
  have split: "?hold (cmd_size cmd) = ?hold filled + ?hold (cmd_size cmd - filled)"
    using hold_of_add[of spec c "cmd_action cmd" "cmd_reserveBidPrice cmd" filled "cmd_size cmd - filled"] by simp
  note rel = trades_only_release[OF E(2) ev nb, where spec = spec and c = c]
    reject_trades_release[OF nb ev, where spec = spec and c = c and evs = evs]
  consider "filled = cmd_size cmd" "fb' = fb1" "cmd' = cmd1"
    | "fb' = fb1" "cmd' = attach_reject_event node cmd1 (cmd_size cmd - filled)"
    | "fb' = fb_insert (cmd_order cmd filled) fb1" "cmd' = cmd1"
    using r M by (auto simp: flat_gtc_def split: if_splits)
  then show ?thesis
  proof cases
    case 1
    with E(1,3) rel(1) show ?thesis by simp
  next
    case 2
    show ?thesis
      unfolding 2 E(1) using E(3) rel(2)[of node "cmd_size cmd - filled"] split by linarith
  next
    case 3
    have "book_balance spec c fb' = book_balance spec c fb1 + ?hold (cmd_size cmd - filled)"
      by (simp add: 3 book_balance_insert remaining_def)
    then show ?thesis unfolding 3(2) E(1) using E(3) rel(1) split by linarith
  qed
qed

lemma ioc_balance:
  assumes ok: "flat_ok fb" and ev: "cmd_matcherEvent cmd = []"
    and nb: "\<not> budget_bid cmd"
    and r: "flat_ioc node fb cmd = (fb', cmd')"
  shows "book_balance spec c fb + hold_of spec c (cmd_action cmd) (cmd_reserveBidPrice cmd) (cmd_size cmd) =
    book_balance spec c fb' + command_release cmd' spec c"
proof -
  let ?hold = "hold_of spec c (cmd_action cmd) (cmd_reserveBidPrice cmd)"
  obtain fb1 cmd1 filled where M:
    "flat_match (cmd_iorder cmd) (crosses (cmd_action cmd) (cmd_price cmd)) fb cmd = (fb1, cmd1, filled)"
    by (metis prod_cases3)
  obtain evs where E: "cmd1 = set_events evs cmd" "\<forall>e \<in> set evs. ev_eventType e = TRADE"
    "book_balance spec c fb + ?hold filled = book_balance spec c fb1 + trades_release spec c evs"
    using cmd_match_balance[OF ok M, of spec c] by blast
  have split: "?hold (cmd_size cmd) = ?hold filled + ?hold (cmd_size cmd - filled)"
    using hold_of_add[of spec c "cmd_action cmd" "cmd_reserveBidPrice cmd" filled "cmd_size cmd - filled"] by simp
  note rel = trades_only_release[OF E(2) ev nb, where spec = spec and c = c]
    reject_trades_release[OF nb ev, where spec = spec and c = c and evs = evs]
  consider "filled = cmd_size cmd" "fb' = fb1" "cmd' = cmd1"
    | "fb' = fb1" "cmd' = attach_reject_event node cmd1 (cmd_size cmd - filled)"
    using r M by (auto simp: flat_ioc_def split: if_splits)
  then show ?thesis
  proof cases
    case 1
    with E(1,3) rel(1) show ?thesis by simp
  next
    case 2
    show ?thesis
      unfolding 2 E(1) using E(3) rel(2)[of node "cmd_size cmd - filled"] split by linarith
  qed
qed

text \<open>A budget order that the check lets pass is filled completely.\<close>

lemma budget_to_fill_volume:
  assumes "\<forall>x \<in> set os. resting s x" and "budget_to_fill sz os = Some b"
  shows "sz \<le> volume os"
  using assms
proof (induction os arbitrary: sz b)
  case Nil
  then show ?case by simp
next
  case (Cons x os)
  show ?case
  proof (cases "sz > remaining x")
    case True
    then obtain b' where "budget_to_fill (sz - remaining x) os = Some b'" using Cons.prems by auto
    with Cons.IH[of "sz - remaining x"] Cons.prems(1) show ?thesis by simp
  next
    case False
    have "0 \<le> volume os" using Cons.prems(1) volume_nonneg[of os s] by simp
    with False show ?thesis by simp
  qed
qed

lemma budget_match_full:
  assumes ok: "flat_ok fb" and pos: "0 < cmd_size cmd"
    and b: "budget_to_fill (cmd_size cmd) (fb_side (opposite (cmd_action cmd)) fb) = Some b"
    and M: "flat_match (cmd_iorder cmd) (\<lambda>_. True) fb cmd = (fb', cmd', filled)"
  shows "filled = cmd_size cmd"
proof -
  let ?os = "fb_side (opposite (cmd_action cmd)) fb"
  have R: "\<forall>x \<in> set ?os. resting (opposite (cmd_action cmd)) x" using side_okD[OF flat_ok_side[OF ok]] .
  obtain os' evs0 f where F: "fill (\<lambda>_. True) (cmd_reserveBidPrice cmd) (cmd_size cmd) ?os = (os', evs0, f)"
    by (metis prod_cases3)
  have all: "takeWhile (\<lambda>x. True) os = os" for os :: "order list" by (induction os) auto
  have "f = cmd_size cmd"
    using fill_amount[OF R F] pos budget_to_fill_volume[OF R b] unfolding all by simp
  moreover have "filled = f" using M F by (simp add: flat_match_def)
  ultimately show ?thesis by simp
qed

lemma fok_budget_balance:
  assumes ok: "flat_ok fb" and ev: "cmd_matcherEvent cmd = []" and pos: "0 < cmd_size cmd"
    and h: "order_hold cmd spec = Inr h" and ty: "cmd_orderType cmd = FOK_BUDGET"
    and cm: "cmd_command cmd = PLACE_ORDER"
    and r: "flat_fok_budget node fb cmd = (fb', cmd')"
  shows "book_balance spec c fb + command_hold cmd spec c = book_balance spec c fb' + command_release cmd' spec c"
proof (cases "\<exists>b. budget_to_fill (cmd_size cmd) (fb_side (opposite (cmd_action cmd)) fb) = Some b \<and>
    is_budget_limit_satisfied (cmd_action cmd) b (cmd_price cmd)")
  case False
  then have "fb' = fb" "cmd' = attach_reject_event node cmd (cmd_size cmd)"
    using r by (auto simp: flat_fok_budget_def split: option.splits if_splits)
  moreover have "cmd_price cmd = cmd_reserveBidPrice cmd" if "cmd_action cmd = BID"
    using h ty that by (auto simp: order_hold_def split: if_splits)
  ultimately show ?thesis using ev ty h cm
    by (cases "cmd_action cmd")
      (auto simp: command_release_def attach_reject_event_def reject_event_def reject_reduce_release_def
        trades_release_of_def command_hold_def order_hold_def hold_of_def split: if_splits)
next
  case True
  then obtain b where b: "budget_to_fill (cmd_size cmd) (fb_side (opposite (cmd_action cmd)) fb) = Some b"
    "is_budget_limit_satisfied (cmd_action cmd) b (cmd_price cmd)" by blast
  obtain filled where M: "flat_match (cmd_iorder cmd) (\<lambda>_. True) fb cmd = (fb', cmd', filled)"
    using r b by (auto simp: flat_fok_budget_def split: prod.splits)
  obtain evs where E: "cmd' = set_events evs cmd" "\<forall>e \<in> set evs. ev_eventType e = TRADE"
    "events_size evs = filled"
    "cmd_action cmd = BID \<longrightarrow> (\<forall>e \<in> set evs. ev_bidderHoldPrice e = cmd_reserveBidPrice cmd)"
    "book_balance spec c fb + hold_of spec c (cmd_action cmd) (cmd_reserveBidPrice cmd) filled =
      book_balance spec c fb' + trades_release spec c evs"
    using cmd_match_balance[OF ok M, of spec c] by blast
  have full: "filled = cmd_size cmd" by (rule budget_match_full[OF ok pos b(1) M])
  then have ne: "evs \<noteq> []" using E(3) pos by auto
  then have cmd': "cmd' = cmd\<lparr>cmd_matcherEvent := evs\<rparr>" using E(1) by (simp add: set_events_def)
  obtain e es where es: "evs = e # es" using ne by (cases evs) auto
  have rel: "command_release cmd' spec c = trades_release_of cmd' spec c evs"
    using E(2) es cmd' by (simp add: command_release_def)
  show ?thesis
  proof (cases "cmd_action cmd")
    case ASK
    have "trades_release_of cmd' spec c evs = trades_release spec c evs"
      using ASK cmd' by (simp add: trades_release_of_def)
    moreover have "command_hold cmd spec c = hold_of spec c ASK (cmd_reserveBidPrice cmd) (cmd_size cmd)"
      using h ASK by (auto simp: command_hold_def order_hold_def hold_of_def split: if_splits)
    ultimately show ?thesis using E(5) full rel ASK by simp
  next
    case BID
    have "trades_release_of cmd' spec c evs = buy_release cmd' spec c evs"
      using BID cmd' ne by (simp add: trades_release_of_def)
    moreover have "buy_release cmd' spec c evs =
        (if c = sp_baseCurrency spec then calculate_amount_ask (events_size evs) spec else 0) +
        (if c = sp_quoteCurrency spec
         then calculate_amount_bid_taker_fee_for_budget (events_size evs) (cmd_price cmd) spec else 0)"
      using cm ty cmd' by (simp add: buy_release_def)
    moreover have "command_hold cmd spec c = (if c = sp_quoteCurrency spec
        then calculate_amount_bid_taker_fee_for_budget (cmd_size cmd) (cmd_price cmd) spec else 0)"
      using command_hold_budget[OF h BID ty] .
    moreover have "book_balance spec c fb =
        book_balance spec c fb' + (if c = sp_baseCurrency spec then calculate_amount_ask (events_size evs) spec else 0)"
    proof -
      have "events_held evs = events_size evs * cmd_reserveBidPrice cmd"
        using E(4) BID by (induction evs) (auto simp: algebra_simps)
      then have "trades_release spec c evs =
          (if c = sp_baseCurrency spec then calculate_amount_ask (events_size evs) spec else 0) +
          hold_of spec c BID (cmd_reserveBidPrice cmd) (events_size evs)"
        by (simp add: trades_release_sums hold_of_def amount_defs algebra_simps)
      with E(3,5) BID show ?thesis by simp
    qed
    ultimately show ?thesis using rel E(3) full by simp
  qed
qed

lemma other_type_balance:
  assumes ev: "cmd_matcherEvent cmd = []" and nb: "\<not> budget_bid cmd"
  shows "command_release (attach_reject_event node cmd (cmd_size cmd)) spec c =
    hold_of spec c (cmd_action cmd) (cmd_reserveBidPrice cmd) (cmd_size cmd)"
  using reject_trades_release[OF nb ev, where evs = "[]"] by (simp add: set_events_def)

lemma new_order_balance:
  assumes ok: "flat_ok fb" and ev: "cmd_matcherEvent cmd = []" and pos: "0 < cmd_size cmd"
    and h: "order_hold cmd spec = Inr h" and ty: "balanced_type cmd" and cm: "cmd_command cmd = PLACE_ORDER"
    and r: "flat_new_order node fb cmd = (fb', cmd')"
  shows "book_balance spec c fb + command_hold cmd spec c = book_balance spec c fb' + command_release cmd' spec c"
proof (cases "cmd_orderType cmd = FOK_BUDGET")
  case True
  with fok_budget_balance[OF ok ev pos h True cm] r show ?thesis by (simp add: flat_new_order_def)
next
  case False
  then have nb: "\<not> budget_bid cmd" by (simp add: budget_bid_def)
  have H: "command_hold cmd spec c = hold_of spec c (cmd_action cmd) (cmd_reserveBidPrice cmd) (cmd_size cmd)"
    using command_hold_plain[OF h ty] False by blast
  show ?thesis
  proof (cases "cmd_orderType cmd")
    case GTC
    with gtc_balance[OF ok ev nb] r H show ?thesis by (simp add: flat_new_order_def)
  next
    case IOC
    with ioc_balance[OF ok ev nb] r H show ?thesis by (simp add: flat_new_order_def)
  next
    case FOK_BUDGET
    with False show ?thesis by simp
  qed (use r H other_type_balance[OF ev nb] in \<open>auto simp: flat_new_order_def\<close>)
qed

lemma no_events_release: "cmd_matcherEvent cmd = [] \<Longrightarrow> command_release cmd spec c = 0"
  by (simp add: command_release_def)

lemma reduce_event_release:
  assumes "cmd_command cmd \<noteq> PLACE_ORDER"
  shows "command_release (cmd\<lparr>cmd_matcherEvent := [send_reduce_event node p r sz b], cmd_action := a\<rparr>) spec c =
    hold_of spec c a r sz"
  using assms
  by (simp add: command_release_def send_reduce_event_def reject_reduce_release_def trades_release_of_def)

lemma cancel_balance:
  assumes ok: "flat_ok fb" and ev: "cmd_matcherEvent cmd = []" and cm: "cmd_command cmd \<noteq> PLACE_ORDER"
    and r: "flat_cancel node fb cmd = (code, fb', cmd')"
  shows "book_balance spec c fb = book_balance spec c fb' + command_release cmd' spec c"
proof (cases "fb_find (cmd_orderId cmd) fb")
  case None
  with r have "fb' = fb" "cmd' = cmd" by (auto simp: flat_cancel_def)
  with ev show ?thesis by (simp add: no_events_release)
next
  case (Some x)
  show ?thesis
  proof (cases "ord_uid x = cmd_uid cmd")
    case False
    with Some r have "fb' = fb" "cmd' = cmd" by (auto simp: flat_cancel_def)
    with ev show ?thesis by (simp add: no_events_release)
  next
    case True
    with Some r have out: "fb' = fb_remove (cmd_orderId cmd) fb"
      "cmd' = cmd\<lparr>cmd_matcherEvent := [send_reduce_event node (ord_price x) (ord_reserveBidPrice x)
           (remaining x) True], cmd_action := ord_action x\<rparr>" by (auto simp: flat_cancel_def)
    show ?thesis
      using book_balance_remove[OF ok Some, of spec c] reduce_event_release[OF cm] unfolding out by simp
  qed
qed

lemma reduce_balance:
  assumes ok: "flat_ok fb" and ev: "cmd_matcherEvent cmd = []" and cm: "cmd_command cmd \<noteq> PLACE_ORDER"
    and r: "flat_reduce node fb cmd = (code, fb', cmd')"
  shows "book_balance spec c fb = book_balance spec c fb' + command_release cmd' spec c"
proof (cases "\<exists>x. 0 < cmd_size cmd \<and> fb_find (cmd_orderId cmd) fb = Some x \<and> ord_uid x = cmd_uid cmd")
  case False
  then have "fb' = fb \<and> cmd' = cmd"
    using r by (cases "fb_find (cmd_orderId cmd) fb") (auto simp: flat_reduce_def split: if_splits)
  with ev show ?thesis by (simp add: no_events_release)
next
  case True
  then obtain x where x: "0 < cmd_size cmd" "fb_find (cmd_orderId cmd) fb = Some x" "ord_uid x = cmd_uid cmd"
    by blast
  let ?v = "min (remaining x) (cmd_size cmd)"
  have out: "fb' = (if ?v = remaining x then fb_remove (cmd_orderId cmd) fb
      else fb_resize (cmd_orderId cmd) ?v fb)"
    "cmd' = cmd\<lparr>cmd_matcherEvent := [send_reduce_event node (ord_price x) (ord_reserveBidPrice x)
         ?v (?v = remaining x)], cmd_action := ord_action x\<rparr>"
    using r x by (auto simp: flat_reduce_def Let_def)
  have "book_balance spec c fb = book_balance spec c fb' +
      hold_of spec c (ord_action x) (ord_reserveBidPrice x) ?v"
    using book_balance_remove[OF ok x(2), of spec c] book_balance_resize[OF ok x(2), of spec c ?v]
    by (cases "?v = remaining x") (simp_all only: out(1) if_True if_False refl)
  then show ?thesis unfolding out(2) reduce_event_release[OF cm] .
qed

lemma move_balance:
  assumes ok: "flat_ok fb" and ev: "cmd_matcherEvent cmd = []" and cm: "cmd_command cmd \<noteq> PLACE_ORDER"
    and r: "flat_move stype fb cmd = (code, fb', cmd')"
  shows "book_balance spec c fb = book_balance spec c fb' + command_release cmd' spec c"
proof (cases "code = SUCCESS")
  case False
  then have "fb' = fb" "cmd_matcherEvent cmd' = []"
    using r ev by (auto simp: flat_move_def Let_def split: option.splits if_splits prod.splits)
  then show ?thesis by (simp add: no_events_release)
next
  case True
  let ?i = "cmd_orderId cmd" and ?p = "cmd_price cmd"
  obtain x where x: "fb_find ?i fb = Some x"
    using r True by (auto simp: flat_move_def split: option.splits)
  let ?x1 = "x\<lparr>ord_price := ?p\<rparr>" and ?cmd1 = "cmd\<lparr>cmd_action := ord_action x\<rparr>"
  let ?hold = "hold_of spec c (ord_action x) (ord_reserveBidPrice x)"
  obtain fb2 cmd2 filled where M:
    "flat_match (ord_iorder ?x1) (crosses (ord_action x) ?p) (fb_remove ?i fb) ?cmd1 = (fb2, cmd2, filled)"
    by (metis prod_cases3)
  have out: "fb' = (if filled = ord_size x then fb2 else fb_insert (?x1\<lparr>ord_filled := filled\<rparr>) fb2)"
    "cmd' = cmd2"
    using r True x M by (auto simp: flat_move_def Let_def split: if_splits)
  obtain evs where E: "cmd2 = set_events evs ?cmd1" "\<forall>e \<in> set evs. ev_eventType e = TRADE"
    "book_balance spec c (fb_remove ?i fb) + ?hold (filled - ord_filled x) =
       book_balance spec c fb2 + trades_release spec c evs"
    using flat_match_balance[OF flat_ok_remove[OF ok] M, of spec c] by auto
  have rel: "command_release cmd2 spec c = trades_release spec c evs"
    unfolding E(1) by (rule trades_only_release[OF E(2)]) (use ev cm in \<open>simp_all add: budget_bid_def\<close>)
  have "book_balance spec c fb' = book_balance spec c fb2 + ?hold (ord_size x - filled)"
    by (simp add: out(1) book_balance_insert remaining_def)
  moreover have "?hold (remaining x) = ?hold (filled - ord_filled x) + ?hold (ord_size x - filled)"
    using hold_of_add[of spec c "ord_action x" "ord_reserveBidPrice x" "filled - ord_filled x" "ord_size x - filled"]
    by (simp add: remaining_def)
  ultimately show ?thesis
    unfolding out(2) rel using E(3) book_balance_remove[OF ok x, of spec c] by linarith
qed

text \<open>
  One command at the book: what the book holds before, with the hold of an accepted order, is
  what it holds after and what R2 pays out for the command.
\<close>

definition accepted_hold :: "order_command \<Rightarrow> symbol_spec \<Rightarrow> int \<Rightarrow> int" where
  "accepted_hold cmd spec c =
     (if cmd_command cmd = PLACE_ORDER \<and> cmd_resultCode cmd = VALID_FOR_MATCHING_ENGINE
      then command_hold cmd spec c else 0)"

lemma flat_process_command_balance:
  assumes ok: "flat_ok fb" and ev: "cmd_matcherEvent cmd = []" and p: "placeable cmd"
    and h: "cmd_command cmd = PLACE_ORDER \<and> cmd_resultCode cmd = VALID_FOR_MATCHING_ENGINE \<longrightarrow>
      balanced_type cmd \<and> (\<exists>h. order_hold cmd spec = Inr h)"
    and r: "flat_process_command stype node fb cmd = (code, fb', cmd')"
  shows "book_balance spec c fb + accepted_hold cmd spec c = book_balance spec c fb' + command_release cmd' spec c"
proof (cases "cmd_command cmd")
  case PLACE_ORDER
  show ?thesis
  proof (cases "cmd_resultCode cmd = VALID_FOR_MATCHING_ENGINE")
    case True
    then have "flat_new_order node fb cmd = (fb', cmd')" "0 < cmd_size cmd"
      using r p PLACE_ORDER by (auto simp: flat_process_command_def placeable_def split: prod.splits)
    with new_order_balance[OF ok ev] h True PLACE_ORDER show ?thesis by (auto simp: accepted_hold_def)
  next
    case False
    with r ev PLACE_ORDER show ?thesis
      by (simp add: flat_process_command_def accepted_hold_def no_events_release)
  qed
next
  case CANCEL_ORDER
  with cancel_balance[OF ok ev] r show ?thesis by (simp add: flat_process_command_def accepted_hold_def)
next
  case MOVE_ORDER
  with move_balance[OF ok ev] r show ?thesis by (simp add: flat_process_command_def accepted_hold_def)
next
  case REDUCE_ORDER
  with reduce_balance[OF ok ev] r show ?thesis by (simp add: flat_process_command_def accepted_hold_def)
next
  case ORDER_BOOK_REQUEST
  with r ev have "fb' = fb" "cmd_matcherEvent cmd' = []" by (auto simp: flat_process_command_def)
  with ORDER_BOOK_REQUEST show ?thesis by (simp add: accepted_hold_def no_events_release)
qed (use r ev in \<open>auto simp: flat_process_command_def accepted_hold_def no_events_release\<close>)

end
