(* ===== verification/Exchange_Engine.thy ===== *)
theory Exchange_Engine
  imports Matching_Router Risk_Conservation
begin

text \<open>
  The stages of \<open>ExchangeCore\<close>: every command passes R1 of the risk engines, then the matching
  engines, then R2 of the risk engines. The stages of a command are ordered by the sequence
  barriers, so its path is a composition; the engines of one stage work on separate state and
  are run here one after the other.
\<close>

text \<open>What is not under \<open>src\<close> or is input and output: decoding, report contents, snapshots.\<close>

record ('b, 'q) core_env =
  env_decode :: "int list \<Rightarrow> nat \<Rightarrow> exn + binary_message option"
  env_decode_query :: "int list \<Rightarrow> nat \<Rightarrow> exn + 'q option"
  env_risk_report :: "'q \<Rightarrow> risk_engine \<Rightarrow> trade_event list"
  env_matching_report :: "'q \<Rightarrow> 'b matching_router \<Rightarrow> trade_event list"
  env_risk_store :: "bool option"
  env_matching_store :: "bool option"
  env_node :: trade_event

record 'b exchange_core =
  ec_riskEngines :: "risk_engine list"
  ec_matchingEngines :: "'b matching_router list"

fun risk_pre_stage ::
  "('b, 'q) core_env \<Rightarrow> order_command \<Rightarrow> risk_engine list \<Rightarrow> exn + (order_command \<times> risk_engine list)" where
  "risk_pre_stage env cmd [] = Inr (cmd, [])"
| "risk_pre_stage env cmd (re # res) =
     bindE (pre_process_command (env_decode env) (env_decode_query env) (env_risk_report env)
              (env_risk_store env) cmd re) (\<lambda>(_, cmd1, re1).
       bindE (risk_pre_stage env cmd1 res) (\<lambda>(cmd2, res1). Inr (cmd2, re1 # res1)))"

fun matching_stage ::
  "('b, 'q) core_env \<Rightarrow> (symbol_spec \<Rightarrow> 'b) \<Rightarrow> 'b order_book_ops \<Rightarrow> order_command \<Rightarrow> 'b matching_router list
     \<Rightarrow> exn + (order_command \<times> 'b matching_router list)" where
  "matching_stage env factory ops cmd [] = Inr (cmd, [])"
| "matching_stage env factory ops cmd (me # mes) =
     bindE (process_order (env_decode env) (env_decode_query env) (env_matching_report env)
              (env_matching_store env) factory ops (env_node env) cmd me) (\<lambda>(cmd1, me1).
       bindE (matching_stage env factory ops cmd1 mes) (\<lambda>(cmd2, mes1). Inr (cmd2, me1 # mes1)))"

fun risk_post_stage :: "order_command \<Rightarrow> risk_engine list \<Rightarrow> exn + risk_engine list" where
  "risk_post_stage cmd [] = Inr []"
| "risk_post_stage cmd (re # res) =
     bindE (post_process_command cmd re) (\<lambda>re1. bindE (risk_post_stage cmd res) (\<lambda>res1. Inr (re1 # res1)))"

definition run_command ::
  "('b, 'q) core_env \<Rightarrow> (symbol_spec \<Rightarrow> 'b) \<Rightarrow> 'b order_book_ops \<Rightarrow> order_command \<Rightarrow> 'b exchange_core
     \<Rightarrow> exn + (order_command \<times> 'b exchange_core)" where
  "run_command env factory ops cmd ec =
     bindE (risk_pre_stage env cmd (ec_riskEngines ec)) (\<lambda>(cmd1, res1).
     bindE (matching_stage env factory ops cmd1 (ec_matchingEngines ec)) (\<lambda>(cmd2, mes1).
     bindE (risk_post_stage cmd2 res1) (\<lambda>res2.
       Inr (cmd2, \<lparr>ec_riskEngines = res2, ec_matchingEngines = mes1\<rparr>))))"

fun run_commands ::
  "('b, 'q) core_env \<Rightarrow> (symbol_spec \<Rightarrow> 'b) \<Rightarrow> 'b order_book_ops \<Rightarrow> order_command list \<Rightarrow> 'b exchange_core
     \<Rightarrow> exn + (order_command list \<times> 'b exchange_core)" where
  "run_commands env factory ops [] ec = Inr ([], ec)"
| "run_commands env factory ops (cmd # cmds) ec =
     bindE (run_command env factory ops cmd ec) (\<lambda>(cmd1, ec1).
     bindE (run_commands env factory ops cmds ec1) (\<lambda>(out, ec2). Inr (cmd1 # out, ec2)))"

section \<open>Frames of the risk engine\<close>

definition risk_frame :: "risk_engine \<Rightarrow> risk_engine \<Rightarrow> bool" where
  "risk_frame re re' \<longleftrightarrow>
     (\<exists>us fees. re' = re\<lparr>re_userProfiles := us, re_fees := fees\<rparr> \<and>
       (distinct (map fst (re_userProfiles re)) \<longrightarrow> distinct (map fst us)))"

lemma risk_frame_users:
  "distinct (map fst (re_userProfiles re)) \<longrightarrow> distinct (map fst us) \<Longrightarrow>
   risk_frame re (re\<lparr>re_userProfiles := us\<rparr>)"
  unfolding risk_frame_def by (rule exI[of _ us], rule exI[of _ "re_fees re"]) simp

lemma risk_frame_refl [simp]: "risk_frame re re"
  unfolding risk_frame_def by (rule exI[of _ "re_userProfiles re"], rule exI[of _ "re_fees re"]) simp

lemma risk_frame_trans [trans]: "risk_frame re re' \<Longrightarrow> risk_frame re' re'' \<Longrightarrow> risk_frame re re''"
  unfolding risk_frame_def by (elim exE conjE) force

lemma risk_frame_step:
  "risk_frame re re' \<Longrightarrow> risk_frame re (update_profile u f re')"
  "risk_frame re re' \<Longrightarrow> risk_frame re (credit u c x re')"
  "risk_frame re re' \<Longrightarrow> risk_frame re (or_add_suspended u re')"
  "risk_frame re re' \<Longrightarrow> risk_frame re (add_fee c x re')"
proof -
  have P: "risk_frame r (update_profile u f r)" for r u f
    by (cases "um_find (re_userProfiles r) u")
      (simp_all add: update_profile_def risk_frame_users distinct_update)
  have A: "risk_frame r (or_add_suspended u r)" for r
    unfolding or_add_suspended_def
    by (rule risk_frame_users)
      (simp add: get_user_profile_or_add_suspended_def Let_def distinct_update split: option.split)
  have F: "risk_frame r (add_fee c x r)" for r
    by (auto simp: add_fee_def risk_frame_def intro!: exI[of _ "re_userProfiles r"])
  show "risk_frame re re' \<Longrightarrow> risk_frame re (update_profile u f re')"
    by (rule risk_frame_trans[OF _ P])
  show "risk_frame re re' \<Longrightarrow> risk_frame re (credit u c x re')"
    unfolding credit_def by (rule risk_frame_trans[OF _ P])
  show "risk_frame re re' \<Longrightarrow> risk_frame re (or_add_suspended u re')"
    by (rule risk_frame_trans[OF _ A])
  show "risk_frame re re' \<Longrightarrow> risk_frame re (add_fee c x re')"
    by (rule risk_frame_trans[OF _ F])
qed

lemma fold_risk_frame:
  assumes "\<And>e ts r. risk_frame r (snd (f e (ts, r)))"
  shows "risk_frame re re' \<Longrightarrow> risk_frame re (snd (fold f evs (ts, re')))"
proof (induction evs arbitrary: ts re')
  case Nil
  then show ?case by simp
next
  case (Cons e evs)
  obtain ts1 re1 where s: "f e (ts, re') = (ts1, re1)" by (cases "f e (ts, re')")
  with assms[where r = re' and e = e and ts = ts] have "risk_frame re' re1" by simp
  from risk_frame_trans[OF Cons.prems this] Cons.IH s show ?case by simp
qed

lemma exchange_events_frame:
  "risk_frame re re' \<Longrightarrow> risk_frame re (handle_events_exchange_sell evs spec t re')"
  "risk_frame re re' \<Longrightarrow> risk_frame re (handle_events_exchange_buy evs spec t cmd re')"
proof -
  assume r: "risk_frame re re'"
  have 1: "risk_frame re (snd (fold (sell_event spec t) evs (zero_sums, re')))"
    by (rule fold_risk_frame[OF _ r]) (auto simp: sell_event_def Let_def intro!: risk_frame_step)
  then show "risk_frame re (handle_events_exchange_sell evs spec t re')"
    by (auto simp: handle_events_exchange_sell_def collect_fees_def Let_def
        intro!: risk_frame_step split: prod.split option.split)
  have 2: "risk_frame re (snd (fold (buy_event spec t) evs (zero_sums, re')))"
    by (rule fold_risk_frame[OF _ r]) (auto simp: buy_event_def Let_def intro!: risk_frame_step)
  then show "risk_frame re (handle_events_exchange_buy evs spec t cmd re')"
    by (auto simp: handle_events_exchange_buy_def collect_fees_def Let_def
        intro!: risk_frame_step split: prod.split option.split)
qed

lemma post_process_exchange_frame: "risk_frame re (post_process_exchange cmd ev evs spec re)"
  by (auto simp: post_process_exchange_def handle_reject_reduce_exchange_def Let_def
      intro!: risk_frame_step exchange_events_frame)

end
