(* ===== verification/Exchange_Conservation.thy ===== *)
theory Exchange_Conservation
  imports Exchange_Engine
begin

text \<open>
  An exchange without margin trading on one risk engine and one matching engine: in every
  currency the accounts, the fees, the funds held by the orders in the books, the adjustments
  and the suspends sum to zero after every sequence of commands. It is the sum that
  \<open>TotalCurrencyBalanceReportResult\<close> calls the global balance.
\<close>

section \<open>The risk engine's part\<close>

definition risk_total :: "int \<Rightarrow> risk_engine \<Rightarrow> int" where
  "risk_total c re = re_total c re + um_get0 (re_adjustments re) c + um_get0 (re_suspends re) c"

definition same_setup :: "risk_engine \<Rightarrow> risk_engine \<Rightarrow> bool" where
  "same_setup re re' \<longleftrightarrow> re_shardMask re' = re_shardMask re \<and> re_symbolSpecs re' = re_symbolSpecs re \<and>
     re_incomingData re' = re_incomingData re \<and>
     re_cfgIgnoreRiskProcessing re' = re_cfgIgnoreRiskProcessing re \<and>
     re_cfgMarginTradingEnabled re' = re_cfgMarginTradingEnabled re \<and>
     (distinct (map fst (re_userProfiles re)) \<longrightarrow> distinct (map fst (re_userProfiles re')))"

lemma same_setup_refl [simp]: "same_setup re re"
  by (simp add: same_setup_def)

lemma same_setup_trans: "same_setup re re' \<Longrightarrow> same_setup re' re'' \<Longrightarrow> same_setup re re''"
  by (simp add: same_setup_def)

lemma same_setup_users:
  "distinct (map fst (re_userProfiles re)) \<longrightarrow> distinct (map fst us) \<Longrightarrow>
   same_setup re (re\<lparr>re_userProfiles := us\<rparr>)"
  by (simp add: same_setup_def)

lemma risk_frame_setup:
  assumes "risk_frame re re'"
  shows "same_setup re re'" and "re_adjustments re' = re_adjustments re" and "re_suspends re' = re_suspends re"
  using assms by (auto simp: risk_frame_def same_setup_def)

lemma place_exchange_order_hold:
  assumes "place_exchange_order cmd sp up = (code, up')"
  shows "if code = VALID_FOR_MATCHING_ENGINE
    then (\<exists>h. order_hold cmd sp = Inr h) \<and> (\<forall>c. balance c up' = balance c up - command_hold cmd sp c)
    else (\<forall>c. balance c up' = balance c up)"
proof (cases "order_hold cmd sp")
  case (Inl e)
  then have "code = e" "up' = up" "e \<noteq> VALID_FOR_MATCHING_ENGINE"
    using assms by (auto simp: place_exchange_order_def order_hold_def split: if_splits)
  then show ?thesis by simp
next
  case (Inr h)
  then show ?thesis
    using assms
    by (cases h) (auto simp: place_exchange_order_def Let_def balance_def command_hold_def split: if_splits)
qed

lemma place_order_risk_check_exchange:
  assumes "place_order_risk_check cmd re = (code, re1)"
    and "\<not> re_cfgIgnoreRiskProcessing re"
    and "\<And>sp. um_find (re_symbolSpecs re) (cmd_symbol cmd) = Some sp \<Longrightarrow> sp_type sp = CURRENCY_EXCHANGE_PAIR"
  shows "same_setup re re1 \<and>
    (if code = VALID_FOR_MATCHING_ENGINE
     then \<exists>sp h. um_find (re_symbolSpecs re) (cmd_symbol cmd) = Some sp \<and> order_hold cmd sp = Inr h \<and>
       (\<forall>c. risk_total c re1 = risk_total c re - command_hold cmd sp c)
     else (\<forall>c. risk_total c re1 = risk_total c re))"
proof (cases "um_find (re_userProfiles re) (cmd_uid cmd)")
  case None
  with assms(1) show ?thesis by (auto simp: place_order_risk_check_def get_user_profile_def)
next
  case (Some up)
  note up = Some
  show ?thesis
  proof (cases "um_find (re_symbolSpecs re) (cmd_symbol cmd)")
    case None
    with assms(1) up show ?thesis
      by (auto simp: place_order_risk_check_def get_user_profile_def get_symbol_specification_def)
  next
    case (Some sp)
    obtain code1 up1 where p: "place_exchange_order cmd sp up = (code1, up1)" by (metis surj_pair)
    have out: "re1 = re\<lparr>re_userProfiles := um_put (cmd_uid cmd) up1 (re_userProfiles re)\<rparr>"
      "code = (if code1 = VALID_FOR_MATCHING_ENGINE then code1 else RISK_NSF)"
      using assms(1,2) assms(3)[OF Some] p up Some
      by (auto simp: place_order_risk_check_def get_user_profile_def get_symbol_specification_def
          place_order_def Let_def split: if_splits)
    have "same_setup re re1" unfolding out by (rule same_setup_users) (simp add: distinct_update)
    moreover have "risk_total c re1 = risk_total c re + balance c up1 - balance c up" for c
      unfolding out by (simp add: risk_total_def re_total_def total_accounts_put[OF up])
    ultimately show ?thesis
      using place_exchange_order_hold[OF p] Some out(2) by (auto split: if_splits)
  qed
qed

lemma adjust_balance_total:
  assumes "adjust_balance uid cur x t ty re = (code, re1)"
  shows "same_setup re re1 \<and> (\<forall>c. risk_total c re1 = risk_total c re)"
proof -
  obtain res us where b: "balance_adjustment uid cur x t (re_userProfiles re) = (res, us)"
    by (metis surj_pair)
  have d: "distinct (map fst (re_userProfiles re)) \<longrightarrow> distinct (map fst us)"
    using balance_adjustment_cases[OF b] by (auto simp: distinct_update split: if_splits)
  show ?thesis
    using assms b d total_accounts_adjustment[OF b]
    by (cases ty) (auto simp: adjust_balance_def same_setup_def risk_total_def re_total_def split: if_splits)
qed

lemma add_account_balances_total:
  "same_setup re (add_account_balances uid accounts re) \<and>
   (\<forall>c. risk_total c (add_account_balances uid accounts re) = risk_total c re)"
proof (induction uid accounts re rule: add_account_balances.induct)
  case (2 uid cur bal rest re)
  obtain code re1 where a: "adjust_balance uid cur bal (1000000000 + cur) ADJUSTMENT re = (code, re1)"
    by (metis surj_pair)
  with 2 adjust_balance_total[OF a] show ?case by (auto intro: same_setup_trans)
qed simp

lemma users_total:
  assumes "\<And>c. total_accounts c us = total_accounts c (re_userProfiles re)"
    and "distinct (map fst (re_userProfiles re)) \<longrightarrow> distinct (map fst us)"
  shows "same_setup re (re\<lparr>re_userProfiles := us\<rparr>) \<and>
    (\<forall>c. risk_total c (re\<lparr>re_userProfiles := us\<rparr>) = risk_total c re)"
  using assms by (simp add: same_setup_users risk_total_def re_total_def)

lemma add_user_distinct:
  "add_user uid us = (code, us') \<Longrightarrow> distinct (map fst us) \<Longrightarrow> distinct (map fst us')"
  by (auto simp: add_user_def distinct_update split: if_splits)

lemma add_accounts_total:
  "same_setup re (add_accounts users re) \<and> (\<forall>c. risk_total c (add_accounts users re) = risk_total c re)"
proof (induction users re rule: add_accounts.induct)
  case (2 uid accounts rest re)
  obtain res us where a: "add_user uid (re_userProfiles re) = (res, us)" by (metis surj_pair)
  let ?re1 = "if res = SUCCESS then add_account_balances uid accounts (re\<lparr>re_userProfiles := us\<rparr>) else re"
  have "same_setup re (re\<lparr>re_userProfiles := us\<rparr>) \<and>
      (\<forall>c. risk_total c (re\<lparr>re_userProfiles := us\<rparr>) = risk_total c re)"
    by (rule users_total) (use total_accounts_add_user[OF a] add_user_distinct[OF a] in auto)
  then have "same_setup re ?re1 \<and> (\<forall>c. risk_total c ?re1 = risk_total c re)"
    using add_account_balances_total[of "re\<lparr>re_userProfiles := us\<rparr>" uid accounts]
    by (auto intro: same_setup_trans)
  with 2[OF a[symmetric]] a show ?case by (auto intro: same_setup_trans)
qed simp

section \<open>The book's part\<close>

definition plain_events :: "order_command \<Rightarrow> order_command \<Rightarrow> bool" where
  "plain_events cmd cmd' \<longleftrightarrow> cmd_symbol cmd' = cmd_symbol cmd \<and>
     (\<forall>e \<in> set (cmd_matcherEvent cmd'). e \<in> set (cmd_matcherEvent cmd) \<or> ev_eventType e \<noteq> BINARY_EVENT)"

lemma plain_events_refl [simp]: "plain_events cmd cmd"
  by (simp add: plain_events_def)

lemma plain_events_trans: "plain_events a b \<Longrightarrow> plain_events b c \<Longrightarrow> plain_events a c"
  unfolding plain_events_def by auto

lemma plain_events_attach: "plain_events cmd (attach_reject_event node cmd sz)"
  by (simp add: plain_events_def attach_reject_event_def reject_event_def)

lemma plain_events_match:
  assumes "flat_ok fb" and "flat_match io ok fb cmd = (fb', cmd', filled)"
  shows "plain_events cmd cmd'"
proof -
  obtain evs where "cmd' = set_events evs cmd" "\<forall>e \<in> set evs. ev_eventType e = TRADE"
    using flat_match_balance[OF assms] by blast
  then show ?thesis by (auto simp: plain_events_def set_events_def)
qed

lemma flat_process_command_plain:
  assumes ok: "flat_ok fb" and r: "flat_process_command stype node fb cmd = (code, fb', cmd')"
  shows "plain_events cmd cmd'"
proof -
  have new: "plain_events cmd (snd (flat_new_order node fb cmd))"
  proof -
    have "plain_events cmd (snd (flat_gtc node fb cmd))" "plain_events cmd (snd (flat_ioc node fb cmd))"
      by (auto simp: flat_gtc_def flat_ioc_def split: prod.split
          intro: plain_events_match[OF ok] plain_events_trans[OF plain_events_match[OF ok] plain_events_attach])
    moreover have "plain_events cmd (snd (flat_fok_budget node fb cmd))"
      by (auto simp: flat_fok_budget_def plain_events_attach split: prod.split option.split
          intro: plain_events_match[OF ok])
    ultimately show ?thesis
      by (cases "cmd_orderType cmd") (simp_all add: flat_new_order_def plain_events_attach)
  qed
  have move: "plain_events cmd (snd (snd (flat_move stype fb cmd)))"
  proof -
    have a: "plain_events cmd (cmd\<lparr>cmd_action := a\<rparr>)" for a by (simp add: plain_events_def)
    show ?thesis
      by (auto simp: flat_move_def Let_def a split: option.split prod.split
          intro: plain_events_trans[OF a plain_events_match[OF flat_ok_remove[OF ok]]])
  qed
  have cancel: "plain_events cmd (snd (snd (flat_cancel node fb cmd)))"
    "plain_events cmd (snd (snd (flat_reduce node fb cmd)))"
    by (auto simp: flat_cancel_def flat_reduce_def Let_def plain_events_def send_reduce_event_def
        split: option.split)
  show ?thesis
    using new move cancel r
    by (cases "cmd_command cmd")
      (auto simp: flat_process_command_def plain_events_def split: prod.splits if_splits)
qed

text \<open>The one outcome the contract leaves open has no events.\<close>

lemma flat_risk_limit_no_events:
  assumes "flat_process_command stype node fb cmd = (MATCHING_MOVE_FAILED_PRICE_OVER_RISK_LIMIT, fb', cmd')"
    and "cmd_matcherEvent cmd = []"
  shows "cmd_matcherEvent cmd' = []"
proof (cases "cmd_command cmd")
  case MOVE_ORDER
  with assms show ?thesis
    by (auto simp: flat_process_command_def flat_move_def Let_def split: option.splits if_splits prod.splits)
qed (use assms in \<open>auto simp: flat_process_command_def flat_cancel_def flat_reduce_def Let_def
       split: option.splits if_splits prod.splits\<close>)

lemma same_outcome_release:
  assumes "same_outcome (code, fb', cmdf) (code', fb'', cmd')"
    and "flat_process_command stype node fb cmd = (code, fb', cmdf)" and "cmd_matcherEvent cmd = []"
  shows "command_release cmd' spec c = command_release cmdf spec c"
proof (cases "code = MATCHING_MOVE_FAILED_PRICE_OVER_RISK_LIMIT")
  case True
  with assms(2,3) flat_risk_limit_no_events have "cmd_matcherEvent cmdf = []" by blast
  moreover have "cmdf = cmd'\<lparr>cmd_action := cmd_action cmdf\<rparr>"
    using assms(1) True by (simp add: same_outcome_def)
  then have "cmd_matcherEvent cmdf = cmd_matcherEvent cmd'"
    by (metis (no_types) order_command.select_convs(15) order_command.surjective order_command.update_convs(7))
  ultimately show ?thesis by (simp add: no_events_release)
qed (use assms(1) in \<open>simp add: same_outcome_def\<close>)

lemma same_outcome_plain:
  assumes "same_outcome (code, fb', cmdf) (code', fb'', cmd')" and "plain_events cmd cmdf"
  shows "plain_events cmd cmd'"
proof (cases "code = MATCHING_MOVE_FAILED_PRICE_OVER_RISK_LIMIT")
  case True
  then have "cmdf = cmd'\<lparr>cmd_action := cmd_action cmdf\<rparr>" using assms(1) by (simp add: same_outcome_def)
  then obtain a where "cmdf = cmd'\<lparr>cmd_action := a\<rparr>" by blast
  with assms(2) show ?thesis by (simp add: plain_events_def)
qed (use assms in \<open>simp add: same_outcome_def\<close>)

lemma command_release_result [simp]:
  "command_release (cmd\<lparr>cmd_resultCode := x\<rparr>) spec c = command_release cmd spec c"
  "command_release (cmd\<lparr>cmd_marketData := m\<rparr>) spec c = command_release cmd spec c"
proof -
  have b: "buy_release (cmd\<lparr>cmd_resultCode := x\<rparr>) = buy_release cmd"
    "buy_release (cmd\<lparr>cmd_marketData := m\<rparr>) = buy_release cmd"
    by (simp_all add: buy_release_def fun_eq_iff)
  have t: "trades_release_of (cmd\<lparr>cmd_resultCode := x\<rparr>) = trades_release_of cmd"
    "trades_release_of (cmd\<lparr>cmd_marketData := m\<rparr>) = trades_release_of cmd"
    by (simp_all add: trades_release_of_def fun_eq_iff b)
  have r: "reject_reduce_release (cmd\<lparr>cmd_resultCode := x\<rparr>) = reject_reduce_release cmd"
    "reject_reduce_release (cmd\<lparr>cmd_marketData := m\<rparr>) = reject_reduce_release cmd"
    by (auto simp: reject_reduce_release_def fun_eq_iff)
  show "command_release (cmd\<lparr>cmd_resultCode := x\<rparr>) spec c = command_release cmd spec c"
    "command_release (cmd\<lparr>cmd_marketData := m\<rparr>) spec c = command_release cmd spec c"
    by (simp_all add: command_release_def t r split: list.split)
qed

text \<open>R2 of an exchange symbol pays out the release.\<close>

lemma post_process_command_exchange:
  assumes "um_find (re_symbolSpecs re) (cmd_symbol cmd) = Some sp" and "sp_type sp = CURRENCY_EXCHANGE_PAIR"
    and "re_shardMask re = 0" and "\<not> re_cfgMarginTradingEnabled re"
    and "\<forall>e \<in> set (cmd_matcherEvent cmd). ev_eventType e \<noteq> BINARY_EVENT"
  shows "\<exists>re'. post_process_command cmd re = Inr re' \<and> same_setup re re' \<and>
    (\<forall>c. risk_total c re' = risk_total c re + command_release cmd sp c)"
proof (cases "cmd_matcherEvent cmd")
  case Nil
  with assms show ?thesis
    by (auto simp: post_process_command_def Let_def get_symbol_specification_def no_events_release
        split: option.split)
next
  case (Cons ev evs)
  let ?re = "post_process_exchange cmd ev evs sp re"
  note F = risk_frame_setup[OF post_process_exchange_frame[of re cmd ev evs sp]]
  have "re_cfgMarginTradingEnabled ?re = re_cfgMarginTradingEnabled re" using F(1) by (simp add: same_setup_def)
  then have "post_process_command cmd re = Inr ?re"
    using Cons assms(1,2,4,5)
    by (simp add: post_process_command_def Let_def get_symbol_specification_def split: option.split)
  moreover have "risk_total c ?re = risk_total c re + command_release cmd sp c" for c
    using post_process_exchange_total[OF assms(3) Cons, of c sp] F by (simp add: risk_total_def)
  ultimately show ?thesis using F(1) by blast
qed

lemma post_process_nothing:
  "cmd_matcherEvent cmd = [] \<Longrightarrow> cmd_marketData cmd = None \<Longrightarrow> post_process_command cmd re = Inr re"
  by (simp add: post_process_command_def)

section \<open>The engine\<close>

definition books_total ::
  "('b \<Rightarrow> flat_book) \<Rightarrow> ('b \<Rightarrow> symbol_spec) \<Rightarrow> int \<Rightarrow> 'b matching_router \<Rightarrow> int" where
  "books_total abstr spec c me = um_sum (\<lambda>b. book_balance (spec b) c (abstr b)) (me_orderBooks me)"

definition core_balance ::
  "('b \<Rightarrow> flat_book) \<Rightarrow> ('b \<Rightarrow> symbol_spec) \<Rightarrow> int \<Rightarrow> risk_engine \<Rightarrow> 'b matching_router \<Rightarrow> int" where
  "core_balance abstr spec c re me = risk_total c re + books_total abstr spec c me"

definition core_ok ::
  "('b \<Rightarrow> bool) \<Rightarrow> ('b \<Rightarrow> symbol_spec) \<Rightarrow> risk_engine \<Rightarrow> 'b matching_router \<Rightarrow> bool" where
  "core_ok valid spec re me \<longleftrightarrow>
     re_shardMask re = 0 \<and> me_shardMask me = 0 \<and> re_incomingData re = me_incomingData me \<and>
     \<not> re_cfgIgnoreRiskProcessing re \<and> \<not> re_cfgMarginTradingEnabled re \<and>
     \<not> me_cfgMarginTradingEnabled me \<and> distinct (map fst (re_userProfiles re)) \<and>
     (\<forall>s. um_find (re_symbolSpecs re) s = map_option spec (um_find (me_orderBooks me) s)) \<and>
     (\<forall>s b. um_find (me_orderBooks me) s = Some b \<longrightarrow> valid b \<and> sp_type (spec b) = CURRENCY_EXCHANGE_PAIR)"

text \<open>
  A command as the grouping processor hands it on, without events and market data. An order has
  a positive size and is not the bid with \<open>IOC_BUDGET\<close> that the engine does not balance.
\<close>

definition fresh_command :: "order_command \<Rightarrow> bool" where
  "fresh_command cmd \<longleftrightarrow> cmd_matcherEvent cmd = [] \<and> cmd_marketData cmd = None \<and>
     (cmd_command cmd = PLACE_ORDER \<longrightarrow> 0 < cmd_size cmd \<and> balanced_type cmd)"

lemma core_ok_specs:
  "core_ok valid spec re me \<Longrightarrow> um_find (re_symbolSpecs re) s = Some sp \<Longrightarrow> sp_type sp = CURRENCY_EXCHANGE_PAIR"
  by (auto simp: core_ok_def)

lemma core_ok_setup: "core_ok valid spec re me \<Longrightarrow> same_setup re re' \<Longrightarrow> core_ok valid spec re' me"
  by (simp add: core_ok_def same_setup_def)

text \<open>Reports travel as binary events (\<open>OrderBookEventsHelper::CreateBinaryEventsChain\<close>).\<close>

definition reports_binary :: "('a, 'q) core_env \<Rightarrow> bool" where
  "reports_binary env \<longleftrightarrow>
     (\<forall>q re. \<forall>e \<in> set (env_risk_report env q re). ev_eventType e = BINARY_EVENT) \<and>
     (\<forall>q me. \<forall>e \<in> set (env_matching_report env q me). ev_eventType e = BINARY_EVENT)"

lemma post_process_binary:
  assumes "cmd_marketData cmd = None" and "\<forall>e \<in> set (cmd_matcherEvent cmd). ev_eventType e = BINARY_EVENT"
  shows "post_process_command cmd re = Inr re"
  using assms by (cases "cmd_matcherEvent cmd") (auto simp: post_process_command_def)

lemma accept_binary_frame_copy:
  "accept_binary_frame d (cmd\<lparr>cmd_resultCode := x\<rparr>) inc = accept_binary_frame d cmd inc"
  "accept_binary_frame d (cmd\<lparr>cmd_matcherEvent := evs\<rparr>) inc = accept_binary_frame d cmd inc"
  "accept_binary_frame d (cmd\<lparr>cmd_matcherEvent := evs, cmd_resultCode := x\<rparr>) inc = accept_binary_frame d cmd inc"
proof -
  have cong: "accept_binary_frame d cmd' inc = accept_binary_frame d cmd inc"
    if "cmd_userCookie cmd' = cmd_userCookie cmd" "cmd_symbol cmd' = cmd_symbol cmd"
      "frame_words cmd' = frame_words cmd" "announced_length cmd' = announced_length cmd" for cmd'
    unfolding accept_binary_frame_def transfer_of_def that ..
  show "accept_binary_frame d (cmd\<lparr>cmd_resultCode := x\<rparr>) inc = accept_binary_frame d cmd inc"
    "accept_binary_frame d (cmd\<lparr>cmd_matcherEvent := evs\<rparr>) inc = accept_binary_frame d cmd inc"
    "accept_binary_frame d (cmd\<lparr>cmd_matcherEvent := evs, cmd_resultCode := x\<rparr>) inc = accept_binary_frame d cmd inc"
    by (rule cong; simp add: frame_words_def announced_length_def)+
qed

lemma suspend_user_distinct:
  "suspend_user uid us = (code, us') \<Longrightarrow> distinct (map fst us) \<Longrightarrow> distinct (map fst us')"
  by (auto simp: suspend_user_def get_user_profile_def distinct_delete split: option.splits if_splits)

lemma resume_user_distinct:
  "resume_user uid us = (code, us') \<Longrightarrow> distinct (map fst us) \<Longrightarrow> distinct (map fst us')"
  by (auto simp: resume_user_def get_user_profile_def distinct_update split: option.splits if_splits)

text \<open>A command that only the risk engine answers, without events.\<close>

definition risk_only :: "command_type \<Rightarrow> bool" where
  "risk_only t \<longleftrightarrow> t \<in> {ADD_USER, BALANCE_ADJUSTMENT, SUSPEND_USER, RESUME_USER, PERSIST_STATE_RISK,
     GROUPING_CONTROL, SHUTDOWN_SIGNAL, RESERVED_COMPRESSED}"

lemma pre_process_risk_only:
  assumes t: "risk_only (cmd_command cmd)"
    and d: "distinct (map fst (re_userProfiles re))"
    and r: "pre_process_command decode decode_query report store cmd re = Inr (publish, cmd1, re1)"
  shows "same_setup re re1 \<and> (\<forall>c. risk_total c re1 = risk_total c re) \<and>
    (\<exists>code. cmd1 = cmd\<lparr>cmd_resultCode := code\<rparr>)"
proof -
  have same: ?thesis if "cmd1 = cmd" "re1 = re"
    by (simp add: that) (rule exI[of _ "cmd_resultCode cmd"], simp)
  have users: ?thesis
    if "cmd1 = cmd\<lparr>cmd_resultCode := code\<rparr>" "re1 = re\<lparr>re_userProfiles := us\<rparr>"
      "\<And>c. total_accounts c us = total_accounts c (re_userProfiles re)" "distinct (map fst us)" for code us
    using users_total[of us re] that by blast
  show ?thesis
  proof (cases "cmd_command cmd")
    case ADD_USER
    obtain code us where e: "add_user (cmd_uid cmd) (re_userProfiles re) = (code, us)" by (metis surj_pair)
    have "(cmd1 = cmd \<and> re1 = re) \<or>
        (cmd1 = cmd\<lparr>cmd_resultCode := code\<rparr> \<and> re1 = re\<lparr>re_userProfiles := us\<rparr>)"
      using r e unfolding pre_process_command_def ADD_USER by (simp add: Let_def split: if_splits)
    then show ?thesis using same users total_accounts_add_user[OF e] add_user_distinct[OF e d] by blast
  next
    case SUSPEND_USER
    obtain code us where e: "suspend_user (cmd_uid cmd) (re_userProfiles re) = (code, us)" by (metis surj_pair)
    have "(cmd1 = cmd \<and> re1 = re) \<or>
        (cmd1 = cmd\<lparr>cmd_resultCode := code\<rparr> \<and> re1 = re\<lparr>re_userProfiles := us\<rparr>)"
      using r e unfolding pre_process_command_def SUSPEND_USER by (simp add: Let_def split: if_splits)
    then show ?thesis using same users suspend_user_removes_nothing[OF e d] suspend_user_distinct[OF e d] by blast
  next
    case RESUME_USER
    obtain code us where e: "resume_user (cmd_uid cmd) (re_userProfiles re) = (code, us)" by (metis surj_pair)
    have "(cmd1 = cmd \<and> re1 = re) \<or>
        (cmd1 = cmd\<lparr>cmd_resultCode := code\<rparr> \<and> re1 = re\<lparr>re_userProfiles := us\<rparr>)"
      using r e unfolding pre_process_command_def RESUME_USER by (simp add: Let_def split: if_splits)
    then show ?thesis using same users total_accounts_resume_user[OF e] resume_user_distinct[OF e d] by blast
  next
    case BALANCE_ADJUSTMENT
    show ?thesis
    proof (cases "uid_for_this_handler (cmd_uid cmd) re")
      case True
      then obtain ty code where a: "adjust_balance (cmd_uid cmd) (cmd_symbol cmd) (cmd_price cmd)
          (cmd_orderId cmd) ty re = (code, re1)" and "cmd1 = cmd\<lparr>cmd_resultCode := code\<rparr>"
        using r BALANCE_ADJUSTMENT
        by (auto simp: pre_process_command_def Let_def bindE_def split: sum.splits prod.splits)
      with adjust_balance_total[OF a] show ?thesis by blast
    next
      case False
      with r BALANCE_ADJUSTMENT have "cmd1 = cmd \<and> re1 = re" by (simp add: pre_process_command_def Let_def)
      with same show ?thesis by blast
    qed
  next
    case PERSIST_STATE_RISK
    have "re1 = re \<and> (cmd1 = cmd \<or> (\<exists>code. cmd1 = cmd\<lparr>cmd_resultCode := code\<rparr>))"
      using r unfolding pre_process_command_def PERSIST_STATE_RISK
      by (auto simp: Let_def set_result_volatile_def split: option.splits if_splits)
    then show ?thesis using same same_setup_refl[of re] by blast
  next
    case GROUPING_CONTROL
    with r have "cmd1 = cmd \<and> re1 = re" by (simp add: pre_process_command_def Let_def)
    with same show ?thesis by blast
  next
    case SHUTDOWN_SIGNAL
    with r have "cmd1 = cmd \<and> re1 = re" by (simp add: pre_process_command_def Let_def)
    with same show ?thesis by blast
  next
    case RESERVED_COMPRESSED
    with r have "cmd1 = cmd \<and> re1 = re" by (simp add: pre_process_command_def Let_def)
    with same show ?thesis by blast
  qed (use t in \<open>simp_all add: risk_only_def\<close>)
qed

text \<open>R1 of a command for an order book lets it through and takes what it accepts to hold.\<close>

lemma risk_check_balance:
  assumes ok: "core_ok valid spec re me" and fresh: "fresh_command cmd"
    and t: "cmd_command cmd \<in> {MOVE_ORDER, CANCEL_ORDER, PLACE_ORDER, REDUCE_ORDER, ORDER_BOOK_REQUEST}"
  obtains cmd1 re1 where "pre_process_command (env_decode env) (env_decode_query env) (env_risk_report env)
        (env_risk_store env) cmd re = Inr (False, cmd1, re1)"
    and "same_setup re re1" and "fresh_command cmd1" and "cmd_command cmd1 = cmd_command cmd"
    and "cmd_command cmd1 = PLACE_ORDER \<and> cmd_resultCode cmd1 = VALID_FOR_MATCHING_ENGINE \<longrightarrow>
      (\<exists>sp h. um_find (re_symbolSpecs re1) (cmd_symbol cmd1) = Some sp \<and> order_hold cmd1 sp = Inr h)"
    and "\<And>c. risk_total c re1 = risk_total c re -
      (case um_find (re_symbolSpecs re1) (cmd_symbol cmd1) of None \<Rightarrow> 0 | Some sp \<Rightarrow> accepted_hold cmd1 sp c)"
proof (cases "cmd_command cmd = PLACE_ORDER")
  case False
  then have p: "pre_process_command (env_decode env) (env_decode_query env) (env_risk_report env)
      (env_risk_store env) cmd re = Inr (False, cmd, re)"
    using t by (auto simp: pre_process_command_def Let_def)
  show ?thesis
    by (rule that[OF p]) (use False fresh in \<open>auto simp: accepted_hold_def split: option.split\<close>)
next
  case True
  have mask: "re_shardMask re = 0" "me_shardMask me = 0" "\<not> re_cfgIgnoreRiskProcessing re"
    using ok by (auto simp: core_ok_def)
  obtain code re1 where r: "place_order_risk_check cmd re = (code, re1)" by (metis surj_pair)
  let ?cmd1 = "cmd\<lparr>cmd_resultCode := code\<rparr>"
  have p: "pre_process_command (env_decode env) (env_decode_query env) (env_risk_report env)
      (env_risk_store env) cmd re = Inr (False, ?cmd1, re1)"
    using True r mask by (simp add: pre_process_command_def Let_def)
  have H: "order_hold ?cmd1 sp = order_hold cmd sp" for sp by (simp add: order_hold_def)
  then have CH: "command_hold ?cmd1 sp c = command_hold cmd sp c" for sp c by (simp add: command_hold_def)
  note R = place_order_risk_check_exchange[OF r mask(3) core_ok_specs[OF ok, of "cmd_symbol cmd"], simplified]
  then have S: "re_symbolSpecs re1 = re_symbolSpecs re" by (simp add: same_setup_def)
  show ?thesis
  proof (rule that[OF p])
    show "same_setup re re1" using R by blast
    show "fresh_command ?cmd1" using fresh by (simp add: fresh_command_def balanced_type_def)
    show "cmd_command ?cmd1 = cmd_command cmd" by simp
    show "cmd_command ?cmd1 = PLACE_ORDER \<and> cmd_resultCode ?cmd1 = VALID_FOR_MATCHING_ENGINE \<longrightarrow>
        (\<exists>sp h. um_find (re_symbolSpecs re1) (cmd_symbol ?cmd1) = Some sp \<and> order_hold ?cmd1 sp = Inr h)"
      using R S H by auto
    show "risk_total c re1 = risk_total c re - (case um_find (re_symbolSpecs re1) (cmd_symbol ?cmd1) of
        None \<Rightarrow> 0 | Some sp \<Rightarrow> accepted_hold ?cmd1 sp c)" for c
      using R S CH True
      by (cases "code = VALID_FOR_MATCHING_ENGINE") (auto simp: accepted_hold_def split: option.split)
  qed
qed

locale exchange_books = order_book_impl +
  fixes new_book :: "symbol_spec \<Rightarrow> 'a"
  assumes new_book_law: "valid (new_book sp) \<and> spec (new_book sp) = sp \<and> abstr (new_book sp) = \<lparr>fb_asks = [], fb_bids = []\<rparr>"
begin

text \<open>Matching and R2 of a command that R1 has let through with the given hold.\<close>

lemma matching_balance:
  assumes ok: "core_ok valid spec re me" and fresh: "fresh_command cmd"
    and h: "cmd_command cmd = PLACE_ORDER \<and> cmd_resultCode cmd = VALID_FOR_MATCHING_ENGINE \<longrightarrow>
      (\<exists>sp h. um_find (re_symbolSpecs re) (cmd_symbol cmd) = Some sp \<and> order_hold cmd sp = Inr h)"
  shows "\<exists>cmd' me' re'. process_matching_command ops node cmd me = Inr (cmd', me') \<and>
    post_process_command cmd' re = Inr re' \<and> core_ok valid spec re' me' \<and> re_symbolSpecs re' = re_symbolSpecs re \<and>
    (\<forall>c. core_balance abstr spec c re' me' = core_balance abstr spec c re me +
      (case um_find (re_symbolSpecs re) (cmd_symbol cmd) of None \<Rightarrow> 0 | Some sp \<Rightarrow> accepted_hold cmd sp c))"
proof (cases "um_find (me_orderBooks me) (cmd_symbol cmd)")
  case None
  then have "um_find (re_symbolSpecs re) (cmd_symbol cmd) = None" using ok by (simp add: core_ok_def)
  with None fresh ok show ?thesis
    by (simp add: process_matching_command_def get_order_book_def post_process_nothing fresh_command_def)
next
  case (Some b)
  have sp: "um_find (re_symbolSpecs re) (cmd_symbol cmd) = Some (spec b)" and b: "valid b"
    and ty: "sp_type (spec b) = CURRENCY_EXCHANGE_PAIR" and mask: "re_shardMask re = 0"
    and mg: "\<not> re_cfgMarginTradingEnabled re"
    using ok Some by (auto simp: core_ok_def)
  have ev: "cmd_matcherEvent cmd = []" and p: "placeable cmd"
    using fresh by (auto simp: fresh_command_def placeable_def)
  obtain code b' cmd1 where M: "process_command ops node b cmd = Inr (code, b', cmd1)" "valid b'"
    "spec b' = spec b"
    "same_outcome (flat_process_command (sp_type (spec b)) node (abstr b) cmd) (code, abstr b', cmd1)"
    using process_command_refines[OF b p] by blast
  obtain fcode ffb fcmd where F: "flat_process_command (sp_type (spec b)) node (abstr b) cmd = (fcode, ffb, fcmd)"
    by (metis prod_cases3)
  have bal: "book_balance (spec b) c (abstr b) + accepted_hold cmd (spec b) c =
      book_balance (spec b) c (abstr b') + command_release cmd1 (spec b) c" for c
  proof -
    have "cmd_command cmd = PLACE_ORDER \<and> cmd_resultCode cmd = VALID_FOR_MATCHING_ENGINE \<longrightarrow>
        balanced_type cmd \<and> (\<exists>h. order_hold cmd (spec b) = Inr h)"
      using h sp fresh by (auto simp: fresh_command_def)
    from flat_process_command_balance[OF valid_flat_ok[OF b] ev p this F]
    have "book_balance (spec b) c (abstr b) + accepted_hold cmd (spec b) c =
        book_balance (spec b) c ffb + command_release fcmd (spec b) c" .
    moreover have "ffb = abstr b'" using M(4) F by (simp add: same_outcome_def)
    ultimately show ?thesis using same_outcome_release[OF M(4)[unfolded F] F ev] by simp
  qed
  have plain: "plain_events cmd cmd1"
    using same_outcome_plain[OF M(4)[unfolded F] flat_process_command_plain[OF valid_flat_ok[OF b] F]] .
  define me' where "me' = me\<lparr>me_orderBooks := um_put (cmd_symbol cmd) b' (me_orderBooks me)\<rparr>"
  define cmd2 where "cmd2 =
    (if (me_cfgSendL2ForEveryCmd me \<or> cmd_serviceFlags cmd1 AND 1 \<noteq> 0) \<and>
        cmd_command cmd1 \<noteq> ORDER_BOOK_REQUEST \<and> code = SUCCESS
     then cmd1\<lparr>cmd_resultCode := code,
            cmd_marketData := Some (op_l2Snapshot ops (me_cfgL2RefreshDepth me) b')\<rparr>
     else cmd1\<lparr>cmd_resultCode := code\<rparr>)"
  have R: "process_matching_command ops node cmd me = Inr (cmd2, me')"
    using Some M(1) by (simp add: process_matching_command_def get_order_book_def Let_def me'_def cmd2_def)
  have C2: "\<exists>m. cmd2 = cmd1\<lparr>cmd_resultCode := code\<rparr> \<or> cmd2 = cmd1\<lparr>cmd_resultCode := code, cmd_marketData := m\<rparr>"
    unfolding cmd2_def
    by (rule exI[of _ "Some (op_l2Snapshot ops (me_cfgL2RefreshDepth me) b')"])
      (rule if_split[THEN iffD2], simp only: refl simp_thms)
  have rel: "command_release cmd2 (spec b) c = command_release cmd1 (spec b) c" for c
    using C2 by auto
  have sym: "cmd_symbol cmd2 = cmd_symbol cmd"
    and nb: "\<forall>e \<in> set (cmd_matcherEvent cmd2). ev_eventType e \<noteq> BINARY_EVENT"
    using C2 plain ev by (auto simp: plain_events_def)
  obtain re' where P: "post_process_command cmd2 re = Inr re'" "same_setup re re'"
    "\<And>c. risk_total c re' = risk_total c re + command_release cmd2 (spec b) c"
    using post_process_command_exchange[of re cmd2 "spec b"] sp ty mask mg nb sym by auto
  have "core_ok valid spec re me'"
    using ok Some M(2,3) by (auto simp: core_ok_def me'_def)
  moreover have "core_balance abstr spec c re' me' = core_balance abstr spec c re me + accepted_hold cmd (spec b) c" for c
  proof -
    have "books_total abstr spec c me' =
        books_total abstr spec c me + book_balance (spec b) c (abstr b') - book_balance (spec b) c (abstr b)"
      using M(3) by (simp add: books_total_def me'_def um_sum_put_Some[OF Some])
    then show ?thesis using P(3)[of c] rel[of c] bal[of c] unfolding core_balance_def by linarith
  qed
  ultimately show ?thesis
    using R P(1) sp core_ok_setup[OF _ P(2), of valid spec me'] P(2)[unfolded same_setup_def]
    by (intro exI[of _ cmd2] exI[of _ me'] exI[of _ re']) simp
qed

text \<open>A command for an order book passes all three stages, and the sum stays.\<close>

lemma trading_command_balance:
  assumes ok: "core_ok valid spec re me" and fresh: "fresh_command cmd"
    and t: "cmd_command cmd \<in> {MOVE_ORDER, CANCEL_ORDER, PLACE_ORDER, REDUCE_ORDER, ORDER_BOOK_REQUEST}"
  shows "\<exists>cmd' re' me'. run_command env new_book ops cmd \<lparr>ec_riskEngines = [re], ec_matchingEngines = [me]\<rparr> =
      Inr (cmd', \<lparr>ec_riskEngines = [re'], ec_matchingEngines = [me']\<rparr>) \<and> core_ok valid spec re' me' \<and>
    (\<forall>c. core_balance abstr spec c re' me' = core_balance abstr spec c re me)"
proof -
  have mask: "re_shardMask re = 0" "me_shardMask me = 0" "\<not> re_cfgIgnoreRiskProcessing re"
    using ok by (auto simp: core_ok_def)
  obtain cmd1 re1 where pre: "pre_process_command (env_decode env) (env_decode_query env) (env_risk_report env)
        (env_risk_store env) cmd re = Inr (False, cmd1, re1)"
    and st: "same_setup re re1" and fresh1: "fresh_command cmd1" and cm: "cmd_command cmd1 = cmd_command cmd"
    and hold: "cmd_command cmd1 = PLACE_ORDER \<and> cmd_resultCode cmd1 = VALID_FOR_MATCHING_ENGINE \<longrightarrow>
      (\<exists>sp h. um_find (re_symbolSpecs re1) (cmd_symbol cmd1) = Some sp \<and> order_hold cmd1 sp = Inr h)"
    and bal: "\<And>c. risk_total c re1 = risk_total c re -
      (case um_find (re_symbolSpecs re1) (cmd_symbol cmd1) of None \<Rightarrow> 0 | Some sp \<Rightarrow> accepted_hold cmd1 sp c)"
    using risk_check_balance[OF ok fresh t] by metis
  have ok1: "core_ok valid spec re1 me" using core_ok_setup[OF ok st] .
  obtain cmd2 me2 re2 where out: "process_matching_command ops (env_node env) cmd1 me = Inr (cmd2, me2)"
    "post_process_command cmd2 re1 = Inr re2" "core_ok valid spec re2 me2"
    "\<And>c. core_balance abstr spec c re2 me2 = core_balance abstr spec c re1 me +
      (case um_find (re_symbolSpecs re1) (cmd_symbol cmd1) of None \<Rightarrow> 0 | Some sp \<Rightarrow> accepted_hold cmd1 sp c)"
    using matching_balance[OF ok1 fresh1 hold, of "env_node env"] by blast
  have "core_balance abstr spec c re2 me2 = core_balance abstr spec c re me" for c
    using out(4)[of c] bal[of c] unfolding core_balance_def by linarith
  moreover have "process_order (env_decode env) (env_decode_query env) (env_matching_report env)
      (env_matching_store env) new_book ops (env_node env) cmd1 me = Inr (cmd2, me2)"
    using out(1) t cm mask by (simp add: process_order_def symbol_for_this_handler_def Let_def)
  ultimately show ?thesis using pre out(2,3) by (simp add: run_command_def)
qed

text \<open>The other commands: users, batches, queries and control.\<close>

lemma add_symbols_ok:
  assumes "core_ok valid spec re me"
  shows "core_ok valid spec (add_symbols syms re) (router_add_symbols new_book syms me) \<and>
    (\<forall>c. core_balance abstr spec c (add_symbols syms re) (router_add_symbols new_book syms me) =
      core_balance abstr spec c re me)"
  using assms
proof (induction syms arbitrary: re me)
  case Nil
  then show ?case by simp
next
  case (Cons p syms)
  obtain i sp where p: "p = (i, sp)" by (cases p)
  define re1 where "re1 = (if sp_type sp = CURRENCY_EXCHANGE_PAIR \<or> re_cfgMarginTradingEnabled re
    then re\<lparr>re_symbolSpecs := snd (add_symbol sp (re_symbolSpecs re))\<rparr> else re)"
  let ?me1 = "router_add_symbol new_book sp me"
  have specs: "um_find (re_symbolSpecs re) s = map_option spec (um_find (me_orderBooks me) s)" for s
    using Cons.prems by (simp add: core_ok_def)
  have "core_ok valid spec re1 ?me1"
    using Cons.prems new_book_law[of sp]
    by (auto simp: core_ok_def re1_def router_add_symbol_def add_symbol_def)
  moreover have "core_balance abstr spec c re1 ?me1 = core_balance abstr spec c re me" for c
  proof -
    have "risk_total c re1 = risk_total c re" by (simp add: re1_def risk_total_def re_total_def)
    moreover have "books_total abstr spec c ?me1 = books_total abstr spec c me"
      using new_book_law[of sp]
      by (simp add: books_total_def router_add_symbol_def um_sum_put_None book_balance_def)
    ultimately show ?thesis by (simp add: core_balance_def)
  qed
  ultimately show ?case using Cons.IH[of re1 ?me1] by (simp add: p re1_def)
qed

lemma batch_ok:
  assumes "core_ok valid spec re me"
  shows "core_ok valid spec (handle_binary_message m re) (router_handle_binary_message new_book m me) \<and>
    (\<forall>c. core_balance abstr spec c (handle_binary_message m re) (router_handle_binary_message new_book m me) =
      core_balance abstr spec c re me)"
proof (cases m)
  case (Batch_Add_Symbols syms)
  with add_symbols_ok[OF assms] show ?thesis by simp
next
  case (Batch_Add_Accounts users)
  with add_accounts_total[of re users] core_ok_setup[OF assms] show ?thesis
    by (simp add: core_balance_def)
qed

lemma core_ok_incoming:
  assumes "core_ok valid spec re me"
  shows "core_ok valid spec (re\<lparr>re_incomingData := inc\<rparr>) (me\<lparr>me_incomingData := inc\<rparr>) \<and>
    (\<forall>c. core_balance abstr spec c (re\<lparr>re_incomingData := inc\<rparr>) (me\<lparr>me_incomingData := inc\<rparr>) =
      core_balance abstr spec c re me)"
  using assms
  by (simp add: core_ok_def core_balance_def risk_total_def re_total_def books_total_def)

lemma run_command_single:
  assumes "run_command env new_book ops cmd \<lparr>ec_riskEngines = [re], ec_matchingEngines = [me]\<rparr> = Inr (cmd', ec')"
  obtains publish cmd1 re1 me1 re2 where
    "pre_process_command (env_decode env) (env_decode_query env) (env_risk_report env)
       (env_risk_store env) cmd re = Inr (publish, cmd1, re1)"
    "process_order (env_decode env) (env_decode_query env) (env_matching_report env)
       (env_matching_store env) new_book ops (env_node env) cmd1 me = Inr (cmd', me1)"
    "post_process_command cmd' re1 = Inr re2" "ec' = \<lparr>ec_riskEngines = [re2], ec_matchingEngines = [me1]\<rparr>"
  using assms by (auto simp: run_command_def bindE_def split: sum.splits prod.splits)

lemma other_command_balance:
  assumes ok: "core_ok valid spec re me" and fresh: "fresh_command cmd" and rb: "reports_binary env"
    and t: "cmd_command cmd \<notin> {MOVE_ORDER, CANCEL_ORDER, PLACE_ORDER, REDUCE_ORDER, ORDER_BOOK_REQUEST}"
    and r: "run_command env new_book ops cmd \<lparr>ec_riskEngines = [re], ec_matchingEngines = [me]\<rparr> = Inr (cmd', ec')"
  shows "\<exists>re' me'. ec' = \<lparr>ec_riskEngines = [re'], ec_matchingEngines = [me']\<rparr> \<and> core_ok valid spec re' me' \<and>
    (\<forall>c. core_balance abstr spec c re' me' = (if cmd_command cmd = RESET then 0 else core_balance abstr spec c re me))"
proof -
  obtain publish cmd1 re1 me1 re2 where
    r1: "pre_process_command (env_decode env) (env_decode_query env) (env_risk_report env)
       (env_risk_store env) cmd re = Inr (publish, cmd1, re1)" and
    m: "process_order (env_decode env) (env_decode_query env) (env_matching_report env)
       (env_matching_store env) new_book ops (env_node env) cmd1 me = Inr (cmd', me1)" and
    r2: "post_process_command cmd' re1 = Inr re2" and
    ec': "ec' = \<lparr>ec_riskEngines = [re2], ec_matchingEngines = [me1]\<rparr>"
    using run_command_single[OF r] by blast
  have d: "distinct (map fst (re_userProfiles re))" and inc: "re_incomingData re = me_incomingData me"
    using ok by (auto simp: core_ok_def)
  have ev: "cmd_matcherEvent cmd = []" "cmd_marketData cmd = None" using fresh by (auto simp: fresh_command_def)
  have fin: ?thesis if "core_ok valid spec re1 me1" "cmd_command cmd \<noteq> RESET"
    "\<And>c. core_balance abstr spec c re1 me1 = core_balance abstr spec c re me"
    "cmd_marketData cmd' = None" "\<forall>e \<in> set (cmd_matcherEvent cmd'). ev_eventType e = BINARY_EVENT"
    using that r2 ec' post_process_binary[of cmd' re1] by auto
  show ?thesis
  proof (cases "risk_only (cmd_command cmd)")
    case True
    note P = pre_process_risk_only[OF True d r1]
    then obtain code where c1: "cmd1 = cmd\<lparr>cmd_resultCode := code\<rparr>" by blast
    then have "cmd' = cmd1 \<and> me1 = me" using m True by (auto simp: process_order_def risk_only_def Let_def)
    with P c1 ev True core_ok_setup[OF ok] show ?thesis
      by (intro fin) (auto simp: core_balance_def risk_only_def)
  next
    case False
    then have "cmd_command cmd \<in> {BINARY_DATA_QUERY, BINARY_DATA_COMMAND, RESET, NOP, PERSIST_STATE_MATCHING}"
      using t by (cases "cmd_command cmd") (simp_all add: risk_only_def)
    then show ?thesis
    proof (elim insertE)
      assume C: "cmd_command cmd = BINARY_DATA_QUERY"
      obtain inc res where A: "accept_binary_frame (env_decode_query env) cmd (re_incomingData re) = (inc, res)"
        by (metis surj_pair)
      obtain x query where Q: "res = Inr (x, query)"
        using r1 C A by (cases res) (auto simp: pre_process_command_def Let_def)
      let ?evs = "case query of None \<Rightarrow> [] | Some q \<Rightarrow> env_risk_report env q (re\<lparr>re_incomingData := inc\<rparr>)"
      have R: "re1 = re\<lparr>re_incomingData := inc\<rparr>"
        and c1: "cmd1 = cmd\<lparr>cmd_matcherEvent := ?evs\<rparr> \<or>
          cmd1 = cmd\<lparr>cmd_matcherEvent := ?evs, cmd_resultCode := VALID_FOR_MATCHING_ENGINE\<rparr>"
        using r1 C A Q ev by (auto simp: pre_process_command_def Let_def split: if_splits)
      let ?evs1 = "case query of None \<Rightarrow> [] | Some q \<Rightarrow> env_matching_report env q (me\<lparr>me_incomingData := inc\<rparr>)"
      have A1: "accept_binary_frame (env_decode_query env) cmd1 (me_incomingData me) = (inc, res)"
        using c1 A inc by (auto simp: accept_binary_frame_copy)
      have C1: "cmd_command cmd1 = BINARY_DATA_QUERY" "cmd_marketData cmd1 = None" "cmd_matcherEvent cmd1 = ?evs"
        using c1 C ev by auto
      have M: "me1 = me\<lparr>me_incomingData := inc\<rparr>" and c2: "cmd_matcherEvent cmd' = ?evs1 @ ?evs"
        "cmd_marketData cmd' = None"
        using m C1 A1 Q by (auto simp: process_order_def Let_def split: if_splits)
      have "\<forall>e \<in> set (?evs1 @ ?evs). ev_eventType e = BINARY_EVENT"
        using rb by (auto simp: reports_binary_def split: option.splits)
      with core_ok_incoming[OF ok, of inc] R M c2 C show ?thesis by (intro fin) auto
    next
      assume C: "cmd_command cmd = BINARY_DATA_COMMAND"
      obtain inc res where A: "accept_binary_frame (env_decode env) cmd (re_incomingData re) = (inc, res)"
        by (metis surj_pair)
      obtain x msg where Q: "res = Inr (x, msg)"
        using r1 C A by (cases res) (auto simp: pre_process_command_def Let_def)
      have R: "re1 = (case msg of None \<Rightarrow> re\<lparr>re_incomingData := inc\<rparr>
            | Some b \<Rightarrow> handle_binary_message b (re\<lparr>re_incomingData := inc\<rparr>))"
        and c1: "cmd1 = cmd \<or> cmd1 = cmd\<lparr>cmd_resultCode := VALID_FOR_MATCHING_ENGINE\<rparr>"
        using r1 C A Q by (auto simp: pre_process_command_def Let_def split: if_splits)
      have A1: "accept_binary_frame (env_decode env) cmd1 (me_incomingData me) = (inc, res)"
        using c1 A inc by (auto simp: accept_binary_frame_copy)
      have C1: "cmd_command cmd1 = BINARY_DATA_COMMAND" "cmd_marketData cmd1 = None" "cmd_matcherEvent cmd1 = []"
        using c1 C ev by auto
      have M: "me1 = (case msg of None \<Rightarrow> me\<lparr>me_incomingData := inc\<rparr>
            | Some b \<Rightarrow> router_handle_binary_message new_book b (me\<lparr>me_incomingData := inc\<rparr>))"
        and c2: "cmd_matcherEvent cmd' = []" "cmd_marketData cmd' = None"
        using m C1 A1 Q by (auto simp: process_order_def Let_def split: if_splits)
      note I = core_ok_incoming[OF ok, of inc]
      show ?thesis
        by (rule fin) (use I batch_ok[OF conjunct1[OF I]] R M c2 C in \<open>auto split: option.split\<close>)
    next
      assume C: "cmd_command cmd = RESET"
      have R: "re1 = risk_reset re" and C1: "cmd_command cmd1 = RESET" "cmd_marketData cmd1 = None"
        "cmd_matcherEvent cmd1 = []"
        using r1 C ev by (auto simp: pre_process_command_def Let_def split: if_splits)
      have M: "me1 = me\<lparr>me_orderBooks := [], me_incomingData := []\<rparr>" and c2: "cmd_matcherEvent cmd' = []"
        "cmd_marketData cmd' = None"
        using m C1 by (auto simp: process_order_def Let_def split: if_splits)
      have "re2 = risk_reset re" using r2 R post_process_nothing[OF c2] by simp
      with M C ok ec' show ?thesis
        by (simp add: core_ok_def risk_reset_def core_balance_def risk_total_def re_total_def
            books_total_def total_accounts_def)
    next
      assume C: "cmd_command cmd = NOP"
      have R: "re1 = re" "cmd1 = cmd" using r1 C by (auto simp: pre_process_command_def Let_def)
      have M: "me1 = me" "cmd_matcherEvent cmd' = []" "cmd_marketData cmd' = None"
        using m C R ev by (auto simp: process_order_def Let_def split: if_splits)
      with ok R C show ?thesis by (intro fin) auto
    next
      assume C: "cmd_command cmd = PERSIST_STATE_MATCHING"
      have R: "re1 = re" "cmd_command cmd1 = PERSIST_STATE_MATCHING" "cmd_marketData cmd1 = None"
        "cmd_matcherEvent cmd1 = []"
        using r1 C ev by (auto simp: pre_process_command_def Let_def split: if_splits)
      have M: "me1 = me" "cmd_matcherEvent cmd' = []" "cmd_marketData cmd' = None"
        using m R by (auto simp: process_order_def Let_def set_result_volatile_def split: option.splits if_splits)
      with ok R C show ?thesis by (intro fin) auto
    qed simp
  qed
qed

text \<open>Any command: the invariant is kept, and a sum of zero stays zero.\<close>

lemma run_command_zero:
  assumes ok: "core_ok valid spec re me" and fresh: "fresh_command cmd" and rb: "reports_binary env"
    and zero: "\<And>c. core_balance abstr spec c re me = 0"
    and r: "run_command env new_book ops cmd \<lparr>ec_riskEngines = [re], ec_matchingEngines = [me]\<rparr> = Inr (cmd', ec')"
  shows "\<exists>re' me'. ec' = \<lparr>ec_riskEngines = [re'], ec_matchingEngines = [me']\<rparr> \<and> core_ok valid spec re' me' \<and>
    (\<forall>c. core_balance abstr spec c re' me' = 0)"
proof (cases "cmd_command cmd \<in> {MOVE_ORDER, CANCEL_ORDER, PLACE_ORDER, REDUCE_ORDER, ORDER_BOOK_REQUEST}")
  case True
  from trading_command_balance[OF ok fresh True, of env] zero r show ?thesis by auto
next
  case False
  from other_command_balance[OF ok fresh rb False r] zero show ?thesis by auto
qed

lemma run_commands_zero:
  assumes "core_ok valid spec re me" and "\<forall>cmd \<in> set cmds. fresh_command cmd" and rb: "reports_binary env"
    and "\<And>c. core_balance abstr spec c re me = 0"
    and "run_commands env new_book ops cmds \<lparr>ec_riskEngines = [re], ec_matchingEngines = [me]\<rparr> = Inr (out, ec')"
  shows "\<exists>re' me'. ec' = \<lparr>ec_riskEngines = [re'], ec_matchingEngines = [me']\<rparr> \<and> core_ok valid spec re' me' \<and>
    (\<forall>c. core_balance abstr spec c re' me' = 0)"
  using assms
proof (induction cmds arbitrary: re me out)
  case Nil
  then show ?case by auto
next
  case (Cons cmd cmds)
  let ?ec = "\<lparr>ec_riskEngines = [re], ec_matchingEngines = [me]\<rparr>"
  obtain cmd1 ec1 out1 where s: "run_command env new_book ops cmd ?ec = Inr (cmd1, ec1)"
    "run_commands env new_book ops cmds ec1 = Inr (out1, ec')"
    using Cons.prems(5) by (auto simp: bindE_def split: sum.splits prod.splits)
  have "fresh_command cmd" using Cons.prems(2) by simp
  then obtain re1 me1 where "ec1 = \<lparr>ec_riskEngines = [re1], ec_matchingEngines = [me1]\<rparr>"
    "core_ok valid spec re1 me1" "\<And>c. core_balance abstr spec c re1 me1 = 0"
    using run_command_zero[OF Cons.prems(1) _ rb Cons.prems(4) s(1)] by blast
  with Cons.IH[of re1 me1 out1] Cons.prems(2) rb s(2) show ?case by simp
qed

end

text \<open>An exchange as it is built: one risk engine and one matching engine, no margin trading.\<close>

definition new_exchange :: "bool \<Rightarrow> int \<Rightarrow> exn + 'b exchange_core" where
  "new_exchange sendL2 depth =
     bindE (new_risk_engine 0 1 False False) (\<lambda>re.
     bindE (new_matching_router 0 1 None False sendL2 depth) (\<lambda>me.
       Inr \<lparr>ec_riskEngines = [re], ec_matchingEngines = [me]\<rparr>))"

lemma new_exchange_ok:
  "\<exists>re me. new_exchange sendL2 depth = Inr \<lparr>ec_riskEngines = [re], ec_matchingEngines = [me]\<rparr> \<and>
     core_ok valid spec re me \<and> (\<forall>c. core_balance abstr spec c re me = 0)"
  by (simp add: new_exchange_def new_risk_engine_def new_matching_router_def core_ok_def core_balance_def
      risk_total_def re_total_def books_total_def total_accounts_def)

end
