(* ===== verification/Naive_Exchange.thy ===== *)
theory Naive_Exchange
  imports Naive_Correct Exchange_Conservation
begin

text \<open>The exchange on naive order books: the contract of the engine is discharged by them.\<close>

interpretation naive_core: exchange_books nb_inv nb_abs nb_symbolSpec naive_ops new_naive_book
proof unfold_locales
  fix sp
  have "nb_symbolSpec (new_naive_book sp) = sp" by (simp add: new_naive_book_def)
  with new_naive_book_inv[of sp]
  show "nb_inv (new_naive_book sp) \<and> nb_symbolSpec (new_naive_book sp) = sp \<and>
      nb_abs (new_naive_book sp) = \<lparr>fb_asks = [], fb_bids = []\<rparr>" by blast
qed

section \<open>A sample exchange\<close>

definition sample_env :: "(naive_book, unit) core_env" where
  "sample_env = \<lparr>env_decode = (\<lambda>_ _. Inr (Some (Batch_Add_Symbols [(7, sample_spec)]))),
     env_decode_query = (\<lambda>_ _. Inr None), env_risk_report = (\<lambda>_ _. []),
     env_matching_report = (\<lambda>_ _. []), env_risk_store = None, env_matching_store = None,
     env_node = default_event\<rparr>"

definition sample_run :: "order_command list" where
  "sample_run = [sample_frame BINARY_DATA_COMMAND, sample_user 1, sample_user 2,
     sample_deposit 1 11 1000 1, sample_deposit 2 15 5000 1,
     sample_order GTC 100 1 ASK 20 4, sample_order GTC 101 2 BID 21 3]"

definition sample_exchange :: "naive_book exchange_core" where
  "sample_exchange = (case new_exchange False 8 of Inr ec \<Rightarrow> ec
     | Inl _ \<Rightarrow> \<lparr>ec_riskEngines = [], ec_matchingEngines = []\<rparr>)"

lemma sample_exchange: "new_exchange False 8 = Inr sample_exchange"
  by (simp add: sample_exchange_def new_exchange_def new_risk_engine_def new_matching_router_def)

lemma sample_run_fresh: "\<forall>cmd \<in> set sample_run. fresh_command cmd"
  by (simp add: sample_run_def fresh_command_def balanced_type_def sample_defs default_command_def)

lemma sample_env_binary: "reports_binary sample_env"
  by (simp add: reports_binary_def sample_env_def)

lemma sample_run_returns:
  "case run_commands sample_env new_naive_book naive_ops sample_run sample_exchange of
     Inl _ \<Rightarrow> False | Inr (out, ec) \<Rightarrow> map cmd_resultCode out = replicate 7 SUCCESS"
  by code_simp

section \<open>Conservation\<close>

text \<open>C1:
  Money is only moved. An exchange without margin trading that starts empty and has run any
  sequence of commands of any kind (batches, users, deposits, orders, cancels, moves, reduces,
  queries, resets) has a global balance of zero in every currency: the users' accounts, the
  collected fees, the funds held by the orders in the books, the adjustments and the suspends
  cancel out. The commands are fresh ones: orders have a positive size and are not bids of the
  type \<open>IOC_BUDGET\<close>.
\<close>

theorem exchange_global_balance_zero:
  assumes "new_exchange sendL2 depth = Inr ec" and "reports_binary env"
    and "\<forall>cmd \<in> set cmds. fresh_command cmd"
    and "run_commands env new_naive_book naive_ops cmds ec = Inr (out, ec')"
  shows "\<exists>re me. ec' = \<lparr>ec_riskEngines = [re], ec_matchingEngines = [me]\<rparr> \<and>
    (\<forall>c. core_balance nb_abs nb_symbolSpec c re me = 0)"
proof -
  obtain re me where "ec = \<lparr>ec_riskEngines = [re], ec_matchingEngines = [me]\<rparr>" "core_ok nb_inv nb_symbolSpec re me"
    "\<And>c. core_balance nb_abs nb_symbolSpec c re me = 0"
    using new_exchange_ok[of sendL2 depth nb_inv nb_symbolSpec nb_abs] assms(1) by auto
  with naive_core.run_commands_zero[of re me cmds env out ec'] assms show ?thesis by auto
qed

theorem exchange_global_balance_zero_witness:
  "\<exists>out re me. run_commands sample_env new_naive_book naive_ops sample_run sample_exchange =
      Inr (out, \<lparr>ec_riskEngines = [re], ec_matchingEngines = [me]\<rparr>) \<and>
    (\<forall>c. core_balance nb_abs nb_symbolSpec c re me = 0)"
proof -
  obtain out ec' where r: "run_commands sample_env new_naive_book naive_ops sample_run sample_exchange = Inr (out, ec')"
    using sample_run_returns by (auto split: sum.splits)
  from exchange_global_balance_zero[OF sample_exchange sample_env_binary sample_run_fresh r] r show ?thesis by auto
qed

text \<open>
  Every order, cancel, move, reduce and market data request passes risk check, matching and
  transfers without an exception, from any state of the exchange that its invariant describes,
  keeps the invariant and the balance of every currency.
\<close>

lemma trading_command_conserves:
  assumes "core_ok nb_inv nb_symbolSpec re me" and "fresh_command cmd"
    and "cmd_command cmd \<in> {MOVE_ORDER, CANCEL_ORDER, PLACE_ORDER, REDUCE_ORDER, ORDER_BOOK_REQUEST}"
  shows "\<exists>cmd' re' me'. run_command env new_naive_book naive_ops cmd \<lparr>ec_riskEngines = [re], ec_matchingEngines = [me]\<rparr> =
      Inr (cmd', \<lparr>ec_riskEngines = [re'], ec_matchingEngines = [me']\<rparr>) \<and> core_ok nb_inv nb_symbolSpec re' me' \<and>
    (\<forall>c. core_balance nb_abs nb_symbolSpec c re' me' = core_balance nb_abs nb_symbolSpec c re me)"
  by (rule naive_core.trading_command_balance[OF assms])

definition sample_risk_engine :: risk_engine where
  "sample_risk_engine = \<lparr>re_shardId = 0, re_shardMask = 0, re_symbolSpecs = [(7, sample_spec)],
     re_userProfiles = [(2, (new_user_profile 2 ACTIVE)\<lparr>up_accounts := [(15, 5000)]\<rparr>)],
     re_incomingData = [], re_lastPriceCache = [], re_fees = [], re_adjustments = [], re_suspends = [],
     re_cfgIgnoreRiskProcessing = False, re_cfgMarginTradingEnabled = False\<rparr>"

definition sample_router :: "naive_book matching_router" where
  "sample_router = \<lparr>me_shardId = 0, me_shardMask = 0, me_symbolSpecProvider = None, me_incomingData = [],
     me_orderBooks = [(7, sample_book)], me_cfgMarginTradingEnabled = False,
     me_cfgSendL2ForEveryCmd = False, me_cfgL2RefreshDepth = 8\<rparr>"

section \<open>Routing\<close>

text \<open>
  A command for an order book changes at most the book of its own symbol.
\<close>

lemma router_isolates_books:
  assumes "process_matching_command naive_ops node cmd me = Inr (cmd', me')" and "s \<noteq> cmd_symbol cmd"
  shows "get_order_book s me' = get_order_book s me"
  using process_matching_command_other_books[OF assms] by (simp add: get_order_book_def)

text \<open>
  The risk engine and the matching engine agree on the symbols: after any batch of symbols, the
  one has a specification exactly where the other has a book for it, if that was so before.
\<close>

lemma batch_symbols_in_step:
  assumes "core_ok nb_inv nb_symbolSpec re me"
  shows "um_find (re_symbolSpecs (handle_binary_message (Batch_Add_Symbols syms) re)) s =
    map_option nb_symbolSpec (get_order_book s (router_handle_binary_message new_naive_book (Batch_Add_Symbols syms) me))"
  using naive_core.batch_ok[OF assms, of "Batch_Add_Symbols syms"] by (simp add: core_ok_def get_order_book_def)

end
