(* ===== verification/Margin_Conservation.thy ===== *)
theory Margin_Conservation
  imports Risk_Conservation
begin

text \<open>
  Margin symbols: what the transfers of a command do to the users' wealth. Marked to any price a
  trade is a zero-sum game between its two parties, the fees are only moved, and every trade
  takes its size off the pending sizes of both.
\<close>

section \<open>Wealth\<close>

text \<open>The positions of a profile in one currency, each marked to the price \<open>q\<close> of its symbol.\<close>

definition positions_value :: "(int \<Rightarrow> int) \<Rightarrow> int \<Rightarrow> (int, position) umap \<Rightarrow> int" where
  "positions_value q c ps = um_sum (\<lambda>p. if ps_currency p = c then position_value (q (ps_symbol p)) p else 0) ps"

definition wealth :: "(int \<Rightarrow> int) \<Rightarrow> int \<Rightarrow> user_profile \<Rightarrow> int" where
  "wealth q c up = balance c up + positions_value q c (up_positions up)"

definition margin_total :: "(int \<Rightarrow> int) \<Rightarrow> int \<Rightarrow> risk_engine \<Rightarrow> int" where
  "margin_total q c re = um_sum (wealth q c) (re_userProfiles re) + um_get0 (re_fees re) c"

text \<open>The positions of one symbol are well formed and belong to it.\<close>

definition positions_ok :: "symbol_spec \<Rightarrow> user_profile \<Rightarrow> bool" where
  "positions_ok spec up \<longleftrightarrow> distinct (map fst (up_positions up)) \<and>
     (\<forall>p. um_find (up_positions up) (sp_symbolId spec) = Some p \<longrightarrow>
        position_ok p \<and> ps_symbol p = sp_symbolId spec \<and> ps_currency p = sp_quoteCurrency spec)"

definition margin_ok :: "symbol_spec \<Rightarrow> risk_engine \<Rightarrow> bool" where
  "margin_ok spec re \<longleftrightarrow> (\<forall>uid up. um_find (re_userProfiles re) uid = Some up \<longrightarrow> positions_ok spec up)"

definition pending_of :: "symbol_spec \<Rightarrow> risk_engine \<Rightarrow> int \<Rightarrow> order_action \<Rightarrow> int" where
  "pending_of spec re uid action =
     (case um_find (re_userProfiles re) uid of
        None \<Rightarrow> 0
      | Some up \<Rightarrow>
          (case um_find (up_positions up) (sp_symbolId spec) of
             None \<Rightarrow> 0 | Some p \<Rightarrow> pending_size action p))"

lemma pending_of_pos:
  assumes "0 < pending_of spec re uid action"
  obtains up p where "um_find (re_userProfiles re) uid = Some up"
    "um_find (up_positions up) (sp_symbolId spec) = Some p" "pending_size action p = pending_of spec re uid action"
  using assms by (auto simp: pending_of_def split: option.splits)

lemma margin_total_update:
  assumes "um_find (re_userProfiles re) uid = Some up"
  shows "margin_total q c (update_profile uid f re) = margin_total q c re + wealth q c (f up) - wealth q c up"
  using assms by (simp add: margin_total_def update_profile_def um_sum_put_Some)

lemma margin_total_fee: "margin_total q c (add_fee c' x re) = margin_total q c re + (if c = c' then x else 0)"
  by (simp add: margin_total_def)

lemma positions_value_put:
  assumes "um_find ps s = Some p" and "ps_currency p' = ps_currency p" and "ps_symbol p' = ps_symbol p"
  shows "positions_value q c (um_put s p' ps) = positions_value q c ps +
    (if ps_currency p = c then position_value (q (ps_symbol p)) p' - position_value (q (ps_symbol p)) p else 0)"
  using assms by (simp add: positions_value_def um_sum_put_Some)

lemma positions_value_erase:
  assumes "um_find ps s = Some p" and "distinct (map fst ps)"
  shows "positions_value q c (um_erase s ps) = positions_value q c ps -
    (if ps_currency p = c then position_value (q (ps_symbol p)) p else 0)"
  using assms by (simp add: positions_value_def um_sum_erase)

lemma wealth_parts [simp]:
  "wealth q c (profile_add c' x up) = wealth q c up + (if c = c' then x else 0)"
  by (simp add: wealth_def profile_add_def balance_def)

section \<open>One position of one user\<close>

text \<open>
  Replacing a position by one of the same symbol and currency, and dropping it when it is empty:
  the end of every branch of \<open>HandleMatcherEventMargin\<close>.
\<close>

definition settle :: "int \<Rightarrow> position \<Rightarrow> user_profile \<Rightarrow> user_profile" where
  "settle s p' up =
     (let up1 = up\<lparr>up_positions := um_put s p' (up_positions up)\<rparr>
      in if position_is_empty p' then remove_position_record p' up1 else up1)"

lemma empty_position_value:
  assumes "position_is_empty p" and "position_ok p" shows "position_value q p = ps_profit p"
  using assms by (simp add: position_is_empty_def position_value_def)

lemma settle_wealth:
  assumes ok: "positions_ok spec up" and p: "um_find (up_positions up) (sp_symbolId spec) = Some p"
    and p': "position_ok p'" "ps_currency p' = ps_currency p" "ps_symbol p' = ps_symbol p"
  shows "wealth q c (settle (sp_symbolId spec) p' up) = wealth q c up +
      (if c = sp_quoteCurrency spec
       then position_value (q (sp_symbolId spec)) p' - position_value (q (sp_symbolId spec)) p else 0)"
    and "positions_ok spec (settle (sp_symbolId spec) p' up)"
proof -
  let ?s = "sp_symbolId spec"
  have P: "ps_symbol p = ?s" "ps_currency p = sp_quoteCurrency spec" "distinct (map fst (up_positions up))"
    using ok p by (auto simp: positions_ok_def)
  let ?ps = "um_put ?s p' (up_positions up)"
  have d: "distinct (map fst ?ps)" using P(3) by (simp add: distinct_update)
  have V: "positions_value q c ?ps = positions_value q c (up_positions up) +
      (if sp_quoteCurrency spec = c then position_value (q ?s) p' - position_value (q ?s) p else 0)"
    using positions_value_put[OF p p'(2,3), of q c] P by simp
  have E: "positions_value q c (um_erase ?s ?ps) = positions_value q c ?ps -
      (if sp_quoteCurrency spec = c then position_value (q ?s) p' else 0)"
    using positions_value_erase[OF _ d, of ?s p' q c] P p'(2,3) by simp
  show "wealth q c (settle ?s p' up) = wealth q c up +
      (if c = sp_quoteCurrency spec then position_value (q ?s) p' - position_value (q ?s) p else 0)"
  proof (cases "position_is_empty p'")
    case True
    with E V P p' empty_position_value[OF True p'(1)] show ?thesis
      by (auto simp: settle_def Let_def wealth_def remove_position_record_def balance_def)
  next
    case False
    with V show ?thesis by (auto simp: settle_def Let_def wealth_def balance_def)
  qed
  show "positions_ok spec (settle ?s p' up)"
    using ok d p' P
    by (auto simp: settle_def Let_def positions_ok_def remove_position_record_def distinct_delete
        simp del: map_of_eq_Some_iff)
qed

lemma settle_pending:
  assumes "ps_symbol p' = sp_symbolId spec"
  shows "(case um_find (up_positions (settle (sp_symbolId spec) p' up)) (sp_symbolId spec) of
      None \<Rightarrow> 0 | Some p \<Rightarrow> pending_size a p) = pending_size a p'"
  using assms
  by (auto simp: settle_def Let_def remove_position_record_def position_is_empty_def pending_size_def)

section \<open>One trade\<close>

lemma um_put_twice [simp]: "um_put k v (um_put k w m) = um_put k v m"
  by (induction m) auto

lemma update_profile_twice:
  "update_profile uid f (update_profile uid g re) = update_profile uid (\<lambda>up. f (g up)) re"
  by (simp add: update_profile_def split: option.split)

lemma update_profile_fee: "update_profile uid f (add_fee c x re) = add_fee c x (update_profile uid f re)"
  by (simp add: update_profile_def add_fee_def split: option.split)

text \<open>A party's trade followed by the removal of an empty position is one update.\<close>

definition trade_profile :: "symbol_spec \<Rightarrow> position \<Rightarrow> int \<Rightarrow> user_profile \<Rightarrow> user_profile" where
  "trade_profile spec p' fee up = settle (sp_symbolId spec) p' (profile_add (sp_quoteCurrency spec) (- fee) up)"

lemma party_effect:
  assumes "update_position_for_margin_trade action (ev_size ev) (ev_price ev) p = (opened, p')"
    and "ps_symbol p' = sp_symbolId spec"
  shows "(case party_trade uid spec action feePerLot ev p (Attached (sp_symbolId spec)) re of
      (p1, ref1, re1) \<Rightarrow> drop_empty_position uid p1 ref1 re1) =
    (if position_is_empty p' then Detached p' else Attached (sp_symbolId spec),
     add_fee (sp_quoteCurrency spec) (feePerLot * opened)
       (update_profile uid (trade_profile spec p' (feePerLot * opened)) re))"
proof -
  let ?s = "sp_symbolId spec" and ?c = "sp_quoteCurrency spec" and ?fee = "feePerLot * opened"
  have "trade_profile spec p' ?fee = (\<lambda>up. profile_add ?c (- ?fee) (up\<lparr>up_positions := um_put ?s p' (up_positions up)\<rparr>))"
    if "\<not> position_is_empty p'"
    using that by (simp add: fun_eq_iff trade_profile_def settle_def Let_def profile_add_def)
  moreover have "trade_profile spec p' ?fee = (\<lambda>up. remove_position_record p'
        (profile_add ?c (- ?fee) (up\<lparr>up_positions := um_put ?s p' (up_positions up)\<rparr>)))"
    if "position_is_empty p'"
    using that by (simp add: fun_eq_iff trade_profile_def settle_def Let_def profile_add_def remove_position_record_def)
  ultimately show ?thesis
    using assms(1)
    by (simp add: party_trade_def write_spr_def Let_def drop_empty_position_def credit_def
        update_profile_fee update_profile_twice)
qed

text \<open>What a trade of one party does to the whole engine.\<close>

lemma trade_profile_effect:
  fixes fee :: int
  assumes ok: "margin_ok spec re" and up: "um_find (re_userProfiles re) uid = Some up"
    and p: "um_find (up_positions up) (sp_symbolId spec) = Some p"
    and sz: "0 < sz" "sz \<le> pending_size action p"
    and u: "update_position_for_margin_trade action sz price p = (opened, p')"
  defines "re' \<equiv> add_fee (sp_quoteCurrency spec) fee (update_profile uid (trade_profile spec p' fee) re)"
  shows "margin_ok spec re'"
    and "margin_total q c re' = margin_total q c re +
      (if c = sp_quoteCurrency spec then action_sign action * sz * (q (sp_symbolId spec) - price) else 0)"
    and "pending_of spec re' v b = pending_of spec re v b - (if v = uid \<and> b = action then sz else 0)"
    and "ps_symbol p' = sp_symbolId spec"
proof -
  let ?s = "sp_symbolId spec" and ?c = "sp_quoteCurrency spec"
  let ?up = "profile_add ?c (- fee) up"
  have pok: "positions_ok spec up" using ok up by (auto simp: margin_ok_def)
  then have pok1: "positions_ok spec ?up" and p1: "um_find (up_positions ?up) ?s = Some p"
    using p by (auto simp: positions_ok_def profile_add_def)
  have P: "position_ok p" "ps_symbol p = ?s" using pok p by (auto simp: positions_ok_def)
  have p': "position_ok p'" "ps_currency p' = ps_currency p" "ps_symbol p' = ps_symbol p"
    using update_position_ok[OF P(1) sz u] u
    by (auto simp: update_position_for_margin_trade_def close_current_position_futures_def
        open_position_margin_def pending_release_def split: if_splits)
  then show sym: "ps_symbol p' = ?s" using P by simp
  note W = settle_wealth[OF pok1 p1 p']
  have F: "um_find (re_userProfiles re') = (um_find (re_userProfiles re))(uid \<mapsto> trade_profile spec p' fee up)"
    using up by (simp add: re'_def update_profile_def)
  show "margin_ok spec re'"
    using ok W(2) by (auto simp: margin_ok_def F trade_profile_def simp del: map_of_eq_Some_iff)
  show "margin_total q c re' = margin_total q c re +
      (if c = ?c then action_sign action * sz * (q ?s - price) else 0)"
    using margin_total_update[OF up, of q c "trade_profile spec p' fee"] W(1)[of q c]
      update_position_value[OF P(1) sz(1) u, of "q ?s"]
    unfolding re'_def margin_total_fee by (simp add: trade_profile_def)
  have S: "pending_size b p' = pending_size b p - (if b = action then sz else 0)"
    using update_position_signed(2,3)[OF P(1) sz(1) u] by (cases b; cases action) auto
  have "pending_of spec re' uid b = pending_size b p'"
    using settle_pending[of p' spec b ?up] sym by (simp add: pending_of_def F trade_profile_def)
  moreover have "pending_of spec re uid b = pending_size b p" using up p by (simp add: pending_of_def)
  moreover have "v \<noteq> uid \<Longrightarrow> pending_of spec re' v b = pending_of spec re v b" by (simp add: pending_of_def F)
  ultimately show "pending_of spec re' v b = pending_of spec re v b - (if v = uid \<and> b = action then sz else 0)"
    using S by (cases "v = uid") auto
qed

section \<open>Events\<close>

text \<open>A rejected or reduced size is only taken off the pending size of its owner.\<close>

lemma release_effect:
  assumes ok: "margin_ok spec re" and up: "um_find (re_userProfiles re) uid = Some up"
    and p: "um_find (up_positions up) (sp_symbolId spec) = Some p"
    and sz: "0 < sz" "sz \<le> pending_size action p"
  defines "p' \<equiv> pending_release action sz p"
  defines "re' \<equiv> update_profile uid (settle (sp_symbolId spec) p') re"
  shows "margin_ok spec re'"
    and "margin_total q c re' = margin_total q c re"
    and "pending_of spec re' v b = pending_of spec re v b - (if v = uid \<and> b = action then sz else 0)"
    and "ps_symbol p' = sp_symbolId spec"
proof -
  let ?s = "sp_symbolId spec"
  have pok: "positions_ok spec up" using ok up by (auto simp: margin_ok_def)
  have P: "position_ok p" "ps_symbol p = ?s" using pok p by (auto simp: positions_ok_def)
  have p': "position_ok p'" "ps_currency p' = ps_currency p" "ps_symbol p' = ps_symbol p"
    "position_value x p' = position_value x p" for x
    using P(1) sz by (auto simp: p'_def pending_release_def position_ok_def pending_size_def position_value_def)
  then show sym: "ps_symbol p' = ?s" using P by simp
  note W = settle_wealth[OF pok p p'(1-3)]
  have F: "um_find (re_userProfiles re') = (um_find (re_userProfiles re))(uid \<mapsto> settle ?s p' up)"
    using up by (simp add: re'_def update_profile_def)
  show "margin_ok spec re'"
    using ok W(2) by (auto simp: margin_ok_def F simp del: map_of_eq_Some_iff)
  show "margin_total q c re' = margin_total q c re"
    using margin_total_update[OF up, of q c "settle ?s p'"] W(1)[of q c] p'(4)
    unfolding re'_def by simp
  have S: "pending_size b p' = pending_size b p - (if b = action then sz else 0)"
    by (cases b; cases action) (auto simp: p'_def pending_release_def pending_size_def)
  have "pending_of spec re' uid b = pending_size b p'"
    using settle_pending[of p' spec b up] sym by (simp add: pending_of_def F)
  moreover have "pending_of spec re uid b = pending_size b p" using up p by (simp add: pending_of_def)
  moreover have "v \<noteq> uid \<Longrightarrow> pending_of spec re' v b = pending_of spec re v b" by (simp add: pending_of_def F)
  ultimately show "pending_of spec re' v b = pending_of spec re v b - (if v = uid \<and> b = action then sz else 0)"
    using S by (cases "v = uid") auto
qed

text \<open>What one event takes off the pending size of a user and a side.\<close>

definition event_size_of :: "order_action \<Rightarrow> int \<Rightarrow> int \<Rightarrow> order_action \<Rightarrow> trade_event \<Rightarrow> int" where
  "event_size_of takerAction taker v b ev =
     (if v = taker \<and> b = takerAction then ev_size ev else 0) +
     (if ev_eventType ev = TRADE \<and> v = ev_matchedOrderUid ev \<and> b = opposite takerAction then ev_size ev else 0)"

lemma or_add_known: "um_find (re_userProfiles re) uid = Some up \<Longrightarrow> or_add_suspended uid re = re"
  by (simp add: or_add_suspended_def get_user_profile_or_add_suspended_def)

text \<open>A position that still has pending size is not dropped.\<close>

lemma pending_not_empty: "0 < pending_size a p \<Longrightarrow> \<not> position_is_empty p"
  by (auto simp: pending_size_def position_is_empty_def split: if_splits)

lemma taker_event:
  assumes ok: "margin_ok spec re" and mask: "re_shardMask re = 0"
    and ev: "ev_eventType ev \<noteq> BINARY_EVENT" "0 < ev_size ev"
    and pend: "ev_size ev \<le> pending_of spec re taker takerAction"
  shows "\<exists>ref re'. handle_event_margin_taker ev spec takerAction taker (Attached (sp_symbolId spec)) re = Inr (ref, re') \<and>
    margin_ok spec re' \<and> re_shardMask re' = 0 \<and>
    (\<forall>q c. margin_total q c re' = margin_total q c re +
      (if ev_eventType ev = TRADE \<and> c = sp_quoteCurrency spec
       then action_sign takerAction * ev_size ev * (q (sp_symbolId spec) - ev_price ev) else 0)) \<and>
    (\<forall>v b. pending_of spec re' v b = pending_of spec re v b - (if v = taker \<and> b = takerAction then ev_size ev else 0)) \<and>
    ((\<exists>b. 0 < pending_of spec re' taker b) \<longrightarrow> ref = Attached (sp_symbolId spec))"
proof -
  let ?s = "sp_symbolId spec"
  obtain up p where up: "um_find (re_userProfiles re) taker = Some up" and p: "um_find (up_positions up) ?s = Some p"
    and P: "pending_size takerAction p = pending_of spec re taker takerAction"
    using pending_of_pos[of spec re taker takerAction] pend ev(2) by (metis less_le_trans)
  have R: "read_spr taker (Attached ?s) re = Inr p"
    using up p by (simp add: read_spr_def get_position_record_def)
  have sz: "ev_size ev \<le> pending_size takerAction p" using pend P by simp
  show ?thesis
  proof (cases "ev_eventType ev = TRADE")
    case True
    obtain opened p' where u: "update_position_for_margin_trade takerAction (ev_size ev) (ev_price ev) p = (opened, p')"
      by (metis surj_pair)
    note T = trade_profile_effect[OF ok up p ev(2) sz u]
    let ?fee = "sp_takerFee spec * opened"
    let ?re' = "add_fee (sp_quoteCurrency spec) ?fee (update_profile taker (trade_profile spec p' ?fee) re)"
    have out: "handle_event_margin_taker ev spec takerAction taker (Attached ?s) re =
        Inr (if position_is_empty p' then Detached p' else Attached ?s, ?re')"
      using party_effect[OF u T(4), of taker "sp_takerFee spec" re] True R
      by (simp add: handle_event_margin_taker_def split: prod.splits)
    have "pending_of spec ?re' taker b = pending_size b p'" for b
      using settle_pending[OF T(4), of b "profile_add (sp_quoteCurrency spec) (- ?fee) up"] up
      by (simp add: pending_of_def update_profile_def trade_profile_def)
    then have "\<exists>b. 0 < pending_of spec ?re' taker b \<Longrightarrow> \<not> position_is_empty p'" using pending_not_empty by metis
    with out T(1-3)[where fee = ?fee] mask True show ?thesis
      by (intro exI[of _ "if position_is_empty p' then Detached p' else Attached ?s"] exI[of _ ?re']) simp
  next
    case False
    let ?p' = "pending_release takerAction (ev_size ev) p"
    let ?re' = "update_profile taker (settle ?s ?p') re"
    note T = release_effect[OF ok up p ev(2) sz]
    have "ev_eventType ev = REDUCE \<or> ev_eventType ev = REJECT" using False ev(1) by (cases "ev_eventType ev") auto
    moreover have "settle ?s ?p' = (\<lambda>up. up\<lparr>up_positions := um_put ?s ?p' (up_positions up)\<rparr>)"
      if "\<not> position_is_empty ?p'"
      using that by (simp add: fun_eq_iff settle_def Let_def)
    moreover have "settle ?s ?p' = (\<lambda>up. remove_position_record ?p' (up\<lparr>up_positions := um_put ?s ?p' (up_positions up)\<rparr>))"
      if "position_is_empty ?p'"
      using that by (simp add: fun_eq_iff settle_def Let_def)
    ultimately have out: "handle_event_margin_taker ev spec takerAction taker (Attached ?s) re =
        Inr (if position_is_empty ?p' then Detached ?p' else Attached ?s, ?re')"
      using R by (auto simp: handle_event_margin_taker_def write_spr_def drop_empty_position_def Let_def
          update_profile_twice)
    have "pending_of spec ?re' taker b = pending_size b ?p'" for b
      using settle_pending[OF T(4), of b up] up by (simp add: pending_of_def update_profile_def)
    then have "\<exists>b. 0 < pending_of spec ?re' taker b \<Longrightarrow> \<not> position_is_empty ?p'" using pending_not_empty by metis
    with out T(1-3) mask False show ?thesis
      by (intro exI[of _ "if position_is_empty ?p' then Detached ?p' else Attached ?s"] exI[of _ ?re']) simp
  qed
qed

lemma maker_event:
  assumes ok: "margin_ok spec re" and mask: "re_shardMask re = 0"
    and ev: "ev_eventType ev \<noteq> BINARY_EVENT" "0 < ev_size ev"
    and pend: "ev_eventType ev = TRADE \<Longrightarrow> ev_size ev \<le> pending_of spec re (ev_matchedOrderUid ev) (opposite takerAction)"
  shows "\<exists>ref' re'. handle_event_margin_maker ev spec takerAction (Some taker) ref re = Inr (ref', re') \<and>
    margin_ok spec re' \<and> re_shardMask re' = 0 \<and>
    (\<forall>q c. margin_total q c re' = margin_total q c re -
      (if ev_eventType ev = TRADE \<and> c = sp_quoteCurrency spec
       then action_sign takerAction * ev_size ev * (q (sp_symbolId spec) - ev_price ev) else 0)) \<and>
    (\<forall>v b. pending_of spec re' v b = pending_of spec re v b -
      (if ev_eventType ev = TRADE \<and> v = ev_matchedOrderUid ev \<and> b = opposite takerAction then ev_size ev else 0)) \<and>
    ((\<exists>b. 0 < pending_of spec re' taker b) \<longrightarrow> ref' = ref)"
proof (cases "ev_eventType ev = TRADE")
  case False
  with ok mask show ?thesis by (simp add: handle_event_margin_maker_def Let_def)
next
  case True
  let ?s = "sp_symbolId spec" and ?m = "ev_matchedOrderUid ev" and ?a = "opposite takerAction"
  obtain up p where up: "um_find (re_userProfiles re) ?m = Some up" and p: "um_find (up_positions up) ?s = Some p"
    and P: "pending_size ?a p = pending_of spec re ?m ?a"
    using pending_of_pos[of spec re ?m ?a] pend[OF True] ev(2) by (metis less_le_trans)
  have R: "read_spr ?m (Attached ?s) re = Inr p"
    using up p by (simp add: read_spr_def get_position_record_def)
  have sz: "ev_size ev \<le> pending_size ?a p" using pend[OF True] P by simp
  obtain opened p' where u: "update_position_for_margin_trade ?a (ev_size ev) (ev_price ev) p = (opened, p')"
    by (metis surj_pair)
  note T = trade_profile_effect[OF ok up p ev(2) sz u]
  let ?fee = "sp_makerFee spec * opened"
  let ?re' = "add_fee (sp_quoteCurrency spec) ?fee (update_profile ?m (trade_profile spec p' ?fee) re)"
  let ?ref1 = "if position_is_empty p' then Detached p' else Attached ?s"
  have out: "handle_event_margin_maker ev spec takerAction (Some taker) ref re =
      Inr (if taker = ?m \<and> ref = Attached ?s then ?ref1 else ref, ?re')"
  proof -
    obtain p1 re1 where pt: "party_trade ?m spec ?a (sp_makerFee spec) ev p (Attached ?s) re = (p1, Attached ?s, re1)"
      using u by (simp add: party_trade_def write_spr_def Let_def)
    then have "drop_empty_position ?m p1 (Attached ?s) re1 = (?ref1, ?re')"
      using party_effect[OF u T(4), of ?m "sp_makerFee spec" re] by simp
    with pt True R mask or_add_known[OF up] show ?thesis
      by (simp add: handle_event_margin_maker_def Let_def)
  qed
  have "pending_of spec ?re' ?m b = pending_size b p'" for b
    using settle_pending[OF T(4), of b "profile_add (sp_quoteCurrency spec) (- ?fee) up"] up
    by (simp add: pending_of_def update_profile_def trade_profile_def)
  then have "taker = ?m \<Longrightarrow> \<exists>b. 0 < pending_of spec ?re' taker b \<Longrightarrow> \<not> position_is_empty p'"
    using pending_not_empty by metis
  with out T(1-3)[where fee = ?fee] mask True show ?thesis
    by (intro exI[of _ "if taker = ?m \<and> ref = Attached ?s then ?ref1 else ref"] exI[of _ ?re']) auto
qed

text \<open>
  One event: no wealth is made or lost, and both parties' pending sizes go down by its size. The
  taker's record stays where it is as long as the taker has pending size left.
\<close>

lemma margin_event:
  assumes ok: "margin_ok spec re" and mask: "re_shardMask re = 0"
    and ev: "ev_eventType ev \<noteq> BINARY_EVENT" "0 < ev_size ev"
    and pend: "\<forall>v b. event_size_of takerAction taker v b ev \<le> pending_of spec re v b"
  shows "\<exists>ref re'. handle_event_margin ev spec takerAction (Some taker) (Attached (sp_symbolId spec)) re = Inr (ref, re') \<and>
    margin_ok spec re' \<and> re_shardMask re' = 0 \<and>
    (\<forall>q c. margin_total q c re' = margin_total q c re) \<and>
    (\<forall>v b. pending_of spec re' v b = pending_of spec re v b - event_size_of takerAction taker v b ev) \<and>
    ((\<exists>b. 0 < pending_of spec re' taker b) \<longrightarrow> ref = Attached (sp_symbolId spec))"
proof -
  let ?s = "sp_symbolId spec"
  have "ev_size ev \<le> pending_of spec re taker takerAction"
    using pend[rule_format, of taker takerAction] ev by (simp add: event_size_of_def split: if_splits)
  from taker_event[OF ok mask ev this] obtain ref1 re1 where
    1: "handle_event_margin_taker ev spec takerAction taker (Attached ?s) re = Inr (ref1, re1)"
      "margin_ok spec re1" "re_shardMask re1 = 0"
      "\<And>q c. margin_total q c re1 = margin_total q c re +
        (if ev_eventType ev = TRADE \<and> c = sp_quoteCurrency spec
         then action_sign takerAction * ev_size ev * (q ?s - ev_price ev) else 0)"
      "\<And>v b. pending_of spec re1 v b = pending_of spec re v b - (if v = taker \<and> b = takerAction then ev_size ev else 0)"
      "(\<exists>b. 0 < pending_of spec re1 taker b) \<longrightarrow> ref1 = Attached ?s" by blast
  have "ev_eventType ev = TRADE \<Longrightarrow> ev_size ev \<le> pending_of spec re1 (ev_matchedOrderUid ev) (opposite takerAction)"
    using pend[rule_format, of "ev_matchedOrderUid ev" "opposite takerAction"] 1(5) by (simp add: event_size_of_def)
  from maker_event[OF 1(2,3) ev this, of taker ref1] obtain ref2 re2 where
    2: "handle_event_margin_maker ev spec takerAction (Some taker) ref1 re1 = Inr (ref2, re2)"
      "margin_ok spec re2" "re_shardMask re2 = 0"
      "\<And>q c. margin_total q c re2 = margin_total q c re1 -
        (if ev_eventType ev = TRADE \<and> c = sp_quoteCurrency spec
         then action_sign takerAction * ev_size ev * (q ?s - ev_price ev) else 0)"
      "\<And>v b. pending_of spec re2 v b = pending_of spec re1 v b -
        (if ev_eventType ev = TRADE \<and> v = ev_matchedOrderUid ev \<and> b = opposite takerAction then ev_size ev else 0)"
      "(\<exists>b. 0 < pending_of spec re2 taker b) \<longrightarrow> ref2 = ref1" by blast
  have le: "pending_of spec re2 v b \<le> pending_of spec re1 v b" for v b using 2(5)[of v b] ev(2) by simp
  have "(\<exists>b. 0 < pending_of spec re2 taker b) \<longrightarrow> ref2 = Attached ?s"
    using 1(6) 2(6) le by (metis less_le_trans)
  moreover have "handle_event_margin ev spec takerAction (Some taker) (Attached ?s) re = Inr (ref2, re2)"
    using 1(1) 2(1) by (simp add: handle_event_margin_def)
  moreover have "margin_total q c re2 = margin_total q c re" for q c using 1(4)[of q c] 2(4)[of q c] by simp
  moreover have "pending_of spec re2 v b = pending_of spec re v b - event_size_of takerAction taker v b ev" for v b
    using 1(5)[of v b] 2(5)[of v b] by (simp add: event_size_of_def)
  ultimately show ?thesis using 2(2,3) by blast
qed

definition events_size_of :: "order_action \<Rightarrow> int \<Rightarrow> int \<Rightarrow> order_action \<Rightarrow> trade_event list \<Rightarrow> int" where
  "events_size_of takerAction taker v b evs = sum_list (map (event_size_of takerAction taker v b) evs)"

lemma events_size_of_simps [simp]:
  "events_size_of a t v b [] = 0"
  "events_size_of a t v b (e # evs) = event_size_of a t v b e + events_size_of a t v b evs"
  by (simp_all add: events_size_of_def)

lemma events_size_of_nonneg:
  "\<forall>e \<in> set evs. 0 < ev_size e \<Longrightarrow> 0 \<le> events_size_of a t v b evs"
  by (induction evs) (auto simp: event_size_of_def)

lemma events_size_of_taker:
  "\<forall>e \<in> set evs. 0 < ev_size e \<Longrightarrow> evs \<noteq> [] \<Longrightarrow> 0 < events_size_of a t t a evs"
  by (cases evs) (auto simp: event_size_of_def intro!: add_pos_nonneg events_size_of_nonneg)

lemma margin_events:
  assumes "margin_ok spec re" and "re_shardMask re = 0"
    and "\<forall>ev \<in> set evs. ev_eventType ev \<noteq> BINARY_EVENT \<and> 0 < ev_size ev"
    and "\<forall>v b. events_size_of takerAction taker v b evs \<le> pending_of spec re v b"
  shows "\<exists>re'. handle_events_margin evs spec takerAction (Some taker) (Attached (sp_symbolId spec)) re = Inr re' \<and>
    margin_ok spec re' \<and> re_shardMask re' = 0 \<and> (\<forall>q c. margin_total q c re' = margin_total q c re) \<and>
    (\<forall>v b. pending_of spec re' v b = pending_of spec re v b - events_size_of takerAction taker v b evs)"
  using assms
proof (induction evs arbitrary: re)
  case Nil
  then show ?case by simp
next
  case (Cons ev evs)
  have pos: "\<forall>e \<in> set evs. 0 < ev_size e" using Cons.prems(3) by simp
  note nn = events_size_of_nonneg[OF pos]
  have ev: "ev_eventType ev \<noteq> BINARY_EVENT" "0 < ev_size ev" using Cons.prems(3) by auto
  have pend: "\<forall>v b. event_size_of takerAction taker v b ev \<le> pending_of spec re v b"
  proof (intro allI)
    fix v b
    show "event_size_of takerAction taker v b ev \<le> pending_of spec re v b"
      using Cons.prems(4)[rule_format, of v b] nn[of takerAction taker v b] by simp
  qed
  from margin_event[OF Cons.prems(1,2) ev pend] obtain ref re1 where
    1: "handle_event_margin ev spec takerAction (Some taker) (Attached (sp_symbolId spec)) re = Inr (ref, re1)"
      "margin_ok spec re1" "re_shardMask re1 = 0" "\<And>q c. margin_total q c re1 = margin_total q c re"
      "\<And>v b. pending_of spec re1 v b = pending_of spec re v b - event_size_of takerAction taker v b ev"
      "(\<exists>b. 0 < pending_of spec re1 taker b) \<longrightarrow> ref = Attached (sp_symbolId spec)" by blast
  have p1: "\<forall>v b. events_size_of takerAction taker v b evs \<le> pending_of spec re1 v b"
  proof (intro allI)
    fix v b
    show "events_size_of takerAction taker v b evs \<le> pending_of spec re1 v b"
      using Cons.prems(4)[rule_format, of v b] 1(5)[of v b] by simp
  qed
  show ?case
  proof (cases "evs = []")
    case True
    with 1 show ?thesis by simp
  next
    case False
    have "0 < pending_of spec re1 taker takerAction"
      using events_size_of_taker[OF pos False, of takerAction taker] p1[rule_format, of taker takerAction] by simp
    then have "ref = Attached (sp_symbolId spec)" using 1(6) by blast
    with Cons.IH[OF 1(2,3) _ p1] Cons.prems(3) 1 show ?thesis by (simp add: diff_diff_eq)
  qed
qed

end
