(* ===== verification/Risk_Correct.thy ===== *)
theory Risk_Correct
  imports Naive_Correct Exchange_Conservation Margin_Conservation
begin

text \<open>
  What the risk engine promises, and where the code falls short of it.
\<close>

section \<open>Placing an exchange order\<close>

text \<open>C15:
  An order of an exchange pair is accepted exactly when its prices are in order and the account
  covers the hold. Acceptance takes exactly the hold off the account, a refusal takes nothing,
  and no account goes below zero by it.
\<close>

theorem exchange_order_hold:
  assumes "place_exchange_order cmd sp up = (code, up')"
  shows "(code = VALID_FOR_MATCHING_ENGINE \<longleftrightarrow>
      (case order_hold cmd sp of Inl _ \<Rightarrow> False | Inr (currency, x) \<Rightarrow> x \<le> balance currency up)) \<and>
    (\<forall>c. balance c up' = balance c up - (if code = VALID_FOR_MATCHING_ENGINE then command_hold cmd sp c else 0)) \<and>
    (\<forall>c. min 0 (balance c up) \<le> balance c up') \<and> up_positions up' = up_positions up"
proof (cases "order_hold cmd sp")
  case (Inl e)
  then have "code = e" "up' = up" "e \<noteq> VALID_FOR_MATCHING_ENGINE"
    using assms by (auto simp: place_exchange_order_def order_hold_def split: if_splits)
  with Inl show ?thesis by simp
next
  case (Inr h)
  then show ?thesis
    using assms
    by (cases h) (auto simp: place_exchange_order_def Let_def balance_def command_hold_def split: if_splits)
qed

definition sample_profile :: user_profile where
  "sample_profile = (new_user_profile 2 ACTIVE)\<lparr>up_accounts := [(15, 5000)]\<rparr>"

theorem exchange_order_hold_witness:
  "balance 15 (snd (place_exchange_order (sample_order GTC 101 2 BID 21 3) sample_spec sample_profile)) =
    5000 - 3 * (21 * 10 + 3)"
proof -
  obtain code up' where p: "place_exchange_order (sample_order GTC 101 2 BID 21 3) sample_spec sample_profile = (code, up')"
    by (metis surj_pair)
  from exchange_order_hold[OF p] p show ?thesis
    by (simp add: sample_defs default_command_def order_hold_def command_hold_def balance_def um_get0_def
        sample_profile_def calculate_amount_bid_taker_fee_def)
qed

text \<open>
  The size of an order is not checked. An ask of a negative size is accepted by every account
  that is not overdrawn, and its negative hold is credited to the account.
\<close>

lemma negative_size_order_credits:
  assumes "cmd_size cmd < 0" and "cmd_action cmd = ASK" and "0 < sp_baseScaleK sp"
    and "sp_takerFee sp \<le> cmd_price cmd * sp_quoteScaleK sp" and "0 \<le> balance (sp_baseCurrency sp) up"
    and "place_exchange_order cmd sp up = (code, up')"
  shows "code = VALID_FOR_MATCHING_ENGINE \<and> balance (sp_baseCurrency sp) up < balance (sp_baseCurrency sp) up'"
proof -
  have "order_hold cmd sp = Inr (sp_baseCurrency sp, cmd_size cmd * sp_baseScaleK sp)"
    using assms(2,4) by (simp add: order_hold_def calculate_amount_ask_def)
  moreover have "cmd_size cmd * sp_baseScaleK sp < 0" using assms(1,3) by (simp add: mult_neg_pos)
  ultimately show ?thesis
    using assms(5,6) by (auto simp: place_exchange_order_def Let_def balance_def split: if_splits)
qed

section \<open>Transfers of an exchange pair\<close>

text \<open>C16:
  What R2 adds to the accounts of all users and to the fees, in any currency, is exactly what the
  events of the command release: the rejected or reduced size gives back its hold, and a trade
  gives the buyer the base amount and spreads the held quote amount over seller, buyer and fees.
  One risk engine serves all users.
\<close>

theorem exchange_transfers_exact:
  assumes "re_shardMask re = 0" and "cmd_matcherEvent cmd = ev # evs"
  shows "re_total c (post_process_exchange cmd ev evs sp re) = re_total c re + command_release cmd sp c"
  by (rule post_process_exchange_total[OF assms])

definition sample_engine :: risk_engine where
  "sample_engine = \<lparr>re_shardId = 0, re_shardMask = 0, re_symbolSpecs = [(7, sample_spec), (8, sample_future)],
     re_userProfiles = [(2, sample_profile)],
     re_incomingData = [], re_lastPriceCache = [], re_fees = [], re_adjustments = [], re_suspends = [],
     re_cfgIgnoreRiskProcessing = False, re_cfgMarginTradingEnabled = True\<rparr>"

definition sample_trade :: trade_event where
  "sample_trade = default_event\<lparr>ev_matchedOrderId := 100, ev_matchedOrderUid := 1, ev_price := 20,
     ev_size := 3, ev_bidderHoldPrice := 21\<rparr>"

theorem exchange_transfers_exact_witness:
  "re_total 15 (post_process_exchange ((sample_order GTC 101 2 BID 21 3)\<lparr>cmd_matcherEvent := [sample_trade]\<rparr>)
      sample_trade [] sample_spec sample_engine) = 5000 + 3 * (21 * 10 + 3)"
  using exchange_transfers_exact[of sample_engine "(sample_order GTC 101 2 BID 21 3)\<lparr>cmd_matcherEvent := [sample_trade]\<rparr>"
      sample_trade "[]" 15 sample_spec]
  by (simp add: sample_engine_def sample_profile_def re_total_def total_accounts_def balance_def um_get0_def
      command_release_def trades_release_of_def buy_release_def sample_trade_def default_event_def sample_defs
      default_command_def calculate_amount_bid_taker_fee_def)

text \<open>
  At the book every command balances: what the orders of the book hold before, with the hold of
  an accepted order, is what they hold after plus what R2 will release for its events.
\<close>

lemma book_command_balances:
  assumes "nb_inv nb" and "fresh_command cmd"
    and "cmd_command cmd = PLACE_ORDER \<and> cmd_resultCode cmd = VALID_FOR_MATCHING_ENGINE \<longrightarrow>
      (\<exists>h. order_hold cmd sp = Inr h)"
  shows "\<exists>code nb' cmd'. process_command naive_ops node nb cmd = Inr (code, nb', cmd') \<and>
    book_balance sp c (nb_abs nb) + accepted_hold cmd sp c =
      book_balance sp c (nb_abs nb') + command_release cmd' sp c"
proof -
  have p: "placeable cmd" "cmd_matcherEvent cmd = []" using assms(2) by (auto simp: fresh_command_def placeable_def)
  have h: "cmd_command cmd = PLACE_ORDER \<and> cmd_resultCode cmd = VALID_FOR_MATCHING_ENGINE \<longrightarrow>
      balanced_type cmd \<and> (\<exists>h. order_hold cmd sp = Inr h)"
    using assms(2,3) by (auto simp: fresh_command_def)
  obtain fcode ffb fcmd where F: "flat_process_command (sp_type (nb_symbolSpec nb)) node (nb_abs nb) cmd = (fcode, ffb, fcmd)"
    by (metis prod_cases3)
  obtain code nb' cmd' where M: "process_command naive_ops node nb cmd = Inr (code, nb', cmd')"
    "same_outcome (fcode, ffb, fcmd) (code, nb_abs nb', cmd')"
    using naive.process_command_refines[OF assms(1) p(1), of node] F by auto
  have "ffb = nb_abs nb'" using M(2) by (simp add: same_outcome_def)
  with flat_process_command_balance[OF naive.valid_flat_ok[OF assms(1)] p(2,1) h F]
    same_outcome_release[OF M(2) F p(2)] M(1) show ?thesis by auto
qed

text \<open>C33:
  The exception: a bid of type \<open>IOC_BUDGET\<close> holds its budget, is rejected by the book and is paid
  back per lot, so that every accepted one creates the price of all its lots but one.
\<close>

theorem ioc_budget_bid_creates_money:
  assumes "nb_inv nb" and "0 < cmd_size cmd" and "cmd_matcherEvent cmd = []"
    and "cmd_command cmd = PLACE_ORDER" and "cmd_orderType cmd = IOC_BUDGET" and "cmd_action cmd = BID"
    and "order_hold cmd sp = Inr h"
  shows "\<exists>nb' cmd'. naive_new_order node nb cmd = Inr (nb', cmd') \<and> nb_abs nb' = nb_abs nb \<and>
    command_release cmd' sp c - command_hold cmd sp c =
      (if c = sp_quoteCurrency sp then (cmd_size cmd - 1) * cmd_price cmd * sp_quoteScaleK sp else 0)"
proof -
  obtain nb' cmd' where n: "naive_new_order node nb cmd = Inr (nb', cmd')" "flat_new_order node (nb_abs nb) cmd = (nb_abs nb', cmd')"
    using naive_new_order_refine[OF assms(1,2), of node] by blast
  then have out: "nb_abs nb' = nb_abs nb" "cmd' = attach_reject_event node cmd (cmd_size cmd)"
    using assms(5) by (auto simp: flat_new_order_def)
  have "\<not> budget_bid cmd" using assms(5) by (simp add: budget_bid_def)
  from other_type_balance[OF assms(3) this, of node sp c]
  have "command_release cmd' sp c = hold_of sp c BID (cmd_reserveBidPrice cmd) (cmd_size cmd)"
    using out(2) assms(6) by simp
  moreover have "cmd_reserveBidPrice cmd = cmd_price cmd"
    using assms(5,6,7) by (simp add: order_hold_def split: if_splits)
  ultimately show ?thesis
    using n out(1) assms(5,6,7)
    by (auto simp: hold_of_def command_hold_def order_hold_def amount_defs algebra_simps split: if_splits)
qed

theorem ioc_budget_bid_creates_money_witness:
  "\<exists>nb' cmd'. naive_new_order default_event sample_book (sample_order IOC_BUDGET 101 2 BID 21 3) = Inr (nb', cmd') \<and>
    nb_abs nb' = nb_abs sample_book \<and>
    command_release cmd' sample_spec 15 - command_hold (sample_order IOC_BUDGET 101 2 BID 21 3) sample_spec 15 = 420"
proof -
  let ?cmd = "sample_order IOC_BUDGET 101 2 BID 21 3"
  have "order_hold ?cmd sample_spec = Inr (15, calculate_amount_bid_taker_fee_for_budget 3 21 sample_spec)"
    by (simp add: order_hold_def sample_defs default_command_def)
  from ioc_budget_bid_creates_money[OF conjunct1[OF sample_book_ok] _ _ _ _ _ this, of default_event 15]
  show ?thesis by (simp add: sample_defs default_command_def)
qed

section \<open>Margin symbols\<close>

text \<open>C14:
  Margin trading is a zero-sum game: marked to any prices, the wealth of all users (accounts plus
  the value of their positions) and the collected fees have the same total before and after R2
  has worked off the events of a command. No event fails, the positions stay well formed, and
  every size is taken exactly once off the pending size of each party, if the pending sizes of
  the parties cover the events. One risk engine serves all users, and the events are trades,
  reductions or rejections of positive sizes.
\<close>

theorem margin_transfers_zero_sum:
  assumes "margin_ok sp re" and "re_shardMask re = 0" and "cmd_symbol cmd = sp_symbolId sp" and "evs \<noteq> []"
    and "\<forall>ev \<in> set evs. ev_eventType ev \<noteq> BINARY_EVENT \<and> 0 < ev_size ev"
    and "\<forall>v b. events_size_of (cmd_action cmd) (cmd_uid cmd) v b evs \<le> pending_of sp re v b"
  shows "\<exists>re'. post_process_margin cmd evs sp re = Inr re' \<and> margin_ok sp re' \<and>
    (\<forall>q c. margin_total q c re' = margin_total q c re) \<and>
    (\<forall>v b. pending_of sp re' v b = pending_of sp re v b - events_size_of (cmd_action cmd) (cmd_uid cmd) v b evs)"
proof -
  let ?t = "cmd_uid cmd" and ?a = "cmd_action cmd"
  have "0 < pending_of sp re ?t ?a"
    using events_size_of_taker[of evs ?a ?t] assms(4,5) assms(6)[rule_format, of ?t ?a] by force
  from pending_of_pos[OF this] obtain up p where up: "um_find (re_userProfiles re) ?t = Some up"
    "um_find (up_positions up) (sp_symbolId sp) = Some p" .
  then have "read_spr ?t (Attached (sp_symbolId sp)) (or_add_suspended ?t re) = Inr p"
    by (simp add: or_add_known read_spr_def get_position_record_def)
  with margin_events[OF assms(1,2,5,6)] assms(2,3) or_add_known[OF up(1)] show ?thesis
    by (simp add: post_process_margin_def Let_def) blast
qed

text \<open>A seller's resting order trades with a buyer; both have their sizes pending.\<close>

definition sample_margin_engine :: risk_engine where
  "sample_margin_engine = sample_engine\<lparr>re_userProfiles :=
     [(1, (new_user_profile 1 ACTIVE)\<lparr>up_positions := [(8, pending_hold ASK 4 (position_initialize 1 8 15))]\<rparr>),
      (2, (new_user_profile 2 ACTIVE)\<lparr>up_positions := [(8, pending_hold BID 3 (position_initialize 2 8 15))]\<rparr>)]\<rparr>"

definition sample_margin_order :: order_command where
  "sample_margin_order = (sample_order GTC 101 2 BID 21 3)\<lparr>cmd_symbol := 8\<rparr>"

lemmas sample_margin_defs = sample_margin_engine_def sample_margin_order_def sample_engine_def sample_defs
  default_command_def sample_trade_def default_event_def new_user_profile_def position_initialize_def pending_hold_def

theorem margin_transfers_zero_sum_witness:
  "\<exists>re'. post_process_margin sample_margin_order [sample_trade] sample_future sample_margin_engine = Inr re' \<and>
    margin_ok sample_future re' \<and>
    (\<forall>q c. margin_total q c re' = margin_total q c sample_margin_engine) \<and>
    (\<forall>v b. pending_of sample_future re' v b = pending_of sample_future sample_margin_engine v b -
      events_size_of (cmd_action sample_margin_order) (cmd_uid sample_margin_order) v b [sample_trade])"
proof (rule margin_transfers_zero_sum)
  show "margin_ok sample_future sample_margin_engine"
    by (auto simp: margin_ok_def positions_ok_def position_ok_def sample_margin_defs split: if_splits)
  show "\<forall>v b. events_size_of (cmd_action sample_margin_order) (cmd_uid sample_margin_order) v b [sample_trade]
      \<le> pending_of sample_future sample_margin_engine v b"
    by (auto simp: event_size_of_def pending_of_def pending_size_def sample_margin_defs)
qed (simp_all add: sample_margin_defs)

text \<open>C17:
  A trade moves a well-formed position by exactly its size in the trade's direction, takes the
  size off the pending orders of that side only, keeps the position well formed, opens at most
  the trade's size, and changes its value at any price \<open>q\<close> by the size times the difference of
  \<open>q\<close> to the trade's price. The size is positive and was pending.
\<close>

theorem position_trade_exact:
  assumes "position_ok p" and "0 < sz" and "sz \<le> pending_size action p"
    and "update_position_for_margin_trade action sz price p = (opened, p')"
  shows "position_ok p' \<and> signed_position p' = signed_position p + action_sign action * sz \<and>
    pending_size action p' = pending_size action p - sz \<and>
    pending_size (opposite action) p' = pending_size (opposite action) p \<and> 0 \<le> opened \<and> opened \<le> sz \<and>
    position_value q p' = position_value q p + action_sign action * sz * (q - price)"
  using update_position_ok[OF assms] update_position_signed[OF assms(1,2,4)] update_position_value[OF assms(1,2,4)]
  by simp

definition sample_position :: position where
  "sample_position = \<lparr>ps_uid = 2, ps_symbol = 8, ps_currency = 15, ps_direction = LONG, ps_openVolume = 2,
     ps_openPriceSum = 40, ps_profit = 0, ps_pendingSellSize = 5, ps_pendingBuySize = 0\<rparr>"

theorem position_trade_exact_witness:
  "signed_position (snd (update_position_for_margin_trade ASK 5 30 sample_position)) = - 3"
proof -
  obtain opened p' where u: "update_position_for_margin_trade ASK 5 30 sample_position = (opened, p')" by (metis surj_pair)
  have "position_ok sample_position" "(5::int) \<le> pending_size ASK sample_position" "signed_position sample_position = 2"
    by (simp_all add: sample_position_def position_ok_def pending_size_def signed_position_def)
  with position_trade_exact[OF _ _ _ u] u show ?thesis by simp
qed

text \<open>
  The margin required for a new order is the margin the position requires once the order's size
  is pending, or \<open>-1\<close> when the order does not raise it; required margins are never negative.
\<close>

theorem order_margin_is_pending_margin:
  assumes "position_ok p" and "0 \<le> sp_marginBuy sp" and "0 \<le> sp_marginSell sp"
  shows "required_margin_for_order sp action sz p =
      (let m = required_margin_for_futures sp (pending_hold action sz p)
       in if m \<le> required_margin_for_futures sp p then -1 else m) \<and>
    0 \<le> required_margin_for_futures sp p"
  using required_margin_order_hold[of sp action sz p] required_margin_nonneg[OF assms] by blast

theorem order_margin_is_pending_margin_witness:
  "required_margin_for_order sample_future BID 4 sample_position = 300 \<and>
    required_margin_for_order sample_future ASK 1 sample_position = 240"
  using order_margin_is_pending_margin[of sample_position sample_future BID 4]
    order_margin_is_pending_margin[of sample_position sample_future ASK 1]
  by (simp add: sample_position_def position_ok_def sample_future_def required_margin_for_futures_def
      pending_hold_def signed_position_def Let_def)

text \<open>
  The internal state check refuses a position that trades lead to: a long position of two lots
  bought at 10 of which one lot is sold at 30 is well formed, and the check throws.
\<close>

lemma position_check_refuses_reachable:
  "let p0 = pending_hold ASK 1 (pending_hold BID 2 (position_initialize 2 8 15));
       p1 = snd (update_position_for_margin_trade BID 2 10 p0);
       p2 = snd (update_position_for_margin_trade ASK 1 30 p1)
   in position_validate p0 = Inr () \<and> position_validate p1 = Inr () \<and> position_ok p2 \<and>
     position_validate p2 = Inl (Runtime_Error ''non-EMPTY direction but zero or negative volume or price sum'')"
  by (simp add: Let_def position_initialize_def position_defs position_validate_def position_ok_def)

definition sample_two_futures :: risk_engine where
  "sample_two_futures = sample_engine\<lparr>re_symbolSpecs := [(8, sample_future), (9, sample_future\<lparr>sp_symbolId := 9\<rparr>)]\<rparr>"

text \<open>The last prices of a symbol, zero when there are none.\<close>

definition last_price_of :: "risk_engine \<Rightarrow> int \<Rightarrow> last_price" where
  "last_price_of re s = (case um_find (re_lastPriceCache re) s of None \<Rightarrow> default_last_price | Some r \<Rightarrow> r)"

text \<open>What a position of another symbol adds to the free margin.\<close>

definition margin_of_other :: "risk_engine \<Rightarrow> symbol_spec \<Rightarrow> int \<times> position \<Rightarrow> int" where
  "margin_of_other re spec e =
     (if ps_currency (snd e) = sp_quoteCurrency spec then
        case get_symbol_specification (fst e) (re_symbolSpecs re) of
          None \<Rightarrow> 0
        | Some spec2 \<Rightarrow> estimate_profit spec2 (Some (last_price_of re (fst e))) (snd e)
            - required_margin_for_futures spec2 (snd e)
      else 0)"

lemma free_margin_others:
  "symbol \<notin> fst ` set ps \<Longrightarrow>
   free_margin_loop re symbol spec pos m ps = m + sum_list (map (margin_of_other re spec) ps)"
  by (induction ps arbitrary: m) (auto simp: margin_of_other_def last_price_of_def Let_def split: option.splits)

lemma free_margin_append:
  "free_margin_loop re symbol spec pos m (ps @ qs) = free_margin_loop re symbol spec pos (free_margin_loop re symbol spec pos m ps) qs"
  by (induction ps arbitrary: m) (auto simp: Let_def)

text \<open>C34:
  The margin check forgets what it has added up. When the position of the order's own symbol comes
  up in the iteration over the user's positions, the free margin collected from the positions
  before it is overwritten: for any user, order and prices the verdict compares the required
  margin with the account, the profit of the own position and the profits less margins of the
  positions after it only. Whatever the user has gained or lost in the positions before it does
  not count, so that the verdict depends on the iteration order of an unordered map.
\<close>

theorem margin_check_order_dependent:
  assumes "cmd_symbol cmd \<notin> fst ` set later"
  shows "fst (can_place_margin_order cmd spec pos (up\<lparr>up_positions := earlier @ (cmd_symbol cmd, own) # later\<rparr>) re) \<longleftrightarrow>
    required_margin_for_order spec (cmd_action cmd) (cmd_size cmd) pos = -1 \<or>
    required_margin_for_order spec (cmd_action cmd) (cmd_size cmd) pos \<le>
      balance (ps_currency pos) up + estimate_profit spec (Some (last_price_of re (sp_symbolId spec))) pos +
        sum_list (map (margin_of_other re spec) later)"
  by (simp add: can_place_margin_order_def free_margin_append free_margin_others[OF assms] last_price_of_def balance_def
      um_get0_touch Let_def add.assoc)

text \<open>A profit of 1000 in another symbol, iterated after or before the own one.\<close>

theorem margin_check_order_dependent_witness:
  "let own = position_initialize 2 8 15;
       other = (position_initialize 2 9 15)\<lparr>ps_profit := 1000\<rparr>;
       up = (\<lambda>ps. (new_user_profile 2 ACTIVE)\<lparr>up_positions := ps\<rparr>)
   in fst (can_place_margin_order sample_margin_order sample_future own (up [(8, own), (9, other)]) sample_two_futures) \<and>
     \<not> fst (can_place_margin_order sample_margin_order sample_future own (up [(9, other), (8, own)]) sample_two_futures)"
proof -
  let ?own = "position_initialize 2 8 15" and ?other = "(position_initialize 2 9 15)\<lparr>ps_profit := 1000\<rparr>"
  note check = margin_check_order_dependent[where cmd = sample_margin_order and spec = sample_future and pos = ?own and own = ?own
      and up = "new_user_profile 2 ACTIVE" and re = sample_two_futures]
  have s: "cmd_symbol sample_margin_order = 8" by (simp add: sample_margin_defs)
  have accepted: "fst (can_place_margin_order sample_margin_order sample_future ?own
      ((new_user_profile 2 ACTIVE)\<lparr>up_positions := [(8, ?own), (9, ?other)]\<rparr>) sample_two_futures)"
    using check[where earlier = "[]" and later = "[(9, ?other)]"]
    by (simp add: s) (simp add: required_margin_for_order_def signed_position_def estimate_profit_def
      required_margin_for_futures_def get_symbol_specification_def sample_two_futures_def
      sample_margin_defs um_get0_def balance_def margin_of_other_def last_price_of_def)
  have refused: "\<not> fst (can_place_margin_order sample_margin_order sample_future ?own
      ((new_user_profile 2 ACTIVE)\<lparr>up_positions := [(9, ?other), (8, ?own)]\<rparr>) sample_two_futures)"
    using check[where earlier = "[(9, ?other)]" and later = "[]"]
    by (simp add: s) (simp add: required_margin_for_order_def signed_position_def estimate_profit_def
      required_margin_for_futures_def get_symbol_specification_def sample_two_futures_def
      sample_margin_defs um_get0_def balance_def margin_of_other_def last_price_of_def)
  from accepted refused show ?thesis by (simp add: Let_def)
qed

end
