(* ===== verification/Services_Correct.thy ===== *)
theory Services_Correct
  imports Binary_Commands Unsafe_Utils Events_Helper Samples
begin

text \<open>
  What the services promise: the user accounts, the concurrent writes to a command, the assembly
  of binary transfers, the binary events of a report and the codes of the enumerations.
\<close>

section \<open>Users\<close>

lemma suspend_user_effect:
  assumes "suspend_user uid us = (SUCCESS, us')" and "distinct (map fst us)"
  shows "total_accounts c us' = total_accounts c us" and "um_find us' = (um_find us)(uid := None)"
    and "\<exists>up. um_find us uid = Some up \<and> up_userStatus up \<noteq> SUSPENDED \<and>
      (\<forall>p \<in> snd ` set (up_positions up). position_is_empty p) \<and> (\<forall>c. balance c up = 0)"
proof -
  show "total_accounts c us' = total_accounts c us"
    using suspend_user_removes_nothing[OF assms] by blast
  show "um_find us' = (um_find us)(uid := None)"
    using assms by (auto simp: suspend_user_def get_user_profile_def split: option.splits if_splits)
  show "\<exists>up. um_find us uid = Some up \<and> up_userStatus up \<noteq> SUSPENDED \<and>
      (\<forall>p \<in> snd ` set (up_positions up). position_is_empty p) \<and> (\<forall>c. balance c up = 0)"
    using assms
    by (auto simp: suspend_user_def get_user_profile_def balance_def um_get0_all_zero
        split: option.splits if_splits)
qed

text \<open>C29:
  A balance adjustment is applied exactly once. If it succeeds, the user's account and the total
  of the currency grow by its amount, no other total moves, a withdrawal leaves no negative
  account, and every later adjustment whose transaction number is not greater is refused and
  changes nothing. If it fails, nothing has changed.
\<close>

theorem balance_adjustment_applied_once:
  assumes "balance_adjustment uid c x t us = (code, us')"
  shows "(code \<noteq> SUCCESS \<longrightarrow> us' = us) \<and>
    (code = SUCCESS \<longrightarrow>
       (\<forall>c'. total_accounts c' us' = total_accounts c' us + (if c' = c then x else 0)) \<and>
       (\<exists>up. um_find us' uid = Some up \<and> (x < 0 \<longrightarrow> 0 \<le> balance c up)) \<and>
       (\<forall>c' x' t'. t' \<le> t \<longrightarrow> fst (balance_adjustment uid c' x' t' us') \<noteq> SUCCESS \<and>
          snd (balance_adjustment uid c' x' t' us') = us'))"
  using balance_adjustment_cases[OF assms] total_accounts_adjustment[OF assms]
    balance_adjustment_once[of uid c x t us us'] assms
  by (cases "code = SUCCESS") auto

definition sample_service :: user_service where
  "sample_service = [(1, (new_user_profile 1 ACTIVE)\<lparr>up_accounts := [(15, 40)], up_adjustmentsCounter := 6\<rparr>)]"

theorem balance_adjustment_applied_once_witness:
  "fst (balance_adjustment 1 15 (-30) 7 sample_service) = SUCCESS \<and>
   fst (balance_adjustment 1 15 500 7 (snd (balance_adjustment 1 15 (-30) 7 sample_service))) \<noteq> SUCCESS"
proof -
  have "balance_adjustment 1 15 (-30) 7 sample_service =
      (SUCCESS, snd (balance_adjustment 1 15 (-30) 7 sample_service))"
    by (simp add: sample_service_def balance_adjustment_def get_user_profile_def Let_def um_get0_def)
  from balance_adjustment_applied_once[OF this] this show ?thesis by (metis fst_conv order_refl)
qed

text \<open>
  Suspending a user deletes the profile, and does so only when nothing is lost with it: the user
  was active, every position was empty and every account zero, so no total of any currency
  changes and no other profile does. A later resumption creates an empty active profile.
\<close>

lemma suspend_deletes_only_empty_profiles:
  assumes "suspend_user uid us = (SUCCESS, us')" and "distinct (map fst us)"
  shows "(\<exists>up. um_find us uid = Some up \<and> up_userStatus up \<noteq> SUSPENDED \<and>
        (\<forall>p \<in> snd ` set (up_positions up). position_is_empty p) \<and> (\<forall>c. balance c up = 0)) \<and>
    (\<forall>c. total_accounts c us' = total_accounts c us) \<and>
    um_find us' = (um_find us)(uid := None) \<and>
    um_find (snd (resume_user uid us')) uid = Some (new_user_profile uid ACTIVE)"
  using suspend_user_effect[OF assms]
  by (simp add: resume_user_def get_user_profile_def)

section \<open>Concurrent writes to a command\<close>

lemma fold_set_result:
  assumes "successCode \<noteq> failureCode" and "cmd_resultCode cmd \<noteq> failureCode"
  shows "cmd_resultCode (fold (\<lambda>i cmd. set_result_volatile cmd (res i) successCode failureCode) is cmd) =
    (if \<exists>i \<in> set is. \<not> res i then failureCode else if is = [] then cmd_resultCode cmd else successCode)"
proof (induction "is" rule: rev_induct)
  case Nil
  then show ?case by simp
next
  case (snoc i "is")
  then show ?case using assms by (auto simp: set_result_volatile_def Let_def)
qed

text \<open>C18:
  When all shards of a stage have set their result in one command, by compare-exchange loops
  that interleave in any way and may fail spuriously, the command holds what the writes leave
  when they are made one after the other: the failure code if any shard failed.
\<close>

theorem concurrent_results_agree:
  assumes "cas_reachable (set_result_body res successCode failureCode) (cmd_resultCode cmd) n s"
    and "finished_set s = {..<n}" and "successCode \<noteq> failureCode" and "cmd_resultCode cmd \<noteq> failureCode"
  shows "cs_field s =
    cmd_resultCode (fold (\<lambda>i cmd. set_result_volatile cmd (res i) successCode failureCode) [0..<n] cmd)"
  using set_result_invariant[OF assms(1,3,4)] fold_set_result[OF assms(3,4), of res "[0..<n]"] assms(2)
  by (auto simp: lessThan_def)

lemma cas_two_writers:
  fixes compute :: "nat \<Rightarrow> 'v \<Rightarrow> 'v option"
  assumes "compute 1 v = Some v1" and "compute 0 v = Some v'" and "compute 0 v1 = Some v2"
  shows "cas_reachable compute v 2 \<lparr>cs_field = v2, cs_writers = [Finished, Finished]\<rparr>"
proof -
  let ?s = "\<lambda>f a b. \<lparr>cs_field = f, cs_writers = [a, b]\<rparr> :: 'v cas_state"
  have i: "cas_init v 2 = ?s v Start Start" by (simp add: cas_init_def numeral_2_eq_2)
  have "cas_step compute (?s v Start Start) (?s v (Expecting v) Start)"
    using cas_step.load[of 0 "[Start, Start]" compute v] by simp
  moreover have "cas_step compute (?s v (Expecting v) Start) (?s v (Expecting v) (Expecting v))"
    using cas_step.load[of 1 "[Expecting v, Start]" compute v] by simp
  moreover have "cas_step compute (?s v (Expecting v) (Expecting v)) (?s v1 (Expecting v) Finished)"
    using cas_step.exchange[of 1 "[Expecting v, Expecting v]" v compute v1] assms by simp
  moreover have "cas_step compute (?s v1 (Expecting v) Finished) (?s v1 (Expecting v1) Finished)"
    using cas_step.reload[of 0 "[Expecting v, Finished]" v compute v' v1] assms by simp
  moreover have "cas_step compute (?s v1 (Expecting v1) Finished) (?s v2 Finished Finished)"
    using cas_step.exchange[of 0 "[Expecting v1, Finished]" v1 compute v2] assms by simp
  ultimately show ?thesis unfolding i by (meson converse_rtranclp_into_rtranclp rtranclp.rtrancl_refl)
qed

lemma finished_two: "finished_set \<lparr>cs_field = v, cs_writers = [Finished, Finished]\<rparr> = {..<2}"
  by (auto simp: finished_set_def less_2_cases_iff)

theorem concurrent_results_agree_witness:
  "cas_reachable (set_result_body (\<lambda>i. i = 1) SUCCESS RISK_NSF) NEW 2
     \<lparr>cs_field = RISK_NSF, cs_writers = [Finished, Finished]\<rparr> \<and>
   RISK_NSF = cmd_resultCode (fold (\<lambda>i cmd. set_result_volatile cmd (i = 1) SUCCESS RISK_NSF)
     [0..<2] (default_command\<lparr>cmd_resultCode := NEW\<rparr>))"
proof -
  let ?c = "default_command\<lparr>cmd_resultCode := NEW\<rparr>"
  have r: "cas_reachable (set_result_body (\<lambda>i. i = 1) SUCCESS RISK_NSF) (cmd_resultCode ?c) 2
     \<lparr>cs_field = RISK_NSF, cs_writers = [Finished, Finished]\<rparr>"
    by (rule cas_two_writers[of _ _ SUCCESS RISK_NSF]) (simp_all add: set_result_body_def)
  from concurrent_results_agree[OF r finished_two] r show ?thesis by simp
qed

lemma fold_append_events:
  "cmd_matcherEvent (fold (\<lambda>i cmd. append_events_volatile cmd (chain i)) is cmd) =
     concat (map chain (rev is)) @ cmd_matcherEvent cmd"
  by (induction "is" arbitrary: cmd) (simp_all add: append_events_volatile_def)

text \<open>C19:
  When all shards have appended their chains of events to one command concurrently, no event is
  lost or duplicated and no chain is torn: the chain of the command is what the writes leave when
  they are made one after the other in some order of the shards.
\<close>

theorem concurrent_appends_keep_every_chain:
  assumes "cas_reachable (append_events_body chain) (cmd_matcherEvent cmd) n s"
    and "finished_set s = {..<n}"
  shows "\<exists>order. distinct order \<and> set order = {..<n} \<and>
    cs_field s = cmd_matcherEvent (fold (\<lambda>i cmd. append_events_volatile cmd (chain i)) order cmd)"
proof -
  obtain order where "distinct order" "set order = {..<n}"
    "cs_field s = concat (map chain order) @ cmd_matcherEvent cmd"
    using append_events_invariant[OF assms(1)] assms(2) by auto
  then show ?thesis by (intro exI[of _ "rev order"]) (simp add: fold_append_events)
qed

theorem concurrent_appends_keep_every_chain_witness:
  "\<exists>order. distinct order \<and> set order = {..<2} \<and>
    [default_event\<lparr>ev_size := 0\<rparr>, default_event\<lparr>ev_size := 1\<rparr>] =
      cmd_matcherEvent (fold (\<lambda>i cmd. append_events_volatile cmd [default_event\<lparr>ev_size := int i\<rparr>]) order
        (default_command\<lparr>cmd_matcherEvent := []\<rparr>))"
proof -
  let ?c = "default_command\<lparr>cmd_matcherEvent := []\<rparr>"
  have r: "cas_reachable (append_events_body (\<lambda>i. [default_event\<lparr>ev_size := int i\<rparr>])) (cmd_matcherEvent ?c) 2
     \<lparr>cs_field = [default_event\<lparr>ev_size := 0\<rparr>, default_event\<lparr>ev_size := 1\<rparr>],
       cs_writers = [Finished, Finished]\<rparr>"
    by (rule cas_two_writers) (simp_all add: append_events_body_def)
  from concurrent_appends_keep_every_chain[OF r finished_two] show ?thesis by simp
qed

section \<open>Binary transfers\<close>



definition sample_decode :: "int list \<Rightarrow> nat \<Rightarrow> exn + int list option" where
  "sample_decode arr n = Inr (Some (take n arr))"


text \<open>C36:
  A first frame that announces a message of no bytes creates an empty buffer, which doubling does
  not grow: its first word is stored out of bounds. (The bytes come from the client.)
\<close>

theorem zero_length_frame_out_of_bounds:
  assumes "um_find inc (cmd_userCookie cmd) = None" and "announced_length cmd = 0"
  shows "snd (accept_binary_frame decode cmd inc) = Inl Out_Of_Bounds"
  using assms
  by (simp add: accept_binary_frame_def transfer_of_def new_transfer_record_def frame_words_def
      add_word_def required_long_array_size_def Let_def)

theorem zero_length_frame_out_of_bounds_witness:
  "snd (accept_binary_frame sample_decode (default_command\<lparr>cmd_orderId := 5, cmd_userCookie := 1\<rparr>) []) =
     Inl Out_Of_Bounds"
  by (rule zero_length_frame_out_of_bounds) (simp_all add: announced_length_def)

text \<open>
  Round trip of a report: an array of words, padded to a multiple of five, that is sent as a chain
  of binary events is read back from the chain under its section, whatever other content the
  pooled event nodes had.
\<close>

lemma binary_events_roundtrip:
  assumes "length ws mod 5 = 0" and "ws \<noteq> []"
  shows "deserialize_events (binary_events_chain nodes s ws) [] = [(s, ws)]"
  by (rule deserialize_binary_chain[OF assms])

section \<open>Codes\<close>

text \<open>C32:
  The code of a command type identifies it: decoding accepts exactly the codes of the types and
  returns the type with that code, and every other value is an error.
\<close>

theorem command_type_from_code_iff:
  "(command_type_from_code code = Inr t \<longleftrightarrow> command_type_to_code t = code) \<and>
   ((\<exists>e. command_type_from_code code = Inl e) \<longleftrightarrow> code \<notin> range command_type_to_code)"
proof -
  have A: "command_type_from_code code = Inr t \<longleftrightarrow> command_type_to_code t = code" for t
    using command_type_from_code_inj[of code t] command_type_code_roundtrip[of t] by blast
  show ?thesis
    using A by (cases "command_type_from_code code") (auto simp del: command_type_from_code.simps intro: sym)
qed

text \<open>
  The merged result of several shards is a failure exactly if some shard failed, and then it is
  the result of the first shard that failed; without a failure it is \<open>SUCCESS\<close> if some shard
  succeeded and else \<open>ACCEPTED\<close>.
\<close>

lemma merged_result_is_first_failure:
  "let r = merge_to_first_failed rs; failed = (\<lambda>x. x \<noteq> SUCCESS \<and> x \<noteq> ACCEPTED)
   in (failed r \<longleftrightarrow> (\<exists>x \<in> set rs. failed x)) \<and>
     (failed r \<longrightarrow> (\<exists>before after. rs = before @ r # after \<and> (\<forall>x \<in> set before. \<not> failed x))) \<and>
     (r = SUCCESS \<longleftrightarrow> (\<forall>x \<in> set rs. \<not> failed x) \<and> SUCCESS \<in> set rs)"
proof -
  let ?F = "\<lambda>x. x \<noteq> SUCCESS \<and> x \<noteq> ACCEPTED"
  show ?thesis
  proof (cases "find ?F rs")
    case None
    then have "\<forall>x \<in> set rs. \<not> ?F x" by (simp add: find_None_iff)
    with None show ?thesis by (auto simp: merge_to_first_failed_def Let_def list_ex_iff)
  next
    case (Some r)
    then obtain i where i: "i < length rs" "?F (rs ! i)" "r = rs ! i" "\<forall>j < i. \<not> ?F (rs ! j)"
      by (auto simp: find_Some_iff)
    then have "rs = take i rs @ r # drop (Suc i) rs" by (simp add: id_take_nth_drop)
    moreover have "\<forall>x \<in> set (take i rs). \<not> ?F x" using i(1,4) by (fastforce simp: in_set_conv_nth)
    moreover have "r \<in> set rs" using i by simp
    ultimately show ?thesis using Some i by (auto simp: merge_to_first_failed_def Let_def)
  qed
qed

end
