(* ===== verification/Art_Cells.thy ===== *)
theory Art_Cells
  imports Prelude "HOL-Library.Word"
begin

unbundle bit_operations_syntax

text \<open>
  The four node classes of \<open>collections/art\<close> differ in how they keep the children of a node by
  sub-key, a byte. This theory holds these containers: the sorted arrays of \<open>ArtNode4\<close> and
  \<open>ArtNode16\<close>, the index array with free mask of \<open>ArtNode48\<close>, and the plain array of
  \<open>ArtNode256\<close>. Arrays of the first two are listed up to \<open>numChildren_\<close>. Each operation has
  one equation per class, and all are specified by the lookup \<open>cells_find\<close>.
\<close>

datatype (cells_slots: 's) cells =
    Cells4 "(nat \<times> 's) list"
  | Cells16 "(nat \<times> 's) list"
  | Cells48 (indexes: "int list") (slots48: "'s option list") (freeBitMask: "64 word") nat
  | Cells256 "'s option list" nat

section \<open>The operations of the classes\<close>

text \<open>\<open>ArtNode4\<close> and \<open>ArtNode16\<close>: the search stops at the first greater key.\<close>

fun pairs_find :: "nat \<Rightarrow> (nat \<times> 's) list \<Rightarrow> 's option" where
  "pairs_find i [] = None"
| "pairs_find i ((b, s) # ps) = (if b = i then Some s else if i < b then None else pairs_find i ps)"

fun pairs_set :: "nat \<Rightarrow> 's \<Rightarrow> (nat \<times> 's) list \<Rightarrow> (nat \<times> 's) list" where
  "pairs_set i s [] = []"
| "pairs_set i s ((b, t) # ps) = (if b = i then (b, s) # ps else (b, t) # pairs_set i s ps)"

text \<open>Shifting the greater keys, and \<open>InitFromNode4\<close>: the new key goes before the first greater one.\<close>

fun pairs_insert :: "nat \<Rightarrow> 's \<Rightarrow> (nat \<times> 's) list \<Rightarrow> (nat \<times> 's) list" where
  "pairs_insert i s [] = [(i, s)]"
| "pairs_insert i s ((b, t) # ps) = (if i < b then (i, s) # (b, t) # ps else (b, t) # pairs_insert i s ps)"

fun pairs_remove :: "nat \<Rightarrow> (nat \<times> 's) list \<Rightarrow> (nat \<times> 's) list" where
  "pairs_remove i [] = []"
| "pairs_remove i ((b, t) # ps) = (if b = i then ps else (b, t) # pairs_remove i ps)"

text \<open>\<open>__builtin_ctzll(~freeBitMask_)\<close>: the first position that is not taken.\<close>

definition lowest_zero :: "64 word \<Rightarrow> nat" where
  "lowest_zero fm = (case find (\<lambda>p. \<not> bit fm p) [0..<64] of Some p \<Rightarrow> p | None \<Rightarrow> 64)"

definition position_bit :: "nat \<Rightarrow> 64 word" where
  "position_bit p = push_bit p 1"

text \<open>Reading an array; an index out of range, which the invariant excludes, has no child.\<close>

definition slot_at :: "'s option list \<Rightarrow> nat \<Rightarrow> 's option" where
  "slot_at sl i = (if i < length sl then sl ! i else None)"

lemma slot_at_nth [simp]: "i < length sl \<Longrightarrow> slot_at sl i = sl ! i"
  by (simp add: slot_at_def)

definition find48 :: "nat \<Rightarrow> int list \<Rightarrow> 's option list \<Rightarrow> 's option" where
  "find48 i idx sl = (if idx ! i = -1 then None else slot_at sl (nat (idx ! i)))"

text \<open>All children in ascending order of their sub-keys.\<close>

definition scan_slots :: "(nat \<Rightarrow> 's option) \<Rightarrow> (nat \<times> 's) list" where
  "scan_slots f = List.map_filter (\<lambda>i. map_option (Pair i) (f i)) [0..<256]"

fun cells_find :: "'s cells \<Rightarrow> nat \<Rightarrow> 's option" where
  "cells_find (Cells4 ps) i = pairs_find i ps"
| "cells_find (Cells16 ps) i = pairs_find i ps"
| "cells_find (Cells48 idx sl fm n) i = find48 i idx sl"
| "cells_find (Cells256 sl n) i = slot_at sl i"

fun cells_asc :: "'s cells \<Rightarrow> (nat \<times> 's) list" where
  "cells_asc (Cells4 ps) = ps"
| "cells_asc (Cells16 ps) = ps"
| "cells_asc (Cells48 idx sl fm n) = scan_slots (\<lambda>i. find48 i idx sl)"
| "cells_asc (Cells256 sl n) = scan_slots (slot_at sl)"

text \<open>\<open>numChildren_\<close>.\<close>

fun cells_count :: "'s cells \<Rightarrow> nat" where
  "cells_count (Cells4 ps) = length ps"
| "cells_count (Cells16 ps) = length ps"
| "cells_count (Cells48 idx sl fm n) = n"
| "cells_count (Cells256 sl n) = n"

text \<open>Replacing the child of a sub-key that has one.\<close>

fun cells_set :: "nat \<Rightarrow> 's \<Rightarrow> 's cells \<Rightarrow> 's cells" where
  "cells_set i s (Cells4 ps) = Cells4 (pairs_set i s ps)"
| "cells_set i s (Cells16 ps) = Cells16 (pairs_set i s ps)"
| "cells_set i s (Cells48 idx sl fm n) = Cells48 idx (sl[nat (idx ! i) := Some s]) fm n"
| "cells_set i s (Cells256 sl n) = Cells256 (sl[i := Some s]) n"

text \<open>\<open>ArtNode48::InitFromNode16\<close>, \<open>ArtNode48::InitFromNode256\<close>, \<open>ArtNode256::InitFromNode48\<close>.\<close>

definition index_pairs :: "(nat \<times> 's) list \<Rightarrow> int list" where
  "index_pairs ps = fold (\<lambda>(p, b) idx. idx[b := int p]) (enumerate 0 (map fst ps)) (replicate 256 (-1))"

definition cells48_of :: "(nat \<times> 's) list \<Rightarrow> 's cells" where
  "cells48_of ps =
     Cells48 (index_pairs ps) (map (\<lambda>(b, s). Some s) ps @ replicate (48 - length ps) None)
       (mask (length ps)) (length ps)"

definition cells256_of48 :: "int list \<Rightarrow> 's option list \<Rightarrow> nat \<Rightarrow> 's \<Rightarrow> nat \<Rightarrow> 's cells" where
  "cells256_of48 idx sl i s n = Cells256 ((map (\<lambda>j. find48 j idx sl) [0..<256])[i := Some s]) (Suc n)"

text \<open>A child for a sub-key that has none; a full container is replaced by one of the next class.\<close>

fun cells_insert :: "nat \<Rightarrow> 's \<Rightarrow> 's cells \<Rightarrow> 's cells" where
  "cells_insert i s (Cells4 ps) =
     (if length ps < 4 then Cells4 (pairs_insert i s ps) else Cells16 (pairs_insert i s ps))"
| "cells_insert i s (Cells16 ps) =
     (if length ps < 16 then Cells16 (pairs_insert i s ps) else cells48_of (ps @ [(i, s)]))"
| "cells_insert i s (Cells48 idx sl fm n) =
     (if n < 48
      then let freePos = lowest_zero fm
           in Cells48 (idx[i := int freePos]) (sl[freePos := Some s]) (fm OR position_bit freePos) (Suc n)
      else cells256_of48 idx sl i s n)"
| "cells_insert i s (Cells256 sl n) = Cells256 (sl[i := Some s]) (Suc n)"

fun cells_remove :: "nat \<Rightarrow> 's cells \<Rightarrow> 's cells" where
  "cells_remove i (Cells4 ps) = Cells4 (pairs_remove i ps)"
| "cells_remove i (Cells16 ps) = Cells16 (pairs_remove i ps)"
| "cells_remove i (Cells48 idx sl fm n) =
     Cells48 (idx[i := -1]) (sl[nat (idx ! i) := None]) (fm AND NOT (position_bit (nat (idx ! i)))) (n - 1)"
| "cells_remove i (Cells256 sl n) = Cells256 (sl[i := None]) (n - 1)"

text \<open>The replacement by a smaller class at the switch thresholds 3, 12 and 37.\<close>

fun cells_shrink :: "'s cells \<Rightarrow> 's cells" where
  "cells_shrink (Cells4 ps) = Cells4 ps"
| "cells_shrink (Cells16 ps) = (if length ps = 3 then Cells4 ps else Cells16 ps)"
| "cells_shrink (Cells48 idx sl fm n) =
     (if n = 12 then Cells16 (take n (scan_slots (\<lambda>i. find48 i idx sl))) else Cells48 idx sl fm n)"
| "cells_shrink (Cells256 sl n) =
     (if n = 37 then cells48_of (take n (scan_slots (slot_at sl))) else Cells256 sl n)"

section \<open>Representation\<close>

definition pairs_ok :: "(nat \<times> 's) list \<Rightarrow> bool" where
  "pairs_ok ps \<longleftrightarrow> sorted_wrt (<) (map fst ps) \<and> fst ` set ps \<subseteq> {..<256}"

text \<open>
  The positions in the index array of \<open>ArtNode48\<close> are distinct, they are the ones taken in the mask
  and the ones with a child.
\<close>

definition rep48 :: "int list \<Rightarrow> 's option list \<Rightarrow> 64 word \<Rightarrow> nat \<Rightarrow> bool" where
  "rep48 idx sl fm n \<longleftrightarrow> length idx = 256 \<and> length sl = 48 \<and> n \<le> 48 \<and>
     (\<forall>i < 256. idx ! i = -1 \<or> (\<exists>p < 48. idx ! i = int p \<and> sl ! p \<noteq> None)) \<and>
     (\<forall>i < 256. \<forall>j < 256. \<forall>p. idx ! i = int p \<and> idx ! j = int p \<longrightarrow> i = j) \<and>
     (\<forall>p < 48. bit fm p \<longleftrightarrow> (\<exists>i < 256. idx ! i = int p)) \<and>
     n = card {i. i < 256 \<and> idx ! i \<noteq> -1}"

fun cells_rep :: "'s cells \<Rightarrow> bool" where
  "cells_rep (Cells4 ps) = (pairs_ok ps \<and> length ps \<le> 4)"
| "cells_rep (Cells16 ps) = (pairs_ok ps \<and> length ps \<le> 16)"
| "cells_rep (Cells48 idx sl fm n) = rep48 idx sl fm n"
| "cells_rep (Cells256 sl n) = (length sl = 256 \<and> n = card {i. i < 256 \<and> sl ! i \<noteq> None})"

lemma rep48_cases:
  assumes "rep48 idx sl fm n" and "i < 256"
  obtains "idx ! i = -1" "find48 i idx sl = None"
  | p s where "p < 48" "idx ! i = int p" "sl ! p = Some s" "find48 i idx sl = Some s"
  using assms by (auto simp: rep48_def find48_def)

lemma pairs_find_map_of: "sorted_wrt (<) (map fst ps) \<Longrightarrow> pairs_find i ps = map_of ps i"
proof (induction ps)
  case (Cons p ps)
  then show ?case by (cases p) (force simp: dest: map_of_SomeD intro!: map_of_eq_None_iff[THEN iffD2, symmetric])
qed simp

lemma pairs_set_find:
  "pairs_find i ps \<noteq> None \<Longrightarrow> pairs_find j (pairs_set i s ps) = (if j = i then Some s else pairs_find j ps)"
  by (induction ps) (auto split: if_splits)

lemma pairs_set_fst: "map fst (pairs_set i s ps) = map fst ps"
  by (induction ps) auto

lemma pairs_insert_map:
  "i \<notin> fst ` set ps \<Longrightarrow> map_of (pairs_insert i s ps) = (map_of ps)(i \<mapsto> s)"
  by (induction i s ps rule: pairs_insert.induct) (auto simp: fun_eq_iff)

lemma pairs_insert_set: "set (pairs_insert i s ps) = insert (i, s) (set ps)"
  by (induction i s ps rule: pairs_insert.induct) auto

lemma pairs_insert_length: "length (pairs_insert i s ps) = Suc (length ps)"
  by (induction i s ps rule: pairs_insert.induct) auto

lemma pairs_insert_sorted:
  "sorted_wrt (<) (map fst ps) \<Longrightarrow> i \<notin> fst ` set ps \<Longrightarrow> sorted_wrt (<) (map fst (pairs_insert i s ps))"
  by (induction i s ps rule: pairs_insert.induct) (auto simp: pairs_insert_set)

lemma pairs_remove_filter:
  "sorted_wrt (<) (map fst ps) \<Longrightarrow> pairs_remove i ps = filter (\<lambda>p. fst p \<noteq> i) ps"
proof (induction ps)
  case (Cons p ps)
  then show ?case by (cases p) (auto simp: filter_id_conv intro!: filter_True[symmetric])
qed simp

section \<open>Scanning an array\<close>

lemma scan_slots_eq: "scan_slots f = map (\<lambda>i. (i, the (f i))) (filter (\<lambda>i. f i \<noteq> None) [0..<256])"
  unfolding scan_slots_def List.map_filter_def by (induction "[0..<256]") (auto simp: comp_def)

lemma scan_slots_fst: "map fst (scan_slots f) = filter (\<lambda>i. f i \<noteq> None) [0..<256]"
  by (simp add: scan_slots_eq comp_def)

lemma scan_slots_sorted [simp]: "sorted_wrt (<) (map fst (scan_slots f))"
  unfolding scan_slots_fst by (rule sorted_wrt_filterI) simp

lemma scan_slots_map: "map_of (scan_slots f) i = (if i < 256 then f i else None)"
proof -
  have "map_of (map (\<lambda>i. (i, the (f i))) xs) i = (if i \<in> set xs then Some (the (f i)) else None)" for xs
    by (induction xs) auto
  then show ?thesis by (auto simp: scan_slots_eq)
qed

lemma scan_slots_length: "length (scan_slots f) = card {i. i < 256 \<and> f i \<noteq> None}"
proof -
  have "length (scan_slots f) = length (map fst (scan_slots f))" by simp
  also have "\<dots> = card (set (filter (\<lambda>i. f i \<noteq> None) [0..<256]))"
    unfolding scan_slots_fst by (rule distinct_card[symmetric]) simp
  finally show ?thesis by (simp add: conj_commute)
qed

lemma pairs_ok_scan: "pairs_ok (scan_slots f)"
proof -
  have "fst ` set (scan_slots f) \<subseteq> {..<256}" by (auto simp: scan_slots_eq)
  then show ?thesis by (simp only: pairs_ok_def scan_slots_sorted simp_thms)
qed

lemma pairs_scan:
  assumes "pairs_ok ps"
  shows "ps = scan_slots (\<lambda>i. pairs_find i ps)"
proof (rule sorted_assoc_unique)
  show "map_of ps = map_of (scan_slots (\<lambda>i. pairs_find i ps))"
  proof
    fix i
    show "map_of ps i = map_of (scan_slots (\<lambda>i. pairs_find i ps)) i"
      using assms
      by (auto simp: scan_slots_map pairs_find_map_of pairs_ok_def map_of_eq_None_iff)
  qed
qed (use assms in \<open>simp_all add: pairs_ok_def\<close>)

lemma cells_find_fun:
  "cells_find (Cells4 ps) = (\<lambda>i. pairs_find i ps)" "cells_find (Cells16 ps) = (\<lambda>i. pairs_find i ps)"
  "cells_find (Cells48 idx sl fm n) = (\<lambda>i. find48 i idx sl)" "cells_find (Cells256 sl n) = slot_at sl"
  by (simp_all add: fun_eq_iff)

lemma cells_asc_scan:
  assumes "cells_rep c"
  shows "cells_asc c = scan_slots (cells_find c)"
proof (cases c)
  case (Cells4 ps)
  then show ?thesis using assms pairs_scan[of ps] unfolding Cells4 cells_find_fun by simp
next
  case (Cells16 ps)
  then show ?thesis using assms pairs_scan[of ps] unfolding Cells16 cells_find_fun by simp
qed (simp_all add: cells_find_fun)

lemma cells_asc_map: "cells_rep c \<Longrightarrow> map_of (cells_asc c) i = (if i < 256 then cells_find c i else None)"
  by (simp add: cells_asc_scan scan_slots_map)

lemma cells_asc_sorted: "cells_rep c \<Longrightarrow> sorted_wrt (<) (map fst (cells_asc c))"
  by (simp add: cells_asc_scan)

lemma cells_count_card:
  assumes "cells_rep c"
  shows "cells_count c = card {i. i < 256 \<and> cells_find c i \<noteq> None}"
proof -
  have L: "length (cells_asc c) = card {i. i < 256 \<and> cells_find c i \<noteq> None}"
    unfolding cells_asc_scan[OF assms] by (rule scan_slots_length)
  show ?thesis
  proof (cases c)
    case (Cells48 idx sl fm n)
    have "{i. i < 256 \<and> idx ! i \<noteq> -1} = {i. i < 256 \<and> cells_find c i \<noteq> None}"
      using assms Cells48 by (auto simp: find48_def rep48_def)
    with assms Cells48 show ?thesis by (simp add: rep48_def)
  next
    case (Cells256 sl n)
    have "{i. i < 256 \<and> sl ! i \<noteq> None} = {i. i < 256 \<and> cells_find c i \<noteq> None}"
      using assms Cells256 by auto
    with assms Cells256 show ?thesis by simp
  qed (use assms L in simp_all)
qed

lemma cells_count_length: "cells_rep c \<Longrightarrow> cells_count c = length (cells_asc c)"
  by (simp add: cells_count_card cells_asc_scan scan_slots_length)

section \<open>Replacing a child\<close>

lemma pairs_set_ok: "pairs_ok (pairs_set i s ps) = pairs_ok ps" "length (pairs_set i s ps) = length ps"
proof -
  have "fst ` set (pairs_set i s ps) = fst ` set ps" by (metis list.set_map pairs_set_fst)
  then show "pairs_ok (pairs_set i s ps) = pairs_ok ps" unfolding pairs_ok_def pairs_set_fst by simp
  show "length (pairs_set i s ps) = length ps" by (metis length_map pairs_set_fst)
qed

lemma set48:
  assumes r: "rep48 idx sl fm n" and i: "i < 256" "find48 i idx sl = Some t"
  shows "rep48 idx (sl[nat (idx ! i) := Some s]) fm n"
    and "j < 256 \<Longrightarrow> find48 j idx (sl[nat (idx ! i) := Some s]) = (if j = i then Some s else find48 j idx sl)"
proof -
  obtain p where p: "p < 48" "idx ! i = int p" using r i by (cases rule: rep48_cases[OF r i(1)]) auto
  have n: "idx ! k = int p \<longleftrightarrow> k = i" if "k < 256" for k using r i p that unfolding rep48_def by blast
  have l: "length sl = 48" using r by (simp add: rep48_def)
  show "rep48 idx (sl[nat (idx ! i) := Some s]) fm n"
  proof -
    have "idx ! k = -1 \<or> (\<exists>q < 48. idx ! k = int q \<and> sl[p := Some s] ! q \<noteq> None)" if "k < 256" for k
      using l p(1) by (cases rule: rep48_cases[OF r that]) (auto simp: nth_list_update)
    with r show ?thesis unfolding rep48_def p(2) nat_int length_list_update by blast
  qed
  assume j: "j < 256"
  show "find48 j idx (sl[nat (idx ! i) := Some s]) = (if j = i then Some s else find48 j idx sl)"
  proof (cases rule: rep48_cases[OF r j])
    case 1
    with n[OF j] show ?thesis by (auto simp: find48_def)
  next
    case (2 q u)
    with n[OF j] p l show ?thesis by (auto simp: find48_def nth_list_update)
  qed
qed

lemma cells_set_spec:
  assumes "cells_rep c" and "cells_find c i = Some t" and "i < 256"
  shows "cells_rep (cells_set i s c)"
    and "j < 256 \<Longrightarrow> cells_find (cells_set i s c) j = (if j = i then Some s else cells_find c j)"
    and "cells_count (cells_set i s c) = cells_count c"
proof -
  have "cells_rep (cells_set i s c) \<and> cells_count (cells_set i s c) = cells_count c \<and>
    (j < 256 \<longrightarrow> cells_find (cells_set i s c) j = (if j = i then Some s else cells_find c j))"
  proof (cases c)
    case (Cells48 idx sl fm n)
    then show ?thesis using assms set48[of idx sl fm n i t] by simp
  next
    case (Cells256 sl n)
    then have "{k. k < 256 \<and> sl[i := Some s] ! k \<noteq> None} = {k. k < 256 \<and> sl ! k \<noteq> None}"
      using assms by (auto simp: nth_list_update)
    then show ?thesis using assms Cells256 by (auto simp: nth_list_update)
  qed (use assms in \<open>auto simp: pairs_set_find pairs_set_ok\<close>)
  then show "cells_rep (cells_set i s c)" "cells_count (cells_set i s c) = cells_count c"
    "j < 256 \<Longrightarrow> cells_find (cells_set i s c) j = (if j = i then Some s else cells_find c j)" by blast+
qed

section \<open>Building the larger classes\<close>

lemma index_pairs_snoc: "index_pairs (ps @ [(b, s)]) = (index_pairs ps)[b := int (length ps)]"
  by (simp add: index_pairs_def enumerate_append_eq)

lemma index_pairs_length [simp]: "length (index_pairs ps) = 256"
  by (induction ps rule: rev_induct) (auto simp: index_pairs_snoc, simp add: index_pairs_def)

lemma index_pairs_nth:
  assumes "distinct (map fst ps)" and "fst ` set ps \<subseteq> {..<256}"
  shows "p < length ps \<Longrightarrow> index_pairs ps ! fst (ps ! p) = int p"
    and "j < 256 \<Longrightarrow> j \<notin> fst ` set ps \<Longrightarrow> index_pairs ps ! j = -1"
proof -
  have "(\<forall>p < length ps. index_pairs ps ! fst (ps ! p) = int p) \<and>
    (\<forall>j < 256. j \<notin> fst ` set ps \<longrightarrow> index_pairs ps ! j = -1)"
    using assms
  proof (induction ps rule: rev_induct)
    case Nil
    then show ?case by (simp add: index_pairs_def)
  next
    case (snoc x ps)
    obtain b s where x: "x = (b, s)" by (cases x)
    have b: "b < 256" "b \<notin> fst ` set ps" using snoc.prems x by auto
    have "fst (ps ! p) \<noteq> b" if "p < length ps" for p using b(2) that by force
    with snoc b show ?case by (auto simp: x index_pairs_snoc nth_append nth_list_update less_Suc_eq)
  qed
  then show "p < length ps \<Longrightarrow> index_pairs ps ! fst (ps ! p) = int p"
    and "j < 256 \<Longrightarrow> j \<notin> fst ` set ps \<Longrightarrow> index_pairs ps ! j = -1" by blast+
qed

lemma cells48_of_spec:
  assumes d: "distinct (map fst ps)" and b: "fst ` set ps \<subseteq> {..<256}" and l: "length ps \<le> 48"
  shows "cells_rep (cells48_of ps)"
    and "j < 256 \<Longrightarrow> cells_find (cells48_of ps) j = map_of ps j"
    and "cells_count (cells48_of ps) = length ps"
proof -
  let ?idx = "index_pairs ps" and ?sl = "map (\<lambda>(b, s). Some s) ps @ replicate (48 - length ps) None"
  note nth = index_pairs_nth[OF d b]
  have key: "\<exists>p < length ps. i = fst (ps ! p)" if "i \<in> fst ` set ps" for i
    using that by (auto simp: in_set_conv_nth) (metis fst_conv)
  have slot: "?sl ! p = Some (snd (ps ! p))" if "p < length ps" for p
    using that by (simp add: nth_append split: prod.split)
  have cases: "?idx ! i = -1 \<and> i \<notin> fst ` set ps \<or> (\<exists>p < length ps. i = fst (ps ! p) \<and> ?idx ! i = int p)"
    if "i < 256" for i using nth key that by metis
  have used: "{i. i < 256 \<and> ?idx ! i \<noteq> -1} = fst ` set ps"
  proof (rule set_eqI)
    fix i
    show "i \<in> {i. i < 256 \<and> ?idx ! i \<noteq> -1} \<longleftrightarrow> i \<in> fst ` set ps"
    proof (cases "i < 256")
      case True
      with cases[of i] show ?thesis by auto
    next
      case False
      with b show ?thesis by auto
    qed
  qed
  have card: "card (fst ` set ps) = length ps" using d by (metis distinct_card length_map list.set_map)
  have "rep48 ?idx ?sl (mask (length ps)) (length ps)"
    unfolding rep48_def
  proof (intro conjI allI impI)
    fix i :: nat
    assume "i < 256"
    with cases[of i] slot l show "?idx ! i = -1 \<or> (\<exists>p < 48. ?idx ! i = int p \<and> ?sl ! p \<noteq> None)"
      by (metis option.distinct(1) order_less_le_trans)
  next
    fix i j :: nat and p
    assume "i < 256" "j < 256" "?idx ! i = int p \<and> ?idx ! j = int p"
    with cases[of i] cases[of j] show "i = j" by auto
  next
    fix p :: nat
    assume "p < 48"
    then have "bit (mask (length ps) :: 64 word) p \<longleftrightarrow> p < length ps" by (simp add: bit_mask_iff)
    moreover have "p < length ps \<longleftrightarrow> (\<exists>i < 256. ?idx ! i = int p)"
    proof
      assume p: "p < length ps"
      then have "fst (ps ! p) < 256" using b by (auto simp: image_subset_iff)
      with nth(1)[OF p] show "\<exists>i < 256. ?idx ! i = int p" by blast
    next
      assume "\<exists>i < 256. ?idx ! i = int p"
      then obtain i where "i < 256" "?idx ! i = int p" by blast
      with cases[of i] show "p < length ps" by auto
    qed
    ultimately show "bit (mask (length ps) :: 64 word) p \<longleftrightarrow> (\<exists>i < 256. ?idx ! i = int p)" by simp
  next
    show "length ps = card {i. i < 256 \<and> ?idx ! i \<noteq> -1}" unfolding used card ..
  qed (use l in simp_all)
  then show "cells_rep (cells48_of ps)" by (simp add: cells48_of_def)
  show "cells_count (cells48_of ps) = length ps" by (simp add: cells48_of_def)
  assume j: "j < 256"
  from cases[OF j] show "cells_find (cells48_of ps) j = map_of ps j"
  proof
    assume "?idx ! j = -1 \<and> j \<notin> fst ` set ps"
    then show ?thesis by (simp add: cells48_of_def find48_def map_of_eq_None_iff[symmetric])
  next
    assume "\<exists>p < length ps. j = fst (ps ! p) \<and> ?idx ! j = int p"
    then obtain p where p: "p < length ps" "j = fst (ps ! p)" "?idx ! j = int p" by blast
    then have "map_of ps j = Some (snd (ps ! p))"
      using d by (metis map_of_eq_Some_iff nth_mem prod.collapse)
    with p slot show ?thesis by (simp add: cells48_of_def find48_def)
  qed
qed

section \<open>Adding a child\<close>

lemma lowest_zero_spec:
  assumes "p < 48" and "\<not> bit fm p"
  shows "lowest_zero fm < 48 \<and> \<not> bit fm (lowest_zero fm)"
proof (cases "find (\<lambda>p. \<not> bit fm p) [0..<64]")
  case None
  with assms show ?thesis by (auto simp: find_None_iff)
next
  case (Some q)
  then have "\<not> bit fm q" "\<forall>j < q. bit fm j" by (auto simp: find_Some_iff)
  with assms have "q \<le> p" by (meson not_le)
  with Some assms \<open>\<not> bit fm q\<close> show ?thesis by (simp add: lowest_zero_def)
qed

lemma minus_one_neq_int: "(-1 :: int) \<noteq> int q"
  by simp

lemma bit_position_bit: "q < 64 \<Longrightarrow> bit (position_bit p) q \<longleftrightarrow> q = p"
  by (auto simp: position_bit_def bit_exp_iff)

lemma rep48_free:
  assumes "rep48 idx sl fm n" and "n < 48"
  shows "lowest_zero fm < 48 \<and> (\<forall>i < 256. idx ! i \<noteq> int (lowest_zero fm))"
proof -
  have "\<exists>p < 48. \<not> bit fm p"
  proof (rule ccontr)
    assume none: "\<not> ?thesis"
    have "int ` {..<48} \<subseteq> (\<lambda>i. idx ! i) ` {i. i < 256 \<and> idx ! i \<noteq> -1}"
    proof
      fix x
      assume "x \<in> int ` {..<48}"
      then obtain p where p: "p < 48" "x = int p" by blast
      with none have "bit fm p" by blast
      moreover have "bit fm p \<longleftrightarrow> (\<exists>i < 256. idx ! i = int p)" using assms(1) p(1) unfolding rep48_def by blast
      ultimately obtain i where "i < 256" "idx ! i = x" using p(2) by blast
      moreover have "x \<noteq> -1" using p(2) by simp
      ultimately show "x \<in> (\<lambda>i. idx ! i) ` {i. i < 256 \<and> idx ! i \<noteq> -1}" by blast
    qed
    then have "card (int ` {..<48}) \<le> card ((\<lambda>i. idx ! i) ` {i. i < 256 \<and> idx ! i \<noteq> -1})"
      by (rule card_mono[rotated]) simp
    also have "\<dots> \<le> card {i. i < 256 \<and> idx ! i \<noteq> -1}" by (rule card_image_le) simp
    finally have "card (int ` {..<48}) \<le> card {i. i < 256 \<and> idx ! i \<noteq> -1}" .
    moreover have "card (int ` {..<48}) = 48" by (simp add: card_image)
    moreover have "n = card {i. i < 256 \<and> idx ! i \<noteq> -1}" using assms(1) unfolding rep48_def by blast
    ultimately show False using assms(2) by linarith
  qed
  with lowest_zero_spec have z: "lowest_zero fm < 48" "\<not> bit fm (lowest_zero fm)" by blast+
  with assms(1) show ?thesis unfolding rep48_def by blast
qed

lemma insert48:
  assumes r: "rep48 idx sl fm n" and i: "i < 256" "find48 i idx sl = None" and n: "n < 48"
  defines "p \<equiv> lowest_zero fm"
  shows "rep48 (idx[i := int p]) (sl[p := Some s]) (fm OR position_bit p) (Suc n)"
    and "j < 256 \<Longrightarrow> find48 j (idx[i := int p]) (sl[p := Some s]) = (if j = i then Some s else find48 j idx sl)"
proof -
  have p: "p < 48" "\<And>k. k < 256 \<Longrightarrow> idx ! k \<noteq> int p" using rep48_free[OF r n] by (auto simp: p_def)
  have l: "length idx = 256" "length sl = 48" using r by (simp_all add: rep48_def)
  have fi: "idx ! i = -1" using i by (cases rule: rep48_cases[OF r i(1)]) auto
  have nth: "idx[i := int p] ! k = (if k = i then int p else idx ! k)" for k
    using l i(1) by (simp add: nth_list_update)
  have old: "idx ! k = -1 \<or> (\<exists>q < 48. q \<noteq> p \<and> idx ! k = int q \<and> sl ! q \<noteq> None)" if "k < 256" for k
    using p(2)[OF that] by (cases rule: rep48_cases[OF r that]) auto
  show "rep48 (idx[i := int p]) (sl[p := Some s]) (fm OR position_bit p) (Suc n)"
    unfolding rep48_def
  proof (intro conjI allI impI)
    fix k :: nat
    assume k: "k < 256"
    show "idx[i := int p] ! k = -1 \<or> (\<exists>q < 48. idx[i := int p] ! k = int q \<and> sl[p := Some s] ! q \<noteq> None)"
      using old[OF k] p(1) l by (cases "k = i") (auto simp: nth nth_list_update)
  next
    fix k j :: nat and q
    assume "k < 256" "j < 256" "idx[i := int p] ! k = int q \<and> idx[i := int p] ! j = int q"
    with p(2) r show "k = j" unfolding nth rep48_def by (metis of_nat_eq_iff)
  next
    fix q :: nat
    assume q: "q < 48"
    have "bit (fm OR position_bit p) q \<longleftrightarrow> bit fm q \<or> q = p" using q by (simp add: bit_or_iff bit_position_bit)
    moreover have "bit fm q \<longleftrightarrow> (\<exists>k < 256. idx ! k = int q)" using r q by (simp add: rep48_def)
    moreover have "(\<exists>k < 256. idx[i := int p] ! k = int q) \<longleftrightarrow> (\<exists>k < 256. idx ! k = int q) \<or> q = p"
      using fi i(1) unfolding nth by (metis minus_one_neq_int of_nat_eq_iff)
    ultimately show "bit (fm OR position_bit p) q \<longleftrightarrow> (\<exists>k < 256. idx[i := int p] ! k = int q)" by blast
  next
    have "{k. k < 256 \<and> idx[i := int p] ! k \<noteq> -1} = insert i {k. k < 256 \<and> idx ! k \<noteq> -1}"
      using i(1) by (auto simp: nth)
    then show "Suc n = card {k. k < 256 \<and> idx[i := int p] ! k \<noteq> -1}" using r fi by (simp add: rep48_def)
  qed (use l n in simp_all)
  assume j: "j < 256"
  show "find48 j (idx[i := int p]) (sl[p := Some s]) = (if j = i then Some s else find48 j idx sl)"
    using old[OF j] p(1) l by (auto simp: find48_def nth nth_list_update)
qed

lemma remove48:
  assumes r: "rep48 idx sl fm n" and i: "i < 256" "find48 i idx sl \<noteq> None"
  defines "p \<equiv> nat (idx ! i)"
  shows "rep48 (idx[i := -1]) (sl[p := None]) (fm AND NOT (position_bit p)) (n - 1)"
    and "j < 256 \<Longrightarrow> find48 j (idx[i := -1]) (sl[p := None]) = (if j = i then None else find48 j idx sl)"
proof -
  have p: "p < 48" "idx ! i = int p" using i(2) by (cases rule: rep48_cases[OF r i(1)]; auto simp: p_def)+
  have l: "length idx = 256" "length sl = 48" using r by (simp_all add: rep48_def)
  have nth: "idx[i := -1] ! k = (if k = i then -1 else idx ! k)" for k
    using l i(1) by (simp add: nth_list_update)
  have own: "idx ! k = int p \<longleftrightarrow> k = i" if "k < 256" for k using r i p that unfolding rep48_def by blast
  have old: "idx ! k = -1 \<or> (\<exists>q < 48. (q = p \<longleftrightarrow> k = i) \<and> idx ! k = int q \<and> sl ! q \<noteq> None)" if "k < 256" for k
    using own[OF that] by (cases rule: rep48_cases[OF r that]) auto
  show "rep48 (idx[i := -1]) (sl[p := None]) (fm AND NOT (position_bit p)) (n - 1)"
    unfolding rep48_def
  proof (intro conjI allI impI)
    fix k :: nat
    assume k: "k < 256"
    show "idx[i := -1] ! k = -1 \<or> (\<exists>q < 48. idx[i := -1] ! k = int q \<and> sl[p := None] ! q \<noteq> None)"
      using old[OF k] l by (cases "k = i") (auto simp: nth nth_list_update)
  next
    fix k j :: nat and q
    assume "k < 256" "j < 256" "idx[i := -1] ! k = int q \<and> idx[i := -1] ! j = int q"
    with r show "k = j" unfolding nth rep48_def by (metis minus_one_neq_int)
  next
    fix q :: nat
    assume q: "q < 48"
    have "bit (fm AND NOT (position_bit p)) q \<longleftrightarrow> bit fm q \<and> q \<noteq> p"
      using q by (auto simp: bit_and_iff bit_not_iff bit_position_bit)
    moreover have "bit fm q \<longleftrightarrow> (\<exists>k < 256. idx ! k = int q)" using r q by (simp add: rep48_def)
    moreover have "(\<exists>k < 256. idx[i := -1] ! k = int q) \<longleftrightarrow> (\<exists>k < 256. idx ! k = int q) \<and> q \<noteq> p"
      using own i(1) p unfolding nth by (metis minus_one_neq_int of_nat_eq_iff)
    ultimately show "bit (fm AND NOT (position_bit p)) q \<longleftrightarrow> (\<exists>k < 256. idx[i := -1] ! k = int q)" by blast
  next
    have "{k. k < 256 \<and> idx[i := -1] ! k \<noteq> -1} = {k. k < 256 \<and> idx ! k \<noteq> -1} - {i}"
      by (auto simp: nth)
    then show "n - 1 = card {k. k < 256 \<and> idx[i := -1] ! k \<noteq> -1}"
      using r i(1) p by (simp add: rep48_def card_Diff_singleton)
    have "n \<le> 48" using r unfolding rep48_def by blast
    then show "n - 1 \<le> 48" by simp
  qed (use l in simp_all)
  assume j: "j < 256"
  show "find48 j (idx[i := -1]) (sl[p := None]) = (if j = i then None else find48 j idx sl)"
    using old[OF j] l by (auto simp: find48_def nth nth_list_update)
qed

section \<open>The containers by their lookup\<close>

text \<open>The least number of children a container of each class has after the switch thresholds.\<close>

fun cells_min :: "'s cells \<Rightarrow> nat" where
  "cells_min (Cells4 ps) = 0"
| "cells_min (Cells16 ps) = 4"
| "cells_min (Cells48 idx sl fm n) = 13"
| "cells_min (Cells256 sl n) = 38"

definition cells_ok :: "'s cells \<Rightarrow> bool" where
  "cells_ok c \<longleftrightarrow> cells_rep c \<and> cells_min c \<le> cells_count c"

lemma pairs_insert_ok:
  assumes "pairs_ok ps" and "pairs_find i ps = None" and "i < 256"
  shows "pairs_ok (pairs_insert i s ps)" and "pairs_find j (pairs_insert i s ps) = (if j = i then Some s else pairs_find j ps)"
    and "i \<notin> fst ` set ps"
proof -
  have so: "sorted_wrt (<) (map fst ps)" using assms(1) unfolding pairs_ok_def by blast
  show n: "i \<notin> fst ` set ps" using assms(2) pairs_find_map_of[OF so, of i] by (simp add: map_of_eq_None_iff)
  have s2: "sorted_wrt (<) (map fst (pairs_insert i s ps))" by (rule pairs_insert_sorted[OF so n])
  then show "pairs_ok (pairs_insert i s ps)"
    using assms unfolding pairs_ok_def pairs_insert_set by simp
  show "pairs_find j (pairs_insert i s ps) = (if j = i then Some s else pairs_find j ps)"
    unfolding pairs_find_map_of[OF so] pairs_find_map_of[OF s2] pairs_insert_map[OF n] by simp
qed

lemma pairs_remove_ok:
  assumes "pairs_ok ps"
  shows "pairs_ok (pairs_remove i ps)" and "pairs_find j (pairs_remove i ps) = (if j = i then None else pairs_find j ps)"
    and "length (pairs_remove i ps) \<le> length ps"
proof -
  have so: "sorted_wrt (<) (map fst ps)" using assms unfolding pairs_ok_def by blast
  note eq = pairs_remove_filter[OF so, of i]
  have s2: "sorted_wrt (<) (map fst (pairs_remove i ps))"
    unfolding eq using so by (simp add: sorted_wrt_map sorted_wrt_filterI)
  then show "pairs_ok (pairs_remove i ps)"
    using assms unfolding pairs_ok_def eq by auto
  have "map_of (filter (\<lambda>p. fst p \<noteq> i) ps) j = (if j = i then None else map_of ps j)"
    by (induction ps) auto
  then show "pairs_find j (pairs_remove i ps) = (if j = i then None else pairs_find j ps)"
    unfolding pairs_find_map_of[OF so] eq pairs_find_map_of[OF s2[unfolded eq]] .
  show "length (pairs_remove i ps) \<le> length ps" unfolding eq by simp
qed

lemma cells_insert_spec:
  assumes ok: "cells_ok c" and i: "cells_find c i = None" "i < 256"
  shows "cells_ok (cells_insert i s c)"
    and "\<forall>j < 256. cells_find (cells_insert i s c) j = (if j = i then Some s else cells_find c j)"
proof -
  have "cells_ok (cells_insert i s c) \<and>
    (\<forall>j < 256. cells_find (cells_insert i s c) j = (if j = i then Some s else cells_find c j))"
  proof (cases c)
    case (Cells4 ps)
    then have "pairs_ok ps" "length ps \<le> 4" "pairs_find i ps = None" using ok i by (auto simp: cells_ok_def)
    with Cells4 i(2) pairs_insert_ok(1,2)[of ps i] show ?thesis
      by (simp add: cells_ok_def pairs_insert_length)
  next
    case (Cells16 ps)
    then have p: "pairs_ok ps" "length ps \<le> 16" "4 \<le> length ps" "pairs_find i ps = None"
      using ok i by (auto simp: cells_ok_def)
    note ins = pairs_insert_ok[OF p(1,4) i(2)]
    show ?thesis
    proof (cases "length ps < 16")
      case True
      with Cells16 p ins(1,2) show ?thesis by (simp add: cells_ok_def pairs_insert_length)
    next
      case False
      let ?qs = "ps @ [(i, s)]"
      have so: "sorted_wrt (<) (map fst ps)" and b: "fst ` set ps \<subseteq> {..<256}"
        using p(1) unfolding pairs_ok_def by blast+
      have "distinct (map fst ps)" using so strict_sorted_iff by blast
      then have "distinct (map fst ?qs)" "fst ` set ?qs \<subseteq> {..<256}" "length ?qs \<le> 48"
        using ins(3) b i(2) p(2) by auto
      note spec = cells48_of_spec[OF this]
      have "map_of ?qs j = (if j = i then Some s else pairs_find j ps)" for j
        unfolding pairs_find_map_of[OF so] using ins(3) by (auto simp: map_add_def map_of_eq_None_iff[symmetric] split: option.split)
      with False Cells16 spec p(2) show ?thesis by (simp add: cells_ok_def cells48_of_def)
    qed
  next
    case (Cells48 idx sl fm n)
    then have r: "rep48 idx sl fm n" "13 \<le> n" "find48 i idx sl = None" using ok i by (auto simp: cells_ok_def)
    show ?thesis
    proof (cases "n < 48")
      case True
      with Cells48 r insert48[OF r(1) i(2) r(3) True] show ?thesis by (simp add: cells_ok_def Let_def)
    next
      case False
      have n: "n = card {k. k < 256 \<and> find48 k idx sl \<noteq> None}" using r(1) cells_count_card[of c] Cells48 by simp
      have "{k. k < 256 \<and> (map (\<lambda>j. find48 j idx sl) [0..<256])[i := Some s] ! k \<noteq> None} =
          insert i {k. k < 256 \<and> find48 k idx sl \<noteq> None}"
        using i(2) by (auto simp: nth_list_update)
      then have "card {k. k < 256 \<and> (map (\<lambda>j. find48 j idx sl) [0..<256])[i := Some s] ! k \<noteq> None} = Suc n"
        using n r(3) by simp
      with False Cells48 r i(2) show ?thesis by (simp add: cells_ok_def cells256_of48_def nth_list_update)
    qed
  next
    case (Cells256 sl n)
    have "{k. k < 256 \<and> sl[i := Some s] ! k \<noteq> None} = insert i {k. k < 256 \<and> sl ! k \<noteq> None}"
      using i(2) ok Cells256 by (auto simp: nth_list_update cells_ok_def)
    then have "card {k. k < 256 \<and> sl[i := Some s] ! k \<noteq> None} = Suc n"
      using ok i Cells256 by (simp add: cells_ok_def)
    with Cells256 ok i(2) show ?thesis by (simp add: cells_ok_def nth_list_update)
  qed
  then show "cells_ok (cells_insert i s c)"
    and "\<forall>j < 256. cells_find (cells_insert i s c) j = (if j = i then Some s else cells_find c j)" by blast+
qed

lemma cells_remove_spec:
  assumes rep: "cells_rep c" and i: "cells_find c i \<noteq> None" "i < 256"
  shows "cells_rep (cells_remove i c)"
    and "\<forall>j < 256. cells_find (cells_remove i c) j = (if j = i then None else cells_find c j)"
    and "Suc (cells_count (cells_remove i c)) = cells_count c"
proof -
  have A: "cells_rep (cells_remove i c) \<and>
    (\<forall>j < 256. cells_find (cells_remove i c) j = (if j = i then None else cells_find c j))"
  proof (cases c)
    case (Cells4 ps)
    with rep pairs_remove_ok[where ps = ps and i = i] show ?thesis by fastforce
  next
    case (Cells16 ps)
    with rep pairs_remove_ok[where ps = ps and i = i] show ?thesis by fastforce
  next
    case (Cells48 idx sl fm n)
    with rep i remove48[of idx sl fm n i] show ?thesis by simp
  next
    case (Cells256 sl n)
    have "{k. k < 256 \<and> sl[i := None] ! k \<noteq> None} = {k. k < 256 \<and> sl ! k \<noteq> None} - {i}"
      using i(2) rep Cells256 by (auto simp: nth_list_update)
    then have "card {k. k < 256 \<and> sl[i := None] ! k \<noteq> None} = n - 1"
      using rep i Cells256 by (simp add: card_Diff_singleton)
    with Cells256 rep i(2) show ?thesis by (simp add: nth_list_update)
  qed
  then show r: "cells_rep (cells_remove i c)"
    and f: "\<forall>j < 256. cells_find (cells_remove i c) j = (if j = i then None else cells_find c j)" by blast+
  have "{j. j < 256 \<and> cells_find c j \<noteq> None} = insert i {j. j < 256 \<and> cells_find (cells_remove i c) j \<noteq> None}"
    using f i by (auto split: if_splits)
  then show "Suc (cells_count (cells_remove i c)) = cells_count c"
    unfolding cells_count_card[OF rep] cells_count_card[OF r] using f i(2) by simp
qed

lemma cells_shrink_spec:
  assumes "cells_rep c" and "cells_min c \<le> Suc (cells_count c)"
  shows "cells_ok (cells_shrink c)" and "\<forall>j < 256. cells_find (cells_shrink c) j = cells_find c j"
    and "cells_count (cells_shrink c) = cells_count c"
proof -
  have "cells_ok (cells_shrink c) \<and> (\<forall>j < 256. cells_find (cells_shrink c) j = cells_find c j) \<and>
    cells_count (cells_shrink c) = cells_count c"
  proof (cases c)
    case (Cells48 idx sl fm n)
    let ?qs = "scan_slots (\<lambda>i. find48 i idx sl)"
    have l: "length ?qs = n" using assms(1) Cells48 cells_count_length[of c] by simp
    have "pairs_find j ?qs = map_of ?qs j" for j by (rule pairs_find_map_of) (rule scan_slots_sorted)
    with l Cells48 assms pairs_ok_scan show ?thesis by (auto simp: cells_ok_def scan_slots_map)
  next
    case (Cells256 sl n)
    let ?qs = "scan_slots (slot_at sl)"
    have l: "length ?qs = n" using assms(1) Cells256 cells_count_length[of c] by simp
    have "pairs_ok ?qs" by (rule pairs_ok_scan)
    then have d: "distinct (map fst ?qs)" "fst ` set ?qs \<subseteq> {..<256}"
      unfolding pairs_ok_def using strict_sorted_iff by blast+
    show ?thesis
    proof (cases "n = 37")
      case True
      with l have "length ?qs \<le> 48" by simp
      note spec = cells48_of_spec[OF d this]
      have "cells_min (cells48_of ?qs) = 13" by (simp add: cells48_of_def)
      with True l spec Cells256 show ?thesis by (simp add: cells_ok_def scan_slots_map)
    next
      case False
      with Cells256 assms show ?thesis by (simp add: cells_ok_def)
    qed
  qed (use assms in \<open>auto simp: cells_ok_def\<close>)
  then show "cells_ok (cells_shrink c)" "\<forall>j < 256. cells_find (cells_shrink c) j = cells_find c j"
    "cells_count (cells_shrink c) = cells_count c" by blast+
qed

lemma cells_insert_count:
  assumes "cells_ok c" and "cells_find c i = None" "i < 256"
  shows "cells_count (cells_insert i s c) = Suc (cells_count c)"
proof -
  note spec = cells_insert_spec[OF assms, of s]
  have r: "cells_rep c" "cells_rep (cells_insert i s c)" using assms(1) spec(1) by (simp_all add: cells_ok_def)
  have "{j. j < 256 \<and> cells_find (cells_insert i s c) j \<noteq> None} = insert i {j. j < 256 \<and> cells_find c j \<noteq> None}"
    using spec(2) assms(3) by auto
  then show ?thesis unfolding cells_count_card[OF r(1)] cells_count_card[OF r(2)] using assms(2) by simp
qed

lemma cells_set_ok:
  assumes "cells_ok c" and "cells_find c i = Some t" and "i < 256"
  shows "cells_ok (cells_set i s c)"
proof -
  have "cells_min (cells_set i s c) = cells_min c" by (cases c) simp_all
  with cells_set_spec(1,3)[of c i t s] assms show ?thesis by (simp add: cells_ok_def)
qed

lemma cells_empty: "cells_rep c \<Longrightarrow> cells_count c = 0 \<Longrightarrow> j < 256 \<Longrightarrow> cells_find c j = None"
  by (simp add: cells_count_card)

lemma cells_remove_min: "cells_min (cells_remove i c) = cells_min c"
  by (cases c) simp_all

end
