(* ===== verification/Art_Tree.thy ===== *)
theory Art_Tree
  imports Art_Cells
begin

text \<open>
  \<open>collections/art/LongAdaptiveRadixTreeMap\<close> and the algorithms of its nodes. A node of level
  \<open>l\<close> distributes its keys by their byte at bit \<open>l\<close>; its node key carries the bits above it, which
  all its keys share, so that levels with one child are skipped. A child pointer is untyped in
  the code: a value at level 0, else a node; here its tag says so. A key whose bits from \<open>l\<close> on
  agree with those of another, \<open>((a ^ b) & (-1LL << l)) == 0\<close>, has the same quotient by \<open>2 ^ l\<close>.
  Nodes returned to the object pool are not modelled: a node is reached from its parent only.
\<close>

datatype 'v art = Val 'v | Node (node_level: nat) (node_key: int) "'v art cells"

definition prefix_of :: "nat \<Rightarrow> int \<Rightarrow> int" where
  "prefix_of l key = key div 2 ^ l"

definition byte_at :: "nat \<Rightarrow> int \<Rightarrow> nat" where
  "byte_at l key = nat ((key div 2 ^ l) mod 256)"

section \<open>Recursion into children\<close>

lemma cells_find_slot: "cells_find c i = Some s \<Longrightarrow> s \<in> cells_slots c"
proof (induction c i rule: cells_find.induct)
  case (1 ps i)
  then show ?case by (induction ps) (auto split: if_splits)
next
  case (2 ps i)
  then show ?case by (induction ps) (auto split: if_splits)
next
  case (3 idx sl fm n i)
  then show ?case by (auto simp: find48_def slot_at_def in_set_conv_nth split: if_splits intro!: bexI[of _ "Some s"])
next
  case (4 sl n i)
  then show ?case by (auto simp: slot_at_def in_set_conv_nth split: if_splits intro!: bexI[of _ "Some s"])
qed

lemma cells_slot_size: "s \<in> cells_slots c \<Longrightarrow> size s < size (Node l k c)"
proof (cases c)
  case (Cells4 ps)
  moreover assume "s \<in> cells_slots c"
  ultimately obtain b where "(b, s) \<in> set ps" by auto
  then have "size_prod (\<lambda>_. 0) size (b, s) \<le> size_list (size_prod (\<lambda>_. 0) size) ps" by (rule size_list_estimation') simp
  with Cells4 show ?thesis by simp
next
  case (Cells16 ps)
  moreover assume "s \<in> cells_slots c"
  ultimately obtain b where "(b, s) \<in> set ps" by auto
  then have "size_prod (\<lambda>_. 0) size (b, s) \<le> size_list (size_prod (\<lambda>_. 0) size) ps" by (rule size_list_estimation') simp
  with Cells16 show ?thesis by simp
next
  case (Cells48 idx sl fm n)
  moreover assume "s \<in> cells_slots c"
  ultimately have "Some s \<in> set sl" by auto
  then have "size_option size (Some s) \<le> size_list (size_option size) sl" by (rule size_list_estimation') simp
  with Cells48 show ?thesis by simp
next
  case (Cells256 sl n)
  moreover assume "s \<in> cells_slots c"
  ultimately have "Some s \<in> set sl" by auto
  then have "size_option size (Some s) \<le> size_list (size_option size) sl" by (rule size_list_estimation') simp
  with Cells256 show ?thesis by simp
qed

lemmas child_size = cells_slot_size[OF cells_find_slot]

declare cells.map_cong [fundef_cong]

section \<open>Lookup\<close>

function art_get :: "'v art \<Rightarrow> int \<Rightarrow> nat \<Rightarrow> 'v option" where
  "art_get (Val v) key level = Some v"
| "art_get (Node l nk c) key level =
     (if level \<noteq> l \<and> prefix_of (l + 8) key \<noteq> prefix_of (l + 8) nk then None
      else case cells_find c (byte_at l key) of
             None \<Rightarrow> None
           | Some s \<Rightarrow> art_get s key (l - 8))"
  by pat_completeness auto
termination
  by (relation "measure (\<lambda>(t, _, _). size t)") (auto dest: child_size)

section \<open>Insertion\<close>

text \<open>\<open>InitFirstKey\<close> and \<open>InitTwoKeys\<close>.\<close>

definition first_key_node :: "int \<Rightarrow> 'v \<Rightarrow> 'v art" where
  "first_key_node key v = Node 0 key (Cells4 [(byte_at 0 key, Val v)])"

definition two_keys_node :: "int \<Rightarrow> 'v art \<Rightarrow> int \<Rightarrow> 'v art \<Rightarrow> nat \<Rightarrow> 'v art" where
  "two_keys_node key1 value1 key2 value2 level =
     (let idx1 = byte_at level key1; idx2 = byte_at level key2
      in Node level (prefix_of level key1 * 2 ^ level)
           (Cells4 (if idx1 < idx2 then [(idx1, value1), (idx2, value2)] else [(idx2, value2), (idx1, value1)])))"

text \<open>The level of the highest byte in which two keys differ: \<open>(63 - clz(keyDiff)) & 0xF8\<close>.\<close>

definition diff_level :: "int \<Rightarrow> int \<Rightarrow> nat" where
  "diff_level a b =
     (case find (\<lambda>l. prefix_of l a \<noteq> prefix_of l b) [56, 48, 40, 32, 24, 16, 8, 0] of
        Some l \<Rightarrow> l
      | None \<Rightarrow> 0)"

definition branch_if_required :: "int \<Rightarrow> 'v \<Rightarrow> int \<Rightarrow> nat \<Rightarrow> 'v art \<Rightarrow> 'v art option" where
  "branch_if_required key v nk l caller =
     (if prefix_of l key = prefix_of l nk then None
      else let newLevel = diff_level key nk
           in if newLevel = l then None
              else Some (two_keys_node nk caller key (first_key_node key v) newLevel))"

text \<open>
  \<open>Put\<close> returns the node that replaces the one it was called on, or null; the result here is the
  node that is in its place afterwards.
\<close>

function art_put :: "'v art \<Rightarrow> int \<Rightarrow> nat \<Rightarrow> 'v \<Rightarrow> 'v art" where
  "art_put (Val w) key level v = Val v"
| "art_put (Node l nk c) key level v =
     (case (if level \<noteq> l then branch_if_required key v nk l (Node l nk c) else None) of
        Some branch \<Rightarrow> branch
      | None \<Rightarrow>
          let i = byte_at l key in
          (case cells_find c i of
             Some s \<Rightarrow> Node l nk (cells_set i (art_put s key (l - 8) v) c)
           | None \<Rightarrow> Node l nk (cells_insert i (if l = 0 then Val v else first_key_node key v) c)))"
  by pat_completeness auto
termination
  by (relation "measure (\<lambda>(t, _, _, _). size t)") (auto dest: child_size)

section \<open>Removal\<close>

text \<open>
  What becomes of a node one of whose children was removed or replaced: an \<open>ArtNode4\<close> with one
  child left is replaced by it, an empty one by null, the others switch to the smaller class.
\<close>

definition after_remove :: "nat \<Rightarrow> int \<Rightarrow> bool \<Rightarrow> 'v art cells \<Rightarrow> 'v art option" where
  "after_remove l nk removed c =
     (case c of
        Cells4 ps \<Rightarrow>
          if removed \<and> length ps = 1 \<and> l \<noteq> 0 then Some (snd (hd ps))
          else if ps = [] then None else Some (Node l nk c)
      | _ \<Rightarrow> Some (Node l nk (cells_shrink c)))"

function art_remove :: "'v art \<Rightarrow> int \<Rightarrow> nat \<Rightarrow> 'v art option" where
  "art_remove (Val v) key level = None"
| "art_remove (Node l nk c) key level =
     (if level \<noteq> l \<and> prefix_of (l + 8) key \<noteq> prefix_of (l + 8) nk then Some (Node l nk c)
      else let i = byte_at l key in
        (case cells_find c i of
           None \<Rightarrow> Some (Node l nk c)
         | Some s \<Rightarrow>
             (case art_remove s key (l - 8) of
                None \<Rightarrow> after_remove l nk True (cells_remove i c)
              | Some s' \<Rightarrow> after_remove l nk False (cells_set i s' c))))"
  by pat_completeness auto
termination
  by (relation "measure (\<lambda>(t, _, _). size t)") (auto dest: child_size)

section \<open>Neighbours\<close>

text \<open>
  The loops over the children get, instead of a child, the function that searches it. The loop of
  \<open>ArtNode4\<close> and \<open>ArtNode16\<close> searches a child with a greater sub-key for its least key, that of
  \<open>ArtNode48\<close> and \<open>ArtNode256\<close> searches the first child it finds with the key it was given.
\<close>

fun pairs_ceil :: "(nat \<times> (int \<Rightarrow> 'v option)) list \<Rightarrow> nat \<Rightarrow> int \<Rightarrow> 'v option" where
  "pairs_ceil [] i key = None"
| "pairs_ceil ((b, f) # ps) i key =
     (if b = i then (case f key of Some v \<Rightarrow> Some v | None \<Rightarrow> pairs_ceil ps i key)
      else if i < b then f 0
      else pairs_ceil ps i key)"

fun scan_ceil :: "(int \<Rightarrow> 'v option) list \<Rightarrow> int \<Rightarrow> 'v option" where
  "scan_ceil [] key = None"
| "scan_ceil (f # fs) key = (case f key of Some v \<Rightarrow> Some v | None \<Rightarrow> scan_ceil fs 0)"

fun cells_ceil :: "(int \<Rightarrow> 'v option) cells \<Rightarrow> nat \<Rightarrow> int \<Rightarrow> 'v option" where
  "cells_ceil (Cells4 ps) i key = pairs_ceil ps i key"
| "cells_ceil (Cells16 ps) i key = pairs_ceil ps i key"
| "cells_ceil c i key = scan_ceil (map snd (filter (\<lambda>(b, f). i \<le> b) (cells_asc c))) key"

function art_ceil :: "'v art \<Rightarrow> int \<Rightarrow> nat \<Rightarrow> 'v option" where
  "art_ceil (Val v) key level = Some v"
| "art_ceil (Node l nk c) key level =
     (if level \<noteq> l \<and> prefix_of (l + 8) nk < prefix_of (l + 8) key then None
      else let key' = (if level \<noteq> l \<and> prefix_of (l + 8) key \<noteq> prefix_of (l + 8) nk then 0 else key)
           in cells_ceil (map_cells (\<lambda>s k. art_ceil s k (l - 8)) c) (byte_at l key') key')"
  by pat_completeness auto
termination
  by (relation "measure (\<lambda>(t, _, _). size t)") (auto dest: cells_slot_size)

fun pairs_floor :: "(nat \<times> (int \<Rightarrow> 'v option)) list \<Rightarrow> nat \<Rightarrow> int \<Rightarrow> 'v option" where
  "pairs_floor [] i key = None"
| "pairs_floor ((b, f) # ps) i key =
     (if b = i then (case f key of Some v \<Rightarrow> Some v | None \<Rightarrow> pairs_floor ps i key)
      else if b < i then f INT64_MAX
      else pairs_floor ps i key)"

fun scan_floor :: "(int \<Rightarrow> 'v option) list \<Rightarrow> int \<Rightarrow> 'v option" where
  "scan_floor [] key = None"
| "scan_floor (f # fs) key = (case f key of Some v \<Rightarrow> Some v | None \<Rightarrow> scan_floor fs INT64_MAX)"

fun cells_floor :: "(int \<Rightarrow> 'v option) cells \<Rightarrow> nat \<Rightarrow> int \<Rightarrow> 'v option" where
  "cells_floor (Cells4 ps) i key = pairs_floor (rev ps) i key"
| "cells_floor (Cells16 ps) i key = pairs_floor (rev ps) i key"
| "cells_floor c i key = scan_floor (map snd (rev (filter (\<lambda>(b, f). b \<le> i) (cells_asc c)))) key"

function art_floor :: "'v art \<Rightarrow> int \<Rightarrow> nat \<Rightarrow> 'v option" where
  "art_floor (Val v) key level = Some v"
| "art_floor (Node l nk c) key level =
     (if level \<noteq> l \<and> prefix_of (l + 8) key < prefix_of (l + 8) nk then None
      else let key' = (if level \<noteq> l \<and> prefix_of (l + 8) key \<noteq> prefix_of (l + 8) nk then INT64_MAX else key)
           in cells_floor (map_cells (\<lambda>s k. art_floor s k (l - 8)) c) (byte_at l key') key')"
  by pat_completeness auto
termination
  by (relation "measure (\<lambda>(t, _, _). size t)") (auto dest: cells_slot_size)

section \<open>Iteration\<close>

text \<open>
  \<open>ForEach\<close> with at most \<open>limit\<close> entries: the entries accepted by the consumer, whose number is
  what the code returns. The key of a value is the node key without its last byte, plus the
  sub-key; \<open>at\<close> is the key a value is reached by.
\<close>

fun each_child :: "(int \<Rightarrow> 'e list) list \<Rightarrow> int \<Rightarrow> 'e list" where
  "each_child [] numLeft = []"
| "each_child (f # fs) numLeft =
     (if numLeft > 0 then let es = f numLeft in es @ each_child fs (numLeft - int (length es)) else [])"

definition key_at :: "int \<Rightarrow> nat \<Rightarrow> int" where
  "key_at nk b = (nk div 256) * 256 + int b"

function art_for_each :: "'v art \<Rightarrow> int \<Rightarrow> int \<Rightarrow> (int \<times> 'v) list" where
  "art_for_each (Val v) at limit = [(at, v)]"
| "art_for_each (Node l nk c) at limit =
     each_child (map (\<lambda>(b, f). f (key_at nk b)) (cells_asc (map_cells (\<lambda>s. art_for_each s) c))) limit"
  by pat_completeness auto
termination
  by (relation "measure (\<lambda>(t, _, _). size t)") (auto dest: cells_slot_size)

function art_for_each_desc :: "'v art \<Rightarrow> int \<Rightarrow> int \<Rightarrow> (int \<times> 'v) list" where
  "art_for_each_desc (Val v) at limit = [(at, v)]"
| "art_for_each_desc (Node l nk c) at limit =
     each_child (map (\<lambda>(b, f). f (key_at nk b)) (rev (cells_asc (map_cells (\<lambda>s. art_for_each_desc s) c)))) limit"
  by pat_completeness auto
termination
  by (relation "measure (\<lambda>(t, _, _). size t)") (auto dest: cells_slot_size)

fun size_loop :: "(int \<Rightarrow> int) list \<Rightarrow> int \<Rightarrow> int" where
  "size_loop [] numLeft = numLeft"
| "size_loop (f # fs) numLeft = (if numLeft > 0 then size_loop fs (numLeft - f numLeft) else numLeft)"

function art_size :: "'v art \<Rightarrow> int \<Rightarrow> int" where
  "art_size (Val v) limit = 1"
| "art_size (Node l nk c) limit =
     (if l = 0 then int (cells_count c)
      else limit - size_loop (map snd (cells_asc (map_cells (\<lambda>s. art_size s) c))) limit)"
  by pat_completeness auto
termination
  by (relation "measure (\<lambda>(t, _). size t)") (auto dest: cells_slot_size)

function art_entries :: "'v art \<Rightarrow> int \<Rightarrow> (int \<times> 'v) list" where
  "art_entries (Val v) at = [(at, v)]"
| "art_entries (Node l nk c) at =
     concat (map (\<lambda>(b, f). f (key_at nk b)) (cells_asc (map_cells (\<lambda>s. art_entries s) c)))"
  by pat_completeness auto
termination
  by (relation "measure (\<lambda>(t, _). size t)") (auto dest: cells_slot_size)

section \<open>The map\<close>

text \<open>\<open>LongAdaptiveRadixTreeMap\<close> holds the root or null; its initial level is 56.\<close>

type_synonym 'v art_map = "'v art option"

definition art_map_get :: "int \<Rightarrow> 'v art_map \<Rightarrow> 'v option" where
  "art_map_get key m = (case m of None \<Rightarrow> None | Some root \<Rightarrow> art_get root key 56)"

definition art_map_put :: "int \<Rightarrow> 'v \<Rightarrow> 'v art_map \<Rightarrow> 'v art_map" where
  "art_map_put key v m =
     (case m of None \<Rightarrow> Some (first_key_node key v) | Some root \<Rightarrow> Some (art_put root key 56 v))"

definition art_map_get_or_insert :: "int \<Rightarrow> 'v \<Rightarrow> 'v art_map \<Rightarrow> 'v \<times> 'v art_map" where
  "art_map_get_or_insert key supplied m =
     (case art_map_get key m of Some v \<Rightarrow> (v, m) | None \<Rightarrow> (supplied, art_map_put key supplied m))"

definition art_map_remove :: "int \<Rightarrow> 'v art_map \<Rightarrow> 'v art_map" where
  "art_map_remove key m = (case m of None \<Rightarrow> None | Some root \<Rightarrow> art_remove root key 56)"

definition art_map_higher :: "int \<Rightarrow> 'v art_map \<Rightarrow> 'v option" where
  "art_map_higher key m =
     (case m of None \<Rightarrow> None | Some root \<Rightarrow> if key \<noteq> INT64_MAX then art_ceil root (key + 1) 56 else None)"

definition art_map_lower :: "int \<Rightarrow> 'v art_map \<Rightarrow> 'v option" where
  "art_map_lower key m =
     (case m of None \<Rightarrow> None | Some root \<Rightarrow> if key \<noteq> 0 then art_floor root (key - 1) 56 else None)"

definition art_map_for_each :: "int \<Rightarrow> 'v art_map \<Rightarrow> (int \<times> 'v) list" where
  "art_map_for_each limit m = (case m of None \<Rightarrow> [] | Some root \<Rightarrow> art_for_each root 0 limit)"

definition art_map_for_each_desc :: "int \<Rightarrow> 'v art_map \<Rightarrow> (int \<times> 'v) list" where
  "art_map_for_each_desc limit m = (case m of None \<Rightarrow> [] | Some root \<Rightarrow> art_for_each_desc root 0 limit)"

definition art_map_size :: "int \<Rightarrow> 'v art_map \<Rightarrow> int" where
  "art_map_size limit m = (case m of None \<Rightarrow> 0 | Some root \<Rightarrow> min (art_size root limit) limit)"

definition art_map_entries :: "'v art_map \<Rightarrow> (int \<times> 'v) list" where
  "art_map_entries m = (case m of None \<Rightarrow> [] | Some root \<Rightarrow> art_entries root 0)"

end
