(* ===== verification/Art_Inv.thy ===== *)
theory Art_Inv
  imports Art_Tree
begin

text \<open>
  The invariant of the radix tree and what lookup, insertion and removal do to it. \<open>n\<close> counts the
  bytes in which the keys of a tree may still differ, \<open>P\<close> is what they share above them.
\<close>

section \<open>Bytes of keys\<close>

declare power_Suc [simp del]

lemma two_power_8: "(2 :: int) ^ (8 * m) = 256 ^ m"
  by (simp add: power_mult)

lemma prefix_of_8: "prefix_of (8 * m) k = k div 256 ^ m"
  by (simp add: prefix_of_def two_power_8)

lemma prefix_of_Suc: "prefix_of (8 * m + 8) k = k div 256 ^ Suc m"
  using prefix_of_8[of "Suc m" k] by (simp add: add.commute)

lemma byte_at_8: "int (byte_at (8 * m) k) = k div 256 ^ m mod 256"
  by (simp add: byte_at_def two_power_8)

lemma byte_at_less [simp]: "byte_at l k < 256"
  by (simp add: byte_at_def nat_less_iff)

lemma div_Suc: "(k :: int) div 256 ^ Suc m = k div 256 ^ m div 256"
  by (simp add: power_Suc2 zdiv_zmult2_eq)

lemma div_parts: "(k :: int) div 256 ^ m = k div 256 ^ Suc m * 256 + int (byte_at (8 * m) k)"
  unfolding byte_at_8 div_Suc by simp

lemma div_up:
  assumes "(a :: int) div 256 ^ m = b div 256 ^ m" and "m \<le> n"
  shows "a div 256 ^ n = b div 256 ^ n"
proof -
  have "x div 256 ^ n = x div 256 ^ m div 256 ^ (n - m)" for x :: int
    using assms(2) by (metis le_add_diff_inverse power_add zdiv_zmult2_eq zero_le_numeral zero_le_power)
  with assms(1) show ?thesis by simp
qed

lemma div_same:
  "(a :: int) div 256 ^ m = b div 256 ^ m \<longleftrightarrow>
   a div 256 ^ Suc m = b div 256 ^ Suc m \<and> byte_at (8 * m) a = byte_at (8 * m) b"
  by (metis div_parts div_up byte_at_8 le_SucI order_refl of_nat_eq_iff)

text \<open>The keys of a tree with \<open>n\<close> open bytes.\<close>

definition key_in :: "nat \<Rightarrow> int \<Rightarrow> int \<Rightarrow> bool" where
  "key_in n P k \<longleftrightarrow> 0 \<le> k \<and> k \<le> INT64_MAX \<and> k div 256 ^ n = P"

definition child_prefix :: "nat \<Rightarrow> int \<Rightarrow> nat \<Rightarrow> int" where
  "child_prefix m nk b = nk div 256 ^ Suc m * 256 + int b"

lemma key_in_child:
  "key_in n P k \<Longrightarrow> k div 256 ^ Suc m = nk div 256 ^ Suc m \<Longrightarrow> key_in m (child_prefix m nk (byte_at (8 * m) k)) k"
  unfolding key_in_def child_prefix_def using div_parts[of k m] by simp

lemma child_prefix_div: "b < 256 \<Longrightarrow> child_prefix m nk b div 256 = nk div 256 ^ Suc m"
  by (simp add: child_prefix_def)

lemma key_in_parent:
  assumes "key_in m (child_prefix m nk b) k" and "b < 256"
  shows "k div 256 ^ Suc m = nk div 256 ^ Suc m" and "byte_at (8 * m) k = b"
proof -
  show p: "k div 256 ^ Suc m = nk div 256 ^ Suc m"
    using assms child_prefix_div[OF assms(2)] by (simp add: key_in_def div_Suc)
  show "byte_at (8 * m) k = b"
    using div_parts[of k m] assms p by (simp add: key_in_def child_prefix_def)
qed

lemma diff_level_spec:
  assumes "key_in n P a" and "key_in n P b" and "n \<le> 8" and "a div 256 ^ m \<noteq> b div 256 ^ m"
  shows "\<exists>j. diff_level a b = 8 * j \<and> m \<le> j \<and> j < n \<and> a div 256 ^ j \<noteq> b div 256 ^ j \<and>
    a div 256 ^ Suc j = b div 256 ^ Suc j"
proof -
  define D where "D j \<longleftrightarrow> a div 256 ^ j \<noteq> b div 256 ^ j" for j
  have up: "\<not> D j" if "n \<le> j" for j using assms(1,2) that div_up[of a n b j] by (simp add: D_def key_in_def)
  have "D m" using assms(4) by (simp add: D_def)
  with up have "m < n" by (meson not_le)
  define j where "j = Max {j. j < n \<and> D j}"
  have fin: "finite {j. j < n \<and> D j}" "m \<in> {j. j < n \<and> D j}" using \<open>D m\<close> \<open>m < n\<close> by auto
  then have "j \<in> {j. j < n \<and> D j}" unfolding j_def using Max_in[OF fin(1)] by blast
  then have j: "j < n" "D j" by blast+
  have "m \<le> j" unfolding j_def by (rule Max_ge[OF fin])
  have top: "\<not> D i" if "j < i" for i
  proof
    assume "D i"
    moreover have "i < n" using up[of i] \<open>D i\<close> by linarith
    ultimately have "i \<le> j" unfolding j_def by (intro Max_ge[OF fin(1)]) simp
    with that show False by simp
  qed
  have P: "D i \<longleftrightarrow> prefix_of (8 * i) a \<noteq> prefix_of (8 * i) b" for i by (simp add: prefix_of_8 D_def)
  have "diff_level a b = (if D 7 then 56 else if D 6 then 48 else if D 5 then 40 else if D 4 then 32
      else if D 3 then 24 else if D 2 then 16 else if D 1 then 8 else 0)"
    by (simp add: diff_level_def P)
  moreover have "j = 0 \<or> j = 1 \<or> j = 2 \<or> j = 3 \<or> j = 4 \<or> j = 5 \<or> j = 6 \<or> j = 7"
    using j(1) assms(3) by linarith
  ultimately have "diff_level a b = 8 * j"
    using j(2) top[of 7] top[of 6] top[of 5] top[of 4] top[of 3] top[of 2] top[of 1]
    by (elim disjE) simp_all
  moreover have "a div 256 ^ Suc j = b div 256 ^ Suc j" using top[of "Suc j"] by (simp add: D_def)
  moreover have "a div 256 ^ j \<noteq> b div 256 ^ j" using j(2) by (simp add: D_def)
  ultimately show ?thesis using j(1) \<open>m \<le> j\<close> by blast
qed

section \<open>The invariant\<close>

inductive art_ok :: "nat \<Rightarrow> int \<Rightarrow> 'v art \<Rightarrow> bool" where
  Val: "art_ok 0 P (Val v)"
| Node: "m < n \<Longrightarrow> 0 \<le> nk \<Longrightarrow> nk \<le> INT64_MAX \<Longrightarrow> nk div 256 ^ n = P \<Longrightarrow> cells_ok c \<Longrightarrow>
    (if m = 0 then 1 else 2) \<le> cells_count c \<Longrightarrow>
    (\<And>b s. b < 256 \<Longrightarrow> cells_find c b = Some s \<Longrightarrow> art_ok m (child_prefix m nk b) s) \<Longrightarrow>
    art_ok n P (Node (8 * m) nk c)"

inductive_cases art_ok_ValE [elim!]: "art_ok n P (Val v)"
inductive_cases art_ok_NodeE: "art_ok n P (Node l nk c)"

lemma art_ok_node:
  assumes "art_ok n P (Node l nk c)"
  obtains m where "l = 8 * m" "m < n" "key_in n P nk" "cells_ok c" "(if m = 0 then 1 else 2) \<le> cells_count c"
    "\<And>b s. b < 256 \<Longrightarrow> cells_find c b = Some s \<Longrightarrow> art_ok m (child_prefix m nk b) s"
  using assms by (elim art_ok_NodeE) (auto simp: key_in_def)

lemma art_okI:
  assumes "m < n" and "key_in n P nk" and "cells_ok c" and "(if m = 0 then 1 else 2) \<le> cells_count c"
    and "\<And>b s. b < 256 \<Longrightarrow> cells_find c b = Some s \<Longrightarrow> art_ok m (child_prefix m nk b) s"
  shows "art_ok n P (Node (8 * m) nk c)"
  using assms by (intro art_ok.Node) (auto simp: key_in_def)

text \<open>A tree may hang further up or down, as long as its keys share the bits there.\<close>

lemma art_ok_move:
  assumes "art_ok n P (Node l nk c)" and "l < 8 * i" and "key_in i Q nk"
  shows "art_ok i Q (Node l nk c)"
  using assms(1)
proof (cases rule: art_ok_node)
  case (1 m)
  with assms(2,3) show ?thesis by (auto intro!: art_okI)
qed

lemma art_get_node:
  assumes "m < n" and "key_in n P nk" and "key_in n P k"
  shows "art_get (Node (8 * m) nk c) k (8 * n - 8) =
    (if k div 256 ^ Suc m = nk div 256 ^ Suc m
     then case cells_find c (byte_at (8 * m) k) of None \<Rightarrow> None | Some s \<Rightarrow> art_get s k (8 * m - 8) else None)"
proof (cases "8 * n - 8 = 8 * m")
  case True
  with assms(1) have n: "n = Suc m" by linarith
  with assms have "k div 256 ^ Suc m = nk div 256 ^ Suc m" by (simp add: key_in_def)
  with n show ?thesis by simp
next
  case False
  then show ?thesis by (simp add: prefix_of_Suc)
qed

declare art_get.simps(2) [simp del]

lemma art_get_far:
  assumes "art_ok n P (Node l nk c)" and "key_in n P k" and "l < 8 * i" and "k div 256 ^ i \<noteq> nk div 256 ^ i"
  shows "art_get (Node l nk c) k (8 * n - 8) = None"
  using assms(1)
proof (cases rule: art_ok_node)
  case (1 m)
  then have "k div 256 ^ Suc m \<noteq> nk div 256 ^ Suc m"
    using assms(3,4) div_up[of k "Suc m" nk i] by auto
  with 1 assms(2) show ?thesis by (simp add: art_get_node)
qed

text \<open>The lookup in a tree does not depend on where the tree hangs.\<close>

lemma art_get_move:
  assumes "art_ok n P (Node l nk c)" and "key_in n P k" and "key_in i Q k" and "key_in i Q nk" and "l < 8 * i"
  shows "art_get (Node l nk c) k (8 * i - 8) = art_get (Node l nk c) k (8 * n - 8)"
  using assms(1)
proof (cases rule: art_ok_node)
  case (1 m)
  with assms show ?thesis by (simp add: art_get_node)
qed

section \<open>A changed child\<close>

lemma art_child_update:
  assumes ok: "art_ok n P (Node (8 * m) nk c)" and c': "cells_ok c'" "(if m = 0 then 1 else 2) \<le> cells_count c'"
    and f: "\<forall>j < 256. cells_find c' j = (if j = i then x else cells_find c j)"
    and x: "\<And>s. x = Some s \<Longrightarrow> art_ok m (child_prefix m nk i) s"
  shows "art_ok n P (Node (8 * m) nk c')"
  using ok
proof (cases rule: art_ok_node)
  case (1 m')
  then have m: "m < n" "key_in n P nk" by simp_all
  show ?thesis
  proof (rule art_okI[OF m c'])
    fix b s
    assume b: "b < 256" "cells_find c' b = Some s"
    show "art_ok m (child_prefix m nk b) s"
      using f[rule_format, OF b(1)] b 1(1,6) x by (cases "b = i") simp_all
  qed
qed

lemma art_get_update:
  assumes "m < n" and "key_in n P nk" and "\<forall>j < 256. cells_find c' j = (if j = i then x else cells_find c j)"
    and "key_in n P k"
  shows "art_get (Node (8 * m) nk c') k (8 * n - 8) =
    (if k div 256 ^ Suc m = nk div 256 ^ Suc m \<and> byte_at (8 * m) k = i
     then case x of None \<Rightarrow> None | Some s \<Rightarrow> art_get s k (8 * m - 8)
     else art_get (Node (8 * m) nk c) k (8 * n - 8))"
  using assms(3)[rule_format, of "byte_at (8 * m) k"] byte_at_less[of "8 * m" k]
  by (cases "byte_at (8 * m) k = i") (simp_all add: art_get_node[OF assms(1,2,4)])

section \<open>Insertion\<close>

lemma first_key_node_ok:
  assumes "0 < n" and "key_in n P k"
  shows "art_ok n P (first_key_node k v)"
    and "key_in n P k' \<Longrightarrow> art_get (first_key_node k v) k' (8 * n - 8) = (if k' = k then Some v else None)"
proof -
  let ?c = "Cells4 [(byte_at 0 k, Val v)]"
  have "art_ok n P (Node (8 * 0) k ?c)"
    using assms by (intro art_okI) (auto simp: cells_ok_def pairs_ok_def child_prefix_def intro: art_ok.Val split: if_splits)
  then show "art_ok n P (first_key_node k v)" by (simp add: first_key_node_def)
  assume k': "key_in n P k'"
  have "k' = k \<longleftrightarrow> k' div 256 ^ Suc 0 = k div 256 ^ Suc 0 \<and> byte_at 0 k' = byte_at 0 k"
    using div_same[of k' 0 k] by simp
  with art_get_node[OF assms(1,2) k', of ?c]
  show "art_get (first_key_node k v) k' (8 * n - 8) = (if k' = k then Some v else None)"
    by (auto simp: first_key_node_def)
qed

lemma two_keys_node_ok:
  fixes c :: "'v art cells" and v :: 'v
  assumes ok: "art_ok n P (Node l nk c)" and k: "key_in n P k" and j: "l < 8 * j" "j < n"
    and d: "k div 256 ^ j \<noteq> nk div 256 ^ j" and e: "k div 256 ^ Suc j = nk div 256 ^ Suc j"
  defines "t \<equiv> Node l nk c" and "t' \<equiv> two_keys_node nk (Node l nk c) k (first_key_node k v) (8 * j)"
  shows "art_ok n P t'"
    and "key_in n P k' \<Longrightarrow> art_get t' k' (8 * n - 8) = (if k' = k then Some v else art_get t k' (8 * n - 8))"
proof -
  let ?i1 = "byte_at (8 * j) nk" and ?i2 = "byte_at (8 * j) k" and ?nk = "nk div 256 ^ j * 256 ^ j"
  let ?c = "Cells4 (if ?i1 < ?i2 then [(?i1, t), (?i2, first_key_node k v)] else [(?i2, first_key_node k v), (?i1, t)])"
  have t': "t' = Node (8 * j) ?nk ?c"
    by (simp add: t'_def t_def two_keys_node_def prefix_of_8 two_power_8 Let_def)
  have nk: "key_in n P nk" using ok by (elim art_ok_node)
  have i: "?i1 \<noteq> ?i2" using d e div_same[of k j nk] by auto
  have div: "?nk div 256 ^ i = nk div 256 ^ i" if "j \<le> i" for i using div_up[of ?nk j nk i] that by simp
  have nk': "key_in n P ?nk"
  proof -
    have "0 \<le> ?nk" using nk by (simp add: key_in_def pos_imp_zdiv_nonneg_iff)
    moreover have "?nk \<le> nk" by (metis add_le_same_cancel1 div_mult_mod_eq le_add_same_cancel1 pos_mod_sign zero_less_numeral zero_less_power)
    ultimately show ?thesis using nk div[of n] j(2) by (simp add: key_in_def)
  qed
  have cp: "child_prefix j ?nk b = child_prefix j nk b" for b by (simp add: child_prefix_def div)
  have in1: "key_in j (child_prefix j nk ?i1) nk" by (rule key_in_child[OF nk refl])
  have in2: "key_in j (child_prefix j nk ?i2) k" by (rule key_in_child[OF k e])
  have j0: "0 < j" using j(1) by simp
  have f: "cells_find ?c b = (if b = ?i1 then Some t else if b = ?i2 then Some (first_key_node k v) else None)" for b
    using i by auto
  have cok: "cells_ok ?c" "cells_count ?c = 2" using i by (auto simp: cells_ok_def pairs_ok_def)
  have t1: "art_ok j (child_prefix j nk ?i1) t" unfolding t_def by (rule art_ok_move[OF ok j(1) in1])
  have t2: "art_ok j (child_prefix j nk ?i2) (first_key_node k v)" by (rule first_key_node_ok(1)[OF j0 in2])
  show "art_ok n P t'"
    unfolding t' using j(2) nk' cok t1 t2
    by (intro art_okI) (simp_all only: f cp split: if_splits, auto)
  assume k': "key_in n P k'"
  have g: "art_get t' k' (8 * n - 8) = (if k' div 256 ^ Suc j = nk div 256 ^ Suc j
      then case cells_find ?c (byte_at (8 * j) k') of None \<Rightarrow> None | Some s \<Rightarrow> art_get s k' (8 * j - 8) else None)"
    unfolding t' by (simp only: art_get_node[OF j(2) nk' k'] div[OF le_SucI[OF order_refl]])
  have far: "art_get t k' (8 * n - 8) = None" if "k' div 256 ^ i \<noteq> nk div 256 ^ i" "j \<le> i" for i
    unfolding t_def using j(1) that by (intro art_get_far[OF ok k' _ that(1)]) linarith
  show "art_get t' k' (8 * n - 8) = (if k' = k then Some v else art_get t k' (8 * n - 8))"
  proof (cases "k' div 256 ^ Suc j = nk div 256 ^ Suc j")
    case False
    with g far[of "Suc j"] e show ?thesis by auto
  next
    case pre: True
    then have in': "key_in j (child_prefix j nk (byte_at (8 * j) k')) k'" by (rule key_in_child[OF k'])
    consider "byte_at (8 * j) k' = ?i1" | "byte_at (8 * j) k' = ?i2" | "byte_at (8 * j) k' \<notin> {?i1, ?i2}" by blast
    then show ?thesis
    proof cases
      case 1
      then have "k' \<noteq> k" using i by auto
      have "art_get t k' (8 * j - 8) = art_get t k' (8 * n - 8)"
        unfolding t_def using in' in1 j(1) unfolding 1 by (intro art_get_move[OF ok k'])
      with g pre 1 \<open>k' \<noteq> k\<close> show ?thesis by (simp only: f) simp
    next
      case 2
      then have "k' div 256 ^ j \<noteq> nk div 256 ^ j" using i div_same[of k' j nk] by auto
      with far[of j] have "art_get t k' (8 * n - 8) = None" by simp
      moreover have "art_get (first_key_node k v) k' (8 * j - 8) = (if k' = k then Some v else None)"
        using in' unfolding 2 by (rule first_key_node_ok(2)[OF j0 in2])
      moreover have "cells_find ?c (byte_at (8 * j) k') = Some (first_key_node k v)"
        unfolding f 2 using i by simp
      ultimately show ?thesis using g pre by simp
    next
      case 3
      then have "k' \<noteq> k" "k' div 256 ^ j \<noteq> nk div 256 ^ j" using div_same[of k' j nk] by auto
      moreover have "cells_find ?c (byte_at (8 * j) k') = None" unfolding f using 3 by simp
      ultimately show ?thesis using g far[of j] by simp
    qed
  qed
qed

lemma art_put_branch:
  assumes ok: "art_ok n P (Node (8 * m) nk c)" and k: "key_in n P k" "n \<le> 8" and m: "m < n"
    and level: "8 * n - 8 \<noteq> 8 * m"
  shows "(\<exists>j. m < j \<and> j < n \<and> k div 256 ^ j \<noteq> nk div 256 ^ j \<and> k div 256 ^ Suc j = nk div 256 ^ Suc j \<and>
        branch_if_required k v nk (8 * m) t = Some (two_keys_node nk t k (first_key_node k v) (8 * j))) \<or>
    k div 256 ^ Suc m = nk div 256 ^ Suc m \<and> branch_if_required k v nk (8 * m) t = None"
proof (cases "k div 256 ^ m = nk div 256 ^ m")
  case True
  with div_same[of k m nk] show ?thesis by (simp add: branch_if_required_def prefix_of_8)
next
  case False
  have nk: "key_in n P nk" using ok by (elim art_ok_node)
  obtain j where j: "diff_level k nk = 8 * j" "m \<le> j" "j < n" "k div 256 ^ j \<noteq> nk div 256 ^ j"
    "k div 256 ^ Suc j = nk div 256 ^ Suc j"
    using diff_level_spec[OF k(1) nk k(2) False] by blast
  show ?thesis
  proof (cases "j = m")
    case True
    with False j show ?thesis by (simp add: branch_if_required_def prefix_of_8)
  next
    case neq: False
    with j(2) have "m < j" by simp
    moreover have "branch_if_required k v nk (8 * m) t = Some (two_keys_node nk t k (first_key_node k v) (8 * j))"
      using False j(1) neq by (simp add: branch_if_required_def prefix_of_8 Let_def)
    ultimately show ?thesis using j by blast
  qed
qed

lemma art_put_ok:
  assumes "art_ok n P t" and "key_in n P k" and "n \<le> 8"
  shows "art_ok n P (art_put t k (8 * n - 8) v) \<and>
    (\<forall>k'. key_in n P k' \<longrightarrow>
       art_get (art_put t k (8 * n - 8) v) k' (8 * n - 8) = (if k' = k then Some v else art_get t k' (8 * n - 8)))"
  using assms
proof (induction arbitrary: k)
  case (Val P w)
  then show ?case by (auto simp: key_in_def intro: art_ok.Val)
next
  case (Node m n nk P c)
  let ?t = "Node (8 * m) nk c" and ?i = "byte_at (8 * m) k"
  have nk: "key_in n P nk" using Node.hyps by (simp add: key_in_def)
  have ok: "art_ok n P ?t"
    using Node.hyps(1,5,6,7) nk by (intro art_okI) auto
  note k = Node.prems(1)
  consider (branch) j where "8 * n - 8 \<noteq> 8 * m" "m < j" "j < n" "k div 256 ^ j \<noteq> nk div 256 ^ j"
      "k div 256 ^ Suc j = nk div 256 ^ Suc j"
      "branch_if_required k v nk (8 * m) ?t = Some (two_keys_node nk ?t k (first_key_node k v) (8 * j))"
    | (here) "k div 256 ^ Suc m = nk div 256 ^ Suc m"
      "(if 8 * n - 8 \<noteq> 8 * m then branch_if_required k v nk (8 * m) ?t else None) = None"
  proof (cases "8 * n - 8 = 8 * m")
    case True
    with Node.hyps(1) have n: "n = Suc m" by linarith
    with k nk True that(2) show thesis by (simp add: key_in_def)
  next
    case False
    from art_put_branch[OF ok k Node.prems(2) Node.hyps(1) False] False that show thesis by metis
  qed
  then show ?case
  proof cases
    case (branch j)
    have l: "8 * m < 8 * j" using branch(2) by simp
    have "art_put ?t k (8 * n - 8) v = two_keys_node nk ?t k (first_key_node k v) (8 * j)"
      using branch(1,6) by simp
    with two_keys_node_ok[OF ok k l branch(3,4,5)] show ?thesis by simp
  next
    case here
    have in_k: "key_in m (child_prefix m nk ?i) k" by (rule key_in_child[OF k here(1)])
    have child: "key_in m (child_prefix m nk ?i) k'"
      if "key_in n P k'" "k' div 256 ^ Suc m = nk div 256 ^ Suc m" "byte_at (8 * m) k' = ?i" for k'
      using key_in_child[OF that(1,2)] that(3) by simp
    have main: ?thesis
      if eq: "art_put ?t k (8 * n - 8) v = Node (8 * m) nk c'" and c': "cells_ok c'" "(if m = 0 then 1 else 2) \<le> cells_count c'"
        and f: "\<forall>j < 256. cells_find c' j = (if j = ?i then Some s' else cells_find c j)"
        and s': "art_ok m (child_prefix m nk ?i) s'"
        and g: "\<And>k'. key_in n P k' \<Longrightarrow> k' div 256 ^ Suc m = nk div 256 ^ Suc m \<Longrightarrow> byte_at (8 * m) k' = ?i \<Longrightarrow>
          art_get s' k' (8 * m - 8) = (if k' = k then Some v else art_get ?t k' (8 * n - 8))" for c' s'
    proof (intro conjI allI impI)
      show "art_ok n P (art_put ?t k (8 * n - 8) v)"
        unfolding eq by (rule art_child_update[OF ok c' f]) (use s' in simp)
      fix k'
      assume k': "key_in n P k'"
      show "art_get (art_put ?t k (8 * n - 8) v) k' (8 * n - 8) = (if k' = k then Some v else art_get ?t k' (8 * n - 8))"
        unfolding eq art_get_update[OF Node.hyps(1) nk f k'] using g[OF k'] here(1) by auto
    qed
    show ?thesis
    proof (cases "cells_find c ?i")
      case (Some s)
      have IH: "art_ok m (child_prefix m nk ?i) (art_put s k (8 * m - 8) v) \<and>
        (\<forall>k'. key_in m (child_prefix m nk ?i) k' \<longrightarrow> art_get (art_put s k (8 * m - 8) v) k' (8 * m - 8) =
          (if k' = k then Some v else art_get s k' (8 * m - 8)))"
        using Node.IH[OF _ Some in_k] Node.hyps(1) Node.prems(2) by simp
      show ?thesis
      proof (rule main)
        show "art_put ?t k (8 * n - 8) v = Node (8 * m) nk (cells_set ?i (art_put s k (8 * m - 8) v) c)"
          using here(2) Some by (simp add: Let_def)
        show "cells_ok (cells_set ?i (art_put s k (8 * m - 8) v) c)"
          by (rule cells_set_ok[OF Node.hyps(5) Some byte_at_less])
        have rep: "cells_rep c" using Node.hyps(5) by (simp add: cells_ok_def)
        show "(if m = 0 then 1 else 2) \<le> cells_count (cells_set ?i (art_put s k (8 * m - 8) v) c)"
          using Node.hyps(6) cells_set_spec(3)[OF rep Some byte_at_less] by simp
        show "\<forall>j < 256. cells_find (cells_set ?i (art_put s k (8 * m - 8) v) c) j =
            (if j = ?i then Some (art_put s k (8 * m - 8) v) else cells_find c j)"
          using cells_set_spec(2)[OF rep Some byte_at_less] by blast
        show "art_ok m (child_prefix m nk ?i) (art_put s k (8 * m - 8) v)" using IH by blast
        fix k'
        assume k': "key_in n P k'" "k' div 256 ^ Suc m = nk div 256 ^ Suc m" "byte_at (8 * m) k' = ?i"
        have "art_get ?t k' (8 * n - 8) = art_get s k' (8 * m - 8)"
          using art_get_node[OF Node.hyps(1) nk k'(1), of c] k'(2,3) Some by simp
        with IH child[OF k'] show "art_get (art_put s k (8 * m - 8) v) k' (8 * m - 8) =
            (if k' = k then Some v else art_get ?t k' (8 * n - 8))" by simp
      qed
    next
      case None
      let ?s = "if 8 * m = 0 then Val v else first_key_node k v"
      show ?thesis
      proof (rule main)
        show "art_put ?t k (8 * n - 8) v = Node (8 * m) nk (cells_insert ?i ?s c)"
          using here(2) None by (simp add: Let_def)
        show "cells_ok (cells_insert ?i ?s c)" by (rule cells_insert_spec(1)[OF Node.hyps(5) None byte_at_less])
        show "(if m = 0 then 1 else 2) \<le> cells_count (cells_insert ?i ?s c)"
          using Node.hyps(6) cells_insert_count[OF Node.hyps(5) None byte_at_less, of ?s] by simp
        show "\<forall>j < 256. cells_find (cells_insert ?i ?s c) j = (if j = ?i then Some ?s else cells_find c j)"
          by (rule cells_insert_spec(2)[OF Node.hyps(5) None byte_at_less])
        show "art_ok m (child_prefix m nk ?i) ?s"
          using first_key_node_ok(1)[OF _ in_k] by (cases "m = 0") (simp_all add: art_ok.Val)
        fix k'
        assume k': "key_in n P k'" "k' div 256 ^ Suc m = nk div 256 ^ Suc m" "byte_at (8 * m) k' = ?i"
        have "art_get ?t k' (8 * n - 8) = None"
          using art_get_node[OF Node.hyps(1) nk k'(1), of c] k'(2,3) None by simp
        moreover have "art_get ?s k' (8 * m - 8) = (if k' = k then Some v else None)"
        proof (cases "m = 0")
          case True
          with child[OF k'] in_k show ?thesis by (simp add: key_in_def)
        next
          case False
          with first_key_node_ok(2)[OF _ in_k child[OF k'], of v] show ?thesis by (cases "k' = k") simp_all
        qed
        ultimately show "art_get ?s k' (8 * m - 8) = (if k' = k then Some v else art_get ?t k' (8 * n - 8))" by simp
      qed
    qed
  qed
qed

section \<open>Removal\<close>

text \<open>What \<open>r\<close> leaves of the tree \<open>t\<close> when it is to drop the key \<open>k\<close>.\<close>

definition removed_ok :: "nat \<Rightarrow> int \<Rightarrow> int \<Rightarrow> 'v art \<Rightarrow> 'v art option \<Rightarrow> bool" where
  "removed_ok n P k t r \<longleftrightarrow>
     (case r of
        None \<Rightarrow> \<forall>k'. key_in n P k' \<longrightarrow> k' \<noteq> k \<longrightarrow> art_get t k' (8 * n - 8) = None
      | Some t' \<Rightarrow> art_ok n P t' \<and> (\<forall>k'. key_in n P k' \<longrightarrow>
          art_get t' k' (8 * n - 8) = (if k' = k then None else art_get t k' (8 * n - 8))))"

text \<open>A child moved into the place of its parent.\<close>

lemma art_get_lift:
  assumes ok: "art_ok m (child_prefix m nk b) s" and "m < n" "0 < m" "b < 256" and nk: "key_in n P nk"
  shows "art_ok n P s"
    and "key_in n P k' \<Longrightarrow> art_get s k' (8 * n - 8) =
      (if k' div 256 ^ Suc m = nk div 256 ^ Suc m \<and> byte_at (8 * m) k' = b then art_get s k' (8 * m - 8) else None)"
proof -
  obtain l2 nk2 c2 where s: "s = Node l2 nk2 c2" using ok \<open>0 < m\<close> by (cases s) auto
  obtain m2 where m2: "l2 = 8 * m2" "m2 < m" "key_in m (child_prefix m nk b) nk2"
    using ok unfolding s by (elim art_ok_node)
  have p2: "nk2 div 256 ^ Suc m = nk div 256 ^ Suc m" "byte_at (8 * m) nk2 = b"
    by (rule key_in_parent[OF m2(3) \<open>b < 256\<close>])+
  have in2: "key_in n P nk2"
    using div_up[OF p2(1), of n] m2(3) nk \<open>m < n\<close> by (simp add: key_in_def)
  have l2: "l2 < 8 * n" "l2 < 8 * m" using m2 \<open>m < n\<close> by auto
  show okn: "art_ok n P s" unfolding s by (rule art_ok_move[OF ok[unfolded s] l2(1) in2])
  assume k': "key_in n P k'"
  show "art_get s k' (8 * n - 8) =
      (if k' div 256 ^ Suc m = nk div 256 ^ Suc m \<and> byte_at (8 * m) k' = b then art_get s k' (8 * m - 8) else None)"
  proof (cases "k' div 256 ^ Suc m = nk div 256 ^ Suc m \<and> byte_at (8 * m) k' = b")
    case True
    then have in': "key_in m (child_prefix m nk b) k'" using key_in_child[OF k', of m nk] by simp
    have "art_get s k' (8 * n - 8) = art_get s k' (8 * m - 8)"
      unfolding s by (rule art_get_move[OF ok[unfolded s] in' k' in2 l2(1)])
    with True show ?thesis by simp
  next
    case False
    then have "k' div 256 ^ m \<noteq> nk2 div 256 ^ m" using p2 div_same[of k' m nk2] by auto
    with False show ?thesis unfolding s using art_get_far[OF okn[unfolded s] k' l2(2)] by auto
  qed
qed

lemma after_remove_ok:
  assumes m: "m < n" and nk: "key_in n P nk" and rep: "cells_rep c'"
    and count: "cells_min c' \<le> Suc (cells_count c')" "\<not> gone \<Longrightarrow> (if m = 0 then 1 else 2) \<le> cells_count c'"
      "m \<noteq> 0 \<Longrightarrow> 1 \<le> cells_count c'"
    and f: "\<forall>j < 256. cells_find c' j = (if j = i then x else cells_find c j)"
    and children: "\<And>b s. b < 256 \<Longrightarrow> cells_find c' b = Some s \<Longrightarrow> art_ok m (child_prefix m nk b) s"
    and g: "\<And>k'. key_in n P k' \<Longrightarrow> art_get (Node (8 * m) nk c') k' (8 * n - 8) =
      (if k' = k then None else art_get (Node (8 * m) nk c) k' (8 * n - 8))"
  shows "removed_ok n P k (Node (8 * m) nk c) (after_remove (8 * m) nk gone c')"
proof -
  have same: "removed_ok n P k (Node (8 * m) nk c) (Some (Node (8 * m) nk c''))"
    if "cells_ok c''" "(if m = 0 then 1 else 2) \<le> cells_count c''" "\<forall>j < 256. cells_find c'' j = cells_find c' j" for c''
  proof -
    have "art_ok n P (Node (8 * m) nk c'')" using that children by (intro art_okI[OF m nk]) auto
    moreover have "art_get (Node (8 * m) nk c'') k' (8 * n - 8) = art_get (Node (8 * m) nk c') k' (8 * n - 8)"
      if "key_in n P k'" for k'
      using \<open>\<forall>j < 256. cells_find c'' j = cells_find c' j\<close> by (simp add: art_get_node[OF m nk that])
    ultimately show ?thesis using g by (simp add: removed_ok_def)
  qed
  have shrink: "removed_ok n P k (Node (8 * m) nk c) (Some (Node (8 * m) nk (cells_shrink c')))" if "4 \<le> cells_min c'"
    using cells_shrink_spec[OF rep count(1)] that count(1) by (intro same) auto
  show ?thesis
  proof (cases c')
    case (Cells4 ps)
    consider (lift) "gone" "length ps = 1" "m \<noteq> 0" | (empty) "ps = []" | (keep) "ps \<noteq> []" "\<not> (gone \<and> length ps = 1 \<and> m \<noteq> 0)"
      by blast
    then show ?thesis
    proof cases
      case lift
      then obtain b s where ps: "ps = [(b, s)]" by (auto simp: length_Suc_conv)
      have b: "b < 256" "cells_find c' b = Some s" using rep Cells4 ps by (auto simp: pairs_ok_def)
      have find: "cells_find c' j = (if j = b then Some s else None)" for j using Cells4 ps by simp
      note up = art_get_lift[OF children[OF b] m _ b(1) nk]
      have "art_get s k' (8 * n - 8) = art_get (Node (8 * m) nk c') k' (8 * n - 8)" if "key_in n P k'" for k'
        using up(2)[OF _ that] lift(3) art_get_node[OF m nk that, of c'] by (auto simp: find)
      with up(1) lift Cells4 ps g show ?thesis by (simp add: after_remove_def removed_ok_def)
    next
      case empty
      then have "art_get (Node (8 * m) nk c') k' (8 * n - 8) = None" if "key_in n P k'" for k'
        using art_get_node[OF m nk that, of c'] Cells4 by simp
      with g have "art_get (Node (8 * m) nk c) k' (8 * n - 8) = None" if "key_in n P k'" "k' \<noteq> k" for k'
        using that by (metis (full_types))
      with empty Cells4 show ?thesis by (simp add: after_remove_def removed_ok_def)
    next
      case keep
      have "(if m = 0 then 1 else 2) \<le> cells_count c'"
        using keep count(2,3) Cells4 by (cases "length ps") (auto split: if_splits)
      moreover have "after_remove (8 * m) nk gone c' = Some (Node (8 * m) nk c')"
        using keep Cells4 by (auto simp: after_remove_def)
      ultimately show ?thesis using same[of c'] Cells4 rep by (simp add: cells_ok_def)
    qed
  qed (use shrink in \<open>simp_all add: after_remove_def\<close>)
qed

lemma art_remove_ok:
  assumes "art_ok n P t" and "key_in n P k"
  shows "removed_ok n P k t (art_remove t k (8 * n - 8))"
  using assms
proof (induction arbitrary: k)
  case (Val P w)
  then show ?case by (auto simp: removed_ok_def key_in_def)
next
  case (Node m n nk P c)
  let ?t = "Node (8 * m) nk c" and ?i = "byte_at (8 * m) k"
  have nk: "key_in n P nk" using Node.hyps by (simp add: key_in_def)
  have ok: "art_ok n P ?t" using Node.hyps(1,5,6,7) nk by (intro art_okI) auto
  note k = Node.prems
  have rep: "cells_rep c" "cells_min c \<le> cells_count c" using Node.hyps(5) by (simp_all add: cells_ok_def)
  have unchanged: "removed_ok n P k ?t (Some ?t)" if "art_get ?t k (8 * n - 8) = None"
    using ok that by (simp add: removed_ok_def)
  show ?case
  proof (cases "8 * n - 8 \<noteq> 8 * m \<and> k div 256 ^ Suc m \<noteq> nk div 256 ^ Suc m")
    case True
    then have "art_remove ?t k (8 * n - 8) = Some ?t" by (simp add: prefix_of_Suc)
    with unchanged True art_get_node[OF Node.hyps(1) nk k, of c] show ?thesis by simp
  next
    case False
    have here: "k div 256 ^ Suc m = nk div 256 ^ Suc m"
    proof (cases "8 * n - 8 = 8 * m")
      case True
      with Node.hyps(1) have "n = Suc m" by linarith
      with k nk show ?thesis by (simp add: key_in_def)
    qed (use False in simp)
    have in_k: "key_in m (child_prefix m nk ?i) k" by (rule key_in_child[OF k here])
    show ?thesis
    proof (cases "cells_find c ?i")
      case None
      then have "art_remove ?t k (8 * n - 8) = Some ?t" using here by (simp add: prefix_of_Suc Let_def)
      with unchanged art_get_node[OF Node.hyps(1) nk k, of c] None show ?thesis by simp
    next
      case (Some s)
      have IH: "removed_ok m (child_prefix m nk ?i) k s (art_remove s k (8 * m - 8))"
        using Node.IH[OF _ Some in_k] by simp
      have old: "art_get ?t k' (8 * n - 8) = art_get s k' (8 * m - 8)"
        if "key_in n P k'" "k' div 256 ^ Suc m = nk div 256 ^ Suc m" "byte_at (8 * m) k' = ?i" for k'
        using art_get_node[OF Node.hyps(1) nk that(1), of c] that(2,3) Some by simp
      have child: "key_in m (child_prefix m nk ?i) k'"
        if "key_in n P k'" "k' div 256 ^ Suc m = nk div 256 ^ Suc m" "byte_at (8 * m) k' = ?i" for k'
        using key_in_child[OF that(1,2)] that(3) by simp
      show ?thesis
      proof (cases "art_remove s k (8 * m - 8)")
        case rem: None
        let ?c = "cells_remove ?i c"
        note spec = cells_remove_spec[OF rep(1), of ?i]
        have f: "\<forall>j < 256. cells_find ?c j = (if j = ?i then None else cells_find c j)"
          and r: "cells_rep ?c" and cnt: "Suc (cells_count ?c) = cells_count c"
          using spec Some by simp_all
        have "art_remove ?t k (8 * n - 8) = after_remove (8 * m) nk True ?c"
          using here Some rem by (simp add: prefix_of_Suc Let_def)
        moreover have "removed_ok n P k ?t (after_remove (8 * m) nk True ?c)"
        proof (rule after_remove_ok[OF Node.hyps(1) nk r _ _ _ f])
          show "cells_min ?c \<le> Suc (cells_count ?c)" using cnt rep(2) by (simp add: cells_remove_min)
          show "m \<noteq> 0 \<Longrightarrow> 1 \<le> cells_count ?c" using cnt Node.hyps(6) by simp
          show "art_ok m (child_prefix m nk b) u" if "b < 256" "cells_find ?c b = Some u" for b u
            using that f Node.hyps(7) by (auto split: if_splits)
          fix k'
          assume k': "key_in n P k'"
          show "art_get (Node (8 * m) nk ?c) k' (8 * n - 8) = (if k' = k then None else art_get ?t k' (8 * n - 8))"
            unfolding art_get_update[OF Node.hyps(1) nk f k'] using IH old[OF k'] child[OF k'] here
            by (auto simp: removed_ok_def rem)
        qed simp
        ultimately show ?thesis by simp
      next
        case rem: (Some s')
        let ?c = "cells_set ?i s' c"
        note spec = cells_set_spec[OF rep(1) Some byte_at_less, where s = s']
        have f: "\<forall>j < 256. cells_find ?c j = (if j = ?i then Some s' else cells_find c j)" using spec(2) by blast
        have ok': "cells_ok ?c" by (rule cells_set_ok[OF Node.hyps(5) Some byte_at_less])
        have "art_remove ?t k (8 * n - 8) = after_remove (8 * m) nk False ?c"
          using here Some rem by (simp add: prefix_of_Suc Let_def)
        moreover have "removed_ok n P k ?t (after_remove (8 * m) nk False ?c)"
        proof (rule after_remove_ok[OF Node.hyps(1) nk spec(1) _ _ _ f])
          show "cells_min ?c \<le> Suc (cells_count ?c)" using ok' by (simp add: cells_ok_def)
          show "(if m = 0 then 1 else 2) \<le> cells_count ?c" using spec(3) Node.hyps(6) by simp
          show "m \<noteq> 0 \<Longrightarrow> 1 \<le> cells_count ?c" using spec(3) Node.hyps(6) by simp
          show "art_ok m (child_prefix m nk b) u" if "b < 256" "cells_find ?c b = Some u" for b u
            using that f Node.hyps(7) IH by (auto simp: removed_ok_def rem split: if_splits)
          fix k'
          assume k': "key_in n P k'"
          show "art_get (Node (8 * m) nk ?c) k' (8 * n - 8) = (if k' = k then None else art_get ?t k' (8 * n - 8))"
            unfolding art_get_update[OF Node.hyps(1) nk f k'] using IH old[OF k'] child[OF k'] here
            by (auto simp: removed_ok_def rem)
        qed
        ultimately show ?thesis by simp
      qed
    qed
  qed
qed

end
