(* ===== verification/Art_Order.thy ===== *)
theory Art_Order
  imports Art_Inv
begin

text \<open>
  The entries of a radix tree in ascending order of their keys, and the operations that depend on
  the order: iteration, size, and the neighbours of a key.
\<close>

section \<open>The entries\<close>

lemma cells_asc_map_cells: "cells_asc (map_cells f c) = map (\<lambda>(b, s). (b, f s)) (cells_asc c)"
proof -
  have slot: "slot_at (map (map_option f) sl) i = map_option f (slot_at sl i)" for sl i
    by (simp add: slot_at_def)
  have scan: "scan_slots (\<lambda>i. map_option f (g i)) = map (\<lambda>(b, s). (b, f s)) (scan_slots g)" for g
  proof -
    have "List.map_filter (\<lambda>i. map_option (Pair i) (map_option f (g i))) xs =
        map (\<lambda>(b, s). (b, f s)) (List.map_filter (\<lambda>i. map_option (Pair i) (g i)) xs)" for xs
      by (induction xs) (simp_all add: List.map_filter_simps split: option.split)
    then show ?thesis by (simp add: scan_slots_def)
  qed
  have find: "find48 i idx (map (map_option f) sl) = map_option f (find48 i idx sl)" for i idx sl
    by (simp add: find48_def slot)
  show ?thesis
  proof (cases c)
    case (Cells48 idx sl fm n)
    then show ?thesis using scan[of "\<lambda>i. find48 i idx sl"] by (simp add: find)
  next
    case (Cells256 sl n)
    have "slot_at (map (map_option f) sl) = (\<lambda>i. map_option f (slot_at sl i))" by (simp add: slot fun_eq_iff)
    with Cells256 show ?thesis using scan[of "slot_at sl"] by simp
  qed (auto simp: map_prod_def)
qed

lemma art_entries_node:
  "art_entries (Node l nk c) at = concat (map (\<lambda>(b, s). art_entries s (key_at nk b)) (cells_asc c))"
  by (simp add: cells_asc_map_cells comp_def case_prod_unfold)

declare art_entries.simps(2) [simp del]

lemma cells_asc_slot: "(b, s) \<in> set (cells_asc c) \<Longrightarrow> s \<in> cells_slots c"
proof (cases c)
  case (Cells48 idx sl fm n)
  moreover assume "(b, s) \<in> set (cells_asc c)"
  ultimately have "cells_find c b = Some s" by (auto simp: scan_slots_eq)
  then show ?thesis by (rule cells_find_slot)
next
  case (Cells256 sl n)
  moreover assume "(b, s) \<in> set (cells_asc c)"
  ultimately have "cells_find c b = Some s" by (auto simp: scan_slots_eq)
  then show ?thesis by (rule cells_find_slot)
qed force+

lemma cells_asc_set: "cells_rep c \<Longrightarrow> (b, s) \<in> set (cells_asc c) \<longleftrightarrow> b < 256 \<and> cells_find c b = Some s"
  by (auto simp: cells_asc_scan scan_slots_eq)

text \<open>Lists of entries, ordered by what their keys share.\<close>

lemma concat_entries:
  fixes r :: "int \<Rightarrow> int"
  assumes "sorted_wrt (<) (map fst ps)" and "\<And>k k'. r k < r k' \<Longrightarrow> k < k'"
    and "\<forall>(q, es) \<in> set ps. sorted_wrt (<) (map fst es) \<and> (\<forall>e \<in> set es. r (fst e) = q)"
  shows "sorted_wrt (<) (map fst (concat (map snd ps)))"
    and "map_of (concat (map snd ps)) k = (case map_of ps (r k) of None \<Rightarrow> None | Some es \<Rightarrow> map_of es k)"
proof -
  have "sorted_wrt (<) (map fst (concat (map snd ps))) \<and>
    map_of (concat (map snd ps)) k = (case map_of ps (r k) of None \<Rightarrow> None | Some es \<Rightarrow> map_of es k)"
    using assms(1,3)
  proof (induction ps)
    case (Cons p ps)
    obtain q es where p: "p = (q, es)" by (cases p)
    define rest where "rest = concat (map snd ps)"
    have whole: "concat (map snd (p # ps)) = es @ rest" by (simp add: p rest_def)
    have prems: "sorted_wrt (<) (map fst ps)"
      "\<forall>(q, es) \<in> set ps. sorted_wrt (<) (map fst es) \<and> (\<forall>e \<in> set es. r (fst e) = q)"
      using Cons.prems by simp_all
    note IH = conjunct1[OF Cons.IH[OF prems, folded rest_def]] conjunct2[OF Cons.IH[OF prems, folded rest_def]]
    have es: "sorted_wrt (<) (map fst es)" "\<And>e. e \<in> set es \<Longrightarrow> r (fst e) = q" using Cons.prems(2) p by auto
    have later: "q < r (fst e)" if "e \<in> set rest" for e
      using that Cons.prems p unfolding rest_def by fastforce
    have "fst e < fst e'" if "e \<in> set es" "e' \<in> set rest" for e e'
    proof -
      have "r (fst e) < r (fst e')" using es(2)[OF that(1)] later[OF that(2)] by simp
      then show ?thesis by (rule assms(2))
    qed
    then have "sorted_wrt (<) (map fst (concat (map snd (p # ps))))"
      unfolding whole using es(1) IH(1) by (auto simp: sorted_wrt_append)
    moreover have "map_of ps q = None" using Cons.prems(1) p by (force simp: map_of_eq_None_iff)
    moreover have "map_of es k = None" if "r k \<noteq> q" using es(2) that by (force simp: map_of_eq_None_iff)
    moreover have "map_of (concat (map snd (p # ps))) k =
        (case map_of es k of None \<Rightarrow> map_of rest k | Some v \<Rightarrow> Some v)"
      unfolding whole by (simp add: map_add_def)
    ultimately show ?case
      using IH(2) by (cases "r k = q"; cases "map_of es k") (simp_all add: p)
  qed simp
  then show "sorted_wrt (<) (map fst (concat (map snd ps)))"
    and "map_of (concat (map snd ps)) k = (case map_of ps (r k) of None \<Rightarrow> None | Some es \<Rightarrow> map_of es k)"
    by blast+
qed

lemma div_less: "(k :: int) div 256 ^ m < k' div 256 ^ m \<Longrightarrow> k < k'"
  by (meson linorder_not_less zdiv_mono1 zero_less_numeral zero_less_power)

lemma key_in_leaf:
  assumes "key_in n P nk" and "b < 256"
  shows "key_in 0 (key_at nk b) (key_at nk b)" and "key_at nk b = child_prefix 0 nk b"
proof -
  show "key_at nk b = child_prefix 0 nk b" by (simp add: key_at_def child_prefix_def power_Suc)
  have "0 \<le> nk" "nk \<le> INT64_MAX" using assms(1) by (simp_all add: key_in_def)
  then show "key_in 0 (key_at nk b) (key_at nk b)"
    using assms(2) zdiv_mono1[of nk INT64_MAX 256] unfolding key_in_def key_at_def INT64_MAX_def by auto
qed

definition entries_ok :: "nat \<Rightarrow> int \<Rightarrow> 'v art \<Rightarrow> (int \<times> 'v) list \<Rightarrow> bool" where
  "entries_ok n P t es \<longleftrightarrow> es \<noteq> [] \<and> sorted_wrt (<) (map fst es) \<and> (\<forall>e \<in> set es. key_in n P (fst e)) \<and>
     (\<forall>k. key_in n P k \<longrightarrow> map_of es k = art_get t k (8 * n - 8))"

lemma art_entries_ok:
  assumes "art_ok n P t" and "n = 0 \<Longrightarrow> key_in 0 P P"
  shows "entries_ok n P t (art_entries t P)"
  using assms
proof (induction)
  case (Val P v)
  then show ?case by (auto simp: entries_ok_def key_in_def)
next
  case (Node m n nk P c)
  have nk: "key_in n P nk" using Node.hyps by (simp add: key_in_def)
  have rep: "cells_rep c" using Node.hyps(5) by (simp add: cells_ok_def)
  let ?E = "\<lambda>b s. art_entries s (key_at nk b)"
  let ?ps = "map (\<lambda>(b, s). (child_prefix m nk b, ?E b s)) (cells_asc c)"
  have kid: "entries_ok m (child_prefix m nk b) s (?E b s)" if "(b, s) \<in> set (cells_asc c)" for b s
  proof -
    have bs: "b < 256" "cells_find c b = Some s" using that cells_asc_set[OF rep] by blast+
    have *: "m = 0 \<Longrightarrow> key_in 0 (child_prefix m nk b) (child_prefix m nk b)"
      using key_in_leaf[OF nk bs(1)] by simp
    have "art_entries s (key_at nk b) = art_entries s (child_prefix m nk b)"
    proof (cases "m = 0")
      case True
      with key_in_leaf(2)[OF nk bs(1)] show ?thesis by simp
    next
      case False
      with Node.hyps(7)[OF bs] obtain l2 nk2 c2 where "s = Node l2 nk2 c2" by (cases s) auto
      then show ?thesis by (simp add: art_entries_node)
    qed
    with Node.IH[OF bs *] show ?thesis by simp
  qed
  have concat: "art_entries (Node (8 * m) nk c) P = concat (map snd ?ps)"
    by (simp add: art_entries_node comp_def case_prod_unfold)
  have sorted: "sorted_wrt (<) (map fst ?ps)"
    using cells_asc_sorted[OF rep] by (simp add: sorted_wrt_map case_prod_unfold child_prefix_def)
  have part: "\<forall>(q, es) \<in> set ?ps. sorted_wrt (<) (map fst es) \<and> (\<forall>e \<in> set es. fst e div 256 ^ m = q)"
    using kid by (fastforce simp: entries_ok_def key_in_def)
  note main = concat_entries[OF sorted div_less[where m = m] part]
  have mem: "key_in n P (fst e)" if "e \<in> set (concat (map snd ?ps))" for e
  proof -
    from that obtain b s where bs: "(b, s) \<in> set (cells_asc c)" "e \<in> set (?E b s)" by auto
    have "key_in m (child_prefix m nk b) (fst e)" using kid[OF bs(1)] bs(2) by (auto simp: entries_ok_def)
    then have "fst e div 256 ^ Suc m = nk div 256 ^ Suc m" "0 \<le> fst e" "fst e \<le> INT64_MAX"
      using key_in_parent(1) cells_asc_set[OF rep] bs(1) by (auto simp: key_in_def)
    with div_up[of "fst e" "Suc m" nk n] Node.hyps(1) nk show ?thesis by (simp add: key_in_def)
  qed
  have "cells_asc c \<noteq> []" using Node.hyps(6) cells_count_length[OF rep] by (auto split: if_splits)
  then have nonempty: "concat (map snd ?ps) \<noteq> []"
    using kid by (cases "cells_asc c") (auto simp: entries_ok_def)
  have "map_of (concat (map snd ?ps)) k = art_get (Node (8 * m) nk c) k (8 * n - 8)" if k: "key_in n P k" for k
  proof (cases "k div 256 ^ Suc m = nk div 256 ^ Suc m")
    case True
    then have in': "key_in m (child_prefix m nk (byte_at (8 * m) k)) k" by (rule key_in_child[OF k])
    then have q: "k div 256 ^ m = child_prefix m nk (byte_at (8 * m) k)" by (simp add: key_in_def)
    have "map_of (map (\<lambda>(b, s). (child_prefix m nk b, ?E b s)) xs) (child_prefix m nk b) = map_option (?E b) (map_of xs b)" for b and xs :: "(nat \<times> 'a art) list"
      by (induction xs) (auto simp: child_prefix_def)
    then have "map_of ?ps (k div 256 ^ m) = map_option (?E (byte_at (8 * m) k)) (cells_find c (byte_at (8 * m) k))"
      unfolding q using cells_asc_map[OF rep] by simp
    moreover have "map_of (?E (byte_at (8 * m) k) s) k = art_get s k (8 * m - 8)" if "cells_find c (byte_at (8 * m) k) = Some s" for s
      using kid[of "byte_at (8 * m) k" s] in' that cells_asc_set[OF rep] by (simp add: entries_ok_def)
    ultimately show ?thesis
      using True main(2)[of k] art_get_node[OF Node.hyps(1) nk k, of c] by (simp split: option.split)
  next
    case False
    have "k div 256 ^ m \<noteq> child_prefix m nk b" if "b < 256" for b
      using False that by (auto simp: div_Suc child_prefix_div)
    then have "map_of ?ps (k div 256 ^ m) = None"
      using cells_asc_set[OF rep] by (auto simp: map_of_eq_None_iff) metis
    with False main(2)[of k] art_get_node[OF Node.hyps(1) nk k, of c] show ?thesis by simp
  qed
  with main(1) mem nonempty show ?case unfolding concat entries_ok_def by blast
qed

end
