(* ===== verification/Art_Near.thy ===== *)
theory Art_Near
  imports Art_Order
begin

text \<open>
  \<open>GetCeilingValue\<close> and \<open>GetFloorValue\<close> of the radix tree. Both directions run the same two loops,
  over the sorted pairs of the small classes and over the slots of the large ones; they are
  instances of the functions below, which differ in the children that lie beyond the sub-key and
  in the key that stands for "any".
\<close>

section \<open>The loops in either direction\<close>

fun near_pairs :: "(nat \<Rightarrow> bool) \<Rightarrow> int \<Rightarrow> (nat \<times> (int \<Rightarrow> 'v option)) list \<Rightarrow> nat \<Rightarrow> int \<Rightarrow> 'v option" where
  "near_pairs beyond any [] i key = None"
| "near_pairs beyond any ((b, f) # ps) i key =
     (if b = i then (case f key of Some v \<Rightarrow> Some v | None \<Rightarrow> near_pairs beyond any ps i key)
      else if beyond b then f any
      else near_pairs beyond any ps i key)"

fun near_scan :: "int \<Rightarrow> (int \<Rightarrow> 'v option) list \<Rightarrow> int \<Rightarrow> 'v option" where
  "near_scan any [] key = None"
| "near_scan any (f # fs) key = (case f key of Some v \<Rightarrow> Some v | None \<Rightarrow> near_scan any fs any)"

lemma near_loops:
  "pairs_ceil ps i key = near_pairs ((<) i) 0 ps i key"
  "pairs_floor ps i key = near_pairs (\<lambda>b. b < i) INT64_MAX ps i key"
  "scan_ceil fs key = near_scan 0 fs key"
  "scan_floor fs key = near_scan INT64_MAX fs key"
proof -
  show "pairs_ceil ps i key = near_pairs ((<) i) 0 ps i key" by (induction ps) (auto split: option.split)
  show "pairs_floor ps i key = near_pairs (\<lambda>b. b < i) INT64_MAX ps i key" by (induction ps) (auto split: option.split)
  show "scan_ceil fs key = near_scan 0 fs key" by (induction fs key rule: scan_ceil.induct) (auto split: option.split)
  show "scan_floor fs key = near_scan INT64_MAX fs key" by (induction fs key rule: scan_floor.induct) (auto split: option.split)
qed

text \<open>
  Children of the sub-key \<open>i\<close> answer the search of the key with the first of their entries that
  satisfies \<open>Q\<close>; those beyond answer any key they may be given with their first entry.
\<close>

definition answers ::
  "(int \<times> 'v \<Rightarrow> bool) \<Rightarrow> (nat \<times> 's \<Rightarrow> (int \<times> 'v) list) \<Rightarrow> (nat \<times> 's \<Rightarrow> int \<Rightarrow> 'v option) \<Rightarrow> int set \<Rightarrow> nat \<times> 's \<Rightarrow> bool"
where
  "answers Q E F keys p \<longleftrightarrow> E p \<noteq> [] \<and> Q (hd (E p)) \<and> (\<forall>k \<in> keys. F p k = Some (snd (hd (E p))))"

lemma find_append: "find Q (xs @ ys) = (case find Q xs of Some x \<Rightarrow> Some x | None \<Rightarrow> find Q ys)"
  by (induction xs) auto

lemma find_skip: "\<forall>x \<in> set xs. \<not> Q x \<Longrightarrow> find Q (xs @ ys) = find Q ys"
  by (induction xs) auto

lemma find_hd: "xs \<noteq> [] \<Longrightarrow> Q (hd xs) \<Longrightarrow> find Q (xs @ ys) = Some (hd xs)"
  by (cases xs) auto

lemma near_loops_find:
  assumes lo: "\<forall>p \<in> set lo. fst p \<noteq> i \<and> \<not> beyond (fst p) \<and> (\<forall>e \<in> set (E p). \<not> Q e)"
    and mid: "mid = [] \<or> (\<exists>s. mid = [(i, s)] \<and> F (i, s) key = map_option snd (find Q (E (i, s))))"
    and hi: "\<forall>p \<in> set hi. fst p \<noteq> i \<and> beyond (fst p) \<and> answers Q E F (if mid = [] then {key, any} else {any}) p"
  shows "near_pairs beyond any (map (\<lambda>p. (fst p, F p)) (lo @ mid @ hi)) i key =
      map_option snd (find Q (concat (map E (lo @ mid @ hi))))" (is ?pairs)
    and "near_scan any (map F (mid @ hi)) key = map_option snd (find Q (concat (map E (lo @ mid @ hi))))" (is ?scan)
proof -
  have skip: "find Q (concat (map E (lo @ mid @ hi))) = find Q (concat (map E (mid @ hi)))"
    using lo find_skip[of "concat (map E lo)" Q] by auto
  have pairs_skip: "near_pairs beyond any (map (\<lambda>p. (fst p, F p)) (lo @ mid @ hi)) i key =
      near_pairs beyond any (map (\<lambda>p. (fst p, F p)) (mid @ hi)) i key"
    using lo by (induction lo) auto
  have pairs_hi: "near_pairs beyond any (map (\<lambda>p. (fst p, F p)) hi) i key = map_option snd (find Q (concat (map E hi)))"
    using hi by (cases hi) (auto simp: answers_def find_hd)
  have scan_hi: "near_scan any (map F hi) k = map_option snd (find Q (concat (map E hi)))"
    if "k = any \<or> mid = [] \<and> k = key" for k
    using hi that by (cases hi) (auto simp: answers_def find_hd)
  show ?pairs unfolding skip pairs_skip using mid pairs_hi by (auto simp: find_append split: option.split)
  show ?scan unfolding skip using mid scan_hi by (auto simp: find_append split: option.split)
qed

lemma sorted_split:
  fixes i :: nat
  assumes "sorted_wrt (<) (map fst cs)"
  shows "cs = filter (\<lambda>p. fst p < i) cs @ filter (\<lambda>p. fst p = i) cs @ filter (\<lambda>p. i < fst p) cs"
  using assms
proof (induction cs)
  case (Cons p cs)
  then have "filter (\<lambda>q. fst q < i) cs = [] \<and> filter (\<lambda>q. fst q = i) cs = []" if "i \<le> fst p"
    using that by (auto simp: filter_empty_conv)
  with Cons show ?case by (cases "i \<le> fst p") (auto simp: filter_True)
qed simp

lemma sorted_single:
  fixes i :: nat
  assumes "sorted_wrt (<) (map fst cs)"
  shows "filter (\<lambda>p. fst p = i) cs = (case map_of cs i of None \<Rightarrow> [] | Some s \<Rightarrow> [(i, s)])"
  using assms
proof (induction cs)
  case (Cons p cs)
  then have "filter (\<lambda>q. fst q = fst p) cs = []" by (auto simp: filter_empty_conv)
  with Cons show ?case by (cases p) auto
qed simp

lemma cells_ceil_cases:
  "cells_ceil d i key = pairs_ceil (cells_asc d) i key \<or>
   cells_ceil d i key = scan_ceil (map snd (filter (\<lambda>(b, f). i \<le> b) (cells_asc d))) key"
  by (cases d) auto

lemma cells_floor_cases:
  "cells_floor d i key = pairs_floor (rev (cells_asc d)) i key \<or>
   cells_floor d i key = scan_floor (map snd (rev (filter (\<lambda>(b, f). b \<le> i) (cells_asc d)))) key"
  by (cases d) auto

lemma map_cells_pairs: "cells_asc (map_cells f c) = map (\<lambda>p. (fst p, f (snd p))) (cells_asc c)"
  by (simp add: cells_asc_map_cells case_prod_unfold)

text \<open>The parts of the children of a node before, at and after a sub-key.\<close>

lemma cells_parts:
  fixes c :: "'s cells" and i :: nat
  assumes rep: "cells_rep c"
  obtains lo mid hi where "cells_asc c = lo @ mid @ hi"
    "\<forall>p \<in> set lo. p \<in> set (cells_asc c) \<and> fst p < i" "\<forall>p \<in> set hi. p \<in> set (cells_asc c) \<and> i < fst p"
    "mid = (case map_of (cells_asc c) i of None \<Rightarrow> [] | Some s \<Rightarrow> [(i, s)])"
    "filter (\<lambda>p. i \<le> fst p) (cells_asc c) = mid @ hi" "filter (\<lambda>p. fst p \<le> i) (cells_asc c) = lo @ mid"
proof
  let ?lo = "filter (\<lambda>p. fst p < i) (cells_asc c)" and ?mid = "filter (\<lambda>p. fst p = i) (cells_asc c)"
    and ?hi = "filter (\<lambda>p. i < fst p) (cells_asc c)"
  show eq: "cells_asc c = ?lo @ ?mid @ ?hi" by (rule sorted_split[OF cells_asc_sorted[OF rep]])
  have "filter (\<lambda>p. i \<le> fst p) (cells_asc c) = filter (\<lambda>p. i \<le> fst p) (?lo @ ?mid @ ?hi)" using eq by simp
  also have "\<dots> = ?mid @ ?hi"
    by (auto simp: filter_empty_conv simp del: filter_filter intro!: filter_True)
  finally show "filter (\<lambda>p. i \<le> fst p) (cells_asc c) = ?mid @ ?hi" .
  have "filter (\<lambda>p. fst p \<le> i) (cells_asc c) = filter (\<lambda>p. fst p \<le> i) (?lo @ ?mid @ ?hi)" using eq by simp
  also have "\<dots> = ?lo @ ?mid"
    by (auto simp: filter_empty_conv simp del: filter_filter intro!: filter_True)
  finally show "filter (\<lambda>p. fst p \<le> i) (cells_asc c) = ?lo @ ?mid" .
  show "?mid = (case map_of (cells_asc c) i of None \<Rightarrow> [] | Some s \<Rightarrow> [(i, s)])"
    by (rule sorted_single[OF cells_asc_sorted[OF rep]])
qed auto

lemma cells_ceil_find:
  fixes F :: "'s \<Rightarrow> int \<Rightarrow> 'v option" and E :: "nat \<times> 's \<Rightarrow> (int \<times> 'v) list"
  assumes rep: "cells_rep c" and i: "i < 256"
    and lo: "\<And>b s. (b, s) \<in> set (cells_asc c) \<Longrightarrow> b < i \<Longrightarrow> \<forall>e \<in> set (E (b, s)). \<not> Q e"
    and mid: "\<And>s. cells_find c i = Some s \<Longrightarrow> F s key = map_option snd (find Q (E (i, s)))"
    and hi: "\<And>b s. (b, s) \<in> set (cells_asc c) \<Longrightarrow> i < b \<Longrightarrow>
      answers Q E (\<lambda>p. F (snd p)) (if cells_find c i = None then {key, 0} else {0}) (b, s)"
  shows "cells_ceil (map_cells F c) i key = map_option snd (find Q (concat (map E (cells_asc c))))"
proof -
  obtain l m h where parts: "cells_asc c = l @ m @ h"
    "\<forall>p \<in> set l. p \<in> set (cells_asc c) \<and> fst p < i" "\<forall>p \<in> set h. p \<in> set (cells_asc c) \<and> i < fst p"
    "m = (case map_of (cells_asc c) i of None \<Rightarrow> [] | Some s \<Rightarrow> [(i, s)])"
    "filter (\<lambda>p. i \<le> fst p) (cells_asc c) = m @ h" by (rule cells_parts[OF rep, of i])
  have m: "m = (case cells_find c i of None \<Rightarrow> [] | Some s \<Rightarrow> [(i, s)])"
    using parts(4) cells_asc_map[OF rep, of i] i by simp
  have "\<forall>p \<in> set l. fst p \<noteq> i \<and> \<not> i < fst p \<and> (\<forall>e \<in> set (E p). \<not> Q e)"
    using parts(2) lo by (auto simp del: parts(1))
  moreover have "m = [] \<or> (\<exists>s. m = [(i, s)] \<and> F (snd (i, s)) key = map_option snd (find Q (E (i, s))))"
    using mid m by (auto split: option.splits)
  moreover have "\<forall>p \<in> set h. fst p \<noteq> i \<and> i < fst p \<and>
      answers Q E (\<lambda>p. F (snd p)) (if m = [] then {key, 0} else {0}) p"
    using parts(3) hi unfolding m by (auto split: option.splits)
  ultimately have near: "near_pairs ((<) i) 0 (map (\<lambda>p. (fst p, F (snd p))) (l @ m @ h)) i key =
      map_option snd (find Q (concat (map E (l @ m @ h))))"
    "near_scan 0 (map (\<lambda>p. F (snd p)) (m @ h)) key = map_option snd (find Q (concat (map E (l @ m @ h))))"
    by (rule near_loops_find)+
  have "map snd (filter (\<lambda>(b, f). i \<le> b) (cells_asc (map_cells F c))) = map (\<lambda>p. F (snd p)) (m @ h)"
    unfolding map_cells_pairs filter_map comp_def case_prod_unfold by (simp add: parts(5) comp_def)
  with near show ?thesis
    using cells_ceil_cases[of "map_cells F c" i key] by (simp only: near_loops map_cells_pairs parts(1)) auto
qed

lemma cells_floor_find:
  fixes F :: "'s \<Rightarrow> int \<Rightarrow> 'v option" and E :: "nat \<times> 's \<Rightarrow> (int \<times> 'v) list"
  assumes rep: "cells_rep c" and i: "i < 256"
    and lo: "\<And>b s. (b, s) \<in> set (cells_asc c) \<Longrightarrow> i < b \<Longrightarrow> \<forall>e \<in> set (E (b, s)). \<not> Q e"
    and mid: "\<And>s. cells_find c i = Some s \<Longrightarrow> F s key = map_option snd (find Q (E (i, s)))"
    and hi: "\<And>b s. (b, s) \<in> set (cells_asc c) \<Longrightarrow> b < i \<Longrightarrow>
      answers Q E (\<lambda>p. F (snd p)) (if cells_find c i = None then {key, INT64_MAX} else {INT64_MAX}) (b, s)"
  shows "cells_floor (map_cells F c) i key = map_option snd (find Q (concat (map E (rev (cells_asc c)))))"
proof -
  obtain l m h where parts: "cells_asc c = l @ m @ h"
    "\<forall>p \<in> set l. p \<in> set (cells_asc c) \<and> fst p < i" "\<forall>p \<in> set h. p \<in> set (cells_asc c) \<and> i < fst p"
    "m = (case map_of (cells_asc c) i of None \<Rightarrow> [] | Some s \<Rightarrow> [(i, s)])"
    "filter (\<lambda>p. fst p \<le> i) (cells_asc c) = l @ m" by (rule cells_parts[OF rep, of i])
  have m: "m = (case cells_find c i of None \<Rightarrow> [] | Some s \<Rightarrow> [(i, s)])"
    using parts(4) cells_asc_map[OF rep, of i] i by simp
  have revs: "rev (l @ m @ h) = rev h @ m @ rev l" using m by (auto split: option.split)
  have "\<forall>p \<in> set (rev h). fst p \<noteq> i \<and> \<not> fst p < i \<and> (\<forall>e \<in> set (E p). \<not> Q e)"
    using parts(3) lo by (auto simp del: parts(1))
  moreover have "m = [] \<or> (\<exists>s. m = [(i, s)] \<and> F (snd (i, s)) key = map_option snd (find Q (E (i, s))))"
    using mid m by (auto split: option.splits)
  moreover have "\<forall>p \<in> set (rev l). fst p \<noteq> i \<and> fst p < i \<and>
      answers Q E (\<lambda>p. F (snd p)) (if m = [] then {key, INT64_MAX} else {INT64_MAX}) p"
    using parts(2) hi unfolding m by (auto split: option.splits)
  ultimately have near: "near_pairs (\<lambda>b. b < i) INT64_MAX (map (\<lambda>p. (fst p, F (snd p))) (rev h @ m @ rev l)) i key =
      map_option snd (find Q (concat (map E (rev h @ m @ rev l))))"
    "near_scan INT64_MAX (map (\<lambda>p. F (snd p)) (m @ rev l)) key =
      map_option snd (find Q (concat (map E (rev h @ m @ rev l))))"
    by (rule near_loops_find)+
  have "rev (l @ m) = m @ rev l" using m by (auto split: option.split)
  then have "map snd (rev (filter (\<lambda>(b, f). b \<le> i) (cells_asc (map_cells F c)))) = map (\<lambda>p. F (snd p)) (m @ rev l)"
    unfolding map_cells_pairs filter_map comp_def case_prod_unfold by (simp add: parts(5) comp_def rev_map)
  with near show ?thesis
    using cells_floor_cases[of "map_cells F c" i key]
    by (simp only: near_loops map_cells_pairs rev_map parts(1) revs) auto
qed

section \<open>The neighbours in a tree\<close>

lemma node_child:
  assumes "art_ok n P (Node (8 * m) nk c)" and "(b, s) \<in> set (cells_asc c)"
  shows "b < 256" and "cells_find c b = Some s" and "art_ok m (child_prefix m nk b) s"
    and "m = 0 \<Longrightarrow> key_in 0 (child_prefix m nk b) (child_prefix m nk b)"
    and "art_entries s (key_at nk b) = art_entries s (child_prefix m nk b)"
    and "entries_ok m (child_prefix m nk b) s (art_entries s (child_prefix m nk b))"
proof -
  obtain "m < n" and nk: "key_in n P nk" and "cells_ok c"
    and kids: "\<And>b s. b < 256 \<Longrightarrow> cells_find c b = Some s \<Longrightarrow> art_ok m (child_prefix m nk b) s"
    using assms(1) by (elim art_ok_node) auto
  then have rep: "cells_rep c" by (simp add: cells_ok_def)
  show bs: "b < 256" "cells_find c b = Some s" using assms(2) cells_asc_set[OF rep, of b s] by simp_all
  show ok: "art_ok m (child_prefix m nk b) s" by (rule kids[OF bs])
  show leaf: "m = 0 \<Longrightarrow> key_in 0 (child_prefix m nk b) (child_prefix m nk b)"
    using key_in_leaf[OF nk bs(1)] by simp
  show "entries_ok m (child_prefix m nk b) s (art_entries s (child_prefix m nk b))"
    by (rule art_entries_ok[OF ok]) (rule leaf)
  show "art_entries s (key_at nk b) = art_entries s (child_prefix m nk b)"
  proof (cases "m = 0")
    case True
    then show ?thesis using key_in_leaf(2)[OF nk bs(1)] by simp
  next
    case False
    with ok obtain l2 nk2 c2 where "s = Node l2 nk2 c2" by (cases s) auto
    then show ?thesis by (simp add: art_entries_node)
  qed
qed

lemma node_entries:
  assumes "art_ok n P (Node (8 * m) nk c)"
  shows "art_entries (Node (8 * m) nk c) at =
      concat (map (\<lambda>(b, s). art_entries s (child_prefix m nk b)) (cells_asc c))"
proof -
  have "map (\<lambda>(b, s). art_entries s (key_at nk b)) (cells_asc c) =
      map (\<lambda>(b, s). art_entries s (child_prefix m nk b)) (cells_asc c)"
    using node_child(5)[OF assms] by (intro map_cong) auto
  then show ?thesis unfolding art_entries_node by (rule arg_cong)
qed

text \<open>The key that is at or before all keys with a prefix, in the bits that are still open.\<close>

definition from_start :: "nat \<Rightarrow> int \<Rightarrow> int \<Rightarrow> bool" where
  "from_start n P k \<longleftrightarrow> 0 \<le> k \<and> k mod 256 ^ n = 0 \<and> k div 256 ^ n \<le> P"

lemma mod_Suc_zero: "(k :: int) mod 256 ^ Suc m = 0 \<longleftrightarrow> k mod 256 ^ m = 0 \<and> byte_at (8 * m) k = 0"
proof -
  have "k mod 256 ^ Suc m = 256 ^ m * (k div 256 ^ m mod 256) + k mod 256 ^ m"
    by (simp add: power_Suc2 zmod_zmult2_eq)
  moreover have "0 \<le> k mod 256 ^ m" by simp
  moreover have "0 \<le> 256 ^ m * int (byte_at (8 * m) k)" by simp
  ultimately have "k mod 256 ^ Suc m = 0 \<longleftrightarrow> 256 ^ m * int (byte_at (8 * m) k) = 0 \<and> k mod 256 ^ m = 0"
    unfolding byte_at_8 by linarith
  then show ?thesis by auto
qed

lemma from_start_le: "from_start n P k \<Longrightarrow> key_in n P k' \<Longrightarrow> k \<le> k'"
proof -
  assume "from_start n P k" "key_in n P k'"
  then have "k mod 256 ^ n = 0" "k div 256 ^ n \<le> k' div 256 ^ n" by (simp_all only: from_start_def key_in_def)
  moreover from this(2) have "k div 256 ^ n * 256 ^ n \<le> k' div 256 ^ n * 256 ^ n" by (rule mult_right_mono) simp
  moreover have "0 \<le> k' mod 256 ^ n" by simp
  ultimately show ?thesis using div_mult_mod_eq[of k "256 ^ n"] div_mult_mod_eq[of k' "256 ^ n"] by linarith
qed

lemma mod_up: "m \<le> n \<Longrightarrow> (k :: int) mod 256 ^ n = 0 \<Longrightarrow> k mod 256 ^ m = 0"
  by (meson dvd_trans le_imp_power_dvd mod_eq_0_iff_dvd)

lemma prev_same:
  assumes "(k :: int) mod 256 ^ m \<noteq> 0"
  shows "(k - 1) div 256 ^ m = k div 256 ^ m"
proof -
  have "0 \<le> k mod 256 ^ m" "k mod 256 ^ m < 256 ^ m" by simp_all
  with assms have "0 \<le> k mod 256 ^ m - 1" "k mod 256 ^ m - 1 < 256 ^ m" by linarith+
  moreover have "k - 1 = 256 ^ m * (k div 256 ^ m) + (k mod 256 ^ m - 1)" by simp
  ultimately show ?thesis by (intro int_div_pos_eq)
qed

text \<open>
  The keys around which \<open>GetCeilingValue\<close> is used: the least of a prefix, or the one after a key of
  the tree.
\<close>

definition ceil_key :: "nat \<Rightarrow> int \<Rightarrow> 'v art \<Rightarrow> int \<Rightarrow> bool" where
  "ceil_key n P t k \<longleftrightarrow> from_start n P k \<or>
     key_in n P k \<and> key_in n P (k - 1) \<and> art_get t (k - 1) (8 * n - 8) \<noteq> None"

lemma from_start_Suc:
  assumes "from_start (Suc m) (nk div 256 ^ Suc m) k"
  shows "from_start m (child_prefix m nk b) k" and "byte_at (8 * m) k = 0"
proof -
  have k: "0 \<le> k" "k mod 256 ^ m = 0" "k div 256 ^ Suc m \<le> nk div 256 ^ Suc m"
    using assms by (simp_all only: from_start_def mod_Suc_zero)
  show b: "byte_at (8 * m) k = 0" using assms by (simp only: from_start_def mod_Suc_zero)
  with k show "from_start m (child_prefix m nk b) k" using div_parts[of k m] by (simp add: from_start_def child_prefix_def)
qed

lemma ceil_child_first:
  assumes child: "entries_ok m (child_prefix m nk b) s es" and "from_start m (child_prefix m nk b) q"
    and IH: "ceil_key m (child_prefix m nk b) s q \<Longrightarrow>
      art_ceil s q (8 * m - 8) = map_option snd (find (\<lambda>e. q \<le> fst e) es)"
  shows "art_ceil s q (8 * m - 8) = Some (snd (hd es))"
proof -
  have es: "es \<noteq> []" "q \<le> fst (hd es)"
    using child from_start_le[OF assms(2)] by (auto simp: entries_ok_def)
  then have "find (\<lambda>e. q \<le> fst e) (es @ []) = Some (hd es)" by (rule find_hd)
  with IH assms(2) show ?thesis by (simp add: ceil_key_def)
qed

lemma art_ceil_children:
  assumes ok: "art_ok n P (Node (8 * m) nk c)"
    and IH: "\<And>b s q. (b, s) \<in> set (cells_asc c) \<Longrightarrow> ceil_key m (child_prefix m nk b) s q \<Longrightarrow>
      art_ceil s q (8 * m - 8) = map_option snd (find (\<lambda>e. q \<le> fst e) (art_entries s (child_prefix m nk b)))"
    and key: "from_start (Suc m) (nk div 256 ^ Suc m) k' \<and> (\<forall>k''. key_in (Suc m) (nk div 256 ^ Suc m) k'' \<longrightarrow> k \<le> k'') \<or>
      k' = k \<and> key_in n P k \<and> key_in n P (k - 1) \<and> k div 256 ^ Suc m = nk div 256 ^ Suc m \<and>
      (k - 1) div 256 ^ Suc m = nk div 256 ^ Suc m \<and> art_get (Node (8 * m) nk c) (k - 1) (8 * n - 8) \<noteq> None"
  shows "cells_ceil (map_cells (\<lambda>s q. art_ceil s q (8 * m - 8)) c) (byte_at (8 * m) k') k' =
      map_option snd (find (\<lambda>e. k \<le> fst e) (art_entries (Node (8 * m) nk c) at))"
proof -
  let ?E = "\<lambda>(b, s). art_entries s (child_prefix m nk b)" and ?i = "byte_at (8 * m) k'"
  obtain m: "m < n" and nk: "key_in n P nk" and "cells_ok c" using ok by (elim art_ok_node) auto
  then have rep: "cells_rep c" by (simp add: cells_ok_def)
  note kid = node_child[OF ok]
  have mem: "key_in m (child_prefix m nk b) (fst e)" if "(b, s) \<in> set (cells_asc c)" "e \<in> set (?E (b, s))" for b s e
    using kid(6)[OF that(1)] that(2) by (simp add: entries_ok_def)
  have mem_up: "key_in (Suc m) (nk div 256 ^ Suc m) (fst e)" if "(b, s) \<in> set (cells_asc c)" "e \<in> set (?E (b, s))" for b s e
    using mem[OF that] key_in_parent(1)[OF mem[OF that] kid(1)[OF that(1)]] by (simp add: key_in_def)
  have first: "art_ceil s q (8 * m - 8) = Some (snd (hd (?E (b, s))))"
    if "(b, s) \<in> set (cells_asc c)" "from_start m (child_prefix m nk b) q" for b s q
    using ceil_child_first[OF kid(6)[OF that(1)] that(2)] IH[OF that(1)] by simp
  have zero: "from_start m (child_prefix m nk b) 0" for b
    using nk by (simp add: from_start_def child_prefix_def key_in_def pos_imp_zdiv_nonneg_iff)
  have hd_mem: "?E (b, s) \<noteq> []" "hd (?E (b, s)) \<in> set (?E (b, s))" if "(b, s) \<in> set (cells_asc c)" for b s
    using kid(6)[OF that] by (simp_all add: entries_ok_def)
  have find_all: "find (\<lambda>e. k \<le> fst e) (?E (b, s)) = Some (hd (?E (b, s)))"
    if "(b, s) \<in> set (cells_asc c)" "\<forall>e \<in> set (?E (b, s)). k \<le> fst e" for b s
    using find_hd[of "?E (b, s)" "\<lambda>e. k \<le> fst e" "[]"] hd_mem[OF that(1)] that(2) by simp
  consider (start) "from_start (Suc m) (nk div 256 ^ Suc m) k'" "\<forall>k''. key_in (Suc m) (nk div 256 ^ Suc m) k'' \<longrightarrow> k \<le> k''"
    | (here) "k' = k" "key_in n P k" "key_in n P (k - 1)" "k div 256 ^ Suc m = nk div 256 ^ Suc m"
      "(k - 1) div 256 ^ Suc m = nk div 256 ^ Suc m" "art_get (Node (8 * m) nk c) (k - 1) (8 * n - 8) \<noteq> None"
    using key by blast
  then have "cells_ceil (map_cells (\<lambda>s q. art_ceil s q (8 * m - 8)) c) ?i k' =
      map_option snd (find (\<lambda>e. k \<le> fst e) (concat (map ?E (cells_asc c))))"
  proof cases
    case start
    note s = from_start_Suc[OF start(1)]
    show ?thesis
    proof (rule cells_ceil_find[OF rep byte_at_less])
      show "art_ceil u k' (8 * m - 8) = map_option snd (find (\<lambda>e. k \<le> fst e) (?E (?i, u)))"
        if "cells_find c ?i = Some u" for u
      proof -
        have in': "(?i, u) \<in> set (cells_asc c)" using that cells_asc_set[OF rep, of ?i u] by simp
        have "\<forall>e \<in> set (?E (?i, u)). k \<le> fst e" using mem_up[OF in'] start(2) by blast
        from find_all[OF in' this] first[OF in' s(1)] show ?thesis by simp
      qed
      show "answers (\<lambda>e. k \<le> fst e) ?E (\<lambda>p q. art_ceil (snd p) q (8 * m - 8))
          (if cells_find c ?i = None then {k', 0} else {0}) (b, u)" if "(b, u) \<in> set (cells_asc c)" for b u
        using hd_mem[OF that] mem_up[OF that] start(2) first[OF that s(1)] first[OF that zero]
        by (auto simp: answers_def)
    qed (simp add: s(2))
  next
    case here
    have rank: "fst e div 256 ^ m = child_prefix m nk b" if "(b, u) \<in> set (cells_asc c)" "e \<in> set (?E (b, u))" for b u e
      using mem[OF that] by (simp add: key_in_def)
    have k_rank: "k div 256 ^ m = child_prefix m nk ?i" using div_parts[of k m] here(1,4) by (simp add: child_prefix_def)
    have less: "fst e < k" if "(b, u) \<in> set (cells_asc c)" "e \<in> set (?E (b, u))" "b < ?i" for b u e
      using div_less[of "fst e" m k] rank[OF that(1,2)] k_rank that(3) by (simp add: child_prefix_def)
    have more: "k < fst e" if "(b, u) \<in> set (cells_asc c)" "e \<in> set (?E (b, u))" "?i < b" for b u e
      using div_less[of k m "fst e"] rank[OF that(1,2)] k_rank that(3) by (simp add: child_prefix_def)
    have in_i: "key_in m (child_prefix m nk ?i) k" using key_in_child[OF here(2,4)] here(1) by simp
    have aligned: "from_start m (child_prefix m nk b) k" if "k mod 256 ^ m = 0" "?i \<le> b" for b
      using that k_rank here(2) by (simp add: from_start_def key_in_def child_prefix_def)
    have inside: "cells_find c ?i \<noteq> None \<and> (\<forall>u. cells_find c ?i = Some u \<longrightarrow> ceil_key m (child_prefix m nk ?i) u k)"
      if "k mod 256 ^ m \<noteq> 0"
    proof -
      have same: "byte_at (8 * m) (k - 1) = ?i"
        using prev_same[OF that] here(1,4,5) div_parts[of k m] div_parts[of "k - 1" m] by simp
      have "key_in m (child_prefix m nk ?i) (k - 1)" using key_in_child[OF here(3,5)] same by simp
      with here(6) in_i same here(5) show ?thesis
        unfolding art_get_node[OF m nk here(3), of c] by (auto simp: ceil_key_def split: option.splits)
    qed
    show ?thesis
    proof (rule cells_ceil_find[OF rep byte_at_less])
      show "\<forall>e \<in> set (?E (b, u)). \<not> k \<le> fst e" if "(b, u) \<in> set (cells_asc c)" "b < ?i" for b u
        using less[OF that(1) _ that(2)] by (meson not_le)
      show "art_ceil u k' (8 * m - 8) = map_option snd (find (\<lambda>e. k \<le> fst e) (?E (?i, u)))"
        if "cells_find c ?i = Some u" for u
      proof -
        have in': "(?i, u) \<in> set (cells_asc c)" using that cells_asc_set[OF rep, of ?i u] by simp
        have "ceil_key m (child_prefix m nk ?i) u k"
          using inside that aligned[of ?i] by (cases "k mod 256 ^ m = 0") (auto simp: ceil_key_def)
        from IH[OF in' this] show ?thesis by (simp add: here(1))
      qed
      show "answers (\<lambda>e. k \<le> fst e) ?E (\<lambda>p q. art_ceil (snd p) q (8 * m - 8))
          (if cells_find c ?i = None then {k', 0} else {0}) (b, u)" if "(b, u) \<in> set (cells_asc c)" "?i < b" for b u
      proof -
        have "art_ceil u k (8 * m - 8) = Some (snd (hd (?E (b, u))))" if "cells_find c ?i = None"
          using inside that first[OF \<open>(b, u) \<in> set (cells_asc c)\<close> aligned] \<open>?i < b\<close> by (cases "k mod 256 ^ m = 0") auto
        with hd_mem(1)[OF that(1)] more[OF that(1) hd_mem(2)[OF that(1)] that(2)] first[OF that(1) zero] here(1)
        show ?thesis by (auto simp: answers_def)
      qed
    qed
  qed
  then show ?thesis unfolding node_entries[OF ok] .
qed

text \<open>The keys of a node share its prefix.\<close>

lemma node_entries_in:
  assumes "art_ok n P (Node (8 * m) nk c)" and "e \<in> set (art_entries (Node (8 * m) nk c) at)"
  shows "key_in (Suc m) (nk div 256 ^ Suc m) (fst e)"
proof -
  obtain b s where bs: "(b, s) \<in> set (cells_asc c)" "e \<in> set (art_entries s (child_prefix m nk b))"
    using assms(2) unfolding node_entries[OF assms(1)] by auto
  then have "key_in m (child_prefix m nk b) (fst e)"
    using node_child(6)[OF assms(1)] by (simp add: entries_ok_def)
  with key_in_parent(1)[OF this node_child(1)[OF assms(1) bs(1)]] show ?thesis by (simp add: key_in_def)
qed

theorem art_ceil_ok:
  assumes "art_ok n P t" and "ceil_key n P t k" and "n = 0 \<Longrightarrow> key_in 0 P P"
  shows "art_ceil t k (8 * n - 8) = map_option snd (find (\<lambda>e. k \<le> fst e) (art_entries t P))"
  using assms
proof (induction arbitrary: k)
  case (Val P v)
  then show ?case by (auto simp: ceil_key_def from_start_def key_in_def)
next
  case (Node m n nk P c)
  have nk: "key_in n P nk" using Node.hyps by (simp add: key_in_def)
  have ok: "art_ok n P (Node (8 * m) nk c)" using Node.hyps(1,5,6,7) nk by (intro art_okI) auto
  have m: "Suc m \<le> n" "8 * n - 8 \<noteq> 8 * m \<longleftrightarrow> n \<noteq> Suc m" using Node.hyps(1) by auto
  note key = Node.prems(1)
  have in_nk: "key_in (Suc m) (nk div 256 ^ Suc m) nk" using nk by (simp add: key_in_def)
  have step: "art_ceil (Node (8 * m) nk c) k (8 * n - 8) =
      (if n \<noteq> Suc m \<and> nk div 256 ^ Suc m < k div 256 ^ Suc m then None
       else let k' = (if n \<noteq> Suc m \<and> k div 256 ^ Suc m \<noteq> nk div 256 ^ Suc m then 0 else k)
         in cells_ceil (map_cells (\<lambda>s q. art_ceil s q (8 * m - 8)) c) (byte_at (8 * m) k') k')"
    unfolding art_ceil.simps(2) prefix_of_Suc m(2) ..
  have children: "cells_ceil (map_cells (\<lambda>s q. art_ceil s q (8 * m - 8)) c) (byte_at (8 * m) k') k' =
      map_option snd (find (\<lambda>e. k \<le> fst e) (art_entries (Node (8 * m) nk c) P))"
    if "from_start (Suc m) (nk div 256 ^ Suc m) k' \<and> (\<forall>k''. key_in (Suc m) (nk div 256 ^ Suc m) k'' \<longrightarrow> k \<le> k'') \<or>
      k' = k \<and> key_in n P k \<and> key_in n P (k - 1) \<and> k div 256 ^ Suc m = nk div 256 ^ Suc m \<and>
      (k - 1) div 256 ^ Suc m = nk div 256 ^ Suc m \<and> art_get (Node (8 * m) nk c) (k - 1) (8 * n - 8) \<noteq> None" for k'
    using that
  proof (rule art_ceil_children[OF ok, rotated])
    fix b s q
    assume bs: "(b, s) \<in> set (cells_asc c)" and "ceil_key m (child_prefix m nk b) s q"
    with Node.IH[OF node_child(1,2)[OF ok bs]] node_child(4)[OF ok bs]
    show "art_ceil s q (8 * m - 8) = map_option snd (find (\<lambda>e. q \<le> fst e) (art_entries s (child_prefix m nk b)))"
      by blast
  qed
  consider (start) "from_start n P k"
    | (after) "key_in n P k" "key_in n P (k - 1)" "art_get (Node (8 * m) nk c) (k - 1) (8 * n - 8) \<noteq> None"
    using key by (auto simp: ceil_key_def)
  then show ?case
  proof cases
    case start
    have k: "0 \<le> k" "k mod 256 ^ Suc m = 0" using start mod_up[OF m(1)] by (simp_all add: from_start_def)
    have le: "k div 256 ^ Suc m \<le> nk div 256 ^ Suc m"
      using from_start_le[OF start nk] by (simp add: zdiv_mono1)
    have zero: "0 div 256 ^ Suc m \<le> nk div 256 ^ Suc m" using nk by (simp add: key_in_def pos_imp_zdiv_nonneg_iff)
    have before: "k \<le> k''" if "key_in (Suc m) (nk div 256 ^ Suc m) k''" for k''
      using from_start_le[of "Suc m" "nk div 256 ^ Suc m" k k''] k le that by (simp add: from_start_def)
    from le show ?thesis
      unfolding step Let_def using children[of k] children[of 0] k le zero before by (simp add: from_start_def)
  next
    case after
    have prev: "(k - 1) div 256 ^ Suc m = nk div 256 ^ Suc m"
      using after(3) unfolding art_get_node[OF Node.hyps(1) nk after(2), of c] by (auto split: if_splits)
    then have ge: "nk div 256 ^ Suc m \<le> k div 256 ^ Suc m" using zdiv_mono1[of "k - 1" k "256 ^ Suc m"] by simp
    show ?thesis
    proof (cases "k div 256 ^ Suc m = nk div 256 ^ Suc m")
      case True
      then show ?thesis unfolding step Let_def using children[of k] after prev by simp
    next
      case False
      with ge have beyond: "nk div 256 ^ Suc m < k div 256 ^ Suc m" by simp
      then have "n \<noteq> Suc m" using after(1) nk by (auto simp: key_in_def)
      moreover have "\<not> k \<le> fst e" if "e \<in> set (art_entries (Node (8 * m) nk c) P)" for e
        using node_entries_in[OF ok that] beyond div_less[of "fst e" "Suc m" k] by (simp add: key_in_def)
      then have "find (\<lambda>e. k \<le> fst e) (art_entries (Node (8 * m) nk c) P) = None" unfolding find_None_iff by blast
      ultimately show ?thesis unfolding step using beyond by simp
    qed
  qed
qed

section \<open>The neighbours below\<close>

definition from_end :: "nat \<Rightarrow> int \<Rightarrow> int \<Rightarrow> bool" where
  "from_end n P k \<longleftrightarrow> k \<le> INT64_MAX \<and> (k + 1) mod 256 ^ n = 0 \<and> P \<le> k div 256 ^ n"

definition floor_key :: "nat \<Rightarrow> int \<Rightarrow> 'v art \<Rightarrow> int \<Rightarrow> bool" where
  "floor_key n P t k \<longleftrightarrow> from_end n P k \<or>
     key_in n P k \<and> key_in n P (k + 1) \<and> art_get t (k + 1) (8 * n - 8) \<noteq> None"

lemma last_div:
  assumes "(k + 1 :: int) mod 256 ^ m = 0"
  shows "(k + 1) div 256 ^ m = k div 256 ^ m + 1"
proof -
  have "k = 256 ^ m * ((k + 1) div 256 ^ m - 1) + (256 ^ m - 1)"
    using assms div_mult_mod_eq[of "k + 1" "256 ^ m"] by (simp add: algebra_simps)
  from int_div_pos_eq[OF this] show ?thesis by simp
qed

lemma from_end_ge: "from_end n P k \<Longrightarrow> key_in n P k' \<Longrightarrow> k' \<le> k"
proof -
  assume a: "from_end n P k" "key_in n P k'"
  then have "(k + 1) mod 256 ^ n = 0" "k' div 256 ^ n < (k + 1) div 256 ^ n"
    using last_div[of k n] by (simp_all only: from_end_def key_in_def) linarith
  with div_less[of k' n "k + 1"] show ?thesis by simp
qed

lemma from_end_Suc:
  assumes "from_end (Suc m) (nk div 256 ^ Suc m) k" and "b < 256"
  shows "from_end m (child_prefix m nk b) k" and "byte_at (8 * m) k = 255"
proof -
  have k: "k \<le> INT64_MAX" "(k + 1) mod 256 ^ m = 0" "byte_at (8 * m) (k + 1) = 0" "nk div 256 ^ Suc m \<le> k div 256 ^ Suc m"
    using assms by (simp_all only: from_end_def mod_Suc_zero)
  have "int (byte_at (8 * m) k) = ((k + 1) div 256 ^ m - 1) mod 256"
    unfolding byte_at_8 last_div[OF k(2)] by simp
  moreover have zero: "(k + 1) div 256 ^ m mod 256 = 0" using k(3) byte_at_8[of m "k + 1"] by simp
  have pred: "(q - 1) mod 256 = 255" if q: "q mod 256 = 0" for q :: int
  proof -
    obtain j where "q = 256 * j" using q unfolding mod_eq_0_iff_dvd by (rule dvdE)
    then have "q - 1 = 255 + (j - 1) * 256" by simp
    then show ?thesis by (simp only: mod_mult_self1) simp
  qed
  note pred[OF zero]
  ultimately have "int (byte_at (8 * m) k) = 255" by (rule trans)
  then show b: "byte_at (8 * m) k = 255" by simp
  have "child_prefix m nk b \<le> k div 256 ^ m"
    using div_parts[of k m] k(4) assms(2) b unfolding child_prefix_def by linarith
  with k(1,2) show "from_end m (child_prefix m nk b) k" by (simp only: from_end_def)
qed

lemma max_from_end:
  assumes "m \<le> 7" and "entries_ok m P s es"
  shows "from_end m P INT64_MAX"
proof -
  have "(INT64_MAX + 1) mod 256 ^ 7 = (0 :: int)" by (simp add: INT64_MAX_def)
  moreover obtain e where "key_in m P (fst e)" using assms(2) by (cases es) (auto simp: entries_ok_def)
  then have "P \<le> INT64_MAX div 256 ^ m" by (auto simp: key_in_def intro!: zdiv_mono1)
  ultimately show ?thesis using mod_up[OF assms(1)] by (simp add: from_end_def)
qed

lemma floor_child_last:
  assumes child: "entries_ok m (child_prefix m nk b) s es" and "from_end m (child_prefix m nk b) q"
    and IH: "floor_key m (child_prefix m nk b) s q \<Longrightarrow>
      art_floor s q (8 * m - 8) = map_option snd (find (\<lambda>e. fst e \<le> q) (rev es))"
  shows "art_floor s q (8 * m - 8) = Some (snd (hd (rev es)))"
proof -
  have es: "rev es \<noteq> []" "fst (hd (rev es)) \<le> q"
    using child from_end_ge[OF assms(2)] by (auto simp: entries_ok_def hd_rev)
  then have "find (\<lambda>e. fst e \<le> q) (rev es @ []) = Some (hd (rev es))" by (rule find_hd)
  with IH assms(2) show ?thesis by (simp add: floor_key_def)
qed

lemma art_floor_children:
  assumes ok: "art_ok n P (Node (8 * m) nk c)" and n: "n \<le> 8"
    and IH: "\<And>b s q. (b, s) \<in> set (cells_asc c) \<Longrightarrow> floor_key m (child_prefix m nk b) s q \<Longrightarrow>
      art_floor s q (8 * m - 8) = map_option snd (find (\<lambda>e. fst e \<le> q) (rev (art_entries s (child_prefix m nk b))))"
    and key: "from_end (Suc m) (nk div 256 ^ Suc m) k' \<and> (\<forall>k''. key_in (Suc m) (nk div 256 ^ Suc m) k'' \<longrightarrow> k'' \<le> k) \<or>
      k' = k \<and> key_in n P k \<and> key_in n P (k + 1) \<and> k div 256 ^ Suc m = nk div 256 ^ Suc m \<and>
      (k + 1) div 256 ^ Suc m = nk div 256 ^ Suc m \<and> art_get (Node (8 * m) nk c) (k + 1) (8 * n - 8) \<noteq> None"
  shows "cells_floor (map_cells (\<lambda>s q. art_floor s q (8 * m - 8)) c) (byte_at (8 * m) k') k' =
      map_option snd (find (\<lambda>e. fst e \<le> k) (rev (art_entries (Node (8 * m) nk c) at)))"
proof -
  let ?E = "\<lambda>(b, s). rev (art_entries s (child_prefix m nk b))" and ?i = "byte_at (8 * m) k'"
  obtain m: "m < n" and nk: "key_in n P nk" and "cells_ok c" using ok by (elim art_ok_node) auto
  then have rep: "cells_rep c" by (simp add: cells_ok_def)
  note kid = node_child[OF ok]
  have mem: "key_in m (child_prefix m nk b) (fst e)" if "(b, s) \<in> set (cells_asc c)" "e \<in> set (?E (b, s))" for b s e
    using kid(6)[OF that(1)] that(2) by (simp add: entries_ok_def)
  have mem_up: "key_in (Suc m) (nk div 256 ^ Suc m) (fst e)" if "(b, s) \<in> set (cells_asc c)" "e \<in> set (?E (b, s))" for b s e
    using mem[OF that] key_in_parent(1)[OF mem[OF that] kid(1)[OF that(1)]] by (simp add: key_in_def)
  have first: "art_floor s q (8 * m - 8) = Some (snd (hd (?E (b, s))))"
    if "(b, s) \<in> set (cells_asc c)" "from_end m (child_prefix m nk b) q" for b s q
    using floor_child_last[OF kid(6)[OF that(1)] that(2)] IH[OF that(1)] by simp
  have zero: "from_end m (child_prefix m nk b) INT64_MAX" if "(b, s) \<in> set (cells_asc c)" for b s
    using max_from_end[OF _ kid(6)[OF that]] m n by simp
  have hd_mem: "?E (b, s) \<noteq> []" "hd (?E (b, s)) \<in> set (?E (b, s))" if "(b, s) \<in> set (cells_asc c)" for b s
    using kid(6)[OF that] by (auto simp: entries_ok_def hd_rev)
  have find_all: "find (\<lambda>e. fst e \<le> k) (?E (b, s)) = Some (hd (?E (b, s)))"
    if "(b, s) \<in> set (cells_asc c)" "\<forall>e \<in> set (?E (b, s)). fst e \<le> k" for b s
    using find_hd[of "?E (b, s)" "\<lambda>e. fst e \<le> k" "[]"] hd_mem[OF that(1)] that(2) by simp
  consider (start) "from_end (Suc m) (nk div 256 ^ Suc m) k'" "\<forall>k''. key_in (Suc m) (nk div 256 ^ Suc m) k'' \<longrightarrow> k'' \<le> k"
    | (here) "k' = k" "key_in n P k" "key_in n P (k + 1)" "k div 256 ^ Suc m = nk div 256 ^ Suc m"
      "(k + 1) div 256 ^ Suc m = nk div 256 ^ Suc m" "art_get (Node (8 * m) nk c) (k + 1) (8 * n - 8) \<noteq> None"
    using key by blast
  then have "cells_floor (map_cells (\<lambda>s q. art_floor s q (8 * m - 8)) c) ?i k' =
      map_option snd (find (\<lambda>e. fst e \<le> k) (concat (map ?E (rev (cells_asc c)))))"
  proof cases
    case start
    have s: "from_end m (child_prefix m nk b) k'" "?i = 255" if "b < 256" for b
      using from_end_Suc[OF start(1) that] by simp_all
    show ?thesis
    proof (rule cells_floor_find[OF rep byte_at_less])
      show "art_floor u k' (8 * m - 8) = map_option snd (find (\<lambda>e. fst e \<le> k) (?E (?i, u)))"
        if "cells_find c ?i = Some u" for u
      proof -
        have in': "(?i, u) \<in> set (cells_asc c)" using that cells_asc_set[OF rep, of ?i u] by simp
        have "\<forall>e \<in> set (?E (?i, u)). fst e \<le> k" using mem_up[OF in'] start(2) by blast
        from find_all[OF in' this] first[OF in' s(1)[OF byte_at_less]] show ?thesis by simp
      qed
      show "answers (\<lambda>e. fst e \<le> k) ?E (\<lambda>p q. art_floor (snd p) q (8 * m - 8))
          (if cells_find c ?i = None then {k', INT64_MAX} else {INT64_MAX}) (b, u)" if "(b, u) \<in> set (cells_asc c)" for b u
        using hd_mem[OF that] mem_up[OF that] start(2) first[OF that s(1)[OF kid(1)[OF that]]] first[OF that zero[OF that]]
        by (auto simp: answers_def)
    qed (use kid(1) s(2)[of 0] in fastforce)
  next
    case here
    have rank: "fst e div 256 ^ m = child_prefix m nk b" if "(b, u) \<in> set (cells_asc c)" "e \<in> set (?E (b, u))" for b u e
      using mem[OF that] by (simp add: key_in_def)
    have k_rank: "k div 256 ^ m = child_prefix m nk ?i" using div_parts[of k m] here(1,4) by (simp add: child_prefix_def)
    have below: "fst e < k" if "(b, u) \<in> set (cells_asc c)" "e \<in> set (?E (b, u))" "b < ?i" for b u e
      using div_less[of "fst e" m k] rank[OF that(1,2)] k_rank that(3) by (simp add: child_prefix_def)
    have above: "k < fst e" if "(b, u) \<in> set (cells_asc c)" "e \<in> set (?E (b, u))" "?i < b" for b u e
      using div_less[of k m "fst e"] rank[OF that(1,2)] k_rank that(3) by (simp add: child_prefix_def)
    have in_i: "key_in m (child_prefix m nk ?i) k" using key_in_child[OF here(2,4)] here(1) by simp
    have aligned: "from_end m (child_prefix m nk b) k" if "(k + 1) mod 256 ^ m = 0" "b \<le> ?i" for b
      using that k_rank here(2) by (simp add: from_end_def key_in_def child_prefix_def)
    have inside: "cells_find c ?i \<noteq> None \<and> (\<forall>u. cells_find c ?i = Some u \<longrightarrow> floor_key m (child_prefix m nk ?i) u k)"
      if "(k + 1) mod 256 ^ m \<noteq> 0"
    proof -
      have same: "byte_at (8 * m) (k + 1) = ?i"
        using prev_same[of "k + 1" m] that here(1,4,5) div_parts[of k m] div_parts[of "k + 1" m] by simp
      have "key_in m (child_prefix m nk ?i) (k + 1)" using key_in_child[OF here(3,5)] same by simp
      with here(6) in_i same here(5) show ?thesis
        unfolding art_get_node[OF m nk here(3), of c] by (auto simp: floor_key_def split: option.splits)
    qed
    show ?thesis
    proof (rule cells_floor_find[OF rep byte_at_less])
      show "\<forall>e \<in> set (?E (b, u)). \<not> fst e \<le> k" if "(b, u) \<in> set (cells_asc c)" "?i < b" for b u
        using above[OF that(1) _ that(2)] by (meson not_le)
      show "art_floor u k' (8 * m - 8) = map_option snd (find (\<lambda>e. fst e \<le> k) (?E (?i, u)))"
        if "cells_find c ?i = Some u" for u
      proof -
        have in': "(?i, u) \<in> set (cells_asc c)" using that cells_asc_set[OF rep, of ?i u] by simp
        have "floor_key m (child_prefix m nk ?i) u k"
          using inside that aligned[of ?i] by (cases "(k + 1) mod 256 ^ m = 0") (auto simp: floor_key_def)
        from IH[OF in' this] show ?thesis by (simp add: here(1))
      qed
      show "answers (\<lambda>e. fst e \<le> k) ?E (\<lambda>p q. art_floor (snd p) q (8 * m - 8))
          (if cells_find c ?i = None then {k', INT64_MAX} else {INT64_MAX}) (b, u)" if "(b, u) \<in> set (cells_asc c)" "b < ?i" for b u
      proof -
        have "art_floor u k (8 * m - 8) = Some (snd (hd (?E (b, u))))" if "cells_find c ?i = None"
          using inside that first[OF \<open>(b, u) \<in> set (cells_asc c)\<close> aligned] \<open>b < ?i\<close> by (cases "(k + 1) mod 256 ^ m = 0") auto
        with hd_mem(1)[OF that(1)] below[OF that(1) hd_mem(2)[OF that(1)] that(2)] first[OF that(1) zero[OF that(1)]] here(1)
        show ?thesis by (auto simp: answers_def)
      qed
    qed
  qed
  then show ?thesis by (simp add: node_entries[OF ok] rev_concat rev_map comp_def case_prod_unfold)
qed


theorem art_floor_ok:
  assumes "art_ok n P t" and "n \<le> 8" and "floor_key n P t k" and "n = 0 \<Longrightarrow> key_in 0 P P"
  shows "art_floor t k (8 * n - 8) = map_option snd (find (\<lambda>e. fst e \<le> k) (rev (art_entries t P)))"
  using assms
proof (induction arbitrary: k)
  case (Val P v)
  then show ?case by (auto simp: floor_key_def from_end_def key_in_def)
next
  case (Node m n nk P c)
  have nk: "key_in n P nk" using Node.hyps by (simp add: key_in_def)
  have ok: "art_ok n P (Node (8 * m) nk c)" using Node.hyps(1,5,6,7) nk by (intro art_okI) auto
  have m: "Suc m \<le> n" "8 * n - 8 \<noteq> 8 * m \<longleftrightarrow> n \<noteq> Suc m" using Node.hyps(1) by auto
  note key = Node.prems(2)
  have in_nk: "key_in (Suc m) (nk div 256 ^ Suc m) nk" using nk by (simp add: key_in_def)
  have step: "art_floor (Node (8 * m) nk c) k (8 * n - 8) =
      (if n \<noteq> Suc m \<and> k div 256 ^ Suc m < nk div 256 ^ Suc m then None
       else let k' = (if n \<noteq> Suc m \<and> k div 256 ^ Suc m \<noteq> nk div 256 ^ Suc m then INT64_MAX else k)
         in cells_floor (map_cells (\<lambda>s q. art_floor s q (8 * m - 8)) c) (byte_at (8 * m) k') k')"
    unfolding art_floor.simps(2) prefix_of_Suc m(2) ..
  have children: "cells_floor (map_cells (\<lambda>s q. art_floor s q (8 * m - 8)) c) (byte_at (8 * m) k') k' =
      map_option snd (find (\<lambda>e. fst e \<le> k) (rev (art_entries (Node (8 * m) nk c) P)))"
    if "from_end (Suc m) (nk div 256 ^ Suc m) k' \<and> (\<forall>k''. key_in (Suc m) (nk div 256 ^ Suc m) k'' \<longrightarrow> k'' \<le> k) \<or>
      k' = k \<and> key_in n P k \<and> key_in n P (k + 1) \<and> k div 256 ^ Suc m = nk div 256 ^ Suc m \<and>
      (k + 1) div 256 ^ Suc m = nk div 256 ^ Suc m \<and> art_get (Node (8 * m) nk c) (k + 1) (8 * n - 8) \<noteq> None" for k'
    using that
  proof (rule art_floor_children[OF ok Node.prems(1), rotated])
    fix b s q
    assume bs: "(b, s) \<in> set (cells_asc c)" and "floor_key m (child_prefix m nk b) s q"
    with Node.IH[OF node_child(1,2)[OF ok bs]] node_child(4)[OF ok bs] Node.hyps(1) Node.prems(1)
    show "art_floor s q (8 * m - 8) = map_option snd (find (\<lambda>e. fst e \<le> q) (rev (art_entries s (child_prefix m nk b))))"
      by auto
  qed
  consider (start) "from_end n P k"
    | (after) "key_in n P k" "key_in n P (k + 1)" "art_get (Node (8 * m) nk c) (k + 1) (8 * n - 8) \<noteq> None"
    using key by (auto simp: floor_key_def)
  then show ?case
  proof cases
    case start
    have k: "k \<le> INT64_MAX" "(k + 1) mod 256 ^ Suc m = 0" using start mod_up[OF m(1)] by (simp_all add: from_end_def)
    have le: "nk div 256 ^ Suc m \<le> k div 256 ^ Suc m"
      using from_end_ge[OF start nk] by (simp add: zdiv_mono1)
    have max: "from_end (Suc m) (nk div 256 ^ Suc m) INT64_MAX" if "n \<noteq> Suc m"
    proof -
      have "Suc m \<le> 7" using that m(1) Node.prems(1) by simp
      then have "(INT64_MAX + 1) mod 256 ^ Suc m = 0" by (rule mod_up) (simp add: INT64_MAX_def)
      moreover have "nk div 256 ^ Suc m \<le> INT64_MAX div 256 ^ Suc m" using Node.hyps(3) by (simp add: zdiv_mono1)
      ultimately show ?thesis by (simp only: from_end_def order_refl simp_thms)
    qed
    have before: "k'' \<le> k" if "key_in (Suc m) (nk div 256 ^ Suc m) k''" for k''
      using from_end_ge[of "Suc m" "nk div 256 ^ Suc m" k k''] k le that by (simp add: from_end_def)
    from le show ?thesis
      unfolding step Let_def using children[of k] children[of INT64_MAX] k le max before by (simp add: from_end_def)
  next
    case after
    have prev: "(k + 1) div 256 ^ Suc m = nk div 256 ^ Suc m"
      using after(3) unfolding art_get_node[OF Node.hyps(1) nk after(2), of c] by (auto split: if_splits)
    then have ge: "k div 256 ^ Suc m \<le> nk div 256 ^ Suc m" using zdiv_mono1[of k "k + 1" "256 ^ Suc m"] by simp
    show ?thesis
    proof (cases "k div 256 ^ Suc m = nk div 256 ^ Suc m")
      case True
      then show ?thesis unfolding step Let_def using children[of k] after prev by simp
    next
      case False
      with ge have beyond: "k div 256 ^ Suc m < nk div 256 ^ Suc m" by simp
      then have "n \<noteq> Suc m" using after(1) nk by (auto simp: key_in_def)
      moreover have "\<not> fst e \<le> k" if "e \<in> set (art_entries (Node (8 * m) nk c) P)" for e
        using node_entries_in[OF ok that] beyond div_less[of k "Suc m" "fst e"] by (simp add: key_in_def)
      then have "find (\<lambda>e. fst e \<le> k) (rev (art_entries (Node (8 * m) nk c) P)) = None" unfolding find_None_iff set_rev by blast
      ultimately show ?thesis unfolding step using beyond by simp
    qed
  qed
qed


end
