(* ===== verification/Price_Map.thy ===== *)
theory Price_Map
  imports Prelude
begin

text \<open>
  What the direct order book asks of its two price indexes: a map from prices that can be read in
  the order of the prices, knows its size, and finds the neighbours of a price it holds. The
  contents of a map are \<open>entries\<close>, a sorted association list; the lemmas below say what each
  operation does to that list.
\<close>

locale price_map =
  fixes ok :: "'m \<Rightarrow> bool"
    and key_ok :: "int \<Rightarrow> bool"
    and entries :: "'m \<Rightarrow> (int \<times> 'v) list"
    and empty :: "'m"
    and get :: "int \<Rightarrow> 'm \<Rightarrow> 'v option"
    and put :: "int \<Rightarrow> 'v \<Rightarrow> 'm \<Rightarrow> 'm"
    and remove :: "int \<Rightarrow> 'm \<Rightarrow> 'm"
    and higher :: "int \<Rightarrow> 'm \<Rightarrow> 'v option"
    and lower :: "int \<Rightarrow> 'm \<Rightarrow> 'v option"
    and each :: "int \<Rightarrow> 'm \<Rightarrow> (int \<times> 'v) list"
    and each_desc :: "int \<Rightarrow> 'm \<Rightarrow> (int \<times> 'v) list"
    and count :: "int \<Rightarrow> 'm \<Rightarrow> int"
  assumes empty_law: "ok empty" "entries empty = []"
    and sorted_law: "ok m \<Longrightarrow> sorted_wrt (<) (map fst (entries m))"
    and keys_law: "ok m \<Longrightarrow> e \<in> set (entries m) \<Longrightarrow> key_ok (fst e)"
    and get_law: "ok m \<Longrightarrow> key_ok k \<Longrightarrow> get k m = map_of (entries m) k"
    and put_law: "ok m \<Longrightarrow> key_ok k \<Longrightarrow> ok (put k v m)"
      "ok m \<Longrightarrow> key_ok k \<Longrightarrow> key_ok k' \<Longrightarrow> get k' (put k v m) = (if k' = k then Some v else get k' m)"
    and remove_law: "ok m \<Longrightarrow> key_ok k \<Longrightarrow> ok (remove k m)"
      "ok m \<Longrightarrow> key_ok k \<Longrightarrow> key_ok k' \<Longrightarrow> get k' (remove k m) = (if k' = k then None else get k' m)"
    and higher_law: "ok m \<Longrightarrow> key_ok k \<Longrightarrow> get k m \<noteq> None \<Longrightarrow>
      higher k m = map_option snd (find (\<lambda>e. k < fst e) (entries m))"
    and lower_law: "ok m \<Longrightarrow> key_ok k \<Longrightarrow> get k m \<noteq> None \<Longrightarrow>
      lower k m = map_option snd (find (\<lambda>e. fst e < k) (rev (entries m)))"
    and each_law: "ok m \<Longrightarrow> 0 < limit \<Longrightarrow> each limit m = take (nat limit) (entries m)"
    and each_desc_law: "ok m \<Longrightarrow> 0 < limit \<Longrightarrow> each_desc limit m = take (nat limit) (rev (entries m))"
    and count_law: "ok m \<Longrightarrow> 0 < limit \<Longrightarrow> count limit m = min (int (length (entries m))) limit"
begin

lemma entries_find: "ok m \<Longrightarrow> map_of (entries m) k = (if key_ok k then get k m else None)"
  using keys_law by (force simp: get_law map_of_eq_None_iff)

text \<open>Two sorted lists that read alike are equal.\<close>

lemma entries_eqI:
  "ok m \<Longrightarrow> sorted_wrt (<) (map fst es) \<Longrightarrow> (\<And>k. map_of (entries m) k = map_of es k) \<Longrightarrow> entries m = es"
  using sorted_law by (intro sorted_assoc_unique) (auto simp: fun_eq_iff)

lemma entries_put:
  assumes m: "ok m" and k: "key_ok k"
  shows "entries (put k v m) = smap_put (<) k v (entries m)"
proof (rule entries_eqI[OF put_law(1)[OF m k]])
  show "sorted_wrt (<) (map fst (smap_put (<) k v (entries m)))"
    using sorted_law[OF m] by (intro smap_sorted_put) auto
  show "map_of (entries (put k v m)) k' = map_of (smap_put (<) k v (entries m)) k'" for k'
    using sorted_law[OF m] k entries_find[OF m] entries_find[OF put_law(1)[OF m k]] put_law(2)[OF m k]
    by (simp add: map_of_smap_put)
qed

lemma entries_remove:
  assumes m: "ok m" and k: "key_ok k"
  shows "entries (remove k m) = smap_erase k (entries m)"
proof (rule entries_eqI[OF remove_law(1)[OF m k]])
  show "sorted_wrt (<) (map fst (smap_erase k (entries m)))" by (rule smap_sorted_erase[OF sorted_law[OF m]])
  show "map_of (entries (remove k m)) k' = map_of (smap_erase k (entries m)) k'" for k'
    using k entries_find[OF m] entries_find[OF remove_law(1)[OF m k]] remove_law(2)[OF m k]
    by (simp add: map_of_smap_erase)
qed

text \<open>Iterating with a limit that is not reached, and only then, visits everything.\<close>

lemma each_all: "ok m \<Longrightarrow> count limit m < limit \<Longrightarrow> 0 < limit \<Longrightarrow> each limit m = entries m"
  by (simp add: each_law count_law)

lemma each_desc_rev: "ok m \<Longrightarrow> count limit m < limit \<Longrightarrow> 0 < limit \<Longrightarrow> each_desc limit m = rev (each limit m)"
  by (simp add: each_law each_desc_law count_law)

text \<open>The neighbours of the key that was put last are those it has in the sorted list.\<close>

lemma neighbours_after_put:
  assumes "ok m" and "key_ok k"
  shows "higher k (put k v m) = map_option snd (find (\<lambda>e. k < fst e) (entries m))"
    and "lower k (put k v m) = map_option snd (find (\<lambda>e. fst e < k) (rev (entries m)))"
proof -
  have up: "find (\<lambda>e. k < fst e) (smap_put (<) k v es) = find (\<lambda>e. k < fst e) es"
    if "sorted_wrt (<) (map fst es)" for es
    using that by (induction "(<) :: int \<Rightarrow> int \<Rightarrow> bool" k v es rule: smap_put.induct) auto
  have down: "find (\<lambda>e. fst e < k) (rev (smap_put (<) k v es)) = find (\<lambda>e. fst e < k) (rev es)"
    if "sorted_wrt (<) (map fst es)" for es
    using that
  proof (induction "(<) :: int \<Rightarrow> int \<Rightarrow> bool" k v es rule: smap_put.induct)
    case (2 k v k' w m)
    have app: "find P (xs @ ys) = (case find P xs of None \<Rightarrow> find P ys | r \<Rightarrow> r)" for P :: "int \<times> 'v \<Rightarrow> bool" and xs ys
      by (induction xs) auto
    from 2 show ?case by (auto simp: app split: option.split)
  qed simp
  have "get k (put k v m) \<noteq> None" using put_law(2)[OF assms assms(2)] by simp
  note near = higher_law[OF put_law(1)[OF assms] assms(2) this] lower_law[OF put_law(1)[OF assms] assms(2) this]
  from near show "higher k (put k v m) = map_option snd (find (\<lambda>e. k < fst e) (entries m))"
    "lower k (put k v m) = map_option snd (find (\<lambda>e. fst e < k) (rev (entries m)))"
    using sorted_law[OF assms(1)] by (simp_all add: entries_put[OF assms] up down)
qed

end

end
