(* ===== verification/Art_Map.thy ===== *)
theory Art_Map
  imports Art_Near Price_Map
begin

text \<open>
  Iteration, size and neighbours of the radix tree, and \<open>LongAdaptiveRadixTreeMap\<close> as a sorted
  map. \<open>GetHigherValue\<close> and \<open>GetLowerValue\<close> find the neighbours of a key of the map, as the order
  book uses them; around a key that is not in the map, the two large node classes can miss.
\<close>

section \<open>Iteration\<close>

lemma each_child_take:
  assumes "\<forall>(b, s) \<in> set cs. \<forall>left > 0. F b s left = take (nat left) (E b s)"
  shows "each_child (map (\<lambda>(b, s). F b s) cs) left = take (nat left) (concat (map (\<lambda>(b, s). E b s) cs))"
  using assms
proof (induction cs arbitrary: left)
  case (Cons p cs)
  obtain b s where p: "p = (b, s)" by (cases p)
  show ?case
  proof (cases "left > 0")
    case True
    have "nat (left - int (min (length (E b s)) (nat left))) = nat left - length (E b s)"
      using True by (auto simp: min_def)
    with Cons True show ?thesis by (simp add: p Let_def)
  qed (simp add: p)
qed simp

lemma art_for_each_node:
  "art_for_each (Node l nk c) at limit =
     each_child (map (\<lambda>(b, s). art_for_each s (key_at nk b)) (cells_asc c)) limit"
  "art_for_each_desc (Node l nk c) at limit =
     each_child (map (\<lambda>(b, s). art_for_each_desc s (key_at nk b)) (rev (cells_asc c))) limit"
  by (simp_all add: cells_asc_map_cells rev_map comp_def case_prod_unfold)

lemma art_for_each_take:
  "0 < limit \<Longrightarrow> art_for_each t at limit = take (nat limit) (art_entries t at)"
proof (induction t at arbitrary: limit rule: art_entries.induct)
  case (2 l nk c at)
  have "\<forall>(b, s) \<in> set (cells_asc c). \<forall>left > 0.
      art_for_each s (key_at nk b) left = take (nat left) (art_entries s (key_at nk b))"
    using "2.IH" cells_asc_slot by fastforce
  from each_child_take[OF this] show ?case by (simp only: art_for_each_node art_entries_node)
qed simp

lemma art_for_each_desc_take:
  "0 < limit \<Longrightarrow> art_for_each_desc t at limit = take (nat limit) (rev (art_entries t at))"
proof (induction t at arbitrary: limit rule: art_entries.induct)
  case (2 l nk c at)
  have "\<forall>(b, s) \<in> set (rev (cells_asc c)). \<forall>left > 0.
      art_for_each_desc s (key_at nk b) left = take (nat left) (rev (art_entries s (key_at nk b)))"
    using "2.IH" cells_asc_slot by fastforce
  from each_child_take[OF this]
  show ?case by (simp add: art_for_each_node(2) art_entries_node rev_concat rev_map comp_def case_prod_unfold
      del: art_for_each_desc.simps)
qed simp

section \<open>Size\<close>

text \<open>A count up to a limit: exact below it, at least the limit otherwise.\<close>

definition counts :: "int \<Rightarrow> int \<Rightarrow> int \<Rightarrow> bool" where
  "counts n limit r \<longleftrightarrow> (if n < limit then r = n else limit \<le> r)"

lemma size_loop_counts:
  assumes "\<forall>(b, s) \<in> set cs. \<forall>left > 0. counts (int (length (E b s))) left (F b s left)"
  shows "counts (int (length (concat (map (\<lambda>(b, s). E b s) cs)))) limit
    (limit - size_loop (map (\<lambda>(b, s). F b s) cs) limit)"
proof -
  have "(let all = int (length (concat (map (\<lambda>(b, s). E b s) cs))); r = size_loop (map (\<lambda>(b, s). F b s) cs) left
      in if all < left then r = left - all else r \<le> 0)" for left
    using assms
  proof (induction cs arbitrary: left)
    case (Cons p cs)
    obtain b s where p: "p = (b, s)" by (cases p)
    have rest: "(let all = int (length (concat (map (\<lambda>(b, s). E b s) cs)));
        r = size_loop (map (\<lambda>(b, s). F b s) cs) (left - F b s left)
      in if all < left - F b s left then r = left - F b s left - all else r \<le> 0)"
      using Cons by simp
    have first: "counts (int (length (E b s))) left (F b s left)" if "left > 0" using Cons.prems that p by auto
    show ?case
      using rest first unfolding counts_def Let_def p
      by (cases "left > 0"; cases "int (length (E b s)) < left") (auto split: if_splits)
  qed simp
  from this[of limit] show ?thesis by (auto simp: counts_def Let_def split: if_splits)
qed

lemma art_size_node:
  "art_size (Node l nk c) limit =
     (if l = 0 then int (cells_count c) else limit - size_loop (map (\<lambda>(b, s). art_size s) (cells_asc c)) limit)"
  by (simp add: cells_asc_map_cells comp_def case_prod_unfold)

lemma art_size_counts:
  assumes "art_ok n P t" and "0 < limit"
  shows "counts (int (length (art_entries t at))) limit (art_size t limit)"
  using assms
proof (induction arbitrary: at limit)
  case (Val P v)
  then show ?case by (auto simp: counts_def)
next
  case (Node m n nk P c)
  have rep: "cells_rep c" using Node.hyps(5) by (simp add: cells_ok_def)
  show ?case
  proof (cases "m = 0")
    case True
    have "length (art_entries s (key_at nk b)) = 1" if "(b, s) \<in> set (cells_asc c)" for b s
    proof -
      have "b < 256" "cells_find c b = Some s" using that cells_asc_set[OF rep] by blast+
      from Node.hyps(7)[OF this] True show ?thesis by (cases s) (auto elim: art_ok_NodeE)
    qed
    then have ones: "map (\<lambda>p. length (art_entries (snd p) (key_at nk (fst p)))) (cells_asc c) =
        map (\<lambda>p. 1) (cells_asc c)" by (intro map_cong) auto
    then have "length (art_entries (Node (8 * m) nk c) at) = cells_count c"
      using cells_count_length[OF rep]
      by (simp add: art_entries_node length_concat comp_def case_prod_unfold ones sum_list_triv del: map_eq_conv)
    with True show ?thesis by (simp add: counts_def)
  next
    case False
    have "\<forall>(b, s) \<in> set (cells_asc c). \<forall>left > 0.
        counts (int (length (art_entries s (key_at nk b)))) left (art_size s left)"
      using Node.IH cells_asc_set[OF rep] by blast
    from size_loop_counts[OF this, of limit] False show ?thesis by (simp add: art_size_node art_entries_node del: art_size.simps)
  qed
qed

section \<open>The map as a sorted map\<close>

text \<open>A map holds keys that are not negative; its contents are \<open>art_map_entries\<close>.\<close>

definition art_map_ok :: "'v art_map \<Rightarrow> bool" where
  "art_map_ok m \<longleftrightarrow> (case m of None \<Rightarrow> True | Some root \<Rightarrow> art_ok 8 0 root)"

definition art_key :: "int \<Rightarrow> bool" where
  "art_key k \<longleftrightarrow> 0 \<le> k \<and> k \<le> INT64_MAX"

lemma art_key_in: "art_key k \<longleftrightarrow> key_in 8 0 k"
  by (auto simp: art_key_def key_in_def INT64_MAX_def)

lemma root_level: "(56 :: nat) = 8 * 8 - 8"
  by simp

lemma art_map_entries_ok: "art_map_ok (Some t) \<Longrightarrow> entries_ok 8 0 t (art_map_entries (Some t))"
  unfolding art_map_ok_def art_map_entries_def option.case by (rule art_entries_ok) simp_all

lemma art_map_entries_law:
  assumes "art_map_ok m"
  shows "sorted_wrt (<) (map fst (art_map_entries m))" and "e \<in> set (art_map_entries m) \<Longrightarrow> art_key (fst e)"
    and "art_key k \<Longrightarrow> art_map_get k m = map_of (art_map_entries m) k"
  using assms art_map_entries_ok
  by (cases m; force simp: entries_ok_def art_key_in art_map_get_def art_map_entries_def)+

lemma art_map_put_law:
  assumes "art_map_ok m" and "art_key k"
  shows "art_map_ok (art_map_put k v m)"
    and "art_key k' \<Longrightarrow> art_map_get k' (art_map_put k v m) = (if k' = k then Some v else art_map_get k' m)"
proof -
  have k: "key_in 8 0 k" using assms(2) by (simp add: art_key_in)
  have "art_map_ok (art_map_put k v m) \<and> (art_key k' \<longrightarrow>
      art_map_get k' (art_map_put k v m) = (if k' = k then Some v else art_map_get k' m))" for k'
  proof (cases m)
    case None
    with first_key_node_ok[OF _ k, where v = v] show ?thesis
      by (auto simp: art_map_ok_def art_map_put_def art_map_get_def art_key_in)
  next
    case (Some t)
    with assms(1) have "art_ok 8 0 t" by (simp add: art_map_ok_def)
    from art_put_ok[OF this k, of v] Some show ?thesis
      by (simp add: art_map_ok_def art_map_put_def art_map_get_def art_key_in)
  qed
  then show "art_map_ok (art_map_put k v m)"
    "art_key k' \<Longrightarrow> art_map_get k' (art_map_put k v m) = (if k' = k then Some v else art_map_get k' m)" by blast+
qed

lemma art_map_remove_law:
  assumes "art_map_ok m" and "art_key k"
  shows "art_map_ok (art_map_remove k m)"
    and "art_key k' \<Longrightarrow> art_map_get k' (art_map_remove k m) = (if k' = k then None else art_map_get k' m)"
proof -
  have k: "key_in 8 0 k" using assms(2) by (simp add: art_key_in)
  have "art_map_ok (art_map_remove k m) \<and> (art_key k' \<longrightarrow>
      art_map_get k' (art_map_remove k m) = (if k' = k then None else art_map_get k' m))" for k'
  proof (cases m)
    case (Some t)
    with assms(1) have "art_ok 8 0 t" by (simp add: art_map_ok_def)
    from art_remove_ok[OF this k] Some show ?thesis
      by (auto simp: art_map_ok_def art_map_remove_def art_map_get_def art_key_in removed_ok_def split: option.splits)
  qed (simp_all add: art_map_ok_def art_map_remove_def art_map_get_def)
  then show "art_map_ok (art_map_remove k m)"
    "art_key k' \<Longrightarrow> art_map_get k' (art_map_remove k m) = (if k' = k then None else art_map_get k' m)" by blast+
qed

lemma art_map_higher_law:
  assumes "art_map_ok m" and "art_key k" and "art_map_get k m \<noteq> None"
  shows "art_map_higher k m = map_option snd (find (\<lambda>e. k < fst e) (art_map_entries m))"
proof (cases m)
  case (Some t)
  then have ok: "art_ok 8 0 t" and get: "art_get t k 56 \<noteq> None"
    using assms by (simp_all add: art_map_ok_def art_map_get_def)
  show ?thesis
  proof (cases "k = INT64_MAX")
    case True
    then have "\<not> k < fst e" if "e \<in> set (art_map_entries m)" for e
      using art_map_entries_law(2)[OF assms(1) that] by (simp add: art_key_def)
    then have "find (\<lambda>e. k < fst e) (art_map_entries m) = None" unfolding find_None_iff by blast
    with True Some show ?thesis by (simp add: art_map_higher_def)
  next
    case False
    with assms(2) have keys: "key_in 8 0 k" "key_in 8 0 (k + 1)" by (simp_all add: art_key_in[symmetric] art_key_def)
    with get have "ceil_key 8 0 t (k + 1)" by (simp add: ceil_key_def)
    from art_ceil_ok[OF ok this] have "art_ceil t (k + 1) 56 = map_option snd (find (\<lambda>e. k + 1 \<le> fst e) (art_entries t 0))"
      by simp
    moreover have "(\<lambda>e. k + 1 \<le> fst e) = (\<lambda>e :: int \<times> 'a. k < fst e)" by auto
    ultimately show ?thesis using Some False by (simp add: art_map_higher_def art_map_entries_def)
  qed
qed (simp add: art_map_higher_def art_map_entries_def)

lemma art_map_lower_law:
  assumes "art_map_ok m" and "art_key k" and "art_map_get k m \<noteq> None"
  shows "art_map_lower k m = map_option snd (find (\<lambda>e. fst e < k) (rev (art_map_entries m)))"
proof (cases m)
  case (Some t)
  then have ok: "art_ok 8 0 t" and get: "art_get t k 56 \<noteq> None"
    using assms by (simp_all add: art_map_ok_def art_map_get_def)
  show ?thesis
  proof (cases "k = 0")
    case True
    then have "\<not> fst e < k" if "e \<in> set (art_map_entries m)" for e
      using art_map_entries_law(2)[OF assms(1) that] by (simp add: art_key_def)
    then have "find (\<lambda>e. fst e < k) (rev (art_map_entries m)) = None" unfolding find_None_iff set_rev by blast
    with True Some show ?thesis by (simp add: art_map_lower_def)
  next
    case False
    with assms(2) have keys: "key_in 8 0 (k - 1)" "key_in 8 0 (k - 1 + 1)" by (simp_all add: art_key_in[symmetric] art_key_def)
    with get have "floor_key 8 0 t (k - 1)" by (simp add: floor_key_def)
    from art_floor_ok[OF ok _ this] have "art_floor t (k - 1) 56 = map_option snd (find (\<lambda>e. fst e \<le> k - 1) (rev (art_entries t 0)))"
      by simp
    moreover have "(\<lambda>e. fst e \<le> k - 1) = (\<lambda>e :: int \<times> 'a. fst e < k)" by auto
    ultimately show ?thesis using Some False by (simp add: art_map_lower_def art_map_entries_def)
  qed
qed (simp add: art_map_lower_def art_map_entries_def)

interpretation art: price_map art_map_ok art_key art_map_entries None art_map_get art_map_put art_map_remove
  art_map_higher art_map_lower art_map_for_each art_map_for_each_desc art_map_size
proof unfold_locales
  show "art_map_ok None" "art_map_entries None = []" by (simp_all add: art_map_ok_def art_map_entries_def)
  show "art_map_for_each limit m = take (nat limit) (art_map_entries m)" if "0 < limit" for limit and m :: "'a art_map"
    using that by (cases m) (simp_all add: art_map_for_each_def art_map_entries_def art_for_each_take)
  show "art_map_for_each_desc limit m = take (nat limit) (rev (art_map_entries m))" if "0 < limit" for limit and m :: "'a art_map"
    using that by (cases m) (simp_all add: art_map_for_each_desc_def art_map_entries_def art_for_each_desc_take)
  show "art_map_size limit m = min (int (length (art_map_entries m))) limit"
    if "art_map_ok m" "0 < limit" for limit and m :: "'a art_map"
  proof (cases m)
    case (Some t)
    with that art_size_counts[of 8 0 t limit 0] show ?thesis
      by (auto simp: art_map_size_def art_map_entries_def art_map_ok_def counts_def split: if_splits)
  qed (use that in \<open>simp add: art_map_size_def art_map_entries_def\<close>)
qed (fact art_map_entries_law art_map_put_law art_map_remove_law art_map_higher_law art_map_lower_law)+

declare power_Suc [simp]

section \<open>Sequences of operations\<close>

datatype 'v map_op = MapPut int 'v | MapRemove int

fun map_op_key :: "'v map_op \<Rightarrow> int" where
  "map_op_key (MapPut k v) = k"
| "map_op_key (MapRemove k) = k"

fun art_map_apply :: "'v map_op \<Rightarrow> 'v art_map \<Rightarrow> 'v art_map" where
  "art_map_apply (MapPut k v) m = art_map_put k v m"
| "art_map_apply (MapRemove k) m = art_map_remove k m"

fun sorted_apply :: "'v map_op \<Rightarrow> (int \<times> 'v) list \<Rightarrow> (int \<times> 'v) list" where
  "sorted_apply (MapPut k v) es = smap_put (<) k v es"
| "sorted_apply (MapRemove k) es = smap_erase k es"

lemma art_map_run:
  assumes "\<forall>x \<in> set xs. art_key (map_op_key x)" and "art_map_ok m"
  shows "art_map_ok (fold art_map_apply xs m) \<and>
    art_map_entries (fold art_map_apply xs m) = fold sorted_apply xs (art_map_entries m)"
  using assms
proof (induction xs arbitrary: m)
  case (Cons x xs)
  have "art_map_ok (art_map_apply x m) \<and> art_map_entries (art_map_apply x m) = sorted_apply x (art_map_entries m)"
    using Cons.prems by (cases x) (simp_all add: art.put_law art.remove_law art.entries_put art.entries_remove)
  with Cons show ?case by simp
qed simp

text \<open>C30: After any sequence of Put and Remove on non-negative keys, from the empty map on, the radix
  tree satisfies its invariant (node classes of the right sizes, sorted sub-keys, a consistent index
  and free mask, prefixes of the right level), its entries are those of a plain sorted association
  list subjected to the same operations, and Get returns what that list holds for any key.\<close>

theorem art_map_refines_sorted_map:
  assumes "\<forall>x \<in> set xs. art_key (map_op_key x)"
  shows "art_map_ok (fold art_map_apply xs None) \<and>
    art_map_entries (fold art_map_apply xs None) = fold sorted_apply xs [] \<and>
    (art_key k \<longrightarrow> art_map_get k (fold art_map_apply xs None) = map_of (fold sorted_apply xs []) k)"
proof -
  have run: "art_map_ok (fold art_map_apply xs None)" "art_map_entries (fold art_map_apply xs None) = fold sorted_apply xs []"
    using art_map_run[OF assms art.empty_law(1)] by (simp_all add: art.empty_law(2))
  from run art.get_law[OF run(1), of k] show ?thesis by simp
qed

lemma art_map_refines_sorted_map_witness:
  "art_map_get 70000 (fold art_map_apply
     [MapPut 5 ''a'', MapPut 70000 ''b'', MapPut 6 ''c'', MapRemove 5, MapPut 70001 ''d'', MapRemove 70001] None) = Some ''b''"
proof -
  let ?xs = "[MapPut 5 ''a'', MapPut 70000 ''b'', MapPut 6 ''c'', MapRemove 5, MapPut 70001 ''d'', MapRemove 70001]"
  have "\<forall>x \<in> set ?xs. art_key (map_op_key x)" "art_key 70000" by (simp_all add: art_key_def INT64_MAX_def)
  with art_map_refines_sorted_map[of ?xs 70000] show ?thesis by (simp add: smap_erase_def)
qed

text \<open>
  After any sequence of Put and Remove on non-negative keys, ForEach and ForEachDesc visit the
  first entries in ascending or descending order of the keys up to the limit, Size is the number
  of entries up to the limit, and GetHigherValue and GetLowerValue of a key that is in the map
  return the value of the next greater and of the next smaller key, or null when there is none.\<close>

lemma art_map_ordered_reads:
  assumes "\<forall>x \<in> set xs. art_key (map_op_key x)" and "0 < limit"
  defines "m \<equiv> fold art_map_apply xs None" and "es \<equiv> fold sorted_apply xs []"
  shows "sorted_wrt (<) (map fst es) \<and>
    art_map_for_each limit m = take (nat limit) es \<and> art_map_for_each_desc limit m = take (nat limit) (rev es) \<and>
    art_map_size limit m = min (int (length es)) limit \<and>
    (\<forall>k \<in> fst ` set es.
       art_map_higher k m = map_option snd (find (\<lambda>e. k < fst e) es) \<and>
       art_map_lower k m = map_option snd (find (\<lambda>e. fst e < k) (rev es)))"
proof -
  have run: "art_map_ok m" "art_map_entries m = es"
    using art_map_run[OF assms(1) art.empty_law(1)] by (simp_all add: m_def es_def art.empty_law(2))
  have "art_map_higher k m = map_option snd (find (\<lambda>e. k < fst e) es) \<and>
       art_map_lower k m = map_option snd (find (\<lambda>e. fst e < k) (rev es))" if "k \<in> fst ` set es" for k
  proof -
    have key: "art_key k" using that art.keys_law[OF run(1)] run(2) by auto
    have "map_of es k \<noteq> None" using that by (simp add: map_of_eq_None_iff)
    then have "art_map_get k m \<noteq> None" using art.get_law[OF run(1) key] run(2) by simp
    from art.higher_law[OF run(1) key this] art.lower_law[OF run(1) key this] run(2) show ?thesis by simp
  qed
  with art.sorted_law[OF run(1)] art.each_law[OF run(1) assms(2)] art.each_desc_law[OF run(1) assms(2)]
    art.count_law[OF run(1) assms(2)] run(2)
  show ?thesis by auto
qed

lemma art_map_ordered_reads_witness:
  "art_map_higher 6 (fold art_map_apply [MapPut 5 ''a'', MapPut 70000 ''b'', MapPut 6 ''c''] None) = Some ''b'' \<and>
   art_map_for_each_desc 2 (fold art_map_apply [MapPut 5 ''a'', MapPut 70000 ''b'', MapPut 6 ''c''] None) =
     [(70000, ''b''), (6, ''c'')]"
proof -
  let ?xs = "[MapPut 5 ''a'', MapPut 70000 ''b'', MapPut 6 ''c'']"
  have "\<forall>x \<in> set ?xs. art_key (map_op_key x)" by (simp_all add: art_key_def INT64_MAX_def)
  from art_map_ordered_reads[OF this, of 2] show ?thesis by simp
qed

end
