(* ===== verification/Art_Skip.thy ===== *)
theory Art_Skip
  imports Art_Map
begin

text \<open>
  \<open>GetHigherValue\<close> around a key that is not in the map. The two large classes of nodes go on
  from a missing child with the low bits of the given key: what they return is exact here for the
  maps whose keys share all but their last two bytes.
\<close>

section \<open>The nodes of the last byte\<close>

lemma last_byte_node:
  assumes "art_ok 1 P s"
  obtains nk c where "s = Node (8 * 0) nk c" "cells_rep c" "nk div 256 = P"
    "\<And>b u. (b, u) \<in> set (cells_asc c) \<Longrightarrow> \<exists>v. u = Val v"
proof -
  from assms obtain l nk c where s: "s = Node l nk c" by (cases s) (auto elim: art_ok.cases)
  with assms have l: "l = 8 * 0" by (auto elim: art_ok.cases)
  then have ok: "art_ok 1 P (Node (8 * 0) nk c)" using assms s by simp
  have "cells_rep c" "key_in 1 P nk" using ok by (auto elim!: art_ok_node simp: cells_ok_def)
  moreover have "\<exists>v. u = Val v" if "(b, u) \<in> set (cells_asc c)" for b u
    using node_child(3)[OF ok that] by (auto elim: art_ok.cases)
  ultimately show thesis using that[of nk c] s l by (simp add: key_in_def)
qed

lemma last_byte_ceil:
  assumes "art_ok 1 P s"
  shows "art_ceil s q 0 = map_option snd (find (\<lambda>e. P * 256 + q mod 256 \<le> fst e) (art_entries s P))"
proof -
  from assms obtain nk c where s: "s = Node (8 * 0) nk c" and rep: "cells_rep c" and nk: "nk div 256 = P"
    and vals: "\<And>b u. (b, u) \<in> set (cells_asc c) \<Longrightarrow> \<exists>v. u = Val v" by (rule last_byte_node) blast
  let ?E = "\<lambda>(b, u). art_entries u (child_prefix 0 nk b)" and ?i = "byte_at 0 q"
  have i: "int ?i = q mod 256" using byte_at_8[of 0 q] by simp
  have E: "\<exists>v. ?E (b, u) = [(P * 256 + int b, v)] \<and> (\<forall>k. art_ceil u k (0 - 8) = Some v)"
    if "(b, u) \<in> set (cells_asc c)" for b u
    using vals[OF that] nk by (auto simp: child_prefix_def power_Suc)
  have "cells_ceil (map_cells (\<lambda>u k. art_ceil u k (0 - 8)) c) ?i q =
      map_option snd (find (\<lambda>e. P * 256 + q mod 256 \<le> fst e) (concat (map ?E (cells_asc c))))"
  proof (rule cells_ceil_find[OF rep byte_at_less])
    show "\<forall>e \<in> set (?E (b, u)). \<not> P * 256 + q mod 256 \<le> fst e" if "(b, u) \<in> set (cells_asc c)" "b < ?i" for b u
      using E[OF that(1)] that(2) i by auto
    show "art_ceil u q (0 - 8) = map_option snd (find (\<lambda>e. P * 256 + q mod 256 \<le> fst e) (?E (?i, u)))"
      if "cells_find c ?i = Some u" for u
      using E[of ?i u] that cells_asc_set[OF rep, of ?i u] i by auto
    show "answers (\<lambda>e. P * 256 + q mod 256 \<le> fst e) ?E (\<lambda>p k. art_ceil (snd p) k (0 - 8))
        (if cells_find c ?i = None then {q, 0} else {0}) (b, u)" if "(b, u) \<in> set (cells_asc c)" "?i < b" for b u
      using E[OF that(1)] that(2) i by (auto simp: answers_def)
  qed
  moreover have "art_entries s P = concat (map ?E (cells_asc c))"
    using node_entries[of 1 P 0 nk c P] assms s by simp
  ultimately show ?thesis by (simp add: s)
qed

section \<open>The search from a missing child\<close>

text \<open>The classes whose search goes on with the key it was given: \<open>ArtNode48\<close> and \<open>ArtNode256\<close>.\<close>

fun wide_class :: "'s cells \<Rightarrow> bool" where
  "wide_class (Cells4 ps) \<longleftrightarrow> False"
| "wide_class (Cells16 ps) \<longleftrightarrow> False"
| "wide_class (Cells48 idx ns fm cnt) \<longleftrightarrow> True"
| "wide_class (Cells256 ns cnt) \<longleftrightarrow> True"

lemma cells_ceil_class:
  "cells_ceil (map_cells F c) i key =
     (if wide_class c then near_scan 0 (map (\<lambda>p. F (snd p)) (filter (\<lambda>p. i \<le> fst p) (cells_asc c))) key
      else near_pairs ((<) i) 0 (map (\<lambda>p. (fst p, F (snd p))) (cells_asc c)) i key)"
proof -
  have "map snd (filter (\<lambda>(b, f). i \<le> b) (cells_asc (map_cells F c))) =
      map (\<lambda>p. F (snd p)) (filter (\<lambda>p. i \<le> fst p) (cells_asc c))"
    unfolding map_cells_pairs filter_map comp_def case_prod_unfold by (simp add: comp_def)
  moreover have "cells_ceil (map_cells F c) i key =
      (if wide_class c then scan_ceil (map snd (filter (\<lambda>(b, f). i \<le> b) (cells_asc (map_cells F c)))) key
       else pairs_ceil (cells_asc (map_cells F c)) i key)"
    by (cases c) simp_all
  ultimately show ?thesis by (simp add: near_loops map_cells_pairs)
qed

text \<open>
  The children around the sub-key of a key in whose block of 256 keys there is no entry: those
  before hold the smaller keys, and the first one after holds the next greater key.
\<close>

lemma missing_child:
  assumes ok: "art_ok 8 0 (Node (8 * 1) nk c)" and near: "k div 256 ^ Suc 1 = nk div 256 ^ Suc 1"
    and free: "\<forall>e \<in> set (art_entries (Node (8 * 1) nk c) 0). fst e div 256 \<noteq> k div 256"
    and above: "find (\<lambda>e. k \<le> fst e) (art_entries (Node (8 * 1) nk c) 0) = Some (k1, v1)"
  obtains lo j s hi where "cells_asc c = lo @ (j, s) # hi" "byte_at (8 * 1) k < j"
    "filter (\<lambda>p. byte_at (8 * 1) k \<le> fst p) (cells_asc c) = (j, s) # hi"
    "\<forall>p \<in> set lo. fst p < byte_at (8 * 1) k" "\<forall>p \<in> set hi. j < fst p"
    "child_prefix 1 nk j = k1 div 256" "hd (art_entries s (child_prefix 1 nk j)) = (k1, v1)"
proof -
  let ?E = "\<lambda>(b, s). art_entries s (child_prefix 1 nk b)" and ?i = "byte_at (8 * 1) k"
  have rep: "cells_rep c" using ok by (elim art_ok_node) (simp add: cells_ok_def)
  have entries: "art_entries (Node (8 * 1) nk c) 0 = concat (map ?E (cells_asc c))" by (rule node_entries[OF ok])
  have mem: "fst e div 256 = child_prefix 1 nk b" if "(b, s) \<in> set (cells_asc c)" "e \<in> set (?E (b, s))" for b s e
    using node_child(6)[OF ok that(1)] that(2) by (simp add: entries_ok_def key_in_def)
  have some: "?E (b, s) \<noteq> []" if "(b, s) \<in> set (cells_asc c)" for b s
    using node_child(6)[OF ok that] by (simp add: entries_ok_def)
  have k: "k div 256 = child_prefix 1 nk ?i" using div_parts[of k 1] near by (simp add: child_prefix_def)
  have none: "(?i, s) \<notin> set (cells_asc c)" for s
  proof
    assume in': "(?i, s) \<in> set (cells_asc c)"
    then obtain e where e: "e \<in> set (?E (?i, s))" using some[OF in'] by (meson last_in_set)
    with in' have "e \<in> set (concat (map ?E (cells_asc c)))" by force
    then have "fst e div 256 \<noteq> k div 256" using free unfolding entries by (rule bspec[rotated])
    with mem[OF in' e] k show False by simp
  qed
  obtain lo mid hi0 where parts: "cells_asc c = lo @ mid @ hi0"
    "\<forall>p \<in> set lo. p \<in> set (cells_asc c) \<and> fst p < ?i" "\<forall>p \<in> set hi0. p \<in> set (cells_asc c) \<and> ?i < fst p"
    "mid = (case map_of (cells_asc c) ?i of None \<Rightarrow> [] | Some s \<Rightarrow> [(?i, s)])"
    "filter (\<lambda>p. ?i \<le> fst p) (cells_asc c) = mid @ hi0" by (rule cells_parts[OF rep, of ?i])
  have mid: "mid = []" using parts(4) none by (auto split: option.splits dest: map_of_SomeD)
  have less: "fst e < k" if "(b, s) \<in> set lo" "e \<in> set (?E (b, s))" for b s e
  proof -
    have "fst e div 256 < k div 256" using mem[of b s e] parts(2) that k by (force simp: child_prefix_def)
    then show ?thesis by (meson not_le zdiv_mono1 zero_less_numeral)
  qed
  have "find (\<lambda>e. k \<le> fst e) (concat (map ?E lo) @ concat (map ?E hi0)) = find (\<lambda>e. k \<le> fst e) (concat (map ?E hi0))"
    using less by (intro find_skip) fastforce
  then have found: "find (\<lambda>e. k \<le> fst e) (concat (map ?E hi0)) = Some (k1, v1)"
    using above unfolding entries parts(1) mid by simp
  then obtain j s hi where hi0: "hi0 = (j, s) # hi" by (cases hi0) auto
  then have js: "(j, s) \<in> set (cells_asc c)" "?i < j" using parts(3) by auto
  have "k \<le> fst e" if "e \<in> set (?E (j, s))" for e
  proof -
    have "k div 256 < fst e div 256" using mem[OF js(1) that] js(2) k by (simp add: child_prefix_def)
    then show ?thesis by (meson nle_le not_less zdiv_mono1 zero_less_numeral)
  qed
  then have first: "hd (?E (j, s)) = (k1, v1)"
    using found find_hd[of "?E (j, s)" "\<lambda>e. k \<le> fst e" "concat (map ?E hi)"] some[OF js(1)] hi0 by simp
  then have "(k1, v1) \<in> set (?E (j, s))" using some[OF js(1)] by (metis hd_in_set)
  from mem[OF js(1) this] have "child_prefix 1 nk j = k1 div 256" by simp
  moreover have "\<forall>p \<in> set hi. j < fst p"
    using cells_asc_sorted[OF rep] unfolding parts(1) hi0 mid by (auto simp: sorted_wrt_append)
  ultimately show thesis
    using that[of lo j s hi] parts(1,2,5) hi0 mid js(2) first by auto
qed

text \<open>The first entry of a child is its answer to the key 0, which stands for any key.\<close>

lemma last_byte_first:
  assumes "art_ok 1 P s" and "0 \<le> P" and "\<forall>e \<in> set (art_entries s P). fst e div 256 = P" and "art_entries s P \<noteq> []"
  shows "art_ceil s 0 0 = Some (snd (hd (art_entries s P)))"
proof -
  have "fst (hd (art_entries s P)) div 256 = P" using assms(3,4) by simp
  then have "P * 256 \<le> fst (hd (art_entries s P))" by linarith
  then show ?thesis
    using last_byte_ceil[OF assms(1), of 0] find_hd[of "art_entries s P" "\<lambda>e. P * 256 \<le> fst e" "[]"] assms(4) by simp
qed

lemma block_child:
  assumes ok: "art_ok 8 0 (Node (8 * 1) nk c)" and b: "(b, u) \<in> set (cells_asc c)"
  shows "art_ok 1 (child_prefix 1 nk b) u" and "art_entries u (child_prefix 1 nk b) \<noteq> []"
    and "\<forall>e \<in> set (art_entries u (child_prefix 1 nk b)). fst e div 256 = child_prefix 1 nk b"
    and "art_ceil u 0 0 = Some (snd (hd (art_entries u (child_prefix 1 nk b))))"
proof -
  show kid: "art_ok 1 (child_prefix 1 nk b) u" "art_entries u (child_prefix 1 nk b) \<noteq> []"
    "\<forall>e \<in> set (art_entries u (child_prefix 1 nk b)). fst e div 256 = child_prefix 1 nk b"
    using node_child(3,6)[OF ok b] by (simp_all add: entries_ok_def key_in_def)
  have "0 \<le> child_prefix 1 nk b"
    using ok by (elim art_ok_node) (simp add: child_prefix_def key_in_def pos_imp_zdiv_nonneg_iff)
  from last_byte_first[OF kid(1) this kid(3,2)] show "art_ceil u 0 0 = Some (snd (hd (art_entries u (child_prefix 1 nk b))))" .
qed

text \<open>The large classes search the first child after the missing one with the low byte of the key.\<close>

lemma wide_scan:
  assumes ok: "art_ok 8 0 (Node (8 * 1) nk c)" and cs: "cells_asc c = lo @ (j, s) # hi"
    and lo: "\<forall>p \<in> set lo. fst p < j" and hi: "\<forall>p \<in> set hi. j < fst p"
  shows "near_scan 0 (map (\<lambda>p k. art_ceil (snd p) k 0) ((j, s) # hi)) k =
    map_option snd (find (\<lambda>e. child_prefix 1 nk j * 256 + k mod 256 \<le> fst e) (art_entries (Node (8 * 1) nk c) 0))"
proof -
  let ?E = "\<lambda>(b, s). art_entries s (child_prefix 1 nk b)" and ?F = "\<lambda>s k. art_ceil s k 0"
  let ?Q = "\<lambda>e. child_prefix 1 nk j * 256 + k mod 256 \<le> fst e"
  have mem: "(fst p, snd p) \<in> set (cells_asc c)" if "p \<in> set lo \<or> p \<in> set hi" for p using that cs by auto
  have lo_Q: "\<forall>p \<in> set lo. fst p \<noteq> j \<and> \<not> j < fst p \<and> (\<forall>e \<in> set (?E p). \<not> ?Q e)"
  proof (intro ballI)
    fix p assume p: "p \<in> set lo"
    have "fst e div 256 < child_prefix 1 nk j" if "e \<in> set (?E p)" for e
      using block_child(3)[OF ok mem[of p]] p that lo by (auto simp: child_prefix_def case_prod_unfold)
    then have "\<not> ?Q e" if "e \<in> set (?E p)" for e using that pos_mod_sign[of 256 k] by fastforce
    with p lo show "fst p \<noteq> j \<and> \<not> j < fst p \<and> (\<forall>e \<in> set (?E p). \<not> ?Q e)" by auto
  qed
  have mid_Q: "?F s k = map_option snd (find ?Q (?E (j, s)))"
    using last_byte_ceil[OF block_child(1)[OF ok], of j s k] cs by simp
  have hi_Q: "\<forall>p \<in> set hi. fst p \<noteq> j \<and> j < fst p \<and> answers ?Q ?E (\<lambda>p. ?F (snd p)) {0} p"
  proof (intro ballI)
    fix p assume p: "p \<in> set hi"
    note kid = block_child[OF ok mem, of p]
    have "fst (hd (?E p)) div 256 = child_prefix 1 nk (fst p)" using kid(2,3) p by (simp add: case_prod_unfold)
    then have "child_prefix 1 nk j < fst (hd (?E p)) div 256" using p hi by (simp add: child_prefix_def)
    then have "?Q (hd (?E p))" using pos_mod_bound[of 256 k] by linarith
    with p hi kid(2,4) show "fst p \<noteq> j \<and> j < fst p \<and> answers ?Q ?E (\<lambda>p. ?F (snd p)) {0} p"
      by (auto simp: answers_def case_prod_unfold)
  qed
  have "near_scan 0 (map (\<lambda>p. ?F (snd p)) ([(j, s)] @ hi)) k = map_option snd (find ?Q (concat (map ?E (lo @ [(j, s)] @ hi))))"
    using lo_Q mid_Q hi_Q by (intro near_loops_find(2)[where i = j and beyond = "(<) j"]) simp_all
  then show ?thesis unfolding node_entries[OF ok] cs by simp
qed

text \<open>C35:
  The search for the next greater value around a key that is not in the map, when no entry lies
  in its block of 256 keys: in a map whose keys share all but their last two bytes, a root of the
  small classes returns the next greater key's value, but an ArtNode48 or ArtNode256 returns the
  value of the first key whose low byte, in the block of the next greater key, is at least that
  of the key searched. The next greater key is so skipped exactly when its low byte is the smaller one,
  and the result is null when nothing else follows. The keys are not negative, the key searched is
  not the greatest integer and shares the upper bytes.
\<close>

theorem art_map_higher_skips:
  assumes "art_map_ok (Some (Node 8 nk c))" and "0 \<le> key" and "key < INT64_MAX"
    and "\<forall>e \<in> set (art_map_entries (Some (Node 8 nk c))). fst e div 256 \<noteq> (key + 1) div 256"
    and "find (\<lambda>e. key < fst e) (art_map_entries (Some (Node 8 nk c))) = Some (k1, v1)"
    and "(key + 1) div 65536 = k1 div 65536"
  shows "art_map_higher key (Some (Node 8 nk c)) =
    (if wide_class c
     then map_option snd (find (\<lambda>e. k1 div 256 * 256 + (key + 1) mod 256 \<le> fst e) (art_map_entries (Some (Node 8 nk c))))
     else Some v1)"
proof -
  let ?k = "key + 1" and ?F = "\<lambda>s k. art_ceil s k 0" and ?i = "byte_at (8 * 1) (key + 1)"
  have ok: "art_ok 8 0 (Node (8 * 1) nk c)" using assms(1) by (simp add: art_map_ok_def)
  have entries: "art_map_entries (Some (Node 8 nk c)) = art_entries (Node (8 * 1) nk c) 0"
    by (simp add: art_map_entries_def)
  have sq: "(256 :: int) ^ Suc 1 = 65536" by (simp add: power_Suc)
  have "(k1, v1) \<in> set (art_entries (Node (8 * 1) nk c) 0)"
    using assms(5) unfolding entries by (auto simp: find_Some_iff in_set_conv_nth)
  from node_entries_in[OF ok this] have "k1 div 65536 = nk div 65536" unfolding key_in_def sq by simp
  with assms(6) have near: "?k div 65536 = nk div 65536" by simp
  have kf: "(\<lambda>e :: int \<times> 'a. key < fst e) = (\<lambda>e. ?k \<le> fst e)" by auto
  obtain lo j s hi where parts: "cells_asc c = lo @ (j, s) # hi" "?i < j"
    "filter (\<lambda>p. ?i \<le> fst p) (cells_asc c) = (j, s) # hi"
    "\<forall>p \<in> set lo. fst p < ?i" "\<forall>p \<in> set hi. j < fst p"
    "child_prefix 1 nk j = k1 div 256" "hd (art_entries s (child_prefix 1 nk j)) = (k1, v1)"
    using missing_child[OF ok] near assms(4,5) unfolding entries sq kf by metis
  have first: "?F s 0 = Some v1" using block_child(4)[OF ok, of j s] parts(1,7) by simp
  have "\<forall>p \<in> set lo. fst p < j" using parts(2,4) by auto
  note wide = wide_scan[OF ok parts(1) this parts(5), of ?k]
  have small: "near_pairs ((<) ?i) 0 (map (\<lambda>p. (fst p, ?F (snd p))) (lo @ (j, s) # hi)) ?i ?k = Some v1"
    using parts(4) first parts(2) by (induction lo) auto
  have "art_map_higher key (Some (Node 8 nk c)) = cells_ceil (map_cells ?F c) ?i ?k"
    using assms(3) near by (simp add: art_map_higher_def prefix_of_def Let_def)
  also have "\<dots> = (if wide_class c then near_scan 0 (map (\<lambda>p. ?F (snd p)) ((j, s) # hi)) ?k else Some v1)"
    unfolding cells_ceil_class parts(3) small[symmetric] parts(1)[symmetric] ..
  finally show ?thesis unfolding wide parts(6) entries .
qed

text \<open>
  A map whose root is an \<open>ArtNode48\<close>: one key in each of seventeen blocks of 256 keys, and none in
  the sixth block. The next key above 1330 is 1546 with value 6, but the value of the key after it
  is returned.
\<close>

definition wide_map :: "int art_map" where
  "wide_map = fold (\<lambda>i m. art_map_put (i * 256 + 10) i m) (map int ([0..<5] @ [6..<18])) None"

lemma wide_map_root: "(case wide_map of Some (Node l nk (Cells48 idx ns fm cnt)) \<Rightarrow> l = 8 | _ \<Rightarrow> False)"
  by code_simp

lemma wide_map_next:
  "find (\<lambda>e. 1330 < fst e) (art_map_entries wide_map) = Some (1546, 6)"
  "find (\<lambda>e. 1587 \<le> fst e) (art_map_entries wide_map) = Some (1802, 7)"
  "list_all (\<lambda>e. fst e div 256 \<noteq> 5) (art_map_entries wide_map)"
  by code_simp+

lemma wide_map_ok: "art_map_ok wide_map"
proof -
  have "art_map_ok (fold (\<lambda>i m. art_map_put (i * 256 + 10) i m) is m)"
    if "art_map_ok m" "\<forall>i \<in> set is. 0 \<le> i \<and> i < 100" for m :: "int art_map" and "is"
    using that
  proof (induction "is" arbitrary: m)
    case (Cons i "is")
    then have "art_map_ok (art_map_put (i * 256 + 10) i m)"
      by (intro art_map_put_law(1)) (auto simp: art_key_def INT64_MAX_def)
    with Cons show ?case by simp
  qed simp
  moreover have "art_map_ok (None :: int art_map)" by (simp add: art_map_ok_def)
  moreover have "\<forall>i \<in> set (map int ([0..<5] @ [6..<18])). 0 \<le> i \<and> i < 100" by auto
  ultimately show ?thesis unfolding wide_map_def by blast
qed

theorem art_map_higher_skips_witness: "art_map_higher 1330 wide_map = Some 7"
proof -
  obtain nk idx ns fm cnt where root: "wide_map = Some (Node 8 nk (Cells48 idx ns fm cnt))"
    using wide_map_root by (auto split: option.splits art.splits cells.splits)
  have "\<forall>e \<in> set (art_map_entries wide_map). fst e div 256 \<noteq> (1330 + 1) div 256"
    using wide_map_next(3) by (simp add: list_all_iff)
  with art_map_higher_skips[of nk "Cells48 idx ns fm cnt" 1330 1546 6] wide_map_ok wide_map_next
  show ?thesis unfolding root[symmetric] by (simp add: INT64_MAX_def)
qed

end
