(* ===== verification/Direct_Book.thy ===== *)
theory Direct_Book
  imports Order_Book_Interface Art_Map
begin

text \<open>
  \<open>orderbook/OrderBookDirectImpl\<close>: the orders of a side form one doubly linked list from the best
  order to the worst (\<open>prev\<close> leads to the worse, \<open>next\<close> to the better), and a radix tree leads
  from a price to its bucket, which knows the last order of the price. Orders and buckets are
  objects in two heaps; taking an object from the pool allocates it and putting it back deletes
  it, so that reading a recycled object is the exception \<open>Dangling_Pointer\<close>.
\<close>

section \<open>State\<close>

record direct_order =
  do_order :: order
  do_next :: "addr option"
  do_prev :: "addr option"
  do_bucket :: "addr option"

record direct_bucket =
  bu_price :: int
  bu_lastOrder :: "addr option"
  bu_totalVolume :: int
  bu_numOrders :: int

record direct_book =
  db_symbolSpec :: symbol_spec
  db_orders :: "addr \<Rightarrow> direct_order option"
  db_buckets :: "addr \<Rightarrow> direct_bucket option"
  db_fresh :: addr
  db_askPriceBuckets :: "addr art_map"
  db_bidPriceBuckets :: "addr art_map"
  db_orderIdIndex :: "(int, addr) umap"
  db_bestAskOrder :: "addr option"
  db_bestBidOrder :: "addr option"

definition new_direct_book :: "symbol_spec \<Rightarrow> direct_book" where
  "new_direct_book spec =
     \<lparr>db_symbolSpec = spec, db_orders = (\<lambda>_. None), db_buckets = (\<lambda>_. None), db_fresh = 0,
      db_askPriceBuckets = None, db_bidPriceBuckets = None, db_orderIdIndex = [],
      db_bestAskOrder = None, db_bestBidOrder = None\<rparr>"

text \<open>The members a side selects: \<open>isAsk ? askPriceBuckets_ : bidPriceBuckets_\<close> and the like.\<close>

fun price_buckets :: "order_action \<Rightarrow> direct_book \<Rightarrow> addr art_map" where
  "price_buckets ASK db = db_askPriceBuckets db"
| "price_buckets BID db = db_bidPriceBuckets db"

fun set_price_buckets :: "order_action \<Rightarrow> addr art_map \<Rightarrow> direct_book \<Rightarrow> direct_book" where
  "set_price_buckets ASK m db = db\<lparr>db_askPriceBuckets := m\<rparr>"
| "set_price_buckets BID m db = db\<lparr>db_bidPriceBuckets := m\<rparr>"

fun best_order :: "order_action \<Rightarrow> direct_book \<Rightarrow> addr option" where
  "best_order ASK db = db_bestAskOrder db"
| "best_order BID db = db_bestBidOrder db"

fun set_best_order :: "order_action \<Rightarrow> addr option \<Rightarrow> direct_book \<Rightarrow> direct_book" where
  "set_best_order ASK a db = db\<lparr>db_bestAskOrder := a\<rparr>"
| "set_best_order BID a db = db\<lparr>db_bestBidOrder := a\<rparr>"

text \<open>Reading and writing through a pointer, which may be null.\<close>

definition deref :: "(addr \<Rightarrow> 'a option) \<Rightarrow> addr option \<Rightarrow> exn + 'a" where
  "deref h p =
     (case p of None \<Rightarrow> Inl Dangling_Pointer
      | Some a \<Rightarrow> (case h a of None \<Rightarrow> Inl Dangling_Pointer | Some x \<Rightarrow> Inr x))"

definition upd_order :: "addr option \<Rightarrow> (direct_order \<Rightarrow> direct_order) \<Rightarrow> direct_book \<Rightarrow> exn + direct_book" where
  "upd_order p f db =
     bindE (deref (db_orders db) p) (\<lambda>d. Inr (db\<lparr>db_orders := (db_orders db)(the p \<mapsto> f d)\<rparr>))"

definition upd_bucket :: "addr option \<Rightarrow> (direct_bucket \<Rightarrow> direct_bucket) \<Rightarrow> direct_book \<Rightarrow> exn + direct_book" where
  "upd_bucket p f db =
     bindE (deref (db_buckets db) p) (\<lambda>b. Inr (db\<lparr>db_buckets := (db_buckets db)(the p \<mapsto> f b)\<rparr>))"

text \<open>A write guarded by \<open>if (p != nullptr)\<close>.\<close>

definition upd_order_if :: "addr option \<Rightarrow> (direct_order \<Rightarrow> direct_order) \<Rightarrow> direct_book \<Rightarrow> exn + direct_book" where
  "upd_order_if p f db = (if p = None then Inr db else upd_order p f db)"

text \<open>Returning objects to the pool.\<close>

definition free_order :: "addr \<Rightarrow> direct_book \<Rightarrow> direct_book" where
  "free_order a db = db\<lparr>db_orders := (db_orders db)(a := None)\<rparr>"

definition free_bucket :: "addr option \<Rightarrow> direct_book \<Rightarrow> direct_book" where
  "free_bucket p db =
     (case p of None \<Rightarrow> db | Some b \<Rightarrow> db\<lparr>db_buckets := (db_buckets db)(b := None)\<rparr>)"

section \<open>The list of a side\<close>

definition direct_remove_order :: "addr \<Rightarrow> direct_book \<Rightarrow> exn + (addr option \<times> direct_book)" where
  "direct_remove_order a db =
     bindE (deref (db_orders db) (Some a)) (\<lambda>d.
     bindE (upd_bucket (do_bucket d)
              (\<lambda>b. b\<lparr>bu_totalVolume := bu_totalVolume b - (ord_size (do_order d) - ord_filled (do_order d)),
                     bu_numOrders := bu_numOrders b - 1\<rparr>) db) (\<lambda>db1.
     bindE (deref (db_buckets db1) (do_bucket d)) (\<lambda>b.
     bindE (if bu_lastOrder b = Some a
            then bindE (if do_next d = None then Inr True
                        else bindE (deref (db_orders db1) (do_next d)) (\<lambda>n. Inr (do_bucket n \<noteq> do_bucket d)))
                   (\<lambda>only.
                      if only
                      then Inr (do_bucket d,
                                set_price_buckets (ord_action (do_order d))
                                  (art_map_remove (ord_price (do_order d)) (price_buckets (ord_action (do_order d)) db1)) db1)
                      else bindE (upd_bucket (do_bucket d) (\<lambda>b. b\<lparr>bu_lastOrder := do_next d\<rparr>) db1) (\<lambda>db2.
                        Inr (None, db2)))
            else Inr (None, db1)) (\<lambda>(bucketRemoved, db2).
     bindE (upd_order_if (do_next d) (\<lambda>n. n\<lparr>do_prev := do_prev d\<rparr>) db2) (\<lambda>db3.
     bindE (upd_order_if (do_prev d) (\<lambda>p. p\<lparr>do_next := do_next d\<rparr>) db3) (\<lambda>db4.
       Inr (bucketRemoved,
            if Some a = db_bestAskOrder db4 then db4\<lparr>db_bestAskOrder := do_prev d\<rparr>
            else if Some a = db_bestBidOrder db4 then db4\<lparr>db_bestBidOrder := do_prev d\<rparr>
            else db4)))))))"

text \<open>Linking an order behind another one: the tail of its own or of the next better price.\<close>

definition link_after :: "addr \<Rightarrow> addr option \<Rightarrow> direct_book \<Rightarrow> exn + direct_book" where
  "link_after a tail db =
     bindE (deref (db_orders db) tail) (\<lambda>t.
     bindE (upd_order tail (\<lambda>t. t\<lparr>do_prev := Some a\<rparr>) db) (\<lambda>db1.
     bindE (upd_order_if (do_prev t) (\<lambda>p. p\<lparr>do_next := Some a\<rparr>) db1) (\<lambda>db2.
       upd_order (Some a) (\<lambda>d. d\<lparr>do_next := tail, do_prev := do_prev t\<rparr>) db2)))"

definition direct_insert_order :: "addr \<Rightarrow> addr option \<Rightarrow> direct_book \<Rightarrow> exn + direct_book" where
  "direct_insert_order a freeBucket db =
     bindE (deref (db_orders db) (Some a)) (\<lambda>d.
       let ord = do_order d; s = ord_action ord; price = ord_price ord; rest = ord_size ord - ord_filled ord
       in case art_map_get price (price_buckets s db) of
            Some toBucket \<Rightarrow>
              let db0 = free_bucket freeBucket db in
              bindE (deref (db_buckets db0) (Some toBucket)) (\<lambda>b.
              bindE (upd_bucket (Some toBucket)
                       (\<lambda>b. b\<lparr>bu_totalVolume := bu_totalVolume b + rest, bu_numOrders := bu_numOrders b + 1,
                              bu_lastOrder := Some a\<rparr>) db0) (\<lambda>db1.
              bindE (link_after a (bu_lastOrder b) db1) (\<lambda>db2.
                upd_order (Some a) (\<lambda>d. d\<lparr>do_bucket := Some toBucket\<rparr>) db2)))
          | None \<Rightarrow>
              let newBucket = (case freeBucket of None \<Rightarrow> db_fresh db | Some b \<Rightarrow> b);
                  db0 = (if freeBucket = None then db\<lparr>db_fresh := Suc (db_fresh db)\<rparr> else db);
                  db1 = db0\<lparr>db_buckets := (db_buckets db0)(newBucket \<mapsto>
                          \<lparr>bu_price = price, bu_lastOrder = Some a, bu_totalVolume = rest, bu_numOrders = 1\<rparr>)\<rparr>
              in
              bindE (upd_order (Some a) (\<lambda>d. d\<lparr>do_bucket := Some newBucket\<rparr>) db1) (\<lambda>db2.
                let buckets = art_map_put price newBucket (price_buckets s db2);
                    db3 = set_price_buckets s buckets db2
                in case (if s = ASK then art_map_lower price buckets else art_map_higher price buckets) of
                     Some lowerBucket \<Rightarrow>
                       bindE (deref (db_buckets db3) (Some lowerBucket)) (\<lambda>b.
                         link_after a (bu_lastOrder b) db3)
                   | None \<Rightarrow>
                       let oldBestOrder = best_order s db3 in
                       bindE (upd_order_if oldBestOrder (\<lambda>o'. o'\<lparr>do_next := Some a\<rparr>) db3) (\<lambda>db4.
                         upd_order (Some a) (\<lambda>d. d\<lparr>do_next := None, do_prev := oldBestOrder\<rparr>)
                           (set_best_order s (Some a) db4))))"

section \<open>Matching\<close>

text \<open>
  The loop of \<open>tryMatchInstantly\<close>. Every round but the last takes one order out of the index,
  whose length bounds the rounds; a loop that needs more is \<open>Out_Of_Fuel\<close>.
\<close>

fun direct_match_loop ::
  "nat \<Rightarrow> order_action \<Rightarrow> int \<Rightarrow> int \<Rightarrow> addr \<Rightarrow> addr option \<Rightarrow> int \<Rightarrow> direct_book
     \<Rightarrow> exn + (addr option \<times> int \<times> trade_event list \<times> direct_book)" where
  "direct_match_loop 0 action limitPrice reserve maker priceBucketTail remainingSize db = Inl Out_Of_Fuel"
| "direct_match_loop (Suc fuel) action limitPrice reserve maker priceBucketTail remainingSize db =
     bindE (deref (db_orders db) (Some maker)) (\<lambda>d.
       let tradeSize = min remainingSize (ord_size (do_order d) - ord_filled (do_order d));
           ord = (do_order d)\<lparr>ord_filled := ord_filled (do_order d) + tradeSize\<rparr>;
           rest = remainingSize - tradeSize;
           makerCompleted = (ord_size ord = ord_filled ord);
           hold = (if action = BID then reserve else ord_reserveBidPrice ord);
           event = send_trade_event default_event ord makerCompleted (rest = 0) tradeSize hold
       in
       bindE (upd_order (Some maker) (\<lambda>d. d\<lparr>do_order := ord\<rparr>) db) (\<lambda>db1.
       bindE (upd_bucket (do_bucket d) (\<lambda>b. b\<lparr>bu_totalVolume := bu_totalVolume b - tradeSize,
                bu_numOrders := (if makerCompleted then bu_numOrders b - 1 else bu_numOrders b)\<rparr>) db1) (\<lambda>db2.
         if \<not> makerCompleted then Inr (Some maker, rest, [event], db2)
         else
           let db3 = db2\<lparr>db_orderIdIndex := um_erase (ord_orderId ord) (db_orderIdIndex db2)\<rparr>
           in
           bindE (if Some maker = priceBucketTail
                  then
                    let s = opposite action;
                        db4 = free_bucket (do_bucket d)
                                (set_price_buckets s (art_map_remove (ord_price ord) (price_buckets s db3)) db3)
                    in if do_prev d = None then Inr (priceBucketTail, db4)
                       else bindE (deref (db_orders db4) (do_prev d)) (\<lambda>p.
                         bindE (deref (db_buckets db4) (do_bucket p)) (\<lambda>b. Inr (bu_lastOrder b, db4)))
                  else Inr (priceBucketTail, db3)) (\<lambda>(tail, db4).
             let db5 = free_order maker db4
             in case do_prev d of
                  None \<Rightarrow> Inr (None, rest, [event], db5)
                | Some next \<Rightarrow>
                    bindE (deref (db_orders db5) (Some next)) (\<lambda>n.
                      if rest > 0 \<and> (if action = BID then ord_price (do_order n) \<le> limitPrice
                                      else ord_price (do_order n) \<ge> limitPrice)
                      then bindE (direct_match_loop fuel action limitPrice reserve next tail rest db5)
                             (\<lambda>(m, r, evs, db'). Inr (m, r, event # evs, db'))
                      else Inr (Some next, rest, [event], db5))))))"

definition direct_try_match ::
  "iorder \<Rightarrow> order_command \<Rightarrow> direct_book \<Rightarrow> exn + (direct_book \<times> order_command \<times> int)" where
  "direct_try_match takerOrder triggerCmd db =
     (let action = io_action takerOrder;
          limitPrice = (if cmd_command triggerCmd = PLACE_ORDER \<and> cmd_orderType triggerCmd = FOK_BUDGET \<and> action \<noteq> BID
                        then 0 else io_price takerOrder);
          remainingSize = io_size takerOrder - io_filled takerOrder
      in case best_order (opposite action) db of
           None \<Rightarrow> Inr (db, triggerCmd, io_filled takerOrder)
         | Some maker \<Rightarrow>
             bindE (deref (db_orders db) (Some maker)) (\<lambda>d.
               if (if action = BID then ord_price (do_order d) > limitPrice else ord_price (do_order d) < limitPrice)
                  \<or> remainingSize = 0
               then Inr (db, triggerCmd, io_filled takerOrder)
               else
                 bindE (deref (db_buckets db) (do_bucket d)) (\<lambda>b.
                 bindE (direct_match_loop (length (db_orderIdIndex db)) action limitPrice
                          (io_reserveBidPrice takerOrder) maker (bu_lastOrder b) remainingSize db)
                   (\<lambda>(m, rest, evs, db1).
                     bindE (upd_order_if m (\<lambda>d. d\<lparr>do_next := None\<rparr>) db1) (\<lambda>db2.
                       Inr (set_best_order (opposite action) m db2, set_events evs triggerCmd,
                            io_size takerOrder - rest))))))"

section \<open>Commands\<close>

definition direct_place_gtc ::
  "trade_event \<Rightarrow> direct_book \<Rightarrow> order_command \<Rightarrow> exn + (direct_book \<times> order_command)" where
  "direct_place_gtc node db cmd =
     bindE (direct_try_match (cmd_iorder cmd) cmd db) (\<lambda>(db1, cmd1, filledSize).
       if filledSize = cmd_size cmd then Inr (db1, cmd1)
       else if um_find (db_orderIdIndex db1) (cmd_orderId cmd) \<noteq> None
       then Inr (db1, attach_reject_event node cmd1 (cmd_size cmd - filledSize))
       else
         let a = db_fresh db1;
             orderRecord = \<lparr>do_order = \<lparr>ord_orderId = cmd_orderId cmd, ord_price = cmd_price cmd,
                 ord_size = cmd_size cmd, ord_filled = filledSize,
                 ord_reserveBidPrice = cmd_reserveBidPrice cmd, ord_action = cmd_action cmd,
                 ord_uid = cmd_uid cmd, ord_timestamp = cmd_timestamp cmd\<rparr>,
               do_next = None, do_prev = None, do_bucket = None\<rparr>
         in bindE (direct_insert_order a None
                (db1\<lparr>db_orders := (db_orders db1)(a \<mapsto> orderRecord), db_fresh := Suc a,
                     db_orderIdIndex := um_put (cmd_orderId cmd) a (db_orderIdIndex db1)\<rparr>))
              (\<lambda>db2. Inr (db2, cmd1)))"

definition direct_match_ioc ::
  "trade_event \<Rightarrow> direct_book \<Rightarrow> order_command \<Rightarrow> exn + (direct_book \<times> order_command)" where
  "direct_match_ioc node db cmd =
     bindE (direct_try_match (cmd_iorder cmd) cmd db) (\<lambda>(db1, cmd1, filledSize).
       let rejectedSize = cmd_size cmd - filledSize
       in if rejectedSize \<noteq> 0 then Inr (db1, attach_reject_event node cmd1 rejectedSize)
          else Inr (db1, cmd1))"

text \<open>
  \<open>checkBudgetToFill\<close> walks from price to price: the order behind the last one of a bucket is the
  first of the next. \<open>INT64_MAX\<close> stands for too little volume.
\<close>

fun direct_budget_loop :: "nat \<Rightarrow> direct_book \<Rightarrow> addr option \<Rightarrow> int \<Rightarrow> int \<Rightarrow> exn + int" where
  "direct_budget_loop fuel db None sz budget = Inr INT64_MAX"
| "direct_budget_loop 0 db (Some maker) sz budget = Inl Out_Of_Fuel"
| "direct_budget_loop (Suc fuel) db (Some maker) sz budget =
     bindE (deref (db_orders db) (Some maker)) (\<lambda>d.
     bindE (deref (db_buckets db) (do_bucket d)) (\<lambda>b.
       let availableSize = bu_totalVolume b; price = ord_price (do_order d)
       in if sz > availableSize
          then bindE (deref (db_orders db) (bu_lastOrder b)) (\<lambda>t.
                 direct_budget_loop fuel db (do_prev t) (sz - availableSize) (budget + availableSize * price))
          else Inr (budget + sz * price)))"

definition direct_check_budget_to_fill :: "order_action \<Rightarrow> int \<Rightarrow> direct_book \<Rightarrow> exn + int" where
  "direct_check_budget_to_fill action sz db =
     direct_budget_loop (length (db_orderIdIndex db)) db (best_order (opposite action) db) sz 0"

definition direct_is_budget_limit_satisfied :: "order_action \<Rightarrow> int \<Rightarrow> int \<Rightarrow> bool" where
  "direct_is_budget_limit_satisfied orderAction calculated limit \<longleftrightarrow>
     calculated \<noteq> INT64_MAX \<and> (calculated = limit \<or> ((orderAction = BID) \<noteq> (calculated > limit)))"

definition direct_match_fok_budget ::
  "trade_event \<Rightarrow> direct_book \<Rightarrow> order_command \<Rightarrow> exn + (direct_book \<times> order_command)" where
  "direct_match_fok_budget node db cmd =
     bindE (direct_check_budget_to_fill (cmd_action cmd) (cmd_size cmd) db) (\<lambda>budget.
       if direct_is_budget_limit_satisfied (cmd_action cmd) budget (cmd_price cmd)
       then bindE (direct_try_match (cmd_iorder cmd) cmd db) (\<lambda>(db1, cmd1, _). Inr (db1, cmd1))
       else Inr (db, attach_reject_event node cmd (cmd_size cmd)))"

definition direct_new_order ::
  "trade_event \<Rightarrow> direct_book \<Rightarrow> order_command \<Rightarrow> exn + (direct_book \<times> order_command)" where
  "direct_new_order node db cmd =
     (case cmd_orderType cmd of
        GTC \<Rightarrow> direct_place_gtc node db cmd
      | IOC \<Rightarrow> direct_match_ioc node db cmd
      | FOK_BUDGET \<Rightarrow> direct_match_fok_budget node db cmd
      | _ \<Rightarrow> Inr (db, attach_reject_event node cmd (cmd_size cmd)))"

text \<open>The lookup that cancel, move and reduce start with: the order, if the caller owns it.\<close>

definition direct_owned_order :: "direct_book \<Rightarrow> order_command \<Rightarrow> exn + (addr \<times> direct_order) option" where
  "direct_owned_order db cmd =
     (case um_find (db_orderIdIndex db) (cmd_orderId cmd) of
        None \<Rightarrow> Inr None
      | Some a \<Rightarrow> bindE (deref (db_orders db) (Some a)) (\<lambda>d.
          if ord_uid (do_order d) \<noteq> cmd_uid cmd then Inr None else Inr (Some (a, d))))"

text \<open>Taking an order out for good, with its bucket if it was the last one of it.\<close>

definition direct_drop_order :: "int \<Rightarrow> addr \<Rightarrow> direct_book \<Rightarrow> exn + direct_book" where
  "direct_drop_order orderId a db =
     bindE (direct_remove_order a (db\<lparr>db_orderIdIndex := um_erase orderId (db_orderIdIndex db)\<rparr>))
       (\<lambda>(freeBucket, db1). Inr (free_order a (free_bucket freeBucket db1)))"

definition direct_cancel ::
  "trade_event \<Rightarrow> direct_book \<Rightarrow> order_command \<Rightarrow> exn + (result_code \<times> direct_book \<times> order_command)" where
  "direct_cancel node db cmd =
     bindE (direct_owned_order db cmd) (\<lambda>found. case found of
        None \<Rightarrow> Inr (MATCHING_UNKNOWN_ORDER_ID, db, cmd)
      | Some (a, d) \<Rightarrow>
          let ord = do_order d in
          bindE (direct_drop_order (cmd_orderId cmd) a db) (\<lambda>db1.
            Inr (SUCCESS, db1,
                 cmd\<lparr>cmd_action := ord_action ord,
                     cmd_matcherEvent := [send_reduce_event node (ord_price ord) (ord_reserveBidPrice ord)
                                            (ord_size ord - ord_filled ord) True]\<rparr>)))"

definition direct_reduce ::
  "trade_event \<Rightarrow> direct_book \<Rightarrow> order_command \<Rightarrow> exn + (result_code \<times> direct_book \<times> order_command)" where
  "direct_reduce node db cmd =
     (if cmd_size cmd \<le> 0 then Inr (MATCHING_REDUCE_FAILED_WRONG_SIZE, db, cmd)
      else bindE (direct_owned_order db cmd) (\<lambda>found. case found of
        None \<Rightarrow> Inr (MATCHING_UNKNOWN_ORDER_ID, db, cmd)
      | Some (a, d) \<Rightarrow>
          let ord = do_order d; remainingSize = ord_size ord - ord_filled ord;
              reduceBy = min remainingSize (cmd_size cmd)
          in if reduceBy = remainingSize
             then bindE (direct_drop_order (cmd_orderId cmd) a db) (\<lambda>db1.
                    Inr (SUCCESS, db1,
                         cmd\<lparr>cmd_matcherEvent := [send_reduce_event node (ord_price ord)
                                (ord_reserveBidPrice ord) reduceBy True],
                             cmd_action := ord_action ord\<rparr>))
             else
               let ord1 = ord\<lparr>ord_size := ord_size ord - reduceBy\<rparr>
               in bindE (upd_order (Some a) (\<lambda>d. d\<lparr>do_order := ord1\<rparr>) db) (\<lambda>db1.
                  bindE (upd_bucket (do_bucket d) (\<lambda>b. b\<lparr>bu_totalVolume := bu_totalVolume b - reduceBy\<rparr>) db1) (\<lambda>db2.
                    Inr (SUCCESS, db2,
                         cmd\<lparr>cmd_matcherEvent := [send_reduce_event_order node ord1 reduceBy False],
                             cmd_action := ord_action ord1\<rparr>)))))"

definition direct_move ::
  "trade_event \<Rightarrow> direct_book \<Rightarrow> order_command \<Rightarrow> exn + (result_code \<times> direct_book \<times> order_command)" where
  "direct_move node db cmd =
     bindE (direct_owned_order db cmd) (\<lambda>found. case found of
        None \<Rightarrow> Inr (MATCHING_UNKNOWN_ORDER_ID, db, cmd)
      | Some (a, d) \<Rightarrow>
          if sp_type (db_symbolSpec db) = CURRENCY_EXCHANGE_PAIR \<and> ord_action (do_order d) = BID
             \<and> cmd_price cmd > ord_reserveBidPrice (do_order d)
          then Inr (MATCHING_MOVE_FAILED_PRICE_OVER_RISK_LIMIT, db, cmd)
          else
            let ord = (do_order d)\<lparr>ord_price := cmd_price cmd\<rparr>; cmd1 = cmd\<lparr>cmd_action := ord_action ord\<rparr> in
            bindE (direct_remove_order a db) (\<lambda>(freeBucket, db1).
            bindE (upd_order (Some a) (\<lambda>d. d\<lparr>do_order := ord\<rparr>) db1) (\<lambda>db2.
            bindE (direct_try_match (ord_iorder ord) cmd1 db2) (\<lambda>(db3, cmd2, filled).
              if filled = ord_size ord
              then Inr (SUCCESS,
                     free_bucket freeBucket (free_order a
                       (db3\<lparr>db_orderIdIndex := um_erase (cmd_orderId cmd) (db_orderIdIndex db3)\<rparr>)), cmd2)
              else bindE (upd_order (Some a) (\<lambda>d. d\<lparr>do_order := ord\<lparr>ord_filled := filled\<rparr>\<rparr>) db3) (\<lambda>db4.
                   bindE (direct_insert_order a freeBucket db4) (\<lambda>db5. Inr (SUCCESS, db5, cmd2)))))))"

section \<open>Queries\<close>

text \<open>The bucket of an entry of a price map; the invariant excludes a dangling one.\<close>

definition bucket_at :: "direct_book \<Rightarrow> addr \<Rightarrow> direct_bucket" where
  "bucket_at db b =
     (case db_buckets db b of
        Some x \<Rightarrow> x
      | None \<Rightarrow> \<lparr>bu_price = 0, bu_lastOrder = None, bu_totalVolume = 0, bu_numOrders = 0\<rparr>)"

definition direct_orders_num :: "order_action \<Rightarrow> direct_book \<Rightarrow> int" where
  "direct_orders_num action db =
     fold (\<lambda>(_, b) n. n + bu_numOrders (bucket_at db b)) (art_map_for_each INT32_MAX (price_buckets action db)) 0"

definition direct_total_orders_volume :: "order_action \<Rightarrow> direct_book \<Rightarrow> int" where
  "direct_total_orders_volume action db =
     fold (\<lambda>(_, b) v. v + bu_totalVolume (bucket_at db b)) (art_map_for_each INT32_MAX (price_buckets action db)) 0"

definition direct_get_order_by_id :: "int \<Rightarrow> direct_book \<Rightarrow> order option" where
  "direct_get_order_by_id orderId db =
     (case um_find (db_orderIdIndex db) orderId of
        None \<Rightarrow> None
      | Some a \<Rightarrow> map_option do_order (db_orders db a))"

definition direct_find_user_orders :: "int \<Rightarrow> direct_book \<Rightarrow> order list" where
  "direct_find_user_orders uid db =
     concat (map (\<lambda>(orderId, a). case db_orders db a of
        None \<Rightarrow> []
      | Some d \<Rightarrow> if ord_uid (do_order d) = uid then [(do_order d)\<lparr>ord_orderId := orderId\<rparr>] else [])
       (db_orderIdIndex db))"

text \<open>
  \<open>ProcessAskOrders\<close>, \<open>ProcessBidOrders\<close> and \<open>CollectOrders\<close>: from the best order along \<open>prev\<close>.
\<close>

fun direct_collect :: "nat \<Rightarrow> (addr \<Rightarrow> direct_order option) \<Rightarrow> addr option \<Rightarrow> exn + order list" where
  "direct_collect fuel h None = Inr []"
| "direct_collect 0 h (Some a) = Inl Out_Of_Fuel"
| "direct_collect (Suc fuel) h (Some a) =
     bindE (deref h (Some a)) (\<lambda>d. bindE (direct_collect fuel h (do_prev d)) (\<lambda>os. Inr (do_order d # os)))"

definition direct_process_orders :: "order_action \<Rightarrow> direct_book \<Rightarrow> exn + order list" where
  "direct_process_orders s db = direct_collect (length (db_orderIdIndex db)) (db_orders db) (best_order s db)"

definition direct_total_buckets :: "order_action \<Rightarrow> int \<Rightarrow> direct_book \<Rightarrow> int" where
  "direct_total_buckets s limit db = art_map_size limit (price_buckets s db)"

definition direct_fill_ask :: "direct_book \<Rightarrow> int \<Rightarrow> int \<times> addr \<Rightarrow> l2_market_data \<Rightarrow> l2_market_data" where
  "direct_fill_ask db sz e data =
     (if l2_askSize data < sz
      then let i = nat (l2_askSize data); b = bucket_at db (snd e)
           in data\<lparr>l2_askSize := l2_askSize data + 1, l2_askPrices := (l2_askPrices data)[i := bu_price b],
                   l2_askVolumes := (l2_askVolumes data)[i := bu_totalVolume b],
                   l2_askOrders := (l2_askOrders data)[i := bu_numOrders b]\<rparr>
      else data)"

definition direct_fill_bid :: "direct_book \<Rightarrow> int \<Rightarrow> int \<times> addr \<Rightarrow> l2_market_data \<Rightarrow> l2_market_data" where
  "direct_fill_bid db sz e data =
     (if l2_bidSize data < sz
      then let i = nat (l2_bidSize data); b = bucket_at db (snd e)
           in data\<lparr>l2_bidSize := l2_bidSize data + 1, l2_bidPrices := (l2_bidPrices data)[i := bu_price b],
                   l2_bidVolumes := (l2_bidVolumes data)[i := bu_totalVolume b],
                   l2_bidOrders := (l2_bidOrders data)[i := bu_numOrders b]\<rparr>
      else data)"

definition direct_fill_asks :: "int \<Rightarrow> direct_book \<Rightarrow> l2_market_data \<Rightarrow> l2_market_data" where
  "direct_fill_asks sz db data =
     fold (direct_fill_ask db sz) (art_map_for_each sz (db_askPriceBuckets db)) (data\<lparr>l2_askSize := 0\<rparr>)"

definition direct_fill_bids :: "int \<Rightarrow> direct_book \<Rightarrow> l2_market_data \<Rightarrow> l2_market_data" where
  "direct_fill_bids sz db data =
     fold (direct_fill_bid db sz) (art_map_for_each_desc sz (db_bidPriceBuckets db)) (data\<lparr>l2_bidSize := 0\<rparr>)"

definition direct_l2_snapshot :: "int \<Rightarrow> direct_book \<Rightarrow> l2_market_data" where
  "direct_l2_snapshot sz db =
     (let asksSize = direct_total_buckets ASK sz db; bidsSize = direct_total_buckets BID sz db
      in direct_fill_bids bidsSize db
           (direct_fill_asks asksSize db (new_l2_market_data (nat asksSize) (nat bidsSize))))"

definition direct_ops :: "direct_book order_book_ops" where
  "direct_ops = \<lparr>op_newOrder = direct_new_order, op_cancelOrder = direct_cancel,
     op_reduceOrder = direct_reduce, op_moveOrder = direct_move, op_l2Snapshot = direct_l2_snapshot\<rparr>"

end
