(* ===== verification/Direct_Inv.thy ===== *)
theory Direct_Inv
  imports Direct_Book
begin

text \<open>
  The invariant of the direct book in two parts: the pointers of a side form a doubly linked list,
  and its orders are sorted, at rest, and counted by the buckets the price map leads to. The
  second part looks at orders only through \<open>f\<close>, the order at an address, and \<open>g\<close>, its bucket,
  which no change of a link affects.
\<close>

section \<open>Links\<close>

definition dord :: "(addr \<Rightarrow> direct_order option) \<Rightarrow> addr \<Rightarrow> order" where
  "dord h a = do_order (the (h a))"

definition dbuck :: "(addr \<Rightarrow> direct_order option) \<Rightarrow> addr \<Rightarrow> addr option" where
  "dbuck h a = do_bucket (the (h a))"

fun first_of :: "addr list \<Rightarrow> addr option" where
  "first_of [] = None"
| "first_of (a # xs) = Some a"

definition last_of :: "addr list \<Rightarrow> addr option" where
  "last_of xs = (if xs = [] then None else Some (last xs))"

lemma last_of_simps [simp]:
  "last_of [] = None" "last_of (xs @ [a]) = Some a" "last_of xs = None \<longleftrightarrow> xs = []"
  by (simp_all add: last_of_def)

definition either :: "addr option \<Rightarrow> addr option \<Rightarrow> addr option" where
  "either p q = (if p = None then q else p)"

lemma either_simps [simp]: "either None q = q" "either (Some a) q = Some a" "either p None = p"
  by (simp_all add: either_def)

text \<open>A segment of the list of a side, from the better order \<open>nx\<close> before it to the worse \<open>pv\<close> after it.\<close>

fun dls :: "(addr \<Rightarrow> direct_order option) \<Rightarrow> addr option \<Rightarrow> addr list \<Rightarrow> addr option \<Rightarrow> bool" where
  "dls h nx [] pv = True"
| "dls h nx (a # xs) pv =
     ((\<exists>d. h a = Some d \<and> do_next d = nx \<and> do_prev d = either (first_of xs) pv) \<and> dls h (Some a) xs pv)"

lemma either_assoc [simp]: "either (either p q) r = either p (either q r)"
  by (cases p) simp_all

lemma ends_append [simp]:
  "first_of (xs @ ys) = either (first_of xs) (first_of ys)" "last_of (a # xs) = either (last_of xs) (Some a)"
  by (cases xs; simp) (simp add: last_of_def either_def)

lemma dls_append:
  "dls h nx (xs @ ys) pv \<longleftrightarrow> dls h nx xs (either (first_of ys) pv) \<and> dls h (either (last_of xs) nx) ys pv"
proof (induction xs arbitrary: nx)
  case (Cons a xs)
  then show ?case by auto
qed simp

lemma dls_cong: "\<forall>a \<in> set xs. h a = h' a \<Longrightarrow> dls h nx xs pv = dls h' nx xs pv"
  by (induction xs arbitrary: nx) auto

lemma dls_alive: "dls h nx xs pv \<Longrightarrow> a \<in> set xs \<Longrightarrow> \<exists>d. h a = Some d"
  by (induction xs arbitrary: nx) auto

text \<open>Setting a link of an order that may be null.\<close>

definition put_prev :: "addr option \<Rightarrow> addr option \<Rightarrow> (addr \<Rightarrow> direct_order option) \<Rightarrow> addr \<Rightarrow> direct_order option" where
  "put_prev p v h = (case p of None \<Rightarrow> h | Some a \<Rightarrow> h(a := map_option (\<lambda>d. d\<lparr>do_prev := v\<rparr>) (h a)))"

definition put_next :: "addr option \<Rightarrow> addr option \<Rightarrow> (addr \<Rightarrow> direct_order option) \<Rightarrow> addr \<Rightarrow> direct_order option" where
  "put_next p v h = (case p of None \<Rightarrow> h | Some a \<Rightarrow> h(a := map_option (\<lambda>d. d\<lparr>do_next := v\<rparr>) (h a)))"

lemma put_data [simp]:
  "dord (put_prev p v h) = dord h" "dbuck (put_prev p v h) = dbuck h"
  "dord (put_next p v h) = dord h" "dbuck (put_next p v h) = dbuck h"
proof -
  have "dord (put_prev p v h) a = dord h a \<and> dbuck (put_prev p v h) a = dbuck h a \<and>
      dord (put_next p v h) a = dord h a \<and> dbuck (put_next p v h) a = dbuck h a" for a
    by (cases p; cases "h a") (auto simp: dord_def dbuck_def put_prev_def put_next_def)
  then show "dord (put_prev p v h) = dord h" "dbuck (put_prev p v h) = dbuck h"
    "dord (put_next p v h) = dord h" "dbuck (put_next p v h) = dbuck h" by (simp_all add: fun_eq_iff)
qed

lemma put_alive [simp]: "put_prev p v h a = None \<longleftrightarrow> h a = None" "put_next p v h a = None \<longleftrightarrow> h a = None"
  by (auto simp: put_prev_def put_next_def split: option.split)

lemma put_other [simp]: "p \<noteq> Some a \<Longrightarrow> put_prev p v h a = h a" "p \<noteq> Some a \<Longrightarrow> put_next p v h a = h a"
  by (auto simp: put_prev_def put_next_def split: option.split)

lemma put_same [simp]:
  "put_prev (Some a) v h a = map_option (\<lambda>d. d\<lparr>do_prev := v\<rparr>) (h a)"
  "put_next (Some a) v h a = map_option (\<lambda>d. d\<lparr>do_next := v\<rparr>) (h a)"
  by (simp_all add: put_prev_def put_next_def)

lemma dls_put_prev:
  assumes "dls h nx xs pv" and "distinct xs"
  shows "dls (put_prev (last_of xs) v h) nx xs v"
proof (cases xs rule: rev_cases)
  case (snoc ys z)
  have "dls (put_prev (Some z) v h) nx ys (Some z) \<longleftrightarrow> dls h nx ys (Some z)"
    using assms(2) snoc by (intro dls_cong ballI put_other) auto
  with assms snoc show ?thesis by (auto simp: dls_append)
qed simp

lemma dls_put_next:
  assumes "dls h nx xs pv" and "distinct xs"
  shows "dls (put_next (first_of xs) v h) v xs pv"
proof (cases xs)
  case (Cons a ys)
  have "dls (put_next (Some a) v h) (Some a) ys pv \<longleftrightarrow> dls h (Some a) ys pv"
    using assms(2) Cons by (intro dls_cong ballI put_other) auto
  with assms Cons show ?thesis by auto
qed simp

lemma last_of_notin: "a \<notin> set xs \<Longrightarrow> last_of xs \<noteq> Some a"
  by (auto simp: last_of_def)

lemma first_of_notin: "a \<notin> set xs \<Longrightarrow> first_of xs \<noteq> Some a"
  by (cases xs) auto

text \<open>Taking an order out of the list and putting one in.\<close>

lemma dls_remove:
  assumes "dls h nx (l @ a # r) None" and "distinct (l @ a # r)"
  shows "dls (put_next (first_of r) (either (last_of l) nx) (put_prev (last_of l) (first_of r) h)) nx (l @ r) None"
proof -
  let ?h1 = "put_prev (last_of l) (first_of r) h"
  have parts: "dls h nx l (Some a)" "dls h (Some a) r None" using assms(1) by (simp_all add: dls_append)
  have "dls ?h1 nx l (first_of r)" using dls_put_prev[OF parts(1)] assms(2) by simp
  moreover have "dls (put_next (first_of r) v ?h1) nx l (first_of r) \<longleftrightarrow> dls ?h1 nx l (first_of r)" for v
    using assms(2) first_of_notin by (intro dls_cong ballI put_other) auto
  moreover have "dls ?h1 (Some a) r None \<longleftrightarrow> dls h (Some a) r None"
    using assms(2) last_of_notin by (intro dls_cong ballI put_other) auto
  ultimately show ?thesis using parts(2) dls_put_next[of ?h1 "Some a" r None] assms(2) by (simp add: dls_append)
qed

lemma dls_insert:
  assumes "dls h nx (l @ r) None" and "distinct (l @ a # r)" and "h a = Some d"
    and "do_next d = either (last_of l) nx" and "do_prev d = first_of r"
  shows "dls (put_next (first_of r) (Some a) (put_prev (last_of l) (Some a) h)) nx (l @ a # r) None"
proof -
  let ?h1 = "put_prev (last_of l) (Some a) h"
  let ?h2 = "put_next (first_of r) (Some a) ?h1"
  have parts: "dls h nx l (first_of r)" "dls h (either (last_of l) nx) r None" using assms(1) by (simp_all add: dls_append)
  have "dls ?h1 nx l (Some a)" using dls_put_prev[OF parts(1)] assms(2) by simp
  moreover have "dls ?h2 nx l (Some a) \<longleftrightarrow> dls ?h1 nx l (Some a)"
    using assms(2) first_of_notin by (intro dls_cong ballI put_other) auto
  moreover have "dls ?h1 (either (last_of l) nx) r None \<longleftrightarrow> dls h (either (last_of l) nx) r None"
    using assms(2) last_of_notin by (intro dls_cong ballI put_other) auto
  moreover have "?h2 a = h a"
    using assms(2) last_of_notin[of a l] first_of_notin[of a r] by simp
  ultimately show ?thesis
    using parts(2) dls_put_next[of ?h1 "either (last_of l) nx" r None "Some a"] assms(2-5) by (simp add: dls_append)
qed

end
