(* ===== verification/Direct_Data.thy ===== *)
theory Direct_Data
  imports Direct_Inv
begin

text \<open>
  The data of a side of the direct book: what its list of orders, the heap of buckets and the price
  map have to do with each other, and how that survives taking an order out, resizing one and
  putting one in.
\<close>

section \<open>The invariant\<close>

definition at_price :: "(addr \<Rightarrow> order) \<Rightarrow> addr list \<Rightarrow> int \<Rightarrow> addr list" where
  "at_price f xs p = filter (\<lambda>a. ord_price (f a) = p) xs"

lemma at_price_simps [simp]:
  "at_price f [] p = []" "at_price f (xs @ ys) p = at_price f xs p @ at_price f ys p"
  "at_price f (a # xs) p = (if ord_price (f a) = p then a # at_price f xs p else at_price f xs p)"
  by (simp_all add: at_price_def)

lemma at_price_empty: "at_price f xs p = [] \<longleftrightarrow> (\<forall>a \<in> set xs. ord_price (f a) \<noteq> p)"
  by (auto simp: at_price_def filter_empty_conv)

lemma set_at_price: "set (at_price f xs p) = {a \<in> set xs. ord_price (f a) = p}"
  by (auto simp: at_price_def)

lemma at_price_cong: "\<forall>a \<in> set xs. f a = f' a \<Longrightarrow> at_price f xs p = at_price f' xs p"
  by (auto simp: at_price_def intro: filter_cong)

text \<open>What the bucket of a price holds.\<close>

definition bucket_view :: "(addr \<Rightarrow> order) \<Rightarrow> addr list \<Rightarrow> int \<Rightarrow> direct_bucket" where
  "bucket_view f ys p = \<lparr>bu_price = p, bu_lastOrder = last_of ys, bu_totalVolume = volume (map f ys),
     bu_numOrders = int (length ys)\<rparr>"

definition bucket_addrs :: "addr art_map \<Rightarrow> addr set" where
  "bucket_addrs m = {b. \<exists>p. art_key p \<and> art_map_get p m = Some b}"

definition side_data ::
  "order_action \<Rightarrow> (addr \<Rightarrow> order) \<Rightarrow> (addr \<Rightarrow> addr option) \<Rightarrow> (addr \<Rightarrow> direct_bucket option)
     \<Rightarrow> addr list \<Rightarrow> addr art_map \<Rightarrow> bool" where
  "side_data s f g B xs m \<longleftrightarrow>
     distinct xs \<and> side_ok s (map f xs) \<and> art_map_ok m \<and>
     (\<forall>a \<in> set xs. art_key (ord_price (f a)) \<and> g a \<noteq> None \<and> art_map_get (ord_price (f a)) m = g a) \<and>
     (\<forall>p b. art_key p \<longrightarrow> art_map_get p m = Some b \<longrightarrow>
        at_price f xs p \<noteq> [] \<and> B b = Some (bucket_view f (at_price f xs p) p))"

lemma side_dataD:
  assumes "side_data s f g B xs m"
  shows "distinct xs" and "side_ok s (map f xs)" and "art_map_ok m"
    and "a \<in> set xs \<Longrightarrow> art_key (ord_price (f a))"
    and "a \<in> set xs \<Longrightarrow> \<exists>b. g a = Some b \<and> art_map_get (ord_price (f a)) m = Some b"
    and "art_key p \<Longrightarrow> art_map_get p m = Some b \<Longrightarrow> at_price f xs p \<noteq> []"
    and "art_key p \<Longrightarrow> art_map_get p m = Some b \<Longrightarrow> B b = Some (bucket_view f (at_price f xs p) p)"
  using assms by (auto simp: side_data_def)

lemma side_data_resting: "side_data s f g B xs m \<Longrightarrow> a \<in> set xs \<Longrightarrow> resting s (f a)"
  by (auto simp: side_data_def side_ok_def)

text \<open>One bucket serves one price.\<close>

lemma bucket_price_inj:
  assumes "side_data s f g B xs m" and "art_key p" "art_map_get p m = Some b" and "art_key q" "art_map_get q m = Some b"
  shows "p = q"
  using side_dataD(7)[OF assms(1-3)] side_dataD(7)[OF assms(1,4,5)] by (simp add: bucket_view_def)

lemma order_bucket:
  assumes "side_data s f g B xs m" and "a \<in> set xs"
  obtains b where "g a = Some b" "art_map_get (ord_price (f a)) m = Some b" "b \<in> bucket_addrs m"
    "B b = Some (bucket_view f (at_price f xs (ord_price (f a))) (ord_price (f a)))"
  using side_dataD(4,5)[OF assms] side_dataD(7)[OF assms(1)] by (auto simp: bucket_addrs_def)

lemma same_bucket:
  assumes "side_data s f g B xs m" and "a \<in> set xs" and "c \<in> set xs"
  shows "g a = g c \<longleftrightarrow> ord_price (f a) = ord_price (f c)"
  using side_dataD(4,5)[OF assms(1,2)] side_dataD(4,5)[OF assms(1,3)] bucket_price_inj[OF assms(1)] by metis

lemma side_data_cong:
  assumes d: "side_data s f g B xs m"
    and same: "\<forall>a \<in> set xs. f a = f' a \<and> g a = g' a" "\<forall>b \<in> bucket_addrs m. B b = B' b"
  shows "side_data s f' g' B' xs m"
proof -
  have f: "map f' xs = map f xs" using same(1) by simp
  have at: "at_price f' xs p = at_price f xs p" for p using same(1) by (intro at_price_cong) simp
  have "map f' (at_price f xs p) = map f (at_price f xs p)" for p using same(1) by (simp add: set_at_price)
  then have view: "bucket_view f' (at_price f xs p) p = bucket_view f (at_price f xs p) p" for p
    by (simp add: bucket_view_def del: map_eq_conv)
  have "B' b = B b" if "art_key p" "art_map_get p m = Some b" for p b
    using same(2) that by (auto simp: bucket_addrs_def)
  with d same(1) show ?thesis unfolding side_data_def f at view by simp
qed

lemma side_data_empty [simp]: "side_data s f g B [] None"
  by (simp add: side_data_def side_ok_def art.empty_law art_map_get_def)

section \<open>Sorted lists\<close>

lemma side_ok_append:
  "side_ok s (xs @ ys) \<longleftrightarrow> side_ok s xs \<and> side_ok s ys \<and>
     (\<forall>x \<in> set xs. \<forall>y \<in> set ys. \<not> before s (ord_price y) (ord_price x))"
  by (auto simp: side_ok_def sorted_wrt_append)

lemma side_ok_Cons:
  "side_ok s (x # xs) \<longleftrightarrow> resting s x \<and> side_ok s xs \<and> (\<forall>y \<in> set xs. \<not> before s (ord_price y) (ord_price x))"
  by (auto simp: side_ok_def)

lemma side_ok_Nil [simp]: "side_ok s []"
  by (simp add: side_ok_def)

text \<open>In a sorted list the orders of a price are neighbours.\<close>

lemma before_last_same:
  assumes "side_ok s (map f (l @ a # r))" and "at_price f l (ord_price (f a)) \<noteq> []"
  shows "l \<noteq> [] \<and> ord_price (f (last l)) = ord_price (f a) \<and> last (at_price f l (ord_price (f a))) = last l"
proof (cases l rule: rev_cases)
  case (snoc l' z)
  obtain c where c: "c \<in> set l" "ord_price (f c) = ord_price (f a)" using assms(2) by (auto simp: at_price_empty)
  have "\<not> before s (ord_price (f a)) (ord_price (f z))" using assms(1) snoc by (simp add: side_ok_append side_ok_Cons)
  moreover have "c = z \<or> \<not> before s (ord_price (f z)) (ord_price (f c))"
    using assms(1) snoc c(1) by (auto simp: side_ok_append side_ok_Cons)
  ultimately have "ord_price (f z) = ord_price (f a)" using c(2) not_before by metis
  with snoc show ?thesis by simp
qed (use assms(2) in simp)

section \<open>Changes at one price\<close>

lemma side_data_change:
  assumes d: "side_data s f g B xs m" and key: "art_key p0"
    and list: "distinct xs'" "side_ok s (map f' xs')"
    and others: "\<And>p. p \<noteq> p0 \<Longrightarrow> at_price f' xs' p = at_price f xs p"
      "\<And>a. a \<in> set xs \<Longrightarrow> ord_price (f a) \<noteq> p0 \<Longrightarrow> f' a = f a \<and> g' a = g a"
    and map: "art_map_ok m'" "\<And>p. art_key p \<Longrightarrow> p \<noteq> p0 \<Longrightarrow> art_map_get p m' = art_map_get p m"
    and here: "case art_map_get p0 m' of
        None \<Rightarrow> at_price f' xs' p0 = []
      | Some b \<Rightarrow> at_price f' xs' p0 \<noteq> [] \<and> B' b = Some (bucket_view f' (at_price f' xs' p0) p0) \<and>
          (\<forall>a \<in> set (at_price f' xs' p0). g' a = Some b)"
    and frame: "\<And>p b. art_key p \<Longrightarrow> p \<noteq> p0 \<Longrightarrow> art_map_get p m = Some b \<Longrightarrow> B' b = B b"
  shows "side_data s f' g' B' xs' m'"
proof -
  have old: "a \<in> set xs \<and> f' a = f a \<and> g' a = g a"
    if "a \<in> set xs'" "ord_price (f' a) = p" "p \<noteq> p0" for a p
  proof -
    have "a \<in> set (at_price f' xs' p)" using that by (simp add: set_at_price)
    then have "a \<in> set xs \<and> ord_price (f a) = p" by (simp add: others(1)[OF that(3)] set_at_price)
    with others(2)[of a] that(3) show ?thesis by blast
  qed
  have "art_key (ord_price (f' a)) \<and> g' a \<noteq> None \<and> art_map_get (ord_price (f' a)) m' = g' a" if "a \<in> set xs'" for a
  proof (cases "ord_price (f' a) = p0")
    case True
    then have a: "a \<in> set (at_price f' xs' p0)" using that by (simp add: set_at_price)
    then have "at_price f' xs' p0 \<noteq> []" by auto
    with here a key True show ?thesis by (auto split: option.splits)
  next
    case False
    note o = old[OF that refl False]
    with side_dataD(4,5)[OF d, of a] map(2)[of "ord_price (f a)"] False show ?thesis by auto
  qed
  moreover have "at_price f' xs' p \<noteq> [] \<and> B' b = Some (bucket_view f' (at_price f' xs' p) p)"
    if p: "art_key p" "art_map_get p m' = Some b" for p b
  proof (cases "p = p0")
    case True
    with here p show ?thesis by simp
  next
    case False
    have get: "art_map_get p m = Some b" using map(2)[OF p(1) False] p(2) by simp
    have at: "at_price f' xs' p = at_price f xs p" by (rule others(1)[OF False])
    have "map f' (at_price f xs p) = map f (at_price f xs p)"
      using others(2) False by (auto simp: set_at_price)
    then have "bucket_view f' (at_price f' xs' p) p = bucket_view f (at_price f xs p) p"
      by (simp add: bucket_view_def at del: map_eq_conv)
    with side_dataD(6,7)[OF d p(1) get] frame[OF p(1) False get] at show ?thesis by simp
  qed
  ultimately show ?thesis using list map(1) by (simp add: side_data_def)
qed

lemma other_bucket:
  assumes "side_data s f g B xs m" and "art_key p0" "art_map_get p0 m = Some b0"
    and "art_key p" "p \<noteq> p0" "art_map_get p m = Some b"
  shows "b \<noteq> b0"
  using bucket_price_inj[OF assms(1-3) assms(4)] assms(5,6) by auto

text \<open>Resizing an order, by a partial fill or a reduction.\<close>

lemma side_data_resize:
  assumes d: "side_data s f g B (l @ a # r) m" and b: "g a = Some b" "B b = Some bb"
    and x: "ord_price x = ord_price (f a)" "resting s x"
  shows "side_data s (f(a := x)) g (B(b \<mapsto> bb\<lparr>bu_totalVolume := bu_totalVolume bb - (remaining (f a) - remaining x)\<rparr>)) (l @ a # r) m"
proof -
  let ?p = "ord_price (f a)"
  have a: "a \<in> set (l @ a # r)" and out: "a \<notin> set l" "a \<notin> set r" using side_dataD(1)[OF d] by auto
  have get: "art_map_get ?p m = Some b" "art_key ?p" using side_dataD(4,5)[OF d a] b(1) by auto
  have bb: "bb = bucket_view f (at_price f (l @ a # r) ?p) ?p" using side_dataD(7)[OF d get(2,1)] b(2) by simp
  have at: "at_price (f(a := x)) ys p = at_price f ys p" for ys p
    unfolding at_price_def using x(1) by (intro filter_cong) auto
  have same: "map (f(a := x)) l = map f l" "map (f(a := x)) r = map f r"
    "map (f(a := x)) (at_price f l p) = map f (at_price f l p)" "map (f(a := x)) (at_price f r p) = map f (at_price f r p)" for p
    using out by (auto simp: set_at_price)
  show ?thesis
  proof (rule side_data_change[OF d get(2)])
    show "distinct (l @ a # r)" by (rule side_dataD(1)[OF d])
    show "side_ok s (map (f(a := x)) (l @ a # r))"
      using side_dataD(2)[OF d] x unfolding map_append list.map same by (auto simp: side_ok_append side_ok_Cons)
    show "art_map_ok m" by (rule side_dataD(3)[OF d])
    have "bucket_view (f(a := x)) (at_price (f(a := x)) (l @ a # r) ?p) ?p =
        bb\<lparr>bu_totalVolume := bu_totalVolume bb - (remaining (f a) - remaining x)\<rparr>"
      unfolding bb at by (simp add: bucket_view_def same del: map_eq_conv)
    moreover have "\<forall>c \<in> set (at_price f (l @ a # r) ?p). g c = Some b"
      using same_bucket[OF d _ a] b(1) by (auto simp: set_at_price)
    ultimately show "case art_map_get ?p m of
        None \<Rightarrow> at_price (f(a := x)) (l @ a # r) ?p = []
      | Some c \<Rightarrow> at_price (f(a := x)) (l @ a # r) ?p \<noteq> [] \<and>
          (B(b \<mapsto> bb\<lparr>bu_totalVolume := bu_totalVolume bb - (remaining (f a) - remaining x)\<rparr>)) c =
            Some (bucket_view (f(a := x)) (at_price (f(a := x)) (l @ a # r) ?p) ?p) \<and>
          (\<forall>e \<in> set (at_price (f(a := x)) (l @ a # r) ?p). g e = Some c)"
      unfolding at get(1) option.case using a by (simp add: at_price_empty)
    show "(B(b \<mapsto> bb\<lparr>bu_totalVolume := bu_totalVolume bb - (remaining (f a) - remaining x)\<rparr>)) c = B c"
      if "art_key q" "q \<noteq> ?p" "art_map_get q m = Some c" for q c
      using other_bucket[OF d get(2,1) that] by simp
    show "at_price (f(a := x)) (l @ a # r) q = at_price f (l @ a # r) q" for q by (rule at)
    show "(f(a := x)) c = f c \<and> g c = g c" if "ord_price (f c) \<noteq> ?p" for c using that by auto
  qed simp
qed

text \<open>Taking an order out.\<close>

definition without_order :: "order \<Rightarrow> direct_bucket \<Rightarrow> direct_bucket" where
  "without_order x b =
     b\<lparr>bu_totalVolume := bu_totalVolume b - (ord_size x - ord_filled x), bu_numOrders := bu_numOrders b - 1\<rparr>"

lemma remove_common:
  assumes d: "side_data s f g B (l @ a # r) m"
  shows "distinct (l @ r)" and "side_ok s (map f (l @ r))"
    and "p \<noteq> ord_price (f a) \<Longrightarrow> at_price f (l @ r) p = at_price f (l @ a # r) p"
  using side_dataD(1,2)[OF d] by (auto simp: side_ok_append side_ok_Cons)

lemma side_data_remove_keep:
  assumes d: "side_data s f g B (l @ a # r) m" and b: "g a = Some b" "B b = Some bb"
    and more: "at_price f (l @ r) (ord_price (f a)) \<noteq> []"
  shows "side_data s f g (B(b \<mapsto> (without_order (f a) bb)
      \<lparr>bu_lastOrder := last_of (at_price f (l @ r) (ord_price (f a)))\<rparr>)) (l @ r) m"
proof -
  let ?p = "ord_price (f a)"
  have a: "a \<in> set (l @ a # r)" by simp
  have get: "art_map_get ?p m = Some b" "art_key ?p" using side_dataD(4,5)[OF d a] b(1) by auto
  have bb: "bb = bucket_view f (at_price f (l @ a # r) ?p) ?p" using side_dataD(7)[OF d get(2,1)] b(2) by simp
  have "bucket_view f (at_price f (l @ r) ?p) ?p =
      (without_order (f a) bb)\<lparr>bu_lastOrder := last_of (at_price f (l @ r) ?p)\<rparr>"
    unfolding bb by (simp add: bucket_view_def without_order_def remaining_def)
  moreover have "\<forall>c \<in> set (at_price f (l @ r) ?p). g c = Some b"
    using same_bucket[OF d _ a] b(1) by (auto simp: set_at_price simp del: at_price_simps)
  ultimately show ?thesis
    using get more
    by (intro side_data_change[OF d get(2) remove_common(1,2)[OF d] remove_common(3)[OF d]])
       (auto simp: side_dataD(3)[OF d] dest: other_bucket[OF d get(2,1)] simp del: at_price_simps)
qed

lemma side_data_remove_last:
  assumes d: "side_data s f g B (l @ a # r) m" and b: "g a = Some b"
    and none: "at_price f (l @ r) (ord_price (f a)) = []"
  shows "side_data s f g (B(b := z)) (l @ r) (art_map_remove (ord_price (f a)) m)"
    and "bucket_addrs (art_map_remove (ord_price (f a)) m) \<subseteq> bucket_addrs m - {b}"
proof -
  let ?p = "ord_price (f a)"
  have a: "a \<in> set (l @ a # r)" by simp
  have get: "art_map_get ?p m = Some b" "art_key ?p" using side_dataD(4,5)[OF d a] b(1) by auto
  note rem = art.remove_law[OF side_dataD(3)[OF d] get(2)]
  show "side_data s f g (B(b := z)) (l @ r) (art_map_remove ?p m)"
    using none rem get(2)
    by (intro side_data_change[OF d get(2) remove_common(1,2)[OF d] remove_common(3)[OF d]])
       (auto dest: other_bucket[OF d get(2,1)] simp del: at_price_simps)
  show "bucket_addrs (art_map_remove ?p m) \<subseteq> bucket_addrs m - {b}"
    using rem(2) get(2) other_bucket[OF d get(2,1)] by (fastforce simp: bucket_addrs_def split: if_splits)
qed

text \<open>Which of the two applies can be read off the last order of the bucket and its neighbour.\<close>

lemma remove_test:
  assumes d: "side_data s f g B (l @ a # r) m" and b: "g a = Some b" "B b = Some bb"
  shows "bu_lastOrder bb = Some a \<longleftrightarrow> at_price f r (ord_price (f a)) = []"
    and "at_price f l (ord_price (f a)) \<noteq> [] \<longleftrightarrow> l \<noteq> [] \<and> g (last l) = Some b"
    and "at_price f l (ord_price (f a)) \<noteq> [] \<Longrightarrow> last (at_price f l (ord_price (f a))) = last l"
    and "bu_lastOrder bb \<noteq> Some a \<Longrightarrow> bu_lastOrder bb = last_of (at_price f (l @ r) (ord_price (f a)))"
proof -
  let ?p = "ord_price (f a)"
  have a: "a \<in> set (l @ a # r)" "a \<notin> set r" "a \<notin> set l" using side_dataD(1)[OF d] by auto
  have get: "art_map_get ?p m = Some b" "art_key ?p" using side_dataD(4,5)[OF d a(1)] b(1) by auto
  have bb: "bu_lastOrder bb = last_of (at_price f (l @ a # r) ?p)"
    using side_dataD(7)[OF d get(2,1)] b(2) by (simp add: bucket_view_def)
  have r: "last (at_price f r ?p) \<noteq> a" if "at_price f r ?p \<noteq> []"
    using last_in_set[OF that] a(2) by (auto simp: set_at_price)
  show "bu_lastOrder bb = Some a \<longleftrightarrow> at_price f r ?p = []" using r by (auto simp: bb last_of_def)
  show "bu_lastOrder bb \<noteq> Some a \<Longrightarrow> bu_lastOrder bb = last_of (at_price f (l @ r) ?p)"
    by (auto simp: bb last_of_def)
  note near = before_last_same[OF side_dataD(2)[OF d]]
  show "at_price f l ?p \<noteq> [] \<Longrightarrow> last (at_price f l ?p) = last l" using near by blast
  have "g (last l) = Some b \<longleftrightarrow> ord_price (f (last l)) = ?p" if "l \<noteq> []"
    using same_bucket[OF d _ a(1), of "last l"] b(1) that by simp
  moreover have "at_price f l ?p \<noteq> []" if "l \<noteq> []" "ord_price (f (last l)) = ?p"
    using that last_in_set[of l] by (auto simp: at_price_empty)
  ultimately show "at_price f l ?p \<noteq> [] \<longleftrightarrow> l \<noteq> [] \<and> g (last l) = Some b" using near by blast
qed

section \<open>Putting an order in\<close>

lemma insert_common:
  assumes d: "side_data s f g B (l @ r) m" and a: "a \<notin> set (l @ r)"
  shows "distinct (l @ a # r)"
    and "map (f(a := x)) l = map f l" "map (f(a := x)) r = map f r"
    and "at_price (f(a := x)) l p = at_price f l p" "at_price (f(a := x)) r p = at_price f r p"
    and "map (f(a := x)) (at_price f l p) = map f (at_price f l p)"
    and "c \<in> set (l @ r) \<Longrightarrow> (f(a := x)) c = f c \<and> (g(a := v)) c = g c"
proof -
  show "distinct (l @ a # r)" using side_dataD(1)[OF d] a by auto
  show "map (f(a := x)) l = map f l" "map (f(a := x)) r = map f r" using a by auto
  show "at_price (f(a := x)) l p = at_price f l p" "at_price (f(a := x)) r p = at_price f r p"
    using a by (auto intro!: at_price_cong)
  show "map (f(a := x)) (at_price f l p) = map f (at_price f l p)" using a by (auto simp: set_at_price)
  show "c \<in> set (l @ r) \<Longrightarrow> (f(a := x)) c = f c \<and> (g(a := v)) c = g c" using a by auto
qed

definition with_order :: "addr \<Rightarrow> order \<Rightarrow> direct_bucket \<Rightarrow> direct_bucket" where
  "with_order a x b =
     b\<lparr>bu_totalVolume := bu_totalVolume b + (ord_size x - ord_filled x), bu_numOrders := bu_numOrders b + 1,
       bu_lastOrder := Some a\<rparr>"

lemma side_data_insert_keep:
  assumes d: "side_data s f g B (l @ r) m" and a: "a \<notin> set (l @ r)" and key: "art_key (ord_price x)"
    and sorted: "side_ok s (map f l @ x # map f r)" and r: "at_price f r (ord_price x) = []"
    and b: "art_map_get (ord_price x) m = Some b" "B b = Some bb"
  shows "side_data s (f(a := x)) (g(a := Some b)) (B(b \<mapsto> with_order a x bb)) (l @ a # r) m"
    and "l \<noteq> []" and "bu_lastOrder bb = Some (last l)"
proof -
  let ?p = "ord_price x"
  note c = insert_common(1)[OF d a] insert_common(2-6)[OF d a, where x = x]
    insert_common(7)[OF d a, where x = x and v = "Some b"]
  have bb: "bb = bucket_view f (at_price f (l @ r) ?p) ?p" using side_dataD(7)[OF d key b(1)] b(2) by simp
  have l: "at_price f l ?p \<noteq> []" using side_dataD(6)[OF d key b(1)] r by simp
  have at: "at_price (f(a := x)) (l @ a # r) ?p = at_price f l ?p @ [a]" using c(4,5) r by simp
  have "bucket_view (f(a := x)) (at_price f l ?p @ [a]) ?p = with_order a x bb"
    unfolding bb using r c(6)[of ?p] by (simp add: bucket_view_def with_order_def remaining_def del: map_eq_conv)
  moreover have "g e = Some b" if "e \<in> set (at_price f l ?p)" for e
    using side_dataD(5)[OF d, of e] b(1) that by (auto simp: set_at_price)
  ultimately show "side_data s (f(a := x)) (g(a := Some b)) (B(b \<mapsto> with_order a x bb)) (l @ a # r) m"
    using key sorted c(2-5,7) b(1) at
    by (intro side_data_change[OF d key c(1)])
       (auto simp: side_dataD(3)[OF d] dest: other_bucket[OF d key b(1)] simp del: map_eq_conv)
  have "side_ok s (map (f(a := x)) (l @ a # r))" using sorted c(2,3) by (simp del: map_eq_conv)
  from before_last_same[OF this] l c(4)[of ?p] show "l \<noteq> []" "bu_lastOrder bb = Some (last l)"
    using r by (simp_all add: bb bucket_view_def last_of_def)
qed

lemma side_data_insert_new:
  assumes d: "side_data s f g B (l @ r) m" and a: "a \<notin> set (l @ r)" and key: "art_key (ord_price x)"
    and sorted: "side_ok s (map f l @ x # map f r)"
    and b: "art_map_get (ord_price x) m = None" "b \<notin> bucket_addrs m"
  shows "side_data s (f(a := x)) (g(a := Some b)) (B(b \<mapsto> \<lparr>bu_price = ord_price x, bu_lastOrder = Some a,
      bu_totalVolume = ord_size x - ord_filled x, bu_numOrders = 1\<rparr>)) (l @ a # r) (art_map_put (ord_price x) b m)"
    and "bucket_addrs (art_map_put (ord_price x) b m) = insert b (bucket_addrs m)"
proof -
  let ?p = "ord_price x"
  note c = insert_common(1)[OF d a] insert_common(2-6)[OF d a, where x = x]
    insert_common(7)[OF d a, where x = x and v = "Some b"]
  note put = art.put_law[OF side_dataD(3)[OF d] key]
  have none: "at_price f (l @ r) ?p = []"
    using side_dataD(5)[OF d] b(1) by (fastforce simp: at_price_empty simp del: at_price_simps)
  have view: "bucket_view (f(a := x)) [a] ?p = \<lparr>bu_price = ?p, bu_lastOrder = Some a,
      bu_totalVolume = ord_size x - ord_filled x, bu_numOrders = 1\<rparr>"
    by (simp add: bucket_view_def remaining_def)
  show "side_data s (f(a := x)) (g(a := Some b)) (B(b \<mapsto> \<lparr>bu_price = ?p, bu_lastOrder = Some a,
      bu_totalVolume = ord_size x - ord_filled x, bu_numOrders = 1\<rparr>)) (l @ a # r) (art_map_put ?p b m)"
  proof (rule side_data_change[OF d key c(1)])
    show "side_ok s (map (f(a := x)) (l @ a # r))" using sorted c(2,3) by (simp del: map_eq_conv)
    show "at_price (f(a := x)) (l @ a # r) p = at_price f (l @ r) p" if "p \<noteq> ?p" for p using c(4,5) that by simp
    show "(f(a := x)) e = f e \<and> (g(a := Some b)) e = g e" if "e \<in> set (l @ r)" for e by (rule c(7)[OF that])
    show "art_map_ok (art_map_put ?p b m)" by (rule put(1))
    show "art_map_get p (art_map_put ?p b m) = art_map_get p m" if "art_key p" "p \<noteq> ?p" for p
      using put(2)[OF that(1)] that(2) by simp
    have at: "at_price (f(a := x)) (l @ a # r) ?p = [a]" using c(4,5) none by simp
    show "case art_map_get ?p (art_map_put ?p b m) of
        None \<Rightarrow> at_price (f(a := x)) (l @ a # r) ?p = []
      | Some e \<Rightarrow> at_price (f(a := x)) (l @ a # r) ?p \<noteq> [] \<and>
          (B(b \<mapsto> \<lparr>bu_price = ?p, bu_lastOrder = Some a, bu_totalVolume = ord_size x - ord_filled x, bu_numOrders = 1\<rparr>)) e =
            Some (bucket_view (f(a := x)) (at_price (f(a := x)) (l @ a # r) ?p) ?p) \<and>
          (\<forall>c \<in> set (at_price (f(a := x)) (l @ a # r) ?p). (g(a := Some b)) c = Some e)"
      unfolding put(2)[OF key] at view by simp
    show "(B(b \<mapsto> \<lparr>bu_price = ?p, bu_lastOrder = Some a, bu_totalVolume = ord_size x - ord_filled x, bu_numOrders = 1\<rparr>)) e = B e"
      if "art_key p" "art_map_get p m = Some e" for p e
      using b(2) that by (auto simp: bucket_addrs_def)
  qed
  show "bucket_addrs (art_map_put ?p b m) = insert b (bucket_addrs m)"
  proof (intro set_eqI iffI)
    fix e
    assume "e \<in> bucket_addrs (art_map_put ?p b m)"
    then obtain q where "art_key q" "art_map_get q (art_map_put ?p b m) = Some e" by (auto simp: bucket_addrs_def)
    then show "e \<in> insert b (bucket_addrs m)" using put(2)[of q b] by (cases "q = ?p") (auto simp: bucket_addrs_def)
  next
    fix e
    assume "e \<in> insert b (bucket_addrs m)"
    then consider "e = b" | q where "art_key q" "art_map_get q m = Some e" by (auto simp: bucket_addrs_def)
    then show "e \<in> bucket_addrs (art_map_put ?p b m)"
    proof cases
      case 1
      then show ?thesis using put(2)[OF key, of b] key by (auto simp: bucket_addrs_def)
    next
      case 2
      then have "q \<noteq> ?p" using b(1) by auto
      then show ?thesis using 2 put(2)[OF 2(1), of b] by (auto simp: bucket_addrs_def)
    qed
  qed
qed

section \<open>The order before a new price\<close>

lemma find_first:
  assumes "sorted_wrt R xs" and "e \<in> set xs" and "Q e" and "\<forall>e' \<in> set xs. Q e' \<longrightarrow> \<not> R e' e"
  shows "find Q xs = Some e"
  using assms by (induction xs) auto

text \<open>The neighbour \<open>insertOrder\<close> asks for: the next better price that has a bucket.\<close>

lemma better_neighbour:
  assumes d: "side_data s f g B (l @ r) m" and key: "art_key p" and new: "art_map_get p m = None"
    and l: "\<forall>c \<in> set l. \<not> before s p (ord_price (f c))" and r: "\<forall>c \<in> set r. before s p (ord_price (f c))"
  shows "(if s = ASK then art_map_lower p (art_map_put p b m) else art_map_higher p (art_map_put p b m)) =
    (if l = [] then None else g (last l))"
proof -
  let ?es = "art_map_entries m"
  have ok: "art_map_ok m" by (rule side_dataD(3)[OF d])
  have sorted: "sorted_wrt (\<lambda>e e'. fst e < fst e') ?es" using art.sorted_law[OF ok] by (simp add: sorted_wrt_map)
  then have sorted_rev: "sorted_wrt (\<lambda>e e'. fst e' < fst e) (rev ?es)" by (simp add: sorted_wrt_rev)
  have prices: "\<exists>c \<in> set (l @ r). ord_price (f c) = fst e" if "e \<in> set ?es" for e
  proof -
    have k: "art_key (fst e)" by (rule art.keys_law[OF ok that])
    have "map_of ?es (fst e) \<noteq> None" using that by (simp add: map_of_eq_None_iff)
    then obtain c where "art_map_get (fst e) m = Some c" using art.get_law[OF ok k] by auto
    from side_dataD(6)[OF d k this] show ?thesis by (auto simp: at_price_empty simp del: at_price_simps)
  qed
  have ne: "ord_price (f c) \<noteq> p" if "c \<in> set (l @ r)" for c using side_dataD(5)[OF d that] new by auto
  let ?Q = "\<lambda>e :: int \<times> addr. before s (fst e) p"
  have from_l: "\<exists>c \<in> set l. ord_price (f c) = fst e" if "e \<in> set ?es" "?Q e" for e
    using prices[OF that(1)] r that(2) before_trans before_irrefl by (metis Un_iff set_append)
  have near: "(if s = ASK then art_map_lower p (art_map_put p b m) else art_map_higher p (art_map_put p b m)) =
      map_option snd (find ?Q (if s = ASK then rev ?es else ?es))"
    using art.neighbours_after_put[OF ok key] by (cases s) simp_all
  show ?thesis
  proof (cases "l = []")
    case True
    then have "\<not> ?Q e" if "e \<in> set ?es" for e using from_l[OF that] by auto
    then have "find ?Q (if s = ASK then rev ?es else ?es) = None" unfolding find_None_iff by auto
    with True near show ?thesis by simp
  next
    case False
    let ?q = "ord_price (f (last l))"
    have last: "last l \<in> set (l @ r)" using False by simp
    obtain c where c: "g (last l) = Some c" "art_map_get ?q m = Some c" using side_dataD(5)[OF d last] by blast
    have "art_key ?q" by (rule side_dataD(4)[OF d last])
    then have mem: "(?q, c) \<in> set ?es" using c(2) art.get_law[OF ok] by (auto dest: map_of_SomeD)
    have better: "before s ?q p" using l ne[OF last] last_in_set[OF False] by (cases s) auto
    have worst: "\<not> before s ?q (ord_price (f e))" if "e \<in> set l" for e
    proof -
      have "l = butlast l @ [last l]" using False by simp
      then have "side_ok s (map f (butlast l @ [last l]))" using side_dataD(2)[OF d] by (simp add: side_ok_append)
      moreover have "e \<in> set (butlast l) \<or> e = last l" using that False by (metis append_butlast_last_id UnE set_append set_ConsD empty_iff list.set(1))
      ultimately show ?thesis by (auto simp: side_ok_append)
    qed
    have "find ?Q (if s = ASK then rev ?es else ?es) = Some (?q, c)"
    proof (cases s)
      case ASK
      have "find ?Q (rev ?es) = Some (?q, c)"
      proof (rule find_first[OF sorted_rev])
        show "\<forall>e \<in> set (rev ?es). ?Q e \<longrightarrow> \<not> fst (?q, c) < fst e" using from_l worst ASK by fastforce
      qed (use mem better in simp_all)
      with ASK show ?thesis by simp
    next
      case BID
      have "find ?Q ?es = Some (?q, c)"
      proof (rule find_first[OF sorted])
        show "\<forall>e \<in> set ?es. ?Q e \<longrightarrow> \<not> fst e < fst (?q, c)" using from_l worst BID by fastforce
      qed (use mem better in simp_all)
      with BID show ?thesis by simp
    qed
    with near c(1) False show ?thesis by simp
  qed
qed

text \<open>The orders ahead of a new one are those it does not beat, as in the specification.\<close>

lemma insert_place:
  fixes p :: int
  assumes "side_ok s (map f xs)"
  defines "l \<equiv> takeWhile (\<lambda>c. \<not> before s p (ord_price (f c))) xs"
    and "r \<equiv> dropWhile (\<lambda>c. \<not> before s p (ord_price (f c))) xs"
  shows "xs = l @ r" and "\<forall>c \<in> set l. \<not> before s p (ord_price (f c))" and "\<forall>c \<in> set r. before s p (ord_price (f c))"
    and "ord_price x = p \<Longrightarrow> insert_order s x (map f xs) = map f l @ x # map f r"
proof -
  show xs: "xs = l @ r" by (simp add: l_def r_def)
  show "\<forall>c \<in> set l. \<not> before s p (ord_price (f c))" by (auto simp: l_def dest: set_takeWhileD)
  show "\<forall>c \<in> set r. before s p (ord_price (f c))"
  proof (cases r)
    case (Cons c r')
    then have c: "before s p (ord_price (f c))" using hd_dropWhile[of _ xs] by (auto simp: r_def dest!: dropWhile_eq_Cons_conv[THEN iffD1])
    have "\<not> before s (ord_price (f e)) (ord_price (f c))" if "e \<in> set r'" for e
      using assms(1) that unfolding xs Cons by (simp add: side_ok_append side_ok_Cons)
    with c have "before s p (ord_price (f e))" if "e \<in> set r'" for e
      using that not_before before_trans by metis
    with c Cons show ?thesis by simp
  qed simp
  show "ord_price x = p \<Longrightarrow> insert_order s x (map f xs) = map f l @ x # map f r"
    unfolding insert_order_split l_def r_def by (simp add: takeWhile_map dropWhile_map comp_def)
qed

lemma last_of_price:
  assumes d: "side_data s f g B xs m" and "xs = l @ r" and "l \<noteq> []" and "at_price f r (ord_price (f (last l))) = []"
  obtains b bb where "g (last l) = Some b" "b \<in> bucket_addrs m" "B b = Some bb" "bu_lastOrder bb = Some (last l)"
proof -
  have last: "last l \<in> set xs" using assms(2,3) by simp
  obtain b where b: "g (last l) = Some b" "b \<in> bucket_addrs m"
    "B b = Some (bucket_view f (at_price f xs (ord_price (f (last l)))) (ord_price (f (last l))))"
    using order_bucket[OF d last] by metis
  obtain l' z where "l = l' @ [z]" using assms(3) by (metis append_butlast_last_id)
  then have "bu_lastOrder (bucket_view f (at_price f xs (ord_price (f (last l)))) (ord_price (f (last l)))) = Some (last l)"
    using assms(2,4) by (simp add: bucket_view_def last_of_def)
  with b that show ?thesis by blast
qed

end
