(* ===== verification/Direct_Steps.thy ===== *)
theory Direct_Steps
  imports Direct_Data
begin

text \<open>
  The invariant of the whole direct book, and what \<open>RemoveOrder\<close> and \<open>insertOrder\<close> do to it.
  \<open>L s\<close> lists the addresses of side \<open>s\<close> from the best order on, \<open>X\<close> are orders that are in the
  index but not in a list: the order that is being moved.
\<close>

section \<open>The invariant\<close>

definition index_rep :: "(int, addr) umap \<Rightarrow> (addr \<Rightarrow> order) \<Rightarrow> addr set \<Rightarrow> bool" where
  "index_rep idx f A \<longleftrightarrow> distinct (map fst idx) \<and> (\<forall>k a. um_find idx k = Some a \<longleftrightarrow> a \<in> A \<and> ord_orderId (f a) = k)"

definition side_rep :: "direct_book \<Rightarrow> order_action \<Rightarrow> addr list \<Rightarrow> bool" where
  "side_rep db s xs \<longleftrightarrow> dls (db_orders db) None xs None \<and>
     side_data s (dord (db_orders db)) (dbuck (db_orders db)) (db_buckets db) xs (price_buckets s db) \<and>
     best_order s db = first_of xs"

definition linked :: "(order_action \<Rightarrow> addr list) \<Rightarrow> addr set" where
  "linked L = set (L ASK) \<union> set (L BID)"

lemma linked_side: "linked L = set (L s) \<union> set (L (opposite s))"
  by (cases s) (auto simp: linked_def)

definition direct_rep :: "direct_book \<Rightarrow> (order_action \<Rightarrow> addr list) \<Rightarrow> addr set \<Rightarrow> bool" where
  "direct_rep db L X \<longleftrightarrow>
     (\<forall>s. side_rep db s (L s) \<and> set (L s) \<inter> set (L (opposite s)) = {} \<and>
          bucket_addrs (price_buckets s db) \<inter> bucket_addrs (price_buckets (opposite s) db) = {}) \<and>
     X \<inter> linked L = {} \<and> (\<forall>a \<in> X. db_orders db a \<noteq> None) \<and>
     index_rep (db_orderIdIndex db) (dord (db_orders db)) (linked L \<union> X) \<and>
     (\<forall>a \<ge> db_fresh db. db_orders db a = None \<and> db_buckets db a = None)"

definition flat_of :: "direct_book \<Rightarrow> (order_action \<Rightarrow> addr list) \<Rightarrow> flat_book" where
  "flat_of db L = \<lparr>fb_asks = map (dord (db_orders db)) (L ASK), fb_bids = map (dord (db_orders db)) (L BID)\<rparr>"

lemma fb_side_flat_of [simp]: "fb_side s (flat_of db L) = map (dord (db_orders db)) (L s)"
  by (cases s) (simp_all add: flat_of_def)

lemma all_sides: "(\<forall>t. P t) \<longleftrightarrow> P s \<and> P (opposite s)"
  by (metis opposite.simps order_action.exhaust)

text \<open>Rebuilding the invariant after a change of one side.\<close>

lemma direct_rep_side:
  assumes rep: "direct_rep db L X"
    and side: "side_rep db' s xs" "set xs \<inter> set (L (opposite s)) = {}"
      "bucket_addrs (price_buckets s db') \<inter> bucket_addrs (price_buckets (opposite s) db) = {}"
    and other: "\<forall>a \<in> set (L (opposite s)). db_orders db' a = db_orders db a"
      "\<forall>b \<in> bucket_addrs (price_buckets (opposite s) db). db_buckets db' b = db_buckets db b"
      "price_buckets (opposite s) db' = price_buckets (opposite s) db"
      "best_order (opposite s) db' = best_order (opposite s) db"
    and rest: "X' \<inter> (set xs \<union> set (L (opposite s))) = {}" "\<forall>a \<in> X'. db_orders db' a \<noteq> None"
      "index_rep (db_orderIdIndex db') (dord (db_orders db')) (set xs \<union> set (L (opposite s)) \<union> X')"
      "\<forall>a \<ge> db_fresh db'. db_orders db' a = None \<and> db_buckets db' a = None"
  shows "direct_rep db' (L(s := xs)) X'"
proof -
  let ?t = "opposite s"
  have t: "side_rep db ?t (L ?t)" using rep by (simp add: direct_rep_def)
  have "dls (db_orders db') None (L ?t) None"
    using t dls_cong[of "L ?t" "db_orders db'" "db_orders db" None None] other(1) by (simp add: side_rep_def)
  moreover have "side_data ?t (dord (db_orders db')) (dbuck (db_orders db')) (db_buckets db') (L ?t) (price_buckets ?t db')"
  proof -
    have d: "side_data ?t (dord (db_orders db)) (dbuck (db_orders db)) (db_buckets db) (L ?t) (price_buckets ?t db)"
      using t by (simp add: side_rep_def)
    have "\<forall>a \<in> set (L ?t). dord (db_orders db) a = dord (db_orders db') a \<and> dbuck (db_orders db) a = dbuck (db_orders db') a"
      using other(1) by (simp add: dord_def dbuck_def)
    moreover have "\<forall>b \<in> bucket_addrs (price_buckets ?t db). db_buckets db b = db_buckets db' b" using other(2) by simp
    ultimately show ?thesis unfolding other(3) by (rule side_data_cong[OF d])
  qed
  ultimately have "side_rep db' ?t (L ?t)" using t other(4) by (simp add: side_rep_def)
  moreover have L: "(L(s := xs)) s = xs" "(L(s := xs)) ?t = L ?t" by simp_all
  moreover have "linked (L(s := xs)) = set xs \<union> set (L ?t)" unfolding linked_side[of _ s] L ..
  ultimately show ?thesis
    unfolding direct_rep_def all_sides[where s = s] opposite_opposite L
    using side rest by (simp only: other(3) opposite_opposite L Int_commute simp_thms)
qed

lemma direct_repD:
  assumes "direct_rep db L X"
  shows "side_rep db s (L s)" and "set (L s) \<inter> set (L (opposite s)) = {}"
    and "bucket_addrs (price_buckets s db) \<inter> bucket_addrs (price_buckets (opposite s) db) = {}"
    and "X \<inter> linked L = {}" and "a \<in> X \<Longrightarrow> db_orders db a \<noteq> None"
    and "index_rep (db_orderIdIndex db) (dord (db_orders db)) (linked L \<union> X)"
    and "a \<ge> db_fresh db \<Longrightarrow> db_orders db a = None \<and> db_buckets db a = None"
  using assms by (auto simp: direct_rep_def)

lemma direct_rep_links: "direct_rep db L X \<Longrightarrow> dls (db_orders db) None (L s) None"
  and direct_rep_data: "direct_rep db L X \<Longrightarrow>
    side_data s (dord (db_orders db)) (dbuck (db_orders db)) (db_buckets db) (L s) (price_buckets s db)"
  and direct_rep_best: "direct_rep db L X \<Longrightarrow> best_order s db = first_of (L s)"
  using direct_repD(1)[of db L X s] by (simp_all add: side_rep_def)

text \<open>An order of a list, with its bucket.\<close>

lemma listed_order:
  assumes rep: "direct_rep db L X" and a: "a \<in> set (L s)"
  obtains d b bb where "db_orders db a = Some d" "do_bucket d = Some b" "db_buckets db b = Some bb"
    "b \<in> bucket_addrs (price_buckets s db)" "art_map_get (ord_price (do_order d)) (price_buckets s db) = Some b"
    "art_key (ord_price (do_order d))" "resting s (do_order d)"
    "bb = bucket_view (dord (db_orders db)) (at_price (dord (db_orders db)) (L s) (ord_price (do_order d))) (ord_price (do_order d))"
    "do_order d = dord (db_orders db) a" "dbuck (db_orders db) a = Some b"
proof -
  note data = direct_rep_data[OF rep, of s]
  obtain d where d: "db_orders db a = Some d" using dls_alive[OF direct_rep_links[OF rep] a] by blast
  then have "do_order d = dord (db_orders db) a" "do_bucket d = dbuck (db_orders db) a"
    by (simp_all add: dord_def dbuck_def)
  with order_bucket[OF data a] side_dataD(4)[OF data a] side_data_resting[OF data a] d that show ?thesis by metis
qed

lemma alive_below: "direct_rep db L X \<Longrightarrow> db_orders db a \<noteq> None \<Longrightarrow> a < db_fresh db"
  using direct_repD(7)[of db L X a] by (meson not_le)

lemma bucket_below:
  assumes "direct_rep db L X" and "b \<in> bucket_addrs (price_buckets s db)"
  shows "b < db_fresh db"
proof -
  from assms(2) obtain p where "art_key p" "art_map_get p (price_buckets s db) = Some b" by (auto simp: bucket_addrs_def)
  from side_dataD(7)[OF direct_rep_data[OF assms(1)] this] have "db_buckets db b \<noteq> None" by simp
  then show ?thesis using direct_repD(7)[OF assms(1), of b] by (meson not_le)
qed

lemma index_rep_find:
  assumes "index_rep idx f A"
  shows "um_find idx k = Some a \<longleftrightarrow> a \<in> A \<and> ord_orderId (f a) = k"
  using assms by (simp add: index_rep_def)

lemma index_rep_inj:
  assumes "index_rep idx f A" and "a \<in> A" "c \<in> A" "ord_orderId (f a) = ord_orderId (f c)"
  shows "a = c"
  using assms index_rep_find[OF assms(1), of "ord_orderId (f c)"] by (metis option.inject)

lemma index_rep_erase:
  assumes "index_rep idx f A" and "a \<in> A"
  shows "index_rep (um_erase (ord_orderId (f a)) idx) f (A - {a})"
  using assms index_rep_inj[OF assms(1)] by (auto simp: index_rep_def distinct_delete split: if_splits)

lemma index_rep_put:
  assumes "index_rep idx f A" and "um_find idx (ord_orderId x) = None" and "a \<notin> A"
  shows "index_rep (um_put (ord_orderId x) a idx) (f(a := x)) (insert a A)"
  using assms by (auto simp: index_rep_def distinct_update split: if_splits)

section \<open>Writing through pointers\<close>

lemma deref_simps [simp]: "h a = Some x \<Longrightarrow> deref h (Some a) = Inr x"
  by (simp add: deref_def)

lemma upd_order_Some [simp]:
  "db_orders db a = Some d \<Longrightarrow> upd_order (Some a) f db = Inr (db\<lparr>db_orders := (db_orders db)(a \<mapsto> f d)\<rparr>)"
  by (simp add: upd_order_def)

lemma upd_bucket_Some [simp]:
  "db_buckets db b = Some x \<Longrightarrow> upd_bucket (Some b) f db = Inr (db\<lparr>db_buckets := (db_buckets db)(b \<mapsto> f x)\<rparr>)"
  by (simp add: upd_bucket_def)

lemma upd_prev_if:
  assumes "\<And>a. p = Some a \<Longrightarrow> db_orders db a \<noteq> None"
  shows "upd_order_if p (\<lambda>d. d\<lparr>do_prev := v\<rparr>) db = Inr (db\<lparr>db_orders := put_prev p v (db_orders db)\<rparr>)"
  using assms by (cases p) (auto simp: upd_order_if_def put_prev_def)

lemma upd_next_if:
  assumes "\<And>a. p = Some a \<Longrightarrow> db_orders db a \<noteq> None"
  shows "upd_order_if p (\<lambda>d. d\<lparr>do_next := v\<rparr>) db = Inr (db\<lparr>db_orders := put_next p v (db_orders db)\<rparr>)"
  using assms by (cases p) (auto simp: upd_order_if_def put_next_def)

lemma side_simps [simp]:
  "db_orders (set_price_buckets s m db) = db_orders db" "db_buckets (set_price_buckets s m db) = db_buckets db"
  "db_fresh (set_price_buckets s m db) = db_fresh db" "db_orderIdIndex (set_price_buckets s m db) = db_orderIdIndex db"
  "db_symbolSpec (set_price_buckets s m db) = db_symbolSpec db"
  "price_buckets s (set_price_buckets s m db) = m"
  "price_buckets (opposite s) (set_price_buckets s m db) = price_buckets (opposite s) db"
  "price_buckets s (set_price_buckets (opposite s) m db) = price_buckets s db"
  "best_order t (set_price_buckets s m db) = best_order t db"
  "db_orders (set_best_order s p db) = db_orders db" "db_buckets (set_best_order s p db) = db_buckets db"
  "db_fresh (set_best_order s p db) = db_fresh db" "db_orderIdIndex (set_best_order s p db) = db_orderIdIndex db"
  "db_symbolSpec (set_best_order s p db) = db_symbolSpec db" "price_buckets t (set_best_order s p db) = price_buckets t db"
  "best_order s (set_best_order s p db) = p" "best_order (opposite s) (set_best_order s p db) = best_order (opposite s) db"
  "best_order s (set_best_order (opposite s) p db) = best_order s db"
  by (cases s; cases t; simp)+

lemma side_frame [simp]:
  "price_buckets s (db\<lparr>db_orders := h\<rparr>) = price_buckets s db" "price_buckets s (db\<lparr>db_buckets := B\<rparr>) = price_buckets s db"
  "price_buckets s (db\<lparr>db_fresh := n\<rparr>) = price_buckets s db" "price_buckets s (db\<lparr>db_orderIdIndex := i\<rparr>) = price_buckets s db"
  "best_order s (db\<lparr>db_orders := h\<rparr>) = best_order s db" "best_order s (db\<lparr>db_buckets := B\<rparr>) = best_order s db"
  "best_order s (db\<lparr>db_fresh := n\<rparr>) = best_order s db" "best_order s (db\<lparr>db_orderIdIndex := i\<rparr>) = best_order s db"
  by (cases s; simp)+

lemma free_simps [simp]:
  "db_orders (free_bucket p db) = db_orders db" "db_fresh (free_bucket p db) = db_fresh db"
  "db_orderIdIndex (free_bucket p db) = db_orderIdIndex db" "db_symbolSpec (free_bucket p db) = db_symbolSpec db"
  "price_buckets s (free_bucket p db) = price_buckets s db" "best_order s (free_bucket p db) = best_order s db"
  "db_buckets (free_bucket p db) b = (if p = Some b then None else db_buckets db b)"
  "db_orders (free_order a db) = (db_orders db)(a := None)" "db_buckets (free_order a db) = db_buckets db"
  "db_fresh (free_order a db) = db_fresh db" "db_orderIdIndex (free_order a db) = db_orderIdIndex db"
  "db_symbolSpec (free_order a db) = db_symbolSpec db" "price_buckets s (free_order a db) = price_buckets s db"
  "best_order s (free_order a db) = best_order s db"
  by (auto simp: free_bucket_def free_order_def split: option.split)

section \<open>Taking an order out\<close>

definition spare :: "direct_book \<Rightarrow> addr option \<Rightarrow> bool" where
  "spare db p \<longleftrightarrow> (\<forall>b s. p = Some b \<longrightarrow> b < db_fresh db \<and> b \<notin> bucket_addrs (price_buckets s db))"

lemma spare_None [simp]: "spare db None"
  by (simp add: spare_def)

lemma best_other:
  assumes "direct_rep db L X" and "a \<in> set (L s)"
  shows "best_order (opposite s) db \<noteq> Some a"
  using direct_rep_best[OF assms(1), of "opposite s"] direct_repD(2)[OF assms(1), of s] assms(2)
  by (cases "L (opposite s)") auto

text \<open>The pointer to the best order moves on when that order goes.\<close>

lemma best_after_remove:
  assumes rep: "direct_rep db L X" and L: "L s = l @ a # r"
    and best: "\<And>t. best_order t db1 = best_order t db"
  shows "(if Some a = db_bestAskOrder db1 then db1\<lparr>db_bestAskOrder := first_of r\<rparr>
      else if Some a = db_bestBidOrder db1 then db1\<lparr>db_bestBidOrder := first_of r\<rparr> else db1) =
    set_best_order s (first_of (l @ r)) db1"
proof -
  have distinct: "distinct (l @ a # r)" using side_dataD(1)[OF direct_rep_data[OF rep, of s]] L by simp
  have here: "best_order s db1 = first_of (l @ a # r)" using direct_rep_best[OF rep, of s] L best by simp
  have there: "best_order (opposite s) db1 \<noteq> Some a" using best_other[OF rep, of a s] L best by simp
  show ?thesis
  proof (cases l)
    case Nil
    with here there show ?thesis by (cases s) auto
  next
    case (Cons c l')
    with here distinct have "best_order s db1 \<noteq> Some a" "set_best_order s (first_of (l @ r)) db1 = db1"
      by (cases s; auto)+
    with there show ?thesis by (cases s) auto
  qed
qed

lemma direct_remove_order_ok:
  assumes rep: "direct_rep db L X" and L: "L s = l @ a # r"
  obtains fb db' where "direct_remove_order a db = Inr (fb, db')"
    "direct_rep db' (L(s := l @ r)) (insert a X)" "spare db' fb" "dord (db_orders db') = dord (db_orders db)"
    "db_orderIdIndex db' = db_orderIdIndex db" "db_symbolSpec db' = db_symbolSpec db" "db_fresh db' = db_fresh db"
proof -
  let ?O = "db_orders db" and ?f = "dord (db_orders db)" and ?g = "dbuck (db_orders db)"
  have a: "a \<in> set (L s)" using L by simp
  obtain d b bb where ord: "?O a = Some d" "do_bucket d = Some b" "db_buckets db b = Some bb"
    "b \<in> bucket_addrs (price_buckets s db)" "resting s (do_order d)" "do_order d = ?f a" "?g a = Some b"
    "art_map_get (ord_price (do_order d)) (price_buckets s db) = Some b" "art_key (ord_price (do_order d))"
    by (rule listed_order[OF rep a]) blast
  have data: "side_data s ?f ?g (db_buckets db) (l @ a # r) (price_buckets s db)"
    using direct_rep_data[OF rep, of s] L by simp
  have links: "dls ?O None (l @ a # r) None" using direct_rep_links[OF rep, of s] L by simp
  have distinct: "distinct (l @ a # r)" by (rule side_dataD(1)[OF data])
  have ends: "do_next d = last_of l" "do_prev d = first_of r" using links ord(1) by (auto simp: dls_append)
  have alive: "?O c \<noteq> None" if "c \<in> set (l @ a # r)" for c using dls_alive[OF links that] by auto
  have alive_l: "?O c \<noteq> None" if "last_of l = Some c" for c using alive that by (auto simp: last_of_def split: if_splits)
  have alive_r: "?O c \<noteq> None" if "first_of r = Some c" for c using alive that by (cases r) auto
  have action: "ord_action (do_order d) = s" using ord(5) by (simp add: resting_def)
  note test = remove_test[OF data ord(7,3)]
  let ?O' = "put_next (first_of r) (last_of l) (put_prev (last_of l) (first_of r) ?O)"
  have links': "dls ?O' None (l @ r) None" using dls_remove[OF links distinct] by simp
  \<comment> \<open>the bucket and the map\<close>
  define only where "only \<longleftrightarrow> at_price ?f (l @ r) (ord_price (?f a)) = []"
  define fb where "fb = (if only then Some b else None)"
  define B' where "B' = (db_buckets db)(b \<mapsto> (without_order (?f a) bb)
      \<lparr>bu_lastOrder := if only then bu_lastOrder bb else last_of (at_price ?f (l @ r) (ord_price (?f a)))\<rparr>)"
  define m' where "m' = (if only then art_map_remove (ord_price (?f a)) (price_buckets s db) else price_buckets s db)"
  define db' where "db' = set_best_order s (first_of (l @ r))
      (set_price_buckets s m' (db\<lparr>db_buckets := B', db_orders := ?O'\<rparr>))"
  have data': "side_data s ?f ?g B' (l @ r) m'"
    using side_data_remove_keep[OF data ord(7,3)] side_data_remove_last(1)[OF data ord(7)]
    unfolding only_def[symmetric] B'_def m'_def by (cases only) simp_all
  have addrs': "bucket_addrs m' \<subseteq> bucket_addrs (price_buckets s db)" "only \<Longrightarrow> b \<notin> bucket_addrs m'"
    using side_data_remove_last(2)[OF data ord(7)] unfolding only_def[symmetric] m'_def by auto
  have other_b: "b \<notin> bucket_addrs (price_buckets (opposite s) db)" using direct_repD(3)[OF rep, of s] ord(4) by blast
  have rep': "direct_rep db' (L(s := l @ r)) (insert a X)"
  proof (rule direct_rep_side[OF rep])
    show "side_rep db' s (l @ r)" using links' data' by (simp add: side_rep_def db'_def)
    show "set (l @ r) \<inter> set (L (opposite s)) = {}" using direct_repD(2)[OF rep, of s] L by auto
    show "bucket_addrs (price_buckets s db') \<inter> bucket_addrs (price_buckets (opposite s) db) = {}"
      using direct_repD(3)[OF rep, of s] addrs'(1) by (auto simp: db'_def)
    have "c \<notin> set l \<and> c \<notin> set r" if "c \<in> set (L (opposite s))" for c using direct_repD(2)[OF rep, of s] L that by auto
    then show "\<forall>c \<in> set (L (opposite s)). db_orders db' c = db_orders db c"
      by (simp add: db'_def first_of_notin last_of_notin)
    show "\<forall>c \<in> bucket_addrs (price_buckets (opposite s) db). db_buckets db' c = db_buckets db c"
      using other_b by (auto simp: db'_def B'_def)
    have "X \<inter> linked L = {}" "a \<notin> X" using direct_repD(4)[OF rep] a by (auto simp: linked_side[of _ s])
    moreover have "a \<notin> set (L (opposite s))" using direct_repD(2)[OF rep, of s] a by blast
    ultimately show "insert a X \<inter> (set (l @ r) \<union> set (L (opposite s))) = {}"
      using distinct L by (auto simp: linked_side[of _ s])
    show "\<forall>c \<in> insert a X. db_orders db' c \<noteq> None" using direct_repD(5)[OF rep] ord(1) by (simp add: db'_def)
    have "set (l @ r) \<union> set (L (opposite s)) \<union> insert a X = linked L \<union> X" using L by (auto simp: linked_side[of _ s])
    then show "index_rep (db_orderIdIndex db') (dord (db_orders db')) (set (l @ r) \<union> set (L (opposite s)) \<union> insert a X)"
      using direct_repD(6)[OF rep] by (simp add: db'_def)
    show "\<forall>c \<ge> db_fresh db'. db_orders db' c = None \<and> db_buckets db' c = None"
      using direct_repD(7)[OF rep] bucket_below[OF rep ord(4)] by (auto simp: db'_def B'_def)
  qed (simp_all add: db'_def)
  have spare: "spare db' fb"
    unfolding spare_def fb_def
  proof (intro allI impI)
    fix c t
    assume c: "(if only then Some b else None) = Some c"
    then have "t = s \<or> t = opposite s" "c = b" "only" by (cases t; cases s; auto split: if_splits)+
    then show "c < db_fresh db' \<and> c \<notin> bucket_addrs (price_buckets t db')"
      using bucket_below[OF rep ord(4)] addrs'(2) other_b by (auto simp: db'_def)
  qed
  have run: "direct_remove_order a db = Inr (fb, db')"
  proof -
    let ?db1 = "db\<lparr>db_buckets := (db_buckets db)(b \<mapsto> without_order (do_order d) bb)\<rparr>"
    have last: "(if bu_lastOrder (without_order (do_order d) bb) = Some a
            then bindE (if do_next d = None then Inr True
                        else bindE (deref (db_orders ?db1) (do_next d)) (\<lambda>n. Inr (do_bucket n \<noteq> do_bucket d)))
                   (\<lambda>only. if only
                      then Inr (do_bucket d, set_price_buckets (ord_action (do_order d))
                                  (art_map_remove (ord_price (do_order d)) (price_buckets (ord_action (do_order d)) ?db1)) ?db1)
                      else bindE (upd_bucket (do_bucket d) (\<lambda>b. b\<lparr>bu_lastOrder := do_next d\<rparr>) ?db1) (\<lambda>db2. Inr (None, db2)))
            else Inr (None, ?db1)) = Inr (fb, set_price_buckets s m' (db\<lparr>db_buckets := B'\<rparr>))"
    proof (cases only)
      case True
      then have none: "at_price ?f l (ord_price (?f a)) = []" "bu_lastOrder bb = Some a"
        using test(1) by (simp_all add: only_def)
      have "g (last l) \<noteq> Some b" if "l \<noteq> []" "g = ?g" for g using test(2) none(1) that by blast
      then have "(if do_next d = None then Inr True
          else bindE (deref (db_orders ?db1) (do_next d)) (\<lambda>n. Inr (do_bucket n \<noteq> do_bucket d))) = (Inr True :: exn + bool)"
        using alive_l unfolding ends last_of_def by (auto simp: dbuck_def ord(2))
      moreover have "(without_order (do_order d) bb)\<lparr>bu_lastOrder := Some a\<rparr> = without_order (do_order d) bb"
        using none(2) by (simp add: without_order_def)
      ultimately show ?thesis
        using True none(2) ord(2,6) action by (simp add: fb_def m'_def B'_def) (simp add: without_order_def)
    next
      case False
      have m: "set_price_buckets s m' db2 = db2" if "price_buckets s db2 = price_buckets s db" for db2
        using False that by (cases s) (simp_all add: m'_def)
      show ?thesis
      proof (cases "bu_lastOrder bb = Some a")
        case True
        then have l: "at_price ?f l (ord_price (?f a)) \<noteq> []" "at_price ?f r (ord_price (?f a)) = []"
          using test(1) False by (simp_all add: only_def)
        then have g: "l \<noteq> []" "?g (last l) = Some b" "last_of (at_price ?f (l @ r) (ord_price (?f a))) = Some (last l)"
          using test(2,3) by (simp_all add: last_of_def)
        obtain n where n: "?O (last l) = Some n" using alive_l[of "last l"] g(1) by (auto simp: last_of_def)
        then have "do_bucket n = Some b" using g(2) by (simp add: dbuck_def)
        with n g True False ord(2,6) show ?thesis
          by (simp add: ends last_of_def fb_def m B'_def without_order_def)
      next
        case other: False
        have "last_of (at_price ?f (l @ r) (ord_price (?f a))) = bu_lastOrder bb" using test(4)[OF other] by simp
        moreover have "(without_order (do_order d) bb)\<lparr>bu_lastOrder := bu_lastOrder bb\<rparr> = without_order (do_order d) bb"
          by (simp add: without_order_def)
        ultimately show ?thesis using other False ord(6)
          by (simp add: fb_def m B'_def del: at_price_simps) (simp add: without_order_def)
      qed
    qed
    let ?db2 = "set_price_buckets s m' (db\<lparr>db_buckets := B'\<rparr>)"
    let ?db3 = "?db2\<lparr>db_orders := put_prev (last_of l) (first_of r) ?O\<rparr>"
    let ?db4 = "?db3\<lparr>db_orders := ?O'\<rparr>"
    have read: "deref ?O (Some a) = Inr d" using ord(1) by simp
    have bucket: "upd_bucket (do_bucket d) (\<lambda>b. b\<lparr>bu_totalVolume := bu_totalVolume b - (ord_size (do_order d) - ord_filled (do_order d)),
        bu_numOrders := bu_numOrders b - 1\<rparr>) db = Inr ?db1"
      using ord(2,3) by (simp add: without_order_def)
    have bucket': "deref (db_buckets ?db1) (do_bucket d) = Inr (without_order (do_order d) bb)" using ord(2) by simp
    have prev: "upd_order_if (do_next d) (\<lambda>n. n\<lparr>do_prev := do_prev d\<rparr>) ?db2 = Inr ?db3"
      using upd_prev_if[of "last_of l" ?db2 "first_of r"] alive_l by (simp add: ends)
    have next': "upd_order_if (do_prev d) (\<lambda>p. p\<lparr>do_next := do_next d\<rparr>) ?db3 = Inr ?db4"
      using upd_next_if[of "first_of r" ?db3 "last_of l"] alive_r by (simp add: ends)
    have best: "(if Some a = db_bestAskOrder ?db4 then ?db4\<lparr>db_bestAskOrder := do_prev d\<rparr>
        else if Some a = db_bestBidOrder ?db4 then ?db4\<lparr>db_bestBidOrder := do_prev d\<rparr> else ?db4) = db'"
    proof -
      have "db' = set_best_order s (first_of (l @ r)) ?db4" by (cases s) (simp_all add: db'_def)
      moreover have "best_order t ?db4 = best_order t db" for t by simp
      ultimately show ?thesis unfolding ends by (simp only: best_after_remove[OF rep L, of ?db4])
    qed
    show ?thesis
      unfolding direct_remove_order_def by (simp only: read bucket bucket' last prev next' best bindE_simps prod.case)
  qed
  show ?thesis
    by (rule that[OF run rep' spare]) (simp_all add: db'_def)
qed

end
