(* ===== verification/Direct_Insert.thy ===== *)
theory Direct_Insert
  imports Direct_Steps
begin

text \<open>What resizing an order and \<open>insertOrder\<close> do to the invariant of the direct book.\<close>

section \<open>Buckets from the pool\<close>

lemma spare_Some: "spare db (Some b) \<longleftrightarrow> b < db_fresh db \<and> (\<forall>s. b \<notin> bucket_addrs (price_buckets s db))"
  by (auto simp: spare_def)

lemma direct_rep_frame:
  assumes rep: "direct_rep db L X"
    and orders: "db_orders db' = db_orders db"
    and buckets: "\<And>s b. b \<in> bucket_addrs (price_buckets s db) \<Longrightarrow> db_buckets db' b = db_buckets db b"
    and index: "db_orderIdIndex db' = db_orderIdIndex db"
    and sides: "\<And>s. price_buckets s db' = price_buckets s db" "\<And>s. best_order s db' = best_order s db"
    and fresh: "\<And>a. a \<ge> db_fresh db' \<Longrightarrow> db_orders db' a = None \<and> db_buckets db' a = None"
  shows "direct_rep db' L X"
proof -
  have "side_rep db' s (L s)" for s
  proof -
    have "side_data s (dord (db_orders db)) (dbuck (db_orders db)) (db_buckets db') (L s) (price_buckets s db)"
      using buckets by (intro side_data_cong[OF direct_rep_data[OF rep, of s]]) simp_all
    then show ?thesis using direct_repD(1)[OF rep, of s] by (simp add: side_rep_def orders sides)
  qed
  then show ?thesis using rep fresh by (simp add: direct_rep_def orders index sides)
qed

lemma direct_rep_free_bucket:
  assumes "direct_rep db L X" and "spare db fb"
  shows "direct_rep (free_bucket fb db) L X"
proof (rule direct_rep_frame[OF assms(1)])
  fix s b
  assume "b \<in> bucket_addrs (price_buckets s db)"
  then show "db_buckets (free_bucket fb db) b = db_buckets db b" using assms(2) by (auto simp: spare_def)
qed (use direct_repD(7)[OF assms(1)] in auto)

lemma direct_rep_fresh:
  assumes "direct_rep db L X"
  shows "direct_rep (db\<lparr>db_fresh := Suc (db_fresh db)\<rparr>) L X"
    and "spare (db\<lparr>db_fresh := Suc (db_fresh db)\<rparr>) (Some (db_fresh db))"
proof -
  show "direct_rep (db\<lparr>db_fresh := Suc (db_fresh db)\<rparr>) L X"
    using direct_repD(7)[OF assms] by (intro direct_rep_frame[OF assms]) simp_all
  show "spare (db\<lparr>db_fresh := Suc (db_fresh db)\<rparr>) (Some (db_fresh db))"
    using bucket_below[OF assms] by (auto simp: spare_Some)
qed

section \<open>Resizing an order\<close>

definition resized :: "addr \<Rightarrow> order \<Rightarrow> addr \<Rightarrow> int \<Rightarrow> direct_book \<Rightarrow> direct_book" where
  "resized a x b by db = db\<lparr>
     db_orders := (db_orders db)(a := map_option (\<lambda>d. d\<lparr>do_order := x\<rparr>) (db_orders db a)),
     db_buckets := (db_buckets db)(b := map_option (\<lambda>bb. bb\<lparr>bu_totalVolume := bu_totalVolume bb - by\<rparr>) (db_buckets db b))\<rparr>"

lemma resized_rep:
  assumes rep: "direct_rep db L X" and a: "a \<in> set (L s)" and b: "dbuck (db_orders db) a = Some b"
    and x: "ord_price x = ord_price (dord (db_orders db) a)" "ord_orderId x = ord_orderId (dord (db_orders db) a)" "resting s x"
  defines "db' \<equiv> resized a x b (remaining (dord (db_orders db) a) - remaining x) db"
  shows "direct_rep db' L X" and "dord (db_orders db') = (dord (db_orders db))(a := x)"
proof -
  let ?f = "dord (db_orders db)"
  obtain l r where L: "L s = l @ a # r" using a by (metis split_list)
  obtain d bb where d: "db_orders db a = Some d" "db_buckets db b = Some bb" "b \<in> bucket_addrs (price_buckets s db)"
    using listed_order[OF rep a] b by (metis option.inject)
  have views: "dord (db_orders db') = ?f(a := x)" "dbuck (db_orders db') = dbuck (db_orders db)"
    using d(1) by (auto simp: db'_def resized_def fun_eq_iff dord_def dbuck_def)
  have data: "side_data s (?f(a := x)) (dbuck (db_orders db)) (db_buckets db') (L s) (price_buckets s db)"
    using side_data_resize[OF direct_rep_data[OF rep, of s, unfolded L] b d(2) x(1,3)] d(2) L
    by (simp add: db'_def resized_def)
  have heap: "db_orders db' c = db_orders db c" if "c \<noteq> a" for c using that by (simp add: db'_def resized_def)
  have out: "a \<notin> set (L (opposite s))" "a \<notin> X"
    using direct_repD(2)[OF rep, of s] direct_repD(4)[OF rep] a by (auto simp: linked_side[of _ s])
  have "direct_rep db' (L(s := L s)) X"
  proof (rule direct_rep_side[OF rep])
    have links: "dls h nx xs pv \<Longrightarrow> dls (h(a := map_option (\<lambda>d. d\<lparr>do_order := x\<rparr>) (h a))) nx xs pv" for h nx xs pv
      by (induction xs arbitrary: nx) auto
    from links[OF direct_rep_links[OF rep, of s]] data show "side_rep db' s (L s)"
      unfolding side_rep_def views using direct_rep_best[OF rep, of s] by (simp add: db'_def resized_def)
    show "set (L s) \<inter> set (L (opposite s)) = {}" using direct_repD(2)[OF rep, of s] .
    show "bucket_addrs (price_buckets s db') \<inter> bucket_addrs (price_buckets (opposite s) db) = {}"
      using direct_repD(3)[OF rep, of s] by (simp add: db'_def resized_def)
    show "\<forall>c \<in> set (L (opposite s)). db_orders db' c = db_orders db c" using heap out by metis
    show "\<forall>c \<in> bucket_addrs (price_buckets (opposite s) db). db_buckets db' c = db_buckets db c"
      using direct_repD(3)[OF rep, of s] d(3) by (auto simp: db'_def resized_def)
    show "X \<inter> (set (L s) \<union> set (L (opposite s))) = {}" using direct_repD(4)[OF rep] by (simp add: linked_side[of _ s])
    show "\<forall>c \<in> X. db_orders db' c \<noteq> None" using direct_repD(5)[OF rep] heap out by metis
    have "index_rep (db_orderIdIndex db) (?f(a := x)) (linked L \<union> X)"
      using direct_repD(6)[OF rep] x(2) by (simp add: index_rep_def)
    then show "index_rep (db_orderIdIndex db') (dord (db_orders db')) (set (L s) \<union> set (L (opposite s)) \<union> X)"
      unfolding views linked_side[of _ s] by (simp add: db'_def resized_def)
    show "\<forall>c \<ge> db_fresh db'. db_orders db' c = None \<and> db_buckets db' c = None"
      using direct_repD(7)[OF rep] by (simp add: db'_def resized_def)
  qed (simp_all add: db'_def resized_def)
  then show "direct_rep db' L X" by simp
  show "dord (db_orders db') = ?f(a := x)" by (rule views(1))
qed

section \<open>Linking\<close>

definition link_heap ::
  "addr \<Rightarrow> addr list \<Rightarrow> addr list \<Rightarrow> direct_order \<Rightarrow> (addr \<Rightarrow> direct_order option) \<Rightarrow> addr \<Rightarrow> direct_order option" where
  "link_heap a l r d h =
     (put_next (first_of r) (Some a) (put_prev (last_of l) (Some a) h))
       (a \<mapsto> d\<lparr>do_next := last_of l, do_prev := first_of r\<rparr>)"

lemma dls_link_heap:
  assumes "dls h None (l @ r) None" and "distinct (l @ a # r)"
  shows "dls (link_heap a l r d h) None (l @ a # r) None"
proof -
  let ?d = "d\<lparr>do_next := last_of l, do_prev := first_of r\<rparr>"
  have "dls (h(a \<mapsto> ?d)) None (l @ r) None"
    using assms(1,2) dls_cong[of "l @ r" "h(a \<mapsto> ?d)" h None None] by simp
  from dls_insert[OF this assms(2), of ?d]
  have "dls (put_next (first_of r) (Some a) (put_prev (last_of l) (Some a) (h(a \<mapsto> ?d)))) None (l @ a # r) None" by simp
  moreover have "put_next (first_of r) (Some a) (put_prev (last_of l) (Some a) (h(a \<mapsto> ?d))) = link_heap a l r d h"
    using last_of_notin[of a l] first_of_notin[of a r] assms(2)
    by (auto simp: link_heap_def put_next_def put_prev_def fun_eq_iff split: option.split)
  ultimately show ?thesis by simp
qed

lemma link_heap_data:
  assumes "h a = Some d"
  shows "dord (link_heap a l r d h) = dord h" "dbuck (link_heap a l r d h) = dbuck h"
    and "link_heap a l r (d\<lparr>do_bucket := p\<rparr>) (h(a \<mapsto> d\<lparr>do_bucket := p\<rparr>)) = link_heap a l r (d\<lparr>do_bucket := p\<rparr>) h"
proof -
  have "dord (h'(a \<mapsto> d')) = (dord h')(a := do_order d')" "dbuck (h'(a \<mapsto> d')) = (dbuck h')(a := do_bucket d')" for h' d'
    by (simp_all add: fun_eq_iff dord_def dbuck_def)
  moreover have "do_order d = dord h a" "do_bucket d = dbuck h a" using assms by (simp_all add: dord_def dbuck_def)
  ultimately show "dord (link_heap a l r d h) = dord h" "dbuck (link_heap a l r d h) = dbuck h"
    by (simp_all add: link_heap_def)
  show "link_heap a l r (d\<lparr>do_bucket := p\<rparr>) (h(a \<mapsto> d\<lparr>do_bucket := p\<rparr>)) = link_heap a l r (d\<lparr>do_bucket := p\<rparr>) h"
    by (auto simp: link_heap_def put_next_def put_prev_def fun_eq_iff split: option.split)
qed

lemma link_after_ok:
  assumes links: "dls (db_orders db) None (l @ r) None" and distinct: "distinct (l @ a # r)"
    and a: "db_orders db a = Some d" and l: "l \<noteq> []"
  shows "link_after a (Some (last l)) db = Inr (db\<lparr>db_orders := link_heap a l r d (db_orders db)\<rparr>)"
proof -
  obtain l' t where lt: "l = l' @ [t]" using l by (metis append_butlast_last_id)
  then have t: "\<exists>e. db_orders db t = Some e \<and> do_prev e = first_of r" using links by (auto simp: dls_append)
  then obtain e where e: "db_orders db t = Some e" "do_prev e = first_of r" by blast
  let ?h1 = "put_prev (Some t) (Some a) (db_orders db)"
  let ?h2 = "put_next (first_of r) (Some a) ?h1"
  have alive: "db_orders db c \<noteq> None" if "first_of r = Some c" for c
    using dls_alive[OF links, of c] that by (cases r) auto
  have "upd_order (Some t) (\<lambda>t. t\<lparr>do_prev := Some a\<rparr>) db = Inr (db\<lparr>db_orders := ?h1\<rparr>)"
    using e(1) by (simp add: put_prev_def)
  moreover have "upd_order_if (first_of r) (\<lambda>p. p\<lparr>do_next := Some a\<rparr>) (db\<lparr>db_orders := ?h1\<rparr>) = Inr (db\<lparr>db_orders := ?h2\<rparr>)"
    using upd_next_if[of "first_of r" "db\<lparr>db_orders := ?h1\<rparr>" "Some a"] alive by simp
  moreover have "?h2 a = Some d" using a distinct lt first_of_notin[of a r] by simp
  then have "upd_order (Some a) (\<lambda>d. d\<lparr>do_next := Some t, do_prev := first_of r\<rparr>) (db\<lparr>db_orders := ?h2\<rparr>) =
      Inr (db\<lparr>db_orders := link_heap a l r d (db_orders db)\<rparr>)" by (simp add: link_heap_def lt)
  moreover have "last l = t" using lt by simp
  ultimately show ?thesis using e by (simp add: link_after_def)
qed

section \<open>The result\<close>

definition inserted ::
  "order_action \<Rightarrow> addr \<Rightarrow> addr list \<Rightarrow> addr list \<Rightarrow> direct_order \<Rightarrow> (addr \<Rightarrow> direct_bucket option) \<Rightarrow> addr art_map
     \<Rightarrow> direct_book \<Rightarrow> direct_book" where
  "inserted s a l r d B m db = set_best_order s (first_of (l @ [a])) (set_price_buckets s m
     (db\<lparr>db_buckets := B, db_orders := link_heap a l r d (db_orders db)\<rparr>))"

lemma inserted_simps [simp]:
  "db_orders (inserted s a l r d B m db) = link_heap a l r d (db_orders db)" "db_buckets (inserted s a l r d B m db) = B"
  "db_fresh (inserted s a l r d B m db) = db_fresh db" "db_orderIdIndex (inserted s a l r d B m db) = db_orderIdIndex db"
  "db_symbolSpec (inserted s a l r d B m db) = db_symbolSpec db" "price_buckets s (inserted s a l r d B m db) = m"
  "price_buckets (opposite s) (inserted s a l r d B m db) = price_buckets (opposite s) db"
  "best_order s (inserted s a l r d B m db) = first_of (l @ [a])"
  "best_order (opposite s) (inserted s a l r d B m db) = best_order (opposite s) db"
  by (simp_all add: inserted_def)

lemma link_heap_other: "c \<noteq> a \<Longrightarrow> c \<notin> set l \<Longrightarrow> c \<notin> set r \<Longrightarrow> link_heap a l r d h c = h c"
  by (simp add: link_heap_def first_of_notin last_of_notin)

lemma link_heap_alive: "link_heap a l r d h c = None \<longleftrightarrow> c \<noteq> a \<and> h c = None"
  by (simp add: link_heap_def)

lemma inserted_rep:
  assumes rep: "direct_rep db L X" and L: "L s = l @ r" and a: "a \<in> X" and ord: "db_orders db a = Some d"
    and data: "side_data s (dord (db_orders db)) ((dbuck (db_orders db))(a := Some b)) B (l @ a # r) m"
    and other: "\<And>c. c \<in> bucket_addrs (price_buckets (opposite s) db) \<Longrightarrow> c \<notin> bucket_addrs m \<and> B c = db_buckets db c"
    and fresh: "\<And>c. c \<ge> db_fresh db \<Longrightarrow> B c = None"
  shows "direct_rep (inserted s a l r (d\<lparr>do_bucket := Some b\<rparr>) B m db) (L(s := l @ a # r)) (X - {a})"
    and "dord (db_orders (inserted s a l r (d\<lparr>do_bucket := Some b\<rparr>) B m db)) = dord (db_orders db)"
proof -
  let ?d = "d\<lparr>do_bucket := Some b\<rparr>"
  let ?h = "(db_orders db)(a \<mapsto> ?d)"
  let ?db' = "inserted s a l r ?d B m db"
  have heap: "link_heap a l r ?d (db_orders db) = link_heap a l r ?d ?h" using link_heap_data(3)[where h = "db_orders db" and a = a and d = d] ord by simp
  have "do_order d = dord (db_orders db) a" using ord by (simp add: dord_def)
  then have h: "dord ?h = dord (db_orders db)" "dbuck ?h = (dbuck (db_orders db))(a := Some b)"
    by (auto simp: fun_eq_iff dord_def dbuck_def)
  have views: "dord (db_orders ?db') = dord (db_orders db)" "dbuck (db_orders ?db') = (dbuck (db_orders db))(a := Some b)"
    using link_heap_data(1,2)[of ?h a ?d l r, OF fun_upd_same] by (simp_all only: heap h inserted_simps)
  have out: "a \<notin> set (L t)" for t using direct_repD(4)[OF rep] a by (auto simp: linked_side[of _ t])
  have distinct: "distinct (l @ a # r)" by (rule side_dataD(1)[OF data])
  have links: "dls (db_orders db) None (l @ r) None" using direct_rep_links[OF rep, of s] L by simp
  show "direct_rep ?db' (L(s := l @ a # r)) (X - {a})"
  proof (rule direct_rep_side[OF rep])
    show "side_rep ?db' s (l @ a # r)"
      unfolding side_rep_def views using dls_link_heap[OF links distinct] data by simp
    show "set (l @ a # r) \<inter> set (L (opposite s)) = {}" using direct_repD(2)[OF rep, of s] L out by auto
    show "bucket_addrs (price_buckets s ?db') \<inter> bucket_addrs (price_buckets (opposite s) db) = {}" using other by auto
    have "c \<noteq> a \<and> c \<notin> set l \<and> c \<notin> set r" if "c \<in> set (L (opposite s))" for c
      using direct_repD(2)[OF rep, of s] L out that by auto
    then show "\<forall>c \<in> set (L (opposite s)). db_orders ?db' c = db_orders db c" by (simp add: link_heap_other)
    show "\<forall>c \<in> bucket_addrs (price_buckets (opposite s) db). db_buckets ?db' c = db_buckets db c" using other by simp
    show "(X - {a}) \<inter> (set (l @ a # r) \<union> set (L (opposite s))) = {}"
      using direct_repD(4)[OF rep] L by (auto simp: linked_side[of _ s])
    show "\<forall>c \<in> X - {a}. db_orders ?db' c \<noteq> None" using direct_repD(5)[OF rep] by (simp add: link_heap_alive)
    have "set (l @ a # r) \<union> set (L (opposite s)) \<union> (X - {a}) = linked L \<union> X" using L a by (auto simp: linked_side[of _ s])
    then show "index_rep (db_orderIdIndex ?db') (dord (db_orders ?db')) (set (l @ a # r) \<union> set (L (opposite s)) \<union> (X - {a}))"
      unfolding views using direct_repD(6)[OF rep] by simp
    show "\<forall>c \<ge> db_fresh ?db'. db_orders ?db' c = None \<and> db_buckets ?db' c = None"
      using direct_repD(7)[OF rep] alive_below[OF rep, of a] ord fresh by (auto simp: link_heap_alive)
  qed simp_all
  show "dord (db_orders ?db') = dord (db_orders db)" by (rule views(1))
qed

lemma inserted_behind:
  assumes "best_order s db = first_of (l @ r)" and "l \<noteq> []" and "price_buckets s db = m"
  shows "inserted s a l r d B m db = db\<lparr>db_buckets := B, db_orders := link_heap a l r d (db_orders db)\<rparr>"
  using assms by (cases s; cases l) (auto simp: inserted_def)

section \<open>insertOrder\<close>

lemma direct_insert_order_ok:
  assumes rep: "direct_rep db L X" and a: "a \<in> X" and ord: "db_orders db a = Some d"
    and x: "resting s (do_order d)" "art_key (ord_price (do_order d))" and spare: "spare db fb"
  obtains db' l r where "direct_insert_order a fb db = Inr db'" "L s = l @ r"
    "direct_rep db' (L(s := l @ a # r)) (X - {a})" "dord (db_orders db') = dord (db_orders db)"
    "map (dord (db_orders db)) (l @ a # r) = insert_order s (do_order d) (map (dord (db_orders db)) (L s))"
    "db_orderIdIndex db' = db_orderIdIndex db" "db_symbolSpec db' = db_symbolSpec db"
proof -
  let ?f = "dord (db_orders db)" and ?g = "dbuck (db_orders db)" and ?p = "ord_price (do_order d)"
  note data = direct_rep_data[OF rep, of s]
  have fa: "?f a = do_order d" using ord by (simp add: dord_def)
  then have upd: "?f(a := do_order d) = ?f" by auto
  have action: "ord_action (do_order d) = s" using x(1) by (simp add: resting_def)
  define l where "l = takeWhile (\<lambda>c. \<not> before s ?p (ord_price (?f c))) (L s)"
  define r where "r = dropWhile (\<lambda>c. \<not> before s ?p (ord_price (?f c))) (L s)"
  note place = insert_place[OF side_dataD(2)[OF data], where p = ?p, folded l_def r_def]
  have L: "L s = l @ r" by (rule place(1))
  have ins: "insert_order s (do_order d) (map ?f (L s)) = map ?f l @ do_order d # map ?f r" using place(4) by simp
  have sorted: "side_ok s (map ?f l @ do_order d # map ?f r)"
    unfolding ins[symmetric] by (rule side_ok_insert[OF side_dataD(2)[OF data] x(1)])
  have out: "a \<notin> set (l @ r)" using direct_repD(4)[OF rep] a L by (auto simp: linked_side[of _ s])
  have data': "side_data s ?f ?g (db_buckets db) (l @ r) (price_buckets s db)" using data L by simp
  have distinct: "distinct (l @ a # r)" using side_dataD(1)[OF data'] out by simp
  have links: "dls (db_orders db) None (l @ r) None" using direct_rep_links[OF rep, of s] L by simp
  have best: "best_order s db = first_of (l @ r)" using direct_rep_best[OF rep, of s] L by simp
  have list: "map ?f (l @ a # r) = insert_order s (do_order d) (map ?f (L s))" using ins fa by simp
  have read: "deref (db_orders db) (Some a) = Inr d" using ord by simp
  consider (keep) b where "art_map_get ?p (price_buckets s db) = Some b" | (new) "art_map_get ?p (price_buckets s db) = None"
    by (cases "art_map_get ?p (price_buckets s db)") auto
  then show ?thesis
  proof cases
    case keep
    let ?db0 = "free_bucket fb db"
    have rep0: "direct_rep ?db0 L X" by (rule direct_rep_free_bucket[OF rep spare])
    have data0: "side_data s ?f ?g (db_buckets ?db0) (l @ r) (price_buckets s db)"
      using direct_rep_data[OF rep0, of s] L by simp
    have b: "b \<in> bucket_addrs (price_buckets s db)" using keep x(2) by (auto simp: bucket_addrs_def)
    obtain bb where bb: "db_buckets ?db0 b = Some bb" using side_dataD(7)[OF data0 x(2) keep] by blast
    have none: "at_price ?f r ?p = []" using place(3) before_irrefl by (fastforce simp: at_price_empty)
    let ?B = "(db_buckets ?db0)(b \<mapsto> with_order a (do_order d) bb)"
    let ?db1 = "?db0\<lparr>db_buckets := ?B\<rparr>"
    let ?db' = "inserted s a l r (d\<lparr>do_bucket := Some b\<rparr>) ?B (price_buckets s db) ?db0"
    note ins_data = side_data_insert_keep[OF data0 out x(2) sorted none keep bb, unfolded upd]
    have other: "b \<notin> bucket_addrs (price_buckets (opposite s) db)" using direct_repD(3)[OF rep, of s] b by blast
    have rep': "direct_rep ?db' (L(s := l @ a # r)) (X - {a})" "dord (db_orders ?db') = ?f"
    proof -
      have "c \<notin> bucket_addrs (price_buckets s db) \<and> ?B c = db_buckets ?db0 c"
        if "c \<in> bucket_addrs (price_buckets (opposite s) ?db0)" for c
        using direct_repD(3)[OF rep, of s] that other by auto
      moreover have "?B c = None" if "c \<ge> db_fresh ?db0" for c
        using direct_repD(7)[OF rep0] bucket_below[OF rep b] that by auto
      moreover have "side_data s (dord (db_orders ?db0)) ((dbuck (db_orders ?db0))(a := Some b)) ?B (l @ a # r) (price_buckets s db)"
        using ins_data(1) by (simp only: free_simps(1))
      moreover have "db_orders ?db0 a = Some d" using ord by simp
      ultimately show "direct_rep ?db' (L(s := l @ a # r)) (X - {a})" "dord (db_orders ?db') = ?f"
        using inserted_rep[OF rep0 L a] by (metis free_simps(1))+
    qed
    have "deref (db_buckets ?db0) (Some b) = Inr bb" using bb by simp
    moreover have "upd_bucket (Some b) (\<lambda>b. b\<lparr>bu_totalVolume := bu_totalVolume b + (ord_size (do_order d) - ord_filled (do_order d)),
        bu_numOrders := bu_numOrders b + 1, bu_lastOrder := Some a\<rparr>) ?db0 = Inr ?db1"
      using bb by (simp add: with_order_def)
    moreover have "link_after a (bu_lastOrder bb) ?db1 =
        Inr (?db1\<lparr>db_orders := link_heap a l r d (db_orders db)\<rparr>)"
      using link_after_ok[of ?db1 l r a d] links distinct ord ins_data(2) by (simp add: ins_data(3))
    moreover have "upd_order (Some a) (\<lambda>d. d\<lparr>do_bucket := Some b\<rparr>) (?db1\<lparr>db_orders := link_heap a l r d (db_orders db)\<rparr>) = Inr ?db'"
      using best ins_data(2) by (simp add: inserted_behind link_heap_def, cases d, simp)
    ultimately have "direct_insert_order a fb db = Inr ?db'"
      unfolding direct_insert_order_def by (simp only: read bindE_simps Let_def action keep option.case)
    from that[OF this L rep' list] show ?thesis by simp
  next
    case new
    define b where "b = (case fb of None \<Rightarrow> db_fresh db | Some b \<Rightarrow> b)"
    define db0 where "db0 = (if fb = None then db\<lparr>db_fresh := Suc (db_fresh db)\<rparr> else db)"
    have same: "db_orders db0 = db_orders db" "db_buckets db0 = db_buckets db" "db_orderIdIndex db0 = db_orderIdIndex db"
      "db_symbolSpec db0 = db_symbolSpec db" "price_buckets t db0 = price_buckets t db" "best_order t db0 = best_order t db" for t
      by (simp_all add: db0_def)
    have rep0: "direct_rep db0 L X" "spare db0 (Some b)"
      using rep spare direct_rep_fresh[OF rep] by (cases fb; simp add: db0_def b_def)+
    let ?bb = "\<lparr>bu_price = ?p, bu_lastOrder = Some a, bu_totalVolume = ord_size (do_order d) - ord_filled (do_order d), bu_numOrders = 1\<rparr>"
    let ?B = "(db_buckets db0)(b \<mapsto> ?bb)"
    let ?m = "art_map_put ?p b (price_buckets s db)"
    let ?d = "d\<lparr>do_bucket := Some b\<rparr>"
    let ?db1 = "db0\<lparr>db_buckets := ?B\<rparr>"
    let ?db2 = "?db1\<lparr>db_orders := (db_orders db)(a \<mapsto> ?d)\<rparr>"
    let ?db3 = "set_price_buckets s ?m ?db2"
    let ?db' = "inserted s a l r ?d ?B ?m db0"
    have b: "b < db_fresh db0" "b \<notin> bucket_addrs (price_buckets t db)" for t
      using rep0(2) by (simp_all add: spare_Some same)
    note ins_data = side_data_insert_new[OF data' out x(2) sorted new b(2), unfolded upd]
    have rep': "direct_rep ?db' (L(s := l @ a # r)) (X - {a})" "dord (db_orders ?db') = ?f"
    proof -
      have "c \<notin> bucket_addrs ?m \<and> ?B c = db_buckets db0 c" if "c \<in> bucket_addrs (price_buckets (opposite s) db0)" for c
        using direct_repD(3)[OF rep, of s] that b(2) ins_data(2) by (auto simp: same)
      moreover have "?B c = None" if "c \<ge> db_fresh db0" for c
        using direct_repD(7)[OF rep0(1)] b(1) that by auto
      moreover have "side_data s (dord (db_orders db0)) ((dbuck (db_orders db0))(a := Some b)) ?B (l @ a # r) ?m"
        using ins_data(1) by (simp only: same)
      moreover have "db_orders db0 a = Some d" using ord by (simp add: same)
      ultimately show "direct_rep ?db' (L(s := l @ a # r)) (X - {a})" "dord (db_orders ?db') = ?f"
        using inserted_rep[OF rep0(1) L a] by (metis same(1))+
    qed
    have upd: "upd_order (Some a) (\<lambda>d. d\<lparr>do_bucket := Some b\<rparr>) ?db1 = Inr ?db2" using ord by (simp add: same)
    have heap: "link_heap a l r ?d ((db_orders db)(a \<mapsto> ?d)) = link_heap a l r ?d (db_orders db)"
      using link_heap_data(3)[where h = "db_orders db" and a = a and d = d] ord by simp
    have links3: "dls (db_orders ?db3) None (l @ r) None"
      using links out dls_cong[of "l @ r" "(db_orders db)(a \<mapsto> ?d)" "db_orders db" None None] by simp
    have near: "(if s = ASK then art_map_lower ?p ?m else art_map_higher ?p ?m) = (if l = [] then None else ?g (last l))"
      by (rule better_neighbour[OF data' x(2) new place(2,3)])
    have pb: "price_buckets s ?db2 = price_buckets s db" by (simp add: same)
    have "direct_insert_order a fb db = Inr ?db'"
    proof (cases "l = []")
      case True
      let ?h = "put_next (first_of r) (Some a) ((db_orders db)(a \<mapsto> ?d))"
      have alive: "db_orders ?db3 c \<noteq> None" if "first_of r = Some c" for c
        using dls_alive[OF links3, of c] that by (cases r) auto
      have next': "upd_order_if (first_of r) (\<lambda>o'. o'\<lparr>do_next := Some a\<rparr>) ?db3 = Inr (?db3\<lparr>db_orders := ?h\<rparr>)"
        using upd_next_if[of "first_of r" ?db3 "Some a"] alive by simp
      have "?h a = Some ?d" using out first_of_notin[of a r] by simp
      then have set': "upd_order (Some a) (\<lambda>d. d\<lparr>do_next := None, do_prev := first_of r\<rparr>) (set_best_order s (Some a) (?db3\<lparr>db_orders := ?h\<rparr>)) =
          Inr ((set_best_order s (Some a) (?db3\<lparr>db_orders := ?h\<rparr>))\<lparr>db_orders := link_heap a [] r ?d ((db_orders db)(a \<mapsto> ?d))\<rparr>)"
        by (simp add: link_heap_def put_prev_def)
      have res: "(set_best_order s (Some a) (?db3\<lparr>db_orders := ?h\<rparr>))\<lparr>db_orders := link_heap a [] r ?d ((db_orders db)(a \<mapsto> ?d))\<rparr> = ?db'"
        unfolding inserted_def True using heap[unfolded True] by (cases s) (simp_all add: same)
      have old: "best_order s ?db3 = first_of r" using best True by (simp add: same)
      show ?thesis
        unfolding direct_insert_order_def b_def[symmetric] db0_def[symmetric]
        using near by (simp only: read bindE_simps Let_def action new option.case upd pb next' old set' res True if_True simp_thms)
    next
      case False
      have "ord_price (?f c) \<noteq> ord_price (?f (last l))" if "c \<in> set r" for c
        using place(2,3) that last_in_set[OF False] by metis
      then have "at_price ?f r (ord_price (?f (last l))) = []" by (simp add: at_price_empty)
      then obtain c bb where c: "?g (last l) = Some c" "c \<in> bucket_addrs (price_buckets s db)"
          "db_buckets db c = Some bb" "bu_lastOrder bb = Some (last l)"
        using last_of_price[OF data' refl False] by metis
      have "c \<noteq> b" using b(2) c(2) by auto
      then have read': "deref (db_buckets ?db3) (Some c) = Inr bb" using c(3) by (simp add: same)
      have "best_order s ?db3 = first_of (l @ r)" using best by (simp add: same)
      have link: "link_after a (Some (last l)) ?db3 = Inr (?db3\<lparr>db_orders := link_heap a l r ?d ((db_orders db)(a \<mapsto> ?d))\<rparr>)"
        using link_after_ok[of ?db3 l r a ?d, OF links3 distinct _ False] by simp
      have res: "?db3\<lparr>db_orders := link_heap a l r ?d ((db_orders db)(a \<mapsto> ?d))\<rparr> = ?db'"
        unfolding heap inserted_def using best False by (cases s; cases l) (simp_all add: db0_def)
      show ?thesis
        unfolding direct_insert_order_def b_def[symmetric] db0_def[symmetric]
        using near False c(1)
        by (simp only: read bindE_simps Let_def action new option.case upd pb read' c(4) link res if_False)
    qed
    from that[OF this L rep' list] show ?thesis by (simp add: same)
  qed
qed

end
