(* ===== verification/Direct_Match.thy ===== *)
theory Direct_Match
  imports Direct_Insert
begin

text \<open>
  Matching on the direct book. While the loop of \<open>tryMatchInstantly\<close> runs, the pointer to the best
  order and the \<open>next\<close> link of the current maker are out of date; \<open>settle\<close> is what the code does
  about them afterwards, so the invariant of the loop is that of the book once settled.
\<close>

section \<open>Settling\<close>

definition settle :: "order_action \<Rightarrow> addr option \<Rightarrow> direct_book \<Rightarrow> direct_book" where
  "settle t m db = set_best_order t m (db\<lparr>db_orders := put_next m None (db_orders db)\<rparr>)"

lemma settle_simps [simp]:
  "db_orders (settle t m db) = put_next m None (db_orders db)" "db_buckets (settle t m db) = db_buckets db"
  "db_fresh (settle t m db) = db_fresh db" "db_orderIdIndex (settle t m db) = db_orderIdIndex db"
  "db_symbolSpec (settle t m db) = db_symbolSpec db" "price_buckets s (settle t m db) = price_buckets s db"
  "best_order t (settle t m db) = m" "best_order (opposite t) (settle t m db) = best_order (opposite t) db"
  "best_order t (settle (opposite t) m db) = best_order t db"
  by (simp_all add: settle_def)

lemma put_next_same: "h a = Some d \<Longrightarrow> do_next d = v \<Longrightarrow> put_next (Some a) v h = h"
  by (auto simp: put_next_def fun_eq_iff)

text \<open>A book between two commands is settled.\<close>

lemma settle_rep:
  assumes "direct_rep db L X"
  shows "settle t (best_order t db) db = db"
proof -
  note links = direct_rep_links[OF assms, of t]
  have "put_next (first_of (L t)) None (db_orders db) = db_orders db"
    using links by (cases "L t") (auto simp: put_next_same put_next_def[of None])
  then show ?thesis using direct_rep_best[OF assms, of t] by (cases t) (simp_all add: settle_def)
qed

lemma settled_maker:
  assumes rep: "direct_rep (settle t (Some a) db) L X" and L: "L t = a # r"
  obtains d b bb where "db_orders db a = Some d" "do_order d = dord (db_orders db) a" "do_bucket d = Some b"
    "dbuck (db_orders db) a = Some b" "db_buckets db b = Some bb" "do_prev d = first_of r"
    "dls (db_orders db) (Some a) r None" "b \<in> bucket_addrs (price_buckets t db)" "resting t (do_order d)"
    "side_data t (dord (db_orders db)) (dbuck (db_orders db)) (db_buckets db) (a # r) (price_buckets t db)"
proof -
  note links = direct_rep_links[OF rep, of t, unfolded L]
  have data: "side_data t (dord (db_orders db)) (dbuck (db_orders db)) (db_buckets db) (a # r) (price_buckets t db)"
    using direct_rep_data[OF rep, of t] L by simp
  obtain d where d: "db_orders db a = Some d" "do_prev d = first_of r"
    using links by (cases "db_orders db a") (auto simp: put_next_def)
  then have v: "do_order d = dord (db_orders db) a" "do_bucket d = dbuck (db_orders db) a" by (simp_all add: dord_def dbuck_def)
  have "dls (put_next (Some a) None (db_orders db)) (Some a) r None \<longleftrightarrow> dls (db_orders db) (Some a) r None"
    using side_dataD(1)[OF data] by (intro dls_cong ballI put_other) auto
  then have "dls (db_orders db) (Some a) r None" using links by simp
  moreover obtain b where "dbuck (db_orders db) a = Some b" "b \<in> bucket_addrs (price_buckets t db)" "db_buckets db b \<noteq> None"
    by (rule order_bucket[OF data, of a]) auto
  moreover have "resting t (dord (db_orders db) a)" using side_data_resting[OF data, of a] by simp
  ultimately show ?thesis using that d v data by auto
qed

section \<open>One round\<close>

text \<open>What a round leaves alone.\<close>

definition match_frame :: "order_action \<Rightarrow> (order_action \<Rightarrow> addr list) \<Rightarrow> addr set \<Rightarrow> direct_book \<Rightarrow> direct_book \<Rightarrow> bool" where
  "match_frame t L X db db' \<longleftrightarrow>
     (\<forall>c \<in> set (L (opposite t)) \<union> X. db_orders db' c = db_orders db c) \<and>
     price_buckets (opposite t) db' = price_buckets (opposite t) db \<and>
     bucket_addrs (price_buckets t db') \<subseteq> bucket_addrs (price_buckets t db) \<and>
     db_fresh db' = db_fresh db \<and> db_symbolSpec db' = db_symbolSpec db"

lemma match_frame_refl [simp]: "match_frame t L X db db"
  by (simp add: match_frame_def)

lemma match_frame_trans:
  "match_frame t L X db db1 \<Longrightarrow> match_frame t (L(t := xs)) X db1 db2 \<Longrightarrow> match_frame t L X db db2"
  by (auto simp: match_frame_def)

text \<open>A maker that is filled leaves the book.\<close>

definition consumed ::
  "order_action \<Rightarrow> addr \<Rightarrow> int \<Rightarrow> (addr \<Rightarrow> direct_bucket option) \<Rightarrow> addr art_map \<Rightarrow> direct_book \<Rightarrow> direct_book" where
  "consumed t a orderId B m db = set_price_buckets t m (db\<lparr>db_buckets := B, db_orders := (db_orders db)(a := None),
     db_orderIdIndex := um_erase orderId (db_orderIdIndex db)\<rparr>)"

lemma consumed_simps [simp]:
  "db_orders (consumed t a k B m db) = (db_orders db)(a := None)" "db_buckets (consumed t a k B m db) = B"
  "db_fresh (consumed t a k B m db) = db_fresh db"
  "db_orderIdIndex (consumed t a k B m db) = um_erase k (db_orderIdIndex db)"
  "db_symbolSpec (consumed t a k B m db) = db_symbolSpec db" "price_buckets t (consumed t a k B m db) = m"
  "price_buckets (opposite t) (consumed t a k B m db) = price_buckets (opposite t) db"
  "best_order s (consumed t a k B m db) = best_order s db"
  by (simp_all add: consumed_def)

lemma index_rep_cong: "\<forall>a \<in> A. f a = f' a \<Longrightarrow> index_rep idx f A = index_rep idx f' A"
  by (auto simp: index_rep_def)

lemma dord_other: "a \<noteq> c \<Longrightarrow> dord (h(c := v)) a = dord h a" "a \<noteq> c \<Longrightarrow> dbuck (h(c := v)) a = dbuck h a"
  by (simp_all add: dord_def dbuck_def)

lemma consumed_rep:
  assumes rep: "direct_rep (settle t (Some a) db) L X" and L: "L t = a # r"
    and data: "side_data t (dord (db_orders db)) (dbuck (db_orders db)) B r m"
    and sub: "bucket_addrs m \<subseteq> bucket_addrs (price_buckets t db)"
    and B: "\<And>c. c \<noteq> b \<Longrightarrow> B c = db_buckets db c" and b: "b \<in> bucket_addrs (price_buckets t db)"
  defines "db' \<equiv> consumed t a (ord_orderId (dord (db_orders db) a)) B m db"
  shows "direct_rep (settle t (first_of r) db') (L(t := r)) X" and "match_frame t L X db db'"
proof -
  let ?D = "settle t (Some a) db" and ?D' = "settle t (first_of r) db'" and ?f = "dord (db_orders db)"
  have distinct: "distinct (a # r)" using side_dataD(1)[OF direct_rep_data[OF rep, of t]] L by simp
  have out: "a \<notin> set (L (opposite t))" "set r \<inter> set (L (opposite t)) = {}" using direct_repD(2)[OF rep, of t] L by auto
  have X: "a \<notin> X" "X \<inter> set r = {}" "X \<inter> set (L (opposite t)) = {}"
    using direct_repD(4)[OF rep] L by (auto simp: linked_side[of _ t])
  have heap: "db_orders ?D' c = db_orders db c" if "c \<noteq> a" "c \<notin> set r" for c
    using that first_of_notin[of c r] by (simp add: db'_def)
  have old: "db_orders ?D c = db_orders db c" if "c \<noteq> a" for c using that by simp
  have f': "dord (db_orders ?D') c = ?f c" "dbuck (db_orders ?D') c = dbuck (db_orders db) c" if "c \<noteq> a" for c
    using that by (simp_all add: db'_def dord_other)
  have other_b: "c \<noteq> b" if "c \<in> bucket_addrs (price_buckets (opposite t) db)" for c
    using direct_repD(3)[OF rep, of t] b that by auto
  show "direct_rep ?D' (L(t := r)) X"
  proof (rule direct_rep_side[OF rep])
    have "dls (db_orders db) (Some a) r None" by (rule settled_maker[OF rep L])
    moreover have "dls ((db_orders db)(a := None)) (Some a) r None \<longleftrightarrow> dls (db_orders db) (Some a) r None"
      using distinct by (intro dls_cong) auto
    ultimately have "dls (db_orders ?D') None r None"
      using dls_put_next[of "(db_orders db)(a := None)" "Some a" r None None] distinct by (simp add: db'_def)
    moreover have "side_data t (dord (db_orders ?D')) (dbuck (db_orders ?D')) B r m"
    proof (rule side_data_cong[OF data])
      have "c \<noteq> a" if "c \<in> set r" for c using that distinct by auto
      then show "\<forall>c \<in> set r. ?f c = dord (db_orders ?D') c \<and> dbuck (db_orders db) c = dbuck (db_orders ?D') c"
        using f' by simp
    qed simp
    ultimately show "side_rep ?D' t r" by (simp add: side_rep_def db'_def)
    show "bucket_addrs (price_buckets t ?D') \<inter> bucket_addrs (price_buckets (opposite t) ?D) = {}"
      using direct_repD(3)[OF rep, of t] sub by (auto simp: db'_def)
    show "\<forall>c \<in> set (L (opposite t)). db_orders ?D' c = db_orders ?D c"
    proof
      fix c
      assume "c \<in> set (L (opposite t))"
      then have "c \<noteq> a" "c \<notin> set r" using out by auto
      then show "db_orders ?D' c = db_orders ?D c" using heap old by simp
    qed
    show "\<forall>c \<in> bucket_addrs (price_buckets (opposite t) ?D). db_buckets ?D' c = db_buckets ?D c"
      using B other_b by (simp add: db'_def)
    show "\<forall>c \<in> X. db_orders ?D' c \<noteq> None"
    proof
      fix c
      assume c: "c \<in> X"
      then have "c \<noteq> a" "c \<notin> set r" using X by auto
      then show "db_orders ?D' c \<noteq> None" using heap old direct_repD(5)[OF rep c] by simp
    qed
    have set': "set r \<union> set (L (opposite t)) \<union> X = (linked L \<union> X) - {a}"
      using L distinct out X by (auto simp: linked_side[of _ t])
    have "index_rep (db_orderIdIndex db) ?f (linked L \<union> X)" using direct_repD(6)[OF rep] by simp
    then have "index_rep (um_erase (ord_orderId (?f a)) (db_orderIdIndex db)) ?f ((linked L \<union> X) - {a})"
      using L by (intro index_rep_erase) (auto simp: linked_side[of _ t])
    moreover have "\<forall>c \<in> (linked L \<union> X) - {a}. ?f c = dord (db_orders ?D') c" using f' by simp
    ultimately show "index_rep (db_orderIdIndex ?D') (dord (db_orders ?D')) (set r \<union> set (L (opposite t)) \<union> X)"
      unfolding set' using index_rep_cong[of "linked L \<union> X - {a}" ?f "dord (db_orders ?D')"] by (simp add: db'_def)
    show "\<forall>c \<ge> db_fresh ?D'. db_orders ?D' c = None \<and> db_buckets ?D' c = None"
    proof (intro allI impI)
      fix c
      assume "c \<ge> db_fresh ?D'"
      then have c: "db_orders ?D c = None" "db_buckets db c = None" "c \<ge> db_fresh ?D"
        using direct_repD(7)[OF rep, of c] by (simp_all add: db'_def)
      then have "c \<noteq> b" using bucket_below[OF rep, of b t] b by auto
      with B c show "db_orders ?D' c = None \<and> db_buckets ?D' c = None" by (simp add: db'_def)
    qed
  qed (use out X in \<open>auto simp: db'_def\<close>)
  show "match_frame t L X db db'" using sub out X by (auto simp: match_frame_def db'_def)
qed

text \<open>The last order of the bucket of an order, which the loop carries along.\<close>

definition tail_of :: "direct_book \<Rightarrow> addr \<Rightarrow> addr option" where
  "tail_of db a = bu_lastOrder (the (db_buckets db (the (dbuck (db_orders db) a))))"

lemma tail_of_bucket: "dbuck (db_orders db) a = Some b \<Longrightarrow> db_buckets db b = Some bb \<Longrightarrow> tail_of db a = bu_lastOrder bb"
  by (simp add: tail_of_def)

lemma first_same_price:
  assumes "side_ok s (map f (a # r))" and "at_price f r (ord_price (f a)) \<noteq> []"
  obtains c r' where "r = c # r'" "ord_price (f c) = ord_price (f a)"
proof (cases r)
  case (Cons c r')
  obtain e where e: "e \<in> set r" "ord_price (f e) = ord_price (f a)" using assms(2) by (auto simp: at_price_empty)
  have "\<not> before s (ord_price (f c)) (ord_price (f a))" using assms(1) Cons by (simp add: side_ok_Cons)
  moreover have "e = c \<or> \<not> before s (ord_price (f e)) (ord_price (f c))"
    using assms(1) Cons e(1) by (auto simp: side_ok_Cons)
  ultimately have "ord_price (f c) = ord_price (f a)" using e(2) not_before by metis
  with Cons that show ?thesis by simp
qed (use assms(2) in simp)

text \<open>The bookkeeping of a filled maker: its bucket shrinks, or goes when the maker was the last of it.\<close>

definition shrunk_bucket :: "order_action \<Rightarrow> addr \<Rightarrow> addr \<Rightarrow> addr option \<Rightarrow> direct_bucket \<Rightarrow> direct_book \<Rightarrow> direct_book" where
  "shrunk_bucket t a b tail bb db =
     (let x = dord (db_orders db) a
      in if Some a = tail
         then consumed t a (ord_orderId x) ((db_buckets db)(b := None)) (art_map_remove (ord_price x) (price_buckets t db)) db
         else consumed t a (ord_orderId x) ((db_buckets db)(b \<mapsto> without_order x bb)) (price_buckets t db) db)"

lemma shrunk_bucket_ok:
  assumes rep: "direct_rep (settle t (Some a) db) L X" and L: "L t = a # r"
    and b: "dbuck (db_orders db) a = Some b" "db_buckets db b = Some bb" "b \<in> bucket_addrs (price_buckets t db)"
    and data: "side_data t (dord (db_orders db)) (dbuck (db_orders db)) (db_buckets db) (a # r) (price_buckets t db)"
  defines "db' \<equiv> shrunk_bucket t a b (bu_lastOrder bb) bb db"
  shows "direct_rep (settle t (first_of r) db') (L(t := r)) X" and "match_frame t L X db db'"
    and "side_data t (dord (db_orders db)) (dbuck (db_orders db)) (db_buckets db') r (price_buckets t db')"
    and "Some a \<noteq> bu_lastOrder bb \<Longrightarrow> \<exists>c. first_of r = Some c \<and> dbuck (db_orders db) c = Some b"
proof -
  let ?f = "dord (db_orders db)"
  let ?x = "?f a"
  note test = remove_test[of t ?f _ _ "[]" a r, unfolded append_Nil, OF data b(1,2)]
  have "direct_rep (settle t (first_of r) db') (L(t := r)) X \<and> match_frame t L X db db' \<and>
    side_data t ?f (dbuck (db_orders db)) (db_buckets db') r (price_buckets t db')"
  proof (cases "Some a = bu_lastOrder bb")
    case True
    then have "at_price ?f r (ord_price ?x) = []" using test(1) by simp
    note last = side_data_remove_last[of t ?f _ _ "[]" a r, unfolded append_Nil, OF data b(1) this]
    have db': "db' = consumed t a (ord_orderId ?x) ((db_buckets db)(b := None))
        (art_map_remove (ord_price ?x) (price_buckets t db)) db"
      using True by (simp add: db'_def shrunk_bucket_def Let_def)
    show ?thesis unfolding db' using consumed_rep[OF rep L last(1) _ _ b(3)] last by auto
  next
    case False
    then have more: "at_price ?f r (ord_price ?x) \<noteq> []" using test(1) by auto
    have "(without_order ?x bb)\<lparr>bu_lastOrder := last_of (at_price ?f r (ord_price ?x))\<rparr> = without_order ?x bb"
      using test(4) False by (cases bb) (auto simp: without_order_def)
    with side_data_remove_keep[of t ?f _ _ "[]" a r, unfolded append_Nil, OF data b(1,2) more]
    have keep: "side_data t ?f (dbuck (db_orders db)) ((db_buckets db)(b \<mapsto> without_order ?x bb)) r (price_buckets t db)" by simp
    have db': "db' = consumed t a (ord_orderId ?x) ((db_buckets db)(b \<mapsto> without_order ?x bb)) (price_buckets t db) db"
      using False by (simp add: db'_def shrunk_bucket_def Let_def)
    show ?thesis unfolding db' using consumed_rep[OF rep L keep _ _ b(3)] keep by auto
  qed
  then show "direct_rep (settle t (first_of r) db') (L(t := r)) X" "match_frame t L X db db'"
    "side_data t ?f (dbuck (db_orders db)) (db_buckets db') r (price_buckets t db')" by blast+
  show "\<exists>c. first_of r = Some c \<and> dbuck (db_orders db) c = Some b" if "Some a \<noteq> bu_lastOrder bb"
  proof -
    have "at_price ?f r (ord_price ?x) \<noteq> []" using test(1) that by auto
    from first_same_price[OF side_dataD(2)[OF data] this] obtain c r' where "r = c # r'" "ord_price (?f c) = ord_price ?x" .
    with same_bucket[OF data, of c a] b(1) show ?thesis by simp
  qed
qed

section \<open>The loop\<close>

text \<open>One round of the loop, for a maker that is filled and for one that is not.\<close>

lemma match_loop_full:
  assumes rep: "direct_rep (settle (opposite action) (Some a) db) L X" and L: "L (opposite action) = a # r"
    and vol: "remaining (dord (db_orders db) a) \<le> vol"
  defines "x \<equiv> dord (db_orders db) a"
  obtains db' where
    "direct_rep (settle (opposite action) (first_of r) db') (L(opposite action := r)) X"
    "match_frame (opposite action) L X db db'"
    "\<forall>c \<in> set r. dord (db_orders db') c = dord (db_orders db) c"
    "\<And>fuel limit reserve. direct_match_loop (Suc fuel) action limit reserve a (tail_of db a) vol db =
      (let event = send_trade_event default_event (x\<lparr>ord_filled := ord_size x\<rparr>) True (vol = remaining x) (remaining x)
             (if action = BID then reserve else ord_reserveBidPrice x)
       in case first_of r of
            None \<Rightarrow> Inr (None, vol - remaining x, [event], db')
          | Some c \<Rightarrow>
              if vol - remaining x > 0 \<and> crosses action limit (ord_price (dord (db_orders db) c))
              then bindE (direct_match_loop fuel action limit reserve c (tail_of db' c) (vol - remaining x) db')
                     (\<lambda>(m, r, evs, db''). Inr (m, r, event # evs, db''))
              else Inr (Some c, vol - remaining x, [event], db'))"
proof -
  let ?t = "opposite action" and ?f = "dord (db_orders db)"
  obtain d b bb where m: "db_orders db a = Some d" "do_order d = ?f a" "do_bucket d = Some b"
    "dbuck (db_orders db) a = Some b" "db_buckets db b = Some bb" "do_prev d = first_of r"
    "dls (db_orders db) (Some a) r None" "b \<in> bucket_addrs (price_buckets ?t db)" "resting ?t (do_order d)"
    "side_data ?t ?f (dbuck (db_orders db)) (db_buckets db) (a # r) (price_buckets ?t db)"
    by (rule settled_maker[OF rep L])
  let ?tail = "bu_lastOrder bb" and ?y = "x\<lparr>ord_filled := ord_size x\<rparr>"
  have tail: "tail_of db a = ?tail" by (rule tail_of_bucket[OF m(4,5)])
  define db' where "db' = shrunk_bucket ?t a b ?tail bb db"
  note ok = shrunk_bucket_ok[OF rep L m(4,5,8,10), folded db'_def]
  have distinct: "a \<notin> set r" using side_dataD(1)[OF m(10)] by simp
  have heap': "db_orders db' = (db_orders db)(a := None)" by (simp add: db'_def shrunk_bucket_def Let_def)
  define db3 where "db3 = db\<lparr>db_orders := (db_orders db)(a \<mapsto> d\<lparr>do_order := ?y\<rparr>),
      db_buckets := (db_buckets db)(b \<mapsto> without_order x bb), db_orderIdIndex := um_erase (ord_orderId x) (db_orderIdIndex db)\<rparr>"
  define db4 where "db4 = (if Some a = ?tail
      then free_bucket (Some b) (set_price_buckets ?t (art_map_remove (ord_price x) (price_buckets ?t db3)) db3) else db3)"
  have free: "free_order a db4 = db'"
    by (cases ?t) (simp_all add: db'_def db4_def db3_def shrunk_bucket_def consumed_def free_bucket_def free_order_def x_def Let_def)
  have heap4: "db_buckets db4 = db_buckets db'" "db_orders db4 = (db_orders db)(a \<mapsto> d\<lparr>do_order := ?y\<rparr>)"
    "db_orders db3 = (db_orders db)(a \<mapsto> d\<lparr>do_order := ?y\<rparr>)"
    using arg_cong[OF free, of db_buckets] by (simp_all add: db4_def db3_def)
  have next_ok: "\<exists>p b' bb'. db_orders db c = Some p \<and> do_bucket p = Some b' \<and> db_buckets db' b' = Some bb' \<and> do_order p = ?f c \<and>
      tail_of db' c = bu_lastOrder bb' \<and> c \<noteq> a \<and> dbuck (db_orders db) c = Some b'" if "first_of r = Some c" for c
  proof -
    have c: "c \<in> set r" "c \<noteq> a" using that distinct by (cases r; auto)+
    obtain p where p: "db_orders db c = Some p" using dls_alive[OF m(7) c(1)] by blast
    obtain b' bb' where b': "dbuck (db_orders db) c = Some b'" "db_buckets db' b' = Some bb'"
      by (rule order_bucket[OF ok(3) c(1)]) blast
    then have "tail_of db' c = bu_lastOrder bb'" by (intro tail_of_bucket) (simp_all add: heap' dord_other c(2))
    with p b' c(2) show ?thesis by (auto simp: dbuck_def dord_def)
  qed
  have carry: "(if Some a = ?tail
          then let s = ?t; db4 = free_bucket (do_bucket d) (set_price_buckets s (art_map_remove (ord_price ?y) (price_buckets s db3)) db3)
               in if do_prev d = None then Inr (?tail, db4)
                  else bindE (deref (db_orders db4) (do_prev d)) (\<lambda>p. bindE (deref (db_buckets db4) (do_bucket p)) (\<lambda>b. Inr (bu_lastOrder b, db4)))
          else Inr (?tail, db3)) =
      Inr (case first_of r of None \<Rightarrow> ?tail | Some c \<Rightarrow> tail_of db' c, db4)"
  proof (cases "first_of r")
    case None
    then show ?thesis using m(3,6) by (simp add: db4_def Let_def)
  next
    case (Some c)
    then obtain p b' bb' where p: "db_orders db c = Some p" "do_bucket p = Some b'" "db_buckets db' b' = Some bb'"
      "tail_of db' c = bu_lastOrder bb'" "c \<noteq> a" "dbuck (db_orders db) c = Some b'" using next_ok by blast
    show ?thesis
    proof (cases "Some a = ?tail")
      case True
      then have "free_bucket (do_bucket d) (set_price_buckets ?t (art_map_remove (ord_price ?y) (price_buckets ?t db3)) db3) = db4"
        using m(3) by (simp add: db4_def)
      then show ?thesis using True Some p m(6) by (simp add: Let_def heap4)
    next
      case False
      then have "b' = b" using ok(4) Some p(6) by simp
      moreover have "db_buckets db' b = Some (without_order x bb)" using False by (simp add: db'_def shrunk_bucket_def x_def Let_def)
      ultimately have "bb' = without_order x bb" using p(3) by simp
      then have "tail_of db' c = ?tail" using p(4) by (simp add: without_order_def)
      with False Some show ?thesis by (simp add: db4_def)
    qed
  qed
  have size: "min vol (ord_size (do_order d) - ord_filled (do_order d)) = remaining x"
    using vol by (simp add: m(2) x_def remaining_def)
  have y: "(do_order d)\<lparr>ord_filled := ord_filled (do_order d) + remaining x\<rparr> = ?y" by (simp add: m(2) x_def remaining_def)
  have upd1: "upd_order (Some a) (\<lambda>d. d\<lparr>do_order := ?y\<rparr>) db = Inr (db\<lparr>db_orders := (db_orders db)(a \<mapsto> d\<lparr>do_order := ?y\<rparr>)\<rparr>)"
    using m(1) by simp
  have upd2: "upd_bucket (do_bucket d) (\<lambda>b. b\<lparr>bu_totalVolume := bu_totalVolume b - remaining x,
        bu_numOrders := bu_numOrders b - 1\<rparr>) (db\<lparr>db_orders := (db_orders db)(a \<mapsto> d\<lparr>do_order := ?y\<rparr>)\<rparr>) =
      Inr (db\<lparr>db_orders := (db_orders db)(a \<mapsto> d\<lparr>do_order := ?y\<rparr>), db_buckets := (db_buckets db)(b \<mapsto> without_order x bb)\<rparr>)"
    using m(3,5) by (simp add: without_order_def remaining_def)
  have eq3: "db\<lparr>db_orders := (db_orders db)(a \<mapsto> d\<lparr>do_order := ?y\<rparr>), db_buckets := (db_buckets db)(b \<mapsto> without_order x bb),
      db_orderIdIndex := um_erase (ord_orderId ?y) (db_orderIdIndex (db\<lparr>db_orders := (db_orders db)(a \<mapsto> d\<lparr>do_order := ?y\<rparr>),
        db_buckets := (db_buckets db)(b \<mapsto> without_order x bb)\<rparr>))\<rparr> = db3" by (simp add: db3_def)
  have complete: "(ord_size ?y = ord_filled ?y) = True" by simp
  have read: "deref (db_orders db) (Some a) = Inr d" using m(1) by simp
  have carry': "(if Some a = ?tail
          then if do_prev d = None then Inr (?tail, free_bucket (do_bucket d) (set_price_buckets ?t (art_map_remove (ord_price ?y) (price_buckets ?t db3)) db3))
                  else bindE (deref (db_orders (free_bucket (do_bucket d) (set_price_buckets ?t (art_map_remove (ord_price ?y) (price_buckets ?t db3)) db3))) (do_prev d))
                    (\<lambda>p. bindE (deref (db_buckets (free_bucket (do_bucket d) (set_price_buckets ?t (art_map_remove (ord_price ?y) (price_buckets ?t db3)) db3))) (do_bucket p))
                       (\<lambda>b. Inr (bu_lastOrder b, free_bucket (do_bucket d) (set_price_buckets ?t (art_map_remove (ord_price ?y) (price_buckets ?t db3)) db3))))
          else Inr (?tail, db3)) =
      Inr (case first_of r of None \<Rightarrow> ?tail | Some c \<Rightarrow> tail_of db' c, db4)" using carry unfolding Let_def .
  have cross: "(if action = BID then p \<le> limit else p \<ge> limit) = crosses action limit p" for limit p by (cases action) auto
  show ?thesis
  proof (rule that[OF ok(1,2)])
    show "\<forall>c \<in> set r. dord (db_orders db') c = ?f c" using distinct by (metis dord_other(1) heap')
    show "direct_match_loop (Suc fuel) action limit reserve a (tail_of db a) vol db =
      (let event = send_trade_event default_event ?y True (vol = remaining x) (remaining x)
             (if action = BID then reserve else ord_reserveBidPrice x)
       in case first_of r of
            None \<Rightarrow> Inr (None, vol - remaining x, [event], db')
          | Some c \<Rightarrow>
              if vol - remaining x > 0 \<and> crosses action limit (ord_price (?f c))
              then bindE (direct_match_loop fuel action limit reserve c (tail_of db' c) (vol - remaining x) db')
                     (\<lambda>(m, r, evs, db''). Inr (m, r, event # evs, db''))
              else Inr (Some c, vol - remaining x, [event], db'))" for fuel limit reserve
    proof -
      have event: "(if action = BID then reserve else ord_reserveBidPrice ?y) = (if action = BID then reserve else ord_reserveBidPrice x)"
        "(vol - remaining x = 0) = (vol = remaining x)" by auto
      have go: "direct_match_loop (Suc fuel) action limit reserve a (tail_of db a) vol db =
        (let event = send_trade_event default_event ?y True (vol = remaining x) (remaining x)
               (if action = BID then reserve else ord_reserveBidPrice x)
         in case do_prev d of
            None \<Rightarrow> Inr (None, vol - remaining x, [event], db')
          | Some next \<Rightarrow> bindE (deref (db_orders db') (Some next)) (\<lambda>n.
              if vol - remaining x > 0 \<and> crosses action limit (ord_price (do_order n))
              then bindE (direct_match_loop fuel action limit reserve next
                     (case first_of r of None \<Rightarrow> ?tail | Some c \<Rightarrow> tail_of db' c) (vol - remaining x) db')
                     (\<lambda>(m, r, evs, db''). Inr (m, r, event # evs, db''))
              else Inr (Some next, vol - remaining x, [event], db')))"
        by (simp only: direct_match_loop.simps(2) read bindE_simps Let_def tail size y complete upd1 upd2 eq3 event carry' free cross
            simp_thms if_True if_False prod.case)
      show ?thesis
      proof (cases "first_of r")
        case None
        then show ?thesis using go m(6) by simp
      next
        case (Some c)
        from next_ok[OF this] Some go m(6) show ?thesis by (auto simp: heap' Let_def simp del: direct_match_loop.simps)
      qed
    qed
  qed
qed

lemma match_loop_part:
  assumes rep: "direct_rep (settle (opposite action) (Some a) db) L X" and L: "L (opposite action) = a # r"
    and vol: "0 < vol" "vol < remaining (dord (db_orders db) a)"
  defines "x \<equiv> (dord (db_orders db) a)\<lparr>ord_filled := ord_filled (dord (db_orders db) a) + vol\<rparr>"
  obtains db' where
    "direct_rep (settle (opposite action) (Some a) db') L X" "match_frame (opposite action) L X db db'"
    "dord (db_orders db') = (dord (db_orders db))(a := x)"
    "\<And>fuel limit reserve. direct_match_loop (Suc fuel) action limit reserve a (tail_of db a) vol db =
      Inr (Some a, 0, [send_trade_event default_event x False True vol
        (if action = BID then reserve else ord_reserveBidPrice x)], db')"
proof -
  let ?t = "opposite action" and ?f = "dord (db_orders db)" and ?D = "settle (opposite action) (Some a) db"
  obtain d b bb where m: "db_orders db a = Some d" "do_order d = ?f a" "do_bucket d = Some b"
    "dbuck (db_orders db) a = Some b" "db_buckets db b = Some bb" "b \<in> bucket_addrs (price_buckets ?t db)"
    "resting ?t (do_order d)" "side_data ?t ?f (dbuck (db_orders db)) (db_buckets db) (a # r) (price_buckets ?t db)"
    by (rule settled_maker[OF rep L])
  have x: "(do_order d)\<lparr>ord_filled := ord_filled (do_order d) + vol\<rparr> = x" by (simp add: x_def m(2))
  let ?h = "(db_orders db)(a \<mapsto> d\<lparr>do_order := x\<rparr>)"
  define db' where "db' = db\<lparr>db_orders := ?h, db_buckets := (db_buckets db)(b \<mapsto> bb\<lparr>bu_totalVolume := bu_totalVolume bb - vol\<rparr>)\<rparr>"
  have diff: "remaining (?f a) - remaining x = vol" by (simp add: remaining_def x_def)
  have settled: "settle ?t (Some a) db' = resized a x b vol ?D"
    using m(1,5) by (cases ?t; cases db; cases d) (simp_all add: db'_def settle_def resized_def put_next_def)
  have rep': "direct_rep (settle ?t (Some a) db') L X"
    using resized_rep[OF rep, of a ?t b x] L m(2,4,7) vol diff unfolding settled
    by (simp add: x_def resting_def remaining_def)
  have "a \<notin> set (L (opposite ?t))" "a \<notin> X"
    using direct_repD(2)[OF rep, of ?t] direct_repD(4)[OF rep] L by (auto simp: linked_side[of _ ?t])
  then have frame: "match_frame ?t L X db db'" by (auto simp: match_frame_def db'_def)
  have views: "dord ?h = ?f(a := x)" using m(1) by (auto simp: fun_eq_iff dord_def)
  have read: "deref (db_orders db) (Some a) = Inr d" using m(1) by simp
  have size: "min vol (ord_size (do_order d) - ord_filled (do_order d)) = vol" using vol by (simp add: m(2) remaining_def)
  have complete: "(ord_size x = ord_filled x) = False" using vol by (simp add: x_def remaining_def)
  have upd1: "upd_order (Some a) (\<lambda>d. d\<lparr>do_order := x\<rparr>) db = Inr (db\<lparr>db_orders := ?h\<rparr>)" using m(1) by simp
  have upd2: "upd_bucket (do_bucket d) (\<lambda>b. b\<lparr>bu_totalVolume := bu_totalVolume b - vol,
        bu_numOrders := bu_numOrders b\<rparr>) (db\<lparr>db_orders := ?h\<rparr>) = Inr db'"
    using m(3,5) by (simp add: db'_def)
  show ?thesis
  proof (rule that[OF rep' frame])
    show "dord (db_orders db') = ?f(a := x)" by (simp add: db'_def views)
    have zero: "vol - vol = 0" by simp
    show "direct_match_loop (Suc fuel) action limit reserve a (tail_of db a) vol db =
      Inr (Some a, 0, [send_trade_event default_event x False True vol
        (if action = BID then reserve else ord_reserveBidPrice x)], db')" for fuel limit reserve
      by (simp only: direct_match_loop.simps(2) read bindE_simps Let_def size x complete upd1 upd2 zero simp_thms if_True if_False)
  qed
qed

text \<open>The loop fills the taker as the specification does, with one round per order of the list at most.\<close>

lemma match_loop_ok:
  assumes "direct_rep (settle (opposite action) (Some a) db) L X" and "L (opposite action) = a # r"
    and "0 < vol" and "crosses action limit (ord_price (dord (db_orders db) a))" and "length r < fuel"
  shows "\<exists>rest evs db' L'. direct_match_loop fuel action limit reserve a (tail_of db a) vol db = Inr (first_of L', rest, evs, db') \<and>
    direct_rep (settle (opposite action) (first_of L') db') (L(opposite action := L')) X \<and>
    match_frame (opposite action) L X db db' \<and>
    fill (crosses action limit) reserve vol (map (dord (db_orders db)) (a # r)) =
      (map (dord (db_orders db')) L', evs, vol - rest)"
  using assms
proof (induction fuel arbitrary: a r db L vol)
  case (Suc fuel)
  let ?t = "opposite action" and ?f = "dord (db_orders db)"
  let ?x = "?f a"
  have rest: "resting ?t ?x"
    by (rule settled_maker[OF Suc.prems(1,2)]) simp
  then have hold: "(if ord_action ?x = ASK then reserve else ord_reserveBidPrice ?x) =
      (if action = BID then reserve else ord_reserveBidPrice ?x)" by (cases action) (auto simp: resting_def)
  show ?case
  proof (cases "vol < remaining ?x")
    case True
    let ?y = "?x\<lparr>ord_filled := ord_filled ?x + vol\<rparr>"
    obtain db' where db': "direct_rep (settle ?t (Some a) db') L X" "match_frame ?t L X db db'"
      "dord (db_orders db') = ?f(a := ?y)"
      "direct_match_loop (Suc fuel) action limit reserve a (tail_of db a) vol db =
        Inr (Some a, 0, [send_trade_event default_event ?y False True vol
          (if action = BID then reserve else ord_reserveBidPrice ?y)], db')"
      by (rule match_loop_part[OF Suc.prems(1,2,3) True]) blast
    have "a \<notin> set r" using side_dataD(1)[OF direct_rep_data[OF Suc.prems(1), of ?t]] Suc.prems(2) by simp
    then have "map (dord (db_orders db')) (a # r) = ?y # map ?f r" by (simp add: db'(3))
    moreover have "L(?t := a # r) = L" using Suc.prems(2) by auto
    ultimately show ?thesis
      using db'(1,2,4) True Suc.prems(3,4) hold
      by (intro exI[of _ 0] exI[of _ "[send_trade_event default_event ?y False True vol
          (if action = BID then reserve else ord_reserveBidPrice ?x)]"] exI[of _ db'] exI[of _ "a # r"])
         (simp add: fill_Cons_part del: fill.simps direct_match_loop.simps fun_upd_apply)
  next
    case False
    then have vol: "remaining ?x \<le> vol" by simp
    let ?vol = "vol - remaining ?x"
    define event where "event = send_trade_event default_event (?x\<lparr>ord_filled := ord_size ?x\<rparr>) True (vol = remaining ?x) (remaining ?x)
        (if action = BID then reserve else ord_reserveBidPrice ?x)"
    obtain db' where db': "direct_rep (settle ?t (first_of r) db') (L(?t := r)) X" "match_frame ?t L X db db'"
      "\<forall>c \<in> set r. dord (db_orders db') c = ?f c"
      "direct_match_loop (Suc fuel) action limit reserve a (tail_of db a) vol db =
        (let event = send_trade_event default_event (?x\<lparr>ord_filled := ord_size ?x\<rparr>) True (vol = remaining ?x) (remaining ?x)
               (if action = BID then reserve else ord_reserveBidPrice ?x)
         in case first_of r of
            None \<Rightarrow> Inr (None, ?vol, [event], db')
          | Some c \<Rightarrow>
              if ?vol > 0 \<and> crosses action limit (ord_price (?f c))
              then bindE (direct_match_loop fuel action limit reserve c (tail_of db' c) ?vol db')
                     (\<lambda>(m, r, evs, db''). Inr (m, r, event # evs, db''))
              else Inr (Some c, ?vol, [event], db'))"
      by (rule match_loop_full[OF Suc.prems(1,2) vol]) blast
    note round = db'(4)[folded event_def, unfolded Let_def]
    have same: "map (dord (db_orders db')) r = map ?f r" using db'(3) by simp
    have fill: "fill (crosses action limit) reserve vol (map ?f (a # r)) =
        (case fill (crosses action limit) reserve ?vol (map ?f r) of (os', evs, g) \<Rightarrow> (os', event # evs, remaining ?x + g))"
      using Suc.prems(3,4) vol hold by (simp add: fill_Cons_full event_def del: fill.simps)
    show ?thesis
    proof (cases "\<exists>c r'. r = c # r' \<and> ?vol > 0 \<and> crosses action limit (ord_price (?f c))")
      case True
      then obtain c r' where c: "r = c # r'" "?vol > 0" "crosses action limit (ord_price (?f c))" by blast
      have prems: "direct_rep (settle ?t (Some c) db') (L(?t := r)) X" "(L(?t := r)) ?t = c # r'"
        "crosses action limit (ord_price (dord (db_orders db') c))" "length r' < fuel"
        using db'(1,3) c(1,3) Suc.prems(5) by simp_all
      obtain rest evs db'' L' where step:
        "direct_match_loop fuel action limit reserve c (tail_of db' c) ?vol db' = Inr (first_of L', rest, evs, db'')"
        "direct_rep (settle ?t (first_of L') db'') (L(?t := r, ?t := L')) X" "match_frame ?t (L(?t := r)) X db' db''"
        "fill (crosses action limit) reserve ?vol (map (dord (db_orders db')) (c # r')) = (map (dord (db_orders db'')) L', evs, ?vol - rest)"
        using Suc.IH[OF prems(1,2) c(2) prems(3,4)] by blast
      have fill': "fill (crosses action limit) reserve ?vol (map ?f r) = (map (dord (db_orders db'')) L', evs, ?vol - rest)"
        using step(4) unfolding c(1)[symmetric] same .
      have "match_frame ?t L X db db''" by (rule match_frame_trans[OF db'(2) step(3)])
      moreover have "direct_match_loop (Suc fuel) action limit reserve a (tail_of db a) vol db =
          Inr (first_of L', rest, event # evs, db'')" unfolding round using c step(1) by simp
      ultimately show ?thesis
        using step(2) fill by (intro exI[of _ rest] exI[of _ "event # evs"] exI[of _ db''] exI[of _ L'])
          (simp add: fill' del: fill.simps direct_match_loop.simps fun_upd_apply)
    next
      case stop: False
      then have "direct_match_loop (Suc fuel) action limit reserve a (tail_of db a) vol db = Inr (first_of r, ?vol, [event], db')"
        unfolding round by (cases r) auto
      moreover have "fill (crosses action limit) reserve ?vol (map ?f r) = (map ?f r, [], 0)" using stop by (cases r) auto
      ultimately show ?thesis
        using db'(1,2) fill by (intro exI[of _ ?vol] exI[of _ "[event]"] exI[of _ db'] exI[of _ r])
          (simp add: same del: fill.simps direct_match_loop.simps fun_upd_apply map_eq_conv)
    qed
  qed
qed simp

end
