(* ===== verification/Direct_Taker.thy ===== *)
theory Direct_Taker
  imports Direct_Match
begin

text \<open>
  A taker on the direct book: \<open>tryMatchInstantly\<close> and \<open>checkBudgetToFill\<close> compute what the flat book
  does, and their loops end within the fuel.
\<close>

section \<open>Fuel\<close>

text \<open>The index holds every order of a list, so its length bounds the rounds of every loop.\<close>

lemma index_length:
  assumes "index_rep idx f A" and "distinct xs" and "set xs \<subseteq> A"
  shows "length xs \<le> length idx"
proof -
  have "inj_on (\<lambda>a. ord_orderId (f a)) (set xs)" using index_rep_inj[OF assms(1)] assms(3) by (meson inj_onI subsetD)
  then have "card ((\<lambda>a. ord_orderId (f a)) ` set xs) = length xs" using assms(2) by (simp add: card_image distinct_card)
  moreover have "(\<lambda>a. ord_orderId (f a)) ` set xs \<subseteq> fst ` set idx"
  proof
    fix k
    assume "k \<in> (\<lambda>a. ord_orderId (f a)) ` set xs"
    then obtain a where "a \<in> set xs" "k = ord_orderId (f a)" by blast
    then have "um_find idx k = Some a" using assms(3) by (auto simp: index_rep_find[OF assms(1)])
    then show "k \<in> fst ` set idx" by (metis map_of_SomeD image_eqI fst_conv)
  qed
  moreover have "card (fst ` set idx) \<le> length idx" using card_length[of "map fst idx"] by simp
  moreover have "finite (fst ` set idx)" by simp
  ultimately show ?thesis using card_mono[of "fst ` set idx" "(\<lambda>a. ord_orderId (f a)) ` set xs"] by linarith
qed

lemma side_length: "direct_rep db L X \<Longrightarrow> length (L s) \<le> length (db_orderIdIndex db)"
  using index_length[OF direct_repD(6)] side_dataD(1)[OF direct_rep_data] linked_side by (metis sup_assoc sup_ge1)

section \<open>tryMatchInstantly\<close>

definition taker_limit :: "iorder \<Rightarrow> order_command \<Rightarrow> int" where
  "taker_limit io cmd =
     (if cmd_command cmd = PLACE_ORDER \<and> cmd_orderType cmd = FOK_BUDGET \<and> io_action io \<noteq> BID then 0 else io_price io)"

lemma fb_set_flat_of:
  assumes "match_frame t L X db db'"
  shows "fb_set_side t (map (dord (db_orders db')) L') (flat_of db L) = flat_of db' (L(t := L'))"
proof -
  have "map (dord (db_orders db')) (L (opposite t)) = map (dord (db_orders db)) (L (opposite t))"
    using assms by (simp add: match_frame_def dord_def)
  then show ?thesis by (cases t) (simp_all add: flat_of_def)
qed

lemma direct_try_match_ok:
  assumes rep: "direct_rep db L X" and sz: "io_filled io \<le> io_size io"
  defines "t \<equiv> opposite (io_action io)"
  obtains db' cmd' filled L' where "direct_try_match io cmd db = Inr (db', cmd', filled)"
    "direct_rep db' (L(t := L')) X" "match_frame t L X db db'"
    "flat_match io (crosses (io_action io) (taker_limit io cmd)) (flat_of db L) cmd = (flat_of db' (L(t := L')), cmd', filled)"
proof -
  let ?ok = "crosses (io_action io) (taker_limit io cmd)" and ?vol = "io_size io - io_filled io" and ?f = "dord (db_orders db)"
  show ?thesis
  proof (cases "\<exists>a r. L t = a # r \<and> ?ok (ord_price (?f a)) \<and> 0 < ?vol")
    case False
    have stop: "fill ?ok (io_reserveBidPrice io) ?vol (map ?f (L t)) = (map ?f (L t), [], 0)"
      using False by (cases "L t") auto
    have "direct_try_match io cmd db = Inr (db, cmd, io_filled io)"
    proof (cases "L t")
      case Nil
      then show ?thesis using direct_rep_best[OF rep, of t] by (simp add: direct_try_match_def t_def Let_def)
    next
      case (Cons a r)
      then obtain d where d: "db_orders db a = Some d" "do_order d = ?f a"
        using listed_order[OF rep, of a t] by (metis list.set_intros(1))
      have "best_order t db = Some a" using direct_rep_best[OF rep, of t] Cons by simp
      moreover have "((if io_action io = BID then ord_price (do_order d) > taker_limit io cmd
          else ord_price (do_order d) < taker_limit io cmd) \<or> ?vol = 0) = True"
        using False Cons sz d(2) by (cases "io_action io") auto
      moreover have "deref (db_orders db) (Some a) = Inr d" using d(1) by simp
      ultimately show ?thesis
        unfolding direct_try_match_def
        by (simp only: Let_def t_def[symmetric] option.case bindE_simps taker_limit_def[symmetric] if_True)
    qed
    moreover have "L(t := L t) = L" by simp
    moreover have "fb_set_side t (map ?f (L t)) (flat_of db L) = flat_of db L" by (cases t) (simp_all add: flat_of_def)
    ultimately show ?thesis
      using rep stop by (intro that[of db cmd "io_filled io" "L t"]) (simp_all add: flat_match_def t_def set_events_def)
  next
    case True
    then obtain a r where a: "L t = a # r" "?ok (ord_price (?f a))" "0 < ?vol" by blast
    have best: "best_order t db = Some a" using direct_rep_best[OF rep, of t] a(1) by simp
    have settled: "settle t (Some a) db = db" using settle_rep[OF rep, of t] best by simp
    obtain d b bb where d: "db_orders db a = Some d" "do_order d = ?f a" "do_bucket d = Some b"
      "db_buckets db b = Some bb" "tail_of db a = bu_lastOrder bb"
      using listed_order[OF rep, of a t] a(1) tail_of_bucket[of db a] by (metis list.set_intros(1))
    have fuel: "length r < length (db_orderIdIndex db)" using side_length[OF rep, of t] a(1) by simp
    obtain rest evs db1 L' where loop:
      "direct_match_loop (length (db_orderIdIndex db)) (io_action io) (taker_limit io cmd) (io_reserveBidPrice io) a (tail_of db a) ?vol db =
        Inr (first_of L', rest, evs, db1)"
      "direct_rep (settle t (first_of L') db1) (L(t := L')) X" "match_frame t L X db db1"
      "fill ?ok (io_reserveBidPrice io) ?vol (map ?f (a # r)) = (map (dord (db_orders db1)) L', evs, ?vol - rest)"
      using match_loop_ok[of "io_action io" a db L X r ?vol "taker_limit io cmd" _ "io_reserveBidPrice io"]
        rep a fuel unfolding t_def[symmetric] settled by blast
    let ?db' = "settle t (first_of L') db1"
    have alive: "db_orders db1 c \<noteq> None" if "first_of L' = Some c" for c
    proof -
      have "c \<in> set ((L(t := L')) t)" using that by (cases L') auto
      then have "put_next (first_of L') None (db_orders db1) c \<noteq> None"
        using dls_alive[OF direct_rep_links[OF loop(2)]] by (metis settle_simps(1) option.distinct(1))
      then show ?thesis by simp
    qed
    have "direct_try_match io cmd db = Inr (?db', set_events evs cmd, io_size io - rest)"
    proof -
      have no: "((if io_action io = BID then ord_price (do_order d) > taker_limit io cmd
          else ord_price (do_order d) < taker_limit io cmd) \<or> ?vol = 0) = False"
        using a(2,3) d(2) by (cases "io_action io") auto
      have link: "upd_order_if (first_of L') (\<lambda>d. d\<lparr>do_next := None\<rparr>) db1 =
          Inr (db1\<lparr>db_orders := put_next (first_of L') None (db_orders db1)\<rparr>)" using upd_next_if alive by blast
      have read: "deref (db_orders db) (Some a) = Inr d" "deref (db_buckets db) (do_bucket d) = Inr bb" using d by simp_all
      show ?thesis
        unfolding direct_try_match_def
        by (simp only: Let_def t_def[symmetric] best option.case read bindE_simps taker_limit_def[symmetric] no if_False
            loop(1)[unfolded d(5)] prod.case link settle_def)
    qed
    moreover have "match_frame t L X db ?db'"
    proof -
      have "db_orders ?db' c = db_orders db1 c" if "c \<in> set (L (opposite t)) \<union> X" for c
      proof -
        have "c \<notin> set L'" using direct_repD(2)[OF loop(2), of t] direct_repD(4)[OF loop(2)] that
          by (auto simp: linked_side[of _ t])
        then show ?thesis by (simp add: first_of_notin)
      qed
      with loop(3) show ?thesis by (simp add: match_frame_def)
    qed
    moreover have "flat_match io ?ok (flat_of db L) cmd = (flat_of ?db' (L(t := L')), set_events evs cmd, io_size io - rest)"
      using loop(4) a(1) fb_set_flat_of[OF calculation(2), of L'] by (simp add: flat_match_def t_def[symmetric] del: fill.simps)
    ultimately show ?thesis using that loop(2) by blast
  qed
qed

section \<open>checkBudgetToFill\<close>

lemma first_price_split:
  fixes p :: int
  assumes "side_ok s (map f (a # r))"
  defines "p \<equiv> ord_price (f a)"
  obtains ys zs where "a # r = ys @ zs" "ys \<noteq> []" "\<forall>c \<in> set ys. ord_price (f c) = p" "\<forall>c \<in> set zs. ord_price (f c) \<noteq> p"
    "at_price f (a # r) p = ys"
proof -
  define ys where "ys = takeWhile (\<lambda>c. ord_price (f c) = p) (a # r)"
  define zs where "zs = dropWhile (\<lambda>c. ord_price (f c) = p) (a # r)"
  have split: "a # r = ys @ zs" unfolding ys_def zs_def by (rule takeWhile_dropWhile_id[symmetric])
  have ys: "\<forall>c \<in> set ys. ord_price (f c) = p" unfolding ys_def by (auto dest: set_takeWhileD)
  have "side_ok s (map f (ys @ zs))" using assms(1) unfolding split .
  then have ok: "side_ok s (map f zs)" by (simp add: side_ok_append)
  have worse: "\<not> before s (ord_price (f c)) p" if "c \<in> set zs" for c
  proof -
    have "set zs \<subseteq> set r" by (auto simp: zs_def p_def dest: set_dropWhileD)
    with that assms(1) show ?thesis by (auto simp: side_ok_Cons p_def)
  qed
  have zs: "\<forall>c \<in> set zs. ord_price (f c) \<noteq> p"
  proof (cases zs)
    case (Cons z zs')
    then have z: "ord_price (f z) \<noteq> p" using hd_dropWhile[of "\<lambda>c. ord_price (f c) = p" "a # r", folded zs_def] by simp
    have "\<not> before s (ord_price (f z)) p" by (rule worse) (simp add: Cons)
    with z have "before s p (ord_price (f z))" by (cases s) simp_all
    moreover have "\<not> before s (ord_price (f c)) (ord_price (f z))" if "c \<in> set zs'" for c
      using ok that unfolding Cons by (simp add: side_ok_Cons)
    ultimately have "ord_price (f c) \<noteq> p" if "c \<in> set zs'" for c using that by auto
    with Cons z show ?thesis by simp
  qed simp
  have at: "at_price f (a # r) p = ys"
    unfolding split at_price_simps(2) using ys zs by (simp add: at_price_def filter_id_conv filter_empty_conv)
  have "ys \<noteq> []" by (simp add: ys_def p_def)
  from that[OF split this ys zs at] show ?thesis .
qed

text \<open>From the first order of a price on, with \<open>l\<close> the orders of better prices.\<close>

lemma budget_loop_ok:
  assumes rep: "direct_rep db L X" and "L s = l @ xs"
    and "\<forall>c \<in> set l. \<forall>e \<in> set xs. ord_price (dord (db_orders db) c) \<noteq> ord_price (dord (db_orders db) e)"
    and "length xs \<le> fuel"
  shows "direct_budget_loop fuel db (first_of xs) sz acc =
    Inr (case budget_to_fill sz (map (dord (db_orders db)) xs) of None \<Rightarrow> INT64_MAX | Some b \<Rightarrow> acc + b)"
  using assms(2-)
proof (induction fuel arbitrary: l xs sz acc)
  case (Suc fuel)
  let ?f = "dord (db_orders db)"
  show ?case
  proof (cases xs)
    case (Cons a r)
    note data = direct_rep_data[OF rep, of s]
    let ?p = "ord_price (?f a)"
    have sorted: "side_ok s (map ?f xs)" using side_dataD(2)[OF data] Suc.prems(1) by (simp add: side_ok_append)
    obtain ys zs where split: "xs = ys @ zs" "ys \<noteq> []" "\<forall>c \<in> set ys. ord_price (?f c) = ?p"
      "\<forall>c \<in> set zs. ord_price (?f c) \<noteq> ?p" "at_price ?f xs ?p = ys"
      by (rule first_price_split[OF sorted[unfolded Cons], folded Cons])
    have "at_price ?f l ?p = []" using Suc.prems(2) Cons by (simp add: at_price_empty)
    then have ys: "at_price ?f (L s) ?p = ys" using split(5) Suc.prems(1) by simp
    have a: "a \<in> set (L s)" using Suc.prems(1) Cons by simp
    obtain d b where d: "db_orders db a = Some d" "do_order d = ?f a" "do_bucket d = Some b"
      "db_buckets db b = Some (bucket_view ?f ys ?p)"
      using listed_order[OF rep a] ys by metis
    have rest: "\<And>x. x \<in> set (map ?f ys) \<Longrightarrow> resting s x \<and> ord_price x = ?p"
      using sorted split(1,3) by (auto simp: side_ok_def)
    note budget = budget_bucket[of "map ?f ys" s ?p sz "map ?f zs", OF rest]
    show ?thesis
    proof (cases "sz > volume (map ?f ys)")
      case True
      obtain ys' t where t: "ys = ys' @ [t]" using split(2) by (metis append_butlast_last_id)
      have "dls (db_orders db) None (l @ ys' @ [t] @ zs) None"
        using direct_rep_links[OF rep, of s] Suc.prems(1) split(1) t by simp
      then obtain e where e: "db_orders db t = Some e" "do_prev e = first_of zs" by (auto simp: dls_append)
      have "direct_budget_loop fuel db (first_of zs) (sz - volume (map ?f ys)) (acc + volume (map ?f ys) * ?p) =
        Inr (case budget_to_fill (sz - volume (map ?f ys)) (map ?f zs) of None \<Rightarrow> INT64_MAX | Some b \<Rightarrow> acc + volume (map ?f ys) * ?p + b)"
      proof (rule Suc.IH)
        show "L s = (l @ ys) @ zs" using Suc.prems(1) split(1) by simp
        show "\<forall>c \<in> set (l @ ys). \<forall>e \<in> set zs. ord_price (?f c) \<noteq> ord_price (?f e)"
          using Suc.prems(2) split(1,3,4) by auto
        show "length zs \<le> fuel" using Suc.prems(3) split(1,2) by (cases ys) auto
      qed
      moreover have "direct_budget_loop (Suc fuel) db (first_of xs) sz acc =
          direct_budget_loop fuel db (first_of zs) (sz - volume (map ?f ys)) (acc + volume (map ?f ys) * ?p)"
        using d e True t unfolding Cons by (simp add: bucket_view_def Let_def)
      moreover have "budget_to_fill sz (map ?f xs) =
          map_option (\<lambda>b. volume (map ?f ys) * ?p + b) (budget_to_fill (sz - volume (map ?f ys)) (map ?f zs))"
        using budget True split(1,2) by simp
      ultimately show ?thesis by (simp add: option.case_eq_if option.map_sel)
    next
      case False
      then have "budget_to_fill sz (map ?f xs) = Some (sz * ?p)" using budget split(1,2) by simp
      then show ?thesis using Cons d False by (simp add: bucket_view_def Let_def del: budget_to_fill.simps)
    qed
  qed simp
qed simp

lemma direct_check_budget_ok:
  assumes "direct_rep db L X"
  shows "direct_check_budget_to_fill action sz db =
    Inr (case budget_to_fill sz (fb_side (opposite action) (flat_of db L)) of None \<Rightarrow> INT64_MAX | Some b \<Rightarrow> b)"
  using budget_loop_ok[OF assms, of "opposite action" "[]" "L (opposite action)"] side_length[OF assms, of "opposite action"]
    direct_rep_best[OF assms, of "opposite action"]
  by (simp add: direct_check_budget_to_fill_def split: option.split)

end
