(* ===== verification/Direct_Abs.thy ===== *)
theory Direct_Abs
  imports Direct_Taker
begin

text \<open>
  The flat book a direct book stands for, and the steps of the commands on it that touch no link:
  putting a new order into the index, changing the order being moved, dropping one.
\<close>

section \<open>The abstraction\<close>

definition direct_side_orders :: "order_action \<Rightarrow> direct_book \<Rightarrow> order list" where
  "direct_side_orders s db = (case direct_process_orders s db of Inl _ \<Rightarrow> [] | Inr os \<Rightarrow> os)"

definition direct_abs :: "direct_book \<Rightarrow> flat_book" where
  "direct_abs db = \<lparr>fb_asks = direct_side_orders ASK db, fb_bids = direct_side_orders BID db\<rparr>"

definition direct_inv :: "direct_book \<Rightarrow> bool" where
  "direct_inv db \<longleftrightarrow> (\<exists>L. direct_rep db L {})"

lemma direct_collect_ok:
  "dls h nx xs None \<Longrightarrow> length xs \<le> fuel \<Longrightarrow> direct_collect fuel h (first_of xs) = Inr (map (dord h) xs)"
proof (induction xs arbitrary: nx fuel)
  case (Cons a xs)
  then show ?case by (cases fuel) (auto simp: dord_def)
qed simp

lemma direct_process_orders_ok:
  assumes "direct_rep db L X"
  shows "direct_process_orders s db = Inr (map (dord (db_orders db)) (L s))"
  using direct_collect_ok[OF direct_rep_links[OF assms] side_length[OF assms]] direct_rep_best[OF assms]
  by (simp add: direct_process_orders_def)

lemma direct_abs_flat_of: "direct_rep db L X \<Longrightarrow> direct_abs db = flat_of db L"
  by (simp add: direct_abs_def direct_side_orders_def direct_process_orders_ok flat_of_def)

lemma flat_of_eqI: "(\<And>s. fb_side s x = map (dord (db_orders db)) (L s)) \<Longrightarrow> x = flat_of db L"
  using fb_side.simps by (metis fb_side_flat_of flat_book.equality old.unit.exhaust)

lemma set_flat_of: "set (fb_orders (flat_of db L)) = dord (db_orders db) ` linked L"
  by (auto simp: fb_orders_def flat_of_def linked_def)

lemma flat_of_ok:
  assumes rep: "direct_rep db L X"
  shows "flat_ok (flat_of db L)"
proof -
  let ?f = "dord (db_orders db)"
  have inj: "inj_on (ord_orderId \<circ> ?f) (linked L)"
    using index_rep_inj[OF direct_repD(6)[OF rep]] by (auto simp: inj_on_def)
  have "distinct (L ASK @ L BID)"
    using side_dataD(1)[OF direct_rep_data[OF rep]] direct_repD(2)[OF rep, of ASK] by simp
  moreover have "set (L ASK @ L BID) = linked L" by (simp add: linked_def)
  ultimately have "distinct (map (ord_orderId \<circ> ?f) (L ASK @ L BID))" using inj by (metis distinct_map)
  moreover have "map ord_orderId (fb_orders (flat_of db L)) = map (ord_orderId \<circ> ?f) (L ASK @ L BID)"
    by (simp add: fb_orders_def flat_of_def)
  ultimately show ?thesis
    using side_dataD(2)[OF direct_rep_data[OF rep]] unfolding flat_ok_def by simp
qed

text \<open>The index finds what the flat book finds.\<close>

lemma index_find:
  assumes rep: "direct_rep db L {}"
  shows "fb_find k (flat_of db L) = map_option (dord (db_orders db)) (um_find (db_orderIdIndex db) k)"
proof (cases "um_find (db_orderIdIndex db) k")
  case None
  then have "dord (db_orders db) a \<in> dord (db_orders db) ` linked L \<Longrightarrow> ord_orderId (dord (db_orders db) a) \<noteq> k"
    if "a \<in> linked L" for a using index_rep_find[OF direct_repD(6)[OF rep], of k a] that by auto
  then show ?thesis using None by (auto simp: fb_find_None set_flat_of)
next
  case (Some a)
  then have "a \<in> linked L" "ord_orderId (dord (db_orders db) a) = k"
    using index_rep_find[OF direct_repD(6)[OF rep]] by auto
  then show ?thesis using Some fb_find_iff[OF flat_of_ok[OF rep]] by (auto simp: set_flat_of)
qed

lemma flat_of_remove:
  assumes rep: "direct_rep db L X" and L: "L s = l @ a # r" and same: "\<And>c. c \<in> linked L \<Longrightarrow> dord (db_orders db') c = dord (db_orders db) c"
  shows "fb_remove (ord_orderId (dord (db_orders db) a)) (flat_of db L) = flat_of db' (L(s := l @ r))"
proof (rule flat_of_eqI)
  fix t
  let ?f = "dord (db_orders db)"
  have a: "a \<in> linked L" "a \<notin> set l" "a \<notin> set r" "a \<notin> set (L (opposite s))"
    using L side_dataD(1)[OF direct_rep_data[OF rep, of s]] direct_repD(2)[OF rep, of s] by (auto simp: linked_side[of _ s])
  have keep: "filter (\<lambda>x. ord_orderId x \<noteq> ord_orderId (?f a)) (map ?f xs) = map (dord (db_orders db')) xs"
    if "set xs \<subseteq> linked L" "a \<notin> set xs" for xs
  proof -
    have "ord_orderId (?f c) \<noteq> ord_orderId (?f a)" if "c \<in> set xs" for c
      using index_rep_inj[OF direct_repD(6)[OF rep], of c a] that a(1) \<open>set xs \<subseteq> linked L\<close> \<open>a \<notin> set xs\<close> by auto
    moreover have "map (dord (db_orders db')) xs = map ?f xs" using same that(1) by auto
    ultimately show ?thesis by (simp add: filter_id_conv)
  qed
  have sub: "set l \<subseteq> linked L" "set r \<subseteq> linked L" "set (L (opposite s)) \<subseteq> linked L"
    using L by (auto simp: linked_side[of _ s])
  show "fb_side t (fb_remove (ord_orderId (?f a)) (flat_of db L)) = map (dord (db_orders db')) ((L(s := l @ r)) t)"
  proof (cases "t = s")
    case True
    then show ?thesis using L keep[OF sub(1) a(2)] keep[OF sub(2) a(3)] by simp
  next
    case False
    then have "t = opposite s" by (cases t; cases s) auto
    then show ?thesis using keep[OF sub(3) a(4)] by simp
  qed
qed

lemma flat_of_insert:
  assumes L: "map (dord (db_orders db)) (l @ a # r) = insert_order s x (map (dord (db_orders db)) (L s))" and s: "ord_action x = s"
    and same: "dord (db_orders db') = dord (db_orders db)"
  shows "fb_insert x (flat_of db L) = flat_of db' (L(s := l @ a # r))"
proof (rule flat_of_eqI)
  fix t
  show "fb_side t (fb_insert x (flat_of db L)) = map (dord (db_orders db')) ((L(s := l @ a # r)) t)"
    using L s same by (cases "t = s") simp_all
qed

lemma flat_of_same:
  assumes "\<And>c. c \<in> linked L \<Longrightarrow> dord (db_orders db') c = dord (db_orders db) c"
  shows "flat_of db' L = flat_of db L"
  using assms by (simp add: flat_of_def linked_def)

section \<open>Steps without links\<close>

lemma side_rep_frame:
  assumes "side_rep db s (L s)" and "\<And>c. c \<in> set (L s) \<Longrightarrow> db_orders db' c = db_orders db c"
    and "db_buckets db' = db_buckets db" "price_buckets s db' = price_buckets s db" "best_order s db' = best_order s db"
  shows "side_rep db' s (L s)"
proof -
  have "dls (db_orders db') None (L s) None"
    using assms(1,2) dls_cong[of "L s" "db_orders db'" "db_orders db" None None] by (simp add: side_rep_def)
  moreover have "side_data s (dord (db_orders db')) (dbuck (db_orders db')) (db_buckets db) (L s) (price_buckets s db)"
    using assms(1,2) side_data_cong[of s "dord (db_orders db)" "dbuck (db_orders db)" "db_buckets db" "L s" "price_buckets s db"]
    by (simp add: side_rep_def dord_def dbuck_def)
  ultimately show ?thesis using assms by (simp add: side_rep_def)
qed

text \<open>A new order enters the index before it enters its list.\<close>

definition allocated :: "direct_order \<Rightarrow> direct_book \<Rightarrow> direct_book" where
  "allocated d db = db\<lparr>db_orders := (db_orders db)(db_fresh db \<mapsto> d), db_fresh := Suc (db_fresh db),
     db_orderIdIndex := um_put (ord_orderId (do_order d)) (db_fresh db) (db_orderIdIndex db)\<rparr>"

lemma allocated_rep:
  assumes rep: "direct_rep db L X" and new: "um_find (db_orderIdIndex db) (ord_orderId (do_order d)) = None"
  shows "direct_rep (allocated d db) L (insert (db_fresh db) X)"
    and "\<And>c. c \<in> linked L \<Longrightarrow> dord (db_orders (allocated d db)) c = dord (db_orders db) c"
proof -
  let ?a = "db_fresh db" and ?db = "allocated d db"
  have out: "c \<noteq> ?a" if "c \<in> linked L \<union> X" for c
  proof -
    have "db_orders db c \<noteq> None"
      using that direct_repD(5)[OF rep] dls_alive[OF direct_rep_links[OF rep]] by (auto simp: linked_def)
    with alive_below[OF rep, of c] show ?thesis by auto
  qed
  show view: "dord (db_orders ?db) c = dord (db_orders db) c" if "c \<in> linked L" for c
    using out that by (simp add: allocated_def dord_other)
  have "side_rep ?db s (L s)" for s
    using out by (intro side_rep_frame[where L = L, OF direct_repD(1)[OF rep]])
      (auto simp: allocated_def linked_side[of _ s])
  moreover have "index_rep (db_orderIdIndex ?db) (dord (db_orders ?db)) (linked L \<union> insert ?a X)"
  proof -
    have "dord (db_orders ?db) = (dord (db_orders db))(?a := do_order d)"
      by (auto simp: allocated_def fun_eq_iff dord_def)
    moreover have "?a \<notin> linked L \<union> X" using out by blast
    ultimately show ?thesis
      using index_rep_put[OF direct_repD(6)[OF rep] new, of ?a] by (simp add: allocated_def)
  qed
  moreover have "insert ?a X \<inter> linked L = {}" using out direct_repD(4)[OF rep] by blast
  moreover have "price_buckets s ?db = price_buckets s db" for s by (cases s) (simp_all add: allocated_def)
  ultimately show "direct_rep ?db L (insert ?a X)"
    using rep unfolding direct_rep_def by (auto simp: allocated_def)
qed

text \<open>The order being moved or matched is not in a list: its data may change.\<close>

definition rewritten :: "addr \<Rightarrow> order \<Rightarrow> direct_book \<Rightarrow> direct_book" where
  "rewritten a x db = db\<lparr>db_orders := (db_orders db)(a := map_option (\<lambda>d. d\<lparr>do_order := x\<rparr>) (db_orders db a))\<rparr>"

lemma rewritten_rep:
  assumes rep: "direct_rep db L X" and a: "a \<in> X" and x: "ord_orderId x = ord_orderId (dord (db_orders db) a)"
  shows "direct_rep (rewritten a x db) L X"
    and "\<And>c. c \<in> linked L \<Longrightarrow> dord (db_orders (rewritten a x db)) c = dord (db_orders db) c"
    and "spare (rewritten a x db) p \<longleftrightarrow> spare db p"
proof -
  let ?db = "rewritten a x db"
  have out: "c \<noteq> a" if "c \<in> linked L" for c using direct_repD(4)[OF rep] a that by auto
  show view: "dord (db_orders ?db) c = dord (db_orders db) c" if "c \<in> linked L" for c
    using out that by (simp add: rewritten_def dord_other)
  have "side_rep ?db s (L s)" for s
    using out by (intro side_rep_frame[where L = L, OF direct_repD(1)[OF rep]])
      (auto simp: rewritten_def linked_side[of _ s])
  moreover have "index_rep (db_orderIdIndex ?db) (dord (db_orders ?db)) (linked L \<union> X)"
  proof -
    have "db_orders db a \<noteq> None" by (rule direct_repD(5)[OF rep a])
    then have "ord_orderId (dord (db_orders ?db) c) = ord_orderId (dord (db_orders db) c)" for c
      using x by (auto simp: rewritten_def dord_def)
    then show ?thesis using direct_repD(6)[OF rep] by (simp add: index_rep_def rewritten_def)
  qed
  moreover have "price_buckets s ?db = price_buckets s db" for s by (cases s) (simp_all add: rewritten_def)
  ultimately show "direct_rep ?db L X"
    using rep unfolding direct_rep_def by (auto simp: rewritten_def)
  show "spare ?db p \<longleftrightarrow> spare db p" by (simp add: spare_def rewritten_def)
qed

text \<open>An order that is in no list leaves the index and the heap.\<close>

definition dropped :: "addr \<Rightarrow> int \<Rightarrow> direct_book \<Rightarrow> direct_book" where
  "dropped a orderId db = free_order a (db\<lparr>db_orderIdIndex := um_erase orderId (db_orderIdIndex db)\<rparr>)"

lemma dropped_rep:
  assumes rep: "direct_rep db L X" and a: "a \<in> X" and k: "ord_orderId (dord (db_orders db) a) = k"
  shows "direct_rep (dropped a k db) L (X - {a})"
    and "\<And>c. c \<in> linked L \<Longrightarrow> dord (db_orders (dropped a k db)) c = dord (db_orders db) c"
proof -
  let ?db = "dropped a k db"
  have out: "c \<noteq> a" if "c \<in> linked L" for c using direct_repD(4)[OF rep] a that by auto
  show view: "dord (db_orders ?db) c = dord (db_orders db) c" if "c \<in> linked L" for c
    using out that by (simp add: dropped_def dord_other)
  have "side_rep ?db s (L s)" for s
    using out by (intro side_rep_frame[where L = L, OF direct_repD(1)[OF rep]])
      (auto simp: dropped_def linked_side[of _ s])
  moreover have "index_rep (db_orderIdIndex ?db) (dord (db_orders ?db)) (linked L \<union> (X - {a}))"
  proof -
    have "linked L \<union> (X - {a}) = (linked L \<union> X) - {a}" using out by auto
    moreover have "index_rep (um_erase k (db_orderIdIndex db)) (dord (db_orders db)) ((linked L \<union> X) - {a})"
      using index_rep_erase[OF direct_repD(6)[OF rep], of a] a k by simp
    moreover have "\<forall>c \<in> (linked L \<union> X) - {a}. dord (db_orders db) c = dord (db_orders ?db) c"
      by (simp add: dropped_def dord_other)
    ultimately show ?thesis using index_rep_cong[of _ "dord (db_orders db)" "dord (db_orders ?db)"] by (simp add: dropped_def)
  qed
  moreover have "price_buckets s ?db = price_buckets s db" for s by (simp add: dropped_def)
  ultimately show "direct_rep ?db L (X - {a})"
    using rep unfolding direct_rep_def by (auto simp: dropped_def)
qed

end
