(* ===== verification/Direct_Commands.thy ===== *)
theory Direct_Commands
  imports Direct_Abs
begin

text \<open>The commands of the direct book do on its abstraction what the flat book does.\<close>

section \<open>Dropping an order\<close>

text \<open>\<open>RemoveOrder\<close> does not look at the index, which its callers may have changed before.\<close>

lemma index_frame:
  "upd_order p f (db\<lparr>db_orderIdIndex := i\<rparr>) = map_sum id (\<lambda>db. db\<lparr>db_orderIdIndex := i\<rparr>) (upd_order p f db)"
  "upd_bucket p g (db\<lparr>db_orderIdIndex := i\<rparr>) = map_sum id (\<lambda>db. db\<lparr>db_orderIdIndex := i\<rparr>) (upd_bucket p g db)"
  "upd_order_if p f (db\<lparr>db_orderIdIndex := i\<rparr>) = map_sum id (\<lambda>db. db\<lparr>db_orderIdIndex := i\<rparr>) (upd_order_if p f db)"
  "set_price_buckets s m (db\<lparr>db_orderIdIndex := i\<rparr>) = (set_price_buckets s m db)\<lparr>db_orderIdIndex := i\<rparr>"
proof -
  show upd: "upd_order p f (db\<lparr>db_orderIdIndex := i\<rparr>) = map_sum id (\<lambda>db. db\<lparr>db_orderIdIndex := i\<rparr>) (upd_order p f db)" for p f
    by (cases "deref (db_orders db) p") (simp_all add: upd_order_def)
  show "upd_bucket p g (db\<lparr>db_orderIdIndex := i\<rparr>) = map_sum id (\<lambda>db. db\<lparr>db_orderIdIndex := i\<rparr>) (upd_bucket p g db)"
    by (cases "deref (db_buckets db) p") (simp_all add: upd_bucket_def)
  show "upd_order_if p f (db\<lparr>db_orderIdIndex := i\<rparr>) = map_sum id (\<lambda>db. db\<lparr>db_orderIdIndex := i\<rparr>) (upd_order_if p f db)"
    by (simp add: upd_order_if_def upd)
  show "set_price_buckets s m (db\<lparr>db_orderIdIndex := i\<rparr>) = (set_price_buckets s m db)\<lparr>db_orderIdIndex := i\<rparr>"
    by (cases s) simp_all
qed

lemma bindE_map_sum: "bindE (map_sum id h r) k = bindE r (\<lambda>x. k (h x))"
  by (cases r) simp_all

lemma map_sum_bindE: "map_sum id h (bindE r k) = bindE r (\<lambda>x. map_sum id h (k x))"
  by (cases r) simp_all

lemma bindE_assoc: "bindE (bindE r k) l = bindE r (\<lambda>x. bindE (k x) l)"
  by (cases r) simp_all

lemma bindE_if: "bindE (if c then r else r') k = (if c then bindE r k else bindE r' k)"
  by simp

lemma best_index_frame:
  "(if c then db\<lparr>db_bestAskOrder := p\<rparr> else if c' then db\<lparr>db_bestBidOrder := p\<rparr> else db)\<lparr>db_orderIdIndex := i\<rparr> =
     (if c then db\<lparr>db_orderIdIndex := i, db_bestAskOrder := p\<rparr>
      else if c' then db\<lparr>db_orderIdIndex := i, db_bestBidOrder := p\<rparr> else db\<lparr>db_orderIdIndex := i\<rparr>)"
  by simp

lemma remove_order_index:
  "direct_remove_order a (db\<lparr>db_orderIdIndex := i\<rparr>) =
     map_sum id (\<lambda>(p, db). (p, db\<lparr>db_orderIdIndex := i\<rparr>)) (direct_remove_order a db)"
  unfolding direct_remove_order_def
  by (simp add: index_frame bindE_map_sum map_sum_bindE bindE_assoc bindE_if if_distrib[of "map_sum id _"] split_def best_index_frame
      cong: if_cong)

lemma direct_drop_order_ok:
  assumes rep: "direct_rep db L {}" and a: "a \<in> set (L s)" and k: "ord_orderId (dord (db_orders db) a) = k"
  obtains db' L' where "direct_drop_order k a db = Inr db'" "direct_rep db' L' {}"
    "flat_of db' L' = fb_remove k (flat_of db L)" "db_symbolSpec db' = db_symbolSpec db"
proof -
  obtain l r where L: "L s = l @ a # r" using a by (metis split_list)
  obtain fb db1 where rm: "direct_remove_order a db = Inr (fb, db1)"
    "direct_rep db1 (L(s := l @ r)) {a}" "spare db1 fb" "dord (db_orders db1) = dord (db_orders db)"
    "db_orderIdIndex db1 = db_orderIdIndex db" "db_symbolSpec db1 = db_symbolSpec db"
    by (rule direct_remove_order_ok[OF rep L])
  let ?db' = "dropped a k (free_bucket fb db1)"
  note rep1 = direct_rep_free_bucket[OF rm(2,3)]
  have rep': "direct_rep ?db' (L(s := l @ r)) {}" using dropped_rep(1)[OF rep1, of a k] k rm(4) by simp
  have "direct_drop_order k a db = Inr ?db'"
    by (simp add: direct_drop_order_def remove_order_index rm(1) dropped_def rm(5)[symmetric] free_bucket_def free_order_def
        split: option.split)
  moreover have "flat_of ?db' (L(s := l @ r)) = flat_of db1 (L(s := l @ r))"
    using dropped_rep(2)[OF rep1, of a k] k rm(4) by (intro flat_of_same) simp
  moreover have "fb_remove k (flat_of db L) = flat_of db1 (L(s := l @ r))"
    using flat_of_remove[OF rep L, of db1] rm(4) k by simp
  ultimately show ?thesis using that[OF _ rep'] rm(6) by (simp add: dropped_def)
qed

section \<open>Finding the order of a command\<close>

definition direct_result ::
  "direct_book \<Rightarrow> exn + (result_code \<times> direct_book \<times> order_command) \<Rightarrow> result_code \<times> flat_book \<times> order_command \<Rightarrow> bool" where
  "direct_result db r res \<longleftrightarrow> (\<exists>code db' cmd'. r = Inr (code, db', cmd') \<and> direct_inv db' \<and>
     db_symbolSpec db' = db_symbolSpec db \<and> res = (code, direct_abs db', cmd'))"

lemma direct_resultI:
  "r = Inr (code, db', cmd') \<Longrightarrow> direct_rep db' L' {} \<Longrightarrow> db_symbolSpec db' = db_symbolSpec db \<Longrightarrow>
   res = (code, flat_of db' L', cmd') \<Longrightarrow> direct_result db r res"
  by (auto simp: direct_result_def direct_inv_def direct_abs_flat_of)

lemma direct_owned_ok:
  assumes rep: "direct_rep db L {}"
  obtains (none) "direct_owned_order db cmd = Inr None"
      "\<And>x. fb_find (cmd_orderId cmd) (flat_of db L) = Some x \<Longrightarrow> ord_uid x \<noteq> cmd_uid cmd"
  | (found) a d s where "direct_owned_order db cmd = Inr (Some (a, d))" "db_orders db a = Some d" "a \<in> set (L s)"
      "do_order d = dord (db_orders db) a" "fb_find (cmd_orderId cmd) (flat_of db L) = Some (do_order d)"
      "ord_uid (do_order d) = cmd_uid cmd" "ord_orderId (do_order d) = cmd_orderId cmd" "resting s (do_order d)"
proof (cases "um_find (db_orderIdIndex db) (cmd_orderId cmd)")
  case None
  then show ?thesis using none index_find[OF rep, of "cmd_orderId cmd"] by (simp add: direct_owned_order_def)
next
  case (Some a)
  then have a: "a \<in> linked L" "ord_orderId (dord (db_orders db) a) = cmd_orderId cmd"
    using index_rep_find[OF direct_repD(6)[OF rep]] by auto
  then obtain s where s: "a \<in> set (L s)" by (auto simp: linked_def)
  obtain d where d: "db_orders db a = Some d" "do_order d = dord (db_orders db) a" "resting s (do_order d)"
    using listed_order[OF rep s] by metis
  have find: "fb_find (cmd_orderId cmd) (flat_of db L) = Some (do_order d)"
    using index_find[OF rep, of "cmd_orderId cmd"] Some d(2) by simp
  show ?thesis
  proof (cases "ord_uid (do_order d) = cmd_uid cmd")
    case True
    then show ?thesis using found[of a d s] Some s d find a(2) by (simp add: direct_owned_order_def)
  next
    case False
    then show ?thesis using none Some d(1) find by (simp add: direct_owned_order_def)
  qed
qed

section \<open>Cancel and reduce\<close>

lemma direct_cancel_ok:
  assumes rep: "direct_rep db L {}"
  shows "direct_result db (direct_cancel node db cmd) (flat_cancel node (flat_of db L) cmd)"
proof (rule direct_owned_ok[OF rep, of cmd])
  assume none: "direct_owned_order db cmd = Inr None"
    "\<And>x. fb_find (cmd_orderId cmd) (flat_of db L) = Some x \<Longrightarrow> ord_uid x \<noteq> cmd_uid cmd"
  show ?thesis
    by (rule direct_resultI[OF _ rep]) (use none in \<open>auto simp: direct_cancel_def flat_cancel_def split: option.split\<close>)
next
  fix a d s
  assume a: "direct_owned_order db cmd = Inr (Some (a, d))" "a \<in> set (L s)" "do_order d = dord (db_orders db) a"
    "fb_find (cmd_orderId cmd) (flat_of db L) = Some (do_order d)" "ord_uid (do_order d) = cmd_uid cmd"
    "ord_orderId (do_order d) = cmd_orderId cmd"
  obtain db' L' where "direct_drop_order (cmd_orderId cmd) a db = Inr db'" and rep': "direct_rep db' L' {}"
    and "flat_of db' L' = fb_remove (cmd_orderId cmd) (flat_of db L)" "db_symbolSpec db' = db_symbolSpec db"
    using direct_drop_order_ok[OF rep a(2), of "cmd_orderId cmd"] a(3,6) by metis
  then show ?thesis
    by (intro direct_resultI[OF _ rep']) (simp_all add: direct_cancel_def flat_cancel_def a(1,4,5) remaining_def Let_def)
qed

lemma flat_of_resize:
  assumes rep: "direct_rep db L {}" and a: "a \<in> set (L s)"
    and view: "dord (db_orders db') = (dord (db_orders db))(a := (dord (db_orders db) a)\<lparr>ord_size := ord_size (dord (db_orders db) a) - by\<rparr>)"
  shows "fb_resize (ord_orderId (dord (db_orders db) a)) by (flat_of db L) = flat_of db' L"
proof (rule flat_of_eqI)
  fix t
  have "c = a" if "c \<in> set (L t)" "ord_orderId (dord (db_orders db) c) = ord_orderId (dord (db_orders db) a)" for c
    using index_rep_inj[OF direct_repD(6)[OF rep], of c a] that a by (cases s; cases t) (auto simp: linked_def)
  then show "fb_side t (fb_resize (ord_orderId (dord (db_orders db) a)) by (flat_of db L)) = map (dord (db_orders db')) (L t)"
    by (auto simp: fb_resize_side view)
qed

lemma direct_reduce_ok:
  assumes rep: "direct_rep db L {}"
  shows "direct_result db (direct_reduce node db cmd) (flat_reduce node (flat_of db L) cmd)"
proof (cases "cmd_size cmd \<le> 0")
  case True
  show ?thesis by (rule direct_resultI[OF _ rep]) (simp_all add: direct_reduce_def flat_reduce_def True)
next
  case pos: False
  show ?thesis
  proof (rule direct_owned_ok[OF rep, of cmd])
    assume none: "direct_owned_order db cmd = Inr None"
      "\<And>x. fb_find (cmd_orderId cmd) (flat_of db L) = Some x \<Longrightarrow> ord_uid x \<noteq> cmd_uid cmd"
    show ?thesis
      by (rule direct_resultI[OF _ rep]) (use none pos in \<open>auto simp: direct_reduce_def flat_reduce_def split: option.split\<close>)
  next
    fix a d s
    assume a: "direct_owned_order db cmd = Inr (Some (a, d))" "db_orders db a = Some d" "a \<in> set (L s)"
      "do_order d = dord (db_orders db) a" "fb_find (cmd_orderId cmd) (flat_of db L) = Some (do_order d)"
      "ord_uid (do_order d) = cmd_uid cmd" "ord_orderId (do_order d) = cmd_orderId cmd" "resting s (do_order d)"
    let ?x = "do_order d"
    let ?by = "min (remaining ?x) (cmd_size cmd)"
    have rem: "ord_size ?x - ord_filled ?x = remaining ?x" by (simp add: remaining_def)
    show ?thesis
    proof (cases "?by = remaining ?x")
      case True
      obtain db' L' where "direct_drop_order (cmd_orderId cmd) a db = Inr db'" and rep': "direct_rep db' L' {}"
        and "flat_of db' L' = fb_remove (cmd_orderId cmd) (flat_of db L)" "db_symbolSpec db' = db_symbolSpec db"
        using direct_drop_order_ok[OF rep a(3), of "cmd_orderId cmd"] a(4,7) by metis
      then show ?thesis
        by (intro direct_resultI[OF _ rep']) (simp_all add: direct_reduce_def flat_reduce_def a(1,5,6) pos True rem Let_def)
    next
      case False
      then have lt: "cmd_size cmd < remaining ?x" by linarith
      let ?y = "?x\<lparr>ord_size := ord_size ?x - ?by\<rparr>"
      obtain b bb where b: "do_bucket d = Some b" "dbuck (db_orders db) a = Some b" "db_buckets db b = Some bb"
        using listed_order[OF rep a(3)] a(2) by (metis option.inject)
      have y: "ord_price ?y = ord_price ?x" "ord_orderId ?y = ord_orderId ?x" "resting s ?y" "remaining ?x - remaining ?y = ?by"
        using False a(8) pos by (auto simp: resting_def remaining_def)
      let ?db' = "resized a ?y b ?by db"
      note res = resized_rep[OF rep a(3) b(2), of ?y, folded a(4), OF y(1-3), unfolded y(4)]
      have "upd_order (Some a) (\<lambda>d. d\<lparr>do_order := ?y\<rparr>) db = Inr (db\<lparr>db_orders := (db_orders db)(a \<mapsto> d\<lparr>do_order := ?y\<rparr>)\<rparr>)"
        "upd_bucket (Some b) (\<lambda>b. b\<lparr>bu_totalVolume := bu_totalVolume b - ?by\<rparr>)
           (db\<lparr>db_orders := (db_orders db)(a \<mapsto> d\<lparr>do_order := ?y\<rparr>)\<rparr>) = Inr ?db'"
        using a(2) b(3) by (simp_all add: resized_def)
      then have "direct_reduce node db cmd = Inr (SUCCESS, ?db', cmd\<lparr>cmd_matcherEvent := [send_reduce_event_order node ?y ?by False],
          cmd_action := ord_action ?y\<rparr>)"
        using lt by (simp add: direct_reduce_def a(1) pos rem Let_def b(1) del: upd_order_Some upd_bucket_Some)
      moreover have "flat_of ?db' L = fb_resize (cmd_orderId cmd) ?by (flat_of db L)"
        using flat_of_resize[OF rep a(3), of ?db' ?by] res(2) a(4,7) by simp
      ultimately show ?thesis
        using lt by (intro direct_resultI[OF _ res(1)])
          (simp_all add: flat_reduce_def a(5,6) pos Let_def event_defs resized_def)
    qed
  qed
qed

section \<open>New orders\<close>

lemma flat_match_filled:
  assumes "flat_ok fb" and "io_filled io \<le> io_size io" and "flat_match io ok fb cmd = (fb', cmd', filled)"
  shows "io_filled io \<le> filled \<and> filled \<le> io_size io"
proof -
  obtain os' evs f where F: "fill ok (io_reserveBidPrice io) (io_size io - io_filled io) (fb_side (opposite (io_action io)) fb) = (os', evs, f)"
    by (metis prod_cases3)
  with fill_volume[OF side_okD[OF flat_ok_side[OF assms(1)]] F] assms(2,3) show ?thesis by (auto simp: flat_match_def)
qed

lemma direct_cmd_match:
  assumes rep: "direct_rep db L {}" and pos: "0 < cmd_size cmd"
  obtains db' cmd' filled L' where "direct_try_match (cmd_iorder cmd) cmd db = Inr (db', cmd', filled)"
    "direct_rep db' L' {}" "db_symbolSpec db' = db_symbolSpec db" "0 \<le> filled" "filled \<le> cmd_size cmd"
    "flat_match (cmd_iorder cmd) (crosses (cmd_action cmd) (taker_limit (cmd_iorder cmd) cmd)) (flat_of db L) cmd =
       (flat_of db' L', cmd', filled)"
proof -
  have sz: "io_filled (cmd_iorder cmd) \<le> io_size (cmd_iorder cmd)" using pos by simp
  let ?t = "opposite (io_action (cmd_iorder cmd))"
  obtain db' cmd' filled L' where m: "direct_try_match (cmd_iorder cmd) cmd db = Inr (db', cmd', filled)"
    "direct_rep db' (L(?t := L')) {}" "match_frame ?t L {} db db'"
    "flat_match (cmd_iorder cmd) (crosses (io_action (cmd_iorder cmd)) (taker_limit (cmd_iorder cmd) cmd)) (flat_of db L) cmd =
      (flat_of db' (L(?t := L')), cmd', filled)"
    by (rule direct_try_match_ok[OF rep sz])
  have "db_symbolSpec db' = db_symbolSpec db" using m(3) by (simp add: match_frame_def)
  from that[OF m(1,2) this] flat_match_filled[OF flat_of_ok[OF rep] sz m(4)] m(4) show ?thesis by simp
qed

text \<open>The admissible prices: those the radix trees take.\<close>

lemma direct_gtc_ok:
  assumes rep: "direct_rep db L {}" and pos: "0 < cmd_size cmd" and ty: "cmd_orderType cmd = GTC" and key: "art_key (cmd_price cmd)"
  obtains db' L' cmd' where "direct_place_gtc node db cmd = Inr (db', cmd')" "direct_rep db' L' {}"
    "flat_gtc node (flat_of db L) cmd = (flat_of db' L', cmd')" "db_symbolSpec db' = db_symbolSpec db"
proof -
  have limit: "taker_limit (cmd_iorder cmd) cmd = cmd_price cmd" using ty by (simp add: taker_limit_def)
  obtain db1 cmd1 filled L1 where m: "direct_try_match (cmd_iorder cmd) cmd db = Inr (db1, cmd1, filled)"
    "direct_rep db1 L1 {}" "db_symbolSpec db1 = db_symbolSpec db"
    "flat_match (cmd_iorder cmd) (crosses (cmd_action cmd) (cmd_price cmd)) (flat_of db L) cmd = (flat_of db1 L1, cmd1, filled)"
    and filled: "0 \<le> filled" "filled \<le> cmd_size cmd"
    using direct_cmd_match[OF rep pos] unfolding limit by metis
  have find: "(um_find (db_orderIdIndex db1) (cmd_orderId cmd) \<noteq> None) = (fb_find (cmd_orderId cmd) (flat_of db1 L1) \<noteq> None)"
    using index_find[OF m(2), of "cmd_orderId cmd"] by (cases "um_find (db_orderIdIndex db1) (cmd_orderId cmd)") auto
  consider "filled = cmd_size cmd" | "filled \<noteq> cmd_size cmd" "fb_find (cmd_orderId cmd) (flat_of db1 L1) \<noteq> None"
    | "filled \<noteq> cmd_size cmd" "fb_find (cmd_orderId cmd) (flat_of db1 L1) = None" by blast
  then show ?thesis
  proof cases
    case 1
    then show ?thesis using that[of db1 cmd1 L1] m by (simp add: direct_place_gtc_def flat_gtc_def)
  next
    case 2
    then show ?thesis
      using that[of db1 "attach_reject_event node cmd1 (cmd_size cmd - filled)" L1] m find
      by (simp add: direct_place_gtc_def flat_gtc_def)
  next
    case 3
    let ?x = "cmd_order cmd filled" and ?s = "cmd_action cmd" and ?a = "db_fresh db1"
    let ?d = "\<lparr>do_order = ?x, do_next = None, do_prev = None, do_bucket = None\<rparr>"
    let ?db2 = "allocated ?d db1"
    have "um_find (db_orderIdIndex db1) (ord_orderId (do_order ?d)) = None" using 3(2) find by auto
    note alloc = allocated_rep[OF m(2) this]
    have d: "db_orders ?db2 ?a = Some ?d" by (simp add: allocated_def)
    have x: "resting ?s (do_order ?d)" "art_key (ord_price (do_order ?d))" "ord_action ?x = ?s"
      using filled 3(1) key by (simp_all add: resting_def)
    obtain db' l r where ins: "direct_insert_order ?a None ?db2 = Inr db'" "L1 ?s = l @ r"
      "direct_rep db' (L1(?s := l @ ?a # r)) (insert ?a {} - {?a})" "dord (db_orders db') = dord (db_orders ?db2)"
      "map (dord (db_orders ?db2)) (l @ ?a # r) = insert_order ?s (do_order ?d) (map (dord (db_orders ?db2)) (L1 ?s))"
      "db_symbolSpec db' = db_symbolSpec ?db2"
      by (rule direct_insert_order_ok[OF alloc(1) insertI1 d x(1,2) spare_None])
    have "flat_of ?db2 L1 = flat_of db1 L1" by (rule flat_of_same[OF alloc(2)])
    then have flat: "fb_insert ?x (flat_of db1 L1) = flat_of db' (L1(?s := l @ ?a # r))"
      using flat_of_insert[of ?db2 l ?a r ?s ?x L1 db'] ins(4,5) x(3) by simp
    have "direct_place_gtc node db cmd = Inr (db', cmd1)"
      using 3 find ins(1) m(1) by (auto simp: direct_place_gtc_def allocated_def cmd_order_def Let_def)
    moreover have "direct_rep db' (L1(?s := l @ ?a # r)) {}" using ins(3) by simp
    ultimately show ?thesis
      using that flat 3 ins(6) m(3,4) by (simp add: flat_gtc_def allocated_def)
  qed
qed

lemma direct_ioc_ok:
  assumes rep: "direct_rep db L {}" and pos: "0 < cmd_size cmd" and ty: "cmd_orderType cmd = IOC"
  obtains db' L' cmd' where "direct_match_ioc node db cmd = Inr (db', cmd')" "direct_rep db' L' {}"
    "flat_ioc node (flat_of db L) cmd = (flat_of db' L', cmd')" "db_symbolSpec db' = db_symbolSpec db"
proof -
  have limit: "taker_limit (cmd_iorder cmd) cmd = cmd_price cmd" using ty by (simp add: taker_limit_def)
  obtain db1 cmd1 filled L1 where m: "direct_try_match (cmd_iorder cmd) cmd db = Inr (db1, cmd1, filled)"
    "direct_rep db1 L1 {}" "db_symbolSpec db1 = db_symbolSpec db"
    "flat_match (cmd_iorder cmd) (crosses (cmd_action cmd) (cmd_price cmd)) (flat_of db L) cmd = (flat_of db1 L1, cmd1, filled)"
    using direct_cmd_match[OF rep pos] unfolding limit by metis
  then show ?thesis
    by (intro that[of db1 "if cmd_size cmd - filled \<noteq> 0 then attach_reject_event node cmd1 (cmd_size cmd - filled) else cmd1" L1])
      (simp_all add: direct_match_ioc_def flat_ioc_def Let_def)
qed

text \<open>
  A budget order is matched up to its budget as a price (a bid) or down to zero (an ask): every
  order it takes is within that, since its price is at most what filling it costs.
\<close>

lemma budget_nonneg:
  assumes "\<forall>x \<in> set os. resting s x \<and> 0 \<le> ord_price x" and "0 \<le> vol" and "budget_to_fill vol os = Some b"
  shows "0 \<le> b"
  using assms
proof (induction os arbitrary: vol b)
  case (Cons x os)
  have x: "0 \<le> ord_price x" "0 < remaining x" using Cons.prems(1) resting_pos by auto
  show ?case
  proof (cases "vol > remaining x")
    case True
    then obtain b' where "budget_to_fill (vol - remaining x) os = Some b'" "b = remaining x * ord_price x + b'"
      using Cons.prems(3) by auto
    with Cons.IH[of "vol - remaining x" b'] Cons.prems(1) True x show ?thesis by simp
  next
    case False
    with Cons.prems(2,3) x show ?thesis by auto
  qed
qed simp

lemma fill_within_budget:
  assumes "\<forall>x \<in> set os. resting s x \<and> 0 \<le> ord_price x" and "0 \<le> vol" and "budget_to_fill vol os = Some b"
    and "\<And>p. 0 \<le> p \<Longrightarrow> p \<le> b \<Longrightarrow> ok p"
  shows "fill ok r vol os = fill (\<lambda>_. True) r vol os"
  using assms
proof (induction os arbitrary: vol b)
  case (Cons x os)
  have x: "0 \<le> ord_price x" "0 < remaining x" using Cons.prems(1) resting_pos by auto
  have os: "\<forall>x \<in> set os. resting s x \<and> 0 \<le> ord_price x" using Cons.prems(1) by simp
  consider "vol = 0" | "0 < vol" "vol > remaining x" | "0 < vol" "vol = remaining x" | "0 < vol" "vol < remaining x"
    using Cons.prems(2) by linarith
  then show ?case
  proof cases
    case 1
    then show ?thesis by (simp add: fill_stop)
  next
    case 2
    then obtain b' where b': "budget_to_fill (vol - remaining x) os = Some b'" "b = remaining x * ord_price x + b'"
      using Cons.prems(3) by auto
    have "0 \<le> b'" using budget_nonneg[OF os _ b'(1)] 2 by simp
    moreover have "1 * ord_price x \<le> remaining x * ord_price x" using x by (intro mult_right_mono) auto
    ultimately have "ok (ord_price x)" and sub: "b' \<le> b" using Cons.prems(4) x b'(2) by auto
    moreover have "fill ok r (vol - remaining x) os = fill (\<lambda>_. True) r (vol - remaining x) os"
      using Cons.IH[OF os _ b'(1)] Cons.prems(4) 2 sub by fastforce
    ultimately show ?thesis using 2 x by (simp add: fill_Cons_full del: fill.simps)
  next
    case 3
    then have "b = vol * ord_price x" using Cons.prems(3) by simp
    moreover have "1 * ord_price x \<le> vol * ord_price x" using x 3 by (intro mult_right_mono) auto
    ultimately have "ok (ord_price x)" using Cons.prems(4) x by simp
    then show ?thesis using 3 by (simp add: fill_Cons_full fill_stop del: fill.simps)
  next
    case 4
    then have "b = vol * ord_price x" using Cons.prems(3) by simp
    moreover have "1 * ord_price x \<le> vol * ord_price x" using x 4 by (intro mult_right_mono) auto
    ultimately have "ok (ord_price x)" using Cons.prems(4) x by simp
    then show ?thesis using 4 by (simp add: fill_Cons_part del: fill.simps)
  qed
qed simp

lemma direct_fok_ok:
  assumes rep: "direct_rep db L {}" and pos: "0 < cmd_size cmd"
    and ty: "cmd_orderType cmd = FOK_BUDGET" "cmd_command cmd = PLACE_ORDER"
    and max: "budget_to_fill (cmd_size cmd) (fb_side (opposite (cmd_action cmd)) (flat_of db L)) \<noteq> Some INT64_MAX"
  obtains db' L' cmd' where "direct_match_fok_budget node db cmd = Inr (db', cmd')" "direct_rep db' L' {}"
    "flat_fok_budget node (flat_of db L) cmd = (flat_of db' L', cmd')" "db_symbolSpec db' = db_symbolSpec db"
proof -
  let ?s = "cmd_action cmd" and ?f = "dord (db_orders db)"
  let ?os = "map ?f (L (opposite ?s))"
  note check = direct_check_budget_ok[OF rep, of ?s "cmd_size cmd"]
  show ?thesis
  proof (cases "\<exists>b. budget_to_fill (cmd_size cmd) ?os = Some b \<and> is_budget_limit_satisfied ?s b (cmd_price cmd)")
    case False
    have "direct_match_fok_budget node db cmd = Inr (db, attach_reject_event node cmd (cmd_size cmd))"
      using False max by (auto simp: direct_match_fok_budget_def check direct_is_budget_limit_satisfied_def
          is_budget_limit_satisfied_def split: option.split)
    moreover have "flat_fok_budget node (flat_of db L) cmd = (flat_of db L, attach_reject_event node cmd (cmd_size cmd))"
      using False by (auto simp: flat_fok_budget_def split: option.split)
    ultimately show ?thesis using that rep by blast
  next
    case True
    then obtain b where b: "budget_to_fill (cmd_size cmd) ?os = Some b" "is_budget_limit_satisfied ?s b (cmd_price cmd)" by blast
    have os: "\<forall>x \<in> set ?os. resting (opposite ?s) x \<and> 0 \<le> ord_price x"
      using side_dataD(4)[OF direct_rep_data[OF rep]] side_data_resting[OF direct_rep_data[OF rep]] by (auto simp: art_key_def)
    let ?ok = "crosses ?s (taker_limit (cmd_iorder cmd) cmd)"
    have "?ok p" if "0 \<le> p" "p \<le> b" for p
      using that b(2) ty by (cases ?s) (auto simp: taker_limit_def is_budget_limit_satisfied_def)
    from fill_within_budget[OF os _ b(1) this] pos
    have same: "flat_match (cmd_iorder cmd) ?ok (flat_of db L) cmd = flat_match (cmd_iorder cmd) (\<lambda>_. True) (flat_of db L) cmd"
      by (simp add: flat_match_def)
    obtain db' cmd' filled L' where m: "direct_try_match (cmd_iorder cmd) cmd db = Inr (db', cmd', filled)"
      "direct_rep db' L' {}" "db_symbolSpec db' = db_symbolSpec db"
      "flat_match (cmd_iorder cmd) (\<lambda>_. True) (flat_of db L) cmd = (flat_of db' L', cmd', filled)"
      using direct_cmd_match[OF rep pos] unfolding same by metis
    have "b \<noteq> INT64_MAX" using max b(1) by auto
    then have "direct_match_fok_budget node db cmd = Inr (db', cmd')"
      using b m(1) by (simp add: direct_match_fok_budget_def check direct_is_budget_limit_satisfied_def is_budget_limit_satisfied_def)
    moreover have "flat_fok_budget node (flat_of db L) cmd = (flat_of db' L', cmd')"
      using b m(4) by (simp add: flat_fok_budget_def)
    ultimately show ?thesis using that m(2,3) by blast
  qed
qed

section \<open>Moves\<close>

lemma upd_rewritten: "db_orders db a \<noteq> None \<Longrightarrow> upd_order (Some a) (\<lambda>d. d\<lparr>do_order := x\<rparr>) db = Inr (rewritten a x db)"
  by (auto simp: rewritten_def)

lemma direct_move_ok:
  assumes rep: "direct_rep db L {}" and move: "cmd_command cmd \<noteq> PLACE_ORDER" and key: "art_key (cmd_price cmd)"
  shows "\<exists>code db' cmd'. direct_move node db cmd = Inr (code, db', cmd') \<and> direct_inv db' \<and>
    db_symbolSpec db' = db_symbolSpec db \<and>
    same_outcome (flat_move (sp_type (db_symbolSpec db)) (flat_of db L) cmd) (code, direct_abs db', cmd')"
proof (rule direct_owned_ok[OF rep, of cmd])
  assume none: "direct_owned_order db cmd = Inr None"
    "\<And>x. fb_find (cmd_orderId cmd) (flat_of db L) = Some x \<Longrightarrow> ord_uid x \<noteq> cmd_uid cmd"
  then have "direct_move node db cmd = Inr (MATCHING_UNKNOWN_ORDER_ID, db, cmd)"
    "flat_move (sp_type (db_symbolSpec db)) (flat_of db L) cmd = (MATCHING_UNKNOWN_ORDER_ID, flat_of db L, cmd)"
    by (auto simp: direct_move_def flat_move_def split: option.split)
  with rep show ?thesis by (auto simp: direct_inv_def direct_abs_flat_of)
next
  fix a d s
  assume a: "direct_owned_order db cmd = Inr (Some (a, d))" "db_orders db a = Some d" "a \<in> set (L s)"
    "do_order d = dord (db_orders db) a" "fb_find (cmd_orderId cmd) (flat_of db L) = Some (do_order d)"
    "ord_uid (do_order d) = cmd_uid cmd" "ord_orderId (do_order d) = cmd_orderId cmd" "resting s (do_order d)"
  let ?x = "do_order d" and ?k = "cmd_orderId cmd"
  show ?thesis
  proof (cases "sp_type (db_symbolSpec db) = CURRENCY_EXCHANGE_PAIR \<and> ord_action ?x = BID \<and> cmd_price cmd > ord_reserveBidPrice ?x")
    case True
    then show ?thesis using rep
      by (auto simp: direct_move_def flat_move_def a(1,5,6) Let_def same_outcome_def direct_inv_def direct_abs_flat_of)
  next
    case False
    let ?y = "?x\<lparr>ord_price := cmd_price cmd\<rparr>" and ?cmd1 = "cmd\<lparr>cmd_action := ord_action ?x\<rparr>"
    let ?t = "opposite (io_action (ord_iorder ?y))"
    obtain l r where L: "L s = l @ a # r" using a(3) by (metis split_list)
    obtain fb db1 where rm: "direct_remove_order a db = Inr (fb, db1)" "direct_rep db1 (L(s := l @ r)) {a}" "spare db1 fb"
      "dord (db_orders db1) = dord (db_orders db)" "db_orderIdIndex db1 = db_orderIdIndex db" "db_symbolSpec db1 = db_symbolSpec db"
      by (rule direct_remove_order_ok[OF rep L])
    let ?L1 = "L(s := l @ r)" and ?db2 = "rewritten a ?y db1"
    have flat1: "flat_of db1 ?L1 = fb_remove ?k (flat_of db L)" using flat_of_remove[OF rep L, of db1] rm(4) a(4,7) by simp
    note rw = rewritten_rep[OF rm(2), of a ?y]
    have id: "ord_orderId ?y = ord_orderId (dord (db_orders db1) a)" using rm(4) a(4) by simp
    have rep2: "direct_rep ?db2 ?L1 {a}" and spare2: "spare ?db2 fb" and flat2: "flat_of ?db2 ?L1 = fb_remove ?k (flat_of db L)"
      using rw(1)[OF _ id] rw(3)[OF _ id] rm(3) flat_of_same[of ?L1 ?db2 db1] rw(2)[OF _ id] flat1 by simp_all
    have alive1: "db_orders db1 a \<noteq> None" using direct_repD(5)[OF rm(2)] by simp
    then obtain e where e: "db_orders ?db2 a = Some e" "do_order e = ?y" by (auto simp: rewritten_def)
    have sz: "io_filled (ord_iorder ?y) \<le> io_size (ord_iorder ?y)" using a(8) by (simp add: resting_def)
    have limit: "taker_limit (ord_iorder ?y) ?cmd1 = cmd_price cmd" using move by (simp add: taker_limit_def)
    obtain db3 cmd2 filled L' where m: "direct_try_match (ord_iorder ?y) ?cmd1 ?db2 = Inr (db3, cmd2, filled)"
      "direct_rep db3 (?L1(?t := L')) {a}" "match_frame ?t ?L1 {a} ?db2 db3"
      "flat_match (ord_iorder ?y) (crosses (io_action (ord_iorder ?y)) (taker_limit (ord_iorder ?y) ?cmd1)) (flat_of ?db2 ?L1) ?cmd1 =
        (flat_of db3 (?L1(?t := L')), cmd2, filled)"
      by (rule direct_try_match_ok[OF rep2 sz])
    let ?L3 = "?L1(?t := L')"
    have filled: "ord_filled ?x \<le> filled" "filled \<le> ord_size ?x"
      using flat_match_filled[OF flat_of_ok[OF rep2] sz m(4)] by simp_all
    have e3: "db_orders db3 a = Some e" "db_symbolSpec db3 = db_symbolSpec db"
      using m(3) e(1) rm(6) by (simp_all add: match_frame_def rewritten_def)
    have spare3: "spare db3 fb"
      unfolding spare_def
    proof (intro allI impI)
      fix b u
      assume "fb = Some b"
      with spare2 have "b < db_fresh ?db2" "\<And>u. b \<notin> bucket_addrs (price_buckets u ?db2)" by (auto simp: spare_def)
      moreover have "u = ?t \<or> u = opposite ?t" by (cases u; cases ?t; simp)
      ultimately show "b < db_fresh db3 \<and> b \<notin> bucket_addrs (price_buckets u db3)"
        using m(3) unfolding match_frame_def by (metis subsetD)
    qed
    have flat: "flat_move (sp_type (db_symbolSpec db)) (flat_of db L) cmd =
      (SUCCESS, if filled = ord_size ?x then flat_of db3 ?L3 else fb_insert (?y\<lparr>ord_filled := filled\<rparr>) (flat_of db3 ?L3), cmd2)"
      using m(4) False by (auto simp: flat_move_def a(5,6) Let_def limit flat2)
    have start: "direct_move node db cmd =
      (if filled = ord_size ?x
       then Inr (SUCCESS, free_bucket fb (dropped a ?k db3), cmd2)
       else bindE (upd_order (Some a) (\<lambda>d. d\<lparr>do_order := ?y\<lparr>ord_filled := filled\<rparr>\<rparr>) db3) (\<lambda>db4.
            bindE (direct_insert_order a fb db4) (\<lambda>db5. Inr (SUCCESS, db5, cmd2))))"
      using False m(1) by (auto simp: direct_move_def a(1) Let_def rm(1) upd_rewritten[OF alive1] dropped_def)
    show ?thesis
    proof (cases "filled = ord_size ?x")
      case True
      have k: "ord_orderId (dord (db_orders db3) a) = ?k" using e3(1) e(2) a(7) by (simp add: dord_def)
      let ?db' = "free_bucket fb (dropped a ?k db3)"
      have "spare (dropped a ?k db3) fb" using spare3 by (simp add: spare_def dropped_def)
      moreover have "direct_rep (dropped a ?k db3) ?L3 {}" using dropped_rep(1)[OF m(2) _ k] by simp
      ultimately have rep': "direct_rep ?db' ?L3 {}" using direct_rep_free_bucket by blast
      have "flat_of ?db' ?L3 = flat_of db3 ?L3" using dropped_rep(2)[OF m(2) _ k] by (intro flat_of_same) simp
      then have "direct_abs ?db' = flat_of db3 ?L3" using direct_abs_flat_of[OF rep'] by simp
      moreover have "direct_inv ?db'" using rep' direct_inv_def by blast
      moreover have "db_symbolSpec ?db' = db_symbolSpec db" using e3(2) by (simp add: dropped_def)
      ultimately show ?thesis unfolding start flat using True by simp
    next
      case part: False
      let ?z = "?y\<lparr>ord_filled := filled\<rparr>"
      let ?db4 = "rewritten a ?z db3"
      have "ord_orderId ?z = ord_orderId (dord (db_orders db3) a)" using e3(1) e(2) by (simp add: dord_def)
      note rw3 = rewritten_rep[OF m(2) singletonI this]
      have d4: "db_orders ?db4 a = Some (e\<lparr>do_order := ?z\<rparr>)" using e3(1) by (simp add: rewritten_def)
      have z: "resting s ?z" "art_key (ord_price ?z)" "ord_action ?z = s" using a(8) filled part key by (simp_all add: resting_def)
      have p: "resting s (do_order (e\<lparr>do_order := ?z\<rparr>))" "art_key (ord_price (do_order (e\<lparr>do_order := ?z\<rparr>)))" "spare ?db4 fb"
        using z(1,2) spare3 rw3(3) by simp_all
      obtain db' l' r' where ins: "direct_insert_order a fb ?db4 = Inr db'" "?L3 s = l' @ r'"
        "direct_rep db' (?L3(s := l' @ a # r')) ({a} - {a})" "dord (db_orders db') = dord (db_orders ?db4)"
        "map (dord (db_orders ?db4)) (l' @ a # r') = insert_order s (do_order (e\<lparr>do_order := ?z\<rparr>)) (map (dord (db_orders ?db4)) (?L3 s))"
        "db_symbolSpec db' = db_symbolSpec ?db4"
        by (rule direct_insert_order_ok[OF rw3(1) singletonI d4 p])
      have ez: "do_order (e\<lparr>do_order := ?z\<rparr>) = ?z" by simp
      have ins5: "map (dord (db_orders ?db4)) (l' @ a # r') = insert_order s ?z (map (dord (db_orders ?db4)) (?L3 s))"
        using ins(5) unfolding ez .
      have "flat_of ?db4 ?L3 = flat_of db3 ?L3" using rw3(2) by (intro flat_of_same) simp
      then have "fb_insert ?z (flat_of db3 ?L3) = flat_of db' (?L3(s := l' @ a # r'))"
        using flat_of_insert[where L = ?L3, OF ins5 z(3) ins(4)] by simp
      moreover have "direct_rep db' (?L3(s := l' @ a # r')) {}" using ins(3) by simp
      moreover have "db_symbolSpec db' = db_symbolSpec db" using ins(6) e3(2) by (simp add: rewritten_def)
      moreover have "upd_order (Some a) (\<lambda>d. d\<lparr>do_order := ?z\<rparr>) db3 = Inr ?db4" by (rule upd_rewritten) (simp add: e3(1))
      ultimately show ?thesis unfolding start flat using part ins(1) direct_inv_def[of db'] direct_abs_flat_of[of db']
        by (auto simp del: fun_upd_apply upd_order_Some)
    qed
  qed
qed

end
