(* ===== verification/Direct_L2.thy ===== *)
theory Direct_L2
  imports Direct_Commands Order_Book_Laws
begin

text \<open>
  What a direct book shows, its market data and the answers to queries, is that of its orders, and
  the direct book meets the contract of the order books.
\<close>

section \<open>Price levels\<close>

text \<open>The entries of a price map in the order of the side.\<close>

definition side_entries :: "order_action \<Rightarrow> addr art_map \<Rightarrow> (int \<times> addr) list" where
  "side_entries s m = (if s = ASK then art_map_entries m else rev (art_map_entries m))"

lemma price_levels_at:
  assumes "side_ok s (map f xs)" and "sorted_wrt (before s) ps" and "\<And>p. p \<in> set ps \<longleftrightarrow> at_price f xs p \<noteq> []"
  shows "price_levels (map f xs) = map (\<lambda>p. (p, volume (map f (at_price f xs p)), int (length (at_price f xs p)))) ps"
  using assms
proof (induction ps arbitrary: xs)
  case Nil
  then have "at_price f xs (ord_price (f a)) = []" for a by simp
  then have "xs = []" by (cases xs) (auto split: if_splits, metis list.distinct(1))
  then show ?case by simp
next
  case (Cons p ps)
  have xs: "xs \<noteq> []" using Cons.prems(3)[of p] by auto
  then obtain a r where a: "xs = a # r" by (cases xs) auto
  have p: "ord_price (f a) = p"
  proof -
    have "ord_price (f a) \<in> set (p # ps)" using Cons.prems(3) a by simp
    then have "ord_price (f a) = p \<or> before s p (ord_price (f a))" using Cons.prems(2) by auto
    moreover obtain c where "c \<in> set xs" "ord_price (f c) = p"
      using Cons.prems(3)[of p] by (auto simp: at_price_empty)
    then have "\<not> before s p (ord_price (f a))" using Cons.prems(1) a before_irrefl by (auto simp: side_ok_Cons)
    ultimately show ?thesis by blast
  qed
  obtain ys zs where split: "a # r = ys @ zs" "ys \<noteq> []" "\<forall>c \<in> set ys. ord_price (f c) = p"
    "\<forall>c \<in> set zs. ord_price (f c) \<noteq> p" "at_price f (a # r) p = ys"
    using first_price_split[OF Cons.prems(1)[unfolded a]] unfolding p by metis
  have at: "at_price f xs q = at_price f zs q" if "q \<noteq> p" for q
    using that split(1,3) a by (auto simp: at_price_empty)
  have new: "p \<notin> set ps" using Cons.prems(2) before_irrefl by auto
  have "price_levels (map f zs) = map (\<lambda>p. (p, volume (map f (at_price f zs p)), int (length (at_price f zs p)))) ps"
  proof (rule Cons.IH)
    show "side_ok s (map f zs)" using Cons.prems(1) a split(1) by (simp add: side_ok_append)
    show "sorted_wrt (before s) ps" using Cons.prems(2) by simp
    show "q \<in> set ps \<longleftrightarrow> at_price f zs q \<noteq> []" for q
    proof (cases "q = p")
      case True
      then show ?thesis using new split(4) by (simp add: at_price_empty)
    next
      case False
      then show ?thesis using Cons.prems(3)[of q] at by simp
    qed
  qed
  moreover have "price_levels (map f ys @ map f zs) = (p, volume (map f ys), int (length (map f ys))) # price_levels (map f zs)"
    using split(2-4) by (intro price_levels_bucket) (auto simp: hd_map)
  moreover have "map (\<lambda>p. (p, volume (map f (at_price f zs p)), int (length (at_price f zs p)))) ps =
      map (\<lambda>p. (p, volume (map f (at_price f xs p)), int (length (at_price f xs p)))) ps"
    using new at by (intro map_cong refl) metis
  moreover have "at_price f xs p = ys" "map f xs = map f ys @ map f zs" using split(1,5) a by simp_all
  ultimately show ?case by (simp del: at_price_simps map_append)
qed

lemma side_levels:
  assumes rep: "direct_rep db L X"
  shows "price_levels (map (dord (db_orders db)) (L s)) =
    map (\<lambda>e. (bu_price (bucket_at db (snd e)), bu_totalVolume (bucket_at db (snd e)), bu_numOrders (bucket_at db (snd e))))
      (side_entries s (price_buckets s db))"
proof -
  let ?f = "dord (db_orders db)" and ?m = "price_buckets s db"
  note data = direct_rep_data[OF rep, of s]
  have ok: "art_map_ok ?m" by (rule side_dataD(3)[OF data])
  have sorted: "sorted_wrt (before s) (map fst (side_entries s ?m))"
  proof -
    have "before ASK = (<)" "before BID = (>)" by (simp_all add: fun_eq_iff)
    then show ?thesis using art.sorted_law[OF ok] by (cases s) (simp_all add: side_entries_def rev_map[symmetric] sorted_wrt_rev)
  qed
  have entry: "art_key (fst e) \<and> art_map_get (fst e) ?m = Some (snd e)" if "e \<in> set (side_entries s ?m)" for e
  proof -
    have e: "e \<in> set (art_map_entries ?m)" using that by (simp add: side_entries_def split: if_splits)
    have "distinct (map fst (art_map_entries ?m))" using art.sorted_law[OF ok] strict_sorted_iff by blast
    then have "map_of (art_map_entries ?m) (fst e) = Some (snd e)" using e by simp
    then show ?thesis using art.keys_law[OF ok e] art.get_law[OF ok, of "fst e"] by simp
  qed
  have "p \<in> set (map fst (side_entries s ?m)) \<longleftrightarrow> at_price ?f (L s) p \<noteq> []" for p
  proof
    assume "p \<in> set (map fst (side_entries s ?m))"
    then show "at_price ?f (L s) p \<noteq> []" using entry side_dataD(6)[OF data] by auto
  next
    assume "at_price ?f (L s) p \<noteq> []"
    then obtain a where a: "a \<in> set (L s)" "ord_price (?f a) = p" by (auto simp: at_price_empty)
    then obtain b where "art_map_get p ?m = Some b" "art_key p" using side_dataD(4,5)[OF data a(1)] by auto
    then have "(p, b) \<in> set (art_map_entries ?m)" using art.get_law[OF ok, of p] by (auto dest: map_of_SomeD)
    then show "p \<in> set (map fst (side_entries s ?m))" by (force simp: side_entries_def)
  qed
  note levels = price_levels_at[OF side_dataD(2)[OF data] sorted this]
  have "bucket_at db (snd e) = bucket_view ?f (at_price ?f (L s) (fst e)) (fst e)" if "e \<in> set (side_entries s ?m)" for e
    using entry[OF that] side_dataD(7)[OF data, of "fst e" "snd e"] by (simp add: bucket_at_def)
  then show ?thesis unfolding levels by (simp add: bucket_view_def)
qed

section \<open>The snapshot\<close>

lemma fill_asks_fold:
  assumes "l2_askSize data = int i" and "i + length es \<le> n"
    and "length (l2_askPrices data) = n" "length (l2_askVolumes data) = n" "length (l2_askOrders data) = n"
  shows "fold (direct_fill_ask db (int n)) es data = data\<lparr>l2_askSize := int (i + length es),
    l2_askPrices := take i (l2_askPrices data) @ map (\<lambda>e. bu_price (bucket_at db (snd e))) es @ drop (i + length es) (l2_askPrices data),
    l2_askVolumes := take i (l2_askVolumes data) @ map (\<lambda>e. bu_totalVolume (bucket_at db (snd e))) es @ drop (i + length es) (l2_askVolumes data),
    l2_askOrders := take i (l2_askOrders data) @ map (\<lambda>e. bu_numOrders (bucket_at db (snd e))) es @ drop (i + length es) (l2_askOrders data)\<rparr>"
  using assms
proof (induction es arbitrary: i data)
  case (Cons e es)
  have upd: "take (Suc i) (xs[i := x]) = take i xs @ [x]" "drop (Suc (i + length es)) (xs[i := x]) = drop (Suc (i + length es)) xs"
    if "length xs = n" for xs :: "int list" and x
    using that Cons.prems(2) by (simp_all add: take_Suc_conv_app_nth)
  have "direct_fill_ask db (int n) e data = data\<lparr>l2_askSize := int (Suc i), l2_askPrices := (l2_askPrices data)[i := bu_price (bucket_at db (snd e))],
      l2_askVolumes := (l2_askVolumes data)[i := bu_totalVolume (bucket_at db (snd e))],
      l2_askOrders := (l2_askOrders data)[i := bu_numOrders (bucket_at db (snd e))]\<rparr>"
    using Cons.prems(1,2) by (simp add: direct_fill_ask_def Let_def)
  with Cons.IH[of "direct_fill_ask db (int n) e data" "Suc i"] Cons.prems show ?case by (simp add: upd)
qed simp

lemma fill_bids_fold:
  assumes "l2_bidSize data = int i" and "i + length es \<le> n"
    and "length (l2_bidPrices data) = n" "length (l2_bidVolumes data) = n" "length (l2_bidOrders data) = n"
  shows "fold (direct_fill_bid db (int n)) es data = data\<lparr>l2_bidSize := int (i + length es),
    l2_bidPrices := take i (l2_bidPrices data) @ map (\<lambda>e. bu_price (bucket_at db (snd e))) es @ drop (i + length es) (l2_bidPrices data),
    l2_bidVolumes := take i (l2_bidVolumes data) @ map (\<lambda>e. bu_totalVolume (bucket_at db (snd e))) es @ drop (i + length es) (l2_bidVolumes data),
    l2_bidOrders := take i (l2_bidOrders data) @ map (\<lambda>e. bu_numOrders (bucket_at db (snd e))) es @ drop (i + length es) (l2_bidOrders data)\<rparr>"
  using assms
proof (induction es arbitrary: i data)
  case (Cons e es)
  have upd: "take (Suc i) (xs[i := x]) = take i xs @ [x]" "drop (Suc (i + length es)) (xs[i := x]) = drop (Suc (i + length es)) xs"
    if "length xs = n" for xs :: "int list" and x
    using that Cons.prems(2) by (simp_all add: take_Suc_conv_app_nth)
  have "direct_fill_bid db (int n) e data = data\<lparr>l2_bidSize := int (Suc i), l2_bidPrices := (l2_bidPrices data)[i := bu_price (bucket_at db (snd e))],
      l2_bidVolumes := (l2_bidVolumes data)[i := bu_totalVolume (bucket_at db (snd e))],
      l2_bidOrders := (l2_bidOrders data)[i := bu_numOrders (bucket_at db (snd e))]\<rparr>"
    using Cons.prems(1,2) by (simp add: direct_fill_bid_def Let_def)
  with Cons.IH[of "direct_fill_bid db (int n) e data" "Suc i"] Cons.prems show ?case by (simp add: upd)
qed simp

lemma fill_nothing: "l2_askSize data = 0 \<Longrightarrow> fold (direct_fill_ask db 0) es data = data"
  "l2_bidSize data = 0 \<Longrightarrow> fold (direct_fill_bid db 0) es data = data"
  by (induction es) (simp_all add: direct_fill_ask_def direct_fill_bid_def)

lemma total_buckets:
  assumes "art_map_ok (price_buckets s db)" and "0 \<le> sz"
  shows "direct_total_buckets s sz db = int (min (length (side_entries s (price_buckets s db))) (nat sz))"
proof (cases "sz = 0")
  case True
  have "0 \<le> art_size root 0" for root :: "addr art"
  proof (cases root)
    case (Node l nk c)
    have "size_loop fs 0 = 0" for fs by (cases fs) simp_all
    with Node show ?thesis by (cases c) simp_all
  qed simp
  with True show ?thesis by (simp add: direct_total_buckets_def art_map_size_def split: option.split)
next
  case False
  with art.count_law[OF assms(1), of sz] assms(2) show ?thesis
    by (simp add: direct_total_buckets_def side_entries_def min_def le_nat_iff)
qed

lemma fill_asks_ok:
  assumes ok: "art_map_ok (db_askPriceBuckets db)" and n: "n \<le> length (side_entries ASK (db_askPriceBuckets db))"
    and len: "length (l2_askPrices data) = n" "length (l2_askVolumes data) = n" "length (l2_askOrders data) = n"
  defines "es \<equiv> take n (side_entries ASK (db_askPriceBuckets db))"
  shows "direct_fill_asks (int n) db data = data\<lparr>l2_askSize := int n,
    l2_askPrices := map (\<lambda>e. bu_price (bucket_at db (snd e))) es, l2_askVolumes := map (\<lambda>e. bu_totalVolume (bucket_at db (snd e))) es,
    l2_askOrders := map (\<lambda>e. bu_numOrders (bucket_at db (snd e))) es\<rparr>"
proof (cases "n = 0")
  case True
  then show ?thesis using len by (simp add: direct_fill_asks_def fill_nothing es_def)
next
  case False
  then have "art_map_for_each (int n) (db_askPriceBuckets db) = es"
    using art.each_law[OF ok, of "int n"] by (simp add: es_def side_entries_def)
  moreover have "length es = n" using n by (simp add: es_def)
  ultimately show ?thesis
    using fill_asks_fold[of "data\<lparr>l2_askSize := 0\<rparr>" 0 es n db] len by (simp add: direct_fill_asks_def)
qed

lemma fill_bids_ok:
  assumes ok: "art_map_ok (db_bidPriceBuckets db)" and n: "n \<le> length (side_entries BID (db_bidPriceBuckets db))"
    and len: "length (l2_bidPrices data) = n" "length (l2_bidVolumes data) = n" "length (l2_bidOrders data) = n"
  defines "es \<equiv> take n (side_entries BID (db_bidPriceBuckets db))"
  shows "direct_fill_bids (int n) db data = data\<lparr>l2_bidSize := int n,
    l2_bidPrices := map (\<lambda>e. bu_price (bucket_at db (snd e))) es, l2_bidVolumes := map (\<lambda>e. bu_totalVolume (bucket_at db (snd e))) es,
    l2_bidOrders := map (\<lambda>e. bu_numOrders (bucket_at db (snd e))) es\<rparr>"
proof (cases "n = 0")
  case True
  then show ?thesis using len by (simp add: direct_fill_bids_def fill_nothing es_def)
next
  case False
  then have "art_map_for_each_desc (int n) (db_bidPriceBuckets db) = es"
    using art.each_desc_law[OF ok, of "int n"] by (simp add: es_def side_entries_def)
  moreover have "length es = n" using n by (simp add: es_def)
  ultimately show ?thesis
    using fill_bids_fold[of "data\<lparr>l2_bidSize := 0\<rparr>" 0 es n db] len by (simp add: direct_fill_bids_def)
qed

lemma direct_l2_ok:
  assumes rep: "direct_rep db L X" and sz: "0 \<le> sz"
  shows "direct_l2_snapshot sz db = flat_l2 sz (flat_of db L)"
proof -
  let ?es = "\<lambda>s. side_entries s (price_buckets s db)" and ?n = "\<lambda>s. min (length (side_entries s (price_buckets s db))) (nat sz)"
  have ok: "art_map_ok (price_buckets s db)" for s by (rule side_dataD(3)[OF direct_rep_data[OF rep]])
  have take: "take (nat sz) xs = take (min (length xs) (nat sz)) xs" for xs :: "(int \<times> addr) list"
    by (simp add: min_def)
  let ?d = "new_l2_market_data (?n ASK) (?n BID)"
  have total: "direct_total_buckets s sz db = int (?n s)" for s by (rule total_buckets[OF ok sz])
  note A = fill_asks_ok[of db "?n ASK" ?d, OF ok[of ASK, unfolded price_buckets.simps]]
  have asks: "direct_fill_asks (int (?n ASK)) db ?d = ?d\<lparr>l2_askSize := int (?n ASK),
      l2_askPrices := map (\<lambda>e. bu_price (bucket_at db (snd e))) (take (?n ASK) (?es ASK)),
      l2_askVolumes := map (\<lambda>e. bu_totalVolume (bucket_at db (snd e))) (take (?n ASK) (?es ASK)),
      l2_askOrders := map (\<lambda>e. bu_numOrders (bucket_at db (snd e))) (take (?n ASK) (?es ASK))\<rparr>" (is "_ = ?d1")
    using A by (simp add: new_l2_market_data_def)
  note B = fill_bids_ok[of db "?n BID" ?d1, OF ok[of BID, unfolded price_buckets.simps]]
  have bids: "direct_fill_bids (int (?n BID)) db ?d1 = ?d1\<lparr>l2_bidSize := int (?n BID),
      l2_bidPrices := map (\<lambda>e. bu_price (bucket_at db (snd e))) (take (?n BID) (?es BID)),
      l2_bidVolumes := map (\<lambda>e. bu_totalVolume (bucket_at db (snd e))) (take (?n BID) (?es BID)),
      l2_bidOrders := map (\<lambda>e. bu_numOrders (bucket_at db (snd e))) (take (?n BID) (?es BID))\<rparr>"
    using B by (simp add: new_l2_market_data_def)
  have "direct_l2_snapshot sz db = direct_fill_bids (int (?n BID)) db (direct_fill_asks (int (?n ASK)) db ?d)"
    by (simp only: direct_l2_snapshot_def Let_def total nat_int)
  then show ?thesis
    unfolding asks bids using side_levels[OF rep, of ASK] side_levels[OF rep, of BID]
    by (simp add: flat_l2_def flat_of_def new_l2_market_data_def Let_def take_map comp_def take[symmetric])
qed

section \<open>Queries\<close>

lemma price_levels_sums:
  "sum_list (map (\<lambda>(p, v, n). v) (price_levels os)) = volume os"
  "sum_list (map (\<lambda>(p, v, n). n) (price_levels os)) = int (length os)"
proof (induction os)
  case (Cons x os)
  {
    case 1
    then show ?case using Cons(1) by (auto split: list.splits)
  next
    case 2
    then show ?case using Cons(2) by (auto split: list.splits)
  }
qed simp_all

lemma fold_sum: "fold (\<lambda>(_, b) n. n + h b) es (k :: int) = k + sum_list (map (\<lambda>e. h (snd e)) es)"
  by (induction es arbitrary: k) auto

text \<open>Up to the limit of the iteration the buckets add up to the orders.\<close>

lemma direct_counts_ok:
  assumes rep: "direct_rep db L X" and few: "int (length (art_map_entries (price_buckets s db))) \<le> INT32_MAX"
  shows "direct_orders_num s db = int (length (L s))"
    and "direct_total_orders_volume s db = volume (map (dord (db_orders db)) (L s))"
proof -
  let ?m = "price_buckets s db"
  have "art_map_ok ?m" by (rule side_dataD(3)[OF direct_rep_data[OF rep]])
  then have each: "art_map_for_each INT32_MAX ?m = art_map_entries ?m"
    using art.each_law[of ?m INT32_MAX] few by (simp add: INT32_MAX_def)
  have perm: "sum_list (map h (art_map_entries ?m)) = sum_list (map h (side_entries s ?m))" for h :: "int \<times> addr \<Rightarrow> int"
    by (simp add: side_entries_def rev_map[symmetric] sum_list_rev)
  note sums = price_levels_sums[of "map (dord (db_orders db)) (L s)", unfolded side_levels[OF rep]]
  show "direct_orders_num s db = int (length (L s))"
    using sums(2) by (simp add: direct_orders_num_def each fold_sum perm comp_def)
  show "direct_total_orders_volume s db = volume (map (dord (db_orders db)) (L s))"
    using sums(1) by (simp add: direct_total_orders_volume_def each fold_sum perm comp_def)
qed

lemma direct_lookups_ok:
  assumes rep: "direct_rep db L {}"
  shows "direct_get_order_by_id k db = fb_find k (flat_of db L)"
    and "set (direct_find_user_orders uid db) = {x \<in> set (fb_orders (flat_of db L)). ord_uid x = uid}"
proof -
  let ?f = "dord (db_orders db)"
  note index = direct_repD(6)[OF rep]
  have alive: "\<exists>d. db_orders db a = Some d \<and> do_order d = ?f a" if "a \<in> linked L" for a
    using that dls_alive[OF direct_rep_links[OF rep]] unfolding linked_def dord_def by fastforce
  have entry: "um_find (db_orderIdIndex db) k = Some a \<Longrightarrow> a \<in> linked L \<and> ord_orderId (?f a) = k" for k a
    using index_rep_find[OF index] by auto
  show "direct_get_order_by_id k db = fb_find k (flat_of db L)"
  proof (cases "um_find (db_orderIdIndex db) k")
    case None
    then show ?thesis using index_find[OF rep, of k] by (simp add: direct_get_order_by_id_def)
  next
    case (Some a)
    with alive[of a] entry[OF Some] index_find[OF rep, of k] show ?thesis by (auto simp: direct_get_order_by_id_def)
  qed
  have mem: "(k, a) \<in> set (db_orderIdIndex db) \<longleftrightarrow> a \<in> linked L \<and> ord_orderId (?f a) = k" for k a
    using index index_rep_find[OF index, of k a] map_of_eq_Some_iff[of "db_orderIdIndex db" k a] by (simp add: index_rep_def)
  have "x \<in> set (direct_find_user_orders uid db) \<longleftrightarrow> (\<exists>a \<in> linked L. x = ?f a \<and> ord_uid x = uid)" for x
  proof -
    have "x \<in> set (direct_find_user_orders uid db) \<longleftrightarrow>
        (\<exists>k a. a \<in> linked L \<and> ord_orderId (?f a) = k \<and> x = (?f a)\<lparr>ord_orderId := k\<rparr> \<and> ord_uid (?f a) = uid)"
      using alive by (force simp: direct_find_user_orders_def mem split: if_splits option.splits)
    then show ?thesis by auto
  qed
  then show "set (direct_find_user_orders uid db) = {x \<in> set (fb_orders (flat_of db L)). ord_uid x = uid}"
    by (auto simp: set_flat_of)
qed

section \<open>The direct book is an order book\<close>

text \<open>
  New orders and moves the direct book takes: a price that goes into the radix trees is not
  negative, and the cost of a budget order is not the value that stands for too little volume.
\<close>

definition direct_takes_new :: "direct_book \<Rightarrow> order_command \<Rightarrow> bool" where
  "direct_takes_new db cmd \<longleftrightarrow> cmd_command cmd = PLACE_ORDER \<and>
     (cmd_orderType cmd = GTC \<longrightarrow> art_key (cmd_price cmd)) \<and>
     (cmd_orderType cmd = FOK_BUDGET \<longrightarrow>
        budget_to_fill (cmd_size cmd) (fb_side (opposite (cmd_action cmd)) (direct_abs db)) \<noteq> Some INT64_MAX)"

definition direct_takes_move :: "direct_book \<Rightarrow> order_command \<Rightarrow> bool" where
  "direct_takes_move db cmd \<longleftrightarrow> cmd_command cmd \<noteq> PLACE_ORDER \<and> art_key (cmd_price cmd)"

lemma direct_new_order_ok:
  assumes rep: "direct_rep db L {}" and pos: "0 < cmd_size cmd" and adm: "direct_takes_new db cmd"
  obtains db' L' cmd' where "direct_new_order node db cmd = Inr (db', cmd')" "direct_rep db' L' {}"
    "flat_new_order node (flat_of db L) cmd = (flat_of db' L', cmd')" "db_symbolSpec db' = db_symbolSpec db"
proof (cases "cmd_orderType cmd")
  case GTC
  with adm have "art_key (cmd_price cmd)" by (simp add: direct_takes_new_def)
  from direct_gtc_ok[OF rep pos GTC this, of node] that GTC show ?thesis
    by (metis direct_new_order_def flat_new_order_def order_type.simps(21))
next
  case IOC
  from direct_ioc_ok[OF rep pos IOC, of node] that IOC show ?thesis
    by (metis direct_new_order_def flat_new_order_def order_type.simps(22))
next
  case FOK_BUDGET
  with adm have a: "cmd_command cmd = PLACE_ORDER"
    "budget_to_fill (cmd_size cmd) (fb_side (opposite (cmd_action cmd)) (flat_of db L)) \<noteq> Some INT64_MAX"
    using direct_abs_flat_of[OF rep] by (simp_all add: direct_takes_new_def)
  from direct_fok_ok[OF rep pos FOK_BUDGET a, of node] that FOK_BUDGET show ?thesis
    by (metis direct_new_order_def flat_new_order_def order_type.simps(25))
qed (use that[of db "attach_reject_event node cmd (cmd_size cmd)" L] rep in
  \<open>simp_all add: direct_new_order_def flat_new_order_def\<close>)

interpretation direct: order_book_contract direct_inv direct_abs db_symbolSpec direct_ops direct_takes_new direct_takes_move
proof unfold_locales
  fix db :: direct_book and cmd :: order_command and node :: trade_event and sz :: int
  assume "direct_inv db"
  then obtain L where rep: "direct_rep db L {}" by (auto simp: direct_inv_def)
  note abs = direct_abs_flat_of[OF rep]
  show "flat_ok (direct_abs db)" using flat_of_ok[OF rep] abs by simp
  show "\<exists>db' cmd'. op_newOrder direct_ops node db cmd = Inr (db', cmd') \<and> direct_inv db' \<and>
      db_symbolSpec db' = db_symbolSpec db \<and> flat_new_order node (direct_abs db) cmd = (direct_abs db', cmd')"
    if adm: "direct_takes_new db cmd" and pos: "0 < cmd_size cmd"
  proof -
    obtain db' L' cmd' where "direct_new_order node db cmd = Inr (db', cmd')" "direct_rep db' L' {}"
      "flat_new_order node (flat_of db L) cmd = (flat_of db' L', cmd')" "db_symbolSpec db' = db_symbolSpec db"
      by (rule direct_new_order_ok[OF rep pos adm])
    then show ?thesis using abs by (auto simp: direct_ops_def direct_inv_def direct_abs_flat_of)
  qed
  show "\<exists>code db' cmd'. op_cancelOrder direct_ops node db cmd = Inr (code, db', cmd') \<and> direct_inv db' \<and>
      db_symbolSpec db' = db_symbolSpec db \<and> flat_cancel node (direct_abs db) cmd = (code, direct_abs db', cmd')"
    using direct_cancel_ok[OF rep, of node cmd] abs by (auto simp: direct_ops_def direct_result_def)
  show "\<exists>code db' cmd'. op_reduceOrder direct_ops node db cmd = Inr (code, db', cmd') \<and> direct_inv db' \<and>
      db_symbolSpec db' = db_symbolSpec db \<and> flat_reduce node (direct_abs db) cmd = (code, direct_abs db', cmd')"
    using direct_reduce_ok[OF rep, of node cmd] abs by (auto simp: direct_ops_def direct_result_def)
  show "\<exists>code db' cmd'. op_moveOrder direct_ops node db cmd = Inr (code, db', cmd') \<and> direct_inv db' \<and>
      db_symbolSpec db' = db_symbolSpec db \<and>
      same_outcome (flat_move (sp_type (db_symbolSpec db)) (direct_abs db) cmd) (code, direct_abs db', cmd')"
    if "direct_takes_move db cmd"
    using direct_move_ok[OF rep, of cmd node] that abs by (simp add: direct_ops_def direct_takes_move_def)
  show "op_l2Snapshot direct_ops sz db = flat_l2 sz (direct_abs db)" if "0 \<le> sz"
    using direct_l2_ok[OF rep that] abs by (simp add: direct_ops_def)
qed

lemma new_direct_book_inv:
  "direct_inv (new_direct_book spec) \<and> direct_abs (new_direct_book spec) = \<lparr>fb_asks = [], fb_bids = []\<rparr>"
proof -
  have "price_buckets s (new_direct_book spec) = None" "best_order s (new_direct_book spec) = None" for s
    by (cases s; simp add: new_direct_book_def)+
  then have "direct_rep (new_direct_book spec) (\<lambda>_. []) {}"
    by (simp add: direct_rep_def side_rep_def linked_def index_rep_def bucket_addrs_def art_map_get_def)
      (simp add: new_direct_book_def)
  from direct_abs_flat_of[OF this] this show ?thesis by (auto simp: direct_inv_def flat_of_def)
qed

end
