(* ===== verification/Direct_Correct.thy ===== *)
theory Direct_Correct
  imports Direct_L2 Naive_Correct
begin

text \<open>
  What the direct order book promises, from the contract of an order book that it satisfies, and
  that it cannot be told from the naive one.
\<close>

text \<open>A book with one ask at rest, as the code builds it.\<close>

definition sample_direct_book :: direct_book where
  "sample_direct_book =
     (case direct_new_order default_event (new_direct_book sample_spec) (sample_order GTC 100 1 ASK 20 4) of
        Inr (db, _) \<Rightarrow> db | Inl _ \<Rightarrow> new_direct_book sample_spec)"

lemma sample_direct_book_ok:
  "direct_inv sample_direct_book \<and> db_symbolSpec sample_direct_book = sample_spec \<and>
   direct_abs sample_direct_book = \<lparr>fb_asks = [sample_ask], fb_bids = []\<rparr>"
proof -
  let ?cmd = "sample_order GTC 100 1 ASK 20 4"
  have s: "0 < cmd_size ?cmd" "direct_takes_new (new_direct_book sample_spec) ?cmd"
    by (simp_all add: sample_defs direct_takes_new_def art_key_def INT64_MAX_def)
  obtain db cmd' where n: "direct_new_order default_event (new_direct_book sample_spec) ?cmd = Inr (db, cmd')" "direct_inv db"
    "db_symbolSpec db = db_symbolSpec (new_direct_book sample_spec)"
    "flat_new_order default_event (direct_abs (new_direct_book sample_spec)) ?cmd = (direct_abs db, cmd')"
    using direct.new_order_law[OF _ s(2,1), of default_event] new_direct_book_inv by (auto simp: direct_ops_def)
  have "flat_new_order default_event \<lparr>fb_asks = [], fb_bids = []\<rparr> ?cmd =
      (\<lparr>fb_asks = [sample_ask], fb_bids = []\<rparr>, ?cmd)"
    by (simp add: flat_new_order_def flat_gtc_def flat_match_def fb_insert_def cmd_order_def sample_defs
        default_command_def cmd_iorder_def set_events_def fb_find_def fb_orders_def sample_ask_def)
  with n new_direct_book_inv show ?thesis
    by (simp add: sample_direct_book_def) (simp add: new_direct_book_def)
qed

text \<open>C3:
  Every admissible command that \<open>ProcessCommand\<close> runs on a valid direct book returns without an
  exception, follows no dangling pointer, keeps the linked lists, the buckets, the radix trees
  and the index consistent, and does to the list of orders by price and time, to the result code
  and to the command what the flat book does; only the action that a move refused by the risk
  limit leaves in the command is open. Admissible are all commands but these: an order of a size
  that is not positive, a \<open>GTC\<close> order or a move whose price is negative or above the greatest
  integer, and a \<open>FOK_BUDGET\<close> order whose size costs exactly \<open>INT64_MAX\<close>, the value that stands for
  too little volume. No stage before the book excludes all of these.
\<close>

theorem direct_process_command_refines_flat:
  assumes "direct_inv db" and "admissible direct_takes_new direct_takes_move db cmd"
  shows "\<exists>code db' cmd'. process_command direct_ops node db cmd = Inr (code, db', cmd') \<and> direct_inv db' \<and>
    db_symbolSpec db' = db_symbolSpec db \<and>
    same_outcome (flat_process_command (sp_type (db_symbolSpec db)) node (direct_abs db) cmd) (code, direct_abs db', cmd')"
  by (rule direct.process_command_refines[OF assms])

theorem direct_process_command_refines_flat_witness:
  "\<exists>code db' cmd'. process_command direct_ops default_event sample_direct_book (sample_order IOC 101 2 BID 21 3) =
     Inr (code, db', cmd') \<and> direct_inv db'"
proof -
  have "admissible direct_takes_new direct_takes_move sample_direct_book (sample_order IOC 101 2 BID 21 3)"
    by (simp add: admissible_def placeable_def direct_takes_new_def sample_defs)
  with direct_process_command_refines_flat[of sample_direct_book "sample_order IOC 101 2 BID 21 3" default_event]
    sample_direct_book_ok show ?thesis by blast
qed

text \<open>C4:
  The two implementations of the order book are interchangeable: on books that hold the same
  orders in the same priority, an admissible command gives the same result code, the same orders
  and the same command with the same events (but for the action in a move that is refused).
  Admissible is what the direct book takes: positive sizes, prices of \<open>GTC\<close> orders and moves that
  are not negative, no \<open>FOK_BUDGET\<close> cost of exactly \<open>INT64_MAX\<close>.
\<close>

theorem direct_and_naive_agree:
  assumes "direct_inv db" and "nb_inv nb" and "direct_abs db = nb_abs nb" and "db_symbolSpec db = nb_symbolSpec nb"
    and "admissible direct_takes_new direct_takes_move db cmd"
  shows "\<exists>code db' nb' dcmd ncmd. process_command direct_ops node db cmd = Inr (code, db', dcmd) \<and>
    process_command naive_ops node nb cmd = Inr (code, nb', ncmd) \<and>
    direct_inv db' \<and> nb_inv nb' \<and> direct_abs db' = nb_abs nb' \<and> db_symbolSpec db' = nb_symbolSpec nb' \<and>
    dcmd\<lparr>cmd_action := ASK\<rparr> = ncmd\<lparr>cmd_action := ASK\<rparr> \<and>
    (code \<noteq> MATCHING_MOVE_FAILED_PRICE_OVER_RISK_LIMIT \<longrightarrow> dcmd = ncmd)"
proof -
  obtain c fb fcmd where flat: "flat_process_command (sp_type (nb_symbolSpec nb)) node (nb_abs nb) cmd = (c, fb, fcmd)"
    by (metis prod_cases3)
  have "placeable cmd" using assms(5) by (simp add: admissible_def)
  then obtain code nb' ncmd where n: "process_command naive_ops node nb cmd = Inr (code, nb', ncmd)" "nb_inv nb'"
    "nb_symbolSpec nb' = nb_symbolSpec nb" "same_outcome (c, fb, fcmd) (code, nb_abs nb', ncmd)"
    using naive.process_command_refines[OF assms(2), of cmd node] flat by auto
  obtain code' db' dcmd where d: "process_command direct_ops node db cmd = Inr (code', db', dcmd)" "direct_inv db'"
    "db_symbolSpec db' = db_symbolSpec db" "same_outcome (c, fb, fcmd) (code', direct_abs db', dcmd)"
    using direct.process_command_refines[OF assms(1,5), of node] flat assms(3,4) by auto
  have erase: "x\<lparr>cmd_action := ASK\<rparr> = y\<lparr>cmd_action := ASK\<rparr>"
    if "same_outcome (c1, fb1, x) (c2, fb2, y)" for c1 fb1 x c2 fb2 y
  proof -
    have "\<exists>a. x = y\<lparr>cmd_action := a\<rparr>"
    proof (cases "c1 = MATCHING_MOVE_FAILED_PRICE_OVER_RISK_LIMIT")
      case True
      with that have "x = y\<lparr>cmd_action := cmd_action x\<rparr>" unfolding same_outcome_def fst_conv snd_conv by simp
      then show ?thesis by (rule exI)
    next
      case False
      with that have "x = y" by (simp add: same_outcome_def)
      then show ?thesis by (intro exI[of _ "cmd_action y"]) simp
    qed
    then show ?thesis by auto
  qed
  have "fcmd\<lparr>cmd_action := ASK\<rparr> = ncmd\<lparr>cmd_action := ASK\<rparr>" "fcmd\<lparr>cmd_action := ASK\<rparr> = dcmd\<lparr>cmd_action := ASK\<rparr>"
    by (rule erase[OF n(4)], rule erase[OF d(4)])
  moreover have codes: "c = code" "c = code'" "fb = nb_abs nb'" "fb = direct_abs db'"
    using n(4) d(4) unfolding same_outcome_def by simp_all
  moreover have "dcmd = ncmd" if "code \<noteq> MATCHING_MOVE_FAILED_PRICE_OVER_RISK_LIMIT"
  proof -
    have "fcmd = ncmd" "fcmd = dcmd"
      using n(4) d(4) that codes(1,2) unfolding same_outcome_def fst_conv snd_conv by metis+
    then show ?thesis by simp
  qed
  ultimately show ?thesis using n d assms(4) by auto
qed

theorem direct_and_naive_agree_witness:
  "\<exists>code db' nb' dcmd ncmd.
     process_command direct_ops default_event sample_direct_book (sample_order IOC 101 2 BID 21 3) = Inr (code, db', dcmd) \<and>
     process_command naive_ops default_event sample_book (sample_order IOC 101 2 BID 21 3) = Inr (code, nb', ncmd) \<and>
     direct_abs db' = nb_abs nb'"
proof -
  have "admissible direct_takes_new direct_takes_move sample_direct_book (sample_order IOC 101 2 BID 21 3)"
    by (simp add: admissible_def placeable_def direct_takes_new_def sample_defs)
  with direct_and_naive_agree[of sample_direct_book sample_book "sample_order IOC 101 2 BID 21 3" default_event]
    sample_direct_book_ok sample_book_ok show ?thesis by metis
qed

text \<open>C13:
  The loops of the direct book end: on a valid book, following the links of a side, summing up
  the cost of any size, and matching any taker return without an exception within as many rounds
  as the index has orders, and the match leaves a valid book.
\<close>

theorem direct_loops_return:
  assumes "direct_inv db" and "io_filled io \<le> io_size io"
  shows "(\<exists>os. direct_process_orders s db = Inr os \<and> length os \<le> length (db_orderIdIndex db)) \<and>
    (\<exists>b. direct_check_budget_to_fill s sz db = Inr b) \<and>
    (\<exists>db' cmd' filled. direct_try_match io cmd db = Inr (db', cmd', filled) \<and> direct_inv db' \<and>
       io_filled io \<le> filled \<and> filled \<le> io_size io)"
proof -
  obtain L where rep: "direct_rep db L {}" using assms(1) by (auto simp: direct_inv_def)
  obtain db' cmd' filled L' where m: "direct_try_match io cmd db = Inr (db', cmd', filled)"
    "direct_rep db' (L(opposite (io_action io) := L')) {}"
    "flat_match io (crosses (io_action io) (taker_limit io cmd)) (flat_of db L) cmd =
      (flat_of db' (L(opposite (io_action io) := L')), cmd', filled)"
    by (rule direct_try_match_ok[OF rep assms(2), of cmd]) blast
  then show ?thesis
    using direct_process_orders_ok[OF rep] side_length[OF rep] direct_check_budget_ok[OF rep]
      flat_match_filled[OF flat_of_ok[OF rep] assms(2) m(3)]
    by (auto simp: direct_inv_def)
qed

theorem direct_loops_return_witness:
  "\<exists>db' cmd' filled. direct_try_match (cmd_iorder (sample_order IOC 101 2 BID 21 3)) (sample_order IOC 101 2 BID 21 3)
     sample_direct_book = Inr (db', cmd', filled) \<and> direct_inv db'"
proof -
  have "io_filled (cmd_iorder (sample_order IOC 101 2 BID 21 3)) \<le> io_size (cmd_iorder (sample_order IOC 101 2 BID 21 3))"
    by (simp add: sample_defs)
  from direct_loops_return[OF _ this, of sample_direct_book] sample_direct_book_ok show ?thesis by blast
qed

text \<open>C31:
  What the direct book shows is what the flat book holds: the market data, the orders of a side
  in priority order, the lookup by identifier, the orders of a user, and (below the limit of the
  iteration over the prices) the number of orders and their volume. The book is valid, and a
  size that is not negative is asked for.
\<close>

theorem direct_queries_exact:
  assumes "direct_inv db" and "0 \<le> sz"
  shows "direct_l2_snapshot sz db = flat_l2 sz (direct_abs db) \<and>
    direct_process_orders s db = Inr (fb_side s (direct_abs db)) \<and>
    direct_get_order_by_id i db = fb_find i (direct_abs db) \<and>
    set (direct_find_user_orders uid db) = {x \<in> set (fb_orders (direct_abs db)). ord_uid x = uid} \<and>
    (int (length (art_map_entries (price_buckets s db))) \<le> INT32_MAX \<longrightarrow>
       direct_orders_num s db = int (length (fb_side s (direct_abs db))) \<and>
       direct_total_orders_volume s db = volume (fb_side s (direct_abs db)))"
proof -
  obtain L where rep: "direct_rep db L {}" using assms(1) by (auto simp: direct_inv_def)
  show ?thesis
    unfolding direct_abs_flat_of[OF rep]
    using direct_l2_ok[OF rep assms(2)] direct_process_orders_ok[OF rep, of s] direct_lookups_ok[OF rep]
      direct_counts_ok[OF rep, of s] by simp
qed

theorem direct_queries_exact_witness:
  "l2_askPrices (direct_l2_snapshot 3 sample_direct_book) = [20] \<and> direct_process_orders ASK sample_direct_book = Inr [sample_ask] \<and>
   direct_get_order_by_id 100 sample_direct_book = Some sample_ask"
  using direct_queries_exact[of sample_direct_book 3 ASK 100] sample_direct_book_ok
  by (simp add: flat_l2_def Let_def fb_find_def fb_orders_def)

end
