(* ===== verification/Ring_Buffer.thy ===== *)
theory Ring_Buffer
  imports Types
begin

text \<open>
  The producer's side of the ring buffer. The disruptor is a library: its operations are the
  parameter \<open>rb\<close>, over a state of its own, and \<open>ring_ok\<close> states what its documentation
  promises to a producer. Results carry the state also when they are an exception.
\<close>

section \<open>Operations\<close>

text \<open>
  \<open>next(n)\<close> claims \<open>n\<close> slots and gives the highest sequence; \<open>get(seq)\<close> is a reference, so
  it is a read and a write; \<open>publish(lo, hi)\<close> hands the slots to the consumers.
\<close>

record 'r ring =
  rb_bufferSize :: int
  rb_next :: "int \<Rightarrow> 'r \<Rightarrow> exn + (int \<times> 'r)"
  rb_get :: "int \<Rightarrow> 'r \<Rightarrow> order_command"
  rb_set :: "int \<Rightarrow> order_command \<Rightarrow> 'r \<Rightarrow> 'r"
  rb_publish :: "int \<Rightarrow> int \<Rightarrow> 'r \<Rightarrow> 'r"

definition bindA :: "'s \<times> (exn + 'a) \<Rightarrow> ('a \<Rightarrow> 's \<Rightarrow> 's \<times> (exn + 'b)) \<Rightarrow> 's \<times> (exn + 'b)" where
  "bindA r k = (case r of (s, Inl e) \<Rightarrow> (s, Inl e) | (s, Inr x) \<Rightarrow> k x s)"

lemma bindA_simps [simp]:
  "bindA (s, Inl e) k = (s, Inl e)"
  "bindA (s, Inr x) k = k x s"
  by (simp_all add: bindA_def)

definition claim :: "'r ring \<Rightarrow> int \<Rightarrow> 'r \<Rightarrow> 'r \<times> (exn + int)" where
  "claim rb n r = (case rb_next rb n r of Inl e \<Rightarrow> (r, Inl e) | Inr (hi, r') \<Rightarrow> (r', Inr hi))"

text \<open>Claim one slot, write it and publish it.\<close>

definition publish_event ::
  "'r ring \<Rightarrow> (order_command \<Rightarrow> order_command) \<Rightarrow> 'r \<Rightarrow> 'r \<times> (exn + int)" where
  "publish_event rb translateTo r = bindA (claim rb 1 r) (\<lambda>seq r1.
     (rb_publish rb seq seq (rb_set rb seq (translateTo (rb_get rb seq r1)) r1), Inr seq))"

section \<open>What the library promises\<close>

text \<open>
  \<open>claimed\<close> is the last claimed sequence and \<open>published\<close> the commands handed to the consumers,
  in order. \<open>next\<close> returns when the consumers have freed the slots. Slots less than the buffer
  size apart are distinct. A range is published by whoever claimed it, after what was claimed
  before it.
\<close>

definition ring_next_ok :: "'r ring \<Rightarrow> ('r \<Rightarrow> int) \<Rightarrow> ('r \<Rightarrow> order_command list) \<Rightarrow> bool" where
  "ring_next_ok rb claimed published \<longleftrightarrow> (\<forall>r n. 1 \<le> n \<longrightarrow> n \<le> rb_bufferSize rb \<longrightarrow>
     (\<exists>r'. rb_next rb n r = Inr (claimed r + n, r') \<and> claimed r' = claimed r + n \<and>
        published r' = published r))"

definition ring_slots_ok :: "'r ring \<Rightarrow> ('r \<Rightarrow> int) \<Rightarrow> ('r \<Rightarrow> order_command list) \<Rightarrow> bool" where
  "ring_slots_ok rb claimed published \<longleftrightarrow> (\<forall>r s c.
     claimed (rb_set rb s c r) = claimed r \<and> published (rb_set rb s c r) = published r \<and>
     rb_get rb s (rb_set rb s c r) = c \<and>
     (\<forall>s'. s' \<noteq> s \<longrightarrow> abs (s' - s) < rb_bufferSize rb \<longrightarrow>
        rb_get rb s' (rb_set rb s c r) = rb_get rb s' r))"

definition ring_publish_ok :: "'r ring \<Rightarrow> ('r \<Rightarrow> int) \<Rightarrow> ('r \<Rightarrow> order_command list) \<Rightarrow> bool" where
  "ring_publish_ok rb claimed published \<longleftrightarrow> (\<forall>r n lo. 1 \<le> n \<longrightarrow> int n \<le> rb_bufferSize rb \<longrightarrow>
     lo = claimed r - int n + 1 \<longrightarrow>
     claimed (rb_publish rb lo (claimed r) r) = claimed r \<and>
     published (rb_publish rb lo (claimed r) r) =
       published r @ map (\<lambda>i. rb_get rb (lo + int i) r) [0..<n])"

definition ring_ok :: "'r ring \<Rightarrow> ('r \<Rightarrow> int) \<Rightarrow> ('r \<Rightarrow> order_command list) \<Rightarrow> bool" where
  "ring_ok rb claimed published \<longleftrightarrow> ring_next_ok rb claimed published \<and>
     ring_slots_ok rb claimed published \<and> ring_publish_ok rb claimed published"

lemma ring_nextE:
  assumes "ring_ok rb claimed published" and "1 \<le> n" and "n \<le> rb_bufferSize rb"
  obtains r' where "claim rb n r = (r', Inr (claimed r + n))" "claimed r' = claimed r + n"
    "published r' = published r"
proof -
  obtain r' where "rb_next rb n r = Inr (claimed r + n, r')" "claimed r' = claimed r + n"
    "published r' = published r"
    using assms unfolding ring_ok_def ring_next_ok_def by blast
  then show thesis by (intro that[of r']) (simp_all add: claim_def)
qed

lemma ring_set:
  assumes "ring_ok rb claimed published"
  shows "claimed (rb_set rb s c r) = claimed r" "published (rb_set rb s c r) = published r"
    "rb_get rb s (rb_set rb s c r) = c"
    "s' \<noteq> s \<Longrightarrow> abs (s' - s) < rb_bufferSize rb \<Longrightarrow> rb_get rb s' (rb_set rb s c r) = rb_get rb s' r"
  using assms unfolding ring_ok_def ring_slots_ok_def by blast+

lemma ring_publish:
  assumes "ring_ok rb claimed published" and "1 \<le> n" and "int n \<le> rb_bufferSize rb"
    and "lo = claimed r - int n + 1" and "hi = claimed r"
  shows "claimed (rb_publish rb lo hi r) = claimed r"
    "published (rb_publish rb lo hi r) = published r @ map (\<lambda>i. rb_get rb (lo + int i) r) [0..<n]"
  using assms unfolding ring_ok_def ring_publish_ok_def by blast+

lemma publish_event_ok:
  assumes "ring_ok rb claimed published" and "1 \<le> rb_bufferSize rb"
  shows "\<exists>r' slot. publish_event rb f r = (r', Inr (claimed r + 1)) \<and> claimed r' = claimed r + 1 \<and>
    published r' = published r @ [f slot]"
proof -
  obtain r1 where r1: "claim rb 1 r = (r1, Inr (claimed r + 1))" "claimed r1 = claimed r + 1"
    "published r1 = published r"
    using ring_nextE[OF assms(1) _ assms(2)] by auto
  let ?c = "f (rb_get rb (claimed r + 1) r1)"
  let ?r2 = "rb_set rb (claimed r + 1) ?c r1"
  have "claimed (rb_publish rb (claimed r + 1) (claimed r + 1) ?r2) = claimed r + 1"
    "published (rb_publish rb (claimed r + 1) (claimed r + 1) ?r2) = published r @ [?c]"
    using ring_publish[OF assms(1), of 1 "claimed r + 1" ?r2 "claimed r + 1"] assms(2) r1
    by (simp_all add: ring_set[OF assms(1)])
  with r1 show ?thesis by (auto simp: publish_event_def)
qed

section \<open>A run of slots\<close>

text \<open>
  Filling \<open>n\<close> slots from \<open>seq\<close> on with five words each, taken from \<open>ptr\<close> on; \<open>isLast\<close> tells which
  of them is the last of the message.
\<close>

fun write_frames ::
  "'r ring \<Rightarrow> (int list \<Rightarrow> bool \<Rightarrow> order_command \<Rightarrow> order_command) \<Rightarrow> int list \<Rightarrow> (int \<Rightarrow> bool) \<Rightarrow>
     nat \<Rightarrow> nat \<Rightarrow> int \<Rightarrow> 'r \<Rightarrow> 'r \<times> (exn + unit)" where
  "write_frames rb fill longs isLast ptr 0 seq r = (r, Inr ())"
| "write_frames rb fill longs isLast ptr (Suc n) seq r =
     (if ptr + 4 \<ge> length longs then (r, Inl (Runtime_Error ''array index out of bounds''))
      else let cmd = fill (take 5 (drop ptr longs)) (isLast seq) (rb_get rb seq r)
           in write_frames rb fill longs isLast (ptr + 5) n (seq + 1) (rb_set rb seq cmd r))"

text \<open>
  The loop over the fragments of a message, each at most a quarter of the buffer. \<open>endSeq\<close> is
  called with the last sequence before it is published. \<open>check\<close>: the verification of the
  sequence range, which one of the three callers leaves out.
\<close>

fun publish_fragments ::
  "'r ring \<Rightarrow> bool \<Rightarrow> (int list \<Rightarrow> bool \<Rightarrow> order_command \<Rightarrow> order_command) \<Rightarrow> int list \<Rightarrow>
     (int \<Rightarrow> 'p \<Rightarrow> 'p) \<Rightarrow> nat \<Rightarrow> nat \<Rightarrow> 'r \<times> 'p \<Rightarrow> ('r \<times> 'p) \<times> (exn + int)" where
  "publish_fragments rb check fill longs endSeq 0 offset s = (s, Inl Out_Of_Fuel)"
| "publish_fragments rb check fill longs endSeq (Suc fuel) offset (r, p) =
     (let totalNum = length longs div 5;
          batchSize = nat (rb_bufferSize rb) div 4;
          isLastFragment = (totalNum \<le> offset + batchSize);
          fragmentSize = (if isLastFragment then totalNum - offset else batchSize)
      in case claim rb (int fragmentSize) r of
           (r1, Inl e) \<Rightarrow> ((r1, p), Inl e)
         | (r1, Inr highSeq) \<Rightarrow>
             let lowSeq = highSeq - int fragmentSize + 1
             in if check \<and> (lowSeq < 0 \<or> highSeq < lowSeq)
                then ((r1, p), Inl (Runtime_Error ''invalid sequence range''))
                else if int (5 * offset) > int (length longs) - 5
                then ((rb_publish rb lowSeq highSeq r1, p), Inl (Runtime_Error ''ptr out of range''))
                else case write_frames rb fill longs (\<lambda>seq. isLastFragment \<and> seq = highSeq)
                            (5 * offset) fragmentSize lowSeq r1 of
                       (r2, Inl e) \<Rightarrow> ((rb_publish rb lowSeq highSeq r2, p), Inl e)
                     | (r2, Inr _) \<Rightarrow>
                         if isLastFragment
                         then ((rb_publish rb lowSeq highSeq r2, endSeq highSeq p), Inr highSeq)
                         else publish_fragments rb check fill longs endSeq fuel (offset + batchSize)
                                (rb_publish rb lowSeq highSeq r2, p))"

text \<open>The frames of the message: the \<open>i\<close>-th of \<open>n\<close> over the slot it is written to.\<close>

definition frame_at ::
  "(int list \<Rightarrow> bool \<Rightarrow> order_command \<Rightarrow> order_command) \<Rightarrow> int list \<Rightarrow> nat \<Rightarrow> (nat \<Rightarrow> order_command) \<Rightarrow>
     nat \<Rightarrow> order_command" where
  "frame_at fill longs n slots i = fill (take 5 (drop (5 * i) longs)) (Suc i = n) (slots i)"

lemma write_frames_ok:
  assumes ring: "ring_ok rb claimed published"
    and "int n \<le> rb_bufferSize rb" and "ptr + 5 * n \<le> length longs"
  shows "\<exists>r'. write_frames rb fill longs isLast ptr n seq r = (r', Inr ()) \<and> claimed r' = claimed r \<and>
    published r' = published r \<and>
    (\<forall>i<n. rb_get rb (seq + int i) r' =
       fill (take 5 (drop (ptr + 5 * i) longs)) (isLast (seq + int i)) (rb_get rb (seq + int i) r)) \<and>
    (\<forall>s. s < seq \<longrightarrow> seq + int n - s \<le> rb_bufferSize rb \<longrightarrow> rb_get rb s r' = rb_get rb s r)"
  using assms(2,3)
proof (induction n arbitrary: ptr seq r)
  case 0
  then show ?case by simp
next
  case (Suc n)
  let ?c = "fill (take 5 (drop ptr longs)) (isLast seq) (rb_get rb seq r)"
  let ?r1 = "rb_set rb seq ?c r"
  note set = ring_set[OF ring]
  have "int n \<le> rb_bufferSize rb" "(ptr + 5) + 5 * n \<le> length longs" using Suc.prems by simp_all
  from Suc.IH[OF this, of "seq + 1" ?r1] obtain r' where
    r': "write_frames rb fill longs isLast (ptr + 5) n (seq + 1) ?r1 = (r', Inr ())"
      "claimed r' = claimed ?r1" "published r' = published ?r1"
    and later: "\<forall>i<n. rb_get rb (seq + 1 + int i) r' =
      fill (take 5 (drop (ptr + 5 + 5 * i) longs)) (isLast (seq + 1 + int i)) (rb_get rb (seq + 1 + int i) ?r1)"
    and before: "\<forall>s. s < seq + 1 \<longrightarrow> seq + 1 + int n - s \<le> rb_bufferSize rb \<longrightarrow> rb_get rb s r' = rb_get rb s ?r1"
    by blast
  have new: "rb_get rb seq r' = ?c"
    using before Suc.prems(1) by (simp add: set(3))
  have "rb_get rb (seq + int i) r' =
      fill (take 5 (drop (ptr + 5 * i) longs)) (isLast (seq + int i)) (rb_get rb (seq + int i) r)" if i: "i < Suc n" for i
  proof (cases i)
    case 0
    then show ?thesis using new by simp
  next
    case (Suc j)
    have "rb_get rb (seq + 1 + int j) ?r1 = rb_get rb (seq + 1 + int j) r"
      using Suc.prems(1) i \<open>i = Suc j\<close> by (intro set(4)) auto
    then show ?thesis using later i Suc by (auto simp: algebra_simps)
  qed
  moreover have "rb_get rb s r' = rb_get rb s r"
    if "s < seq" "seq + int (Suc n) - s \<le> rb_bufferSize rb" for s
    using that before by (auto simp: set(4))
  ultimately show ?case
    using r' Suc.prems by (auto simp: set(1,2) Let_def)
qed

text \<open>One fragment: the frames \<open>a\<close> to \<open>a + n - 1\<close> of \<open>tot\<close> frames.\<close>

lemma fragment_ok:
  assumes ring: "ring_ok rb claimed published" and n: "1 \<le> n" "int n \<le> rb_bufferSize rb"
    and len: "length longs = 5 * tot" "a + n \<le> tot" and hi: "claimed r = hi"
    and last: "\<And>i. i < n \<Longrightarrow> isLast (hi - int n + 1 + int i) \<longleftrightarrow> Suc (a + i) = tot"
  shows "\<exists>r2 slots. write_frames rb fill longs isLast (5 * a) n (hi - int n + 1) r = (r2, Inr ()) \<and>
    claimed (rb_publish rb (hi - int n + 1) hi r2) = hi \<and>
    published (rb_publish rb (hi - int n + 1) hi r2) =
      published r @ map (frame_at fill longs tot slots) [a..<a + n]"
proof -
  have "5 * a + 5 * n \<le> length longs" using len by simp
  from write_frames_ok[OF ring n(2) this, of fill isLast "hi - int n + 1" r] obtain r2 where
    r2: "write_frames rb fill longs isLast (5 * a) n (hi - int n + 1) r = (r2, Inr ())"
      "claimed r2 = hi" "published r2 = published r"
      "\<forall>i<n. rb_get rb (hi - int n + 1 + int i) r2 = fill (take 5 (drop (5 * a + 5 * i) longs))
         (isLast (hi - int n + 1 + int i)) (rb_get rb (hi - int n + 1 + int i) r)"
    using hi by auto
  let ?slots = "\<lambda>j. rb_get rb (hi - int n + 1 + int (j - a)) r"
  have "rb_get rb (hi - int n + 1 + int i) r2 = frame_at fill longs tot ?slots (a + i)" if "i < n" for i
    using r2(4) that last[OF that] by (simp add: frame_at_def)
  then have "map (\<lambda>i. rb_get rb (hi - int n + 1 + int i) r2) [0..<n] =
      map (\<lambda>i. frame_at fill longs tot ?slots (a + i)) [0..<n]" by simp
  also have "\<dots> = map (frame_at fill longs tot ?slots) (map (\<lambda>i. a + i) [0..<n])" by simp
  also have "map (\<lambda>i. a + i) [0..<n] = [a..<a + n]"
    by (intro nth_equalityI) auto
  finally have frames: "map (\<lambda>i. rb_get rb (hi - int n + 1 + int i) r2) [0..<n] =
    map (frame_at fill longs tot ?slots) [a..<a + n]" .
  have "hi - int n + 1 = claimed r2 - int n + 1" "hi = claimed r2" using r2(2) by simp_all
  from ring_publish[OF ring n this] show ?thesis
    unfolding frames r2(3) using r2(1,2) by blast
qed

declare publish_fragments.simps [simp del]

lemma publish_fragments_ok:
  assumes ring: "ring_ok rb claimed published" and size: "4 \<le> rb_bufferSize rb"
    and len: "length longs = 5 * tot" and "offset < tot" and "tot - offset \<le> fuel" and "-1 \<le> claimed r"
  shows "\<exists>r' slots. publish_fragments rb check fill longs endSeq fuel offset (r, p) =
      ((r', endSeq (claimed r + int (tot - offset)) p), Inr (claimed r + int (tot - offset))) \<and>
    claimed r' = claimed r + int (tot - offset) \<and>
    published r' = published r @ map (frame_at fill longs tot slots) [offset..<tot]"
  using assms(4-)
proof (induction fuel arbitrary: offset r)
  case 0
  then show ?case by simp
next
  case (Suc fuel)
  let ?batch = "nat (rb_bufferSize rb) div 4"
  define isl where "isl \<longleftrightarrow> tot \<le> offset + ?batch"
  define n where "n = (if isl then tot - offset else ?batch)"
  have batch: "1 \<le> ?batch" "int ?batch \<le> rb_bufferSize rb" using size by linarith+
  have n: "1 \<le> n" "int n \<le> rb_bufferSize rb" "offset + n \<le> tot"
    "isl \<longleftrightarrow> offset + n = tot"
    using batch Suc.prems(1) by (auto simp: n_def isl_def)
  define hi where "hi = claimed r + int n"
  obtain r1 where r1: "claim rb (int n) r = (r1, Inr hi)" "claimed r1 = hi" "published r1 = published r"
    using ring_nextE[OF ring _ n(2), of r] n(1) by (auto simp: hi_def)
  have "(isl \<and> hi - int n + 1 + int i = hi) \<longleftrightarrow> Suc (offset + i) = tot" if "i < n" for i
    using that n(3,4) by auto
  from fragment_ok[OF ring n(1,2) len n(3) r1(2), of "\<lambda>seq. isl \<and> seq = hi", OF this, of fill]
  obtain r2 slots where r2: "write_frames rb fill longs (\<lambda>seq. isl \<and> seq = hi) (5 * offset) n (hi - int n + 1) r1 = (r2, Inr ())"
    and pub: "claimed (rb_publish rb (hi - int n + 1) hi r2) = hi"
      "published (rb_publish rb (hi - int n + 1) hi r2) =
        published r @ map (frame_at fill longs tot slots) [offset..<offset + n]"
    unfolding r1(3) by blast
  let ?r3 = "rb_publish rb (hi - int n + 1) hi r2"
  have range: "\<not> (check \<and> (hi - int n + 1 < 0 \<or> hi < hi - int n + 1))" "\<not> int (5 * offset) > int (length longs) - 5"
    using Suc.prems(3) n(1) len Suc.prems(1) by (auto simp: hi_def)
  have total_msgs: "length longs div 5 = tot" using len by simp
  have step: "publish_fragments rb check fill longs endSeq (Suc fuel) offset (r, p) =
    (if isl then ((?r3, endSeq hi p), Inr hi)
     else publish_fragments rb check fill longs endSeq fuel (offset + ?batch) (?r3, p))"
    unfolding publish_fragments.simps Let_def total_msgs isl_def[symmetric] n_def[symmetric]
    by (simp only: range if_False r1(1) r2 prod.case sum.case)
  show ?case
  proof (cases isl)
    case True
    with n(4) have e: "offset + n = tot" "claimed r + int (tot - offset) = hi" by (auto simp: hi_def)
    have "publish_fragments rb check fill longs endSeq (Suc fuel) offset (r, p) = ((?r3, endSeq hi p), Inr hi)"
      using True step by simp
    with pub show ?thesis unfolding e by (intro exI[of _ ?r3] exI[of _ slots] conjI)
  next
    case False
    then have "n = ?batch" by (simp add: n_def)
    moreover have less: "offset + n < tot" using n(3,4) False by linarith
    moreover have "tot - (offset + n) \<le> fuel" using Suc.prems(2) n(1) by simp
    moreover have "-1 \<le> claimed ?r3" using pub(1) Suc.prems(3) by (simp add: hi_def)
    ultimately obtain r' slots' where
      r': "publish_fragments rb check fill longs endSeq fuel (offset + ?batch) (?r3, p) =
          ((r', endSeq (hi + int (tot - (offset + n))) p), Inr (hi + int (tot - (offset + n))))"
        "claimed r' = hi + int (tot - (offset + n))"
        "published r' = published ?r3 @ map (frame_at fill longs tot slots') [offset + n..<tot]"
      using Suc.IH[of "offset + n" ?r3] pub(1) by auto
    let ?slots = "\<lambda>i. if i < offset + n then slots i else slots' i"
    have "map (frame_at fill longs tot slots) [offset..<offset + n] =
        map (frame_at fill longs tot ?slots) [offset..<offset + n]"
      "map (frame_at fill longs tot slots') [offset + n..<tot] =
        map (frame_at fill longs tot ?slots) [offset + n..<tot]"
      by (simp_all add: frame_at_def)
    moreover have "[offset..<tot] = [offset..<offset + n] @ [offset + n..<tot]"
      using upt_add_eq_append[of offset "offset + n" "tot - (offset + n)"] less by simp
    ultimately have "published r' = published r @ map (frame_at fill longs tot ?slots) [offset..<tot]"
      using r'(3) pub(2) by simp
    moreover have "hi + int (tot - (offset + n)) = claimed r + int (tot - offset)"
      using less by (simp add: hi_def)
    moreover have "publish_fragments rb check fill longs endSeq (Suc fuel) offset (r, p) =
        publish_fragments rb check fill longs endSeq fuel (offset + ?batch) (?r3, p)"
      using False step by simp
    ultimately show ?thesis using r'(1,2) by metis
  qed
qed

end
