(* ===== verification/Bytes_Codec.thy ===== *)
theory Bytes_Codec
  imports Prelude
begin

text \<open>
  Bytes in and out (\<open>common/VectorBytesIn\<close>, \<open>common/VectorBytesOut\<close>) and the generic
  (de)serialisers of \<open>utils/SerializationUtils\<close>. A reader takes the bytes that remain and
  returns a value with the bytes after it, or an exception; a writer is the list of bytes that it
  appends. The locales \<open>codec\<close> and \<open>exact_codec\<close> state the contract of a type that can be
  written and read back; the theories of the types interpret them.
\<close>

section \<open>Machine integers as bytes\<close>

type_synonym bytes = "8 word list"

text \<open>The \<open>n\<close> low bytes of an integer, the lowest first: what \<open>memcpy\<close> stores.\<close>

fun le_bytes :: "nat \<Rightarrow> int \<Rightarrow> bytes" where
  "le_bytes 0 x = []"
| "le_bytes (Suc n) x = word_of_int x # le_bytes n (x div 256)"

fun le_value :: "bytes \<Rightarrow> int" where
  "le_value [] = 0"
| "le_value (b # bs) = uint b + 256 * le_value bs"

text \<open>The two's complement value of \<open>n\<close> bytes that hold \<open>v\<close> as an unsigned number.\<close>

definition signed_value :: "nat \<Rightarrow> int \<Rightarrow> int" where
  "signed_value n v = (if v < 2 ^ (8 * n - 1) then v else v - 2 ^ (8 * n))"

definition fits :: "nat \<Rightarrow> int \<Rightarrow> bool" where
  "fits n x \<longleftrightarrow> - (2 ^ (8 * n - 1)) \<le> x \<and> x < 2 ^ (8 * n - 1)"

lemma length_le_bytes [simp]: "length (le_bytes n x) = n"
  by (induction n arbitrary: x) auto

lemma uint_byte: "uint (word_of_int x :: 8 word) = x mod 256"
  by (simp add: uint_word_of_int)

lemma le_value_le_bytes: "le_value (le_bytes n x) = x mod 256 ^ n"
proof (induction n arbitrary: x)
  case 0
  then show ?case by simp
next
  case (Suc n)
  have "x mod 256 + 256 * (x div 256 mod 256 ^ n) = x mod (256 * 256 ^ n)"
    by (simp add: zmod_zmult2_eq)
  with Suc show ?case by (simp add: uint_byte)
qed

lemma le_value_bounds: "0 \<le> le_value bs \<and> le_value bs < 256 ^ length bs"
proof (induction bs)
  case Nil
  then show ?case by simp
next
  case (Cons b bs)
  have "0 \<le> uint b" "uint b < 256" using uint_lt2p[of b] by simp_all
  with Cons show ?case by auto
qed

lemma le_bytes_le_value: "le_bytes (length bs) (le_value bs) = bs"
proof (induction bs)
  case Nil
  then show ?case by simp
next
  case (Cons b bs)
  have b: "0 \<le> uint b" "uint b < 256" using uint_lt2p[of b] by simp_all
  have "(uint b + 256 * le_value bs) div 256 = le_value bs" using b by simp
  moreover have "(uint b + 256 * le_value bs) mod 256 = uint b" using b by simp
  then have "(word_of_int (uint b + 256 * le_value bs) :: 8 word) = b"
    by (simp only: word_uint_eq_iff uint_byte)
  ultimately show ?case using Cons by simp
qed

lemma signed_value_mod:
  assumes "0 < n" and "fits n x"
  shows "signed_value n (x mod 256 ^ n) = x"
proof -
  obtain k where k: "8 * n = Suc k" using assms(1) by (metis gr0_implies_Suc mult_pos_pos zero_less_numeral)
  have "(2 :: int) ^ (8 * n) = (2 ^ 8) ^ n" by (rule power_mult)
  then have p: "(256 :: int) ^ n = 2 * 2 ^ k" "(2 :: int) ^ (8 * n) = 2 * 2 ^ k" "8 * n - 1 = k"
    using k by simp_all
  show ?thesis
  proof (cases "0 \<le> x")
    case True
    then have "x mod (2 * 2 ^ k) = x"
      using assms(2) p(3) by (intro mod_pos_pos_trivial) (auto simp: fits_def)
    then show ?thesis using assms(2) unfolding signed_value_def fits_def p by simp
  next
    case False
    then have "(x + 2 * 2 ^ k) mod (2 * 2 ^ k) = x + 2 * 2 ^ k"
      using assms(2) p(3) by (intro mod_pos_pos_trivial) (auto simp: fits_def)
    then have "x mod (2 * 2 ^ k) = x + 2 * 2 ^ k" by simp
    then show ?thesis using False assms(2) unfolding signed_value_def fits_def p by simp
  qed
qed

section \<open>Readers\<close>

type_synonym 'a reader = "bytes \<Rightarrow> exn + ('a \<times> bytes)"

definition returnR :: "'a \<Rightarrow> 'a reader" where
  "returnR x bs = Inr (x, bs)"

definition throwR :: "exn \<Rightarrow> 'a reader" where
  "throwR e bs = Inl e"

definition bindR :: "'a reader \<Rightarrow> ('a \<Rightarrow> 'b reader) \<Rightarrow> 'b reader" where
  "bindR r k bs = bindE (r bs) (\<lambda>(x, bs'). k x bs')"

text \<open>A step that may throw and reads nothing, as the decoding of an enumeration's code.\<close>

definition liftR :: "exn + 'a \<Rightarrow> 'a reader" where
  "liftR r bs = bindE r (\<lambda>x. Inr (x, bs))"

lemma reader_simps [simp]:
  "returnR x bs = Inr (x, bs)"
  "throwR e bs = Inl e"
  "liftR (Inr x) bs = Inr (x, bs)"
  "liftR (Inl e) bs = Inl e"
  by (simp_all add: returnR_def throwR_def liftR_def)

lemma bindR_Inr: "r bs = Inr (x, bs') \<Longrightarrow> bindR r k bs = k x bs'"
  by (simp add: bindR_def)

definition read_raw :: "nat \<Rightarrow> bytes reader" where
  "read_raw n bs =
     (if length bs < n then Inl (Runtime_Error ''VectorBytesIn: Read beyond end of data'')
      else Inr (take n bs, drop n bs))"

definition read_signed :: "nat \<Rightarrow> int reader" where
  "read_signed n = bindR (read_raw n) (\<lambda>bs. returnR (signed_value n (le_value bs)))"

definition read_byte :: "int reader" where
  "read_byte = read_signed 1"

definition read_int :: "int reader" where
  "read_int = read_signed 4"

definition read_long :: "int reader" where
  "read_long = read_signed 8"

definition read_boolean :: "bool reader" where
  "read_boolean = bindR (read_raw 1) (\<lambda>bs. returnR (bs \<noteq> [0]))"

definition write_byte :: "int \<Rightarrow> bytes" where
  "write_byte x = le_bytes 1 x"

definition write_int :: "int \<Rightarrow> bytes" where
  "write_int x = le_bytes 4 x"

definition write_long :: "int \<Rightarrow> bytes" where
  "write_long x = le_bytes 8 x"

definition write_boolean :: "bool \<Rightarrow> bytes" where
  "write_boolean b = [if b then 1 else 0]"

lemma read_raw_append [simp]: "length bs = n \<Longrightarrow> read_raw n (bs @ rest) = Inr (bs, rest)"
  by (simp add: read_raw_def)

lemma read_signed_le_bytes:
  "0 < n \<Longrightarrow> fits n x \<Longrightarrow> read_signed n (le_bytes n x @ rest) = Inr (x, rest)"
  by (simp add: read_signed_def bindR_def le_value_le_bytes signed_value_mod)

text \<open>
  \<open>VectorBytesOut\<close> writes at its position and grows the vector where that is needed. Written
  from an empty vector, it holds the writes one after the other.
\<close>

record vector_out =
  vo_data :: bytes
  vo_position :: nat

definition vo_write :: "bytes \<Rightarrow> vector_out \<Rightarrow> vector_out" where
  "vo_write bs out =
     (let pos = vo_position out; n = length bs;
          grown = vo_data out @ replicate (pos + n - length (vo_data out)) 0
      in \<lparr>vo_data = take pos grown @ bs @ drop (pos + n) grown, vo_position = pos + n\<rparr>)"

definition vo_written :: "vector_out \<Rightarrow> bytes" where
  "vo_written out = take (vo_position out) (vo_data out)"

lemma vo_write_appends:
  "vo_position out \<le> length (vo_data out) \<Longrightarrow>
   vo_written (vo_write bs out) = vo_written out @ bs \<and>
   vo_position (vo_write bs out) \<le> length (vo_data (vo_write bs out))"
  by (auto simp: vo_write_def vo_written_def Let_def)

lemma vo_writes_concat:
  "vo_position out \<le> length (vo_data out) \<Longrightarrow>
   vo_written (fold vo_write bss out) = vo_written out @ concat bss"
proof (induction bss arbitrary: out)
  case Nil
  then show ?case by simp
next
  case (Cons bs bss)
  with vo_write_appends[OF Cons.prems, of bs] show ?case by simp
qed

section \<open>Codecs\<close>

text \<open>
  What is written is read back: as a value in the relation \<open>same\<close> to the one written, with the
  bytes after it untouched.
\<close>

locale codec =
  fixes wr :: "'a \<Rightarrow> bytes" and rd :: "'b reader" and valid :: "'a \<Rightarrow> bool" and same :: "'a \<Rightarrow> 'b \<Rightarrow> bool"
  assumes reads: "valid x \<Longrightarrow> \<exists>y. rd (wr x @ rest) = Inr (y, rest) \<and> same x y"
begin

lemma reads_all: "valid x \<Longrightarrow> \<exists>y. rd (wr x) = Inr (y, []) \<and> same x y"
  using reads[of x "[]"] by simp

text \<open>Two values with the same bytes are read as the same value.\<close>

lemma same_bytes:
  assumes "valid x" and "valid x'" and "wr x = wr x'"
  shows "\<exists>y. same x y \<and> same x' y"
  using reads_all[OF assms(1)] reads_all[OF assms(2)] assms(3) by auto

end

locale exact_codec =
  fixes wr :: "'a \<Rightarrow> bytes" and rd :: "'a reader" and valid :: "'a \<Rightarrow> bool"
  assumes exact: "valid x \<Longrightarrow> rd (wr x @ rest) = Inr (x, rest)"
begin

lemma exact_all: "valid x \<Longrightarrow> rd (wr x) = Inr (x, [])"
  using exact[of x "[]"] by simp

text \<open>No encoding is a proper prefix of another one.\<close>

lemma prefix_free:
  assumes "valid x" and "valid x'" and "wr x' = wr x @ ds"
  shows "x' = x \<and> ds = []"
  using exact[OF assms(1), of ds] exact_all[OF assms(2)] assms(3) by simp

end

sublocale exact_codec \<subseteq> codec wr rd valid "(=)"
  by unfold_locales (simp add: exact)

interpretation byte_codec: exact_codec write_byte read_byte "fits 1"
  by unfold_locales (unfold write_byte_def read_byte_def, rule read_signed_le_bytes, simp_all)

interpretation int_codec: exact_codec write_int read_int "fits 4"
  by unfold_locales (simp add: write_int_def read_int_def read_signed_le_bytes)

interpretation long_codec: exact_codec write_long read_long "fits 8"
  by unfold_locales (simp add: write_long_def read_long_def read_signed_le_bytes)

interpretation boolean_codec: exact_codec write_boolean read_boolean "\<lambda>_. True"
  by unfold_locales (simp add: write_boolean_def read_boolean_def read_raw_def bindR_def)

named_theorems codec_simps "what a written value is read back as"

lemmas primitive_codec_simps [codec_simps] =
  byte_codec.exact int_codec.exact long_codec.exact boolean_codec.exact

section \<open>Loops and maps\<close>

text \<open>\<open>for (int i = 0; i < n; i++)\<close> around a step that reads and changes a state.\<close>

fun read_loop :: "nat \<Rightarrow> ('s \<Rightarrow> 's reader) \<Rightarrow> 's \<Rightarrow> 's reader" where
  "read_loop 0 step s = returnR s"
| "read_loop (Suc n) step s = bindR (step s) (read_loop n step)"

lemma read_loop_ok:
  assumes step: "\<And>past x todo s rest. xs = past @ x # todo \<Longrightarrow> I past s \<Longrightarrow>
      \<exists>s'. step s (w x @ rest) = Inr (s', rest) \<and> I (past @ [x]) s'"
    and init: "I [] s"
  shows "\<exists>s'. read_loop (length xs) step s (concat (map w xs) @ rest) = Inr (s', rest) \<and> I xs s'"
proof -
  have "\<exists>s'. read_loop (length todo) step s (concat (map w todo) @ rest) = Inr (s', rest) \<and> I xs s'"
    if "xs = past @ todo" and "I past s" for past todo s
    using that
  proof (induction todo arbitrary: past s)
    case Nil
    then show ?case by simp
  next
    case (Cons x todo)
    obtain s' where s': "step s (w x @ concat (map w todo) @ rest) = Inr (s', concat (map w todo) @ rest)"
      "I (past @ [x]) s'"
      using step[OF Cons.prems] by blast
    with Cons.IH[of "past @ [x]" s'] Cons.prems(1) show ?case by (simp add: bindR_Inr)
  qed
  from this[of "[]"] init show ?thesis by simp
qed

text \<open>
  A map is written as its size and its entries. Reading stores every entry under its key; the
  \<open>Read...HashMap\<close> functions reserve the size first, which throws for a negative one, while the
  loops written out in the constructors do nothing then.
\<close>

definition write_map :: "('k \<Rightarrow> bytes) \<Rightarrow> ('v \<Rightarrow> bytes) \<Rightarrow> ('k \<times> 'v) list \<Rightarrow> bytes" where
  "write_map wk wv m = write_int (int (length m)) @ concat (map (\<lambda>(k, v). wk k @ wv v) m)"

definition read_entry :: "'k reader \<Rightarrow> 'v reader \<Rightarrow> ('k, 'v) umap \<Rightarrow> ('k, 'v) umap reader" where
  "read_entry rk rv m = bindR rk (\<lambda>k. bindR rv (\<lambda>v. returnR (um_put k v m)))"

definition read_map :: "'k reader \<Rightarrow> 'v reader \<Rightarrow> ('k, 'v) umap reader" where
  "read_map rk rv = bindR read_int (\<lambda>n. read_loop (nat n) (read_entry rk rv) [])"

definition read_reserved_map :: "'k reader \<Rightarrow> 'v reader \<Rightarrow> ('k, 'v) umap reader" where
  "read_reserved_map rk rv = bindR read_int (\<lambda>n.
     if n < 0 then throwR (Runtime_Error ''reserve'')
     else read_loop (nat n) (read_entry rk rv) [])"

lemma um_put_new: "k \<notin> fst ` set m \<Longrightarrow> um_put k v m = m @ [(k, v)]"
  by (induction m) auto

text \<open>Copying entries into an empty hash map.\<close>

definition to_umap :: "('k \<times> 'v) list \<Rightarrow> ('k, 'v) umap" where
  "to_umap es = fold (\<lambda>(k, v). um_put k v) es []"

lemma to_umap_id: "distinct (map fst es) \<Longrightarrow> to_umap es = es"
proof -
  have "fold (\<lambda>(k, v). um_put k v) es acc = acc @ es" if "distinct (map fst (acc @ es))" for acc :: "('a, 'b) umap"
    using that
  proof (induction es arbitrary: acc)
    case (Cons e es)
    then show ?case by (cases e) (auto simp: um_put_new)
  qed simp
  from this[of "[]"] show "distinct (map fst es) \<Longrightarrow> to_umap es = es" by (simp add: to_umap_def)
qed

definition same_map :: "('v \<Rightarrow> 'w \<Rightarrow> bool) \<Rightarrow> ('k \<times> 'v) list \<Rightarrow> ('k \<times> 'w) list \<Rightarrow> bool" where
  "same_map same = list_all2 (\<lambda>(k, v) (k', v'). k = k' \<and> same v v')"

lemma same_map_keys: "same_map same m m' \<Longrightarrow> map fst m' = map fst m"
  unfolding same_map_def by (induction rule: list_all2_induct) auto

lemma same_map_eq [simp]: "same_map (=) m m' \<longleftrightarrow> m = m'"
proof -
  have "same_map (=) m m' = list_all2 (=) m m'"
    unfolding same_map_def by (rule arg_cong[of _ _ "\<lambda>R. list_all2 R m m'"]) (auto simp: fun_eq_iff)
  then show ?thesis by (simp add: list.rel_eq)
qed

lemma same_map_find:
  "same_map same m m' \<Longrightarrow> rel_option same (um_find m k) (um_find m' k)"
  unfolding same_map_def by (induction rule: list_all2_induct) auto

text \<open>The codec of a map from those of its keys and values.\<close>

definition valid_map :: "('k \<Rightarrow> bool) \<Rightarrow> ('v \<Rightarrow> bool) \<Rightarrow> ('k \<times> 'v) list \<Rightarrow> bool" where
  "valid_map vk vv m \<longleftrightarrow>
     distinct (map fst m) \<and> length m < 2 ^ 31 \<and> (\<forall>(k, v) \<in> set m. vk k \<and> vv v)"

locale map_codec = key: exact_codec wk rk vk + val: codec wv rv vv same
  for wk :: "'k \<Rightarrow> bytes" and rk :: "'k reader" and vk :: "'k \<Rightarrow> bool"
    and wv :: "'v \<Rightarrow> bytes" and rv :: "'w reader" and vv :: "'v \<Rightarrow> bool"
    and same :: "'v \<Rightarrow> 'w \<Rightarrow> bool"
begin

lemma read_entries:
  assumes v: "valid_map vk vv m"
  shows "\<exists>m'. read_loop (length m) (read_entry rk rv) []
      (concat (map (\<lambda>(k, v). wk k @ wv v) m) @ rest) = Inr (m', rest) \<and> same_map same m m'"
proof (rule read_loop_ok)
  show "same_map same [] []" by (simp add: same_map_def)
next
  fix past x todo s rest
  assume m: "m = past @ x # todo" and s: "same_map same past s"
  obtain k w where x: "x = (k, w)" by (cases x)
  have kw: "vk k" "vv w" "k \<notin> fst ` set past"
    using v m x by (auto simp: valid_map_def)
  obtain w' where w': "rv (wv w @ rest) = Inr (w', rest)" "same w w'"
    using val.reads[OF kw(2)] by blast
  have "k \<notin> fst ` set s"
    using kw(3) same_map_keys[OF s] by (metis list.set_map)
  then have "um_put k w' s = s @ [(k, w')]" by (rule um_put_new)
  moreover have "same_map same (past @ [x]) (s @ [(k, w')])"
    using s w'(2) x by (simp add: same_map_def list_all2_appendI)
  ultimately show "\<exists>s'. read_entry rk rv s ((\<lambda>(k, v). wk k @ wv v) x @ rest) = Inr (s', rest) \<and>
      same_map same (past @ [x]) s'"
    using w'(1) kw(1) x by (simp add: read_entry_def bindR_def key.exact)
qed

lemma read_map_written:
  assumes v: "valid_map vk vv m"
  shows "\<exists>m'. read_map rk rv (write_map wk wv m @ rest) = Inr (m', rest) \<and> same_map same m m'"
    and "\<exists>m'. read_reserved_map rk rv (write_map wk wv m @ rest) = Inr (m', rest) \<and> same_map same m m'"
proof -
  have "fits 4 (int (length m))" using v by (simp add: valid_map_def fits_def)
  then show "\<exists>m'. read_map rk rv (write_map wk wv m @ rest) = Inr (m', rest) \<and> same_map same m m'"
    "\<exists>m'. read_reserved_map rk rv (write_map wk wv m @ rest) = Inr (m', rest) \<and> same_map same m m'"
    using read_entries[OF v]
    by (simp_all add: read_map_def read_reserved_map_def write_map_def bindR_def int_codec.exact)
qed

end

sublocale map_codec \<subseteq> codec "write_map wk wv" "read_map rk rv" "valid_map vk vv" "same_map same"
  by unfold_locales (rule read_map_written(1))

locale exact_map_codec = key: exact_codec wk rk vk + val: exact_codec wv rv vv
  for wk :: "'k \<Rightarrow> bytes" and rk :: "'k reader" and vk :: "'k \<Rightarrow> bool"
    and wv :: "'v \<Rightarrow> bytes" and rv :: "'v reader" and vv :: "'v \<Rightarrow> bool"

sublocale exact_map_codec \<subseteq> map_codec wk rk vk wv rv vv "(=)"
  by unfold_locales

context exact_map_codec
begin

lemma exact_map:
  "valid_map vk vv m \<Longrightarrow> read_map rk rv (write_map wk wv m @ rest) = Inr (m, rest)"
  "valid_map vk vv m \<Longrightarrow> read_reserved_map rk rv (write_map wk wv m @ rest) = Inr (m, rest)"
  using read_map_written[of m rest] by auto

end

interpretation long_map_codec: exact_map_codec write_int read_int "fits 4" write_long read_long "fits 8"
  by unfold_locales

end
