(* ===== verification/Serialization.thy ===== *)
theory Serialization
  imports Bytes_Codec Risk_Engine
begin

text \<open>
  The \<open>WriteMarshallable\<close> methods and the constructors from \<open>BytesIn\<close> of the state of the risk
  engine: symbol specifications, orders, positions, profiles, transfers, last prices, and the
  engine with its maps. The predicates \<open>..._fits\<close> say that every number is one its C++ field can
  hold and that a map has one entry per key; each format is an \<open>exact_codec\<close> on them.
\<close>

section \<open>Orders and symbol specifications\<close>

definition write_order :: "order \<Rightarrow> bytes" where
  "write_order ord =
     write_long (ord_orderId ord) @ write_long (ord_price ord) @ write_long (ord_size ord) @
     write_long (ord_filled ord) @ write_long (ord_reserveBidPrice ord) @
     write_byte (order_action_to_code (ord_action ord)) @
     write_long (ord_uid ord) @ write_long (ord_timestamp ord)"

definition read_order :: "order reader" where
  "read_order =
     bindR read_long (\<lambda>orderId. bindR read_long (\<lambda>price. bindR read_long (\<lambda>sz.
     bindR read_long (\<lambda>filled. bindR read_long (\<lambda>reserveBidPrice. bindR read_byte (\<lambda>code.
     bindR (liftR (order_action_from_code code)) (\<lambda>action.
     bindR read_long (\<lambda>uid. bindR read_long (\<lambda>timestamp.
       returnR \<lparr>ord_orderId = orderId, ord_price = price, ord_size = sz, ord_filled = filled,
         ord_reserveBidPrice = reserveBidPrice, ord_action = action, ord_uid = uid,
         ord_timestamp = timestamp\<rparr>)))))))))"

definition order_fits :: "order \<Rightarrow> bool" where
  "order_fits ord \<longleftrightarrow> fits 8 (ord_orderId ord) \<and> fits 8 (ord_price ord) \<and> fits 8 (ord_size ord) \<and>
     fits 8 (ord_filled ord) \<and> fits 8 (ord_reserveBidPrice ord) \<and> fits 8 (ord_uid ord) \<and>
     fits 8 (ord_timestamp ord)"

lemma order_action_code_fits [simp]: "fits (Suc 0) (order_action_to_code a)"
  by (cases a) (simp_all add: fits_def)

lemma symbol_type_code_fits [simp]: "fits (Suc 0) (symbol_type_to_code t)"
  by (cases t) (simp_all add: fits_def)

lemma multiplier_fits [simp]: "fits (Suc 0) (get_multiplier d)"
  by (cases d) (simp_all add: fits_def)

lemma user_status_code_fits [simp]: "fits (Suc 0) (user_status_to_code s)"
  by (cases s) (simp_all add: fits_def)

lemmas code_roundtrips = order_action_code_roundtrip order_type_code_roundtrip
  symbol_type_code_roundtrip position_direction_code_roundtrip user_status_code_roundtrip

lemmas reads_simps = bindR_def codec_simps code_roundtrips

interpretation order_codec: exact_codec write_order read_order order_fits
  by unfold_locales
    (simp add: write_order_def read_order_def order_fits_def reads_simps
       del: order_action_from_code.simps)

definition write_symbol_spec :: "symbol_spec \<Rightarrow> bytes" where
  "write_symbol_spec sp =
     write_int (sp_symbolId sp) @ write_byte (symbol_type_to_code (sp_type sp)) @
     write_int (sp_baseCurrency sp) @ write_int (sp_quoteCurrency sp) @
     write_long (sp_baseScaleK sp) @ write_long (sp_quoteScaleK sp) @
     write_long (sp_takerFee sp) @ write_long (sp_makerFee sp) @
     write_long (sp_marginBuy sp) @ write_long (sp_marginSell sp)"

definition read_symbol_spec :: "symbol_spec reader" where
  "read_symbol_spec =
     bindR read_int (\<lambda>symbolId. bindR read_byte (\<lambda>code.
     bindR (liftR (symbol_type_from_code code)) (\<lambda>ty.
     bindR read_int (\<lambda>baseCurrency. bindR read_int (\<lambda>quoteCurrency.
     bindR read_long (\<lambda>baseScaleK. bindR read_long (\<lambda>quoteScaleK.
     bindR read_long (\<lambda>takerFee. bindR read_long (\<lambda>makerFee.
     bindR read_long (\<lambda>marginBuy. bindR read_long (\<lambda>marginSell.
       returnR \<lparr>sp_symbolId = symbolId, sp_type = ty, sp_baseCurrency = baseCurrency,
         sp_quoteCurrency = quoteCurrency, sp_baseScaleK = baseScaleK, sp_quoteScaleK = quoteScaleK,
         sp_takerFee = takerFee, sp_makerFee = makerFee, sp_marginBuy = marginBuy,
         sp_marginSell = marginSell\<rparr>)))))))))))"

definition symbol_spec_fits :: "symbol_spec \<Rightarrow> bool" where
  "symbol_spec_fits sp \<longleftrightarrow> fits 4 (sp_symbolId sp) \<and> fits 4 (sp_baseCurrency sp) \<and>
     fits 4 (sp_quoteCurrency sp) \<and> fits 8 (sp_baseScaleK sp) \<and> fits 8 (sp_quoteScaleK sp) \<and>
     fits 8 (sp_takerFee sp) \<and> fits 8 (sp_makerFee sp) \<and> fits 8 (sp_marginBuy sp) \<and>
     fits 8 (sp_marginSell sp)"

interpretation symbol_spec_codec: exact_codec write_symbol_spec read_symbol_spec symbol_spec_fits
  by unfold_locales
    (simp add: write_symbol_spec_def read_symbol_spec_def symbol_spec_fits_def reads_simps
       del: symbol_type_from_code.simps)

interpretation symbol_provider_codec: exact_map_codec
  write_int read_int "fits 4" write_symbol_spec read_symbol_spec symbol_spec_fits
  by unfold_locales

section \<open>Positions, profiles and last prices\<close>

definition write_position :: "position \<Rightarrow> bytes" where
  "write_position p =
     write_int (ps_symbol p) @ write_int (ps_currency p) @
     write_byte (get_multiplier (ps_direction p)) @
     write_long (ps_openVolume p) @ write_long (ps_openPriceSum p) @ write_long (ps_profit p) @
     write_long (ps_pendingSellSize p) @ write_long (ps_pendingBuySize p)"

definition read_position :: "int \<Rightarrow> position reader" where
  "read_position uid =
     bindR read_int (\<lambda>symbol. bindR read_int (\<lambda>currency. bindR read_byte (\<lambda>code.
     bindR (liftR (position_direction_from_code code)) (\<lambda>direction.
     bindR read_long (\<lambda>openVolume. bindR read_long (\<lambda>openPriceSum. bindR read_long (\<lambda>profit.
     bindR read_long (\<lambda>pendingSellSize. bindR read_long (\<lambda>pendingBuySize.
       returnR \<lparr>ps_uid = uid, ps_symbol = symbol, ps_currency = currency,
         ps_direction = direction, ps_openVolume = openVolume, ps_openPriceSum = openPriceSum,
         ps_profit = profit, ps_pendingSellSize = pendingSellSize,
         ps_pendingBuySize = pendingBuySize\<rparr>)))))))))"

definition position_fits :: "int \<Rightarrow> position \<Rightarrow> bool" where
  "position_fits uid p \<longleftrightarrow> ps_uid p = uid \<and> fits 4 (ps_symbol p) \<and> fits 4 (ps_currency p) \<and>
     fits 8 (ps_openVolume p) \<and> fits 8 (ps_openPriceSum p) \<and> fits 8 (ps_profit p) \<and>
     fits 8 (ps_pendingSellSize p) \<and> fits 8 (ps_pendingBuySize p)"

interpretation position_codec: exact_codec write_position "read_position uid" "position_fits uid" for uid
  by unfold_locales
    (auto simp: write_position_def read_position_def position_fits_def reads_simps
       simp del: position_direction_from_code.simps)

interpretation positions_codec: exact_map_codec
  write_int read_int "fits 4" write_position "read_position uid" "position_fits uid" for uid
  by unfold_locales

definition write_user_profile :: "user_profile \<Rightarrow> bytes" where
  "write_user_profile up =
     write_long (up_uid up) @ write_map write_int write_position (up_positions up) @
     write_long (up_adjustmentsCounter up) @ write_map write_int write_long (up_accounts up) @
     write_byte (user_status_to_code (up_userStatus up))"

definition read_user_profile :: "user_profile reader" where
  "read_user_profile =
     bindR read_long (\<lambda>uid. bindR (read_map read_int (read_position uid)) (\<lambda>positions.
     bindR read_long (\<lambda>adjustmentsCounter. bindR (read_reserved_map read_int read_long) (\<lambda>accounts.
     bindR read_byte (\<lambda>code. bindR (liftR (user_status_from_code code)) (\<lambda>status.
       returnR \<lparr>up_uid = uid, up_positions = positions, up_adjustmentsCounter = adjustmentsCounter,
         up_accounts = accounts, up_userStatus = status\<rparr>))))))"

definition user_profile_fits :: "user_profile \<Rightarrow> bool" where
  "user_profile_fits up \<longleftrightarrow> fits 8 (up_uid up) \<and>
     valid_map (fits 4) (position_fits (up_uid up)) (up_positions up) \<and>
     fits 8 (up_adjustmentsCounter up) \<and> valid_map (fits 4) (fits 8) (up_accounts up)"

interpretation user_profile_codec: exact_codec write_user_profile read_user_profile user_profile_fits
  by unfold_locales
    (simp add: write_user_profile_def read_user_profile_def user_profile_fits_def reads_simps
       positions_codec.exact_map long_map_codec.exact_map del: user_status_from_code.simps)

interpretation user_service_codec: exact_map_codec
  write_long read_long "fits 8" write_user_profile read_user_profile user_profile_fits
  by unfold_locales

definition write_last_price :: "last_price \<Rightarrow> bytes" where
  "write_last_price lp = write_long (lp_askPrice lp) @ write_long (lp_bidPrice lp)"

definition read_last_price :: "last_price reader" where
  "read_last_price =
     bindR read_long (\<lambda>ask. bindR read_long (\<lambda>bid. returnR \<lparr>lp_askPrice = ask, lp_bidPrice = bid\<rparr>))"

definition last_price_fits :: "last_price \<Rightarrow> bool" where
  "last_price_fits lp \<longleftrightarrow> fits 8 (lp_askPrice lp) \<and> fits 8 (lp_bidPrice lp)"

interpretation last_price_codec: exact_codec write_last_price read_last_price last_price_fits
  by unfold_locales (simp add: write_last_price_def read_last_price_def last_price_fits_def reads_simps)

interpretation last_price_cache_codec: exact_map_codec
  write_int read_int "fits 4" write_last_price read_last_price last_price_fits
  by unfold_locales

section \<open>Transfers in progress\<close>

lemma fits_size: "n < 2147483648 \<Longrightarrow> fits 4 (int n)"
  by (simp add: fits_def)

definition write_long_array :: "int list \<Rightarrow> bytes" where
  "write_long_array longs = write_int (int (length longs)) @ concat (map write_long longs)"

definition read_long_array :: "int list reader" where
  "read_long_array = bindR read_int (\<lambda>n.
     if n < 0 then throwR (Runtime_Error ''reserve'')
     else read_loop (nat n) (\<lambda>ws. bindR read_long (\<lambda>w. returnR (ws @ [w]))) [])"

definition long_array_fits :: "int list \<Rightarrow> bool" where
  "long_array_fits longs \<longleftrightarrow> length longs < 2 ^ 31 \<and> list_all (fits 8) longs"

interpretation long_array_codec: exact_codec write_long_array read_long_array long_array_fits
proof
  fix longs rest assume f: "long_array_fits longs"
  have "\<exists>s'. read_loop (length longs) (\<lambda>ws. bindR read_long (\<lambda>w. returnR (ws @ [w]))) []
      (concat (map write_long longs) @ rest) = Inr (s', rest) \<and> s' = longs"
  proof (rule read_loop_ok)
    fix past x todo s rest'
    assume "longs = past @ x # todo" and "s = past"
    with f show "\<exists>s'. bindR read_long (\<lambda>w. returnR (s @ [w])) (write_long x @ rest') = Inr (s', rest') \<and>
        s' = past @ [x]"
      by (simp add: long_array_fits_def reads_simps)
  qed simp
  moreover have "fits 4 (int (length longs))" using f by (simp add: long_array_fits_def fits_size)
  ultimately show "read_long_array (write_long_array longs @ rest) = Inr (longs, rest)"
    by (simp add: read_long_array_def write_long_array_def reads_simps)
qed

definition write_transfer :: "transfer_record \<Rightarrow> bytes" where
  "write_transfer tr =
     write_int (int (tr_wordsTransferred tr)) @ write_long_array (tr_dataArray tr)"

definition read_transfer :: "transfer_record reader" where
  "read_transfer = bindR read_int (\<lambda>n. bindR read_long_array (\<lambda>arr.
     returnR \<lparr>tr_dataArray = arr, tr_wordsTransferred = nat n\<rparr>))"

definition transfer_fits :: "transfer_record \<Rightarrow> bool" where
  "transfer_fits tr \<longleftrightarrow> long_array_fits (tr_dataArray tr) \<and> tr_wordsTransferred tr < 2 ^ 31"

interpretation transfer_codec: exact_codec write_transfer read_transfer transfer_fits
  by unfold_locales
    (simp add: write_transfer_def read_transfer_def transfer_fits_def reads_simps
       long_array_codec.exact fits_size)

interpretation incoming_codec: exact_map_codec
  write_long read_long "fits 8" write_transfer read_transfer transfer_fits
  by unfold_locales

section \<open>The risk engine\<close>

definition write_risk_engine :: "risk_engine \<Rightarrow> bytes" where
  "write_risk_engine re =
     write_int (re_shardId re) @ write_long (re_shardMask re) @
     write_map write_int write_symbol_spec (re_symbolSpecs re) @
     write_map write_long write_user_profile (re_userProfiles re) @
     write_map write_long write_transfer (re_incomingData re) @
     write_map write_int write_last_price (re_lastPriceCache re) @
     write_map write_int write_long (re_fees re) @
     write_map write_int write_long (re_adjustments re) @
     write_map write_int write_long (re_suspends re)"

text \<open>
  Loading into an engine that was constructed for a shard: the shard in the snapshot must be its
  own, and the configuration flags are the constructor's.
\<close>

definition read_risk_engine :: "risk_engine \<Rightarrow> risk_engine reader" where
  "read_risk_engine re0 =
     bindR read_int (\<lambda>shardId. if re_shardId re0 \<noteq> shardId then throwR (Runtime_Error ''wrong shardId'') else
     bindR read_long (\<lambda>mask. if re_shardMask re0 \<noteq> mask then throwR (Runtime_Error ''wrong shardMask'') else
     bindR (read_map read_int read_symbol_spec) (\<lambda>specs.
     bindR (read_map read_long read_user_profile) (\<lambda>profiles.
     bindR (read_map read_long read_transfer) (\<lambda>incoming.
     bindR (read_map read_int read_last_price) (\<lambda>prices.
     bindR (read_reserved_map read_int read_long) (\<lambda>fees.
     bindR (read_reserved_map read_int read_long) (\<lambda>adjustments.
     bindR (read_reserved_map read_int read_long) (\<lambda>suspends.
       returnR (re0\<lparr>re_symbolSpecs := specs, re_userProfiles := profiles,
         re_incomingData := incoming, re_lastPriceCache := prices, re_fees := fees,
         re_adjustments := adjustments, re_suspends := suspends\<rparr>))))))))))"

definition risk_engine_fits :: "risk_engine \<Rightarrow> bool" where
  "risk_engine_fits re \<longleftrightarrow> fits 4 (re_shardId re) \<and> fits 8 (re_shardMask re) \<and>
     valid_map (fits 4) symbol_spec_fits (re_symbolSpecs re) \<and>
     valid_map (fits 8) user_profile_fits (re_userProfiles re) \<and>
     valid_map (fits 8) transfer_fits (re_incomingData re) \<and>
     valid_map (fits 4) last_price_fits (re_lastPriceCache re) \<and>
     valid_map (fits 4) (fits 8) (re_fees re) \<and>
     valid_map (fits 4) (fits 8) (re_adjustments re) \<and>
     valid_map (fits 4) (fits 8) (re_suspends re)"

lemmas snapshot_simps = bindR_def codec_simps long_map_codec.exact_map
  symbol_provider_codec.exact_map user_service_codec.exact_map incoming_codec.exact_map
  last_price_cache_codec.exact_map

text \<open>The configuration of the engine that loads is that of the engine that was saved.\<close>

definition same_config :: "risk_engine \<Rightarrow> risk_engine \<Rightarrow> bool" where
  "same_config re0 re \<longleftrightarrow> re_shardId re0 = re_shardId re \<and> re_shardMask re0 = re_shardMask re \<and>
     re_cfgIgnoreRiskProcessing re0 = re_cfgIgnoreRiskProcessing re \<and>
     re_cfgMarginTradingEnabled re0 = re_cfgMarginTradingEnabled re"

interpretation risk_engine_codec: exact_codec
  write_risk_engine "read_risk_engine re0" "\<lambda>re. risk_engine_fits re \<and> same_config re0 re" for re0
proof
  fix re rest assume "risk_engine_fits re \<and> same_config re0 re"
  then show "read_risk_engine re0 (write_risk_engine re @ rest) = Inr (re, rest)"
    by (cases re, cases re0)
      (simp add: write_risk_engine_def read_risk_engine_def risk_engine_fits_def same_config_def
         snapshot_simps)
qed

lemma risk_engine_of_other_shard:
  assumes "risk_engine_fits re" and "re_shardId re0 \<noteq> re_shardId re \<or> re_shardMask re0 \<noteq> re_shardMask re"
  shows "\<exists>e. read_risk_engine re0 (write_risk_engine re) = Inl e"
  using assms
  by (auto simp: write_risk_engine_def read_risk_engine_def risk_engine_fits_def snapshot_simps)

end
