(* ===== verification/Long_Arrays.thy ===== *)
theory Long_Arrays
  imports Serialization
begin

text \<open>
  Bytes as arrays of 64-bit words (\<open>utils/SerializationUtils\<close>), with and without LZ4, and the
  binary messages that travel in them (\<open>api/binary\<close>). LZ4 is a library: its functions are the
  parameter \<open>lz\<close>, and \<open>lz4_ok\<close> states what its documentation promises of them.
\<close>

section \<open>LZ4\<close>

text \<open>
  \<open>LZ4_compress_default\<close> into a buffer of \<open>LZ4_compressBound\<close> bytes (\<open>None\<close>: not a positive
  size), \<open>LZ4_decompress_safe\<close> with the size of the target, and \<open>LZ4_decompress_safe_partial\<close>
  with the wanted size, whose source may be longer than the block.
\<close>

record lz4 =
  lz_compress :: "bytes \<Rightarrow> bytes option"
  lz_decompress :: "bytes \<Rightarrow> nat \<Rightarrow> bytes option"
  lz_partial :: "bytes \<Rightarrow> nat \<Rightarrow> bytes option"

definition lz_compress_bound :: "nat \<Rightarrow> nat" where
  "lz_compress_bound n = n + n div 255 + 16"

text \<open>
  A block of a non-empty input is not longer than the bound, begins with a token that counts at
  least one literal in its high half, and is decompressed to the input.
\<close>

definition lz4_ok :: "lz4 \<Rightarrow> bool" where
  "lz4_ok lz \<longleftrightarrow> (\<forall>bs. bs \<noteq> [] \<longrightarrow> length bs \<le> 2113929216 \<longrightarrow>
     (\<exists>c. lz_compress lz bs = Some c \<and> length c \<le> lz_compress_bound (length bs) \<and>
        c \<noteq> [] \<and> 16 \<le> uint (hd c) \<and> lz_decompress lz c (length bs) = Some bs \<and>
        (\<forall>pad. lz_partial lz (c @ pad) (length bs) = Some bs)))"

lemma lz4_okD:
  assumes "lz4_ok lz" and "bs \<noteq> []" and "length bs \<le> 2113929216"
  obtains c where "lz_compress lz bs = Some c" "length c \<le> lz_compress_bound (length bs)" "c \<noteq> []"
    "16 \<le> uint (hd c)" "lz_decompress lz c (length bs) = Some bs" "\<And>pad. lz_partial lz (c @ pad) (length bs) = Some bs"
  using assms unfolding lz4_ok_def by blast

section \<open>Arrays of words\<close>

text \<open>\<open>RequiredLongArraySize\<close> of \<open>SerializationUtils\<close>, without and with padding.\<close>

definition required_longs :: "int \<Rightarrow> int" where
  "required_longs bytesLength = (bytesLength - 1) div 8 + 1"

definition required_longs_padded :: "int \<Rightarrow> int \<Rightarrow> int" where
  "required_longs_padded bytesLength padding =
     (let len = required_longs bytesLength
      in if padding = 1 then len
         else let rem = len mod padding in if rem = 0 then len else len + padding - rem)"

text \<open>\<open>memcpy\<close> of bytes into an array of \<open>n\<close> zeroed words, and back.\<close>

fun words_of :: "nat \<Rightarrow> bytes \<Rightarrow> int list" where
  "words_of 0 bs = []"
| "words_of (Suc n) bs = signed_value 8 (le_value (take 8 bs)) # words_of n (drop 8 bs)"

definition bytes_to_longs :: "nat \<Rightarrow> bytes \<Rightarrow> int list" where
  "bytes_to_longs n bs = words_of n (bs @ replicate (8 * n - length bs) 0)"

definition longs_to_bytes :: "int list \<Rightarrow> bytes" where
  "longs_to_bytes longs = concat (map (le_bytes 8) longs)"

definition bytes_to_long_array :: "bytes \<Rightarrow> int \<Rightarrow> int list" where
  "bytes_to_long_array bs padding =
     bytes_to_longs (nat (required_longs_padded (int (length bs)) padding)) bs"

lemma length_words_of [simp]: "length (words_of n bs) = n"
  by (induction n arbitrary: bs) auto

lemma length_longs_to_bytes [simp]: "length (longs_to_bytes ws) = 8 * length ws"
  by (induction ws) (simp_all add: longs_to_bytes_def)

lemma le_bytes_mod: "le_bytes n (x mod 256 ^ n) = le_bytes n x"
proof -
  have "le_bytes n (le_value (le_bytes n x)) = le_bytes n x"
    using le_bytes_le_value[of "le_bytes n x"] by simp
  then show ?thesis by (simp add: le_value_le_bytes)
qed

lemma le_bytes_signed:
  assumes "length bs = 8" shows "le_bytes 8 (signed_value 8 (le_value bs)) = bs"
proof -
  have "signed_value 8 (le_value bs) mod 256 ^ 8 = le_value bs"
    using le_value_bounds[of bs] assms by (auto simp: signed_value_def)
  then show ?thesis using le_bytes_mod[of 8 "signed_value 8 (le_value bs)"] le_bytes_le_value[of bs] assms by simp
qed

lemma longs_to_bytes_words: "length bs = 8 * n \<Longrightarrow> longs_to_bytes (words_of n bs) = bs"
proof (induction n arbitrary: bs)
  case (Suc n)
  then have "longs_to_bytes (words_of n (drop 8 bs)) = drop 8 bs" by simp
  then show ?case using Suc.prems le_bytes_signed[of "take 8 bs"] by (simp add: longs_to_bytes_def)
qed (simp add: longs_to_bytes_def)

lemma longs_to_bytes_of:
  "length bs \<le> 8 * n \<Longrightarrow> longs_to_bytes (bytes_to_longs n bs) = bs @ replicate (8 * n - length bs) 0"
  by (simp add: bytes_to_longs_def longs_to_bytes_words)

lemma required_longs_enough: "0 \<le> len \<Longrightarrow> len \<le> 8 * required_longs len"
  unfolding required_longs_def by presburger

lemma required_longs_padded_bounds:
  assumes "0 < len" and "0 < padding"
  shows "len \<le> 8 * required_longs_padded len padding" and "padding dvd required_longs_padded len padding"
    and "0 < required_longs_padded len padding"
proof -
  let ?n = "required_longs len"
  have n: "len \<le> 8 * ?n" "0 < ?n" using required_longs_enough[of len] assms by linarith+
  have m: "0 \<le> ?n mod padding" "?n mod padding < padding" using assms by simp_all
  have "padding dvd ?n + padding - ?n mod padding"
    using assms by (metis add_diff_eq dvd_add_right_iff dvd_minus_mod dvd_refl add.commute)
  then show "padding dvd required_longs_padded len padding"
    by (auto simp: required_longs_padded_def Let_def)
  have ge: "?n \<le> required_longs_padded len padding" using m by (simp add: required_longs_padded_def Let_def)
  with n show "len \<le> 8 * required_longs_padded len padding" "0 < required_longs_padded len padding" by linarith+
qed

section \<open>Compressed arrays\<close>

definition bytes_to_long_array_lz4 :: "lz4 \<Rightarrow> bytes \<Rightarrow> int \<Rightarrow> exn + int list" where
  "bytes_to_long_array_lz4 lz bs padding =
     (case lz_compress lz bs of
        None \<Rightarrow> Inl (Runtime_Error ''LZ4 compression failed'')
      | Some c \<Rightarrow> let buffer = le_bytes 4 (int (length bs)) @ c
                  in Inr (bytes_to_longs (nat (required_longs_padded (int (length buffer)) padding)) buffer))"

text \<open>
  The copy of the words reads out of bounds when there are fewer than \<open>longsTransferred\<close>, and the
  read of the size when there are none; the allocation throws for a negative size.
\<close>

definition longs_lz4_to_bytes :: "lz4 \<Rightarrow> int list \<Rightarrow> nat \<Rightarrow> exn + bytes" where
  "longs_lz4_to_bytes lz dataArray longsTransferred =
     (if longsTransferred > length dataArray \<or> longsTransferred = 0 then Inl Out_Of_Bounds
      else let compressed = longs_to_bytes (take longsTransferred dataArray);
               originalSize = signed_value 4 (le_value (take 4 compressed))
           in if originalSize < 0 then Inl (Runtime_Error ''cannot create std::vector'')
              else case lz_partial lz (drop 4 compressed) (nat originalSize) of
                     None \<Rightarrow> Inl (Runtime_Error ''LZ4 decompression failed'')
                   | Some bs \<Rightarrow> if length bs = nat originalSize then Inr bs
                                else Inl (Runtime_Error ''LZ4 decompression failed''))"

lemma lz4_array_roundtrip:
  assumes lz: "lz4_ok lz" and bs: "bs \<noteq> []" "length bs \<le> 2113929216" and padding: "0 < padding"
  obtains longs c where "bytes_to_long_array_lz4 lz bs padding = Inr longs" "longs \<noteq> []" "padding dvd int (length longs)"
    "\<And>more. longs_lz4_to_bytes lz (longs @ more) (length longs) = Inr bs"
    "lz_compress lz bs = Some c" "\<exists>z. longs_to_bytes longs = le_bytes 4 (int (length bs)) @ c @ replicate z 0"
proof -
  obtain c where c: "lz_compress lz bs = Some c" "c \<noteq> []" "\<And>pad. lz_partial lz (c @ pad) (length bs) = Some bs"
    using lz4_okD[OF lz bs] by metis
  let ?b = "le_bytes 4 (int (length bs)) @ c"
  define n where "n = required_longs_padded (int (length ?b)) padding"
  have n: "int (length ?b) \<le> 8 * n" "padding dvd n" "0 < n"
    unfolding n_def by (rule required_longs_padded_bounds; use padding in simp)+
  let ?longs = "bytes_to_longs (nat n) ?b"
  have l: "length ?longs = nat n" by (simp add: bytes_to_longs_def)
  have w: "longs_to_bytes ?longs = ?b @ replicate (8 * nat n - length ?b) 0"
    using n by (intro longs_to_bytes_of) linarith
  have "fits 4 (int (length bs))" using bs(2) by (simp add: fits_def)
  then have size: "signed_value 4 (le_value (take 4 (longs_to_bytes ?longs))) = int (length bs)"
    using signed_value_mod[of 4 "int (length bs)"] unfolding w by (simp add: le_value_le_bytes)
  have "longs_lz4_to_bytes lz (?longs @ more) (length ?longs) = Inr bs" for more
    using n(3) l size c(3) by (simp add: longs_lz4_to_bytes_def Let_def w)
  moreover have "bytes_to_long_array_lz4 lz bs padding = Inr ?longs"
    using c(1) by (simp add: bytes_to_long_array_lz4_def n_def Let_def)
  moreover have "?longs \<noteq> []" using l n(3) by (metis length_greater_0_conv zero_less_nat_eq)
  ultimately show thesis using that[of ?longs c] c(1) n l w by auto
qed

text \<open>A compressor that puts one token before the bytes, on which witnesses evaluate the model.\<close>

definition sample_lz4 :: lz4 where
  "sample_lz4 = \<lparr>lz_compress = (\<lambda>bs. Some (16 # bs)), lz_decompress = (\<lambda>c n. Some (tl c)),
     lz_partial = (\<lambda>c n. Some (take n (tl c)))\<rparr>"

lemma sample_lz4_ok: "lz4_ok sample_lz4"
  by (simp add: lz4_ok_def sample_lz4_def lz_compress_bound_def)

end
