(* ===== verification/Binary_Messages.thy ===== *)
theory Binary_Messages
  imports Long_Arrays
begin

text \<open>
  The binary messages (\<open>common/api/binary\<close>) and how \<open>BinaryCommandsProcessor\<close> gets them out
  of the words of a completed transfer: decompression, the type code, the constructor that the
  factory holds for it.
\<close>

section \<open>Messages\<close>

datatype binary_command_type = ADD_ACCOUNTS | ADD_SYMBOLS

fun binary_command_type_to_code :: "binary_command_type \<Rightarrow> int" where
  "binary_command_type_to_code ADD_ACCOUNTS = 1002"
| "binary_command_type_to_code ADD_SYMBOLS = 1003"

definition binary_command_type_from_code :: "int \<Rightarrow> exn + binary_command_type" where
  "binary_command_type_from_code code =
     (if code = 1002 then Inr ADD_ACCOUNTS else if code = 1003 then Inr ADD_SYMBOLS
      else Inl (Invalid_Argument ''unknown BinaryCommandType''))"

fun binary_command_type_code :: "binary_message \<Rightarrow> binary_command_type" where
  "binary_command_type_code (Batch_Add_Symbols symbols) = ADD_SYMBOLS"
| "binary_command_type_code (Batch_Add_Accounts users) = ADD_ACCOUNTS"

lemma binary_command_type_roundtrip [simp]:
  "binary_command_type_from_code (binary_command_type_to_code t) = Inr t"
  by (cases t) (simp_all add: binary_command_type_from_code_def)

lemma binary_command_type_fits [simp]: "fits 4 (binary_command_type_to_code t)"
  by (cases t) (simp_all add: fits_def)

text \<open>\<open>WriteMarshallable\<close> of the two messages and their constructors from bytes.\<close>

definition write_batch_add_symbols :: "(int, symbol_spec) umap \<Rightarrow> bytes" where
  "write_batch_add_symbols symbols = write_map write_int write_symbol_spec symbols"

definition read_batch_add_symbols :: "binary_message reader" where
  "read_batch_add_symbols = bindR (read_reserved_map read_int read_symbol_spec)
     (\<lambda>tempMap. returnR (Batch_Add_Symbols (to_umap tempMap)))"

definition write_batch_add_accounts :: "(int, (int, int) umap) umap \<Rightarrow> bytes" where
  "write_batch_add_accounts users = write_map write_long (write_map write_int write_long) users"

definition read_batch_add_accounts :: "binary_message reader" where
  "read_batch_add_accounts =
     bindR (read_reserved_map read_long (read_reserved_map read_int read_long))
       (\<lambda>tempMap. returnR (Batch_Add_Accounts (to_umap tempMap)))"

fun write_binary_message :: "binary_message \<Rightarrow> bytes" where
  "write_binary_message (Batch_Add_Symbols symbols) = write_batch_add_symbols symbols"
| "write_binary_message (Batch_Add_Accounts users) = write_batch_add_accounts users"

text \<open>The factory: the constructor registered for a type.\<close>

fun create_command :: "binary_command_type \<Rightarrow> binary_message reader" where
  "create_command ADD_SYMBOLS = read_batch_add_symbols"
| "create_command ADD_ACCOUNTS = read_batch_add_accounts"

text \<open>What the API serialises: the type code and the message.\<close>

definition serialized_message :: "binary_message \<Rightarrow> bytes" where
  "serialized_message m =
     write_int (binary_command_type_to_code (binary_command_type_code m)) @ write_binary_message m"

definition read_serialized_message :: "binary_message reader" where
  "read_serialized_message = bindR read_int (\<lambda>classCode.
     bindR (liftR (binary_command_type_from_code classCode)) create_command)"

definition message_fits :: "binary_message \<Rightarrow> bool" where
  "message_fits m = (case m of
     Batch_Add_Symbols symbols \<Rightarrow> valid_map (fits 4) symbol_spec_fits symbols
   | Batch_Add_Accounts users \<Rightarrow> valid_map (fits 8) (valid_map (fits 4) (fits 8)) users)"

interpretation reserved_long_map_codec: exact_codec "write_map write_int write_long"
  "read_reserved_map read_int read_long" "valid_map (fits 4) (fits 8)"
  by unfold_locales (rule long_map_codec.exact_map)

interpretation accounts_codec: exact_map_codec write_long read_long "fits 8"
  "write_map write_int write_long" "read_reserved_map read_int read_long" "valid_map (fits 4) (fits 8)"
  by unfold_locales

interpretation message_codec: exact_codec serialized_message read_serialized_message message_fits
proof unfold_locales
  fix m rest
  assume "message_fits m"
  then show "read_serialized_message (serialized_message m @ rest) = Inr (m, rest)"
    by (cases m)
       (simp_all add: read_serialized_message_def serialized_message_def bindR_def codec_simps
          read_batch_add_symbols_def read_batch_add_accounts_def write_batch_add_symbols_def
          write_batch_add_accounts_def symbol_provider_codec.exact_map accounts_codec.exact_map
          message_fits_def valid_map_def to_umap_id del: binary_command_type_to_code.simps)
qed

section \<open>Decoding a transfer\<close>

text \<open>
  The end of \<open>AcceptBinaryFrame\<close> for \<open>BINARY_DATA_COMMAND\<close>: the words collected, of which
  \<open>wordsTransferred\<close> are used. Nothing is done with fewer than four bytes.
\<close>

definition decode_message :: "lz4 \<Rightarrow> int list \<Rightarrow> nat \<Rightarrow> exn + binary_message option" where
  "decode_message lz dataArray wordsTransferred =
     bindE (longs_lz4_to_bytes lz dataArray wordsTransferred) (\<lambda>decompressed.
       if length decompressed < 4 then Inr None
       else bindE (read_serialized_message decompressed) (\<lambda>(m, _). Inr (Some m)))"

lemma serialized_message_length: "4 \<le> length (serialized_message m)"
  by (simp add: serialized_message_def write_int_def)

lemma decode_message_written:
  assumes "longs_lz4_to_bytes lz arr n = Inr (serialized_message m)" and "message_fits m"
  shows "decode_message lz arr n = Inr (Some m)"
  using assms serialized_message_length[of m] message_codec.exact_all[of m]
  by (simp add: decode_message_def)

end
