(* ===== verification/Exchange_Api.thy ===== *)
theory Exchange_Api
  imports Ring_Buffer Binary_Messages Events_Helper
begin

text \<open>
  \<open>ExchangeApi\<close>: requests of clients are translated into the fields of a slot of the ring buffer
  and published; promises for results are kept by sequence and fulfilled by \<open>ProcessResult\<close>. A
  slot keeps from its last use the fields that a translator does not set.
\<close>

section \<open>Requests\<close>

datatype api_request =
    Api_Place_Order (pl_price: int) (pl_size: int) (pl_orderId: int) (pl_action: order_action)
      (pl_orderType: order_type) (pl_uid: int) (pl_symbol: int) (pl_userCookie: int) (pl_reservePrice: int)
  | Api_Move_Order (mv_orderId: int) (mv_newPrice: int) (mv_uid: int) (mv_symbol: int)
  | Api_Cancel_Order (cn_orderId: int) (cn_uid: int) (cn_symbol: int)
  | Api_Reduce_Order (rd_orderId: int) (rd_uid: int) (rd_symbol: int) (rd_reduceSize: int)
  | Api_Order_Book_Request (br_symbol: int) (br_size: int)
  | Api_Add_User (au_uid: int)
  | Api_Suspend_User (su_uid: int)
  | Api_Resume_User (ru_uid: int)
  | Api_Adjust_User_Balance (ab_uid: int) (ab_currency: int) (ab_amount: int) (ab_transactionId: int)
      (ab_adjustmentType: balance_adjustment_type)
  | Api_Reset
  | Api_Nop
  | Api_Binary_Data (bd_transferId: int) (bd_data: binary_message)
  | Api_Persist_State (ps_dumpId: int) (ps_seal: bool)

text \<open>The base class \<open>ApiCommand\<close> holds the timestamp.\<close>

record api_command =
  api_timestamp :: int
  api_request :: api_request

section \<open>Translators\<close>

text \<open>\<open>OrderTypeFromCode(BalanceAdjustmentTypeToCode(type))\<close>; both codes are order types.\<close>

definition adjustment_order_type :: "balance_adjustment_type \<Rightarrow> exn + order_type" where
  "adjustment_order_type t = order_type_from_code (balance_adjustment_type_to_code t)"

text \<open>The translators, from a timestamp \<open>t\<close> and a request \<open>q\<close>, for the slot they are given.\<close>

definition new_order_translator :: "int \<Rightarrow> api_request \<Rightarrow> order_command \<Rightarrow> order_command" where
  "new_order_translator t q cmd = cmd\<lparr>cmd_command := PLACE_ORDER, cmd_price := pl_price q, cmd_reserveBidPrice := pl_reservePrice q,
     cmd_size := pl_size q, cmd_orderId := pl_orderId q, cmd_timestamp := t, cmd_action := pl_action q,
     cmd_orderType := pl_orderType q, cmd_symbol := pl_symbol q, cmd_uid := pl_uid q,
     cmd_userCookie := pl_userCookie q, cmd_resultCode := NEW\<rparr>"

definition move_order_translator :: "int \<Rightarrow> api_request \<Rightarrow> order_command \<Rightarrow> order_command" where
  "move_order_translator t q cmd = cmd\<lparr>cmd_command := MOVE_ORDER, cmd_price := mv_newPrice q, cmd_orderId := mv_orderId q,
     cmd_symbol := mv_symbol q, cmd_uid := mv_uid q, cmd_timestamp := t, cmd_resultCode := NEW\<rparr>"

definition cancel_order_translator :: "int \<Rightarrow> api_request \<Rightarrow> order_command \<Rightarrow> order_command" where
  "cancel_order_translator t q cmd = cmd\<lparr>cmd_command := CANCEL_ORDER, cmd_orderId := cn_orderId q, cmd_symbol := cn_symbol q,
     cmd_uid := cn_uid q, cmd_timestamp := t, cmd_resultCode := NEW\<rparr>"

definition reduce_order_translator :: "int \<Rightarrow> api_request \<Rightarrow> order_command \<Rightarrow> order_command" where
  "reduce_order_translator t q cmd = cmd\<lparr>cmd_command := REDUCE_ORDER, cmd_orderId := rd_orderId q, cmd_symbol := rd_symbol q,
     cmd_uid := rd_uid q, cmd_size := rd_reduceSize q, cmd_timestamp := t, cmd_resultCode := NEW\<rparr>"

definition order_book_request_translator :: "int \<Rightarrow> api_request \<Rightarrow> order_command \<Rightarrow> order_command" where
  "order_book_request_translator t q cmd = cmd\<lparr>cmd_command := ORDER_BOOK_REQUEST, cmd_symbol := br_symbol q, cmd_size := br_size q,
     cmd_timestamp := t, cmd_resultCode := NEW\<rparr>"

definition add_user_translator :: "int \<Rightarrow> api_request \<Rightarrow> order_command \<Rightarrow> order_command" where
  "add_user_translator t q cmd = cmd\<lparr>cmd_command := ADD_USER, cmd_uid := au_uid q, cmd_timestamp := t, cmd_resultCode := NEW\<rparr>"

definition suspend_user_translator :: "int \<Rightarrow> api_request \<Rightarrow> order_command \<Rightarrow> order_command" where
  "suspend_user_translator t q cmd = cmd\<lparr>cmd_command := SUSPEND_USER, cmd_uid := su_uid q, cmd_timestamp := t, cmd_resultCode := NEW\<rparr>"

definition resume_user_translator :: "int \<Rightarrow> api_request \<Rightarrow> order_command \<Rightarrow> order_command" where
  "resume_user_translator t q cmd = cmd\<lparr>cmd_command := RESUME_USER, cmd_uid := ru_uid q, cmd_timestamp := t, cmd_resultCode := NEW\<rparr>"

definition adjust_user_balance_translator :: "int \<Rightarrow> api_request \<Rightarrow> order_command \<Rightarrow> exn + order_command" where
  "adjust_user_balance_translator t q cmd =
     bindE (adjustment_order_type (ab_adjustmentType q)) (\<lambda>orderType.
       Inr (cmd\<lparr>cmd_command := BALANCE_ADJUSTMENT, cmd_orderId := ab_transactionId q,
         cmd_symbol := ab_currency q, cmd_uid := ab_uid q, cmd_price := ab_amount q,
         cmd_orderType := orderType, cmd_timestamp := t, cmd_resultCode := NEW\<rparr>))"

definition reset_translator :: "int \<Rightarrow> api_request \<Rightarrow> order_command \<Rightarrow> order_command" where
  "reset_translator t q cmd = cmd\<lparr>cmd_command := RESET, cmd_timestamp := t, cmd_resultCode := NEW\<rparr>"

definition nop_translator :: "int \<Rightarrow> api_request \<Rightarrow> order_command \<Rightarrow> order_command" where
  "nop_translator t q cmd = cmd\<lparr>cmd_command := NOP, cmd_timestamp := t, cmd_resultCode := NEW\<rparr>"

text \<open>The dispatch on the class of a command. Binary data and persist commands have no translator.\<close>

definition translate_slot :: "api_command \<Rightarrow> order_command \<Rightarrow> exn + order_command" where
  "translate_slot api cmd =
     (let t = api_timestamp api; q = api_request api in
      case q of
        Api_Place_Order _ _ _ _ _ _ _ _ _ \<Rightarrow> Inr (new_order_translator t q cmd)
      | Api_Move_Order _ _ _ _ \<Rightarrow> Inr (move_order_translator t q cmd)
      | Api_Cancel_Order _ _ _ \<Rightarrow> Inr (cancel_order_translator t q cmd)
      | Api_Reduce_Order _ _ _ _ \<Rightarrow> Inr (reduce_order_translator t q cmd)
      | Api_Order_Book_Request _ _ \<Rightarrow> Inr (order_book_request_translator t q cmd)
      | Api_Add_User _ \<Rightarrow> Inr (add_user_translator t q cmd)
      | Api_Suspend_User _ \<Rightarrow> Inr (suspend_user_translator t q cmd)
      | Api_Resume_User _ \<Rightarrow> Inr (resume_user_translator t q cmd)
      | Api_Adjust_User_Balance _ _ _ _ _ \<Rightarrow> adjust_user_balance_translator t q cmd
      | Api_Reset \<Rightarrow> Inr (reset_translator t q cmd)
      | Api_Nop \<Rightarrow> Inr (nop_translator t q cmd)
      | Api_Binary_Data _ _ \<Rightarrow> Inl (Invalid_Argument ''BinaryDataCommand not supported'')
      | Api_Persist_State _ _ \<Rightarrow> Inl (Invalid_Argument ''PersistState not supported''))"

definition grouping_control :: "int \<Rightarrow> int \<Rightarrow> order_command \<Rightarrow> order_command" where
  "grouping_control timestampNs mode cmd = cmd\<lparr>cmd_command := GROUPING_CONTROL, cmd_resultCode := NEW,
     cmd_orderId := mode, cmd_timestamp := timestampNs\<rparr>"

section \<open>Promises\<close>

text \<open>The maps from sequences to promises; a promise is a number here.\<close>

record api_promises =
  ap_promises :: "(int, nat) umap"
  ap_reportPromises :: "(int, nat) umap"
  ap_orderBookPromises :: "(int, nat) umap"
  ap_fullResponsePromises :: "(int, nat) umap"

definition new_api_promises :: api_promises where
  "new_api_promises = \<lparr>ap_promises = [], ap_reportPromises = [], ap_orderBookPromises = [],
     ap_fullResponsePromises = []\<rparr>"

type_synonym 'r api = "'r \<times> api_promises"

definition set_promise :: "nat \<Rightarrow> int \<Rightarrow> api_promises \<Rightarrow> api_promises" where
  "set_promise h seq p = p\<lparr>ap_promises := um_put seq h (ap_promises p)\<rparr>"

definition set_report_promise :: "nat \<Rightarrow> int \<Rightarrow> api_promises \<Rightarrow> api_promises" where
  "set_report_promise h seq p = p\<lparr>ap_reportPromises := um_put seq h (ap_reportPromises p)\<rparr>"

definition set_order_book_promise :: "nat \<Rightarrow> int \<Rightarrow> api_promises \<Rightarrow> api_promises" where
  "set_order_book_promise h seq p = p\<lparr>ap_orderBookPromises := um_put seq h (ap_orderBookPromises p)\<rparr>"

definition set_full_promise :: "nat \<Rightarrow> int \<Rightarrow> api_promises \<Rightarrow> api_promises" where
  "set_full_promise h seq p = p\<lparr>ap_fullResponsePromises := um_put seq h (ap_fullResponsePromises p)\<rparr>"

text \<open>
  What a promise is fulfilled with. A report is the words of the binary events by section,
  without the empty ones.
\<close>

datatype api_response =
    Result_Code result_code
  | Market_Data "l2_market_data option"
  | Full_Response order_command
  | Report_Sections "(int \<times> int list) list"

definition process_result ::
  "int \<Rightarrow> order_command \<Rightarrow> api_promises \<Rightarrow> api_promises \<times> (nat \<times> api_response) option" where
  "process_result seq cmd p =
     (case um_find (ap_reportPromises p) seq of
        Some h \<Rightarrow> (p\<lparr>ap_reportPromises := um_erase seq (ap_reportPromises p)\<rparr>,
          Some (h, Report_Sections (filter (\<lambda>(section, words). words \<noteq> [])
            (deserialize_events (cmd_matcherEvent cmd) []))))
      | None \<Rightarrow>
     (case um_find (ap_orderBookPromises p) seq of
        Some h \<Rightarrow> (p\<lparr>ap_orderBookPromises := um_erase seq (ap_orderBookPromises p)\<rparr>,
          Some (h, Market_Data (cmd_marketData cmd)))
      | None \<Rightarrow>
     (case um_find (ap_fullResponsePromises p) seq of
        Some h \<Rightarrow> (p\<lparr>ap_fullResponsePromises := um_erase seq (ap_fullResponsePromises p)\<rparr>,
          Some (h, Full_Response cmd))
      | None \<Rightarrow>
     (case um_find (ap_promises p) seq of
        Some h \<Rightarrow> (p\<lparr>ap_promises := um_erase seq (ap_promises p)\<rparr>, Some (h, Result_Code (cmd_resultCode cmd)))
      | None \<Rightarrow> (p, None)))))"

section \<open>Publishing\<close>

definition binary_frame ::
  "command_type \<Rightarrow> int \<Rightarrow> int option \<Rightarrow> int list \<Rightarrow> bool \<Rightarrow> order_command \<Rightarrow> order_command" where
  "binary_frame kind transferId timestamp ws isLast cmd =
     (let c = cmd\<lparr>cmd_command := kind, cmd_userCookie := transferId, cmd_symbol := (if isLast then -1 else 0),
           cmd_orderId := ws ! 0, cmd_price := ws ! 1, cmd_reserveBidPrice := ws ! 2, cmd_size := ws ! 3,
           cmd_uid := ws ! 4, cmd_resultCode := NEW\<rparr>
      in case timestamp of None \<Rightarrow> c | Some t \<Rightarrow> c\<lparr>cmd_timestamp := t\<rparr>)"

text \<open>
  \<open>PublishBinaryData\<close>, \<open>PublishQuery\<close> and the second half of \<open>ProcessReportAny\<close>: the
  serialised bytes are compressed, padded to frames and published in fragments. The array is
  empty or not a multiple of five only by an error, which is checked for.
\<close>

definition publish_bytes ::
  "lz4 \<Rightarrow> 'r ring \<Rightarrow> bool \<Rightarrow> command_type \<Rightarrow> int \<Rightarrow> int option \<Rightarrow> bytes \<Rightarrow>
     (int \<Rightarrow> api_promises \<Rightarrow> api_promises) \<Rightarrow> 'r api \<Rightarrow> 'r api \<times> (exn + int)" where
  "publish_bytes lz rb check kind transferId timestamp serialized endSeq s =
     (case bytes_to_long_array_lz4 lz serialized 5 of
        Inl e \<Rightarrow> (s, Inl e)
      | Inr longs \<Rightarrow>
          let totalNum = length longs div 5
          in if totalNum = 0 then (s, Inl (Runtime_Error ''empty data after serialization''))
             else if check \<and> length longs < totalNum * 5 then (s, Inl (Runtime_Error ''array size mismatch''))
             else publish_fragments rb check (binary_frame kind transferId timestamp) longs endSeq totalNum 0 s)"

definition publish_binary_data where
  "publish_binary_data lz rb transferId data timestamp =
     publish_bytes lz rb True BINARY_DATA_COMMAND transferId (Some timestamp) (serialized_message data)"

text \<open>A query comes as its bytes, type code included.\<close>

definition publish_query where
  "publish_query lz rb transferId query timestamp =
     publish_bytes lz rb True BINARY_DATA_QUERY transferId (Some timestamp) query"

definition persist_slot :: "command_type \<Rightarrow> int \<Rightarrow> int \<Rightarrow> order_command \<Rightarrow> order_command" where
  "persist_slot kind dumpId timestamp cmd = cmd\<lparr>cmd_command := kind, cmd_orderId := dumpId,
     cmd_symbol := -1, cmd_uid := 0, cmd_price := 0, cmd_timestamp := timestamp, cmd_resultCode := NEW\<rparr>"

definition publish_persist_cmd ::
  "'r ring \<Rightarrow> int \<Rightarrow> int \<Rightarrow> (int \<Rightarrow> int \<Rightarrow> api_promises \<Rightarrow> api_promises) \<Rightarrow> 'r api \<Rightarrow> 'r api \<times> (exn + unit)" where
  "publish_persist_cmd rb dumpId timestamp seqConsumer s =
     (case s of (r, p) \<Rightarrow>
      case claim rb 2 r of
        (r1, Inl e) \<Rightarrow> ((r1, p), Inl e)
      | (r1, Inr secondSeq) \<Rightarrow>
          let firstSeq = secondSeq - 1;
              r2 = rb_set rb firstSeq (persist_slot PERSIST_STATE_MATCHING dumpId timestamp (rb_get rb firstSeq r1)) r1;
              r3 = rb_set rb secondSeq (persist_slot PERSIST_STATE_RISK dumpId timestamp (rb_get rb secondSeq r2)) r2
          in ((rb_publish rb firstSeq secondSeq r3, seqConsumer firstSeq secondSeq p), Inr ()))"

text \<open>
  One slot for one request: \<open>store\<close> puts the promise under the sequence before the slot is
  published. A translator that throws leaves the slot claimed and unpublished.
\<close>

definition publish_request ::
  "'r ring \<Rightarrow> (order_command \<Rightarrow> exn + order_command) \<Rightarrow> (int \<Rightarrow> api_promises \<Rightarrow> api_promises) \<Rightarrow>
     'r api \<Rightarrow> 'r api \<times> (exn + unit)" where
  "publish_request rb f store s =
     (case s of (r, p) \<Rightarrow>
      case claim rb 1 r of
        (r1, Inl e) \<Rightarrow> ((r1, p), Inl e)
      | (r1, Inr seq) \<Rightarrow>
          (case f (rb_get rb seq r1) of
             Inl e \<Rightarrow> ((r1, store seq p), Inl e)
           | Inr cmd \<Rightarrow> ((rb_publish rb seq seq (rb_set rb seq cmd r1), store seq p), Inr ())))"

text \<open>
  \<open>SubmitCommand\<close> and \<open>SubmitCommandAsync\<close>: the promise \<open>h\<close> and, for a persist command, \<open>h2\<close>,
  whose results are merged.
\<close>

fun submit_with ::
  "lz4 \<Rightarrow> 'r ring \<Rightarrow> (int \<Rightarrow> api_promises \<Rightarrow> api_promises) \<Rightarrow> (int \<Rightarrow> api_promises \<Rightarrow> api_promises) \<Rightarrow>
     api_command \<Rightarrow> 'r api \<Rightarrow> 'r api \<times> (exn + unit)" where
  "submit_with lz rb store1 store2 api s =
     (case api_request api of
        Api_Binary_Data transferId data \<Rightarrow>
          bindA (publish_binary_data lz rb transferId data (api_timestamp api) store1 s) (\<lambda>_ s1. (s1, Inr ()))
      | Api_Persist_State dumpId seal \<Rightarrow>
          publish_persist_cmd rb dumpId (api_timestamp api) (\<lambda>seq1 seq2 p. store2 seq2 (store1 seq1 p)) s
      | _ \<Rightarrow> publish_request rb (translate_slot api) store1 s)"

definition submit_command :: "lz4 \<Rightarrow> 'r ring \<Rightarrow> api_command \<Rightarrow> 'r api \<Rightarrow> 'r api \<times> (exn + unit)" where
  "submit_command lz rb = submit_with lz rb (\<lambda>_ p. p) (\<lambda>_ p. p)"

datatype api_future = One_Result nat | Both_Results nat nat

definition submit_command_async ::
  "lz4 \<Rightarrow> 'r ring \<Rightarrow> nat \<Rightarrow> nat \<Rightarrow> api_command \<Rightarrow> 'r api \<Rightarrow> 'r api \<times> (exn + api_future)" where
  "submit_command_async lz rb h h2 api s =
     bindA (submit_with lz rb (set_promise h) (set_promise h2) api s) (\<lambda>_ s1. (s1, Inr
       (case api_request api of Api_Persist_State dumpId seal \<Rightarrow> Both_Results h h2 | _ \<Rightarrow> One_Result h)))"

text \<open>The value of a future, from the promises fulfilled so far.\<close>

fun future_value :: "(nat \<Rightarrow> result_code option) \<Rightarrow> api_future \<Rightarrow> result_code option" where
  "future_value results (One_Result h) = results h"
| "future_value results (Both_Results h1 h2) =
     (case (results h1, results h2) of (Some r1, Some r2) \<Rightarrow> Some (merge_to_first_failed [r1, r2]) | _ \<Rightarrow> None)"

definition submit_command_async_full_response ::
  "'r ring \<Rightarrow> nat \<Rightarrow> api_command \<Rightarrow> 'r api \<Rightarrow> 'r api \<times> (exn + unit)" where
  "submit_command_async_full_response rb h api s =
     (case api_request api of
        Api_Binary_Data transferId data \<Rightarrow> (s, Inl (Invalid_Argument ''BinaryDataCommand not supported''))
      | Api_Persist_State dumpId seal \<Rightarrow> (s, Inl (Invalid_Argument ''PersistState not supported''))
      | _ \<Rightarrow> publish_request rb (translate_slot api) (set_full_promise h) s)"

definition request_order_book_async ::
  "'r ring \<Rightarrow> nat \<Rightarrow> int \<Rightarrow> int \<Rightarrow> int \<Rightarrow> 'r api \<Rightarrow> 'r api \<times> (exn + unit)" where
  "request_order_book_async rb h now symbolId depth =
     publish_request rb (\<lambda>cmd. Inr (cmd\<lparr>cmd_command := ORDER_BOOK_REQUEST, cmd_orderId := -1,
       cmd_symbol := symbolId, cmd_uid := -1, cmd_size := depth, cmd_timestamp := now, cmd_resultCode := NEW\<rparr>))
       (set_order_book_promise h)"

definition process_report ::
  "lz4 \<Rightarrow> 'r ring \<Rightarrow> nat \<Rightarrow> bytes \<Rightarrow> int \<Rightarrow> 'r api \<Rightarrow> 'r api \<times> (exn + int)" where
  "process_report lz rb h query transferId = publish_query lz rb transferId query 0 (set_report_promise h)"

text \<open>
  \<open>ProcessReportAny\<close> first makes the query from its bytes, with the factory \<open>read_query\<close>, and
  publishes without the verification of ranges and without a timestamp.
\<close>

definition process_report_any ::
  "(int \<Rightarrow> bytes \<Rightarrow> exn + 'q) \<Rightarrow> lz4 \<Rightarrow> 'r ring \<Rightarrow> nat \<Rightarrow> int \<Rightarrow> bytes \<Rightarrow> int \<Rightarrow> 'r api \<Rightarrow> 'r api \<times> (exn + int)" where
  "process_report_any read_query lz rb h queryTypeId queryBytes transferId s =
     (case bindE (read_int queryBytes) (\<lambda>(_, rest). read_query queryTypeId rest) of
        Inl e \<Rightarrow> (s, Inl e)
      | Inr _ \<Rightarrow> publish_bytes lz rb False BINARY_DATA_QUERY transferId None queryBytes (set_report_promise h) s)"

text \<open>
  \<open>SubmitCommandsBatch\<close> claims a slot for every command, fills them in order and publishes them
  together. A binary or persist command throws: what was claimed stays unpublished.
\<close>

fun fill_batch :: "'r ring \<Rightarrow> int \<Rightarrow> api_command list \<Rightarrow> 'r \<Rightarrow> 'r \<times> (exn + unit)" where
  "fill_batch rb seq [] r = (r, Inr ())"
| "fill_batch rb seq (api # apis) r =
     (case translate_slot api (rb_get rb seq r) of
        Inl e \<Rightarrow> (r, Inl e)
      | Inr cmd \<Rightarrow> fill_batch rb (seq + 1) apis (rb_set rb seq cmd r))"

definition submit_commands_batch :: "'r ring \<Rightarrow> api_command list \<Rightarrow> 'r \<Rightarrow> 'r \<times> (exn + unit)" where
  "submit_commands_batch rb cmds r =
     (if cmds = [] then (r, Inr ())
      else bindA (claim rb (int (length cmds)) r) (\<lambda>highSeq r1.
        let lowSeq = highSeq - int (length cmds) + 1
        in bindA (fill_batch rb lowSeq cmds r1) (\<lambda>_ r2. (rb_publish rb lowSeq highSeq r2, Inr ()))))"

fun submit_commands :: "lz4 \<Rightarrow> 'r ring \<Rightarrow> api_command list \<Rightarrow> 'r api \<Rightarrow> 'r api \<times> (exn + unit)" where
  "submit_commands lz rb [] s = (s, Inr ())"
| "submit_commands lz rb (api # apis) s = bindA (submit_command lz rb api s) (\<lambda>_. submit_commands lz rb apis)"

text \<open>\<open>SubmitCommandsSync\<close> up to the wait: all but the last are submitted without a promise.\<close>

definition submit_commands_sync ::
  "lz4 \<Rightarrow> 'r ring \<Rightarrow> nat \<Rightarrow> nat \<Rightarrow> api_command list \<Rightarrow> 'r api \<Rightarrow> 'r api \<times> (exn + api_future option)" where
  "submit_commands_sync lz rb h h2 cmds s =
     (if cmds = [] then (s, Inr None)
      else bindA (submit_commands lz rb (butlast cmds) s) (\<lambda>_ s1.
        bindA (submit_command_async lz rb h h2 (List.last cmds) s1) (\<lambda>f s2. (s2, Inr (Some f)))))"

end
