(* ===== verification/Naive_Snapshot.thy ===== *)
theory Naive_Snapshot
  imports Naive_Refine Serialization
begin

text \<open>
  Writing a naive order book and constructing one from the bytes. Loading allocates the orders
  anew, so the loaded book is not the saved one but holds the same orders in the same order; the
  index by order id is rebuilt from the buckets.
\<close>

section \<open>Buckets\<close>

definition write_bucket :: "order_heap \<Rightarrow> orders_bucket \<Rightarrow> bytes" where
  "write_bucket h b =
     write_long (bk_price b) @
     write_map write_long write_order
       (to_umap (map (\<lambda>a. (ord_orderId (ord_at h a), ord_at h a)) (bk_orderList b))) @
     write_long (bk_totalVolume b)"

definition read_bucket_order :: "order_heap \<times> orders_bucket \<Rightarrow> (order_heap \<times> orders_bucket) reader" where
  "read_bucket_order hb =
     bindR read_long (\<lambda>orderId. bindR read_order (\<lambda>ord.
       case heap_new (fst hb) ord of (a, h1) \<Rightarrow>
         bindR (liftR (bucket_put h1 a (snd hb))) (\<lambda>b1. returnR (h1, b1))))"

text \<open>
  The constructor puts the orders in before it overwrites the volume. It adds them to a volume it
  has not set, which is 0 here; the sum is not used.
\<close>

definition read_bucket :: "order_heap \<Rightarrow> (order_heap \<times> orders_bucket) reader" where
  "read_bucket h =
     bindR read_long (\<lambda>price. bindR read_int (\<lambda>n.
     bindR (read_loop (nat n) read_bucket_order (h, new_bucket price)) (\<lambda>(h1, b1).
     bindR read_long (\<lambda>totalVolume. returnR (h1, b1\<lparr>bk_totalVolume := totalVolume\<rparr>)))))"

section \<open>The book\<close>

definition write_side :: "order_heap \<Rightarrow> (int \<times> orders_bucket) list \<Rightarrow> bytes" where
  "write_side h bs = write_map write_long (write_bucket h) (to_umap bs)"

definition write_naive_book :: "naive_book \<Rightarrow> bytes" where
  "write_naive_book nb =
     write_byte 0 @ write_symbol_spec (nb_symbolSpec nb) @
     write_side (nb_heap nb) (nb_askBuckets nb) @ write_side (nb_heap nb) (nb_bidBuckets nb)"

text \<open>\<open>askBuckets_[price] = ...\<close> destroys a bucket that was stored under the price before.\<close>

definition read_side_bucket ::
  "order_action \<Rightarrow> order_heap \<times> (int \<times> orders_bucket) list
     \<Rightarrow> (order_heap \<times> (int \<times> orders_bucket) list) reader" where
  "read_side_bucket s hbs =
     bindR read_long (\<lambda>price. bindR (read_bucket (fst hbs)) (\<lambda>(h1, b).
       returnR (case um_find (snd hbs) price of None \<Rightarrow> h1 | Some old \<Rightarrow> bucket_destroy old h1,
                smap_put (before s) price b (snd hbs))))"

definition read_side :: "order_action \<Rightarrow> order_heap \<Rightarrow> (order_heap \<times> (int \<times> orders_bucket) list) reader" where
  "read_side s h = bindR read_int (\<lambda>n. read_loop (nat n) (read_side_bucket s) (h, []))"

definition index_orders :: "order_heap \<Rightarrow> (int \<times> orders_bucket) list \<Rightarrow> (int, addr) umap \<Rightarrow> (int, addr) umap" where
  "index_orders h bs idx = fold (\<lambda>a. um_put (ord_orderId (ord_at h a)) a) (concat (map (\<lambda>(p, b). bk_orderList b) bs)) idx"

text \<open>The implementation type has been read by \<open>IOrderBook::Create\<close>.\<close>

definition read_naive_book :: "naive_book reader" where
  "read_naive_book =
     bindR read_symbol_spec (\<lambda>spec. bindR (read_side ASK empty_heap) (\<lambda>(h1, asks).
     bindR (read_side BID h1) (\<lambda>(h2, bids).
       returnR \<lparr>nb_symbolSpec = spec, nb_heap = h2, nb_askBuckets = asks, nb_bidBuckets = bids,
                nb_idMap = index_orders h2 bids (index_orders h2 asks [])\<rparr>)))"

section \<open>A bucket read back\<close>

text \<open>What loading does to the heap: new orders at the next addresses, the others as they were.\<close>

definition grown :: "order_heap \<Rightarrow> order_heap \<Rightarrow> bool" where
  "grown h h' \<longleftrightarrow> hp_next h \<le> hp_next h' \<and> (\<forall>a < hp_next h. hp_cells h' a = hp_cells h a) \<and>
     (\<forall>a \<ge> hp_next h'. hp_cells h' a = None)"

lemma grown_trans: "grown h1 h2 \<Longrightarrow> grown h2 h3 \<Longrightarrow> grown h1 h3"
  by (auto simp: grown_def)

lemma grown_new: "heap_new h ord = (a, h1) \<Longrightarrow> \<forall>a \<ge> hp_next h. hp_cells h a = None \<Longrightarrow>
   a = hp_next h \<and> grown h h1 \<and> hp_cells h1 a = Some ord \<and> hp_next h1 = Suc a"
  by (auto simp: heap_new_def grown_def)

definition bucket_fits :: "order_heap \<Rightarrow> orders_bucket \<Rightarrow> bool" where
  "bucket_fits h b \<longleftrightarrow> fits 8 (bk_price b) \<and> fits 8 (bk_totalVolume b) \<and> length (bk_orderList b) < 2 ^ 31 \<and>
     (\<forall>a \<in> set (bk_orderList b). order_fits (ord_at h a))"

definition loaded_bucket :: "order_action \<Rightarrow> addr \<Rightarrow> int \<Rightarrow> order list \<Rightarrow> order_heap \<times> orders_bucket \<Rightarrow> bool" where
  "loaded_bucket s n p os hb \<longleftrightarrow> bucket_inv s (fst hb) p (snd hb) \<and> bucket_orders (fst hb) (snd hb) = os \<and>
     set (bk_orderList (snd hb)) = {n..<hp_next (fst hb)}"

lemma loaded_bucket_step:
  assumes l: "loaded_bucket s n p os hb" and g: "grown h0 (fst hb)" and ord: "resting s ord" "ord_price ord = p"
    and fits: "order_fits ord" and new: "ord_orderId ord \<notin> ord_orderId ` set os" and n: "n \<le> hp_next (fst hb)"
  shows "\<exists>hb'. read_bucket_order hb (write_long (ord_orderId ord) @ write_order ord @ rest) = Inr (hb', rest) \<and>
    loaded_bucket s n p (os @ [ord]) hb' \<and> grown h0 (fst hb') \<and> n \<le> hp_next (fst hb')"
proof -
  obtain h b where hb: "hb = (h, b)" by (cases hb)
  obtain a h1 where a: "heap_new h ord = (a, h1)" by (cases "heap_new h ord")
  have none: "\<forall>a \<ge> hp_next h. hp_cells h a = None" using g hb by (simp add: grown_def)
  note G = grown_new[OF a none]
  have old: "hp_cells h1 x = hp_cells h x" if "x \<in> set (bk_orderList b)" for x
    using that l G hb by (auto simp: loaded_bucket_def grown_def)
  have "bucket_inv s h1 p b \<longleftrightarrow> bucket_inv s h p b" by (rule bucket_inv_cong) (rule old)
  moreover have "bucket_orders h1 b = bucket_orders h b" by (rule bucket_orders_cong) (rule old)
  ultimately have inv: "bucket_inv s h1 p b" and os: "bucket_orders h1 b = os"
    using l hb by (simp_all add: loaded_bucket_def)
  have a1: "hp_cells h1 a = Some ord" "a \<notin> set (bk_orderList b)" using G l hb by (auto simp: loaded_bucket_def)
  have "ord_orderId (ord_at h1 x) \<noteq> ord_orderId ord" if "x \<in> set (bk_orderList b)" for x
  proof -
    have "ord_at h1 x \<in> set os" using os that by (auto simp: bucket_orders_def)
    with new show ?thesis by (metis imageI)
  qed
  from bucket_inv_append[OF inv a1 ord this] obtain b' where b':
    "bucket_put h1 a b = Inr b'" "bucket_inv s h1 p b'" "bk_orderList b' = bk_orderList b @ [a]" by blast
  have "fits 8 (ord_orderId ord)" using fits by (simp add: order_fits_def)
  then have "read_bucket_order hb (write_long (ord_orderId ord) @ write_order ord @ rest) = Inr ((h1, b'), rest)"
    using fits a b'(1) hb by (simp add: read_bucket_order_def reads_simps order_codec.exact)
  moreover have "loaded_bucket s n p (os @ [ord]) (h1, b')"
    using b' os G l hb n ord_at_Some[OF a1(1)] by (auto simp: loaded_bucket_def bucket_orders_def)
  moreover have "grown h0 h1" using grown_trans[OF g] G hb by simp
  ultimately show ?thesis using G n hb by (intro exI[of _ "(h1, b')"]) simp
qed

lemma loaded_bucket_volume:
  assumes "loaded_bucket s n p os (h, b)" shows "b\<lparr>bk_totalVolume := volume os\<rparr> = b"
proof -
  have "bk_totalVolume b = volume os"
    using assms bucket_inv_volume[of s h p b] by (auto simp: loaded_bucket_def)
  then show ?thesis by (cases b) simp
qed

lemma read_bucket_written:
  assumes inv: "bucket_inv s h p b" and fits: "bucket_fits h b"
    and ids: "distinct (map ord_orderId (bucket_orders h b))"
    and h0: "\<forall>a \<ge> hp_next h0. hp_cells h0 a = None"
  shows "\<exists>h1 b1. read_bucket h0 (write_bucket h b @ rest) = Inr ((h1, b1), rest) \<and>
    loaded_bucket s (hp_next h0) p (bucket_orders h b) (h1, b1) \<and> grown h0 h1"
proof -
  let ?os = "bucket_orders h b" and ?n = "hp_next h0"
  let ?w = "\<lambda>ord. write_long (ord_orderId ord) @ write_order ord"
  let ?I = "\<lambda>past hb. loaded_bucket s ?n p past hb \<and> grown h0 (fst hb) \<and> ?n \<le> hp_next (fst hb)"
  have keys: "map fst (map (\<lambda>a. (ord_orderId (ord_at h a), ord_at h a)) (bk_orderList b)) = map ord_orderId ?os"
    by (simp add: bucket_orders_def)
  have "to_umap (map (\<lambda>a. (ord_orderId (ord_at h a), ord_at h a)) (bk_orderList b)) =
      map (\<lambda>a. (ord_orderId (ord_at h a), ord_at h a)) (bk_orderList b)"
    by (rule to_umap_id) (simp only: keys ids)
  then have w: "write_bucket h b =
      write_long p @ write_int (int (length ?os)) @ concat (map ?w ?os) @ write_long (volume ?os)"
    using inv bucket_inv_volume[OF inv]
    by (simp add: write_bucket_def write_map_def bucket_orders_def bucket_inv_def comp_def)
  have "\<exists>hb. read_loop (length ?os) read_bucket_order (h0, new_bucket p)
      (concat (map ?w ?os) @ write_long (volume ?os) @ rest) = Inr (hb, write_long (volume ?os) @ rest) \<and> ?I ?os hb"
  proof (rule read_loop_ok)
    show "?I [] (h0, new_bucket p)"
      using h0 by (simp add: loaded_bucket_def bucket_inv_def bucket_orders_def new_bucket_def grown_def)
  next
    fix past x todo hb rest'
    assume os: "?os = past @ x # todo" and I: "?I past hb"
    have "x \<in> set ?os" using os by simp
    then have "resting s x \<and> ord_price x = p" "order_fits x"
      using bucket_inv_resting[OF inv] fits by (auto simp: bucket_fits_def bucket_orders_def)
    moreover have "ord_orderId x \<notin> ord_orderId ` set past" using ids os by simp
    ultimately show "\<exists>hb'. read_bucket_order hb (?w x @ rest') = Inr (hb', rest') \<and> ?I (past @ [x]) hb'"
      using loaded_bucket_step[of s ?n p past hb h0 x rest'] I by simp
  qed
  then obtain h1 b1 where r: "read_loop (length ?os) read_bucket_order (h0, new_bucket p)
      (concat (map ?w ?os) @ write_long (volume ?os) @ rest) = Inr ((h1, b1), write_long (volume ?os) @ rest)"
    "?I ?os (h1, b1)" by auto
  have f: "fits 8 p" "fits 8 (volume ?os)" "fits 4 (int (length ?os))"
    using fits inv bucket_inv_volume[OF inv] by (simp_all add: bucket_fits_def bucket_inv_def fits_size bucket_orders_def)
  have "read_bucket h0 (write_bucket h b @ rest) = Inr ((h1, b1\<lparr>bk_totalVolume := volume ?os\<rparr>), rest)"
    using f r(1) by (simp add: read_bucket_def w reads_simps)
  then show ?thesis using r(2) loaded_bucket_volume[of s ?n p ?os h1 b1] by auto
qed

section \<open>A side read back\<close>

lemma smap_put_last:
  assumes "irreflp lt" and "transp lt" and "\<forall>q \<in> fst ` set m. lt q k"
  shows "smap_put lt k v m = m @ [(k, v)]"
  using assms(3)
proof (induction m)
  case (Cons e m)
  obtain q w where e: "e = (q, w)" by (cases e)
  with Cons.prems have "lt q k" by simp
  then have "\<not> lt k q" "k \<noteq> q" using assms(1,2) by (metis irreflpD transpD)+
  with Cons e show ?case by simp
qed simp

definition side_fits :: "order_heap \<Rightarrow> (int \<times> orders_bucket) list \<Rightarrow> bool" where
  "side_fits h bs \<longleftrightarrow> length bs < 2 ^ 31 \<and> (\<forall>(p, b) \<in> set bs. bucket_fits h b)"

definition loaded_side ::
  "order_action \<Rightarrow> addr \<Rightarrow> int list \<Rightarrow> order list \<Rightarrow> order_heap \<times> (int \<times> orders_bucket) list \<Rightarrow> bool" where
  "loaded_side s n ps os hbs \<longleftrightarrow> buckets_inv s (fst hbs) (snd hbs) \<and> map fst (snd hbs) = ps \<and>
     side_orders (fst hbs) (snd hbs) = os \<and> set (addrs (snd hbs)) = {n..<hp_next (fst hbs)}"

lemma loaded_side_step:
  assumes l: "loaded_side s n ps os hbs" and g: "grown h0 (fst hbs)" and n: "n \<le> hp_next (fst hbs)"
    and inv: "bucket_inv s h p b" "bk_orderList b \<noteq> []" and fits: "bucket_fits h b"
    and ids: "distinct (map ord_orderId (bucket_orders h b))" and p: "\<forall>q \<in> set ps. before s q p"
  shows "\<exists>hbs'. read_side_bucket s hbs (write_long p @ write_bucket h b @ rest) = Inr (hbs', rest) \<and>
    loaded_side s n (ps @ [p]) (os @ bucket_orders h b) hbs' \<and> grown h0 (fst hbs') \<and> n \<le> hp_next (fst hbs')"
proof -
  obtain h' bs where hbs: "hbs = (h', bs)" by (cases hbs)
  have "\<forall>a \<ge> hp_next h'. hp_cells h' a = None" using g hbs by (simp add: grown_def)
  from read_bucket_written[OF inv(1) fits ids this] obtain h1 b1 where
    r: "read_bucket h' (write_bucket h b @ rest) = Inr ((h1, b1), rest)"
    and b1: "loaded_bucket s (hp_next h') p (bucket_orders h b) (h1, b1)" and g1: "grown h' h1" by blast
  have old: "hp_cells h1 x = hp_cells h' x" if "x \<in> set (addrs bs)" for x
    using that l g1 hbs by (auto simp: loaded_side_def grown_def)
  have "buckets_inv s h1 bs \<longleftrightarrow> buckets_inv s h' bs" by (rule buckets_inv_cong) (rule old)
  moreover have "side_orders h1 bs = side_orders h' bs" by (rule side_orders_cong) (rule old)
  ultimately have bs: "buckets_inv s h1 bs" "side_orders h1 bs = os" "map fst bs = ps" "set (addrs bs) = {n..<hp_next h'}"
    using l hbs by (simp_all add: loaded_side_def)
  have keys: "\<forall>q \<in> fst ` set bs. before s q p" using p bs(3) by force
  then have "um_find bs p = None" by (force simp: map_of_eq_None_iff)
  have price: "fits 8 p" using fits inv(1) by (simp add: bucket_fits_def bucket_inv_def)
  then have "read_side_bucket s hbs (write_long p @ write_bucket h b @ rest) = Inr ((h1, bs @ [(p, b1)]), rest)"
    using r hbs \<open>um_find bs p = None\<close> smap_put_last[OF before_order(2,1) keys]
    by (simp add: read_side_bucket_def reads_simps)
  moreover have ne: "bk_orderList b1 \<noteq> []"
    using b1 inv(2) by (auto simp: loaded_bucket_def bucket_orders_def)
  have "buckets_inv s h1 (bs @ [(p, b1)])"
    using bs b1 ne keys by (fastforce simp: buckets_inv_def loaded_bucket_def sorted_wrt_append bucket_inv_def)
  then have "loaded_side s n (ps @ [p]) (os @ bucket_orders h b) (h1, bs @ [(p, b1)])"
    using bs b1 n hbs g1 by (auto simp: loaded_side_def loaded_bucket_def grown_def)
  moreover have "n \<le> hp_next h1" using n hbs g1 by (simp add: grown_def)
  ultimately show ?thesis using grown_trans[OF g] g1 hbs by (intro exI[of _ "(h1, bs @ [(p, b1)])"]) simp
qed

lemma read_side_written:
  assumes inv: "buckets_inv s h bs" and fits: "side_fits h bs"
    and ids: "distinct (map ord_orderId (side_orders h bs))" and h0: "\<forall>a \<ge> hp_next h0. hp_cells h0 a = None"
  shows "\<exists>h1 bs1. read_side s h0 (write_side h bs @ rest) = Inr ((h1, bs1), rest) \<and>
    loaded_side s (hp_next h0) (map fst bs) (side_orders h bs) (h1, bs1) \<and> grown h0 h1"
proof -
  let ?n = "hp_next h0" and ?w = "\<lambda>(p, b). write_long p @ write_bucket h b"
  let ?I = "\<lambda>past hbs. loaded_side s ?n (map fst past) (side_orders h past) hbs \<and> grown h0 (fst hbs) \<and> ?n \<le> hp_next (fst hbs)"
  have sorted: "smap_sorted (before s) bs" using inv by (simp add: buckets_inv_def)
  then have "to_umap bs = bs" using smap_sorted_distinct[OF before_order(2)] by (intro to_umap_id) blast
  then have w: "write_side h bs = write_int (int (length bs)) @ concat (map ?w bs)"
    by (simp add: write_side_def write_map_def)
  have "\<exists>hbs. read_loop (length bs) (read_side_bucket s) (h0, []) (concat (map ?w bs) @ rest) = Inr (hbs, rest) \<and> ?I bs hbs"
  proof (rule read_loop_ok)
    show "?I [] (h0, [])" using h0 by (simp add: loaded_side_def buckets_inv_def grown_def)
  next
    fix past x todo hbs rest'
    assume bs: "bs = past @ x # todo" and I: "?I past hbs"
    obtain p b where x: "x = (p, b)" by (cases x)
    have "bucket_inv s h p b" "bk_orderList b \<noteq> []" "bucket_fits h b"
      using inv fits bs x by (auto simp: buckets_inv_def side_fits_def)
    moreover have "distinct (map ord_orderId (bucket_orders h b))" using ids bs x by simp
    moreover have "\<forall>q \<in> set (map fst past). before s q p" using sorted bs x by (simp add: sorted_wrt_append)
    ultimately show "\<exists>hbs'. read_side_bucket s hbs (?w x @ rest') = Inr (hbs', rest') \<and> ?I (past @ [x]) hbs'"
      using loaded_side_step[of s ?n "map fst past" "side_orders h past" hbs h0 h p b rest'] I x by simp
  qed
  then obtain h1 bs1 where r: "read_loop (length bs) (read_side_bucket s) (h0, []) (concat (map ?w bs) @ rest) = Inr ((h1, bs1), rest)"
    "?I bs (h1, bs1)" by auto
  have "fits 4 (int (length bs))" using fits by (simp add: side_fits_def fits_size)
  then have "read_side s h0 (write_side h bs @ rest) = Inr ((h1, bs1), rest)"
    using r(1) by (simp add: read_side_def w reads_simps)
  with r(2) show ?thesis by auto
qed

section \<open>A book read back\<close>

lemma index_fold:
  assumes "inj_on f (A \<union> set xs)" and "\<And>i a. um_find idx i = Some a \<longleftrightarrow> a \<in> A \<and> f a = i"
  shows "um_find (fold (\<lambda>a. um_put (f a) a) xs idx) i = Some a \<longleftrightarrow> a \<in> A \<union> set xs \<and> f a = i"
  using assms
proof (induction xs arbitrary: A idx)
  case (Cons x xs)
  have "um_find (um_put (f x) x idx) i = Some a \<longleftrightarrow> a \<in> insert x A \<and> f a = i" for i a
    using Cons.prems(2)[of i a] inj_onD[OF Cons.prems(1), of a x] by auto
  with Cons.IH[of "insert x A" "um_put (f x) x idx"] Cons.prems(1) show ?case by simp
qed simp

definition naive_fits :: "naive_book \<Rightarrow> bool" where
  "naive_fits nb \<longleftrightarrow> symbol_spec_fits (nb_symbolSpec nb) \<and>
     side_fits (nb_heap nb) (nb_askBuckets nb) \<and> side_fits (nb_heap nb) (nb_bidBuckets nb)"

definition same_naive :: "naive_book \<Rightarrow> naive_book \<Rightarrow> bool" where
  "same_naive nb nb' \<longleftrightarrow> nb_inv nb' \<and> nb_abs nb' = nb_abs nb \<and> nb_symbolSpec nb' = nb_symbolSpec nb"

lemma buckets_inv_alive:
  assumes "buckets_inv s h bs" and "a \<in> set (addrs bs)" shows "hp_cells h a \<noteq> None"
proof -
  obtain p b where "(p, b) \<in> set bs" "a \<in> set (bk_orderList b)" using assms(2) by (auto simp: addrs_def)
  with assms(1) show ?thesis using bucket_inv_at[of s h p b a] by (auto simp: buckets_inv_def)
qed

lemma loaded_naive_inv:
  assumes asks: "loaded_side ASK 0 ps os (h1, asks)" and bids: "loaded_side BID (hp_next h1) qs os' (h2, bids)"
    and g: "grown h1 h2" and ids: "distinct (map ord_orderId (os @ os'))"
  shows "nb_inv \<lparr>nb_symbolSpec = sp, nb_heap = h2, nb_askBuckets = asks, nb_bidBuckets = bids,
      nb_idMap = index_orders h2 bids (index_orders h2 asks [])\<rparr> \<and>
    side_orders h2 asks = os \<and> side_orders h2 bids = os'" (is "nb_inv ?nb \<and> _")
proof -
  have A: "set (addrs asks) = {0..<hp_next h1}" and B: "set (addrs bids) = {hp_next h1..<hp_next h2}"
    using asks bids by (simp_all add: loaded_side_def)
  have old: "hp_cells h2 x = hp_cells h1 x" if "x \<in> set (addrs asks)" for x
    using that A g by (simp add: grown_def)
  have "buckets_inv ASK h2 asks \<longleftrightarrow> buckets_inv ASK h1 asks" by (rule buckets_inv_cong) (rule old)
  moreover have so: "side_orders h2 asks = side_orders h1 asks" by (rule side_orders_cong) (rule old)
  ultimately have I: "buckets_inv ASK h2 asks" "buckets_inv BID h2 bids" and O: "side_orders h2 asks = os" "side_orders h2 bids = os'"
    using asks bids by (simp_all add: loaded_side_def)
  have live: "hp_cells h2 a \<noteq> None" if "a \<in> set (addrs asks) \<union> set (addrs bids)" for a
    using that buckets_inv_alive[OF I(1)] buckets_inv_alive[OF I(2)] by blast
  have le: "hp_next h1 \<le> hp_next h2" using g by (simp add: grown_def)
  have "hp_cells h2 a = None" if "a \<ge> hp_next h2" for a using g that by (simp add: grown_def)
  then have dom: "dom (hp_cells h2) = set (addrs asks) \<union> set (addrs bids)"
    using live A B le by (auto simp: dom_def)
  let ?f = "\<lambda>a. ord_orderId (ord_at h2 a)"
  have "map ord_orderId (os @ os') = map ?f (addrs asks @ addrs bids)"
    using O by (simp add: side_orders_addrs[symmetric] flip: map_map) (auto simp: side_orders_addrs)
  then have inj: "inj_on ?f (set (addrs asks) \<union> set (addrs bids))"
    using ids by (metis distinct_map set_append)
  have "um_find (index_orders h2 asks []) i = Some a \<longleftrightarrow> a \<in> set (addrs asks) \<and> ?f a = i" for i a
    using index_fold[of ?f "{}" "addrs asks" "[]" i a] inj
    by (simp add: index_orders_def addrs_def[symmetric] inj_on_Un)
  then have "um_find (index_orders h2 bids (index_orders h2 asks [])) i = Some a \<longleftrightarrow>
      a \<in> set (addrs asks) \<union> set (addrs bids) \<and> ?f a = i" for i a
    unfolding index_orders_def[of h2 bids] addrs_def[symmetric] by (rule index_fold[OF inj])
  then have "ids_ok ?nb" using dom by (simp add: ids_ok_def)
  moreover have "nb_core {} ?nb"
    unfolding nb_core_sides[of _ ?nb ASK] using I dom A B le by (auto simp: nb_live_def)
  ultimately show ?thesis using O by (simp add: nb_inv_def)
qed

lemma read_naive_written:
  assumes inv: "nb_inv nb" and fits: "naive_fits nb"
  shows "\<exists>nb'. bindR read_byte (\<lambda>_. read_naive_book) (write_naive_book nb @ rest) = Inr (nb', rest) \<and> same_naive nb nb'"
proof -
  let ?h = "nb_heap nb"
  have flat: "flat_ok (nb_abs nb)" using inv by (rule naive.valid_flat_ok)
  then have ids: "distinct (map ord_orderId (side_orders ?h (nb_askBuckets nb) @ side_orders ?h (nb_bidBuckets nb)))"
    by (simp add: flat_ok_def fb_orders_def nb_abs_def)
  have core: "buckets_inv ASK ?h (nb_askBuckets nb)" "buckets_inv BID ?h (nb_bidBuckets nb)"
    using inv unfolding nb_inv_def nb_core_def by (metis nb_side.simps(1), metis nb_side.simps(2))
  let ?bids = "write_side ?h (nb_bidBuckets nb)"
  have "\<forall>a \<ge> hp_next empty_heap. hp_cells empty_heap a = None" by (simp add: empty_heap_def)
  from read_side_written[OF core(1) _ _ this, of "?bids @ rest"] fits ids obtain h1 asks where
    a: "read_side ASK empty_heap (write_side ?h (nb_askBuckets nb) @ ?bids @ rest) = Inr ((h1, asks), ?bids @ rest)"
      "loaded_side ASK 0 (map fst (nb_askBuckets nb)) (side_orders ?h (nb_askBuckets nb)) (h1, asks)" "grown empty_heap h1"
    by (auto simp: naive_fits_def empty_heap_def)
  have "\<forall>a \<ge> hp_next h1. hp_cells h1 a = None" using a(3) by (simp add: grown_def)
  from read_side_written[OF core(2) _ _ this, of rest] fits ids obtain h2 bids where
    b: "read_side BID h1 (?bids @ rest) = Inr ((h2, bids), rest)"
      "loaded_side BID (hp_next h1) (map fst (nb_bidBuckets nb)) (side_orders ?h (nb_bidBuckets nb)) (h2, bids)" "grown h1 h2"
    by (auto simp: naive_fits_def)
  have sp: "symbol_spec_fits (nb_symbolSpec nb)" using fits by (simp add: naive_fits_def)
  have z: "read_byte (write_byte 0 @ bs) = Inr (0, bs)" for bs by (rule byte_codec.exact) (simp add: fits_def)
  show ?thesis
    using loaded_naive_inv[OF a(2) b(2,3) ids, of "nb_symbolSpec nb"] a(1) b(1)
    by (simp add: write_naive_book_def read_naive_book_def bindR_def z symbol_spec_codec.exact[OF sp] same_naive_def nb_abs_def)
qed

end
