(* ===== verification/Direct_Snapshot.thy ===== *)
theory Direct_Snapshot
  imports Direct_L2 Naive_Snapshot
begin

text \<open>
  Writing a direct order book, constructing one from the bytes, and \<open>IOrderBook::Create\<close>, which
  reads the type of the implementation and builds it. The direct book writes its orders side by
  side in priority order and loads them by inserting one after the other.
\<close>

section \<open>The formats\<close>

definition write_direct_book :: "direct_book \<Rightarrow> bytes" where
  "write_direct_book db =
     write_byte 2 @ write_symbol_spec (db_symbolSpec db) @
     write_int (int (length (db_orderIdIndex db))) @
     concat (map write_order (direct_side_orders ASK db)) @
     concat (map write_order (direct_side_orders BID db))"

definition read_direct_order :: "direct_book \<Rightarrow> direct_book reader" where
  "read_direct_order db =
     bindR read_order (\<lambda>ord.
       let a = db_fresh db;
           d = \<lparr>do_order = ord, do_next = None, do_prev = None, do_bucket = None\<rparr>
       in bindR (liftR (direct_insert_order a None
                  (db\<lparr>db_orders := (db_orders db)(a \<mapsto> d), db_fresh := Suc a\<rparr>))) (\<lambda>db1.
          returnR (db1\<lparr>db_orderIdIndex := um_put (ord_orderId ord) a (db_orderIdIndex db1)\<rparr>)))"

definition read_direct_book :: "direct_book reader" where
  "read_direct_book =
     bindR read_symbol_spec (\<lambda>spec. bindR read_int (\<lambda>n.
       read_loop (nat n) read_direct_order (new_direct_book spec)))"

datatype any_book = Naive_Impl naive_book | Direct_Impl direct_book

fun write_book :: "any_book \<Rightarrow> bytes" where
  "write_book (Naive_Impl nb) = write_naive_book nb"
| "write_book (Direct_Impl db) = write_direct_book db"

definition create_book :: "any_book reader" where
  "create_book = bindR read_byte (\<lambda>code.
     if code = 0 then bindR read_naive_book (\<lambda>nb. returnR (Naive_Impl nb))
     else if code = 2 then bindR read_direct_book (\<lambda>db. returnR (Direct_Impl db))
     else throwR (Invalid_Argument ''Unknown OrderBook implementation type''))"

section \<open>Insertion does not read the index\<close>

definition with_index :: "(int, addr) umap \<Rightarrow> direct_book \<Rightarrow> direct_book" where
  "with_index m db = db\<lparr>db_orderIdIndex := m\<rparr>"

lemma with_index_simps [simp]:
  "db_orders (with_index m db) = db_orders db" "db_buckets (with_index m db) = db_buckets db"
  "db_fresh (with_index m db) = db_fresh db" "db_orderIdIndex (with_index m db) = m"
  "db_symbolSpec (with_index m db) = db_symbolSpec db"
  "db_askPriceBuckets (with_index m db) = db_askPriceBuckets db" "db_bidPriceBuckets (with_index m db) = db_bidPriceBuckets db"
  "db_bestAskOrder (with_index m db) = db_bestAskOrder db" "db_bestBidOrder (with_index m db) = db_bestBidOrder db"
  "(with_index m db)\<lparr>db_askPriceBuckets := bs\<rparr> = with_index m (db\<lparr>db_askPriceBuckets := bs\<rparr>)"
  "(with_index m db)\<lparr>db_bidPriceBuckets := bs\<rparr> = with_index m (db\<lparr>db_bidPriceBuckets := bs\<rparr>)"
  "(with_index m db)\<lparr>db_bestAskOrder := b\<rparr> = with_index m (db\<lparr>db_bestAskOrder := b\<rparr>)"
  "(with_index m db)\<lparr>db_bestBidOrder := b\<rparr> = with_index m (db\<lparr>db_bestBidOrder := b\<rparr>)"
  "(with_index m db)\<lparr>db_orders := h\<rparr> = with_index m (db\<lparr>db_orders := h\<rparr>)"
  "(with_index m db)\<lparr>db_buckets := B\<rparr> = with_index m (db\<lparr>db_buckets := B\<rparr>)"
  "(with_index m db)\<lparr>db_fresh := n\<rparr> = with_index m (db\<lparr>db_fresh := n\<rparr>)"
  by (simp_all add: with_index_def)

lemma map_bindE: "map_sum id f (bindE r k) = bindE r (\<lambda>x. map_sum id f (k x))"
  by (cases r) auto

lemma bindE_map: "bindE (map_sum id f r) k = bindE r (\<lambda>x. k (f x))"
  by (cases r) auto

lemma with_index_steps:
  "upd_order p g (with_index m db) = map_sum id (with_index m) (upd_order p g db)"
  "upd_bucket p h (with_index m db) = map_sum id (with_index m) (upd_bucket p h db)"
  by (simp_all add: upd_order_def upd_bucket_def map_bindE)

lemma with_index_if: "upd_order_if p g (with_index m db) = map_sum id (with_index m) (upd_order_if p g db)"
  by (simp add: upd_order_if_def with_index_steps)

lemma with_index_views:
  "free_bucket p (with_index m db) = with_index m (free_bucket p db)"
  "price_buckets s (with_index m db) = price_buckets s db"
  "best_order s (with_index m db) = best_order s db"
  "set_price_buckets s bs (with_index m db) = with_index m (set_price_buckets s bs db)"
  "set_best_order s b (with_index m db) = with_index m (set_best_order s b db)"
  by (cases p; simp add: free_bucket_def; fail) (cases s; simp add: with_index_def)+

lemma with_index_link: "link_after a t (with_index m db) = map_sum id (with_index m) (link_after a t db)"
  by (simp add: link_after_def with_index_steps with_index_if bindE_map map_bindE)

lemma map_option_case: "map_sum id f (case p of None \<Rightarrow> r | Some a \<Rightarrow> k a) =
   (case p of None \<Rightarrow> map_sum id f r | Some a \<Rightarrow> map_sum id f (k a))"
  by (cases p) simp_all

lemmas insert_with_index_simps = with_index_steps with_index_if with_index_views with_index_link
  bindE_map map_bindE map_option_case

lemma insert_order_with_index:
  "direct_insert_order a fb (with_index m db) = map_sum id (with_index m) (direct_insert_order a fb db)"
proof (cases "deref (db_orders db) (Some a)")
  case (Inl e)
  then show ?thesis by (simp add: direct_insert_order_def)
next
  case (Inr d)
  then have d: "deref (db_orders (with_index m db)) (Some a) = Inr d" by simp
  show ?thesis
    unfolding direct_insert_order_def Let_def Inr d bindE_simps
    by (cases fb; cases "ord_action (do_order d)")
      (simp_all add: insert_with_index_simps cong: option.case_cong)
qed

lemma insert_keeps_index:
  assumes "direct_insert_order a fb db = Inr db'"
  shows "db_orderIdIndex db' = db_orderIdIndex db"
proof -
  have e: "with_index (db_orderIdIndex db) db = db" by (simp add: with_index_def)
  have "db' = with_index (db_orderIdIndex db) db'"
    using insert_order_with_index[of a fb "db_orderIdIndex db" db] unfolding e assms by simp
  from arg_cong[OF this, of db_orderIdIndex] show ?thesis by simp
qed

section \<open>A book read back\<close>

lemma read_direct_step:
  assumes rep: "direct_rep db L {}" and x: "resting (ord_action ord) ord" "art_key (ord_price ord)" and fits: "order_fits ord"
    and new: "fb_find (ord_orderId ord) (flat_of db L) = None"
  shows "\<exists>db' L'. read_direct_order db (write_order ord @ rest) = Inr (db', rest) \<and> direct_rep db' L' {} \<and>
    flat_of db' L' = fb_insert ord (flat_of db L) \<and> db_symbolSpec db' = db_symbolSpec db"
proof -
  let ?a = "db_fresh db" and ?s = "ord_action ord"
  let ?d = "\<lparr>do_order = ord, do_next = None, do_prev = None, do_bucket = None\<rparr>"
  let ?db1 = "db\<lparr>db_orders := (db_orders db)(?a \<mapsto> ?d), db_fresh := Suc ?a\<rparr>"
  let ?m = "um_put (ord_orderId ord) ?a (db_orderIdIndex db)"
  have find: "um_find (db_orderIdIndex db) (ord_orderId (do_order ?d)) = None"
    using new index_find[OF rep, of "ord_orderId ord"] by simp
  note alloc = allocated_rep[OF rep find]
  have al: "allocated ?d db = with_index ?m ?db1" by (simp add: allocated_def with_index_def)
  have d: "db_orders (allocated ?d db) ?a = Some ?d" by (simp add: allocated_def)
  have y: "resting ?s (do_order ?d)" "art_key (ord_price (do_order ?d))" using x by simp_all
  obtain db' l r where ins: "direct_insert_order ?a None (allocated ?d db) = Inr db'" "L ?s = l @ r"
    "direct_rep db' (L(?s := l @ ?a # r)) (insert ?a {} - {?a})" "dord (db_orders db') = dord (db_orders (allocated ?d db))"
    "map (dord (db_orders (allocated ?d db))) (l @ ?a # r) = insert_order ?s (do_order ?d) (map (dord (db_orders (allocated ?d db))) (L ?s))"
    "db_symbolSpec db' = db_symbolSpec (allocated ?d db)"
    by (rule direct_insert_order_ok[OF alloc(1) insertI1 d y spare_None])
  have "flat_of (allocated ?d db) L = flat_of db L" by (rule flat_of_same[OF alloc(2)])
  then have flat: "fb_insert ord (flat_of db L) = flat_of db' (L(?s := l @ ?a # r))"
    using flat_of_insert[of "allocated ?d db" l ?a r ?s ord L db'] ins(4,5) by simp
  obtain db2 where db2: "direct_insert_order ?a None ?db1 = Inr db2" "db' = with_index ?m db2"
    using ins(1) unfolding al insert_order_with_index by (cases "direct_insert_order ?a None ?db1") auto
  have "db_orderIdIndex db2 = db_orderIdIndex db" using insert_keeps_index[OF db2(1)] by simp
  then have "read_direct_order db (write_order ord @ rest) = Inr (db', rest)"
    using db2 by (simp add: read_direct_order_def bindR_def order_codec.exact[OF fits] with_index_def Let_def)
  moreover have "direct_rep db' (L(?s := l @ ?a # r)) {}" using ins(3) by simp
  moreover have "db_symbolSpec db' = db_symbolSpec db" using ins(6) by (simp add: allocated_def)
  ultimately show ?thesis using flat by metis
qed

text \<open>Inserting the orders of a book one after the other rebuilds it.\<close>

lemma fold_insert_order:
  "sorted_wrt (\<lambda>p q. \<not> before s q p) (map ord_price os) \<Longrightarrow> fold (insert_order s) os [] = os"
proof (induction os rule: rev_induct)
  case (snoc x os)
  then have "\<not> before s (ord_price x) (ord_price y)" if "y \<in> set os" for y
    using that by (auto simp: sorted_wrt_append)
  then have "insert_order s x (os @ []) = os @ insert_order s x []" by (rule insert_order_append)
  with snoc show ?case by (simp add: sorted_wrt_append)
qed simp

lemma fold_fb_insert:
  "\<forall>x \<in> set os. ord_action x = s \<Longrightarrow>
   fold fb_insert os fb = fb_set_side s (fold (insert_order s) os (fb_side s fb)) fb"
  by (induction os arbitrary: fb) (auto simp: fb_insert_def)

lemma rebuild_flat:
  assumes "flat_ok fb"
  shows "fold fb_insert (fb_asks fb @ fb_bids fb) \<lparr>fb_asks = [], fb_bids = []\<rparr> = fb"
proof -
  have a: "side_ok ASK (fb_asks fb)" "side_ok BID (fb_bids fb)"
    using assms unfolding flat_ok_def by (metis fb_side.simps(1), metis fb_side.simps(2))
  have f: "fold (insert_order ASK) (fb_asks fb) [] = fb_asks fb" "fold (insert_order BID) (fb_bids fb) [] = fb_bids fb"
    using a unfolding side_ok_def by (blast intro: fold_insert_order)+
  have "\<forall>x \<in> set (fb_asks fb). ord_action x = ASK" "\<forall>x \<in> set (fb_bids fb). ord_action x = BID"
    using a by (auto simp: side_ok_def resting_def)
  then show ?thesis
    using f fold_fb_insert[of "fb_asks fb" ASK "\<lparr>fb_asks = [], fb_bids = []\<rparr>"]
      fold_fb_insert[of "fb_bids fb" BID "\<lparr>fb_asks = fb_asks fb, fb_bids = []\<rparr>"] by simp
qed

lemma fold_fb_insert_orders: "set (fb_orders (fold fb_insert os fb)) = set (fb_orders fb) \<union> set os"
  by (induction os arbitrary: fb) auto

definition direct_fits :: "direct_book \<Rightarrow> bool" where
  "direct_fits db \<longleftrightarrow> symbol_spec_fits (db_symbolSpec db) \<and> length (db_orderIdIndex db) < 2 ^ 31 \<and>
     (\<forall>x \<in> set (fb_orders (direct_abs db)). order_fits x)"

definition same_direct :: "direct_book \<Rightarrow> direct_book \<Rightarrow> bool" where
  "same_direct db db' \<longleftrightarrow> direct_inv db' \<and> direct_abs db' = direct_abs db \<and> db_symbolSpec db' = db_symbolSpec db"

lemma direct_orders_keys:
  assumes "direct_inv db" and "x \<in> set (fb_orders (direct_abs db))"
  shows "resting (ord_action x) x \<and> art_key (ord_price x)"
proof -
  obtain L where rep: "direct_rep db L {}" using assms(1) by (auto simp: direct_inv_def)
  then obtain a s where "a \<in> set (L s)" "x = dord (db_orders db) a"
    using assms(2) by (auto simp: direct_abs_flat_of set_flat_of linked_def)
  then show ?thesis
    using side_dataD(4)[OF direct_rep_data[OF rep]] side_data_resting[OF direct_rep_data[OF rep]]
    by (fastforce simp: resting_def)
qed

lemma direct_index_size:
  assumes "direct_rep db L {}" shows "length (db_orderIdIndex db) = length (L ASK) + length (L BID)"
proof -
  have i: "index_rep (db_orderIdIndex db) (dord (db_orders db)) (linked L)"
    using direct_repD(6)[OF assms] by simp
  have d: "distinct (L ASK @ L BID)"
    using side_dataD(1)[OF direct_rep_data[OF assms]] direct_repD(2)[OF assms, of ASK] by simp
  have "(\<lambda>a. ord_orderId (dord (db_orders db) a)) ` linked L = fst ` set (db_orderIdIndex db)"
  proof (intro equalityI subsetI)
    fix k assume "k \<in> fst ` set (db_orderIdIndex db)"
    then obtain a where "um_find (db_orderIdIndex db) k = Some a"
      by (metis domIff dom_map_of_conv_image_fst not_None_eq)
    then show "k \<in> (\<lambda>a. ord_orderId (dord (db_orders db) a)) ` linked L" using i by (auto simp: index_rep_def)
  next
    fix k assume "k \<in> (\<lambda>a. ord_orderId (dord (db_orders db) a)) ` linked L"
    then obtain a where "um_find (db_orderIdIndex db) k = Some a" using i by (auto simp: index_rep_def)
    then show "k \<in> fst ` set (db_orderIdIndex db)" by (metis domI dom_map_of_conv_image_fst)
  qed
  moreover have "inj_on (\<lambda>a. ord_orderId (dord (db_orders db) a)) (linked L)"
    using index_rep_inj[OF i] by (meson inj_onI)
  moreover have "card (linked L) = length (L ASK) + length (L BID)"
    using distinct_card[OF d] by (simp add: linked_def)
  moreover have "card (fst ` set (db_orderIdIndex db)) = length (db_orderIdIndex db)"
    using i distinct_card[of "map fst (db_orderIdIndex db)"] by (simp add: index_rep_def)
  ultimately show ?thesis by (metis card_image)
qed

lemma read_direct_written:
  assumes inv: "direct_inv db" and fits: "direct_fits db"
  shows "\<exists>db'. bindR read_byte (\<lambda>_. read_direct_book) (write_direct_book db @ rest) = Inr (db', rest) \<and> same_direct db db'"
proof -
  let ?e = "\<lparr>fb_asks = [], fb_bids = []\<rparr>" and ?sp = "db_symbolSpec db"
  let ?os = "fb_asks (direct_abs db) @ fb_bids (direct_abs db)"
  let ?I = "\<lambda>past d. (\<exists>L. direct_rep d L {} \<and> flat_of d L = fold fb_insert past ?e) \<and> db_symbolSpec d = ?sp"
  have flat: "flat_ok (direct_abs db)" using inv by (rule direct.valid_flat_ok)
  then have ids: "distinct (map ord_orderId ?os)" by (simp add: flat_ok_def fb_orders_def)
  obtain L0 where rep: "direct_rep db L0 {}" using inv by (auto simp: direct_inv_def)
  have "direct_inv (new_direct_book ?sp)" "direct_abs (new_direct_book ?sp) = ?e" using new_direct_book_inv by simp_all
  then have init: "?I [] (new_direct_book ?sp)"
    using direct_abs_flat_of by (fastforce simp: direct_inv_def new_direct_book_def)
  have "\<exists>d. read_loop (length ?os) read_direct_order (new_direct_book ?sp) (concat (map write_order ?os) @ rest) = Inr (d, rest) \<and> ?I ?os d"
  proof (rule read_loop_ok[where I = ?I, OF _ init])
    fix past x todo d rest'
    assume os: "?os = past @ x # todo" and I: "?I past d"
    then obtain L where L: "direct_rep d L {}" "flat_of d L = fold fb_insert past ?e" "db_symbolSpec d = ?sp" by blast
    have "x \<in> set (fb_orders (direct_abs db))" unfolding fb_orders_def os by simp
    then have x: "resting (ord_action x) x" "art_key (ord_price x)" "order_fits x"
      using direct_orders_keys[OF inv] fits by (auto simp: direct_fits_def)
    have "ord_orderId x \<notin> ord_orderId ` set past" using ids unfolding os by simp
    then have "fb_find (ord_orderId x) (flat_of d L) = None"
      using fold_fb_insert_orders[of past ?e] by (simp add: fb_find_None L(2) fb_orders_def)
    from read_direct_step[OF L(1) x this, of rest'] L(2,3)
    show "\<exists>d'. read_direct_order d (write_order x @ rest') = Inr (d', rest') \<and> ?I (past @ [x]) d'" by auto
  qed
  then obtain d L where d: "read_loop (length ?os) read_direct_order (new_direct_book ?sp) (concat (map write_order ?os) @ rest) = Inr (d, rest)"
    "direct_rep d L {}" "flat_of d L = fold fb_insert ?os ?e" "db_symbolSpec d = ?sp" by blast
  have "same_direct db d"
    using d(2-4) rebuild_flat[OF flat] by (auto simp: same_direct_def direct_inv_def direct_abs_flat_of)
  moreover have "length (db_orderIdIndex db) = length ?os"
    using direct_index_size[OF rep] by (simp add: direct_abs_flat_of[OF rep] flat_of_def)
  moreover have "symbol_spec_fits ?sp" "fits 4 (int (length (db_orderIdIndex db)))"
    using fits by (simp_all add: direct_fits_def fits_size)
  moreover have "read_byte (write_byte 2 @ bs) = Inr (2, bs)" for bs
    by (rule byte_codec.exact) (simp add: fits_def)
  ultimately show ?thesis
    using d(1) by (simp add: write_direct_book_def read_direct_book_def bindR_def int_codec.exact
        symbol_spec_codec.exact direct_abs_def nat_int_add)
qed

end
