(* ===== verification/Snapshot.thy ===== *)
theory Snapshot
  imports Direct_Snapshot Matching_Router
begin

text \<open>
  Snapshots of a matching engine, with order books of both implementations behind one interface,
  and what a matching engine answers that was loaded from one.
\<close>

section \<open>Books behind the interface\<close>

fun map_naive :: "exn + (naive_book \<times> 'r) \<Rightarrow> exn + (any_book \<times> 'r)" where
  "map_naive (Inl e) = Inl e"
| "map_naive (Inr (nb, r)) = Inr (Naive_Impl nb, r)"

fun map_direct :: "exn + (direct_book \<times> 'r) \<Rightarrow> exn + (any_book \<times> 'r)" where
  "map_direct (Inl e) = Inl e"
| "map_direct (Inr (db, r)) = Inr (Direct_Impl db, r)"

fun wrap_naive :: "exn + (result_code \<times> naive_book \<times> 'r) \<Rightarrow> exn + (result_code \<times> any_book \<times> 'r)" where
  "wrap_naive (Inl e) = Inl e"
| "wrap_naive (Inr (code, nb, r)) = Inr (code, Naive_Impl nb, r)"

fun wrap_direct :: "exn + (result_code \<times> direct_book \<times> 'r) \<Rightarrow> exn + (result_code \<times> any_book \<times> 'r)" where
  "wrap_direct (Inl e) = Inl e"
| "wrap_direct (Inr (code, db, r)) = Inr (code, Direct_Impl db, r)"

text \<open>The virtual functions of \<open>IOrderBook\<close>.\<close>

definition any_ops :: "any_book order_book_ops" where
  "any_ops = \<lparr>
     op_newOrder = (\<lambda>node b cmd. case b of
        Naive_Impl nb \<Rightarrow> map_naive (naive_new_order node nb cmd)
      | Direct_Impl db \<Rightarrow> map_direct (direct_new_order node db cmd)),
     op_cancelOrder = (\<lambda>node b cmd. case b of
        Naive_Impl nb \<Rightarrow> wrap_naive (naive_cancel node nb cmd)
      | Direct_Impl db \<Rightarrow> wrap_direct (direct_cancel node db cmd)),
     op_reduceOrder = (\<lambda>node b cmd. case b of
        Naive_Impl nb \<Rightarrow> wrap_naive (naive_reduce node nb cmd)
      | Direct_Impl db \<Rightarrow> wrap_direct (direct_reduce node db cmd)),
     op_moveOrder = (\<lambda>node b cmd. case b of
        Naive_Impl nb \<Rightarrow> wrap_naive (naive_move node nb cmd)
      | Direct_Impl db \<Rightarrow> wrap_direct (direct_move node db cmd)),
     op_l2Snapshot = (\<lambda>sz b. case b of
        Naive_Impl nb \<Rightarrow> naive_l2_snapshot sz nb
      | Direct_Impl db \<Rightarrow> direct_l2_snapshot sz db)\<rparr>"

fun any_valid :: "any_book \<Rightarrow> bool" where
  "any_valid (Naive_Impl nb) = nb_inv nb"
| "any_valid (Direct_Impl db) = direct_inv db"

fun any_abs :: "any_book \<Rightarrow> flat_book" where
  "any_abs (Naive_Impl nb) = nb_abs nb"
| "any_abs (Direct_Impl db) = direct_abs db"

fun any_spec :: "any_book \<Rightarrow> symbol_spec" where
  "any_spec (Naive_Impl nb) = nb_symbolSpec nb"
| "any_spec (Direct_Impl db) = db_symbolSpec db"

fun any_takes_new :: "any_book \<Rightarrow> order_command \<Rightarrow> bool" where
  "any_takes_new (Naive_Impl nb) cmd = True"
| "any_takes_new (Direct_Impl db) cmd = direct_takes_new db cmd"

fun any_takes_move :: "any_book \<Rightarrow> order_command \<Rightarrow> bool" where
  "any_takes_move (Naive_Impl nb) cmd = True"
| "any_takes_move (Direct_Impl db) cmd = direct_takes_move db cmd"

lemma naive_ops_sel: "op_newOrder naive_ops = naive_new_order" "op_cancelOrder naive_ops = naive_cancel"
  "op_reduceOrder naive_ops = naive_reduce" "op_moveOrder naive_ops = naive_move" "op_l2Snapshot naive_ops = naive_l2_snapshot"
  by (simp_all add: naive_ops_def)

lemma direct_ops_sel: "op_newOrder direct_ops = direct_new_order" "op_cancelOrder direct_ops = direct_cancel"
  "op_reduceOrder direct_ops = direct_reduce" "op_moveOrder direct_ops = direct_move" "op_l2Snapshot direct_ops = direct_l2_snapshot"
  by (simp_all add: direct_ops_def)

interpretation any: order_book_contract any_valid any_abs any_spec any_ops any_takes_new any_takes_move
proof unfold_locales
  fix b :: any_book and cmd :: order_command and node :: trade_event and sz :: int
  assume b: "any_valid b"
  show "flat_ok (any_abs b)"
    using b naive.valid_flat_ok direct.valid_flat_ok by (cases b) auto
  show "\<exists>b' cmd'. op_newOrder any_ops node b cmd = Inr (b', cmd') \<and> any_valid b' \<and> any_spec b' = any_spec b \<and>
      flat_new_order node (any_abs b) cmd = (any_abs b', cmd')"
    if "any_takes_new b cmd" "0 < cmd_size cmd"
    using b that naive.new_order_law[unfolded naive_ops_sel, of _ cmd node] direct.new_order_law[unfolded direct_ops_sel, of _ cmd node]
    by (cases b) (fastforce simp: any_ops_def)+
  show "\<exists>code b' cmd'. op_cancelOrder any_ops node b cmd = Inr (code, b', cmd') \<and> any_valid b' \<and>
      any_spec b' = any_spec b \<and> flat_cancel node (any_abs b) cmd = (code, any_abs b', cmd')"
    using b naive.cancel_law[unfolded naive_ops_sel, of _ node cmd] direct.cancel_law[unfolded direct_ops_sel, of _ node cmd]
    by (cases b) (fastforce simp: any_ops_def)+
  show "\<exists>code b' cmd'. op_reduceOrder any_ops node b cmd = Inr (code, b', cmd') \<and> any_valid b' \<and>
      any_spec b' = any_spec b \<and> flat_reduce node (any_abs b) cmd = (code, any_abs b', cmd')"
    using b naive.reduce_law[unfolded naive_ops_sel, of _ node cmd] direct.reduce_law[unfolded direct_ops_sel, of _ node cmd]
    by (cases b) (fastforce simp: any_ops_def)+
  show "\<exists>code b' cmd'. op_moveOrder any_ops node b cmd = Inr (code, b', cmd') \<and> any_valid b' \<and>
      any_spec b' = any_spec b \<and> same_outcome (flat_move (sp_type (any_spec b)) (any_abs b) cmd) (code, any_abs b', cmd')"
    if "any_takes_move b cmd"
    using b that naive.move_law[unfolded naive_ops_sel, of _ node cmd] direct.move_law[unfolded direct_ops_sel, of _ cmd node]
    by (cases b) (fastforce simp: any_ops_def)+
  show "op_l2Snapshot any_ops sz b = flat_l2 sz (any_abs b)" if "0 \<le> sz"
    using b that naive.l2_law[unfolded naive_ops_sel] direct.l2_law[unfolded direct_ops_sel]
    by (cases b) (auto simp: any_ops_def)
qed

section \<open>The codec of a book\<close>

fun any_fits :: "any_book \<Rightarrow> bool" where
  "any_fits (Naive_Impl nb) = naive_fits nb"
| "any_fits (Direct_Impl db) = direct_fits db"

text \<open>A loaded book: valid, of the same implementation, with the same orders in the same order.\<close>

fun same_impl :: "any_book \<Rightarrow> any_book \<Rightarrow> bool" where
  "same_impl (Naive_Impl _) (Naive_Impl _) = True"
| "same_impl (Direct_Impl _) (Direct_Impl _) = True"
| "same_impl _ _ = False"

definition same_book :: "any_book \<Rightarrow> any_book \<Rightarrow> bool" where
  "same_book b b' \<longleftrightarrow> same_impl b b' \<and> any_valid b' \<and> any_abs b' = any_abs b \<and> any_spec b' = any_spec b"

lemma create_book_written:
  assumes "any_valid b" and "any_fits b"
  shows "\<exists>b'. create_book (write_book b @ rest) = Inr (b', rest) \<and> same_book b b'"
proof (cases b)
  case (Naive_Impl nb)
  then obtain nb' where r: "bindR read_byte (\<lambda>_. read_naive_book) (write_naive_book nb @ rest) = Inr (nb', rest)" "same_naive nb nb'"
    using read_naive_written[of nb rest] assms by auto
  have z: "read_byte (write_byte 0 @ bs) = Inr (0, bs)" for bs by (rule byte_codec.exact) (simp add: fits_def)
  from r show ?thesis
    using Naive_Impl by (auto simp: create_book_def write_naive_book_def bindR_def z same_book_def same_naive_def bindE_eq_Inr)
next
  case (Direct_Impl db)
  then obtain db' where r: "bindR read_byte (\<lambda>_. read_direct_book) (write_direct_book db @ rest) = Inr (db', rest)" "same_direct db db'"
    using read_direct_written[of db rest] assms by auto
  have z: "read_byte (write_byte 2 @ bs) = Inr (2, bs)" for bs by (rule byte_codec.exact) (simp add: fits_def)
  from r show ?thesis
    using Direct_Impl by (auto simp: create_book_def write_direct_book_def bindR_def z same_book_def same_direct_def bindE_eq_Inr)
qed

interpretation book_codec: codec write_book create_book "\<lambda>b. any_valid b \<and> any_fits b" same_book
  by unfold_locales (use create_book_written in blast)

interpretation books_codec: map_codec write_int read_int "fits 4" write_book create_book
  "\<lambda>b. any_valid b \<and> any_fits b" same_book
  by unfold_locales

section \<open>The matching engine\<close>

definition write_router :: "any_book matching_router \<Rightarrow> bytes" where
  "write_router me =
     write_int (me_shardId me) @ write_long (me_shardMask me) @
     write_map write_long write_transfer (me_incomingData me) @
     write_map write_int write_book (to_umap (me_orderBooks me))"

definition read_router :: "any_book matching_router \<Rightarrow> any_book matching_router reader" where
  "read_router me0 =
     bindR read_int (\<lambda>shardId. if me_shardId me0 \<noteq> shardId then throwR (Runtime_Error ''wrong shardId'') else
     bindR read_long (\<lambda>mask. if me_shardMask me0 \<noteq> mask then throwR (Runtime_Error ''wrong shardMask'') else
     bindR (read_map read_long read_transfer) (\<lambda>incoming.
     bindR (read_map read_int create_book) (\<lambda>books.
       returnR (me0\<lparr>me_incomingData := incoming, me_orderBooks := books\<rparr>)))))"

definition router_fits :: "any_book matching_router \<Rightarrow> bool" where
  "router_fits me \<longleftrightarrow> fits 4 (me_shardId me) \<and> fits 8 (me_shardMask me) \<and>
     valid_map (fits 8) transfer_fits (me_incomingData me) \<and>
     valid_map (fits 4) (\<lambda>b. any_valid b \<and> any_fits b) (me_orderBooks me)"

text \<open>
  Two matching engines that differ in the representation of their books. The symbol provider and
  the configuration are not in the snapshot: they are those of the engine that loads.
\<close>

definition same_router :: "any_book matching_router \<Rightarrow> any_book matching_router \<Rightarrow> bool" where
  "same_router me me' \<longleftrightarrow> me' = me\<lparr>me_orderBooks := me_orderBooks me'\<rparr> \<and>
     same_map same_book (me_orderBooks me) (me_orderBooks me')"

definition same_router_config :: "any_book matching_router \<Rightarrow> any_book matching_router \<Rightarrow> bool" where
  "same_router_config me0 me \<longleftrightarrow> me0\<lparr>me_incomingData := me_incomingData me, me_orderBooks := me_orderBooks me\<rparr> = me"

interpretation router_codec: codec write_router "read_router me0" "\<lambda>me. router_fits me \<and> same_router_config me0 me" same_router
  for me0
proof
  fix me rest assume a: "router_fits me \<and> same_router_config me0 me"
  then have v: "valid_map (fits 4) (\<lambda>b. any_valid b \<and> any_fits b) (me_orderBooks me)" by (simp add: router_fits_def)
  then have u: "to_umap (me_orderBooks me) = me_orderBooks me" by (simp add: to_umap_id valid_map_def)
  obtain books where b: "read_map read_int create_book (write_map write_int write_book (me_orderBooks me) @ rest) = Inr (books, rest)"
    "same_map same_book (me_orderBooks me) books"
    using books_codec.reads[OF v] by blast
  have c: "me0\<lparr>me_incomingData := me_incomingData me, me_orderBooks := books\<rparr> = me\<lparr>me_orderBooks := books\<rparr>"
    using a unfolding same_router_config_def by (metis matching_router.surjective matching_router.update_convs(4,5))
  have i: "me_shardId me0 = me_shardId me" "me_shardMask me0 = me_shardMask me"
    using a unfolding same_router_config_def by (metis matching_router.surjective matching_router.update_convs(4,5) matching_router.select_convs(1,2))+
  have "read_router me0 (write_router me @ rest) = Inr (me\<lparr>me_orderBooks := books\<rparr>, rest)"
    using a b(1) c i by (simp add: read_router_def write_router_def router_fits_def bindR_def codec_simps incoming_codec.exact_map u)
  then show "\<exists>me'. read_router me0 (write_router me @ rest) = Inr (me', rest) \<and> same_router me me'"
    using b(2) by (simp add: same_router_def)
qed

section \<open>Answers after loading\<close>

text \<open>The command that comes back, up to the action that a failed move leaves in it.\<close>

definition same_reply :: "result_code \<Rightarrow> order_command \<Rightarrow> order_command \<Rightarrow> bool" where
  "same_reply code c c' \<longleftrightarrow> c' = c \<or>
     code = MATCHING_MOVE_FAILED_PRICE_OVER_RISK_LIMIT \<and> c' = c\<lparr>cmd_action := cmd_action c'\<rparr>"

context order_book_contract
begin

lemma process_command_alike:
  assumes "valid b" and "valid b'" and "abstr b' = abstr b" and "spec b' = spec b"
    and "admissible adm_new adm_move b cmd" and "admissible adm_new adm_move b' cmd"
  shows "\<exists>code b1 c b1' c'. process_command ops node b cmd = Inr (code, b1, c) \<and>
    process_command ops node b' cmd = Inr (code, b1', c') \<and> valid b1 \<and> valid b1' \<and>
    abstr b1' = abstr b1 \<and> spec b1 = spec b \<and> spec b1' = spec b \<and> same_reply code c c'"
proof -
  obtain code b1 c where 1: "process_command ops node b cmd = Inr (code, b1, c)" "valid b1" "spec b1 = spec b"
    "same_outcome (flat_process_command (sp_type (spec b)) node (abstr b) cmd) (code, abstr b1, c)"
    using process_command_refines[OF assms(1,5), of node] by blast
  obtain code' b1' c' where 2: "process_command ops node b' cmd = Inr (code', b1', c')" "valid b1'" "spec b1' = spec b'"
    "same_outcome (flat_process_command (sp_type (spec b)) node (abstr b) cmd) (code', abstr b1', c')"
    using process_command_refines[OF assms(2,6), of node] assms(3,4) by auto
  obtain x y z where f: "flat_process_command (sp_type (spec b)) node (abstr b) cmd = (x, y, z)"
    by (metis prod_cases3)
  let ?M = "MATCHING_MOVE_FAILED_PRICE_OVER_RISK_LIMIT"
  have o: "x = code \<and> y = abstr b1 \<and> (if x = ?M then z = c\<lparr>cmd_action := cmd_action z\<rparr> else z = c)"
    "x = code' \<and> y = abstr b1' \<and> (if x = ?M then z = c'\<lparr>cmd_action := cmd_action z\<rparr> else z = c')"
    using 1(4) 2(4) unfolding same_outcome_def f fst_conv snd_conv by blast+
  then have eq: "code' = code" "abstr b1' = abstr b1" by simp_all
  have "same_reply code c c'"
  proof (cases "code = ?M")
    case True
    then have "c\<lparr>cmd_action := cmd_action z\<rparr> = c'\<lparr>cmd_action := cmd_action z\<rparr>" using o by metis
    then have "c' = c\<lparr>cmd_action := cmd_action c'\<rparr>" by (cases c, cases c') simp
    with True show ?thesis by (simp add: same_reply_def)
  next
    case False
    then have "c' = c" using o by metis
    then show ?thesis by (simp add: same_reply_def)
  qed
  with 1 2 eq assms(4) show ?thesis by metis
qed

end

text \<open>A loaded book takes what the saved one takes.\<close>

lemma same_book_admissible:
  assumes "same_book b b'"
  shows "admissible any_takes_new any_takes_move b' cmd \<longleftrightarrow> admissible any_takes_new any_takes_move b cmd"
  using assms
  by (cases b; cases b')
    (simp_all add: same_book_def admissible_def direct_takes_new_def direct_takes_move_def)

lemma same_map_put:
  "same_map same m m' \<Longrightarrow> same v v' \<Longrightarrow> same_map same (um_put k v m) (um_put k v' m')"
  unfolding same_map_def by (induction rule: list_all2_induct) auto

lemma wrapped_Inr:
  "map_naive r = Inr (b, x) \<longleftrightarrow> (\<exists>nb. b = Naive_Impl nb \<and> r = Inr (nb, x))"
  "map_direct r' = Inr (b, x) \<longleftrightarrow> (\<exists>db. b = Direct_Impl db \<and> r' = Inr (db, x))"
  "wrap_naive q = Inr (code, b, x) \<longleftrightarrow> (\<exists>nb. b = Naive_Impl nb \<and> q = Inr (code, nb, x))"
  "wrap_direct q' = Inr (code, b, x) \<longleftrightarrow> (\<exists>db. b = Direct_Impl db \<and> q' = Inr (code, db, x))"
  by ((cases r rule: map_naive.cases; auto), (cases r' rule: map_direct.cases; auto),
    (cases q rule: wrap_naive.cases; auto), (cases q' rule: wrap_direct.cases; auto))

lemma same_impl_refl: "same_impl b b"
  by (cases b) simp_all

lemma process_command_impl:
  assumes "process_command any_ops node b cmd = Inr (code, b1, c)" shows "same_impl b b1"
proof (cases b)
  case (Naive_Impl nb)
  with assms show ?thesis
    by (cases "cmd_command cmd")
      (auto simp: process_command_def any_ops_def bindE_eq_Inr wrapped_Inr split: if_splits)
next
  case (Direct_Impl db)
  with assms show ?thesis
    by (cases "cmd_command cmd")
      (auto simp: process_command_def any_ops_def bindE_eq_Inr wrapped_Inr split: if_splits)
qed

definition takes :: "order_command \<Rightarrow> any_book matching_router \<Rightarrow> bool" where
  "takes cmd me \<longleftrightarrow> (case get_order_book (cmd_symbol cmd) me of
     None \<Rightarrow> True | Some b \<Rightarrow> any_valid b \<and> admissible any_takes_new any_takes_move b cmd)"

lemma process_matching_command_alike:
  assumes me: "same_router me me'" and t: "takes cmd me" and depth: "0 \<le> me_cfgL2RefreshDepth me"
  shows "\<exists>c me1 c' me1'. process_matching_command any_ops node cmd me = Inr (c, me1) \<and>
    process_matching_command any_ops node cmd me' = Inr (c', me1') \<and> same_router me1 me1' \<and>
    same_reply (cmd_resultCode c) c c' \<and> me_cfgL2RefreshDepth me1 = me_cfgL2RefreshDepth me \<and>
    (\<forall>s b. um_find (me_orderBooks me1) s = Some b \<longrightarrow> any_valid b \<or> um_find (me_orderBooks me) s = Some b)"
proof -
  let ?s = "cmd_symbol cmd"
  obtain books where m: "me' = me\<lparr>me_orderBooks := books\<rparr>" "same_map same_book (me_orderBooks me) books"
    using me unfolding same_router_def by metis
  have find: "rel_option same_book (um_find (me_orderBooks me) ?s) (um_find books ?s)" by (rule same_map_find[OF m(2)])
  show ?thesis
  proof (cases "um_find (me_orderBooks me) ?s")
    case None
    then have "um_find books ?s = None" using find by (simp add: option_rel_Some1)
    with None me m show ?thesis
      by (simp add: process_matching_command_def get_order_book_def same_reply_def same_router_def)
  next
    case (Some b)
    then obtain b' where b': "um_find books ?s = Some b'" "same_book b b'"
      using find by (auto simp: option_rel_Some1)
    have b: "any_valid b" "admissible any_takes_new any_takes_move b cmd"
      using t Some by (simp_all add: takes_def get_order_book_def)
    have v: "any_valid b'" "any_abs b' = any_abs b" "any_spec b' = any_spec b"
      using b'(2) by (simp_all add: same_book_def)
    obtain code b1 c b1' c' where p: "process_command any_ops node b cmd = Inr (code, b1, c)"
      "process_command any_ops node b' cmd = Inr (code, b1', c')" "any_valid b1" "any_valid b1'"
      "any_abs b1' = any_abs b1" "any_spec b1 = any_spec b" "any_spec b1' = any_spec b" "same_reply code c c'"
      using any.process_command_alike[OF b(1) v b(2), of node] same_book_admissible[OF b'(2)] b(2) by blast
    have "same_impl b1 b1'"
      using b'(2) process_command_impl[OF p(1)] process_command_impl[OF p(2)]
      by (cases b; cases b'; cases b1; cases b1') (simp_all add: same_book_def)
    then have s1: "same_book b1 b1'" using p by (simp add: same_book_def)
    have l2: "op_l2Snapshot any_ops (me_cfgL2RefreshDepth me) b1' = op_l2Snapshot any_ops (me_cfgL2RefreshDepth me) b1"
      using any.l2_law[OF p(3) depth] any.l2_law[OF p(4) depth] p(5) by simp
    show ?thesis
    proof (cases "c' = c")
      case True
      with p(1-3) Some b' m l2 s1 show ?thesis
        by (simp add: process_matching_command_def get_order_book_def same_reply_def same_router_def same_map_put Let_def)
    next
      case False
      then have f: "code = MATCHING_MOVE_FAILED_PRICE_OVER_RISK_LIMIT" "c' = c\<lparr>cmd_action := cmd_action c'\<rparr>"
        using p(8) by (simp_all add: same_reply_def)
      then have e: "c'\<lparr>cmd_resultCode := code\<rparr> = (c\<lparr>cmd_resultCode := code\<rparr>)\<lparr>cmd_action := cmd_action c'\<rparr>"
        by (cases c, cases c') simp
      have "process_matching_command any_ops node cmd me =
          Inr (c\<lparr>cmd_resultCode := code\<rparr>, me\<lparr>me_orderBooks := um_put ?s b1 (me_orderBooks me)\<rparr>)"
        "process_matching_command any_ops node cmd me' =
          Inr (c'\<lparr>cmd_resultCode := code\<rparr>, me\<lparr>me_orderBooks := um_put ?s b1' books\<rparr>)"
        using p(1,2) Some b'(1) m f(1) by (simp_all add: process_matching_command_def get_order_book_def Let_def)
      moreover have "same_reply code (c\<lparr>cmd_resultCode := code\<rparr>) (c'\<lparr>cmd_resultCode := code\<rparr>)"
        using e f(1) by (simp add: same_reply_def)
      ultimately show ?thesis using s1 m p(3) by (simp add: same_router_def same_map_put)
    qed
  qed
qed

end
