(* ===== verification/Snapshot_Files.thy ===== *)
theory Snapshot_Files
  imports Snapshot Long_Arrays Direct_Correct Samples
begin

text \<open>
  The snapshot files of \<open>DiskSerializationProcessor\<close> (\<open>StoreData\<close>, \<open>LoadData\<close>): two sizes and
  an LZ4 block per engine; and what engines do that were loaded from them. The disk is a map from
  the parts of a file's name to its content; writes that the operating system refuses are not
  modelled.
\<close>

section \<open>Files\<close>

datatype serialized_module_type = RISK_ENGINE | MATCHING_ENGINE_ROUTER

type_synonym snapshot_key = "int \<times> serialized_module_type \<times> int"
type_synonym snapshot_files = "snapshot_key \<Rightarrow> bytes option"

text \<open>
  \<open>StoreData\<close>: the file is created (an old one is emptied) before anything can fail.
\<close>

definition store_data :: "lz4 \<Rightarrow> snapshot_key \<Rightarrow> bytes \<Rightarrow> snapshot_files \<Rightarrow> snapshot_files \<times> bool" where
  "store_data lz key serialized files =
     (if serialized = [] then (files(key \<mapsto> []), False)
      else case lz_compress lz serialized of
             None \<Rightarrow> (files(key \<mapsto> []), False)
           | Some c \<Rightarrow>
               (files(key \<mapsto> le_bytes 4 (int (length serialized)) @ le_bytes 4 (int (length c)) @ c), True))"

definition check_snapshot_exists :: "snapshot_key \<Rightarrow> snapshot_files \<Rightarrow> bool" where
  "check_snapshot_exists key files \<longleftrightarrow> files key \<noteq> None"

definition load_data :: "lz4 \<Rightarrow> snapshot_key \<Rightarrow> 'a reader \<Rightarrow> snapshot_files \<Rightarrow> exn + 'a" where
  "load_data lz key init files =
     (case files key of
        None \<Rightarrow> Inl (Runtime_Error ''Can not open snapshot file'')
      | Some content \<Rightarrow>
          if length content < 8 then Inl (Runtime_Error ''Snapshot file too small'')
          else let originalSize = signed_value 4 (le_value (take 4 content));
                   compressedSize = signed_value 4 (le_value (take 4 (drop 4 content)))
               in if originalSize \<le> 0 \<or> compressedSize \<le> 0 \<or> 100000000 < originalSize \<or> 100000000 < compressedSize
                  then Inl (Runtime_Error ''Invalid snapshot file sizes'')
                  else if int (length content) < 8 + compressedSize
                  then Inl (Runtime_Error ''Snapshot file too small for compressed data'')
                  else case lz_decompress lz (take (nat compressedSize) (drop 8 content)) (nat originalSize) of
                         None \<Rightarrow> Inl (Runtime_Error ''LZ4 decompression failed'')
                       | Some out \<Rightarrow>
                           if length out \<noteq> nat originalSize then Inl (Runtime_Error ''LZ4 decompression failed'')
                           else bindE (init out) (\<lambda>(x, _). Inr x))"

lemma write_int_not_Nil [simp]: "write_int x \<noteq> []"
  unfolding write_int_def by (metis length_le_bytes list.size(3) zero_neq_numeral)

lemma signed_le_bytes: "0 < n \<Longrightarrow> fits n x \<Longrightarrow> signed_value n (le_value (le_bytes n x)) = x"
  by (simp add: le_value_le_bytes signed_value_mod)

text \<open>
  \<open>StoreData\<close> succeeds for whatever LZ4 takes; \<open>LoadData\<close> refuses a file when one of its sizes is
  above 100,000,000 and otherwise hands over the bytes that were stored.
\<close>

lemma stored_file:
  assumes lz: "lz4_ok lz" and bs: "bs \<noteq> []" "length bs \<le> 2113929216"
  shows "\<exists>c files'. lz_compress lz bs = Some c \<and> length c \<le> lz_compress_bound (length bs) \<and>
    store_data lz key bs files = (files', True) \<and> check_snapshot_exists key files' \<and>
    (\<forall>k. k \<noteq> key \<longrightarrow> files' k = files k) \<and>
    (\<forall>init :: 'v reader. load_data lz key init files' =
       (if length bs \<le> 100000000 \<and> length c \<le> 100000000 then bindE (init bs) (\<lambda>(x, _). Inr x)
        else Inl (Runtime_Error ''Invalid snapshot file sizes'')))"
proof -
  from lz4_okD[OF lz bs] obtain c where
    c: "lz_compress lz bs = Some c" "length c \<le> lz_compress_bound (length bs)" "c \<noteq> []"
      "lz_decompress lz c (length bs) = Some bs" by blast
  have n: "length c \<le> 2122219150" using c(2) bs(2) unfolding lz_compress_bound_def by linarith
  let ?content = "le_bytes 4 (int (length bs)) @ le_bytes 4 (int (length c)) @ c"
  have s: "signed_value 4 (le_value (le_bytes 4 (int (length bs)))) = int (length bs)"
    "signed_value 4 (le_value (le_bytes 4 (int (length c)))) = int (length c)"
    using n bs(2) by (auto intro!: signed_le_bytes simp: fits_def)
  have pos: "0 < length bs" "0 < length c" using bs(1) c(3) by simp_all
  have "load_data lz key init (files(key \<mapsto> ?content)) =
      (if length bs \<le> 100000000 \<and> length c \<le> 100000000 then bindE (init bs) (\<lambda>(x, _). Inr x)
       else Inl (Runtime_Error ''Invalid snapshot file sizes''))" for init :: "'v reader"
    using c(4) pos s by (simp add: load_data_def Let_def del: le_bytes.simps)
  with c(1,2) bs(1) show ?thesis
    by (intro exI[of _ c] exI[of _ "files(key \<mapsto> ?content)"]) (simp add: store_data_def check_snapshot_exists_def)
qed

lemma stored_is_loaded:
  assumes lz: "lz4_ok lz" and bs: "bs \<noteq> []" "length bs \<le> 99000000"
  shows "\<exists>files'. store_data lz key bs files = (files', True) \<and> check_snapshot_exists key files' \<and>
    (\<forall>k. k \<noteq> key \<longrightarrow> files' k = files k) \<and>
    (\<forall>init :: 'v reader. load_data lz key init files' = bindE (init bs) (\<lambda>(x, _). Inr x))"
proof -
  have "length bs \<le> 2113929216" using bs(2) by simp
  from stored_file[OF lz bs(1) this, of key files] obtain c :: bytes and files' where
    f: "store_data lz key bs files = (files', True)" "check_snapshot_exists key files'"
      "\<forall>k. k \<noteq> key \<longrightarrow> files' k = files k" "length c \<le> lz_compress_bound (length bs)"
      "\<forall>init :: 'v reader. load_data lz key init files' =
         (if length bs \<le> 100000000 \<and> length c \<le> 100000000 then bindE (init bs) (\<lambda>(x, _). Inr x)
          else Inl (Runtime_Error ''Invalid snapshot file sizes''))" by blast
  have "length c \<le> 100000000" using f(4) bs(2) unfolding lz_compress_bound_def by linarith
  with f bs(2) show ?thesis by (intro exI[of _ files']) simp
qed

section \<open>Runs of a matching engine\<close>

fun run_matching ::
  "trade_event \<Rightarrow> order_command list \<Rightarrow> any_book matching_router \<Rightarrow>
     exn + (order_command list \<times> any_book matching_router)" where
  "run_matching node [] me = Inr ([], me)"
| "run_matching node (cmd # cmds) me =
     bindE (process_matching_command any_ops node cmd me) (\<lambda>(c, me1).
       bindE (run_matching node cmds me1) (\<lambda>(cs, me2). Inr (c # cs, me2)))"

text \<open>Every command is one that the book of its symbol is made for.\<close>

fun all_taken :: "trade_event \<Rightarrow> order_command list \<Rightarrow> any_book matching_router \<Rightarrow> bool" where
  "all_taken node [] me = True"
| "all_taken node (cmd # cmds) me =
     ((case get_order_book (cmd_symbol cmd) me of None \<Rightarrow> True
       | Some b \<Rightarrow> admissible any_takes_new any_takes_move b cmd) \<and>
      (case process_matching_command any_ops node cmd me of Inl _ \<Rightarrow> True | Inr (_, me1) \<Rightarrow> all_taken node cmds me1))"

definition books_valid :: "any_book matching_router \<Rightarrow> bool" where
  "books_valid me \<longleftrightarrow> (\<forall>s b. um_find (me_orderBooks me) s = Some b \<longrightarrow> any_valid b)"

lemma run_matching_alike:
  assumes "same_router me me'" and "books_valid me" and "0 \<le> me_cfgL2RefreshDepth me" and "all_taken node cmds me"
  shows "\<exists>out me1 out' me1'. run_matching node cmds me = Inr (out, me1) \<and> run_matching node cmds me' = Inr (out', me1') \<and>
    list_all2 (\<lambda>c c'. same_reply (cmd_resultCode c) c c') out out' \<and> same_router me1 me1'"
  using assms
proof (induction cmds arbitrary: me me')
  case Nil
  then show ?case by simp
next
  case (Cons cmd cmds)
  have "takes cmd me"
    using Cons.prems(2,4) by (auto simp: takes_def books_valid_def get_order_book_def split: option.splits)
  from process_matching_command_alike[OF Cons.prems(1) this Cons.prems(3), of node]
  obtain c me1 c' me1' where p: "process_matching_command any_ops node cmd me = Inr (c, me1)"
    "process_matching_command any_ops node cmd me' = Inr (c', me1')" "same_router me1 me1'"
    "same_reply (cmd_resultCode c) c c'" "me_cfgL2RefreshDepth me1 = me_cfgL2RefreshDepth me"
    "\<forall>s b. um_find (me_orderBooks me1) s = Some b \<longrightarrow> any_valid b \<or> um_find (me_orderBooks me) s = Some b" by blast
  have "books_valid me1" using p(6) Cons.prems(2) unfolding books_valid_def by blast
  moreover have "all_taken node cmds me1" using Cons.prems(4) p(1) by simp
  ultimately obtain out me2 out' me2' where "run_matching node cmds me1 = Inr (out, me2)"
    "run_matching node cmds me1' = Inr (out', me2')"
    "list_all2 (\<lambda>c c'. same_reply (cmd_resultCode c) c c') out out'" "same_router me2 me2'"
    using Cons.IH[OF p(3)] p(5) Cons.prems(3) by auto
  with p show ?case by simp
qed

section \<open>Properties\<close>

text \<open>C22:
  Storing a risk engine reports success for every size that LZ4 takes (2,113,929,216 bytes), and
  exactly the engines of at most 100,000,000 bytes, written and compressed, can be loaded again:
  they come back in an engine of the same shard and configuration as they were (users with
  accounts and positions, symbols, transfers in progress, prices, fees, adjustments and
  suspends), and an engine of another shard refuses the file. The file of a larger engine is
  refused for its sizes by every engine, although storing it succeeded. Whatever LZ4 makes of
  them, 99,000,000 bytes are never too many. Other files are untouched. Assumed are an LZ4 that
  keeps its contract and an engine whose fields fit their types.
\<close>

theorem risk_engine_snapshot_restored:
  assumes "lz4_ok lz" and "risk_engine_fits re" and "length (write_risk_engine re) \<le> 2113929216" and "same_config re0 re"
  shows "\<exists>files' c. store_data lz key (write_risk_engine re) files = (files', True) \<and>
    (\<forall>k. k \<noteq> key \<longrightarrow> files' k = files k) \<and> lz_compress lz (write_risk_engine re) = Some c \<and>
    (if length (write_risk_engine re) \<le> 100000000 \<and> length c \<le> 100000000
     then load_data lz key (read_risk_engine re0) files' = Inr re \<and>
       (re_shardId re1 \<noteq> re_shardId re \<or> re_shardMask re1 \<noteq> re_shardMask re \<longrightarrow>
          (\<exists>e. load_data lz key (read_risk_engine re1) files' = Inl e))
     else load_data lz key (read_risk_engine re1) files' = Inl (Runtime_Error ''Invalid snapshot file sizes'')) \<and>
    (length (write_risk_engine re) \<le> 99000000 \<longrightarrow> length c \<le> 100000000)"
proof -
  have "write_risk_engine re \<noteq> []" by (simp add: write_risk_engine_def)
  from stored_file[OF assms(1) this assms(3), of key files] obtain c files' where
    f: "lz_compress lz (write_risk_engine re) = Some c" "store_data lz key (write_risk_engine re) files = (files', True)"
    "\<forall>k. k \<noteq> key \<longrightarrow> files' k = files k" "length c \<le> lz_compress_bound (length (write_risk_engine re))"
    "\<forall>init :: risk_engine reader. load_data lz key init files' =
       (if length (write_risk_engine re) \<le> 100000000 \<and> length c \<le> 100000000
        then bindE (init (write_risk_engine re)) (\<lambda>(x, _). Inr x)
        else Inl (Runtime_Error ''Invalid snapshot file sizes''))" by blast
  have "read_risk_engine re0 (write_risk_engine re) = Inr (re, [])"
    using risk_engine_codec.exact_all[of re re0] assms(2,4) by simp
  moreover have "\<exists>e. read_risk_engine re1 (write_risk_engine re) = Inl e"
    if "re_shardId re1 \<noteq> re_shardId re \<or> re_shardMask re1 \<noteq> re_shardMask re"
    using risk_engine_of_other_shard[OF assms(2) that] by auto
  moreover have "length c \<le> 100000000" if "length (write_risk_engine re) \<le> 99000000"
    using f(4) that unfolding lz_compress_bound_def by linarith
  ultimately show ?thesis using f by (intro exI[of _ files'] exI[of _ c]) auto
qed

definition sample_stored_engine :: risk_engine where
  "sample_stored_engine = \<lparr>re_shardId = 0, re_shardMask = 0, re_symbolSpecs = [(7, sample_spec)],
     re_userProfiles = [(5, \<lparr>up_uid = 5, up_positions = [], up_adjustmentsCounter = 2,
       up_accounts = [(15, 1000), (11, 40)], up_userStatus = ACTIVE\<rparr>)],
     re_incomingData = [], re_lastPriceCache = [(7, \<lparr>lp_askPrice = 20, lp_bidPrice = 18\<rparr>)],
     re_fees = [(15, 3)], re_adjustments = [(15, -1000), (11, -43)], re_suspends = [],
     re_cfgIgnoreRiskProcessing = False, re_cfgMarginTradingEnabled = False\<rparr>"

definition sample_fresh_engine :: risk_engine where
  "sample_fresh_engine = sample_stored_engine\<lparr>re_symbolSpecs := [], re_userProfiles := [],
     re_lastPriceCache := [], re_fees := [], re_adjustments := []\<rparr>"

theorem risk_engine_snapshot_restored_witness:
  "\<exists>files'. store_data sample_lz4 (3, RISK_ENGINE, 0) (write_risk_engine sample_stored_engine) (\<lambda>_. None) = (files', True) \<and>
    load_data sample_lz4 (3, RISK_ENGINE, 0) (read_risk_engine sample_fresh_engine) files' = Inr sample_stored_engine"
proof -
  have "risk_engine_fits sample_stored_engine"
    by (simp add: risk_engine_fits_def sample_stored_engine_def valid_map_def fits_def symbol_spec_fits_def
        sample_spec_def user_profile_fits_def last_price_fits_def)
  moreover have n: "length (write_risk_engine sample_stored_engine) \<le> 99000000"
    by (simp add: write_risk_engine_def sample_stored_engine_def write_map_def write_int_def write_long_def write_byte_def
        write_symbol_spec_def write_user_profile_def write_last_price_def)
  moreover have "length (write_risk_engine sample_stored_engine) \<le> 2113929216"
    "length (write_risk_engine sample_stored_engine) \<le> 100000000" using n by simp_all
  moreover have "same_config sample_fresh_engine sample_stored_engine"
    by (simp add: same_config_def sample_fresh_engine_def sample_stored_engine_def)
  ultimately show ?thesis
    using risk_engine_snapshot_restored[OF sample_lz4_ok, of sample_stored_engine sample_fresh_engine
        "(3, RISK_ENGINE, 0)" "\<lambda>_. None"] by metis
qed

text \<open>C23:
  A matching engine with valid books of either implementation that takes at most 99,000,000
  bytes is stored with success, and the engine loaded from the file by a router of the same
  configuration answers any run of commands that the books are made for (orders of positive
  size; in a direct book prices at least zero and a cost that is not the greatest integer) like
  the one that was stored: the same results, events and market data (but for the action in a
  move that is refused), with books that keep the same orders in the same priority.
\<close>

theorem matching_engine_snapshot_answers_alike:
  assumes "lz4_ok lz" and "router_fits me" and "same_router_config me0 me"
    and "length (write_router me) \<le> 99000000" and "0 \<le> me_cfgL2RefreshDepth me" and "all_taken node cmds me"
  shows "\<exists>files' me' out me1 out' me1'. store_data lz key (write_router me) files = (files', True) \<and>
    load_data lz key (read_router me0) files' = Inr me' \<and> same_router me me' \<and>
    run_matching node cmds me = Inr (out, me1) \<and> run_matching node cmds me' = Inr (out', me1') \<and>
    list_all2 (\<lambda>c c'. same_reply (cmd_resultCode c) c c') out out' \<and> same_router me1 me1'"
proof -
  have "write_router me \<noteq> []" by (simp add: write_router_def)
  from stored_is_loaded[OF assms(1) this assms(4), of key files] obtain files' where
    f: "store_data lz key (write_router me) files = (files', True)"
    "load_data lz key (read_router me0) files' = bindE (read_router me0 (write_router me)) (\<lambda>(x, _). Inr x)" by blast
  obtain me' where me': "read_router me0 (write_router me) = Inr (me', [])" "same_router me me'"
    using router_codec.reads_all[of me me0] assms(2,3) by blast
  have "books_valid me"
    using assms(2) by (auto simp: books_valid_def router_fits_def valid_map_def dest!: map_of_SomeD)
  from run_matching_alike[OF me'(2) this assms(5,6)] f me' show ?thesis by fastforce
qed

definition sample_router :: "any_book matching_router" where
  "sample_router = \<lparr>me_shardId = 0, me_shardMask = 0, me_symbolSpecProvider = None, me_incomingData = [],
     me_orderBooks = [(7, Direct_Impl (new_direct_book sample_spec)), (8, Naive_Impl sample_book)],
     me_cfgMarginTradingEnabled = False, me_cfgSendL2ForEveryCmd = True, me_cfgL2RefreshDepth = 8\<rparr>"

definition sample_run :: "order_command list" where
  "sample_run = [sample_order IOC 101 2 BID 21 3, (sample_order GTC 102 3 ASK 19 2)\<lparr>cmd_symbol := 8\<rparr>]"

lemma sample_book_state:
  "nb_askBuckets sample_book = [(20, \<lparr>bk_price = 20, bk_totalVolume = 4, bk_orderList = [0], bk_orderMap = [(100, 0)]\<rparr>)]"
  "nb_bidBuckets sample_book = []" "hp_cells (nb_heap sample_book) 0 = Some sample_ask"
  by code_simp+

lemma sample_router_stores:
  "router_fits sample_router \<and> same_router_config (sample_router\<lparr>me_orderBooks := []\<rparr>) sample_router \<and>
   length (write_router sample_router) \<le> 99000000"
proof -
  have n: "naive_fits sample_book"
    using sample_book_ok by (simp add: naive_fits_def side_fits_def bucket_fits_def sample_book_state ord_at_def
        sample_ask_def order_fits_def fits_def symbol_spec_fits_def sample_spec_def)
  then have "router_fits sample_router"
    using sample_book_ok new_direct_book_inv
    by (simp add: router_fits_def sample_router_def valid_map_def fits_def direct_fits_def fb_orders_def
        symbol_spec_fits_def sample_spec_def) (simp add: new_direct_book_def)
  moreover have "same_router_config (sample_router\<lparr>me_orderBooks := []\<rparr>) sample_router"
    by (simp add: same_router_config_def sample_router_def)
  moreover have "length (write_naive_book sample_book) \<le> 1000"
    using sample_book_ok by (simp add: write_naive_book_def write_side_def write_bucket_def write_map_def to_umap_id
        sample_book_state ord_at_def write_order_def write_int_def write_long_def write_byte_def write_symbol_spec_def)
  then have "length (write_router sample_router) \<le> 99000000"
    by (simp add: write_router_def sample_router_def to_umap_id write_map_def write_direct_book_def write_int_def
        write_long_def write_byte_def write_symbol_spec_def new_direct_book_def direct_side_orders_def
        direct_process_orders_def)
  ultimately show ?thesis by blast
qed

theorem matching_engine_snapshot_answers_alike_witness:
  "\<exists>files' me' out me1 out' me1'.
    store_data sample_lz4 (3, MATCHING_ENGINE_ROUTER, 0) (write_router sample_router) (\<lambda>_. None) = (files', True) \<and>
    load_data sample_lz4 (3, MATCHING_ENGINE_ROUTER, 0) (read_router (sample_router\<lparr>me_orderBooks := []\<rparr>)) files' = Inr me' \<and>
    run_matching default_event sample_run sample_router = Inr (out, me1) \<and>
    run_matching default_event sample_run me' = Inr (out', me1') \<and>
    list_all2 (\<lambda>c c'. same_reply (cmd_resultCode c) c c') out out'"
proof -
  have "0 \<le> me_cfgL2RefreshDepth sample_router" by (simp add: sample_router_def)
  moreover have "all_taken default_event sample_run sample_router"
  proof -
    have "admissible any_takes_new any_takes_move b c" if "c \<in> set sample_run" for b c
      using that by (cases b) (auto simp: sample_run_def admissible_def placeable_def direct_takes_new_def
          sample_defs default_command_def art_key_def INT64_MAX_def)
    then show ?thesis by (simp add: sample_run_def split: option.split sum.split)
  qed
  ultimately show ?thesis
    using matching_engine_snapshot_answers_alike[OF sample_lz4_ok] sample_router_stores by blast
qed

end
