(* ===== verification/Journal.thy ===== *)
theory Journal
  imports Exchange_Api Snapshot_Files
begin

text \<open>
  The journal of \<open>DiskSerializationProcessor\<close>: mutating commands are written to a buffer, the
  buffer to numbered files, as it is or as an LZ4 block; at a start the files are read back and
  the commands replayed through the API. Files are a map from snapshot and number; refusals of the
  operating system are not modelled.
\<close>

section \<open>State\<close>

text \<open>
  The descriptors form linked lists in the order of creation, which are lists here; a reference
  to one is its position.
\<close>

record journal_descriptor =
  jd_timestampNs :: int
  jd_seqFirst :: int
  jd_seqLast :: int
  jd_baseSnapshot :: nat

record snapshot_descriptor =
  sd_snapshotId :: int
  sd_seq :: int
  sd_timestampNs :: int
  sd_numMatchingEngines :: int
  sd_numRiskEngines :: int
  sd_journals :: "(int, nat) umap"

type_synonym journal_files = "(int \<times> int, bytes) umap"

record journal_config =
  jc_bufferSize :: nat
  jc_bufferFlushTrigger :: nat
  jc_fileMaxSize :: int
  jc_batchCompressThreshold :: nat

record disk_processor =
  dp_config :: journal_config
  dp_baseSeq :: int
  dp_snapshots :: "snapshot_descriptor list"
  dp_snapshotsIndex :: "(int, nat) umap"
  dp_journals :: "journal_descriptor list"
  dp_baseSnapshotId :: int
  dp_enableJournalAfterSeq :: int
  dp_filesCounter :: int
  dp_writtenBytes :: int
  dp_lastWrittenSeq :: int
  dp_buffer :: bytes
  dp_journalFile :: "(int \<times> int) option"
  dp_files :: journal_files

definition create_empty :: "int \<Rightarrow> int \<Rightarrow> snapshot_descriptor" where
  "create_empty numME numRE = \<lparr>sd_snapshotId = 0, sd_seq = 0, sd_timestampNs = 0,
     sd_numMatchingEngines = numME, sd_numRiskEngines = numRE, sd_journals = []\<rparr>"

definition create_next :: "int \<Rightarrow> int \<Rightarrow> int \<Rightarrow> snapshot_descriptor \<Rightarrow> snapshot_descriptor" where
  "create_next snapshotId seq timestampNs sd = \<lparr>sd_snapshotId = snapshotId, sd_seq = seq,
     sd_timestampNs = timestampNs, sd_numMatchingEngines = sd_numMatchingEngines sd,
     sd_numRiskEngines = sd_numRiskEngines sd, sd_journals = []\<rparr>"

text \<open>
  \<open>DiskSerializationProcessorConfiguration\<close>: the two derived settings. The trigger is compared as
  an unsigned 64-bit number.
\<close>

definition new_journal_config :: "nat \<Rightarrow> int \<Rightarrow> nat \<Rightarrow> journal_config" where
  "new_journal_config bufferSize fileMaxSize threshold =
     \<lparr>jc_bufferSize = bufferSize, jc_bufferFlushTrigger = nat ((int bufferSize - 256) mod 2 ^ 64),
      jc_fileMaxSize = fileMaxSize - int bufferSize, jc_batchCompressThreshold = threshold\<rparr>"

definition new_disk_processor ::
  "journal_config \<Rightarrow> int \<Rightarrow> int \<Rightarrow> int \<Rightarrow> int \<Rightarrow> journal_files \<Rightarrow> disk_processor" where
  "new_disk_processor cfg baseSeq snapshotId numME numRE files =
     \<lparr>dp_config = cfg, dp_baseSeq = baseSeq, dp_snapshots = [create_empty numME numRE],
      dp_snapshotsIndex = [(0, 0)], dp_journals = [], dp_baseSnapshotId = snapshotId,
      dp_enableJournalAfterSeq = -1, dp_filesCounter = 0, dp_writtenBytes = 0, dp_lastWrittenSeq = -1,
      dp_buffer = [], dp_journalFile = None, dp_files = files\<rparr>"

section \<open>Writing\<close>

definition register_next_journal :: "int \<Rightarrow> int \<Rightarrow> disk_processor \<Rightarrow> disk_processor" where
  "register_next_journal seq timestampNs dp =
     (let base = length (dp_snapshots dp) - 1; j = length (dp_journals dp); sd = dp_snapshots dp ! base
      in dp\<lparr>dp_journals := dp_journals dp @ [\<lparr>jd_timestampNs = timestampNs, jd_seqFirst = seq,
                jd_seqLast = -1, jd_baseSnapshot = base\<rparr>],
            dp_snapshots := (dp_snapshots dp)[base := sd\<lparr>sd_journals := um_put seq j (sd_journals sd)\<rparr>]\<rparr>)"

definition register_next_snapshot :: "int \<Rightarrow> int \<Rightarrow> int \<Rightarrow> disk_processor \<Rightarrow> disk_processor" where
  "register_next_snapshot snapshotId seq timestampNs dp =
     dp\<lparr>dp_snapshots := dp_snapshots dp @ [create_next snapshotId seq timestampNs (List.last (dp_snapshots dp))],
        dp_snapshotsIndex := um_put snapshotId (length (dp_snapshots dp)) (dp_snapshotsIndex dp)\<rparr>"

text \<open>The open file is closed before the name of the next one is checked.\<close>

definition start_new_file :: "int \<Rightarrow> disk_processor \<Rightarrow> disk_processor \<times> (exn + unit)" where
  "start_new_file timestampNs dp =
     (let n = dp_filesCounter dp + 1;
          js = dp_journals dp;
          dp1 = dp\<lparr>dp_filesCounter := n, dp_journalFile := None,
            dp_journals := (if dp_journalFile dp = None \<or> js = [] then js
              else butlast js @ [(List.last js)\<lparr>jd_seqLast := dp_lastWrittenSeq dp\<rparr>])\<rparr>;
          fileName = (dp_baseSnapshotId dp, n)
      in if um_find (dp_files dp) fileName \<noteq> None then (dp1, Inl (Runtime_Error ''File already exists''))
         else (register_next_journal (dp_baseSnapshotId dp) timestampNs
                 (dp1\<lparr>dp_journalFile := Some fileName, dp_files := um_put fileName [] (dp_files dp)\<rparr>), Inr ()))"

definition append_file :: "bytes \<Rightarrow> disk_processor \<Rightarrow> disk_processor" where
  "append_file bs dp =
     (case dp_journalFile dp of
        None \<Rightarrow> dp
      | Some f \<Rightarrow> dp\<lparr>dp_files := um_put f (case um_find (dp_files dp) f of None \<Rightarrow> bs | Some old \<Rightarrow> old @ bs) (dp_files dp)\<rparr>)"

text \<open>
  Small buffers are written as they are, bigger ones as a block: marker, compressed size, original
  size, data. A buffer that cannot be compressed, or with no file open, is dropped.
\<close>

definition compressed_block :: "bytes \<Rightarrow> bytes \<Rightarrow> bytes" where
  "compressed_block original c =
     write_byte (command_type_to_code RESERVED_COMPRESSED) @ le_bytes 4 (int (length c)) @
     le_bytes 4 (int (length original)) @ c"

definition write_buffer :: "lz4 \<Rightarrow> disk_processor \<Rightarrow> disk_processor" where
  "write_buffer lz dp =
     (let buf = dp_buffer dp in
      if length buf < jc_batchCompressThreshold (dp_config dp)
      then append_file buf (dp\<lparr>dp_writtenBytes := dp_writtenBytes dp + int (length buf), dp_buffer := []\<rparr>)
      else case lz_compress lz buf of
             None \<Rightarrow> dp\<lparr>dp_buffer := []\<rparr>
           | Some c \<Rightarrow>
               if dp_journalFile dp = None then dp\<lparr>dp_buffer := []\<rparr>
               else append_file (compressed_block buf c)
                      (dp\<lparr>dp_writtenBytes := dp_writtenBytes dp + int (length c) + 9, dp_buffer := []\<rparr>))"

definition flush_buffer_sync :: "lz4 \<Rightarrow> bool \<Rightarrow> int \<Rightarrow> disk_processor \<Rightarrow> disk_processor \<times> (exn + unit)" where
  "flush_buffer_sync lz forceStartNextFile timestampNs dp =
     (let dp1 = write_buffer lz dp
      in if forceStartNextFile \<or> dp_writtenBytes dp1 \<ge> jc_fileMaxSize (dp_config dp1)
         then bindA (start_new_file timestampNs dp1) (\<lambda>_ dp2. (dp2\<lparr>dp_writtenBytes := 0\<rparr>, Inr ()))
         else (dp1, Inr ()))"

text \<open>The record of a command: mandatory fields and those of its type.\<close>

definition write_header :: "order_command \<Rightarrow> int \<Rightarrow> bytes" where
  "write_header cmd currentSeq = write_long currentSeq @ write_long (cmd_timestamp cmd) @
     write_int (cmd_serviceFlags cmd) @ write_long (cmd_eventsGroup cmd)"

definition action_and_type :: "order_command \<Rightarrow> int" where
  "action_and_type cmd = 2 * order_type_to_code (cmd_orderType cmd) + order_action_to_code (cmd_action cmd)"

definition write_body :: "order_command \<Rightarrow> bytes" where
  "write_body cmd = (case cmd_command cmd of
     MOVE_ORDER \<Rightarrow> write_long (cmd_uid cmd) @ write_int (cmd_symbol cmd) @ write_long (cmd_orderId cmd) @ write_long (cmd_price cmd)
   | CANCEL_ORDER \<Rightarrow> write_long (cmd_uid cmd) @ write_int (cmd_symbol cmd) @ write_long (cmd_orderId cmd)
   | REDUCE_ORDER \<Rightarrow> write_long (cmd_uid cmd) @ write_int (cmd_symbol cmd) @ write_long (cmd_orderId cmd) @ write_long (cmd_size cmd)
   | PLACE_ORDER \<Rightarrow> write_long (cmd_uid cmd) @ write_int (cmd_symbol cmd) @ write_long (cmd_orderId cmd) @
       write_long (cmd_price cmd) @ write_long (cmd_reserveBidPrice cmd) @ write_long (cmd_size cmd) @
       write_int (cmd_userCookie cmd) @ write_byte (action_and_type cmd)
   | BALANCE_ADJUSTMENT \<Rightarrow> write_long (cmd_uid cmd) @ write_int (cmd_symbol cmd) @ write_long (cmd_orderId cmd) @
       write_long (cmd_price cmd) @ write_byte (order_type_to_code (cmd_orderType cmd))
   | ADD_USER \<Rightarrow> write_long (cmd_uid cmd)
   | SUSPEND_USER \<Rightarrow> write_long (cmd_uid cmd)
   | RESUME_USER \<Rightarrow> write_long (cmd_uid cmd)
   | BINARY_DATA_COMMAND \<Rightarrow> write_byte (cmd_symbol cmd) @ write_long (cmd_orderId cmd) @ write_long (cmd_price cmd) @
       write_long (cmd_reserveBidPrice cmd) @ write_long (cmd_size cmd) @ write_long (cmd_uid cmd)
   | _ \<Rightarrow> [])"

definition write_command :: "order_command \<Rightarrow> int \<Rightarrow> bytes" where
  "write_command cmd currentSeq =
     write_byte (command_type_to_code (cmd_command cmd)) @ write_header cmd currentSeq @ write_body cmd"

text \<open>What follows a record in the buffer: a snapshot, a reset, the end of a batch or a full buffer.\<close>

definition after_record :: "lz4 \<Rightarrow> order_command \<Rightarrow> int \<Rightarrow> bool \<Rightarrow> disk_processor \<Rightarrow> disk_processor \<times> (exn + unit)" where
  "after_record lz cmd dSeq eob dp =
     (if cmd_command cmd = PERSIST_STATE_RISK
      then flush_buffer_sync lz True (cmd_timestamp cmd)
             ((register_next_snapshot (cmd_orderId cmd) (dp_baseSeq dp + dSeq) (cmd_timestamp cmd) dp)
                \<lparr>dp_baseSnapshotId := cmd_orderId cmd, dp_filesCounter := 0\<rparr>)
      else if cmd_command cmd = RESET then flush_buffer_sync lz True (cmd_timestamp cmd) dp
      else if eob \<or> length (dp_buffer dp) \<ge> jc_bufferFlushTrigger (dp_config dp)
      then flush_buffer_sync lz False (cmd_timestamp cmd) dp
      else (dp, Inr ()))"

text \<open>A record that does not fit the buffer would be written out of bounds.\<close>

definition put_record :: "bytes \<Rightarrow> int \<Rightarrow> disk_processor \<Rightarrow> disk_processor \<times> (exn + unit)" where
  "put_record bs seq dp =
     (if length (dp_buffer dp) + length bs > jc_bufferSize (dp_config dp) then (dp, Inl Out_Of_Bounds)
      else (dp\<lparr>dp_buffer := dp_buffer dp @ bs, dp_lastWrittenSeq := seq\<rparr>, Inr ()))"

definition write_to_journal ::
  "lz4 \<Rightarrow> order_command \<Rightarrow> int \<Rightarrow> bool \<Rightarrow> disk_processor \<Rightarrow> disk_processor \<times> (exn + unit)" where
  "write_to_journal lz cmd dSeq eob dp =
     (if dp_enableJournalAfterSeq dp = -1 \<or> dSeq + dp_baseSeq dp \<le> dp_enableJournalAfterSeq dp then (dp, Inr ())
      else if cmd_command cmd = SHUTDOWN_SIGNAL then flush_buffer_sync lz False (cmd_timestamp cmd) dp
      else if \<not> is_mutate (cmd_command cmd) then (dp, Inr ())
      else
        bindA (if dp_journalFile dp = None then start_new_file (cmd_timestamp cmd) dp else (dp, Inr ())) (\<lambda>_ dp1.
        bindA (if length (dp_buffer dp1) + 256 > jc_bufferSize (dp_config dp1)
               then flush_buffer_sync lz False (cmd_timestamp cmd) dp1 else (dp1, Inr ())) (\<lambda>_ dp2.
        bindA (put_record (write_command cmd (dp_baseSeq dp2 + dSeq)) (dp_baseSeq dp2 + dSeq) dp2) (\<lambda>_ dp3.
          after_record lz cmd dSeq eob dp3))))"

definition enable_journaling :: "'r ring \<Rightarrow> int \<Rightarrow> 'r \<Rightarrow> disk_processor \<Rightarrow> disk_processor \<times> 'r \<times> (exn + int)" where
  "enable_journaling rb afterSeq r dp =
     (case publish_event rb (grouping_control 0 1) r of
        (r1, x) \<Rightarrow> (dp\<lparr>dp_enableJournalAfterSeq := afterSeq\<rparr>, r1, x))"

section \<open>Replay\<close>

text \<open>
  What the replay functions of the API write into a slot. The flag of a binary frame is read as a
  signed byte and stored as an unsigned one.
\<close>

definition replay_fields :: "int \<Rightarrow> int \<Rightarrow> int \<Rightarrow> command_type \<Rightarrow> order_command \<Rightarrow> order_command" where
  "replay_fields serviceFlags eventsGroup timestampNs ct cmd =
     cmd\<lparr>cmd_serviceFlags := serviceFlags, cmd_eventsGroup := eventsGroup, cmd_command := ct,
         cmd_timestamp := timestampNs, cmd_resultCode := NEW\<rparr>"

definition place_order_replay ::
  "int \<Rightarrow> int \<Rightarrow> int \<Rightarrow> int \<Rightarrow> int \<Rightarrow> int \<Rightarrow> int \<Rightarrow> int \<Rightarrow> order_action \<Rightarrow> order_type \<Rightarrow> int \<Rightarrow> int \<Rightarrow>
     order_command \<Rightarrow> order_command" where
  "place_order_replay flags grp ts orderId userCookie price reservedBidPrice sz action orderType symbol uid cmd =
     (replay_fields flags grp ts PLACE_ORDER cmd)\<lparr>cmd_price := price, cmd_reserveBidPrice := reservedBidPrice,
        cmd_size := sz, cmd_orderId := orderId, cmd_action := action, cmd_orderType := orderType,
        cmd_symbol := symbol, cmd_uid := uid, cmd_userCookie := userCookie\<rparr>"

definition move_order_replay :: "int \<Rightarrow> int \<Rightarrow> int \<Rightarrow> int \<Rightarrow> int \<Rightarrow> int \<Rightarrow> int \<Rightarrow> order_command \<Rightarrow> order_command" where
  "move_order_replay flags grp ts price orderId symbol uid cmd =
     (replay_fields flags grp ts MOVE_ORDER cmd)\<lparr>cmd_price := price, cmd_orderId := orderId,
        cmd_symbol := symbol, cmd_uid := uid\<rparr>"

definition cancel_order_replay :: "int \<Rightarrow> int \<Rightarrow> int \<Rightarrow> int \<Rightarrow> int \<Rightarrow> int \<Rightarrow> order_command \<Rightarrow> order_command" where
  "cancel_order_replay flags grp ts orderId symbol uid cmd =
     (replay_fields flags grp ts CANCEL_ORDER cmd)\<lparr>cmd_orderId := orderId, cmd_symbol := symbol, cmd_uid := uid\<rparr>"

definition reduce_order_replay :: "int \<Rightarrow> int \<Rightarrow> int \<Rightarrow> int \<Rightarrow> int \<Rightarrow> int \<Rightarrow> int \<Rightarrow> order_command \<Rightarrow> order_command" where
  "reduce_order_replay flags grp ts reduceSize orderId symbol uid cmd =
     (replay_fields flags grp ts REDUCE_ORDER cmd)\<lparr>cmd_size := reduceSize, cmd_orderId := orderId,
        cmd_symbol := symbol, cmd_uid := uid\<rparr>"

definition balance_adjustment_replay ::
  "int \<Rightarrow> int \<Rightarrow> int \<Rightarrow> int \<Rightarrow> int \<Rightarrow> int \<Rightarrow> int \<Rightarrow> order_type \<Rightarrow> order_command \<Rightarrow> order_command" where
  "balance_adjustment_replay flags grp ts uid transactionId currency longAmount orderType cmd =
     (replay_fields flags grp ts BALANCE_ADJUSTMENT cmd)\<lparr>cmd_orderId := transactionId, cmd_symbol := currency,
        cmd_uid := uid, cmd_price := longAmount, cmd_orderType := orderType, cmd_size := 0\<rparr>"

text \<open>\<open>CreateUserReplay\<close>, \<open>SuspendUserReplay\<close> and \<open>ResumeUserReplay\<close>.\<close>

definition user_replay :: "command_type \<Rightarrow> int \<Rightarrow> int \<Rightarrow> int \<Rightarrow> int \<Rightarrow> order_command \<Rightarrow> order_command" where
  "user_replay ct flags grp ts userId cmd =
     (replay_fields flags grp ts ct cmd)\<lparr>cmd_orderId := -1, cmd_symbol := -1, cmd_uid := userId\<rparr>"

definition reset_replay :: "int \<Rightarrow> order_command \<Rightarrow> order_command" where
  "reset_replay ts cmd = cmd\<lparr>cmd_command := RESET, cmd_resultCode := NEW, cmd_timestamp := ts\<rparr>"

definition binary_data ::
  "int \<Rightarrow> int \<Rightarrow> int \<Rightarrow> int \<Rightarrow> int \<Rightarrow> int \<Rightarrow> int \<Rightarrow> int \<Rightarrow> int \<Rightarrow> order_command \<Rightarrow> order_command" where
  "binary_data flags grp ts lastFlag word0 word1 word2 word3 word4 cmd =
     (replay_fields flags grp ts BINARY_DATA_COMMAND cmd)\<lparr>cmd_symbol := lastFlag mod 256, cmd_orderId := word0,
        cmd_price := word1, cmd_reserveBidPrice := word2, cmd_size := word3, cmd_uid := word4\<rparr>"

text \<open>
  The fields of a record by type: the slot to publish, or the exception of a code that is not one.
  A type without a reader is not expected in a journal.
\<close>

fun replay_body ::
  "command_type \<Rightarrow> int \<Rightarrow> int \<Rightarrow> int \<Rightarrow> (exn + (order_command \<Rightarrow> order_command)) reader option" where
  "replay_body MOVE_ORDER flags grp ts = Some (
     bindR read_long (\<lambda>uid. bindR read_int (\<lambda>symbol. bindR read_long (\<lambda>orderId. bindR read_long (\<lambda>price.
       returnR (Inr (move_order_replay flags grp ts price orderId symbol uid)))))))"
| "replay_body CANCEL_ORDER flags grp ts = Some (
     bindR read_long (\<lambda>uid. bindR read_int (\<lambda>symbol. bindR read_long (\<lambda>orderId.
       returnR (Inr (cancel_order_replay flags grp ts orderId symbol uid))))))"
| "replay_body REDUCE_ORDER flags grp ts = Some (
     bindR read_long (\<lambda>uid. bindR read_int (\<lambda>symbol. bindR read_long (\<lambda>orderId. bindR read_long (\<lambda>reduceSize.
       returnR (Inr (reduce_order_replay flags grp ts reduceSize orderId symbol uid)))))))"
| "replay_body PLACE_ORDER flags grp ts = Some (
     bindR read_long (\<lambda>uid. bindR read_int (\<lambda>symbol. bindR read_long (\<lambda>orderId. bindR read_long (\<lambda>price.
     bindR read_long (\<lambda>reservedBidPrice. bindR read_long (\<lambda>sz. bindR read_int (\<lambda>userCookie.
     bindR read_byte (\<lambda>actionAndType.
       returnR (bindE (order_action_from_code (actionAndType mod 2)) (\<lambda>action.
         bindE (order_type_from_code (actionAndType div 2 mod 16)) (\<lambda>orderType.
           Inr (place_order_replay flags grp ts orderId userCookie price reservedBidPrice sz action orderType
                  symbol uid)))))))))))))"
| "replay_body BALANCE_ADJUSTMENT flags grp ts = Some (
     bindR read_long (\<lambda>uid. bindR read_int (\<lambda>currency. bindR read_long (\<lambda>transactionId. bindR read_long (\<lambda>amount.
     bindR read_byte (\<lambda>code.
       returnR (bindE (balance_adjustment_type_from_code (code mod 256)) (\<lambda>t.
         bindE (adjustment_order_type t) (\<lambda>orderType.
           Inr (balance_adjustment_replay flags grp ts uid transactionId currency amount orderType))))))))))"
| "replay_body ADD_USER flags grp ts = Some (bindR read_long (\<lambda>uid. returnR (Inr (user_replay ADD_USER flags grp ts uid))))"
| "replay_body SUSPEND_USER flags grp ts =
     Some (bindR read_long (\<lambda>uid. returnR (Inr (user_replay SUSPEND_USER flags grp ts uid))))"
| "replay_body RESUME_USER flags grp ts =
     Some (bindR read_long (\<lambda>uid. returnR (Inr (user_replay RESUME_USER flags grp ts uid))))"
| "replay_body BINARY_DATA_COMMAND flags grp ts = Some (
     bindR read_byte (\<lambda>lastFlag. bindR read_long (\<lambda>w0. bindR read_long (\<lambda>w1. bindR read_long (\<lambda>w2.
     bindR read_long (\<lambda>w3. bindR read_long (\<lambda>w4.
       returnR (Inr (binary_data flags grp ts lastFlag w0 w1 w2 w3 w4)))))))))"
| "replay_body RESET flags grp ts = Some (returnR (Inr (reset_replay ts)))"
| "replay_body _ flags grp ts = None"

definition read_header :: "(int \<times> int \<times> int \<times> int) reader" where
  "read_header = bindR read_long (\<lambda>seq. bindR read_long (\<lambda>timestampNs. bindR read_int (\<lambda>serviceFlags.
     bindR read_long (\<lambda>eventsGroup. returnR (seq, timestampNs, serviceFlags, eventsGroup)))))"

text \<open>The original bytes of a compressed block, after its marker, and the bytes after the block.\<close>

datatype block_result = Block_Short | Block_Bad exn | Block bytes bytes

definition read_block :: "lz4 \<Rightarrow> bytes \<Rightarrow> block_result" where
  "read_block lz bs =
     (case bindR read_int (\<lambda>c. bindR read_int (\<lambda>n. returnR (c, n))) bs of
        Inl _ \<Rightarrow> Block_Short
      | Inr ((compressedSize, originalSize), rest) \<Rightarrow>
          if compressedSize > 1000000 \<or> originalSize > 1000000
          then Block_Bad (Runtime_Error ''Bad compressed block size (data corrupted)'')
          else if compressedSize < 0 then Block_Bad (Runtime_Error ''cannot create std::vector'')
          else if int (length rest) < compressedSize then Block_Bad (Runtime_Error ''Can not read full compressed block'')
          else if originalSize < 0 then Block_Bad (Runtime_Error ''cannot create std::vector'')
          else case lz_decompress lz (take (nat compressedSize) rest) (nat originalSize) of
                 None \<Rightarrow> Block_Bad (Runtime_Error ''LZ4 decompression failed'')
               | Some out \<Rightarrow>
                   if length out \<noteq> nat originalSize then Block_Bad (Runtime_Error ''LZ4 decompression failed'')
                   else Block out (drop (nat compressedSize) rest))"

text \<open>One record after the byte of its type: a short read ends the loop of the reader.\<close>

datatype record_result =
    Record_Short int
  | Record_Bad int exn
  | Record int "order_command \<Rightarrow> order_command" bytes

definition read_record :: "int \<Rightarrow> bytes \<Rightarrow> int \<Rightarrow> record_result" where
  "read_record cmdByte bs lastSeq =
     (case read_header bs of
        Inl _ \<Rightarrow> Record_Short lastSeq
      | Inr ((seq, timestampNs, serviceFlags, eventsGroup), bs1) \<Rightarrow>
          (case command_type_from_code cmdByte of
             Inl e \<Rightarrow> Record_Bad seq e
           | Inr ct \<Rightarrow>
               (case replay_body ct serviceFlags eventsGroup timestampNs of
                  None \<Rightarrow> Record_Bad seq (Runtime_Error ''Unexpected command type in journal replay'')
                | Some body \<Rightarrow>
                    (case body bs1 of
                       Inl _ \<Rightarrow> Record_Short seq
                     | Inr (Inl e, bs2) \<Rightarrow> Record_Bad seq e
                     | Inr (Inr f, bs2) \<Rightarrow> Record seq f bs2))))"

text \<open>
  \<open>ReadCommands\<close>, with one unit of fuel for each record and block and one for the end of each
  stream; the result carries the last sequence and the ring also when it throws.
\<close>

function read_commands ::
  "lz4 \<Rightarrow> 'r ring \<Rightarrow> nat \<Rightarrow> bool \<Rightarrow> bytes \<Rightarrow> int \<Rightarrow> 'r \<Rightarrow> (int \<times> 'r) \<times> (exn + unit)" where
  "read_commands lz rb 0 inside bs lastSeq r = ((lastSeq, r), Inl Out_Of_Fuel)"
| "read_commands lz rb (Suc fuel) inside [] lastSeq r = ((lastSeq, r), Inr ())"
| "read_commands lz rb (Suc fuel) inside (b # bs) lastSeq r =
     (let cmdByte = signed_value 1 (uint b) in
      if cmdByte = command_type_to_code RESERVED_COMPRESSED then
        if inside then ((lastSeq, r), Inl (Runtime_Error ''Recursive compression block (data corrupted)''))
        else case read_block lz bs of
               Block_Short \<Rightarrow> ((lastSeq, r), Inr ())
             | Block_Bad e \<Rightarrow> ((lastSeq, r), Inl e)
             | Block out rest \<Rightarrow>
                 (case read_commands lz rb (Suc (length out)) True out lastSeq r of
                    ((seq, r1), Inl e) \<Rightarrow> ((seq, r1), Inl e)
                  | ((seq, r1), Inr _) \<Rightarrow> read_commands lz rb fuel inside rest seq r1)
      else case read_record cmdByte bs lastSeq of
             Record_Short seq \<Rightarrow> ((seq, r), Inr ())
           | Record_Bad seq e \<Rightarrow> ((seq, r), Inl e)
           | Record seq f rest \<Rightarrow>
               (case publish_event rb f r of
                  (r1, Inl e) \<Rightarrow> ((seq, r1), Inl e)
                | (r1, Inr _) \<Rightarrow> read_commands lz rb fuel inside rest seq r1))"
  by pat_completeness auto

termination read_commands
  by (relation "measures [\<lambda>(lz, rb, fuel, inside, bs, lastSeq, r). if inside then 0 else 1,
        \<lambda>(lz, rb, fuel, inside, bs, lastSeq, r). fuel]") auto

text \<open>
  The files in the order of their numbers. An exception ends the reading of a file, not the
  replay; there are not more rounds than files.
\<close>

fun replay_files ::
  "lz4 \<Rightarrow> 'r ring \<Rightarrow> journal_files \<Rightarrow> int \<Rightarrow> nat \<Rightarrow> int \<Rightarrow> int \<Rightarrow> 'r \<Rightarrow> 'r \<times> (exn + int)" where
  "replay_files lz rb files snapshotId 0 index lastSeq r = (r, Inl Out_Of_Fuel)"
| "replay_files lz rb files snapshotId (Suc fuel) index lastSeq r =
     (case um_find files (snapshotId, index) of
        None \<Rightarrow> (r, Inr lastSeq)
      | Some content \<Rightarrow>
          (case read_commands lz rb (Suc (length content)) False content lastSeq r of
             ((seq, r1), _) \<Rightarrow> replay_files lz rb files snapshotId fuel (index + 1) seq r1))"

definition replay_journal_full ::
  "lz4 \<Rightarrow> 'r ring \<Rightarrow> int \<Rightarrow> int \<Rightarrow> disk_processor \<Rightarrow> 'r \<Rightarrow> 'r \<times> (exn + int)" where
  "replay_journal_full lz rb snapshotId journalTimestampNs dp r =
     (if journalTimestampNs = 0 then (r, Inr (dp_baseSeq dp))
      else bindA (publish_event rb (grouping_control 0 0) r) (\<lambda>_ r1.
        replay_files lz rb (dp_files dp) snapshotId (Suc (length (dp_files dp))) 1 (dp_baseSeq dp) r1))"

definition replay_and_enable ::
  "lz4 \<Rightarrow> 'r ring \<Rightarrow> int \<Rightarrow> int \<Rightarrow> disk_processor \<Rightarrow> 'r \<Rightarrow> disk_processor \<times> 'r \<times> (exn + int)" where
  "replay_and_enable lz rb snapshotId journalTimestampNs dp r =
     (case replay_journal_full lz rb snapshotId journalTimestampNs dp r of
        (r1, Inl e) \<Rightarrow> (dp, r1, Inl e)
      | (r1, Inr seq) \<Rightarrow> enable_journaling rb seq r1 dp)"

text \<open>\<open>ReplayJournalStep\<close> is not implemented.\<close>

definition replay_journal_step :: "int \<Rightarrow> int \<Rightarrow> int \<Rightarrow> 'r \<Rightarrow> 'r \<times> (exn + unit)" where
  "replay_journal_step snapshotId seqFrom seqTo r = (r, Inl (Runtime_Error ''ReplayJournalStep not implemented''))"

end
