(* ===== verification/Api_Correct.thy ===== *)
theory Api_Correct
  imports Exchange_Api
begin

text \<open>
  Properties of the client interface: a binary message published in fragments is put together and
  decoded by \<open>BinaryCommandsProcessor\<close>.
\<close>

section \<open>The length announced by a compressed message\<close>

lemma le_value_append: "le_value (as @ bs) = le_value as + 256 ^ length as * le_value bs"
  by (induction as) (simp_all add: algebra_simps)

lemma announced_mod: "(w div 2 ^ 32) mod 2 ^ 31 = ((w mod 2 ^ 64) div 2 ^ 32) mod (2 ^ 31 :: int)"
proof -
  define q m where "q = w div 2 ^ 64" and "m = w mod 2 ^ 64"
  have "w = m + 2 ^ 32 * (2 ^ 32 * q)" by (simp add: q_def m_def)
  then have "w div 2 ^ 32 = m div 2 ^ 32 + 2 ^ 31 * (2 * q)"
    by (subst \<open>w = _\<close>) simp
  then show ?thesis by (simp add: m_def[symmetric] del: power_numeral)
qed

lemma announced_of_bytes:
  assumes "le_bytes 8 w = le_bytes 4 n @ b # rest" and "16 \<le> uint b"
  shows "0 < (w div 2 ^ 32) mod (2 ^ 31 :: int)"
proof -
  let ?v = "uint b + 256 * le_value rest"
  have "le_value (le_bytes 8 w) = w mod 2 ^ 64" by (simp add: le_value_le_bytes)
  then have w: "w mod 2 ^ 64 = n mod 2 ^ 32 + 2 ^ 32 * ?v"
    by (simp add: assms(1) le_value_append le_value_le_bytes)
  have "0 \<le> n mod 2 ^ 32" "n mod 2 ^ 32 < 2 ^ 32" by simp_all
  then have "(w mod 2 ^ 64) div 2 ^ 32 = ?v" unfolding w by simp
  moreover have b: "uint b < 256" using uint_lt2p[of b] by simp
  then have "?v mod 2 ^ 31 mod 256 = uint b"
    using assms(2) by (subst mod_mod_cancel) simp_all
  then have "?v mod 2 ^ 31 \<noteq> 0" using assms(2) by auto
  moreover have "0 \<le> ?v mod 2 ^ 31" by simp
  ultimately show ?thesis unfolding announced_mod[of w] by (metis order_le_less)
qed

section \<open>Frames of a message\<close>

lemma accept_frames_append:
  "accept_frames decode (xs @ ys) inc =
     (case accept_frames decode xs inc of (inc1, rs) \<Rightarrow>
        case accept_frames decode ys inc1 of (inc2, rs') \<Rightarrow> (inc2, rs @ rs'))"
  by (induction xs arbitrary: inc) (simp_all split: prod.splits)

lemma accept_frames_length:
  "accept_frames decode cmds inc = (inc', rs) \<Longrightarrow> length rs = length cmds"
  by (induction cmds arbitrary: inc rs) (auto split: prod.splits)

lemma accept_binary_frame_other:
  "accept_binary_frame decode cmd inc = (inc', r) \<Longrightarrow> j \<noteq> cmd_userCookie cmd \<Longrightarrow>
   um_find inc' j = um_find inc j"
  by (auto simp: accept_binary_frame_def Let_def split: sum.splits if_splits)

lemma accept_frames_other:
  "accept_frames decode cmds inc = (inc', rs) \<Longrightarrow> j \<notin> cmd_userCookie ` set cmds \<Longrightarrow>
   um_find inc' j = um_find inc j"
proof (induction cmds arbitrary: inc rs)
  case (Cons cmd cmds)
  then show ?case by (auto split: prod.splits dest: accept_binary_frame_other)
qed simp

text \<open>All frames but the last, then the last one.\<close>

lemma accept_message:
  assumes inc: "incoming_ok inc" "um_find inc i = None"
    and cookie: "\<forall>cmd \<in> set (cmds @ [z]). cmd_userCookie cmd = i"
    and open_frames: "\<forall>cmd \<in> set cmds. cmd_symbol cmd \<noteq> -1" and z: "cmd_symbol z = -1"
    and announced: "0 < announced_length (hd (cmds @ [z]))"
    and r: "accept_frames decode (cmds @ [z]) inc = (inc', rs)"
  shows "um_find inc' = um_find inc"
    and "\<exists>arr. rs = replicate (length cmds) (Inr (ACCEPTED, None)) @
        [bindE (decode arr (5 * length (cmds @ [z]))) (\<lambda>m. Inr (SUCCESS, m))] \<and>
      take (5 * length (cmds @ [z])) arr = concat (map frame_words (cmds @ [z]))"
proof -
  obtain inc1 rs1 where s1: "accept_frames decode cmds inc = (inc1, rs1)" by (metis surj_pair)
  have known: "frames_ok k xs" if "i \<in> k" "\<forall>c \<in> set xs. cmd_userCookie c = i \<and> cmd_symbol c \<noteq> -1" for k xs
    using that by (induction xs arbitrary: k) auto
  have "frames_ok (dom (um_find inc)) cmds"
    using cookie open_frames announced known by (cases cmds) auto
  note c = accept_frames_collect[OF inc(1) this s1]
  have words: "collected i inc1 = concat (map frame_words cmds)"
    using c cookie inc(2) by (simp add: collected_def)
  have len: "length (concat (map frame_words cmds)) = 5 * length cmds"
    by (induction cmds) (simp_all add: frame_words_def)
  have found: "um_find inc1 i = None \<longrightarrow> 0 < announced_length z"
  proof
    assume "um_find inc1 i = None"
    then have "collected i inc1 = []" by (simp add: collected_def)
    with words len have "5 * length cmds = 0" by (metis list.size(3))
    then have "cmds = []" by simp
    with announced show "0 < announced_length z" by simp
  qed
  have zi: "cmd_userCookie z = i" using cookie by simp
  obtain arr where arr: "accept_binary_frame decode z inc1 = (um_erase i inc1,
      bindE (decode arr (5 * length cmds + 5)) (\<lambda>m. Inr (SUCCESS, m)))"
    "take (5 * length cmds + 5) arr = concat (map frame_words cmds) @ frame_words z"
    using last_frame_completes[OF conjunct1[OF c], of z decode] found z unfolding zi words len by auto
  have "length rs1 = length cmds" by (rule accept_frames_length[OF s1])
  then have "rs1 = replicate (length cmds) (Inr (ACCEPTED, None))"
    using c by (intro replicate_eqI) auto
  with r s1 arr show "\<exists>arr. rs = replicate (length cmds) (Inr (ACCEPTED, None)) @
        [bindE (decode arr (5 * length (cmds @ [z]))) (\<lambda>m. Inr (SUCCESS, m))] \<and>
      take (5 * length (cmds @ [z])) arr = concat (map frame_words (cmds @ [z]))"
    by (intro exI[of _ arr]) (simp add: accept_frames_append add.commute)
  have "inc' = um_erase i inc1" using r s1 arr(1) by (simp add: accept_frames_append)
  then show "um_find inc' = um_find inc"
    using inc(2) accept_frames_other[OF r, of _] cookie by (auto simp: fun_eq_iff)
qed

section \<open>A published message\<close>

lemma binary_frame_simps:
  "cmd_userCookie (binary_frame kind i t ws l c) = i"
  "cmd_symbol (binary_frame kind i t ws l c) = (if l then -1 else 0)"
  "cmd_command (binary_frame kind i t ws l c) = kind"
  "cmd_resultCode (binary_frame kind i t ws l c) = NEW"
  "cmd_orderId (binary_frame kind i t ws l c) = ws ! 0"
  "frame_words (binary_frame kind i t ws l c) = [ws ! 0, ws ! 1, ws ! 2, ws ! 3, ws ! 4]"
  by (cases t; simp add: binary_frame_def Let_def frame_words_def)+

lemma five_words: "length ws = 5 \<Longrightarrow> [ws ! 0, ws ! 1, ws ! 2, ws ! 3, ws ! 4] = ws"
  by (intro nth_equalityI) (auto simp: less_Suc_eq numeral_eq_Suc)

lemma concat_chunks:
  "length longs = 5 * n \<Longrightarrow> concat (map (\<lambda>i. take 5 (drop (5 * i) longs)) [0..<n]) = longs"
proof (induction n arbitrary: longs rule: nat.induct)
  case (Suc n)
  have "concat (map (\<lambda>i. take 5 (drop (5 * i) (take (5 * n) longs))) [0..<n]) = take (5 * n) longs"
    by (rule Suc.IH) (use Suc.prems in simp)
  moreover have "take 5 (drop (5 * i) (take (5 * n) longs)) = take 5 (drop (5 * i) longs)" if "i < n" for i
    using that by (simp add: drop_take)
  then have "map (\<lambda>i. take 5 (drop (5 * i) (take (5 * n) longs))) [0..<n] =
      map (\<lambda>i. take 5 (drop (5 * i) longs)) [0..<n]" by simp
  ultimately have "concat (map (\<lambda>i. take 5 (drop (5 * i) longs)) [0..<n]) = take (5 * n) longs" by simp
  moreover have "take 5 (drop (5 * n) longs) = drop (5 * n) longs" using Suc.prems by simp
  ultimately show ?case by simp
qed simp

text \<open>The frames of \<open>n\<close> groups of words: their marks and their words.\<close>

lemma message_frames:
  fixes slots :: "nat \<Rightarrow> order_command" and kind :: command_type and i :: int and t :: "int option"
  assumes "length longs = 5 * Suc n"
  defines "frames \<equiv> map (frame_at (binary_frame kind i t) longs (Suc n) slots) [0..<Suc n]"
  shows "\<exists>cmds z. frames = cmds @ [z] \<and> length cmds = n \<and> cmd_symbol z = -1 \<and>
      (\<forall>c \<in> set cmds. cmd_symbol c \<noteq> -1)"
    and "\<forall>c \<in> set frames. cmd_userCookie c = i \<and> cmd_command c = kind \<and> cmd_resultCode c = NEW"
    and "concat (map frame_words frames) = longs" and "cmd_orderId (hd frames) = hd longs"
proof -
  let ?f = "frame_at (binary_frame kind i t) longs (Suc n) slots"
  show "\<exists>cmds z. frames = cmds @ [z] \<and> length cmds = n \<and> cmd_symbol z = -1 \<and> (\<forall>c \<in> set cmds. cmd_symbol c \<noteq> -1)"
    by (intro exI[of _ "map ?f [0..<n]"] exI[of _ "?f n"])
       (auto simp: frames_def frame_at_def binary_frame_simps)
  show "\<forall>c \<in> set frames. cmd_userCookie c = i \<and> cmd_command c = kind \<and> cmd_resultCode c = NEW"
    by (auto simp: frames_def frame_at_def binary_frame_simps)
  have "frame_words (?f k) = take 5 (drop (5 * k) longs)" if "k < Suc n" for k
    using five_words[of "take 5 (drop (5 * k) longs)"] assms(1) that
    by (simp only: frame_at_def binary_frame_simps(6)) simp
  then have "map frame_words frames = map (\<lambda>k. take 5 (drop (5 * k) longs)) [0..<Suc n]"
    by (simp add: frames_def del: upt_Suc)
  with concat_chunks[OF assms(1)] show "concat (map frame_words frames) = longs" by simp
  have "hd frames = ?f 0" unfolding frames_def by (simp add: upt_conv_Cons del: upt_Suc)
  then show "cmd_orderId (hd frames) = hd longs"
    using assms(1) by (cases longs) (simp_all add: frame_at_def binary_frame_simps)
qed

lemma bytes_fragmented:
  assumes ring: "ring_ok rb claimed published" and size: "4 \<le> rb_bufferSize rb"
    and start: "-1 \<le> claimed r" and lz: "lz4_ok lz" and bs: "bs \<noteq> []" "length bs \<le> 2113929216"
  obtains longs n r' slots c where "length longs = 5 * Suc n"
    "publish_bytes lz rb check kind i t bs endSeq (r, p) = ((r', endSeq (claimed r') p), Inr (claimed r'))"
    "claimed r' = claimed r + int (Suc n)"
    "published r' = published r @ map (frame_at (binary_frame kind i t) longs (Suc n) slots) [0..<Suc n]"
    "\<And>more. longs_lz4_to_bytes lz (longs @ more) (length longs) = Inr bs"
    "lz_compress lz bs = Some c" "\<exists>z. longs_to_bytes longs = le_bytes 4 (int (length bs)) @ c @ replicate z 0"
proof -
  obtain longs c where longs: "bytes_to_long_array_lz4 lz bs 5 = Inr longs" "longs \<noteq> []" "5 dvd int (length longs)"
      "\<And>more. longs_lz4_to_bytes lz (longs @ more) (length longs) = Inr bs"
    and c: "lz_compress lz bs = Some c" "\<exists>z. longs_to_bytes longs = le_bytes 4 (int (length bs)) @ c @ replicate z 0"
    using lz4_array_roundtrip[OF lz bs, of 5] by auto
  have "5 dvd length longs" using longs(3) by (metis int_dvd_int_iff of_nat_numeral)
  then obtain k where "length longs = 5 * k" by (rule dvdE)
  then obtain n where n: "length longs = 5 * Suc n" using longs(2) by (cases k) auto
  have "(0 :: nat) < Suc n" "Suc n - 0 \<le> Suc n" by simp_all
  from publish_fragments_ok[OF ring size n this start, of check "binary_frame kind i t" endSeq p]
  obtain r' slots where r': "publish_fragments rb check (binary_frame kind i t) longs endSeq (Suc n) 0 (r, p) =
      ((r', endSeq (claimed r') p), Inr (claimed r'))" "claimed r' = claimed r + int (Suc n)"
    "published r' = published r @ map (frame_at (binary_frame kind i t) longs (Suc n) slots) [0..<Suc n]"
    by (metis diff_zero)
  have "publish_bytes lz rb check kind i t bs endSeq (r, p) = ((r', endSeq (claimed r') p), Inr (claimed r'))"
    using longs(1) n r'(1) by (simp add: publish_bytes_def Let_def)
  with n r'(2,3) longs(4) c that show thesis by blast
qed

lemma published_bytes:
  assumes ring: "ring_ok rb claimed published" and size: "4 \<le> rb_bufferSize rb"
    and start: "-1 \<le> claimed r" and lz: "lz4_ok lz"
    and bs: "bs \<noteq> []" "length bs \<le> 2113929216"
    and inc: "incoming_ok inc" "um_find inc i = None"
  shows "\<exists>r' frames. publish_bytes lz rb check kind i t bs endSeq (r, p) =
      ((r', endSeq (claimed r') p), Inr (claimed r')) \<and>
    claimed r' = claimed r + int (length frames) \<and> published r' = published r @ frames \<and>
    (\<forall>c \<in> set frames. cmd_command c = kind \<and> cmd_resultCode c = NEW) \<and>
    (\<exists>arr n inc'. longs_lz4_to_bytes lz arr n = Inr bs \<and> um_find inc' = um_find inc \<and>
      accept_frames decode frames inc = (inc', replicate (length frames - 1) (Inr (ACCEPTED, None)) @
        [bindE (decode arr n) (\<lambda>m. Inr (SUCCESS, m))]))"
proof -
  obtain longs n r' slots c where n: "length longs = 5 * Suc n"
    and pub: "publish_bytes lz rb check kind i t bs endSeq (r, p) = ((r', endSeq (claimed r') p), Inr (claimed r'))"
    and r': "claimed r' = claimed r + int (Suc n)"
      "published r' = published r @ map (frame_at (binary_frame kind i t) longs (Suc n) slots) [0..<Suc n]"
    and longs: "\<And>more. longs_lz4_to_bytes lz (longs @ more) (length longs) = Inr bs"
    and c: "lz_compress lz bs = Some c" "\<exists>z. longs_to_bytes longs = le_bytes 4 (int (length bs)) @ c @ replicate z 0"
    using bytes_fragmented[OF ring size start lz bs, of check kind i t endSeq p] by metis
  define frames where "frames = map (frame_at (binary_frame kind i t) longs (Suc n) slots) [0..<Suc n]"
  note f = message_frames[OF n, of kind i t slots, folded frames_def]
  obtain cmds z where cz: "frames = cmds @ [z]" "length cmds = n" "cmd_symbol z = -1"
    "\<forall>c \<in> set cmds. cmd_symbol c \<noteq> -1" using f(1) by blast
  have "0 < announced_length (hd frames)"
  proof -
    obtain zs where "longs_to_bytes longs = le_bytes 4 (int (length bs)) @ c @ replicate zs 0" using c(2) by blast
    moreover have ok: "c \<noteq> []" "16 \<le> uint (hd c)" using lz4_okD[OF lz bs] c(1) by (metis option.inject)+
    moreover have "take 8 (longs_to_bytes longs) = le_bytes 8 (hd longs)"
      using n by (cases longs) (simp_all add: longs_to_bytes_def)
    ultimately have "le_bytes 8 (hd longs) = take 8 (le_bytes 4 (int (length bs)) @ c @ replicate zs 0)"
      by simp
    then have "le_bytes 8 (hd longs) = le_bytes 4 (int (length bs)) @ take 4 (c @ replicate zs 0)"
      by (simp only: take_append length_le_bytes) simp
    with ok(1) have "\<exists>rest. le_bytes 8 (hd longs) = le_bytes 4 (int (length bs)) @ hd c # rest"
      by (cases c) auto
    then show ?thesis using announced_of_bytes ok(2) f(4) unfolding announced_length_def by metis
  qed
  moreover obtain inc' rs where acc: "accept_frames decode (cmds @ [z]) inc = (inc', rs)" by (metis surj_pair)
  ultimately have m: "um_find inc' = um_find inc" "\<exists>arr. rs = replicate (length cmds) (Inr (ACCEPTED, None)) @
        [bindE (decode arr (5 * length (cmds @ [z]))) (\<lambda>m. Inr (SUCCESS, m))] \<and>
      take (5 * length (cmds @ [z])) arr = concat (map frame_words (cmds @ [z]))"
    using accept_message[OF inc _ cz(4,3) _ acc] f(2) unfolding cz(1) by blast+
  then obtain arr where arr: "rs = replicate n (Inr (ACCEPTED, None)) @ [bindE (decode arr (5 * Suc n)) (\<lambda>m. Inr (SUCCESS, m))]"
    "take (5 * Suc n) arr = longs" using f(3) cz(1,2) by auto
  have "longs_lz4_to_bytes lz arr (5 * Suc n) = Inr bs"
    using longs[of "drop (5 * Suc n) arr"] arr(2) n by (metis append_take_drop_id)
  moreover note pub
  moreover have "length frames = Suc n" by (simp add: frames_def)
  ultimately show ?thesis
    using r'[folded frames_def] f(2) m(1) acc arr(1) cz(1) by (intro exI[of _ r'] exI[of _ frames]) fastforce
qed

section \<open>Properties\<close>

text \<open>C21:
  \<open>PublishBinaryData\<close>, for any message that fits its fields and any transfer number that is not in
  use at the processor, on any ring buffer of at least four
  slots that keeps the disruptor's promises, publishes frames that \<open>AcceptBinaryFrame\<close> puts
  together: all but the last are \<open>ACCEPTED\<close>, the last one is a \<open>SUCCESS\<close> with exactly the message
  sent, and no transfer is left behind. It returns the sequence of the last frame, under which the
  promise was stored.
\<close>

theorem binary_message_delivered:
  assumes "ring_ok rb claimed published" and "4 \<le> rb_bufferSize rb" and "-1 \<le> claimed r"
    and "lz4_ok lz" and "message_fits m" and "length (serialized_message m) \<le> 2113929216"
    and "incoming_ok inc" and "um_find inc transferId = None"
  shows "\<exists>r' frames inc'.
    publish_binary_data lz rb transferId m t endSeq (r, p) = ((r', endSeq (claimed r') p), Inr (claimed r')) \<and>
    claimed r' = claimed r + int (length frames) \<and> published r' = published r @ frames \<and>
    (\<forall>c \<in> set frames. cmd_command c = BINARY_DATA_COMMAND \<and> cmd_resultCode c = NEW) \<and>
    um_find inc' = um_find inc \<and>
    accept_frames (decode_message lz) frames inc =
      (inc', replicate (length frames - 1) (Inr (ACCEPTED, None)) @ [Inr (SUCCESS, Some m)])"
proof -
  have "serialized_message m \<noteq> []" using serialized_message_length[of m] by auto
  from published_bytes[OF assms(1-4) this assms(6-8)] obtain r' frames arr n inc' where
    f: "publish_binary_data lz rb transferId m t endSeq (r, p) = ((r', endSeq (claimed r') p), Inr (claimed r'))"
    "claimed r' = claimed r + int (length frames)" "published r' = published r @ frames"
    "\<forall>c \<in> set frames. cmd_command c = BINARY_DATA_COMMAND \<and> cmd_resultCode c = NEW"
    "longs_lz4_to_bytes lz arr n = Inr (serialized_message m)" "um_find inc' = um_find inc"
    "accept_frames (decode_message lz) frames inc = (inc', replicate (length frames - 1) (Inr (ACCEPTED, None)) @
      [bindE (decode_message lz arr n) (\<lambda>m. Inr (SUCCESS, m))])"
    unfolding publish_binary_data_def by blast
  with decode_message_written[OF f(5) assms(5)] show ?thesis by (intro exI[of _ r'] exI[of _ frames] exI[of _ inc']) simp
qed

text \<open>A ring of 16 slots.\<close>

record sample_ring_state =
  sr_slots :: "int \<Rightarrow> order_command"
  sr_claimed :: int
  sr_published :: "order_command list"

definition sample_ring :: "sample_ring_state ring" where
  "sample_ring = \<lparr>rb_bufferSize = 16,
     rb_next = (\<lambda>n r. if n < 1 \<or> 16 < n then Inl (Invalid_Argument ''n must be 0 < n < bufferSize'')
       else Inr (sr_claimed r + n, r\<lparr>sr_claimed := sr_claimed r + n\<rparr>)),
     rb_get = (\<lambda>s r. sr_slots r (s mod 16)),
     rb_set = (\<lambda>s c r. r\<lparr>sr_slots := (sr_slots r)(s mod 16 := c)\<rparr>),
     rb_publish = (\<lambda>lo hi r. r\<lparr>sr_published := sr_published r @
       map (\<lambda>i. sr_slots r ((lo + int i) mod 16)) [0..<nat (hi - lo + 1)]\<rparr>)\<rparr>"

definition empty_sample_ring :: sample_ring_state where
  "empty_sample_ring = \<lparr>sr_slots = (\<lambda>_. default_command), sr_claimed = -1, sr_published = []\<rparr>"

lemma sample_ring_ok: "ring_ok sample_ring sr_claimed sr_published"
proof -
  have "s' mod 16 \<noteq> s mod 16" if "s' \<noteq> s" "abs (s' - s) < 16" for s s' :: int
    using that dvd_imp_le_int[of "s' - s" 16] by (auto simp: mod_eq_dvd_iff)
  then have "ring_slots_ok sample_ring sr_claimed sr_published"
    by (auto simp: ring_slots_ok_def sample_ring_def)
  moreover have "ring_next_ok sample_ring sr_claimed sr_published"
    by (simp add: ring_next_ok_def sample_ring_def)
  moreover have "ring_publish_ok sample_ring sr_claimed sr_published"
    by (simp add: ring_publish_ok_def sample_ring_def)
  ultimately show ?thesis by (simp add: ring_ok_def)
qed

theorem binary_message_delivered_witness:
  "\<exists>r' frames inc'.
    publish_binary_data sample_lz4 sample_ring 7 (Batch_Add_Accounts [(5, [(840, 1000)])]) 99 (set_promise 3)
        (empty_sample_ring, new_api_promises) = ((r', set_promise 3 (sr_claimed r') new_api_promises), Inr (sr_claimed r')) \<and>
    sr_claimed r' = sr_claimed empty_sample_ring + int (length frames) \<and>
    sr_published r' = sr_published empty_sample_ring @ frames \<and>
    (\<forall>c \<in> set frames. cmd_command c = BINARY_DATA_COMMAND \<and> cmd_resultCode c = NEW) \<and>
    um_find inc' = um_find [] \<and>
    accept_frames (decode_message sample_lz4) frames [] =
      (inc', replicate (length frames - 1) (Inr (ACCEPTED, None)) @ [Inr (SUCCESS, Some (Batch_Add_Accounts [(5, [(840, 1000)])]))])"
  by (rule binary_message_delivered[OF sample_ring_ok _ _ sample_lz4_ok])
     (simp_all add: sample_ring_def empty_sample_ring_def message_fits_def valid_map_def fits_def incoming_ok_def
        serialized_message_def write_batch_add_accounts_def write_map_def write_int_def write_long_def)

end
