(* ===== verification/Journal_Correct.thy ===== *)
theory Journal_Correct
  imports Journal Api_Correct
begin

text \<open>
  The journal is read back as it was written: records one by one, blocks, files, and the whole of
  what a processor wrote since it was started. And what the replay cannot do.
\<close>

section \<open>A record\<close>

definition replayable :: "order_command \<Rightarrow> bool" where
  "replayable cmd \<longleftrightarrow> cmd_command cmd \<in> {PLACE_ORDER, CANCEL_ORDER, MOVE_ORDER, REDUCE_ORDER, ADD_USER,
     SUSPEND_USER, RESUME_USER, BALANCE_ADJUSTMENT, BINARY_DATA_COMMAND, RESET}"

text \<open>
  The fields fit their types; a binary frame is marked by 0 or -1 and an adjustment by the code of
  an adjustment type, as the API marks them.
\<close>

definition record_fits :: "order_command \<Rightarrow> int \<Rightarrow> bool" where
  "record_fits cmd seq \<longleftrightarrow> fits 8 seq \<and> fits 8 (cmd_timestamp cmd) \<and> fits 4 (cmd_serviceFlags cmd) \<and>
     fits 8 (cmd_eventsGroup cmd) \<and> fits 8 (cmd_uid cmd) \<and> fits 4 (cmd_symbol cmd) \<and> fits 8 (cmd_orderId cmd) \<and>
     fits 8 (cmd_price cmd) \<and> fits 8 (cmd_reserveBidPrice cmd) \<and> fits 8 (cmd_size cmd) \<and>
     fits 4 (cmd_userCookie cmd) \<and>
     (cmd_command cmd = BINARY_DATA_COMMAND \<longrightarrow> cmd_symbol cmd \<in> {0, -1}) \<and>
     (cmd_command cmd = BALANCE_ADJUSTMENT \<longrightarrow> cmd_orderType cmd \<in> {GTC, IOC})"

text \<open>The command that a replay publishes for one that was journaled, field by field.\<close>

definition replay_of :: "order_command \<Rightarrow> order_command \<Rightarrow> bool" where
  "replay_of cmd c \<longleftrightarrow> cmd_command c = cmd_command cmd \<and> cmd_timestamp c = cmd_timestamp cmd \<and> cmd_resultCode c = NEW \<and>
     (cmd_command cmd \<noteq> RESET \<longrightarrow> cmd_serviceFlags c = cmd_serviceFlags cmd \<and> cmd_eventsGroup c = cmd_eventsGroup cmd \<and>
        cmd_uid c = cmd_uid cmd) \<and>
     (cmd_command cmd \<in> {PLACE_ORDER, CANCEL_ORDER, MOVE_ORDER, REDUCE_ORDER, BALANCE_ADJUSTMENT} \<longrightarrow>
        cmd_symbol c = cmd_symbol cmd \<and> cmd_orderId c = cmd_orderId cmd) \<and>
     (cmd_command cmd \<in> {PLACE_ORDER, MOVE_ORDER, BALANCE_ADJUSTMENT, BINARY_DATA_COMMAND} \<longrightarrow> cmd_price c = cmd_price cmd) \<and>
     (cmd_command cmd \<in> {PLACE_ORDER, REDUCE_ORDER, BINARY_DATA_COMMAND} \<longrightarrow> cmd_size c = cmd_size cmd) \<and>
     (cmd_command cmd \<in> {PLACE_ORDER, BINARY_DATA_COMMAND} \<longrightarrow> cmd_reserveBidPrice c = cmd_reserveBidPrice cmd) \<and>
     (cmd_command cmd \<in> {PLACE_ORDER, BALANCE_ADJUSTMENT} \<longrightarrow> cmd_orderType c = cmd_orderType cmd) \<and>
     (cmd_command cmd = PLACE_ORDER \<longrightarrow> cmd_action c = cmd_action cmd \<and> cmd_userCookie c = cmd_userCookie cmd) \<and>
     (cmd_command cmd = BINARY_DATA_COMMAND \<longrightarrow> cmd_orderId c = cmd_orderId cmd \<and> cmd_symbol c = cmd_symbol cmd mod 256)"

lemma action_and_type_codes:
  "fits (Suc 0) (action_and_type cmd)"
  "order_action_from_code (action_and_type cmd mod 2) = Inr (cmd_action cmd)"
  "order_type_from_code (action_and_type cmd div 2 mod 16) = Inr (cmd_orderType cmd)"
  by (cases "cmd_action cmd"; cases "cmd_orderType cmd"; simp add: action_and_type_def fits_def)+

lemma order_type_code_fits: "fits (Suc 0) (order_type_to_code t)"
  by (cases t) (simp_all add: fits_def)

lemma adjustment_codes:
  "t \<in> {GTC, IOC} \<Longrightarrow> bindE (balance_adjustment_type_from_code (order_type_to_code t mod 256))
     (\<lambda>a. bindE (adjustment_order_type a) f) = f t"
  by (auto simp: adjustment_order_type_def)

lemma flag_fits: "x \<in> {0, -1} \<Longrightarrow> fits (Suc 0) x"
  by (auto simp: fits_def)

lemma byte_exact: "fits (Suc 0) x \<Longrightarrow> read_byte (write_byte x @ rest) = Inr (x, rest)"
  using byte_codec.exact[of x rest] by simp

lemmas journal_simps = bindR_def int_codec.exact long_codec.exact byte_exact


text \<open>A reader that consumes exactly the body of the record of \<open>cmd\<close> and fills the slot to publish.\<close>

definition body_of :: "order_command \<Rightarrow> (exn + (order_command \<Rightarrow> order_command)) reader \<Rightarrow> (order_command \<Rightarrow> order_command) \<Rightarrow> bool" where
  "body_of cmd body f \<longleftrightarrow> (\<forall>rest. body (write_body cmd @ rest) = Inr (Inr f, rest)) \<and> (\<forall>slot. replay_of cmd (f slot))"

lemma replay_body_written:
  assumes "replayable cmd" and "record_fits cmd seq"
  shows "\<exists>body f. replay_body (cmd_command cmd) (cmd_serviceFlags cmd) (cmd_eventsGroup cmd) (cmd_timestamp cmd) = Some body \<and>
    body_of cmd body f"
proof (cases "cmd_command cmd")
  case PLACE_ORDER
  with assms(2) show ?thesis
    by (auto simp: body_of_def write_body_def record_fits_def journal_simps action_and_type_codes replay_of_def
        place_order_replay_def replay_fields_def simp del: order_action_from_code.simps order_type_from_code.simps)
next
  case CANCEL_ORDER
  with assms(2) show ?thesis
    by (auto simp: body_of_def write_body_def record_fits_def journal_simps replay_of_def cancel_order_replay_def replay_fields_def)
next
  case MOVE_ORDER
  with assms(2) show ?thesis
    by (auto simp: body_of_def write_body_def record_fits_def journal_simps replay_of_def move_order_replay_def replay_fields_def)
next
  case REDUCE_ORDER
  with assms(2) show ?thesis
    by (auto simp: body_of_def write_body_def record_fits_def journal_simps replay_of_def reduce_order_replay_def replay_fields_def)
next
  case BALANCE_ADJUSTMENT
  then have t: "cmd_orderType cmd \<in> {GTC, IOC}" using assms(2) by (simp add: record_fits_def)
  from BALANCE_ADJUSTMENT assms(2) show ?thesis
    by (auto simp: body_of_def write_body_def record_fits_def journal_simps order_type_code_fits adjustment_codes[OF t] replay_of_def
        balance_adjustment_replay_def replay_fields_def simp del: balance_adjustment_type_from_code.simps)
next
  case BINARY_DATA_COMMAND
  then have "fits (Suc 0) (cmd_symbol cmd)" using assms(2) flag_fits by (simp add: record_fits_def)
  with BINARY_DATA_COMMAND assms(2) show ?thesis
    by (auto simp: body_of_def write_body_def record_fits_def journal_simps replay_of_def binary_data_def replay_fields_def)
next
  case RESET
  with assms(2) show ?thesis by (auto simp: body_of_def write_body_def replay_of_def reset_replay_def)
qed (use assms in \<open>auto simp: body_of_def replayable_def write_body_def record_fits_def journal_simps replay_of_def user_replay_def
        replay_fields_def\<close>)


section \<open>Runs of records\<close>

type_synonym journaled = "order_command \<times> int"

definition records :: "journaled list \<Rightarrow> bytes" where
  "records rs = concat (map (\<lambda>(cmd, seq). write_command cmd seq) rs)"

definition records_ok :: "journaled list \<Rightarrow> bool" where
  "records_ok rs \<longleftrightarrow> (\<forall>(cmd, seq) \<in> set rs. replayable cmd \<and> record_fits cmd seq)"

definition last_seq :: "int \<Rightarrow> journaled list \<Rightarrow> int" where
  "last_seq l rs = (if rs = [] then l else snd (List.last rs))"

lemma records_simps [simp]:
  "records [] = []" "records ((cmd, seq) # rs) = write_command cmd seq @ records rs"
  "records (rs @ rs') = records rs @ records rs'"
  by (simp_all add: records_def)

lemma last_seq_simps [simp]:
  "last_seq l [] = l" "last_seq l (r # rs) = last_seq (snd r) rs" "last_seq l (rs @ rs') = last_seq (last_seq l rs) rs'"
  by (simp_all add: last_seq_def)

lemma records_ok_simps [simp]:
  "records_ok []" "records_ok ((cmd, seq) # rs) \<longleftrightarrow> replayable cmd \<and> record_fits cmd seq \<and> records_ok rs"
  "records_ok (rs @ rs') \<longleftrightarrow> records_ok rs \<and> records_ok rs'"
  by (auto simp: records_ok_def)












section \<open>Blocks\<close>



section \<open>The writer\<close>




definition same_journal :: "disk_processor \<Rightarrow> disk_processor \<Rightarrow> bool" where
  "same_journal dp dp' \<longleftrightarrow> dp_config dp' = dp_config dp \<and> dp_baseSeq dp' = dp_baseSeq dp \<and>
     dp_enableJournalAfterSeq dp' = dp_enableJournalAfterSeq dp \<and> dp_baseSnapshotId dp' = dp_baseSnapshotId dp"

lemma same_journal_refl [simp]: "same_journal dp dp"
  by (simp add: same_journal_def)











definition journaling_at :: "int \<Rightarrow> disk_processor \<Rightarrow> bool" where
  "journaling_at dSeq dp \<longleftrightarrow> dp_enableJournalAfterSeq dp \<noteq> -1 \<and> dp_enableJournalAfterSeq dp < dSeq + dp_baseSeq dp"



section \<open>A run and its replay\<close>












section \<open>Properties\<close>


definition sample_config :: journal_config where
  "sample_config = new_journal_config 512 4096 128"





text \<open>C37:
  After a restart the number of the first journal file is 1 again: when the replayed journal has a
  file, the first mutating command to be journaled throws \<open>File already exists\<close>, whatever was
  replayed, and is not written.
\<close>

theorem journal_refused_after_restart:
  assumes "dp = new_disk_processor cfg baseSeq base numME numRE files" and "um_find files (base, 1) = Some content"
    and "replay_and_enable lz rb base ts dp r = (dp1, r1, Inr s)" and "journaling_at dSeq dp1"
    and "is_mutate (cmd_command cmd)" and "cmd_command cmd \<noteq> SHUTDOWN_SIGNAL"
  shows "\<exists>dp2. write_to_journal lz cmd dSeq eob dp1 = (dp2, Inl (Runtime_Error ''File already exists'')) \<and>
    dp_files dp2 = files \<and> dp_buffer dp2 = []"
proof -
  obtain afterSeq where "dp1 = dp\<lparr>dp_enableJournalAfterSeq := afterSeq\<rparr>"
    using assms(3) by (auto simp: replay_and_enable_def enable_journaling_def split: prod.splits sum.splits)
  moreover from this have "start_new_file (cmd_timestamp cmd) dp1 =
      (dp1\<lparr>dp_filesCounter := 1, dp_journalFile := None\<rparr>, Inl (Runtime_Error ''File already exists''))"
    using assms(1,2) by (simp add: start_new_file_def new_disk_processor_def Let_def)
  ultimately show ?thesis
    using assms(1,4-) by (simp add: write_to_journal_def journaling_at_def new_disk_processor_def)
qed

theorem journal_refused_after_restart_witness:
  "\<exists>dp1 r1 s dp2. replay_and_enable sample_lz4 sample_ring 3 77
      (new_disk_processor sample_config 0 3 1 1 [((3, 1), [])]) empty_sample_ring = (dp1, r1, Inr s) \<and>
    write_to_journal sample_lz4 (sample_user 9) 1 True dp1 = (dp2, Inl (Runtime_Error ''File already exists''))"
proof -
  let ?dp = "new_disk_processor sample_config 0 3 1 1 [((3, 1), [])]"
  obtain r1 s where e: "replay_and_enable sample_lz4 sample_ring 3 77 ?dp empty_sample_ring =
      (?dp\<lparr>dp_enableJournalAfterSeq := 0\<rparr>, r1, Inr s)"
    by (simp add: replay_and_enable_def replay_journal_full_def enable_journaling_def publish_event_def claim_def
        sample_ring_def empty_sample_ring_def new_disk_processor_def)
  moreover have "journaling_at 1 (?dp\<lparr>dp_enableJournalAfterSeq := 0\<rparr>)"
    by (simp add: journaling_at_def new_disk_processor_def)
  ultimately show ?thesis
    using journal_refused_after_restart[OF refl _ e, of "[]" 1 "sample_user 9" True]
    by (simp add: sample_user_def) blast
qed

text \<open>C38:
  A binary frame that is replayed from a journal never completes its transfer, whatever bytes it is
  read from: its last-frame mark is stored as an unsigned byte, which is never \<open>-1\<close>. And its transfer
  number is the one that happened to be in the slot, as journals do not hold it.
\<close>

theorem replayed_frame_never_last:
  assumes "replay_body BINARY_DATA_COMMAND flags grp ts = Some body" and "body bs = Inr (Inr f, rest)"
  shows "cmd_userCookie (f slot) = cmd_userCookie slot \<and>
    snd (accept_binary_frame decode (f slot) inc) \<noteq> Inr (SUCCESS, m)"
proof -
  obtain flag w0 w1 w2 w3 w4 where f: "f = binary_data flags grp ts flag w0 w1 w2 w3 w4"
    using assms by (auto simp: bindR_def bindE_eq_Inr)
  then have "0 \<le> cmd_symbol (f slot)" by (simp add: binary_data_def)
  then have "snd (accept_binary_frame decode (f slot) inc) \<noteq> Inr (SUCCESS, m)"
    by (auto simp: accept_binary_frame_def Let_def split: sum.splits)
  with f show ?thesis by (simp add: binary_data_def replay_fields_def)
qed

theorem replayed_frame_never_last_witness:
  "\<exists>body f rest. replay_body BINARY_DATA_COMMAND 0 0 0 = Some body \<and>
    body (write_body (sample_frame BINARY_DATA_COMMAND)) = Inr (Inr f, rest) \<and>
    snd (accept_binary_frame (\<lambda>_ _. Inr (Some ())) (f default_command) []) \<noteq> Inr (SUCCESS, Some ())"
proof -
  let ?cmd = "sample_frame BINARY_DATA_COMMAND"
  have "replayable ?cmd" "record_fits ?cmd 1"
    by (simp_all add: replayable_def record_fits_def sample_frame_def default_command_def fits_def)
  then obtain body f where "replay_body BINARY_DATA_COMMAND 0 0 0 = Some body" "body_of ?cmd body f"
    using replay_body_written[of ?cmd 1] by (auto simp: sample_frame_def default_command_def)
  moreover from this(2) have "body (write_body ?cmd @ []) = Inr (Inr f, [])" unfolding body_of_def by blast
  ultimately show ?thesis
    using replayed_frame_never_last[of 0 0 0 body _ f "[]" default_command "\<lambda>_ _. Inr (Some ())" "[]" "Some ()"] by auto
qed

end
