(* ===== verification/Api_Promises.thy ===== *)
theory Api_Promises
  imports Api_Correct "HOL-Library.Multiset"
begin

text \<open>
  The promises of the client interface: calls of \<open>ExchangeApi\<close> that return a future, interleaved
  with results that arrive in the order of their sequences, as steps; and that every promise is
  fulfilled exactly once, with the outcome of its own command.
\<close>

section \<open>Pending promises\<close>

datatype promise_kind = Code_Promise | Full_Promise | Book_Promise | Report_Promise

type_synonym pending_promise = "int \<times> nat \<times> promise_kind"

definition tagged :: "promise_kind \<Rightarrow> (int, nat) umap \<Rightarrow> pending_promise list" where
  "tagged k m = map (\<lambda>(seq, h). (seq, h, k)) m"

definition pending :: "api_promises \<Rightarrow> pending_promise list" where
  "pending p = tagged Report_Promise (ap_reportPromises p) @ tagged Book_Promise (ap_orderBookPromises p) @
     tagged Full_Promise (ap_fullResponsePromises p) @ tagged Code_Promise (ap_promises p)"

text \<open>What fulfils a promise of a kind, given the command as it left the exchange.\<close>

fun answer :: "promise_kind \<Rightarrow> order_command \<Rightarrow> api_response" where
  "answer Report_Promise cmd = Report_Sections (filter (\<lambda>(section, words). words \<noteq> [])
     (deserialize_events (cmd_matcherEvent cmd) []))"
| "answer Book_Promise cmd = Market_Data (cmd_marketData cmd)"
| "answer Full_Promise cmd = Full_Response cmd"
| "answer Code_Promise cmd = Result_Code (cmd_resultCode cmd)"

lemma tagged_fst [simp]: "map fst (tagged k m) = map fst m"
  by (auto simp: tagged_def)

lemma tagged_put: "s \<notin> fst ` set m \<Longrightarrow> tagged k (um_put s h m) = tagged k m @ [(s, h, k)]"
  by (simp add: tagged_def um_put_new)

lemma tagged_erase: "tagged k (um_erase s m) = filter (\<lambda>x. fst x \<noteq> s) (tagged k m)"
  by (induction m) (auto simp: tagged_def)

lemma tagged_absent:
  "um_find m s = None \<Longrightarrow> filter (\<lambda>x. fst x \<noteq> s) (tagged k m) = tagged k m \<and> filter (\<lambda>x. fst x = s) (tagged k m) = []"
  by (induction m) (auto simp: tagged_def split: if_splits)

lemma tagged_found:
  assumes "distinct (map fst m)" and "um_find m s = Some h"
  shows "filter (\<lambda>x. fst x = s) (tagged k m) = [(s, h, k)]"
  using assms
proof (induction m)
  case (Cons x m)
  show ?case
  proof (cases "fst x = s")
    case True
    then have "um_find m s = None" using Cons.prems(1) by (auto simp: map_of_eq_None_iff)
    with True Cons.prems show ?thesis using tagged_absent[of m s k] by (auto simp: tagged_def split: prod.split)
  next
    case False
    with Cons show ?thesis by (cases x) (auto simp: tagged_def)
  qed
qed simp

lemma pending_new [simp]: "pending new_api_promises = []"
  by (simp add: pending_def new_api_promises_def tagged_def)

lemma pending_store:
  assumes "s \<notin> fst ` set (pending p)"
  shows "mset (pending (set_promise h s p)) = add_mset (s, h, Code_Promise) (mset (pending p))"
    "mset (pending (set_report_promise h s p)) = add_mset (s, h, Report_Promise) (mset (pending p))"
    "mset (pending (set_order_book_promise h s p)) = add_mset (s, h, Book_Promise) (mset (pending p))"
    "mset (pending (set_full_promise h s p)) = add_mset (s, h, Full_Promise) (mset (pending p))"
proof -
  have "s \<notin> set (map fst (pending p))" using assms by simp
  then have "s \<notin> fst ` set (ap_reportPromises p)" "s \<notin> fst ` set (ap_orderBookPromises p)"
    "s \<notin> fst ` set (ap_fullResponsePromises p)" "s \<notin> fst ` set (ap_promises p)" by (simp_all add: pending_def)
  then show
    "mset (pending (set_promise h s p)) = add_mset (s, h, Code_Promise) (mset (pending p))"
    "mset (pending (set_report_promise h s p)) = add_mset (s, h, Report_Promise) (mset (pending p))"
    "mset (pending (set_order_book_promise h s p)) = add_mset (s, h, Book_Promise) (mset (pending p))"
    "mset (pending (set_full_promise h s p)) = add_mset (s, h, Full_Promise) (mset (pending p))"
    by (simp_all add: pending_def set_promise_def set_report_promise_def set_order_book_promise_def
        set_full_promise_def tagged_put)
qed

text \<open>A result fulfils the promise of its sequence, if there is one, and touches no other.\<close>

lemma process_result_pending:
  assumes d: "distinct (map fst (pending p))" and r: "process_result s cmd p = (p', out)"
  shows "pending p' = filter (\<lambda>x. fst x \<noteq> s) (pending p)"
    and "(case out of None \<Rightarrow> [] | Some a \<Rightarrow> [a]) =
      map (\<lambda>(_, h, k). (h, answer k cmd)) (filter (\<lambda>x. fst x = s) (pending p))"
proof -
  let ?R = "ap_reportPromises p" and ?B = "ap_orderBookPromises p" and ?F = "ap_fullResponsePromises p" and ?C = "ap_promises p"
  have dm: "distinct (map fst ?R)" "distinct (map fst ?B)" "distinct (map fst ?F)" "distinct (map fst ?C)"
    using d by (simp_all add: pending_def)
  have one: "um_find ?R s \<noteq> None \<Longrightarrow> um_find ?B s = None \<and> um_find ?F s = None \<and> um_find ?C s = None"
    "um_find ?B s \<noteq> None \<Longrightarrow> um_find ?F s = None \<and> um_find ?C s = None"
    "um_find ?F s \<noteq> None \<Longrightarrow> um_find ?C s = None"
    using d by (auto simp: pending_def map_of_eq_None_iff)
  note absent = tagged_absent[THEN conjunct1] tagged_absent[THEN conjunct2]
  consider h where "um_find ?R s = Some h" "um_find ?B s = None" "um_find ?F s = None" "um_find ?C s = None"
    | h where "um_find ?R s = None" "um_find ?B s = Some h" "um_find ?F s = None" "um_find ?C s = None"
    | h where "um_find ?R s = None" "um_find ?B s = None" "um_find ?F s = Some h" "um_find ?C s = None"
    | h where "um_find ?R s = None" "um_find ?B s = None" "um_find ?F s = None" "um_find ?C s = Some h"
    | "um_find ?R s = None" "um_find ?B s = None" "um_find ?F s = None" "um_find ?C s = None"
    using one by (meson not_Some_eq)
  then have "pending p' = filter (\<lambda>x. fst x \<noteq> s) (pending p) \<and>
      (case out of None \<Rightarrow> [] | Some a \<Rightarrow> [a]) =
      map (\<lambda>(_, h, k). (h, answer k cmd)) (filter (\<lambda>x. fst x = s) (pending p))"
    by cases (use r dm in \<open>auto simp: process_result_def pending_def tagged_erase absent tagged_found\<close>)
  then show "pending p' = filter (\<lambda>x. fst x \<noteq> s) (pending p)" "(case out of None \<Rightarrow> [] | Some a \<Rightarrow> [a]) =
      map (\<lambda>(_, h, k). (h, answer k cmd)) (filter (\<lambda>x. fst x = s) (pending p))" by blast+
qed

section \<open>Calls\<close>

text \<open>The calls that return a future, and the command that such a call hands to the exchange.\<close>

datatype api_call =
    Call_Async api_command
  | Call_Full api_command
  | Call_Book int int int
  | Call_Report bytes int

fun make_call :: "lz4 \<Rightarrow> 'r ring \<Rightarrow> nat \<Rightarrow> nat \<Rightarrow> api_call \<Rightarrow> 'r api \<Rightarrow> 'r api \<times> (exn + unit)" where
  "make_call lz rb h h2 (Call_Async api) s = bindA (submit_command_async lz rb h h2 api s) (\<lambda>_ s1. (s1, Inr ()))"
| "make_call lz rb h h2 (Call_Full api) s = submit_command_async_full_response rb h api s"
| "make_call lz rb h h2 (Call_Book now symbolId depth) s = request_order_book_async rb h now symbolId depth s"
| "make_call lz rb h h2 (Call_Report query transferId) s =
     bindA (process_report lz rb h query transferId s) (\<lambda>_ s1. (s1, Inr ()))"

definition last_frame_of :: "command_type \<Rightarrow> int \<Rightarrow> order_command \<Rightarrow> bool" where
  "last_frame_of kind i cmd \<longleftrightarrow> cmd_command cmd = kind \<and> cmd_userCookie cmd = i \<and> cmd_symbol cmd = -1"

fun serves :: "api_call \<Rightarrow> order_command \<Rightarrow> bool" where
  "serves (Call_Async api) cmd \<longleftrightarrow> (case api_request api of
     Api_Binary_Data i data \<Rightarrow> last_frame_of BINARY_DATA_COMMAND i cmd
   | Api_Persist_State d seal \<Rightarrow> cmd_command cmd \<in> {PERSIST_STATE_MATCHING, PERSIST_STATE_RISK} \<and> cmd_orderId cmd = d
   | _ \<Rightarrow> \<exists>slot. translate_slot api slot = Inr cmd)"
| "serves (Call_Full api) cmd \<longleftrightarrow> (\<exists>slot. translate_slot api slot = Inr cmd)"
| "serves (Call_Book now symbolId depth) cmd \<longleftrightarrow>
     cmd_command cmd = ORDER_BOOK_REQUEST \<and> cmd_symbol cmd = symbolId \<and> cmd_size cmd = depth"
| "serves (Call_Report query i) cmd \<longleftrightarrow> last_frame_of BINARY_DATA_QUERY i cmd"

definition bytes_ok :: "bytes \<Rightarrow> bool" where
  "bytes_ok bs \<longleftrightarrow> bs \<noteq> [] \<and> length bs \<le> 2113929216"

text \<open>LZ4 takes at most 2113929216 bytes.\<close>

fun call_ok :: "api_call \<Rightarrow> bool" where
  "call_ok (Call_Async api) \<longleftrightarrow> (case api_request api of Api_Binary_Data i data \<Rightarrow> bytes_ok (serialized_message data) | _ \<Rightarrow> True)"
| "call_ok (Call_Report query i) \<longleftrightarrow> bytes_ok query"
| "call_ok _ \<longleftrightarrow> True"

text \<open>The promises of a call whose last sequence is \<open>hi\<close>.\<close>

fun call_promises :: "nat \<Rightarrow> nat \<Rightarrow> api_call \<Rightarrow> int \<Rightarrow> pending_promise list" where
  "call_promises h h2 (Call_Async api) hi = (case api_request api of
     Api_Persist_State d seal \<Rightarrow> [(hi - 1, h, Code_Promise), (hi, h2, Code_Promise)]
   | _ \<Rightarrow> [(hi, h, Code_Promise)])"
| "call_promises h h2 (Call_Full api) hi = [(hi, h, Full_Promise)]"
| "call_promises h h2 (Call_Book now symbolId depth) hi = [(hi, h, Book_Promise)]"
| "call_promises h h2 (Call_Report query i) hi = [(hi, h, Report_Promise)]"

text \<open>
  A step of the ring that publishes \<open>cmds\<close> and stores the promises \<open>new\<close> under their sequences;
  the commands under them serve the call.
\<close>

definition published_by :: "('r \<Rightarrow> int) \<Rightarrow> ('r \<Rightarrow> order_command list) \<Rightarrow> api_call \<Rightarrow> 'r \<Rightarrow> 'r \<Rightarrow> pending_promise list \<Rightarrow> bool" where
  "published_by claimed published c r r' new \<longleftrightarrow> (\<exists>cmds. published r' = published r @ cmds \<and>
     claimed r' = claimed r + int (length cmds) \<and> distinct (map fst new) \<and>
     (\<forall>(s, h, k) \<in> set new. claimed r < s \<and> s \<le> claimed r' \<and> serves c (cmds ! nat (s - claimed r - 1))))"

lemma published_byI:
  assumes "published r' = published r @ cmds" and "claimed r' = claimed r + int (length cmds)" and "cmds \<noteq> []"
    and "serves c (List.last cmds)"
  shows "published_by claimed published c r r' [(claimed r', h, k)]"
proof -
  have "nat (int (length cmds) - 1) = length cmds - Suc 0" by simp
  with assms show ?thesis by (auto simp: published_by_def last_conv_nth)
qed

lemma publish_request_ok:
  assumes ring: "ring_ok rb claimed published" "1 \<le> rb_bufferSize rb"
    and "publish_request rb f store (r, p) = ((r', p'), Inr ())"
  shows "\<exists>slot cmd. f slot = Inr cmd \<and> published r' = published r @ [cmd] \<and> claimed r' = claimed r + 1 \<and>
    p' = store (claimed r') p"
proof -
  obtain r1 where r1: "claim rb 1 r = (r1, Inr (claimed r + 1))" "claimed r1 = claimed r + 1" "published r1 = published r"
    using ring_nextE[OF ring(1) _ ring(2)] by auto
  let ?s = "claimed r + 1"
  obtain cmd where cmd: "f (rb_get rb ?s r1) = Inr cmd" "r' = rb_publish rb ?s ?s (rb_set rb ?s cmd r1)" "p' = store ?s p"
    using assms(3) r1(1) by (auto simp: publish_request_def split: sum.splits)
  have "?s = claimed (rb_set rb ?s cmd r1)" using ring_set[OF ring(1)] r1(2) by simp
  then show ?thesis
    using cmd r1 ring_set[OF ring(1)] ring_publish[OF ring(1), of 1 ?s "rb_set rb ?s cmd r1" ?s] ring(2) by force
qed

lemma publish_persist_cmd_ok:
  assumes ring: "ring_ok rb claimed published" "2 \<le> rb_bufferSize rb"
    and "publish_persist_cmd rb d t store (r, p) = ((r', p'), Inr ())"
  shows "\<exists>c1 c2. published r' = published r @ [c1, c2] \<and> claimed r' = claimed r + 2 \<and>
    p' = store (claimed r' - 1) (claimed r') p \<and> cmd_command c1 = PERSIST_STATE_MATCHING \<and> cmd_orderId c1 = d \<and>
    cmd_command c2 = PERSIST_STATE_RISK \<and> cmd_orderId c2 = d"
proof -
  obtain r1 where r1: "claim rb 2 r = (r1, Inr (claimed r + 2))" "claimed r1 = claimed r + 2" "published r1 = published r"
    using ring_nextE[OF ring(1) _ ring(2)] by auto
  let ?f = "claimed r + 1" and ?s = "claimed r + 2"
  define c1 where "c1 = persist_slot PERSIST_STATE_MATCHING d t (rb_get rb ?f r1)"
  define r2 where "r2 = rb_set rb ?f c1 r1"
  define c2 where "c2 = persist_slot PERSIST_STATE_RISK d t (rb_get rb ?s r2)"
  define r3 where "r3 = rb_set rb ?s c2 r2"
  have r': "r' = rb_publish rb ?f ?s r3" "p' = store ?f ?s p"
    using assms(3) r1(1) by (simp_all add: publish_persist_cmd_def Let_def c1_def c2_def r2_def r3_def add.commute)
  have r3: "claimed r3 = ?s" "published r3 = published r" "rb_get rb ?f r3 = c1" "rb_get rb ?s r3 = c2"
    using r1 ring(2) ring_set[OF ring(1)] by (simp_all add: r3_def r2_def)
  have two: "[0..<2] = [0, 1 :: nat]" by (simp add: numeral_2_eq_2)
  have lo: "?f = claimed r3 - int 2 + 1" and hi: "?s = claimed r3" and n: "(1 :: nat) \<le> 2" "int 2 \<le> rb_bufferSize rb"
    using r3(1) ring(2) by simp_all
  note pub = ring_publish[OF ring(1) n lo hi]
  have "claimed r' = ?s" unfolding r'(1) pub(1) by (rule r3(1))
  moreover have "published r' = published r @ [c1, c2]" unfolding r'(1) pub(2) two using r3(2-4) by (simp add: add.assoc)
  moreover from calculation(1) have "p' = store (claimed r' - 1) (claimed r') p" using r'(2) by (simp add: add.commute)
  ultimately show ?thesis by (simp add: c1_def c2_def persist_slot_def)
qed

lemma publish_bytes_ok:
  assumes ring: "ring_ok rb claimed published" "4 \<le> rb_bufferSize rb" "-1 \<le> claimed r" "lz4_ok lz"
    and "bytes_ok bs" and "publish_bytes lz rb check kind i t bs store (r, p) = ((r', p'), x)"
  shows "\<exists>cmds. published r' = published r @ cmds \<and> claimed r' = claimed r + int (length cmds) \<and> cmds \<noteq> [] \<and>
    p' = store (claimed r') p \<and> last_frame_of kind i (List.last cmds)"
proof -
  have bs: "bs \<noteq> []" "length bs \<le> 2113929216" using assms(5) by (simp_all add: bytes_ok_def)
  obtain longs n r1 slots c where n: "length longs = 5 * Suc n"
    and pub: "publish_bytes lz rb check kind i t bs store (r, p) = ((r1, store (claimed r1) p), Inr (claimed r1))"
    and r1: "claimed r1 = claimed r + int (Suc n)"
      "published r1 = published r @ map (frame_at (binary_frame kind i t) longs (Suc n) slots) [0..<Suc n]"
    using bytes_fragmented[OF ring bs, of check kind i t store p] by metis
  have "last_frame_of kind i (frame_at (binary_frame kind i t) longs (Suc n) slots n)"
    by (simp add: last_frame_of_def frame_at_def binary_frame_simps)
  then show ?thesis
    using pub r1 assms(6) by (intro exI[of _ "map (frame_at (binary_frame kind i t) longs (Suc n) slots) [0..<Suc n]"]) simp
qed

lemma pending_request:
  assumes "ring_ok rb claimed published" "1 \<le> rb_bufferSize rb" and "\<forall>x \<in> set (pending p). fst x \<le> claimed r"
    and "publish_request rb f store (r, p) = ((r', p'), Inr ())"
    and "\<And>slot cmd. f slot = Inr cmd \<Longrightarrow> serves c cmd"
    and "\<And>s q. s \<notin> fst ` set (pending q) \<Longrightarrow> mset (pending (store s q)) = add_mset (s, h, k) (mset (pending q))"
  shows "published_by claimed published c r r' [(claimed r', h, k)] \<and>
    mset (pending p') = mset (pending p) + mset [(claimed r', h, k)]"
proof -
  obtain slot cmd where r: "f slot = Inr cmd" "published r' = published r @ [cmd]" "claimed r' = claimed r + 1"
    "p' = store (claimed r') p" using publish_request_ok[OF assms(1,2,4)] by blast
  have "claimed r' \<notin> fst ` set (pending p)" using assms(3) r(3) by auto
  then show ?thesis using published_byI[where published = published and claimed = claimed and cmds = "[cmd]" and c = c and r = r and r' = r'] r assms(5,6) by simp
qed

lemma pending_bytes:
  assumes "ring_ok rb claimed published" "4 \<le> rb_bufferSize rb" "-1 \<le> claimed r" "lz4_ok lz" "bytes_ok bs"
    and "\<forall>x \<in> set (pending p). fst x \<le> claimed r"
    and "publish_bytes lz rb check kind i t bs store (r, p) = ((r', p'), Inr seq)"
    and "\<And>cmd. last_frame_of kind i cmd \<Longrightarrow> serves c cmd"
    and "\<And>s q. s \<notin> fst ` set (pending q) \<Longrightarrow> mset (pending (store s q)) = add_mset (s, h, k) (mset (pending q))"
  shows "published_by claimed published c r r' [(claimed r', h, k)] \<and>
    mset (pending p') = mset (pending p) + mset [(claimed r', h, k)]"
proof -
  obtain cmds where r: "published r' = published r @ cmds" "claimed r' = claimed r + int (length cmds)" "cmds \<noteq> []"
    "p' = store (claimed r') p" "last_frame_of kind i (List.last cmds)"
    using publish_bytes_ok[OF assms(1-5,7)] by blast
  have "claimed r' \<notin> fst ` set (pending p)" using assms(6) r(2,3) by fastforce
  then show ?thesis using published_byI[where published = published and claimed = claimed, OF r(1-3) assms(8)[OF r(5)], of h k] r(4) assms(9) by simp
qed

text \<open>Every call that returns publishes its commands and leaves its promises.\<close>

lemma make_call_pending:
  assumes ring: "ring_ok rb claimed published" "4 \<le> rb_bufferSize rb" "-1 \<le> claimed r" "lz4_ok lz" and c: "call_ok c"
    and p: "\<forall>x \<in> set (pending p). fst x \<le> claimed r" and m: "make_call lz rb h h2 c (r, p) = ((r', p'), Inr ())"
  shows "published_by claimed published c r r' (call_promises h h2 c (claimed r')) \<and>
    mset (pending p') = mset (pending p) + mset (call_promises h h2 c (claimed r'))"
proof -
  have size: "1 \<le> rb_bufferSize rb" "2 \<le> rb_bufferSize rb" using ring(2) by simp_all
  note request = pending_request[OF ring(1) size(1) p] and bytes = pending_bytes[OF ring _ p]
  show ?thesis
  proof (cases c)
    case (Call_Async api)
    consider (Data) i d where "api_request api = Api_Binary_Data i d" | (Persist) d b where "api_request api = Api_Persist_State d b"
      | (Slot) "\<And>i d. api_request api \<noteq> Api_Binary_Data i d" "\<And>d b. api_request api \<noteq> Api_Persist_State d b" by blast
    then show ?thesis
    proof cases
      case Data
      from m Call_Async Data obtain seq where
        "publish_bytes lz rb True BINARY_DATA_COMMAND i (Some (api_timestamp api)) (serialized_message d) (set_promise h) (r, p) =
          ((r', p'), Inr seq)"
        by (auto simp: submit_command_async_def publish_binary_data_def bindA_def split: prod.splits sum.splits)
      from bytes[OF _ this, where c = c and h = h and k = Code_Promise] c Call_Async Data pending_store(1) show ?thesis by simp
    next
      case Persist
      from m Call_Async Persist have "publish_persist_cmd rb d (api_timestamp api)
          (\<lambda>seq1 seq2 p. set_promise h2 seq2 (set_promise h seq1 p)) (r, p) = ((r', p'), Inr ())"
        by (auto simp: submit_command_async_def bindA_def split: prod.splits sum.splits)
      from publish_persist_cmd_ok[OF ring(1) size(2) this] obtain c1 c2 where
        r: "published r' = published r @ [c1, c2]" "claimed r' = claimed r + 2"
        "p' = set_promise h2 (claimed r') (set_promise h (claimed r' - 1) p)"
        "cmd_command c1 = PERSIST_STATE_MATCHING" "cmd_orderId c1 = d" "cmd_command c2 = PERSIST_STATE_RISK" "cmd_orderId c2 = d"
        by blast
      have fresh: "claimed r' \<notin> fst ` set (pending p)" "claimed r' - 1 \<notin> fst ` set (pending p)" using p r(2) by fastforce+
      have one: "mset (pending (set_promise h (claimed r' - 1) p)) = add_mset (claimed r' - 1, h, Code_Promise) (mset (pending p))"
        by (rule pending_store(1)[OF fresh(2)])
      then have "set (pending (set_promise h (claimed r' - 1) p)) = insert (claimed r' - 1, h, Code_Promise) (set (pending p))"
        by (metis set_mset_add_mset_insert set_mset_mset)
      then have "claimed r' \<notin> fst ` set (pending (set_promise h (claimed r' - 1) p))" using fresh(1) by simp
      from pending_store(1)[OF this, of h2] one r Call_Async Persist show ?thesis
        by (auto simp: published_by_def intro!: exI[of _ "[c1, c2]"])
    next
      case Slot
      then have "submit_with lz rb (set_promise h) (set_promise h2) api (r, p) =
          publish_request rb (translate_slot api) (set_promise h) (r, p)" by (simp split: api_request.split)
      with m Call_Async have "publish_request rb (translate_slot api) (set_promise h) (r, p) = ((r', p'), Inr ())"
        by (auto simp: submit_command_async_def bindA_def split: prod.splits sum.splits)
      moreover have "serves c cmd" if "translate_slot api slot = Inr cmd" for slot cmd
        using that Call_Async Slot by (auto split: api_request.split)
      ultimately have "published_by claimed published c r r' [(claimed r', h, Code_Promise)] \<and>
          mset (pending p') = mset (pending p) + mset [(claimed r', h, Code_Promise)]"
        using request[where c = c and h = h and k = Code_Promise] pending_store(1) by blast
      with Call_Async Slot show ?thesis by (simp split: api_request.split)
    qed
  next
    case (Call_Full api)
    with m have "publish_request rb (translate_slot api) (set_full_promise h) (r, p) = ((r', p'), Inr ())"
      by (auto simp: submit_command_async_full_response_def split: api_request.splits)
    from request[OF this, where c = c and h = h and k = Full_Promise] Call_Full pending_store(4) show ?thesis by auto
  next
    case (Call_Book now symbolId depth)
    from request[OF m[unfolded Call_Book make_call.simps request_order_book_async_def], where c = c and h = h and k = Book_Promise] Call_Book pending_store(3)
    show ?thesis by auto
  next
    case (Call_Report query i)
    with m obtain seq where
      "publish_bytes lz rb True BINARY_DATA_QUERY i (Some 0) query (set_report_promise h) (r, p) = ((r', p'), Inr seq)"
      by (auto simp: process_report_def publish_query_def bindA_def split: prod.splits sum.splits)
    from bytes[OF _ this, where c = c and h = h and k = Report_Promise] c Call_Report pending_store(2) show ?thesis by simp
  qed
qed

section \<open>Runs\<close>

text \<open>
  A run of an exchange that starts empty: calls that return, and results that arrive in the order
  of the published commands. \<open>outcome seq\<close> is the command of sequence \<open>seq\<close> as it left the exchange,
  \<open>given\<close> the promises given so far with their calls, \<open>arrived\<close> the number of results and
  \<open>answers\<close> what promises were fulfilled with.
\<close>

type_synonym given_promise = "pending_promise \<times> api_call"

inductive api_run ::
  "lz4 \<Rightarrow> 'r ring \<Rightarrow> ('r \<Rightarrow> int) \<Rightarrow> ('r \<Rightarrow> order_command list) \<Rightarrow> (int \<Rightarrow> order_command) \<Rightarrow> 'r api \<Rightarrow> given_promise list \<Rightarrow>
     nat \<Rightarrow> (nat \<times> api_response) list \<Rightarrow> bool"
  for lz rb claimed published outcome where
  run_start: "claimed r = -1 \<Longrightarrow> published r = [] \<Longrightarrow>
    api_run lz rb claimed published outcome (r, new_api_promises) [] 0 []"
| run_call: "api_run lz rb claimed published outcome s given arrived answers \<Longrightarrow> call_ok c \<Longrightarrow>
    make_call lz rb h h2 c s = (s', Inr ()) \<Longrightarrow>
    api_run lz rb claimed published outcome s'
      (given @ map (\<lambda>x. (x, c)) (call_promises h h2 c (claimed (fst s')))) arrived answers"
| run_result: "api_run lz rb claimed published outcome (r, p) given arrived answers \<Longrightarrow> arrived < length (published r) \<Longrightarrow>
    process_result (int arrived) (outcome (int arrived)) p = (p', out) \<Longrightarrow>
    api_run lz rb claimed published outcome (r, p') given (Suc arrived)
      (answers @ (case out of None \<Rightarrow> [] | Some a \<Rightarrow> [a]))"

definition due :: "(int \<Rightarrow> order_command) \<Rightarrow> given_promise \<Rightarrow> nat \<times> api_response" where
  "due outcome x = (case x of ((seq, h, k), c) \<Rightarrow> (h, answer k (outcome seq)))"

text \<open>Promises of results to come are pending, the others are answered.\<close>

definition promises_kept ::
  "('r \<Rightarrow> int) \<Rightarrow> ('r \<Rightarrow> order_command list) \<Rightarrow> (int \<Rightarrow> order_command) \<Rightarrow> 'r api \<Rightarrow> given_promise list \<Rightarrow>
     nat \<Rightarrow> (nat \<times> api_response) list \<Rightarrow> bool" where
  "promises_kept claimed published outcome s given arrived answers \<longleftrightarrow>
     int (length (published (fst s))) = claimed (fst s) + 1 \<and> distinct (map (fst \<circ> fst) given) \<and>
     (\<forall>((seq, h, k), c) \<in> set given. 0 \<le> seq \<and> seq \<le> claimed (fst s) \<and> serves c (published (fst s) ! nat seq)) \<and>
     arrived \<le> length (published (fst s)) \<and>
     mset (pending (snd s)) = mset (map fst (filter (\<lambda>x. int arrived \<le> fst (fst x)) given)) \<and>
     mset answers = mset (map (due outcome) (filter (\<lambda>x. fst (fst x) < int arrived) given))"

lemma promises_kept_start:
  "claimed r = -1 \<Longrightarrow> published r = [] \<Longrightarrow> promises_kept claimed published outcome (r, new_api_promises) [] 0 []"
  by (simp add: promises_kept_def)

lemma promises_kept_call:
  assumes ring: "ring_ok rb claimed published" "4 \<le> rb_bufferSize rb" "lz4_ok lz" and c: "call_ok c"
    and k: "promises_kept claimed published outcome (r, p) given arrived answers"
    and m: "make_call lz rb h h2 c (r, p) = ((r', p'), Inr ())"
  shows "promises_kept claimed published outcome (r', p')
    (given @ map (\<lambda>x. (x, c)) (call_promises h h2 c (claimed r'))) arrived answers"
proof -
  let ?new = "call_promises h h2 c (claimed r')"
  have inv: "int (length (published r)) = claimed r + 1" "distinct (map (fst \<circ> fst) given)"
    "\<forall>((seq, h, k), c) \<in> set given. 0 \<le> seq \<and> seq \<le> claimed r \<and> serves c (published r ! nat seq)"
    "arrived \<le> length (published r)" "mset (pending p) = mset (map fst (filter (\<lambda>x. int arrived \<le> fst (fst x)) given))"
    "mset answers = mset (map (due outcome) (filter (\<lambda>x. fst (fst x) < int arrived) given))"
    using k by (simp_all add: promises_kept_def)
  have "set (pending p) = set (map fst (filter (\<lambda>x. int arrived \<le> fst (fst x)) given))" using inv(5) by (metis set_mset_mset)
  then have "\<forall>x \<in> set (pending p). fst x \<le> claimed r" using inv(3) by fastforce
  from make_call_pending[OF ring(1,2) _ ring(3) c this m] inv(1)
  have new: "published_by claimed published c r r' ?new" "mset (pending p') = mset (pending p) + mset ?new" by simp_all
  obtain cmds where pub: "published r' = published r @ cmds" "claimed r' = claimed r + int (length cmds)" "distinct (map fst ?new)"
    "\<forall>(s, h, k) \<in> set ?new. claimed r < s \<and> s \<le> claimed r' \<and> serves c (cmds ! nat (s - claimed r - 1))"
    using new(1) unfolding published_by_def by blast
  have len: "int (length (published r')) = claimed r' + 1" using inv(1) pub(1,2) by simp
  have "0 \<le> s \<and> s \<le> claimed r' \<and> serves c' (published r' ! nat s)" if "((s, h, k), c') \<in> set given" for s h k c'
  proof -
    have "0 \<le> s" "s \<le> claimed r" "serves c' (published r ! nat s)" using inv(3) that by fastforce+
    moreover from this have "nat s < length (published r)" using inv(1) by linarith
    ultimately show ?thesis using pub(1,2) by (simp add: nth_append)
  qed
  moreover have "0 \<le> s \<and> s \<le> claimed r' \<and> serves c (published r' ! nat s)" if "(s, h, k) \<in> set ?new" for s h k
  proof -
    have s: "claimed r < s" "s \<le> claimed r'" "serves c (cmds ! nat (s - claimed r - 1))" using pub(4) that by fastforce+
    then have "\<not> nat s < length (published r)" "nat s - length (published r) = nat (s - claimed r - 1)" using inv(1) by linarith+
    then show ?thesis using s pub(1) inv(1) by (simp add: nth_append)
  qed
  moreover have "distinct (map (fst \<circ> fst) (given @ map (\<lambda>x. (x, c)) ?new))"
    using inv(2,3) pub(3,4) by (fastforce simp: comp_def)
  moreover have "filter (\<lambda>x. int arrived \<le> fst (fst x)) (map (\<lambda>x. (x, c)) ?new) = map (\<lambda>x. (x, c)) ?new"
    "filter (\<lambda>x. fst (fst x) < int arrived) (map (\<lambda>x. (x, c)) ?new) = []"
    using inv(1,4) pub(4) by (fastforce intro!: filter_True filter_False)+
  ultimately show ?thesis
    using inv(4-6) new(2) len pub(1) by (auto simp: promises_kept_def comp_def)
qed

lemma promises_kept_result:
  assumes k: "promises_kept claimed published outcome (r, p) given arrived answers" and "arrived < length (published r)"
    and r: "process_result (int arrived) (outcome (int arrived)) p = (p', out)"
  shows "promises_kept claimed published outcome (r, p') given (Suc arrived)
    (answers @ (case out of None \<Rightarrow> [] | Some a \<Rightarrow> [a]))"
proof -
  let ?s = "int arrived" and ?open = "\<lambda>x :: given_promise. int arrived \<le> fst (fst x)"
  have inv: "distinct (map (fst \<circ> fst) given)" "mset (pending p) = mset (map fst (filter ?open given))"
    "mset answers = mset (map (due outcome) (filter (\<lambda>x. fst (fst x) < ?s) given))"
    using k by (simp_all add: promises_kept_def)
  have "mset (map fst (pending p)) = mset (map (fst \<circ> fst) (filter ?open given))"
    using inv(2) by (metis mset_map map_map)
  moreover have "distinct (map (fst \<circ> fst) (filter ?open given))" using inv(1) by (rule distinct_map_filter)
  ultimately have d: "distinct (map fst (pending p))" by (metis mset_eq_imp_distinct_iff)
  note res = process_result_pending[OF d r]
  have "mset (pending p') = filter_mset (\<lambda>x. fst x \<noteq> ?s) (mset (pending p))" by (simp add: res(1))
  also have "\<dots> = mset (map fst (filter (\<lambda>x. fst (fst x) \<noteq> ?s) (filter ?open given)))"
    unfolding inv(2) by (simp add: filter_mset_image_mset comp_def del: filter_filter)
  also have "filter (\<lambda>x. fst (fst x) \<noteq> ?s) (filter ?open given) = filter (\<lambda>x. int (Suc arrived) \<le> fst (fst x)) given"
    by (auto intro: filter_cong)
  finally have open': "mset (pending p') = mset (map fst (filter (\<lambda>x. int (Suc arrived) \<le> fst (fst x)) given))" .
  have "mset (case out of None \<Rightarrow> [] | Some a \<Rightarrow> [a]) =
      image_mset (\<lambda>(_, h, k). (h, answer k (outcome ?s))) (filter_mset (\<lambda>x. fst x = ?s) (mset (pending p)))"
    by (simp add: res(2))
  also have "\<dots> = mset (map (due outcome) (filter (\<lambda>x. fst (fst x) = ?s) (filter ?open given)))"
    unfolding inv(2) by (auto simp: filter_mset_image_mset comp_def due_def image_mset.compositionality
        simp del: filter_filter intro!: image_mset_cong)
  also have "filter (\<lambda>x. fst (fst x) = ?s) (filter ?open given) = filter (\<lambda>x. fst (fst x) = ?s) given"
    by (auto intro: filter_cong)
  finally have "mset (answers @ (case out of None \<Rightarrow> [] | Some a \<Rightarrow> [a])) =
      mset (map (due outcome) (filter (\<lambda>x. fst (fst x) < ?s) given)) + mset (map (due outcome) (filter (\<lambda>x. fst (fst x) = ?s) given))"
    using inv(3) by simp
  also have "\<dots> = mset (map (due outcome) (filter (\<lambda>x. fst (fst x) < int (Suc arrived)) given))"
    by (induction given) auto
  finally show ?thesis using k open' assms(2) by (simp add: promises_kept_def)
qed

lemma api_run_kept:
  assumes "ring_ok rb claimed published" "4 \<le> rb_bufferSize rb" "lz4_ok lz"
  shows "api_run lz rb claimed published outcome s given arrived answers \<Longrightarrow>
    promises_kept claimed published outcome s given arrived answers"
proof (induction rule: api_run.induct)
  case (run_call s given arrived answers c h h2 s')
  obtain r p r' p' where "s = (r, p)" "s' = (r', p')" by (metis surj_pair)
  with run_call promises_kept_call[OF assms] show ?case by simp
qed (auto intro: promises_kept_start promises_kept_result)

text \<open>Results can always arrive, and then all of them have.\<close>

lemma results_arrive:
  assumes "api_run lz rb claimed published outcome (r, p) given arrived answers" and "arrived \<le> length (published r)"
  shows "\<exists>p' more. api_run lz rb claimed published outcome (r, p') given (length (published r)) (answers @ more)"
  using assms
proof (induction "length (published r) - arrived" arbitrary: p arrived answers)
  case 0
  then show ?case by (intro exI[of _ p] exI[of _ "[]"]) simp
next
  case (Suc d)
  obtain p1 out where "process_result (int arrived) (outcome (int arrived)) p = (p1, out)" by (metis surj_pair)
  from run_result[OF Suc.prems(1) _ this] Suc.hyps(2)
  have "api_run lz rb claimed published outcome (r, p1) given (Suc arrived)
      (answers @ (case out of None \<Rightarrow> [] | Some a \<Rightarrow> [a]))" by simp
  moreover have "d = length (published r) - Suc arrived" "Suc arrived \<le> length (published r)" using Suc.hyps(2) by simp_all
  ultimately show ?case using Suc.hyps(1) by (metis append_assoc)
qed

section \<open>Properties\<close>

text \<open>C27:
  After any calls and results, in any interleaving, the results that are still to come lead to a
  state with no promise left: every promise given was fulfilled exactly once, with the outcome of
  the command under its sequence, which is the command of its own call. Answers already given stay.
\<close>

theorem every_promise_fulfilled:
  assumes "ring_ok rb claimed published" and "4 \<le> rb_bufferSize rb" and "lz4_ok lz"
    and "api_run lz rb claimed published outcome (r, p) given arrived answers"
  shows "\<exists>p' more. api_run lz rb claimed published outcome (r, p') given (length (published r)) (answers @ more) \<and>
    pending p' = [] \<and> mset (answers @ more) = mset (map (due outcome) given) \<and>
    distinct (map (\<lambda>((seq, _, _), _). seq) given) \<and>
    (\<forall>((seq, _, _), c) \<in> set given. nat seq < length (published r) \<and> serves c (published r ! nat seq))"
proof -
  have kept: "promises_kept claimed published outcome (r, p) given arrived answers" by (rule api_run_kept[OF assms])
  then have le: "arrived \<le> length (published r)" by (simp add: promises_kept_def)
  obtain p' more where run: "api_run lz rb claimed published outcome (r, p') given (length (published r)) (answers @ more)"
    using results_arrive[OF assms(4) le] by blast
  then have k: "promises_kept claimed published outcome (r, p') given (length (published r)) (answers @ more)"
    by (rule api_run_kept[OF assms(1-3)])
  have bound: "fst (fst x) < int (length (published r))" if "x \<in> set given" for x
    using k that by (fastforce simp: promises_kept_def)
  then have "filter (\<lambda>x. int (length (published r)) \<le> fst (fst x)) given = []"
    "filter (\<lambda>x. fst (fst x) < int (length (published r))) given = given"
    by (auto simp: not_le intro!: filter_False filter_True)
  with k have "pending p' = []" "mset (answers @ more) = mset (map (due outcome) given)"
    unfolding promises_kept_def by simp_all
  moreover have "distinct (map (\<lambda>((seq, _, _), _). seq) given)"
    using k by (simp add: promises_kept_def comp_def case_prod_unfold)
  moreover have "\<forall>((seq, _, _), c) \<in> set given. nat seq < length (published r) \<and> serves c (published r ! nat seq)"
    using k by (fastforce simp: promises_kept_def)
  ultimately show ?thesis using run by blast
qed

definition sample_call :: api_call where
  "sample_call = Call_Async \<lparr>api_timestamp = 5, api_request = Api_Add_User 9\<rparr>"

definition sample_outcome :: "int \<Rightarrow> order_command" where
  "sample_outcome seq = default_command\<lparr>cmd_resultCode := SUCCESS\<rparr>"

theorem every_promise_fulfilled_witness:
  "\<exists>r p p' answers. make_call sample_lz4 sample_ring 3 4 sample_call (empty_sample_ring, new_api_promises) = ((r, p), Inr ()) \<and>
    api_run sample_lz4 sample_ring sr_claimed sr_published sample_outcome (r, p') [((0, 3, Code_Promise), sample_call)] 1 answers \<and>
    pending p' = [] \<and> answers = [(3, Result_Code SUCCESS)]"
proof -
  let ?run = "api_run sample_lz4 sample_ring sr_claimed sr_published sample_outcome"
  obtain r p where c: "make_call sample_lz4 sample_ring 3 4 sample_call (empty_sample_ring, new_api_promises) = ((r, p), Inr ())"
    "sr_claimed r = 0" "length (sr_published r) = 1"
    by (simp add: sample_call_def submit_command_async_def publish_request_def translate_slot_def sample_ring_def claim_def
        empty_sample_ring_def add_user_translator_def)
  have "call_ok sample_call" by (simp add: sample_call_def)
  moreover have "?run (empty_sample_ring, new_api_promises) [] 0 []"
    by (rule run_start) (simp_all add: empty_sample_ring_def)
  ultimately have "?run (r, p) [((0, 3, Code_Promise), sample_call)] 0 []"
    using run_call[of sample_lz4 sample_ring sr_claimed sr_published sample_outcome _ "[]" 0 "[]" sample_call 3 4 "(r, p)"] c(1,2)
    by (simp add: sample_call_def)
  moreover have "4 \<le> rb_bufferSize sample_ring" by (simp add: sample_ring_def)
  ultimately show ?thesis
    using every_promise_fulfilled[OF sample_ring_ok _ sample_lz4_ok] c
    by (fastforce simp: due_def sample_outcome_def)
qed

end
