(* ===== verification/Reports.thy ===== *)
theory Reports
  imports Snapshot Long_Arrays
begin

text \<open>
  \<open>common/api/reports\<close>: the queries for the total balances and for a single user, what the engines
  answer, the bytes of the answers and how the client merges the answers of all shards. The report
  of state hashes is not modelled.
\<close>

section \<open>Types and codes\<close>

datatype report_type = STATE_HASH | SINGLE_USER_REPORT | TOTAL_CURRENCY_BALANCE

fun report_type_to_code :: "report_type \<Rightarrow> int" where
  "report_type_to_code STATE_HASH = 10001"
| "report_type_to_code SINGLE_USER_REPORT = 10002"
| "report_type_to_code TOTAL_CURRENCY_BALANCE = 10003"

definition report_type_from_code :: "int \<Rightarrow> exn + report_type" where
  "report_type_from_code code =
     (if code = 10001 then Inr STATE_HASH
      else if code = 10002 then Inr SINGLE_USER_REPORT
      else if code = 10003 then Inr TOTAL_CURRENCY_BALANCE
      else Inl (Invalid_Argument ''unknown ReportType''))"

lemma report_type_roundtrip [simp]: "report_type_from_code (report_type_to_code t) = Inr t"
  by (cases t) (simp_all add: report_type_from_code_def)

lemma report_type_fits [simp]: "fits 4 (report_type_to_code t)"
  by (cases t) (simp_all add: fits_def)

text \<open>The queries; the one for a single user has its identifier, the others are empty.\<close>

datatype report_query = State_Hash_Query | Single_User_Query int | Total_Balance_Query

fun report_type_code :: "report_query \<Rightarrow> report_type" where
  "report_type_code State_Hash_Query = STATE_HASH"
| "report_type_code (Single_User_Query uid) = SINGLE_USER_REPORT"
| "report_type_code Total_Balance_Query = TOTAL_CURRENCY_BALANCE"

fun write_query :: "report_query \<Rightarrow> bytes" where
  "write_query State_Hash_Query = []"
| "write_query (Single_User_Query uid) = write_long uid"
| "write_query Total_Balance_Query = []"

text \<open>\<open>ReportQueryFactory::createQuery\<close>.\<close>

fun create_query :: "report_type \<Rightarrow> report_query reader" where
  "create_query SINGLE_USER_REPORT = bindR read_long (\<lambda>uid. returnR (Single_User_Query uid))"
| "create_query TOTAL_CURRENCY_BALANCE = returnR Total_Balance_Query"
| "create_query STATE_HASH = returnR State_Hash_Query"

definition query_bytes :: "report_query \<Rightarrow> bytes" where
  "query_bytes q = write_int (report_type_to_code (report_type_code q)) @ write_query q"

definition read_query :: "report_query reader" where
  "read_query = bindR read_int (\<lambda>code. bindR (liftR (report_type_from_code code)) create_query)"

fun query_fits :: "report_query \<Rightarrow> bool" where
  "query_fits (Single_User_Query uid) \<longleftrightarrow> fits 8 uid"
| "query_fits _ \<longleftrightarrow> True"

interpretation query_codec: exact_codec query_bytes read_query query_fits
proof unfold_locales
  fix q rest
  show "query_fits q \<Longrightarrow> read_query (query_bytes q @ rest) = Inr (q, rest)"
    by (cases q) (simp_all add: query_bytes_def read_query_def reads_simps report_type_from_code_def fits_def)
qed

section \<open>Nullable values\<close>

text \<open>\<open>MarshallNullable\<close>: a boolean and, if it is true, the value.\<close>

definition write_nullable :: "('a \<Rightarrow> bytes) \<Rightarrow> 'a option \<Rightarrow> bytes" where
  "write_nullable wr x = write_boolean (x \<noteq> None) @ (case x of None \<Rightarrow> [] | Some v \<Rightarrow> wr v)"

definition read_nullable :: "'a reader \<Rightarrow> 'a option reader" where
  "read_nullable rd = bindR read_boolean (\<lambda>b. if b then bindR rd (\<lambda>v. returnR (Some v)) else returnR None)"

locale nullable_codec = val: exact_codec wr rd valid
  for wr :: "'a \<Rightarrow> bytes" and rd :: "'a reader" and valid :: "'a \<Rightarrow> bool"

sublocale nullable_codec \<subseteq> exact_codec "write_nullable wr" "read_nullable rd" "pred_option valid"
proof unfold_locales
  fix x rest
  show "pred_option valid x \<Longrightarrow> read_nullable rd (write_nullable wr x @ rest) = Inr (x, rest)"
    by (cases x) (simp_all add: write_nullable_def read_nullable_def bindR_def codec_simps val.exact)
qed

type_synonym int_long_map = "(int, int) umap"

abbreviation write_int_long_map :: "int_long_map \<Rightarrow> bytes" where
  "write_int_long_map \<equiv> write_map write_int write_long"

abbreviation read_int_long_map :: "int_long_map reader" where
  "read_int_long_map \<equiv> read_reserved_map read_int read_long"

abbreviation int_long_map_fits :: "int_long_map \<Rightarrow> bool" where
  "int_long_map_fits \<equiv> valid_map (fits 4) (fits 8)"

interpretation reserved_map_codec: exact_codec write_int_long_map read_int_long_map int_long_map_fits
  by unfold_locales (rule long_map_codec.exact_map(2))

interpretation nullable_map_codec: nullable_codec write_int_long_map read_int_long_map int_long_map_fits
  by unfold_locales

section \<open>Total balances\<close>

record total_balance_report =
  tb_accountBalances :: "int_long_map option"
  tb_fees :: "int_long_map option"
  tb_adjustments :: "int_long_map option"
  tb_suspends :: "int_long_map option"
  tb_ordersBalances :: "int_long_map option"
  tb_openInterestLong :: "int_long_map option"
  tb_openInterestShort :: "int_long_map option"

definition empty_balance_report :: total_balance_report where
  "empty_balance_report = \<lparr>tb_accountBalances = None, tb_fees = None, tb_adjustments = None,
     tb_suspends = None, tb_ordersBalances = None, tb_openInterestLong = None, tb_openInterestShort = None\<rparr>"

definition of_order_balances :: "int_long_map \<Rightarrow> total_balance_report" where
  "of_order_balances m = empty_balance_report\<lparr>tb_ordersBalances := Some m\<rparr>"

definition write_balance_report :: "total_balance_report \<Rightarrow> bytes" where
  "write_balance_report r =
     write_nullable write_int_long_map (tb_accountBalances r) @ write_nullable write_int_long_map (tb_fees r) @
     write_nullable write_int_long_map (tb_adjustments r) @ write_nullable write_int_long_map (tb_suspends r) @
     write_nullable write_int_long_map (tb_ordersBalances r) @
     write_nullable write_int_long_map (tb_openInterestLong r) @
     write_nullable write_int_long_map (tb_openInterestShort r)"

definition read_balance_report :: "total_balance_report reader" where
  "read_balance_report =
     bindR (read_nullable read_int_long_map) (\<lambda>accounts. bindR (read_nullable read_int_long_map) (\<lambda>fees.
     bindR (read_nullable read_int_long_map) (\<lambda>adjustments. bindR (read_nullable read_int_long_map) (\<lambda>suspends.
     bindR (read_nullable read_int_long_map) (\<lambda>orders. bindR (read_nullable read_int_long_map) (\<lambda>long.
     bindR (read_nullable read_int_long_map) (\<lambda>short.
       returnR \<lparr>tb_accountBalances = accounts, tb_fees = fees, tb_adjustments = adjustments,
         tb_suspends = suspends, tb_ordersBalances = orders, tb_openInterestLong = long,
         tb_openInterestShort = short\<rparr>)))))))"

definition balance_report_fits :: "total_balance_report \<Rightarrow> bool" where
  "balance_report_fits r \<longleftrightarrow> (\<forall>m \<in> {tb_accountBalances r, tb_fees r, tb_adjustments r, tb_suspends r,
     tb_ordersBalances r, tb_openInterestLong r, tb_openInterestShort r}. pred_option int_long_map_fits m)"

interpretation balance_report_codec: exact_codec write_balance_report read_balance_report balance_report_fits
  by unfold_locales
    (simp add: write_balance_report_def read_balance_report_def balance_report_fits_def bindR_def nullable_map_codec.exact)

text \<open>\<open>MergeSum\<close> of up to five maps, any of which may be null.\<close>

definition add_entries :: "int_long_map option \<Rightarrow> int_long_map \<Rightarrow> int_long_map" where
  "add_entries m acc = (case m of None \<Rightarrow> acc | Some es \<Rightarrow> fold (\<lambda>(k, v). um_add k v) es acc)"

definition merge_sum :: "int_long_map option \<Rightarrow> int_long_map option \<Rightarrow> int_long_map" where
  "merge_sum m1 m2 = add_entries m2 (case m1 of None \<Rightarrow> [] | Some es \<Rightarrow> to_umap es)"

definition merge_balance_reports :: "total_balance_report \<Rightarrow> total_balance_report \<Rightarrow> total_balance_report" where
  "merge_balance_reports r n =
     \<lparr>tb_accountBalances = Some (merge_sum (tb_accountBalances r) (tb_accountBalances n)),
      tb_fees = Some (merge_sum (tb_fees r) (tb_fees n)),
      tb_adjustments = Some (merge_sum (tb_adjustments r) (tb_adjustments n)),
      tb_suspends = Some (merge_sum (tb_suspends r) (tb_suspends n)),
      tb_ordersBalances = Some (merge_sum (tb_ordersBalances r) (tb_ordersBalances n)),
      tb_openInterestLong = Some (merge_sum (tb_openInterestLong r) (tb_openInterestLong n)),
      tb_openInterestShort = Some (merge_sum (tb_openInterestShort r) (tb_openInterestShort n))\<rparr>"

text \<open>\<open>Merge\<close> of the sections of a response, with any result type.\<close>

fun merge_rest :: "'r reader \<Rightarrow> ('r \<Rightarrow> 'r \<Rightarrow> 'r) \<Rightarrow> bytes list \<Rightarrow> 'r \<Rightarrow> exn + 'r" where
  "merge_rest rd m [] r = Inr r"
| "merge_rest rd m (bs # pieces) r = bindE (rd bs) (\<lambda>(n, _). merge_rest rd m pieces (m r n))"

fun merge_pieces :: "'r \<Rightarrow> 'r reader \<Rightarrow> ('r \<Rightarrow> 'r \<Rightarrow> 'r) \<Rightarrow> bytes list \<Rightarrow> exn + 'r" where
  "merge_pieces init rd m [] = Inr init"
| "merge_pieces init rd m (bs # pieces) = bindE (rd bs) (\<lambda>(r, _). merge_rest rd m pieces r)"

definition merge_balance_pieces :: "bytes list \<Rightarrow> exn + total_balance_report" where
  "merge_balance_pieces = merge_pieces empty_balance_report read_balance_report merge_balance_reports"

definition get_global_balances_sum :: "total_balance_report \<Rightarrow> int_long_map" where
  "get_global_balances_sum r =
     add_entries (tb_suspends r) (add_entries (tb_adjustments r) (add_entries (tb_fees r)
       (merge_sum (tb_accountBalances r) (tb_ordersBalances r))))"

definition is_global_balances_all_zero :: "total_balance_report \<Rightarrow> bool" where
  "is_global_balances_all_zero r = list_all (\<lambda>(c, v). v = 0) (get_global_balances_sum r)"

text \<open>What a map that may be null holds for a key.\<close>

definition at0 :: "int_long_map option \<Rightarrow> int \<Rightarrow> int" where
  "at0 m c = (case m of None \<Rightarrow> 0 | Some es \<Rightarrow> um_get0 es c)"

definition keys_distinct :: "int_long_map option \<Rightarrow> bool" where
  "keys_distinct m = pred_option (\<lambda>es. distinct (map fst es)) m"

lemma um_get0_Cons: "um_get0 ((k, v) # es) c = (if c = k then v else um_get0 es c)"
  by (simp add: um_get0_def)

lemma um_get0_absent: "c \<notin> fst ` set es \<Longrightarrow> um_get0 es c = 0"
  by (simp add: um_get0_def map_of_eq_None_iff[THEN iffD2] split: option.split)

lemma add_entries_at:
  assumes "keys_distinct m"
  shows "um_get0 (add_entries m acc) c = um_get0 acc c + at0 m c"
proof -
  have "um_get0 (fold (\<lambda>(k, v). um_add k v) es acc) c = um_get0 acc c + um_get0 es c"
    if "distinct (map fst es)" for es acc
    using that by (induction es arbitrary: acc) (auto simp: um_get0_Cons um_get0_absent)
  with assms show ?thesis by (cases m) (auto simp: add_entries_def at0_def keys_distinct_def)
qed

lemma merge_sum_at: "keys_distinct m1 \<Longrightarrow> keys_distinct m2 \<Longrightarrow> um_get0 (merge_sum m1 m2) c = at0 m1 c + at0 m2 c"
  by (cases m1) (simp_all add: merge_sum_def add_entries_at at0_def keys_distinct_def to_umap_id)

lemma distinct_add_entries: "distinct (map fst acc) \<Longrightarrow> distinct (map fst (add_entries m acc))"
proof -
  have "distinct (map fst (fold (\<lambda>(k, v). um_add k v) es acc))" if "distinct (map fst acc)" for es acc :: int_long_map
    using that by (induction es arbitrary: acc) (auto simp: um_add_def distinct_update split: prod.split)
  then show "distinct (map fst acc) \<Longrightarrow> distinct (map fst (add_entries m acc))"
    by (cases m) (simp_all add: add_entries_def)
qed

lemma distinct_to_umap: "distinct (map fst (to_umap es))"
proof -
  have "distinct (map fst (fold (\<lambda>(k, v). um_put k v) es acc))" if "distinct (map fst acc)" for acc :: "('a, 'b) umap"
    using that by (induction es arbitrary: acc) (auto simp: distinct_update split: prod.split)
  then show ?thesis by (simp add: to_umap_def)
qed

lemma distinct_merge_sum: "distinct (map fst (merge_sum m1 m2))"
  by (simp add: merge_sum_def distinct_add_entries distinct_to_umap split: option.split)

text \<open>All balances are zero exactly if they sum to zero in every currency.\<close>

definition global_balance :: "int \<Rightarrow> total_balance_report \<Rightarrow> int" where
  "global_balance c r = at0 (tb_accountBalances r) c + at0 (tb_ordersBalances r) c + at0 (tb_fees r) c +
     at0 (tb_adjustments r) c + at0 (tb_suspends r) c"

definition report_ok :: "total_balance_report \<Rightarrow> bool" where
  "report_ok r \<longleftrightarrow> (\<forall>m \<in> {tb_accountBalances r, tb_fees r, tb_adjustments r, tb_suspends r, tb_ordersBalances r}. keys_distinct m)"

lemma global_balances_sum_at:
  "report_ok r \<Longrightarrow> um_get0 (get_global_balances_sum r) c = global_balance c r"
  by (simp add: get_global_balances_sum_def report_ok_def add_entries_at merge_sum_at global_balance_def)

lemma list_all_zero: "distinct (map fst es) \<Longrightarrow> list_all (\<lambda>(c, v). v = 0) es \<longleftrightarrow> (\<forall>c. um_get0 es c = (0 :: int))"
proof (induction es)
  case (Cons e es)
  obtain k v where e: "e = (k, v)" by (cases e)
  with Cons.prems have "um_get0 es k = 0" by (simp add: um_get0_absent)
  with Cons e show ?case by (auto simp: um_get0_Cons)
qed simp

lemma all_zero_iff:
  assumes "report_ok r"
  shows "is_global_balances_all_zero r \<longleftrightarrow> (\<forall>c. global_balance c r = 0)"
proof -
  have "distinct (map fst (get_global_balances_sum r))"
    by (simp add: get_global_balances_sum_def distinct_add_entries distinct_merge_sum)
  then show ?thesis
    by (simp add: is_global_balances_all_zero_def list_all_zero global_balances_sum_at[OF assms])
qed

lemma merged_report:
  assumes "report_ok r" and "report_ok n"
  shows "report_ok (merge_balance_reports r n)" and
    "global_balance c (merge_balance_reports r n) = global_balance c r + global_balance c n"
  using assms by (simp_all add: report_ok_def merge_balance_reports_def keys_distinct_def distinct_merge_sum
      global_balance_def at0_def[of "Some _"] merge_sum_at[unfolded keys_distinct_def])

section \<open>What the engines answer\<close>

text \<open>The queries of \<open>IOrderBook\<close> that reports use, and what they are in terms of the flat book.\<close>

record 'b book_queries =
  bq_symbolSpec :: "'b \<Rightarrow> symbol_spec"
  bq_processOrders :: "order_action \<Rightarrow> 'b \<Rightarrow> exn + order list"
  bq_findUserOrders :: "int \<Rightarrow> 'b \<Rightarrow> order list"

definition order_amount :: "symbol_spec \<Rightarrow> order_action \<Rightarrow> order \<Rightarrow> int" where
  "order_amount spec s ord =
     (let remainingSize = ord_size ord - ord_filled ord
      in if s = ASK then calculate_amount_ask remainingSize spec
         else calculate_amount_bid_taker_fee remainingSize (ord_reserveBidPrice ord) spec)"

definition add_order_amounts :: "symbol_spec \<Rightarrow> order_action \<Rightarrow> order list \<Rightarrow> int_long_map \<Rightarrow> int_long_map" where
  "add_order_amounts spec s = fold (\<lambda>ord acc. if ord_size ord - ord_filled ord > 0
     then um_add (if s = ASK then sp_baseCurrency spec else sp_quoteCurrency spec) (order_amount spec s ord) acc else acc)"

definition add_book_amounts :: "'b book_queries \<Rightarrow> 'b \<Rightarrow> int_long_map \<Rightarrow> exn + int_long_map" where
  "add_book_amounts bq b acc =
     (let spec = bq_symbolSpec bq b
      in if sp_type spec \<noteq> CURRENCY_EXCHANGE_PAIR then Inr acc
         else bindE (bq_processOrders bq ASK b) (\<lambda>asks. bindE (bq_processOrders bq BID b) (\<lambda>bids.
           Inr (add_order_amounts spec BID bids (add_order_amounts spec ASK asks acc)))))"

fun add_books_amounts :: "'b book_queries \<Rightarrow> 'b list \<Rightarrow> int_long_map \<Rightarrow> exn + int_long_map" where
  "add_books_amounts bq [] acc = Inr acc"
| "add_books_amounts bq (b # bs) acc = bindE (add_book_amounts bq b acc) (add_books_amounts bq bs)"

definition balance_report_matching :: "'b book_queries \<Rightarrow> 'b matching_router \<Rightarrow> exn + total_balance_report" where
  "balance_report_matching bq me =
     bindE (add_books_amounts bq (get_order_books me) []) (\<lambda>m. Inr (of_order_balances m))"

text \<open>The averages of the last prices, with a dummy where there is none.\<close>

definition averaging_record :: "last_price \<Rightarrow> last_price" where
  "averaging_record lp =
     (let p = (lp_askPrice lp + lp_bidPrice lp) div 2 in \<lparr>lp_askPrice = p, lp_bidPrice = p\<rparr>)"

definition average_price :: "(int, last_price) umap \<Rightarrow> int \<Rightarrow> last_price" where
  "average_price prices symbolId =
     (case um_find prices symbolId of Some lp \<Rightarrow> averaging_record lp | None \<Rightarrow> \<lparr>lp_askPrice = 42, lp_bidPrice = 42\<rparr>)"

type_synonym balance_sums = "int_long_map \<times> int_long_map \<times> int_long_map"

definition add_position :: "risk_engine \<Rightarrow> int \<times> position \<Rightarrow> balance_sums \<Rightarrow> balance_sums" where
  "add_position re x sums =
     (case x of (symbolId, pos) \<Rightarrow> case sums of (balances, long, short) \<Rightarrow>
      case get_symbol_specification symbolId (re_symbolSpecs re) of
        None \<Rightarrow> sums
      | Some spec \<Rightarrow>
          (um_add (ps_currency pos) (estimate_profit spec (Some (average_price (re_lastPriceCache re) symbolId)) pos) balances,
           if ps_direction pos = LONG then um_add symbolId (ps_openVolume pos) long else long,
           if ps_direction pos = SHORT then um_add symbolId (ps_openVolume pos) short else short))"

definition add_profile :: "risk_engine \<Rightarrow> user_profile \<Rightarrow> balance_sums \<Rightarrow> balance_sums" where
  "add_profile re up sums =
     (case sums of (balances, long, short) \<Rightarrow>
        fold (add_position re) (up_positions up)
          (fold (\<lambda>(c, v). um_add c v) (up_accounts up) balances, long, short))"

definition balance_report_risk :: "risk_engine \<Rightarrow> total_balance_report" where
  "balance_report_risk re =
     (case fold (add_profile re) (get_user_profiles (re_userProfiles re)) ([], [], []) of (balances, long, short) \<Rightarrow>
        \<lparr>tb_accountBalances = Some balances, tb_fees = Some (re_fees re), tb_adjustments = Some (re_adjustments re),
         tb_suspends = Some (re_suspends re), tb_ordersBalances = None, tb_openInterestLong = Some long,
         tb_openInterestShort = Some short\<rparr>)"

section \<open>A single user\<close>

record report_position =
  rp_quoteCurrency :: int
  rp_direction :: position_direction
  rp_openVolume :: int
  rp_openPriceSum :: int
  rp_profit :: int
  rp_pendingSellSize :: int
  rp_pendingBuySize :: int

text \<open>The execution status is an enumeration over a 32-bit integer that is cast from any value.\<close>

record single_user_report =
  su_uid :: int
  su_userStatus :: "user_status option"
  su_accounts :: "int_long_map option"
  su_positions :: "(int, report_position) umap option"
  su_orders :: "(int, order list) umap option"
  su_queryExecutionStatus :: int

definition STATUS_OK :: int where "STATUS_OK = 0"
definition STATUS_USER_NOT_FOUND :: int where "STATUS_USER_NOT_FOUND = 1"

definition write_report_position :: "report_position \<Rightarrow> bytes" where
  "write_report_position p = write_int (rp_quoteCurrency p) @ write_byte (get_multiplier (rp_direction p)) @
     write_long (rp_openVolume p) @ write_long (rp_openPriceSum p) @ write_long (rp_profit p) @
     write_long (rp_pendingSellSize p) @ write_long (rp_pendingBuySize p)"

definition read_report_position :: "report_position reader" where
  "read_report_position = bindR read_int (\<lambda>quoteCurrency. bindR read_byte (\<lambda>code.
     bindR (liftR (position_direction_from_code code)) (\<lambda>direction.
     bindR read_long (\<lambda>openVolume. bindR read_long (\<lambda>openPriceSum. bindR read_long (\<lambda>profit.
     bindR read_long (\<lambda>pendingSellSize. bindR read_long (\<lambda>pendingBuySize.
       returnR \<lparr>rp_quoteCurrency = quoteCurrency, rp_direction = direction, rp_openVolume = openVolume,
         rp_openPriceSum = openPriceSum, rp_profit = profit, rp_pendingSellSize = pendingSellSize,
         rp_pendingBuySize = pendingBuySize\<rparr>))))))))"

definition report_position_fits :: "report_position \<Rightarrow> bool" where
  "report_position_fits p \<longleftrightarrow> fits 4 (rp_quoteCurrency p) \<and> fits 8 (rp_openVolume p) \<and> fits 8 (rp_openPriceSum p) \<and>
     fits 8 (rp_profit p) \<and> fits 8 (rp_pendingSellSize p) \<and> fits 8 (rp_pendingBuySize p)"

interpretation report_position_codec: exact_codec write_report_position read_report_position report_position_fits
  by unfold_locales
    (simp add: write_report_position_def read_report_position_def report_position_fits_def reads_simps
       del: position_direction_from_code.simps)

text \<open>Positions are emplaced, which keeps the first of two entries with one key.\<close>

definition emplace_entry :: "(int, report_position) umap \<Rightarrow> (int, report_position) umap reader" where
  "emplace_entry m = bindR read_int (\<lambda>k. bindR read_report_position (\<lambda>v.
     returnR (if um_find m k = None then um_put k v m else m)))"

abbreviation write_report_positions :: "(int, report_position) umap \<Rightarrow> bytes" where
  "write_report_positions \<equiv> write_map write_int write_report_position"

definition read_report_positions :: "(int, report_position) umap reader" where
  "read_report_positions = bindR read_int (\<lambda>n. read_loop (nat n) emplace_entry [])"

abbreviation report_positions_fit :: "(int, report_position) umap \<Rightarrow> bool" where
  "report_positions_fit \<equiv> valid_map (fits 4) report_position_fits"

interpretation report_positions_codec: exact_codec write_report_positions read_report_positions report_positions_fit
proof unfold_locales
  fix m :: "(int, report_position) umap" and rest
  assume v: "report_positions_fit m"
  have "\<exists>s'. read_loop (length m) emplace_entry [] (concat (map (\<lambda>(k, v). write_int k @ write_report_position v) m) @ rest) =
      Inr (s', rest) \<and> s' = m"
  proof (rule read_loop_ok)
    fix past x todo s rest
    assume m: "m = past @ x # todo" and s: "s = past"
    obtain k w where x: "x = (k, w)" by (cases x)
    have kw: "fits 4 k" "report_position_fits w" "k \<notin> fst ` set past" using v m x by (auto simp: valid_map_def)
    then have "um_find past k = None" "um_put k w past = past @ [(k, w)]" by (simp_all add: map_of_eq_None_iff um_put_new)
    then show "\<exists>s'. emplace_entry s ((\<lambda>(k, v). write_int k @ write_report_position v) x @ rest) = Inr (s', rest) \<and> s' = past @ [x]"
      using kw s x by (simp add: emplace_entry_def bindR_def int_codec.exact report_position_codec.exact)
  qed simp
  moreover have "fits 4 (int (length m))" using v by (simp add: valid_map_def fits_def)
  ultimately show "read_report_positions (write_report_positions m @ rest) = Inr (m, rest)"
    by (simp add: read_report_positions_def write_map_def bindR_def int_codec.exact)
qed

definition write_order_list :: "order list \<Rightarrow> bytes" where
  "write_order_list os = write_int (int (length os)) @ concat (map write_order os)"

definition read_order_list :: "order list reader" where
  "read_order_list = bindR read_int (\<lambda>n.
     if n < 0 then throwR (Runtime_Error ''reserve'')
     else read_loop (nat n) (\<lambda>os. bindR read_order (\<lambda>ord. returnR (os @ [ord]))) [])"

definition order_list_fits :: "order list \<Rightarrow> bool" where
  "order_list_fits os \<longleftrightarrow> length os < 2 ^ 31 \<and> list_all order_fits os"

interpretation order_list_codec: exact_codec write_order_list read_order_list order_list_fits
proof unfold_locales
  fix os rest
  assume v: "order_list_fits os"
  have "\<exists>s'. read_loop (length os) (\<lambda>os. bindR read_order (\<lambda>ord. returnR (os @ [ord]))) [] (concat (map write_order os) @ rest) =
      Inr (s', rest) \<and> s' = os"
    by (rule read_loop_ok) (use v in \<open>auto simp: order_list_fits_def bindR_def order_codec.exact\<close>)
  moreover have "fits 4 (int (length os))" using v by (simp add: order_list_fits_def fits_def)
  ultimately show "read_order_list (write_order_list os @ rest) = Inr (os, rest)"
    by (simp add: read_order_list_def write_order_list_def bindR_def int_codec.exact)
qed

interpretation report_orders_codec: exact_map_codec
  write_int read_int "fits 4" write_order_list read_order_list order_list_fits
  by unfold_locales

abbreviation write_report_orders :: "(int, order list) umap \<Rightarrow> bytes" where
  "write_report_orders \<equiv> write_map write_int write_order_list"

abbreviation read_report_orders :: "(int, order list) umap reader" where
  "read_report_orders \<equiv> read_map read_int read_order_list"

abbreviation report_orders_fit :: "(int, order list) umap \<Rightarrow> bool" where
  "report_orders_fit \<equiv> valid_map (fits 4) order_list_fits"

interpretation report_orders_exact: exact_codec write_report_orders read_report_orders report_orders_fit
  by unfold_locales (rule report_orders_codec.exact_map(1))

definition write_user_status :: "user_status \<Rightarrow> bytes" where
  "write_user_status s = write_byte (user_status_to_code s)"

definition read_user_status :: "user_status reader" where
  "read_user_status = bindR read_byte (\<lambda>code. liftR (user_status_from_code code))"

interpretation user_status_codec: exact_codec write_user_status read_user_status "\<lambda>_. True"
  by unfold_locales
    (simp add: write_user_status_def read_user_status_def reads_simps del: user_status_from_code.simps)

interpretation nullable_status: nullable_codec write_user_status read_user_status "\<lambda>_. True" by unfold_locales
interpretation nullable_positions: nullable_codec write_report_positions read_report_positions report_positions_fit by unfold_locales
interpretation nullable_orders: nullable_codec write_report_orders read_report_orders report_orders_fit by unfold_locales

definition write_user_report :: "single_user_report \<Rightarrow> bytes" where
  "write_user_report r = write_long (su_uid r) @ write_nullable write_user_status (su_userStatus r) @
     write_nullable write_int_long_map (su_accounts r) @ write_nullable write_report_positions (su_positions r) @
     write_nullable write_report_orders (su_orders r) @ write_int (su_queryExecutionStatus r)"

definition read_user_report :: "single_user_report reader" where
  "read_user_report = bindR read_long (\<lambda>uid. bindR (read_nullable read_user_status) (\<lambda>status.
     bindR (read_nullable read_int_long_map) (\<lambda>accounts. bindR (read_nullable read_report_positions) (\<lambda>positions.
     bindR (read_nullable read_report_orders) (\<lambda>orders. bindR read_int (\<lambda>code.
       returnR \<lparr>su_uid = uid, su_userStatus = status, su_accounts = accounts, su_positions = positions,
         su_orders = orders, su_queryExecutionStatus = code\<rparr>))))))"

definition user_report_fits :: "single_user_report \<Rightarrow> bool" where
  "user_report_fits r \<longleftrightarrow> fits 8 (su_uid r) \<and> pred_option int_long_map_fits (su_accounts r) \<and>
     pred_option report_positions_fit (su_positions r) \<and> pred_option report_orders_fit (su_orders r) \<and>
     fits 4 (su_queryExecutionStatus r)"

interpretation user_report_codec: exact_codec write_user_report read_user_report user_report_fits
  by unfold_locales
    (simp add: write_user_report_def read_user_report_def user_report_fits_def bindR_def int_codec.exact long_codec.exact
       nullable_status.exact nullable_map_codec.exact nullable_positions.exact nullable_orders.exact option.pred_True)

definition empty_user_report :: single_user_report where
  "empty_user_report = \<lparr>su_uid = 0, su_userStatus = None, su_accounts = None, su_positions = None,
     su_orders = None, su_queryExecutionStatus = STATUS_OK\<rparr>"

text \<open>The merge: accounts are added, of positions the first and of orders the last one stays.\<close>

definition merge_nullable :: "('a \<Rightarrow> 'a \<Rightarrow> 'a) \<Rightarrow> 'a option \<Rightarrow> 'a option \<Rightarrow> 'a option" where
  "merge_nullable f a b = (case a of None \<Rightarrow> b | Some x \<Rightarrow> (case b of None \<Rightarrow> a | Some y \<Rightarrow> Some (f x y)))"

definition merge_user_reports :: "single_user_report \<Rightarrow> single_user_report \<Rightarrow> single_user_report" where
  "merge_user_reports r n =
     r\<lparr>su_userStatus := (case su_userStatus r of None \<Rightarrow> su_userStatus n | Some s \<Rightarrow> Some s),
       su_accounts := merge_nullable (\<lambda>x y. fold (\<lambda>(k, v). um_add k v) y x) (su_accounts r) (su_accounts n),
       su_positions := merge_nullable (\<lambda>x y. fold (\<lambda>(k, v) m. if um_find m k = None then um_put k v m else m) y x)
         (su_positions r) (su_positions n),
       su_orders := merge_nullable (\<lambda>x y. fold (\<lambda>(k, v). um_put k v) y x) (su_orders r) (su_orders n),
       su_queryExecutionStatus := (if su_queryExecutionStatus r = STATUS_OK then su_queryExecutionStatus n
         else su_queryExecutionStatus r)\<rparr>"

definition merge_user_pieces :: "bytes list \<Rightarrow> exn + single_user_report" where
  "merge_user_pieces = merge_pieces empty_user_report read_user_report merge_user_reports"

definition user_report_matching :: "'b book_queries \<Rightarrow> int \<Rightarrow> 'b matching_router \<Rightarrow> single_user_report" where
  "user_report_matching bq uid me =
     (let orders = fold (\<lambda>b m. let userOrders = bq_findUserOrders bq uid b
            in if userOrders = [] then m else um_put (sp_symbolId (bq_symbolSpec bq b)) userOrders m) (get_order_books me) []
      in \<lparr>su_uid = uid, su_userStatus = None, su_accounts = None, su_positions = None, su_orders = Some orders,
          su_queryExecutionStatus = STATUS_OK\<rparr>)"

definition position_of_report :: "position \<Rightarrow> report_position" where
  "position_of_report p = \<lparr>rp_quoteCurrency = ps_currency p, rp_direction = ps_direction p,
     rp_openVolume = ps_openVolume p, rp_openPriceSum = ps_openPriceSum p, rp_profit = ps_profit p,
     rp_pendingSellSize = ps_pendingSellSize p, rp_pendingBuySize = ps_pendingBuySize p\<rparr>"

definition user_report_risk :: "int \<Rightarrow> risk_engine \<Rightarrow> single_user_report option" where
  "user_report_risk uid re =
     (if \<not> uid_for_this_handler uid re then None
      else Some (case get_user_profile uid (re_userProfiles re) of
          Some up \<Rightarrow> \<lparr>su_uid = uid, su_userStatus = Some (up_userStatus up), su_accounts = Some (up_accounts up),
            su_positions = Some (to_umap (map (\<lambda>(symbolId, p). (symbolId, position_of_report p)) (up_positions up))),
            su_orders = None, su_queryExecutionStatus = STATUS_OK\<rparr>
        | None \<Rightarrow> \<lparr>su_uid = uid, su_userStatus = None, su_accounts = None, su_positions = None, su_orders = None,
            su_queryExecutionStatus = STATUS_USER_NOT_FOUND\<rparr>))"

section \<open>Sections of a response\<close>

text \<open>
  An answer travels as binary events of a section and comes back as bytes, padded with zeros to
  words and frames.
\<close>

definition report_events :: "trade_event list \<Rightarrow> int \<Rightarrow> bytes \<Rightarrow> trade_event list" where
  "report_events nodes sectionId bs = binary_events_chain nodes sectionId (bytes_to_long_array bs 5)"

definition report_sections :: "trade_event list \<Rightarrow> bytes list" where
  "report_sections evs = map (\<lambda>(s, ws). longs_to_bytes ws) (filter (\<lambda>(s, ws). ws \<noteq> []) (deserialize_events evs []))"

end
