(* ===== verification/Spot_Only.thy ===== *)
theory Spot_Only
  imports Exchange_Engine
begin

text \<open>
  Without margin trading no user ever has a position: an invariant of the risk engine under both
  stages of every command.
\<close>

definition no_positions :: "user_service \<Rightarrow> bool" where
  "no_positions us \<longleftrightarrow> (\<forall>up \<in> snd ` set us. up_positions up = [])"

definition spot_only :: "risk_engine \<Rightarrow> bool" where
  "spot_only re \<longleftrightarrow> \<not> re_cfgMarginTradingEnabled re \<and> no_positions (re_userProfiles re) \<and>
     (\<forall>sp \<in> snd ` set (re_symbolSpecs re). sp_type sp = CURRENCY_EXCHANGE_PAIR)"

lemma set_um_put: "set (um_put k v m) \<subseteq> insert (k, v) (set m)"
  by (induction m) auto

lemma set_um_erase: "set (um_erase k m) \<subseteq> set m"
  by (induction m) auto

lemma no_positions_put: "no_positions us \<Longrightarrow> up_positions up = [] \<Longrightarrow> no_positions (um_put uid up us)"
  using set_um_put[of uid up us] by (fastforce simp: no_positions_def)

lemma no_positions_find: "no_positions us \<Longrightarrow> um_find us uid = Some up \<Longrightarrow> up_positions up = []"
  by (force simp: no_positions_def dest: map_of_SomeD)

lemma new_profile_positions [simp]: "up_positions (new_user_profile uid s) = []"
  by (simp add: new_user_profile_def)

lemma no_positions_services:
  assumes "no_positions us"
  shows "no_positions (snd (add_user uid us))" "no_positions (snd (resume_user uid us))"
    "no_positions (snd (suspend_user uid us))" "no_positions (snd (balance_adjustment uid c x i us))"
    "no_positions (snd (get_user_profile_or_add_suspended uid us))"
proof -
  note find = no_positions_find[OF assms] and put = no_positions_put[OF assms]
  show "no_positions (snd (add_user uid us))"
    using assms by (simp add: add_user_def put)
  show "no_positions (snd (resume_user uid us))"
    using assms find by (auto simp: resume_user_def get_user_profile_def put split: option.split)
  show "no_positions (snd (suspend_user uid us))"
    using assms set_um_erase[of uid us] by (auto simp: suspend_user_def no_positions_def split: option.split)
  show "no_positions (snd (balance_adjustment uid c x i us))"
    using assms find by (auto simp: balance_adjustment_def get_user_profile_def Let_def put split: option.split)
  show "no_positions (snd (get_user_profile_or_add_suspended uid us))"
    using assms by (auto simp: get_user_profile_or_add_suspended_def Let_def put split: option.split)
qed

lemma spot_only_users: "spot_only re \<Longrightarrow> no_positions us \<Longrightarrow> spot_only (re\<lparr>re_userProfiles := us\<rparr>)"
  by (simp add: spot_only_def)

section \<open>R2\<close>

named_theorems spot_steps "steps that keep the invariant"

lemma spot_only_credit [spot_steps]: "spot_only re \<Longrightarrow> spot_only (credit uid c x re)"
  by (auto simp: credit_def update_profile_def spot_only_def profile_add_def dest: no_positions_find
      intro!: no_positions_put split: option.split)

lemma spot_only_add_suspended [spot_steps]: "spot_only re \<Longrightarrow> spot_only (or_add_suspended uid re)"
  by (simp add: or_add_suspended_def spot_only_def no_positions_services)

lemma spot_only_fee [spot_steps]: "spot_only re \<Longrightarrow> spot_only (add_fee c x re)"
  by (simp add: add_fee_def spot_only_def)

lemma spot_only_fold:
  assumes "\<And>e ts r. spot_only r \<Longrightarrow> spot_only (snd (f e (ts, r)))"
  shows "spot_only re \<Longrightarrow> spot_only (snd (fold f evs (ts, re)))"
proof (induction evs arbitrary: ts re)
  case (Cons e evs)
  obtain ts1 re1 where "f e (ts, re) = (ts1, re1)" by (cases "f e (ts, re)")
  with assms[OF Cons.prems, of e ts] Cons.IH show ?case by simp
qed simp

lemma spot_only_events [spot_steps]:
  assumes "spot_only re"
  shows "spot_only (handle_events_exchange_sell evs spec t re)" "spot_only (handle_events_exchange_buy evs spec t cmd re)"
proof -
  have "spot_only (snd (fold (sell_event spec t) evs (zero_sums, re)))"
    by (rule spot_only_fold[OF _ assms]) (auto simp: sell_event_def Let_def intro!: spot_steps)
  then show "spot_only (handle_events_exchange_sell evs spec t re)"
    by (auto simp: handle_events_exchange_sell_def collect_fees_def Let_def intro!: spot_steps
        split: prod.split option.split)
  have "spot_only (snd (fold (buy_event spec t) evs (zero_sums, re)))"
    by (rule spot_only_fold[OF _ assms]) (auto simp: buy_event_def Let_def intro!: spot_steps)
  then show "spot_only (handle_events_exchange_buy evs spec t cmd re)"
    by (auto simp: handle_events_exchange_buy_def collect_fees_def Let_def intro!: spot_steps
        split: prod.split option.split)
qed

lemma spot_only_exchange [spot_steps]: "spot_only re \<Longrightarrow> spot_only (post_process_exchange cmd ev evs spec re)"
  by (auto simp: post_process_exchange_def handle_reject_reduce_exchange_def Let_def intro!: spot_steps)

lemma spot_only_post:
  assumes "spot_only re" and "post_process_command cmd re = Inr re'"
  shows "spot_only re'"
proof -
  have "sp_type sp = CURRENCY_EXCHANGE_PAIR" if "get_symbol_specification s (re_symbolSpecs re) = Some sp" for s sp
    using assms(1) that by (force simp: get_symbol_specification_def spot_only_def dest: map_of_SomeD)
  moreover have "\<not> re_cfgMarginTradingEnabled r" if "spot_only r" for r using that by (simp add: spot_only_def)
  ultimately show ?thesis
    using assms spot_only_exchange[OF assms(1)]
    by (auto simp: post_process_command_def Let_def bindE_eq_Inr split: option.splits if_splits)
qed

section \<open>R1\<close>

lemma spot_only_place_order:
  assumes "spot_only re"
  shows "spot_only (snd (place_order_risk_check cmd re))"
proof -
  have "up_positions (snd (place_order cmd spec up re)) = []" if "up_positions up = []" for spec up
    using assms that by (auto simp: place_order_def place_exchange_order_def spot_only_def Let_def
        split: symbol_type.split sum.split)
  then show ?thesis
    using assms by (auto simp: place_order_risk_check_def get_user_profile_def Let_def spot_only_def split_def
        dest: no_positions_find intro!: no_positions_put split: option.split)
qed

lemma spot_only_adjust [spot_steps]: "spot_only re \<Longrightarrow> spot_only (snd (adjust_balance uid c x i t re))"
  using no_positions_services(4)[of "re_userProfiles re" uid c x i]
  by (auto simp: adjust_balance_def spot_only_def split: prod.split balance_adjustment_type.split)

lemma spot_only_symbols: "spot_only re \<Longrightarrow> spot_only (add_symbols symbols re)"
proof (induction symbols re rule: add_symbols.induct)
  case (2 symbolId spec rest re)
  have "spot_only (re\<lparr>re_symbolSpecs := snd (add_symbol spec (re_symbolSpecs re))\<rparr>)" if "sp_type spec = CURRENCY_EXCHANGE_PAIR"
    using 2(2) that set_um_put[of "sp_symbolId spec" spec "re_symbolSpecs re"]
    by (fastforce simp: spot_only_def add_symbol_def)
  with 2 show ?case by (simp add: spot_only_def)
qed simp

lemma spot_only_balances: "spot_only re \<Longrightarrow> spot_only (add_account_balances uid accounts re)"
  by (induction uid accounts re rule: add_account_balances.induct) (simp_all add: spot_only_adjust)

lemma spot_only_accounts: "spot_only re \<Longrightarrow> spot_only (add_accounts users re)"
proof (induction users re rule: add_accounts.induct)
  case (2 uid accounts rest re)
  have "no_positions (snd (add_user uid (re_userProfiles re)))"
    using 2(2) by (simp add: spot_only_def no_positions_services)
  with 2 show ?case by (cases "add_user uid (re_userProfiles re)") (simp add: spot_only_users spot_only_balances)
qed simp

lemma spot_only_message: "spot_only re \<Longrightarrow> spot_only (handle_binary_message m re)"
  by (cases m) (simp_all add: spot_only_symbols spot_only_accounts)

lemma spot_only_pre:
  assumes s: "spot_only re" and r: "pre_process_command decode decode_query report store cmd re = Inr (b, cmd', re')"
  shows "spot_only re'"
proof -
  have inc: "spot_only (re\<lparr>re_incomingData := inc\<rparr>)" for inc using s by (simp add: spot_only_def)
  have reset: "spot_only (risk_reset re)" using s by (simp add: spot_only_def risk_reset_def no_positions_def)
  have us: "no_positions (re_userProfiles re)" using s by (simp add: spot_only_def)
  have services: "add_user u (re_userProfiles re) = (code, us1) \<Longrightarrow> no_positions us1"
    "resume_user u (re_userProfiles re) = (code, us1) \<Longrightarrow> no_positions us1"
    "suspend_user u (re_userProfiles re) = (code, us1) \<Longrightarrow> no_positions us1" for u code us1
    using no_positions_services[OF us] by (metis snd_conv)+
  show ?thesis
  proof (cases "cmd_command cmd")
    case PLACE_ORDER
    then show ?thesis using r s spot_only_place_order[OF s, of cmd]
      by (auto simp: pre_process_command_def Let_def split: if_splits prod.splits)
  next
    case BALANCE_ADJUSTMENT
    have "spot_only r" if "adjust_balance u c x i t re = (code, r)" for u c x i t code r
      using spot_only_adjust[OF s, of u c x i t] that by simp
    with BALANCE_ADJUSTMENT show ?thesis using r s
      by (auto simp: pre_process_command_def Let_def bindE_eq_Inr split: if_splits prod.splits)
  next
    case ADD_USER
    then show ?thesis using r s services(1)
      by (auto simp: pre_process_command_def Let_def intro!: spot_only_users split: if_splits prod.splits)
  next
    case SUSPEND_USER
    then show ?thesis using r s services(3)
      by (auto simp: pre_process_command_def Let_def intro!: spot_only_users split: if_splits prod.splits)
  next
    case RESUME_USER
    then show ?thesis using r s services(2)
      by (auto simp: pre_process_command_def Let_def intro!: spot_only_users split: if_splits prod.splits)
  next
    case BINARY_DATA_COMMAND
    then show ?thesis using r inc spot_only_message
      by (auto simp: pre_process_command_def Let_def bindE_eq_Inr split: prod.splits option.splits)
  next
    case BINARY_DATA_QUERY
    then show ?thesis using r inc by (auto simp: pre_process_command_def Let_def bindE_eq_Inr split: prod.splits)
  next
    case RESET
    then show ?thesis using r reset by (auto simp: pre_process_command_def Let_def)
  next
    case PERSIST_STATE_RISK
    then show ?thesis using r s by (auto simp: pre_process_command_def Let_def split: option.splits)
  qed (use r s in \<open>auto simp: pre_process_command_def Let_def\<close>)
qed

section \<open>Runs\<close>

lemma spot_only_command:
  assumes "list_all spot_only (ec_riskEngines ec)" and "run_command env factory ops cmd ec = Inr (cmd', ec')"
  shows "list_all spot_only (ec_riskEngines ec')"
proof -
  have pre: "list_all spot_only res \<Longrightarrow> risk_pre_stage env cmd res = Inr (cmd1, res1) \<Longrightarrow> list_all spot_only res1"
    for cmd cmd1 res res1
    by (induction env cmd res arbitrary: cmd1 res1 rule: risk_pre_stage.induct)
      (auto simp: bindE_eq_Inr dest: spot_only_pre)
  have post: "list_all spot_only res \<Longrightarrow> risk_post_stage cmd res = Inr res1 \<Longrightarrow> list_all spot_only res1" for cmd res res1
    by (induction cmd res arbitrary: res1 rule: risk_post_stage.induct) (auto simp: bindE_eq_Inr dest: spot_only_post)
  obtain cmd1 res1 cmd2 mes1 res2 where "risk_pre_stage env cmd (ec_riskEngines ec) = Inr (cmd1, res1)"
    "risk_post_stage cmd2 res1 = Inr res2" "ec' = \<lparr>ec_riskEngines = res2, ec_matchingEngines = mes1\<rparr>"
    using assms(2) by (auto simp: run_command_def bindE_eq_Inr)
  with post[OF pre[OF assms(1)]] show ?thesis by simp
qed

lemma spot_only_commands:
  "list_all spot_only (ec_riskEngines ec) \<Longrightarrow> run_commands env factory ops cmds ec = Inr (out, ec') \<Longrightarrow>
   list_all spot_only (ec_riskEngines ec')"
  by (induction env factory ops cmds ec arbitrary: out rule: run_commands.induct)
    (auto simp: bindE_eq_Inr dest: spot_only_command)

end
