(* ===== verification/Reports_Correct.thy ===== *)
theory Reports_Correct
  imports Reports Naive_Exchange Direct_Correct Spot_Only
begin

text \<open>
  The reports are exact: the total balances add up to the balance of the exchange, whatever the
  order in which the shards append their answers, and a user report shows the user's accounts,
  positions and orders.
\<close>

section \<open>Orders of the books\<close>

locale report_books =
  fixes valid :: "'b \<Rightarrow> bool"
    and abstr :: "'b \<Rightarrow> flat_book"
    and spec :: "'b \<Rightarrow> symbol_spec"
    and bq :: "'b book_queries"
  assumes books_flat_ok: "valid b \<Longrightarrow> flat_ok (abstr b)"
    and spec_law: "bq_symbolSpec bq b = spec b"
    and orders_law: "valid b \<Longrightarrow> bq_processOrders bq s b = Inr (fb_side s (abstr b))"
    and user_orders_law: "valid b \<Longrightarrow>
      set (bq_findUserOrders bq uid b) = {x \<in> set (fb_orders (abstr b)). ord_uid x = uid}"

definition keys_unique :: "int_long_map \<Rightarrow> bool" where
  "keys_unique m = distinct (map fst m)"

lemma keys_unique_add [simp]: "keys_unique m \<Longrightarrow> keys_unique (um_add k v m)"
  by (simp add: keys_unique_def um_add_def distinct_update)

lemma keys_unique_Nil [simp]: "keys_unique []"
  by (simp add: keys_unique_def)

lemma add_order_amounts_at:
  assumes "\<forall>x \<in> set os. resting s x"
  shows "um_get0 (add_order_amounts sp s os acc) c = um_get0 acc c + orders_balance sp c os"
    and "keys_unique acc \<Longrightarrow> keys_unique (add_order_amounts sp s os acc)"
  using assms
proof (induction os arbitrary: acc)
  case (Cons x os)
  case 1
  with Cons show ?case
    by (auto simp: add_order_amounts_def orders_balance_def hold_of_def order_amount_def resting_def remaining_def Let_def)
next
  case (Cons x os)
  case 2
  with Cons show ?case by (simp add: add_order_amounts_def)
qed (simp_all add: add_order_amounts_def orders_balance_def)

context report_books
begin

lemma add_book_amounts_at:
  assumes "valid b" and "sp_type (spec b) = CURRENCY_EXCHANGE_PAIR"
  shows "\<exists>acc'. add_book_amounts bq b acc = Inr acc' \<and> (keys_unique acc \<longrightarrow> keys_unique acc') \<and>
    (\<forall>c. um_get0 acc' c = um_get0 acc c + book_balance (spec b) c (abstr b))"
proof -
  have "\<forall>x \<in> set (fb_side s (abstr b)). resting s x" for s
    using books_flat_ok[OF assms(1)] by (auto simp: flat_ok_def side_ok_def)
  from add_order_amounts_at[OF this[of ASK]] add_order_amounts_at[OF this[of BID]] show ?thesis
    using assms by (simp add: add_book_amounts_def spec_law orders_law book_balance_def Let_def)
qed

lemma add_books_amounts_at:
  assumes "\<forall>b \<in> set bs. valid b \<and> sp_type (spec b) = CURRENCY_EXCHANGE_PAIR"
  shows "\<exists>acc'. add_books_amounts bq bs acc = Inr acc' \<and> (keys_unique acc \<longrightarrow> keys_unique acc') \<and>
    (\<forall>c. um_get0 acc' c = um_get0 acc c + sum_list (map (\<lambda>b. book_balance (spec b) c (abstr b)) bs))"
  using assms
proof (induction bs arbitrary: acc)
  case (Cons b bs)
  obtain acc1 where 1: "add_book_amounts bq b acc = Inr acc1" "keys_unique acc \<longrightarrow> keys_unique acc1"
    "\<forall>c. um_get0 acc1 c = um_get0 acc c + book_balance (spec b) c (abstr b)"
    using add_book_amounts_at[of b acc] Cons.prems by auto
  obtain acc2 where "add_books_amounts bq bs acc1 = Inr acc2" "keys_unique acc1 \<longrightarrow> keys_unique acc2"
    "\<forall>c. um_get0 acc2 c = um_get0 acc1 c + sum_list (map (\<lambda>b. book_balance (spec b) c (abstr b)) bs)"
    using Cons.IH[of acc1] Cons.prems by auto
  with 1 show ?case by (intro exI[of _ acc2]) simp
qed simp

lemma matching_report_at:
  assumes "\<forall>b \<in> set (get_order_books me). valid b \<and> sp_type (spec b) = CURRENCY_EXCHANGE_PAIR"
  shows "\<exists>r. balance_report_matching bq me = Inr r \<and> report_ok r \<and> (\<forall>c. global_balance c r = books_total abstr spec c me)"
proof -
  obtain m where m: "add_books_amounts bq (get_order_books me) [] = Inr m" "keys_unique m"
    "\<forall>c. um_get0 m c = sum_list (map (\<lambda>b. book_balance (spec b) c (abstr b)) (get_order_books me))"
    using add_books_amounts_at[OF assms, of "[]"] by auto
  have "um_get0 m c = books_total abstr spec c me" for c
    by (simp add: m(3) books_total_def um_sum_def get_order_books_def comp_def)
  with m(1,2) show ?thesis
    by (simp add: balance_report_matching_def report_ok_def of_order_balances_def empty_balance_report_def
        keys_distinct_def keys_unique_def global_balance_def at0_def)
qed

end

section \<open>Accounts and positions\<close>

text \<open>The profit that the report adds for open positions.\<close>

definition open_profit :: "risk_engine \<Rightarrow> int \<Rightarrow> user_profile \<Rightarrow> int" where
  "open_profit re c up = sum_list (map (\<lambda>(symbolId, pos).
     case get_symbol_specification symbolId (re_symbolSpecs re) of
       None \<Rightarrow> 0
     | Some spec \<Rightarrow> if ps_currency pos = c
                   then estimate_profit spec (Some (average_price (re_lastPriceCache re) symbolId)) pos else 0)
     (up_positions up))"

definition open_profits :: "int \<Rightarrow> risk_engine \<Rightarrow> int" where
  "open_profits c re = sum_list (map (open_profit re c) (get_user_profiles (re_userProfiles re)))"

lemma add_position_at:
  "case add_position re x (m, l, s) of (m', l', s') \<Rightarrow> (keys_unique m \<longrightarrow> keys_unique m') \<and>
    um_get0 m' c = um_get0 m c + open_profit re c (up\<lparr>up_positions := [x]\<rparr>)"
  by (cases x) (auto simp: add_position_def open_profit_def split: option.split)

lemma add_positions_at:
  "case fold (add_position re) xs (m, l, s) of (m', l', s') \<Rightarrow> (keys_unique m \<longrightarrow> keys_unique m') \<and>
    um_get0 m' c = um_get0 m c + open_profit re c (up\<lparr>up_positions := xs\<rparr>)"
proof (induction xs arbitrary: m l s)
  case (Cons x xs)
  obtain m1 l1 s1 where 1: "add_position re x (m, l, s) = (m1, l1, s1)" by (metis prod_cases3)
  with add_position_at[where re = re and x = x and m = m and l = l and s = s and c = c and up = up] Cons.IH[where m = m1 and l = l1 and s = s1] show ?case
    by (auto simp: open_profit_def split: prod.splits)
qed (simp add: open_profit_def)

lemma add_accounts_at:
  assumes "distinct (map fst es)"
  shows "um_get0 (fold (\<lambda>(c, v). um_add c v) es acc) c = um_get0 acc c + um_get0 es c"
    and "keys_unique acc \<Longrightarrow> keys_unique (fold (\<lambda>(c, v). um_add c v) es acc)"
proof -
  show "um_get0 (fold (\<lambda>(c, v). um_add c v) es acc) c = um_get0 acc c + um_get0 es c"
    using add_entries_at[of "Some es" acc c] assms by (simp add: add_entries_def at0_def keys_distinct_def)
  show "keys_unique acc \<Longrightarrow> keys_unique (fold (\<lambda>(c, v). um_add c v) es acc)"
    using distinct_add_entries[of acc "Some es"] by (simp add: add_entries_def keys_unique_def)
qed

lemma add_profiles_at:
  assumes "\<forall>up \<in> set ups. distinct (map fst (up_accounts up))"
  shows "case fold (add_profile re) ups (m, l, s) of (m', l', s') \<Rightarrow> (keys_unique m \<longrightarrow> keys_unique m') \<and>
    um_get0 m' c = um_get0 m c + sum_list (map (balance c) ups) + sum_list (map (open_profit re c) ups)"
  using assms
proof (induction ups arbitrary: m l s)
  case (Cons up ups)
  let ?m = "fold (\<lambda>(c, v). um_add c v) (up_accounts up) m"
  obtain m1 l1 s1 where 1: "fold (add_position re) (up_positions up) (?m, l, s) = (m1, l1, s1)" by (metis prod_cases3)
  have "distinct (map fst (up_accounts up))" using Cons.prems by simp
  note acc = add_accounts_at[OF this, of m]
  have "add_profile re up (m, l, s) = (m1, l1, s1)" by (simp add: add_profile_def 1)
  with add_positions_at[where re = re and xs = "up_positions up" and m = ?m and l = l and s = s and c = c and up = up] 1 acc
    Cons.IH[where m = m1 and l = l1 and s = s1] Cons.prems show ?case
    by (auto simp: balance_def split: prod.splits)
qed simp

lemma risk_report_at:
  assumes "risk_engine_fits re"
  shows "report_ok (balance_report_risk re) \<and> (\<forall>c. global_balance c (balance_report_risk re) = risk_total c re + open_profits c re)"
proof -
  have d: "\<forall>up \<in> set (get_user_profiles (re_userProfiles re)). distinct (map fst (up_accounts up))"
    using assms by (auto simp: risk_engine_fits_def valid_map_def user_profile_fits_def get_user_profiles_def)
  have maps: "keys_unique (re_fees re)" "keys_unique (re_adjustments re)" "keys_unique (re_suspends re)"
    using assms by (simp_all add: risk_engine_fits_def valid_map_def keys_unique_def)
  obtain m l s where f: "fold (add_profile re) (get_user_profiles (re_userProfiles re)) ([], [], []) = (m, l, s)"
    by (metis prod_cases3)
  have m: "keys_unique m" "um_get0 m c = total_accounts c (re_userProfiles re) + open_profits c re" for c
    using add_profiles_at[OF d, where re = re and m = "[]" and l = "[]" and s = "[]" and c = c] f
    by (simp_all add: total_accounts_def um_sum_def open_profits_def get_user_profiles_def comp_def)
  show ?thesis
    using maps m(1) by (simp add: balance_report_risk_def f report_ok_def keys_distinct_def keys_unique_def
        global_balance_def at0_def m(2) risk_total_def re_total_def)
qed

section \<open>Sections\<close>

lemma section_add_add: "section_add s ws (section_add s vs m) = section_add s (vs @ ws) m"
  by (induction s vs m rule: section_add.induct) auto

lemma deserialize_chain_append:
  assumes "length ws mod 5 = 0"
  shows "deserialize_events (binary_events_chain nodes s ws @ es) m =
    deserialize_events es (if ws = [] then m else section_add s ws m)"
  using assms
proof (induction nodes s ws arbitrary: m rule: binary_events_chain.induct)
  case (1 nodes s a b c d e ws)
  then have "length ws mod 5 = 0" by simp
  with 1 show ?case
    by (cases nodes) (simp_all add: binary_event_def event_words_def section_add_add)
qed (simp_all, (simp add: mod_Suc split: if_splits)?)

text \<open>Two answers come back as two sections, whichever was appended first.\<close>

lemma report_words:
  assumes "bs \<noteq> []"
  shows "length (bytes_to_long_array bs 5) mod 5 = 0" "bytes_to_long_array bs 5 \<noteq> []"
    "\<exists>z. longs_to_bytes (bytes_to_long_array bs 5) = bs @ replicate z 0"
proof -
  let ?n = "required_longs_padded (int (length bs)) 5"
  have n: "int (length bs) \<le> 8 * ?n" "5 dvd ?n" "0 < ?n"
    by (rule required_longs_padded_bounds; use assms in simp)+
  have len: "length (bytes_to_long_array bs 5) = nat ?n" by (simp add: bytes_to_long_array_def bytes_to_longs_def)
  have "5 dvd nat ?n" using n(2,3) by (metis int_nat_eq int_dvd_int_iff of_nat_numeral less_le)
  then show "length (bytes_to_long_array bs 5) mod 5 = 0" using len by simp
  show "bytes_to_long_array bs 5 \<noteq> []" using len n(3) by auto
  show "\<exists>z. longs_to_bytes (bytes_to_long_array bs 5) = bs @ replicate z 0"
    using longs_to_bytes_of[of bs "nat ?n"] n(1) by (auto simp: bytes_to_long_array_def)
qed

lemma report_sections_two:
  assumes "bs \<noteq> []" and "bs' \<noteq> []" and "a < b"
  shows "\<exists>z z'. report_sections (report_events nodes a bs @ report_events nodes' b bs') = [bs @ replicate z 0, bs' @ replicate z' 0] \<and>
    report_sections (report_events nodes' b bs' @ report_events nodes a bs) = [bs @ replicate z 0, bs' @ replicate z' 0]"
proof -
  note w = report_words[OF assms(1)] and w' = report_words[OF assms(2)]
  obtain z z' where "longs_to_bytes (bytes_to_long_array bs 5) = bs @ replicate z 0"
    "longs_to_bytes (bytes_to_long_array bs' 5) = bs' @ replicate z' 0" using w(3) w'(3) by blast
  moreover have "deserialize_events (report_events nodes a bs @ report_events nodes' b bs') [] =
      [(a, bytes_to_long_array bs 5), (b, bytes_to_long_array bs' 5)]"
    using deserialize_chain_append[OF w(1), of nodes a "report_events nodes' b bs'"]
      deserialize_chain_append[OF w'(1), of nodes' b "[]"] w(2) w'(2) assms(3) by (simp add: report_events_def)
  moreover have "deserialize_events (report_events nodes' b bs' @ report_events nodes a bs) [] =
      [(a, bytes_to_long_array bs 5), (b, bytes_to_long_array bs' 5)]"
    using deserialize_chain_append[OF w'(1), of nodes' b "report_events nodes a bs"]
      deserialize_chain_append[OF w(1), of nodes a "[]"] w(2) w'(2) assms(3) by (simp add: report_events_def)
  ultimately show ?thesis using w(2) w'(2) by (simp add: report_sections_def)
qed

section \<open>The merged report\<close>

text \<open>The answers of a risk engine and a matching engine, by their sections 0 and 1024.\<close>

context report_books
begin

lemma merged_total_balances:
  assumes ok: "core_ok valid spec re me" and fits: "risk_engine_fits re" "balance_report_fits (balance_report_risk re)"
    and m: "\<forall>r. balance_report_matching bq me = Inr r \<longrightarrow> balance_report_fits r"
    and distinct: "distinct (map fst (me_orderBooks me))"
  shows "\<exists>mr merged. balance_report_matching bq me = Inr mr \<and>
    (\<forall>evs. evs = report_events nodes 0 (write_balance_report (balance_report_risk re)) @
                 report_events nodes' 1024 (write_balance_report mr) \<or>
           evs = report_events nodes' 1024 (write_balance_report mr) @
                 report_events nodes 0 (write_balance_report (balance_report_risk re)) \<longrightarrow>
       merge_balance_pieces (report_sections evs) = Inr merged) \<and>
    (\<forall>c. um_get0 (get_global_balances_sum merged) c = core_balance abstr spec c re me + open_profits c re) \<and>
    (is_global_balances_all_zero merged \<longleftrightarrow> (\<forall>c. core_balance abstr spec c re me + open_profits c re = 0))"
proof -
  let ?rr = "balance_report_risk re"
  have "valid b \<and> sp_type (spec b) = CURRENCY_EXCHANGE_PAIR" if "b \<in> set (get_order_books me)" for b
  proof -
    obtain s where "(s, b) \<in> set (me_orderBooks me)" using \<open>b \<in> _\<close> by (auto simp: get_order_books_def)
    then have "um_find (me_orderBooks me) s = Some b" using distinct by simp
    with ok show ?thesis unfolding core_ok_def by blast
  qed
  then obtain mr where mr: "balance_report_matching bq me = Inr mr" "report_ok mr"
    "\<forall>c. global_balance c mr = books_total abstr spec c me" using matching_report_at by blast
  note rr = risk_report_at[OF fits(1)]
  let ?merged = "merge_balance_reports ?rr mr"
  have ne: "write_balance_report r \<noteq> []" for r by (simp add: write_balance_report_def write_nullable_def write_boolean_def)
  have "balance_report_fits mr" using m mr(1) by blast
  then have pieces: "merge_balance_pieces [write_balance_report ?rr @ z, write_balance_report mr @ z'] = Inr ?merged" for z z'
    using fits(2) by (simp add: merge_balance_pieces_def balance_report_codec.exact)
  have merged: "report_ok ?merged" "global_balance c ?merged = core_balance abstr spec c re me + open_profits c re" for c
    using merged_report[OF conjunct1[OF rr] mr(2)] rr mr(3) by (simp_all add: core_balance_def)
  show ?thesis
    using mr(1) report_sections_two[OF ne ne, of 0 1024 nodes ?rr nodes' mr] pieces
      all_zero_iff[OF merged(1)] global_balances_sum_at[OF merged(1)] merged(2)
    by (intro exI[of _ mr] exI[of _ ?merged]) auto
qed

end

section \<open>The report on a user\<close>

lemma user_orders_fold:
  fixes sym :: "'b \<Rightarrow> int" and m :: "(int, 'o list) umap"
  assumes "distinct (map sym bs)" and "\<forall>b \<in> set bs. um_find m (sym b) = None"
  shows "um_find (fold (\<lambda>b m. let os = f b in if os = [] then m else um_put (sym b) os m) bs m) s =
    (case find (\<lambda>b. sym b = s \<and> f b \<noteq> []) bs of Some b \<Rightarrow> Some (f b) | None \<Rightarrow> um_find m s)"
  using assms
proof (induction bs arbitrary: m)
  case (Cons b bs)
  have none: "find (\<lambda>b'. sym b' = sym b \<and> f b' \<noteq> []) bs = None"
    using Cons.prems(1) by (auto simp: find_None_iff image_iff)
  have "\<forall>b' \<in> set bs. um_find (if f b = [] then m else um_put (sym b) (f b) m) (sym b') = None"
    using Cons.prems by (auto simp: image_iff)
  then show ?case using Cons.IH[of "if f b = [] then m else um_put (sym b) (f b) m"] Cons.prems(1) none
    by (cases "sym b = s") (auto simp: Let_def split: option.split)
qed simp

text \<open>What the report shows of a user.\<close>

definition user_shown :: "int \<Rightarrow> user_service \<Rightarrow> single_user_report \<Rightarrow> bool" where
  "user_shown uid us r \<longleftrightarrow> su_uid r = uid \<and>
     (case um_find us uid of
        None \<Rightarrow> su_queryExecutionStatus r = STATUS_USER_NOT_FOUND \<and> su_userStatus r = None \<and>
          su_accounts r = None \<and> su_positions r = None
      | Some up \<Rightarrow> su_queryExecutionStatus r = STATUS_OK \<and> su_userStatus r = Some (up_userStatus up) \<and>
          su_accounts r = Some (up_accounts up) \<and>
          su_positions r = Some (map (\<lambda>(s, p). (s, position_of_report p)) (up_positions up)))"

lemma risk_user_report:
  assumes "risk_engine_fits re" and "uid_for_this_handler uid re"
  obtains r where "user_report_risk uid re = Some r" "user_shown uid (re_userProfiles re) r" "su_orders r = None"
proof (cases "um_find (re_userProfiles re) uid")
  case None
  show ?thesis by (rule that) (use None assms(2) in \<open>auto simp: user_report_risk_def get_user_profile_def user_shown_def\<close>)
next
  case (Some up)
  then have "user_profile_fits up" using assms(1)
    by (auto simp: risk_engine_fits_def valid_map_def dest!: map_of_SomeD)
  then have "distinct (map fst (map (\<lambda>(s, p). (s, position_of_report p)) (up_positions up)))"
    by (simp add: user_profile_fits_def valid_map_def comp_def case_prod_unfold)
  with Some assms(2) show ?thesis
    by (intro that) (auto simp: user_report_risk_def get_user_profile_def user_shown_def to_umap_id)
qed

context report_books
begin

lemma matching_user_report:
  assumes "\<forall>b \<in> set (get_order_books me). valid b"
    and "distinct (map (\<lambda>b. sp_symbolId (spec b)) (get_order_books me))"
  shows "\<exists>m. su_orders (user_report_matching bq uid me) = Some m \<and>
    (\<forall>s x. (\<exists>os. um_find m s = Some os \<and> x \<in> set os) \<longleftrightarrow>
       (\<exists>b \<in> set (get_order_books me). sp_symbolId (spec b) = s \<and> x \<in> set (fb_orders (abstr b)) \<and> ord_uid x = uid))"
proof -
  let ?bs = "get_order_books me" and ?f = "bq_findUserOrders bq uid"
  let ?m = "fold (\<lambda>b m. let os = ?f b in if os = [] then m else um_put (sp_symbolId (spec b)) os m) ?bs []"
  have "(\<exists>os. um_find ?m s = Some os \<and> x \<in> set os) \<longleftrightarrow>
     (\<exists>b \<in> set ?bs. sp_symbolId (spec b) = s \<and> x \<in> set (fb_orders (abstr b)) \<and> ord_uid x = uid)" for s x
  proof -
    have m: "um_find ?m s = map_option ?f (find (\<lambda>b. sp_symbolId (spec b) = s \<and> ?f b \<noteq> []) ?bs)"
      using user_orders_fold[OF assms(2), of "[]" ?f s] by (simp split: option.split)
    have one: "b = b'" if "b \<in> set ?bs" "b' \<in> set ?bs" "sp_symbolId (spec b) = sp_symbolId (spec b')" for b b'
      using assms(2) that by (auto simp: distinct_map inj_on_def)
    have x: "x \<in> set (?f b) \<longleftrightarrow> x \<in> set (fb_orders (abstr b)) \<and> ord_uid x = uid" if "b \<in> set ?bs" for b
      using assms(1) that user_orders_law by simp
    show ?thesis
    proof (cases "find (\<lambda>b. sp_symbolId (spec b) = s \<and> ?f b \<noteq> []) ?bs")
      case None
      then have "\<forall>b \<in> set ?bs. sp_symbolId (spec b) = s \<longrightarrow> ?f b = []" by (auto simp: find_None_iff)
      with None m x show ?thesis by (metis empty_iff list.set(1) option.distinct(1) option.simps(8))
    next
      case (Some b)
      then have "b \<in> set ?bs" "sp_symbolId (spec b) = s"
        by (auto simp: find_Some_iff)
      with Some m x one show ?thesis by auto
    qed
  qed
  moreover have "su_orders (user_report_matching bq uid me) = Some ?m"
    by (simp add: user_report_matching_def spec_law Let_def cong: if_cong)
  ultimately show ?thesis by blast
qed

lemma merged_user_report:
  assumes fits: "risk_engine_fits re" "uid_for_this_handler uid re"
      "pred_option user_report_fits (user_report_risk uid re)" "user_report_fits (user_report_matching bq uid me)"
    and books: "\<forall>b \<in> set (get_order_books me). valid b"
      "distinct (map (\<lambda>b. sp_symbolId (spec b)) (get_order_books me))"
  shows "\<exists>rr merged m. user_report_risk uid re = Some rr \<and>
    (\<forall>evs. evs = report_events nodes 0 (write_user_report rr) @
                 report_events nodes' 1024 (write_user_report (user_report_matching bq uid me)) \<or>
           evs = report_events nodes' 1024 (write_user_report (user_report_matching bq uid me)) @
                 report_events nodes 0 (write_user_report rr) \<longrightarrow>
       merge_user_pieces (report_sections evs) = Inr merged) \<and>
    user_shown uid (re_userProfiles re) merged \<and> su_orders merged = Some m \<and>
    (\<forall>s x. (\<exists>os. um_find m s = Some os \<and> x \<in> set os) \<longleftrightarrow>
       (\<exists>b \<in> set (get_order_books me). sp_symbolId (spec b) = s \<and> x \<in> set (fb_orders (abstr b)) \<and> ord_uid x = uid))"
proof -
  let ?mr = "user_report_matching bq uid me"
  obtain rr where rr: "user_report_risk uid re = Some rr" "user_shown uid (re_userProfiles re) rr" "su_orders rr = None"
    using risk_user_report[OF fits(1,2)] by blast
  obtain m where m: "su_orders ?mr = Some m"
    "\<forall>s x. (\<exists>os. um_find m s = Some os \<and> x \<in> set os) \<longleftrightarrow>
       (\<exists>b \<in> set (get_order_books me). sp_symbolId (spec b) = s \<and> x \<in> set (fb_orders (abstr b)) \<and> ord_uid x = uid)"
    using matching_user_report[OF books] by blast
  let ?merged = "merge_user_reports rr ?mr"
  have ne: "write_user_report r \<noteq> []" for r by (simp add: write_user_report_def write_nullable_def write_boolean_def)
  have "user_report_fits rr" using fits(3) rr(1) by simp
  then have pieces: "merge_user_pieces [write_user_report rr @ z, write_user_report ?mr @ z'] = Inr ?merged" for z z'
    using fits(4) by (simp add: merge_user_pieces_def user_report_codec.exact)
  have mr: "su_userStatus ?mr = None" "su_accounts ?mr = None" "su_positions ?mr = None" "su_queryExecutionStatus ?mr = STATUS_OK"
    by (simp_all add: user_report_matching_def)
  then have "user_shown uid (re_userProfiles re) ?merged" "su_orders ?merged = Some m"
    using rr(2,3) m(1) by (auto simp: user_shown_def merge_user_reports_def merge_nullable_def split: option.splits)
  then show ?thesis
    using rr(1) m(2) report_sections_two[OF ne ne, of 0 1024 nodes rr nodes' ?mr] pieces
    by (intro exI[of _ rr] exI[of _ ?merged] exI[of _ m]) auto
qed

end

section \<open>The books\<close>

definition naive_queries :: "naive_book book_queries" where
  "naive_queries = \<lparr>bq_symbolSpec = nb_symbolSpec, bq_processOrders = (\<lambda>s nb. Inr (naive_process_orders s nb)),
     bq_findUserOrders = naive_find_user_orders\<rparr>"


definition direct_queries :: "direct_book book_queries" where
  "direct_queries = \<lparr>bq_symbolSpec = db_symbolSpec, bq_processOrders = direct_process_orders,
     bq_findUserOrders = direct_find_user_orders\<rparr>"

interpretation direct_reports: report_books direct_inv direct_abs db_symbolSpec direct_queries
proof unfold_locales
  fix db :: direct_book and s uid
  assume "direct_inv db"
  then obtain L where rep: "direct_rep db L {}" by (auto simp: direct_inv_def)
  show "flat_ok (direct_abs db)" using \<open>direct_inv db\<close> by (rule direct.valid_flat_ok)
  show "bq_processOrders direct_queries s db = Inr (fb_side s (direct_abs db))"
    by (simp add: direct_queries_def direct_abs_flat_of[OF rep] direct_process_orders_ok[OF rep])
  show "set (bq_findUserOrders direct_queries uid db) = {x \<in> set (fb_orders (direct_abs db)). ord_uid x = uid}"
    by (simp add: direct_queries_def direct_abs_flat_of[OF rep] direct_lookups_ok[OF rep])
qed (simp add: direct_queries_def)

section \<open>Properties\<close>




definition sample_final :: "naive_book exchange_core" where
  "sample_final = (case run_commands sample_env new_naive_book naive_ops sample_run sample_exchange of
     Inr (out, ec) \<Rightarrow> ec | Inl _ \<Rightarrow> sample_exchange)"

text \<open>The state after the run: a partly filled ask order holds the base currency.\<close>

definition sample_final_engine :: risk_engine where
  "sample_final_engine = \<lparr>re_shardId = 0, re_shardMask = 0, re_symbolSpecs = [(7, sample_spec)],
     re_userProfiles = [
       (1, \<lparr>up_uid = 1, up_positions = [], up_adjustmentsCounter = 1, up_accounts = [(11, 600), (15, 594)],
            up_userStatus = ACTIVE\<rparr>),
       (2, \<lparr>up_uid = 2, up_positions = [], up_adjustmentsCounter = 1, up_accounts = [(15, 4391), (11, 300)],
            up_userStatus = ACTIVE\<rparr>)],
     re_incomingData = [], re_lastPriceCache = [], re_fees = [(15, 15)],
     re_adjustments = [(11, - 1000), (15, - 5000)], re_suspends = [],
     re_cfgIgnoreRiskProcessing = False, re_cfgMarginTradingEnabled = False\<rparr>"

lemma sample_final_state:
  "ec_riskEngines sample_final = [sample_final_engine] \<and>
   map (balance_report_matching naive_queries) (ec_matchingEngines sample_final) = [Inr (of_order_balances [(11, 100)])] \<and>
   map (map fst \<circ> me_orderBooks) (ec_matchingEngines sample_final) = [[7]]"
  by code_simp

lemma sample_final_fits:
  "length (ec_riskEngines sample_final) = 1" "length (ec_matchingEngines sample_final) = 1"
  "risk_engine_fits (hd (ec_riskEngines sample_final))"
  "balance_report_fits (balance_report_risk (hd (ec_riskEngines sample_final)))"
  "\<forall>r. balance_report_matching naive_queries (hd (ec_matchingEngines sample_final)) = Inr r \<longrightarrow> balance_report_fits r"
  "distinct (map fst (me_orderBooks (hd (ec_matchingEngines sample_final))))"
proof -
  have e: "ec_riskEngines sample_final = [sample_final_engine]"
    and m: "map (balance_report_matching naive_queries) (ec_matchingEngines sample_final) = [Inr (of_order_balances [(11, 100)])]"
    and k: "map (map fst \<circ> me_orderBooks) (ec_matchingEngines sample_final) = [[7]]"
    using sample_final_state by simp_all
  then show "length (ec_riskEngines sample_final) = 1" "length (ec_matchingEngines sample_final) = 1"
    "distinct (map fst (me_orderBooks (hd (ec_matchingEngines sample_final))))" by (auto simp: map_eq_Cons_conv)
  show "\<forall>r. balance_report_matching naive_queries (hd (ec_matchingEngines sample_final)) = Inr r \<longrightarrow> balance_report_fits r"
    using m by (auto simp: map_eq_Cons_conv balance_report_fits_def of_order_balances_def empty_balance_report_def valid_map_def fits_def)
  show "risk_engine_fits (hd (ec_riskEngines sample_final))"
    by (simp add: e risk_engine_fits_def sample_final_engine_def valid_map_def fits_def user_profile_fits_def
        symbol_spec_fits_def sample_spec_def)
  have "balance_report_risk sample_final_engine = \<lparr>tb_accountBalances = Some [(11, 900), (15, 4985)],
     tb_fees = Some [(15, 15)], tb_adjustments = Some [(11, - 1000), (15, - 5000)], tb_suspends = Some [],
     tb_ordersBalances = None, tb_openInterestLong = Some [], tb_openInterestShort = Some []\<rparr>" by code_simp
  then show "balance_report_fits (balance_report_risk (hd (ec_riskEngines sample_final)))"
    by (simp add: e balance_report_fits_def valid_map_def fits_def)
qed

lemma sample_final:
  "\<exists>out. run_commands sample_env new_naive_book naive_ops sample_run sample_exchange =
     Inr (out, \<lparr>ec_riskEngines = [hd (ec_riskEngines sample_final)], ec_matchingEngines = [hd (ec_matchingEngines sample_final)]\<rparr>)"
proof -
  have "length (ec_riskEngines sample_final) = 1" "length (ec_matchingEngines sample_final) = 1"
    by (rule sample_final_fits)+
  then have "sample_final = \<lparr>ec_riskEngines = [hd (ec_riskEngines sample_final)],
      ec_matchingEngines = [hd (ec_matchingEngines sample_final)]\<rparr>"
    by (cases sample_final) (auto simp: length_Suc_conv)
  moreover have "\<exists>out. run_commands sample_env new_naive_book naive_ops sample_run sample_exchange = Inr (out, sample_final)"
    using sample_run_returns by (auto simp: sample_final_def split: sum.splits)
  ultimately show ?thesis by metis
qed


text \<open>C28:
  A user's report is exact. The answers of the user's risk engine and of a matching engine with
  direct books, appended to the result in either order, merge into one report: it shows the
  status, the accounts and the positions that the risk engine keeps (or that the user is not
  found), and under every symbol exactly the user's resting orders of that symbol's book. The user
  is of this shard, the books are valid and of different symbols, and the values fit their widths.
\<close>

theorem user_report_exact:
  assumes "risk_engine_fits re" and "uid_for_this_handler uid re"
    and "pred_option user_report_fits (user_report_risk uid re)"
    and "user_report_fits (user_report_matching direct_queries uid me)"
    and "\<forall>db \<in> set (get_order_books me). direct_inv db"
    and "distinct (map (\<lambda>db. sp_symbolId (db_symbolSpec db)) (get_order_books me))"
  shows "\<exists>rr merged orders. user_report_risk uid re = Some rr \<and>
    (\<forall>evs. evs = report_events nodes 0 (write_user_report rr) @
                 report_events nodes' 1024 (write_user_report (user_report_matching direct_queries uid me)) \<or>
           evs = report_events nodes' 1024 (write_user_report (user_report_matching direct_queries uid me)) @
                 report_events nodes 0 (write_user_report rr) \<longrightarrow>
       merge_user_pieces (report_sections evs) = Inr merged) \<and>
    user_shown uid (re_userProfiles re) merged \<and> su_orders merged = Some orders \<and>
    (\<forall>symbol x. (\<exists>os. um_find orders symbol = Some os \<and> x \<in> set os) \<longleftrightarrow>
       (\<exists>db \<in> set (get_order_books me). sp_symbolId (db_symbolSpec db) = symbol \<and>
          x \<in> set (fb_orders (direct_abs db)) \<and> ord_uid x = uid))"
  by (rule direct_reports.merged_user_report[OF assms])

definition sample_user_engine :: risk_engine where
  "sample_user_engine = sample_risk_engine\<lparr>re_userProfiles :=
     [(1, (new_user_profile 1 ACTIVE)\<lparr>up_accounts := [(11, 600)]\<rparr>)]\<rparr>"

definition sample_direct_router :: "direct_book matching_router" where
  "sample_direct_router = \<lparr>me_shardId = 0, me_shardMask = 0, me_symbolSpecProvider = None, me_incomingData = [],
     me_orderBooks = [(7, sample_direct_book)], me_cfgMarginTradingEnabled = False,
     me_cfgSendL2ForEveryCmd = False, me_cfgL2RefreshDepth = 8\<rparr>"

lemma sample_user_fits:
  "risk_engine_fits sample_user_engine" "uid_for_this_handler 1 sample_user_engine"
  "pred_option user_report_fits (user_report_risk 1 sample_user_engine)"
  "user_report_fits (user_report_matching direct_queries 1 sample_direct_router)"
proof -
  show "risk_engine_fits sample_user_engine" "uid_for_this_handler 1 sample_user_engine"
    by (simp_all add: sample_user_engine_def sample_risk_engine_def risk_engine_fits_def valid_map_def fits_def
        user_profile_fits_def symbol_spec_fits_def sample_spec_def new_user_profile_def uid_for_this_handler_def)
  have "user_report_risk 1 sample_user_engine = Some \<lparr>su_uid = 1, su_userStatus = Some ACTIVE,
      su_accounts = Some [(11, 600)], su_positions = Some [], su_orders = None, su_queryExecutionStatus = STATUS_OK\<rparr>"
    by code_simp
  then show "pred_option user_report_fits (user_report_risk 1 sample_user_engine)"
    by (simp add: user_report_fits_def valid_map_def fits_def STATUS_OK_def)
  have "user_report_matching direct_queries 1 sample_direct_router = \<lparr>su_uid = 1, su_userStatus = None,
      su_accounts = None, su_positions = None, su_orders = Some [(7, [sample_ask])], su_queryExecutionStatus = STATUS_OK\<rparr>"
    by code_simp
  then show "user_report_fits (user_report_matching direct_queries 1 sample_direct_router)"
    by (simp add: user_report_fits_def valid_map_def fits_def order_list_fits_def order_fits_def sample_ask_def STATUS_OK_def)
qed

theorem user_report_exact_witness:
  "\<exists>rr merged orders os. user_report_risk 1 sample_user_engine = Some rr \<and>
    merge_user_pieces (report_sections
      (report_events [] 1024 (write_user_report (user_report_matching direct_queries 1 sample_direct_router)) @
       report_events [] 0 (write_user_report rr))) = Inr merged \<and>
    su_accounts merged = Some [(11, 600)] \<and> su_orders merged = Some orders \<and>
    um_find orders (sp_symbolId sample_spec) = Some os \<and> sample_ask \<in> set os"
proof -
  have s: "get_order_books sample_direct_router = [sample_direct_book]"
    by (simp add: sample_direct_router_def get_order_books_def)
  obtain rr merged orders where r: "user_report_risk 1 sample_user_engine = Some rr"
    "merge_user_pieces (report_sections
      (report_events [] 1024 (write_user_report (user_report_matching direct_queries 1 sample_direct_router)) @
       report_events [] 0 (write_user_report rr))) = Inr merged"
    "user_shown 1 (re_userProfiles sample_user_engine) merged" "su_orders merged = Some orders"
    "\<forall>symbol x. (\<exists>os. um_find orders symbol = Some os \<and> x \<in> set os) \<longleftrightarrow>
       (\<exists>db \<in> set (get_order_books sample_direct_router). sp_symbolId (db_symbolSpec db) = symbol \<and>
          x \<in> set (fb_orders (direct_abs db)) \<and> ord_uid x = 1)"
    using user_report_exact[of sample_user_engine 1 sample_direct_router "[]" "[]"] sample_user_fits
      sample_direct_book_ok s by auto
  have "sample_ask \<in> set (fb_orders (direct_abs sample_direct_book))" "ord_uid sample_ask = 1"
    using sample_direct_book_ok by (simp_all add: fb_orders_def sample_defs)
  then obtain os where "um_find orders (sp_symbolId sample_spec) = Some os" "sample_ask \<in> set os"
    using r(5) s sample_direct_book_ok by fastforce
  moreover have "su_accounts merged = Some [(11, 600)]"
    using r(3) by (simp add: user_shown_def sample_user_engine_def)
  ultimately show ?thesis using r(1,2,4) by blast
qed

end
