(* ===== verification/Two_Step.thy ===== *)
theory Two_Step
  imports Exchange_Conservation
begin

text \<open>
  \<open>TwoStepMasterProcessor\<close> and \<open>TwoStepSlaveProcessor\<close>: a risk engine's thread runs R1 over the
  commands that are available and, at the end of every group of events and of every batch, R2 over
  all of them. The calls of the handlers are transformers of one state, for any handlers.
\<close>

section \<open>The processors\<close>

text \<open>A handler may throw; it returns if the sequence is to be published at once.\<close>

type_synonym 's handler = "int \<Rightarrow> 's \<Rightarrow> 's \<times> (exn + bool)"

record two_step =
  ts_currentGroup :: int
  ts_lastTriggered :: int
  ts_masterSequence :: int
  ts_slaveNext :: int
  ts_slaveSequence :: int

definition start_two_step :: "int \<Rightarrow> two_step" where
  "start_two_step initialSequence = \<lparr>ts_currentGroup = 0, ts_lastTriggered = initialSequence,
     ts_masterSequence = initialSequence, ts_slaveNext = initialSequence + 1, ts_slaveSequence = initialSequence\<rparr>"

text \<open>
  \<open>HandlingCycle\<close>: it leaves when the next sequence is the end of the group and would spin for ever
  past it. The slave waits for the matching engines, so every sequence becomes available.
\<close>

function handling_cycle :: "'s handler \<Rightarrow> int \<Rightarrow> two_step \<Rightarrow> 's \<Rightarrow> (two_step \<times> 's) option" where
  "handling_cycle r2 upTo st s =
     (if ts_slaveNext st < upTo
      then (case r2 (ts_slaveNext st) s of
          (s1, Inr _) \<Rightarrow> handling_cycle r2 upTo (st\<lparr>ts_slaveNext := ts_slaveNext st + 1\<rparr>) s1
        | (s1, Inl _) \<Rightarrow> handling_cycle r2 upTo
            (st\<lparr>ts_slaveSequence := ts_slaveNext st, ts_slaveNext := ts_slaveNext st + 1\<rparr>) s1)
      else if ts_slaveNext st = upTo then Some (st\<lparr>ts_slaveSequence := upTo - 1\<rparr>, s)
      else None)"
  by pat_completeness auto
termination by (relation "measure (\<lambda>(_, upTo, st, _). nat (upTo - ts_slaveNext st))") auto

declare handling_cycle.simps [simp del]

definition publish_progress :: "'s handler \<Rightarrow> int \<Rightarrow> two_step \<Rightarrow> 's \<Rightarrow> (two_step \<times> 's) option" where
  "publish_progress r2 nextSequence st s =
     handling_cycle r2 nextSequence (st\<lparr>ts_masterSequence := nextSequence - 1\<rparr>) s"

text \<open>
  The round of \<open>ProcessEvents\<close> over the sequences up to the one that is available. \<open>started\<close> says
  that a message was handled since the round began; an exception skips its command and begins a
  new round.
\<close>

function master_batch ::
  "(int \<Rightarrow> order_command) \<Rightarrow> 's handler \<Rightarrow> 's handler \<Rightarrow> int \<Rightarrow> bool \<Rightarrow> int \<Rightarrow> two_step \<Rightarrow> 's \<Rightarrow> (two_step \<times> 's) option" where
  "master_batch ring r1 r2 available started nextSequence st s =
     (if nextSequence \<le> available
      then Option.bind
          (if cmd_eventsGroup (ring nextSequence) \<noteq> ts_currentGroup st
           then map_option (\<lambda>(st, s). (st\<lparr>ts_lastTriggered := nextSequence - 1,
               ts_currentGroup := cmd_eventsGroup (ring nextSequence)\<rparr>, s)) (publish_progress r2 nextSequence st s)
           else Some (st, s)) (\<lambda>(st1, s1).
        case r1 nextSequence s1 of
          (s2, Inl _) \<Rightarrow> master_batch ring r1 r2 available False (nextSequence + 1)
            (st1\<lparr>ts_masterSequence := nextSequence\<rparr>) s2
        | (s2, Inr forcedPublish) \<Rightarrow> Option.bind
            (let st2 = if forcedPublish then st1\<lparr>ts_masterSequence := nextSequence\<rparr> else st1
             in if cmd_command (ring nextSequence) = SHUTDOWN_SIGNAL
                then publish_progress r2 (nextSequence + 1) st2 s2 else Some (st2, s2)) (\<lambda>(st3, s3).
              master_batch ring r1 r2 available True (nextSequence + 1) st3 s3))
      else if started
      then map_option (\<lambda>(st1, s1). (st1\<lparr>ts_masterSequence := available\<rparr>, s1))
          (if ts_lastTriggered st < nextSequence - 1 then publish_progress r2 nextSequence st s else Some (st, s))
      else Some (st, s))"
  by pat_completeness auto
termination by (relation "measure (\<lambda>(_, _, _, available, _, nextSequence, _, _). nat (available + 1 - nextSequence))") auto

declare master_batch.simps [simp del]

text \<open>The rounds, given by the sequence that each finds to be available.\<close>

fun master_batches ::
  "(int \<Rightarrow> order_command) \<Rightarrow> 's handler \<Rightarrow> 's handler \<Rightarrow> int list \<Rightarrow> int \<Rightarrow> two_step \<Rightarrow> 's \<Rightarrow> (int \<times> two_step \<times> 's) option" where
  "master_batches ring r1 r2 [] nextSequence st s = Some (nextSequence, st, s)"
| "master_batches ring r1 r2 (available # rounds) nextSequence st s =
     (if nextSequence \<le> available
      then Option.bind (master_batch ring r1 r2 available False nextSequence st s) (\<lambda>(st1, s1).
        master_batches ring r1 r2 rounds (available + 1) st1 s1)
      else master_batches ring r1 r2 rounds nextSequence st s)"

section \<open>Invariants of the handlers\<close>

text \<open>
  What clients rely on: a property of the state that R1 keeps when the commands that R2 has not
  seen are of its own group, and that R2 keeps; sequences below \<open>limit\<close> are in the ring.
\<close>

locale two_step_handlers =
  fixes ring :: "int \<Rightarrow> order_command" and r1 :: "'s handler" and r2 :: "'s handler"
    and limit :: int and good :: "int \<Rightarrow> int \<Rightarrow> 's \<Rightarrow> bool"
  assumes first_law: "\<lbrakk>good n k s; k \<le> n; n < limit; \<forall>i \<in> {k..<n}. cmd_eventsGroup (ring i) = cmd_eventsGroup (ring n)\<rbrakk> \<Longrightarrow>
      good (n + 1) k (fst (r1 n s))"
    and second_law: "\<lbrakk>good n k s; k < n; n \<le> limit\<rbrakk> \<Longrightarrow> good n (k + 1) (fst (r2 k s))"

text \<open>The commands that wait for R2 are of the group of the master.\<close>

definition waiting_ok :: "(int \<Rightarrow> order_command) \<Rightarrow> int \<Rightarrow> two_step \<Rightarrow> bool" where
  "waiting_ok ring n st \<longleftrightarrow> ts_slaveNext st \<le> n \<and> ts_lastTriggered st < n \<and>
     (\<forall>i \<in> {ts_slaveNext st..<n}. cmd_eventsGroup (ring i) = ts_currentGroup st)"

lemma waiting_ok_next:
  "waiting_ok ring n st \<Longrightarrow> cmd_eventsGroup (ring n) = ts_currentGroup st \<Longrightarrow> waiting_ok ring (n + 1) st"
  unfolding waiting_ok_def by (metis atLeastLessThan_iff le_less linorder_not_less order_less_le zle_add1_eq_le zless_add1_eq)

lemma waiting_ok_sequence [simp]:
  "waiting_ok ring n (st\<lparr>ts_masterSequence := x\<rparr>) = waiting_ok ring n st"
  by (simp add: waiting_ok_def)

text \<open>A handler that does not throw on the states of the invariant.\<close>

definition calm :: "'s handler \<Rightarrow> int \<Rightarrow> (int \<Rightarrow> int \<Rightarrow> 's \<Rightarrow> bool) \<Rightarrow> bool" where
  "calm r1 limit good \<longleftrightarrow> (\<forall>n k s. good n k s \<and> k \<le> n \<and> n < limit \<longrightarrow> (\<exists>b. snd (r1 n s) = Inr b))"

context two_step_handlers
begin

lemma handling_cycle_ok:
  assumes "good n (ts_slaveNext st) s" and "ts_slaveNext st \<le> upTo" and "upTo \<le> n" and "n \<le> limit"
  shows "\<exists>s' x. handling_cycle r2 upTo st s = Some (st\<lparr>ts_slaveNext := upTo, ts_slaveSequence := x\<rparr>, s') \<and> good n upTo s'"
  using assms
proof (induction "nat (upTo - ts_slaveNext st)" arbitrary: st s rule: less_induct)
  case less
  let ?k = "ts_slaveNext st"
  show ?case
  proof (cases "?k < upTo")
    case False
    then have "?k = upTo" using less.prems(2) by simp
    then have "handling_cycle r2 upTo st s = Some (st\<lparr>ts_slaveNext := upTo, ts_slaveSequence := upTo - 1\<rparr>, s)"
      by (simp add: handling_cycle.simps)
    with less.prems(1) \<open>?k = upTo\<close> show ?thesis by blast
  next
    case True
    obtain s1 res where r: "r2 ?k s = (s1, res)" by fastforce
    have inv1: "good n (?k + 1) s1" using second_law[OF less.prems(1)] True less.prems(3,4) r by simp
    have IH: "\<exists>s' x. handling_cycle r2 upTo st1 s1 = Some (st1\<lparr>ts_slaveNext := upTo, ts_slaveSequence := x\<rparr>, s') \<and> good n upTo s'"
      if "ts_slaveNext st1 = ?k + 1" for st1
      using less.hyps[of st1 s1] that inv1 True less.prems by simp
    show ?thesis
    proof (cases res)
      case (Inl e)
      then have "handling_cycle r2 upTo st s =
          handling_cycle r2 upTo (st\<lparr>ts_slaveSequence := ?k, ts_slaveNext := ?k + 1\<rparr>) s1"
        using True r by (simp add: handling_cycle.simps[of r2 upTo st s])
      with IH[of "st\<lparr>ts_slaveSequence := ?k, ts_slaveNext := ?k + 1\<rparr>"] show ?thesis by auto
    next
      case (Inr b)
      then have "handling_cycle r2 upTo st s = handling_cycle r2 upTo (st\<lparr>ts_slaveNext := ?k + 1\<rparr>) s1"
        using True r by (simp add: handling_cycle.simps[of r2 upTo st s])
      with IH[of "st\<lparr>ts_slaveNext := ?k + 1\<rparr>"] show ?thesis by auto
    qed
  qed
qed

lemma publish_progress_ok:
  assumes "good n (ts_slaveNext st) s" and "ts_slaveNext st \<le> n" and "n \<le> limit"
  shows "\<exists>s' x y. publish_progress r2 n st s =
    Some (st\<lparr>ts_masterSequence := y, ts_slaveNext := n, ts_slaveSequence := x\<rparr>, s') \<and> good n n s'"
  unfolding publish_progress_def
  using handling_cycle_ok[of n "st\<lparr>ts_masterSequence := n - 1\<rparr>" s n] assms by fastforce

text \<open>Before R1 of a command its group is the current one, and all that wait are of that group.\<close>

lemma group_switched:
  assumes "good n (ts_slaveNext st) s" and "waiting_ok ring n st" and "n \<le> limit"
  shows "\<exists>st1 s1. (if cmd_eventsGroup (ring n) \<noteq> ts_currentGroup st
      then map_option (\<lambda>(st, s). (st\<lparr>ts_lastTriggered := n - 1, ts_currentGroup := cmd_eventsGroup (ring n)\<rparr>, s))
        (publish_progress r2 n st s) else Some (st, s)) = Some (st1, s1) \<and>
    good n (ts_slaveNext st1) s1 \<and> waiting_ok ring n st1 \<and> ts_currentGroup st1 = cmd_eventsGroup (ring n)"
proof (cases "cmd_eventsGroup (ring n) = ts_currentGroup st")
  case False
  obtain s' x y where "publish_progress r2 n st s =
      Some (st\<lparr>ts_masterSequence := y, ts_slaveNext := n, ts_slaveSequence := x\<rparr>, s')" "good n n s'"
    using publish_progress_ok[of n st s] assms by (auto simp: waiting_ok_def)
  with False show ?thesis by (simp add: waiting_ok_def)
qed (use assms in auto)

lemma master_batch_ok:
  assumes "good n (ts_slaveNext st) s" and "waiting_ok ring n st" and "n \<le> available + 1" and "available < limit"
    and "started \<longrightarrow> ts_lastTriggered st < n - 1"
  shows "\<exists>st' s'. master_batch ring r1 r2 available started n st s = Some (st', s') \<and>
    good (available + 1) (ts_slaveNext st') s' \<and> waiting_ok ring (available + 1) st' \<and>
    (calm r1 limit good \<and> (started \<or> n \<le> available) \<longrightarrow> ts_slaveNext st' = available + 1)"
  using assms
proof (induction "nat (available + 1 - n)" arbitrary: started n st s rule: less_induct)
  case less
  note simps = master_batch.simps[of ring r1 r2 available started n st s]
  show ?case
  proof (cases "n \<le> available")
    case False
    then have n: "n = available + 1" using less.prems(3) by simp
    show ?thesis
    proof (cases started)
      case False
      with n less.prems(1,2) show ?thesis unfolding simps by simp
    next
      case True
      then obtain s' x y where "publish_progress r2 n st s =
          Some (st\<lparr>ts_masterSequence := y, ts_slaveNext := n, ts_slaveSequence := x\<rparr>, s')" "good n n s'"
        using publish_progress_ok[of n st s] less.prems n by (auto simp: waiting_ok_def)
      with True n less.prems(2,5) show ?thesis unfolding simps by (simp add: waiting_ok_def)
    qed
  next
    case True
    then have "n < limit" "n \<le> limit" using less.prems(4) by auto
    obtain st1 s1 where g: "(if cmd_eventsGroup (ring n) \<noteq> ts_currentGroup st
        then map_option (\<lambda>(st, s). (st\<lparr>ts_lastTriggered := n - 1, ts_currentGroup := cmd_eventsGroup (ring n)\<rparr>, s))
          (publish_progress r2 n st s) else Some (st, s)) = Some (st1, s1)"
      "good n (ts_slaveNext st1) s1" "waiting_ok ring n st1" "ts_currentGroup st1 = cmd_eventsGroup (ring n)"
      using group_switched[OF less.prems(1,2) \<open>n \<le> limit\<close>] by blast
    obtain s2 res where r: "r1 n s1 = (s2, res)" by fastforce
    have inv2: "good (n + 1) (ts_slaveNext st1) s2"
      using first_law[OF g(2), of] g(3,4) \<open>n < limit\<close> r by (auto simp: waiting_ok_def)
    have ok2: "waiting_ok ring (n + 1) st1" using waiting_ok_next[OF g(3)] g(4) by simp
    have IH: "\<exists>st' s'. master_batch ring r1 r2 available b (n + 1) st2 s3 = Some (st', s') \<and>
        good (available + 1) (ts_slaveNext st') s' \<and> waiting_ok ring (available + 1) st' \<and>
        (calm r1 limit good \<and> (b \<or> n + 1 \<le> available) \<longrightarrow> ts_slaveNext st' = available + 1)"
      if "good (n + 1) (ts_slaveNext st2) s3" "waiting_ok ring (n + 1) st2" "b \<longrightarrow> ts_lastTriggered st2 < n" for b st2 s3
      using less.hyps[of "n + 1" st2 s3 b] that True less.prems(4) by simp
    show ?thesis
    proof (cases res)
      case (Inl e)
      then have "\<not> calm r1 limit good"
        using g(2,3) r \<open>n < limit\<close> unfolding calm_def waiting_ok_def by (metis snd_conv sum.distinct(1))
      moreover have "master_batch ring r1 r2 available started n st s =
          master_batch ring r1 r2 available False (n + 1) (st1\<lparr>ts_masterSequence := n\<rparr>) s2"
        using True g(1) r Inl by (simp add: simps)
      ultimately show ?thesis using IH[of "st1\<lparr>ts_masterSequence := n\<rparr>" s2 False] inv2 ok2 by simp
    next
      case (Inr forced)
      define st2 where "st2 = (if forced then st1\<lparr>ts_masterSequence := n\<rparr> else st1)"
      have st2: "good (n + 1) (ts_slaveNext st2) s2" "waiting_ok ring (n + 1) st2" "ts_lastTriggered st2 < n"
        using inv2 ok2 g(3) by (auto simp: st2_def waiting_ok_def)
      have n1: "n + 1 \<le> limit" using \<open>n < limit\<close> by simp
      obtain st3 s3 where p: "(if cmd_command (ring n) = SHUTDOWN_SIGNAL then publish_progress r2 (n + 1) st2 s2
          else Some (st2, s2)) = Some (st3, s3)"
        "good (n + 1) (ts_slaveNext st3) s3" "waiting_ok ring (n + 1) st3" "ts_lastTriggered st3 < n"
        using publish_progress_ok[OF st2(1) _ n1] st2 by (cases "cmd_command (ring n) = SHUTDOWN_SIGNAL") (fastforce simp: waiting_ok_def)+
      have "master_batch ring r1 r2 available started n st s = master_batch ring r1 r2 available True (n + 1) st3 s3"
        using True g(1) r Inr p(1)
        by (cases forced; cases "cmd_command (ring n) = SHUTDOWN_SIGNAL") (simp_all add: simps st2_def)
      with IH[of st3 s3 True] p(2-4) True show ?thesis by simp
    qed
  qed
qed

lemma master_batches_ok:
  assumes "good n (ts_slaveNext st) s" and "waiting_ok ring n st" and "\<forall>a \<in> set rounds. a < limit" and "n \<le> limit"
  shows "\<exists>n' st' s'. master_batches ring r1 r2 rounds n st s = Some (n', st', s') \<and> n' \<le> limit \<and>
    n' = fold max (map (\<lambda>a. a + 1) rounds) n \<and> good n' (ts_slaveNext st') s' \<and> waiting_ok ring n' st' \<and>
    (calm r1 limit good \<and> ts_slaveNext st = n \<longrightarrow> ts_slaveNext st' = n')"
  using assms
proof (induction rounds arbitrary: n st s)
  case (Cons a rounds)
  show ?case
  proof (cases "n \<le> a")
    case False
    with Cons.IH[of n st s] Cons.prems show ?thesis by (simp add: max_def)
  next
    case True
    then obtain st1 s1 where b: "master_batch ring r1 r2 a False n st s = Some (st1, s1)"
      "good (a + 1) (ts_slaveNext st1) s1" "waiting_ok ring (a + 1) st1"
      "calm r1 limit good \<longrightarrow> ts_slaveNext st1 = a + 1"
      using master_batch_ok[OF Cons.prems(1,2), of a False] Cons.prems(3) by auto
    have "max (a + 1) n = a + 1" using True by simp
    then show ?thesis using Cons.IH[OF b(2,3)] Cons.prems(3) True b(1,4) by auto
  qed
qed simp

end

lemma waiting_ok_start [simp]: "waiting_ok ring (n + 1) (start_two_step n)"
  by (simp add: waiting_ok_def start_two_step_def)

lemma slaveNext_start [simp]: "ts_slaveNext (start_two_step n) = n + 1"
  by (simp add: start_two_step_def)

end
