(* ===== verification/Two_Step_Correct.thy ===== *)
theory Two_Step_Correct
  imports Two_Step Naive_Exchange
begin

text \<open>
  The two-step processors in use: the order of their calls, and the exchange whose R1 runs ahead
  of matching and R2 by up to a group of commands.
\<close>

section \<open>The order of the calls\<close>

datatype stage_call = First_Call int | Second_Call int

definition firsts :: "stage_call list \<Rightarrow> int list" where
  "firsts log = concat (map (\<lambda>x. case x of First_Call i \<Rightarrow> [i] | Second_Call _ \<Rightarrow> []) log)"

definition seconds :: "stage_call list \<Rightarrow> int list" where
  "seconds log = concat (map (\<lambda>x. case x of First_Call _ \<Rightarrow> [] | Second_Call i \<Rightarrow> [i]) log)"

lemma calls_append [simp]:
  "firsts (log @ [First_Call i]) = firsts log @ [i]" "firsts (log @ [Second_Call i]) = firsts log"
  "seconds (log @ [First_Call i]) = seconds log" "seconds (log @ [Second_Call i]) = seconds log @ [i]"
  "firsts [] = []" "seconds [] = []"
  by (simp_all add: firsts_def seconds_def)

lemma set_calls: "i \<in> set (firsts log) \<longleftrightarrow> First_Call i \<in> set log" "i \<in> set (seconds log) \<longleftrightarrow> Second_Call i \<in> set log"
  by (auto simp: firsts_def seconds_def split: stage_call.splits)

text \<open>Handlers that log their calls and throw for some of the sequences.\<close>

definition log_call :: "(int \<Rightarrow> stage_call) \<Rightarrow> int set \<Rightarrow> int set \<Rightarrow> stage_call list handler" where
  "log_call call failing forced i log =
     (log @ [call i], if i \<in> failing then Inl (Runtime_Error ''OnEvent'') else Inr (i \<in> forced))"

definition called_before :: "stage_call \<Rightarrow> stage_call \<Rightarrow> stage_call list \<Rightarrow> bool" where
  "called_before x y log \<longleftrightarrow> (\<forall>past rest. log = past @ y # rest \<longrightarrow> x \<in> set past)"

lemma called_before_append:
  "called_before x y (log @ [z]) \<longleftrightarrow> called_before x y log \<and> (z = y \<longrightarrow> x \<in> set log)"
proof
  assume "called_before x y (log @ [z])"
  then have b: "log @ [z] = past @ y # rest \<Longrightarrow> x \<in> set past" for past rest by (simp add: called_before_def)
  show "called_before x y log \<and> (z = y \<longrightarrow> x \<in> set log)"
    using b[of _ "_ @ [z]"] b[of log "[]"] by (auto simp: called_before_def)
next
  assume b: "called_before x y log \<and> (z = y \<longrightarrow> x \<in> set log)"
  have "x \<in> set past" if "log @ [z] = past @ y # rest" for past rest
  proof (cases rest rule: rev_cases)
    case (snoc rest' z')
    then have "log = past @ y # rest'" using that by simp
    with b show ?thesis by (simp add: called_before_def)
  qed (use b that in simp)
  then show "called_before x y (log @ [z])" by (simp add: called_before_def)
qed

text \<open>Two commands of one group, with no other group between them.\<close>

definition same_group :: "(int \<Rightarrow> order_command) \<Rightarrow> int \<Rightarrow> int \<Rightarrow> bool" where
  "same_group ring j i \<longleftrightarrow> (\<forall>k \<in> {j..i}. cmd_eventsGroup (ring k) = cmd_eventsGroup (ring i))"

definition calls_ordered :: "(int \<Rightarrow> order_command) \<Rightarrow> stage_call list \<Rightarrow> bool" where
  "calls_ordered ring log \<longleftrightarrow> (\<forall>j. called_before (First_Call j) (Second_Call j) log) \<and>
     (\<forall>i j. 0 \<le> j \<and> j < i \<and> \<not> same_group ring j i \<longrightarrow> called_before (Second_Call j) (First_Call i) log)"

definition logged :: "(int \<Rightarrow> order_command) \<Rightarrow> int \<Rightarrow> int \<Rightarrow> stage_call list \<Rightarrow> bool" where
  "logged ring n k log \<longleftrightarrow> 0 \<le> n \<and> 0 \<le> k \<and> firsts log = [0..n - 1] \<and> seconds log = [0..k - 1] \<and> calls_ordered ring log"

lemma upto_next: "0 \<le> n \<Longrightarrow> [0..n] = [0..n - 1] @ [n]" for n :: int
  by (rule upto_rec2) 

interpretation logging: two_step_handlers ring "log_call First_Call f1 p1" "log_call Second_Call f2 p2" limit "logged ring"
  for ring f1 p1 f2 p2 limit
proof unfold_locales
  fix n k log
  assume l: "logged ring n k log" and k: "k \<le> n" and g: "\<forall>i \<in> {k..<n}. cmd_eventsGroup (ring i) = cmd_eventsGroup (ring n)"
  have "Second_Call j \<in> set log" if "0 \<le> j" "j < n" "\<not> same_group ring j n" for j
  proof (rule ccontr)
    assume "Second_Call j \<notin> set log"
    then have "k \<le> j" using l that(1) set_calls(2)[of j log] by (auto simp: logged_def)
    with g that(3) show False by (auto simp: same_group_def le_less)
  qed
  with l show "logged ring (n + 1) k (fst (log_call First_Call f1 p1 n log))"
    by (auto simp: logged_def log_call_def calls_ordered_def called_before_append upto_next)
next
  fix n k log
  assume l: "logged ring n k log" and k: "k < n"
  then have "First_Call k \<in> set log" using set_calls(1)[of k log] by (auto simp: logged_def)
  with l show "logged ring n (k + 1) (fst (log_call Second_Call f2 p2 k log))"
    by (auto simp: logged_def log_call_def calls_ordered_def called_before_append upto_next)
qed

definition rounds_end :: "int list \<Rightarrow> int" where
  "rounds_end rounds = fold max (map (\<lambda>a. a + 1) rounds) 0"

lemma fold_max_ge: "x \<le> fold max xs x" "a \<in> set xs \<Longrightarrow> a \<le> fold max xs x" for x :: int
proof -
  show ge: "x \<le> fold max xs x" for xs and x :: int
    by (induction xs arbitrary: x) (simp_all, meson le_max_iff_disj order_trans order_refl)
  show "a \<in> set xs \<Longrightarrow> a \<le> fold max xs x"
    by (induction xs arbitrary: x) (use ge in \<open>auto intro: order_trans[OF _ ge] simp: le_max_iff_disj\<close>)
qed

lemma rounds_end_bounds: "0 \<le> rounds_end rounds" "\<forall>a \<in> set rounds. a < rounds_end rounds"
  using fold_max_ge(1)[of 0 "map (\<lambda>a. a + 1) rounds"] fold_max_ge(2)[of _ "map (\<lambda>a. a + 1) rounds" 0]
  by (force simp: rounds_end_def)+

text \<open>C6:
  Master and slave call the two stages in the right order, for any commands, any rounds and any
  exceptions of the handlers: R1 sees every command once and in sequence, R2 follows in sequence
  and never sees a command before R1 did, and before R1 of a command R2 has seen all earlier
  commands that a change of group separates from it. The slave never spins past the end of its group, and if R1 throws no exception, no
  command is left waiting for R2 after a round.
\<close>

theorem two_step_calls_ordered:
  "\<exists>st log. master_batches ring (log_call First_Call f1 p1) (log_call Second_Call f2 p2) rounds 0 (start_two_step (-1)) [] =
      Some (rounds_end rounds, st, log) \<and>
    firsts log = [0..rounds_end rounds - 1] \<and> seconds log = [0..ts_slaveNext st - 1] \<and>
    ts_slaveNext st \<le> rounds_end rounds \<and> calls_ordered ring log \<and>
    (f1 = {} \<longrightarrow> ts_slaveNext st = rounds_end rounds)"
proof -
  let ?r1 = "log_call First_Call f1 p1" and ?r2 = "log_call Second_Call f2 p2"
  have "logged ring 0 (ts_slaveNext (start_two_step (-1))) []"
    by (simp add: logged_def calls_ordered_def called_before_def)
  then obtain st log where "master_batches ring ?r1 ?r2 rounds 0 (start_two_step (-1)) [] = Some (rounds_end rounds, st, log)"
    "logged ring (rounds_end rounds) (ts_slaveNext st) log" "waiting_ok ring (rounds_end rounds) st"
    "calm ?r1 (rounds_end rounds) (logged ring) \<longrightarrow> ts_slaveNext st = rounds_end rounds"
    using logging.master_batches_ok[of ring 0 "start_two_step (-1)" "[]" rounds "rounds_end rounds" f1 p1 f2 p2]
      rounds_end_bounds[of rounds] waiting_ok_start[of ring "-1"] by (auto simp: rounds_end_def)
  moreover have "f1 = {} \<longrightarrow> calm ?r1 (rounds_end rounds) (logged ring)" by (simp add: calm_def log_call_def)
  ultimately show ?thesis by (auto simp: logged_def waiting_ok_def)
qed

theorem two_step_calls_ordered_witness:
  "\<exists>st log. master_batches (\<lambda>_. default_command) (log_call First_Call {} {1}) (log_call Second_Call {0} {}) [1, 0, 2] 0
      (start_two_step (-1)) [] = Some (3, st, log) \<and> firsts log = [0, 1, 2] \<and> seconds log = [0, 1, 2]"
  using two_step_calls_ordered[of "\<lambda>_. default_command" "{}" "{1}" "{0}" "{}" "[1, 0, 2]"]
  by (fastforce simp: rounds_end_def upto.simps)

section \<open>The exchange with grouped commands\<close>

text \<open>
  The state that one risk engine's handlers work on: the commands of the ring, the risk engine and
  the matching engine. Matching shares nothing with R1 but the command, so it is done where the
  slave waits for it, before R2. What an exception leaves of the engines is not modelled; the
  theorems below have none.
\<close>

record 'b two_step_exchange =
  tx_commands :: "int \<Rightarrow> order_command"
  tx_risk :: risk_engine
  tx_router :: "'b matching_router"

definition first_handler :: "('b, 'q) core_env \<Rightarrow> 'b two_step_exchange handler" where
  "first_handler env i x =
     (case pre_process_command (env_decode env) (env_decode_query env) (env_risk_report env) (env_risk_store env)
        (tx_commands x i) (tx_risk x) of
        Inl e \<Rightarrow> (x, Inl e)
      | Inr (forced, cmd, re) \<Rightarrow> (x\<lparr>tx_commands := (tx_commands x)(i := cmd), tx_risk := re\<rparr>, Inr forced))"

definition second_handler ::
  "('b, 'q) core_env \<Rightarrow> (symbol_spec \<Rightarrow> 'b) \<Rightarrow> 'b order_book_ops \<Rightarrow> 'b two_step_exchange handler" where
  "second_handler env factory ops i x =
     (case bindE (process_order (env_decode env) (env_decode_query env) (env_matching_report env)
              (env_matching_store env) factory ops (env_node env) (tx_commands x i) (tx_router x)) (\<lambda>(cmd, me).
            bindE (post_process_command cmd (tx_risk x)) (\<lambda>re.
              Inr (x\<lparr>tx_commands := (tx_commands x)(i := cmd), tx_risk := re, tx_router := me\<rparr>))) of
        Inl e \<Rightarrow> (x, Inl e)
      | Inr x1 \<Rightarrow> (x1, Inr False))"

definition run_grouped ::
  "('b, 'q) core_env \<Rightarrow> (symbol_spec \<Rightarrow> 'b) \<Rightarrow> 'b order_book_ops \<Rightarrow> (int \<Rightarrow> order_command) \<Rightarrow> int list
     \<Rightarrow> risk_engine \<Rightarrow> 'b matching_router \<Rightarrow> (int \<times> two_step \<times> 'b two_step_exchange) option" where
  "run_grouped env factory ops ring rounds re me =
     master_batches ring (first_handler env) (second_handler env factory ops) rounds 0 (start_two_step (-1))
       \<lparr>tx_commands = ring, tx_risk = re, tx_router = me\<rparr>"

text \<open>A command that has passed R1 and waits for matching, and what it holds.\<close>

definition trading :: "order_command \<Rightarrow> bool" where
  "trading cmd \<longleftrightarrow> cmd_command cmd \<in> {MOVE_ORDER, CANCEL_ORDER, PLACE_ORDER, REDUCE_ORDER, ORDER_BOOK_REQUEST}"

definition waiting_command :: "(int, symbol_spec) umap \<Rightarrow> order_command \<Rightarrow> bool" where
  "waiting_command specs cmd \<longleftrightarrow> fresh_command cmd \<and> trading cmd \<and>
     (cmd_command cmd = PLACE_ORDER \<and> cmd_resultCode cmd = VALID_FOR_MATCHING_ENGINE \<longrightarrow>
       (\<exists>sp h. um_find specs (cmd_symbol cmd) = Some sp \<and> order_hold cmd sp = Inr h))"

definition waiting_hold :: "(int, symbol_spec) umap \<Rightarrow> int \<Rightarrow> order_command \<Rightarrow> int" where
  "waiting_hold specs c cmd = (case um_find specs (cmd_symbol cmd) of None \<Rightarrow> 0 | Some sp \<Rightarrow> accepted_hold cmd sp c)"

text \<open>With the holds of the waiting commands the balance is what it was.\<close>

definition grouped_ok ::
  "('b \<Rightarrow> bool) \<Rightarrow> ('b \<Rightarrow> flat_book) \<Rightarrow> ('b \<Rightarrow> symbol_spec) \<Rightarrow> (int \<Rightarrow> order_command) \<Rightarrow> (int, symbol_spec) umap \<Rightarrow> (int \<Rightarrow> int)
     \<Rightarrow> int \<Rightarrow> int \<Rightarrow> 'b two_step_exchange \<Rightarrow> bool" where
  "grouped_ok valid abstr spec ring specs sums n k x \<longleftrightarrow> 0 \<le> n \<and>
     core_ok valid spec (tx_risk x) (tx_router x) \<and> re_symbolSpecs (tx_risk x) = specs \<and>
     (\<forall>i \<ge> n. tx_commands x i = ring i) \<and> (\<forall>i \<in> {k..<n}. waiting_command specs (tx_commands x i)) \<and>
     (\<forall>c. core_balance abstr spec c (tx_risk x) (tx_router x) + (\<Sum>i \<in> {k..<n}. waiting_hold specs c (tx_commands x i)) = sums c)"

lemma atLeastLessThan_next: "k \<le> n \<Longrightarrow> {k..<n + 1} = insert n {k..<n}" for n :: int
  by auto

lemma atLeastLessThan_first: "k < n \<Longrightarrow> {k..<n} = insert k {k + 1..<n}" for n :: int
  by auto

context exchange_books
begin

lemma first_handler_ok:
  assumes x: "grouped_ok valid abstr spec ring specs sums n k x" and k: "k \<le> n"
    and cmd: "trading (ring n)" "fresh_command (ring n)"
  shows "snd (first_handler env n x) = Inr False \<and>
    grouped_ok valid abstr spec ring specs sums (n + 1) k (fst (first_handler env n x))"
proof -
  have X: "0 \<le> n" "core_ok valid spec (tx_risk x) (tx_router x)" "re_symbolSpecs (tx_risk x) = specs"
    "tx_commands x n = ring n" "\<forall>i \<ge> n. tx_commands x i = ring i"
    using x by (simp_all add: grouped_ok_def)
  obtain cmd1 re1 where pre: "pre_process_command (env_decode env) (env_decode_query env) (env_risk_report env)
      (env_risk_store env) (ring n) (tx_risk x) = Inr (False, cmd1, re1)"
    and st: "same_setup (tx_risk x) re1" and c1: "fresh_command cmd1" "cmd_command cmd1 = cmd_command (ring n)"
    and hold: "cmd_command cmd1 = PLACE_ORDER \<and> cmd_resultCode cmd1 = VALID_FOR_MATCHING_ENGINE \<longrightarrow>
      (\<exists>sp h. um_find (re_symbolSpecs re1) (cmd_symbol cmd1) = Some sp \<and> order_hold cmd1 sp = Inr h)"
    and bal: "\<And>c. risk_total c re1 = risk_total c (tx_risk x) - waiting_hold (re_symbolSpecs re1) c cmd1"
    using risk_check_balance[OF X(2) cmd(2) cmd(1)[unfolded trading_def]] unfolding waiting_hold_def by metis
  let ?x = "x\<lparr>tx_commands := (tx_commands x)(n := cmd1), tx_risk := re1\<rparr>"
  have h: "first_handler env n x = (?x, Inr False)" using pre X(4) by (simp add: first_handler_def)
  have specs: "re_symbolSpecs re1 = specs" using st X(3) by (simp add: same_setup_def)
  then have "waiting_command specs cmd1" using c1 hold cmd(1) by (simp add: waiting_command_def trading_def)
  moreover have "core_balance abstr spec c re1 (tx_router x) +
      (\<Sum>i \<in> {k..<n + 1}. waiting_hold specs c (tx_commands ?x i)) = sums c" for c
  proof -
    have "(\<Sum>i \<in> {k..<n}. waiting_hold specs c (tx_commands ?x i)) = (\<Sum>i \<in> {k..<n}. waiting_hold specs c (tx_commands x i))"
      by (rule sum.cong) auto
    moreover have "core_balance abstr spec c (tx_risk x) (tx_router x) + (\<Sum>i \<in> {k..<n}. waiting_hold specs c (tx_commands x i)) = sums c"
      using x by (simp add: grouped_ok_def)
    ultimately show ?thesis using bal[of c] specs k by (simp add: atLeastLessThan_next core_balance_def)
  qed
  ultimately have "grouped_ok valid abstr spec ring specs sums (n + 1) k ?x"
    using X core_ok_setup[OF X(2) st] specs x by (auto simp: grouped_ok_def)
  with h show ?thesis by simp
qed

lemma second_handler_ok:
  assumes x: "grouped_ok valid abstr spec ring specs sums n k x" and k: "k < n"
  shows "snd (second_handler env new_book ops k x) = Inr False \<and>
    grouped_ok valid abstr spec ring specs sums n (k + 1) (fst (second_handler env new_book ops k x))"
proof -
  let ?cmd = "tx_commands x k"
  have X: "core_ok valid spec (tx_risk x) (tx_router x)" "re_symbolSpecs (tx_risk x) = specs" "waiting_command specs ?cmd"
    using x k by (simp_all add: grouped_ok_def)
  obtain cmd' me' re' where m: "process_matching_command ops (env_node env) ?cmd (tx_router x) = Inr (cmd', me')"
    "post_process_command cmd' (tx_risk x) = Inr re'" "core_ok valid spec re' me'" "re_symbolSpecs re' = specs"
    "\<And>c. core_balance abstr spec c re' me' = core_balance abstr spec c (tx_risk x) (tx_router x) + waiting_hold specs c ?cmd"
    using matching_balance[OF X(1), of ?cmd "env_node env"] X unfolding waiting_command_def waiting_hold_def by blast
  have "process_order (env_decode env) (env_decode_query env) (env_matching_report env)
      (env_matching_store env) new_book ops (env_node env) ?cmd (tx_router x) = Inr (cmd', me')"
    using m(1) X by (auto simp: process_order_def symbol_for_this_handler_def Let_def waiting_command_def trading_def core_ok_def)
  then have h: "second_handler env new_book ops k x =
      (x\<lparr>tx_commands := (tx_commands x)(k := cmd'), tx_risk := re', tx_router := me'\<rparr>, Inr False)" (is "_ = (?x, _)")
    using m(2) by (simp add: second_handler_def)
  have "core_balance abstr spec c re' me' + (\<Sum>i \<in> {k + 1..<n}. waiting_hold specs c (tx_commands ?x i)) = sums c" for c
  proof -
    have "(\<Sum>i \<in> {k + 1..<n}. waiting_hold specs c (tx_commands ?x i)) = (\<Sum>i \<in> {k + 1..<n}. waiting_hold specs c (tx_commands x i))"
      by (rule sum.cong) auto
    moreover have "core_balance abstr spec c (tx_risk x) (tx_router x) + (\<Sum>i \<in> {k..<n}. waiting_hold specs c (tx_commands x i)) = sums c"
      using x by (simp add: grouped_ok_def)
    ultimately show ?thesis using m(5)[of c] k by (simp add: atLeastLessThan_first)
  qed
  then have "grouped_ok valid abstr spec ring specs sums n (k + 1) ?x" using x m(3,4) k by (simp add: grouped_ok_def)
  with h show ?thesis by simp
qed

lemma grouped_handlers:
  assumes "\<forall>i \<in> {0..<limit}. trading (ring i) \<and> fresh_command (ring i)"
  shows "two_step_handlers ring (first_handler env) (second_handler env new_book ops) limit
    (grouped_ok valid abstr spec ring specs sums)"
proof unfold_locales
  fix n k x
  assume x: "grouped_ok valid abstr spec ring specs sums n k x"
  then have "0 \<le> n" by (simp add: grouped_ok_def)
  then show "grouped_ok valid abstr spec ring specs sums (n + 1) k (fst (first_handler env n x))" if "k \<le> n" "n < limit"
    using first_handler_ok[OF x, where env = env] that assms by simp
  show "grouped_ok valid abstr spec ring specs sums n (k + 1) (fst (second_handler env new_book ops k x))" if "k < n"
    using second_handler_ok[OF x that] by blast
qed

lemma grouped_run_balance:
  assumes ok: "core_ok valid spec re me"
    and cmds: "\<forall>i \<in> {0..<rounds_end rounds}. trading (ring i) \<and> fresh_command (ring i)"
  shows "\<exists>st x. run_grouped env new_book ops ring rounds re me = Some (rounds_end rounds, st, x) \<and>
    ts_slaveNext st = rounds_end rounds \<and> core_ok valid spec (tx_risk x) (tx_router x) \<and>
    (\<forall>c. core_balance abstr spec c (tx_risk x) (tx_router x) = core_balance abstr spec c re me)"
proof -
  let ?ok = "grouped_ok valid abstr spec ring (re_symbolSpecs re) (\<lambda>c. core_balance abstr spec c re me)"
  let ?x = "\<lparr>tx_commands = ring, tx_risk = re, tx_router = me\<rparr>"
  note H = grouped_handlers[OF cmds, of env "re_symbolSpecs re" "\<lambda>c. core_balance abstr spec c re me"]
  have "calm (first_handler env) (rounds_end rounds) ?ok"
    unfolding calm_def
  proof (intro allI impI)
    fix n k x
    assume a: "?ok n k x \<and> k \<le> n \<and> n < rounds_end rounds"
    then have "0 \<le> n" by (simp add: grouped_ok_def)
    with a show "\<exists>b. snd (first_handler env n x) = Inr b"
      using first_handler_ok[of ring "re_symbolSpecs re" "\<lambda>c. core_balance abstr spec c re me" n k x env] cmds
      by (intro exI[of _ False]) simp
  qed
  moreover have "?ok 0 (ts_slaveNext (start_two_step (-1))) ?x" using ok by (simp add: grouped_ok_def)
  moreover have "waiting_ok ring 0 (start_two_step (-1))" using waiting_ok_start[of ring "-1"] by simp
  ultimately obtain st x where "run_grouped env new_book ops ring rounds re me = Some (rounds_end rounds, st, x)"
    "?ok (rounds_end rounds) (ts_slaveNext st) x" "ts_slaveNext st = rounds_end rounds"
    using two_step_handlers.master_batches_ok[OF H, of 0 "start_two_step (-1)" ?x rounds] rounds_end_bounds[of rounds]
    unfolding run_grouped_def rounds_end_def[symmetric] by auto
  then show ?thesis by (auto simp: grouped_ok_def)
qed

end

interpretation naive_grouped: two_step_handlers ring "first_handler env" "second_handler env new_naive_book naive_ops" limit
    "\<lambda>n k x. (\<forall>i \<in> {0..<limit}. trading (ring i) \<and> fresh_command (ring i)) \<and>
       grouped_ok nb_inv nb_abs nb_symbolSpec ring specs sums n k x" for ring env limit specs sums
  by unfold_locales (metis naive_core.grouped_handlers two_step_handlers.first_law,
    metis naive_core.grouped_handlers two_step_handlers.second_law)

text \<open>C7:
  Grouping keeps the money. From any state of the exchange that its invariant describes (one risk
  engine, one matching engine with naive books, exchange pairs only), run any fresh
  orders, cancels, moves, reduces and market data requests through the two-step processors, in any
  groups and any rounds, so that R1 may check a whole group before matching and R2 have seen its
  first command. Fresh are commands without events and market data whose orders have a positive
  size and are not bids of type \<open>IOC_BUDGET\<close>, which create money. Then no handler throws, no command is left waiting, the invariant holds, and the
  balance of every currency is what it was.
\<close>

theorem grouped_pipeline_conserves:
  assumes "core_ok nb_inv nb_symbolSpec re me"
    and "\<forall>i \<in> {0..<rounds_end rounds}. trading (ring i) \<and> fresh_command (ring i)"
  shows "\<exists>st x. run_grouped env new_naive_book naive_ops ring rounds re me = Some (rounds_end rounds, st, x) \<and>
    ts_slaveNext st = rounds_end rounds \<and> core_ok nb_inv nb_symbolSpec (tx_risk x) (tx_router x) \<and>
    (\<forall>c. core_balance nb_abs nb_symbolSpec c (tx_risk x) (tx_router x) = core_balance nb_abs nb_symbolSpec c re me)"
  by (rule naive_core.grouped_run_balance[OF assms])

definition sample_ring_order :: "int \<Rightarrow> order_command" where
  "sample_ring_order i = sample_order GTC (101 + i) 2 BID 21 1"

theorem grouped_pipeline_conserves_witness:
  "\<exists>st x. run_grouped sample_env new_naive_book naive_ops sample_ring_order [1, 2] sample_risk_engine sample_router =
      Some (3, st, x) \<and> ts_slaveNext st = 3 \<and>
    (\<forall>c. core_balance nb_abs nb_symbolSpec c (tx_risk x) (tx_router x) =
      core_balance nb_abs nb_symbolSpec c sample_risk_engine sample_router)"
proof -
  have ok: "core_ok nb_inv nb_symbolSpec sample_risk_engine sample_router"
    using sample_book_ok
    by (simp add: core_ok_def sample_risk_engine_def sample_router_def) (simp add: sample_spec_def)
  have e: "rounds_end [1, 2] = 3" by (simp add: rounds_end_def)
  have "\<forall>i \<in> {0..<rounds_end [1, 2]}. trading (sample_ring_order i) \<and> fresh_command (sample_ring_order i)"
    by (simp add: sample_ring_order_def trading_def fresh_command_def balanced_type_def sample_defs default_command_def)
  from grouped_pipeline_conserves[OF ok this, of sample_env] e show ?thesis by auto
qed

section \<open>Rounds of one command\<close>

lemma single_round:
  assumes "ts_slaveNext st = n" and "ts_lastTriggered st < n"
    and "r1 n s = (s1, Inr b)" and "r2 n s1 = (s2, Inr b')"
  shows "\<exists>st'. master_batch ring r1 r2 n False n st s = Some (st', s2) \<and> ts_slaveNext st' = n + 1 \<and> ts_lastTriggered st' < n + 1"
proof -
  have cycle: "handling_cycle r2 (n + 1) st1 s1 = Some (st1\<lparr>ts_slaveNext := n + 1, ts_slaveSequence := n\<rparr>, s2)"
    if "ts_slaveNext st1 = n" for st1
    using that assms(4) by (simp add: handling_cycle.simps)
  have idle: "handling_cycle r2 m st1 s3 = Some (st1\<lparr>ts_slaveSequence := m - 1\<rparr>, s3)" if "ts_slaveNext st1 = m" for m st1 s3
    using that by (simp add: handling_cycle.simps)
  show ?thesis
    using assms(1-3)
    by (cases "cmd_command (ring n) = SHUTDOWN_SIGNAL"; cases "cmd_eventsGroup (ring n) = ts_currentGroup st")
      (simp_all add: master_batch.simps[of ring r1 r2 n False n st s] master_batch.simps[of ring r1 r2 n True "n + 1"]
        publish_progress_def idle cycle Let_def)
qed

lemma run_command_stages:
  assumes "run_command env factory ops cmd \<lparr>ec_riskEngines = [re], ec_matchingEngines = [me]\<rparr> = Inr (cmd', ec)"
    and "tx_commands x i = cmd" and "tx_risk x = re" and "tx_router x = me"
  shows "\<exists>x1 x2 b. first_handler env i x = (x1, Inr b) \<and> second_handler env factory ops i x1 = (x2, Inr False) \<and>
    tx_commands x2 = (tx_commands x)(i := cmd') \<and> ec = \<lparr>ec_riskEngines = [tx_risk x2], ec_matchingEngines = [tx_router x2]\<rparr>"
  using assms by (fastforce simp: run_command_def bindE_eq_Inr first_handler_def second_handler_def split: prod.splits)

lemma single_rounds:
  assumes "run_commands env factory ops (map ring [a..b - 1]) \<lparr>ec_riskEngines = [tx_risk x], ec_matchingEngines = [tx_router x]\<rparr> =
      Inr (out, ec)" and "a \<le> b" and "\<forall>i \<ge> a. tx_commands x i = ring i"
    and "ts_slaveNext st = a" and "ts_lastTriggered st < a"
  shows "\<exists>st' x'. master_batches ring (first_handler env) (second_handler env factory ops) [a..b - 1] a st x = Some (b, st', x') \<and>
    ec = \<lparr>ec_riskEngines = [tx_risk x'], ec_matchingEngines = [tx_router x']\<rparr> \<and> map (tx_commands x') [a..b - 1] = out \<and>
    (\<forall>i < a. tx_commands x' i = tx_commands x i)"
  using assms
proof (induction "nat (b - a)" arbitrary: a x st out)
  case 0
  then show ?case by simp
next
  case (Suc d)
  then have ab: "a < b" "[a..b - 1] = a # [a + 1..b - 1]" by (simp_all add: upto_rec1)
  obtain cmd1 ec1 out1 where r: "run_command env factory ops (ring a)
      \<lparr>ec_riskEngines = [tx_risk x], ec_matchingEngines = [tx_router x]\<rparr> = Inr (cmd1, ec1)"
    "run_commands env factory ops (map ring [a + 1..b - 1]) ec1 = Inr (out1, ec)" "out = cmd1 # out1"
    using Suc.prems(1) ab(2) by (auto simp: bindE_eq_Inr)
  obtain x1 x2 f where h: "first_handler env a x = (x1, Inr f)" "second_handler env factory ops a x1 = (x2, Inr False)"
    "tx_commands x2 = (tx_commands x)(a := cmd1)" "ec1 = \<lparr>ec_riskEngines = [tx_risk x2], ec_matchingEngines = [tx_router x2]\<rparr>"
    using run_command_stages[OF r(1), of x a] Suc.prems(3) by blast
  obtain st1 where st1: "master_batch ring (first_handler env) (second_handler env factory ops) a False a st x = Some (st1, x2)"
    "ts_slaveNext st1 = a + 1" "ts_lastTriggered st1 < a + 1"
    using single_round[of st a "first_handler env" x x1 f "second_handler env factory ops" x2 False ring] Suc.prems(4,5) h(1,2)
    by blast
  have d: "d = nat (b - (a + 1))" using Suc.hyps(2) by linarith
  obtain st' x' where IH: "master_batches ring (first_handler env) (second_handler env factory ops) [a + 1..b - 1] (a + 1) st1 x2 =
      Some (b, st', x')" "ec = \<lparr>ec_riskEngines = [tx_risk x'], ec_matchingEngines = [tx_router x']\<rparr>"
    "map (tx_commands x') [a + 1..b - 1] = out1" "\<forall>i < a + 1. tx_commands x' i = tx_commands x2 i"
    using Suc.hyps(1)[OF d, of x2 out1 st1] Suc.prems(3) r(2) h(3,4) st1(2,3) ab(1) by auto
  have "tx_commands x' a = cmd1" using IH(4) h(3) by simp
  then show ?case using IH st1(1) ab(2) r(3) h(3) by (intro exI[of _ st'] exI[of _ x']) auto
qed

text \<open>C9:
  When every round finds one command, the two-step processors are the sequential exchange: if the
  commands pass R1, matching and R2 one after the other without an exception, the processors leave
  the same engines and the same commands.
\<close>

theorem single_rounds_sequential:
  assumes "run_commands env factory ops (map ring [0..n - 1]) \<lparr>ec_riskEngines = [re], ec_matchingEngines = [me]\<rparr> =
      Inr (out, ec)" and "0 \<le> n"
  shows "\<exists>st x. run_grouped env factory ops ring [0..n - 1] re me = Some (n, st, x) \<and>
    ec = \<lparr>ec_riskEngines = [tx_risk x], ec_matchingEngines = [tx_router x]\<rparr> \<and> map (tx_commands x) [0..n - 1] = out"
  using single_rounds[of env factory ops ring 0 n "\<lparr>tx_commands = ring, tx_risk = re, tx_router = me\<rparr>" out ec "start_two_step (-1)"] assms
  by (simp add: run_grouped_def start_two_step_def) blast

theorem single_rounds_sequential_witness:
  "\<exists>st x. run_grouped sample_env new_naive_book naive_ops (\<lambda>_. sample_order GTC 101 2 BID 21 1) [0] sample_risk_engine sample_router =
    Some (1, st, x)"
proof -
  have "case run_commands sample_env new_naive_book naive_ops [sample_order GTC 101 2 BID 21 1]
      \<lparr>ec_riskEngines = [sample_risk_engine], ec_matchingEngines = [sample_router]\<rparr> of Inl _ \<Rightarrow> False | Inr _ \<Rightarrow> True"
    by code_simp
  then obtain out ec where "run_commands sample_env new_naive_book naive_ops [sample_order GTC 101 2 BID 21 1]
      \<lparr>ec_riskEngines = [sample_risk_engine], ec_matchingEngines = [sample_router]\<rparr> = Inr (out, ec)"
    by (auto split: sum.splits)
  then show ?thesis
    using single_rounds_sequential[of sample_env new_naive_book naive_ops "\<lambda>_. sample_order GTC 101 2 BID 21 1" 1
        sample_risk_engine sample_router out ec] by (fastforce simp del: run_commands.simps)
qed

end
