(* ===== verification/Two_Step_Calls.thy ===== *)
theory Two_Step_Calls
  imports Two_Step_Correct
begin

text \<open>
  The exact sequence of calls that the two-step processors make. It is determined by the groups
  of the commands and by the rounds, that is, by how many commands the master finds available at a
  time; the second is a matter of timing, and an example shows that results depend on it.
\<close>

section \<open>Segments\<close>

text \<open>
  The commands of a round are cut where the group changes and after a shutdown signal.
\<close>

definition ends_segment :: "(int \<Rightarrow> order_command) \<Rightarrow> int \<Rightarrow> bool" where
  "ends_segment ring i \<longleftrightarrow> cmd_command (ring i) = SHUTDOWN_SIGNAL"

fun segments :: "(int \<Rightarrow> order_command) \<Rightarrow> int list \<Rightarrow> int list list" where
  "segments ring [] = []"
| "segments ring (i # is) =
     (case segments ring is of
        [] \<Rightarrow> [[i]]
      | seg # segs \<Rightarrow>
          if ends_segment ring i \<or> cmd_eventsGroup (ring (hd seg)) \<noteq> cmd_eventsGroup (ring i) then [i] # seg # segs
          else (i # seg) # segs)"

definition segment_calls :: "int list \<Rightarrow> stage_call list" where
  "segment_calls seg = map First_Call seg @ map Second_Call seg"

fun round_calls :: "(int \<Rightarrow> order_command) \<Rightarrow> int \<Rightarrow> int list \<Rightarrow> stage_call list" where
  "round_calls ring start [] = []"
| "round_calls ring start (available # rounds) =
     (if start \<le> available
      then concat (map segment_calls (segments ring [start..available])) @ round_calls ring (available + 1) rounds
      else round_calls ring start rounds)"

text \<open>Commands of one group, without a shutdown signal before the last of them.\<close>

definition one_segment :: "(int \<Rightarrow> order_command) \<Rightarrow> int list \<Rightarrow> bool" where
  "one_segment ring is \<longleftrightarrow> (\<forall>i \<in> set is. cmd_eventsGroup (ring i) = cmd_eventsGroup (ring (hd is))) \<and>
     (\<forall>i \<in> set (butlast is). \<not> ends_segment ring i)"

lemma segments_hd: "\<exists>seg segs. segments ring (i # is) = (i # seg) # segs"
  by (cases "segments ring is") auto

lemma segments_cut:
  assumes "qs \<noteq> []" and "one_segment ring qs"
    and "is \<noteq> [] \<Longrightarrow> ends_segment ring (last qs) \<or> cmd_eventsGroup (ring (hd is)) \<noteq> cmd_eventsGroup (ring (hd qs))"
  shows "segments ring (qs @ is) = qs # segments ring is"
  using assms
proof (induction qs)
  case (Cons q qs)
  show ?case
  proof (cases qs)
    case Nil
    show ?thesis
    proof (cases "is")
      case (Cons i "is'")
      then show ?thesis using segments_hd[of ring i "is'"] Cons.prems(3) Nil by (auto simp del: segments.simps(2) simp: segments.simps(2)[of ring q])
    qed (simp add: Nil)
  next
    case (Cons q' qs')
    have group: "cmd_eventsGroup (ring q') = cmd_eventsGroup (ring q)" "\<not> ends_segment ring q"
      using Cons.prems(2) Cons by (auto simp: one_segment_def)
    moreover have "one_segment ring qs" using Cons.prems(2) Cons group by (auto simp: one_segment_def)
    ultimately have "segments ring (qs @ is) = qs # segments ring is"
      using Cons.IH Cons.prems(3) Cons by auto
    with group Cons show ?thesis by simp
  qed
qed simp

section \<open>What a round calls\<close>

text \<open>The calls of the rest of a round, with the commands that wait for R2.\<close>

fun rest_calls :: "(int \<Rightarrow> order_command) \<Rightarrow> int list \<Rightarrow> int list \<Rightarrow> stage_call list" where
  "rest_calls ring ps [] = map Second_Call ps"
| "rest_calls ring ps (i # is) =
     (let switched = ps \<noteq> [] \<and> cmd_eventsGroup (ring (hd ps)) \<noteq> cmd_eventsGroup (ring i);
          qs = (if switched then [i] else ps @ [i])
      in (if switched then map Second_Call ps else []) @ First_Call i #
        (if ends_segment ring i then map Second_Call qs @ rest_calls ring [] is else rest_calls ring qs is))"

lemma rest_calls_segments:
  assumes "one_segment ring ps" and "ps \<noteq> [] \<Longrightarrow> \<not> ends_segment ring (last ps)"
  shows "map First_Call ps @ rest_calls ring ps is = concat (map segment_calls (segments ring (ps @ is)))"
  using assms
proof (induction "is" arbitrary: ps)
  case Nil
  then show ?case using segments_cut[of ps ring "[]"] by (cases "ps = []") (simp_all add: segment_calls_def)
next
  case (Cons i "is")
  have step: "map First_Call qs @ (if ends_segment ring i then map Second_Call qs @ rest_calls ring [] is else rest_calls ring qs is) =
      concat (map segment_calls (segments ring (qs @ is)))" if "one_segment ring qs" "qs \<noteq> []" "last qs = i" for qs
  proof (cases "ends_segment ring i")
    case True
    then have "segments ring (qs @ is) = qs # segments ring is" using that by (intro segments_cut) auto
    moreover have "rest_calls ring [] is = concat (map segment_calls (segments ring is))"
      using Cons.IH[of "[]"] by (simp add: one_segment_def)
    ultimately show ?thesis using True by (simp add: segment_calls_def[of qs])
  qed (use Cons.IH[of qs] that in simp)
  show ?case
  proof (cases "ps \<noteq> [] \<and> cmd_eventsGroup (ring (hd ps)) \<noteq> cmd_eventsGroup (ring i)")
    case True
    then have "segments ring (ps @ i # is) = ps # segments ring (i # is)" using Cons.prems by (intro segments_cut) auto
    then show ?thesis using step[of "[i]"] True
      by (cases "ends_segment ring i") (simp_all add: segment_calls_def[of ps] one_segment_def Let_def del: segments.simps)
  next
    case False
    have "set ps = insert (last ps) (set (butlast ps))" if "ps \<noteq> []"
      using arg_cong[OF append_butlast_last_id[OF that], of set] by simp
    then have "one_segment ring (ps @ [i])"
      using Cons.prems False by (cases "ps = []") (auto simp: one_segment_def)
    from step[OF this] False show ?thesis by (auto simp: Let_def)
  qed
qed

section \<open>The calls of the processors\<close>

lemma logged_cycle:
  assumes "ts_slaveNext st \<le> upTo"
  shows "\<exists>x. handling_cycle (log_call Second_Call f2 p2) upTo st log =
    Some (st\<lparr>ts_slaveNext := upTo, ts_slaveSequence := x\<rparr>, log @ map Second_Call [ts_slaveNext st..upTo - 1])"
  using assms
proof (induction "nat (upTo - ts_slaveNext st)" arbitrary: st log rule: less_induct)
  case less
  let ?k = "ts_slaveNext st" and ?r2 = "log_call Second_Call f2 p2"
  show ?case
  proof (cases "?k < upTo")
    case False
    then have "?k = upTo" using less.prems by simp
    then show ?thesis by (intro exI[of _ "upTo - 1"]) (simp add: handling_cycle.simps[of ?r2 upTo st])
  next
    case True
    define st1 where "st1 = (if ?k \<in> f2 then st\<lparr>ts_slaveSequence := ?k, ts_slaveNext := ?k + 1\<rparr>
        else st\<lparr>ts_slaveNext := ?k + 1\<rparr>)"
    have st1: "ts_slaveNext st1 = ?k + 1"
      "st1\<lparr>ts_slaveNext := upTo, ts_slaveSequence := x\<rparr> = st\<lparr>ts_slaveNext := upTo, ts_slaveSequence := x\<rparr>" for x
      by (simp_all add: st1_def)
    have "handling_cycle ?r2 upTo st log = handling_cycle ?r2 upTo st1 (log @ [Second_Call ?k])"
      using True by (simp add: handling_cycle.simps[of ?r2 upTo st] log_call_def st1_def)
    moreover have "[?k..upTo - 1] = ?k # [?k + 1..upTo - 1]" using True by (simp add: upto_rec1)
    ultimately show ?thesis
      using less.hyps[of st1 "log @ [Second_Call ?k]"] True st1 by simp
  qed
qed

lemma logged_publish:
  assumes "ts_slaveNext st \<le> n"
  shows "\<exists>x. publish_progress (log_call Second_Call f2 p2) n st log =
    Some (st\<lparr>ts_masterSequence := n - 1, ts_slaveNext := n, ts_slaveSequence := x\<rparr>,
      log @ map Second_Call [ts_slaveNext st..n - 1])"
  unfolding publish_progress_def
  using logged_cycle[of "st\<lparr>ts_masterSequence := n - 1\<rparr>" n f2 p2 log] assms by simp

text \<open>Before R1 the group is switched to that of the command.\<close>

lemma logged_switch:
  fixes ring :: "int \<Rightarrow> order_command"
  assumes "ts_slaveNext st \<le> n" and "ts_lastTriggered st < n"
  defines "switched \<equiv> cmd_eventsGroup (ring n) \<noteq> ts_currentGroup st"
  shows "\<exists>st1. (if cmd_eventsGroup (ring n) \<noteq> ts_currentGroup st
      then map_option (\<lambda>(st, s). (st\<lparr>ts_lastTriggered := n - 1, ts_currentGroup := cmd_eventsGroup (ring n)\<rparr>, s))
        (publish_progress (log_call Second_Call f2 p2) n st log) else Some (st, log)) =
      Some (st1, log @ (if switched then map Second_Call [ts_slaveNext st..n - 1] else [])) \<and>
    ts_slaveNext st1 = (if switched then n else ts_slaveNext st) \<and> ts_lastTriggered st1 < n \<and>
    ts_currentGroup st1 = cmd_eventsGroup (ring n)"
  using logged_publish[OF assms(1), of f2 p2 log] assms(1,2)
  unfolding switched_def by (cases "cmd_eventsGroup (ring n) = ts_currentGroup st") auto

lemma rest_step:
  fixes ring :: "int \<Rightarrow> order_command"
  assumes "k \<le> n" and "n \<le> available" and "\<forall>i \<in> {k..<n}. cmd_eventsGroup (ring i) = G"
  defines "switched \<equiv> cmd_eventsGroup (ring n) \<noteq> G" and "k1 \<equiv> if cmd_eventsGroup (ring n) \<noteq> G then n else k"
  shows "rest_calls ring [k..n - 1] [n..available] = (if switched then map Second_Call [k..n - 1] else []) @ First_Call n #
    (if ends_segment ring n then map Second_Call [k1..n] @ rest_calls ring [] [n + 1..available]
     else rest_calls ring [k1..n] [n + 1..available])"
proof -
  have "[n..available] = n # [n + 1..available]" using assms(2) by (simp add: upto_rec1)
  moreover have "[k..n] = [k..n - 1] @ [n]" using assms(1) by (simp add: upto_rec2)
  moreover have "cmd_eventsGroup (ring (hd [k..n - 1])) = G" if "k \<noteq> n"
    using that assms(1,3) by (subst upto_rec1) auto
  ultimately show ?thesis by (cases "k = n") (auto simp: switched_def k1_def Let_def)
qed

lemma logged_batch:
  assumes "ts_slaveNext st \<le> n" and "ts_lastTriggered st < n" and "n \<le> available + 1"
    and "started \<longrightarrow> ts_lastTriggered st < n - 1"
    and "\<forall>i \<in> {ts_slaveNext st..<n}. cmd_eventsGroup (ring i) = ts_currentGroup st"
  shows "\<exists>st'. master_batch ring (log_call First_Call {} p1) (log_call Second_Call f2 p2) available started n st log =
      Some (st', log @ (if started \<or> n \<le> available then rest_calls ring [ts_slaveNext st..n - 1] [n..available] else [])) \<and>
    (started \<or> n \<le> available \<longrightarrow> ts_slaveNext st' = available + 1) \<and> ts_lastTriggered st' < available + 1"
  using assms
proof (induction "nat (available + 1 - n)" arbitrary: started n st log rule: less_induct)
  case less
  let ?r1 = "log_call First_Call {} p1" and ?r2 = "log_call Second_Call f2 p2" and ?k = "ts_slaveNext st"
  note simps = master_batch.simps[of ring ?r1 ?r2 available started n st log]
  show ?case
  proof (cases "n \<le> available")
    case False
    then have n: "available = n - 1" using less.prems(3) by simp
    from logged_publish[OF less.prems(1), of f2 p2 log] obtain x where
      "publish_progress ?r2 n st log = Some (st\<lparr>ts_masterSequence := n - 1, ts_slaveNext := n, ts_slaveSequence := x\<rparr>,
        log @ map Second_Call [?k..n - 1])" by blast
    then show ?thesis unfolding simps using less.prems(2,4) n by (cases started) auto
  next
    case True
    define switched where "switched \<longleftrightarrow> cmd_eventsGroup (ring n) \<noteq> ts_currentGroup st"
    let ?k1 = "if switched then n else ?k"
    let ?log1 = "log @ (if switched then map Second_Call [?k..n - 1] else [])" and ?on = "\<lambda>qs. rest_calls ring qs [n + 1..available]"
    from logged_switch[OF less.prems(1,2), of ring f2 p2 log] obtain st1 where
      g: "(if cmd_eventsGroup (ring n) \<noteq> ts_currentGroup st
        then map_option (\<lambda>(st, s). (st\<lparr>ts_lastTriggered := n - 1, ts_currentGroup := cmd_eventsGroup (ring n)\<rparr>, s))
          (publish_progress ?r2 n st log) else Some (st, log)) = Some (st1, ?log1)"
      "ts_slaveNext st1 = ?k1" "ts_lastTriggered st1 < n" "ts_currentGroup st1 = cmd_eventsGroup (ring n)"
      unfolding switched_def by blast
    define st2 where "st2 = (if n \<in> p1 then st1\<lparr>ts_masterSequence := n\<rparr> else st1)"
    have st2: "ts_slaveNext st2 = ?k1" "ts_lastTriggered st2 < n" "ts_currentGroup st2 = cmd_eventsGroup (ring n)"
      using g(2,3,4) by (simp_all add: st2_def)
    have k1: "?k1 \<le> n + 1" using less.prems(1) by simp
    obtain st3 where p: "(if cmd_command (ring n) = SHUTDOWN_SIGNAL then publish_progress ?r2 (n + 1) st2 (?log1 @ [First_Call n])
          else Some (st2, ?log1 @ [First_Call n])) =
        Some (st3, ?log1 @ First_Call n # (if ends_segment ring n then map Second_Call [?k1..n] else []))"
      "ts_slaveNext st3 = (if ends_segment ring n then n + 1 else ?k1)" "ts_lastTriggered st3 < n"
      "ts_currentGroup st3 = cmd_eventsGroup (ring n)"
      using logged_publish[of st2 "n + 1" f2 p2 "?log1 @ [First_Call n]"] st2 k1
      by (cases "ends_segment ring n") (auto simp: ends_segment_def simp del: if_split)
    have "\<forall>i \<in> {ts_slaveNext st3..<n + 1}. cmd_eventsGroup (ring i) = ts_currentGroup st3"
      using less.prems(5) p(2,4) by (auto simp: switched_def le_less split: if_splits)
    then obtain st' where IH: "master_batch ring ?r1 ?r2 available True (n + 1) st3
          (?log1 @ First_Call n # (if ends_segment ring n then map Second_Call [?k1..n] else [])) =
        Some (st', (?log1 @ First_Call n # (if ends_segment ring n then map Second_Call [?k1..n] else [])) @
          ?on [ts_slaveNext st3..n])" "ts_slaveNext st' = available + 1" "ts_lastTriggered st' < available + 1"
      using less.hyps[of "n + 1" st3 True "?log1 @ First_Call n # (if ends_segment ring n then map Second_Call [?k1..n] else [])"]
        True p(2,3) less.prems(1,3) by (auto split: if_splits)
    have "master_batch ring ?r1 ?r2 available started n st log =
        Option.bind (if cmd_command (ring n) = SHUTDOWN_SIGNAL then publish_progress ?r2 (n + 1) st2 (?log1 @ [First_Call n])
          else Some (st2, ?log1 @ [First_Call n])) (\<lambda>(st3, s3). master_batch ring ?r1 ?r2 available True (n + 1) st3 s3)"
      unfolding simps g(1) st2_def by (simp only: True if_True bind.bind_lunit prod.case log_call_def empty_iff if_False sum.case Let_def)
    also have "\<dots> = master_batch ring ?r1 ?r2 available True (n + 1) st3
        (?log1 @ First_Call n # (if ends_segment ring n then map Second_Call [?k1..n] else []))"
      unfolding p(1) by simp
    finally have "master_batch ring ?r1 ?r2 available started n st log = master_batch ring ?r1 ?r2 available True (n + 1) st3
        (?log1 @ First_Call n # (if ends_segment ring n then map Second_Call [?k1..n] else []))" .
    moreover have "log @ rest_calls ring [?k..n - 1] [n..available] =
        (?log1 @ First_Call n # (if ends_segment ring n then map Second_Call [?k1..n] else [])) @ ?on [ts_slaveNext st3..n]"
      using rest_step[OF less.prems(1) True less.prems(5)] p(2) by (simp add: switched_def)
    ultimately show ?thesis using IH True by simp
  qed
qed

lemma logged_batches:
  assumes "waiting_ok ring n st" and "ts_slaveNext st = n"
  shows "\<exists>st'. master_batches ring (log_call First_Call {} p1) (log_call Second_Call f2 p2) rounds n st log =
    Some (fold max (map (\<lambda>a. a + 1) rounds) n, st', log @ round_calls ring n rounds)"
  using assms
proof (induction rounds arbitrary: n st log)
  case (Cons available rounds)
  let ?r1 = "log_call First_Call {} p1" and ?r2 = "log_call Second_Call f2 p2"
  show ?case
  proof (cases "n \<le> available")
    case False
    then have "max (available + 1) n = n" by simp
    with Cons False show ?thesis by simp
  next
    case True
    have "rest_calls ring [] [n..available] = concat (map segment_calls (segments ring [n..available]))"
      using rest_calls_segments[of ring "[]" "[n..available]"] by (simp add: one_segment_def)
    then obtain st' where b: "master_batch ring ?r1 ?r2 available False n st log =
        Some (st', log @ concat (map segment_calls (segments ring [n..available])))"
      "ts_slaveNext st' = available + 1" "ts_lastTriggered st' < available + 1"
      using logged_batch[of st n available False ring p1 f2 p2 log] Cons.prems True by (auto simp: waiting_ok_def)
    then have "waiting_ok ring (available + 1) st'" by (simp add: waiting_ok_def)
    moreover have "max (available + 1) n = available + 1" using True by simp
    ultimately show ?thesis using Cons.IH[of "available + 1" st' "log @ concat (map segment_calls (segments ring [n..available]))"] b(1,2) True by simp
  qed
qed simp

text \<open>C39:
  The exact sequence of calls, for any commands, any rounds and any exceptions of R2, as long as R1
  throws none: each round is cut into segments where the group changes and after a shutdown signal,
  and of each segment R1 handles all commands and then R2 all of them. So the end of a round
  separates commands of one group as a change of group does: the R2 of an earlier command comes
  before or after the R1 of a later one of its group depending on how many commands the master
  found available, which is a matter of timing.
\<close>

theorem calls_follow_rounds:
  "\<exists>st. master_batches ring (log_call First_Call {} p1) (log_call Second_Call f2 p2) rounds 0 (start_two_step (-1)) [] =
    Some (rounds_end rounds, st, round_calls ring 0 rounds)"
  using logged_batches[of ring 0 "start_two_step (-1)" p1 f2 p2 rounds "[]"] waiting_ok_start[of ring "-1"]
  by (simp add: rounds_end_def start_two_step_def)

section \<open>Rounds are visible\<close>

definition sample_resale :: "int \<Rightarrow> order_command" where
  "sample_resale i = (if i = 0 then sample_order IOC 201 2 BID 20 1 else sample_order GTC 202 2 ASK 25 1)"

definition result_codes :: "(int \<times> two_step \<times> 'b two_step_exchange) option \<Rightarrow> result_code list option" where
  "result_codes r = map_option (\<lambda>(n, st, x). map (\<lambda>i. cmd_resultCode (tx_commands x i)) [0..n - 1]) r"

text \<open>
  How far R1 runs ahead depends on the time. Two commands of one group, a user's purchase of a lot
  and the sale of that lot: when both are available in one round, the sale is refused for lack of
  funds, as R2 has not seen the purchase; when the round ends between them, R2 has, and the sale
  is accepted. The result of a command is not a function of the commands and their groups.
\<close>

lemma rounds_change_results:
  "cmd_eventsGroup (sample_resale 0) = cmd_eventsGroup (sample_resale 1) \<and>
   result_codes (run_grouped sample_env new_naive_book naive_ops sample_resale [1] sample_risk_engine sample_router) =
     Some [SUCCESS, RISK_NSF] \<and>
   result_codes (run_grouped sample_env new_naive_book naive_ops sample_resale [0, 1] sample_risk_engine sample_router) =
     Some [SUCCESS, SUCCESS]"
  by code_simp

end
