(* ===== verification/Grouping.thy ===== *)
theory Grouping
  imports Unsafe_Utils Samples
begin

text \<open>
  \<open>GroupingProcessor\<close>: it numbers the groups in which the two-step processors work, cleans the
  commands of earlier results and gives the event nodes back to the shared pool. The pool is the
  list of its chains; the clock is an argument.
\<close>

section \<open>The processor\<close>

record grouping_config =
  gc_msgsInGroupLimit :: int
  gc_maxGroupDurationNs :: int
  gc_chainLength :: int

record grouping =
  gp_groupCounter :: int
  gp_msgsInGroup :: int
  gp_groupLastNs :: int
  gp_l2dataLastNs :: int
  gp_triggerL2DataRequest :: bool
  gp_groupingEnabled :: bool
  gp_chain :: "trade_event list"
  gp_chainCounter :: int
  gp_pool :: "trade_event list list"

definition L2_PUBLISH_INTERVAL_NS :: int where
  "L2_PUBLISH_INTERVAL_NS = 10000000"

definition new_grouping_config :: "int \<Rightarrow> int \<Rightarrow> int \<Rightarrow> int \<Rightarrow> exn + grouping_config" where
  "new_grouping_config msgsInGroupLimit maxGroupDurationNs chainLength ringBufferSize =
     (if msgsInGroupLimit > ringBufferSize div 4
      then Inl (Invalid_Argument ''msgsInGroupLimit should be less than quarter ringBufferSize'')
      else Inr \<lparr>gc_msgsInGroupLimit = msgsInGroupLimit, gc_maxGroupDurationNs = maxGroupDurationNs,
        gc_chainLength = chainLength\<rparr>)"

definition start_grouping :: "trade_event list list \<Rightarrow> grouping" where
  "start_grouping pool = \<lparr>gp_groupCounter = 0, gp_msgsInGroup = 0, gp_groupLastNs = 0, gp_l2dataLastNs = 0,
     gp_triggerL2DataRequest = False, gp_groupingEnabled = True, gp_chain = [], gp_chainCounter = 0, gp_pool = pool\<rparr>"

definition put_chain :: "trade_event list \<Rightarrow> trade_event list list \<Rightarrow> trade_event list list" where
  "put_chain head pool = (if head = [] then pool else pool @ [head])"

definition flush_chain :: "grouping \<Rightarrow> grouping" where
  "flush_chain gp =
     (if gp_chain gp = [] then gp
      else gp\<lparr>gp_pool := put_chain (gp_chain gp) (gp_pool gp), gp_chainCounter := 0, gp_chain := []\<rparr>)"

definition new_group :: "grouping \<Rightarrow> grouping" where
  "new_group gp = (let gp1 = flush_chain gp in gp1\<lparr>gp_groupCounter := gp_groupCounter gp1 + 1, gp_msgsInGroup := 0\<rparr>)"

text \<open>Commands after which R2 must have seen everything before: they begin a group.\<close>

definition switches_group :: "order_command \<Rightarrow> bool" where
  "switches_group cmd \<longleftrightarrow> cmd_command cmd \<in> {RESET, PERSIST_STATE_MATCHING, GROUPING_CONTROL} \<or>
     (cmd_command cmd \<in> {BINARY_DATA_COMMAND, BINARY_DATA_QUERY} \<and> cmd_symbol cmd = -1)"

text \<open>The events of the command go to the local chain, which goes to the pool when it is long enough.\<close>

definition collect_events :: "grouping_config \<Rightarrow> trade_event list \<Rightarrow> grouping \<Rightarrow> grouping" where
  "collect_events cfg evs gp =
     (if evs = [] then gp
      else let gp1 = gp\<lparr>gp_chain := gp_chain gp @ evs, gp_chainCounter := gp_chainCounter gp + int (length evs)\<rparr>
           in if gp_chainCounter gp1 \<ge> gc_chainLength cfg \<and> gc_chainLength cfg > 0 then flush_chain gp1 else gp1)"

definition group_command :: "grouping_config \<Rightarrow> order_command \<Rightarrow> grouping \<Rightarrow> order_command \<times> grouping" where
  "group_command cfg cmd gp =
     (let (cmd1, gp1) =
          (if cmd_command cmd = GROUPING_CONTROL
           then (cmd\<lparr>cmd_resultCode := SUCCESS\<rparr>, gp\<lparr>gp_groupingEnabled := (cmd_orderId cmd = 1)\<rparr>) else (cmd, gp))
      in if \<not> gp_groupingEnabled gp1
         then (cmd1\<lparr>cmd_matcherEvent := [], cmd_marketData := None\<rparr>, gp1)
         else
          let gp2 = (if switches_group cmd1 then new_group gp1 else gp1);
              cmd2 = cmd1\<lparr>cmd_eventsGroup := gp_groupCounter gp2,
                cmd_serviceFlags := (if gp_triggerL2DataRequest gp2 then 1 else 0)\<rparr>;
              gp3 = collect_events cfg (cmd_matcherEvent cmd2) (gp2\<lparr>gp_triggerL2DataRequest := False\<rparr>);
              gp4 = gp3\<lparr>gp_msgsInGroup := gp_msgsInGroup gp3 + 1\<rparr>
          in (cmd2\<lparr>cmd_matcherEvent := [], cmd_marketData := None\<rparr>,
              if gp_msgsInGroup gp4 \<ge> gc_msgsInGroupLimit cfg \<and> cmd_command cmd2 \<noteq> PERSIST_STATE_RISK
              then new_group gp4 else gp4))"

text \<open>A round with messages, and one without.\<close>

fun group_batch :: "grouping_config \<Rightarrow> order_command list \<Rightarrow> grouping \<Rightarrow> order_command list \<times> grouping" where
  "group_batch cfg [] gp = ([], gp)"
| "group_batch cfg (cmd # cmds) gp =
     (let (cmd1, gp1) = group_command cfg cmd gp; (cmds1, gp2) = group_batch cfg cmds gp1 in (cmd1 # cmds1, gp2))"

definition batch_done :: "grouping_config \<Rightarrow> int \<Rightarrow> grouping \<Rightarrow> grouping" where
  "batch_done cfg now gp = gp\<lparr>gp_groupLastNs := now + gc_maxGroupDurationNs cfg\<rparr>"

definition idle_round :: "int \<Rightarrow> grouping \<Rightarrow> grouping" where
  "idle_round now gp =
     (let gp1 = (if gp_msgsInGroup gp > 0 \<and> now > gp_groupLastNs gp then new_group gp else gp)
      in if now > gp_l2dataLastNs gp1
         then gp1\<lparr>gp_l2dataLastNs := now + L2_PUBLISH_INTERVAL_NS, gp_triggerL2DataRequest := True\<rparr> else gp1)"

text \<open>When the processor is halted it gives the rest of its chain back.\<close>

definition halt_grouping :: "grouping \<Rightarrow> grouping" where
  "halt_grouping gp = flush_chain gp"

text \<open>
  The loop: rounds in any order, at any times. The relation keeps the commands that came in and
  those that were handed on.
\<close>

inductive grouping_run :: "grouping_config \<Rightarrow> grouping \<Rightarrow> order_command list \<Rightarrow> order_command list \<Rightarrow> grouping \<Rightarrow> bool" for cfg gp0 where
  run_begin: "grouping_run cfg gp0 [] [] gp0"
| run_batch: "\<lbrakk>grouping_run cfg gp0 ins outs gp; group_batch cfg cmds gp = (cmds', gp')\<rbrakk> \<Longrightarrow>
    grouping_run cfg gp0 (ins @ cmds) (outs @ cmds') (batch_done cfg now gp')"
| run_idle: "grouping_run cfg gp0 ins outs gp \<Longrightarrow> grouping_run cfg gp0 ins outs (idle_round now gp)"

section \<open>Events\<close>

text \<open>The nodes that are recycled: those of the commands that come while grouping is enabled.\<close>

fun recycled_events :: "bool \<Rightarrow> order_command list \<Rightarrow> trade_event list" where
  "recycled_events enabled [] = []"
| "recycled_events enabled (cmd # cmds) =
     (let enabled1 = (if cmd_command cmd = GROUPING_CONTROL then cmd_orderId cmd = 1 else enabled)
      in (if enabled1 then cmd_matcherEvent cmd else []) @ recycled_events enabled1 cmds)"

definition enabled_after :: "bool \<Rightarrow> order_command list \<Rightarrow> bool" where
  "enabled_after enabled cmds = fold (\<lambda>cmd b. if cmd_command cmd = GROUPING_CONTROL then cmd_orderId cmd = 1 else b) cmds enabled"

lemma recycled_append:
  "recycled_events b (xs @ ys) = recycled_events b xs @ recycled_events (enabled_after b xs) ys"
  "enabled_after b (xs @ ys) = enabled_after (enabled_after b xs) ys"
  "enabled_after b [] = b"
  by (induction xs arbitrary: b) (simp_all add: enabled_after_def Let_def)

abbreviation all_nodes :: "grouping \<Rightarrow> trade_event list" where
  "all_nodes gp \<equiv> concat (gp_pool gp) @ gp_chain gp"

lemma flush_chain_simps [simp]:
  "all_nodes (flush_chain gp) = all_nodes gp" "gp_groupingEnabled (flush_chain gp) = gp_groupingEnabled gp"
  "gp_groupCounter (flush_chain gp) = gp_groupCounter gp" "gp_msgsInGroup (flush_chain gp) = gp_msgsInGroup gp"
  "gp_triggerL2DataRequest (flush_chain gp) = gp_triggerL2DataRequest gp"
  by (simp_all add: flush_chain_def put_chain_def)

lemma new_group_simps [simp]:
  "all_nodes (new_group gp) = all_nodes gp" "gp_groupingEnabled (new_group gp) = gp_groupingEnabled gp"
  "gp_groupCounter (new_group gp) = gp_groupCounter gp + 1" "gp_msgsInGroup (new_group gp) = 0"
  "gp_triggerL2DataRequest (new_group gp) = gp_triggerL2DataRequest gp"
  using flush_chain_simps(1)[of gp] by (simp_all add: new_group_def Let_def)

lemma collect_events_simps [simp]:
  "all_nodes (collect_events cfg evs gp) = all_nodes gp @ evs"
  "gp_groupingEnabled (collect_events cfg evs gp) = gp_groupingEnabled gp"
  "gp_groupCounter (collect_events cfg evs gp) = gp_groupCounter gp"
  "gp_msgsInGroup (collect_events cfg evs gp) = gp_msgsInGroup gp"
  by (simp_all add: collect_events_def Let_def)

lemma group_command_events:
  assumes "group_command cfg cmd gp = (cmd', gp')"
  shows "all_nodes gp' = all_nodes gp @ recycled_events (gp_groupingEnabled gp) [cmd]"
    and "gp_groupingEnabled gp' = enabled_after (gp_groupingEnabled gp) [cmd]"
  using assms new_group_simps(1,2)
  by (auto simp: group_command_def Let_def enabled_after_def simp del: new_group_simps(1) split: if_splits)

lemma group_batch_events:
  "group_batch cfg cmds gp = (cmds', gp') \<Longrightarrow>
   all_nodes gp' = all_nodes gp @ recycled_events (gp_groupingEnabled gp) cmds \<and>
   gp_groupingEnabled gp' = enabled_after (gp_groupingEnabled gp) cmds"
proof (induction cmds arbitrary: gp cmds')
  case (Cons cmd cmds)
  obtain cmd1 gp1 cmds1 where g: "group_command cfg cmd gp = (cmd1, gp1)" "group_batch cfg cmds gp1 = (cmds1, gp')"
    using Cons.prems by (auto simp: Let_def split: prod.splits)
  with Cons.IH[OF g(2)] group_command_events[OF g(1)] show ?case
    using recycled_append(1,2)[of "gp_groupingEnabled gp" "[cmd]" cmds] by simp
qed (simp add: enabled_after_def)

lemma rounds_keep [simp]:
  "all_nodes (batch_done cfg now gp) = all_nodes gp" "all_nodes (idle_round now gp) = all_nodes gp"
  "gp_groupingEnabled (batch_done cfg now gp) = gp_groupingEnabled gp" "gp_groupingEnabled (idle_round now gp) = gp_groupingEnabled gp"
  using new_group_simps(1)[of gp] by (simp_all add: batch_done_def idle_round_def Let_def)

section \<open>Groups\<close>

text \<open>
  What a command is before and after the processor, apart from the fields that the pipeline fills
  and the group.
\<close>

definition cleaned :: "order_command \<Rightarrow> order_command \<Rightarrow> bool" where
  "cleaned cmd cmd' \<longleftrightarrow> cmd'\<lparr>cmd_eventsGroup := 0, cmd_serviceFlags := 0, cmd_resultCode := NEW\<rparr> =
     cmd\<lparr>cmd_eventsGroup := 0, cmd_serviceFlags := 0, cmd_resultCode := NEW, cmd_matcherEvent := [], cmd_marketData := None\<rparr>"

lemma cleaned_fields:
  assumes "cleaned cmd cmd'"
  shows "cmd_command cmd' = cmd_command cmd" "cmd_matcherEvent cmd' = []" "cmd_marketData cmd' = None"
  using assms by (cases cmd; cases cmd'; simp add: cleaned_def)+

lemma group_command_cleaned: "cleaned cmd (fst (group_command cfg cmd gp))"
  by (cases cmd) (simp add: group_command_def cleaned_def Let_def)

definition group_size :: "int \<Rightarrow> order_command list \<Rightarrow> nat" where
  "group_size g cmds = length (filter (\<lambda>cmd. cmd_eventsGroup cmd = g \<and> cmd_command cmd \<noteq> PERSIST_STATE_RISK) cmds)"

lemma group_size_simps [simp]:
  "group_size g [] = 0"
  "group_size g (xs @ [cmd]) = group_size g xs + (if cmd_eventsGroup cmd = g \<and> cmd_command cmd \<noteq> PERSIST_STATE_RISK then 1 else 0)"
  by (simp_all add: group_size_def)

text \<open>A command comes in its own group or a later one than those before, a switching one in a later one.\<close>

definition group_step :: "order_command \<Rightarrow> order_command \<Rightarrow> bool" where
  "group_step a b \<longleftrightarrow> cmd_eventsGroup a \<le> cmd_eventsGroup b \<and> (switches_group b \<longrightarrow> cmd_eventsGroup a < cmd_eventsGroup b)"

definition groups_ok :: "grouping_config \<Rightarrow> order_command list \<Rightarrow> grouping \<Rightarrow> bool" where
  "groups_ok cfg outs gp \<longleftrightarrow> gp_groupingEnabled gp \<and> sorted_wrt group_step outs \<and>
     (\<forall>cmd \<in> set outs. cmd_eventsGroup cmd \<le> gp_groupCounter gp) \<and>
     (\<forall>g. int (group_size g outs) \<le> gc_msgsInGroupLimit cfg) \<and>
     int (group_size (gp_groupCounter gp) outs) \<le> gp_msgsInGroup gp \<and>
     int (group_size (gp_groupCounter gp) outs) < gc_msgsInGroupLimit cfg"

lemma group_size_fresh: "\<forall>cmd \<in> set outs. cmd_eventsGroup cmd \<le> n \<Longrightarrow> n < g \<Longrightarrow> group_size g outs = 0"
  by (auto simp: group_size_def filter_empty_conv)

lemma new_group_groups:
  assumes "groups_ok cfg outs gp" and "1 \<le> gc_msgsInGroupLimit cfg"
  shows "groups_ok cfg outs (new_group gp)"
  using assms group_size_fresh[of outs "gp_groupCounter gp" "gp_groupCounter gp + 1"]
  by (auto simp: groups_ok_def)

definition always_on :: "order_command \<Rightarrow> bool" where
  "always_on cmd \<longleftrightarrow> (cmd_command cmd = GROUPING_CONTROL \<longrightarrow> cmd_orderId cmd = 1)"

lemma group_command_groups:
  assumes ok: "groups_ok cfg outs gp" and on: "always_on cmd" and limit: "1 \<le> gc_msgsInGroupLimit cfg"
    and g: "group_command cfg cmd gp = (cmd', gp')"
  shows "groups_ok cfg (outs @ [cmd']) gp'"
proof -
  define gp1 where "gp1 = (if cmd_command cmd = GROUPING_CONTROL then gp\<lparr>gp_groupingEnabled := True\<rparr> else gp)"
  define gp2 where "gp2 = (if switches_group cmd then new_group gp1 else gp1)"
  have "gp1 = gp" using ok by (auto simp: gp1_def groups_ok_def)
  then have ok2: "groups_ok cfg outs gp2" using new_group_groups[OF ok limit] ok by (simp add: gp2_def)
  have sw: "switches_group (cmd\<lparr>cmd_resultCode := x\<rparr>) = switches_group cmd" for x by (simp add: switches_group_def)
  define gp4 where "gp4 = (let gp3 = collect_events cfg (cmd_matcherEvent cmd) (gp2\<lparr>gp_triggerL2DataRequest := False\<rparr>)
    in gp3\<lparr>gp_msgsInGroup := gp_msgsInGroup gp3 + 1\<rparr>)"
  have c: "cmd_eventsGroup cmd' = gp_groupCounter gp2" "cmd_command cmd' = cmd_command cmd" "switches_group cmd' = switches_group cmd"
    and g': "gp' = (if gp_msgsInGroup gp4 \<ge> gc_msgsInGroupLimit cfg \<and> cmd_command cmd \<noteq> PERSIST_STATE_RISK then new_group gp4 else gp4)"
    using g on ok
    by (auto simp: group_command_def Let_def sw gp1_def gp2_def gp4_def always_on_def groups_ok_def switches_group_def split: if_splits)
  have gp4: "gp_groupingEnabled gp4 = gp_groupingEnabled gp2" "gp_groupCounter gp4 = gp_groupCounter gp2"
    "gp_msgsInGroup gp4 = gp_msgsInGroup gp2 + 1"
    by (simp_all add: gp4_def Let_def)
  have step: "group_step a cmd'" if "a \<in> set outs" for a
    using that ok ok2 \<open>gp1 = gp\<close> c by (auto simp: group_step_def groups_ok_def gp2_def)
  show ?thesis
  proof (cases "gp_msgsInGroup gp4 \<ge> gc_msgsInGroupLimit cfg \<and> cmd_command cmd \<noteq> PERSIST_STATE_RISK")
    case False
    then show ?thesis using ok2 step c gp4 g'
      by (auto simp: groups_ok_def sorted_wrt_append)
  next
    case True
    have "group_size (gp_groupCounter gp2 + 1) (outs @ [cmd']) = 0"
      by (rule group_size_fresh[of _ "gp_groupCounter gp2"]) (use ok2 c in \<open>auto simp: groups_ok_def\<close>)
    with True show ?thesis using ok2 step c gp4 g' limit
      by (auto simp: groups_ok_def sorted_wrt_append simp del: group_size_simps(2)) (auto simp: group_size_simps(2))
  qed
qed

lemma group_batch_groups:
  "groups_ok cfg outs gp \<Longrightarrow> \<forall>cmd \<in> set cmds. always_on cmd \<Longrightarrow> 1 \<le> gc_msgsInGroupLimit cfg \<Longrightarrow>
   group_batch cfg cmds gp = (cmds', gp') \<Longrightarrow> groups_ok cfg (outs @ cmds') gp'"
proof (induction cmds arbitrary: outs gp cmds')
  case (Cons cmd cmds)
  obtain cmd1 gp1 cmds1 where g: "group_command cfg cmd gp = (cmd1, gp1)" "group_batch cfg cmds gp1 = (cmds1, gp')" "cmds' = cmd1 # cmds1"
    using Cons.prems(4) by (auto simp: Let_def split: prod.splits)
  have "groups_ok cfg (outs @ [cmd1]) gp1" using group_command_groups[OF Cons.prems(1) _ Cons.prems(3) g(1)] Cons.prems(2) by simp
  from Cons.IH[OF this _ Cons.prems(3) g(2)] Cons.prems(2) g(3) show ?case by simp
qed simp

lemma group_batch_cleaned: "group_batch cfg cmds gp = (cmds', gp') \<Longrightarrow> list_all2 cleaned cmds cmds'"
proof (induction cmds arbitrary: gp cmds')
  case (Cons cmd cmds)
  obtain cmd1 gp1 cmds1 where g: "group_command cfg cmd gp = (cmd1, gp1)" "group_batch cfg cmds gp1 = (cmds1, gp')" "cmds' = cmd1 # cmds1"
    using Cons.prems by (auto simp: Let_def split: prod.splits)
  with group_command_cleaned[of cmd cfg gp] Cons.IH show ?case by simp
qed simp

lemma idle_round_groups:
  assumes "groups_ok cfg outs gp" and "1 \<le> gc_msgsInGroupLimit cfg"
  shows "groups_ok cfg outs (idle_round now gp)"
  using assms(1) new_group_groups[OF assms] by (simp add: idle_round_def Let_def groups_ok_def)

section \<open>Properties\<close>

text \<open>C10:
  No event node is lost or given back twice. Whatever commands come in whatever rounds, the nodes
  in the shared pool and in the local chain are, in order, those that were in the pool at the
  start followed by the nodes of the commands that came while grouping was enabled; when the
  processor is halted, all of them are in the pool. And every
  command is handed on without events and market data, and otherwise as it came, but for its group,
  service flags and result code.
\<close>

theorem grouping_recycles_events:
  assumes "grouping_run cfg (start_grouping pool) ins outs gp"
  shows "concat (gp_pool gp) @ gp_chain gp = concat pool @ recycled_events True ins \<and>
    concat (gp_pool (halt_grouping gp)) = concat pool @ recycled_events True ins \<and> list_all2 cleaned ins outs"
proof -
  have "all_nodes gp = all_nodes (start_grouping pool) @ recycled_events True ins \<and>
      gp_groupingEnabled gp = enabled_after True ins \<and> list_all2 cleaned ins outs"
    using assms
  proof (induction rule: grouping_run.induct)
    case run_begin
    show ?case by (simp add: start_grouping_def recycled_append)
  next
    case (run_batch ins outs gp cmds cmds' gp' now)
    with group_batch_events[OF run_batch.hyps(2)] group_batch_cleaned[OF run_batch.hyps(2)] show ?case
      by (simp add: recycled_append list_all2_appendI)
  qed simp
  moreover have "gp_chain (flush_chain gp) = []" by (simp add: flush_chain_def)
  ultimately show ?thesis using flush_chain_simps(1)[of gp] by (simp add: start_grouping_def halt_grouping_def)
qed

definition sample_grouping :: grouping_config where
  "sample_grouping = \<lparr>gc_msgsInGroupLimit = 2, gc_maxGroupDurationNs = 10000, gc_chainLength = 4\<rparr>"

theorem grouping_recycles_events_witness:
  "\<exists>outs gp. grouping_run sample_grouping (start_grouping [[default_event]])
      [sample_user 1, (sample_user 2)\<lparr>cmd_matcherEvent := [default_event, default_event]\<rparr>] outs gp \<and>
    concat (gp_pool gp) @ gp_chain gp = [default_event, default_event, default_event]"
proof -
  let ?cmds = "[sample_user 1, (sample_user 2)\<lparr>cmd_matcherEvent := [default_event, default_event]\<rparr>]"
  obtain cmds' gp' where g: "group_batch sample_grouping ?cmds (start_grouping [[default_event]]) = (cmds', gp')" by fastforce
  have r: "grouping_run sample_grouping (start_grouping [[default_event]]) ([] @ ?cmds) ([] @ cmds') (batch_done sample_grouping 0 gp')"
    by (rule run_batch[OF run_begin g])
  from grouping_recycles_events[OF r] r show ?thesis
    by (intro exI[of _ cmds'] exI[of _ "batch_done sample_grouping 0 gp'"])
      (simp add: sample_user_def default_command_def)
qed

text \<open>C11:
  Groups are what R2 needs. As long as no command switches grouping off, and with a limit of at
  least one, in any rounds and at any times, the group numbers of the commands never decrease; a
  \<open>RESET\<close>, \<open>PERSIST_STATE_MATCHING\<close> or \<open>GROUPING_CONTROL\<close> and the last frame of a binary message or
  query is in a later group than everything before it; and no group has more than the limit of
  commands other than \<open>PERSIST_STATE_RISK\<close>, which neither starts a group nor counts. While grouping
  is off commands keep the group numbers they had in their slots, and none of this holds.
\<close>

theorem groups_ordered_and_bounded:
  assumes "grouping_run cfg (start_grouping pool) ins outs gp" and "\<forall>cmd \<in> set ins. always_on cmd"
    and "1 \<le> gc_msgsInGroupLimit cfg"
  shows "sorted_wrt group_step outs \<and> (\<forall>g. int (group_size g outs) \<le> gc_msgsInGroupLimit cfg)"
proof -
  have "groups_ok cfg outs gp"
    using assms(1,2)
  proof (induction rule: grouping_run.induct)
    case run_begin
    show ?case using assms(3) by (simp add: groups_ok_def start_grouping_def)
  next
    case (run_batch ins outs gp cmds cmds' gp' now)
    then have "groups_ok cfg (outs @ cmds') gp'" using group_batch_groups[OF _ _ assms(3) run_batch.hyps(2)] by simp
    then show ?case by (simp add: groups_ok_def batch_done_def)
  next
    case run_idle
    then show ?case using idle_round_groups[OF _ assms(3)] by simp
  qed
  then show ?thesis by (simp add: groups_ok_def)
qed

theorem groups_ordered_and_bounded_witness:
  "\<exists>outs gp. grouping_run sample_grouping (start_grouping []) [sample_user 1, sample_user 2, sample_user 3] outs gp \<and>
    sorted_wrt group_step outs \<and> (\<forall>g. group_size g outs \<le> 2)"
proof -
  let ?cmds = "[sample_user 1, sample_user 2, sample_user 3]"
  obtain cmds' gp' where g: "group_batch sample_grouping ?cmds (start_grouping []) = (cmds', gp')" by fastforce
  have r: "grouping_run sample_grouping (start_grouping []) ([] @ ?cmds) ([] @ cmds') (batch_done sample_grouping 0 gp')"
    by (rule run_batch[OF run_begin g])
  have "\<forall>cmd \<in> set ([] @ ?cmds). always_on cmd" by (simp add: always_on_def sample_user_def)
  from groups_ordered_and_bounded[OF r this] r show ?thesis
    by (intro exI[of _ cmds'] exI[of _ "batch_done sample_grouping 0 gp'"]) (simp add: sample_grouping_def)
qed

end
