(* ===== verification/Event_Handlers.thy ===== *)
theory Event_Handlers
  imports Exchange_Api
begin

text \<open>
  \<open>SimpleEventsProcessor\<close> and \<open>ResultsHandler\<close>: the processed command becomes calls of the
  client's \<open>IEventsHandler\<close>, here the list of the calls with their arguments.
\<close>

section \<open>Calls\<close>

datatype reported_command = Reported api_request | Reported_Binary_Data int

record trade_report =
  tr_makerOrderId :: int
  tr_makerUid :: int
  tr_makerOrderCompleted :: bool
  tr_price :: int
  tr_volume :: int

datatype handler_call =
    Command_Result reported_command int result_code int
  | Trade_Event int int int int order_action bool int "trade_report list"
  | Reject_Event int int int int int int
  | Reduce_Event int int bool int int int int
  | Order_Book int "(int \<times> int \<times> int) list" "(int \<times> int \<times> int) list" int

section \<open>The processor\<close>

definition reported_command_of :: "order_command \<Rightarrow> reported_command option" where
  "reported_command_of cmd = (case cmd_command cmd of
     PLACE_ORDER \<Rightarrow> Some (Reported (Api_Place_Order (cmd_price cmd) (cmd_size cmd) (cmd_orderId cmd) (cmd_action cmd)
       (cmd_orderType cmd) (cmd_uid cmd) (cmd_symbol cmd) (cmd_userCookie cmd) (cmd_reserveBidPrice cmd)))
   | MOVE_ORDER \<Rightarrow> Some (Reported (Api_Move_Order (cmd_orderId cmd) (cmd_price cmd) (cmd_uid cmd) (cmd_symbol cmd)))
   | CANCEL_ORDER \<Rightarrow> Some (Reported (Api_Cancel_Order (cmd_orderId cmd) (cmd_uid cmd) (cmd_symbol cmd)))
   | REDUCE_ORDER \<Rightarrow> Some (Reported (Api_Reduce_Order (cmd_orderId cmd) (cmd_uid cmd) (cmd_symbol cmd) (cmd_size cmd)))
   | ADD_USER \<Rightarrow> Some (Reported (Api_Add_User (cmd_uid cmd)))
   | BALANCE_ADJUSTMENT \<Rightarrow> Some (Reported (Api_Adjust_User_Balance (cmd_uid cmd) (cmd_symbol cmd) (cmd_price cmd)
       (cmd_orderId cmd) ADJUSTMENT))
   | BINARY_DATA_COMMAND \<Rightarrow> (if cmd_resultCode cmd \<noteq> ACCEPTED then Some (Reported_Binary_Data (cmd_userCookie cmd)) else None)
   | ORDER_BOOK_REQUEST \<Rightarrow> Some (Reported (Api_Order_Book_Request (cmd_symbol cmd) (signed_take_bit 31 (cmd_size cmd))))
   | _ \<Rightarrow> None)"

definition send_command_result :: "order_command \<Rightarrow> int \<Rightarrow> handler_call list" where
  "send_command_result cmd seq =
     (case reported_command_of cmd of None \<Rightarrow> []
      | Some apiCmd \<Rightarrow> [Command_Result apiCmd (cmd_timestamp cmd) (cmd_resultCode cmd) seq])"

definition trade_of :: "trade_event \<Rightarrow> trade_report" where
  "trade_of e = \<lparr>tr_makerOrderId = ev_matchedOrderId e, tr_makerUid = ev_matchedOrderUid e,
     tr_makerOrderCompleted = ev_matchedOrderCompleted e, tr_price = ev_price e, tr_volume = ev_size e\<rparr>"

text \<open>The loop over the chain: completed, total volume, trades and the last rejection.\<close>

definition trade_event_step ::
  "order_command \<Rightarrow> trade_event \<Rightarrow> bool \<times> int \<times> trade_report list \<times> handler_call option
     \<Rightarrow> bool \<times> int \<times> trade_report list \<times> handler_call option" where
  "trade_event_step cmd e st = (case st of (completed, totalVolume, trades, rejectEvent) \<Rightarrow>
     if ev_eventType e = TRADE
     then (completed \<or> ev_activeOrderCompleted e, totalVolume + ev_size e, trades @ [trade_of e], rejectEvent)
     else if ev_eventType e = REJECT
     then (completed, totalVolume, trades, Some (Reject_Event (cmd_symbol cmd) (ev_size e) (ev_price e)
       (cmd_orderId cmd) (cmd_uid cmd) (cmd_timestamp cmd)))
     else st)"

definition send_trade_event_call :: "order_command \<Rightarrow> handler_call list" where
  "send_trade_event_call cmd =
     (case fold (trade_event_step cmd) (cmd_matcherEvent cmd) (False, 0, [], None) of
        (completed, totalVolume, trades, rejectEvent) \<Rightarrow>
          (if trades = [] then []
           else [Trade_Event (cmd_symbol cmd) totalVolume (cmd_orderId cmd) (cmd_uid cmd) (cmd_action cmd) completed
                   (cmd_timestamp cmd) trades]) @
          (case rejectEvent of None \<Rightarrow> [] | Some r \<Rightarrow> [r]))"

definition send_trade_events :: "order_command \<Rightarrow> handler_call list \<times> (exn + unit)" where
  "send_trade_events cmd = (case cmd_matcherEvent cmd of
     [] \<Rightarrow> ([], Inr ())
   | e # es \<Rightarrow>
       if ev_eventType e = REDUCE
       then ([Reduce_Event (cmd_symbol cmd) (ev_size e) (ev_activeOrderCompleted e) (ev_price e) (cmd_orderId cmd)
                (cmd_uid cmd) (cmd_timestamp cmd)],
             if es \<noteq> [] then Inl (Runtime_Error ''Only single REDUCE event is expected'') else Inr ())
       else (send_trade_event_call cmd, Inr ()))"

definition order_book_records :: "int \<Rightarrow> int list \<Rightarrow> int list \<Rightarrow> int list \<Rightarrow> (int \<times> int \<times> int) list" where
  "order_book_records n prices volumes orders = map (\<lambda>i. (prices ! i, volumes ! i, signed_take_bit 31 (orders ! i))) [0..<nat n]"

definition send_market_data :: "order_command \<Rightarrow> handler_call list" where
  "send_market_data cmd = (case cmd_marketData cmd of None \<Rightarrow> []
     | Some md \<Rightarrow> [Order_Book (cmd_symbol cmd)
         (order_book_records (l2_askSize md) (l2_askPrices md) (l2_askVolumes md) (l2_askOrders md))
         (order_book_records (l2_bidSize md) (l2_bidPrices md) (l2_bidVolumes md) (l2_bidOrders md)) (cmd_timestamp cmd)])"

text \<open>\<open>Accept\<close> swallows the exception, and with it the market data.\<close>

definition accept_result :: "order_command \<Rightarrow> int \<Rightarrow> handler_call list" where
  "accept_result cmd seq =
     (case send_trade_events cmd of
        (calls, Inl _) \<Rightarrow> send_command_result cmd seq @ calls
      | (calls, Inr _) \<Rightarrow> send_command_result cmd seq @ calls @ send_market_data cmd)"

text \<open>\<open>ResultsHandler\<close>: while grouping is disabled, results are not given to the consumer.\<close>

definition on_result :: "order_command \<Rightarrow> int \<Rightarrow> bool \<Rightarrow> bool \<times> handler_call list" where
  "on_result cmd seq processingEnabled =
     (let enabled = (if cmd_command cmd = GROUPING_CONTROL then cmd_orderId cmd = 1 else processingEnabled)
      in (enabled, if enabled then accept_result cmd seq else []))"

end
