(* ===== verification/Events_Told.thy ===== *)
theory Events_Told
  imports Event_Handlers Naive_Correct Risk_Conservation
begin

text \<open>What the client is told about a command is what the command did to the order book.\<close>

section \<open>Volumes\<close>

text \<open>A symbol in which every order holds its volume, so that sums of holds are volumes.\<close>

definition volume_spec :: symbol_spec where
  "volume_spec = \<lparr>sp_symbolId = 0, sp_type = CURRENCY_EXCHANGE_PAIR, sp_baseCurrency = 0, sp_quoteCurrency = 0,
     sp_baseScaleK = 1, sp_quoteScaleK = 0, sp_takerFee = 1, sp_makerFee = 0, sp_marginBuy = 0, sp_marginSell = 0\<rparr>"

lemma hold_is_volume [simp]: "hold_of volume_spec 0 a r x = x"
  by (simp add: hold_of_def amount_defs volume_spec_def)

lemma orders_balance_volume: "orders_balance volume_spec 0 os = volume os"
  by (induction os) (simp_all add: volume_def)

definition book_volume :: "flat_book \<Rightarrow> int" where
  "book_volume fb = volume (fb_orders fb)"

lemma book_volume_balance: "book_volume fb = book_balance volume_spec 0 fb"
  by (simp add: book_volume_def book_balance_def orders_balance_volume fb_orders_def volume_def)

lemma trades_release_volume: "trades_release volume_spec 0 evs = 2 * events_size evs"
  by (induction evs) (simp_all add: amount_defs volume_spec_def)

section \<open>What is told\<close>

definition told_traded :: "handler_call list \<Rightarrow> int" where
  "told_traded calls = sum_list (map (\<lambda>x. case x of Trade_Event _ v _ _ _ _ _ _ \<Rightarrow> v | _ \<Rightarrow> 0) calls)"

definition told_rejected :: "handler_call list \<Rightarrow> int" where
  "told_rejected calls = sum_list (map (\<lambda>x. case x of Reject_Event _ v _ _ _ _ \<Rightarrow> v | _ \<Rightarrow> 0) calls)"

definition told_reduced :: "handler_call list \<Rightarrow> int" where
  "told_reduced calls = sum_list (map (\<lambda>x. case x of Reduce_Event _ v _ _ _ _ _ \<Rightarrow> v | _ \<Rightarrow> 0) calls)"

lemmas told_defs = told_traded_def told_rejected_def told_reduced_def

text \<open>The chains that matching leaves: trades, behind at most one rejection, or one reduction.\<close>

datatype chain_shape = Trades "trade_event list" | Rejected trade_event "trade_event list" | Reduced trade_event

fun chain_of :: "chain_shape \<Rightarrow> trade_event list" where
  "chain_of (Trades evs) = evs"
| "chain_of (Rejected e evs) = e # evs"
| "chain_of (Reduced e) = [e]"

fun shape_ok :: "chain_shape \<Rightarrow> bool" where
  "shape_ok (Trades evs) \<longleftrightarrow> (\<forall>e \<in> set evs. ev_eventType e = TRADE)"
| "shape_ok (Rejected e evs) \<longleftrightarrow> ev_eventType e = REJECT \<and> (\<forall>x \<in> set evs. ev_eventType x = TRADE)"
| "shape_ok (Reduced e) \<longleftrightarrow> ev_eventType e = REDUCE"

fun moved_volume :: "chain_shape \<Rightarrow> int" where
  "moved_volume (Trades evs) = 2 * events_size evs"
| "moved_volume (Rejected e evs) = ev_size e + 2 * events_size evs"
| "moved_volume (Reduced e) = ev_size e"

lemma trade_steps:
  assumes "\<forall>e \<in> set evs. ev_eventType e = TRADE"
  shows "fold (trade_event_step cmd) evs (completed, v, ts, r) =
    (completed \<or> (\<exists>e \<in> set evs. ev_activeOrderCompleted e), v + events_size evs, ts @ map trade_of evs, r)"
  using assms by (induction evs arbitrary: completed v ts) (auto simp: trade_event_step_def)

lemma shape_told:
  assumes "shape_ok sh" and "cmd_matcherEvent cmd = chain_of sh"
  shows "\<exists>calls. send_trade_events cmd = (calls, Inr ()) \<and>
    moved_volume sh = 2 * told_traded calls + told_rejected calls + told_reduced calls"
proof (cases sh)
  case (Trades evs)
  then have e: "cmd_matcherEvent cmd = evs" "\<forall>e \<in> set evs. ev_eventType e = TRADE" using assms by simp_all
  show ?thesis
  proof (cases "evs = []")
    case False
    then have "send_trade_events cmd = (send_trade_event_call cmd, Inr ())"
      using e by (cases evs) (simp_all add: send_trade_events_def)
    then show ?thesis
      using e False Trades trade_steps[OF e(2), of cmd False 0 "[]" None] by (simp add: send_trade_event_call_def told_defs)
  qed (use e Trades in \<open>simp add: send_trade_events_def told_defs\<close>)
next
  case (Rejected e evs)
  have "fold (trade_event_step cmd) (e # evs) (False, 0, [], None) =
      ((\<exists>e \<in> set evs. ev_activeOrderCompleted e), events_size evs, map trade_of evs,
       Some (Reject_Event (cmd_symbol cmd) (ev_size e) (ev_price e) (cmd_orderId cmd) (cmd_uid cmd) (cmd_timestamp cmd)))"
    using assms Rejected trade_steps[of evs cmd False 0 "[]"] by (simp add: trade_event_step_def)
  then show ?thesis
    using assms Rejected by (cases evs) (simp_all add: send_trade_events_def send_trade_event_call_def told_defs)
next
  case (Reduced e)
  then show ?thesis using assms by (simp add: send_trade_events_def told_defs)
qed

section \<open>The flat book\<close>

definition matched_ok :: "flat_book \<Rightarrow> int \<Rightarrow> flat_book \<Rightarrow> order_command \<Rightarrow> bool" where
  "matched_ok fb sz fb' cmd' \<longleftrightarrow> (\<exists>sh. shape_ok sh \<and> cmd_matcherEvent cmd' = chain_of sh \<and>
     book_volume fb + sz = book_volume fb' + moved_volume sh)"

lemma flat_match_volume:
  assumes "flat_ok fb" and "flat_match io ok fb cmd = (fb', cmd', filled)"
  shows "\<exists>evs. cmd' = set_events evs cmd \<and> (\<forall>e \<in> set evs. ev_eventType e = TRADE) \<and>
    book_volume fb + (filled - io_filled io) = book_volume fb' + 2 * events_size evs"
  using flat_match_balance[OF assms, of volume_spec 0]
  by (auto simp: book_volume_balance trades_release_volume)

lemma events_set [simp]: "cmd_matcherEvent (set_events evs cmd) = (if evs = [] then cmd_matcherEvent cmd else evs)"
  by (simp add: set_events_def)

lemma matched_rejected:
  assumes "\<forall>e \<in> set evs. ev_eventType e = TRADE" and "cmd_matcherEvent cmd = evs"
    and "book_volume fb + sz = book_volume fb' + 2 * events_size evs"
  shows "matched_ok fb (sz + r) fb' (attach_reject_event node cmd r)"
  unfolding matched_ok_def
  by (rule exI[of _ "Rejected (reject_event node cmd r) evs"])
    (use assms in \<open>simp add: attach_reject_event_def reject_event_def\<close>)

lemma matched_trades:
  assumes "\<forall>e \<in> set evs. ev_eventType e = TRADE" and "cmd_matcherEvent cmd = evs"
    and "book_volume fb + sz = book_volume fb' + 2 * events_size evs"
  shows "matched_ok fb sz fb' cmd"
  unfolding matched_ok_def by (rule exI[of _ "Trades evs"]) (use assms in simp)

lemma matched_nothing: "cmd_matcherEvent cmd = [] \<Longrightarrow> matched_ok fb 0 fb cmd"
  by (rule matched_trades[of "[]"]) simp_all

lemma volume_insert: "book_volume (fb_insert x fb) = book_volume fb + remaining x"
  by (simp add: book_volume_balance book_balance_insert)

lemma new_order_volume:
  assumes ok: "flat_ok fb" and ev: "cmd_matcherEvent cmd = []" and n: "flat_new_order node fb cmd = (fb', cmd')"
    and sz: "0 < cmd_size cmd"
  shows "matched_ok fb (cmd_size cmd) fb' cmd'"
proof -
  have io: "io_filled (cmd_iorder cmd) = 0" by (simp add: cmd_iorder_def)
  have M: "\<exists>evs. cmd1 = set_events evs cmd \<and> cmd_matcherEvent cmd1 = evs \<and> (\<forall>e \<in> set evs. ev_eventType e = TRADE) \<and>
      book_volume fb + filled = book_volume fb1 + 2 * events_size evs"
    if "flat_match (cmd_iorder cmd) ok' fb cmd = (fb1, cmd1, filled)" for ok' fb1 cmd1 filled
    using flat_match_volume[OF ok that] io ev by (metis events_set diff_zero)
  have reject: "matched_ok fb (cmd_size cmd) fb (attach_reject_event node cmd (cmd_size cmd))"
    using matched_rejected[of "[]" cmd fb 0 fb "cmd_size cmd" node] ev by simp
  have rest: "matched_ok fb (cmd_size cmd) fb1 (attach_reject_event node cmd1 (cmd_size cmd - filled))"
    if "flat_match (cmd_iorder cmd) ok' fb cmd = (fb1, cmd1, filled)" for ok' fb1 cmd1 filled
    using M[OF that] matched_rejected[of _ cmd1 fb filled fb1 "cmd_size cmd - filled" node] by auto
  show ?thesis
  proof (cases "cmd_orderType cmd")
    case GTC
    obtain fb1 cmd1 filled where m: "flat_match (cmd_iorder cmd) (crosses (cmd_action cmd) (cmd_price cmd)) fb cmd = (fb1, cmd1, filled)"
      by (metis prod_cases3)
    have "remaining (cmd_order cmd filled) = cmd_size cmd - filled" by (simp add: cmd_order_def remaining_def)
    moreover obtain evs where evs: "cmd_matcherEvent cmd1 = evs" "\<forall>e \<in> set evs. ev_eventType e = TRADE"
      "book_volume fb + filled = book_volume fb1 + 2 * events_size evs" using M[OF m] by blast
    ultimately have "matched_ok fb (cmd_size cmd) (fb_insert (cmd_order cmd filled) fb1) cmd1"
      "filled = cmd_size cmd \<longrightarrow> matched_ok fb (cmd_size cmd) fb1 cmd1"
      by (auto simp: volume_insert intro!: matched_trades[OF evs(2,1)])
    with GTC n m rest[OF m] show ?thesis
      by (auto simp: flat_new_order_def flat_gtc_def split: if_splits)
  next
    case IOC
    obtain fb1 cmd1 filled where m: "flat_match (cmd_iorder cmd) (crosses (cmd_action cmd) (cmd_price cmd)) fb cmd = (fb1, cmd1, filled)"
      by (metis prod_cases3)
    with IOC n M[OF m] rest[OF m] show ?thesis
      by (auto simp: flat_new_order_def flat_ioc_def intro!: matched_trades split: if_splits)
  next
    case FOK_BUDGET
    show ?thesis
    proof (cases "budget_to_fill (cmd_size cmd) (fb_side (opposite (cmd_action cmd)) fb)")
      case None
      with FOK_BUDGET n reject show ?thesis by (simp add: flat_new_order_def flat_fok_budget_def)
    next
      case (Some b)
      obtain fb1 cmd1 filled where m: "flat_match (cmd_iorder cmd) (\<lambda>_. True) fb cmd = (fb1, cmd1, filled)"
        by (metis prod_cases3)
      have "filled = cmd_size cmd" by (rule budget_match_full[OF ok sz Some m])
      with FOK_BUDGET n M[OF m] reject Some m show ?thesis
        by (auto simp: flat_new_order_def flat_fok_budget_def intro!: matched_trades split: if_splits)
    qed
  qed (use n reject in \<open>simp_all add: flat_new_order_def\<close>)
qed

lemma find_volume:
  assumes "flat_ok fb" and "fb_find i fb = Some x"
  shows "book_volume fb = book_volume (fb_remove i fb) + remaining x" "book_volume fb = book_volume (fb_resize i v fb) + v"
  using book_balance_remove[OF assms, of volume_spec 0] book_balance_resize[OF assms, of volume_spec 0 v]
  by (simp_all add: book_volume_balance)

lemma reduced_volume:
  "book_volume fb = book_volume fb' + v \<Longrightarrow>
   matched_ok fb 0 fb' (cmd\<lparr>cmd_matcherEvent := [send_reduce_event node p r v b], cmd_action := a\<rparr>)"
  unfolding matched_ok_def by (rule exI[of _ "Reduced (send_reduce_event node p r v b)"]) (simp add: send_reduce_event_def)

lemma move_volume:
  assumes ok: "flat_ok fb" and ev: "cmd_matcherEvent cmd = []" and m: "flat_move stype fb cmd = (code, fb', cmd')"
  shows "matched_ok fb 0 fb' cmd'"
proof (cases "fb_find (cmd_orderId cmd) fb")
  case None
  with m ev show ?thesis by (auto simp: flat_move_def matched_nothing)
next
  case (Some x)
  let ?x = "x\<lparr>ord_price := cmd_price cmd\<rparr>" and ?cmd = "cmd\<lparr>cmd_action := ord_action x\<rparr>"
  obtain fb1 cmd1 filled where f: "flat_match (ord_iorder ?x) (crosses (ord_action x) (cmd_price cmd))
      (fb_remove (cmd_orderId cmd) fb) ?cmd = (fb1, cmd1, filled)" by (metis prod_cases3)
  obtain evs where evs: "cmd_matcherEvent cmd1 = evs" "\<forall>e \<in> set evs. ev_eventType e = TRADE"
    "book_volume (fb_remove (cmd_orderId cmd) fb) + (filled - ord_filled x) = book_volume fb1 + 2 * events_size evs"
    using flat_match_volume[OF flat_ok_remove[OF ok] f] ev by (auto simp: ord_iorder_def)
  have "matched_ok fb 0 (if filled = ord_size ?x then fb1 else fb_insert (?x\<lparr>ord_filled := filled\<rparr>) fb1) cmd1"
    using evs(3) find_volume(1)[OF ok Some] by (auto simp: volume_insert remaining_def intro!: matched_trades[OF evs(2,1)])
  with m Some f ev show ?thesis by (auto simp: flat_move_def Let_def matched_nothing split: if_splits)
qed

lemma flat_process_command_volume:
  assumes ok: "flat_ok fb" and ev: "cmd_matcherEvent cmd = []" and p: "placeable cmd"
    and r: "flat_process_command stype node fb cmd = (code, fb', cmd')"
  shows "matched_ok fb (if cmd_command cmd = PLACE_ORDER \<and> cmd_resultCode cmd = VALID_FOR_MATCHING_ENGINE
    then cmd_size cmd else 0) fb' cmd'"
proof (cases "cmd_command cmd")
  case MOVE_ORDER
  with r move_volume[OF ok ev] show ?thesis by (simp add: flat_process_command_def)
next
  case CANCEL_ORDER
  with r ev find_volume(1)[OF ok] show ?thesis
    by (auto simp: flat_process_command_def flat_cancel_def intro!: matched_nothing reduced_volume split: option.splits if_splits)
next
  case REDUCE_ORDER
  with r ev find_volume[OF ok] show ?thesis
    by (auto simp: flat_process_command_def flat_reduce_def Let_def intro!: matched_nothing reduced_volume
        split: option.splits if_splits)
next
  case PLACE_ORDER
  with r ev p new_order_volume[OF ok ev] show ?thesis
    by (auto simp: flat_process_command_def placeable_def matched_nothing split: prod.splits if_splits)
next
  case ORDER_BOOK_REQUEST
  with r ev show ?thesis by (auto simp: flat_process_command_def intro!: matched_nothing)
qed (use r ev in \<open>auto simp: flat_process_command_def matched_nothing\<close>)

lemma same_outcome_matched:
  assumes "same_outcome (code, fb1, cmdf) (code', fb', cmd')" and "matched_ok fb sz fb1 cmdf"
  shows "matched_ok fb sz fb' cmd'"
proof (cases "code = MATCHING_MOVE_FAILED_PRICE_OVER_RISK_LIMIT")
  case True
  then obtain a where "cmdf = cmd'\<lparr>cmd_action := a\<rparr>" "fb1 = fb'" using assms(1) by (simp add: same_outcome_def) blast
  with assms(2) show ?thesis by (simp add: matched_ok_def)
qed (use assms in \<open>simp add: same_outcome_def\<close>)

section \<open>The client is told everything\<close>

definition placed_size :: "order_command \<Rightarrow> int" where
  "placed_size cmd = (if cmd_command cmd = PLACE_ORDER \<and> cmd_resultCode cmd = VALID_FOR_MATCHING_ENGINE
     then cmd_size cmd else 0)"

definition told_order :: order_command where
  "told_order = (sample_order IOC 101 2 BID 21 3)\<lparr>cmd_resultCode := VALID_FOR_MATCHING_ENGINE\<rparr>"

text \<open>C8:
  The client is told what became of every unit of an order. The trade, reject and reduce events
  that the events processor makes of a command which a valid naive book has run account for the
  whole change of the book: the resting volume before the command, and the size of the order it
  places, is the volume that rests afterwards, the volume of the reported trades (once for each of
  the two sides), the rejected volume and the reduced volume. The processor does not throw. The
  command comes without events, and an order to place has a positive size.
\<close>

theorem client_told_everything:
  assumes "nb_inv nb" and "placeable cmd" and "cmd_matcherEvent cmd = []"
  shows "\<exists>code nb' cmd' calls. process_command naive_ops node nb cmd = Inr (code, nb', cmd') \<and>
    send_trade_events cmd' = (calls, Inr ()) \<and>
    book_volume (nb_abs nb) + placed_size cmd =
      book_volume (nb_abs nb') + 2 * told_traded calls + told_rejected calls + told_reduced calls"
proof -
  obtain code nb' cmd' where p: "process_command naive_ops node nb cmd = Inr (code, nb', cmd')"
    "same_outcome (flat_process_command (sp_type (nb_symbolSpec nb)) node (nb_abs nb) cmd) (code, nb_abs nb', cmd')"
    using naive.process_command_refines[OF assms(1,2)] by blast
  obtain c fb1 cmdf where f: "flat_process_command (sp_type (nb_symbolSpec nb)) node (nb_abs nb) cmd = (c, fb1, cmdf)"
    by (metis prod_cases3)
  have "matched_ok (nb_abs nb) (placed_size cmd) (nb_abs nb') cmd'"
    using same_outcome_matched[OF p(2)[unfolded f]]
      flat_process_command_volume[OF naive.valid_flat_ok[OF assms(1)] assms(3,2) f] by (simp add: placed_size_def)
  then obtain sh where "shape_ok sh" "cmd_matcherEvent cmd' = chain_of sh"
    "book_volume (nb_abs nb) + placed_size cmd = book_volume (nb_abs nb') + moved_volume sh"
    by (auto simp: matched_ok_def)
  with shape_told[of sh cmd'] p(1) show ?thesis by auto
qed

theorem client_told_everything_witness:
  "\<exists>code nb' cmd' calls. process_command naive_ops default_event sample_book told_order =
      Inr (code, nb', cmd') \<and> send_trade_events cmd' = (calls, Inr ()) \<and>
    7 = book_volume (nb_abs nb') + 2 * told_traded calls + told_rejected calls + told_reduced calls"
proof -
  have "book_volume (nb_abs sample_book) + placed_size told_order = 7"
    using sample_book_ok by (simp add: book_volume_def fb_orders_def volume_def placed_size_def told_order_def sample_defs)
  moreover have "placeable told_order" "cmd_matcherEvent told_order = []"
    by (simp_all add: placeable_def told_order_def sample_defs default_command_def)
  ultimately show ?thesis
    using client_told_everything[of sample_book told_order default_event] sample_book_ok by metis
qed

end
