(* ===== verification/State_Hash.thy ===== *)
theory State_Hash
  imports Reports
begin

text \<open>
  State hashes (\<open>GetStateHash\<close>, \<open>HashingUtils\<close>) and the report that collects them from all engines
  (\<open>StateHashReportQuery\<close>, \<open>StateHashReportResult\<close>). Hashes are 32-bit words, intermediate sums of
  \<open>std::size_t\<close> 64-bit words; \<open>std::hash\<close>, which the standard leaves open, is a parameter.
\<close>

section \<open>Hashing\<close>

record std_hash =
  sh_int32 :: "int \<Rightarrow> 64 word"
  sh_int64 :: "int \<Rightarrow> 64 word"
  sh_uint8 :: "int \<Rightarrow> 64 word"

text \<open>The two ways in which the code folds an \<open>int64_t\<close> to 32 bits.\<close>

definition fold_long :: "int \<Rightarrow> 32 word" where
  "fold_long x = word_of_int (x XOR drop_bit 32 x)"

definition fold_long_direct :: "int \<Rightarrow> 32 word" where
  "fold_long_direct x = word_of_int (drop_bit 32 x XOR take_bit 32 x)"

lemma fold_long_direct_eq: "fold_long_direct x = fold_long x"
  unfolding fold_long_def fold_long_direct_def
  by (rule bit_word_eqI) (auto simp: bit_simps)

text \<open>\<open>Objects.hash\<close>, and the hash of a stream.\<close>

definition objects_hash :: "32 word list \<Rightarrow> 32 word" where
  "objects_hash hs = fold (\<lambda>h r. 31 * r + h) hs 1"

definition hash_stream :: "32 word list \<Rightarrow> 32 word" where
  "hash_stream hs = fold (\<lambda>h r. r * 31 + h) hs 0"

text \<open>\<open>HashingUtils::StateHash\<close> of a map, by the hashes of its keys and values.\<close>

definition map_state_hash :: "('k \<Rightarrow> 64 word) \<Rightarrow> ('v \<Rightarrow> 32 word) \<Rightarrow> ('k, 'v) umap \<Rightarrow> 32 word" where
  "map_state_hash kh vh m = ucast (fold (\<lambda>(k, v) h. h XOR push_bit 1 (kh k XOR scast (vh v))) m 0)"

section \<open>Orders, symbols and books\<close>

definition order_state_hash :: "order \<Rightarrow> 32 word" where
  "order_state_hash x = objects_hash [fold_long (ord_orderId x), word_of_int (order_action_to_code (ord_action x)),
     fold_long (ord_price x), fold_long (ord_size x), fold_long (ord_reserveBidPrice x), fold_long (ord_filled x),
     fold_long (ord_uid x)]"

definition direct_order_state_hash :: "order \<Rightarrow> 32 word" where
  "direct_order_state_hash x = objects_hash [fold_long_direct (ord_orderId x),
     word_of_int (order_action_to_code (ord_action x)), fold_long_direct (ord_price x), fold_long_direct (ord_size x),
     fold_long_direct (ord_reserveBidPrice x), fold_long_direct (ord_filled x), fold_long_direct (ord_uid x)]"

definition symbol_spec_state_hash :: "std_hash \<Rightarrow> symbol_spec \<Rightarrow> 32 word" where
  "symbol_spec_state_hash sh sp = ucast (sh_int32 sh (sp_symbolId sp)
     XOR push_bit 1 (sh_uint8 sh (symbol_type_to_code (sp_type sp)))
     XOR push_bit 2 (sh_int32 sh (sp_baseCurrency sp)) XOR push_bit 3 (sh_int32 sh (sp_quoteCurrency sp))
     XOR push_bit 4 (sh_int64 sh (sp_baseScaleK sp)) XOR push_bit 5 (sh_int64 sh (sp_quoteScaleK sp))
     XOR push_bit 6 (sh_int64 sh (sp_takerFee sp)) XOR push_bit 7 (sh_int64 sh (sp_makerFee sp))
     XOR push_bit 8 (sh_int64 sh (sp_marginBuy sp)) XOR push_bit 9 (sh_int64 sh (sp_marginSell sp)))"

definition naive_state_hash :: "std_hash \<Rightarrow> naive_book \<Rightarrow> 32 word" where
  "naive_state_hash sh nb = objects_hash [hash_stream (map order_state_hash (naive_process_orders ASK nb)),
     hash_stream (map order_state_hash (naive_process_orders BID nb)), symbol_spec_state_hash sh (nb_symbolSpec nb)]"

text \<open>The direct book follows the links from the best order.\<close>

fun direct_hash_loop :: "nat \<Rightarrow> (addr \<Rightarrow> direct_order option) \<Rightarrow> addr option \<Rightarrow> 32 word \<Rightarrow> exn + 32 word" where
  "direct_hash_loop fuel h None r = Inr r"
| "direct_hash_loop 0 h (Some a) r = Inl Out_Of_Fuel"
| "direct_hash_loop (Suc fuel) h (Some a) r =
     bindE (deref h (Some a)) (\<lambda>d. direct_hash_loop fuel h (do_prev d) (r * 31 + direct_order_state_hash (do_order d)))"

definition direct_state_hash :: "std_hash \<Rightarrow> direct_book \<Rightarrow> exn + 32 word" where
  "direct_state_hash sh db =
     bindE (direct_hash_loop (length (db_orderIdIndex db)) (db_orders db) (best_order ASK db) 0) (\<lambda>askHash.
     bindE (direct_hash_loop (length (db_orderIdIndex db)) (db_orders db) (best_order BID db) 0) (\<lambda>bidHash.
       Inr (objects_hash [askHash, bidHash, symbol_spec_state_hash sh (db_symbolSpec db)])))"

fun any_state_hash :: "std_hash \<Rightarrow> any_book \<Rightarrow> exn + 32 word" where
  "any_state_hash sh (Naive_Impl nb) = Inr (naive_state_hash sh nb)"
| "any_state_hash sh (Direct_Impl db) = direct_state_hash sh db"

section \<open>Users and transfers\<close>

definition position_state_hash :: "position \<Rightarrow> 32 word" where
  "position_state_hash p = objects_hash [word_of_int (ps_symbol p), word_of_int (ps_currency p),
     word_of_int (get_multiplier (ps_direction p)), fold_long (ps_openVolume p), fold_long (ps_openPriceSum p),
     fold_long (ps_profit p), fold_long (ps_pendingSellSize p), fold_long (ps_pendingBuySize p)]"

definition account_hash :: "std_hash \<Rightarrow> int \<times> int \<Rightarrow> 32 word" where
  "account_hash sh e = ucast (sh_int32 sh (fst e) XOR push_bit 1 (sh_int64 sh (snd e)))"

definition accounts_state_hash :: "std_hash \<Rightarrow> (int, int) umap \<Rightarrow> 32 word" where
  "accounts_state_hash sh accounts = hash_stream (map (account_hash sh) accounts)"

definition user_profile_state_hash :: "std_hash \<Rightarrow> user_profile \<Rightarrow> 32 word" where
  "user_profile_state_hash sh up = objects_hash [fold_long (up_uid up),
     map_state_hash (sh_int32 sh) position_state_hash (up_positions up), fold_long (up_adjustmentsCounter up),
     accounts_state_hash sh (up_accounts up), word_of_int (user_status_to_code (up_userStatus up))]"

definition user_service_state_hash :: "std_hash \<Rightarrow> user_service \<Rightarrow> 32 word" where
  "user_service_state_hash sh = map_state_hash (sh_int64 sh) (user_profile_state_hash sh)"

definition symbol_provider_state_hash :: "std_hash \<Rightarrow> symbol_provider \<Rightarrow> 32 word" where
  "symbol_provider_state_hash sh = map_state_hash (sh_int32 sh) (symbol_spec_state_hash sh)"

definition transfer_state_hash :: "std_hash \<Rightarrow> transfer_record \<Rightarrow> 32 word" where
  "transfer_state_hash sh tr =
     ucast (fold (\<lambda>x h. h * 31 + sh_int64 sh x) (take (tr_wordsTransferred tr) (tr_dataArray tr)) 0 * 31 +
       sh_int32 sh (int (tr_wordsTransferred tr)))"

definition incoming_state_hash :: "std_hash \<Rightarrow> incoming \<Rightarrow> 32 word" where
  "incoming_state_hash sh inc =
     fold_long (sint (fold (\<lambda>(k, tr) s. s + (sh_int64 sh k * 31 + sh_int32 sh (sint (transfer_state_hash sh tr)))) inc 0))"

text \<open>The sums over the maps of prices and of amounts, with the shifts that the code gives them.\<close>

definition prices_hash :: "std_hash \<Rightarrow> nat \<Rightarrow> (int, last_price) umap \<Rightarrow> 64 word" where
  "prices_hash sh n m = fold (\<lambda>(s, lp) h. h XOR (push_bit n (sh_int32 sh s) XOR push_bit (n + 1) (sh_int64 sh (lp_askPrice lp))
     XOR push_bit (n + 2) (sh_int64 sh (lp_bidPrice lp)))) m 0"

definition amounts_hash :: "std_hash \<Rightarrow> nat \<Rightarrow> (int, int) umap \<Rightarrow> 64 word" where
  "amounts_hash sh n m = fold (\<lambda>(c, v) h. h XOR (push_bit n (sh_int32 sh c) XOR push_bit (n + 1) (sh_int64 sh v))) m 0"

definition risk_engine_state_hash :: "std_hash \<Rightarrow> risk_engine \<Rightarrow> 32 word" where
  "risk_engine_state_hash sh re = ucast (push_bit 1 (scast (symbol_provider_state_hash sh (re_symbolSpecs re)) :: 64 word)
     XOR push_bit 2 (scast (user_service_state_hash sh (re_userProfiles re)))
     XOR push_bit 3 (scast (incoming_state_hash sh (re_incomingData re)))
     XOR prices_hash sh 4 (re_lastPriceCache re) XOR amounts_hash sh 7 (re_fees re)
     XOR amounts_hash sh 9 (re_adjustments re) XOR amounts_hash sh 11 (re_suspends re))"

section \<open>The report\<close>

datatype submodule_type =
    RISK_SYMBOL_SPEC_PROVIDER | RISK_USER_PROFILE_SERVICE | RISK_BINARY_CMD_PROCESSOR | RISK_LAST_PRICE_CACHE
  | RISK_FEES | RISK_ADJUSTMENTS | RISK_SUSPENDS | RISK_SHARD_MASK
  | MATCHING_BINARY_CMD_PROCESSOR | MATCHING_ORDER_BOOKS | MATCHING_SHARD_MASK

fun submodule_code :: "submodule_type \<Rightarrow> int" where
  "submodule_code RISK_SYMBOL_SPEC_PROVIDER = 0"
| "submodule_code RISK_USER_PROFILE_SERVICE = 1"
| "submodule_code RISK_BINARY_CMD_PROCESSOR = 2"
| "submodule_code RISK_LAST_PRICE_CACHE = 3"
| "submodule_code RISK_FEES = 4"
| "submodule_code RISK_ADJUSTMENTS = 5"
| "submodule_code RISK_SUSPENDS = 6"
| "submodule_code RISK_SHARD_MASK = 7"
| "submodule_code MATCHING_BINARY_CMD_PROCESSOR = 64"
| "submodule_code MATCHING_ORDER_BOOKS = 65"
| "submodule_code MATCHING_SHARD_MASK = 66"

text \<open>
  \<open>SubmoduleKey\<close>: the module and the code of the submodule; a code that is read is cast to the
  enumeration without a check. The map is sorted by submodule and module.
\<close>

type_synonym submodule_key = "int \<times> int"

definition key_before :: "submodule_key \<Rightarrow> submodule_key \<Rightarrow> bool" where
  "key_before a b \<longleftrightarrow> (if snd a \<noteq> snd b then snd a < snd b else fst a < fst b)"

type_synonym state_hash_report = "(submodule_key \<times> 32 word) list"

definition create_key :: "int \<Rightarrow> submodule_type \<Rightarrow> submodule_key" where
  "create_key moduleId submodule = (moduleId, submodule_code submodule)"

definition hash_codes :: "int \<Rightarrow> (submodule_type \<times> 32 word) list \<Rightarrow> state_hash_report" where
  "hash_codes moduleId entries = fold (\<lambda>(t, h). smap_put key_before (create_key moduleId t) h) entries []"

fun map_exn :: "('a \<Rightarrow> exn + 'b) \<Rightarrow> 'a list \<Rightarrow> exn + 'b list" where
  "map_exn f [] = Inr []"
| "map_exn f (x # xs) = bindE (f x) (\<lambda>y. bindE (map_exn f xs) (\<lambda>ys. Inr (y # ys)))"

text \<open>The hash of a book is a parameter, as the router is parametric in its books.\<close>

definition state_hash_matching ::
  "std_hash \<Rightarrow> ('b \<Rightarrow> exn + 32 word) \<Rightarrow> 'b matching_router \<Rightarrow> exn + state_hash_report" where
  "state_hash_matching sh book_hash me =
     bindE (map_exn book_hash (get_order_books me)) (\<lambda>books.
       Inr (hash_codes (me_shardId me)
         [(MATCHING_BINARY_CMD_PROCESSOR, incoming_state_hash sh (me_incomingData me)),
          (MATCHING_ORDER_BOOKS, hash_stream books),
          (MATCHING_SHARD_MASK, ucast (sh_int64 sh (me_shardMask me)))]))"

definition state_hash_risk :: "std_hash \<Rightarrow> risk_engine \<Rightarrow> state_hash_report" where
  "state_hash_risk sh re = hash_codes (re_shardId re)
     [(RISK_SYMBOL_SPEC_PROVIDER, symbol_provider_state_hash sh (re_symbolSpecs re)),
      (RISK_USER_PROFILE_SERVICE, user_service_state_hash sh (re_userProfiles re)),
      (RISK_BINARY_CMD_PROCESSOR, incoming_state_hash sh (re_incomingData re)),
      (RISK_LAST_PRICE_CACHE, ucast (prices_hash sh 1 (re_lastPriceCache re))),
      (RISK_FEES, ucast (amounts_hash sh 4 (re_fees re))),
      (RISK_ADJUSTMENTS, ucast (amounts_hash sh 6 (re_adjustments re))),
      (RISK_SUSPENDS, ucast (amounts_hash sh 8 (re_suspends re))),
      (RISK_SHARD_MASK, ucast (sh_int64 sh (re_shardMask re)))]"

section \<open>Bytes and merging\<close>

definition write_state_hash :: "submodule_key \<times> 32 word \<Rightarrow> bytes" where
  "write_state_hash e = write_int (fst (fst e)) @ write_int (snd (fst e)) @ write_int (sint (snd e))"

definition write_state_hashes :: "state_hash_report \<Rightarrow> bytes" where
  "write_state_hashes r = write_int (int (length r)) @ concat (map write_state_hash r)"

definition read_state_hash :: "state_hash_report \<Rightarrow> state_hash_report reader" where
  "read_state_hash r = bindR read_int (\<lambda>moduleId. bindR read_int (\<lambda>code. bindR read_int (\<lambda>h.
     returnR (smap_put key_before (moduleId, code) (word_of_int h) r))))"

definition read_state_hashes :: "state_hash_report reader" where
  "read_state_hashes = bindR read_int (\<lambda>n. read_loop (nat n) read_state_hash [])"

definition merge_state_hash_reports :: "state_hash_report \<Rightarrow> state_hash_report \<Rightarrow> state_hash_report" where
  "merge_state_hash_reports r n = fold (\<lambda>(k, h). smap_put key_before k h) n r"

definition merge_state_hash_pieces :: "bytes list \<Rightarrow> exn + state_hash_report" where
  "merge_state_hash_pieces = merge_pieces [] read_state_hashes merge_state_hash_reports"

text \<open>The hash of the whole report, by which two exchanges are compared.\<close>

definition report_state_hash :: "std_hash \<Rightarrow> state_hash_report \<Rightarrow> 32 word" where
  "report_state_hash sh r = objects_hash (map (\<lambda>((moduleId, code), h).
     31 * (31 + ucast (sh_int32 sh moduleId XOR push_bit 1 (sh_int32 sh code))) + h) r)"

end
