(* ===== verification/State_Hash_Correct.thy ===== *)
theory State_Hash_Correct
  imports State_Hash Reports_Correct Snapshot_Files "HOL-Library.Multiset"
begin

text \<open>
  State hashes are functions of what the exchange holds: they are the same for both books and after
  a snapshot was loaded. Only the accounts of a user are hashed in the order of an unordered map.
\<close>

section \<open>Books\<close>

definition flat_state_hash :: "std_hash \<Rightarrow> symbol_spec \<Rightarrow> flat_book \<Rightarrow> 32 word" where
  "flat_state_hash sh sp fb = objects_hash [hash_stream (map order_state_hash (fb_asks fb)),
     hash_stream (map order_state_hash (fb_bids fb)), symbol_spec_state_hash sh sp]"

locale hashed_books =
  fixes valid :: "'b \<Rightarrow> bool" and abstr :: "'b \<Rightarrow> flat_book" and spec :: "'b \<Rightarrow> symbol_spec"
    and sh :: std_hash and book_hash :: "'b \<Rightarrow> exn + 32 word"
  assumes hash_law: "valid b \<Longrightarrow> book_hash b = Inr (flat_state_hash sh (spec b) (abstr b))"
begin

lemma router_hashes:
  assumes "\<forall>b \<in> set (get_order_books me). valid b"
  shows "state_hash_matching sh book_hash me = Inr (hash_codes (me_shardId me)
    [(MATCHING_BINARY_CMD_PROCESSOR, incoming_state_hash sh (me_incomingData me)),
     (MATCHING_ORDER_BOOKS, hash_stream (map (\<lambda>b. flat_state_hash sh (spec b) (abstr b)) (get_order_books me))),
     (MATCHING_SHARD_MASK, ucast (sh_int64 sh (me_shardMask me)))])"
proof -
  have "map_exn book_hash bs = Inr (map (\<lambda>b. flat_state_hash sh (spec b) (abstr b)) bs)" if "\<forall>b \<in> set bs. valid b" for bs
    using that by (induction bs) (simp_all add: hash_law)
  with assms show ?thesis by (simp add: state_hash_matching_def)
qed

end

lemma naive_state_hash_flat:
  assumes "nb_inv nb"
  shows "naive_state_hash sh nb = flat_state_hash sh (nb_symbolSpec nb) (nb_abs nb)"
  by (simp add: naive_state_hash_def flat_state_hash_def naive_queries_refine(2)[OF assms] nb_abs_def)

lemma direct_order_state_hash_eq: "direct_order_state_hash x = order_state_hash x"
  by (simp add: direct_order_state_hash_def order_state_hash_def fold_long_direct_eq)

lemma direct_hash_loop_ok:
  "dls h nx xs None \<Longrightarrow> length xs \<le> fuel \<Longrightarrow>
   direct_hash_loop fuel h (first_of xs) r = Inr (fold (\<lambda>v r. r * 31 + v) (map (order_state_hash \<circ> dord h) xs) r)"
proof (induction xs arbitrary: nx fuel r)
  case (Cons a xs)
  then show ?case by (cases fuel) (auto simp: dord_def direct_order_state_hash_eq)
qed simp

lemma direct_state_hash_flat:
  assumes "direct_inv db"
  shows "direct_state_hash sh db = Inr (flat_state_hash sh (db_symbolSpec db) (direct_abs db))"
proof -
  obtain L where rep: "direct_rep db L {}" using assms by (auto simp: direct_inv_def)
  show ?thesis
    using direct_hash_loop_ok[OF direct_rep_links[OF rep] side_length[OF rep]] direct_rep_best[OF rep]
    by (simp add: direct_state_hash_def flat_state_hash_def direct_abs_flat_of[OF rep] flat_of_def hash_stream_def)
qed

interpretation any_hashes: hashed_books any_valid any_abs any_spec sh "any_state_hash sh" for sh
proof unfold_locales
  fix b
  show "any_valid b \<Longrightarrow> any_state_hash sh b = Inr (flat_state_hash sh (any_spec b) (any_abs b))"
    by (cases b) (simp_all add: naive_state_hash_flat direct_state_hash_flat)
qed

section \<open>The report\<close>

lemma key_before_order: "irreflp key_before" "transp key_before"
  by (auto simp: irreflp_def transp_def key_before_def split: if_splits)

definition state_hashes_fit :: "state_hash_report \<Rightarrow> bool" where
  "state_hashes_fit r \<longleftrightarrow> smap_sorted key_before r \<and> length r < 2 ^ 31 \<and>
     (\<forall>e \<in> set r. fits 4 (fst (fst e)) \<and> fits 4 (snd (fst e)))"

lemma fits_hash: "fits 4 (sint h)" for h :: "32 word"
  using sint_ge[of h] sint_lt[of h] by (simp add: fits_def)

interpretation state_hashes_codec: exact_codec write_state_hashes read_state_hashes state_hashes_fit
proof unfold_locales
  fix r :: state_hash_report and rest
  assume v: "state_hashes_fit r"
  have "\<exists>s'. read_loop (length r) read_state_hash [] (concat (map write_state_hash r) @ rest) = Inr (s', rest) \<and> s' = r"
  proof (rule read_loop_ok)
    fix past x todo s rest
    assume r: "r = past @ x # todo" and s: "s = past"
    obtain m c h where x: "x = ((m, c), h)" by (metis prod.exhaust)
    have "fits 4 m" "fits 4 c" "\<forall>q \<in> fst ` set past. key_before q (m, c)"
      using v r x by (auto simp: state_hashes_fit_def sorted_wrt_append)
    with smap_put_last[OF key_before_order, of past "(m, c)" h]
    show "\<exists>s'. read_state_hash s (write_state_hash x @ rest) = Inr (s', rest) \<and> s' = past @ [x]"
      using s x by (simp add: read_state_hash_def write_state_hash_def bindR_def int_codec.exact fits_hash)
  qed simp
  moreover have "fits 4 (int (length r))" using v by (simp add: state_hashes_fit_def fits_def)
  ultimately show "read_state_hashes (write_state_hashes r @ rest) = Inr (r, rest)"
    by (simp add: read_state_hashes_def write_state_hashes_def bindR_def int_codec.exact)
qed

text \<open>The answers of the engines: sorted, and those of a risk engine before those of a matching engine.\<close>

definition matching_entries :: "int \<Rightarrow> 32 word \<Rightarrow> 32 word \<Rightarrow> 32 word \<Rightarrow> state_hash_report" where
  "matching_entries moduleId a b c = [((moduleId, 64), a), ((moduleId, 65), b), ((moduleId, 66), c)]"

lemma matching_codes:
  "hash_codes moduleId [(MATCHING_BINARY_CMD_PROCESSOR, a), (MATCHING_ORDER_BOOKS, b), (MATCHING_SHARD_MASK, c)] =
    matching_entries moduleId a b c"
  by (simp add: hash_codes_def create_key_def key_before_def matching_entries_def)

lemma risk_codes_fit: "fits 4 (re_shardId re) \<Longrightarrow> state_hashes_fit (state_hash_risk sh re)"
  by (simp add: state_hashes_fit_def state_hash_risk_def hash_codes_def create_key_def key_before_def fits_def)

lemma matching_codes_fit: "fits 4 moduleId \<Longrightarrow> state_hashes_fit (matching_entries moduleId a b c)"
  by (simp add: state_hashes_fit_def matching_entries_def key_before_def fits_def)

lemma merge_codes:
  "merge_state_hash_reports (state_hash_risk sh re) (matching_entries moduleId a b c) =
    state_hash_risk sh re @ matching_entries moduleId a b c"
  by (simp add: merge_state_hash_reports_def matching_entries_def state_hash_risk_def hash_codes_def create_key_def key_before_def)

lemma same_router_hashes:
  assumes "router_fits me" and "same_router me me'"
  shows "\<exists>a b c. state_hash_matching sh (any_state_hash sh) me = Inr (matching_entries (me_shardId me) a b c) \<and>
    state_hash_matching sh (any_state_hash sh) me' = Inr (matching_entries (me_shardId me) a b c)"
proof -
  obtain books where m: "me' = me\<lparr>me_orderBooks := books\<rparr>" "same_map same_book (me_orderBooks me) books"
    using assms(2) unfolding same_router_def by metis
  have v: "\<forall>b \<in> set (get_order_books me). any_valid b"
    using assms(1) by (auto simp: router_fits_def valid_map_def get_order_books_def)
  let ?h = "\<lambda>b. flat_state_hash sh (any_spec b) (any_abs b)"
  from m(2) have "(\<forall>b \<in> set (map snd books). any_valid b) \<and> map ?h (map snd books) = map ?h (map snd (me_orderBooks me))"
    unfolding same_map_def by (induction rule: list_all2_induct) (auto simp: same_book_def)
  then show ?thesis
    using any_hashes.router_hashes[OF v, of sh] any_hashes.router_hashes[of me' sh] m(1)
    by (auto simp: matching_codes get_order_books_def)
qed

section \<open>Properties\<close>

text \<open>C25:
  The state hash does not tell the two order books apart: a valid naive and a valid direct book of
  the same symbol that hold the same orders in the same priority have the same state hash, whatever
  \<open>std::hash\<close> is, and the walk over the links of the direct book returns. The two fold a long value
  to an int in different ways.
\<close>

theorem book_state_hashes_agree:
  assumes "nb_inv nb" and "direct_inv db" and "direct_abs db = nb_abs nb" and "db_symbolSpec db = nb_symbolSpec nb"
  shows "direct_state_hash sh db = Inr (naive_state_hash sh nb)"
  using assms by (simp add: direct_state_hash_flat naive_state_hash_flat)

theorem book_state_hashes_agree_witness:
  "\<forall>sh. direct_state_hash sh sample_direct_book = Inr (naive_state_hash sh sample_book)"
  by (intro allI book_state_hashes_agree) (use sample_book_ok sample_direct_book_ok in simp_all)

text \<open>C24:
  A snapshot keeps the state hash. The report of state hashes that a client merges from the answers
  of a risk engine and a matching engine, in whichever order they were appended, has the hashes of
  all parts of both, sorted by part; and it is the same when the matching engine is replaced by the
  one loaded from its stored file, although its books are built anew. The books are valid, the
  fields fit their types, and the stored engine takes at most 99,000,000 bytes (a file of more than
  100,000,000 would be refused when it is loaded).
\<close>

theorem state_hashes_survive_snapshot:
  assumes "lz4_ok lz" and "router_fits me" and "same_router_config me0 me"
    and "length (write_router me) \<le> 99000000" and "fits 4 (re_shardId re)"
  shows "\<exists>files' me' mr. store_data lz key (write_router me) files = (files', True) \<and>
    load_data lz key (read_router me0) files' = Inr me' \<and>
    state_hash_matching sh (any_state_hash sh) me = Inr mr \<and> state_hash_matching sh (any_state_hash sh) me' = Inr mr \<and>
    (\<forall>evs. evs = report_events nodes 0 (write_state_hashes (state_hash_risk sh re)) @
                 report_events nodes' 1024 (write_state_hashes mr) \<or>
           evs = report_events nodes' 1024 (write_state_hashes mr) @
                 report_events nodes 0 (write_state_hashes (state_hash_risk sh re)) \<longrightarrow>
       merge_state_hash_pieces (report_sections evs) = Inr (state_hash_risk sh re @ mr))"
proof -
  have "write_router me \<noteq> []" by (simp add: write_router_def)
  from stored_is_loaded[OF assms(1) this assms(4), of key files] obtain files' where
    f: "store_data lz key (write_router me) files = (files', True)"
    "load_data lz key (read_router me0) files' = bindE (read_router me0 (write_router me)) (\<lambda>(x, _). Inr x)" by blast
  obtain me' where me': "read_router me0 (write_router me) = Inr (me', [])" "same_router me me'"
    using router_codec.reads_all[of me me0] assms(2,3) by blast
  obtain a b c where h: "state_hash_matching sh (any_state_hash sh) me = Inr (matching_entries (me_shardId me) a b c)"
    "state_hash_matching sh (any_state_hash sh) me' = Inr (matching_entries (me_shardId me) a b c)"
    using same_router_hashes[OF assms(2) me'(2)] by blast
  have "fits 4 (me_shardId me)" using assms(2) by (simp add: router_fits_def)
  then have "merge_state_hash_pieces [write_state_hashes (state_hash_risk sh re) @ z,
      write_state_hashes (matching_entries (me_shardId me) a b c) @ z'] =
      Inr (state_hash_risk sh re @ matching_entries (me_shardId me) a b c)" for z z'
    by (simp add: merge_state_hash_pieces_def state_hashes_codec.exact risk_codes_fit[OF assms(5)] matching_codes_fit merge_codes)
  moreover have "write_state_hashes r \<noteq> []" for r by (simp add: write_state_hashes_def)
  then obtain z z' where "\<forall>evs. evs = report_events nodes 0 (write_state_hashes (state_hash_risk sh re)) @
        report_events nodes' 1024 (write_state_hashes (matching_entries (me_shardId me) a b c)) \<or>
      evs = report_events nodes' 1024 (write_state_hashes (matching_entries (me_shardId me) a b c)) @
        report_events nodes 0 (write_state_hashes (state_hash_risk sh re)) \<longrightarrow>
      report_sections evs = [write_state_hashes (state_hash_risk sh re) @ replicate z 0,
        write_state_hashes (matching_entries (me_shardId me) a b c) @ replicate z' 0]"
    using report_sections_two[of "write_state_hashes (state_hash_risk sh re)"
        "write_state_hashes (matching_entries (me_shardId me) a b c)" 0 1024 nodes nodes'] by fastforce
  ultimately show ?thesis using f me' h by auto
qed

theorem state_hashes_survive_snapshot_witness:
  "\<forall>sh. \<exists>files' me' mr. store_data sample_lz4 (3, MATCHING_ENGINE_ROUTER, 0) (write_router Snapshot_Files.sample_router) (\<lambda>_. None) = (files', True) \<and>
    load_data sample_lz4 (3, MATCHING_ENGINE_ROUTER, 0) (read_router (Snapshot_Files.sample_router\<lparr>me_orderBooks := []\<rparr>)) files' = Inr me' \<and>
    state_hash_matching sh (any_state_hash sh) Snapshot_Files.sample_router = Inr mr \<and>
    state_hash_matching sh (any_state_hash sh) me' = Inr mr"
proof -
  have "fits 4 (re_shardId sample_risk_engine)" by (simp add: sample_risk_engine_def fits_def)
  with state_hashes_survive_snapshot[OF sample_lz4_ok, of Snapshot_Files.sample_router] sample_router_stores
  show ?thesis by blast
qed

text \<open>Maps that \<open>HashingUtils\<close> hashes have the same hash in every iteration order.\<close>

lemma map_state_hash_order:
  assumes "mset m = mset m'"
  shows "map_state_hash kh vh m = map_state_hash kh vh m'"
proof -
  have "fold (\<lambda>(k, v) h. h XOR push_bit 1 (kh k XOR scast (vh v))) m = fold (\<lambda>(k, v) h. h XOR push_bit 1 (kh k XOR scast (vh v))) m'"
    by (rule fold_multiset_equiv[OF _ assms]) (auto simp: fun_eq_iff ac_simps)
  then show ?thesis by (simp add: map_state_hash_def)
qed

text \<open>\<open>std::hash\<close> of the usual libraries: the value itself.\<close>

definition identity_hash :: std_hash where
  "identity_hash = \<lparr>sh_int32 = word_of_int, sh_int64 = word_of_int, sh_uint8 = word_of_int\<rparr>"

definition user_after :: "order_command list \<Rightarrow> user_profile option" where
  "user_after cmds = (case run_commands sample_env new_naive_book naive_ops (sample_user 1 # cmds) sample_exchange of
     Inr (out, ec) \<Rightarrow> um_find (re_userProfiles (hd (ec_riskEngines ec))) 1 | Inl _ \<Rightarrow> None)"

text \<open>
  A user who deposits two currencies, in one order or in the other: the same accounts, counter,
  positions and status, but not the same state hash.
\<close>

lemma deposits_in_either_order:
  "\<exists>up up'. user_after [sample_deposit 1 11 1000 1, sample_deposit 1 15 500 2] = Some up \<and>
    user_after [sample_deposit 1 15 500 1, sample_deposit 1 11 1000 2] = Some up' \<and>
    up' = up\<lparr>up_accounts := rev (up_accounts up)\<rparr> \<and> um_find (up_accounts up') = um_find (up_accounts up) \<and>
    user_profile_state_hash identity_hash up \<noteq> user_profile_state_hash identity_hash up'"
proof -
  let ?up = "\<lparr>up_uid = 1, up_positions = [], up_adjustmentsCounter = 2, up_accounts = [(11, 1000), (15, 500)], up_userStatus = ACTIVE\<rparr>"
  let ?up' = "?up\<lparr>up_accounts := [(15, 500), (11, 1000)]\<rparr>"
  have "user_after [sample_deposit 1 11 1000 1, sample_deposit 1 15 500 2] = Some ?up" by code_simp
  moreover have "user_after [sample_deposit 1 15 500 1, sample_deposit 1 11 1000 2] = Some ?up'" by code_simp
  moreover have "user_profile_state_hash identity_hash ?up \<noteq> user_profile_state_hash identity_hash ?up'" by code_simp
  moreover have "um_find (up_accounts ?up') = um_find (up_accounts ?up)" by (auto simp: fun_eq_iff)
  ultimately show ?thesis by (intro exI[of _ ?up] exI[of _ ?up']) simp
qed

text \<open>Odd factors can be cancelled.\<close>

lemma odd_factors:
  fixes x y :: "32 word"
  shows "31 * x = 31 * y \<longleftrightarrow> x = y" "15 * x = 15 * y \<longleftrightarrow> x = y"
proof -
  have inverses: "(3186588639 :: 32 word) * 31 = 1" "(4008636143 :: 32 word) * 15 = 1" by simp_all
  have cancel: "a * x = a * y \<longleftrightarrow> x = y" if "u * a = 1" for u a :: "32 word"
  proof
    assume "a * x = a * y"
    then have "u * a * x = u * a * y" by (simp only: mult.assoc)
    then show "x = y" by (simp only: that mult_1)
  qed simp
  show "31 * x = 31 * y \<longleftrightarrow> x = y" by (rule cancel[OF inverses(1)])
  show "15 * x = 15 * y \<longleftrightarrow> x = y" by (rule cancel[OF inverses(2)])
qed

lemma stream_cancel:
  fixes r r' :: "32 word"
  shows "fold (\<lambda>h r. r * 31 + h) hs r = fold (\<lambda>h r. r * 31 + h) hs r' \<longleftrightarrow> r = r'"
proof (induction hs arbitrary: r r')
  case (Cons h hs)
  then show ?case using odd_factors(1)[of r r'] by (simp add: mult.commute)
qed simp

lemma stream_swap:
  fixes a b r :: "32 word"
  shows "(r * 31 + a) * 31 + b = (r * 31 + b) * 31 + a \<longleftrightarrow> 2 * (a - b) = 0"
  using odd_factors(2)[of "2 * a" "2 * b"] by (simp add: algebra_simps)

text \<open>C40:
  The state hash of a user depends on the iteration order of an unordered map. For any user and any
  \<open>std::hash\<close>, exchange two accounts that follow each other in the iteration: the hash stays the
  same only if twice the difference of the hashes of the two entries is zero (as 32-bit words),
  that is, if they are equal or differ in the highest bit only. All other pairs of accounts give
  equal users different hashes.
\<close>

theorem account_hash_depends_on_order:
  "user_profile_state_hash sh (up\<lparr>up_accounts := before_them @ a # b # after_them\<rparr>) =
   user_profile_state_hash sh (up\<lparr>up_accounts := before_them @ b # a # after_them\<rparr>) \<longleftrightarrow>
   2 * (account_hash sh a - account_hash sh b) = 0"
proof -
  have "user_profile_state_hash sh (up\<lparr>up_accounts := xs\<rparr>) = user_profile_state_hash sh (up\<lparr>up_accounts := ys\<rparr>) \<longleftrightarrow>
      accounts_state_hash sh xs = accounts_state_hash sh ys" for xs ys
    by (simp add: user_profile_state_hash_def objects_hash_def odd_factors)
  then show ?thesis by (simp only: accounts_state_hash_def hash_stream_def stream_cancel stream_swap
      list.map map_append fold_append fold_simps comp_apply)
qed

end
