(* ===== verification/Spec2Isabelle.thy ===== *)
theory Spec2Isabelle
  imports Naive_Exchange Margin_Conservation Risk_Correct Services_Correct Art_Skip Direct_Correct Journal Api_Correct Journal_Correct Api_Promises Reports_Correct Two_Step_Calls Grouping Events_Told State_Hash_Correct
begin

text \<open>
This library verifies the core of the exchange under \<open>src/src/exchange/core\<close> and
  \<open>src/include/exchange/core\<close>, a C++ port of exchange-core.

  The program. A ring buffer carries \<open>OrderCommand\<close>s through stages. The risk engines (stage R1)
  check a command and hold the funds of an order; the matching engine routers give it to the order
  book of its symbol, which matches it, stores its rest and chains \<open>MatcherTradeEvent\<close>s to it;
  the risk engines (stage R2) work off the events and move the money. Users and symbols are added
  and reports are asked for by binary messages that arrive in frames of several commands. Before
  R1 a grouping processor numbers groups of commands, and a journal is written beside R1; R1 and R2
  of a risk engine run in one thread, group by group. Clients publish commands through
  \<open>ExchangeApi\<close> and get promises for the results; after R2 the results go to the promises and to the
  client's event handler. The engines can be stored as snapshots and brought up to date from the
  journal.

  Theories and code.
  \<^item> \<open>Prelude\<close>: exceptions as the left side of a sum with \<open>bindE\<close>, unordered maps in iteration
    order, maps sorted by a comparison, and their lemmas. \<open>Samples\<close>: data of the witnesses.
  \<^item> \<open>Types\<close>: the enumerations of \<open>common/\<close> and \<open>common/cmd/\<close> with their codes, and the records of
    orders, events, commands, symbols and market data. \<open>Core_Arithmetic\<close>:
    \<open>utils/CoreArithmeticUtils\<close>.
  \<^item> \<open>Events_Helper\<close>: \<open>OrderBookEventsHelper\<close> with its pool chain and the binary events.
  \<^item> \<open>Orders_Bucket\<close>: \<open>OrdersBucket\<close>, over a heap of orders that buckets and index point into.
  \<^item> \<open>Book_Spec\<close>, \<open>Flat_Book\<close>, \<open>Flat_Inv\<close>: the specification of a book, the two sides as lists of
    orders in price-time order, its operations, and that they keep it sorted and uncrossed.
  \<^item> \<open>Order_Book_Interface\<close>, \<open>Order_Book_Laws\<close>: \<open>IOrderBook\<close> as a record of operations, the static
    \<open>ProcessCommand\<close>, and the locale \<open>order_book_contract\<close>: on the commands it admits, an
    implementation refines the flat book; \<open>order_book_impl\<close> is the case that admits all of them. The
    laws of a book are proved once in its context.
  \<^item> \<open>Naive_Book\<close> to \<open>Naive_Correct\<close>: \<open>OrderBookNaiveImpl\<close>, its invariant (index, buckets and heap
    agree), the refinement of every operation, the interpretation of the locale, and the properties.
  \<^item> \<open>Art_Cells\<close>, \<open>Art_Tree\<close>: the four node classes of \<open>collections/art\<close> as containers of children, and
    \<open>LongAdaptiveRadixTreeMap\<close> with the algorithms of its nodes. \<open>Art_Inv\<close>: the invariant, lookup,
    insertion, removal; \<open>Art_Order\<close>, \<open>Art_Near\<close>: entries in order, neighbours. \<open>Price_Map\<close>: a locale for
    what the direct book asks of a price index; \<open>Art_Map\<close> interprets it. \<open>Art_Skip\<close>: the search
    around an absent key.
  \<^item> \<open>Direct_Book\<close>: \<open>OrderBookDirectImpl\<close>, whose orders are doubly linked from the best to the worst
    and found through buckets in two radix trees, over heaps of orders and buckets.
    \<open>Direct_Inv\<close>, \<open>Direct_Data\<close>: its invariant, the links apart from the data they lead to.
    \<open>Direct_Steps\<close>, \<open>Direct_Insert\<close>, \<open>Direct_Match\<close>, \<open>Direct_Taker\<close>: what \<open>RemoveOrder\<close>,
    \<open>insertOrder\<close>, the matching loop and \<open>checkBudgetToFill\<close> do to it. \<open>Direct_Abs\<close>,
    \<open>Direct_Commands\<close>, \<open>Direct_L2\<close>: the flat book it stands for, the commands and queries, the
    interpretation of the locale; \<open>Direct_Correct\<close>: the properties, with the agreement of both books.
  \<^item> \<open>Position\<close>: \<open>SymbolPositionRecord\<close>. \<open>User_Service\<close>: \<open>UserProfile\<close>, \<open>UserProfileService\<close>,
    \<open>SymbolSpecificationProvider\<close>. \<open>Binary_Commands\<close>: \<open>BinaryCommandsProcessor\<close>.
    \<open>Unsafe_Utils\<close>: \<open>UnsafeUtils\<close>, compare-exchange loops as a step relation.
  \<^item> \<open>Risk_Engine\<close>: R1 of \<open>RiskEngine\<close>; \<open>Risk_Transfers\<close>: its R2; \<open>Matching_Router\<close>:
    \<open>MatchingEngineRouter\<close>; \<open>Exchange_Engine\<close>: the stages of \<open>ExchangeCore\<close> in sequence.
  \<^item> \<open>Risk_Conservation\<close>, \<open>Exchange_Conservation\<close>: where the money of a command is at each stage;
    the locale \<open>exchange_books\<close> proves that every command keeps the balance of each currency for
    any implementation of the books, \<open>Naive_Exchange\<close> interprets it. \<open>Margin_Conservation\<close>: the
    wealth of all parties is constant under R2 of a futures contract.
  \<^item> \<open>Risk_Correct\<close>, \<open>Services_Correct\<close>: the properties of the risk engine and of the services.
  \<^item> \<open>Grouping\<close>: \<open>GroupingProcessor\<close>, its rounds over the commands that are available as a step relation,
    and \<open>SharedPool::PutChain\<close>. \<open>Two_Step\<close>: \<open>TwoStepMasterProcessor\<close> and \<open>TwoStepSlaveProcessor\<close>
    over any handlers, with the locale \<open>two_step_handlers\<close> for invariants of the handlers;
    \<open>Two_Step_Correct\<close> interprets it on a log of the calls and on the stages of the exchange;
    \<open>Two_Step_Calls\<close>: the exact sequence of the calls.
  \<^item> \<open>Event_Handlers\<close>: \<open>SimpleEventsProcessor\<close>, \<open>ResultsHandler\<close>, as lists of calls of the client's
    \<open>IEventsHandler\<close>; \<open>Events_Told\<close>: what the client is told is what the book did.
  \<^item> \<open>Bytes_Codec\<close>: \<open>VectorBytesIn\<close>, \<open>VectorBytesOut\<close> and \<open>SerializationUtils\<close>; the locales \<open>codec\<close>,
    \<open>exact_codec\<close>, \<open>map_codec\<close> say that reading inverts writing, and every format is an
    interpretation built from those of its parts. \<open>Serialization\<close>: users, positions, symbols, prices,
    transfers, the risk engine. \<open>Naive_Snapshot\<close>, \<open>Direct_Snapshot\<close>, \<open>Snapshot\<close>: the two books
    behind \<open>IOrderBook::Create\<close> and the matching engine; a loaded book has other addresses and
    stands for the same flat book. \<open>Long_Arrays\<close>: arrays of words with and without LZ4.
  \<^item> \<open>Binary_Messages\<close>: \<open>common/api/binary\<close>. \<open>Reports\<close>: \<open>common/api/reports\<close>, queries, answers,
    sections and merging; \<open>Spot_Only\<close>: no positions without margin trading; \<open>Reports_Correct\<close>: the
    reports are exact, for both books by the locale \<open>report_books\<close>.
  \<^item> \<open>State_Hash\<close>: the \<open>GetStateHash\<close> methods, \<open>HashingUtils\<close> and the report of state hashes;
    \<open>State_Hash_Correct\<close>: they depend on the contents of the books only, by the locale \<open>hashed_books\<close>.
  \<^item> \<open>Ring_Buffer\<close>: what \<open>ExchangeApi\<close> asks of the ring buffer. \<open>Exchange_Api\<close>: its translators,
    batches, binary transfers, queries, persisting, replay and promises; \<open>Api_Correct\<close>: messages
    arrive; \<open>Api_Promises\<close>: promises are fulfilled.
  \<^item> \<open>Snapshot_Files\<close>, \<open>Journal\<close>: \<open>DiskSerializationProcessor\<close>, its snapshot files, its buffer, its
    journal files and their replay, over a map from names to bytes; \<open>Journal_Correct\<close>: what is
    replayed, and what is not.

  What the lemmas show. Both books refine the flat book for every command, so they agree, and price-time
  priority, all-or-nothing budgets, exact cancels and an uncrossed book follow from short proofs
  over lists. Holds, the orders at rest and the releases of the events balance per command, so
  that no sequence of commands creates or destroys money, with two exceptions that are proved as
  such: bids of type \<open>IOC_BUDGET\<close> and orders of a negative size. The radix tree is a sorted map on keys that are not negative. Concurrent writes to a command
  agree with sequential ones. The two-step processors call R1 and R2 in the order that groups
  promise, and the money is kept for every way in which the rounds fall; the results are those of
  the sequential pipeline when each round has one command. Every byte format is read back as it was
  written, so stored engines answer as before, messages arrive and a journal is replayed; every
  promise is fulfilled once; reports show the state they are about; and the client is told of every
  unit of every order. Other behaviour that looks unintended is proved too: the margin check
  forgets the positions that are visited before the order's own, the state check of positions refuses reachable positions, a frame
  that announces no bytes writes out of bounds, which
  neighbour of an absent key is found depends on its low byte, a round separates the commands of a
  group, so that their results depend on timing, the state hash of a user depends on the order of
  its accounts, a snapshot of more than 100,000,000 bytes is stored and cannot be loaded, replayed binary messages never complete, and a
  restarted processor refuses to journal.

  Modelling. Amounts, prices and sizes are unbounded integers: the code's \<open>int64_t\<close> sums are assumed
  not to overflow. Where values are stored in bytes their width is kept, and the round trips are for
  values that fit. Loops are structural recursions over the lists they traverse, or recursions with
  a measure (the two-step processors); the loops of the direct book, which follow links, have fuel,
  the number of orders in its index, and it is proved to be enough on every valid book; the loops
  that read a journal have the number of bytes as fuel, which is proved enough for the files that
  the processor writes. Pointers to orders are addresses in a heap that the book owns; reading a
  deleted address is an error value, and the invariants exclude it. An unordered map is a list in
  its iteration order; every property holds for each order. (Erasing keeps the order of the list; the
  unordered map of the code swaps the last entry in.) Code that is not in the repository is a
  parameter: LZ4 (\<open>lz\<close>, with \<open>lz4_ok\<close>: decompression inverts compression), the ring buffer (\<open>rb\<close>,
  with \<open>ring_ok\<close>: claimed slots are consecutive and are published as they were filled), \<open>std::hash\<close>, the clock
  and the rounds that the sequence barriers allow. In \<open>run_command\<close> the pool node of an event, message
  factories, contents of reports and the success of snapshots are fields of \<open>core_env\<close>; the theories of
  messages, reports and snapshots model them on their own.

  Restrictions of the commands. No stage of the code enforces these, so they are hypotheses of the
  theorems, not facts: \<open>placeable\<close> (an order to place has a positive size) for both books; in addition
  \<open>direct_takes_new\<close> and \<open>direct_takes_move\<close> for the direct book (prices that go into a radix tree are
  not negative, and the cost of a budget order is not the number that stands for too little
  volume); \<open>fresh_command\<close> for the balance of money (positive sizes, no bid of type \<open>IOC_BUDGET\<close>,
  events and market data taken off by the grouping processor). The bounds of groups are for streams
  that never switch grouping off (\<open>always_on\<close>).

  Not modelled. The inside of the ring buffer (a submodule), threads, waiting strategies, startup and
  shutdown; printing, logging, affinity and latency tools; errors
  of the file system; object pools but the shared pool of event chains; what an exception leaves of
  the engines when the two-step processors catch it. The balance theorems are proved for one risk
  engine and one matching engine.
\<close>

end
